(* ===== verification/Prelude.thy ===== *)
theory Prelude
  imports Main "HOL-Library.Word" "HOL-Library.Signed_Division"
begin

text \<open>
  Shared types, automation and lemmas of the development.

  \<^item> Machine integers: C's fixed-width types are words. A signed C integer is the same word,
    read through \<open>sint\<close>; an unsigned one is read through \<open>uint\<close>.
  \<^item> A runtime panic (\<open>gray_panic_code_at\<close>, which never returns) is the left injection of
    a sum, carrying the panic code of the source.
  \<^item> Little-endian arrays of 64-bit limbs are lists, with the integer they denote.
\<close>

unbundle bit_operations_syntax

type_synonym u8 = "8 word"
type_synonym u32 = "32 word"
type_synonym u64 = "64 word"
type_synonym i64 = "64 word" \<comment> \<open>read through \<open>sint\<close>\<close>
type_synonym 'a panicking = "string + 'a"

text \<open>The sizes of the buffers that messages and names are written into (\<open>util/constants.h\<close>).\<close>

definition MESSAGE_BUFFER_SIZE :: nat where "MESSAGE_BUFFER_SIZE = 256"
definition MESSAGE_BUFFER_LARGE_SIZE :: nat where "MESSAGE_BUFFER_LARGE_SIZE = 512"

named_theorems wide_val "values of wide integers, by operation"

subsection \<open>Results that may panic\<close>

definition bind_panic :: "'a panicking \<Rightarrow> ('a \<Rightarrow> 'b panicking) \<Rightarrow> 'b panicking" where
  "bind_panic m f = (case m of Inl e \<Rightarrow> Inl e | Inr x \<Rightarrow> f x)"

lemma bind_panic_simps [simp]:
  "bind_panic (Inl e) f = Inl e"
  "bind_panic (Inr x) f = f x"
  by (simp_all add: bind_panic_def)

lemma bind_panic_Inr_iff: "bind_panic m f = Inr y \<longleftrightarrow> (\<exists>x. m = Inr x \<and> f x = Inr y)"
  by (cases m) simp_all

lemma bind_panic_if [simp]:
  "bind_panic (if b then Inl e else m) f = (if b then Inl e else bind_panic m f)"
  by simp

subsection \<open>Little-endian limb arrays\<close>

fun words_int :: "u64 list \<Rightarrow> int" where
  "words_int [] = 0"
| "words_int (w # ws) = uint w + 2 ^ 64 * words_int ws"

lemma uint64_bounds [simp]: "0 \<le> uint (x :: u64)" "uint (x :: u64) < 2 ^ 64"
  using uint_bounded [of x] by simp_all

lemma uint64_less [simp]: "uint (x :: u64) < 18446744073709551616"
  using uint_bounded [of x] by simp

lemma uint64_le [simp]: "uint (x :: u64) \<le> 18446744073709551615"
  using uint64_less [of x] by linarith

lemma unat_lt64: "unat (w :: u64) < 2 ^ 64"
  using unsigned_less [of w] by simp

lemma words_int_nonneg [simp]: "0 \<le> words_int ws"
  by (induction ws) simp_all

lemma words_int_less: "words_int ws < 2 ^ (64 * length ws)"
proof (induction ws)
  case Nil
  then show ?case by simp
next
  case (Cons w ws)
  have "words_int ws + 1 \<le> 2 ^ (64 * length ws)" using Cons by simp
  then have "2 ^ 64 * (words_int ws + 1) \<le> 2 ^ 64 * (2 ^ (64 * length ws) :: int)"
    by (simp only: mult_le_cancel_left) simp
  moreover have "2 ^ (64 * length (w # ws)) = 2 ^ 64 * (2 ^ (64 * length ws) :: int)"
    by (simp add: power_add)
  ultimately show ?case using uint64_bounds(2) [of w]
    by (simp only: words_int.simps distrib_left mult_1_right)
qed

lemma words_int_mod: "words_int (w # ws) mod 2 ^ 64 = uint w"
  by (simp add: mod_pos_pos_trivial)

lemma length_4_cases:
  assumes "length ws = 4"
  obtains a b c d where "ws = [a, b, c, d]"
proof -
  have "length ws = Suc (Suc (Suc (Suc 0)))" using assms by simp
  then show ?thesis using that by (auto simp only: length_Suc_conv length_0_conv)
qed

lemma words_int_append: "words_int (xs @ ys) = words_int xs + 2 ^ (64 * length xs) * words_int ys"
  by (induction xs) (simp_all add: power_add algebra_simps)

lemma words_int_inject: "length xs = length ys \<Longrightarrow> words_int xs = words_int ys \<longleftrightarrow> xs = ys"
proof (induction xs ys rule: list_induct2)
  case Nil
  then show ?case by simp
next
  case (Cons x xs y ys)
  have "x = y \<and> words_int xs = words_int ys" if eq: "words_int (x # xs) = words_int (y # ys)"
  proof -
    have "words_int (x # xs) mod 2 ^ 64 = uint x" "words_int (y # ys) mod 2 ^ 64 = uint y"
      by (simp_all add: mod_pos_pos_trivial)
    with eq have "uint x = uint y" by simp
    moreover from eq this have "words_int xs = words_int ys" by simp
    ultimately show ?thesis by (simp add: word_uint_eq_iff)
  qed
  with Cons.IH show ?case by auto
qed

lemma words_int_zero_iff: "words_int ws = 0 \<longleftrightarrow> (\<forall>w \<in> set ws. w = 0)"
proof (induction ws)
  case (Cons w ws)
  have "uint w + 2 ^ 64 * words_int ws = 0 \<longleftrightarrow> uint w = 0 \<and> words_int ws = 0"
    using words_int_nonneg [of ws] uint64_bounds(1) [of w] by (auto simp: add_nonneg_eq_0_iff)
  with Cons.IH show ?case by (simp add: uint_0_iff)
qed simp

subsection \<open>Wrap-around and reduction modulo a power of two\<close>

lemma take_bit_int_eq_self_iff':
  "take_bit n (k :: int) = k \<longleftrightarrow> 0 \<le> k \<and> k < 2 ^ n"
  by (rule take_bit_int_eq_self_iff)

lemma signed_take_bit_eq_self: "- (2 ^ n) \<le> k \<Longrightarrow> k < 2 ^ n \<Longrightarrow> signed_take_bit n (k :: int) = k"
  by (simp add: signed_take_bit_int_eq_self)

lemma take_bit_unique:
  assumes "0 \<le> (x :: int)" "x < 2 ^ n" "x = y + 2 ^ n * z"
  shows "x = take_bit n y"
proof -
  have "take_bit n x = take_bit n y"
    using assms(3) by (simp add: take_bit_eq_mod)
  moreover have "take_bit n x = x" using assms(1,2) by (simp add: take_bit_int_eq_self)
  ultimately show ?thesis by simp
qed

lemma signed_take_bit_unique:
  assumes "- (2 ^ n) \<le> (x :: int)" "x < 2 ^ n" "x = y + 2 ^ Suc n * z"
  shows "x = signed_take_bit n y"
proof -
  have "take_bit (Suc n) x = take_bit (Suc n) y"
    using assms(3) by (simp add: take_bit_eq_mod del: power_Suc)
  then have "signed_take_bit n x = signed_take_bit n y"
    by (simp add: signed_take_bit_eq_iff_take_bit_eq)
  moreover have "signed_take_bit n x = x" using assms(1,2) by (simp add: signed_take_bit_int_eq_self)
  ultimately show ?thesis by simp
qed

text \<open>The integer of a limb array whose top limb is signed.\<close>

lemma sint64_uint: "sint (x :: i64) = uint x - (if sint x < 0 then 2 ^ 64 else 0)"
proof -
  have "sint x = signed_take_bit 63 (uint x)" by (simp add: sint_uint)
  also have "\<dots> = uint x - (if bit (uint x) 63 then 2 ^ 64 else 0)"
    using take_bit_int_eq_self [of "uint x" 64] uint_bounded [of x]
    by (simp add: signed_take_bit_eq_take_bit_minus)
  finally have s: "sint x = uint x - (if bit (uint x) 63 then 2 ^ 64 else 0)" .
  show ?thesis
  proof (cases "bit (uint x) 63")
    case True
    then have "sint x < 0" using s uint64_less [of x] by simp
    with True s show ?thesis by simp
  next
    case False
    then have "\<not> sint x < 0" using s by simp
    with False s show ?thesis by simp
  qed
qed

lemma sint64_bounds: "- (2 ^ 63) \<le> sint (x :: i64)" "sint x < 2 ^ 63"
  using sint_greater_eq [of x] sint_less [of x] by simp_all

lemma sint64_cases:
  "sint x < 0 \<Longrightarrow> sint (x :: i64) = uint x - 2 ^ 64"
  "\<not> sint x < 0 \<Longrightarrow> sint (x :: i64) = uint x"
  by (subst sint64_uint, simp)+

lemma sint64_nonneg_iff: "0 \<le> sint (x :: i64) \<longleftrightarrow> uint x < 2 ^ 63"
proof -
  have "(2::int) ^ 64 = 2 * 2 ^ 63" by simp
  then show ?thesis
    using sint64_cases [of x] sint64_bounds [of x]
    by (cases "sint x < 0") (auto simp del: power_numeral power_numeral_even power_numeral_odd)
qed

lemma signed_words_int:
  "words_int ws + 2 ^ (64 * length ws) * sint (x :: i64)
     = signed_take_bit (64 * length ws + 63) (words_int (ws @ [x]))"
proof (rule signed_take_bit_unique)
  define B :: int where "B = 2 ^ (64 * length ws)"
  have b: "0 \<le> words_int ws" "words_int ws < B" using words_int_less [of ws] by (simp_all add: B_def)
  have p: "2 ^ (64 * length ws + 63) = B * 2 ^ 63" by (simp add: B_def power_add)
  have "B * sint x + B \<le> B * 2 ^ 63"
    using sint64_bounds(2) [of x] mult_left_mono [of "sint x + 1" "2 ^ 63" B] by (simp add: B_def distrib_left)
  then show "words_int ws + 2 ^ (64 * length ws) * sint x < 2 ^ (64 * length ws + 63)"
    unfolding p B_def [symmetric] using b by linarith
  have "B * - (2 ^ 63) \<le> B * sint x"
    using sint64_bounds(1) [of x] by (intro mult_left_mono) (simp_all add: B_def)
  then show "- (2 ^ (64 * length ws + 63)) \<le> words_int ws + 2 ^ (64 * length ws) * sint x"
    unfolding p B_def [symmetric] using b by linarith
  show "words_int ws + 2 ^ (64 * length ws) * sint x
      = words_int (ws @ [x]) + 2 ^ Suc (64 * length ws + 63) * (if sint x < 0 then - 1 else 0)"
    by (subst sint64_uint) (simp add: words_int_append power_add algebra_simps)
qed

subsection \<open>Half words\<close>

definition low_half :: "u64 \<Rightarrow> u64" where
  "low_half x = x AND 0xFFFFFFFF"

definition high_half :: "u64 \<Rightarrow> u64" where
  "high_half x = drop_bit 32 x"

lemma uint_low_half: "uint (low_half x) = uint x mod 2 ^ 32"
proof -
  have "low_half x = take_bit 32 x"
    by (simp add: low_half_def take_bit_eq_mask mask_eq_exp_minus_1)
  then show ?thesis by (simp only: unsigned_take_bit_eq) (simp add: take_bit_eq_mod)
qed

lemma uint_high_half: "uint (high_half x) = uint x div 2 ^ 32"
  unfolding high_half_def by (simp only: unsigned_drop_bit_eq) (simp add: drop_bit_eq_div take_bit_int_eq_self)

end
