(* ===== verification/Limbs.thy ===== *)
theory Limbs
  imports Prelude
begin

text \<open>
  The limb loops of \<open>grayc/src/runtime/bigint.h\<close>: carry and borrow propagation, the
  schoolbook product and the binary long division, over little-endian lists of 64-bit limbs.
  Each loop of the source is a recursive function; the lemmas give the integer it computes.
\<close>

subsection \<open>Single limb facts\<close>

lemma uint64_add: "uint (a + b :: u64) = (if uint a + uint b < 2 ^ 64 then uint a + uint b else uint a + uint b - 2 ^ 64)"
  using uint_bounded [of a] uint_bounded [of b]
  by (auto simp: uint_word_ariths mod_add_if_z)

lemma uint64_sub: "uint (a - b :: u64) = (if uint b \<le> uint a then uint a - uint b else uint a - uint b + 2 ^ 64)"
  by (simp add: uint_sub_if')

lemma uint64_not: "uint (NOT a :: u64) = 2 ^ 64 - 1 - uint a"
proof -
  have "NOT a = - 1 - a" by (simp add: not_eq_complement)
  moreover have "uint (- 1 :: u64) = 2 ^ 64 - 1" by (simp add: unsigned_minus_1_eq_mask mask_eq_exp_minus_1)
  ultimately show ?thesis by (simp add: uint64_sub)
qed

lemma uint64_add_small: "uint a + uint b < 2 ^ 64 \<Longrightarrow> uint (a + b :: u64) = uint a + uint b"
  by (simp add: uint64_add)

lemma uint64_mul_small: "uint a * uint b < 2 ^ 64 \<Longrightarrow> uint (a * b :: u64) = uint a * uint b"
  by (simp add: uint_word_ariths)

text \<open>The high limb of a 64 by 64 bit product, from 32-bit halves, as every multiply of the
  source computes it.\<close>

definition mul_hi_part :: "u64 \<Rightarrow> u64 \<Rightarrow> u64" where
  "mul_hi_part left right =
     (let left_low = low_half left; left_high = high_half left;
          right_low = low_half right; right_high = high_half right;
          product_low_low = left_low * right_low;
          product_low_high = left_low * right_high;
          product_high_low = left_high * right_low;
          product_high_high = left_high * right_high;
          middle = product_low_high + high_half product_low_low
      in product_high_high + high_half middle
           + high_half (low_half middle + product_high_low))"

lemma half_bounds: "0 \<le> uint (x :: u64) div 2 ^ 32" "uint x div 2 ^ 32 < 2 ^ 32"
proof -
  show "0 \<le> uint x div 2 ^ 32" by (simp add: pos_imp_zdiv_nonneg_iff)
  have "uint x div 2 ^ 32 \<le> 18446744073709551615 div 2 ^ 32"
    by (rule zdiv_mono1) simp_all
  then show "uint x div 2 ^ 32 < 2 ^ 32" by simp
qed

lemma half_product_bound:
  assumes "0 \<le> (a::int)" "a < 2 ^ 32" "0 \<le> (b::int)" "b < 2 ^ 32"
  shows "a * b \<le> 18446744065119617025"
proof -
  have "a * b \<le> 4294967295 * 4294967295"
    by (rule mult_mono) (use assms in simp_all)
  then show ?thesis by simp
qed

text \<open>Adding the two middle products in two steps loses no carry.\<close>

lemma middle_carry:
  "(x + l div 2 ^ 32) div 2 ^ 32 + ((x + l div 2 ^ 32) mod 2 ^ 32 + y) div 2 ^ 32
     = ((x + y) * 2 ^ 32 + (l::int)) div 2 ^ 64"
proof -
  define m where "m = x + l div 2 ^ 32"
  have "((x + y) * 2 ^ 32 + l) div 2 ^ 64 = (((x + y) * 2 ^ 32 + l) div 2 ^ 32) div 2 ^ 32"
    using zdiv_zmult2_eq [of "2 ^ 32" "(x + y) * 2 ^ 32 + l" "2 ^ 32"] by simp
  also have "((x + y) * 2 ^ 32 + l) div 2 ^ 32 = m + y" by (simp add: m_def)
  also have "(m + y) div 2 ^ 32 = m div 2 ^ 32 + (m mod 2 ^ 32 + y) div 2 ^ 32"
    using div_mult_self3 [of "2 ^ 32" "m div 2 ^ 32" "m mod 2 ^ 32 + y"] by simp
  finally show ?thesis by (simp only: m_def)
qed

lemma mul_hi_part_exact:
  "2 ^ 64 * uint (mul_hi_part a b) + uint (a * b) = uint a * uint b"
proof -
  define al ah bl bh where
    "al = uint a mod 2 ^ 32" and "ah = uint a div 2 ^ 32"
    and "bl = uint b mod 2 ^ 32" and "bh = uint b div 2 ^ 32"
  have a: "uint a = 2 ^ 32 * ah + al" and b: "uint b = 2 ^ 32 * bh + bl"
    unfolding al_def ah_def bl_def bh_def by simp_all
  have bd: "0 \<le> al" "al < 2 ^ 32" "0 \<le> ah" "ah < 2 ^ 32" "0 \<le> bl" "bl < 2 ^ 32" "0 \<le> bh" "bh < 2 ^ 32"
    unfolding al_def ah_def bl_def bh_def
    using half_bounds [of a] half_bounds [of b] by simp_all
  have h: "uint (low_half a) = al" "uint (high_half a) = ah" "uint (low_half b) = bl" "uint (high_half b) = bh"
    by (simp_all only: uint_low_half uint_high_half al_def ah_def bl_def bh_def)
  have p: "0 \<le> al * bl" "0 \<le> al * bh" "0 \<le> ah * bl" "0 \<le> ah * bh"
    using bd by simp_all
  have q: "al * bl \<le> 18446744065119617025" "al * bh \<le> 18446744065119617025"
    "ah * bl \<le> 18446744065119617025" "ah * bh \<le> 18446744065119617025"
    by (rule half_product_bound; simp only: bd)+
  have pll: "uint (low_half a * low_half b) = al * bl"
    and plh: "uint (low_half a * high_half b) = al * bh"
    and phl: "uint (high_half a * low_half b) = ah * bl"
    and phh: "uint (high_half a * high_half b) = ah * bh"
    using q by (simp_all add: uint64_mul_small h)
  define mid where "mid = al * bh + al * bl div 2 ^ 32"
  have mid: "0 \<le> mid" "mid < 2 ^ 64"
    using p q by (auto simp: mid_def)
  have um: "uint (low_half a * high_half b + high_half (low_half a * low_half b)) = mid"
    using mid(2) unfolding mid_def by (subst uint64_add_small) (simp_all only: plh pll uint_high_half)
  define s where "s = mid mod 2 ^ 32 + ah * bl"
  have s: "0 \<le> s" "s < 2 ^ 64"
    using p q by (auto simp: s_def)
  have us: "uint (low_half (low_half a * high_half b + high_half (low_half a * low_half b))
              + high_half a * low_half b) = s"
    using s(2) unfolding s_def by (subst uint64_add_small) (simp_all only: um phl uint_low_half)
  define hi where "hi = ah * bh + mid div 2 ^ 32 + s div 2 ^ 32"
  have tot: "uint a * uint b = ah * bh * 2 ^ 64 + (al * bh + ah * bl) * 2 ^ 32 + al * bl"
    unfolding a b by (simp add: algebra_simps)
  have hi_eq: "hi = (uint a * uint b) div 2 ^ 64"
  proof -
    have "(ah * bh * 2 ^ 64 + (al * bh + ah * bl) * 2 ^ 32 + al * bl) div 2 ^ 64
        = ah * bh + ((al * bh + ah * bl) * 2 ^ 32 + al * bl) div 2 ^ 64"
      by (simp only: add.assoc) (rule div_mult_self3, simp)
    then show ?thesis
      using middle_carry [of "al * bh" "al * bl" "ah * bl"]
      by (simp only: tot hi_def s_def mid_def)
  qed
  have "uint a * uint b < 2 ^ 64 * 2 ^ 64"
    by (intro mult_strict_mono') simp_all
  then have "hi < 2 ^ 64"
    unfolding hi_eq by (simp add: div_less_iff_less_mult)
  moreover have "0 \<le> hi" using p mid s by (simp add: hi_def)
  moreover have "0 \<le> mid div 2 ^ 32" "0 \<le> s div 2 ^ 32" using mid s by simp_all
  ultimately have "uint (mul_hi_part a b) = hi"
    unfolding mul_hi_part_def Let_def hi_def using p(4)
    by (subst uint64_add_small; subst uint64_add_small; simp only: phh um us uint_high_half; linarith)
  moreover have "uint (a * b) = (uint a * uint b) mod 2 ^ 64"
    by (simp add: uint_word_ariths)
  ultimately show ?thesis
    by (simp only: hi_eq) simp
qed

subsection \<open>Carry, borrow and negation loops\<close>

text \<open>The loops over \<open>i < 4\<close> of the 256-bit add, subtract and negate: one limb per step.\<close>

fun add_words :: "u64 \<Rightarrow> u64 list \<Rightarrow> u64 list \<Rightarrow> u64 list" where
  "add_words carry (l # ls) (r # rs) =
     (let limb_sum = l + r + carry;
          carry' = (if limb_sum < l \<or> (carry \<noteq> 0 \<and> limb_sum = l) then 1 else 0)
      in limb_sum # add_words carry' ls rs)"
| "add_words carry _ _ = []"

fun sub_words :: "u64 \<Rightarrow> u64 list \<Rightarrow> u64 list \<Rightarrow> u64 list" where
  "sub_words borrow (l # ls) (r # rs) =
     (let difference = l - r - borrow;
          borrow' = (if l < r \<or> l - r < borrow then 1 else 0)
      in difference # sub_words borrow' ls rs)"
| "sub_words borrow _ _ = []"

fun neg_words :: "u64 \<Rightarrow> u64 list \<Rightarrow> u64 list" where
  "neg_words carry [] = []"
| "neg_words carry (w # ws) =
     (let limb_sum = NOT w + carry;
          carry' = (if limb_sum < NOT w then 1 else 0)
      in limb_sum # neg_words carry' ws)"

lemma length_add_words [simp]: "length ls = length rs \<Longrightarrow> length (add_words c ls rs) = length ls"
  by (induction c ls rs rule: add_words.induct) (simp_all add: Let_def)

lemma length_sub_words [simp]: "length ls = length rs \<Longrightarrow> length (sub_words c ls rs) = length ls"
  by (induction c ls rs rule: sub_words.induct) (simp_all add: Let_def)

lemma length_neg_words [simp]: "length (neg_words c ws) = length ws"
  by (induction c ws rule: neg_words.induct) (simp_all add: Let_def)

text \<open>A limb as an integer in range: lets linear arithmetic see the bounds.\<close>

lemma limb_cases:
  obtains n where "uint (x :: u64) = n" "0 \<le> n" "n < 2 ^ 64"
  using that [of "uint x"] by simp

lemma add_limb_step:
  assumes "uint c \<le> 1"
  shows "uint (l + r + c :: u64) + 2 ^ 64 * uint (if l + r + c < l \<or> (c \<noteq> 0 \<and> l + r + c = l) then 1 else 0 :: u64)
           = uint l + uint r + uint c"
proof -
  obtain L where L: "uint l = L" "0 \<le> L" "L < 2 ^ 64" by (rule limb_cases)
  obtain R where R: "uint r = R" "0 \<le> R" "R < 2 ^ 64" by (rule limb_cases)
  obtain C where C: "uint c = C" "0 \<le> C" "C < 2 ^ 64" by (rule limb_cases)
  show ?thesis
    using L(2,3) R(2,3) C(2,3) assms
    by (auto simp: word_less_def word_uint_eq_iff uint64_add L(1) R(1) C(1))
qed

lemma sub_limb_step:
  assumes "uint b \<le> 1"
  shows "uint (l - r - b :: u64) = uint l - uint r - uint b
           + 2 ^ 64 * uint (if l < r \<or> l - r < b then 1 else 0 :: u64)"
proof -
  obtain L where L: "uint l = L" "0 \<le> L" "L < 2 ^ 64" by (rule limb_cases)
  obtain R where R: "uint r = R" "0 \<le> R" "R < 2 ^ 64" by (rule limb_cases)
  obtain C where C: "uint b = C" "0 \<le> C" "C < 2 ^ 64" by (rule limb_cases)
  show ?thesis
    using L(2,3) R(2,3) C(2,3) assms
    by (auto simp: word_less_def uint64_sub L(1) R(1) C(1))
qed

lemma neg_limb_step:
  assumes "uint c \<le> 1"
  shows "uint (NOT w + c :: u64) + 2 ^ 64 * uint (if NOT w + c < NOT w then 1 else 0 :: u64)
           = 2 ^ 64 - 1 - uint w + uint c"
proof -
  obtain L where L: "uint w = L" "0 \<le> L" "L < 2 ^ 64" by (rule limb_cases)
  obtain C where C: "uint c = C" "0 \<le> C" "C < 2 ^ 64" by (rule limb_cases)
  show ?thesis
    using L(2,3) C(2,3) assms
    by (auto simp: word_less_def uint64_add uint64_not L(1) C(1))
qed

lemma uint_flag_le_1 [simp]: "uint (if b then 1 else 0 :: u64) \<le> 1"
  by simp

lemma add_words_value:
  "length ls = length rs \<Longrightarrow> uint c \<le> 1 \<Longrightarrow>
   \<exists>k. words_int (add_words c ls rs) = words_int ls + words_int rs + uint c + 2 ^ (64 * length ls) * k"
proof (induction c ls rs rule: add_words.induct)
  case (1 c l ls r rs)
  define s where "s = l + r + c"
  define d :: u64 where "d = (if l + r + c < l \<or> (c \<noteq> 0 \<and> l + r + c = l) then 1 else 0)"
  have step: "uint s + 2 ^ 64 * uint d = uint l + uint r + uint c"
    unfolding s_def d_def by (rule add_limb_step) (rule "1.prems")
  have "uint d \<le> 1" by (simp add: d_def)
  with "1.IH" [OF refl refl] "1.prems" obtain k where
    k: "words_int (add_words d ls rs) = words_int ls + words_int rs + uint d + 2 ^ (64 * length ls) * k"
    unfolding s_def [symmetric] d_def by auto
  have "words_int (add_words c (l # ls) (r # rs)) = uint s + 2 ^ 64 * words_int (add_words d ls rs)"
    by (simp add: Let_def s_def d_def)
  also have "\<dots> = words_int (l # ls) + words_int (r # rs) + uint c + 2 ^ (64 * length (l # ls)) * k"
    using step by (simp add: k power_add algebra_simps)
  finally show ?case by blast
qed (auto intro: exI [of _ "- uint c" for c])

lemma sub_words_value:
  "length ls = length rs \<Longrightarrow> uint b \<le> 1 \<Longrightarrow>
   \<exists>k. words_int (sub_words b ls rs) = words_int ls - words_int rs - uint b + 2 ^ (64 * length ls) * k"
proof (induction b ls rs rule: sub_words.induct)
  case (1 b l ls r rs)
  define s where "s = l - r - b"
  define d :: u64 where "d = (if l < r \<or> l - r < b then 1 else 0)"
  have step: "uint s = uint l - uint r - uint b + 2 ^ 64 * uint d"
    unfolding s_def d_def by (rule sub_limb_step) (rule "1.prems")
  have "uint d \<le> 1" by (simp add: d_def)
  with "1.IH" [OF refl refl] "1.prems" obtain k where
    k: "words_int (sub_words d ls rs) = words_int ls - words_int rs - uint d + 2 ^ (64 * length ls) * k"
    unfolding s_def [symmetric] d_def by auto
  have "words_int (sub_words b (l # ls) (r # rs)) = uint s + 2 ^ 64 * words_int (sub_words d ls rs)"
    by (simp add: Let_def s_def d_def)
  also have "\<dots> = words_int (l # ls) - words_int (r # rs) - uint b + 2 ^ (64 * length (l # ls)) * k"
    using step by (simp add: k power_add algebra_simps)
  finally show ?case by blast
qed (auto intro: exI [of _ "uint c" for c])

lemma neg_words_value:
  "uint c \<le> 1 \<Longrightarrow>
   \<exists>k. words_int (neg_words c ws) = uint c - 1 - words_int ws + 2 ^ (64 * length ws) * k"
proof (induction c ws rule: neg_words.induct)
  case (1 c)
  then show ?case by (auto intro: exI [of _ "1 - uint c"])
next
  case (2 c w ws)
  define s where "s = NOT w + c"
  define d :: u64 where "d = (if NOT w + c < NOT w then 1 else 0)"
  have step: "uint s + 2 ^ 64 * uint d = 2 ^ 64 - 1 - uint w + uint c"
    unfolding s_def d_def by (rule neg_limb_step) (rule "2.prems")
  have "uint d \<le> 1" by (simp add: d_def)
  with "2.IH" [OF refl refl] obtain k where
    k: "words_int (neg_words d ws) = uint d - 1 - words_int ws + 2 ^ (64 * length ws) * k"
    unfolding s_def [symmetric] d_def by auto
  have "words_int (neg_words c (w # ws)) = uint s + 2 ^ 64 * words_int (neg_words d ws)"
    by (simp add: Let_def s_def d_def)
  also have "\<dots> = uint c - 1 - words_int (w # ws) + 2 ^ (64 * length (w # ws)) * k"
    using step by (simp add: k power_add algebra_simps)
  finally show ?case by blast
qed

subsection \<open>The schoolbook product\<close>

text \<open>
  Row \<open>i\<close> of the product reads the limbs of \<open>left\<close> and updates \<open>result.w[i..]\<close> only, for
  \<open>j < n - i\<close>: \<open>mul_row\<close> works on that suffix, and \<open>mul_rows\<close> keeps the limb a row has
  finished and moves to the next one.
\<close>

fun mul_row :: "u64 \<Rightarrow> u64 \<Rightarrow> u64 list \<Rightarrow> u64 list \<Rightarrow> u64 list" where
  "mul_row right carry (l # ls) (previous_limb # ps) =
     (let low_limb = l * right;
          hi_part = mul_hi_part l right;
          limb = previous_limb + low_limb + carry;
          carry' = hi_part + (if limb < previous_limb + low_limb then 1 else 0);
          carry'' = (if previous_limb + low_limb < previous_limb then carry' + 1 else carry')
      in limb # mul_row right carry'' ls ps)"
| "mul_row right carry _ ps = ps"

fun mul_rows :: "u64 list \<Rightarrow> u64 list \<Rightarrow> u64 list \<Rightarrow> u64 list" where
  "mul_rows left (right # rights) result =
     (case mul_row right 0 left result of
        [] \<Rightarrow> []
      | limb # rest \<Rightarrow> limb # mul_rows left rights rest)"
| "mul_rows left [] result = result"

lemma length_mul_row: "length (mul_row r c ls ps) = length ps"
  by (induction r c ls ps rule: mul_row.induct) (simp_all add: Let_def)

lemma length_mul_rows [simp]: "length (mul_rows ls rs ps) = length ps"
proof (induction ls rs ps rule: mul_rows.induct)
  case (1 left right rights result)
  have "length (mul_row right 0 left result) = length result" by (rule length_mul_row)
  with "1.IH" show ?case by (auto split: list.splits)
qed simp

lemma carry_add_small:
  assumes "uint h + uint d \<le> 2 ^ 64 - 1"
  shows "uint (h + d :: u64) = uint h + uint d"
  using assms by (simp add: uint64_add_small)

lemma limb_product_bound: "uint (a :: u64) * uint (b :: u64) \<le> (2 ^ 64 - 1) * (2 ^ 64 - 1)"
  by (rule mult_mono) simp_all

lemma mul_limb_step:
  fixes l r p c :: u64
  defines "low \<equiv> l * r"
  defines "c1 \<equiv> mul_hi_part l r + (if p + low + c < p + low then 1 else 0)"
  defines "c2 \<equiv> (if p + low < p then c1 + 1 else c1)"
  shows "uint (p + low + c) + 2 ^ 64 * uint c2 = uint p + uint l * uint r + uint c"
proof -
  obtain P where P: "uint p = P" "0 \<le> P" "P < 2 ^ 64" by (rule limb_cases)
  obtain C where C: "uint c = C" "0 \<le> C" "C < 2 ^ 64" by (rule limb_cases)
  obtain W where W: "uint low = W" "0 \<le> W" "W < 2 ^ 64" by (rule limb_cases)
  obtain H where H: "uint (mul_hi_part l r) = H" "0 \<le> H" "H < 2 ^ 64" by (rule limb_cases)
  have prod: "2 ^ 64 * H + W = uint l * uint r"
    using mul_hi_part_exact [of l r] by (simp only: low_def [symmetric] W(1) H(1))
  have hb: "2 ^ 64 * H + W \<le> (2 ^ 64 - 1) * (2 ^ 64 - 1)"
    unfolding prod by (rule limb_product_bound)
  have H1: "H \<le> 2 ^ 64 - 2"
    using hb W(2) by simp
  define f1 where "f1 = (p + low + c < p + low)"
  define f2 where "f2 = (p + low < p)"
  have f2: "uint (p + low) + (if f2 then 2 ^ 64 else 0) = P + W"
    using P W by (auto simp: f2_def word_less_def uint64_add)
  have f1: "uint (p + low + c) + (if f1 then 2 ^ 64 else 0) = uint (p + low) + C"
    using C uint64_bounds [of "p + low"] by (auto simp: f1_def word_less_def uint64_add [of "p + low"])
  obtain S where S: "uint (p + low + c) = S" "0 \<le> S" "S < 2 ^ 64" by (rule limb_cases)
  have tot: "H + (if f1 then 1 else 0) + (if f2 then 1 else 0) \<le> 2 ^ 64 - 1"
  proof -
    have "2 ^ 64 * (H + (if f1 then 1 else 0) + (if f2 then 1 else 0)) \<le> 2 ^ 64 * H + P + W + C"
      using f1 f2 S by (auto split: if_splits)
    also have "\<dots> \<le> (2 ^ 64 - 1) * (2 ^ 64 - 1) + (2 ^ 64 - 1) + (2 ^ 64 - 1)"
      using hb P C by simp
    finally show ?thesis by simp
  qed
  have "uint c2 = H + (if f1 then 1 else 0) + (if f2 then 1 else 0)"
    unfolding c2_def c1_def f1_def [symmetric] f2_def [symmetric]
    using tot H by (auto simp: uint64_add_small)
  then show ?thesis
    using f1 f2 by (auto simp: C(1) P(1) prod [symmetric] split: if_splits)
qed

lemma mul_row_value:
  "length ps \<le> length ls \<Longrightarrow>
   \<exists>k. words_int (mul_row r c ls ps) = words_int ps + words_int ls * uint r + uint c + 2 ^ (64 * length ps) * k"
proof (induction r c ls ps rule: mul_row.induct)
  case (1 r c l ls p ps)
  define low where "low = l * r"
  define s where "s = p + low + c"
  define d where "d = (let carry' = mul_hi_part l r + (if s < p + low then 1 else 0)
                       in if p + low < p then carry' + 1 else carry')"
  have step: "uint s + 2 ^ 64 * uint d = uint p + uint l * uint r + uint c"
    unfolding s_def d_def low_def Let_def by (rule mul_limb_step)
  obtain k where
    k: "words_int (mul_row r d ls ps) = words_int ps + words_int ls * uint r + uint d + 2 ^ (64 * length ps) * k"
    using "1.IH" [OF refl refl refl refl refl] "1.prems" unfolding d_def s_def low_def Let_def by auto
  have "words_int (mul_row r c (l # ls) (p # ps)) = uint s + 2 ^ 64 * words_int (mul_row r d ls ps)"
    by (simp add: Let_def s_def d_def low_def)
  also have "\<dots> = (uint s + 2 ^ 64 * uint d) + 2 ^ 64 * (words_int ps + words_int ls * uint r) + 2 ^ (64 * length (p # ps)) * k"
    by (simp add: k power_add algebra_simps)
  also have "\<dots> = words_int (p # ps) + words_int (l # ls) * uint r + uint c + 2 ^ (64 * length (p # ps)) * k"
    using step by (simp add: algebra_simps)
  finally show ?case by blast
qed (simp_all, presburger+)

lemma mul_rows_value:
  "length rs = length ps \<Longrightarrow> length ps \<le> length ls \<Longrightarrow>
   \<exists>k. words_int (mul_rows ls rs ps) = words_int ps + words_int ls * words_int rs + 2 ^ (64 * length ps) * k"
proof (induction ls rs ps rule: mul_rows.induct)
  case (1 ls r rs ps)
  obtain k where k: "words_int (mul_row r 0 ls ps) = words_int ps + words_int ls * uint r + 2 ^ (64 * length ps) * k"
    using mul_row_value [of ps ls r 0] "1.prems" by auto
  obtain x xs where x: "mul_row r 0 ls ps = x # xs" and len: "length xs = length rs"
    using "1.prems" length_mul_row [of r 0 ls ps] by (cases "mul_row r 0 ls ps") auto
  obtain k' where k': "words_int (mul_rows ls rs xs) = words_int xs + words_int ls * words_int rs + 2 ^ (64 * length xs) * k'"
    using "1.IH" [OF x] len "1.prems" by auto
  have ps: "2 ^ (64 * length ps) = 2 ^ 64 * (2 ^ (64 * length xs) :: int)"
  proof -
    have "length ps = Suc (length xs)" using len "1.prems" by simp
    then show ?thesis by (simp only: mult_Suc_right power_add)
  qed
  have "words_int (mul_rows ls (r # rs) ps) = words_int (x # xs) + 2 ^ 64 * (words_int ls * words_int rs) + 2 ^ (64 * length ps) * k'"
    unfolding ps by (simp add: x k' algebra_simps)
  also have "\<dots> = words_int ps + words_int ls * words_int (r # rs) + 2 ^ (64 * length ps) * (k + k')"
    unfolding x [symmetric] k by (simp add: algebra_simps)
  finally show ?case by blast
qed (auto intro: exI [of _ 0])

subsection \<open>Comparison from the top limb\<close>

text \<open>The division compares from limb 3 down: greater and less decide, equality goes on to the
  next limb, and equality at limb 0 counts as greater or equal.\<close>

fun geq_words_rev :: "u64 list \<Rightarrow> u64 list \<Rightarrow> bool" where
  "geq_words_rev (r # rs) (d # ds) =
     (if d < r then True
      else if r < d then False
      else if rs = [] then True
      else geq_words_rev rs ds)"
| "geq_words_rev _ _ = False"

definition geq_words :: "u64 list \<Rightarrow> u64 list \<Rightarrow> bool" where
  "geq_words rs ds = geq_words_rev (rev rs) (rev ds)"

lemma top_limb_le:
  assumes "length xs = length ys"
  shows "words_int (xs @ [x]) \<le> words_int (ys @ [y]) \<longleftrightarrow>
           uint x < uint y \<or> (uint x = uint y \<and> words_int xs \<le> words_int ys)"
proof -
  define B :: int where "B = 2 ^ (64 * length xs)"
  have b: "0 \<le> words_int xs" "words_int xs < B" "0 \<le> words_int ys" "words_int ys < B"
    using words_int_less [of xs] words_int_less [of ys] assms by (simp_all add: B_def)
  have "words_int xs + B * uint x \<le> words_int ys + B * uint y" if "uint x < uint y"
  proof -
    have "B * (uint x + 1) \<le> B * uint y" using that by (intro mult_left_mono) (auto simp: B_def)
    then show ?thesis using b unfolding distrib_left by linarith
  qed
  moreover have "\<not> words_int xs + B * uint x \<le> words_int ys + B * uint y" if "uint y < uint x"
  proof -
    have "B * (uint y + 1) \<le> B * uint x" using that by (intro mult_left_mono) (auto simp: B_def)
    then show ?thesis using b unfolding distrib_left by linarith
  qed
  ultimately show ?thesis
    using assms by (cases "uint x" "uint y" rule: linorder_cases) (auto simp: words_int_append B_def)
qed

lemma geq_words_iff:
  "length xs = length ys \<Longrightarrow> xs \<noteq> [] \<Longrightarrow> geq_words xs ys \<longleftrightarrow> words_int ys \<le> words_int xs"
proof (induction xs arbitrary: ys rule: rev_induct)
  case (snoc x xs)
  then obtain y ys' where ys: "ys = ys' @ [y]" and len: "length xs = length ys'"
    by (cases ys rule: rev_cases) auto
  have "geq_words (xs @ [x]) ys \<longleftrightarrow> y < x \<or> (y = x \<and> words_int ys' \<le> words_int xs)"
  proof (cases "xs = []")
    case True
    then show ?thesis using len by (auto simp: geq_words_def ys)
  next
    case False
    then show ?thesis using snoc.IH [OF len False] by (auto simp: geq_words_def ys)
  qed
  then show ?case using len by (simp add: ys top_limb_le word_less_def word_uint_eq_iff)
qed simp

subsection \<open>Single bits and the shift by one\<close>

fun shl1_words :: "u64 \<Rightarrow> u64 list \<Rightarrow> u64 list" where
  "shl1_words below [] = []"
| "shl1_words below (w # ws) = (push_bit 1 w OR drop_bit 63 below) # shl1_words w ws"

text \<open>\<open>remainder <<= 1\<close>, then \<open>remainder.w[0] |= bit\<close>.\<close>

fun shift_in_bit :: "u64 list \<Rightarrow> u64 \<Rightarrow> u64 list" where
  "shift_in_bit [] b = []"
| "shift_in_bit (w # ws) b = (push_bit 1 w OR b) # shl1_words w ws"

definition word_bit :: "u64 list \<Rightarrow> nat \<Rightarrow> u64" where
  "word_bit ws i = drop_bit (i mod 64) (ws ! (i div 64)) AND 1"

definition set_word_bit :: "u64 list \<Rightarrow> nat \<Rightarrow> u64 list" where
  "set_word_bit ws i = ws[i div 64 := ws ! (i div 64) OR push_bit (i mod 64) 1]"

lemma length_shl1_words [simp]: "length (shl1_words b ws) = length ws"
  by (induction b ws rule: shl1_words.induct) simp_all

lemma length_shift_in_bit [simp]: "length (shift_in_bit ws b) = length ws"
  by (cases ws) simp_all

lemma length_set_word_bit [simp]: "length (set_word_bit ws i) = length ws"
  by (simp add: set_word_bit_def)

lemma uint_drop_bit_63: "uint (drop_bit 63 (x :: u64)) = uint x div 2 ^ 63"
  by (simp only: unsigned_drop_bit_eq) (simp add: drop_bit_eq_div take_bit_int_eq_self)

lemma uint_push_1_or:
  assumes "uint b \<le> 1"
  shows "uint (push_bit 1 (x :: u64) OR b) = (2 * uint x) mod 2 ^ 64 + uint b"
proof -
  have u: "uint (push_bit 1 x) = (2 * uint x) mod 2 ^ 64"
    by (simp only: unsigned_push_bit_eq) (simp add: take_bit_eq_mod push_bit_eq_mult mult.commute)
  have e: "even ((2 * uint x) mod 2 ^ 64)" by (simp add: even_mod_4_div_2 dvd_mod)
  obtain c where c: "uint b = c" "c = 0 \<or> c = 1"
    using assms uint64_bounds(1) [of b] by (metis int_one_le_iff_zero_less order_antisym_conv order_le_less)
  show ?thesis
    using c(2) e by (simp only: unsigned_or_eq u c(1)) (auto simp: or_one_eq)
qed

lemma shl1_words_value:
  "\<exists>k. words_int (shl1_words p ws) = 2 * words_int ws + uint p div 2 ^ 63 + 2 ^ (64 * length ws) * k"
proof (induction p ws rule: shl1_words.induct)
  case (1 p)
  then show ?case by (auto intro: exI [of _ "- (uint p div 2 ^ 63)"])
next
  case (2 p w ws)
  then obtain k where k: "words_int (shl1_words w ws) = 2 * words_int ws + uint w div 2 ^ 63 + 2 ^ (64 * length ws) * k"
    by blast
  have "uint p div 2 ^ 63 \<le> 18446744073709551615 div 2 ^ 63" by (rule zdiv_mono1) simp_all
  then have "uint (drop_bit 63 p) \<le> 1" by (simp add: uint_drop_bit_63)
  note limb = uint_push_1_or [OF this, of w]
  have split: "2 * uint w = (2 * uint w) mod 2 ^ 64 + 2 ^ 64 * (uint w div 2 ^ 63)"
    using zdiv_zmult2_eq [of 2 "2 * uint w" "2 ^ 63"] mult_div_mod_eq [of "2 ^ 64" "2 * uint w"] by simp
  have "words_int (shl1_words p (w # ws))
      = (2 * uint w) mod 2 ^ 64 + uint p div 2 ^ 63 + 2 ^ 64 * words_int (shl1_words w ws)"
    using limb by (simp add: uint_drop_bit_63)
  also have "\<dots> = 2 * words_int (w # ws) + uint p div 2 ^ 63 + 2 ^ (64 * length (w # ws)) * k"
    using split by (simp add: k power_add algebra_simps)
  finally show ?case by blast
qed

lemma shift_in_bit_value:
  assumes "uint b \<le> 1" and "2 * words_int ws + uint b < 2 ^ (64 * length ws)"
  shows "words_int (shift_in_bit ws b) = 2 * words_int ws + uint b"
proof (cases ws)
  case Nil
  have "uint b < 1" using assms(2) Nil by simp
  then have "uint b = 0" using uint64_bounds(1) [of b] by linarith
  then show ?thesis using Nil by simp
next
  case (Cons w ws')
  obtain k where k: "words_int (shl1_words w ws') = 2 * words_int ws' + uint w div 2 ^ 63 + 2 ^ (64 * length ws') * k"
    using shl1_words_value by blast
  have split: "2 * uint w = (2 * uint w) mod 2 ^ 64 + 2 ^ 64 * (uint w div 2 ^ 63)"
    using zdiv_zmult2_eq [of 2 "2 * uint w" "2 ^ 63"] mult_div_mod_eq [of "2 ^ 64" "2 * uint w"] by simp
  have "words_int (shift_in_bit ws b) = (2 * uint w) mod 2 ^ 64 + uint b + 2 ^ 64 * words_int (shl1_words w ws')"
    using uint_push_1_or [OF assms(1), of w] by (simp add: Cons)
  also have "\<dots> = (2 * words_int ws + uint b) + 2 ^ (64 * length ws) * k"
    using split by (simp add: Cons k power_add algebra_simps)
  finally have "words_int (shift_in_bit ws b) = 2 * words_int ws + uint b + 2 ^ (64 * length ws) * k" .
  moreover have "words_int (shift_in_bit ws b) < 2 ^ (64 * length ws)"
    using words_int_less [of "shift_in_bit ws b"] by simp
  ultimately have "words_int (shift_in_bit ws b) = take_bit (64 * length ws) (2 * words_int ws + uint b)"
    by (rule take_bit_unique [OF words_int_nonneg, rotated])
  then show ?thesis using assms(2) by (simp add: take_bit_int_eq_self)
qed

lemma limb_bit: "k < 64 \<Longrightarrow> uint (drop_bit k w AND 1 :: u64) = (uint w div 2 ^ k) mod 2"
  by (simp only: unsigned_and_eq unsigned_drop_bit_eq)
     (simp add: drop_bit_eq_div take_bit_int_eq_self and_one_eq)

lemma words_int_div:
  assumes "i < 64 * length ws"
  shows "words_int ws div 2 ^ i mod 2 = (uint (ws ! (i div 64)) div 2 ^ (i mod 64)) mod 2"
  using assms
proof (induction ws arbitrary: i)
  case (Cons w ws)
  show ?case
  proof (cases "i < 64")
    case True
    have "(uint w + 2 ^ 64 * words_int ws) div 2 ^ i = uint w div 2 ^ i + 2 ^ (64 - i) * words_int ws"
    proof -
      have "(2::int) ^ 64 = 2 ^ i * 2 ^ (64 - i)" using True by (simp only: power_add [symmetric]) simp
      then have "uint w + 2 ^ 64 * words_int ws = uint w + 2 ^ i * (2 ^ (64 - i) * words_int ws)"
        by (simp only: mult.assoc)
      then show ?thesis by (simp only: div_mult_self2 power_not_zero) simp
    qed
    moreover have "even ((2::int) ^ (64 - i) * words_int ws)" using True by simp
    ultimately show ?thesis using True by (simp add: mod_add_eq [symmetric] even_iff_mod_2_eq_zero)
  next
    case False
    then obtain j where j: "i = 64 + j" by (metis le_add_diff_inverse not_less)
    have "(uint w + 2 ^ 64 * words_int ws) div 2 ^ (64 + j) = ((uint w + 2 ^ 64 * words_int ws) div 2 ^ 64) div 2 ^ j"
      by (simp only: power_add zdiv_zmult2_eq zero_le_power zero_le_numeral)
    also have "(uint w + 2 ^ 64 * words_int ws) div 2 ^ 64 = words_int ws"
      by simp
    finally have "(uint w + 2 ^ 64 * words_int ws) div 2 ^ (64 + j) = words_int ws div 2 ^ j" .
    moreover have "j < 64 * length ws" using Cons.prems j by simp
    moreover have "(64 + j) div 64 = Suc (j div 64)" "(64 + j) mod 64 = j mod 64" by simp_all
    ultimately show ?thesis using Cons.IH [of j] by (simp only: j words_int.simps nth_Cons_Suc)
  qed
qed simp

lemma word_bit_value: "i < 64 * length ws \<Longrightarrow> uint (word_bit ws i) = words_int ws div 2 ^ i mod 2"
  by (simp add: word_bit_def limb_bit words_int_div)

lemma words_int_update:
  "j < length ws \<Longrightarrow> words_int (ws[j := x]) = words_int ws + 2 ^ (64 * j) * (uint x - uint (ws ! j))"
proof (induction ws arbitrary: j)
  case (Cons w ws)
  show ?case
  proof (cases j)
    case (Suc n)
    then have "words_int (ws[n := x]) = words_int ws + 2 ^ (64 * n) * (uint x - uint (ws ! n))"
      using Cons by simp
    then show ?thesis
      by (simp only: Suc list_update.simps nat.case words_int.simps nth_Cons_Suc mult_Suc_right power_add)
         (simp only: algebra_simps)
  qed simp
qed simp

lemma limb_set_bit:
  assumes "k < 64" "(uint w div 2 ^ k) mod 2 = 0"
  shows "uint (w OR push_bit k 1 :: u64) = uint w + 2 ^ k"
proof -
  have "uint (push_bit k 1 :: u64) = push_bit k 1"
    using assms(1) by (simp only: unsigned_push_bit_eq) (simp add: push_bit_eq_mult take_bit_int_eq_self power_strict_increasing)
  moreover have "\<not> bit (uint w) k"
    using assms(2) by (simp add: bit_iff_odd even_iff_mod_2_eq_zero)
  moreover have "uint w OR push_bit k 1 = set_bit k (uint w)"
    by (simp only: set_bit_eq_or)
  ultimately show ?thesis
    by (simp only: unsigned_or_eq) (simp add: set_bit_eq)
qed

lemma set_word_bit_value:
  assumes "i < 64 * length ws" "words_int ws div 2 ^ i mod 2 = 0"
  shows "words_int (set_word_bit ws i) = words_int ws + 2 ^ i"
proof -
  have "(uint (ws ! (i div 64)) div 2 ^ (i mod 64)) mod 2 = 0"
    using assms by (simp add: words_int_div)
  then have "uint (ws ! (i div 64) OR push_bit (i mod 64) 1) = uint (ws ! (i div 64)) + 2 ^ (i mod 64)"
    by (intro limb_set_bit) simp_all
  moreover have "(2::int) ^ (64 * (i div 64)) * 2 ^ (i mod 64) = 2 ^ i"
    by (simp add: power_add [symmetric])
  ultimately show ?thesis
    using assms(1) by (simp add: set_word_bit_def words_int_update less_mult_imp_div_less mult.commute)
qed

end
