(* ===== verification/Long_Division.thy ===== *)
theory Long_Division
  imports Limbs
begin

text \<open>
  Binary long division, the loop \<open>gray_u128_divmod\<close> and \<open>gray_u256_divmod\<close> of
  \<open>grayc/src/runtime/bigint.h\<close> share: from the top bit down, shift a dividend bit into the
  remainder and subtract the divisor where it fits, setting the quotient bit.

  \<open>long_division\<close> is the interface one iteration has to satisfy; the loop is proved once
  against it. Both widths interpret it on their own iteration.
\<close>

text \<open>\<open>for (int bit_index = n - 1; bit_index >= 0; bit_index--)\<close>\<close>

fun long_division_loop :: "(nat \<Rightarrow> 'a \<times> 'a \<Rightarrow> 'a \<times> 'a) \<Rightarrow> nat \<Rightarrow> 'a \<times> 'a \<Rightarrow> 'a \<times> 'a" where
  "long_division_loop step 0 s = s"
| "long_division_loop step (Suc bit_index) s = long_division_loop step bit_index (step bit_index s)"

locale long_division =
  fixes val :: "'a \<Rightarrow> int"
    and width :: nat
    and zero :: 'a
    and step :: "'a \<Rightarrow> 'a \<Rightarrow> nat \<Rightarrow> 'a \<times> 'a \<Rightarrow> 'a \<times> 'a"
  assumes val_zero: "val zero = 0"
    and val_nonneg: "0 \<le> val x"
    and val_less: "val x < 2 ^ width"
    and step_fits: "i < width \<Longrightarrow> val q mod 2 ^ Suc i = 0 \<Longrightarrow> val r < val d \<Longrightarrow>
          val r \<le> val n div 2 ^ Suc i \<Longrightarrow> step n d i (q, r) = (q', r') \<Longrightarrow>
          val d \<le> 2 * val r + val n div 2 ^ i mod 2 \<Longrightarrow>
          val q' = val q + 2 ^ i \<and> val r' = 2 * val r + val n div 2 ^ i mod 2 - val d"
    and step_less: "i < width \<Longrightarrow> val q mod 2 ^ Suc i = 0 \<Longrightarrow> val r < val d \<Longrightarrow>
          val r \<le> val n div 2 ^ Suc i \<Longrightarrow> step n d i (q, r) = (q', r') \<Longrightarrow>
          2 * val r + val n div 2 ^ i mod 2 < val d \<Longrightarrow>
          val q' = val q \<and> val r' = 2 * val r + val n div 2 ^ i mod 2"
begin

lemma quotient_shift:
  assumes "q mod 2 ^ Suc i = (0::int)"
  shows "q div 2 ^ i = 2 * (q div 2 ^ Suc i)" "q mod 2 ^ i = 0"
    "(q + 2 ^ i) div 2 ^ i = 2 * (q div 2 ^ Suc i) + 1" "(q + 2 ^ i) mod 2 ^ i = 0"
proof -
  obtain c where c: "q = 2 ^ Suc i * c" using assms by (metis dvdE mod_0_imp_dvd)
  show "q div 2 ^ i = 2 * (q div 2 ^ Suc i)" "q mod 2 ^ i = 0"
    "(q + 2 ^ i) div 2 ^ i = 2 * (q div 2 ^ Suc i) + 1" "(q + 2 ^ i) mod 2 ^ i = 0"
    unfolding c by (simp_all add: mult.assoc [symmetric] mult.commute [of 2])
qed

lemma loop_invariant:
  assumes "k \<le> width" "val q mod 2 ^ k = 0" "0 \<le> val r" "val r < val d"
    and "val n div 2 ^ k = (val q div 2 ^ k) * val d + val r"
    and "long_division_loop (step n d) k (q, r) = (q', r')"
  shows "val n = val q' * val d + val r' \<and> 0 \<le> val r' \<and> val r' < val d"
  using assms
proof (induction k arbitrary: q r)
  case 0
  then show ?case by simp
next
  case (Suc i)
  obtain q1 r1 where st: "step n d i (q, r) = (q1, r1)" by (cases "step n d i (q, r)")
  define b where "b = val n div 2 ^ i mod 2"
  define Q where "Q = val q div 2 ^ Suc i"
  have "val n div 2 ^ i = 2 * (val n div 2 ^ Suc i) + b"
  proof -
    have "val n div 2 ^ Suc i = val n div 2 ^ i div 2"
      using zdiv_zmult2_eq [of 2 "val n" "2 ^ i"] by (simp add: mult.commute)
    then show ?thesis by (simp add: b_def)
  qed
  then have next_bit: "val n div 2 ^ i = 2 * (Q * val d + val r) + b"
    unfolding Suc.prems(5) Q_def .
  have "0 \<le> val q div 2 ^ Suc i * val d"
    using val_nonneg [of q] val_nonneg [of d] by (simp add: pos_imp_zdiv_nonneg_iff)
  then have rn: "val r \<le> val n div 2 ^ Suc i" using Suc.prems(5) by simp
  have iw: "i < width" using Suc.prems(1) by simp
  note pre = iw Suc.prems(2) Suc.prems(4) rn st
  note qs = quotient_shift [OF Suc.prems(2), folded Q_def]
  have rest: "long_division_loop (step n d) i (q1, r1) = (q', r')"
    using Suc.prems(6) st by simp
  have b: "0 \<le> b" "b \<le> 1" by (simp_all add: b_def)
  show ?case
  proof (cases "val d \<le> 2 * val r + b")
    case True
    from step_fits [OF pre True [unfolded b_def], folded b_def] have v: "val q1 = val q + 2 ^ i"
      "val r1 = 2 * val r + b - val d" by simp_all
    show ?thesis
    proof (rule Suc.IH [OF _ _ _ _ _ rest])
      show "val n div 2 ^ i = val q1 div 2 ^ i * val d + val r1"
        unfolding next_bit v qs by (simp add: algebra_simps)
    qed (use iw Suc.prems(3,4) b True in \<open>simp_all add: v qs\<close>)
  next
    case False
    then have lt: "2 * val r + b < val d" by simp
    from step_less [OF pre lt [unfolded b_def], folded b_def] have v: "val q1 = val q"
      "val r1 = 2 * val r + b" by simp_all
    show ?thesis
    proof (rule Suc.IH [OF _ _ _ _ _ rest])
      show "val n div 2 ^ i = val q1 div 2 ^ i * val d + val r1"
        unfolding next_bit v qs by (simp add: algebra_simps)
    qed (use iw Suc.prems(3) b lt in \<open>simp_all add: v qs\<close>)
  qed
qed

lemma loop_divides:
  assumes "0 < val d" and "long_division_loop (step n d) width (zero, zero) = (q, r)"
  shows "val q = val n div val d \<and> val r = val n mod val d"
proof -
  have "val n div 2 ^ width = 0" using val_nonneg val_less by simp
  with assms have "val n = val q * val d + val r \<and> 0 \<le> val r \<and> val r < val d"
    by (intro loop_invariant [of width zero zero]) (simp_all add: val_zero)
  then have "val n = val r + val q * val d" "0 \<le> val r" "val r < val d" by simp_all
  then show ?thesis by (simp add: div_pos_pos_trivial)
qed

end

subsection \<open>One iteration over limb arrays\<close>

text \<open>
  The body of the 256-bit loop: shift the remainder left taking in bit \<open>i\<close> of the dividend,
  compare with the divisor, and where it fits subtract it and set bit \<open>i\<close> of the quotient.
\<close>

definition words_divmod_step ::
    "u64 list \<Rightarrow> u64 list \<Rightarrow> nat \<Rightarrow> u64 list \<times> u64 list \<Rightarrow> u64 list \<times> u64 list" where
  "words_divmod_step dividend divisor i = (\<lambda>(quotient, remainder).
     let shifted = shift_in_bit remainder (word_bit dividend i)
     in if geq_words shifted divisor
        then (set_word_bit quotient i, sub_words 0 shifted divisor)
        else (quotient, shifted))"

lemma sub_words_exact:
  assumes "length ls = length rs" "words_int rs \<le> words_int ls"
  shows "words_int (sub_words 0 ls rs) = words_int ls - words_int rs"
proof -
  obtain k where "words_int (sub_words 0 ls rs) = (words_int ls - words_int rs) + 2 ^ (64 * length ls) * k"
    using sub_words_value [of ls rs 0] assms(1) by auto
  then have "words_int (sub_words 0 ls rs) = take_bit (64 * length ls) (words_int ls - words_int rs)"
    using words_int_less [of "sub_words 0 ls rs"] assms(1)
    by (intro take_bit_unique [OF words_int_nonneg]) simp_all
  also have "\<dots> = words_int ls - words_int rs"
  proof (rule take_bit_int_eq_self)
    show "words_int ls - words_int rs < 2 ^ (64 * length ls)"
      using words_int_less [of ls] words_int_nonneg [of rs] by linarith
  qed (use assms(2) in simp)
  finally show ?thesis .
qed

lemma even_quotient:
  assumes "q mod 2 ^ Suc i = (0::int)"
  shows "q div 2 ^ i mod 2 = 0"
proof -
  obtain c where "q = 2 ^ i * (2 * c)" using assms by (metis dvdE mod_0_imp_dvd mult.assoc power_Suc2)
  then show ?thesis by simp
qed

lemma div_pow_Suc: "(n::int) div 2 ^ i = 2 * (n div 2 ^ Suc i) + n div 2 ^ i mod 2"
proof -
  have "n div 2 ^ Suc i = n div 2 ^ i div 2"
    using zdiv_zmult2_eq [of 2 n "2 ^ i"] by (simp add: mult.commute)
  then show ?thesis by simp
qed

lemma words_divmod_step_value:
  assumes len: "length n = N" "length d = N" "length q = N" "length r = N" and i: "i < 64 * N"
    and q: "words_int q mod 2 ^ Suc i = 0" and r: "words_int r \<le> words_int n div 2 ^ Suc i"
    and st: "words_divmod_step n d i (q, r) = (q', r')"
  shows "length q' = N" "length r' = N"
    and "words_int d \<le> 2 * words_int r + words_int n div 2 ^ i mod 2 \<Longrightarrow>
           words_int q' = words_int q + 2 ^ i \<and>
           words_int r' = 2 * words_int r + words_int n div 2 ^ i mod 2 - words_int d"
    and "2 * words_int r + words_int n div 2 ^ i mod 2 < words_int d \<Longrightarrow>
           words_int q' = words_int q \<and> words_int r' = 2 * words_int r + words_int n div 2 ^ i mod 2"
proof -
  define b where "b = word_bit n i"
  define s where "s = shift_in_bit r b"
  have b: "uint b = words_int n div 2 ^ i mod 2"
    using i len by (simp add: b_def word_bit_value)
  have "2 * words_int r + uint b \<le> words_int n div 2 ^ i"
    unfolding b using r div_pow_Suc [of "words_int n" i] by linarith
  also have "\<dots> \<le> words_int n" using zdiv_mono2 [of "words_int n" 1 "2 ^ i"] by simp
  also have "\<dots> < 2 ^ (64 * N)" using words_int_less [of n] len by simp
  finally have s: "words_int s = 2 * words_int r + uint b" "length s = N"
    unfolding s_def using b len by (simp_all add: shift_in_bit_value)
  have ne: "s \<noteq> []" using i s(2) by auto
  have ge: "geq_words s d \<longleftrightarrow> words_int d \<le> words_int s"
    using s(2) len ne by (intro geq_words_iff) simp_all
  have qb: "words_int (set_word_bit q i) = words_int q + 2 ^ i"
    using i len even_quotient [OF q] by (intro set_word_bit_value) simp_all
  have st': "(q', r') = (if words_int d \<le> words_int s then (set_word_bit q i, sub_words 0 s d) else (q, s))"
    using st unfolding words_divmod_step_def Let_def prod.case b_def [symmetric] s_def [symmetric] ge
    by simp
  show "length q' = N" "length r' = N"
    using st' len s(2) by (auto split: if_splits)
  show "words_int q' = words_int q + 2 ^ i \<and> words_int r' = 2 * words_int r + words_int n div 2 ^ i mod 2 - words_int d"
    if "words_int d \<le> 2 * words_int r + words_int n div 2 ^ i mod 2"
    using that st' s len by (simp add: b qb sub_words_exact)
  show "words_int q' = words_int q \<and> words_int r' = 2 * words_int r + words_int n div 2 ^ i mod 2"
    if "2 * words_int r + words_int n div 2 ^ i mod 2 < words_int d"
    using that st' s by (simp add: b)
qed

end
