(* ===== verification/Wide_Ops.thy ===== *)
theory Wide_Ops
  imports Long_Division
begin

text \<open>
  What the four wide integer types of \<open>grayc/src/runtime/bigint.h\<close> share.

  The source writes each checked operation, each signed division and each text conversion once
  per type with the same body. The bodies are stated here over the operations they call, and
  each type's function instantiates them. The locales \<open>wide_unsigned\<close> and \<open>wide_signed\<close> are the
  contracts of the basic operations; what the bodies compute is proved against them once.
\<close>

subsection \<open>The contract of a checked operation\<close>

text \<open>The exact result where it lies in the range, the given panic everywhere else.\<close>

definition exact_or_panic :: "('a \<Rightarrow> int) \<Rightarrow> int \<Rightarrow> int \<Rightarrow> string \<Rightarrow> int \<Rightarrow> 'a panicking \<Rightarrow> bool" where
  "exact_or_panic val lo hi code exact m =
     (if lo \<le> exact \<and> exact < hi then (case m of Inl e \<Rightarrow> False | Inr c \<Rightarrow> val c = exact)
      else m = Inl code)"

lemma exact_or_panicI:
  "lo \<le> exact \<Longrightarrow> exact < hi \<Longrightarrow> m = Inr c \<Longrightarrow> val c = exact \<Longrightarrow> exact_or_panic val lo hi code exact m"
  "\<not> (lo \<le> exact \<and> exact < hi) \<Longrightarrow> m = Inl code \<Longrightarrow> exact_or_panic val lo hi code exact m"
  by (auto simp: exact_or_panic_def)

subsection \<open>Bodies\<close>

definition unsigned_add_checked :: "('u \<Rightarrow> 'u \<Rightarrow> 'u) \<Rightarrow> ('u \<Rightarrow> 'u \<Rightarrow> bool) \<Rightarrow> string \<Rightarrow> 'u \<Rightarrow> 'u \<Rightarrow> 'u panicking" where
  "unsigned_add_checked add lt code left right =
     (let result = add left right in if lt result left then Inl code else Inr result)"

definition unsigned_sub_checked :: "('u \<Rightarrow> 'u \<Rightarrow> 'u) \<Rightarrow> ('u \<Rightarrow> 'u \<Rightarrow> bool) \<Rightarrow> string \<Rightarrow> 'u \<Rightarrow> 'u \<Rightarrow> 'u panicking" where
  "unsigned_sub_checked sub lt code left right =
     (if lt left right then Inl code else Inr (sub left right))"

definition mul_checked ::
    "('a \<Rightarrow> 'a \<Rightarrow> 'a) \<Rightarrow> ('a \<Rightarrow> bool) \<Rightarrow> ('a \<Rightarrow> 'a \<Rightarrow> 'a panicking) \<Rightarrow> ('a \<Rightarrow> 'a \<Rightarrow> bool) \<Rightarrow> string \<Rightarrow>
     'a \<Rightarrow> 'a \<Rightarrow> 'a panicking" where
  "mul_checked mul is_zero div_op eq code left right =
     (let result = mul left right
      in if \<not> is_zero left \<and> \<not> is_zero right
         then bind_panic (div_op result right) (\<lambda>check. if \<not> eq check left then Inl code else Inr result)
         else Inr result)"

definition signed_add_checked :: "('s \<Rightarrow> 's \<Rightarrow> 's) \<Rightarrow> ('s \<Rightarrow> bool) \<Rightarrow> string \<Rightarrow> 's \<Rightarrow> 's \<Rightarrow> 's panicking" where
  "signed_add_checked add is_neg code left right =
     (let result = add left right
      in if (\<not> is_neg left \<and> \<not> is_neg right \<and> is_neg result) \<or> (is_neg left \<and> is_neg right \<and> \<not> is_neg result)
         then Inl code else Inr result)"

definition signed_sub_checked :: "('s \<Rightarrow> 's \<Rightarrow> 's) \<Rightarrow> ('s \<Rightarrow> bool) \<Rightarrow> string \<Rightarrow> 's \<Rightarrow> 's \<Rightarrow> 's panicking" where
  "signed_sub_checked sub is_neg code left right =
     (let result = sub left right
      in if (\<not> is_neg left \<and> is_neg right \<and> is_neg result) \<or> (is_neg left \<and> \<not> is_neg right \<and> \<not> is_neg result)
         then Inl code else Inr result)"

definition signed_neg_checked :: "('s \<Rightarrow> 's) \<Rightarrow> ('s \<Rightarrow> bool) \<Rightarrow> string \<Rightarrow> 's \<Rightarrow> 's panicking" where
  "signed_neg_checked neg is_neg code value =
     (let result = neg value in if is_neg value \<and> is_neg result then Inl code else Inr result)"

definition signed_magnitude :: "('s \<Rightarrow> 's) \<Rightarrow> ('s \<Rightarrow> bool) \<Rightarrow> ('s \<Rightarrow> 'u) \<Rightarrow> 's \<Rightarrow> 'u" where
  "signed_magnitude neg is_neg bits value = (if is_neg value then bits (neg value) else bits value)"

definition signed_div ::
    "('s \<Rightarrow> 's) \<Rightarrow> ('s \<Rightarrow> bool) \<Rightarrow> ('s \<Rightarrow> 'u) \<Rightarrow> ('u \<Rightarrow> 's) \<Rightarrow> ('u \<Rightarrow> 'u \<Rightarrow> ('u \<times> 'u) panicking) \<Rightarrow>
     's \<Rightarrow> 's \<Rightarrow> 's panicking" where
  "signed_div neg is_neg bits of_bits div_mod left right =
     (let negate = (is_neg left \<noteq> is_neg right);
          mag_left = signed_magnitude neg is_neg bits left;
          mag_right = signed_magnitude neg is_neg bits right
      in bind_panic (div_mod mag_left mag_right) (\<lambda>(quotient, remainder).
           let result = of_bits quotient in Inr (if negate then neg result else result)))"

definition signed_mod ::
    "('s \<Rightarrow> 's) \<Rightarrow> ('s \<Rightarrow> bool) \<Rightarrow> ('s \<Rightarrow> 'u) \<Rightarrow> ('u \<Rightarrow> 's) \<Rightarrow> ('u \<Rightarrow> 'u \<Rightarrow> ('u \<times> 'u) panicking) \<Rightarrow>
     's \<Rightarrow> 's \<Rightarrow> 's panicking" where
  "signed_mod neg is_neg bits of_bits div_mod left right =
     (let left_is_negative = is_neg left;
          mag_left = signed_magnitude neg is_neg bits left;
          mag_right = signed_magnitude neg is_neg bits right
      in bind_panic (div_mod mag_left mag_right) (\<lambda>(quotient, remainder).
           let result = of_bits remainder in Inr (if left_is_negative then neg result else result)))"

lemma div_less_of_less_mult: "t < x * y \<Longrightarrow> 0 < y \<Longrightarrow> t div y < (x :: int)"
proof (rule ccontr)
  assume a: "t < x * y" "0 < y" "\<not> t div y < x"
  then have "x * y \<le> t div y * y" by (intro mult_right_mono) simp_all
  also have "\<dots> \<le> t" using a(2) div_mult_mod_eq [of t y] pos_mod_sign [of y t] by linarith
  finally show False using a(1) by simp
qed

subsection \<open>The unsigned contract\<close>

locale wide_unsigned =
  fixes val :: "'u \<Rightarrow> int"
    and width :: nat
    and from_u64 :: "u64 \<Rightarrow> 'u"
    and low_limb :: "'u \<Rightarrow> u64"
    and add sub mul :: "'u \<Rightarrow> 'u \<Rightarrow> 'u"
    and div_mod :: "'u \<Rightarrow> 'u \<Rightarrow> ('u \<times> 'u) panicking"
    and eq lt :: "'u \<Rightarrow> 'u \<Rightarrow> bool"
  assumes width_ge: "64 \<le> width"
    and val_nonneg: "0 \<le> val x"
    and val_less: "val x < 2 ^ width"
    and val_inject: "val x = val y \<Longrightarrow> x = y"
    and from_u64_val: "val (from_u64 w) = uint w"
    and low_limb_val: "uint (low_limb x) = val x mod 2 ^ 64"
    and add_val: "val (add x y) = take_bit width (val x + val y)"
    and sub_val: "val (sub x y) = take_bit width (val x - val y)"
    and mul_val: "val (mul x y) = take_bit width (val x * val y)"
    and div_mod_zero: "val d = 0 \<Longrightarrow> div_mod n d = Inl ''P0078''"
    and div_mod_val: "val d \<noteq> 0 \<Longrightarrow>
          \<exists>q r. div_mod n d = Inr (q, r) \<and> val q = val n div val d \<and> val r = val n mod val d"
    and eq_val: "eq x y \<longleftrightarrow> val x = val y"
    and lt_val: "lt x y \<longleftrightarrow> val x < val y"
begin

abbreviation div_op :: "'u \<Rightarrow> 'u \<Rightarrow> 'u panicking" where
  "div_op a b \<equiv> bind_panic (div_mod a b) (\<lambda>(quotient, remainder). Inr quotient)"

abbreviation mod_op :: "'u \<Rightarrow> 'u \<Rightarrow> 'u panicking" where
  "mod_op a b \<equiv> bind_panic (div_mod a b) (\<lambda>(quotient, remainder). Inr remainder)"

lemma div_op_val: "val b \<noteq> 0 \<Longrightarrow> \<exists>q. div_op a b = Inr q \<and> val q = val a div val b"
  using div_mod_val [of b a] by auto

lemma mod_op_val: "val b \<noteq> 0 \<Longrightarrow> \<exists>r. mod_op a b = Inr r \<and> val r = val a mod val b"
  using div_mod_val [of b a] by auto

lemma take_bit_small: "0 \<le> k \<Longrightarrow> k < 2 ^ width \<Longrightarrow> take_bit width k = (k::int)"
  by (simp add: take_bit_int_eq_self)

lemma add_checked:
  "exact_or_panic val 0 (2 ^ width) code (val x + val y) (unsigned_add_checked add lt code x y)"
proof (cases "val x + val y < 2 ^ width")
  case True
  then have "val (add x y) = val x + val y"
    using val_nonneg [of x] val_nonneg [of y] by (simp add: add_val take_bit_small)
  with True show ?thesis
    using val_nonneg [of x] val_nonneg [of y] by (simp add: exact_or_panic_def unsigned_add_checked_def lt_val)
next
  case False
  have "take_bit width (val x + val y - 2 ^ width) = val x + val y - 2 ^ width"
    using False val_less [of x] val_less [of y] by (intro take_bit_small) auto
  moreover have "take_bit width (val x + val y - 2 ^ width) = take_bit width (val x + val y)"
    by (simp add: take_bit_eq_mod)
  ultimately have "val (add x y) < val x" using val_less [of y] by (simp add: add_val)
  with False show ?thesis by (simp add: exact_or_panic_def unsigned_add_checked_def lt_val)
qed

lemma sub_checked:
  "exact_or_panic val 0 (2 ^ width) code (val x - val y) (unsigned_sub_checked sub lt code x y)"
  using val_less [of x] val_nonneg [of y]
  by (auto simp: exact_or_panic_def unsigned_sub_checked_def lt_val sub_val take_bit_small)

lemma mul_checked_val:
  assumes z: "\<And>v. is_zero v \<longleftrightarrow> val v = 0"
  shows "exact_or_panic val 0 (2 ^ width) code (val x * val y) (mul_checked mul is_zero div_op eq code x y)"
proof (cases "val x = 0 \<or> val y = 0")
  case True
  then show ?thesis by (auto simp: exact_or_panic_def mul_checked_def z mul_val)
next
  case False
  define p where "p = val x * val y"
  have pos: "0 < val x" "0 < val y" using False val_nonneg [of x] val_nonneg [of y] by auto
  then have p: "0 < p" by (simp add: p_def)
  obtain q where q: "div_op (mul x y) y = Inr q" "val q = take_bit width p div val y"
    using div_op_val [of y "mul x y"] False by (auto simp: mul_val p_def)
  have body: "mul_checked mul is_zero div_op eq code x y = (if val q = val x then Inr (mul x y) else Inl code)"
    using False q by (simp add: mul_checked_def z eq_val)
  show ?thesis
  proof (cases "p < 2 ^ width")
    case True
    then have "take_bit width p = p" using p by (simp add: take_bit_small)
    then show ?thesis using True p pos q body
      by (simp add: exact_or_panic_def mul_val p_def)
  next
    case False
    have "take_bit width p < 2 ^ width" by simp
    then have "take_bit width p < val x * val y" using False unfolding p_def by linarith
    then have "take_bit width p div val y < val x" using pos(2) by (rule div_less_of_less_mult)
    then show ?thesis using False q body by (simp add: exact_or_panic_def p_def)
  qed
qed

end

text \<open>A truncating quotient exceeds a two's-complement range only at minimum over minus one.\<close>

lemma sdiv_reaches_half:
  assumes "- h \<le> a" "a < h" "0 < h" "a sdiv b = (h::int)"
  shows "a = - h \<and> b = - 1"
proof (cases "\<bar>b\<bar> \<le> 1")
  case True
  then have "b = 0 \<or> b = 1 \<or> b = - 1" by auto
  then show ?thesis using assms by (auto simp: sdiv_int_div_0)
next
  case False
  have "h = \<bar>a sdiv b\<bar>" using assms by simp
  also have "\<dots> \<le> \<bar>a\<bar> div \<bar>b\<bar>"
    by (auto simp: signed_divide_int_def abs_mult pos_imp_zdiv_nonneg_iff sgn_if)
  also have "\<dots> \<le> \<bar>a\<bar> div 2" using False by (intro zdiv_mono2) auto
  also have "\<dots> \<le> h div 2" using assms by (intro zdiv_mono1) auto
  finally show ?thesis using assms(3) by simp
qed

subsection \<open>The signed contract\<close>

locale wide_signed = wide_unsigned +
  fixes top_bit :: nat
    and sval :: "'s \<Rightarrow> int"
    and bits :: "'s \<Rightarrow> 'a"
    and of_bits :: "'a \<Rightarrow> 's"
    and sadd ssub smul :: "'s \<Rightarrow> 's \<Rightarrow> 's"
    and sneg :: "'s \<Rightarrow> 's"
    and is_neg :: "'s \<Rightarrow> bool"
    and seq slt :: "'s \<Rightarrow> 's \<Rightarrow> bool"
  assumes width_Suc: "width = Suc top_bit"
    and sval_bits: "sval v = signed_take_bit top_bit (val (bits v))"
    and bits_of_bits: "bits (of_bits u) = u"
    and sval_inject: "sval v = sval w \<Longrightarrow> v = w"
    and sadd_bits: "bits (sadd v w) = add (bits v) (bits w)"
    and ssub_bits: "bits (ssub v w) = sub (bits v) (bits w)"
    and smul_bits: "bits (smul v w) = mul (bits v) (bits w)"
    and sneg_val: "sval (sneg v) = signed_take_bit top_bit (- sval v)"
    and is_neg_iff: "is_neg v \<longleftrightarrow> sval v < 0"
    and seq_val: "seq v w \<longleftrightarrow> sval v = sval w"
    and slt_val: "slt v w \<longleftrightarrow> sval v < sval w"
begin

abbreviation half :: int where
  "half \<equiv> 2 ^ top_bit"

abbreviation div_body :: "'s \<Rightarrow> 's \<Rightarrow> 's panicking" where
  "div_body \<equiv> signed_div sneg is_neg bits of_bits div_mod"

abbreviation mod_body :: "'s \<Rightarrow> 's \<Rightarrow> 's panicking" where
  "mod_body \<equiv> signed_mod sneg is_neg bits of_bits div_mod"

lemma full_half: "2 ^ width = 2 * half"
  by (simp add: width_Suc)

lemma sval_bounds: "- half \<le> sval v" "sval v < half"
  by (simp_all add: sval_bits signed_take_bit_int_greater_eq_minus_exp signed_take_bit_int_less_exp)

lemma wrap_take_bit [simp]: "signed_take_bit top_bit (take_bit width k) = signed_take_bit top_bit (k :: int)"
  by (simp add: width_Suc signed_take_bit_take_bit)

lemma wrap_self: "- half \<le> k \<Longrightarrow> k < half \<Longrightarrow> signed_take_bit top_bit k = (k :: int)"
  by (rule signed_take_bit_int_eq_self)

lemma sadd_val: "sval (sadd v w) = signed_take_bit top_bit (sval v + sval w)"
  by (simp add: sval_bits sadd_bits add_val signed_take_bit_add)

lemma ssub_val: "sval (ssub v w) = signed_take_bit top_bit (sval v - sval w)"
  by (simp add: sval_bits ssub_bits sub_val signed_take_bit_diff)

lemma smul_val: "sval (smul v w) = signed_take_bit top_bit (sval v * sval w)"
  by (simp add: sval_bits smul_bits mul_val signed_take_bit_mult)

lemma bits_val: "val (bits v) = take_bit width (sval v)"
proof -
  have "take_bit width (sval v) = take_bit width (val (bits v))"
    by (simp add: width_Suc sval_bits take_bit_signed_take_bit)
  then show ?thesis using val_nonneg val_less by (simp add: take_bit_int_eq_self)
qed

lemma of_bits_val: "sval (of_bits u) = signed_take_bit top_bit (val u)"
  by (simp add: sval_bits bits_of_bits)

text \<open>A wrapped value one period out of range lands back in range.\<close>

lemma wrap_over: "half \<le> k \<Longrightarrow> k < 3 * half \<Longrightarrow> signed_take_bit top_bit k = (k :: int) - 2 * half"
  by (rule signed_take_bit_unique [symmetric, where z = "-1"]) simp_all

lemma wrap_under: "- 3 * half \<le> k \<Longrightarrow> k < - half \<Longrightarrow> signed_take_bit top_bit k = (k :: int) + 2 * half"
  by (rule signed_take_bit_unique [symmetric, where z = 1]) simp_all

lemma sadd_checked:
  "exact_or_panic sval (- half) half code (sval v + sval w) (signed_add_checked sadd is_neg code v w)"
proof -
  note b = sval_bounds [of v] sval_bounds [of w]
  consider "half \<le> sval v + sval w" | "sval v + sval w < - half" | "- half \<le> sval v + sval w" "sval v + sval w < half"
    by linarith
  then show ?thesis
  proof cases
    case 1
    then have "sval (sadd v w) = sval v + sval w - 2 * half"
      using b by (simp add: sadd_val wrap_over)
    then show ?thesis using 1 b
      by (auto simp: exact_or_panic_def signed_add_checked_def is_neg_iff)
  next
    case 2
    then have "sval (sadd v w) = sval v + sval w + 2 * half"
      using b by (simp add: sadd_val wrap_under)
    then show ?thesis using 2 b
      by (auto simp: exact_or_panic_def signed_add_checked_def is_neg_iff)
  next
    case 3
    then have "sval (sadd v w) = sval v + sval w" by (simp add: sadd_val wrap_self)
    then show ?thesis using 3
      by (auto simp: exact_or_panic_def signed_add_checked_def is_neg_iff)
  qed
qed

lemma ssub_checked:
  "exact_or_panic sval (- half) half code (sval v - sval w) (signed_sub_checked ssub is_neg code v w)"
proof -
  note b = sval_bounds [of v] sval_bounds [of w]
  consider "half \<le> sval v - sval w" | "sval v - sval w < - half" | "- half \<le> sval v - sval w" "sval v - sval w < half"
    by linarith
  then show ?thesis
  proof cases
    case 1
    then have "sval (ssub v w) = sval v - sval w - 2 * half"
      using b by (simp add: ssub_val wrap_over)
    then show ?thesis using 1 b
      by (auto simp: exact_or_panic_def signed_sub_checked_def is_neg_iff)
  next
    case 2
    then have "sval (ssub v w) = sval v - sval w + 2 * half"
      using b by (simp add: ssub_val wrap_under)
    then show ?thesis using 2 b
      by (auto simp: exact_or_panic_def signed_sub_checked_def is_neg_iff)
  next
    case 3
    then have "sval (ssub v w) = sval v - sval w" by (simp add: ssub_val wrap_self)
    then show ?thesis using 3
      by (auto simp: exact_or_panic_def signed_sub_checked_def is_neg_iff)
  qed
qed

lemma half_pos: "0 < half"
  by simp

lemma sneg_checked:
  "exact_or_panic sval (- half) half code (- sval v) (signed_neg_checked sneg is_neg code v)"
proof (cases "sval v = - half")
  case True
  then have "sval (sneg v) = - half" using wrap_over [of half] by (simp add: sneg_val)
  with True show ?thesis by (simp add: exact_or_panic_def signed_neg_checked_def is_neg_iff)
next
  case False
  then have "sval (sneg v) = - sval v" using sval_bounds [of v] by (simp add: sneg_val wrap_self)
  with False show ?thesis using sval_bounds [of v]
    by (simp add: exact_or_panic_def signed_neg_checked_def is_neg_iff)
qed

lemma magnitude_val: "val (signed_magnitude sneg is_neg bits v) = \<bar>sval v\<bar>"
proof (cases "sval v < 0")
  case True
  have "take_bit width (signed_take_bit top_bit (- sval v)) = take_bit width (- sval v)"
    by (simp add: width_Suc take_bit_signed_take_bit)
  also have "\<dots> = - sval v"
    using True sval_bounds [of v] full_half half_pos by (intro take_bit_small) linarith+
  finally show ?thesis using True by (simp add: signed_magnitude_def is_neg_iff bits_val sneg_val)
next
  case False
  then show ?thesis using sval_bounds [of v] full_half half_pos
    by (simp add: signed_magnitude_def is_neg_iff bits_val) (subst take_bit_small; linarith)
qed

lemma signed_result_val:
  "sval (if s then sneg (of_bits q) else of_bits q) = signed_take_bit top_bit (if s then - val q else val q)"
  by (simp add: sneg_val of_bits_val signed_take_bit_minus)

lemma div_mod_body_zero:
  "sval w = 0 \<Longrightarrow> div_body v w = Inl ''P0078''"
  "sval w = 0 \<Longrightarrow> mod_body v w = Inl ''P0078''"
  by (simp_all add: signed_div_def signed_mod_def div_mod_zero magnitude_val)

lemma div_body_val:
  assumes "sval w \<noteq> 0"
  shows "\<exists>q. div_body v w = Inr q \<and> sval q = signed_take_bit top_bit (sval v sdiv sval w)"
proof -
  let ?m = "signed_magnitude sneg is_neg bits"
  obtain q r where q: "div_mod (?m v) (?m w) = Inr (q, r)" "val q = \<bar>sval v\<bar> div \<bar>sval w\<bar>"
    using div_mod_val [of "?m w" "?m v"] assms by (auto simp: magnitude_val)
  have "(if (sval v < 0) \<noteq> (sval w < 0) then - val q else val q) = sval v sdiv sval w"
    using assms by (auto simp: q(2) signed_divide_int_def sgn_if)
  then show ?thesis
    using signed_result_val [of "(sval v < 0) \<noteq> (sval w < 0)" q]
    by (auto simp: signed_div_def q(1) is_neg_iff Let_def)
qed

lemma mod_body_val:
  assumes "sval w \<noteq> 0"
  shows "\<exists>r. mod_body v w = Inr r \<and> sval r = sval v smod sval w"
proof -
  let ?m = "signed_magnitude sneg is_neg bits"
  obtain q r where r: "div_mod (?m v) (?m w) = Inr (q, r)" "val r = \<bar>sval v\<bar> mod \<bar>sval w\<bar>"
    using div_mod_val [of "?m w" "?m v"] assms by (auto simp: magnitude_val)
  have sg: "(if sval v < 0 then - val r else val r) = sval v smod sval w"
    by (auto simp: r(2) smod_int_alt_def sgn_if)
  have "\<bar>sval w\<bar> \<le> half" using sval_bounds [of w] by linarith
  moreover have "0 \<le> val r" "val r < \<bar>sval w\<bar>" using assms by (simp_all add: r(2))
  ultimately have "signed_take_bit top_bit (sval v smod sval w) = sval v smod sval w"
    unfolding sg [symmetric] by (intro wrap_self) (auto split: if_splits)
  then show ?thesis
    using signed_result_val [of "sval v < 0" r] sg
    by (auto simp: signed_mod_def r(1) is_neg_iff Let_def)
qed

text \<open>
  The multiplication check divides the wrapped product by the right operand and compares with
  the left one. It misses exactly one overflow: the minimum times minus one, where the
  division wraps the same way.
\<close>

lemma smul_checked_body:
  assumes z: "\<And>u. is_zero u \<longleftrightarrow> sval u = 0" and nz: "sval v \<noteq> 0" "sval w \<noteq> 0"
  shows "mul_checked smul is_zero div_body seq code v w =
    (if signed_take_bit top_bit (signed_take_bit top_bit (sval v * sval w) sdiv sval w) = sval v
     then Inr (smul v w) else Inl code)"
proof -
  obtain q where "div_body (smul v w) w = Inr q"
    "sval q = signed_take_bit top_bit (signed_take_bit top_bit (sval v * sval w) sdiv sval w)"
    using div_body_val [OF nz(2), of "smul v w"] by (auto simp: smul_val)
  then show ?thesis using nz by (simp add: mul_checked_def z seq_val)
qed

lemma product_check:
  assumes "sval w \<noteq> 0" and ex: "\<not> (sval v = - half \<and> sval w = - 1)"
    and eq: "signed_take_bit top_bit (signed_take_bit top_bit (sval v * sval w) sdiv sval w) = sval v"
  shows "- half \<le> sval v * sval w \<and> sval v * sval w < half"
proof -
  define R where "R = signed_take_bit top_bit (sval v * sval w)"
  have R: "- half \<le> R" "R < half"
    by (simp_all add: R_def signed_take_bit_int_greater_eq_minus_exp signed_take_bit_int_less_exp)
  have q: "- half \<le> R sdiv sval w" "R sdiv sval w \<le> half"
    using sdiv_int_range [of R "sval w"] R by auto
  have "R sdiv sval w \<noteq> half"
  proof
    assume h: "R sdiv sval w = half"
    then have "sval w = - 1" using sdiv_reaches_half [OF R half_pos] by blast
    moreover have "sval v = - half" using eq wrap_over [of half] by (simp add: R_def [symmetric] h)
    ultimately show False using ex by simp
  qed
  then have "R sdiv sval w = sval v"
    using eq q by (simp add: R_def [symmetric] wrap_self)
  then have "R - sval v * sval w = R smod sval w"
    using minus_sdiv_mult_eq_smod [of R "sval w"] by simp
  then have "\<bar>R - sval v * sval w\<bar> < half"
    using smod_int_range [OF assms(1), of R] sval_bounds [of w] by auto
  moreover have "take_bit width R = take_bit width (sval v * sval w)"
    by (simp add: R_def width_Suc take_bit_signed_take_bit)
  then have "(R - sval v * sval w) mod (2 * half) = 0"
    by (simp add: take_bit_eq_mod full_half mod_eq_dvd_iff)
  then have "2 * half dvd R - sval v * sval w" by (simp add: mod_0_imp_dvd)
  ultimately have "R - sval v * sval w = 0"
    using dvd_imp_le_int [of "R - sval v * sval w" "2 * half"] by fastforce
  then have "R = sval v * sval w" by simp
  with R show ?thesis by simp
qed

lemma smul_checked:
  assumes z: "\<And>u. is_zero u \<longleftrightarrow> sval u = 0" and ex: "\<not> (sval v = - half \<and> sval w = - 1)"
  shows "exact_or_panic sval (- half) half code (sval v * sval w) (mul_checked smul is_zero div_body seq code v w)"
proof (cases "sval v = 0 \<or> sval w = 0")
  case True
  then show ?thesis by (auto simp: exact_or_panic_def mul_checked_def z smul_val)
next
  case False
  show ?thesis
  proof (cases "- half \<le> sval v * sval w \<and> sval v * sval w < half")
    case True
    then have "signed_take_bit top_bit (sval v * sval w) = sval v * sval w" by (simp add: wrap_self)
    moreover have "sval v * sval w sdiv sval w = sval v"
      using False by (simp add: signed_divide_int_eq_divide_int)
    ultimately show ?thesis
      using True False sval_bounds [of v]
      by (simp add: exact_or_panic_def smul_checked_body [OF z] wrap_self smul_val)
  next
    case over: False
    then show ?thesis
      using False product_check [OF _ ex]
      by (auto simp: exact_or_panic_def smul_checked_body [OF z])
  qed
qed

lemma smul_checked_minimum:
  assumes z: "\<And>u. is_zero u \<longleftrightarrow> sval u = 0" and "sval v = - half" "sval w = - 1"
  shows "mul_checked smul is_zero div_body seq code v w = Inr (smul v w)" "sval (smul v w) = - half"
  using assms wrap_over [of half] by (simp_all add: smul_checked_body [OF z] smul_val)

end

end
