(* ===== verification/Wide128.thy ===== *)
theory Wide128
  imports Wide_Ops
begin

text \<open>
  128-bit integers of \<open>grayc/src/runtime/bigint.h\<close>: the two structs, their constructors,
  wrapping and checked arithmetic, division and comparison. \<open>u128_int\<close> and \<open>i128_int\<close> give
  the integer a struct stands for; every operation is characterised over those integers
  (\<open>take_bit 128\<close> is reduction modulo \<open>2 ^ 128\<close>, \<open>signed_take_bit 127\<close> the
  two's-complement wrap).
\<close>

subsection \<open>Representation\<close>

record gray_u128 =
  u128_low :: u64
  u128_high :: u64

record gray_i128 =
  i128_low :: u64
  i128_high :: i64

definition u128_int :: "gray_u128 \<Rightarrow> int" where
  "u128_int v = words_int [u128_low v, u128_high v]"

definition i128_int :: "gray_i128 \<Rightarrow> int" where
  "i128_int v = uint (i128_low v) + 2 ^ 64 * sint (i128_high v)"

definition GRAY_U128_ZERO :: gray_u128 where
  "GRAY_U128_ZERO = \<lparr>u128_low = 0, u128_high = 0\<rparr>"

definition GRAY_I128_ZERO :: gray_i128 where
  "GRAY_I128_ZERO = \<lparr>i128_low = 0, i128_high = 0\<rparr>"

definition gray_i128_from_i64 :: "i64 \<Rightarrow> gray_i128" where
  "gray_i128_from_i64 value = \<lparr>i128_low = value, i128_high = (if sint value < 0 then -1 else 0)\<rparr>"

definition gray_i128_from_u64 :: "u64 \<Rightarrow> gray_i128" where
  "gray_i128_from_u64 value = \<lparr>i128_low = value, i128_high = 0\<rparr>"

definition gray_u128_from_u64 :: "u64 \<Rightarrow> gray_u128" where
  "gray_u128_from_u64 value = \<lparr>u128_low = value, u128_high = 0\<rparr>"

definition gray_u128_from_i128 :: "gray_i128 \<Rightarrow> gray_u128" where
  "gray_u128_from_i128 value = \<lparr>u128_low = i128_low value, u128_high = i128_high value\<rparr>"

definition gray_i128_from_u128 :: "gray_u128 \<Rightarrow> gray_i128" where
  "gray_i128_from_u128 value = \<lparr>i128_low = u128_low value, i128_high = u128_high value\<rparr>"

subsection \<open>Size casts, range-checked\<close>

definition gray_i128_to_i64 :: "gray_i128 \<Rightarrow> i64 panicking" where
  "gray_i128_to_i64 value =
     (if i128_high value \<noteq> signed_drop_bit 63 (i128_low value) then Inl ''P0093''
      else Inr (i128_low value))"

definition gray_i128_to_u64 :: "gray_i128 \<Rightarrow> u64 panicking" where
  "gray_i128_to_u64 value =
     (if i128_high value \<noteq> 0 then Inl ''P0094'' else Inr (i128_low value))"

definition INT64_MAX :: u64 where
  "INT64_MAX = 0x7FFFFFFFFFFFFFFF"

definition gray_u128_to_i64 :: "gray_u128 \<Rightarrow> i64 panicking" where
  "gray_u128_to_i64 value =
     (if u128_high value \<noteq> 0 \<or> INT64_MAX < u128_low value then Inl ''P0095''
      else Inr (u128_low value))"

definition gray_u128_to_u64 :: "gray_u128 \<Rightarrow> u64 panicking" where
  "gray_u128_to_u64 value =
     (if u128_high value \<noteq> 0 then Inl ''P0096'' else Inr (u128_low value))"

subsection \<open>Wrapping arithmetic\<close>

definition gray_u128_add :: "gray_u128 \<Rightarrow> gray_u128 \<Rightarrow> gray_u128" where
  "gray_u128_add left right =
     (let low = u128_low left + u128_low right
      in \<lparr>u128_low = low,
          u128_high = u128_high left + u128_high right + (if low < u128_low left then 1 else 0)\<rparr>)"

definition gray_u128_sub :: "gray_u128 \<Rightarrow> gray_u128 \<Rightarrow> gray_u128" where
  "gray_u128_sub left right =
     \<lparr>u128_low = u128_low left - u128_low right,
      u128_high = u128_high left - u128_high right
                    - (if u128_low left < u128_low right then 1 else 0)\<rparr>"

definition gray_u128_mul :: "gray_u128 \<Rightarrow> gray_u128 \<Rightarrow> gray_u128" where
  "gray_u128_mul left right =
     (let left_low_half = low_half (u128_low left); left_high_half = high_half (u128_low left);
          right_low_half = low_half (u128_low right); right_high_half = high_half (u128_low right);
          product_low_low = left_low_half * right_low_half;
          product_low_high = left_low_half * right_high_half;
          product_high_low = left_high_half * right_low_half;
          product_high_high = left_high_half * right_high_half;
          middle = product_low_high + high_half product_low_low;
          carry = high_half (low_half middle + product_high_low)
      in \<lparr>u128_low = u128_low left * u128_low right,
          u128_high = product_high_high + high_half middle + carry
                        + u128_low left * u128_high right + u128_high left * u128_low right\<rparr>)"

definition gray_i128_add :: "gray_i128 \<Rightarrow> gray_i128 \<Rightarrow> gray_i128" where
  "gray_i128_add left right =
     (let low = i128_low left + i128_low right
      in \<lparr>i128_low = low,
          i128_high = i128_high left + i128_high right + (if low < i128_low left then 1 else 0)\<rparr>)"

definition gray_i128_sub :: "gray_i128 \<Rightarrow> gray_i128 \<Rightarrow> gray_i128" where
  "gray_i128_sub left right =
     \<lparr>i128_low = i128_low left - i128_low right,
      i128_high = i128_high left - i128_high right
                    - (if i128_low left < i128_low right then 1 else 0)\<rparr>"

definition gray_i128_neg :: "gray_i128 \<Rightarrow> gray_i128" where
  "gray_i128_neg value =
     (let low = NOT (i128_low value) + 1
      in \<lparr>i128_low = low,
          i128_high = NOT (i128_high value) + (if low = 0 then 1 else 0)\<rparr>)"

definition gray_i128_mul :: "gray_i128 \<Rightarrow> gray_i128 \<Rightarrow> gray_i128" where
  "gray_i128_mul left right =
     (let left_low = i128_low left; right_low = i128_low right;
          left_high = i128_high left; right_high = i128_high right;
          left_low_half = low_half left_low; left_high_half = high_half left_low;
          right_low_half = low_half right_low; right_high_half = high_half right_low;
          product_low_low = left_low_half * right_low_half;
          product_low_high = left_low_half * right_high_half;
          product_high_low = left_high_half * right_low_half;
          product_high_high = left_high_half * right_high_half;
          middle = product_low_high + high_half product_low_low;
          carry = high_half (low_half middle + product_high_low)
      in \<lparr>i128_low = left_low * right_low,
          i128_high = product_high_high + high_half middle + carry
                        + left_low * right_high + left_high * right_low\<rparr>)"

subsection \<open>Comparison\<close>

definition gray_u128_eq :: "gray_u128 \<Rightarrow> gray_u128 \<Rightarrow> bool" where
  "gray_u128_eq left right \<longleftrightarrow> u128_low left = u128_low right \<and> u128_high left = u128_high right"

definition gray_u128_ne :: "gray_u128 \<Rightarrow> gray_u128 \<Rightarrow> bool" where
  "gray_u128_ne left right \<longleftrightarrow> u128_low left \<noteq> u128_low right \<or> u128_high left \<noteq> u128_high right"

definition gray_u128_lt :: "gray_u128 \<Rightarrow> gray_u128 \<Rightarrow> bool" where
  "gray_u128_lt left right \<longleftrightarrow>
     u128_high left < u128_high right \<or>
     (u128_high left = u128_high right \<and> u128_low left < u128_low right)"

definition gray_u128_gt :: "gray_u128 \<Rightarrow> gray_u128 \<Rightarrow> bool" where
  "gray_u128_gt left right \<longleftrightarrow> gray_u128_lt right left"

definition gray_u128_le :: "gray_u128 \<Rightarrow> gray_u128 \<Rightarrow> bool" where
  "gray_u128_le left right \<longleftrightarrow> \<not> gray_u128_gt left right"

definition gray_u128_ge :: "gray_u128 \<Rightarrow> gray_u128 \<Rightarrow> bool" where
  "gray_u128_ge left right \<longleftrightarrow> \<not> gray_u128_lt left right"

definition gray_i128_eq :: "gray_i128 \<Rightarrow> gray_i128 \<Rightarrow> bool" where
  "gray_i128_eq left right \<longleftrightarrow> i128_low left = i128_low right \<and> i128_high left = i128_high right"

definition gray_i128_ne :: "gray_i128 \<Rightarrow> gray_i128 \<Rightarrow> bool" where
  "gray_i128_ne left right \<longleftrightarrow> i128_low left \<noteq> i128_low right \<or> i128_high left \<noteq> i128_high right"

definition gray_i128_lt :: "gray_i128 \<Rightarrow> gray_i128 \<Rightarrow> bool" where
  "gray_i128_lt left right \<longleftrightarrow>
     sint (i128_high left) < sint (i128_high right) \<or>
     (i128_high left = i128_high right \<and> i128_low left < i128_low right)"

definition gray_i128_gt :: "gray_i128 \<Rightarrow> gray_i128 \<Rightarrow> bool" where
  "gray_i128_gt left right \<longleftrightarrow> gray_i128_lt right left"

definition gray_i128_le :: "gray_i128 \<Rightarrow> gray_i128 \<Rightarrow> bool" where
  "gray_i128_le left right \<longleftrightarrow> \<not> gray_i128_gt left right"

definition gray_i128_ge :: "gray_i128 \<Rightarrow> gray_i128 \<Rightarrow> bool" where
  "gray_i128_ge left right \<longleftrightarrow> \<not> gray_i128_lt left right"

subsection \<open>Division\<close>

text \<open>One iteration of the long division; the loop runs \<open>bit_index\<close> from 127 to 0.\<close>

definition u128_divmod_step :: "gray_u128 \<Rightarrow> gray_u128 \<Rightarrow> nat \<Rightarrow> gray_u128 \<times> gray_u128 \<Rightarrow> gray_u128 \<times> gray_u128" where
  "u128_divmod_step dividend divisor bit_index = (\<lambda>(quotient, remainder).
     let high = push_bit 1 (u128_high remainder) OR drop_bit 63 (u128_low remainder);
         low = push_bit 1 (u128_low remainder)
               OR (if 64 \<le> bit_index then drop_bit (bit_index - 64) (u128_high dividend) AND 1
                   else drop_bit bit_index (u128_low dividend) AND 1)
     in if u128_high divisor < high \<or> (high = u128_high divisor \<and> u128_low divisor \<le> low)
        then let borrow = (if low < u128_low divisor then 1 else 0)
             in (if 64 \<le> bit_index
                 then quotient\<lparr>u128_high := u128_high quotient OR push_bit (bit_index - 64) 1\<rparr>
                 else quotient\<lparr>u128_low := u128_low quotient OR push_bit bit_index 1\<rparr>,
                 \<lparr>u128_low = low - u128_low divisor, u128_high = high - (u128_high divisor + borrow)\<rparr>)
        else (quotient, \<lparr>u128_low = low, u128_high = high\<rparr>))"

definition gray_u128_divmod :: "gray_u128 \<Rightarrow> gray_u128 \<Rightarrow> (gray_u128 \<times> gray_u128) panicking" where
  "gray_u128_divmod dividend divisor =
     (if u128_high divisor = 0 \<and> u128_low divisor = 0 then Inl ''P0078''
      else if u128_high dividend = 0 \<and> u128_high divisor = 0
      then Inr (\<lparr>u128_low = u128_low dividend div u128_low divisor, u128_high = 0\<rparr>,
                \<lparr>u128_low = u128_low dividend mod u128_low divisor, u128_high = 0\<rparr>)
      else Inr (long_division_loop (u128_divmod_step dividend divisor) 128
                  (GRAY_U128_ZERO, GRAY_U128_ZERO)))"

definition gray_u128_div :: "gray_u128 \<Rightarrow> gray_u128 \<Rightarrow> gray_u128 panicking" where
  "gray_u128_div left right = bind_panic (gray_u128_divmod left right) (\<lambda>(quotient, remainder). Inr quotient)"

definition gray_u128_mod :: "gray_u128 \<Rightarrow> gray_u128 \<Rightarrow> gray_u128 panicking" where
  "gray_u128_mod left right = bind_panic (gray_u128_divmod left right) (\<lambda>(quotient, remainder). Inr remainder)"

definition i128_is_neg :: "gray_i128 \<Rightarrow> bool" where
  "i128_is_neg value \<longleftrightarrow> sint (i128_high value) < 0"

definition gray_i128_div :: "gray_i128 \<Rightarrow> gray_i128 \<Rightarrow> gray_i128 panicking" where
  "gray_i128_div = signed_div gray_i128_neg i128_is_neg gray_u128_from_i128 gray_i128_from_u128 gray_u128_divmod"

definition gray_i128_mod :: "gray_i128 \<Rightarrow> gray_i128 \<Rightarrow> gray_i128 panicking" where
  "gray_i128_mod = signed_mod gray_i128_neg i128_is_neg gray_u128_from_i128 gray_i128_from_u128 gray_u128_divmod"

subsection \<open>Overflow-checked arithmetic\<close>

definition u128_is_zero :: "gray_u128 \<Rightarrow> bool" where
  "u128_is_zero value \<longleftrightarrow> u128_high value = 0 \<and> u128_low value = 0"

definition i128_is_zero :: "gray_i128 \<Rightarrow> bool" where
  "i128_is_zero value \<longleftrightarrow> i128_high value = 0 \<and> i128_low value = 0"

definition gray_i128_add_checked :: "gray_i128 \<Rightarrow> gray_i128 \<Rightarrow> gray_i128 panicking" where
  "gray_i128_add_checked = signed_add_checked gray_i128_add i128_is_neg ''P0021''"

definition gray_i128_sub_checked :: "gray_i128 \<Rightarrow> gray_i128 \<Rightarrow> gray_i128 panicking" where
  "gray_i128_sub_checked = signed_sub_checked gray_i128_sub i128_is_neg ''P0022''"

definition gray_i128_mul_checked :: "gray_i128 \<Rightarrow> gray_i128 \<Rightarrow> gray_i128 panicking" where
  "gray_i128_mul_checked = mul_checked gray_i128_mul i128_is_zero gray_i128_div gray_i128_eq ''P0023''"

definition gray_i128_neg_checked :: "gray_i128 \<Rightarrow> gray_i128 panicking" where
  "gray_i128_neg_checked = signed_neg_checked gray_i128_neg i128_is_neg ''P0014''"

definition gray_i128_abs_checked :: "gray_i128 \<Rightarrow> gray_i128 panicking" where
  "gray_i128_abs_checked value = (if i128_is_neg value then gray_i128_neg_checked value else Inr value)"

definition gray_u128_add_checked :: "gray_u128 \<Rightarrow> gray_u128 \<Rightarrow> gray_u128 panicking" where
  "gray_u128_add_checked = unsigned_add_checked gray_u128_add gray_u128_lt ''P0024''"

definition gray_u128_sub_checked :: "gray_u128 \<Rightarrow> gray_u128 \<Rightarrow> gray_u128 panicking" where
  "gray_u128_sub_checked = unsigned_sub_checked gray_u128_sub gray_u128_lt ''P0025''"

definition gray_u128_mul_checked :: "gray_u128 \<Rightarrow> gray_u128 \<Rightarrow> gray_u128 panicking" where
  "gray_u128_mul_checked = mul_checked gray_u128_mul u128_is_zero gray_u128_div gray_u128_eq ''P0026''"

end
