(* ===== verification/Wide256.thy ===== *)
theory Wide256
  imports Wide128
begin

text \<open>
  256-bit integers of \<open>grayc/src/runtime/bigint.h\<close>: the struct of four limbs, its
  constructors, wrapping and checked arithmetic, division and comparison. The source works on
  the array \<open>w[4]\<close> (a \<open>memcpy\<close> moves it between the signed and the unsigned struct);
  \<open>u256_words\<close> and \<open>u256_of_words\<close> are that array view.
\<close>

record gray_u256 =
  u256_w0 :: u64
  u256_w1 :: u64
  u256_w2 :: u64
  u256_w3 :: u64

record gray_i256 =
  i256_w0 :: u64
  i256_w1 :: u64
  i256_w2 :: u64
  i256_w3 :: u64

definition u256_words :: "gray_u256 \<Rightarrow> u64 list" where
  "u256_words v = [u256_w0 v, u256_w1 v, u256_w2 v, u256_w3 v]"

definition i256_words :: "gray_i256 \<Rightarrow> u64 list" where
  "i256_words v = [i256_w0 v, i256_w1 v, i256_w2 v, i256_w3 v]"

definition u256_of_words :: "u64 list \<Rightarrow> gray_u256" where
  "u256_of_words ws = \<lparr>u256_w0 = ws ! 0, u256_w1 = ws ! 1, u256_w2 = ws ! 2, u256_w3 = ws ! 3\<rparr>"

definition i256_of_words :: "u64 list \<Rightarrow> gray_i256" where
  "i256_of_words ws = \<lparr>i256_w0 = ws ! 0, i256_w1 = ws ! 1, i256_w2 = ws ! 2, i256_w3 = ws ! 3\<rparr>"

definition u256_int :: "gray_u256 \<Rightarrow> int" where
  "u256_int v = words_int (u256_words v)"

definition i256_int :: "gray_i256 \<Rightarrow> int" where
  "i256_int v = words_int [i256_w0 v, i256_w1 v, i256_w2 v] + 2 ^ 192 * sint (i256_w3 v)"

text \<open>\<open>memcpy\<close> between the two structs.\<close>

definition u256_of_i256 :: "gray_i256 \<Rightarrow> gray_u256" where
  "u256_of_i256 v = u256_of_words (i256_words v)"

definition i256_of_u256 :: "gray_u256 \<Rightarrow> gray_i256" where
  "i256_of_u256 v = i256_of_words (u256_words v)"

definition GRAY_U256_ZERO :: gray_u256 where
  "GRAY_U256_ZERO = u256_of_words [0, 0, 0, 0]"

definition GRAY_I256_ZERO :: gray_i256 where
  "GRAY_I256_ZERO = i256_of_words [0, 0, 0, 0]"

subsection \<open>Constructors and size casts\<close>

definition gray_i256_from_i64 :: "i64 \<Rightarrow> gray_i256" where
  "gray_i256_from_i64 value =
     (let sign = (if sint value < 0 then -1 else 0) in i256_of_words [value, sign, sign, sign])"

definition gray_i256_from_u64 :: "u64 \<Rightarrow> gray_i256" where
  "gray_i256_from_u64 value = i256_of_words [value, 0, 0, 0]"

definition gray_u256_from_u64 :: "u64 \<Rightarrow> gray_u256" where
  "gray_u256_from_u64 value = u256_of_words [value, 0, 0, 0]"

definition gray_i256_to_i64 :: "gray_i256 \<Rightarrow> i64 panicking" where
  "gray_i256_to_i64 value =
     (let sign_extension = signed_drop_bit 63 (i256_w0 value)
      in if i256_w1 value \<noteq> sign_extension \<or> i256_w2 value \<noteq> sign_extension \<or> i256_w3 value \<noteq> sign_extension
         then Inl ''P0097'' else Inr (i256_w0 value))"

definition gray_i256_to_u64 :: "gray_i256 \<Rightarrow> u64 panicking" where
  "gray_i256_to_u64 value =
     (if i256_w1 value \<noteq> 0 \<or> i256_w2 value \<noteq> 0 \<or> i256_w3 value \<noteq> 0
      then Inl ''P0098'' else Inr (i256_w0 value))"

definition gray_u256_to_i64 :: "gray_u256 \<Rightarrow> i64 panicking" where
  "gray_u256_to_i64 value =
     (if u256_w1 value \<noteq> 0 \<or> u256_w2 value \<noteq> 0 \<or> u256_w3 value \<noteq> 0 \<or> INT64_MAX < u256_w0 value
      then Inl ''P0099'' else Inr (u256_w0 value))"

definition gray_u256_to_u64 :: "gray_u256 \<Rightarrow> u64 panicking" where
  "gray_u256_to_u64 value =
     (if u256_w1 value \<noteq> 0 \<or> u256_w2 value \<noteq> 0 \<or> u256_w3 value \<noteq> 0
      then Inl ''P0100'' else Inr (u256_w0 value))"

definition gray_i256_from_i128 :: "gray_i128 \<Rightarrow> gray_i256" where
  "gray_i256_from_i128 value =
     (let sign = (if sint (i128_high value) < 0 then -1 else 0)
      in i256_of_words [i128_low value, i128_high value, sign, sign])"

definition gray_u256_from_u128 :: "gray_u128 \<Rightarrow> gray_u256" where
  "gray_u256_from_u128 value = u256_of_words [u128_low value, u128_high value, 0, 0]"

definition gray_i128_from_i256 :: "gray_i256 \<Rightarrow> gray_i128" where
  "gray_i128_from_i256 value = \<lparr>i128_low = i256_w0 value, i128_high = i256_w1 value\<rparr>"

definition gray_u128_from_u256 :: "gray_u256 \<Rightarrow> gray_u128" where
  "gray_u128_from_u256 value = \<lparr>u128_low = u256_w0 value, u128_high = u256_w1 value\<rparr>"

subsection \<open>Wrapping arithmetic\<close>

definition gray_u256_add :: "gray_u256 \<Rightarrow> gray_u256 \<Rightarrow> gray_u256" where
  "gray_u256_add left right = u256_of_words (add_words 0 (u256_words left) (u256_words right))"

definition gray_u256_sub :: "gray_u256 \<Rightarrow> gray_u256 \<Rightarrow> gray_u256" where
  "gray_u256_sub left right = u256_of_words (sub_words 0 (u256_words left) (u256_words right))"

definition gray_u256_mul :: "gray_u256 \<Rightarrow> gray_u256 \<Rightarrow> gray_u256" where
  "gray_u256_mul left right =
     u256_of_words (mul_rows (u256_words left) (u256_words right) (u256_words GRAY_U256_ZERO))"

definition gray_i256_add :: "gray_i256 \<Rightarrow> gray_i256 \<Rightarrow> gray_i256" where
  "gray_i256_add left right = i256_of_words (add_words 0 (i256_words left) (i256_words right))"

definition gray_i256_sub :: "gray_i256 \<Rightarrow> gray_i256 \<Rightarrow> gray_i256" where
  "gray_i256_sub left right = i256_of_words (sub_words 0 (i256_words left) (i256_words right))"

definition gray_i256_neg :: "gray_i256 \<Rightarrow> gray_i256" where
  "gray_i256_neg value = i256_of_words (neg_words 1 (i256_words value))"

definition gray_i256_mul :: "gray_i256 \<Rightarrow> gray_i256 \<Rightarrow> gray_i256" where
  "gray_i256_mul left right =
     i256_of_words (mul_rows (i256_words left) (i256_words right) (i256_words GRAY_I256_ZERO))"

definition gray_i256_is_neg :: "gray_i256 \<Rightarrow> bool" where
  "gray_i256_is_neg value \<longleftrightarrow> sint (i256_w3 value) < 0"

subsection \<open>Comparison\<close>

definition gray_i256_eq :: "gray_i256 \<Rightarrow> gray_i256 \<Rightarrow> bool" where
  "gray_i256_eq left right \<longleftrightarrow>
     i256_w0 left = i256_w0 right \<and> i256_w1 left = i256_w1 right \<and>
     i256_w2 left = i256_w2 right \<and> i256_w3 left = i256_w3 right"

definition gray_i256_ne :: "gray_i256 \<Rightarrow> gray_i256 \<Rightarrow> bool" where
  "gray_i256_ne left right \<longleftrightarrow> \<not> gray_i256_eq left right"

definition gray_i256_lt :: "gray_i256 \<Rightarrow> gray_i256 \<Rightarrow> bool" where
  "gray_i256_lt left right =
     (if sint (i256_w3 left) \<noteq> sint (i256_w3 right) then sint (i256_w3 left) < sint (i256_w3 right)
      else if i256_w2 left \<noteq> i256_w2 right then i256_w2 left < i256_w2 right
      else if i256_w1 left \<noteq> i256_w1 right then i256_w1 left < i256_w1 right
      else i256_w0 left < i256_w0 right)"

definition gray_i256_gt :: "gray_i256 \<Rightarrow> gray_i256 \<Rightarrow> bool" where
  "gray_i256_gt left right \<longleftrightarrow> gray_i256_lt right left"

definition gray_i256_le :: "gray_i256 \<Rightarrow> gray_i256 \<Rightarrow> bool" where
  "gray_i256_le left right \<longleftrightarrow> \<not> gray_i256_gt left right"

definition gray_i256_ge :: "gray_i256 \<Rightarrow> gray_i256 \<Rightarrow> bool" where
  "gray_i256_ge left right \<longleftrightarrow> \<not> gray_i256_lt left right"

definition gray_u256_eq :: "gray_u256 \<Rightarrow> gray_u256 \<Rightarrow> bool" where
  "gray_u256_eq left right \<longleftrightarrow>
     u256_w0 left = u256_w0 right \<and> u256_w1 left = u256_w1 right \<and>
     u256_w2 left = u256_w2 right \<and> u256_w3 left = u256_w3 right"

definition gray_u256_ne :: "gray_u256 \<Rightarrow> gray_u256 \<Rightarrow> bool" where
  "gray_u256_ne left right \<longleftrightarrow> \<not> gray_u256_eq left right"

definition gray_u256_lt :: "gray_u256 \<Rightarrow> gray_u256 \<Rightarrow> bool" where
  "gray_u256_lt left right =
     (if u256_w3 left \<noteq> u256_w3 right then u256_w3 left < u256_w3 right
      else if u256_w2 left \<noteq> u256_w2 right then u256_w2 left < u256_w2 right
      else if u256_w1 left \<noteq> u256_w1 right then u256_w1 left < u256_w1 right
      else u256_w0 left < u256_w0 right)"

definition gray_u256_gt :: "gray_u256 \<Rightarrow> gray_u256 \<Rightarrow> bool" where
  "gray_u256_gt left right \<longleftrightarrow> gray_u256_lt right left"

definition gray_u256_le :: "gray_u256 \<Rightarrow> gray_u256 \<Rightarrow> bool" where
  "gray_u256_le left right \<longleftrightarrow> \<not> gray_u256_gt left right"

definition gray_u256_ge :: "gray_u256 \<Rightarrow> gray_u256 \<Rightarrow> bool" where
  "gray_u256_ge left right \<longleftrightarrow> \<not> gray_u256_lt left right"

subsection \<open>Division\<close>

definition u256_divmod_step :: "gray_u256 \<Rightarrow> gray_u256 \<Rightarrow> nat \<Rightarrow> gray_u256 \<times> gray_u256 \<Rightarrow> gray_u256 \<times> gray_u256" where
  "u256_divmod_step dividend divisor i = (\<lambda>(quotient, remainder).
     map_prod u256_of_words u256_of_words
       (words_divmod_step (u256_words dividend) (u256_words divisor) i
          (u256_words quotient, u256_words remainder)))"

definition u256_is_zero :: "gray_u256 \<Rightarrow> bool" where
  "u256_is_zero v \<longleftrightarrow> u256_w0 v = 0 \<and> u256_w1 v = 0 \<and> u256_w2 v = 0 \<and> u256_w3 v = 0"

definition gray_u256_divmod :: "gray_u256 \<Rightarrow> gray_u256 \<Rightarrow> (gray_u256 \<times> gray_u256) panicking" where
  "gray_u256_divmod dividend divisor =
     (if u256_is_zero divisor then Inl ''P0078''
      else if u256_w1 dividend = 0 \<and> u256_w2 dividend = 0 \<and> u256_w3 dividend = 0 \<and>
              u256_w1 divisor = 0 \<and> u256_w2 divisor = 0 \<and> u256_w3 divisor = 0
      then Inr (u256_of_words [u256_w0 dividend div u256_w0 divisor, 0, 0, 0],
                u256_of_words [u256_w0 dividend mod u256_w0 divisor, 0, 0, 0])
      else Inr (long_division_loop (u256_divmod_step dividend divisor) 256
                  (GRAY_U256_ZERO, GRAY_U256_ZERO)))"

definition gray_u256_div :: "gray_u256 \<Rightarrow> gray_u256 \<Rightarrow> gray_u256 panicking" where
  "gray_u256_div left right = bind_panic (gray_u256_divmod left right) (\<lambda>(quotient, remainder). Inr quotient)"

definition gray_u256_mod :: "gray_u256 \<Rightarrow> gray_u256 \<Rightarrow> gray_u256 panicking" where
  "gray_u256_mod left right = bind_panic (gray_u256_divmod left right) (\<lambda>(quotient, remainder). Inr remainder)"

definition gray_i256_div :: "gray_i256 \<Rightarrow> gray_i256 \<Rightarrow> gray_i256 panicking" where
  "gray_i256_div = signed_div gray_i256_neg gray_i256_is_neg u256_of_i256 i256_of_u256 gray_u256_divmod"

definition gray_i256_mod :: "gray_i256 \<Rightarrow> gray_i256 \<Rightarrow> gray_i256 panicking" where
  "gray_i256_mod = signed_mod gray_i256_neg gray_i256_is_neg u256_of_i256 i256_of_u256 gray_u256_divmod"

subsection \<open>Overflow-checked arithmetic\<close>

definition i256_is_zero :: "gray_i256 \<Rightarrow> bool" where
  "i256_is_zero v \<longleftrightarrow> i256_w0 v = 0 \<and> i256_w1 v = 0 \<and> i256_w2 v = 0 \<and> i256_w3 v = 0"

definition gray_i256_add_checked :: "gray_i256 \<Rightarrow> gray_i256 \<Rightarrow> gray_i256 panicking" where
  "gray_i256_add_checked = signed_add_checked gray_i256_add gray_i256_is_neg ''P0027''"

definition gray_i256_sub_checked :: "gray_i256 \<Rightarrow> gray_i256 \<Rightarrow> gray_i256 panicking" where
  "gray_i256_sub_checked = signed_sub_checked gray_i256_sub gray_i256_is_neg ''P0028''"

definition gray_i256_mul_checked :: "gray_i256 \<Rightarrow> gray_i256 \<Rightarrow> gray_i256 panicking" where
  "gray_i256_mul_checked = mul_checked gray_i256_mul i256_is_zero gray_i256_div gray_i256_eq ''P0029''"

definition gray_i256_neg_checked :: "gray_i256 \<Rightarrow> gray_i256 panicking" where
  "gray_i256_neg_checked = signed_neg_checked gray_i256_neg gray_i256_is_neg ''P0014''"

definition gray_i256_abs_checked :: "gray_i256 \<Rightarrow> gray_i256 panicking" where
  "gray_i256_abs_checked value = (if gray_i256_is_neg value then gray_i256_neg_checked value else Inr value)"

definition gray_u256_add_checked :: "gray_u256 \<Rightarrow> gray_u256 \<Rightarrow> gray_u256 panicking" where
  "gray_u256_add_checked = unsigned_add_checked gray_u256_add gray_u256_lt ''P0030''"

definition gray_u256_sub_checked :: "gray_u256 \<Rightarrow> gray_u256 \<Rightarrow> gray_u256 panicking" where
  "gray_u256_sub_checked = unsigned_sub_checked gray_u256_sub gray_u256_lt ''P0031''"

definition gray_u256_mul_checked :: "gray_u256 \<Rightarrow> gray_u256 \<Rightarrow> gray_u256 panicking" where
  "gray_u256_mul_checked = mul_checked gray_u256_mul u256_is_zero gray_u256_div gray_u256_eq ''P0032''"

end
