(* ===== verification/Wide128_Values.thy ===== *)
theory Wide128_Values
  imports Wide128
begin

text \<open>
  The integer each 128-bit operation computes: wrapping arithmetic modulo \<open>2 ^ 128\<close>,
  comparison as integer comparison, division as integer division.
\<close>

lemma u128_int_bounds: "0 \<le> u128_int v" "u128_int v < 2 ^ 128"
  using words_int_less [of "[u128_low v, u128_high v]"] by (simp_all add: u128_int_def del: words_int.simps)

lemma u128_int_inject [simp]: "u128_int a = u128_int b \<longleftrightarrow> a = b"
  by (auto simp: u128_int_def words_int_inject simp del: words_int.simps)

lemma take_bit_u128 [simp]: "take_bit 128 (u128_int v) = u128_int v"
  using u128_int_bounds [of v] by (simp add: take_bit_int_eq_self)

lemma u128_take_bit_unique:
  assumes "words_int ws = y + 2 ^ 128 * k" "u128_int v = words_int ws" 
  shows "u128_int v = take_bit 128 y"
  using assms u128_int_bounds [of v] by (intro take_bit_unique [of _ 128 y k]) simp_all

lemma u128_add_value [wide_val]:
  "u128_int (gray_u128_add a b) = take_bit 128 (u128_int a + u128_int b)"
proof -
  let ?A = "[u128_low a, u128_high a]" and ?B = "[u128_low b, u128_high b]"
  obtain k where "words_int (add_words 0 ?A ?B) = words_int ?A + words_int ?B + 2 ^ 128 * k"
    using add_words_value [of ?A ?B 0] by auto
  moreover have "u128_int (gray_u128_add a b) = words_int (add_words 0 ?A ?B)"
    by (simp add: gray_u128_add_def u128_int_def Let_def)
  ultimately show ?thesis unfolding u128_int_def [of a] u128_int_def [of b] by (rule u128_take_bit_unique)
qed

lemma u128_sub_value [wide_val]:
  "u128_int (gray_u128_sub a b) = take_bit 128 (u128_int a - u128_int b)"
proof -
  let ?A = "[u128_low a, u128_high a]" and ?B = "[u128_low b, u128_high b]"
  obtain k where "words_int (sub_words 0 ?A ?B) = words_int ?A - words_int ?B + 2 ^ 128 * k"
    using sub_words_value [of ?A ?B 0] by auto
  moreover have "u128_int (gray_u128_sub a b) = words_int (sub_words 0 ?A ?B)"
    by (simp add: gray_u128_sub_def u128_int_def Let_def)
  ultimately show ?thesis unfolding u128_int_def [of a] u128_int_def [of b] by (rule u128_take_bit_unique)
qed

lemma u128_mul_value [wide_val]:
  "u128_int (gray_u128_mul a b) = take_bit 128 (u128_int a * u128_int b)"
proof -
  let ?A = "[u128_low a, u128_high a]" and ?B = "[u128_low b, u128_high b]"
  obtain k where "words_int (mul_rows ?A ?B [0, 0]) = words_int ?A * words_int ?B + 2 ^ 128 * k"
    using mul_rows_value [of ?B "[0, 0]" ?A] by auto
  moreover have "u128_int (gray_u128_mul a b) = words_int (mul_rows ?A ?B [0, 0])"
    by (simp add: gray_u128_mul_def u128_int_def Let_def mul_hi_part_def add.commute add.left_commute)
  ultimately show ?thesis unfolding u128_int_def [of a] u128_int_def [of b] by (rule u128_take_bit_unique)
qed

subsection \<open>Signed values\<close>

lemma i128_int_bits: "i128_int v = signed_take_bit 127 (u128_int (gray_u128_from_i128 v))"
  using signed_words_int [of "[i128_low v]" "i128_high v"]
  by (simp add: i128_int_def u128_int_def gray_u128_from_i128_def)

lemma u128_int_bits: "u128_int (gray_u128_from_i128 v) = take_bit 128 (i128_int v)"
  using take_bit_signed_take_bit [of 128 127 "u128_int (gray_u128_from_i128 v)"]
  by (simp add: i128_int_bits take_bit_int_eq_self u128_int_bounds take_bit_signed_take_bit)

lemma i128_int_bounds: "- (2 ^ 127) \<le> i128_int v" "i128_int v < 2 ^ 127"
  by (simp_all only: i128_int_bits signed_take_bit_int_greater_eq_minus_exp signed_take_bit_int_less_exp)

lemma from_i128_inject [simp]: "gray_u128_from_i128 a = gray_u128_from_i128 b \<longleftrightarrow> a = b"
  by (auto simp: gray_u128_from_i128_def)

lemma i128_int_inject [simp]: "i128_int a = i128_int b \<longleftrightarrow> a = b"
  by (metis from_i128_inject u128_int_bits u128_int_inject)

lemma from_i128_from_u128 [simp]: "gray_u128_from_i128 (gray_i128_from_u128 v) = v"
  "gray_i128_from_u128 (gray_u128_from_i128 w) = w"
  by (simp_all add: gray_u128_from_i128_def gray_i128_from_u128_def)

lemma i128_from_u128_value: "i128_int (gray_i128_from_u128 v) = signed_take_bit 127 (u128_int v)"
  by (simp add: i128_int_bits)

lemma i128_neg_iff: "sint (i128_high v) < 0 \<longleftrightarrow> i128_int v < 0"
proof -
  obtain L where L: "uint (i128_low v) = L" "0 \<le> L" "L < 2 ^ 64" by (rule limb_cases)
  show ?thesis using L(2,3) by (auto simp: i128_int_def L(1))
qed

lemma i128_bits_ops:
  "gray_u128_from_i128 (gray_i128_add a b) = gray_u128_add (gray_u128_from_i128 a) (gray_u128_from_i128 b)"
  "gray_u128_from_i128 (gray_i128_sub a b) = gray_u128_sub (gray_u128_from_i128 a) (gray_u128_from_i128 b)"
  "gray_u128_from_i128 (gray_i128_mul a b) = gray_u128_mul (gray_u128_from_i128 a) (gray_u128_from_i128 b)"
  by (simp_all add: gray_u128_from_i128_def gray_i128_add_def gray_u128_add_def gray_i128_sub_def
      gray_u128_sub_def gray_i128_mul_def gray_u128_mul_def Let_def)

lemma i128_add_value [wide_val]: "i128_int (gray_i128_add a b) = signed_take_bit 127 (i128_int a + i128_int b)"
  by (simp add: i128_int_bits i128_bits_ops u128_add_value signed_take_bit_take_bit signed_take_bit_add)

lemma i128_sub_value [wide_val]: "i128_int (gray_i128_sub a b) = signed_take_bit 127 (i128_int a - i128_int b)"
  by (simp add: i128_int_bits i128_bits_ops u128_sub_value signed_take_bit_take_bit signed_take_bit_diff)

lemma i128_mul_value [wide_val]: "i128_int (gray_i128_mul a b) = signed_take_bit 127 (i128_int a * i128_int b)"
  by (simp add: i128_int_bits i128_bits_ops u128_mul_value signed_take_bit_take_bit signed_take_bit_mult)

lemma neg_carry_iff: "(NOT w + 1 < NOT w) \<longleftrightarrow> NOT w + 1 = (0 :: u64)"
proof -
  obtain W where "uint w = W" "0 \<le> W" "W < 2 ^ 64" by (rule limb_cases)
  then show ?thesis by (auto simp: word_less_def word_uint_eq_iff uint64_add uint64_not)
qed

lemma i128_neg_value [wide_val]: "i128_int (gray_i128_neg v) = signed_take_bit 127 (- i128_int v)"
proof -
  let ?V = "[i128_low v, i128_high v]"
  obtain k where "words_int (neg_words 1 ?V) = - words_int ?V + 2 ^ 128 * k"
    using neg_words_value [of 1 ?V] by auto
  moreover have "u128_int (gray_u128_from_i128 (gray_i128_neg v)) = words_int (neg_words 1 ?V)"
    by (simp add: gray_i128_neg_def gray_u128_from_i128_def u128_int_def Let_def neg_carry_iff)
  ultimately have "u128_int (gray_u128_from_i128 (gray_i128_neg v)) = take_bit 128 (- words_int ?V)"
    by (rule u128_take_bit_unique)
  also have "words_int ?V = u128_int (gray_u128_from_i128 v)"
    by (simp add: u128_int_def gray_u128_from_i128_def)
  finally show ?thesis by (simp add: i128_int_bits signed_take_bit_take_bit signed_take_bit_minus)
qed

subsection \<open>Comparison\<close>

lemma u128_lt_value: "gray_u128_lt a b \<longleftrightarrow> u128_int a < u128_int b"
proof -
  obtain L where L: "uint (u128_low a) = L" "0 \<le> L" "L < 2 ^ 64" by (rule limb_cases)
  obtain M where M: "uint (u128_low b) = M" "0 \<le> M" "M < 2 ^ 64" by (rule limb_cases)
  have "u128_high a = u128_high b \<longleftrightarrow> uint (u128_high a) = uint (u128_high b)" by (rule word_uint_eq_iff)
  then show ?thesis using L(2,3) M(2,3)
    by (auto simp: gray_u128_lt_def u128_int_def word_less_def L(1) M(1))
qed

lemma i128_lt_value: "gray_i128_lt a b \<longleftrightarrow> i128_int a < i128_int b"
proof -
  obtain L where L: "uint (i128_low a) = L" "0 \<le> L" "L < 2 ^ 64" by (rule limb_cases)
  obtain M where M: "uint (i128_low b) = M" "0 \<le> M" "M < 2 ^ 64" by (rule limb_cases)
  have "i128_high a = i128_high b \<longleftrightarrow> sint (i128_high a) = sint (i128_high b)" by (simp add: word_eq_iff_signed)
  then show ?thesis using L(2,3) M(2,3)
    by (auto simp: gray_i128_lt_def i128_int_def word_less_def L(1) M(1))
qed

lemma u128_compare_values [wide_val]:
  "gray_u128_eq a b \<longleftrightarrow> u128_int a = u128_int b"
  "gray_u128_ne a b \<longleftrightarrow> u128_int a \<noteq> u128_int b"
  "gray_u128_lt a b \<longleftrightarrow> u128_int a < u128_int b"
  "gray_u128_gt a b \<longleftrightarrow> u128_int b < u128_int a"
  "gray_u128_le a b \<longleftrightarrow> u128_int a \<le> u128_int b"
  "gray_u128_ge a b \<longleftrightarrow> u128_int b \<le> u128_int a"
  by (auto simp: gray_u128_eq_def gray_u128_ne_def gray_u128_gt_def gray_u128_le_def gray_u128_ge_def u128_lt_value)

lemma i128_compare_values [wide_val]:
  "gray_i128_eq a b \<longleftrightarrow> i128_int a = i128_int b"
  "gray_i128_ne a b \<longleftrightarrow> i128_int a \<noteq> i128_int b"
  "gray_i128_lt a b \<longleftrightarrow> i128_int a < i128_int b"
  "gray_i128_gt a b \<longleftrightarrow> i128_int b < i128_int a"
  "gray_i128_le a b \<longleftrightarrow> i128_int a \<le> i128_int b"
  "gray_i128_ge a b \<longleftrightarrow> i128_int b \<le> i128_int a"
  by (auto simp: gray_i128_eq_def gray_i128_ne_def gray_i128_gt_def gray_i128_le_def gray_i128_ge_def i128_lt_value)

subsection \<open>Division\<close>

definition words128 :: "gray_u128 \<Rightarrow> u64 list" where
  "words128 v = [u128_low v, u128_high v]"

lemma words128_simps [simp]: "length (words128 v) = 2" "words_int (words128 v) = u128_int v"
  by (simp_all add: words128_def u128_int_def)

lemma geq_words_2: "geq_words [a, b] [c, d] \<longleftrightarrow> d < b \<or> (b = d \<and> c \<le> a)"
  by (auto simp: geq_words_def)

lemma bit_index_cases:
  assumes "i < (128::nat)"
  obtains "i < 64" "i div 64 = 0" "i mod 64 = i"
    | "64 \<le> i" "i div 64 = 1" "i mod 64 = i - 64"
  using assms that by (cases "i < 64") (auto simp: div_nat_eqI mod_if)

lemma u128_divmod_step_words:
  assumes "i < 128"
  shows "map_prod words128 words128 (u128_divmod_step n d i (q, r))
           = words_divmod_step (words128 n) (words128 d) i (words128 q, words128 r)"
  using assms
  by (cases i rule: bit_index_cases)
     (auto simp: u128_divmod_step_def words_divmod_step_def words128_def Let_def word_bit_def
        set_word_bit_def geq_words_2 diff_diff_add)

interpretation u128_division: long_division u128_int 128 GRAY_U128_ZERO u128_divmod_step
proof
  show "u128_int GRAY_U128_ZERO = 0" by (simp add: GRAY_U128_ZERO_def u128_int_def)
  show "0 \<le> u128_int x" "u128_int x < 2 ^ 128" for x by (rule u128_int_bounds)+
next
  fix i q r d n q' r'
  assume a: "i < 128" "u128_int q mod 2 ^ Suc i = 0" "u128_int r \<le> u128_int n div 2 ^ Suc i"
    "u128_divmod_step n d i (q, r) = (q', r')"
  have st: "words_divmod_step (words128 n) (words128 d) i (words128 q, words128 r) = (words128 q', words128 r')"
    using u128_divmod_step_words [OF a(1), of n d q r] a(4) by simp
  note step = words_divmod_step_value [where N = 2, OF _ _ _ _ _ _ _ st, simplified]
  show "u128_int q' = u128_int q + 2 ^ i \<and> u128_int r' = 2 * u128_int r + u128_int n div 2 ^ i mod 2 - u128_int d"
    if "u128_int d \<le> 2 * u128_int r + u128_int n div 2 ^ i mod 2"
    using step(3) a that by simp
  show "u128_int q' = u128_int q \<and> u128_int r' = 2 * u128_int r + u128_int n div 2 ^ i mod 2"
    if "2 * u128_int r + u128_int n div 2 ^ i mod 2 < u128_int d"
    using step(4) a that by simp
qed

lemma u128_zero_iff: "u128_high v = 0 \<and> u128_low v = 0 \<longleftrightarrow> u128_int v = 0"
  using words_int_zero_iff [of "words128 v"] by (auto simp: words128_def u128_int_def)

lemma u128_divmod_zero: "u128_int d = 0 \<Longrightarrow> gray_u128_divmod n d = Inl ''P0078''"
  using u128_zero_iff [of d] by (simp add: gray_u128_divmod_def)

lemma u128_divmod_value:
  assumes "u128_int d \<noteq> 0"
  shows "\<exists>q r. gray_u128_divmod n d = Inr (q, r) \<and>
           u128_int q = u128_int n div u128_int d \<and> u128_int r = u128_int n mod u128_int d"
proof (cases "u128_high n = 0 \<and> u128_high d = 0")
  case True
  then have "u128_int n = uint (u128_low n)" "u128_int d = uint (u128_low d)"
    by (simp_all add: u128_int_def)
  with True assms show ?thesis
    using u128_zero_iff [of d] by (auto simp: gray_u128_divmod_def u128_int_def uint_div uint_mod)
next
  case False
  obtain q r where qr: "long_division_loop (u128_divmod_step n d) 128 (GRAY_U128_ZERO, GRAY_U128_ZERO) = (q, r)"
    by (cases "long_division_loop (u128_divmod_step n d) 128 (GRAY_U128_ZERO, GRAY_U128_ZERO)")
  have "0 < u128_int d" using assms u128_int_bounds(1) [of d] by linarith
  from u128_division.loop_divides [OF this qr] show ?thesis
    using False assms u128_zero_iff [of d] qr by (auto simp: gray_u128_divmod_def)
qed

subsection \<open>The contracts\<close>

lemma u128_from_u64_value [simp]: "u128_int (gray_u128_from_u64 w) = uint w"
  by (simp add: u128_int_def gray_u128_from_u64_def)

interpretation u128: wide_unsigned u128_int 128 gray_u128_from_u64 u128_low
  gray_u128_add gray_u128_sub gray_u128_mul gray_u128_divmod gray_u128_eq gray_u128_lt
proof
  show "uint (u128_low x) = u128_int x mod 2 ^ 64" for x
    by (simp add: u128_int_def mod_pos_pos_trivial)
qed (use u128_int_bounds in \<open>auto simp: u128_from_u64_value
       wide_val u128_divmod_zero intro: u128_divmod_value\<close>)

interpretation i128: wide_signed u128_int 128 gray_u128_from_u64 u128_low
  gray_u128_add gray_u128_sub gray_u128_mul gray_u128_divmod gray_u128_eq gray_u128_lt
  127 i128_int gray_u128_from_i128 gray_i128_from_u128
  gray_i128_add gray_i128_sub gray_i128_mul gray_i128_neg i128_is_neg gray_i128_eq gray_i128_lt
  by unfold_locales
    (auto simp: i128_bits_ops i128_neg_value i128_is_neg_def i128_neg_iff i128_compare_values
       simp flip: i128_int_bits)

lemma u128_is_zero_iff: "u128_is_zero v \<longleftrightarrow> u128_int v = 0"
  by (simp add: u128_is_zero_def u128_zero_iff)

lemma i128_is_zero_iff: "i128_is_zero v \<longleftrightarrow> i128_int v = 0"
proof -
  have "i128_is_zero v \<longleftrightarrow> v = GRAY_I128_ZERO"
    by (cases v) (auto simp: i128_is_zero_def GRAY_I128_ZERO_def)
  also have "\<dots> \<longleftrightarrow> i128_int v = i128_int GRAY_I128_ZERO" by simp
  finally show ?thesis by (simp add: GRAY_I128_ZERO_def i128_int_def)
qed

end
