(* ===== verification/Wide256_Values.thy ===== *)
theory Wide256_Values
  imports Wide256 Wide128_Values
begin

text \<open>The integer each 256-bit operation computes, and the two contracts interpreted on it.\<close>

subsection \<open>The array view\<close>

lemma u256_words_simps [simp]:
  "length (u256_words v) = 4"
  "length ws = 4 \<Longrightarrow> u256_words (u256_of_words ws) = ws"
  "u256_of_words (u256_words v) = v"
proof -
  show "u256_words (u256_of_words ws) = ws" if L: "length ws = 4"
  proof -
    obtain a b c d where "ws = [a, b, c, d]" by (rule length_4_cases [OF L])
    then show ?thesis by (simp add: u256_words_def u256_of_words_def)
  qed
qed (simp_all add: u256_words_def u256_of_words_def)

lemma i256_words_simps [simp]:
  "length (i256_words v) = 4"
  "length ws = 4 \<Longrightarrow> i256_words (i256_of_words ws) = ws"
  "i256_of_words (i256_words v) = v"
proof -
  show "i256_words (i256_of_words ws) = ws" if L: "length ws = 4"
  proof -
    obtain a b c d where "ws = [a, b, c, d]" by (rule length_4_cases [OF L])
    then show ?thesis by (simp add: i256_words_def i256_of_words_def)
  qed
qed (simp_all add: i256_words_def i256_of_words_def)

lemma u256_words_of_i256 [simp]: "u256_words (u256_of_i256 v) = i256_words v"
  "i256_words (i256_of_u256 u) = u256_words u"
  by (simp_all add: u256_of_i256_def i256_of_u256_def)

lemma u256_words_inject: "u256_words a = u256_words b \<longleftrightarrow> a = b"
  by (metis u256_words_simps(3))

lemma u256_int_bounds: "0 \<le> u256_int v" "u256_int v < 2 ^ 256"
  using words_int_less [of "u256_words v"] by (simp_all add: u256_int_def)

lemma u256_int_inject [simp]: "u256_int a = u256_int b \<longleftrightarrow> a = b"
  by (simp add: u256_int_def words_int_inject u256_words_inject)

lemma u256_take_bit_unique:
  assumes "length ws = 4" "words_int ws = y + 2 ^ 256 * k"
  shows "words_int ws = take_bit 256 y"
  using words_int_less [of ws] assms(1) by (intro take_bit_unique [OF words_int_nonneg _ assms(2)]) simp

lemma u256_add_value [wide_val]: "u256_int (gray_u256_add a b) = take_bit 256 (u256_int a + u256_int b)"
proof -
  obtain k where "words_int (add_words 0 (u256_words a) (u256_words b))
      = (words_int (u256_words a) + words_int (u256_words b)) + 2 ^ 256 * k"
    using add_words_value [of "u256_words a" "u256_words b" 0] by auto
  from u256_take_bit_unique [OF _ this] show ?thesis
    by (simp add: gray_u256_add_def u256_int_def)
qed

lemma u256_sub_value [wide_val]: "u256_int (gray_u256_sub a b) = take_bit 256 (u256_int a - u256_int b)"
proof -
  obtain k where "words_int (sub_words 0 (u256_words a) (u256_words b))
      = (words_int (u256_words a) - words_int (u256_words b)) + 2 ^ 256 * k"
    using sub_words_value [of "u256_words a" "u256_words b" 0] by auto
  from u256_take_bit_unique [OF _ this] show ?thesis
    by (simp add: gray_u256_sub_def u256_int_def)
qed

lemma u256_zero_words: "u256_words GRAY_U256_ZERO = [0, 0, 0, 0]" "i256_words GRAY_I256_ZERO = [0, 0, 0, 0]"
  by (simp_all add: GRAY_U256_ZERO_def GRAY_I256_ZERO_def)

lemma u256_mul_value [wide_val]: "u256_int (gray_u256_mul a b) = take_bit 256 (u256_int a * u256_int b)"
proof -
  obtain k where "words_int (mul_rows (u256_words a) (u256_words b) [0, 0, 0, 0])
      = (words_int (u256_words a) * words_int (u256_words b)) + 2 ^ 256 * k"
    using mul_rows_value [of "u256_words b" "[0, 0, 0, 0]" "u256_words a"] by auto
  from u256_take_bit_unique [OF _ this] show ?thesis
    by (simp add: gray_u256_mul_def u256_int_def u256_zero_words)
qed

lemma u256_from_u64_value [simp]: "u256_int (gray_u256_from_u64 w) = uint w"
  by (simp add: u256_int_def gray_u256_from_u64_def)

subsection \<open>Signed values\<close>

lemma i256_int_bits: "i256_int v = signed_take_bit 255 (u256_int (u256_of_i256 v))"
  using signed_words_int [of "[i256_w0 v, i256_w1 v, i256_w2 v]" "i256_w3 v"]
  by (simp add: i256_int_def u256_int_def i256_words_def)

lemma u256_int_bits: "u256_int (u256_of_i256 v) = take_bit 256 (i256_int v)"
  using u256_int_bounds [of "u256_of_i256 v"]
  by (simp add: i256_int_bits take_bit_int_eq_self take_bit_signed_take_bit)

lemma i256_int_bounds: "- (2 ^ 255) \<le> i256_int v" "i256_int v < 2 ^ 255"
  by (simp_all only: i256_int_bits signed_take_bit_int_greater_eq_minus_exp signed_take_bit_int_less_exp)

lemma u256_of_i256_inject [simp]: "u256_of_i256 a = u256_of_i256 b \<longleftrightarrow> a = b"
  by (metis i256_words_simps(3) u256_words_of_i256(1))

lemma i256_int_inject [simp]: "i256_int a = i256_int b \<longleftrightarrow> a = b"
  by (metis u256_of_i256_inject u256_int_bits u256_int_inject)

lemma u256_of_i256_of_u256 [simp]: "u256_of_i256 (i256_of_u256 u) = u"
  by (simp add: u256_of_i256_def)

lemma i256_neg_iff: "gray_i256_is_neg v \<longleftrightarrow> i256_int v < 0"
proof -
  define L where "L = words_int [i256_w0 v, i256_w1 v, i256_w2 v]"
  have "0 \<le> L" "L < 2 ^ 192"
    using words_int_less [of "[i256_w0 v, i256_w1 v, i256_w2 v]"] by (simp_all add: L_def del: words_int.simps)
  then show ?thesis unfolding gray_i256_is_neg_def i256_int_def L_def [symmetric] by auto
qed

lemma i256_bits_ops:
  "u256_of_i256 (gray_i256_add a b) = gray_u256_add (u256_of_i256 a) (u256_of_i256 b)"
  "u256_of_i256 (gray_i256_sub a b) = gray_u256_sub (u256_of_i256 a) (u256_of_i256 b)"
  "u256_of_i256 (gray_i256_mul a b) = gray_u256_mul (u256_of_i256 a) (u256_of_i256 b)"
  by (simp_all add: gray_i256_add_def gray_u256_add_def gray_i256_sub_def gray_u256_sub_def
      gray_i256_mul_def gray_u256_mul_def u256_of_i256_def u256_zero_words)

lemma i256_neg_value [wide_val]: "i256_int (gray_i256_neg v) = signed_take_bit 255 (- i256_int v)"
proof -
  obtain k where "words_int (neg_words 1 (i256_words v)) = - words_int (i256_words v) + 2 ^ 256 * k"
    using neg_words_value [of 1 "i256_words v"] by auto
  from u256_take_bit_unique [OF _ this]
  have "u256_int (u256_of_i256 (gray_i256_neg v)) = take_bit 256 (- u256_int (u256_of_i256 v))"
    by (simp add: gray_i256_neg_def u256_int_def)
  then show ?thesis by (simp add: i256_int_bits signed_take_bit_take_bit signed_take_bit_minus)
qed

subsection \<open>Comparison\<close>

lemma u256_lt_value: "gray_u256_lt a b \<longleftrightarrow> u256_int a < u256_int b"
proof -
  have "gray_u256_lt a b \<longleftrightarrow> \<not> geq_words (u256_words a) (u256_words b)"
    by (auto simp: gray_u256_lt_def geq_words_def u256_words_def)
  also have "\<dots> \<longleftrightarrow> u256_int a < u256_int b"
    using geq_words_iff [of "u256_words a" "u256_words b"] by (auto simp: u256_int_def u256_words_def)
  finally show ?thesis .
qed

lemma scaled_less:
  assumes "0 \<le> x" "x < B" "0 \<le> y" "y < (B :: int)"
  shows "x + B * s < y + B * t \<longleftrightarrow> s < t \<or> (s = t \<and> x < y)"
proof -
  have "x + B * s < y + B * t" if "s < t"
  proof -
    have "B * (s + 1) \<le> B * t" using that assms by (intro mult_left_mono) auto
    then show ?thesis using assms unfolding distrib_left by linarith
  qed
  moreover have "\<not> x + B * s < y + B * t" if "t < s"
  proof -
    have "B * (t + 1) \<le> B * s" using that assms by (intro mult_left_mono) auto
    then show ?thesis using assms unfolding distrib_left by linarith
  qed
  ultimately show ?thesis by (cases s t rule: linorder_cases) auto
qed

lemma i256_lt_value: "gray_i256_lt a b \<longleftrightarrow> i256_int a < i256_int b"
proof -
  let ?l = "\<lambda>v. [i256_w0 v, i256_w1 v, i256_w2 v]"
  have b: "0 \<le> words_int (?l v)" "words_int (?l v) < 2 ^ 192" for v
    using words_int_less [of "?l v"] by (simp_all del: words_int.simps)
  have low: "words_int (?l a) < words_int (?l b) \<longleftrightarrow> \<not> geq_words (?l a) (?l b)"
    using geq_words_iff [of "?l a" "?l b"] by (simp add: not_le del: words_int.simps)
  show ?thesis
    unfolding i256_int_def scaled_less [OF b b] low
    by (auto simp: gray_i256_lt_def geq_words_def)
qed

lemma u256_compare_values [wide_val]:
  "gray_u256_eq a b \<longleftrightarrow> u256_int a = u256_int b"
  "gray_u256_ne a b \<longleftrightarrow> u256_int a \<noteq> u256_int b"
  "gray_u256_lt a b \<longleftrightarrow> u256_int a < u256_int b"
  "gray_u256_gt a b \<longleftrightarrow> u256_int b < u256_int a"
  "gray_u256_le a b \<longleftrightarrow> u256_int a \<le> u256_int b"
  "gray_u256_ge a b \<longleftrightarrow> u256_int b \<le> u256_int a"
  by (auto simp: gray_u256_eq_def gray_u256_ne_def gray_u256_gt_def gray_u256_le_def gray_u256_ge_def u256_lt_value)

lemma i256_compare_values [wide_val]:
  "gray_i256_eq a b \<longleftrightarrow> i256_int a = i256_int b"
  "gray_i256_ne a b \<longleftrightarrow> i256_int a \<noteq> i256_int b"
  "gray_i256_lt a b \<longleftrightarrow> i256_int a < i256_int b"
  "gray_i256_gt a b \<longleftrightarrow> i256_int b < i256_int a"
  "gray_i256_le a b \<longleftrightarrow> i256_int a \<le> i256_int b"
  "gray_i256_ge a b \<longleftrightarrow> i256_int b \<le> i256_int a"
  by (auto simp: gray_i256_eq_def gray_i256_ne_def gray_i256_gt_def gray_i256_le_def gray_i256_ge_def i256_lt_value)

subsection \<open>Division\<close>

interpretation u256_division: long_division u256_int 256 GRAY_U256_ZERO u256_divmod_step
proof
  show "u256_int GRAY_U256_ZERO = 0" by (simp add: u256_int_def u256_zero_words)
  show "0 \<le> u256_int x" "u256_int x < 2 ^ 256" for x by (rule u256_int_bounds)+
next
  fix i q r d n q' r'
  assume a: "i < 256" "u256_int q mod 2 ^ Suc i = 0" "u256_int r \<le> u256_int n div 2 ^ Suc i"
    "u256_divmod_step n d i (q, r) = (q', r')"
  obtain qs rs where st: "words_divmod_step (u256_words n) (u256_words d) i (u256_words q, u256_words r) = (qs, rs)"
    by fastforce
  note step = words_divmod_step_value [where N = 4, OF _ _ _ _ _ _ _ st, simplified, folded u256_int_def]
  have qr: "q' = u256_of_words qs" "r' = u256_of_words rs"
    using a(4) st by (simp_all add: u256_divmod_step_def)
  have v: "u256_int q' = words_int qs" "u256_int r' = words_int rs"
    using step(1,2) a qr by (simp_all add: u256_int_def)
  show "u256_int q' = u256_int q + 2 ^ i \<and> u256_int r' = 2 * u256_int r + u256_int n div 2 ^ i mod 2 - u256_int d"
    if "u256_int d \<le> 2 * u256_int r + u256_int n div 2 ^ i mod 2"
    using step(3) a that v by simp
  show "u256_int q' = u256_int q \<and> u256_int r' = 2 * u256_int r + u256_int n div 2 ^ i mod 2"
    if "2 * u256_int r + u256_int n div 2 ^ i mod 2 < u256_int d"
    using step(4) a that v by simp
qed

lemma u256_is_zero_iff: "u256_is_zero v \<longleftrightarrow> u256_int v = 0"
  using words_int_zero_iff [of "u256_words v"] by (auto simp: u256_is_zero_def u256_int_def u256_words_def)

lemma i256_is_zero_iff: "i256_is_zero v \<longleftrightarrow> i256_int v = 0"
proof -
  have "i256_is_zero v \<longleftrightarrow> v = GRAY_I256_ZERO"
    by (cases v) (auto simp: i256_is_zero_def GRAY_I256_ZERO_def i256_of_words_def)
  also have "\<dots> \<longleftrightarrow> i256_int v = i256_int GRAY_I256_ZERO" by simp
  finally show ?thesis by (simp add: GRAY_I256_ZERO_def i256_of_words_def i256_int_def)
qed

lemma u256_divmod_zero: "u256_int d = 0 \<Longrightarrow> gray_u256_divmod n d = Inl ''P0078''"
  by (simp add: gray_u256_divmod_def u256_is_zero_iff)

lemma u256_divmod_value:
  assumes "u256_int d \<noteq> 0"
  shows "\<exists>q r. gray_u256_divmod n d = Inr (q, r) \<and>
           u256_int q = u256_int n div u256_int d \<and> u256_int r = u256_int n mod u256_int d"
proof (cases "u256_w1 n = 0 \<and> u256_w2 n = 0 \<and> u256_w3 n = 0 \<and> u256_w1 d = 0 \<and> u256_w2 d = 0 \<and> u256_w3 d = 0")
  case True
  then have "u256_int n = uint (u256_w0 n)" "u256_int d = uint (u256_w0 d)"
    by (simp_all add: u256_int_def u256_words_def)
  with True assms show ?thesis
    by (simp add: gray_u256_divmod_def u256_is_zero_iff) (simp add: u256_int_def uint_div uint_mod)
next
  case False
  obtain q r where qr: "long_division_loop (u256_divmod_step n d) 256 (GRAY_U256_ZERO, GRAY_U256_ZERO) = (q, r)"
    by fastforce
  have "0 < u256_int d" using assms u256_int_bounds(1) [of d] by linarith
  from u256_division.loop_divides [OF this qr] show ?thesis
    using False assms qr unfolding gray_u256_divmod_def u256_is_zero_iff by auto
qed

subsection \<open>The contracts\<close>

interpretation u256: wide_unsigned u256_int 256 gray_u256_from_u64 u256_w0
  gray_u256_add gray_u256_sub gray_u256_mul gray_u256_divmod gray_u256_eq gray_u256_lt
proof
  show "uint (u256_w0 x) = u256_int x mod 2 ^ 64" for x
    unfolding u256_int_def u256_words_def words_int_mod by simp
qed (use u256_int_bounds in \<open>auto simp: wide_val u256_divmod_zero intro: u256_divmod_value\<close>)

interpretation i256: wide_signed u256_int 256 gray_u256_from_u64 u256_w0
  gray_u256_add gray_u256_sub gray_u256_mul gray_u256_divmod gray_u256_eq gray_u256_lt
  255 i256_int u256_of_i256 i256_of_u256
  gray_i256_add gray_i256_sub gray_i256_mul gray_i256_neg gray_i256_is_neg gray_i256_eq gray_i256_lt
  by unfold_locales
    (auto simp: i256_bits_ops i256_neg_value i256_neg_iff i256_compare_values simp flip: i256_int_bits)

end
