(* ===== verification/Decimal_Text.thy ===== *)
theory Decimal_Text
  imports Wide256_Values "HOL-Library.Char_ord"
begin

text \<open>
  Text conversions of the wide integers (\<open>bigint.h\<close>): the decimal parser behind
  \<open>gray_T_from_decimal\<close>, and the digit loops behind \<open>gray_T_to_string\<close> and
  \<open>gray_T_to_radix_string\<close>. Text is a list of bytes. The reference numeral of a number is
  \<open>radix_text\<close>. A digit buffer is modelled by the number of free bytes in front of the digits
  written so far; a write in front of the buffer is the failure \<open>buffer_underflow\<close>, which the
  lemmas below exclude.
\<close>

subsection \<open>Reference numerals\<close>

text \<open>\<open>snprintf\<close> with a decimal directive writes \<open>radix_text decimal_digit 10\<close> of its argument.\<close>

fun radix_text :: "(nat \<Rightarrow> char) \<Rightarrow> nat \<Rightarrow> nat \<Rightarrow> string" where
  "radix_text digit base n =
     (if base < 2 \<or> n < base then [digit n]
      else radix_text digit base (n div base) @ [digit (n mod base)])"

declare radix_text.simps [simp del]

definition decimal_digit :: "nat \<Rightarrow> char" where
  "decimal_digit d = char_of (48 + d)"

definition radix_digit :: "bool \<Rightarrow> nat \<Rightarrow> char" where
  "radix_digit upper d = (if upper then ''0123456789ABCDEF'' else ''0123456789abcdef'') ! d"

lemma radix_text_step: "2 \<le> base \<Longrightarrow> base \<le> n \<Longrightarrow>
    radix_text digit base n = radix_text digit base (n div base) @ [digit (n mod base)]"
  by (subst radix_text.simps) simp

lemma radix_text_single: "n < base \<Longrightarrow> radix_text digit base n = [digit n]"
  by (subst radix_text.simps) simp

lemma radix_text_not_Nil [simp]: "radix_text digit base n \<noteq> []"
  by (subst radix_text.simps) simp

lemma set_radix_text: "2 \<le> base \<Longrightarrow> set (radix_text digit base n) \<subseteq> digit ` {..<base}"
proof (induction n rule: less_induct)
  case (less n)
  show ?case
  proof (cases "n < base")
    case False
    then have "set (radix_text digit base (n div base)) \<subseteq> digit ` {..<base}" using less by simp
    then show ?thesis using False less.prems by (simp add: radix_text_step)
  qed (simp add: radix_text_single)
qed

lemma length_radix_text: "2 \<le> base \<Longrightarrow> n < base ^ p \<Longrightarrow> 0 < p \<Longrightarrow> length (radix_text digit base n) \<le> p"
proof (induction p arbitrary: n)
  case (Suc p)
  show ?case
  proof (cases "n < base")
    case False
    then have "0 < p" using Suc.prems by (cases p) auto
    moreover have "n div base < base ^ p" using Suc.prems by (simp add: less_mult_imp_div_less mult.commute)
    ultimately show ?thesis using Suc False by (simp add: radix_text_step)
  qed (simp add: radix_text_single)
qed simp

text \<open>The digit text of a loop that writes nothing for zero.\<close>

definition digits_of :: "(nat \<Rightarrow> char) \<Rightarrow> nat \<Rightarrow> nat \<Rightarrow> string" where
  "digits_of digit base n = (if n = 0 then [] else radix_text digit base n)"

lemma digits_of_step:
  assumes "2 \<le> base" "0 < n"
  shows "digits_of digit base n = digits_of digit base (n div base) @ [digit (n mod base)]"
proof (cases "n < base")
  case True
  then show ?thesis using assms by (simp add: digits_of_def radix_text_single)
next
  case False
  then have "n div base \<noteq> 0" using assms by (simp add: div_eq_0_iff)
  then show ?thesis using assms False by (simp add: digits_of_def radix_text_step)
qed

subsection \<open>The loops\<close>

fun from_decimal_loop ::
    "('u \<Rightarrow> 'u \<Rightarrow> 'u) \<Rightarrow> ('u \<Rightarrow> 'u \<Rightarrow> 'u) \<Rightarrow> (u64 \<Rightarrow> 'u) \<Rightarrow> 'u \<Rightarrow> 'u \<Rightarrow> string \<Rightarrow> 'u panicking" where
  "from_decimal_loop mul add limb ten_value result [] = Inr result"
| "from_decimal_loop mul add limb ten_value result (c # text) =
     (if c = CHR 0x00 then Inr result
      else if c = CHR ''_'' then from_decimal_loop mul add limb ten_value result text
      else if c < CHR ''0'' \<or> CHR ''9'' < c then Inl ''P0102''
      else from_decimal_loop mul add limb ten_value
             (add (mul result ten_value) (limb (of_char c - of_char CHR ''0''))) text)"

definition signed_from_decimal :: "(string \<Rightarrow> 'u panicking) \<Rightarrow> ('u \<Rightarrow> 's) \<Rightarrow> ('s \<Rightarrow> 's) \<Rightarrow> string \<Rightarrow> 's panicking" where
  "signed_from_decimal parse of_bits neg text =
     (let is_negative = (text \<noteq> [] \<and> hd text = CHR ''-'');
          text = (if is_negative then tl text else text)
      in bind_panic (parse text) (\<lambda>bits. let result = of_bits bits in Inr (if is_negative then neg result else result)))"

definition buffer_underflow :: string where
  "buffer_underflow = ''write before the start of the digit buffer''"

text \<open>\<open>position\<close> counts the free bytes in front of \<open>written\<close>; every pass writes one.\<close>

fun digits_loop ::
    "('u \<Rightarrow> 'u \<Rightarrow> ('u \<times> 'u) panicking) \<Rightarrow> ('u \<Rightarrow> bool) \<Rightarrow> ('u \<Rightarrow> u64) \<Rightarrow> (nat \<Rightarrow> char) \<Rightarrow> 'u \<Rightarrow>
     nat \<Rightarrow> 'u \<Rightarrow> string \<Rightarrow> string panicking" where
  "digits_loop div_mod is_zero low digit base 0 remaining written =
     (if is_zero remaining then Inr written else Inl buffer_underflow)"
| "digits_loop div_mod is_zero low digit base (Suc position) remaining written =
     (if is_zero remaining then Inr written
      else bind_panic (div_mod remaining base) (\<lambda>(quotient, remainder).
             digits_loop div_mod is_zero low digit base position quotient
               (digit (unat (low remainder)) # written)))"

lemma decimal_digit_char:
  assumes "d < 10"
  shows "\<not> decimal_digit d < CHR ''0''" "\<not> CHR ''9'' < decimal_digit d" "decimal_digit d \<noteq> CHR ''_''"
    "decimal_digit d \<noteq> CHR 0x00" "decimal_digit d \<noteq> CHR ''-''"
    "of_char (decimal_digit d) - of_char CHR ''0'' = (of_nat d :: u64)"
proof -
  have n: "of_char (decimal_digit d) = 48 + d" using assms by (simp add: decimal_digit_def)
  then show "\<not> decimal_digit d < CHR ''0''" "\<not> CHR ''9'' < decimal_digit d"
    using assms by (simp_all add: less_char_def)
  have "decimal_digit d \<noteq> c" if "of_char c \<noteq> 48 + d" for c using n that by auto
  then show "decimal_digit d \<noteq> CHR ''_''" "decimal_digit d \<noteq> CHR 0x00" "decimal_digit d \<noteq> CHR ''-''"
    using assms by simp_all
  have "of_char (decimal_digit d) = (of_nat (48 + d) :: u64)"
    by (metis n of_nat_of_char)
  then show "of_char (decimal_digit d) - of_char CHR ''0'' = (of_nat d :: u64)" by simp
qed

context wide_unsigned
begin

lemma low_limb_small: "val x < 2 ^ 64 \<Longrightarrow> uint (low_limb x) = val x"
  by (simp add: low_limb_val val_nonneg mod_pos_pos_trivial)

lemma digits_loop_value:
  assumes z: "\<And>v. is_zero v \<longleftrightarrow> val v = 0" and b: "2 \<le> val base" "val base \<le> 2 ^ 64"
  shows "val remaining < val base ^ position \<Longrightarrow>
    digits_loop div_mod is_zero low_limb digit base position remaining written
      = Inr (digits_of digit (nat (val base)) (nat (val remaining)) @ written)"
proof (induction position arbitrary: remaining written)
  case 0
  then have "val remaining = 0" using val_nonneg [of remaining] by simp
  then show ?case by (simp add: z digits_of_def)
next
  case (Suc position)
  show ?case
  proof (cases "val remaining = 0")
    case True
    then show ?thesis by (simp add: z digits_of_def)
  next
    case False
    obtain q r where qr: "div_mod remaining base = Inr (q, r)" "val q = val remaining div val base"
        "val r = val remaining mod val base"
      using div_mod_val [of base remaining] b by auto
    have "val q < val base ^ position"
      using Suc.prems b unfolding qr(2) by (intro div_less_of_less_mult) (simp_all add: mult.commute)
    note IH = Suc.IH [OF this]
    have "val r < val base" using b qr(3) by simp
    then have "unat (low_limb r) = nat (val r)"
      using b low_limb_small [of r] by (simp add: unat_eq_nat_uint)
    moreover have "nat (val q) = nat (val remaining) div nat (val base)"
      "nat (val r) = nat (val remaining) mod nat (val base)"
      using val_nonneg b by (simp_all add: qr nat_div_distrib nat_mod_distrib)
    moreover have "digits_of digit (nat (val base)) (nat (val remaining)) @ written =
      digits_of digit (nat (val base)) (nat (val q)) @ digit (unat (low_limb r)) # written"
      using calculation digits_of_step [of "nat (val base)" "nat (val remaining)" digit]
        b False val_nonneg [of remaining] by simp
    moreover have "\<not> is_zero remaining" using False z by blast
    ultimately show ?thesis by (simp add: qr(1) IH)
  qed
qed

lemma from_decimal_digit:
  assumes "d < 10"
  shows "from_decimal_loop mul add from_u64 ten v (decimal_digit d # rest)
      = from_decimal_loop mul add from_u64 ten (add (mul v ten) (from_u64 (of_nat d))) rest"
    "val ten = 10 \<Longrightarrow> val (add (mul v ten) (from_u64 (of_nat d))) = take_bit width (val v * 10 + int d)"
proof -
  have u: "uint (of_nat d :: u64) = int d" using assms by (simp add: uint_nat unat_of_nat)
  show "from_decimal_loop mul add from_u64 ten v (decimal_digit d # rest)
      = from_decimal_loop mul add from_u64 ten (add (mul v ten) (from_u64 (of_nat d))) rest"
    using decimal_digit_char [OF assms] by simp
  show "val (add (mul v ten) (from_u64 (of_nat d))) = take_bit width (val v * 10 + int d)" if "val ten = 10"
    by (simp only: add_val mul_val from_u64_val that u take_bit_eq_mod mod_add_left_eq)
qed

text \<open>The parser reads a numeral: its value is added to the value read so far, shifted.\<close>

lemma from_decimal_digits:
  assumes ten: "val ten = 10"
  shows "\<exists>v k. from_decimal_loop mul add from_u64 ten result (radix_text decimal_digit 10 n @ rest)
             = from_decimal_loop mul add from_u64 ten v rest \<and>
           val v = take_bit width (val result * 10 ^ k + int n)"
proof (induction n arbitrary: rest rule: less_induct)
  case (less n)
  show ?case
  proof (cases "n < 10")
    case True
    then show ?thesis using from_decimal_digit [OF True, of ten result] ten
      by (simp add: radix_text_single) (metis power_one_right)
  next
    case False
    then have "n div 10 < n" by simp
    from less.IH [OF this, of "decimal_digit (n mod 10) # rest"] obtain v k where
      v: "from_decimal_loop mul add from_u64 ten result (radix_text decimal_digit 10 (n div 10) @ decimal_digit (n mod 10) # rest)
          = from_decimal_loop mul add from_u64 ten v (decimal_digit (n mod 10) # rest)"
        "val v = take_bit width (val result * 10 ^ k + int (n div 10))" by blast
    define v' where "v' = add (mul v ten) (from_u64 (of_nat (n mod 10)))"
    have n: "n mod 10 < 10" by simp
    have "val v' = take_bit width (take_bit width (val result * 10 ^ k + int (n div 10)) * 10 + int (n mod 10))"
      using from_decimal_digit(2) [OF n ten] v(2) by (simp only: v'_def)
    also have "\<dots> = take_bit width ((val result * 10 ^ k + int (n div 10)) * 10 + int (n mod 10))"
      unfolding take_bit_eq_mod mod_add_left_eq [symmetric, of "_ * 10"] mod_mult_left_eq by (simp only: mod_add_left_eq)
    also have "(val result * 10 ^ k + int (n div 10)) * 10 + int (n mod 10) = val result * 10 ^ Suc k + int n"
    proof -
      have "int n = int (n div 10) * 10 + int (n mod 10)" by presburger
      then show ?thesis by (simp add: algebra_simps)
    qed
    finally have "val v' = take_bit width (val result * 10 ^ Suc k + int n)" .
    moreover have "from_decimal_loop mul add from_u64 ten result (radix_text decimal_digit 10 n @ rest)
        = from_decimal_loop mul add from_u64 ten v' rest"
      using False v(1) from_decimal_digit(1) [OF n, of ten v rest] radix_text_step [of 10 n decimal_digit]
      unfolding v'_def by (simp del: from_decimal_loop.simps)
    ultimately show ?thesis by blast
  qed
qed

lemma from_decimal_numeral:
  assumes "val ten = 10" "val zero = 0" "int n < 2 ^ width"
  shows "\<exists>v. from_decimal_loop mul add from_u64 ten zero (radix_text decimal_digit 10 n) = Inr v \<and> val v = int n"
  using from_decimal_digits [of ten zero n "[]"] assms by (auto simp: take_bit_int_eq_self)

lemma from_decimal_bad_digit:
  assumes "\<forall>c \<in> set xs. c = CHR ''_'' \<or> (CHR ''0'' \<le> c \<and> c \<le> CHR ''9'')"
    and "c \<noteq> CHR 0x00" "c \<noteq> CHR ''_''" "c < CHR ''0'' \<or> CHR ''9'' < c"
  shows "from_decimal_loop mul add from_u64 ten result (xs @ c # rest) = Inl ''P0102''"
  using assms(1)
proof (induction xs arbitrary: result)
  case Nil
  then show ?case using assms(2-4) by simp
next
  case (Cons x xs)
  show ?case
  proof (cases "x = CHR ''_''")
    case True
    then show ?thesis using Cons by simp
  next
    case False
    then have "\<not> x < CHR ''0''" "\<not> CHR ''9'' < x" using Cons.prems by (simp_all add: not_less)
    moreover from this(1) have "x \<noteq> CHR 0x00" by (auto simp: less_char_def)
    ultimately show ?thesis using Cons False by simp
  qed
qed

end

end
