(* ===== verification/Wide_Text.thy ===== *)
theory Wide_Text
  imports Decimal_Text
begin

text \<open>
  The text functions of \<open>bigint.h\<close> for the four wide types: decimal constructors, decimal
  rendering, and the hexadecimal and octal renderings of the bit pattern. A rendering is the
  bytes of the \<open>GrayString\<close> it returns; the arena that holds them is not modelled.
\<close>

subsection \<open>Decimal constructors\<close>

definition gray_u128_from_decimal :: "string \<Rightarrow> gray_u128 panicking" where
  "gray_u128_from_decimal =
     from_decimal_loop gray_u128_mul gray_u128_add gray_u128_from_u64
       \<lparr>u128_low = 10, u128_high = 0\<rparr> GRAY_U128_ZERO"

definition gray_i128_from_decimal :: "string \<Rightarrow> gray_i128 panicking" where
  "gray_i128_from_decimal = signed_from_decimal gray_u128_from_decimal gray_i128_from_u128 gray_i128_neg"

definition gray_u256_from_decimal :: "string \<Rightarrow> gray_u256 panicking" where
  "gray_u256_from_decimal =
     from_decimal_loop gray_u256_mul gray_u256_add gray_u256_from_u64
       (GRAY_U256_ZERO\<lparr>u256_w0 := 10\<rparr>) GRAY_U256_ZERO"

definition gray_i256_from_decimal :: "string \<Rightarrow> gray_i256 panicking" where
  "gray_i256_from_decimal = signed_from_decimal gray_u256_from_decimal i256_of_u256 gray_i256_neg"

subsection \<open>Decimal rendering\<close>

definition U128_MAX_DIGITS :: nat where "U128_MAX_DIGITS = 21"
definition I256_MAX_DIGITS :: nat where "I256_MAX_DIGITS = 40"
definition U256_MAX_DIGITS :: nat where "U256_MAX_DIGITS = 80"

text \<open>
  The last byte of the buffer is the terminating NUL, so \<open>position\<close> starts at the size less
  one. The small case renders with \<open>snprintf\<close>, which writes at most the size less one.
\<close>

definition snprintf_u64 :: "nat \<Rightarrow> u64 \<Rightarrow> string" where
  "snprintf_u64 buffer_size w = take (buffer_size - 1) (radix_text decimal_digit 10 (unat w))"

definition zero_if_empty :: "string \<Rightarrow> string" where
  "zero_if_empty digits = (if digits = [] then ''0'' else digits)"

definition gray_u128_to_string :: "gray_u128 \<Rightarrow> string panicking" where
  "gray_u128_to_string value =
     (if u128_high value = 0 then Inr (snprintf_u64 U128_MAX_DIGITS (u128_low value))
      else bind_panic
        (digits_loop gray_u128_divmod u128_is_zero u128_low decimal_digit
           \<lparr>u128_low = 10, u128_high = 0\<rparr> (I256_MAX_DIGITS - 1) value [])
        (\<lambda>digits. Inr (zero_if_empty digits)))"

definition signed_to_string :: "('s \<Rightarrow> bool) \<Rightarrow> ('s \<Rightarrow> 's) \<Rightarrow> ('s \<Rightarrow> 'u) \<Rightarrow> ('u \<Rightarrow> string panicking) \<Rightarrow> 's \<Rightarrow> string panicking" where
  "signed_to_string is_neg neg bits to_text value =
     (if is_neg value then bind_panic (to_text (bits (neg value))) (\<lambda>digits. Inr (CHR ''-'' # digits))
      else to_text (bits value))"

definition gray_i128_to_string :: "gray_i128 \<Rightarrow> string panicking" where
  "gray_i128_to_string = signed_to_string i128_is_neg gray_i128_neg gray_u128_from_i128 gray_u128_to_string"

definition gray_u256_to_string :: "gray_u256 \<Rightarrow> string panicking" where
  "gray_u256_to_string value =
     (if u256_w1 value = 0 \<and> u256_w2 value = 0 \<and> u256_w3 value = 0
      then Inr (snprintf_u64 U128_MAX_DIGITS (u256_w0 value))
      else bind_panic
        (digits_loop gray_u256_divmod u256_is_zero u256_w0 decimal_digit
           (GRAY_U256_ZERO\<lparr>u256_w0 := 10\<rparr>) (U256_MAX_DIGITS - 1) value [])
        (\<lambda>digits. Inr (zero_if_empty digits)))"

definition gray_i256_to_string :: "gray_i256 \<Rightarrow> string panicking" where
  "gray_i256_to_string = signed_to_string gray_i256_is_neg gray_i256_neg u256_of_i256 gray_u256_to_string"

subsection \<open>Hexadecimal and octal rendering\<close>

definition GRAY_BIGINT_RADIX_BUFFER_SIZE :: nat where "GRAY_BIGINT_RADIX_BUFFER_SIZE = 96"

definition gray_u128_to_radix_string :: "gray_u128 \<Rightarrow> u64 \<Rightarrow> bool \<Rightarrow> string panicking" where
  "gray_u128_to_radix_string value base upper =
     (let position = GRAY_BIGINT_RADIX_BUFFER_SIZE;
          radix_big = \<lparr>u128_low = base, u128_high = 0\<rparr>;
          (position, written) = (if u128_is_zero value then (position - 1, ''0'') else (position, []))
      in digits_loop gray_u128_divmod u128_is_zero u128_low (radix_digit upper) radix_big position value written)"

definition gray_u256_to_radix_string :: "gray_u256 \<Rightarrow> u64 \<Rightarrow> bool \<Rightarrow> string panicking" where
  "gray_u256_to_radix_string value base upper =
     (let position = GRAY_BIGINT_RADIX_BUFFER_SIZE;
          radix_big = GRAY_U256_ZERO\<lparr>u256_w0 := base\<rparr>;
          (position, written) = (if u256_is_zero value then (position - 1, ''0'') else (position, []))
      in digits_loop gray_u256_divmod u256_is_zero u256_w0 (radix_digit upper) radix_big position value written)"

definition gray_u128_to_hex_string :: "gray_u128 \<Rightarrow> bool \<Rightarrow> string panicking" where
  "gray_u128_to_hex_string value upper = gray_u128_to_radix_string value 16 upper"

definition gray_u128_to_octal_string :: "gray_u128 \<Rightarrow> string panicking" where
  "gray_u128_to_octal_string value = gray_u128_to_radix_string value 8 False"

definition gray_i128_to_hex_string :: "gray_i128 \<Rightarrow> bool \<Rightarrow> string panicking" where
  "gray_i128_to_hex_string value upper = gray_u128_to_radix_string (gray_u128_from_i128 value) 16 upper"

definition gray_i128_to_octal_string :: "gray_i128 \<Rightarrow> string panicking" where
  "gray_i128_to_octal_string value = gray_u128_to_radix_string (gray_u128_from_i128 value) 8 False"

definition gray_u256_to_hex_string :: "gray_u256 \<Rightarrow> bool \<Rightarrow> string panicking" where
  "gray_u256_to_hex_string value upper = gray_u256_to_radix_string value 16 upper"

definition gray_u256_to_octal_string :: "gray_u256 \<Rightarrow> string panicking" where
  "gray_u256_to_octal_string value = gray_u256_to_radix_string value 8 False"

definition gray_i256_to_hex_string :: "gray_i256 \<Rightarrow> bool \<Rightarrow> string panicking" where
  "gray_i256_to_hex_string value upper = gray_u256_to_radix_string (u256_of_i256 value) 16 upper"

definition gray_i256_to_octal_string :: "gray_i256 \<Rightarrow> string panicking" where
  "gray_i256_to_octal_string value = gray_u256_to_radix_string (u256_of_i256 value) 8 False"

subsection \<open>What the renderings are\<close>

abbreviation decimal_text :: "int \<Rightarrow> string" where
  "decimal_text k \<equiv> (if k < 0 then CHR ''-'' # radix_text decimal_digit 10 (nat (- k))
                     else radix_text decimal_digit 10 (nat k))"

lemma snprintf_u64_whole: "snprintf_u64 21 w = radix_text decimal_digit 10 (unat w)"
proof -
  have "unat w < 2 ^ 64" using unat_lt64 [of w] by simp
  then have "length (radix_text decimal_digit 10 (unat w)) \<le> 20"
    by (intro length_radix_text) auto
  then show ?thesis by (simp add: snprintf_u64_def)
qed

lemma digits_of_zero_if_empty:
  "zero_if_empty (digits_of decimal_digit base n) = (if n = 0 then ''0'' else radix_text decimal_digit base n)"
  by (simp add: zero_if_empty_def digits_of_def)

lemma uint_ten: "uint (10 :: u64) = 10"
  by simp

lemma u128_ten: "u128_int \<lparr>u128_low = w, u128_high = 0\<rparr> = uint w"
  by (simp add: u128_int_def)

lemma u256_ten: "u256_int (GRAY_U256_ZERO\<lparr>u256_w0 := w\<rparr>) = uint w"
  by (simp add: u256_int_def u256_words_def GRAY_U256_ZERO_def u256_of_words_def)

lemma u256_zero_value: "u256_int GRAY_U256_ZERO = 0"
  by (simp add: u256_int_def u256_zero_words)

lemma u128_to_string_text: "gray_u128_to_string v = Inr (radix_text decimal_digit 10 (nat (u128_int v)))"
proof (cases "u128_high v = 0")
  case True
  then show ?thesis
    by (simp add: gray_u128_to_string_def U128_MAX_DIGITS_def snprintf_u64_whole u128_int_def )
next
  case False
  have "(2 :: int) ^ 128 < 10 ^ 39" by simp
  with u128_int_bounds(2) [of v] have "u128_int v < 10 ^ 39" by (rule less_trans)
  from u128.digits_loop_value [OF u128_is_zero_iff, where base = "\<lparr>u128_low = 10, u128_high = 0\<rparr>" and digit = decimal_digit and written = "[]",
      unfolded u128_ten uint_ten, OF _ _ this]
  have "digits_loop gray_u128_divmod u128_is_zero u128_low decimal_digit (\<lparr>u128_low = 10, u128_high = 0\<rparr>) (I256_MAX_DIGITS - 1) v []
      = Inr (digits_of decimal_digit 10 (nat (u128_int v)))"
    by (simp add: I256_MAX_DIGITS_def)
  moreover have "u128_int v \<noteq> 0" using False u128_is_zero_iff [of v] by (simp add: u128_is_zero_def)
  then have "0 < u128_int v" using u128_int_bounds(1) [of v] by linarith
  ultimately show ?thesis using False by (simp add: gray_u128_to_string_def digits_of_zero_if_empty)
qed

lemma u256_to_string_text: "gray_u256_to_string v = Inr (radix_text decimal_digit 10 (nat (u256_int v)))"
proof (cases "u256_w1 v = 0 \<and> u256_w2 v = 0 \<and> u256_w3 v = 0")
  case True
  then show ?thesis
    by (simp add: gray_u256_to_string_def U128_MAX_DIGITS_def snprintf_u64_whole u256_int_def u256_words_def )
next
  case False
  have "(2 :: int) ^ 256 < 10 ^ 79" by simp
  with u256_int_bounds(2) [of v] have "u256_int v < 10 ^ 79" by (rule less_trans)
  from u256.digits_loop_value [OF u256_is_zero_iff, where base = "GRAY_U256_ZERO\<lparr>u256_w0 := 10\<rparr>" and digit = decimal_digit and written = "[]",
      unfolded u256_ten uint_ten, OF _ _ this]
  have "digits_loop gray_u256_divmod u256_is_zero u256_w0 decimal_digit (GRAY_U256_ZERO\<lparr>u256_w0 := 10\<rparr>) (U256_MAX_DIGITS - 1) v []
      = Inr (digits_of decimal_digit 10 (nat (u256_int v)))"
    by (simp add: U256_MAX_DIGITS_def)
  moreover have "u256_int v \<noteq> 0" using False u256_is_zero_iff [of v] by (auto simp: u256_is_zero_def)
  then have "0 < u256_int v" using u256_int_bounds(1) [of v] by linarith
  ultimately show ?thesis unfolding gray_u256_to_string_def if_not_P [OF False] by (simp add: digits_of_zero_if_empty)
qed

context wide_signed
begin

lemma signed_to_string_text:
  assumes "\<And>u. to_text u = Inr (radix_text decimal_digit 10 (nat (val u)))"
  shows "signed_to_string is_neg sneg bits to_text v = Inr (decimal_text (sval v))"
  using magnitude_val [of v] assms
  by (simp add: signed_to_string_def signed_magnitude_def is_neg_iff split: if_splits)

lemma signed_from_decimal_text:
  assumes p: "\<And>n. int n < 2 ^ width \<Longrightarrow> \<exists>u. parse (radix_text decimal_digit 10 n) = Inr u \<and> val u = int n"
  shows "signed_from_decimal parse of_bits sneg (decimal_text (sval v)) = Inr v"
proof -
  obtain s where s: "sval v = s" "- half \<le> s" "s < half" using sval_bounds [of v] by blast
  have "\<bar>s\<bar> < 2 ^ width" using s half_pos full_half by linarith
  then obtain u where u: "parse (radix_text decimal_digit 10 (nat \<bar>s\<bar>)) = Inr u" "val u = \<bar>s\<bar>"
    using p [of "nat \<bar>s\<bar>"] by auto
  have "sval (if s < 0 then sneg (of_bits u) else of_bits u) = s"
    using s u(2) signed_result_val [of "s < 0" u] wrap_self [of s] by (auto simp del: wrap_take_bit split: if_splits)
  then have v: "(if s < 0 then sneg (of_bits u) else of_bits u) = v" using s(1) by (intro sval_inject) simp
  show ?thesis
  proof (cases "s < 0")
    case True
    then show ?thesis using u(1) v s(1) by (simp add: signed_from_decimal_def Let_def)
  next
    case False
    have "hd (radix_text decimal_digit 10 (nat s)) \<in> decimal_digit ` {..<10}"
      using set_radix_text [of 10 decimal_digit "nat s"] hd_in_set [OF radix_text_not_Nil, of decimal_digit 10 "nat s"] by auto
    then have "hd (radix_text decimal_digit 10 (nat s)) \<noteq> CHR ''-''" by (auto dest: decimal_digit_char(5))
    then show ?thesis using u(1) v s(1) False by (simp add: signed_from_decimal_def)
  qed
qed

end

lemma u128_from_decimal_numeral:
  "int n < 2 ^ 128 \<Longrightarrow> \<exists>u. gray_u128_from_decimal (radix_text decimal_digit 10 n) = Inr u \<and> u128_int u = int n"
  unfolding gray_u128_from_decimal_def
  by (rule u128.from_decimal_numeral) (simp_all add: u128_ten GRAY_U128_ZERO_def u128_int_def)

lemma u256_from_decimal_numeral:
  "int n < 2 ^ 256 \<Longrightarrow> \<exists>u. gray_u256_from_decimal (radix_text decimal_digit 10 n) = Inr u \<and> u256_int u = int n"
  unfolding gray_u256_from_decimal_def
  by (rule u256.from_decimal_numeral) (simp_all add: u256_ten u256_zero_value)

lemmas i128_to_string_text =
  i128.signed_to_string_text [OF u128_to_string_text, folded gray_i128_to_string_def]

lemmas i256_to_string_text =
  i256.signed_to_string_text [OF u256_to_string_text, folded gray_i256_to_string_def]

lemmas i128_from_decimal_text =
  i128.signed_from_decimal_text [OF u128_from_decimal_numeral, folded gray_i128_from_decimal_def]

lemmas i256_from_decimal_text =
  i256.signed_from_decimal_text [OF u256_from_decimal_numeral, folded gray_i256_from_decimal_def]

lemma unat_base_pos: "2 \<le> uint (base :: u64) \<Longrightarrow> 0 < unat base"
  by (auto simp: unat_gt_0)

lemma u128_radix_text:
  assumes "2 \<le> uint base" "u128_int v < uint base ^ 96"
  shows "gray_u128_to_radix_string v base upper = Inr (radix_text (radix_digit upper) (unat base) (nat (u128_int v)))"
proof -
  have "uint base \<le> 2 ^ 64" by (rule less_imp_le [OF uint64_bounds(2)])
  note loop = u128.digits_loop_value [OF u128_is_zero_iff, of "\<lparr>u128_low = base, u128_high = 0\<rparr>", unfolded u128_ten, OF assms(1) this]
  show ?thesis
  proof (cases "u128_int v = 0")
    case True
    then have z: "u128_is_zero v" by (simp only: u128_is_zero_iff)
    have "digits_of (radix_digit upper) (unat base) 0 @ ''0'' = radix_text (radix_digit upper) (unat base) 0"
      using radix_text_single [OF unat_base_pos [OF assms(1)]] by (simp add: digits_of_def radix_digit_def)
    then show ?thesis using loop [of v 95 "radix_digit upper" "''0''"] True assms(1)
      by (simp add: gray_u128_to_radix_string_def z GRAY_BIGINT_RADIX_BUFFER_SIZE_def)
  next
    case False
    then have pos: "0 < u128_int v" and z: "\<not> u128_is_zero v"
      using u128_int_bounds(1) [of v] u128_is_zero_iff [of v] by auto
    with loop [OF assms(2), of "radix_digit upper" "[]"] show ?thesis
      by (simp add: gray_u128_to_radix_string_def z GRAY_BIGINT_RADIX_BUFFER_SIZE_def
          digits_of_def  del: digits_loop.simps)
  qed
qed

lemma u256_radix_text:
  assumes "2 \<le> uint base" "u256_int v < uint base ^ 96"
  shows "gray_u256_to_radix_string v base upper = Inr (radix_text (radix_digit upper) (unat base) (nat (u256_int v)))"
proof -
  have "uint base \<le> 2 ^ 64" by (rule less_imp_le [OF uint64_bounds(2)])
  note loop = u256.digits_loop_value [OF u256_is_zero_iff, of "GRAY_U256_ZERO\<lparr>u256_w0 := base\<rparr>", unfolded u256_ten, OF assms(1) this]
  show ?thesis
  proof (cases "u256_int v = 0")
    case True
    then have z: "u256_is_zero v" by (simp only: u256_is_zero_iff)
    have "digits_of (radix_digit upper) (unat base) 0 @ ''0'' = radix_text (radix_digit upper) (unat base) 0"
      using radix_text_single [OF unat_base_pos [OF assms(1)]] by (simp add: digits_of_def radix_digit_def)
    then show ?thesis using loop [of v 95 "radix_digit upper" "''0''"] True assms(1)
      by (simp add: gray_u256_to_radix_string_def z GRAY_BIGINT_RADIX_BUFFER_SIZE_def)
  next
    case False
    then have pos: "0 < u256_int v" and z: "\<not> u256_is_zero v"
      using u256_int_bounds(1) [of v] u256_is_zero_iff [of v] by auto
    with loop [OF assms(2), of "radix_digit upper" "[]"] show ?thesis
      by (simp add: gray_u256_to_radix_string_def z GRAY_BIGINT_RADIX_BUFFER_SIZE_def
          digits_of_def  del: digits_loop.simps)
  qed
qed

end
