(* ===== verification/Word_Bits.thy ===== *)
theory Word_Bits
  imports Wide256_Values
begin

text \<open>
  Bit operations on little-endian limb arrays (\<open>bigint.h\<close>, section Bitwise): the two shift
  loops, which update the array in place, and the check behind the casts between wide types.
  Every lemma reads the array as the integer whose bit \<open>k\<close> is bit \<open>k mod 64\<close> of limb
  \<open>k div 64\<close>.
\<close>

subsection \<open>Loops\<close>

text \<open>
  One pass reads the current array and stores limb \<open>i\<close>. The left shift walks down from the
  last limb, the right shift walks up from the first.
\<close>

definition shift_left_limb :: "nat \<Rightarrow> nat \<Rightarrow> u64 list \<Rightarrow> nat \<Rightarrow> u64" where
  "shift_left_limb word_shift bit_shift words i =
     (let word = (if word_shift \<le> i then push_bit bit_shift (words ! (i - word_shift)) else 0)
      in if bit_shift \<noteq> 0 \<and> word_shift + 1 \<le> i
         then word OR drop_bit (64 - bit_shift) (words ! (i - word_shift - 1)) else word)"

definition gray_bigint_shift_left_words :: "u64 list \<Rightarrow> nat \<Rightarrow> u64 list" where
  "gray_bigint_shift_left_words words amount =
     fold (\<lambda>i words. words[i := shift_left_limb (amount div 64) (amount mod 64) words i])
       (rev [0..<length words]) words"

definition shift_right_limb :: "u64 \<Rightarrow> nat \<Rightarrow> nat \<Rightarrow> u64 list \<Rightarrow> nat \<Rightarrow> u64" where
  "shift_right_limb fill word_shift bit_shift words i =
     (let source = i + word_shift;
          word = (if source < length words then drop_bit bit_shift (words ! source) else fill)
      in if bit_shift \<noteq> 0
         then word OR push_bit (64 - bit_shift) (if source + 1 < length words then words ! (source + 1) else fill)
         else word)"

definition gray_bigint_shift_right_words :: "u64 list \<Rightarrow> nat \<Rightarrow> bool \<Rightarrow> u64 list" where
  "gray_bigint_shift_right_words words amount arithmetic =
     (let fill = (if arithmetic \<and> drop_bit 63 (last words) \<noteq> 0 then -1 else 0)
      in fold (\<lambda>i words. words[i := shift_right_limb fill (amount div 64) (amount mod 64) words i])
           [0..<length words] words)"

subsection \<open>Bits of a limb array\<close>

lemma bit_words_int:
  "bit (words_int ws) k \<longleftrightarrow> k < 64 * length ws \<and> bit (ws ! (k div 64)) (k mod 64)"
proof (cases "k < 64 * length ws")
  case True
  have "bit (words_int ws) k \<longleftrightarrow> odd (uint (ws ! (k div 64)) div 2 ^ (k mod 64))"
    using words_int_div [OF True] by (simp add: bit_iff_odd odd_iff_mod_2_eq_one)
  then show ?thesis using True by (simp add: bit_uint_iff flip: bit_iff_odd)
next
  case False
  have "words_int ws < 2 ^ k"
    using words_int_less [of ws] False by (meson le_less_trans less_le_trans not_less one_le_numeral power_increasing)
  then have "take_bit k (words_int ws) = words_int ws" by (simp add: take_bit_int_eq_self)
  then show ?thesis using False by (metis bit_take_bit_iff less_irrefl)
qed

lemma words_int_bitwise:
  assumes "length xs = length ys"
  shows "words_int (map2 (AND) xs ys) = words_int xs AND words_int ys"
    "words_int (map2 (OR) xs ys) = words_int xs OR words_int ys"
    "words_int (map2 (XOR) xs ys) = words_int xs XOR words_int ys"
  using assms
  by (auto intro!: bit_eqI simp: bit_words_int bit_and_iff bit_or_iff bit_xor_iff less_mult_imp_div_less mult.commute)

lemma words_int_not: "words_int (map NOT ws) = take_bit (64 * length ws) (NOT (words_int ws))"
  by (auto intro!: bit_eqI simp: bit_words_int bit_take_bit_iff bit_not_iff less_mult_imp_div_less mult.commute)

subsection \<open>In-place loops\<close>

text \<open>
  A loop over all indices that stores \<open>f words i\<close> at \<open>i\<close> maps the original array, as long as
  every pass reads only limbs that the earlier passes have not overwritten.
\<close>

lemma fold_update_upward:
  assumes reads: "\<And>i ws'. i < length ws \<Longrightarrow> length ws' = length ws \<Longrightarrow> (\<forall>j \<ge> i. j < length ws \<longrightarrow> ws' ! j = ws ! j)
      \<Longrightarrow> f ws' i = f ws i"
  shows "fold (\<lambda>i ws. ws[i := f ws i]) [0..<length ws] ws = map (f ws) [0..<length ws]"
proof -
  have "fold (\<lambda>i ws. ws[i := f ws i]) [0..<m] ws = map (f ws) [0..<m] @ drop m ws" if "m \<le> length ws" for m
    using that
  proof (induction m)
    case (Suc m)
    let ?ws = "map (f ws) [0..<m] @ drop m ws"
    have "f ?ws m = f ws m" using Suc.prems by (intro reads) (auto simp: nth_append)
    then show ?case using Suc by (simp add: list_update_append Cons_nth_drop_Suc [symmetric])
  qed simp
  from this [of "length ws"] show ?thesis by simp
qed

lemma fold_update_downward:
  assumes reads: "\<And>i ws'. i < length ws \<Longrightarrow> length ws' = length ws \<Longrightarrow> (\<forall>j \<le> i. ws' ! j = ws ! j) \<Longrightarrow> f ws' i = f ws i"
  shows "fold (\<lambda>i ws. ws[i := f ws i]) (rev [0..<length ws]) ws = map (f ws) [0..<length ws]"
proof -
  have "fold (\<lambda>i ws. ws[i := f ws i]) (rev [m..<length ws]) ws = take m ws @ map (f ws) [m..<length ws]"
    if "m \<le> length ws" for m
    using that
  proof (induction m rule: inc_induct)
    case (step m)
    let ?ws = "take (Suc m) ws @ map (f ws) [Suc m..<length ws]"
    have "f ?ws m = f ws m" using step.hyps by (intro reads) (auto simp: nth_append)
    then show ?case using step
      by (simp add: upt_rec [of m] list_update_append take_Suc_conv_app_nth)
  qed simp
  from this [of 0] show ?thesis by simp
qed

lemma shift_left_words_map:
  "gray_bigint_shift_left_words ws amount
     = map (shift_left_limb (amount div 64) (amount mod 64) ws) [0..<length ws]"
  unfolding gray_bigint_shift_left_words_def
  by (rule fold_update_downward) (auto simp: shift_left_limb_def Let_def)

lemma shift_right_words_map:
  "gray_bigint_shift_right_words ws amount arithmetic
     = map (shift_right_limb (if arithmetic \<and> drop_bit 63 (last ws) \<noteq> 0 then -1 else 0)
         (amount div 64) (amount mod 64) ws) [0..<length ws]"
  unfolding gray_bigint_shift_right_words_def Let_def
  by (rule fold_update_upward) (auto simp: shift_right_limb_def Let_def)

subsection \<open>Shifts\<close>

lemma index_split:
  assumes "b < 64"
  shows "(64 * i + b) div 64 = (i :: nat)" "(64 * i + b) mod 64 = b"
  using assms by simp_all

lemma bit_shift_left_limb:
  assumes "r < 64" "b < 64" "i < length ws"
  shows "bit (shift_left_limb q r ws i) b \<longleftrightarrow>
     64 * q + r \<le> 64 * i + b \<and> bit (words_int ws) (64 * i + b - (64 * q + r))"
proof -
  consider "i < q" | "q \<le> i" "r \<le> b" | "q \<le> i" "b < r" "i = q" | "q \<le> i" "b < r" "q < i" by linarith
  then show ?thesis
  proof cases
    case 2
    then have "64 * i + b - (64 * q + r) = 64 * (i - q) + (b - r)" by simp
    then have "(64 * i + b - (64 * q + r)) div 64 = i - q" "(64 * i + b - (64 * q + r)) mod 64 = b - r"
      using index_split [of "b - r" "i - q"] assms by (simp_all only: less_imp_diff_less)
    then show ?thesis using 2 assms
      by (auto simp: shift_left_limb_def Let_def bit_words_int bit_or_iff bit_push_bit_iff bit_drop_bit_eq dest: bit_imp_le_length)
  next
    case 4
    then have "64 * i + b - (64 * q + r) = 64 * (i - q - 1) + (64 + b - r)" using assms by simp
    then have "(64 * i + b - (64 * q + r)) div 64 = i - q - 1" "(64 * i + b - (64 * q + r)) mod 64 = 64 + b - r"
      using index_split [of "64 + b - r" "i - q - 1"] assms 4 by (simp_all only:)
    then show ?thesis using 4 assms
      by (auto simp: shift_left_limb_def Let_def bit_words_int bit_or_iff bit_push_bit_iff bit_drop_bit_eq)
  qed (use assms in \<open>auto simp: shift_left_limb_def Let_def bit_push_bit_iff\<close>)
qed

lemma shift_left_words_value:
  "words_int (gray_bigint_shift_left_words ws amount) = take_bit (64 * length ws) (push_bit amount (words_int ws))"
proof (rule bit_eqI)
  fix k
  show "bit (words_int (gray_bigint_shift_left_words ws amount)) k
      \<longleftrightarrow> bit (take_bit (64 * length ws) (push_bit amount (words_int ws))) k"
  proof (cases "k < 64 * length ws")
    case True
    then have "k div 64 < length ws" by (simp add: less_mult_imp_div_less mult.commute)
    then show ?thesis using True bit_shift_left_limb [of "amount mod 64" "k mod 64" "k div 64" ws "amount div 64"]
      by (simp add: bit_words_int [of "map _ _"] shift_left_words_map
          bit_take_bit_iff bit_push_bit_iff)
  qed (simp add: bit_words_int shift_left_words_map bit_take_bit_iff)
qed

lemma top_bit_words:
  assumes "ws \<noteq> []"
  shows "drop_bit 63 (last ws) \<noteq> 0 \<longleftrightarrow> bit (words_int ws) (64 * length ws - 1)"
proof -
  have i: "64 * length ws - 1 = 64 * (length ws - 1) + 63" using assms by (cases ws) auto
  have lt: "64 * (length ws - 1) + 63 < 64 * length ws" using assms by (cases ws) auto
  have "bit (words_int ws) (64 * length ws - 1) \<longleftrightarrow> bit (last ws) 63"
    using assms lt unfolding i bit_words_int by (simp add: last_conv_nth index_split)
  also have "\<dots> \<longleftrightarrow> drop_bit 63 (last ws) \<noteq> 0"
  proof
    assume "bit (last ws) 63"
    then have "bit (drop_bit 63 (last ws)) 0" by (simp add: bit_drop_bit_eq)
    then show "drop_bit 63 (last ws) \<noteq> 0" by auto
  next
    assume "drop_bit 63 (last ws) \<noteq> 0"
    then obtain n where "bit (last ws) (63 + n)" by (auto simp: bit_eq_iff bit_drop_bit_eq)
    moreover from this have "63 + n < 64" using bit_imp_le_length [of "last ws" "63 + n"] by simp
    ultimately show "bit (last ws) 63" by simp
  qed
  finally show ?thesis by simp
qed

text \<open>The integer an arithmetic shift sees: the top bit repeats above the array.\<close>

definition shifted_value :: "bool \<Rightarrow> u64 list \<Rightarrow> int" where
  "shifted_value arithmetic ws =
     (if arithmetic then signed_take_bit (64 * length ws - 1) (words_int ws) else words_int ws)"

lemma bit_shifted_value:
  assumes "ws \<noteq> []"
  shows "bit (shifted_value arithmetic ws) k \<longleftrightarrow>
     (if k < 64 * length ws then bit (words_int ws) k else arithmetic \<and> drop_bit 63 (last ws) \<noteq> 0)"
proof (cases "k < 64 * length ws - 1")
  case True
  then show ?thesis by (auto simp: shifted_value_def bit_signed_take_bit_iff min_def)
next
  case False
  then have "k = 64 * length ws - 1 \<or> 64 * length ws \<le> k" by linarith
  then show ?thesis using False assms unfolding top_bit_words [OF assms]
    by (auto simp: shifted_value_def bit_signed_take_bit_iff min_def) (auto simp: bit_words_int)
qed

lemma bit_shift_right_limb:
  assumes "r < 64" "b < 64" "fill = (if f then -1 else 0)"
  shows "bit (shift_right_limb fill q r ws i) b \<longleftrightarrow>
     (let k = 64 * i + b + (64 * q + r) in if k < 64 * length ws then bit (words_int ws) k else f)"
proof (cases "b + r < 64")
  case True
  have k: "64 * i + b + (64 * q + r) = 64 * (i + q) + (b + r)" by simp
  note s = index_split [OF True, of "i + q"]
  show ?thesis using True assms unfolding k Let_def bit_words_int s
    by (auto simp: shift_right_limb_def Let_def bit_or_iff bit_push_bit_iff bit_drop_bit_eq add.commute)
next
  case False
  have k: "64 * i + b + (64 * q + r) = 64 * (i + q + 1) + (b + r - 64)" using False by simp
  have "b + r - 64 < 64" using assms by simp
  note s = index_split [OF this, of "i + q + 1"]
  show ?thesis using False assms unfolding k Let_def bit_words_int s
    by (auto simp: shift_right_limb_def Let_def bit_or_iff bit_push_bit_iff bit_drop_bit_eq add.commute dest: bit_imp_le_length)
qed

lemma shift_right_words_value:
  assumes "ws \<noteq> []"
  shows "words_int (gray_bigint_shift_right_words ws amount arithmetic)
     = take_bit (64 * length ws) (drop_bit amount (shifted_value arithmetic ws))"
proof (rule bit_eqI)
  fix k
  show "bit (words_int (gray_bigint_shift_right_words ws amount arithmetic)) k
      \<longleftrightarrow> bit (take_bit (64 * length ws) (drop_bit amount (shifted_value arithmetic ws))) k"
  proof (cases "k < 64 * length ws")
    case True
    have "64 * (k div 64) + k mod 64 + (64 * (amount div 64) + amount mod 64) = k + amount"
      using mult_div_mod_eq [of 64 k] mult_div_mod_eq [of 64 amount] by linarith
    with True bit_shift_right_limb [of "amount mod 64" "k mod 64", OF _ _ refl, where i = "k div 64" and q = "amount div 64"]
      bit_shifted_value [OF assms, of arithmetic "k + amount"]
    show ?thesis
      by (simp add: bit_words_int [of "map _ _"] shift_right_words_map less_mult_imp_div_less mult.commute
          bit_take_bit_iff bit_drop_bit_eq Let_def add.commute)
  qed (simp add: bit_words_int shift_right_words_map bit_take_bit_iff)
qed

end
