(* ===== verification/Wide_Bitwise.thy ===== *)
theory Wide_Bitwise
  imports Word_Bits
begin

text \<open>
  The bitwise functions the macro \<open>GRAY_BIGINT_BITWISE\<close> generates for each wide type, and the
  value-preserving casts between the wide types (\<open>bigint.h\<close>). The macro's bodies are stated
  once over the type's view as a limb array (the \<open>memcpy\<close> in and out of the struct); the locale
  \<open>limb_array\<close> is that view, and its lemmas give each function's integer meaning.
\<close>

subsection \<open>The macro's bodies\<close>

definition bitwise_binary :: "('t \<Rightarrow> u64 list) \<Rightarrow> (u64 list \<Rightarrow> 't) \<Rightarrow> (u64 \<Rightarrow> u64 \<Rightarrow> u64) \<Rightarrow> 't \<Rightarrow> 't \<Rightarrow> 't" where
  "bitwise_binary words of_words op left right = of_words (map2 op (words left) (words right))"

definition bitwise_not :: "('t \<Rightarrow> u64 list) \<Rightarrow> (u64 list \<Rightarrow> 't) \<Rightarrow> 't \<Rightarrow> 't" where
  "bitwise_not words of_words value = of_words (map NOT (words value))"

definition bitwise_shl :: "('t \<Rightarrow> u64 list) \<Rightarrow> (u64 list \<Rightarrow> 't) \<Rightarrow> nat \<Rightarrow> 't \<Rightarrow> i64 \<Rightarrow> 't panicking" where
  "bitwise_shl words of_words count value amount =
     (if sint amount < 0 \<or> int (count * 64) \<le> sint amount then Inl ''P0092''
      else Inr (of_words (gray_bigint_shift_left_words (words value) (nat (sint amount)))))"

definition bitwise_shr :: "('t \<Rightarrow> u64 list) \<Rightarrow> (u64 list \<Rightarrow> 't) \<Rightarrow> nat \<Rightarrow> bool \<Rightarrow> 't \<Rightarrow> i64 \<Rightarrow> 't panicking" where
  "bitwise_shr words of_words count is_signed value amount =
     (if sint amount < 0 \<or> int (count * 64) \<le> sint amount then Inl ''P0092''
      else Inr (of_words (gray_bigint_shift_right_words (words value) (nat (sint amount)) is_signed)))"

definition bitwise_shift_amount :: "('t \<Rightarrow> u64 list) \<Rightarrow> bool \<Rightarrow> 't \<Rightarrow> i64 panicking" where
  "bitwise_shift_amount words is_signed value =
     (let ws = words value;
          extension = (if is_signed \<and> drop_bit 63 (hd ws) \<noteq> 0 then -1 else 0);
          fits = ((is_signed \<or> drop_bit 63 (hd ws) = 0) \<and> list_all (\<lambda>w. w = extension) (tl ws))
      in if \<not> fits then Inl ''P0092'' else Inr (hd ws))"

subsection \<open>The generated functions\<close>

definition u128_words :: "gray_u128 \<Rightarrow> u64 list" where
  "u128_words v = [u128_low v, u128_high v]"

definition u128_of_words :: "u64 list \<Rightarrow> gray_u128" where
  "u128_of_words ws = \<lparr>u128_low = ws ! 0, u128_high = ws ! 1\<rparr>"

definition i128_words :: "gray_i128 \<Rightarrow> u64 list" where
  "i128_words v = [i128_low v, i128_high v]"

definition i128_of_words :: "u64 list \<Rightarrow> gray_i128" where
  "i128_of_words ws = \<lparr>i128_low = ws ! 0, i128_high = ws ! 1\<rparr>"

definition gray_i128_and :: "gray_i128 \<Rightarrow> gray_i128 \<Rightarrow> gray_i128" where
  "gray_i128_and = bitwise_binary i128_words i128_of_words (AND)"

definition gray_i128_or :: "gray_i128 \<Rightarrow> gray_i128 \<Rightarrow> gray_i128" where
  "gray_i128_or = bitwise_binary i128_words i128_of_words (OR)"

definition gray_i128_xor :: "gray_i128 \<Rightarrow> gray_i128 \<Rightarrow> gray_i128" where
  "gray_i128_xor = bitwise_binary i128_words i128_of_words (XOR)"

definition gray_i128_not :: "gray_i128 \<Rightarrow> gray_i128" where
  "gray_i128_not = bitwise_not i128_words i128_of_words"

definition gray_i128_shl :: "gray_i128 \<Rightarrow> i64 \<Rightarrow> gray_i128 panicking" where
  "gray_i128_shl = bitwise_shl i128_words i128_of_words 2"

definition gray_i128_shr :: "gray_i128 \<Rightarrow> i64 \<Rightarrow> gray_i128 panicking" where
  "gray_i128_shr = bitwise_shr i128_words i128_of_words 2 True"

definition gray_i128_shift_amount :: "gray_i128 \<Rightarrow> i64 panicking" where
  "gray_i128_shift_amount = bitwise_shift_amount i128_words True"

definition gray_u128_and :: "gray_u128 \<Rightarrow> gray_u128 \<Rightarrow> gray_u128" where
  "gray_u128_and = bitwise_binary u128_words u128_of_words (AND)"

definition gray_u128_or :: "gray_u128 \<Rightarrow> gray_u128 \<Rightarrow> gray_u128" where
  "gray_u128_or = bitwise_binary u128_words u128_of_words (OR)"

definition gray_u128_xor :: "gray_u128 \<Rightarrow> gray_u128 \<Rightarrow> gray_u128" where
  "gray_u128_xor = bitwise_binary u128_words u128_of_words (XOR)"

definition gray_u128_not :: "gray_u128 \<Rightarrow> gray_u128" where
  "gray_u128_not = bitwise_not u128_words u128_of_words"

definition gray_u128_shl :: "gray_u128 \<Rightarrow> i64 \<Rightarrow> gray_u128 panicking" where
  "gray_u128_shl = bitwise_shl u128_words u128_of_words 2"

definition gray_u128_shr :: "gray_u128 \<Rightarrow> i64 \<Rightarrow> gray_u128 panicking" where
  "gray_u128_shr = bitwise_shr u128_words u128_of_words 2 False"

definition gray_u128_shift_amount :: "gray_u128 \<Rightarrow> i64 panicking" where
  "gray_u128_shift_amount = bitwise_shift_amount u128_words False"

definition gray_i256_and :: "gray_i256 \<Rightarrow> gray_i256 \<Rightarrow> gray_i256" where
  "gray_i256_and = bitwise_binary i256_words i256_of_words (AND)"

definition gray_i256_or :: "gray_i256 \<Rightarrow> gray_i256 \<Rightarrow> gray_i256" where
  "gray_i256_or = bitwise_binary i256_words i256_of_words (OR)"

definition gray_i256_xor :: "gray_i256 \<Rightarrow> gray_i256 \<Rightarrow> gray_i256" where
  "gray_i256_xor = bitwise_binary i256_words i256_of_words (XOR)"

definition gray_i256_not :: "gray_i256 \<Rightarrow> gray_i256" where
  "gray_i256_not = bitwise_not i256_words i256_of_words"

definition gray_i256_shl :: "gray_i256 \<Rightarrow> i64 \<Rightarrow> gray_i256 panicking" where
  "gray_i256_shl = bitwise_shl i256_words i256_of_words 4"

definition gray_i256_shr :: "gray_i256 \<Rightarrow> i64 \<Rightarrow> gray_i256 panicking" where
  "gray_i256_shr = bitwise_shr i256_words i256_of_words 4 True"

definition gray_i256_shift_amount :: "gray_i256 \<Rightarrow> i64 panicking" where
  "gray_i256_shift_amount = bitwise_shift_amount i256_words True"

definition gray_u256_and :: "gray_u256 \<Rightarrow> gray_u256 \<Rightarrow> gray_u256" where
  "gray_u256_and = bitwise_binary u256_words u256_of_words (AND)"

definition gray_u256_or :: "gray_u256 \<Rightarrow> gray_u256 \<Rightarrow> gray_u256" where
  "gray_u256_or = bitwise_binary u256_words u256_of_words (OR)"

definition gray_u256_xor :: "gray_u256 \<Rightarrow> gray_u256 \<Rightarrow> gray_u256" where
  "gray_u256_xor = bitwise_binary u256_words u256_of_words (XOR)"

definition gray_u256_not :: "gray_u256 \<Rightarrow> gray_u256" where
  "gray_u256_not = bitwise_not u256_words u256_of_words"

definition gray_u256_shl :: "gray_u256 \<Rightarrow> i64 \<Rightarrow> gray_u256 panicking" where
  "gray_u256_shl = bitwise_shl u256_words u256_of_words 4"

definition gray_u256_shr :: "gray_u256 \<Rightarrow> i64 \<Rightarrow> gray_u256 panicking" where
  "gray_u256_shr = bitwise_shr u256_words u256_of_words 4 False"

definition gray_u256_shift_amount :: "gray_u256 \<Rightarrow> i64 panicking" where
  "gray_u256_shift_amount = bitwise_shift_amount u256_words False"

subsection \<open>Casts between wide types\<close>

text \<open>The source sign-extended to four limbs, and the scan of the bits the destination drops.\<close>

definition gray_wide_cast_words :: "u64 list \<Rightarrow> bool \<Rightarrow> nat \<Rightarrow> bool \<Rightarrow> u64 list panicking" where
  "gray_wide_cast_words source source_signed destination_bits destination_signed =
     (let is_negative = (source_signed \<and> sint (last source) < 0);
          fill = (if is_negative then -1 else 0);
          out = map (\<lambda>i. if i < length source then source ! i else fill) [0..<4];
          first_checked_bit = (if destination_signed then destination_bits - 1 else destination_bits);
          is_in_range = ((\<not> is_negative \<or> destination_signed) \<and>
            list_all (\<lambda>bit. (word_bit out bit \<noteq> 0) = is_negative) [first_checked_bit..<256])
      in if \<not> is_in_range then Inl ''P0138'' else Inr out)"

definition wide_cast :: "('a \<Rightarrow> u64 list) \<Rightarrow> bool \<Rightarrow> (u64 list \<Rightarrow> 'b) \<Rightarrow> nat \<Rightarrow> bool \<Rightarrow> 'a \<Rightarrow> 'b panicking" where
  "wide_cast source_words source_signed of_words destination_bits destination_signed value =
     bind_panic (gray_wide_cast_words (source_words value) source_signed destination_bits destination_signed)
       (\<lambda>words. Inr (of_words words))"

definition gray_cast_i128_to_u128 :: "gray_i128 \<Rightarrow> gray_u128 panicking" where
  "gray_cast_i128_to_u128 = wide_cast i128_words True u128_of_words 128 False"

definition gray_cast_i128_to_i256 :: "gray_i128 \<Rightarrow> gray_i256 panicking" where
  "gray_cast_i128_to_i256 = wide_cast i128_words True i256_of_words 256 True"

definition gray_cast_i128_to_u256 :: "gray_i128 \<Rightarrow> gray_u256 panicking" where
  "gray_cast_i128_to_u256 = wide_cast i128_words True u256_of_words 256 False"

definition gray_cast_u128_to_i128 :: "gray_u128 \<Rightarrow> gray_i128 panicking" where
  "gray_cast_u128_to_i128 = wide_cast u128_words False i128_of_words 128 True"

definition gray_cast_u128_to_i256 :: "gray_u128 \<Rightarrow> gray_i256 panicking" where
  "gray_cast_u128_to_i256 = wide_cast u128_words False i256_of_words 256 True"

definition gray_cast_u128_to_u256 :: "gray_u128 \<Rightarrow> gray_u256 panicking" where
  "gray_cast_u128_to_u256 = wide_cast u128_words False u256_of_words 256 False"

definition gray_cast_i256_to_i128 :: "gray_i256 \<Rightarrow> gray_i128 panicking" where
  "gray_cast_i256_to_i128 = wide_cast i256_words True i128_of_words 128 True"

definition gray_cast_i256_to_u128 :: "gray_i256 \<Rightarrow> gray_u128 panicking" where
  "gray_cast_i256_to_u128 = wide_cast i256_words True u128_of_words 128 False"

definition gray_cast_i256_to_u256 :: "gray_i256 \<Rightarrow> gray_u256 panicking" where
  "gray_cast_i256_to_u256 = wide_cast i256_words True u256_of_words 256 False"

definition gray_cast_u256_to_i128 :: "gray_u256 \<Rightarrow> gray_i128 panicking" where
  "gray_cast_u256_to_i128 = wide_cast u256_words False i128_of_words 128 True"

definition gray_cast_u256_to_u128 :: "gray_u256 \<Rightarrow> gray_u128 panicking" where
  "gray_cast_u256_to_u128 = wide_cast u256_words False u128_of_words 128 False"

definition gray_cast_u256_to_i256 :: "gray_u256 \<Rightarrow> gray_i256 panicking" where
  "gray_cast_u256_to_i256 = wide_cast u256_words False i256_of_words 256 True"

definition gray_cast_i64_to_u128 :: "i64 \<Rightarrow> gray_u128 panicking" where
  "gray_cast_i64_to_u128 value = (if sint value < 0 then Inl ''P0138'' else Inr (gray_u128_from_u64 value))"

definition gray_cast_i64_to_u256 :: "i64 \<Rightarrow> gray_u256 panicking" where
  "gray_cast_i64_to_u256 value = (if sint value < 0 then Inl ''P0138'' else Inr (gray_u256_from_u64 value))"

end
