(* ===== verification/Wide_Bitwise_Values.thy ===== *)
theory Wide_Bitwise_Values
  imports Wide_Bitwise
begin

text \<open>
  What the bitwise functions and the casts compute. A limb array denotes the integer
  \<open>shifted_value signed\<close> (two's complement when signed); the generated functions are the
  corresponding operations on unbounded integers, reduced to the type's range.
\<close>

lemma shifted_value_bounds:
  "ws \<noteq> [] \<Longrightarrow> - (2 ^ (64 * length ws - 1)) \<le> shifted_value True ws"
  "ws \<noteq> [] \<Longrightarrow> shifted_value True ws < 2 ^ (64 * length ws - 1)"
  "0 \<le> shifted_value False ws" "shifted_value False ws < 2 ^ (64 * length ws)"
  using words_int_less [of ws]
  by (simp_all add: shifted_value_def signed_take_bit_int_greater_eq_minus_exp signed_take_bit_int_less_exp)

text \<open>Reduction into the range of a type of the given width.\<close>

definition wrap_to :: "bool \<Rightarrow> nat \<Rightarrow> int \<Rightarrow> int" where
  "wrap_to is_signed n k = (if is_signed then signed_take_bit (n - 1) k else take_bit n k)"

lemma shifted_value_wrap:
  assumes "length ws = count" "0 < count" "words_int ws = take_bit (64 * count) k"
  shows "shifted_value is_signed ws = wrap_to is_signed (64 * count) k"
proof -
  have "\<not> 64 * count \<le> 64 * count - 1" using assms(2) by simp
  then show ?thesis using assms by (auto simp: shifted_value_def wrap_to_def signed_take_bit_take_bit)
qed

lemma wrap_to_bitwise:
  "wrap_to is_signed n (k AND l) = wrap_to is_signed n k AND wrap_to is_signed n l"
  "wrap_to is_signed n (k OR l) = wrap_to is_signed n k OR wrap_to is_signed n l"
  "wrap_to is_signed n (k XOR l) = wrap_to is_signed n k XOR wrap_to is_signed n l"
  by (auto intro!: bit_eqI simp: wrap_to_def bit_signed_take_bit_iff bit_take_bit_iff bit_and_iff bit_or_iff bit_xor_iff)

lemma length_shift_words [simp]:
  "length (gray_bigint_shift_left_words ws n) = length ws"
  "length (gray_bigint_shift_right_words ws n f) = length ws"
  by (simp_all add: shift_left_words_map shift_right_words_map)

lemma words_int_take_bit: "words_int ws = take_bit (64 * length ws) (shifted_value is_signed ws)"
proof (cases "ws = []")
  case False
  then have "take_bit (64 * length ws) (signed_take_bit (64 * length ws - 1) (words_int ws)) = take_bit (64 * length ws) (words_int ws)"
    by (intro take_bit_signed_take_bit) simp
  then show ?thesis using words_int_less [of ws] by (auto simp: shifted_value_def take_bit_int_eq_self)
qed (simp add: shifted_value_def)

lemma drop_bit_between:
  assumes "lo \<le> 0" "0 < hi" "lo \<le> k" "k < (hi :: int)"
  shows "lo \<le> drop_bit n k" "drop_bit n k < hi"
proof -
  have "(0 \<le> k div 2 ^ n \<and> k div 2 ^ n \<le> k) \<or> (k \<le> k div 2 ^ n \<and> k div 2 ^ n < 0)"
  proof (cases "0 \<le> k")
    case True
    then show ?thesis using zdiv_mono2 [of k 1 "2 ^ n"] by (simp add: pos_imp_zdiv_nonneg_iff)
  next
    case False
    then show ?thesis using zdiv_mono2_neg [of k 1 "2 ^ n"] by (simp add: pos_imp_zdiv_neg_iff)
  qed
  then show "lo \<le> drop_bit n k" "drop_bit n k < hi" using assms by (auto simp: drop_bit_eq_div)
qed

lemma drop_bit_wrap:
  assumes "wrap_to is_signed n k = k" "0 < n"
  shows "wrap_to is_signed n (drop_bit m k) = drop_bit m k"
proof (cases is_signed)
  case True
  then have "- (2 ^ (n - 1)) \<le> k" "k < 2 ^ (n - 1)"
    using assms(1) signed_take_bit_int_greater_eq_minus_exp [of "n - 1" k] signed_take_bit_int_less_exp [of "n - 1" k]
    by (simp_all add: wrap_to_def)
  from drop_bit_between [OF _ _ this, of m] show ?thesis
    using True by (simp add: wrap_to_def signed_take_bit_int_eq_self)
next
  case False
  then have "0 \<le> k" "k < 2 ^ n"
    using assms(1) take_bit_nonnegative [of n k] take_bit_int_less_exp [of n k] by (simp_all add: wrap_to_def)
  from drop_bit_between [OF _ _ this, of m] show ?thesis
    using False by (simp add: wrap_to_def take_bit_int_eq_self)
qed

subsection \<open>The limb view of a type\<close>

locale limb_array =
  fixes words :: "'t \<Rightarrow> u64 list"
    and of_words :: "u64 list \<Rightarrow> 't"
    and count :: nat
    and is_signed :: bool
    and ival :: "'t \<Rightarrow> int"
  assumes count_pos: "0 < count"
    and count_small: "64 * count < 2 ^ 31"
    and length_words: "length (words v) = count"
    and words_of_words: "length ws = count \<Longrightarrow> words (of_words ws) = ws"
    and value_words: "ival v = shifted_value is_signed (words v)"
begin

abbreviation wrap :: "int \<Rightarrow> int" where
  "wrap \<equiv> wrap_to is_signed (64 * count)"

lemma words_not_Nil: "words v \<noteq> []"
  using length_words [of v] count_pos by auto

lemma value_of_words: "length ws = count \<Longrightarrow> words_int ws = take_bit (64 * count) k \<Longrightarrow> ival (of_words ws) = wrap k"
  using shifted_value_wrap [OF _ count_pos] by (simp add: value_words words_of_words)

lemma value_words_int: "words_int (words v) = take_bit (64 * count) (ival v)"
  using words_int_take_bit [of "words v" is_signed] by (simp add: value_words length_words)

lemma wrap_value: "wrap (ival v) = ival v"
  using shifted_value_wrap [of "words v" count "ival v" is_signed] count_pos value_words_int [of v]
  by (simp add: length_words value_words)

lemma wrap_bitwise:
  "wrap (ival v AND ival w) = ival v AND ival w"
  "wrap (ival v OR ival w) = ival v OR ival w"
  "wrap (ival v XOR ival w) = ival v XOR ival w"
  by (simp_all only: wrap_to_bitwise wrap_value)

lemma binary_value:
  "ival (bitwise_binary words of_words (AND) v w) = ival v AND ival w"
  "ival (bitwise_binary words of_words (OR) v w) = ival v OR ival w"
  "ival (bitwise_binary words of_words (XOR) v w) = ival v XOR ival w"
proof -
  have op: "ival (bitwise_binary words of_words op v w) = wrap k"
    if "words_int (map2 op (words v) (words w)) = take_bit (64 * count) k" for op k
    unfolding bitwise_binary_def using that by (intro value_of_words) (simp_all add: length_words)
  note w = words_int_bitwise [of "words v" "words w", unfolded value_words_int length_words, OF refl]
  show "ival (bitwise_binary words of_words (AND) v w) = ival v AND ival w"
    using op [of "(AND)" "ival v AND ival w"] by (simp only: w wrap_bitwise take_bit_and)
  show "ival (bitwise_binary words of_words (OR) v w) = ival v OR ival w"
    using op [of "(OR)" "ival v OR ival w"] by (simp only: w wrap_bitwise take_bit_or)
  show "ival (bitwise_binary words of_words (XOR) v w) = ival v XOR ival w"
    using op [of "(XOR)" "ival v XOR ival w"] by (simp only: w wrap_bitwise take_bit_xor)
qed

lemma not_value: "ival (bitwise_not words of_words v) = wrap (NOT (ival v))"
  unfolding bitwise_not_def
proof (rule value_of_words)
  have "take_bit (64 * count) (NOT (take_bit (64 * count) (ival v))) = take_bit (64 * count) (NOT (ival v))"
    by (auto intro!: bit_eqI simp: bit_take_bit_iff bit_not_iff)
  then show "words_int (map NOT (words v)) = take_bit (64 * count) (NOT (ival v))"
    by (simp only: length_words words_int_not value_words_int)
qed (simp add: length_words)

lemma shl_value:
  "bitwise_shl words of_words count v amount =
     (if 0 \<le> sint amount \<and> sint amount < 64 * int count
      then Inr (of_words (gray_bigint_shift_left_words (words v) (nat (sint amount)))) else Inl ''P0092'')"
  "ival (of_words (gray_bigint_shift_left_words (words v) n)) = wrap (push_bit n (ival v))"
proof -
  show "ival (of_words (gray_bigint_shift_left_words (words v) n)) = wrap (push_bit n (ival v))"
  proof (rule value_of_words)
    have "take_bit (64 * count) (push_bit n (take_bit (64 * count) (ival v))) = take_bit (64 * count) (push_bit n (ival v))"
      by (auto intro!: bit_eqI simp: bit_take_bit_iff bit_push_bit_iff)
    then show "words_int (gray_bigint_shift_left_words (words v) n) = take_bit (64 * count) (push_bit n (ival v))"
      by (simp only: shift_left_words_value length_words value_words_int)
  qed (simp add: length_words)
qed (auto simp: bitwise_shl_def)

lemma shr_value:
  "bitwise_shr words of_words count is_signed v amount =
     (if 0 \<le> sint amount \<and> sint amount < 64 * int count
      then Inr (of_words (gray_bigint_shift_right_words (words v) (nat (sint amount)) is_signed)) else Inl ''P0092'')"
  "ival (of_words (gray_bigint_shift_right_words (words v) n is_signed)) = drop_bit n (ival v)"
proof -
  have "wrap (drop_bit n (ival v)) = drop_bit n (ival v)"
    using count_pos wrap_value by (intro drop_bit_wrap) simp_all
  then show "ival (of_words (gray_bigint_shift_right_words (words v) n is_signed)) = drop_bit n (ival v)"
    using value_of_words [of "gray_bigint_shift_right_words (words v) n is_signed" "drop_bit n (ival v)"]
    by (simp add: shift_right_words_value [OF words_not_Nil] value_words length_words)
qed (auto simp: bitwise_shr_def)

end

subsection \<open>Shift amounts\<close>

lemma drop_bit_63_iff: "drop_bit 63 w \<noteq> 0 \<longleftrightarrow> sint (w :: u64) < 0"
proof -
  have "drop_bit 63 w \<noteq> 0 \<longleftrightarrow> bit (words_int [w]) 63" using top_bit_words [of "[w]"] by simp
  also have "\<dots> \<longleftrightarrow> bit w 63" by (simp add: bit_words_int del: words_int.simps)
  also have "\<dots> \<longleftrightarrow> sint w < 0" by (simp add: bit_last_iff [of w, simplified])
  finally show ?thesis .
qed

text \<open>The low limb extended by its sign bit has the same value.\<close>

lemma words_int_replicate: "words_int (replicate m 0) = 0" "words_int (replicate m (-1)) = 2 ^ (64 * m) - 1"
  by (induction m) (simp_all add: power_add unsigned_minus_1_eq_mask mask_eq_exp_minus_1)

lemma sign_extended_value:
  "words_int (w # replicate m (if sint w < 0 then -1 else 0)) = take_bit (64 * Suc m) (sint w)"
proof (rule take_bit_unique [OF words_int_nonneg])
  show "words_int (w # replicate m (if sint w < 0 then -1 else 0)) < 2 ^ (64 * Suc m)"
    using words_int_less [of "w # replicate m (if sint w < 0 then -1 else 0)"] by (simp only: length_Cons length_replicate)
  show "words_int (w # replicate m (if sint w < 0 then -1 else 0)) = sint w + 2 ^ (64 * Suc m) * (if sint w < 0 then 1 else 0)"
  proof (cases "sint w < 0")
    case True
    show ?thesis unfolding if_P [OF True] words_int.simps sint64_cases(1) [OF True]
      using words_int_replicate(2) [of m] by (simp add: power_add algebra_simps)
  next
    case False
    show ?thesis unfolding if_not_P [OF False] words_int.simps sint64_cases(2) [OF False]
      using words_int_replicate(1) [of m] by simp
  qed
qed

lemma sint_low_limb: "signed_take_bit 63 (words_int (w # ws)) = sint w"
proof -
  have "take_bit 64 (words_int (w # ws)) = uint w" by (simp only: take_bit_eq_mod words_int_mod)
  then have "signed_take_bit 63 (words_int (w # ws)) = signed_take_bit 63 (uint w)"
    using signed_take_bit_take_bit [of 63 64 "words_int (w # ws)"] by simp
  then show ?thesis by (simp add: sint_uint)
qed

lemma all_equal_replicate: "list_all (\<lambda>w. w = x) ws \<longleftrightarrow> ws = replicate (length ws) x"
  by (induction ws) auto

lemma signed_fits_iff:
  "list_all (\<lambda>u. u = (if sint w < 0 then -1 else 0)) ws \<longleftrightarrow> shifted_value True (w # ws) = sint w"
proof -
  let ?N = "64 * Suc (length ws)"
  have V: "shifted_value True (w # ws) = signed_take_bit (?N - 1) (words_int (w # ws))"
    by (simp only: shifted_value_def length_Cons if_True)
  have "list_all (\<lambda>u. u = (if sint w < 0 then -1 else 0)) ws
      \<longleftrightarrow> words_int (w # ws) = words_int (w # replicate (length ws) (if sint w < 0 then -1 else 0))"
    by (simp add: all_equal_replicate words_int_inject del: words_int.simps)
  also have "\<dots> \<longleftrightarrow> words_int (w # ws) = take_bit ?N (sint w)" by (simp only: sign_extended_value)
  also have "\<dots> \<longleftrightarrow> shifted_value True (w # ws) = sint w"
  proof
    assume "words_int (w # ws) = take_bit ?N (sint w)"
    then have "shifted_value True (w # ws) = signed_take_bit (?N - 1) (sint w)"
      unfolding V by (simp add: signed_take_bit_take_bit del: words_int.simps)
    also have "\<dots> = signed_take_bit (?N - 1) (signed_take_bit 63 (words_int (w # ws)))" by (simp only: sint_low_limb)
    also have "\<dots> = sint w"
      unfolding signed_take_bit_signed_take_bit by (simp add: min_def sint_low_limb del: words_int.simps)
    finally show "shifted_value True (w # ws) = sint w" .
  next
    assume "shifted_value True (w # ws) = sint w"
    then show "words_int (w # ws) = take_bit ?N (sint w)"
      using words_int_take_bit [of "w # ws" True] by (simp only: length_Cons)
  qed
  finally show ?thesis .
qed

lemma in_range_iff_low_limb:
  assumes "V = shifted_value True (w # ws)"
  shows "- (2 ^ 63) \<le> V \<and> V < 2 ^ 63 \<longleftrightarrow> V = sint w"
proof -
  have "signed_take_bit 63 V = sint w"
    unfolding assms shifted_value_def
    by (simp add: signed_take_bit_signed_take_bit min_def sint_low_limb del: words_int.simps)
  moreover have "- (2 ^ 63) \<le> V \<and> V < 2 ^ 63 \<longleftrightarrow> signed_take_bit 63 V = V"
    by (simp add: signed_take_bit_int_eq_self_iff)
  ultimately show ?thesis by auto
qed

lemma unsigned_fits_iff:
  "drop_bit 63 w = 0 \<and> list_all (\<lambda>u. u = 0) ws \<longleftrightarrow> words_int (w # ws) < 2 ^ 63"
  "drop_bit 63 w = 0 \<and> list_all (\<lambda>u. u = 0) ws \<Longrightarrow> words_int (w # ws) = sint w"
proof -
  have z: "list_all (\<lambda>u. u = 0) ws \<longleftrightarrow> words_int ws = 0" by (simp add: words_int_zero_iff list_all_iff)
  have d: "drop_bit 63 w = 0 \<longleftrightarrow> 0 \<le> sint w" using drop_bit_63_iff [of w] by auto
  obtain W where W: "uint w = W" "0 \<le> W" "W < 2 ^ 64" by (rule limb_cases)
  have s: "0 \<le> sint w \<longleftrightarrow> W < 2 ^ 63" "0 \<le> sint w \<Longrightarrow> sint w = W"
    using sint64_nonneg_iff [of w] sint64_cases [of w] W(1) by auto
  obtain R where R: "words_int ws = R" "0 \<le> R" by simp
  show "drop_bit 63 w = 0 \<and> list_all (\<lambda>u. u = 0) ws \<longleftrightarrow> words_int (w # ws) < 2 ^ 63"
    unfolding z d s(1) words_int.simps W(1) R(1) using W(2,3) R(2) by (cases "R = 0") simp_all
  show "words_int (w # ws) = sint w" if "drop_bit 63 w = 0 \<and> list_all (\<lambda>u. u = 0) ws"
    using that s(2) unfolding z d words_int.simps W(1) by simp
qed

context limb_array
begin

lemma shift_amount_value:
  "bitwise_shift_amount words is_signed v =
     (if - (2 ^ 63) \<le> ival v \<and> ival v < 2 ^ 63 then Inr (hd (words v)) else Inl ''P0092'')"
  "- (2 ^ 63) \<le> ival v \<and> ival v < 2 ^ 63 \<Longrightarrow> sint (hd (words v)) = ival v"
proof -
  obtain w ws where ws: "words v = w # ws" using words_not_Nil [of v] by (cases "words v") auto
  have r: "- (2 ^ 63) \<le> ival v \<and> ival v < 2 ^ 63 \<longleftrightarrow>
      (is_signed \<or> drop_bit 63 w = 0) \<and> list_all (\<lambda>u. u = (if is_signed \<and> drop_bit 63 w \<noteq> 0 then -1 else 0)) ws"
    "(- (2 ^ 63) \<le> ival v \<and> ival v < 2 ^ 63) \<longrightarrow> sint w = ival v"
  proof (atomize (full), cases is_signed)
    case True
    have "list_all (\<lambda>u. u = (if is_signed \<and> drop_bit 63 w \<noteq> 0 then -1 else 0)) ws \<longleftrightarrow> ival v = sint w"
      using signed_fits_iff [of w ws] True by (simp add: drop_bit_63_iff value_words ws del: words_int.simps)
    moreover have "- (2 ^ 63) \<le> ival v \<and> ival v < 2 ^ 63 \<longleftrightarrow> ival v = sint w"
      by (rule in_range_iff_low_limb) (use True in \<open>simp add: value_words ws\<close>)
    ultimately show "(- (2 ^ 63) \<le> ival v \<and> ival v < 2 ^ 63 \<longleftrightarrow>
      (is_signed \<or> drop_bit 63 w = 0) \<and> list_all (\<lambda>u. u = (if is_signed \<and> drop_bit 63 w \<noteq> 0 then -1 else 0)) ws)
      \<and> (- (2 ^ 63) \<le> ival v \<and> ival v < 2 ^ 63 \<longrightarrow> sint w = ival v)"
      using True by auto
  next
    case False
    then have V: "ival v = words_int (w # ws)" by (simp only: value_words ws shifted_value_def if_False)
    have "0 \<le> words_int (w # ws)" by (rule words_int_nonneg)
    then have "- (2 ^ 63) \<le> ival v" unfolding V by (rule order_trans [rotated]) simp
    then show "(- (2 ^ 63) \<le> ival v \<and> ival v < 2 ^ 63 \<longleftrightarrow>
      (is_signed \<or> drop_bit 63 w = 0) \<and> list_all (\<lambda>u. u = (if is_signed \<and> drop_bit 63 w \<noteq> 0 then -1 else 0)) ws)
      \<and> (- (2 ^ 63) \<le> ival v \<and> ival v < 2 ^ 63 \<longrightarrow> sint w = ival v)"
      using False unsigned_fits_iff [of w ws] unfolding V by (auto simp del: words_int.simps)
  qed
  show "bitwise_shift_amount words is_signed v =
     (if - (2 ^ 63) \<le> ival v \<and> ival v < 2 ^ 63 then Inr (hd (words v)) else Inl ''P0092'')"
    unfolding r(1) by (simp add: bitwise_shift_amount_def ws Let_def)
  show "sint (hd (words v)) = ival v" if "- (2 ^ 63) \<le> ival v \<and> ival v < 2 ^ 63"
    using r(2) that by (simp add: ws)
qed

end

subsection \<open>Casts\<close>

lemma high_bits_clear_iff:
  assumes "0 \<le> (U :: int)"
  shows "(\<forall>k \<ge> f. \<not> bit U k) \<longleftrightarrow> U < 2 ^ f"
proof -
  have "take_bit f U = U \<longleftrightarrow> (\<forall>k. bit U k \<longrightarrow> k < f)"
    by (auto simp: bit_eq_iff bit_take_bit_iff)
  also have "\<dots> \<longleftrightarrow> (\<forall>k \<ge> f. \<not> bit U k)" using not_less by blast
  finally show ?thesis using assms by (simp add: take_bit_int_eq_self_iff)
qed

lemma bits_constant_iff:
  "(\<forall>k \<ge> f. bit V k \<longleftrightarrow> V < 0) \<longleftrightarrow> - (2 ^ f) \<le> V \<and> V < (2 ^ f :: int)"
proof (cases "V < 0")
  case True
  have "(\<forall>k \<ge> f. bit V k) \<longleftrightarrow> (\<forall>k \<ge> f. \<not> bit (NOT V) k)" by (simp add: bit_not_iff)
  also have "\<dots> \<longleftrightarrow> NOT V < 2 ^ f" using True by (intro high_bits_clear_iff) (simp add: not_int_def)
  also have "\<dots> \<longleftrightarrow> - (2 ^ f) \<le> V" by (auto simp: not_int_def)
  moreover have "V < 2 ^ f" using True by (rule less_trans) simp
  ultimately show ?thesis using True by simp
next
  case False
  then have "- (2 ^ f) \<le> V" by (intro order_trans [of "- (2 ^ f)" 0 V]) simp_all
  then show ?thesis using high_bits_clear_iff [of V f] False by simp
qed

definition wide_low :: "bool \<Rightarrow> nat \<Rightarrow> int" where
  "wide_low is_signed n = (if is_signed then - (2 ^ (n - 1)) else 0)"

definition wide_high :: "bool \<Rightarrow> nat \<Rightarrow> int" where
  "wide_high is_signed n = (if is_signed then 2 ^ (n - 1) else 2 ^ n)"

lemma wrap_to_self: "wide_low is_signed n \<le> k \<Longrightarrow> k < wide_high is_signed n \<Longrightarrow> wrap_to is_signed n k = k"
  by (auto simp: wide_low_def wide_high_def wrap_to_def signed_take_bit_int_eq_self take_bit_int_eq_self split: if_splits)

lemma shifted_value_negative:
  assumes "ws \<noteq> []"
  shows "shifted_value is_signed ws < 0 \<longleftrightarrow> is_signed \<and> sint (last ws) < 0"
proof (cases is_signed)
  case True
  have "shifted_value True ws < 0 \<longleftrightarrow> bit (words_int ws) (64 * length ws - 1)"
    by (simp add: shifted_value_def signed_take_bit_negative_iff)
  also have "\<dots> \<longleftrightarrow> sint (last ws) < 0" by (simp only: top_bit_words [OF assms, symmetric] drop_bit_63_iff)
  finally show ?thesis using True by simp
next
  case False
  have "0 \<le> words_int ws" by simp
  then show ?thesis using False by (simp add: shifted_value_def del: words_int_nonneg)
qed

text \<open>The four limbs a cast works on: the source's bits, sign-extended.\<close>

lemma extended_words_value:
  assumes "source \<noteq> []" "length source \<le> 4" and f: "f \<longleftrightarrow> source_signed \<and> sint (last source) < 0"
  shows "words_int (map (\<lambda>i. if i < length source then source ! i else if f then -1 else 0) [0..<4])
    = take_bit 256 (shifted_value source_signed source)"
proof (rule bit_eqI)
  fix k
  show "bit (words_int (map (\<lambda>i. if i < length source then source ! i else if f then -1 else 0) [0..<4])) k
    \<longleftrightarrow> bit (take_bit 256 (shifted_value source_signed source)) k"
  proof (cases "k < 256")
    case True
    then have "k div 64 < 4" by (simp add: less_mult_imp_div_less)
    moreover have "k div 64 < length source \<longleftrightarrow> k < 64 * length source"
      by (simp add: div_less_iff_less_mult mult.commute)
    ultimately show ?thesis using True f
      by (simp add: bit_words_int bit_take_bit_iff bit_shifted_value [OF assms(1)] drop_bit_63_iff)
  qed (simp add: bit_words_int bit_take_bit_iff)
qed

lemma word_bit_iff: "i < 64 * length ws \<Longrightarrow> word_bit ws i \<noteq> 0 \<longleftrightarrow> bit (words_int ws) i"
  using word_bit_value [of i ws] by (simp add: bit_iff_odd odd_iff_mod_2_eq_one uint_0_iff [symmetric])

lemma cast_words_value:
  fixes source destination_bits destination_signed source_signed
  defines "V \<equiv> shifted_value source_signed source"
  assumes "source \<noteq> []" "length source \<le> 4" "0 < destination_bits" "destination_bits \<le> 256"
  shows "gray_wide_cast_words source source_signed destination_bits destination_signed =
     (if wide_low destination_signed destination_bits \<le> V \<and> V < wide_high destination_signed destination_bits
      then Inr (map (\<lambda>i. if i < length source then source ! i else if V < 0 then -1 else 0) [0..<4])
      else Inl ''P0138'')"
proof -
  define first where "first = (if destination_signed then destination_bits - 1 else destination_bits)"
  have neg: "V < 0 \<longleftrightarrow> source_signed \<and> sint (last source) < 0"
    unfolding V_def by (rule shifted_value_negative [OF assms(2)])
  let ?out = "map (\<lambda>i. if i < length source then source ! i else if V < 0 then -1 else 0) [0..<4]"
  have bits: "word_bit ?out k \<noteq> 0 \<longleftrightarrow> bit V k" if "k < 256" for k
    using that extended_words_value [OF assms(2,3) neg] unfolding V_def [symmetric]
    by (subst word_bit_iff) (simp_all add: bit_take_bit_iff)
  have high: "bit V k \<longleftrightarrow> V < 0" if "256 \<le> k" for k
  proof -
    have "\<not> k < 64 * length source" using that assms(3) by simp
    then show ?thesis unfolding neg unfolding V_def bit_shifted_value [OF assms(2)] drop_bit_63_iff by simp
  qed
  have "list_all (\<lambda>k. (word_bit ?out k \<noteq> 0) = (V < 0)) [first..<256] \<longleftrightarrow> (\<forall>k \<ge> first. bit V k \<longleftrightarrow> V < 0)"
    using bits high by (auto simp: list_all_iff)
  also have "\<dots> \<longleftrightarrow> - (2 ^ first) \<le> V \<and> V < 2 ^ first" by (rule bits_constant_iff)
  finally have scan: "list_all (\<lambda>k. (word_bit ?out k \<noteq> 0) = (V < 0)) [first..<256] \<longleftrightarrow> - (2 ^ first) \<le> V \<and> V < 2 ^ first" .
  have "(\<not> V < 0 \<or> destination_signed) \<and> list_all (\<lambda>k. (word_bit ?out k \<noteq> 0) = (V < 0)) [first..<256] \<longleftrightarrow>
      wide_low destination_signed destination_bits \<le> V \<and> V < wide_high destination_signed destination_bits"
  proof (cases destination_signed)
    case False
    have "- (2 ^ first) \<le> V" if "0 \<le> V" by (rule order_trans [OF _ that]) simp
    then show ?thesis using False unfolding scan by (auto simp: first_def wide_low_def wide_high_def)
  qed (unfold scan, simp add: first_def wide_low_def wide_high_def)
  then show ?thesis
    unfolding gray_wide_cast_words_def Let_def neg [symmetric] first_def [symmetric] by auto
qed

text \<open>A cast returns the same integer, or panics when the destination cannot hold it.\<close>

lemma wide_cast_value:
  assumes source: "length (source_words v) = n" "0 < n" "n \<le> 4"
    and target: "\<And>ws. length ws = 4 \<Longrightarrow> ival (of_words ws) = shifted_value destination_signed (take m ws)"
      "0 < m" "m \<le> 4"
    and N: "N = 64 * m"
  shows "exact_or_panic ival (wide_low destination_signed N) (wide_high destination_signed N) ''P0138''
    (shifted_value source_signed (source_words v)) (wide_cast source_words source_signed of_words N destination_signed v)"
proof -
  let ?V = "shifted_value source_signed (source_words v)"
  let ?out = "map (\<lambda>i. if i < length (source_words v) then source_words v ! i else if ?V < 0 then -1 else 0) [0..<4]"
  have ne: "source_words v \<noteq> []" using source by auto
  have le: "length (source_words v) \<le> 4" using source by simp
  have "words_int ?out = take_bit 256 ?V"
    by (rule extended_words_value [OF ne le shifted_value_negative [OF ne]])
  moreover have "words_int ?out = words_int (take m ?out) + 2 ^ N * words_int (drop m ?out)"
    using words_int_append [of "take m ?out" "drop m ?out"] target(3) N by (simp only: append_take_drop_id length_take) (simp add: min_def)
  then have "words_int (take m ?out) = take_bit N (words_int ?out)"
    using words_int_less [of "take m ?out"] target(3) N
    by (intro take_bit_unique [where z = "- words_int (drop m ?out)"]) (simp_all add: min_def)
  ultimately have "words_int (take m ?out) = take_bit N ?V" using target(3) N by simp
  then have out: "ival (of_words ?out) = wrap_to destination_signed N ?V"
    using target shifted_value_wrap [of "take m ?out" m ?V destination_signed] N by (simp add: min_def)
  have "0 < N" "N \<le> 256" using target N by auto
  note cast = cast_words_value [OF ne le this, of source_signed destination_signed]
  show ?thesis
  proof (cases "wide_low destination_signed N \<le> ?V \<and> ?V < wide_high destination_signed N")
    case True
    then have "wide_cast source_words source_signed of_words N destination_signed v = Inr (of_words ?out)"
      unfolding wide_cast_def cast if_P [OF True] by simp
    then show ?thesis using True out wrap_to_self [of destination_signed N ?V] by (simp add: exact_or_panic_def del: upt.simps)
  next
    case False
    then show ?thesis unfolding exact_or_panic_def if_not_P [OF False] wide_cast_def cast by simp
  qed
qed

subsection \<open>The four types as limb arrays\<close>

lemma u128_value_words: "u128_int v = shifted_value False (u128_words v)"
  by (simp add: u128_int_def u128_words_def shifted_value_def)

lemma i128_value_words: "i128_int v = shifted_value True (i128_words v)"
  by (simp add: i128_int_bits shifted_value_def i128_words_def u128_int_def gray_u128_from_i128_def)

lemma u256_value_words: "u256_int v = shifted_value False (u256_words v)"
  by (simp add: u256_int_def shifted_value_def)

lemma i256_value_words: "i256_int v = shifted_value True (i256_words v)"
  by (simp add: i256_int_bits shifted_value_def u256_int_def)

lemma length_2_cases:
  assumes "length ws = 2"
  obtains a b where "ws = [a, b]"
proof -
  have "length ws = Suc (Suc 0)" using assms by simp
  then show ?thesis using that by (auto simp only: length_Suc_conv length_0_conv)
qed

lemma words128_of_words:
  "length ws = 2 \<Longrightarrow> u128_words (u128_of_words ws) = ws"
  "length ws = 2 \<Longrightarrow> i128_words (i128_of_words ws) = ws"
  by (erule length_2_cases, simp add: u128_words_def u128_of_words_def i128_words_def i128_of_words_def)+

interpretation u128_bits: limb_array u128_words u128_of_words 2 False u128_int
  by unfold_locales (simp_all add: u128_words_def words128_of_words u128_value_words [unfolded u128_words_def]
      words128_of_words [unfolded u128_words_def])

interpretation i128_bits: limb_array i128_words i128_of_words 2 True i128_int
  by unfold_locales (simp_all add: i128_words_def i128_value_words [unfolded i128_words_def]
      words128_of_words [unfolded i128_words_def])

interpretation u256_bits: limb_array u256_words u256_of_words 4 False u256_int
  by unfold_locales (simp_all add: u256_value_words)

interpretation i256_bits: limb_array i256_words i256_of_words 4 True i256_int
  by unfold_locales (simp_all add: i256_value_words)

text \<open>The struct a cast builds from the first limbs of the four.\<close>

lemma cast_target:
  assumes "length ws = 4"
  shows "u128_int (u128_of_words ws) = shifted_value False (take 2 ws)"
    "i128_int (i128_of_words ws) = shifted_value True (take 2 ws)"
    "u256_int (u256_of_words ws) = shifted_value False (take 4 ws)"
    "i256_int (i256_of_words ws) = shifted_value True (take 4 ws)"
  using assms
  by (simp_all add: u256_value_words i256_value_words)
     (erule length_4_cases, simp add: u128_value_words i128_value_words u128_words_def i128_words_def
        u128_of_words_def i128_of_words_def)+

lemma words_lengths [simp]: "length (u128_words v) = 2" "length (i128_words w) = 2"
  by (simp_all add: u128_words_def i128_words_def)

lemma cast_to_i128:
  assumes "length (source_words v) = n" "0 < n" "n \<le> 4"
  shows "exact_or_panic i128_int (- (2 ^ 127)) (2 ^ 127) ''P0138'' (shifted_value source_signed (source_words v))
    (wide_cast source_words source_signed i128_of_words 128 True v)"
proof -
  have "exact_or_panic i128_int (wide_low True 128) (wide_high True 128) ''P0138''
    (shifted_value source_signed (source_words v)) (wide_cast source_words source_signed i128_of_words 128 True v)"
    using assms by (rule wide_cast_value [where m = 2]) (simp_all add: cast_target)
  then show ?thesis by (simp add: wide_low_def wide_high_def)
qed

lemma cast_to_u128:
  assumes "length (source_words v) = n" "0 < n" "n \<le> 4"
  shows "exact_or_panic u128_int 0 (2 ^ 128) ''P0138'' (shifted_value source_signed (source_words v))
    (wide_cast source_words source_signed u128_of_words 128 False v)"
proof -
  have "exact_or_panic u128_int (wide_low False 128) (wide_high False 128) ''P0138''
    (shifted_value source_signed (source_words v)) (wide_cast source_words source_signed u128_of_words 128 False v)"
    using assms by (rule wide_cast_value [where m = 2]) (simp_all add: cast_target)
  then show ?thesis by (simp add: wide_low_def wide_high_def)
qed

lemma cast_to_i256:
  assumes "length (source_words v) = n" "0 < n" "n \<le> 4"
  shows "exact_or_panic i256_int (- (2 ^ 255)) (2 ^ 255) ''P0138'' (shifted_value source_signed (source_words v))
    (wide_cast source_words source_signed i256_of_words 256 True v)"
proof -
  have "exact_or_panic i256_int (wide_low True 256) (wide_high True 256) ''P0138''
    (shifted_value source_signed (source_words v)) (wide_cast source_words source_signed i256_of_words 256 True v)"
    using assms by (rule wide_cast_value [where m = 4]) (simp_all add: cast_target)
  then show ?thesis by (simp add: wide_low_def wide_high_def)
qed

lemma cast_to_u256:
  assumes "length (source_words v) = n" "0 < n" "n \<le> 4"
  shows "exact_or_panic u256_int 0 (2 ^ 256) ''P0138'' (shifted_value source_signed (source_words v))
    (wide_cast source_words source_signed u256_of_words 256 False v)"
proof -
  have "exact_or_panic u256_int (wide_low False 256) (wide_high False 256) ''P0138''
    (shifted_value source_signed (source_words v)) (wide_cast source_words source_signed u256_of_words 256 False v)"
    using assms by (rule wide_cast_value [where m = 4]) (simp_all add: cast_target)
  then show ?thesis by (simp add: wide_low_def wide_high_def)
qed

lemma casts_from_i128:
  "exact_or_panic u128_int 0 (2 ^ 128) ''P0138'' (i128_int v) (gray_cast_i128_to_u128 v)"
  "exact_or_panic i256_int (- (2 ^ 255)) (2 ^ 255) ''P0138'' (i128_int v) (gray_cast_i128_to_i256 v)"
  "exact_or_panic u256_int 0 (2 ^ 256) ''P0138'' (i128_int v) (gray_cast_i128_to_u256 v)"
  unfolding gray_cast_i128_to_u128_def gray_cast_i128_to_i256_def gray_cast_i128_to_u256_def i128_value_words
  by - (rule cast_to_u128 cast_to_i256 cast_to_u256, simp, simp, simp)+

lemma casts_from_u128:
  "exact_or_panic i128_int (- (2 ^ 127)) (2 ^ 127) ''P0138'' (u128_int v) (gray_cast_u128_to_i128 v)"
  "exact_or_panic i256_int (- (2 ^ 255)) (2 ^ 255) ''P0138'' (u128_int v) (gray_cast_u128_to_i256 v)"
  "exact_or_panic u256_int 0 (2 ^ 256) ''P0138'' (u128_int v) (gray_cast_u128_to_u256 v)"
  unfolding gray_cast_u128_to_i128_def gray_cast_u128_to_i256_def gray_cast_u128_to_u256_def u128_value_words
  by - (rule cast_to_i128 cast_to_i256 cast_to_u256, simp, simp, simp)+

lemma casts_from_i256:
  "exact_or_panic i128_int (- (2 ^ 127)) (2 ^ 127) ''P0138'' (i256_int v) (gray_cast_i256_to_i128 v)"
  "exact_or_panic u128_int 0 (2 ^ 128) ''P0138'' (i256_int v) (gray_cast_i256_to_u128 v)"
  "exact_or_panic u256_int 0 (2 ^ 256) ''P0138'' (i256_int v) (gray_cast_i256_to_u256 v)"
  unfolding gray_cast_i256_to_i128_def gray_cast_i256_to_u128_def gray_cast_i256_to_u256_def i256_value_words
  by - (rule cast_to_i128 cast_to_u128 cast_to_u256, simp, simp, simp)+

lemma casts_from_u256:
  "exact_or_panic i128_int (- (2 ^ 127)) (2 ^ 127) ''P0138'' (u256_int v) (gray_cast_u256_to_i128 v)"
  "exact_or_panic u128_int 0 (2 ^ 128) ''P0138'' (u256_int v) (gray_cast_u256_to_u128 v)"
  "exact_or_panic i256_int (- (2 ^ 255)) (2 ^ 255) ''P0138'' (u256_int v) (gray_cast_u256_to_i256 v)"
  unfolding gray_cast_u256_to_i128_def gray_cast_u256_to_u128_def gray_cast_u256_to_i256_def u256_value_words
  by - (rule cast_to_i128 cast_to_u128 cast_to_i256, simp, simp, simp)+

lemma casts_from_i64:
  "exact_or_panic u128_int 0 (2 ^ 128) ''P0138'' (sint v) (gray_cast_i64_to_u128 v)"
  "exact_or_panic u256_int 0 (2 ^ 256) ''P0138'' (sint v) (gray_cast_i64_to_u256 v)"
proof -
  have "sint v < 2 ^ 128" "sint v < 2 ^ 256" using sint64_bounds(2) [of v] by (rule less_trans, simp)+
  then show "exact_or_panic u128_int 0 (2 ^ 128) ''P0138'' (sint v) (gray_cast_i64_to_u128 v)"
    "exact_or_panic u256_int 0 (2 ^ 256) ''P0138'' (sint v) (gray_cast_i64_to_u256 v)"
    using sint64_cases(2) [of v]
    by (auto simp: exact_or_panic_def gray_cast_i64_to_u128_def gray_cast_i64_to_u256_def not_less)
qed

end
