(* ===== verification/Size_Casts.thy ===== *)
theory Size_Casts
  imports Wide_Bitwise_Values
begin

text \<open>
  Conversions between the wide types and the 64-bit scalars (\<open>bigint.h\<close>): widening keeps the
  value; narrowing returns the same integer or panics with the cast's own code.
\<close>

lemma uint_minus_one_64: "uint (- 1 :: u64) = 18446744073709551615"
  by (simp add: unsigned_minus_1_eq_mask mask_eq_exp_minus_1)

lemma widening_values:
  "i128_int (gray_i128_from_i64 w) = sint w"
  "i128_int (gray_i128_from_u64 w) = uint w"
  "u128_int (gray_u128_from_u64 w) = uint w"
  "i256_int (gray_i256_from_i64 w) = sint w"
  "i256_int (gray_i256_from_u64 w) = uint w"
  "u256_int (gray_u256_from_u64 w) = uint w"
  using sint64_cases [of w] uint_minus_one_64
  by (auto simp: i128_int_def gray_i128_from_i64_def gray_i128_from_u64_def i256_int_def
      gray_i256_from_i64_def gray_i256_from_u64_def i256_of_words_def Let_def)

lemma wide_to_wide_values:
  "i256_int (gray_i256_from_i128 v) = i128_int v"
  "u256_int (gray_u256_from_u128 u) = u128_int u"
  using sint64_cases [of "i128_high v"] uint_minus_one_64
  by (auto simp: i128_int_def i256_int_def u256_int_def u128_int_def gray_i256_from_i128_def
      gray_u256_from_u128_def i256_of_words_def u256_of_words_def u256_words_def Let_def)

lemma sign_extension_limb: "signed_drop_bit 63 (w :: i64) = (if sint w < 0 then -1 else 0)"
proof -
  have "sint (signed_drop_bit 63 w) = drop_bit 63 (sint w)" by (rule sint_signed_drop_bit_eq)
  also have "\<dots> = (if sint w < 0 then -1 else 0)"
    using sint64_bounds [of w] by (auto simp: drop_bit_eq_div intro: div_pos_pos_trivial div_pos_neg_trivial)
  also have "\<dots> = sint (if sint w < 0 then -1 else 0 :: i64)" by simp
  finally show ?thesis by (rule iffD2 [OF word_eq_iff_signed])
qed

lemma INT64_MAX_iff: "INT64_MAX < w \<longleftrightarrow> drop_bit 63 w \<noteq> 0"
proof -
  have "drop_bit 63 w \<noteq> 0 \<longleftrightarrow> \<not> uint w < 2 ^ 63"
    using drop_bit_63_iff [of w] sint64_nonneg_iff [of w] by auto
  then show ?thesis by (auto simp: INT64_MAX_def word_less_def)
qed

text \<open>A wide value whose upper limbs are zero is its low limb.\<close>

lemma upper_zero_iff:
  assumes "ws \<noteq> []"
  shows "list_all (\<lambda>u. u = 0) ws \<longleftrightarrow> 0 \<le> shifted_value f (w # ws) \<and> shifted_value f (w # ws) < 2 ^ 64"
    "list_all (\<lambda>u. u = 0) ws \<Longrightarrow> shifted_value f (w # ws) = uint w"
proof -
  let ?N = "64 * Suc (length ws)"
  obtain W where W: "uint w = W" "0 \<le> W" "W < 2 ^ 64" by (rule limb_cases)
  have z: "list_all (\<lambda>u. u = 0) ws \<longleftrightarrow> words_int ws = 0" by (simp add: words_int_zero_iff list_all_iff)
  obtain R where R: "words_int ws = R" "0 \<le> R" by simp
  have u: "words_int (w # ws) < 2 ^ 64 \<longleftrightarrow> words_int ws = 0"
    unfolding words_int.simps W(1) R(1) using W(2,3) R(2) by (cases "R = 0") simp_all
  show v: "shifted_value f (w # ws) = uint w" if a: "list_all (\<lambda>u. u = 0) ws"
  proof -
    have "last ws = 0" using a assms by (auto simp: list_all_iff)
    then have "\<not> shifted_value f (w # ws) < 0" using shifted_value_negative [of "w # ws" f] assms by simp
    moreover have "shifted_value f (w # ws) < 2 ^ ?N"
      using shifted_value_bounds(2) [of "w # ws"] shifted_value_bounds(4) [of "w # ws"]
      by (cases f) (auto intro: less_trans simp del: power_Suc mult_Suc_right)
    ultimately have "words_int (w # ws) = shifted_value f (w # ws)"
      using words_int_take_bit [of "w # ws" f] by (simp add: take_bit_int_eq_self del: words_int.simps)
    then show ?thesis using a by (simp add: z)
  qed
  show "list_all (\<lambda>u. u = 0) ws \<longleftrightarrow> 0 \<le> shifted_value f (w # ws) \<and> shifted_value f (w # ws) < 2 ^ 64"
  proof
    assume r: "0 \<le> shifted_value f (w # ws) \<and> shifted_value f (w # ws) < 2 ^ 64"
    moreover have "(2 :: int) ^ 64 \<le> 2 ^ ?N" by (rule power_increasing) simp_all
    ultimately have "shifted_value f (w # ws) < 2 ^ ?N" by (elim conjE less_le_trans)
    then have "words_int (w # ws) = shifted_value f (w # ws)"
      using r words_int_take_bit [of "w # ws" f] by (simp add: take_bit_int_eq_self del: words_int.simps)
    then show "list_all (\<lambda>u. u = 0) ws" using r u z by simp
  qed (use v in simp)
qed

lemma narrowing_i64:
  "exact_or_panic sint (- (2 ^ 63)) (2 ^ 63) ''P0093'' (i128_int v) (gray_i128_to_i64 v)"
  "exact_or_panic sint (- (2 ^ 63)) (2 ^ 63) ''P0095'' (u128_int u) (gray_u128_to_i64 u)"
  "exact_or_panic sint (- (2 ^ 63)) (2 ^ 63) ''P0097'' (i256_int x) (gray_i256_to_i64 x)"
  "exact_or_panic sint (- (2 ^ 63)) (2 ^ 63) ''P0099'' (u256_int y) (gray_u256_to_i64 y)"
proof -
  have "gray_i128_to_i64 v = (if i128_int v = sint (i128_low v) then Inr (i128_low v) else Inl ''P0093'')"
    using signed_fits_iff [of "i128_low v" "[i128_high v]"]
    by (simp add: gray_i128_to_i64_def sign_extension_limb i128_value_words i128_words_def)
  moreover have "- (2 ^ 63) \<le> i128_int v \<and> i128_int v < 2 ^ 63 \<longleftrightarrow> i128_int v = sint (i128_low v)"
    by (rule in_range_iff_low_limb) (simp add: i128_value_words i128_words_def)
  ultimately show "exact_or_panic sint (- (2 ^ 63)) (2 ^ 63) ''P0093'' (i128_int v) (gray_i128_to_i64 v)"
    by (simp only: exact_or_panic_def) simp
  have "gray_i256_to_i64 x = (if i256_int x = sint (i256_w0 x) then Inr (i256_w0 x) else Inl ''P0097'')"
    using signed_fits_iff [of "i256_w0 x" "[i256_w1 x, i256_w2 x, i256_w3 x]"]
    unfolding gray_i256_to_i64_def Let_def sign_extension_limb i256_value_words i256_words_def by auto
  moreover have "- (2 ^ 63) \<le> i256_int x \<and> i256_int x < 2 ^ 63 \<longleftrightarrow> i256_int x = sint (i256_w0 x)"
    by (rule in_range_iff_low_limb) (simp add: i256_value_words i256_words_def)
  ultimately show "exact_or_panic sint (- (2 ^ 63)) (2 ^ 63) ''P0097'' (i256_int x) (gray_i256_to_i64 x)"
    by (simp only: exact_or_panic_def) simp
  have "- (2 ^ 63) \<le> u128_int u" using u128_int_bounds(1) [of u] by (rule order_trans [rotated]) simp
  then show "exact_or_panic sint (- (2 ^ 63)) (2 ^ 63) ''P0095'' (u128_int u) (gray_u128_to_i64 u)"
    using unsigned_fits_iff [of "u128_low u" "[u128_high u]"]
    unfolding exact_or_panic_def gray_u128_to_i64_def INT64_MAX_iff u128_int_def by (auto simp del: words_int.simps)
  have "- (2 ^ 63) \<le> u256_int y" using u256_int_bounds(1) [of y] by (rule order_trans [rotated]) simp
  then show "exact_or_panic sint (- (2 ^ 63)) (2 ^ 63) ''P0099'' (u256_int y) (gray_u256_to_i64 y)"
    using unsigned_fits_iff [of "u256_w0 y" "[u256_w1 y, u256_w2 y, u256_w3 y]"]
    unfolding exact_or_panic_def gray_u256_to_i64_def INT64_MAX_iff u256_int_def u256_words_def by (auto simp del: words_int.simps)
qed

lemma narrowing_u64:
  "exact_or_panic uint 0 (2 ^ 64) ''P0094'' (i128_int v) (gray_i128_to_u64 v)"
  "exact_or_panic uint 0 (2 ^ 64) ''P0096'' (u128_int u) (gray_u128_to_u64 u)"
  "exact_or_panic uint 0 (2 ^ 64) ''P0098'' (i256_int x) (gray_i256_to_u64 x)"
  "exact_or_panic uint 0 (2 ^ 64) ''P0100'' (u256_int y) (gray_u256_to_u64 y)"
  using upper_zero_iff [of "[i128_high v]" True "i128_low v"]
    upper_zero_iff [of "[u128_high u]" False "u128_low u"]
    upper_zero_iff [of "[i256_w1 x, i256_w2 x, i256_w3 x]" True "i256_w0 x"]
    upper_zero_iff [of "[u256_w1 y, u256_w2 y, u256_w3 y]" False "u256_w0 y"]
  by (auto simp: exact_or_panic_def i128_value_words u128_value_words i256_value_words u256_value_words
      i128_words_def u128_words_def i256_words_def u256_words_def gray_i128_to_u64_def gray_u128_to_u64_def
      gray_i256_to_u64_def gray_u256_to_u64_def)

end
