(* ===== verification/Wide_Ranges.thy ===== *)
theory Wide_Ranges
  imports Size_Casts
begin

text \<open>
  Range loops and stored \<open>range()\<close> values (end of \<open>bigint.h\<close>): the saturating step of a
  range loop, \<open>GrayRange_i64\<close>, and the struct and helpers the macro \<open>GRAY_DEFINE_WIDE_RANGE\<close>
  generates for \<open>u64\<close>, \<open>i128\<close>, \<open>u128\<close>, \<open>i256\<close> and \<open>u256\<close>. The macro's body is stated over the
  record of the functions it names; \<open>range_arith\<close> is their contract.
\<close>

subsection \<open>Range loop step\<close>

definition unsigned_range_advance :: "('u \<Rightarrow> 'u \<Rightarrow> 'u) \<Rightarrow> ('u \<Rightarrow> 'u \<Rightarrow> bool) \<Rightarrow> 'u \<Rightarrow> 'u \<Rightarrow> 'u \<Rightarrow> 'u" where
  "unsigned_range_advance add lt value step stop =
     (let result = add value step in if lt result value then stop else result)"

definition signed_range_advance :: "('s \<Rightarrow> 's \<Rightarrow> 's) \<Rightarrow> ('s \<Rightarrow> bool) \<Rightarrow> 's \<Rightarrow> 's \<Rightarrow> 's \<Rightarrow> 's" where
  "signed_range_advance add is_neg value step stop =
     (let result = add value step
      in if (\<not> is_neg value \<and> \<not> is_neg step \<and> is_neg result) \<or> (is_neg value \<and> is_neg step \<and> \<not> is_neg result)
         then stop else result)"

definition gray_i128_range_advance :: "gray_i128 \<Rightarrow> gray_i128 \<Rightarrow> gray_i128 \<Rightarrow> gray_i128" where
  "gray_i128_range_advance = signed_range_advance gray_i128_add i128_is_neg"

definition gray_u128_range_advance :: "gray_u128 \<Rightarrow> gray_u128 \<Rightarrow> gray_u128 \<Rightarrow> gray_u128" where
  "gray_u128_range_advance = unsigned_range_advance gray_u128_add gray_u128_lt"

definition gray_i256_range_advance :: "gray_i256 \<Rightarrow> gray_i256 \<Rightarrow> gray_i256 \<Rightarrow> gray_i256" where
  "gray_i256_range_advance = signed_range_advance gray_i256_add gray_i256_is_neg"

definition gray_u256_range_advance :: "gray_u256 \<Rightarrow> gray_u256 \<Rightarrow> gray_u256 \<Rightarrow> gray_u256" where
  "gray_u256_range_advance = unsigned_range_advance gray_u256_add gray_u256_lt"

text \<open>The step is the checked addition with the stop in place of the panic.\<close>

lemma signed_range_advance_checked:
  "signed_range_advance add is_neg v step stop =
     (case signed_add_checked add is_neg code v step of Inl _ \<Rightarrow> stop | Inr c \<Rightarrow> c)"
  by (simp add: signed_range_advance_def signed_add_checked_def Let_def)

lemma unsigned_range_advance_checked:
  "unsigned_range_advance add lt v step stop =
     (case unsigned_add_checked add lt code v step of Inl _ \<Rightarrow> stop | Inr c \<Rightarrow> c)"
  by (simp add: unsigned_range_advance_def unsigned_add_checked_def Let_def)

lemma exact_or_panic_saturates:
  assumes "exact_or_panic val lo hi code exact m"
  shows "val (case m of Inl _ \<Rightarrow> stop | Inr c \<Rightarrow> c) = (if lo \<le> exact \<and> exact < hi then exact else val stop)"
  using assms by (auto simp: exact_or_panic_def split: sum.splits if_splits)



context wide_unsigned
begin

lemmas range_advance_val = exact_or_panic_saturates [OF add_checked, folded unsigned_range_advance_checked]

end

context wide_signed
begin

lemmas range_advance_sval = exact_or_panic_saturates [OF sadd_checked, folded signed_range_advance_checked]

end

subsection \<open>The members of a range\<close>

text \<open>
  The reference: the terms of the arithmetic progression from \<open>start\<close> by \<open>step\<close> that lie before
  \<open>stop\<close> in the direction of the step.
\<close>

definition before_stop :: "int \<Rightarrow> int \<Rightarrow> int \<Rightarrow> bool" where
  "before_stop step stop v = (if 0 < step then v < stop else stop < v)"

definition range_members :: "int \<Rightarrow> int \<Rightarrow> int \<Rightarrow> int set" where
  "range_members start stop step = {start + int i * step | i. before_stop step stop (start + int i * step)}"

definition range_count :: "int \<Rightarrow> int \<Rightarrow> int \<Rightarrow> int" where
  "range_count start stop step =
     (if 0 < step then (if start < stop then (stop - start - 1) div step + 1 else 0)
      else (if stop < start then (start - stop - 1) div (- step) + 1 else 0))"

lemma less_count_iff:
  assumes "0 < (s :: int)" "0 < d"
  shows "k * s < d \<longleftrightarrow> k < (d - 1) div s + 1"
proof -
  have "k * s < d \<longleftrightarrow> k * s \<le> d - 1" by linarith
  also have "\<dots> \<longleftrightarrow> k \<le> (d - 1) div s" 
  proof
    assume "k * s \<le> d - 1"
    then have "k * s div s \<le> (d - 1) div s" using assms(1) by (rule zdiv_mono1)
    then show "k \<le> (d - 1) div s" using assms(1) by simp
  next
    assume "k \<le> (d - 1) div s"
    then have "k * s \<le> (d - 1) div s * s" using assms(1) by (intro mult_right_mono) simp_all
    also have "\<dots> \<le> d - 1" using div_mult_mod_eq [of "d - 1" s] pos_mod_sign [OF assms(1), of "d - 1"] by linarith
    finally show "k * s \<le> d - 1" .
  qed
  finally show ?thesis by linarith
qed

lemma before_stop_index:
  assumes "step \<noteq> 0"
  shows "before_stop step stop (start + int i * step) \<longleftrightarrow> int i < range_count start stop step"
proof (cases "0 < step")
  case True
  show ?thesis
  proof (cases "start < stop")
    case inside: True
    show ?thesis using less_count_iff [of step "stop - start" "int i"] True inside
      by (auto simp: before_stop_def range_count_def algebra_simps)
  next
    case False
    moreover have "0 \<le> int i * step" using True by simp
    ultimately have "\<not> start + int i * step < stop" by linarith
    then show ?thesis using True False by (simp add: before_stop_def range_count_def)
  qed
next
  case False
  then have neg: "0 < - step" using assms by simp
  show ?thesis
  proof (cases "stop < start")
    case inside: True
    have "stop < start + int i * step \<longleftrightarrow> int i * (- step) < start - stop" by (simp add: algebra_simps)
    then show ?thesis using less_count_iff [OF neg, of "start - stop" "int i"] False inside
      by (simp add: before_stop_def range_count_def)
  next
    case outside: False
    moreover have "0 \<le> int i * (- step)" using neg by (intro mult_nonneg_nonneg) simp_all
    then have "int i * step \<le> 0" by simp
    ultimately have "\<not> stop < start + int i * step" by linarith
    then show ?thesis using False outside by (simp add: before_stop_def range_count_def)
  qed
qed

lemma range_count_nonneg: "step \<noteq> 0 \<Longrightarrow> 0 \<le> range_count start stop step"
  by (auto simp: range_count_def pos_imp_zdiv_nonneg_iff)

lemma card_range_members:
  assumes "step \<noteq> 0"
  shows "card (range_members start stop step) = nat (range_count start stop step)"
proof -
  have "range_members start stop step = (\<lambda>i. start + int i * step) ` {..<nat (range_count start stop step)}"
    using before_stop_index [OF assms] by (auto simp: range_members_def zless_nat_eq_int_zless)
  moreover have "inj_on (\<lambda>i. start + int i * step) {..<nat (range_count start stop step)}"
    using assms by (auto simp: inj_on_def)
  ultimately show ?thesis by (simp add: card_image)
qed

lemma range_members_iff:
  assumes "step \<noteq> 0"
  shows "v \<in> range_members start stop step \<longleftrightarrow>
     before_stop step stop v \<and> (if 0 < step then start \<le> v else v \<le> start) \<and> step dvd v - start"
proof (cases "step dvd v - start")
  case True
  then obtain k where k: "v = start + k * step" by (metis add.commute diff_add_cancel dvdE mult.commute)
  have "(if 0 < step then start \<le> v else v \<le> start) \<longleftrightarrow> 0 \<le> k"
    using assms unfolding k by (auto simp: zero_le_mult_iff mult_le_0_iff)
  moreover have "v \<in> range_members start stop step \<longleftrightarrow> 0 \<le> k \<and> before_stop step stop v"
    using assms by (auto simp: range_members_def k intro: exI [of _ "nat k"])
  ultimately show ?thesis using True by blast
next
  case False
  then show ?thesis by (auto simp: range_members_def)
qed

subsection \<open>Ranges over i64\<close>

record 'v gray_range =
  range_start :: 'v
  range_stop :: 'v
  range_step :: 'v

definition GrayRange_i64_has_zero_step :: "i64 gray_range \<Rightarrow> bool" where
  "GrayRange_i64_has_zero_step rng \<longleftrightarrow> range_step rng = 0"

definition GrayRange_i64_continues :: "i64 gray_range \<Rightarrow> i64 \<Rightarrow> bool" where
  "GrayRange_i64_continues rng value =
     (if 0 < sint (range_step rng) then sint value < sint (range_stop rng)
      else sint (range_stop rng) < sint value)"

text \<open>The remainder of a division by zero is a trap, not a panic of the runtime.\<close>

definition division_trap :: string where
  "division_trap = ''integer division by zero''"

definition u64_mod_trapping :: "u64 \<Rightarrow> u64 \<Rightarrow> u64 panicking" where
  "u64_mod_trapping a b = (if b = 0 then Inl division_trap else Inr (a mod b))"

definition GrayRange_i64_contains :: "i64 gray_range \<Rightarrow> i64 \<Rightarrow> bool panicking" where
  "GrayRange_i64_contains rng value =
     (let start = range_start rng; stop = range_stop rng; step = range_step rng
      in if 0 < sint step
         then if sint start \<le> sint value \<and> sint value < sint stop
              then bind_panic (u64_mod_trapping (value - start) step) (\<lambda>r. Inr (r = 0)) else Inr False
         else if sint value \<le> sint start \<and> sint stop < sint value
              then bind_panic (u64_mod_trapping (start - value) (0 - step)) (\<lambda>r. Inr (r = 0)) else Inr False)"

definition GrayRange_i64_len :: "i64 gray_range \<Rightarrow> i64 panicking" where
  "GrayRange_i64_len rng =
     (let start = range_start rng; stop = range_stop rng; step = range_step rng;
          count = (\<lambda>distance stride :: u64.
            let count = (distance - 1) div stride + 1
            in if INT64_MAX < count then Inl ''P0155'' else Inr count)
      in if step = 0 then Inl ''P0090''
         else if 0 < sint step
         then if sint stop \<le> sint start then Inr 0 else count (stop - start) step
         else if sint start \<le> sint stop then Inr 0 else count (start - stop) (0 - step))"

subsection \<open>Ranges over the other integer types\<close>

record 'v range_ops =
  op_from_u64 :: "u64 \<Rightarrow> 'v"
  op_eq :: "'v \<Rightarrow> 'v \<Rightarrow> bool"
  op_lt :: "'v \<Rightarrow> 'v \<Rightarrow> bool"
  op_le :: "'v \<Rightarrow> 'v \<Rightarrow> bool"
  op_gt :: "'v \<Rightarrow> 'v \<Rightarrow> bool"
  op_ge :: "'v \<Rightarrow> 'v \<Rightarrow> bool"
  op_add :: "'v \<Rightarrow> 'v \<Rightarrow> 'v"
  op_sub :: "'v \<Rightarrow> 'v \<Rightarrow> 'v"
  op_sub_checked :: "'v \<Rightarrow> 'v \<Rightarrow> 'v panicking"
  op_div :: "'v \<Rightarrow> 'v \<Rightarrow> 'v panicking"
  op_mod :: "'v \<Rightarrow> 'v \<Rightarrow> 'v panicking"
  op_to_i64 :: "'v \<Rightarrow> i64 panicking"

definition wide_range_has_zero_step :: "'v range_ops \<Rightarrow> 'v gray_range \<Rightarrow> bool" where
  "wide_range_has_zero_step ops rng = op_eq ops (range_step rng) (op_from_u64 ops 0)"

definition wide_range_continues :: "'v range_ops \<Rightarrow> 'v gray_range \<Rightarrow> 'v \<Rightarrow> bool" where
  "wide_range_continues ops rng value =
     (if op_gt ops (range_step rng) (op_from_u64 ops 0)
      then op_lt ops value (range_stop rng) else op_gt ops value (range_stop rng))"

definition wide_range_contains :: "'v range_ops \<Rightarrow> 'v gray_range \<Rightarrow> 'v \<Rightarrow> bool panicking" where
  "wide_range_contains ops rng value =
     (let zero = op_from_u64 ops 0;
          is_inside = (if op_gt ops (range_step rng) zero
            then op_ge ops value (range_start rng) \<and> op_lt ops value (range_stop rng)
            else op_le ops value (range_start rng) \<and> op_gt ops value (range_stop rng))
      in if is_inside
         then bind_panic (op_mod ops (op_sub ops value (range_start rng)) (range_step rng))
                (\<lambda>remainder. Inr (op_eq ops remainder zero))
         else Inr False)"

definition wide_range_len :: "'v range_ops \<Rightarrow> 'v gray_range \<Rightarrow> i64 panicking" where
  "wide_range_len ops rng =
     (let zero = op_from_u64 ops 0;
          one = op_from_u64 ops 1;
          start = range_start rng; stop = range_stop rng; step = range_step rng;
          count = (\<lambda>quotient.
            if op_ge ops quotient (op_from_u64 ops INT64_MAX) then Inl ''P0155''
            else bind_panic (op_to_i64 ops quotient) (\<lambda>n. Inr (n + 1)))
      in if op_eq ops step zero then Inl ''P0090''
         else if op_gt ops step zero
         then if op_ge ops start stop then Inr 0
              else bind_panic (op_sub_checked ops stop start) (\<lambda>distance.
                   bind_panic (op_sub_checked ops distance one) (\<lambda>last.
                   bind_panic (op_div ops last step) count))
         else if op_le ops start stop then Inr 0
              else bind_panic (op_sub_checked ops stop start) (\<lambda>distance.
                   bind_panic (op_div ops (op_add ops distance one) step) count))"

text \<open>\<open>u64\<close> has no wide struct; these are its versions of the functions the macro names.\<close>

definition gray_u64_sub_checked :: "u64 \<Rightarrow> u64 \<Rightarrow> u64 panicking" where
  "gray_u64_sub_checked left right = Inr (left - right)"

definition gray_u64_div :: "u64 \<Rightarrow> u64 \<Rightarrow> u64 panicking" where
  "gray_u64_div left right = (if right = 0 then Inl ''P0090'' else Inr (left div right))"

definition gray_u64_mod :: "u64 \<Rightarrow> u64 \<Rightarrow> u64 panicking" where
  "gray_u64_mod left right = (if right = 0 then Inl ''P0090'' else Inr (left mod right))"

definition gray_u64_to_i64 :: "u64 \<Rightarrow> i64 panicking" where
  "gray_u64_to_i64 value = (if INT64_MAX < value then Inl ''P0155'' else Inr value)"

definition gray_u64_range_advance :: "u64 \<Rightarrow> u64 \<Rightarrow> u64 \<Rightarrow> u64" where
  "gray_u64_range_advance = unsigned_range_advance (+) (<)"

definition range_ops_u64 :: "u64 range_ops" where
  "range_ops_u64 =
     \<lparr>op_from_u64 = (\<lambda>value. value), op_eq = (=), op_lt = (<), op_le = (\<le>),
      op_gt = (\<lambda>left right. right < left), op_ge = (\<lambda>left right. right \<le> left),
      op_add = (+), op_sub = (-), op_sub_checked = gray_u64_sub_checked, op_div = gray_u64_div,
      op_mod = gray_u64_mod, op_to_i64 = gray_u64_to_i64\<rparr>"

definition range_ops_i128 :: "gray_i128 range_ops" where
  "range_ops_i128 =
     \<lparr>op_from_u64 = gray_i128_from_u64, op_eq = gray_i128_eq, op_lt = gray_i128_lt, op_le = gray_i128_le,
      op_gt = gray_i128_gt, op_ge = gray_i128_ge, op_add = gray_i128_add, op_sub = gray_i128_sub,
      op_sub_checked = gray_i128_sub_checked, op_div = gray_i128_div, op_mod = gray_i128_mod,
      op_to_i64 = gray_i128_to_i64\<rparr>"

definition range_ops_u128 :: "gray_u128 range_ops" where
  "range_ops_u128 =
     \<lparr>op_from_u64 = gray_u128_from_u64, op_eq = gray_u128_eq, op_lt = gray_u128_lt, op_le = gray_u128_le,
      op_gt = gray_u128_gt, op_ge = gray_u128_ge, op_add = gray_u128_add, op_sub = gray_u128_sub,
      op_sub_checked = gray_u128_sub_checked, op_div = gray_u128_div, op_mod = gray_u128_mod,
      op_to_i64 = gray_u128_to_i64\<rparr>"

definition range_ops_i256 :: "gray_i256 range_ops" where
  "range_ops_i256 =
     \<lparr>op_from_u64 = gray_i256_from_u64, op_eq = gray_i256_eq, op_lt = gray_i256_lt, op_le = gray_i256_le,
      op_gt = gray_i256_gt, op_ge = gray_i256_ge, op_add = gray_i256_add, op_sub = gray_i256_sub,
      op_sub_checked = gray_i256_sub_checked, op_div = gray_i256_div, op_mod = gray_i256_mod,
      op_to_i64 = gray_i256_to_i64\<rparr>"

definition range_ops_u256 :: "gray_u256 range_ops" where
  "range_ops_u256 =
     \<lparr>op_from_u64 = gray_u256_from_u64, op_eq = gray_u256_eq, op_lt = gray_u256_lt, op_le = gray_u256_le,
      op_gt = gray_u256_gt, op_ge = gray_u256_ge, op_add = gray_u256_add, op_sub = gray_u256_sub,
      op_sub_checked = gray_u256_sub_checked, op_div = gray_u256_div, op_mod = gray_u256_mod,
      op_to_i64 = gray_u256_to_i64\<rparr>"

end
