(* ===== verification/Range_Values.thy ===== *)
theory Range_Values
  imports Wide_Ranges
begin

text \<open>
  What the range helpers compute: membership and length of the arithmetic progression. The
  locale \<open>range_arith\<close> is what the macro's body relies on; it is interpreted on the functions
  of all five types.
\<close>

lemma smod_zero_iff: "a smod b = 0 \<longleftrightarrow> b dvd (a :: int)"
proof -
  have "a smod b = 0 \<longleftrightarrow> \<bar>a\<bar> mod \<bar>b\<bar> = 0" by (auto simp: smod_int_alt_def sgn_if)
  then show ?thesis by (simp add: mod_eq_0_iff_dvd)
qed

lemma nonneg_sdiv: "0 \<le> a \<Longrightarrow> 0 < b \<Longrightarrow> a sdiv b = a div (b :: int)"
  by (auto simp: signed_divide_int_def sgn_if)

lemma nonneg_smod: "0 \<le> a \<Longrightarrow> 0 \<le> b \<Longrightarrow> a smod b = a mod (b :: int)"
  by (auto simp: smod_int_alt_def sgn_if)

locale range_arith =
  fixes ops :: "'v range_ops"
    and ival :: "'v \<Rightarrow> int"
    and lo hi :: int
  assumes lo_le: "lo \<le> 0" and hi_ge: "2 ^ 63 \<le> hi" and lo_hi: "- lo \<le> hi"
    and bounds: "lo \<le> ival v" "ival v < hi"
    and small: "uint w < 2 ^ 63 \<Longrightarrow> ival (op_from_u64 ops w) = uint w"
    and eq: "op_eq ops a b \<longleftrightarrow> ival a = ival b"
    and lt: "op_lt ops a b \<longleftrightarrow> ival a < ival b"
    and le: "op_le ops a b \<longleftrightarrow> ival a \<le> ival b"
    and gt: "op_gt ops a b \<longleftrightarrow> ival b < ival a"
    and ge: "op_ge ops a b \<longleftrightarrow> ival b \<le> ival a"
    and add: "lo \<le> ival a + ival b \<Longrightarrow> ival a + ival b < hi \<Longrightarrow> ival (op_add ops a b) = ival a + ival b"
    and sub: "lo \<le> ival a - ival b \<Longrightarrow> ival a - ival b < hi \<Longrightarrow> ival (op_sub ops a b) = ival a - ival b"
    and sub_checked: "lo \<le> ival a - ival b \<Longrightarrow> ival a - ival b < hi \<Longrightarrow>
          \<exists>c. op_sub_checked ops a b = Inr c \<and> ival c = ival a - ival b"
    and div: "ival b \<noteq> 0 \<Longrightarrow> lo \<le> ival a sdiv ival b \<Longrightarrow> ival a sdiv ival b < hi \<Longrightarrow>
          \<exists>q. op_div ops a b = Inr q \<and> ival q = ival a sdiv ival b"
    and mod: "ival b \<noteq> 0 \<Longrightarrow> \<exists>r. op_mod ops a b = Inr r \<and> ival r = ival a smod ival b"
    and to_i64: "0 \<le> ival v \<Longrightarrow> ival v < 2 ^ 63 \<Longrightarrow> \<exists>w. op_to_i64 ops v = Inr w \<and> sint w = ival v"
begin

abbreviation inside :: "'v gray_range \<Rightarrow> 'v \<Rightarrow> bool" where
  "inside rng v \<equiv> before_stop (ival (range_step rng)) (ival (range_stop rng)) (ival v) \<and>
     (if 0 < ival (range_step rng) then ival (range_start rng) \<le> ival v else ival v \<le> ival (range_start rng))"

lemma constants: "ival (op_from_u64 ops 0) = 0" "ival (op_from_u64 ops 1) = 1"
  "ival (op_from_u64 ops INT64_MAX) = 2 ^ 63 - 1"
  by (simp_all add: small INT64_MAX_def)

lemma zero_step: "wide_range_has_zero_step ops rng \<longleftrightarrow> ival (range_step rng) = 0"
  by (simp add: wide_range_has_zero_step_def eq constants)

lemma continues: "wide_range_continues ops rng v \<longleftrightarrow> before_stop (ival (range_step rng)) (ival (range_stop rng)) (ival v)"
  by (simp add: wide_range_continues_def before_stop_def lt gt constants)

lemma contains_outside: "\<not> inside rng v \<Longrightarrow> wide_range_contains ops rng v = Inr False"
  by (auto simp: wide_range_contains_def before_stop_def lt gt le ge constants)

lemma contains_inside:
  assumes "ival (range_step rng) \<noteq> 0" "inside rng v"
  shows "wide_range_contains ops rng v
    = Inr (ival (range_step rng) dvd ival (op_sub ops v (range_start rng)))"
proof -
  obtain r where r: "op_mod ops (op_sub ops v (range_start rng)) (range_step rng) = Inr r"
    "ival r = ival (op_sub ops v (range_start rng)) smod ival (range_step rng)"
    using mod [OF assms(1)] by blast
  have "wide_range_contains ops rng v = bind_panic (op_mod ops (op_sub ops v (range_start rng)) (range_step rng))
      (\<lambda>remainder. Inr (op_eq ops remainder (op_from_u64 ops 0)))"
    using assms(2) by (cases "0 < ival (range_step rng)")
      (simp_all add: wide_range_contains_def before_stop_def lt gt le ge constants)
  then show ?thesis by (simp add: r(1) eq constants) (simp add: r(2) smod_zero_iff)
qed

text \<open>Membership is exact as long as the distance from the start can be represented.\<close>

lemma contains_value:
  assumes "ival (range_step rng) \<noteq> 0"
    and "inside rng v \<longrightarrow> lo \<le> ival v - ival (range_start rng) \<and> ival v - ival (range_start rng) < hi"
  shows "wide_range_contains ops rng v
    = Inr (ival v \<in> range_members (ival (range_start rng)) (ival (range_stop rng)) (ival (range_step rng)))"
proof (cases "inside rng v")
  case True
  then show ?thesis
    using contains_inside [OF assms(1) True] assms sub [of v "range_start rng"] by (simp add: range_members_iff)
next
  case False
  then show ?thesis using contains_outside [OF False] by (auto simp: range_members_iff [OF assms(1)])
qed

lemma count_result:
  assumes "0 \<le> ival q"
  shows "exact_or_panic sint 0 (2 ^ 63) ''P0155'' (ival q + 1)
    (if op_ge ops q (op_from_u64 ops INT64_MAX) then Inl ''P0155''
     else bind_panic (op_to_i64 ops q) (\<lambda>n. Inr (n + 1)))"
proof (cases "2 ^ 63 - 1 \<le> ival q")
  case True
  then show ?thesis by (simp add: exact_or_panic_def ge constants)
next
  case False
  then obtain w where w: "op_to_i64 ops q = Inr w" "sint w = ival q"
    using assms to_i64 [of q] by auto
  have "sint (w + 1) = signed_take_bit 63 (sint w + 1)"
    by (simp add: sint_word_ariths)
  also have "\<dots> = ival q + 1" using False assms by (simp add: w(2) signed_take_bit_int_eq_self)
  finally show ?thesis using False assms w(1) by (simp add: exact_or_panic_def ge constants)
qed

lemma len_zero_step: "ival (range_step rng) = 0 \<Longrightarrow> wide_range_len ops rng = Inl ''P0090''"
  by (simp add: wide_range_len_def eq constants)

lemma len_value:
  assumes nz: "ival (range_step rng) \<noteq> 0"
    and fit: "lo \<le> ival (range_stop rng) - ival (range_start rng)" "ival (range_stop rng) - ival (range_start rng) < hi"
  shows "exact_or_panic sint 0 (2 ^ 63) ''P0155''
    (range_count (ival (range_start rng)) (ival (range_stop rng)) (ival (range_step rng)))
    (wide_range_len ops rng)"
proof -
  define start stop step where d: "start = range_start rng" "stop = range_stop rng" "step = range_step rng"
  note nz = nz [folded d] and fit = fit [folded d]
  have len: "wide_range_len ops rng = (let count = (\<lambda>q. if op_ge ops q (op_from_u64 ops INT64_MAX) then Inl ''P0155''
            else bind_panic (op_to_i64 ops q) (\<lambda>n. Inr (n + 1)))
      in if 0 < ival step
         then if ival stop \<le> ival start then Inr 0
              else bind_panic (op_sub_checked ops stop start) (\<lambda>distance.
                   bind_panic (op_sub_checked ops distance (op_from_u64 ops 1)) (\<lambda>last.
                   bind_panic (op_div ops last step) count))
         else if ival start \<le> ival stop then Inr 0
              else bind_panic (op_sub_checked ops stop start) (\<lambda>distance.
                   bind_panic (op_div ops (op_add ops distance (op_from_u64 ops 1)) step) count))"
    using nz by (simp add: wide_range_len_def eq gt ge le constants Let_def flip: d)
  obtain e where e: "op_sub_checked ops stop start = Inr e" "ival e = ival stop - ival start"
    using sub_checked [of stop start] fit by auto
  consider "0 < ival step" "ival stop \<le> ival start" | "0 < ival step" "ival start < ival stop"
    | "ival step < 0" "ival start \<le> ival stop" | "ival step < 0" "ival stop < ival start"
    using nz by linarith
  then have "exact_or_panic sint 0 (2 ^ 63) ''P0155'' (range_count (ival start) (ival stop) (ival step)) (wide_range_len ops rng)"
  proof cases
    case 2
    obtain f where f: "op_sub_checked ops e (op_from_u64 ops 1) = Inr f" "ival f = ival stop - ival start - 1"
      using sub_checked [of e "op_from_u64 ops 1"] 2 fit lo_le by (auto simp: e(2) constants)
    have q: "ival f sdiv ival step = (ival stop - ival start - 1) div ival step"
      using 2 f(2) nonneg_sdiv [of "ival f" "ival step"] by simp
    have "0 \<le> ival f div ival step" "ival f div ival step \<le> ival f"
      using 2 f(2) zdiv_mono2 [of "ival f" 1 "ival step"] by (simp_all add: pos_imp_zdiv_nonneg_iff)
    then obtain g where g: "op_div ops f step = Inr g" "ival g = (ival stop - ival start - 1) div ival step"
      using div [of step f] nz q lo_le bounds(2) [of f] f(2) by auto
    show ?thesis using 2 count_result [of g] unfolding len
      by (simp add: Let_def e f g range_count_def pos_imp_zdiv_nonneg_iff)
  next
    case 4
    have a: "ival (op_add ops e (op_from_u64 ops 1)) = ival stop - ival start + 1"
      using 4 add [of e "op_from_u64 ops 1"] bounds(1) [of e] hi_ge by (simp add: e(2) constants)
    have q: "ival (op_add ops e (op_from_u64 ops 1)) sdiv ival step = (ival start - ival stop - 1) div (- ival step)"
      using 4 by (simp add: a signed_divide_int_def sgn_if abs_if minus_diff_eq)
    have "0 \<le> (ival start - ival stop - 1) div (- ival step)"
      "(ival start - ival stop - 1) div (- ival step) \<le> ival start - ival stop - 1"
      using 4 zdiv_mono2 [of "ival start - ival stop - 1" 1 "- ival step"] by (simp_all add: pos_imp_zdiv_nonneg_iff)
    then obtain g where g: "op_div ops (op_add ops e (op_from_u64 ops 1)) step = Inr g"
      "ival g = (ival start - ival stop - 1) div (- ival step)"
      using div [of step "op_add ops e (op_from_u64 ops 1)"] nz lo_le lo_hi fit(1) unfolding q by auto
    show ?thesis using 4 count_result [of g] unfolding len
      by (simp add: Let_def e g range_count_def pos_imp_zdiv_nonneg_iff)
  qed (auto simp: len Let_def range_count_def exact_or_panic_def)
  then show ?thesis by (simp only: d)
qed

end

text \<open>The wide types panic when the distance between the bounds does not fit.\<close>

locale range_arith_checked = range_arith +
  fixes code :: string
  assumes sub_checked_panic: "\<not> (lo \<le> ival a - ival b \<and> ival a - ival b < hi) \<Longrightarrow> op_sub_checked ops a b = Inl code"
begin

lemma len_panic:
  assumes "ival (range_step rng) \<noteq> 0"
    and "if 0 < ival (range_step rng) then ival (range_start rng) < ival (range_stop rng)
         else ival (range_stop rng) < ival (range_start rng)"
    and "\<not> (lo \<le> ival (range_stop rng) - ival (range_start rng) \<and> ival (range_stop rng) - ival (range_start rng) < hi)"
  shows "wide_range_len ops rng = Inl code"
  using assms by (simp add: wide_range_len_def eq gt ge le constants Let_def sub_checked_panic split: if_splits)

end

subsection \<open>The five types\<close>

interpretation range_u64: range_arith range_ops_u64 uint 0 "2 ^ 64"
proof
  show "\<exists>q. op_div range_ops_u64 a b = Inr q \<and> uint q = uint a sdiv uint b" if "uint b \<noteq> 0" for a b
    using that by (auto simp: range_ops_u64_def gray_u64_div_def uint_div nonneg_sdiv less_le)
  show "\<exists>r. op_mod range_ops_u64 a b = Inr r \<and> uint r = uint a smod uint b" if "uint b \<noteq> 0" for a b
    using that by (auto simp: range_ops_u64_def gray_u64_mod_def uint_mod nonneg_smod)
  show "\<exists>c. op_sub_checked range_ops_u64 a b = Inr c \<and> uint c = uint a - uint b" if "0 \<le> uint a - uint b" for a b
    using that by (simp add: range_ops_u64_def gray_u64_sub_checked_def uint64_sub)
  show "\<exists>w. op_to_i64 range_ops_u64 v = Inr w \<and> sint w = uint v" if "uint v < 2 ^ 63" for v
  proof -
    have "\<not> sint v < 0" using that sint64_nonneg_iff [of v] by simp
    moreover have "\<not> INT64_MAX < v" using that by (simp add: INT64_MAX_def word_less_def)
    ultimately show ?thesis using sint64_cases(2) [of v]
      by (simp add: range_ops_u64_def gray_u64_to_i64_def)
  qed
qed (auto simp: range_ops_u64_def word_less_def word_le_def word_uint_eq_iff uint64_add uint64_sub)

lemma u128_div_mod_op:
  "gray_u128_div a b = u128.div_op a b" "gray_u128_mod a b = u128.mod_op a b"
  by (simp_all add: gray_u128_div_def gray_u128_mod_def)

interpretation range_u128: range_arith_checked range_ops_u128 u128_int 0 "2 ^ 128" "''P0025''"
proof
  show "\<exists>q. op_div range_ops_u128 a b = Inr q \<and> u128_int q = u128_int a sdiv u128_int b" if "u128_int b \<noteq> 0" for a b
    using u128.div_op_val [OF that, of a] u128_int_bounds(1) [of a] u128_int_bounds(1) [of b] that
    by (simp add: range_ops_u128_def u128_div_mod_op nonneg_sdiv less_le)
  show "\<exists>r. op_mod range_ops_u128 a b = Inr r \<and> u128_int r = u128_int a smod u128_int b" if "u128_int b \<noteq> 0" for a b
    using u128.mod_op_val [OF that, of a] u128_int_bounds(1) [of a] u128_int_bounds(1) [of b]
    by (simp add: range_ops_u128_def u128_div_mod_op nonneg_smod)
  show "\<exists>w. op_to_i64 range_ops_u128 v = Inr w \<and> sint w = u128_int v" if "0 \<le> u128_int v" "u128_int v < 2 ^ 63" for v
    using narrowing_i64(2) [of v] that
    by (auto simp: range_ops_u128_def exact_or_panic_def split: sum.splits if_splits)
  show "\<exists>c. op_sub_checked range_ops_u128 a b = Inr c \<and> u128_int c = u128_int a - u128_int b"
    if "0 \<le> u128_int a - u128_int b" "u128_int a - u128_int b < 2 ^ 128" for a b
    using u128.sub_checked [of "''P0025''" a b] that
    by (auto simp: range_ops_u128_def gray_u128_sub_checked_def exact_or_panic_def split: sum.splits if_splits)
  show "op_sub_checked range_ops_u128 a b = Inl ''P0025''"
    if "\<not> (0 \<le> u128_int a - u128_int b \<and> u128_int a - u128_int b < 2 ^ 128)" for a b
    using u128.sub_checked [of "''P0025''" a b] that
    by (simp add: range_ops_u128_def gray_u128_sub_checked_def exact_or_panic_def del: not_less split: if_splits)
qed (use u128_int_bounds in \<open>auto simp: range_ops_u128_def wide_val widening_values take_bit_int_eq_self\<close>)

lemma u256_div_mod_op:
  "gray_u256_div a b = u256.div_op a b" "gray_u256_mod a b = u256.mod_op a b"
  by (simp_all add: gray_u256_div_def gray_u256_mod_def)

interpretation range_u256: range_arith_checked range_ops_u256 u256_int 0 "2 ^ 256" "''P0031''"
proof
  show "\<exists>q. op_div range_ops_u256 a b = Inr q \<and> u256_int q = u256_int a sdiv u256_int b" if "u256_int b \<noteq> 0" for a b
    using u256.div_op_val [OF that, of a] u256_int_bounds(1) [of a] u256_int_bounds(1) [of b] that
    by (simp add: range_ops_u256_def u256_div_mod_op nonneg_sdiv less_le)
  show "\<exists>r. op_mod range_ops_u256 a b = Inr r \<and> u256_int r = u256_int a smod u256_int b" if "u256_int b \<noteq> 0" for a b
    using u256.mod_op_val [OF that, of a] u256_int_bounds(1) [of a] u256_int_bounds(1) [of b]
    by (simp add: range_ops_u256_def u256_div_mod_op nonneg_smod)
  show "\<exists>w. op_to_i64 range_ops_u256 v = Inr w \<and> sint w = u256_int v" if "0 \<le> u256_int v" "u256_int v < 2 ^ 63" for v
    using narrowing_i64(4) [of v] that
    by (auto simp: range_ops_u256_def exact_or_panic_def split: sum.splits if_splits)
  show "\<exists>c. op_sub_checked range_ops_u256 a b = Inr c \<and> u256_int c = u256_int a - u256_int b"
    if "0 \<le> u256_int a - u256_int b" "u256_int a - u256_int b < 2 ^ 256" for a b
    using u256.sub_checked [of "''P0031''" a b] that
    by (auto simp: range_ops_u256_def gray_u256_sub_checked_def exact_or_panic_def split: sum.splits if_splits)
  show "op_sub_checked range_ops_u256 a b = Inl ''P0031''"
    if "\<not> (0 \<le> u256_int a - u256_int b \<and> u256_int a - u256_int b < 2 ^ 256)" for a b
    using u256.sub_checked [of "''P0031''" a b] that
    by (simp add: range_ops_u256_def gray_u256_sub_checked_def exact_or_panic_def del: not_less split: if_splits)
qed (use u256_int_bounds in \<open>auto simp: range_ops_u256_def wide_val widening_values take_bit_int_eq_self\<close>)

interpretation range_i128: range_arith_checked range_ops_i128 i128_int "- (2 ^ 127)" "2 ^ 127" "''P0022''"
proof
  show "\<exists>q. op_div range_ops_i128 a b = Inr q \<and> i128_int q = i128_int a sdiv i128_int b"
    if "i128_int b \<noteq> 0" "- (2 ^ 127) \<le> i128_int a sdiv i128_int b" "i128_int a sdiv i128_int b < 2 ^ 127" for a b
    using i128.div_body_val [OF that(1), of a] i128.wrap_self [OF that(2,3)]
    by (simp add: range_ops_i128_def gray_i128_div_def)
  show "\<exists>r. op_mod range_ops_i128 a b = Inr r \<and> i128_int r = i128_int a smod i128_int b" if "i128_int b \<noteq> 0" for a b
    using i128.mod_body_val [OF that, of a] by (simp add: range_ops_i128_def gray_i128_mod_def)
  show "\<exists>w. op_to_i64 range_ops_i128 v = Inr w \<and> sint w = i128_int v" if "0 \<le> i128_int v" "i128_int v < 2 ^ 63" for v
    using narrowing_i64(1) [of v] that
    by (auto simp: range_ops_i128_def exact_or_panic_def split: sum.splits if_splits)
  show "\<exists>c. op_sub_checked range_ops_i128 a b = Inr c \<and> i128_int c = i128_int a - i128_int b"
    if "- (2 ^ 127) \<le> i128_int a - i128_int b" "i128_int a - i128_int b < 2 ^ 127" for a b
    using i128.ssub_checked [of "''P0022''" a b] that
    by (auto simp: range_ops_i128_def gray_i128_sub_checked_def exact_or_panic_def split: sum.splits if_splits)
  show "op_sub_checked range_ops_i128 a b = Inl ''P0022''"
    if "\<not> (- (2 ^ 127) \<le> i128_int a - i128_int b \<and> i128_int a - i128_int b < 2 ^ 127)" for a b
    using i128.ssub_checked [of "''P0022''" a b] that
    by (simp add: range_ops_i128_def gray_i128_sub_checked_def exact_or_panic_def del: not_less split: if_splits)
  show "i128_int (op_add range_ops_i128 a b) = i128_int a + i128_int b"
    if "- (2 ^ 127) \<le> i128_int a + i128_int b" "i128_int a + i128_int b < 2 ^ 127" for a b
    using that by (simp add: range_ops_i128_def i128.sadd_val i128.wrap_self)
  show "i128_int (op_sub range_ops_i128 a b) = i128_int a - i128_int b"
    if "- (2 ^ 127) \<le> i128_int a - i128_int b" "i128_int a - i128_int b < 2 ^ 127" for a b
    using that by (simp add: range_ops_i128_def i128.ssub_val i128.wrap_self)
qed (use i128_int_bounds in \<open>auto simp: range_ops_i128_def wide_val widening_values\<close>)

interpretation range_i256: range_arith_checked range_ops_i256 i256_int "- (2 ^ 255)" "2 ^ 255" "''P0028''"
proof
  show "\<exists>q. op_div range_ops_i256 a b = Inr q \<and> i256_int q = i256_int a sdiv i256_int b"
    if "i256_int b \<noteq> 0" "- (2 ^ 255) \<le> i256_int a sdiv i256_int b" "i256_int a sdiv i256_int b < 2 ^ 255" for a b
    using i256.div_body_val [OF that(1), of a] i256.wrap_self [OF that(2,3)]
    by (simp add: range_ops_i256_def gray_i256_div_def)
  show "\<exists>r. op_mod range_ops_i256 a b = Inr r \<and> i256_int r = i256_int a smod i256_int b" if "i256_int b \<noteq> 0" for a b
    using i256.mod_body_val [OF that, of a] by (simp add: range_ops_i256_def gray_i256_mod_def)
  show "\<exists>w. op_to_i64 range_ops_i256 v = Inr w \<and> sint w = i256_int v" if "0 \<le> i256_int v" "i256_int v < 2 ^ 63" for v
    using narrowing_i64(3) [of v] that
    by (auto simp: range_ops_i256_def exact_or_panic_def split: sum.splits if_splits)
  show "\<exists>c. op_sub_checked range_ops_i256 a b = Inr c \<and> i256_int c = i256_int a - i256_int b"
    if "- (2 ^ 255) \<le> i256_int a - i256_int b" "i256_int a - i256_int b < 2 ^ 255" for a b
    using i256.ssub_checked [of "''P0028''" a b] that
    by (auto simp: range_ops_i256_def gray_i256_sub_checked_def exact_or_panic_def split: sum.splits if_splits)
  show "op_sub_checked range_ops_i256 a b = Inl ''P0028''"
    if "\<not> (- (2 ^ 255) \<le> i256_int a - i256_int b \<and> i256_int a - i256_int b < 2 ^ 255)" for a b
    using i256.ssub_checked [of "''P0028''" a b] that
    by (simp add: range_ops_i256_def gray_i256_sub_checked_def exact_or_panic_def del: not_less split: if_splits)
  show "i256_int (op_add range_ops_i256 a b) = i256_int a + i256_int b"
    if "- (2 ^ 255) \<le> i256_int a + i256_int b" "i256_int a + i256_int b < 2 ^ 255" for a b
    using that by (simp add: range_ops_i256_def i256.sadd_val i256.wrap_self)
  show "i256_int (op_sub range_ops_i256 a b) = i256_int a - i256_int b"
    if "- (2 ^ 255) \<le> i256_int a - i256_int b" "i256_int a - i256_int b < 2 ^ 255" for a b
    using that by (simp add: range_ops_i256_def i256.ssub_val i256.wrap_self)
qed (use i256_int_bounds in \<open>auto simp: range_ops_i256_def wide_val widening_values\<close>)

subsection \<open>Ranges over i64\<close>

text \<open>The distance is taken in \<open>uint64_t\<close>, so it is exact over the whole range of i64.\<close>

lemma uint_distance:
  assumes "sint b \<le> sint a"
  shows "uint (a - b :: i64) = sint a - sint b"
proof -
  have s: "0 \<le> sint a - sint b" "sint a - sint b < 2 ^ 64"
    using assms sint64_bounds [of a] sint64_bounds [of b] by simp_all
  have "uint (a - b) = take_bit 64 (uint a - uint b)" by (simp add: uint_word_ariths take_bit_eq_mod)
  also have "\<dots> = take_bit 64 (sint a - sint b)"
    by (subst (1 2) sint64_uint) (simp add: take_bit_eq_mod mod_simps, simp add: mod_eq_dvd_iff)
  also have "\<dots> = sint a - sint b" using s by (simp add: take_bit_int_eq_self)
  finally show ?thesis .
qed

lemma uint_stride:
  "0 \<le> sint (s :: i64) \<Longrightarrow> uint s = sint s"
  "sint s \<le> 0 \<Longrightarrow> uint (0 - s) = - sint s"
  using sint64_cases(2) [of s] uint_distance [of s 0] by simp_all

lemma i64_contains_value:
  assumes "sint (range_step rng) \<noteq> 0"
  shows "GrayRange_i64_contains rng v
    = Inr (sint v \<in> range_members (sint (range_start rng)) (sint (range_stop rng)) (sint (range_step rng)))"
proof -
  have nz: "range_step rng \<noteq> 0" "0 - range_step rng \<noteq> 0" using assms by auto
  have dvd: "(a - b) mod s = 0 \<longleftrightarrow> uint s dvd uint (a - b)" for a b s :: u64
    by (simp add: word_uint_eq_iff uint_mod mod_eq_0_iff_dvd)
  show ?thesis
  proof (cases "0 < sint (range_step rng)")
    case True
    then show ?thesis using nz(1)
      by (auto simp: GrayRange_i64_contains_def Let_def u64_mod_trapping_def dvd uint_distance uint_stride(1)
          range_members_iff [OF assms] before_stop_def simp del: diff_0)
  next
    case False
    have "0 - s dvd x \<longleftrightarrow> s dvd x" "s dvd a - b \<longleftrightarrow> s dvd b - a" for a b s x :: int
      by (simp, metis dvd_minus_iff minus_diff_eq)
    then show ?thesis using nz(2) False
      by (auto simp: GrayRange_i64_contains_def Let_def u64_mod_trapping_def dvd uint_distance uint_stride(2)
          range_members_iff [OF assms] before_stop_def simp del: diff_0)
  qed
qed

lemma i64_count:
  assumes "0 < d" "d < 2 ^ 64" "uint distance = d" "uint stride = s" "0 < s"
  shows "exact_or_panic sint 0 (2 ^ 63) ''P0155'' ((d - 1) div s + 1)
    (let count = (distance - 1) div stride + 1 in if INT64_MAX < count then Inl ''P0155'' else Inr count)"
proof -
  have q: "0 \<le> (d - 1) div s" "(d - 1) div s \<le> d - 1"
    using assms zdiv_mono2 [of "d - 1" 1 s] by (simp_all add: pos_imp_zdiv_nonneg_iff)
  have "uint (distance - 1) = d - 1" using assms by (simp add: uint64_sub)
  then have "uint ((distance - 1) div stride) = (d - 1) div s" using assms by (simp add: uint_div)
  then have c: "uint ((distance - 1) div stride + 1) = (d - 1) div s + 1"
    using q assms by (simp add: uint64_add)
  have "INT64_MAX < (distance - 1) div stride + 1 \<longleftrightarrow> 2 ^ 63 \<le> (d - 1) div s + 1"
    using c by (auto simp: INT64_MAX_def word_less_def)
  moreover have "sint ((distance - 1) div stride + 1) = (d - 1) div s + 1" if "(d - 1) div s + 1 < 2 ^ 63"
  proof -
    have "\<not> sint ((distance - 1) div stride + 1) < 0" using sint64_nonneg_iff [of "(distance - 1) div stride + 1"] c that by simp
    then show ?thesis using sint64_cases(2) [of "(distance - 1) div stride + 1"] c by simp
  qed
  ultimately show ?thesis using q(1) by (auto simp: exact_or_panic_def Let_def)
qed

lemma i64_len_value:
  assumes "sint (range_step rng) \<noteq> 0"
  shows "exact_or_panic sint 0 (2 ^ 63) ''P0155''
    (range_count (sint (range_start rng)) (sint (range_stop rng)) (sint (range_step rng))) (GrayRange_i64_len rng)"
proof -
  define start stop step where d: "start = range_start rng" "stop = range_stop rng" "step = range_step rng"
  note b = sint64_bounds [of start] sint64_bounds [of stop]
  have nz: "sint step \<noteq> 0" "step \<noteq> 0" using assms by (auto simp: d)
  have "exact_or_panic sint 0 (2 ^ 63) ''P0155'' (range_count (sint start) (sint stop) (sint step)) (GrayRange_i64_len rng)"
  proof (cases "0 < sint step")
    case True
    show ?thesis
    proof (cases "sint start < sint stop")
      case inside: True
      have "exact_or_panic sint 0 (2 ^ 63) ''P0155'' ((sint stop - sint start - 1) div sint step + 1)
        (let count = (stop - start - 1) div step + 1 in if INT64_MAX < count then Inl ''P0155'' else Inr count)"
        using inside True b by (intro i64_count) (simp_all add: uint_distance uint_stride)
      then show ?thesis using True inside nz by (simp add: GrayRange_i64_len_def Let_def range_count_def flip: d)
    qed (use True nz in \<open>simp add: GrayRange_i64_len_def Let_def range_count_def exact_or_panic_def flip: d\<close>)
  next
    case False
    show ?thesis
    proof (cases "sint stop < sint start")
      case inside: True
      have "exact_or_panic sint 0 (2 ^ 63) ''P0155'' ((sint start - sint stop - 1) div (- sint step) + 1)
        (let count = (start - stop - 1) div (0 - step) + 1 in if INT64_MAX < count then Inl ''P0155'' else Inr count)"
        using inside False nz b uint_stride(2) [of step] by (intro i64_count) (simp_all add: uint_distance)
      then show ?thesis using False inside nz
        by (simp add: GrayRange_i64_len_def Let_def range_count_def flip: d split: if_splits)
    qed (use False nz in \<open>simp add: GrayRange_i64_len_def Let_def range_count_def exact_or_panic_def flip: d\<close>)
  qed
  then show ?thesis by (simp only: d)
qed

end
