(* ===== verification/Wide_Checked.thy ===== *)
theory Wide_Checked
  imports Range_Values
begin

text \<open>
  The checked multiplication, division and negation of the four wide integer types, read off the
  contracts \<open>wide_unsigned\<close> and \<open>wide_signed\<close> for the functions \<open>bigint.h\<close> defines.
\<close>

lemma u128_mul_checked_value:
  "exact_or_panic u128_int 0 (2 ^ 128) ''P0026'' (u128_int c * u128_int d) (gray_u128_mul_checked c d)"
  unfolding gray_u128_mul_checked_def u128_div_mod_op [abs_def] by (rule u128.mul_checked_val) (rule u128_is_zero_iff)

lemma u256_mul_checked_value:
  "exact_or_panic u256_int 0 (2 ^ 256) ''P0032'' (u256_int c * u256_int d) (gray_u256_mul_checked c d)"
  unfolding gray_u256_mul_checked_def u256_div_mod_op [abs_def] by (rule u256.mul_checked_val) (rule u256_is_zero_iff)

lemma i128_mul_checked_value:
  assumes "\<not> (i128_int a = - (2 ^ 127) \<and> i128_int b = - 1)"
  shows "exact_or_panic i128_int (- (2 ^ 127)) (2 ^ 127) ''P0023'' (i128_int a * i128_int b) (gray_i128_mul_checked a b)"
  unfolding gray_i128_mul_checked_def gray_i128_div_def using i128_is_zero_iff assms by (rule i128.smul_checked)

lemma i256_mul_checked_value:
  assumes "\<not> (i256_int a = - (2 ^ 255) \<and> i256_int b = - 1)"
  shows "exact_or_panic i256_int (- (2 ^ 255)) (2 ^ 255) ''P0029'' (i256_int a * i256_int b) (gray_i256_mul_checked a b)"
  unfolding gray_i256_mul_checked_def gray_i256_div_def using i256_is_zero_iff assms by (rule i256.smul_checked)

lemma i128_mul_minimum:
  assumes "i128_int a = - (2 ^ 127)" "i128_int b = - 1"
  shows "gray_i128_mul_checked a b = Inr a"
proof -
  have "gray_i128_mul a b = a"
    using i128.smul_checked_minimum(2) [OF i128_is_zero_iff assms] assms by (intro i128.sval_inject) simp
  then show ?thesis unfolding gray_i128_mul_checked_def gray_i128_div_def
    using i128.smul_checked_minimum(1) [OF i128_is_zero_iff assms] by simp
qed

lemma i256_mul_minimum:
  assumes "i256_int a = - (2 ^ 255)" "i256_int b = - 1"
  shows "gray_i256_mul_checked a b = Inr a"
proof -
  have "gray_i256_mul a b = a"
    using i256.smul_checked_minimum(2) [OF i256_is_zero_iff assms] assms by (intro i256.sval_inject) simp
  then show ?thesis unfolding gray_i256_mul_checked_def gray_i256_div_def
    using i256.smul_checked_minimum(1) [OF i256_is_zero_iff assms] by simp
qed

text \<open>
  Division truncates toward zero and the remainder has the dividend's sign; the quotient of the
  signed minimum and \<open>-1\<close> wraps. A zero divisor is the panic P0078.
\<close>

definition quotient_or_panic :: "('a \<Rightarrow> int) \<Rightarrow> int \<Rightarrow> int \<Rightarrow> 'a panicking \<Rightarrow> bool" where
  "quotient_or_panic val divisor exact m =
     (if divisor = 0 then m = Inl ''P0078'' else (case m of Inl e \<Rightarrow> False | Inr c \<Rightarrow> val c = exact))"

lemma u128_division:
  "quotient_or_panic u128_int (u128_int d) (u128_int c div u128_int d) (gray_u128_div c d)"
  "quotient_or_panic u128_int (u128_int d) (u128_int c mod u128_int d) (gray_u128_mod c d)"
  using u128.div_op_val [of d c] u128.mod_op_val [of d c] u128_divmod_zero [of d c]
  by (auto simp: quotient_or_panic_def u128_div_mod_op)

lemma u256_division:
  "quotient_or_panic u256_int (u256_int d) (u256_int c div u256_int d) (gray_u256_div c d)"
  "quotient_or_panic u256_int (u256_int d) (u256_int c mod u256_int d) (gray_u256_mod c d)"
  using u256.div_op_val [of d c] u256.mod_op_val [of d c] u256.div_mod_zero [of d c]
  by (auto simp: quotient_or_panic_def u256_div_mod_op)

lemma i128_division:
  "quotient_or_panic i128_int (i128_int b) (signed_take_bit 127 (i128_int a sdiv i128_int b)) (gray_i128_div a b)"
  "quotient_or_panic i128_int (i128_int b) (i128_int a smod i128_int b) (gray_i128_mod a b)"
  using i128.div_body_val [of b a] i128.mod_body_val [of b a] i128.div_mod_body_zero [of b a]
  by (auto simp: quotient_or_panic_def gray_i128_div_def gray_i128_mod_def)

lemma i256_division:
  "quotient_or_panic i256_int (i256_int b) (signed_take_bit 255 (i256_int a sdiv i256_int b)) (gray_i256_div a b)"
  "quotient_or_panic i256_int (i256_int b) (i256_int a smod i256_int b) (gray_i256_mod a b)"
  using i256.div_body_val [of b a] i256.mod_body_val [of b a] i256.div_mod_body_zero [of b a]
  by (auto simp: quotient_or_panic_def gray_i256_div_def gray_i256_mod_def)

lemma i128_neg_abs:
  "exact_or_panic i128_int (- (2 ^ 127)) (2 ^ 127) ''P0014'' (- i128_int a) (gray_i128_neg_checked a)"
  "exact_or_panic i128_int (- (2 ^ 127)) (2 ^ 127) ''P0014'' \<bar>i128_int a\<bar> (gray_i128_abs_checked a)"
  using i128.sneg_checked [of "''P0014''" a] i128_int_bounds [of a]
  by (auto simp: gray_i128_neg_checked_def gray_i128_abs_checked_def i128.is_neg_iff exact_or_panic_def split: sum.splits)

lemma i256_neg_abs:
  "exact_or_panic i256_int (- (2 ^ 255)) (2 ^ 255) ''P0014'' (- i256_int a) (gray_i256_neg_checked a)"
  "exact_or_panic i256_int (- (2 ^ 255)) (2 ^ 255) ''P0014'' \<bar>i256_int a\<bar> (gray_i256_abs_checked a)"
  using i256.sneg_checked [of "''P0014''" a] i256.sval_bounds [of a]
  by (auto simp: gray_i256_neg_checked_def gray_i256_abs_checked_def i256.is_neg_iff exact_or_panic_def split: sum.splits)

subsection \<open>Shifts\<close>

text \<open>The shift by an in-range amount, and the panic P0092 for every other amount.\<close>

definition shift_or_panic :: "('a \<Rightarrow> int) \<Rightarrow> nat \<Rightarrow> i64 \<Rightarrow> int \<Rightarrow> 'a panicking \<Rightarrow> bool" where
  "shift_or_panic val width amount exact m =
     (if 0 \<le> sint amount \<and> sint amount < int width
      then (case m of Inl e \<Rightarrow> False | Inr c \<Rightarrow> val c = exact) else m = Inl ''P0092'')"

context limb_array
begin

lemma shift_left:
  "shift_or_panic ival (64 * count) amount (wrap (push_bit (nat (sint amount)) (ival v)))
     (bitwise_shl words of_words count v amount)"
  by (simp add: shift_or_panic_def shl_value)

lemma shift_right:
  "shift_or_panic ival (64 * count) amount (drop_bit (nat (sint amount)) (ival v))
     (bitwise_shr words of_words count is_signed v amount)"
  by (simp add: shift_or_panic_def shr_value)

lemma shift_amount:
  "exact_or_panic sint (- (2 ^ 63)) (2 ^ 63) ''P0092'' (ival v) (bitwise_shift_amount words is_signed v)"
  using shift_amount_value by (auto simp: exact_or_panic_def)

end

lemma wide_shift_amounts:
  "exact_or_panic sint (- (2 ^ 63)) (2 ^ 63) ''P0092'' (i128_int a) (gray_i128_shift_amount a)"
  "exact_or_panic sint (- (2 ^ 63)) (2 ^ 63) ''P0092'' (u128_int c) (gray_u128_shift_amount c)"
  "exact_or_panic sint (- (2 ^ 63)) (2 ^ 63) ''P0092'' (i256_int e) (gray_i256_shift_amount e)"
  "exact_or_panic sint (- (2 ^ 63)) (2 ^ 63) ''P0092'' (u256_int g) (gray_u256_shift_amount g)"
  using i128_bits.shift_amount [of a] u128_bits.shift_amount [of c] i256_bits.shift_amount [of e] u256_bits.shift_amount [of g]
  by (simp_all only: gray_i128_shift_amount_def gray_u128_shift_amount_def gray_i256_shift_amount_def gray_u256_shift_amount_def)

lemma wide_shift_values:
  "shift_or_panic i128_int 128 n (signed_take_bit 127 (push_bit (nat (sint n)) (i128_int a))) (gray_i128_shl a n)"
  "shift_or_panic i128_int 128 n (drop_bit (nat (sint n)) (i128_int a)) (gray_i128_shr a n)"
  "shift_or_panic u128_int 128 n (take_bit 128 (push_bit (nat (sint n)) (u128_int c))) (gray_u128_shl c n)"
  "shift_or_panic u128_int 128 n (drop_bit (nat (sint n)) (u128_int c)) (gray_u128_shr c n)"
  "shift_or_panic i256_int 256 n (signed_take_bit 255 (push_bit (nat (sint n)) (i256_int e))) (gray_i256_shl e n)"
  "shift_or_panic i256_int 256 n (drop_bit (nat (sint n)) (i256_int e)) (gray_i256_shr e n)"
  "shift_or_panic u256_int 256 n (take_bit 256 (push_bit (nat (sint n)) (u256_int g))) (gray_u256_shl g n)"
  "shift_or_panic u256_int 256 n (drop_bit (nat (sint n)) (u256_int g)) (gray_u256_shr g n)"
  using i128_bits.shift_left [of n a] i128_bits.shift_right [of n a] u128_bits.shift_left [of n c] u128_bits.shift_right [of n c]
    i256_bits.shift_left [of n e] i256_bits.shift_right [of n e] u256_bits.shift_left [of n g] u256_bits.shift_right [of n g]
  by (simp_all add: wrap_to_def gray_i128_shl_def gray_i128_shr_def gray_u128_shl_def gray_u128_shr_def
      gray_i256_shl_def gray_i256_shr_def gray_u256_shl_def gray_u256_shr_def)

lemma wide_bitwise_values:
  "i128_int (gray_i128_and a b) = i128_int a AND i128_int b" "i128_int (gray_i128_or a b) = i128_int a OR i128_int b"
  "i128_int (gray_i128_xor a b) = i128_int a XOR i128_int b" "i128_int (gray_i128_not a) = signed_take_bit 127 (NOT (i128_int a))"
  "u128_int (gray_u128_and c d) = u128_int c AND u128_int d" "u128_int (gray_u128_or c d) = u128_int c OR u128_int d"
  "u128_int (gray_u128_xor c d) = u128_int c XOR u128_int d" "u128_int (gray_u128_not c) = take_bit 128 (NOT (u128_int c))"
  "i256_int (gray_i256_and e f) = i256_int e AND i256_int f" "i256_int (gray_i256_or e f) = i256_int e OR i256_int f"
  "i256_int (gray_i256_xor e f) = i256_int e XOR i256_int f" "i256_int (gray_i256_not e) = signed_take_bit 255 (NOT (i256_int e))"
  "u256_int (gray_u256_and g h) = u256_int g AND u256_int h" "u256_int (gray_u256_or g h) = u256_int g OR u256_int h"
  "u256_int (gray_u256_xor g h) = u256_int g XOR u256_int h" "u256_int (gray_u256_not g) = take_bit 256 (NOT (u256_int g))"
  by (simp_all add: gray_i128_and_def gray_i128_or_def gray_i128_xor_def gray_i128_not_def
      gray_u128_and_def gray_u128_or_def gray_u128_xor_def gray_u128_not_def
      gray_i256_and_def gray_i256_or_def gray_i256_xor_def gray_i256_not_def
      gray_u256_and_def gray_u256_or_def gray_u256_xor_def gray_u256_not_def
      i128_bits.binary_value i128_bits.not_value u128_bits.binary_value u128_bits.not_value
      i256_bits.binary_value i256_bits.not_value u256_bits.binary_value u256_bits.not_value wrap_to_def)

subsection \<open>Ranges\<close>

lemma unsigned_range_membership:
  "u128_int (range_step r) \<noteq> 0 \<Longrightarrow> wide_range_contains range_ops_u128 r x
     = Inr (u128_int x \<in> range_members (u128_int (range_start r)) (u128_int (range_stop r)) (u128_int (range_step r)))"
  "u256_int (range_step s) \<noteq> 0 \<Longrightarrow> wide_range_contains range_ops_u256 s y
     = Inr (u256_int y \<in> range_members (u256_int (range_start s)) (u256_int (range_stop s)) (u256_int (range_step s)))"
  "uint (range_step t) \<noteq> 0 \<Longrightarrow> wide_range_contains range_ops_u64 t z
     = Inr (uint z \<in> range_members (uint (range_start t)) (uint (range_stop t)) (uint (range_step t)))"
proof -
  show "wide_range_contains range_ops_u128 r x
     = Inr (u128_int x \<in> range_members (u128_int (range_start r)) (u128_int (range_stop r)) (u128_int (range_step r)))"
    if "u128_int (range_step r) \<noteq> 0"
    using that u128_int_bounds [of "range_start r"] u128_int_bounds [of x] u128_int_bounds [of "range_step r"]
    by (intro range_u128.contains_value) auto
  show "wide_range_contains range_ops_u256 s y
     = Inr (u256_int y \<in> range_members (u256_int (range_start s)) (u256_int (range_stop s)) (u256_int (range_step s)))"
    if "u256_int (range_step s) \<noteq> 0"
    using that u256_int_bounds [of "range_start s"] u256_int_bounds [of y] u256_int_bounds [of "range_step s"]
    by (intro range_u256.contains_value) auto
  show "wide_range_contains range_ops_u64 t z
     = Inr (uint z \<in> range_members (uint (range_start t)) (uint (range_stop t)) (uint (range_step t)))"
    if "uint (range_step t) \<noteq> 0"
  proof (rule range_u64.contains_value [OF that])
    have "uint z - uint (range_start t) < 2 ^ 64"
      using uint64_bounds(2) [of z] uint64_bounds(1) [of "range_start t"] by linarith
    moreover have "0 < uint (range_step t)" using that uint64_bounds(1) [of "range_step t"] by linarith
    ultimately show "range_u64.inside t z \<longrightarrow> 0 \<le> uint z - uint (range_start t) \<and> uint z - uint (range_start t) < 2 ^ 64"
      by simp
  qed
qed

end
