(* ===== verification/Token.thy ===== *)
theory Token
  imports Prelude "HOL-Library.Char_ord" "HOL-Library.List_Lexorder"
begin

text \<open>
  Token kinds and the keyword table: \<open>grayc/src/lexer/token.h\<close> and \<open>token.c\<close>. A C string is the
  list of its bytes before the terminating NUL; a length-bounded span is the list of its bytes.
  The enum is one flat list in the source; its commented sections are three datatypes here,
  embedded by \<open>Operator\<close>, \<open>Attribute\<close> and \<open>Keyword\<close>.
\<close>

subsection \<open>Token kinds\<close>

datatype operator_token =
   TOKEN_ASSIGN | TOKEN_PLUS | TOKEN_MINUS | TOKEN_BANG | TOKEN_ASTERISK | TOKEN_SLASH
   | TOKEN_PERCENT | TOKEN_LESS_THAN | TOKEN_GREATER_THAN | TOKEN_EQUAL | TOKEN_NOT_EQUAL
   | TOKEN_LESS_THAN_OR_EQUAL | TOKEN_GREATER_THAN_OR_EQUAL | TOKEN_PLUS_ASSIGN
   | TOKEN_MINUS_ASSIGN | TOKEN_ASTERISK_ASSIGN | TOKEN_SLASH_ASSIGN | TOKEN_PERCENT_ASSIGN
   | TOKEN_INCREMENT | TOKEN_DECREMENT | TOKEN_AND | TOKEN_OR | TOKEN_COMMA | TOKEN_COLON
   | TOKEN_SEMICOLON | TOKEN_NEWLINE | TOKEN_LEFT_PARENTHESIS | TOKEN_RIGHT_PARENTHESIS
   | TOKEN_LEFT_BRACE | TOKEN_RIGHT_BRACE | TOKEN_LEFT_BRACKET | TOKEN_RIGHT_BRACKET | TOKEN_CARET
   | TOKEN_ARROW | TOKEN_DOT | TOKEN_AT | TOKEN_AMPERSAND

datatype attribute_token =
   TOKEN_HASH_LEFT_BRACKET | TOKEN_STRICT | TOKEN_FLAGS | TOKEN_DOC | TOKEN_JSON_ATTRIBUTE
   | TOKEN_DISCARD | TOKEN_DEPRECATED | TOKEN_TEST | TOKEN_ERROR_CODE_ATTRIBUTE | TOKEN_DEFINE

datatype keyword_token =
   TOKEN_MUT | TOKEN_CONST | TOKEN_DO | TOKEN_RETURN | TOKEN_IF | TOKEN_OR_KEYWORD
   | TOKEN_OTHERWISE | TOKEN_FOR | TOKEN_FOR_EACH | TOKEN_AS_LONG_AS | TOKEN_LOOP | TOKEN_BREAK
   | TOKEN_CONTINUE | TOKEN_IN | TOKEN_NOT_IN | TOKEN_RANGE | TOKEN_IMPORT | TOKEN_USING
   | TOKEN_STRUCT | TOKEN_ENUM | TOKEN_NIL | TOKEN_NEW | TOKEN_TRUE | TOKEN_FALSE | TOKEN_BLANK
   | TOKEN_ENSURE | TOKEN_OR_RETURN | TOKEN_OR_DEFAULT | TOKEN_OR_PANIC | TOKEN_EXTERN
   | TOKEN_GENERIC | TOKEN_PRIVATE | TOKEN_UNSAFE | TOKEN_USE | TOKEN_WHEN | TOKEN_IS
   | TOKEN_DEFAULT | TOKEN_ALIAS | TOKEN_DISTINCT | TOKEN_CAST | TOKEN_BIT_AND | TOKEN_BIT_OR
   | TOKEN_BIT_XOR | TOKEN_BIT_NOT | TOKEN_BIT_SHIFT_LEFT | TOKEN_BIT_SHIFT_RIGHT

datatype TokenType =
   TOKEN_ILLEGAL | TOKEN_END_OF_FILE | TOKEN_IDENTIFIER | TOKEN_INTEGER_LITERAL
   | TOKEN_FLOATING_POINT_LITERAL | TOKEN_STRING | TOKEN_RAW_STRING | TOKEN_CHAR
   | Operator operator_token | Attribute attribute_token | Keyword keyword_token | TOKEN_COUNT

fun operator_name :: "operator_token \<Rightarrow> string" where
  "operator_name TOKEN_ASSIGN = ''=''"
| "operator_name TOKEN_PLUS = ''+''"
| "operator_name TOKEN_MINUS = ''-''"
| "operator_name TOKEN_BANG = ''!''"
| "operator_name TOKEN_ASTERISK = ''*''"
| "operator_name TOKEN_SLASH = ''/''"
| "operator_name TOKEN_PERCENT = ''%''"
| "operator_name TOKEN_LESS_THAN = ''<''"
| "operator_name TOKEN_GREATER_THAN = ''>''"
| "operator_name TOKEN_EQUAL = ''==''"
| "operator_name TOKEN_NOT_EQUAL = ''!=''"
| "operator_name TOKEN_LESS_THAN_OR_EQUAL = ''<=''"
| "operator_name TOKEN_GREATER_THAN_OR_EQUAL = ''>=''"
| "operator_name TOKEN_PLUS_ASSIGN = ''+=''"
| "operator_name TOKEN_MINUS_ASSIGN = ''-=''"
| "operator_name TOKEN_ASTERISK_ASSIGN = ''*=''"
| "operator_name TOKEN_SLASH_ASSIGN = ''/=''"
| "operator_name TOKEN_PERCENT_ASSIGN = ''%=''"
| "operator_name TOKEN_INCREMENT = ''++''"
| "operator_name TOKEN_DECREMENT = ''--''"
| "operator_name TOKEN_AND = ''&&''"
| "operator_name TOKEN_OR = ''||''"
| "operator_name TOKEN_COMMA = '',''"
| "operator_name TOKEN_COLON = '':''"
| "operator_name TOKEN_SEMICOLON = '';''"
| "operator_name TOKEN_NEWLINE = ''NEWLINE''"
| "operator_name TOKEN_LEFT_PARENTHESIS = ''(''"
| "operator_name TOKEN_RIGHT_PARENTHESIS = '')''"
| "operator_name TOKEN_LEFT_BRACE = ''{''"
| "operator_name TOKEN_RIGHT_BRACE = ''}''"
| "operator_name TOKEN_LEFT_BRACKET = ''[''"
| "operator_name TOKEN_RIGHT_BRACKET = '']''"
| "operator_name TOKEN_CARET = ''^''"
| "operator_name TOKEN_ARROW = ''->''"
| "operator_name TOKEN_DOT = ''.''"
| "operator_name TOKEN_AT = ''@''"
| "operator_name TOKEN_AMPERSAND = ''&''"

fun attribute_name :: "attribute_token \<Rightarrow> string" where
  "attribute_name TOKEN_HASH_LEFT_BRACKET = ''#[''"
| "attribute_name TOKEN_STRICT = ''#strict''"
| "attribute_name TOKEN_FLAGS = ''#flags''"
| "attribute_name TOKEN_DOC = ''#doc''"
| "attribute_name TOKEN_JSON_ATTRIBUTE = ''#json''"
| "attribute_name TOKEN_DISCARD = ''#discard''"
| "attribute_name TOKEN_DEPRECATED = ''#deprecated''"
| "attribute_name TOKEN_TEST = ''#test''"
| "attribute_name TOKEN_ERROR_CODE_ATTRIBUTE = ''#error_code''"
| "attribute_name TOKEN_DEFINE = ''#define''"

fun keyword_name :: "keyword_token \<Rightarrow> string" where
  "keyword_name TOKEN_MUT = ''mut''"
| "keyword_name TOKEN_CONST = ''const''"
| "keyword_name TOKEN_DO = ''do''"
| "keyword_name TOKEN_RETURN = ''return''"
| "keyword_name TOKEN_IF = ''if''"
| "keyword_name TOKEN_OR_KEYWORD = ''or''"
| "keyword_name TOKEN_OTHERWISE = ''otherwise''"
| "keyword_name TOKEN_FOR = ''for''"
| "keyword_name TOKEN_FOR_EACH = ''for_each''"
| "keyword_name TOKEN_AS_LONG_AS = ''as_long_as''"
| "keyword_name TOKEN_LOOP = ''loop''"
| "keyword_name TOKEN_BREAK = ''break''"
| "keyword_name TOKEN_CONTINUE = ''continue''"
| "keyword_name TOKEN_IN = ''in''"
| "keyword_name TOKEN_NOT_IN = ''not_in''"
| "keyword_name TOKEN_RANGE = ''range''"
| "keyword_name TOKEN_IMPORT = ''import''"
| "keyword_name TOKEN_USING = ''using''"
| "keyword_name TOKEN_STRUCT = ''struct''"
| "keyword_name TOKEN_ENUM = ''enum''"
| "keyword_name TOKEN_NIL = ''nil''"
| "keyword_name TOKEN_NEW = ''new''"
| "keyword_name TOKEN_TRUE = ''true''"
| "keyword_name TOKEN_FALSE = ''false''"
| "keyword_name TOKEN_BLANK = ''_''"
| "keyword_name TOKEN_ENSURE = ''ensure''"
| "keyword_name TOKEN_OR_RETURN = ''or_return''"
| "keyword_name TOKEN_OR_DEFAULT = ''or_default''"
| "keyword_name TOKEN_OR_PANIC = ''or_panic''"
| "keyword_name TOKEN_EXTERN = ''extern''"
| "keyword_name TOKEN_GENERIC = ''generic''"
| "keyword_name TOKEN_PRIVATE = ''private''"
| "keyword_name TOKEN_UNSAFE = ''unsafe''"
| "keyword_name TOKEN_USE = ''use''"
| "keyword_name TOKEN_WHEN = ''when''"
| "keyword_name TOKEN_IS = ''is''"
| "keyword_name TOKEN_DEFAULT = ''default''"
| "keyword_name TOKEN_ALIAS = ''alias''"
| "keyword_name TOKEN_DISTINCT = ''distinct''"
| "keyword_name TOKEN_CAST = ''cast''"
| "keyword_name TOKEN_BIT_AND = ''bit_and''"
| "keyword_name TOKEN_BIT_OR = ''bit_or''"
| "keyword_name TOKEN_BIT_XOR = ''bit_xor''"
| "keyword_name TOKEN_BIT_NOT = ''bit_not''"
| "keyword_name TOKEN_BIT_SHIFT_LEFT = ''bit_shift_left''"
| "keyword_name TOKEN_BIT_SHIFT_RIGHT = ''bit_shift_right''"

fun token_type_name :: "TokenType \<Rightarrow> string" where
  "token_type_name TOKEN_ILLEGAL = ''ILLEGAL''"
| "token_type_name TOKEN_END_OF_FILE = ''EOF''"
| "token_type_name TOKEN_IDENTIFIER = ''IDENT''"
| "token_type_name TOKEN_INTEGER_LITERAL = ''INT''"
| "token_type_name TOKEN_FLOATING_POINT_LITERAL = ''FLOAT''"
| "token_type_name TOKEN_STRING = ''STRING''"
| "token_type_name TOKEN_RAW_STRING = ''RAW_STRING''"
| "token_type_name TOKEN_CHAR = ''CHAR''"
| "token_type_name (Operator t) = operator_name t"
| "token_type_name (Attribute t) = attribute_name t"
| "token_type_name (Keyword t) = keyword_name t"
| "token_type_name TOKEN_COUNT = ''COUNT''"

subsection \<open>The keyword table\<close>

definition keyword_table :: "(string \<times> keyword_token) list" where
  "keyword_table = [
    (''_'', TOKEN_BLANK),
    (''alias'', TOKEN_ALIAS),
    (''as_long_as'', TOKEN_AS_LONG_AS),
    (''bit_and'', TOKEN_BIT_AND),
    (''bit_not'', TOKEN_BIT_NOT),
    (''bit_or'', TOKEN_BIT_OR),
    (''bit_shift_left'', TOKEN_BIT_SHIFT_LEFT),
    (''bit_shift_right'', TOKEN_BIT_SHIFT_RIGHT),
    (''bit_xor'', TOKEN_BIT_XOR),
    (''break'', TOKEN_BREAK),
    (''case'', TOKEN_IS),
    (''cast'', TOKEN_CAST),
    (''const'', TOKEN_CONST),
    (''continue'', TOKEN_CONTINUE),
    (''default'', TOKEN_DEFAULT),
    (''defer'', TOKEN_ENSURE),
    (''distinct'', TOKEN_DISTINCT),
    (''do'', TOKEN_DO),
    (''elif'', TOKEN_OR_KEYWORD),
    (''else'', TOKEN_OTHERWISE),
    (''ensure'', TOKEN_ENSURE),
    (''enum'', TOKEN_ENUM),
    (''extern'', TOKEN_EXTERN),
    (''false'', TOKEN_FALSE),
    (''fn'', TOKEN_DO),
    (''for'', TOKEN_FOR),
    (''for_each'', TOKEN_FOR_EACH),
    (''generic'', TOKEN_GENERIC),
    (''if'', TOKEN_IF),
    (''import'', TOKEN_IMPORT),
    (''in'', TOKEN_IN),
    (''is'', TOKEN_IS),
    (''loop'', TOKEN_LOOP),
    (''mut'', TOKEN_MUT),
    (''new'', TOKEN_NEW),
    (''nil'', TOKEN_NIL),
    (''not_in'', TOKEN_NOT_IN),
    (''or'', TOKEN_OR_KEYWORD),
    (''or_default'', TOKEN_OR_DEFAULT),
    (''or_panic'', TOKEN_OR_PANIC),
    (''or_return'', TOKEN_OR_RETURN),
    (''otherwise'', TOKEN_OTHERWISE),
    (''private'', TOKEN_PRIVATE),
    (''range'', TOKEN_RANGE),
    (''return'', TOKEN_RETURN),
    (''struct'', TOKEN_STRUCT),
    (''switch'', TOKEN_WHEN),
    (''true'', TOKEN_TRUE),
    (''unsafe'', TOKEN_UNSAFE),
    (''use'', TOKEN_USE),
    (''using'', TOKEN_USING),
    (''when'', TOKEN_WHEN),
    (''while'', TOKEN_AS_LONG_AS)]"

text \<open>
  The comparison of a span with a keyword. A byte of the keyword past its end is the NUL that
  terminates it.
\<close>

fun keyword_span_compare :: "string \<Rightarrow> string \<Rightarrow> int" where
  "keyword_span_compare [] keyword = (if keyword = [] then 0 else -1)"
| "keyword_span_compare (c # span) [] = 1"
| "keyword_span_compare (c # span) (k # keyword) =
     (if k = CHR 0x00 then 1
      else if c \<noteq> k then of_char c - of_char k
      else keyword_span_compare span keyword)"

text \<open>
  The binary search over \<open>[low, high]\<close>; the bounds are the source's signed integers. The result
  is the pair the source stores through its out parameters.
\<close>

function lookup_loop :: "string \<Rightarrow> int \<Rightarrow> int \<Rightarrow> (keyword_token \<times> string) option" where
  "lookup_loop identifier low high =
     (if low \<le> high
      then let middle = (low + high) div 2;
               entry = keyword_table ! nat middle;
               comparison = keyword_span_compare identifier (fst entry)
           in if comparison = 0 then Some (snd entry, fst entry)
              else if comparison < 0 then lookup_loop identifier low (middle - 1)
              else lookup_loop identifier (middle + 1) high
      else None)"
  by pat_completeness auto
termination
  by (relation "measure (\<lambda>(_, low, high). nat (high - low + 1))") auto

declare lookup_loop.simps [simp del]

definition token_lookup_keyword_with_length :: "string \<Rightarrow> (keyword_token \<times> string) option" where
  "token_lookup_keyword_with_length identifier =
     lookup_loop identifier 0 (int (length keyword_table) - 1)"

definition token_type_is_keyword :: "TokenType \<Rightarrow> bool" where
  "token_type_is_keyword type = list_ex (\<lambda>entry. Keyword (snd entry) = type) keyword_table"

definition INT_MAX :: nat where
  "INT_MAX = 2147483647"

definition token_display_name :: "TokenType \<Rightarrow> string option \<Rightarrow> string" where
  "token_display_name type literal =
     (case literal of
        None \<Rightarrow> token_type_name type
      | Some text \<Rightarrow>
          if length text \<le> INT_MAX \<and>
             (case token_lookup_keyword_with_length text of
                None \<Rightarrow> False
              | Some (keyword_type, keyword_text) \<Rightarrow> Keyword keyword_type = type)
          then text else token_type_name type)"

subsection \<open>The search is a lookup in the table\<close>

lemma keyword_span_compare_order:
  assumes "CHR 0x00 \<notin> set keyword"
  shows "keyword_span_compare span keyword = 0 \<longleftrightarrow> span = keyword"
    "keyword_span_compare span keyword < 0 \<longleftrightarrow> span < keyword"
  using assms
proof (induction span keyword rule: keyword_span_compare.induct)
  case (3 c span k keyword)
  have c: "(of_char c :: int) < of_char k \<longleftrightarrow> c < k"
    by (simp add: less_char_def flip: of_nat_of_char [where 'a = int])
  have e: "(of_char c :: int) = of_char k \<longleftrightarrow> c = k" by simp
  {
    case 1
    then show ?case using 3 e by auto
  next
    case 2
    then show ?case using 3 c by auto
  }
next
  case (1 keyword)
  {
    case 2
    then show ?case by (cases keyword) auto
  }
qed auto

lemma keyword_table_sorted: "sorted_wrt (<) (map fst keyword_table)"
  unfolding keyword_table_def by code_simp

lemma keyword_table_no_NUL: "list_all (\<lambda>entry. CHR 0x00 \<notin> set (fst entry)) keyword_table"
  unfolding keyword_table_def by code_simp

lemma keyword_at:
  assumes "i < length keyword_table"
  shows "CHR 0x00 \<notin> set (fst (keyword_table ! i))"
  using keyword_table_no_NUL assms by (simp add: list_all_length)

lemma keyword_order:
  assumes "i < j" "j < length keyword_table"
  shows "fst (keyword_table ! i) < fst (keyword_table ! j)"
  using sorted_wrt_nth_less [OF keyword_table_sorted assms(1)] assms by simp

lemma lookup_loop_sound:
  "lookup_loop ident low high = Some (t, k) \<Longrightarrow> 0 \<le> low \<Longrightarrow> high < int (length keyword_table) \<Longrightarrow>
     k = ident \<and> (ident, t) \<in> set keyword_table"
proof (induction ident low high rule: lookup_loop.induct)
  case (1 ident low high)
  define m where "m = (low + high) div 2"
  have "low \<le> high" using 1(3) by (simp add: lookup_loop.simps split: if_splits)
  then have m: "low \<le> m" "m \<le> high" "nat m < length keyword_table"
    using 1(4,5) by (auto simp: m_def)
  let ?e = "keyword_table ! nat m"
  have eq: "lookup_loop ident low high =
     (if keyword_span_compare ident (fst ?e) = 0 then Some (snd ?e, fst ?e)
      else if keyword_span_compare ident (fst ?e) < 0 then lookup_loop ident low (m - 1)
      else lookup_loop ident (m + 1) high)"
    using \<open>low \<le> high\<close> by (subst lookup_loop.simps) (simp add: Let_def flip: m_def)
  show ?case
  proof (cases "keyword_span_compare ident (fst ?e) = 0")
    case True
    then have "ident = fst ?e" using keyword_span_compare_order(1) [OF keyword_at [OF m(3)]] by simp
    then show ?thesis using 1(3) True nth_mem [OF m(3)] eq by (metis option.inject prod.collapse prod.inject)
  next
    case False
    then show ?thesis
      using 1(1,2) [OF \<open>low \<le> high\<close> m_def refl refl False] 1(3-5) m unfolding eq by (auto split: if_splits)
  qed
qed

lemma lookup_loop_complete:
  "low \<le> int i \<Longrightarrow> int i \<le> high \<Longrightarrow> 0 \<le> low \<Longrightarrow> high < int (length keyword_table) \<Longrightarrow>
     ident = fst (keyword_table ! i) \<Longrightarrow> lookup_loop ident low high = Some (snd (keyword_table ! i), ident)"
proof (induction ident low high rule: lookup_loop.induct)
  case (1 ident low high)
  define m where "m = (low + high) div 2"
  have "low \<le> high" using 1 by simp
  then have m: "low \<le> m" "m \<le> high" "nat m < length keyword_table"
    using 1(5,6) by (auto simp: m_def)
  let ?e = "keyword_table ! nat m"
  note order = keyword_span_compare_order [OF keyword_at [OF m(3)], of ident]
  have eq: "lookup_loop ident low high =
     (if keyword_span_compare ident (fst ?e) = 0 then Some (snd ?e, fst ?e)
      else if keyword_span_compare ident (fst ?e) < 0 then lookup_loop ident low (m - 1)
      else lookup_loop ident (m + 1) high)"
    using \<open>low \<le> high\<close> by (subst lookup_loop.simps) (simp add: Let_def flip: m_def)
  have i: "i < length keyword_table" using 1(4,6) by linarith
  consider "i = nat m" | "i < nat m" | "nat m < i" by linarith
  then show ?case
  proof cases
    case 1
    then show ?thesis using "1.prems"(5) order unfolding eq by simp
  next
    case 2
    then have less: "ident < fst ?e" using keyword_order [OF 2 m(3)] "1.prems" by simp
    then show ?thesis using order 2 m 1(1) [OF \<open>low \<le> high\<close> m_def refl refl] "1.prems" unfolding eq by auto
  next
    case 3
    then have "fst ?e < ident" using keyword_order [OF 3 i] "1.prems" by simp
    then have "\<not> ident < fst ?e" "ident \<noteq> fst ?e" by auto
    then show ?thesis using order 3 m 1(2) [OF \<open>low \<le> high\<close> m_def refl refl] "1.prems" unfolding eq by auto
  qed
qed

lemma token_lookup_is_map_of:
  "token_lookup_keyword_with_length ident = map_option (\<lambda>t. (t, ident)) (map_of keyword_table ident)"
proof (cases "map_of keyword_table ident")
  case None
  then have "ident \<notin> fst ` set keyword_table" by (simp add: map_of_eq_None_iff)
  then show ?thesis
    using None lookup_loop_sound [of ident 0 "int (length keyword_table) - 1"]
    by (cases "token_lookup_keyword_with_length ident")
       (force simp: token_lookup_keyword_with_length_def image_iff)+
next
  case (Some t)
  then obtain i where i: "i < length keyword_table" "keyword_table ! i = (ident, t)"
    using map_of_SomeD [OF Some] by (auto simp: in_set_conv_nth)
  then show ?thesis
    using Some lookup_loop_complete [of 0 i "int (length keyword_table) - 1" ident]
    by (simp add: token_lookup_keyword_with_length_def)
qed

end
