(* ===== verification/Utf8.thy ===== *)
theory Utf8
  imports Prelude
begin

text \<open>
  The UTF-8 decoder of \<open>grayc/src/stdlib/utf8.h\<close>, and the encoder inside
  \<open>expand_unicode_escapes\<close> (\<open>grayc/src/lexer/lexer.c\<close>). A cursor is the function reading the
  byte at an offset from it, with the number of bytes before the end pointer. An \<open>int32_t\<close>
  codepoint is a 32-bit word; every value here is below \<open>0x110000\<close>.
\<close>

subsection \<open>Decoder\<close>

text \<open>The lead byte of a longer sequence: first bits, length, bounds of the second byte.\<close>

definition utf8_lead :: "u8 \<Rightarrow> (u32 \<times> nat \<times> u8 \<times> u8) option" where
  "utf8_lead lead_byte =
     (if 0xC2 \<le> lead_byte \<and> lead_byte \<le> 0xDF then Some (ucast (lead_byte AND 0x1F), 2, 0x80, 0xBF)
      else if 0xE0 \<le> lead_byte \<and> lead_byte \<le> 0xEF
      then Some (ucast (lead_byte AND 0x0F), 3, if lead_byte = 0xE0 then 0xA0 else 0x80,
                 if lead_byte = 0xED then 0x9F else 0xBF)
      else if 0xF0 \<le> lead_byte \<and> lead_byte \<le> 0xF4
      then Some (ucast (lead_byte AND 0x07), 4, if lead_byte = 0xF0 then 0x90 else 0x80,
                 if lead_byte = 0xF4 then 0x8F else 0xBF)
      else None)"

definition shift_in_byte :: "u32 \<Rightarrow> u8 \<Rightarrow> u32" where
  "shift_in_byte codepoint b = push_bit 6 codepoint OR ucast (b AND 0x3F)"

function utf8_continuation :: "(nat \<Rightarrow> u8) \<Rightarrow> nat \<Rightarrow> nat \<Rightarrow> u32 \<Rightarrow> u32 \<times> nat" where
  "utf8_continuation byte_at bytes index codepoint =
     (if index < bytes
      then if byte_at index AND 0xC0 \<noteq> 0x80 then (0xFFFD, 1)
           else utf8_continuation byte_at bytes (index + 1) (shift_in_byte codepoint (byte_at index))
      else (codepoint, bytes))"
  by pat_completeness auto
termination by (relation "measure (\<lambda>(_, bytes, index, _). bytes - index)") auto

declare utf8_continuation.simps [simp del]

definition gray_utf8_decode :: "(nat \<Rightarrow> u8) \<Rightarrow> nat \<Rightarrow> u32 \<times> nat" where
  "gray_utf8_decode byte_at available =
     (let lead_byte = byte_at 0
      in if lead_byte < 0x80 then (ucast lead_byte, 1)
         else case utf8_lead lead_byte of
           None \<Rightarrow> (0xFFFD, 1)
         | Some (codepoint, bytes, second_min, second_max) \<Rightarrow>
             if available < bytes then (0xFFFD, 1)
             else if byte_at 1 < second_min \<or> second_max < byte_at 1 then (0xFFFD, 1)
             else utf8_continuation byte_at bytes 2 (shift_in_byte codepoint (byte_at 1)))"

text \<open>
  The scan back over at most three bytes, \<open>back\<close> counting up. \<open>int32_t\<close> indices; a negative
  index returns itself.
\<close>

function char_start_scan :: "(nat \<Rightarrow> u8) \<Rightarrow> nat \<Rightarrow> nat \<Rightarrow> nat \<Rightarrow> nat" where
  "char_start_scan data len index back =
     (if back \<le> 3 \<and> back \<le> index
      then let (codepoint, consumed) = gray_utf8_decode (\<lambda>i. data (index - back + i)) (len - (index - back))
           in if back < consumed then index - back else char_start_scan data len index (back + 1)
      else index)"
  by pat_completeness auto
termination by (relation "measure (\<lambda>(_, _, _, back). 4 - back)") auto

declare char_start_scan.simps [simp del]

definition gray_utf8_char_start :: "(nat \<Rightarrow> u8) \<Rightarrow> int \<Rightarrow> int \<Rightarrow> int" where
  "gray_utf8_char_start data len index =
     (if index \<le> 0 \<or> len \<le> index \<or> data (nat index) AND 0xC0 \<noteq> 0x80 then index
      else int (char_start_scan data (nat len) (nat index) 1))"

subsection \<open>Encoder\<close>

definition utf8_encode :: "u32 \<Rightarrow> u8 list" where
  "utf8_encode codepoint =
     (if codepoint < 0x80 then [ucast codepoint]
      else if codepoint < 0x800
      then [ucast (0xC0 OR drop_bit 6 codepoint), ucast (0x80 OR (codepoint AND 0x3F))]
      else if codepoint < 0x10000
      then [ucast (0xE0 OR drop_bit 12 codepoint), ucast (0x80 OR (drop_bit 6 codepoint AND 0x3F)),
            ucast (0x80 OR (codepoint AND 0x3F))]
      else [ucast (0xF0 OR drop_bit 18 codepoint), ucast (0x80 OR (drop_bit 12 codepoint AND 0x3F)),
            ucast (0x80 OR (drop_bit 6 codepoint AND 0x3F)), ucast (0x80 OR (codepoint AND 0x3F))])"

text \<open>A Unicode scalar value: a codepoint that is not a surrogate.\<close>

definition is_scalar :: "u32 \<Rightarrow> bool" where
  "is_scalar c \<longleftrightarrow> c \<le> 0x10FFFF \<and> \<not> (0xD800 \<le> c \<and> c \<le> 0xDFFF)"

subsection \<open>Bit fields as arithmetic\<close>

lemma uint_and_mask: "uint (x AND mask n) = uint x mod 2 ^ n"
  by (simp only: take_bit_eq_mask [symmetric] unsigned_take_bit_eq) (simp only: take_bit_eq_mod)

lemma masks:
  "(0x3F :: 'a::len word) = mask 6" "(0x1F :: 'a::len word) = mask 5"
  "(0x0F :: 'a::len word) = mask 4" "(0x07 :: 'a::len word) = mask 3"
  by (simp_all add: mask_eq_exp_minus_1)

lemma or_disjoint:
  assumes "0 \<le> (b::int)" "b < 2 ^ n"
  shows "(2 ^ n * a) OR b = 2 ^ n * a + b"
proof -
  have low: "bit b k \<Longrightarrow> k < n" for k
    using assms by (metis bit_take_bit_iff take_bit_int_eq_self)
  have "push_bit n a + b = push_bit n a OR b"
    by (rule disjunctive_add) (use low not_le in \<open>auto simp: bit_push_bit_iff\<close>)
  then show ?thesis by (simp add: push_bit_eq_mult mult.commute)
qed

lemma uint_drop_bit: "uint (drop_bit n (x :: u32)) = uint x div 2 ^ n"
  using uint_bounded [of x] by (simp only: unsigned_drop_bit_eq) (simp add: drop_bit_eq_div take_bit_int_eq_self)

lemma uint_shift_in_byte:
  assumes "uint codepoint < 2 ^ 26"
  shows "uint (shift_in_byte codepoint b) = 64 * uint codepoint + uint b mod 64"
proof -
  have "uint (push_bit 6 codepoint) = 2 ^ 6 * uint codepoint"
    using assms by (simp only: unsigned_push_bit_eq) (simp add: push_bit_eq_mult take_bit_int_eq_self mult.commute)
  moreover have "uint (ucast (b AND mask 6) :: u32) = uint b mod 2 ^ 6"
    using uint_and_mask [of b 6] by (simp add: unsigned_ucast_eq take_bit_int_eq_self)
  moreover have "uint b mod 2 ^ 6 < 2 ^ 6" "0 \<le> uint b mod 2 ^ 6" by simp_all
  ultimately show ?thesis
    unfolding shift_in_byte_def masks unsigned_or_eq using or_disjoint [of "uint b mod 2 ^ 6" 6 "uint codepoint"] by simp
qed

lemma lead_bits:
  "uint (ucast (b AND 0x1F :: u8) :: u32) = uint b mod 32"
  "uint (ucast (b AND 0x0F :: u8) :: u32) = uint b mod 16"
  "uint (ucast (b AND 0x07 :: u8) :: u32) = uint b mod 8"
  unfolding masks using uint_and_mask [of b 5] uint_and_mask [of b 4] uint_and_mask [of b 3]
  by (simp_all add: unsigned_ucast_eq take_bit_int_eq_self)

lemma uint8_less: "uint (b :: u8) < 256"
  using uint_bounded [of b] by simp

lemma continuation_iff: "(b :: u8) AND 0xC0 = 0x80 \<longleftrightarrow> uint b div 64 = 2"
proof -
  have "uint (b AND 0xC0) = uint b AND push_bit 6 (mask 2)"
    by (simp add: unsigned_and_eq push_bit_eq_mult mask_eq_exp_minus_1)
  also have "\<dots> = push_bit 6 (drop_bit 6 (uint b))"
    by (rule bit_eqI) (auto simp: bit_simps dest: bit_imp_le_length)
  also have "\<dots> = 64 * (uint b div 64)" by (simp add: push_bit_eq_mult drop_bit_eq_div)
  finally have "uint (b AND 0xC0) = 64 * (uint b div 64)" .
  then show ?thesis by (simp add: word_uint_eq_iff)
qed

lemma encoded_byte:
  assumes "0 \<le> x" "x < 2 ^ n" "uint y = x" "K = 2 ^ n * k" "0 \<le> k" "K + x < 256" "uint w = K"
  shows "uint (ucast (w OR y :: u32) :: u8) = K + x"
proof -
  have "uint (w OR y) = K + x" using assms or_disjoint [of x n k] by (simp only: unsigned_or_eq)
  then show ?thesis using assms by (simp add: unsigned_ucast_eq take_bit_int_eq_self)
qed

lemma encoded_continuation: "uint (ucast (0x80 OR (y AND 0x3F) :: u32) :: u8) = 128 + uint y mod 64"
  unfolding masks using uint_and_mask [of y 6]
  by (intro encoded_byte [where n = 6 and k = 2]) (simp_all add: add_strict_mono)

subsection \<open>Encoding and decoding are inverse\<close>

text \<open>The bytes of a codepoint, as numbers.\<close>

definition utf8_numbers :: "int \<Rightarrow> int list" where
  "utf8_numbers c =
     (if c < 0x80 then [c]
      else if c < 0x800 then [192 + c div 64, 128 + c mod 64]
      else if c < 0x10000 then [224 + c div 4096, 128 + c div 64 mod 64, 128 + c mod 64]
      else [240 + c div 262144, 128 + c div 4096 mod 64, 128 + c div 64 mod 64, 128 + c mod 64])"

lemma utf8_encode_numbers:
  assumes "c \<le> 0x10FFFF"
  shows "map uint (utf8_encode c) = utf8_numbers (uint c)"
proof -
  obtain C where C: "uint c = C" "0 \<le> C" "C < 0x110000"
    using assms by (simp add: word_le_def)
  have "uint (ucast (0xC0 OR drop_bit 6 c) :: u8) = 192 + C div 64" if "C < 0x800"
    using that C by (intro encoded_byte [where n = 5 and k = 6]) (simp_all add: uint_drop_bit)
  moreover have "uint (ucast (0xE0 OR drop_bit 12 c) :: u8) = 224 + C div 4096" if "C < 0x10000"
    using that C by (intro encoded_byte [where n = 4 and k = 14]) (simp_all add: uint_drop_bit)
  moreover have "uint (ucast (0xF0 OR drop_bit 18 c) :: u8) = 240 + C div 262144"
    using C by (intro encoded_byte [where n = 3 and k = 30]) (simp_all add: uint_drop_bit)
  moreover have "uint (ucast c :: u8) = C" if "C < 0x80"
    using that C by (simp add: unsigned_ucast_eq take_bit_int_eq_self)
  ultimately show ?thesis
    using C by (simp add: utf8_encode_def utf8_numbers_def word_less_def encoded_continuation uint_drop_bit)
qed

text \<open>What the decoder does on each kind of lead byte.\<close>

lemmas continuation_steps =
  utf8_continuation.simps [of _ 2 2] utf8_continuation.simps [of _ 3 2] utf8_continuation.simps [of _ 3 3]
  utf8_continuation.simps [of _ 4 2] utf8_continuation.simps [of _ 4 3] utf8_continuation.simps [of _ 4 4]

lemma byte_le_iff: "(a :: u8) \<le> b \<longleftrightarrow> uint a \<le> uint b" "a < b \<longleftrightarrow> uint a < uint b"
  by (simp_all add: word_le_def word_less_def)

lemma decode_1: "uint (byte_at 0) < 128 \<Longrightarrow> gray_utf8_decode byte_at n = (ucast (byte_at 0), 1)"
  by (simp add: gray_utf8_decode_def byte_le_iff)

lemma decode_invalid_lead:
  "128 \<le> uint (byte_at 0) \<Longrightarrow> uint (byte_at 0) < 0xC2 \<or> 0xF4 < uint (byte_at 0) \<Longrightarrow>
    gray_utf8_decode byte_at n = (0xFFFD, 1)"
  by (auto simp: gray_utf8_decode_def utf8_lead_def byte_le_iff)

lemma decode_2:
  assumes "0xC2 \<le> uint (byte_at 0)" "uint (byte_at 0) \<le> 0xDF"
  shows "gray_utf8_decode byte_at n =
    (if 2 \<le> n \<and> 128 \<le> uint (byte_at 1) \<and> uint (byte_at 1) \<le> 191
     then (shift_in_byte (ucast (byte_at 0 AND 0x1F)) (byte_at 1), 2) else (0xFFFD, 1))"
proof -
  have "utf8_lead (byte_at 0) = Some (ucast (byte_at 0 AND 0x1F), 2, 0x80, 0xBF)"
    using assms by (simp add: utf8_lead_def byte_le_iff)
  then show ?thesis using assms
    by (simp add: gray_utf8_decode_def) (auto simp: byte_le_iff continuation_steps)
qed

lemma decode_3:
  assumes "0xE0 \<le> uint (byte_at 0)" "uint (byte_at 0) \<le> 0xEF"
  shows "gray_utf8_decode byte_at n =
    (if 3 \<le> n \<and> (if uint (byte_at 0) = 0xE0 then 0xA0 else 128) \<le> uint (byte_at 1) \<and>
        uint (byte_at 1) \<le> (if uint (byte_at 0) = 0xED then 0x9F else 191) \<and> uint (byte_at 2) div 64 = 2
     then (shift_in_byte (shift_in_byte (ucast (byte_at 0 AND 0x0F)) (byte_at 1)) (byte_at 2), 3)
     else (0xFFFD, 1))"
proof -
  have "utf8_lead (byte_at 0) = Some (ucast (byte_at 0 AND 0x0F), 3,
      if uint (byte_at 0) = 0xE0 then 0xA0 else 0x80, if uint (byte_at 0) = 0xED then 0x9F else 0xBF)"
    using assms by (simp add: utf8_lead_def byte_le_iff word_uint_eq_iff)
  then show ?thesis using assms
    by (simp add: gray_utf8_decode_def) (auto simp: byte_le_iff continuation_steps continuation_iff)
qed

lemma decode_4:
  assumes "0xF0 \<le> uint (byte_at 0)" "uint (byte_at 0) \<le> 0xF4"
  shows "gray_utf8_decode byte_at n =
    (if 4 \<le> n \<and> (if uint (byte_at 0) = 0xF0 then 0x90 else 128) \<le> uint (byte_at 1) \<and>
        uint (byte_at 1) \<le> (if uint (byte_at 0) = 0xF4 then 0x8F else 191) \<and>
        uint (byte_at 2) div 64 = 2 \<and> uint (byte_at 3) div 64 = 2
     then (shift_in_byte (shift_in_byte (shift_in_byte (ucast (byte_at 0 AND 0x07)) (byte_at 1)) (byte_at 2)) (byte_at 3), 4)
     else (0xFFFD, 1))"
proof -
  have "utf8_lead (byte_at 0) = Some (ucast (byte_at 0 AND 0x07), 4,
      if uint (byte_at 0) = 0xF0 then 0x90 else 0x80, if uint (byte_at 0) = 0xF4 then 0x8F else 0xBF)"
    using assms by (simp add: utf8_lead_def byte_le_iff word_uint_eq_iff)
  then show ?thesis using assms
    by (simp add: gray_utf8_decode_def) (auto simp: byte_le_iff continuation_steps continuation_iff)
qed

lemma decoded_values:
  fixes b0 b1 b2 b3 :: u8
  shows "uint (shift_in_byte (ucast (b0 AND 0x1F)) b1) = 64 * (uint b0 mod 32) + uint b1 mod 64"
  "uint (shift_in_byte (shift_in_byte (ucast (b0 AND 0x0F)) b1) b2)
     = 4096 * (uint b0 mod 16) + 64 * (uint b1 mod 64) + uint b2 mod 64"
  "uint (shift_in_byte (shift_in_byte (shift_in_byte (ucast (b0 AND 0x07)) b1) b2) b3)
     = 262144 * (uint b0 mod 8) + 4096 * (uint b1 mod 64) + 64 * (uint b2 mod 64) + uint b3 mod 64"
proof -
  have m: "uint (b :: u8) mod 64 < 64" "uint b mod 32 < 32" "uint b mod 16 < 16" "uint b mod 8 < 8" for b by simp_all
  have 1: "uint (shift_in_byte (ucast (b0 AND 0x1F)) b1) = 64 * (uint b0 mod 32) + uint b1 mod 64"
    using m(2) [of b0] by (subst uint_shift_in_byte) (simp_all add: lead_bits)
  have 2: "uint (shift_in_byte (ucast (b0 AND 0x0F)) b1) = 64 * (uint b0 mod 16) + uint b1 mod 64"
    using m(3) [of b0] by (subst uint_shift_in_byte) (simp_all add: lead_bits)
  have 3: "uint (shift_in_byte (ucast (b0 AND 0x07)) b1) = 64 * (uint b0 mod 8) + uint b1 mod 64"
    using m(4) [of b0] by (subst uint_shift_in_byte) (simp_all add: lead_bits)
  have 4: "uint (shift_in_byte (shift_in_byte (ucast (b0 AND 0x07)) b1) b2)
     = 4096 * (uint b0 mod 8) + 64 * (uint b1 mod 64) + uint b2 mod 64"
    using m(4) [of b0] m(1) [of b1] by (subst uint_shift_in_byte; simp add: 3)
  show "uint (shift_in_byte (ucast (b0 AND 0x1F)) b1) = 64 * (uint b0 mod 32) + uint b1 mod 64" by (rule 1)
  show "uint (shift_in_byte (shift_in_byte (ucast (b0 AND 0x0F)) b1) b2)
     = 4096 * (uint b0 mod 16) + 64 * (uint b1 mod 64) + uint b2 mod 64"
    using m(3) [of b0] m(1) [of b1] by (subst uint_shift_in_byte; simp add: 2)
  show "uint (shift_in_byte (shift_in_byte (shift_in_byte (ucast (b0 AND 0x07)) b1) b2) b3)
     = 262144 * (uint b0 mod 8) + 4096 * (uint b1 mod 64) + 64 * (uint b2 mod 64) + uint b3 mod 64"
    using m(4) [of b0] m(1) [of b1] m(1) [of b2] by (subst uint_shift_in_byte; simp add: 4)
qed

lemma codepoint_eqI: "uint c = uint d \<Longrightarrow> c = (d :: u32)"
  by (simp add: word_uint_eq_iff)

text \<open>Base-64 digits of a codepoint.\<close>

lemma base64_digits:
  assumes "0 \<le> (C :: int)"
  obtains a b d e where "C = 262144 * a + 4096 * b + 64 * d + e" "0 \<le> a" "0 \<le> b" "b < 64" "0 \<le> d" "d < 64" "0 \<le> e" "e < 64"
    "C div 262144 = a" "C div 4096 = 64 * a + b" "C div 4096 mod 64 = b" "C div 64 = 4096 * a + 64 * b + d"
    "C div 64 mod 64 = d" "C mod 64 = e"
proof -
  have n: "C div 4096 = C div 64 div 64" "C div 262144 = C div 4096 div 64"
    using zdiv_zmult2_eq [of 64 C 64] zdiv_zmult2_eq [of 64 C 4096] by simp_all
  have m: "C = 64 * (C div 64) + C mod 64" "C div 64 = 64 * (C div 4096) + C div 64 mod 64"
    "C div 4096 = 64 * (C div 262144) + C div 4096 mod 64"
    unfolding n by simp_all
  show ?thesis
  proof (rule that)
    show "C div 4096 = 64 * (C div 262144) + C div 4096 mod 64" by (rule m)
    show "C div 64 = 4096 * (C div 262144) + 64 * (C div 4096 mod 64) + C div 64 mod 64" using m(2,3) by linarith
    show "C = 262144 * (C div 262144) + 4096 * (C div 4096 mod 64) + 64 * (C div 64 mod 64) + C mod 64"
      using m by linarith
  qed (use assms in \<open>simp_all add: pos_imp_zdiv_nonneg_iff\<close>)
qed

lemma field_mod: "0 \<le> x \<Longrightarrow> x < m \<Longrightarrow> (k * m + x) mod m = (x :: int)"
  by (simp only: mod_mult_self3 mod_pos_pos_trivial)

lemma field_mods:
  fixes x :: int
  shows "0 \<le> x \<Longrightarrow> x < 32 \<Longrightarrow> (192 + x) mod 32 = x"
    and "0 \<le> x \<Longrightarrow> x < 16 \<Longrightarrow> (224 + x) mod 16 = x"
    and "0 \<le> x \<Longrightarrow> x < 8 \<Longrightarrow> (240 + x) mod 8 = x"
    and "0 \<le> x \<Longrightarrow> x < 64 \<Longrightarrow> (128 + x) mod 64 = x"
    and "0 \<le> x \<Longrightarrow> x < 64 \<Longrightarrow> (128 + x) div 64 = 2"
  using field_mod [of x 32 6] field_mod [of x 16 14] field_mod [of x 8 30] field_mod [of x 64 2]
  by (simp, simp, simp, simp) (rule div_pos_geq [THEN trans, rotated 2], simp_all add: div_pos_geq)

lemma decode_encode:
  assumes "is_scalar c" and at: "\<And>i. i < length (utf8_encode c) \<Longrightarrow> byte_at i = utf8_encode c ! i"
    and "length (utf8_encode c) \<le> n"
  shows "gray_utf8_decode byte_at n = (c, length (utf8_encode c))"
proof -
  obtain C where C: "uint c = C" "0 \<le> C" "C < 0x110000" "C < 0xD800 \<or> 0xDFFF < C"
    using assms(1) by (auto simp: is_scalar_def word_le_def)
  have enc: "map uint (utf8_encode c) = utf8_numbers C"
    using utf8_encode_numbers [of c] assms(1) C(1) by (simp add: is_scalar_def)
  then have len: "length (utf8_encode c) = length (utf8_numbers C)" by (metis length_map)
  have num: "uint (byte_at i) = utf8_numbers C ! i" if "i < length (utf8_numbers C)" for i
    using at [of i] that enc by (metis len nth_map)
  obtain a b d e where v: "C = 262144 * a + 4096 * b + 64 * d + e"
    and r: "0 \<le> a" "0 \<le> b" "b < 64" "0 \<le> d" "d < 64" "0 \<le> e" "e < 64"
    and q: "C div 262144 = a" "C div 4096 = 64 * a + b" "C div 4096 mod 64 = b" "C div 64 = 4096 * a + 64 * b + d"
    "C div 64 mod 64 = d" "C mod 64 = e" using C(2) by (rule base64_digits)
  consider "C < 0x80" | "0x80 \<le> C" "C < 0x800" | "0x800 \<le> C" "C < 0x10000" | "0x10000 \<le> C" by linarith
  then show ?thesis
  proof cases
    case 1
    then show ?thesis using num [of 0] len C
      by (subst decode_1) (auto simp: utf8_numbers_def unsigned_ucast_eq take_bit_int_eq_self intro: codepoint_eqI)
  next
    case 2
    then have z: "a = 0" "b = 0" using v r by linarith+
    have n: "utf8_numbers C = [192 + d, 128 + e]" using 2 z by (simp add: utf8_numbers_def q(4,6))
    then have b: "uint (byte_at 0) = 192 + d" "uint (byte_at 1) = 128 + e" using num [of 0] num [of 1] by simp_all
    have d: "2 \<le> d" "d < 32" using 2 v z r by linarith+
    have "shift_in_byte (ucast (byte_at 0 AND 0x1F)) (byte_at 1) = c"
      by (rule codepoint_eqI) (use b d r z v C(1) in \<open>simp add: decoded_values field_mods\<close>)
    then show ?thesis using b d r assms(3) len n by (subst decode_2) (simp_all add: field_mods)
  next
    case 3
    then have z: "a = 0" "b < 16" using v r by linarith+
    have n: "utf8_numbers C = [224 + b, 128 + d, 128 + e]" using 3 z by (simp add: utf8_numbers_def q(2,5,6))
    then have b: "uint (byte_at 0) = 224 + b" "uint (byte_at 1) = 128 + d" "uint (byte_at 2) = 128 + e"
      using num [of 0] num [of 1] num [of 2] by simp_all
    have d: "b = 0 \<Longrightarrow> 32 \<le> d" "b = 13 \<Longrightarrow> d \<le> 31" using 3 v z r C(4) by linarith+
    have "shift_in_byte (shift_in_byte (ucast (byte_at 0 AND 0x0F)) (byte_at 1)) (byte_at 2) = c"
      by (rule codepoint_eqI) (use b d r z v C(1) in \<open>simp add: decoded_values field_mods\<close>)
    then show ?thesis using b d r z assms(3) len n by (subst decode_3) (simp_all add: field_mods)
  next
    case 4
    then have z: "a < 5" using v r C(3) by linarith
    have n: "utf8_numbers C = [240 + a, 128 + b, 128 + d, 128 + e]" using 4 by (simp add: utf8_numbers_def q(1,3,5,6))
    then have b: "uint (byte_at 0) = 240 + a" "uint (byte_at 1) = 128 + b" "uint (byte_at 2) = 128 + d" "uint (byte_at 3) = 128 + e"
      using num [of 0] num [of 1] num [of 2] num [of 3] by simp_all
    have d: "a = 0 \<Longrightarrow> 16 \<le> b" "a = 4 \<Longrightarrow> b \<le> 15" using 4 v z r C(3) by linarith+
    have "shift_in_byte (shift_in_byte (shift_in_byte (ucast (byte_at 0 AND 0x07)) (byte_at 1)) (byte_at 2)) (byte_at 3) = c"
      by (rule codepoint_eqI) (use b d r z v C(1) in \<open>simp add: decoded_values field_mods\<close>)
    then show ?thesis using b d r z assms(3) len n by (subst decode_4) (simp_all add: field_mods)
  qed
qed

lemma base64_unique:
  assumes "C = 262144 * a + 4096 * b + 64 * d + e" "0 \<le> a" "0 \<le> b" "b < 64" "0 \<le> d" "d < 64" "0 \<le> e" "e < (64::int)"
  shows "C div 262144 = a" "C div 4096 = 64 * a + b" "C div 4096 mod 64 = b" "C div 64 = 4096 * a + 64 * b + d"
    "C div 64 mod 64 = d" "C mod 64 = e"
proof -
  have 1: "C div 64 = 4096 * a + 64 * b + d" "C mod 64 = e"
    using assms by (auto intro!: int_div_pos_eq [of _ _ _ e] int_mod_pos_eq [of _ _ "4096 * a + 64 * b + d"])
  have 2: "(4096 * a + 64 * b + d) div 64 = 64 * a + b" "(4096 * a + 64 * b + d) mod 64 = d"
    using assms by (auto intro!: int_div_pos_eq [of _ _ _ d] int_mod_pos_eq [of _ _ "64 * a + b"])
  have 3: "(64 * a + b) div 64 = a" "(64 * a + b) mod 64 = b"
    using assms by (auto intro!: int_div_pos_eq [of _ _ _ b] int_mod_pos_eq [of _ _ a])
  have n: "C div 4096 = C div 64 div 64" "C div 262144 = C div 4096 div 64"
    using zdiv_zmult2_eq [of 64 C 64] zdiv_zmult2_eq [of 64 C 4096] by simp_all
  show "C div 262144 = a" "C div 4096 = 64 * a + b" "C div 4096 mod 64 = b" "C div 64 = 4096 * a + 64 * b + d"
    "C div 64 mod 64 = d" "C mod 64 = e"
    by (simp_all only: n 1 2 3)
qed

lemma is_scalar_uint: "is_scalar c \<longleftrightarrow> uint c < 0x110000 \<and> \<not> (0xD800 \<le> uint c \<and> uint c < 0xE000)"
  by (auto simp: is_scalar_def word_le_def)

lemma bytes_of_numbers:
  assumes "c \<le> 0x10FFFF" "map uint bs = utf8_numbers (uint c)"
  shows "bs = utf8_encode c"
proof -
  have "inj (uint :: u8 \<Rightarrow> int)" by (rule injI) (simp add: word_uint_eq_iff)
  moreover have "map uint bs = map uint (utf8_encode c)" using assms utf8_encode_numbers by simp
  ultimately show ?thesis by (simp only: inj_map_eq_map)
qed

lemma short_upt: "[0..<2] = [0, 1]" "[0..<3] = [0, 1, 2]" "[0..<4] = [0, 1, 2, 3 :: nat]"
  by (simp_all add: upt_rec)

lemma continuation_range: "(x :: int) div 64 = 2 \<Longrightarrow> 128 \<le> x \<and> x < 192"
  by presburger

text \<open>Whatever the decoder accepts as a whole sequence is the encoding of a scalar value.\<close>

lemma decode_sound:
  assumes "gray_utf8_decode byte_at n = (c, k)" "uint (byte_at 0) < 128 \<or> 1 < k" "1 \<le> n"
  shows "is_scalar c \<and> k \<le> n \<and> map byte_at [0..<k] = utf8_encode c"
proof -
  have finish: ?thesis if "uint c < 0x110000" "\<not> (0xD800 \<le> uint c \<and> uint c < 0xE000)" "k \<le> n"
      "map (\<lambda>i. uint (byte_at i)) [0..<k] = utf8_numbers (uint c)"
  proof -
    have "is_scalar c" using that by (simp add: is_scalar_uint)
    moreover have "map byte_at [0..<k] = utf8_encode c"
      by (rule bytes_of_numbers) (use that in \<open>simp_all add: word_le_def comp_def\<close>)
    ultimately show ?thesis using that by simp
  qed
  consider "uint (byte_at 0) < 128" | "128 \<le> uint (byte_at 0)" "uint (byte_at 0) < 0xC2 \<or> 0xF4 < uint (byte_at 0)"
    | "0xC2 \<le> uint (byte_at 0)" "uint (byte_at 0) \<le> 0xDF" | "0xE0 \<le> uint (byte_at 0)" "uint (byte_at 0) \<le> 0xEF"
    | "0xF0 \<le> uint (byte_at 0)" "uint (byte_at 0) \<le> 0xF4" by linarith
  then show ?thesis
  proof cases
    case 1
    then have "k = 1" "uint c = uint (byte_at 0)"
      using assms(1) decode_1 [of byte_at n] by (auto simp: unsigned_ucast_eq take_bit_int_eq_self)
    then show ?thesis using 1 assms(3) by (intro finish) (simp_all add: utf8_numbers_def)
  next
    case 2
    then show ?thesis using assms decode_invalid_lead [of byte_at n] by simp
  next
    case 3
    define d e where v: "d = uint (byte_at 0) - 192" "e = uint (byte_at 1) - 128"
    have acc: "k = 2" "2 \<le> n" "0 \<le> e" "e < 64" "c = shift_in_byte (ucast (byte_at 0 AND 0x1F)) (byte_at 1)"
      using assms(1,2) 3 decode_2 [of byte_at n] by (auto simp: v split: if_splits)
    have B: "uint (byte_at 0) = 192 + d" "uint (byte_at 1) = 128 + e" by (simp_all add: v)
    have d: "2 \<le> d" "d < 32" using 3 by (simp_all add: v)
    have C: "uint c = 64 * d + e" using acc d B by (simp add: decoded_values field_mods)
    then have "uint c = 262144 * 0 + 4096 * 0 + 64 * d + e" by simp
    from base64_unique [OF this] C acc(3,4) d have "utf8_numbers (uint c) = [192 + d, 128 + e]"
      by (simp add: utf8_numbers_def)
    then show ?thesis using C d acc
      by (intro finish) (simp_all add: B short_upt del: One_nat_def)
  next
    case 4
    define b d e where v: "b = uint (byte_at 0) - 224" "d = uint (byte_at 1) - 128" "e = uint (byte_at 2) - 128"
    have acc: "k = 3" "3 \<le> n" "(if b = 0 then 32 else 0) \<le> d" "d \<le> (if b = 13 then 31 else 63)" "0 \<le> e" "e < 64"
      "c = shift_in_byte (shift_in_byte (ucast (byte_at 0 AND 0x0F)) (byte_at 1)) (byte_at 2)"
      using assms(1,2) 4 decode_3 [of byte_at n] continuation_range [of "uint (byte_at 2)"]
      by (auto simp: v split: if_splits)
    have B: "uint (byte_at 0) = 224 + b" "uint (byte_at 1) = 128 + d" "uint (byte_at 2) = 128 + e" by (simp_all add: v)
    have b: "0 \<le> b" "b < 16" using 4 by (simp_all add: v)
    have d: "0 \<le> d" "d < 64" using acc(3,4) by (auto split: if_splits)
    have C: "uint c = 4096 * b + 64 * d + e" using acc(5-7) d b B by (simp add: decoded_values field_mods)
    then have C': "uint c = 262144 * 0 + 4096 * b + 64 * d + e" by simp
    have r: "0x800 \<le> uint c" "uint c < 0x10000" "\<not> (0xD800 \<le> uint c \<and> uint c < 0xE000)"
      using C acc(3-6) b d by (auto split: if_splits)
    from base64_unique [OF C'] acc(5,6) d b r have "utf8_numbers (uint c) = [224 + b, 128 + d, 128 + e]"
      by (simp add: utf8_numbers_def)
    then show ?thesis using r acc
      by (intro finish) (simp_all add: B short_upt del: One_nat_def)
  next
    case 5
    define a b d e where v: "a = uint (byte_at 0) - 240" "b = uint (byte_at 1) - 128" "d = uint (byte_at 2) - 128" "e = uint (byte_at 3) - 128"
    have acc: "k = 4" "4 \<le> n" "(if a = 0 then 16 else 0) \<le> b" "b \<le> (if a = 4 then 15 else 63)" "0 \<le> d" "d < 64" "0 \<le> e" "e < 64"
      "c = shift_in_byte (shift_in_byte (shift_in_byte (ucast (byte_at 0 AND 0x07)) (byte_at 1)) (byte_at 2)) (byte_at 3)"
      using assms(1,2) 5 decode_4 [of byte_at n] continuation_range [of "uint (byte_at 2)"] continuation_range [of "uint (byte_at 3)"]
      by (auto simp: v split: if_splits)
    have B: "uint (byte_at 0) = 240 + a" "uint (byte_at 1) = 128 + b" "uint (byte_at 2) = 128 + d" "uint (byte_at 3) = 128 + e"
      by (simp_all add: v)
    have a: "0 \<le> a" "a \<le> 4" using 5 by (simp_all add: v)
    have b: "0 \<le> b" "b < 64" using acc(3,4) by (auto split: if_splits)
    have C: "uint c = 262144 * a + 4096 * b + 64 * d + e" using acc(5-9) a b B by (simp add: decoded_values field_mods)
    have r: "0x10000 \<le> uint c" "uint c < 0x110000"
      using C acc(3-8) a b by (auto split: if_splits)
    from base64_unique [OF C] acc(5-8) a b r have "utf8_numbers (uint c) = [240 + a, 128 + b, 128 + d, 128 + e]"
      by (simp add: utf8_numbers_def)
    then show ?thesis using r acc
      by (intro finish) (simp_all add: B short_upt del: One_nat_def)
  qed
qed

lemma decode_invalid:
  assumes "gray_utf8_decode byte_at n = (c, k)" "\<not> (uint (byte_at 0) < 128 \<or> 1 < k)"
  shows "c = 0xFFFD \<and> k = 1"
proof -
  consider "128 \<le> uint (byte_at 0)" "uint (byte_at 0) < 0xC2 \<or> 0xF4 < uint (byte_at 0)"
    | "0xC2 \<le> uint (byte_at 0)" "uint (byte_at 0) \<le> 0xDF" | "0xE0 \<le> uint (byte_at 0)" "uint (byte_at 0) \<le> 0xEF"
    | "0xF0 \<le> uint (byte_at 0)" "uint (byte_at 0) \<le> 0xF4" using assms(2) by linarith
  then show ?thesis
    using assms decode_invalid_lead [of byte_at n] decode_2 [of byte_at n] decode_3 [of byte_at n] decode_4 [of byte_at n]
    by cases (auto split: if_splits)
qed

lemma decode_shape:
  assumes "gray_utf8_decode byte_at n = (c, k)"
  shows "1 \<le> k \<and> k \<le> 4 \<and> (1 \<le> n \<longrightarrow> k \<le> n) \<and> (\<forall>i. 1 \<le> i \<and> i < k \<longrightarrow> uint (byte_at i) div 64 = 2)"
proof -
  have mid: "x div 64 = 2" if "128 \<le> x" "x \<le> 191" for x :: int using that by presburger
  consider "uint (byte_at 0) < 128" | "128 \<le> uint (byte_at 0)" "uint (byte_at 0) < 0xC2 \<or> 0xF4 < uint (byte_at 0)"
    | "0xC2 \<le> uint (byte_at 0)" "uint (byte_at 0) \<le> 0xDF" | "0xE0 \<le> uint (byte_at 0)" "uint (byte_at 0) \<le> 0xEF"
    | "0xF0 \<le> uint (byte_at 0)" "uint (byte_at 0) \<le> 0xF4" by linarith
  then show ?thesis
  proof cases
    case 3
    then show ?thesis using assms decode_2 [of byte_at, OF 3, of n] mid [of "uint (byte_at 1)"]
      by (auto simp: less_Suc_eq numeral_eq_Suc le_Suc_eq split: if_splits)
  next
    case 4
    have "uint (byte_at 1) div 64 = 2" if "k \<noteq> 1"
      using assms decode_3 [of byte_at, OF 4, of n] mid [of "uint (byte_at 1)"] that by (auto split: if_splits)
    then show ?thesis using assms decode_3 [of byte_at, OF 4, of n]
      by (auto simp: less_Suc_eq numeral_eq_Suc le_Suc_eq split: if_splits)
  next
    case 5
    have "uint (byte_at 1) div 64 = 2" if "k \<noteq> 1"
      using assms decode_4 [of byte_at, OF 5, of n] mid [of "uint (byte_at 1)"] that by (auto split: if_splits)
    then show ?thesis using assms decode_4 [of byte_at, OF 5, of n]
      by (auto simp: less_Suc_eq numeral_eq_Suc le_Suc_eq split: if_splits)
  qed (use assms decode_1 [of byte_at n] decode_invalid_lead [of byte_at n] in auto)
qed

subsection \<open>Finding the start of a character\<close>

lemma continuation_consumes_one:
  assumes "uint (byte_at 0) div 64 = 2" "gray_utf8_decode byte_at n = (c, k)"
  shows "k = 1"
  using assms decode_invalid_lead [of byte_at n] continuation_range [of "uint (byte_at 0)"] by auto

lemma char_start_scan_finds:
  assumes span: "gray_utf8_decode (\<lambda>i. data (s + i)) (len - s) = (c, k)" "s < index" "index < s + k"
  shows "1 \<le> bk \<Longrightarrow> bk \<le> index - s \<Longrightarrow> char_start_scan data len index bk = s"
proof (induction "index - s - bk" arbitrary: bk rule: less_induct)
  case less
  have k: "k \<le> 4" "\<And>i. 1 \<le> i \<Longrightarrow> i < k \<Longrightarrow> uint (data (s + i)) div 64 = 2" using decode_shape [OF span(1)] by blast+
  then have b: "bk \<le> 3 \<and> bk \<le> index" using less.prems span by linarith
  show ?case
  proof (cases "bk = index - s")
    case True
    then have "index - bk = s" "bk < k" using span(2,3) by linarith+
    then show ?thesis using b True span by (subst char_start_scan.simps) simp
  next
    case False
    define j where "j = index - bk - s"
    have j: "index - bk = s + j" "1 \<le> j" "j < k" using less.prems False span unfolding j_def by linarith+
    obtain c' k' where d: "gray_utf8_decode (\<lambda>i. data (index - bk + i)) (len - (index - bk)) = (c', k')" by fastforce
    have "uint (data (index - bk + 0)) div 64 = 2" using k(2) [OF j(2,3)] j(1) by simp
    from continuation_consumes_one [where byte_at = "\<lambda>i. data (index - bk + i)", OF this d]
    have "char_start_scan data len index bk = char_start_scan data len index (bk + 1)"
      using b d less.prems by (subst char_start_scan.simps) simp
    also have "\<dots> = s" using False less.prems by (intro less.hyps) auto
    finally show ?thesis .
  qed
qed

lemma char_start_scan_sound:
  assumes "1 \<le> bk" "bk \<le> index" "char_start_scan data len index bk = s" "s \<noteq> index"
  shows "s < index \<and> (\<exists>c k. gray_utf8_decode (\<lambda>i. data (s + i)) (len - s) = (c, k) \<and> index < s + k)"
  using assms
proof (induction data len index bk rule: char_start_scan.induct)
  case (1 data len index bk)
  obtain c k where d: "gray_utf8_decode (\<lambda>i. data (index - bk + i)) (len - (index - bk)) = (c, k)" by fastforce
  have eq: "char_start_scan data len index bk =
      (if bk \<le> 3 \<and> bk \<le> index then if bk < k then index - bk else char_start_scan data len index (bk + 1) else index)"
    by (subst char_start_scan.simps) (simp only: d Let_def prod.case)
  show ?case
  proof (cases "bk \<le> 3 \<and> \<not> bk < k")
    case True
    then have rest: "char_start_scan data len index (bk + 1) = s" using 1(3,4) eq by simp
    have "bk \<noteq> index"
    proof
      assume "bk = index"
      then have "char_start_scan data len index (bk + 1) = index" by (subst char_start_scan.simps) simp
      then show False using rest 1(5) by simp
    qed
    then show ?thesis using 1(1) [OF _ d [symmetric] refl _ _ _ rest] True 1(2,3,5) by auto
  next
    case False
    then have "s = index - bk" "bk < k" using 1(3,4,5) eq by (auto split: if_splits)
    then show ?thesis using d 1(2,3) by auto
  qed
qed

end
