(* ===== verification/Lexer.thy ===== *)
theory Lexer
  imports Token Utf8
begin

text \<open>
  The lexer: \<open>grayc/src/lexer/lexer.h\<close> and \<open>lexer.c\<close>. Every operation takes the lexer and returns
  it updated. The source buffer is the list \<open>input\<close> of its bytes (\<open>input_length\<close> is its length)
  followed by a NUL, which is what a read at \<open>input_length\<close> returns. Positions, line and column
  are C \<open>int\<close>s that never go negative; line and column stop at \<open>INT_MAX\<close> as in the source. Error
  messages are a datatype with one constructor per message text. Literal text is a list of
  bytes; the arena that holds it, and the interning of identifiers, are not modelled.
\<close>

subsection \<open>Characters\<close>

abbreviation NUL :: char where "NUL \<equiv> CHR 0x00"

definition isalpha :: "char \<Rightarrow> bool" where
  "isalpha c \<longleftrightarrow> (CHR ''A'' \<le> c \<and> c \<le> CHR ''Z'') \<or> (CHR ''a'' \<le> c \<and> c \<le> CHR ''z'')"

definition isdigit :: "char \<Rightarrow> bool" where
  "isdigit c \<longleftrightarrow> CHR ''0'' \<le> c \<and> c \<le> CHR ''9''"

definition isalnum :: "char \<Rightarrow> bool" where
  "isalnum c \<longleftrightarrow> isalpha c \<or> isdigit c"

definition isxdigit :: "char \<Rightarrow> bool" where
  "isxdigit c \<longleftrightarrow> isdigit c \<or> (CHR ''A'' \<le> c \<and> c \<le> CHR ''F'') \<or> (CHR ''a'' \<le> c \<and> c \<le> CHR ''f'')"

definition tolower :: "char \<Rightarrow> char" where
  "tolower c = (if CHR ''A'' \<le> c \<and> c \<le> CHR ''Z'' then char_of ((of_char c :: nat) + 32) else c)"

subsection \<open>State\<close>

datatype lexer_message =
    Unclosed_comment | Identifier_too_long | Missing_prefixed_digits nat
  | Trailing_underscore | Consecutive_underscores | Underscore_before_point
  | Underscore_after_point | Trailing_point | Malformed_utf8_in_string
  | Malformed_u_escape | Malformed_u_braces | Codepoint_out_of_range | Surrogate_codepoint
  | Malformed_hex_escape | Invalid_string_escape | String_spans_lines | Unclosed_raw_string
  | Char_not_one_codepoint | Char_malformed_hex | Char_malformed_u | Char_malformed_u_braces
  | Invalid_char_escape | Malformed_utf8_in_char | Unclosed_char | NUL_in_source
  | Question_mark | Single_pipe | Stray_hash | Unclosed_string
  | Unexpected_byte char | Unexpected_character string

record lexer =
  input :: string
  position :: nat
  read_position :: nat
  current_character :: char
  line :: nat
  column :: nat
  source_file :: string
  has_unterminated_string :: bool
  error_code :: "string option"
  error_message :: "lexer_message option"

datatype token_text = Text string | Message lexer_message

record token =
  token_type :: TokenType
  literal :: token_text
  token_line :: nat
  token_column :: nat
  token_file :: string
  is_preceded_by_whitespace :: bool

definition set_error :: "string \<Rightarrow> lexer_message \<Rightarrow> lexer \<Rightarrow> lexer" where
  "set_error code message lx = lx\<lparr>error_code := Some code, error_message := Some message\<rparr>"

definition error_literal :: "lexer \<Rightarrow> token_text" where
  "error_literal lx = (case error_message lx of Some m \<Rightarrow> Message m | None \<Rightarrow> Text [])"

subsection \<open>Reading\<close>

definition source_byte :: "lexer \<Rightarrow> nat \<Rightarrow> char" where
  "source_byte lx i = (if i < length (input lx) then input lx ! i else NUL)"

definition read_character :: "lexer \<Rightarrow> lexer" where
  "read_character lx =
     (let c = source_byte lx (read_position lx);
          lx = lx\<lparr>current_character := c, position := read_position lx,
                   read_position := read_position lx + 1,
                   column := (if column lx < INT_MAX then column lx + 1 else column lx)\<rparr>
      in if c = CHR 0x0A
         then lx\<lparr>line := (if line lx < INT_MAX then line lx + 1 else line lx), column := 0\<rparr>
         else lx)"

definition peek_character :: "lexer \<Rightarrow> char" where
  "peek_character lx = source_byte lx (read_position lx)"

definition peek_character_at :: "lexer \<Rightarrow> nat \<Rightarrow> char" where
  "peek_character_at lx offset = source_byte lx (read_position lx + offset - 1)"

text \<open>The source bytes from \<open>start\<close> up to the current position.\<close>

definition source_slice :: "lexer \<Rightarrow> nat \<Rightarrow> nat \<Rightarrow> string" where
  "source_slice lx start stop = map (source_byte lx) [start..<stop]"

text \<open>
  A loop that consumes characters makes progress while the current character is not NUL: the
  rank below decreases with every \<open>read_character\<close>. \<open>cursor\<close> is what reading moves, and
  \<open>reads_on\<close> relates a state to one reached by at least one read.
\<close>

definition rank :: "lexer \<Rightarrow> nat" where
  "rank lx = (if current_character lx = NUL then 0 else Suc (length (input lx) - read_position lx))"

definition cursor :: "lexer \<Rightarrow> string \<times> nat \<times> nat \<times> char \<times> nat \<times> nat \<times> string" where
  "cursor lx = (input lx, position lx, read_position lx, current_character lx, line lx, column lx, source_file lx)"

definition reads :: "nat \<Rightarrow> lexer \<Rightarrow> lexer \<Rightarrow> bool" where
  "reads n lx lx' \<longleftrightarrow> cursor lx' = cursor ((read_character ^^ n) lx)"

definition reads_to :: "lexer \<Rightarrow> lexer \<Rightarrow> bool" where
  "reads_to lx lx' \<longleftrightarrow> (\<exists>n. reads n lx lx')"

definition reads_on :: "lexer \<Rightarrow> lexer \<Rightarrow> bool" where
  "reads_on lx lx' \<longleftrightarrow> (\<exists>n. reads (Suc n) lx lx')"

lemma cursor_eqD:
  assumes "cursor a = cursor b"
  shows "input a = input b" "position a = position b" "read_position a = read_position b"
    "current_character a = current_character b" "line a = line b" "column a = column b" "source_file a = source_file b"
  using assms by (simp_all add: cursor_def)

lemma cursor_read_character:
  "cursor a = cursor b \<Longrightarrow> cursor (read_character a) = cursor (read_character b)"
  by (simp add: cursor_def read_character_def Let_def source_byte_def)

lemma cursor_pow: "cursor a = cursor b \<Longrightarrow> cursor ((read_character ^^ n) a) = cursor ((read_character ^^ n) b)"
proof (induction n)
  case (Suc n)
  then show ?case by (simp add: cursor_read_character [OF Suc.IH])
qed simp

lemma reads_trans:
  assumes "reads m a b" "reads n b c"
  shows "reads (m + n) a c"
proof -
  have "cursor c = cursor ((read_character ^^ n) b)" using assms(2) by (simp only: reads_def)
  also have "\<dots> = cursor ((read_character ^^ n) ((read_character ^^ m) a))"
    using assms(1) by (intro cursor_pow) (simp only: reads_def)
  also have "(read_character ^^ n) ((read_character ^^ m) a) = (read_character ^^ (m + n)) a"
    by (simp only: add.commute [of m] funpow_add o_apply)
  finally show ?thesis by (simp only: reads_def)
qed

lemma reads_to_refl [simp, intro]: "reads_to a a"
  by (auto simp: reads_to_def reads_def intro: exI [of _ 0])

lemma reads_to_trans: "reads_to a b \<Longrightarrow> reads_to b c \<Longrightarrow> reads_to a c"
  unfolding reads_to_def using reads_trans by blast

lemma reads_on_trans: "reads_on a b \<Longrightarrow> reads_to b c \<Longrightarrow> reads_on a c"
  "reads_to a b \<Longrightarrow> reads_on b c \<Longrightarrow> reads_on a c"
  unfolding reads_on_def reads_to_def
  by (metis reads_trans add_Suc, metis reads_trans add_Suc_right)

lemma reads_on_to [intro]: "reads_on a b \<Longrightarrow> reads_to a b"
  unfolding reads_on_def reads_to_def by blast

lemma reads_on_read_character [simp, intro]: "reads_on a (read_character a)"
  by (auto simp: reads_on_def reads_def intro: exI [of _ 0])

lemma reads_to_cursor: "cursor a = cursor b \<Longrightarrow> reads_to a b"
  by (auto simp: reads_to_def reads_def intro: exI [of _ 0])

lemma reads_to_set_error [simp, intro]: "reads_to a (set_error code m a)"
  by (rule reads_to_cursor) (simp add: cursor_def set_error_def)

lemma input_pow [simp]: "input ((read_character ^^ n) a) = input a"
  by (induction n) (simp_all add: read_character_def Let_def)

lemma read_position_pow [simp]: "read_position ((read_character ^^ n) a) = read_position a + n"
  by (induction n) (simp_all add: read_character_def Let_def)

lemma current_pow: "current_character ((read_character ^^ Suc n) a) = source_byte a (read_position a + n)"
  by (simp add: read_character_def Let_def source_byte_def)

lemma rank_decreases:
  assumes "reads_on a b" "current_character a \<noteq> NUL"
  shows "rank b < rank a"
proof -
  obtain n where n: "cursor b = cursor ((read_character ^^ Suc n) a)" using assms(1) by (auto simp: reads_on_def reads_def)
  note b = cursor_eqD [OF n]
  show ?thesis
  proof (cases "current_character b = NUL")
    case True
    then show ?thesis using assms(2) by (simp add: rank_def)
  next
    case False
    then have "read_position a + n < length (input a)"
      using b(4) unfolding current_pow by (simp add: source_byte_def split: if_splits)
    moreover have "read_position b = read_position a + Suc n" "input b = input a"
      using b(1,3) unfolding read_position_pow input_pow by simp_all
    ultimately show ?thesis using assms(2) False by (simp add: rank_def)
  qed
qed

subsection \<open>Whitespace and comments\<close>

text \<open>
  \<open>while (P(current_character)) read_character\<close>: every predicate the source uses is false at NUL.
\<close>

function read_while :: "(char \<Rightarrow> bool) \<Rightarrow> lexer \<Rightarrow> lexer" where
  "read_while P lx =
     (if current_character lx \<noteq> NUL \<and> P (current_character lx) then read_while P (read_character lx) else lx)"
  by pat_completeness auto
termination by (relation "measure (\<lambda>(_, lx). rank lx)") (auto intro: rank_decreases)

declare read_while.simps [simp del]

lemma reads_to_read_while [simp, intro]: "reads_to lx (read_while P lx)"
proof (induction P lx rule: read_while.induct)
  case (1 P lx)
  show ?case
  proof (cases "current_character lx \<noteq> NUL \<and> P (current_character lx)")
    case True
    then have "reads_to (read_character lx) (read_while P lx)"
      using 1 by (subst read_while.simps) simp
    then show ?thesis by (meson reads_on_read_character reads_on_to reads_to_trans)
  next
    case False
    then have "read_while P lx = lx" by (simp only: read_while.simps [of P lx] if_False)
    then show ?thesis by simp
  qed
qed

lemma read_while_stops:
  "current_character (read_while P lx) = NUL \<or> \<not> P (current_character (read_while P lx))"
proof (induction P lx rule: read_while.induct)
  case (1 P lx)
  show ?case
  proof (cases "current_character lx \<noteq> NUL \<and> P (current_character lx)")
    case True
    then have "read_while P lx = read_while P (read_character lx)" by (subst read_while.simps) (rule if_P)
    then show ?thesis using 1 [OF True] by (simp only:)
  next
    case False
    then have "read_while P lx = lx" by (simp only: read_while.simps [of P lx] if_False)
    then show ?thesis using False by (simp only:) blast
  qed
qed

definition is_space :: "char \<Rightarrow> bool" where
  "is_space c \<longleftrightarrow> c = CHR '' '' \<or> c = CHR 0x09 \<or> c = CHR 0x0D \<or> c = CHR 0x0A"

definition skip_whitespace :: "lexer \<Rightarrow> lexer" where
  "skip_whitespace lx = read_while is_space lx"

definition skip_line_comment :: "lexer \<Rightarrow> lexer" where
  "skip_line_comment lx = read_while (\<lambda>c. c \<noteq> CHR 0x0A) lx"

function block_comment_loop :: "lexer \<Rightarrow> lexer" where
  "block_comment_loop lx =
     (if current_character lx \<noteq> NUL
      then if current_character lx = CHR ''*'' \<and> peek_character lx = CHR ''/''
           then read_character (read_character lx)
           else block_comment_loop (read_character lx)
      else set_error ''E1003'' Unclosed_comment lx)"
  by pat_completeness auto
termination by (relation "measure rank") (auto intro: rank_decreases)

declare block_comment_loop.simps [simp del]

definition skip_block_comment :: "lexer \<Rightarrow> lexer" where
  "skip_block_comment lx = block_comment_loop (read_character lx)"

lemma reads_to_read [intro]: "reads_to a b \<Longrightarrow> reads_to a (read_character b)"
  by (meson reads_on_read_character reads_on_to reads_to_trans)

lemma reads_to_error [intro]: "reads_to a b \<Longrightarrow> reads_to a (set_error code m b)"
  by (meson reads_to_set_error reads_to_trans)

lemma reads_to_first: "reads_to (read_character a) b \<Longrightarrow> reads_to a b"
  by (meson reads_on_read_character reads_on_to reads_to_trans)

lemma reads_on_first: "reads_to (read_character a) b \<Longrightarrow> reads_on a b"
  using reads_on_trans(1) reads_on_read_character by blast

lemma reads_to_block_comment_loop: "reads_to lx (block_comment_loop lx)"
proof (induction lx rule: block_comment_loop.induct)
  case (1 lx)
  show ?case
  proof (cases "current_character lx \<noteq> NUL \<and> \<not> (current_character lx = CHR ''*'' \<and> peek_character lx = CHR ''/'')")
    case True
    then have "reads_to (read_character lx) (block_comment_loop lx)"
      using 1 by (subst block_comment_loop.simps) auto
    then show ?thesis by (rule reads_to_first)
  next
    case False
    then show ?thesis by (subst block_comment_loop.simps) auto
  qed
qed

lemma reads_on_skip_block_comment: "reads_on lx (skip_block_comment lx)"
  unfolding skip_block_comment_def by (rule reads_on_first) (rule reads_to_block_comment_loop)

lemma reads_to_skips [intro]: "reads_to lx (skip_whitespace lx)" "reads_to lx (skip_line_comment lx)"
  by (simp_all add: skip_whitespace_def skip_line_comment_def)

lemma rank_read_while: "rank (read_while P lx) \<le> rank lx"
proof (induction P lx rule: read_while.induct)
  case (1 P lx)
  show ?case
  proof (cases "current_character lx \<noteq> NUL \<and> P (current_character lx)")
    case True
    then have "read_while P lx = read_while P (read_character lx)" by (subst read_while.simps) (rule if_P)
    moreover have "rank (read_character lx) < rank lx" using True by (intro rank_decreases) auto
    ultimately show ?thesis using 1 [OF True] by (simp only:)
  next
    case False
    then have "read_while P lx = lx" by (simp only: read_while.simps [of P lx] if_False)
    then show ?thesis by simp
  qed
qed

lemma rank_after_whitespace:
  assumes "reads_on (skip_whitespace lx) lx'" "current_character (skip_whitespace lx) \<noteq> NUL"
  shows "rank lx' < rank lx"
  using rank_decreases [OF assms] rank_read_while [of is_space lx] by (simp add: skip_whitespace_def)

function skip_whitespace_and_comments :: "lexer \<Rightarrow> lexer" where
  "skip_whitespace_and_comments lx =
     (let lx = skip_whitespace lx
      in if current_character lx = CHR ''/'' \<and> peek_character lx = CHR ''/''
         then skip_whitespace_and_comments (skip_line_comment (read_character (read_character lx)))
         else if current_character lx = CHR ''/'' \<and> peek_character lx = CHR ''*''
         then skip_whitespace_and_comments (skip_block_comment (read_character lx))
         else lx)"
  by pat_completeness auto
termination
proof (relation "measure rank")
  fix lx x assume x: "x = skip_whitespace lx"
  {
    assume "current_character x = CHR ''/'' \<and> peek_character x = CHR ''/''"
    moreover have "reads_on x (skip_line_comment (read_character (read_character x)))"
      by (rule reads_on_first, rule reads_to_first) auto
    ultimately show "(skip_line_comment (read_character (read_character x)), lx) \<in> measure rank"
      using rank_after_whitespace [of lx] by (simp add: x)
  }
  {
    assume "current_character x = CHR ''/'' \<and> peek_character x = CHR ''*''"
    moreover have "reads_on x (skip_block_comment (read_character x))"
      by (rule reads_on_first, rule reads_on_to) (rule reads_on_skip_block_comment)
    ultimately show "(skip_block_comment (read_character x), lx) \<in> measure rank"
      using rank_after_whitespace [of lx] by (simp add: x)
  }
qed simp

declare skip_whitespace_and_comments.simps [simp del]

lemma reads_to_skip_all: "reads_to lx (skip_whitespace_and_comments lx)"
proof (induction lx rule: skip_whitespace_and_comments.induct)
  case (1 lx)
  let ?x = "skip_whitespace lx"
  have w: "reads_to lx ?x" by auto
  have a: "reads_to lx (skip_line_comment (read_character (read_character ?x)))"
    using w reads_to_skips(2) reads_to_trans by blast
  have b: "reads_to lx (skip_block_comment (read_character ?x))"
    using w reads_on_skip_block_comment reads_to_trans by blast
  show ?case
    using 1(1) [OF refl] 1(2) [OF refl] a b w
    by (subst skip_whitespace_and_comments.simps) (auto simp: Let_def intro: reads_to_trans)
qed

end
