(* ===== verification/Lexer_Literals.thy ===== *)
theory Lexer_Literals
  imports Lexer
begin

text \<open>
  The literals of \<open>lexer.c\<close>: identifiers, numbers, strings, raw strings and character literals.
  A reader returns the lexer and the literal text. \<open>char_at\<close> reads a C string, whose end is NUL.
\<close>

definition MAX_IDENTIFIER_LENGTH :: nat where "MAX_IDENTIFIER_LENGTH = 255"

definition char_at :: "string \<Rightarrow> nat \<Rightarrow> char" where
  "char_at text i = (if i < length text then text ! i else NUL)"

subsection \<open>Identifiers\<close>

definition is_identifier_char :: "char \<Rightarrow> bool" where
  "is_identifier_char c \<longleftrightarrow> isalpha c \<or> c = CHR ''_'' \<or> isdigit c"

definition scan_identifier_span :: "lexer \<Rightarrow> lexer \<times> nat \<times> nat" where
  "scan_identifier_span lx =
     (let start = position lx;
          lx = read_while is_identifier_char lx;
          len = position lx - start
      in (if MAX_IDENTIFIER_LENGTH < len then set_error ''E1024'' Identifier_too_long lx else lx, start, len))"

subsection \<open>Numbers\<close>

definition is_prefixed_digit :: "nat \<Rightarrow> char \<Rightarrow> bool" where
  "is_prefixed_digit base c \<longleftrightarrow> c = CHR ''_'' \<or>
     (if base = 16 then isxdigit c else CHR ''0'' \<le> c \<and> (of_char c :: nat) < of_char CHR ''0'' + base)"

definition read_prefixed_digits :: "lexer \<Rightarrow> nat \<Rightarrow> nat \<Rightarrow> lexer \<times> string" where
  "read_prefixed_digits lx start base =
     (let lx = read_character (read_character lx);
          digit_start = position lx;
          lx = read_while (is_prefixed_digit base) lx;
          lx = (if position lx = digit_start then set_error ''E1010'' (Missing_prefixed_digits base) lx else lx)
      in (lx, source_slice lx start (position lx)))"

definition is_decimal_digit :: "char \<Rightarrow> bool" where
  "is_decimal_digit c \<longleftrightarrow> isdigit c \<or> c = CHR ''_''"

definition takes_point :: "char \<Rightarrow> bool" where
  "takes_point next_char \<longleftrightarrow> isdigit next_char \<or> next_char = CHR ''_'' \<or> next_char = NUL \<or> next_char = CHR 0x0A
     \<or> next_char = CHR '' '' \<or> next_char = CHR '')'' \<or> next_char = CHR ''}'' \<or> next_char = CHR '',''
     \<or> next_char = CHR '';''"

definition read_fraction :: "lexer \<Rightarrow> lexer \<times> bool" where
  "read_fraction lx =
     (if current_character lx = CHR ''.'' \<and> takes_point (peek_character lx)
      then (read_while is_decimal_digit (read_character lx), True) else (lx, False))"

definition read_exponent :: "lexer \<Rightarrow> lexer \<times> bool" where
  "read_exponent lx =
     (if current_character lx = CHR ''e'' \<or> current_character lx = CHR ''E''
      then let next_char = peek_character lx;
               has_exponent_sign = (next_char = CHR ''+'' \<or> next_char = CHR ''-'');
               after_sign = (if has_exponent_sign then peek_character_at lx 2 else next_char)
           in if isdigit after_sign
              then let lx = read_character lx;
                       lx = (if has_exponent_sign then read_character lx else lx)
                   in (read_while is_decimal_digit lx, True)
              else (lx, False)
      else (lx, False))"

fun has_consecutive_underscores :: "string \<Rightarrow> bool" where
  "has_consecutive_underscores (a # b # rest) \<longleftrightarrow>
     (a = CHR ''_'' \<and> b = CHR ''_'') \<or> has_consecutive_underscores (b # rest)"
| "has_consecutive_underscores _ \<longleftrightarrow> False"

text \<open>The checks at the first decimal point, \<open>i\<close> being the index the loop has reached.\<close>

fun check_point :: "string \<Rightarrow> nat \<Rightarrow> string \<Rightarrow> lexer \<Rightarrow> lexer" where
  "check_point digits i [] lx = lx"
| "check_point digits i (c # rest) lx =
     (if c = CHR ''.''
      then let lx = (if 0 < i \<and> char_at digits (i - 1) = CHR ''_''
                     then set_error ''E1014'' Underscore_before_point lx else lx);
               lx = (if char_at digits (i + 1) = CHR ''_'' then set_error ''E1015'' Underscore_after_point lx else lx)
           in (if char_at digits (i + 1) = NUL \<or>
                  (\<not> isdigit (char_at digits (i + 1)) \<and> char_at digits (i + 1) \<noteq> CHR ''_'')
               then set_error ''E1016'' Trailing_point lx else lx)
      else check_point digits (i + 1) rest lx)"

definition has_radix_prefix :: "string \<Rightarrow> bool" where
  "has_radix_prefix digits \<longleftrightarrow> char_at digits 0 = CHR ''0'' \<and> char_at digits 1 \<in> set ''xXoObB''"

definition validate_number :: "string \<Rightarrow> lexer \<Rightarrow> lexer" where
  "validate_number number_text lx =
     (if error_code lx \<noteq> None then lx
      else let digits = (if has_radix_prefix number_text then drop 2 number_text else number_text)
           in if digits = [] then lx
              else let lx = (if last digits = CHR ''_'' then set_error ''E1013'' Trailing_underscore lx else lx);
                       lx = (if has_consecutive_underscores digits
                             then set_error ''E1011'' Consecutive_underscores lx else lx)
                   in check_point digits 0 digits lx)"

definition read_number :: "lexer \<Rightarrow> lexer \<times> string \<times> TokenType" where
  "read_number lx =
     (let start = position lx;
          next_char = peek_character lx;
          prefixed = (\<lambda>base. let (lx, text) = read_prefixed_digits lx start base in (lx, text, TOKEN_INTEGER_LITERAL))
      in if current_character lx = CHR ''0'' \<and> (next_char = CHR ''x'' \<or> next_char = CHR ''X'') then prefixed 16
         else if current_character lx = CHR ''0'' \<and> (next_char = CHR ''o'' \<or> next_char = CHR ''O'') then prefixed 8
         else if current_character lx = CHR ''0'' \<and> (next_char = CHR ''b'' \<or> next_char = CHR ''B'') then prefixed 2
         else let lx = read_while is_decimal_digit lx;
                  (lx, has_fraction) = read_fraction lx;
                  (lx, has_exponent) = read_exponent lx;
                  number_text = source_slice lx start (position lx)
              in (validate_number number_text lx, number_text,
                  if has_fraction \<or> has_exponent then TOKEN_FLOATING_POINT_LITERAL else TOKEN_INTEGER_LITERAL))"

subsection \<open>UTF-8 in literals\<close>

function utf8_check_loop :: "lexer \<Rightarrow> nat \<Rightarrow> lexer" where
  "utf8_check_loop lx cursor_position =
     (if cursor_position < position lx
      then let (codepoint, len) = gray_utf8_decode (\<lambda>i. of_char (source_byte lx (cursor_position + i)))
                                    (position lx - cursor_position)
           in if codepoint = 0xFFFD \<and> len = 1 then set_error ''E1018'' Malformed_utf8_in_string lx
              else utf8_check_loop lx (cursor_position + len)
      else lx)"
  by pat_completeness auto
termination
proof (relation "measure (\<lambda>(lx, i). position lx - i)", simp)
  fix lx i x codepoint len
  assume "i < position lx"
    "x = gray_utf8_decode (\<lambda>j. of_char (source_byte lx (i + j))) (position lx - i)" "(codepoint, len) = x"
  then show "((lx, i + len), lx, i) \<in> measure (\<lambda>(lx, i). position lx - i)"
    using decode_shape [of "\<lambda>j. of_char (source_byte lx (i + j))" "position lx - i" codepoint len] by auto
qed

declare utf8_check_loop.simps [simp del]

definition check_literal_utf8 :: "lexer \<Rightarrow> nat \<Rightarrow> lexer" where
  "check_literal_utf8 lx start = (if error_code lx \<noteq> None then lx else utf8_check_loop lx start)"

end
