(* ===== verification/Lexer_Strings.thy ===== *)
theory Lexer_Strings
  imports Lexer_Literals Decimal_Text
begin

text \<open>
  String, raw string and character literals of \<open>lexer.c\<close>. One iteration of the loop of
  \<open>read_string\<close> is \<open>string_step\<close>, which says whether the loop goes on; the growing array of
  \<open>UnicodeEscape\<close> is a list.
\<close>

subsection \<open>Escapes in strings\<close>

record unicode_escape =
  escape_begin :: nat
  escape_end :: nat
  escape_codepoint :: nat

definition hex_digit_value :: "char \<Rightarrow> nat" where
  "hex_digit_value c = (if isdigit c then of_char c - of_char CHR ''0'' else of_char (tolower c) - of_char CHR ''a'' + 10)"

text \<open>The loop over hex digits: how many there are, and the codepoint, which stops growing after seven.\<close>

function hex_digit_loop :: "lexer \<Rightarrow> nat \<Rightarrow> nat \<Rightarrow> lexer \<times> nat \<times> nat" where
  "hex_digit_loop lx hex_digit_count codepoint =
     (if current_character lx \<noteq> NUL \<and> isxdigit (current_character lx)
      then hex_digit_loop (read_character lx) (hex_digit_count + 1)
             (if hex_digit_count < 7 then codepoint * 16 + hex_digit_value (current_character lx) else codepoint)
      else (lx, hex_digit_count, codepoint))"
  by pat_completeness auto
termination by (relation "measure (\<lambda>(lx, _). rank lx)") (auto intro: rank_decreases)

declare hex_digit_loop.simps [simp del]

text \<open>An escape \<open>\u{H...}\<close>; the current character is the \<open>u\<close>.\<close>

definition read_u_escape :: "lexer \<Rightarrow> nat \<Rightarrow> unicode_escape list \<Rightarrow> lexer \<times> unicode_escape list" where
  "read_u_escape lx begin_position escapes =
     (let lx = read_character lx
      in if current_character lx \<noteq> CHR ''{'' then (set_error ''E1006'' Malformed_u_escape lx, escapes)
         else let lx = read_character lx;
                  (lx, hex_digit_count, codepoint) = hex_digit_loop lx 0 0
              in if current_character lx \<noteq> CHR ''}'' \<or> hex_digit_count < 1 \<or> 6 < hex_digit_count
                 then (set_error ''E1006'' Malformed_u_braces lx, escapes)
                 else let lx = read_character lx
                      in if 0x10FFFF < codepoint then (set_error ''E1006'' Codepoint_out_of_range lx, escapes)
                         else if 0xD800 \<le> codepoint \<and> codepoint \<le> 0xDFFF
                         then (set_error ''E1006'' Surrogate_codepoint lx, escapes)
                         else (lx, escapes @ [\<lparr>escape_begin = begin_position, escape_end = position lx,
                                               escape_codepoint = codepoint\<rparr>]))"

definition read_x_escape :: "lexer \<Rightarrow> lexer" where
  "read_x_escape lx =
     (let lx = read_character lx
      in if \<not> isxdigit (current_character lx) then set_error ''E1006'' Malformed_hex_escape lx
         else let lx = read_character lx
              in if \<not> isxdigit (current_character lx) then set_error ''E1006'' Malformed_hex_escape lx
                 else read_character lx)"

definition is_simple_escape :: "char \<Rightarrow> bool" where
  "is_simple_escape c \<longleftrightarrow> c \<in> {CHR ''n'', CHR ''t'', CHR ''r'', CHR 0x5C, CHR 0x22, CHR 0x27, CHR ''0'',
     CHR ''a'', CHR ''b'', CHR ''f'', CHR ''v'', CHR ''$'', NUL}"

definition read_simple_escape :: "lexer \<Rightarrow> lexer" where
  "read_simple_escape lx =
     read_character (if is_simple_escape (current_character lx) then lx
                     else set_error ''E1006'' Invalid_string_escape lx)"

definition read_escape :: "lexer \<Rightarrow> nat \<Rightarrow> unicode_escape list \<Rightarrow> lexer \<times> unicode_escape list" where
  "read_escape lx brace_depth escapes =
     (let begin_position = position lx;
          lx = read_character lx
      in if current_character lx = CHR ''u'' \<and> brace_depth = 0 then read_u_escape lx begin_position escapes
         else if current_character lx = CHR ''x'' then (read_x_escape lx, escapes)
         else (read_simple_escape lx, escapes))"

subsection \<open>The string loop\<close>

text \<open>A nested literal inside an interpolation, up to its closing quote.\<close>

function nested_loop :: "char \<Rightarrow> lexer \<Rightarrow> lexer" where
  "nested_loop quote lx =
     (if current_character lx \<noteq> NUL \<and> current_character lx \<noteq> quote
      then if current_character lx = CHR 0x5C \<and> peek_character lx \<noteq> NUL
           then nested_loop quote (read_character (read_character lx))
           else nested_loop quote (read_character lx)
      else lx)"
  by pat_completeness auto
termination
proof (relation "measure (\<lambda>(_, lx). rank lx)", simp)
  fix quote and lx :: lexer
  assume a: "current_character lx \<noteq> NUL \<and> current_character lx \<noteq> quote"
  show "((quote, read_character (read_character lx)), quote, lx) \<in> measure (\<lambda>(_, lx). rank lx)"
    using a rank_decreases [OF reads_on_first [OF reads_to_read [OF reads_to_refl]], of lx] by simp
  show "((quote, read_character lx), quote, lx) \<in> measure (\<lambda>(_, lx). rank lx)"
    using a rank_decreases [of lx] by simp
qed

declare nested_loop.simps [simp del]

definition skip_nested :: "char \<Rightarrow> lexer \<Rightarrow> lexer" where
  "skip_nested quote lx =
     (let lx = nested_loop quote (read_character lx)
      in if current_character lx = quote then read_character lx else lx)"

text \<open>One iteration of the loop: whether it goes on, the lexer, the brace depth and the escapes.\<close>

definition string_step :: "lexer \<Rightarrow> nat \<Rightarrow> unicode_escape list \<Rightarrow> bool \<times> lexer \<times> nat \<times> unicode_escape list" where
  "string_step lx brace_depth escapes =
     (let c = current_character lx
      in if c = CHR 0x5C then let (lx, escapes) = read_escape lx brace_depth escapes in (True, lx, brace_depth, escapes)
         else if c = CHR ''$'' \<and> peek_character lx = CHR ''{''
         then (True, read_character (read_character lx), brace_depth + 1, escapes)
         else if c = CHR 0x22 \<and> 0 < brace_depth then (True, skip_nested CHR 0x22 lx, brace_depth, escapes)
         else if c = CHR 0x27 \<and> 0 < brace_depth then (True, skip_nested CHR 0x27 lx, brace_depth, escapes)
         else if c = CHR ''{'' \<and> 0 < brace_depth then (True, read_character lx, brace_depth + 1, escapes)
         else if c = CHR ''}'' \<and> 0 < brace_depth then (True, read_character lx, brace_depth - 1, escapes)
         else if c = CHR 0x22 \<and> brace_depth = 0 then (False, lx, brace_depth, escapes)
         else if c = CHR 0x0A \<and> brace_depth = 0 then (False, set_error ''E1023'' String_spans_lines lx, brace_depth, escapes)
         else (True, read_character lx, brace_depth, escapes))"

subsection \<open>Progress\<close>

lemma reads_to_hex_digit_loop: "hex_digit_loop lx n c = (lx', n', c') \<Longrightarrow> reads_to lx lx'"
proof (induction lx n c rule: hex_digit_loop.induct)
  case (1 lx n c)
  show ?case
  proof (cases "current_character lx \<noteq> NUL \<and> isxdigit (current_character lx)")
    case True
    then have "reads_to (read_character lx) lx'" using 1(1) [OF True] 1(2) by (subst (asm) hex_digit_loop.simps) simp
    then show ?thesis by (rule reads_to_first)
  next
    case False
    then show ?thesis using 1(2) by (subst (asm) hex_digit_loop.simps) (auto split: if_splits)
  qed
qed

lemma reads_to_nested_loop: "reads_to lx (nested_loop quote lx)"
proof (induction quote lx rule: nested_loop.induct)
  case (1 quote lx)
  show ?case
  proof (cases "current_character lx \<noteq> NUL \<and> current_character lx \<noteq> quote")
    case True
    then show ?thesis using 1 by (subst nested_loop.simps) (auto intro: reads_to_first)
  next
    case False
    then show ?thesis by (subst nested_loop.simps) auto
  qed
qed

lemma reads_on_skip_nested: "reads_on lx (skip_nested quote lx)"
  unfolding skip_nested_def Let_def by (rule reads_on_first) (auto intro: reads_to_nested_loop)

lemma reads_on_u_escape: "read_u_escape lx p es = (lx', es') \<Longrightarrow> reads_on lx lx'"
  by (rule reads_on_first)
     (auto simp: read_u_escape_def Let_def split: if_splits prod.splits dest!: reads_to_hex_digit_loop intro: reads_to_first)

lemma reads_on_x_escape: "reads_on lx (read_x_escape lx)"
  by (rule reads_on_first) (auto simp: read_x_escape_def Let_def)

lemma reads_to_escape: "read_escape lx d es = (lx', es') \<Longrightarrow> reads_on lx lx'"
  by (rule reads_on_first)
     (auto simp: read_escape_def read_simple_escape_def Let_def split: if_splits
       dest!: reads_on_u_escape intro: reads_on_to reads_on_x_escape)

lemma reads_on_string_step:
  "string_step lx d es = (True, lx', d', es') \<Longrightarrow> reads_on lx lx'"
  by (auto simp: string_step_def Let_def split: if_splits prod.splits
      intro: reads_to_escape reads_on_skip_nested reads_on_first)

lemma reads_to_string_step: "string_step lx d es = (b, lx', d', es') \<Longrightarrow> reads_to lx lx'"
  by (auto simp: string_step_def Let_def split: if_splits prod.splits
      intro: reads_on_to reads_to_escape reads_on_skip_nested)

function string_loop :: "lexer \<Rightarrow> nat \<Rightarrow> unicode_escape list \<Rightarrow> lexer \<times> unicode_escape list" where
  "string_loop lx brace_depth escapes =
     (if current_character lx \<noteq> NUL
      then let (continues, lx, brace_depth, escapes) = string_step lx brace_depth escapes
           in if continues then string_loop lx brace_depth escapes else (lx, escapes)
      else (lx, escapes))"
  by pat_completeness auto
termination
proof (relation "measure (\<lambda>(lx, _). rank lx)", simp)
  fix lx d es x b y lx' z d' es'
  assume "current_character lx \<noteq> NUL" "x = string_step lx d es" "(b, y) = x" "(lx', z) = y" "(d', es') = z" b
  then show "((lx', d', es'), lx, d, es) \<in> measure (\<lambda>(lx, _). rank lx)"
    using reads_on_string_step [of lx d es lx' d' es'] by (auto intro: rank_decreases)
qed

declare string_loop.simps [simp del]

lemma reads_to_string_loop: "string_loop lx d es = (lx', es') \<Longrightarrow> reads_to lx lx'"
proof (induction lx d es rule: string_loop.induct)
  case (1 lx d es)
  obtain b lx1 d1 es1 where s: "string_step lx d es = (b, lx1, d1, es1)" by (metis prod.exhaust)
  show ?case
    using 1(1) [OF _ s [symmetric] refl refl] 1(2) reads_to_string_step [OF s] s
    by (subst (asm) string_loop.simps) (auto split: if_splits intro: reads_to_trans)
qed

subsection \<open>Literals\<close>

text \<open>The four characters of one escaped byte, as \<open>sprintf\<close> writes \<open>\x%02x\<close>.\<close>

definition escaped_byte :: "u8 \<Rightarrow> string" where
  "escaped_byte b = [CHR 0x5C, CHR ''x'', radix_digit False (unat b div 16), radix_digit False (unat b mod 16)]"

fun expand_loop :: "lexer \<Rightarrow> nat \<Rightarrow> unicode_escape list \<Rightarrow> string" where
  "expand_loop lx copied [] = source_slice lx copied (position lx)"
| "expand_loop lx copied (e # escapes) =
     source_slice lx copied (escape_begin e)
     @ concat (map escaped_byte (utf8_encode (of_nat (escape_codepoint e))))
     @ expand_loop lx (escape_end e) escapes"

definition expand_unicode_escapes :: "lexer \<Rightarrow> nat \<Rightarrow> unicode_escape list \<Rightarrow> string" where
  "expand_unicode_escapes lx start escapes = expand_loop lx start escapes"

definition read_string :: "lexer \<Rightarrow> lexer \<times> string" where
  "read_string lx =
     (let lx = read_character lx;
          start = position lx;
          (lx, escapes) = string_loop lx 0 [];
          lx = check_literal_utf8 lx start;
          literal_text = (if escapes \<noteq> [] then expand_unicode_escapes lx start escapes
                          else source_slice lx start (position lx));
          lx = (if current_character lx = CHR 0x22 then read_character lx
                else if error_code lx = None then lx\<lparr>has_unterminated_string := True\<rparr> else lx)
      in (lx, literal_text))"

definition read_raw_string :: "lexer \<Rightarrow> lexer \<times> string" where
  "read_raw_string lx =
     (let lx = read_character lx;
          start = position lx;
          lx = read_while (\<lambda>c. c \<noteq> CHR 0x60) lx;
          lx = check_literal_utf8 lx start;
          literal_text = source_slice lx start (position lx);
          lx = (if current_character lx = CHR 0x60 then read_character lx
                else set_error ''E1017'' Unclosed_raw_string lx)
      in (lx, literal_text))"

definition read_char_x_escape :: "lexer \<Rightarrow> lexer" where
  "read_char_x_escape lx =
     (let lx = read_character lx
      in if \<not> isxdigit (current_character lx) then set_error ''E1006'' Char_malformed_hex lx
         else let lx = read_character lx
              in if \<not> isxdigit (current_character lx) then set_error ''E1006'' Char_malformed_hex lx
                 else read_character lx)"

definition read_char_u_escape :: "lexer \<Rightarrow> lexer" where
  "read_char_u_escape lx =
     (let lx = read_character lx
      in if current_character lx \<noteq> CHR ''{'' then set_error ''E1006'' Char_malformed_u lx
         else let lx = read_character lx;
                  (lx, hex_digit_count, _) = hex_digit_loop lx 0 0
              in if current_character lx \<noteq> CHR ''}'' \<or> hex_digit_count < 1 \<or> 6 < hex_digit_count
                 then set_error ''E1006'' Char_malformed_u_braces lx
                 else read_character lx)"

definition is_char_escape :: "char \<Rightarrow> bool" where
  "is_char_escape c \<longleftrightarrow> c \<in> {CHR ''n'', CHR ''t'', CHR ''r'', CHR 0x5C, CHR 0x27, CHR 0x22, CHR ''0'', NUL}"

definition read_char_escape :: "lexer \<Rightarrow> lexer" where
  "read_char_escape lx =
     (if current_character lx = CHR ''x'' then read_char_x_escape lx
      else if current_character lx = CHR ''u'' then read_char_u_escape lx
      else if \<not> is_char_escape (current_character lx)
      then read_character (set_error ''E1007'' Invalid_char_escape lx)
      else read_character lx)"

definition decode_here :: "lexer \<Rightarrow> u32 \<times> nat" where
  "decode_here lx = gray_utf8_decode (\<lambda>i. of_char (source_byte lx (position lx + i))) (length (input lx) - position lx)"

definition read_char_codepoint :: "lexer \<Rightarrow> lexer" where
  "read_char_codepoint lx =
     (let (codepoint, sequence_length) = decode_here lx
      in if codepoint = 0xFFFD \<and> sequence_length = 1 \<and> (0x80 :: nat) \<le> of_char (current_character lx)
         then read_character (set_error ''E1018'' Malformed_utf8_in_char lx)
         else (read_character ^^ sequence_length) lx)"

definition in_char_literal :: "char \<Rightarrow> bool" where
  "in_char_literal c \<longleftrightarrow> c \<noteq> CHR 0x27 \<and> c \<noteq> NUL \<and> c \<noteq> CHR 0x0A"

definition read_char_literal :: "lexer \<Rightarrow> lexer \<times> string" where
  "read_char_literal lx =
     (let lx = read_character lx;
          start = position lx;
          lx = (if current_character lx = CHR 0x27 then set_error ''E1018'' Char_not_one_codepoint lx
                else if current_character lx = CHR 0x5C then read_char_escape (read_character lx)
                else read_char_codepoint lx);
          lx = (if in_char_literal (current_character lx) \<and> error_code lx = None
                then let lx = read_while in_char_literal lx
                     in if current_character lx = CHR 0x27 then set_error ''E1018'' Char_not_one_codepoint lx else lx
                else lx);
          literal_text = source_slice lx start (position lx);
          lx = (if current_character lx = CHR 0x27 then read_character lx
                else if error_code lx = None then set_error ''E1005'' Unclosed_char lx else lx)
      in (lx, literal_text))"

end
