(* ===== verification/Lexer_Tokens.thy ===== *)
theory Lexer_Tokens
  imports Lexer_Strings
begin

text \<open>
  The tokens of \<open>lexer.c\<close>: creation of a lexer and \<open>lexer_next_token\<close>. The branches of the
  switch on the current character are \<open>token_switch\<close>, which also returns whether the branch ends
  in \<open>break\<close> (a character is read after it) or in \<open>goto done\<close>.
\<close>

definition check_upcoming_characters :: "lexer \<Rightarrow> string \<Rightarrow> bool" where
  "check_upcoming_characters lx expected_text \<longleftrightarrow>
     position lx + length expected_text \<le> length (input lx)
     \<and> source_slice lx (position lx) (position lx + length expected_text) = expected_text"

definition attribute_keywords :: "(string \<times> attribute_token) list" where
  "attribute_keywords = [
    (''#strict'', TOKEN_STRICT),
    (''#flags'', TOKEN_FLAGS),
    (''#doc'', TOKEN_DOC),
    (''#json'', TOKEN_JSON_ATTRIBUTE),
    (''#discard'', TOKEN_DISCARD),
    (''#deprecated'', TOKEN_DEPRECATED),
    (''#error_code'', TOKEN_ERROR_CODE_ATTRIBUTE),
    (''#test'', TOKEN_TEST),
    (''#define'', TOKEN_DEFINE)]"

subsection \<open>Creation\<close>

definition byte_order_mark :: string where
  "byte_order_mark = [CHR 0xEF, CHR 0xBB, CHR 0xBF]"

definition INT32_MAX :: nat where "INT32_MAX = 2147483647"

text \<open>The two flags the allocation leaves uninitialised are written before they are read.\<close>

definition lexer_create_sized :: "string \<Rightarrow> string \<Rightarrow> lexer" where
  "lexer_create_sized text file_name =
     (let text = (if take 3 text = byte_order_mark then drop 3 text else text);
          text = (if INT32_MAX < length text then take INT32_MAX text else text)
      in read_character
           \<lparr>input = text, position = 0, read_position = 0, current_character = NUL, line = 1, column = 0,
            source_file = file_name, has_unterminated_string = False, error_code = None, error_message = None\<rparr>)"

definition lexer_create :: "string \<Rightarrow> string \<Rightarrow> lexer" where
  "lexer_create text file_name = lexer_create_sized (takeWhile (\<lambda>c. c \<noteq> NUL) text) file_name"

subsection \<open>Operators\<close>

type_synonym scanned = "lexer \<times> TokenType \<times> token_text"

definition make_paired_token ::
    "lexer \<Rightarrow> char \<Rightarrow> operator_token \<Rightarrow> string \<Rightarrow> operator_token \<Rightarrow> string \<Rightarrow> scanned" where
  "make_paired_token lx second paired_type paired_text single_type single_text =
     (if peek_character lx = second then (read_character lx, Operator paired_type, Text paired_text)
      else (lx, Operator single_type, Text single_text))"

text \<open>The cases that only call \<open>make_paired_token\<close>, and those of one-character operators.\<close>

definition paired_operators :: "(char \<times> char \<times> operator_token \<times> string \<times> operator_token \<times> string) list" where
  "paired_operators = [
    (CHR ''='', CHR ''='', TOKEN_EQUAL, ''=='', TOKEN_ASSIGN, ''=''),
    (CHR ''*'', CHR ''='', TOKEN_ASTERISK_ASSIGN, ''*='', TOKEN_ASTERISK, ''*''),
    (CHR ''/'', CHR ''='', TOKEN_SLASH_ASSIGN, ''/='', TOKEN_SLASH, ''/''),
    (CHR ''%'', CHR ''='', TOKEN_PERCENT_ASSIGN, ''%='', TOKEN_PERCENT, ''%''),
    (CHR ''<'', CHR ''='', TOKEN_LESS_THAN_OR_EQUAL, ''<='', TOKEN_LESS_THAN, ''<''),
    (CHR ''>'', CHR ''='', TOKEN_GREATER_THAN_OR_EQUAL, ''>='', TOKEN_GREATER_THAN, ''>''),
    (CHR ''&'', CHR ''&'', TOKEN_AND, ''&&'', TOKEN_AMPERSAND, ''&'')]"

definition single_operators :: "(char \<times> operator_token) list" where
  "single_operators = [
    (CHR '','', TOKEN_COMMA), (CHR '':'', TOKEN_COLON), (CHR '';'', TOKEN_SEMICOLON),
    (CHR ''('', TOKEN_LEFT_PARENTHESIS), (CHR '')'', TOKEN_RIGHT_PARENTHESIS),
    (CHR ''{'', TOKEN_LEFT_BRACE), (CHR ''}'', TOKEN_RIGHT_BRACE),
    (CHR ''['', TOKEN_LEFT_BRACKET), (CHR '']'', TOKEN_RIGHT_BRACKET),
    (CHR ''.'', TOKEN_DOT), (CHR ''@'', TOKEN_AT), (CHR ''^'', TOKEN_CARET)]"

definition illegal :: "string \<Rightarrow> lexer_message \<Rightarrow> lexer \<Rightarrow> scanned" where
  "illegal code message lx = (set_error code message lx, TOKEN_ILLEGAL, Message message)"

definition plus_token :: "lexer \<Rightarrow> scanned" where
  "plus_token lx =
     (if peek_character lx = CHR ''='' then (read_character lx, Operator TOKEN_PLUS_ASSIGN, Text ''+='')
      else if peek_character lx = CHR ''+'' then (read_character lx, Operator TOKEN_INCREMENT, Text ''++'')
      else (lx, Operator TOKEN_PLUS, Text ''+''))"

definition minus_token :: "lexer \<Rightarrow> scanned" where
  "minus_token lx =
     (if peek_character lx = CHR ''>'' then (read_character lx, Operator TOKEN_ARROW, Text ''->'')
      else if peek_character lx = CHR ''='' then (read_character lx, Operator TOKEN_MINUS_ASSIGN, Text ''-='')
      else if peek_character lx = CHR ''-'' then (read_character lx, Operator TOKEN_DECREMENT, Text ''--'')
      else (lx, Operator TOKEN_MINUS, Text ''-''))"

definition bang_token :: "lexer \<Rightarrow> scanned" where
  "bang_token lx =
     (let p = read_position lx; L = length (input lx)
      in if peek_character lx = CHR ''='' then (read_character lx, Operator TOKEN_NOT_EQUAL, Text ''!='')
         else if peek_character lx = CHR ''i'' \<and> p + 1 < L \<and> source_byte lx (p + 1) = CHR ''n'' \<and>
                 (L \<le> p + 2 \<or> \<not> (isalnum (source_byte lx (p + 2)) \<or> source_byte lx (p + 2) = CHR ''_''))
         then (read_character (read_character lx), Keyword TOKEN_NOT_IN, Text ''!in'')
         else (lx, Operator TOKEN_BANG, Text ''!''))"

definition pipe_token :: "lexer \<Rightarrow> scanned" where
  "pipe_token lx =
     (if peek_character lx = CHR ''|'' then (read_character lx, Operator TOKEN_OR, Text ''||'')
      else illegal ''E1020'' Single_pipe lx)"

text \<open>An attribute reads all of its spelling but one character, which the \<open>break\<close> reads.\<close>

definition hash_token :: "lexer \<Rightarrow> scanned" where
  "hash_token lx =
     (if check_upcoming_characters lx ''#['' then (read_character lx, Attribute TOKEN_HASH_LEFT_BRACKET, Text ''#['')
      else case find (\<lambda>(spelling, _). check_upcoming_characters lx spelling) attribute_keywords of
        Some (spelling, type) \<Rightarrow>
          ((read_character ^^ (length spelling - 1)) lx, Attribute type, Text spelling)
      | None \<Rightarrow> illegal ''E1019'' Stray_hash lx)"

subsection \<open>Literals and words\<close>

definition with_error :: "lexer \<times> string \<Rightarrow> TokenType \<Rightarrow> scanned" where
  "with_error scan type =
     (let (lx, text) = scan
      in if error_code lx \<noteq> None then (lx, TOKEN_ILLEGAL, error_literal lx) else (lx, type, Text text))"

definition string_token :: "lexer \<Rightarrow> scanned" where
  "string_token lx =
     (let (lx, text) = read_string (lx\<lparr>has_unterminated_string := False\<rparr>)
      in if has_unterminated_string lx then illegal ''E1021'' Unclosed_string lx
         else with_error (lx, text) TOKEN_STRING)"

definition word_token :: "lexer \<Rightarrow> scanned" where
  "word_token lx =
     (let (lx, start, len) = scan_identifier_span lx
      in if error_code lx \<noteq> None then (lx, TOKEN_ILLEGAL, error_literal lx)
         else let text = source_slice lx start (start + len)
              in case token_lookup_keyword_with_length text of
                   Some (keyword_type, keyword_text) \<Rightarrow> (lx, Keyword keyword_type, Text keyword_text)
                 | None \<Rightarrow> (lx, TOKEN_IDENTIFIER, Text text))"

definition number_token :: "lexer \<Rightarrow> scanned" where
  "number_token lx = (let (lx, text, type) = read_number lx in with_error (lx, text) type)"

definition unexpected_token :: "lexer \<Rightarrow> scanned" where
  "unexpected_token lx =
     (let (codepoint, sequence_length) = decode_here lx
      in if \<not> (codepoint \<noteq> 0xFFFD \<or> 1 < sequence_length)
         then illegal ''E1022'' (Unexpected_byte (current_character lx)) lx
         else illegal ''E1022'' (Unexpected_character (source_slice lx (position lx) (position lx + sequence_length)))
                ((read_character ^^ (sequence_length - 1)) lx))"

subsection \<open>The switch\<close>

definition token_switch :: "lexer \<Rightarrow> scanned \<times> bool" where
  "token_switch lx =
     (let c = current_character lx
      in if c = NUL
         then if position lx < length (input lx) then (illegal ''E1026'' NUL_in_source lx, True)
              else ((lx, TOKEN_END_OF_FILE, Text []), False)
         else case map_of paired_operators c of
           Some (second, paired_type, paired_text, single_type, single_text) \<Rightarrow>
             (make_paired_token lx second paired_type paired_text single_type single_text, True)
         | None \<Rightarrow> (case map_of single_operators c of
           Some type \<Rightarrow> ((lx, Operator type, Text [c]), True)
         | None \<Rightarrow>
             if c = CHR ''+'' then (plus_token lx, True)
             else if c = CHR ''-'' then (minus_token lx, True)
             else if c = CHR ''!'' then (bang_token lx, True)
             else if c = CHR ''?'' then (illegal ''E1025'' Question_mark lx, True)
             else if c = CHR ''|'' then (pipe_token lx, True)
             else if c = CHR ''#'' then (hash_token lx, True)
             else if c = CHR 0x22 then (string_token lx, False)
             else if c = CHR 0x60 then (with_error (read_raw_string lx) TOKEN_RAW_STRING, False)
             else if c = CHR 0x27 then (with_error (read_char_literal (lx\<lparr>error_code := None\<rparr>)) TOKEN_CHAR, False)
             else if isalpha c \<or> c = CHR ''_'' then (word_token lx, False)
             else if isdigit c then (number_token lx, False)
             else (unexpected_token lx, True)))"

definition lexer_next_token :: "lexer \<Rightarrow> lexer \<times> token" where
  "lexer_next_token lx =
     (let lx = lx\<lparr>error_code := None\<rparr>;
          position_before_skip = position lx;
          lx = skip_whitespace_and_comments lx;
          has_leading_gap = (position lx \<noteq> position_before_skip);
          token_at = (\<lambda>type text. \<lparr>token_type = type, literal = text, token_line = line lx, token_column = column lx,
                        token_file = source_file lx, is_preceded_by_whitespace = has_leading_gap\<rparr>)
      in if error_code lx \<noteq> None then (lx, token_at TOKEN_ILLEGAL (error_literal lx))
         else let ((lx, type, text), reads_more) = token_switch lx
              in (if reads_more then read_character lx else lx, token_at type text))"

text \<open>The tokens of a source text up to the end of the file.\<close>

fun lex_tokens :: "nat \<Rightarrow> lexer \<Rightarrow> token list option" where
  "lex_tokens 0 lx = None"
| "lex_tokens (Suc fuel) lx =
     (let (lx, t) = lexer_next_token lx
      in if token_type t = TOKEN_END_OF_FILE then Some [t] else map_option ((#) t) (lex_tokens fuel lx))"

end
