(* ===== verification/Lexer_Bounds.thy ===== *)
theory Lexer_Bounds
  imports Lexer_Tokens
begin

text \<open>
  How far the lexer reads. \<open>upto k lx\<close> says that the current character is the byte at the
  position and that the position is at most \<open>k\<close> bytes past the end of the source. Every operation
  preserves \<open>upto 1\<close>: the only byte past the source it can name is the terminating NUL.
\<close>

definition upto :: "nat \<Rightarrow> lexer \<Rightarrow> bool" where
  "upto k lx \<longleftrightarrow> read_position lx = Suc (position lx) \<and> current_character lx = source_byte lx (position lx)
     \<and> position lx \<le> length (input lx) + k"

lemma read_character_simps [simp]:
  "position (read_character lx) = read_position lx" "read_position (read_character lx) = Suc (read_position lx)"
  "current_character (read_character lx) = peek_character lx" "input (read_character lx) = input lx"
  "source_byte (read_character lx) = source_byte lx" "source_file (read_character lx) = source_file lx"
  "error_code (read_character lx) = error_code lx" "error_message (read_character lx) = error_message lx"
  "has_unterminated_string (read_character lx) = has_unterminated_string lx"
  by (simp_all add: read_character_def Let_def peek_character_def source_byte_def fun_eq_iff)

lemma set_error_simps [simp]:
  "position (set_error c m lx) = position lx" "read_position (set_error c m lx) = read_position lx"
  "current_character (set_error c m lx) = current_character lx" "input (set_error c m lx) = input lx"
  "source_byte (set_error c m lx) = source_byte lx" "peek_character (set_error c m lx) = peek_character lx"
  "line (set_error c m lx) = line lx" "column (set_error c m lx) = column lx"
  "has_unterminated_string (set_error c m lx) = has_unterminated_string lx"
  "error_code (set_error c m lx) = Some c" "error_message (set_error c m lx) = Some m"
  by (simp_all add: set_error_def source_byte_def peek_character_def fun_eq_iff)

lemma upto_flags [simp]:
  "upto k (set_error c m lx) = upto k lx" "upto k (lx\<lparr>error_code := ec\<rparr>) = upto k lx"
  "upto k (lx\<lparr>has_unterminated_string := b\<rparr>) = upto k lx"
  by (simp_all add: upto_def set_error_def source_byte_def)

lemma upto_mono: "upto j lx \<Longrightarrow> j \<le> k \<Longrightarrow> upto k lx"
  by (auto simp: upto_def)

lemma upto_0: "upto 0 lx \<Longrightarrow> upto k lx"
  by (auto simp: upto_def)

lemma peek_next: "upto k lx \<Longrightarrow> peek_character lx = source_byte lx (Suc (position lx))"
  by (simp add: upto_def peek_character_def)

lemma upto_live: "upto k lx \<Longrightarrow> current_character lx \<noteq> NUL \<Longrightarrow> position lx < length (input lx)"
  by (auto simp: upto_def source_byte_def split: if_splits)

lemma upto_read_inside: "upto k lx \<Longrightarrow> position lx < length (input lx) \<Longrightarrow> upto 0 (read_character lx)"
  by (simp add: upto_def peek_character_def)

lemma upto_read: "upto k lx \<Longrightarrow> current_character lx \<noteq> NUL \<Longrightarrow> upto 0 (read_character lx)"
  by (rule upto_read_inside) (auto intro: upto_live)

lemma upto_read_live: "upto k lx \<Longrightarrow> current_character lx \<noteq> NUL \<Longrightarrow> upto j (read_character lx)"
  by (rule upto_0) (rule upto_read)

lemma upto_read_last: "upto 0 lx \<Longrightarrow> upto (Suc 0) (read_character lx)"
  by (simp add: upto_def peek_character_def)

lemma upto_read_pow:
  assumes "upto 0 lx" "position lx + n \<le> length (input lx)"
  shows "upto 0 ((read_character ^^ n) lx)"
  using assms(2)
proof (induction n)
  case 0
  then show ?case using assms(1) by simp
next
  case (Suc n)
  have "position ((read_character ^^ n) lx) = position lx + n"
    using assms(1) by (induction n) (simp_all add: upto_def)
  then show ?case using Suc by (auto intro: upto_read_inside)
qed

lemma upto_read_while: "upto k lx \<Longrightarrow> upto k (read_while P lx)"
proof (induction P lx rule: read_while.induct)
  case (1 P lx)
  show ?case
  proof (cases "current_character lx \<noteq> NUL \<and> P (current_character lx)")
    case True
    then have "read_while P lx = read_while P (read_character lx)" by (subst read_while.simps) (rule if_P)
    then show ?thesis using 1(1) [OF True] upto_read_live [OF 1(2), of k] True by simp
  next
    case False
    then show ?thesis using 1(2) by (simp only: read_while.simps [of P lx] if_False)
  qed
qed

subsection \<open>Whitespace and comments\<close>

lemma upto_block_comment_loop: "upto k lx \<Longrightarrow> upto k (block_comment_loop lx)"
proof (induction lx rule: block_comment_loop.induct)
  case (1 lx)
  have "upto k (read_character lx)" if "current_character lx \<noteq> NUL" using 1(2) that by (rule upto_read_live)
  moreover have "upto k (read_character (read_character lx))"
    if "current_character lx = CHR ''*''" "peek_character lx = CHR ''/''"
    using 1(2) that by (intro upto_read_live [OF upto_read_live]) auto
  ultimately show ?case using 1 by (subst block_comment_loop.simps) simp
qed

lemma upto_skip_all: "upto k lx \<Longrightarrow> upto k (skip_whitespace_and_comments lx)"
proof (induction lx rule: skip_whitespace_and_comments.induct)
  case (1 lx)
  let ?x = "skip_whitespace lx"
  have x: "upto k ?x" using 1(3) by (simp add: skip_whitespace_def upto_read_while)
  have a: "upto k (skip_line_comment (read_character (read_character ?x)))"
    if "current_character ?x = CHR ''/''" "peek_character ?x = CHR ''/''"
    unfolding skip_line_comment_def using x that by (intro upto_read_while upto_read_live [OF upto_read_live]) auto
  have b: "upto k (skip_block_comment (read_character ?x))"
    if "current_character ?x = CHR ''/''" "peek_character ?x = CHR ''*''"
    unfolding skip_block_comment_def using x that by (intro upto_block_comment_loop upto_read_live [OF upto_read_live]) auto
  show ?case using 1(1) [OF refl] 1(2) [OF refl] a b x
    by (subst skip_whitespace_and_comments.simps) (auto simp: Let_def)
qed

subsection \<open>Literals\<close>

lemma upto_scan_identifier: "upto k lx \<Longrightarrow> upto k (fst (scan_identifier_span lx))"
  by (simp add: scan_identifier_span_def Let_def upto_read_while)

lemma upto_read_prefixed:
  assumes "upto k lx" "current_character lx \<noteq> NUL" "peek_character lx \<noteq> NUL"
  shows "upto k (fst (read_prefixed_digits lx start base))"
proof -
  have "upto k (read_character (read_character lx))"
    using assms by (intro upto_read_live [OF upto_read_live]) auto
  then show ?thesis by (simp add: read_prefixed_digits_def Let_def upto_read_while)
qed

lemma upto_fraction: "upto k lx \<Longrightarrow> upto k (fst (read_fraction lx))"
  by (auto simp: read_fraction_def intro!: upto_read_while upto_read_live [where k = k])

lemma upto_exponent:
  assumes "upto k lx"
  shows "upto k (fst (read_exponent lx))"
proof -
  have "upto k (read_character lx)" if "current_character lx = CHR ''e'' \<or> current_character lx = CHR ''E''"
    using assms that by (intro upto_read_live) auto
  then show ?thesis using assms
    by (auto simp: read_exponent_def Let_def intro!: upto_read_while intro: upto_read_live)
qed

text \<open>A step that only sets the error.\<close>

definition marks :: "lexer \<Rightarrow> lexer \<Rightarrow> bool" where
  "marks lx lx' \<longleftrightarrow> lx' = lx \<or> (\<exists>c m. lx' = set_error c m lx)"

lemma set_error_twice: "set_error c m (set_error c' m' lx) = set_error c m lx"
  by (simp add: set_error_def)

lemma marks_error [intro]: "marks lx lx' \<Longrightarrow> marks lx (set_error c m lx')"
  unfolding marks_def using set_error_twice by blast

lemma marks_refl [intro, simp]: "marks lx lx"
  by (simp add: marks_def)

lemma marks_trans: "marks a b \<Longrightarrow> marks b c \<Longrightarrow> marks a c"
  unfolding marks_def using set_error_twice by metis

lemma marks_cursor: "marks lx lx' \<Longrightarrow> cursor lx' = cursor lx \<and> upto k lx' = upto k lx"
  by (auto simp: marks_def cursor_def set_error_def upto_def source_byte_def)

lemma marks_check_point: "marks lx (check_point digits i rest lx)"
proof (induction digits i rest lx rule: check_point.induct)
  case (2 digits i c rest lx)
  then show ?case by (cases "c = CHR ''.''") (auto simp: Let_def)
qed simp

lemma marks_validate_number: "marks lx (validate_number text lx)"
proof -
  define a where "a = (if last (if has_radix_prefix text then drop 2 text else text) = CHR ''_''
    then set_error ''E1013'' Trailing_underscore lx else lx)"
  have "marks lx a" by (auto simp: a_def)
  then show ?thesis unfolding validate_number_def Let_def a_def [symmetric]
    by (auto intro: marks_trans [OF _ marks_check_point])
qed

lemma upto_validate_number: "upto k (validate_number text lx) = upto k lx"
  using marks_cursor [OF marks_validate_number] by blast

lemma upto_read_number:
  assumes "upto k lx" "current_character lx \<noteq> NUL"
  shows "upto k (fst (read_number lx))"
proof -
  note u = upto_exponent [OF upto_fraction [OF upto_read_while [OF assms(1), of is_decimal_digit]]]
  show ?thesis using assms upto_read_prefixed [OF assms] u
    by (auto simp: read_number_def Let_def upto_validate_number case_prod_unfold)
qed

lemma marks_utf8_check_loop: "marks lx (utf8_check_loop lx i)"
proof (induction lx i rule: utf8_check_loop.induct)
  case (1 lx i)
  then show ?case by (subst utf8_check_loop.simps) (auto split: prod.splits)
qed

lemma marks_check_literal_utf8: "marks lx (check_literal_utf8 lx i)"
  by (simp add: check_literal_utf8_def marks_utf8_check_loop)

lemma upto_check_literal_utf8: "upto k (check_literal_utf8 lx i) = upto k lx"
  using marks_cursor [OF marks_check_literal_utf8] by blast

subsection \<open>Strings\<close>

lemma upto_hex_digit_loop: "upto k lx \<Longrightarrow> upto k (fst (hex_digit_loop lx n c))"
proof (induction lx n c rule: hex_digit_loop.induct)
  case (1 lx n c)
  show ?case
  proof (cases "current_character lx \<noteq> NUL \<and> isxdigit (current_character lx)")
    case True
    then show ?thesis using 1(1) [OF True] 1(2) by (subst hex_digit_loop.simps) (simp add: upto_read_live)
  next
    case False
    then show ?thesis using 1(2) by (subst hex_digit_loop.simps) auto
  qed
qed

lemma isxdigit_live: "isxdigit c \<Longrightarrow> c \<noteq> NUL"
  by (auto simp: isxdigit_def isdigit_def)

lemma upto_u_escape:
  assumes "upto k lx" "current_character lx \<noteq> NUL"
  shows "upto k (fst (read_u_escape lx p es))"
proof -
  let ?a = "read_character lx"
  have a: "upto k ?a" using assms by (rule upto_read_live)
  have b: "upto k (fst (hex_digit_loop (read_character ?a) 0 0))" if "current_character ?a = CHR ''{''"
    using that by (intro upto_hex_digit_loop upto_read_live [OF a]) auto
  show ?thesis using a b
    by (auto simp: read_u_escape_def Let_def split: prod.splits intro: upto_read_live)
qed

lemma upto_x_escape:
  assumes "upto k lx" "current_character lx \<noteq> NUL"
  shows "upto k (read_x_escape lx)"
  using assms isxdigit_live
  by (auto simp: read_x_escape_def Let_def intro!: upto_read_live)

lemma upto_escape:
  assumes "upto k lx" "current_character lx \<noteq> NUL"
  shows "upto (Suc 0) (fst (read_escape lx d es))"
proof -
  have a: "upto j (read_character lx)" for j using assms by (rule upto_read_live)
  have e: "upto (Suc 0) (read_character (set_error c m (read_character lx)))" for c m
    using upto_read_last [of "set_error c m (read_character lx)"] a [of 0] by simp
  show ?thesis using a [of "Suc 0"] upto_read_last [OF a [of 0]] e
    by (auto simp: read_escape_def Let_def read_simple_escape_def intro!: upto_u_escape upto_x_escape)
qed

lemma upto_nested_loop: "upto k lx \<Longrightarrow> upto k (nested_loop quote lx)"
proof (induction quote lx rule: nested_loop.induct)
  case (1 quote lx)
  have "upto k (read_character lx)" if "current_character lx \<noteq> NUL" using 1(3) that by (rule upto_read_live)
  moreover have "upto k (read_character (read_character lx))"
    if "current_character lx \<noteq> NUL" "peek_character lx \<noteq> NUL"
    using 1(3) that by (intro upto_read_live [OF upto_read_live]) auto
  ultimately show ?case using 1 by (subst nested_loop.simps) auto
qed

lemma upto_skip_nested:
  assumes "upto k lx" "current_character lx \<noteq> NUL" "quote \<noteq> NUL"
  shows "upto k (skip_nested quote lx)"
  using upto_nested_loop [OF upto_read_live [OF assms(1,2), of k], of quote] assms(3)
  by (auto simp: skip_nested_def Let_def intro: upto_read_live)

lemma upto_string_step:
  assumes "upto (Suc 0) lx" "current_character lx \<noteq> NUL" "string_step lx d es = (b, lx', d', es')"
  shows "upto (Suc 0) lx'"
proof -
  have a: "upto (Suc 0) (read_character lx)" using assms(1,2) by (rule upto_read_live)
  have e: "upto (Suc 0) (fst (read_escape lx d es))" using assms(1,2) by (rule upto_escape)
  have n: "upto (Suc 0) (skip_nested CHR 0x22 lx)" "upto (Suc 0) (skip_nested CHR 0x27 lx)"
    using assms(1,2) by (auto intro: upto_skip_nested)
  have t: "upto (Suc 0) (read_character (read_character lx))" if "peek_character lx = CHR ''{''"
    using that by (intro upto_read_live [OF a]) auto
  show ?thesis using assms a e n t by (auto simp: string_step_def Let_def split: if_splits prod.splits)
qed

lemma upto_string_loop: "upto (Suc 0) lx \<Longrightarrow> upto (Suc 0) (fst (string_loop lx d es))"
proof (induction lx d es rule: string_loop.induct)
  case (1 lx d es)
  obtain b lx1 d1 es1 where s: "string_step lx d es = (b, lx1, d1, es1)" by (metis prod.exhaust)
  show ?case using 1(1) [OF _ s [symmetric] refl refl] 1(2) upto_string_step [OF 1(2) _ s] s
    by (subst string_loop.simps) auto
qed

lemma upto_read_string:
  assumes "upto (Suc 0) lx" "current_character lx \<noteq> NUL"
  shows "upto (Suc 0) (fst (read_string lx))"
proof -
  have a: "upto (Suc 0) (fst (string_loop (read_character lx) 0 []))"
    using assms by (intro upto_string_loop upto_read_live)
  have r: "upto (Suc 0) (read_character (check_literal_utf8 lx i))"
    if "upto (Suc 0) lx" "current_character (check_literal_utf8 lx i) = CHR 0x22" for lx i
    using that by (intro upto_read_live [of "Suc 0"]) (auto simp: upto_check_literal_utf8)
  show ?thesis using a
    by (auto simp: read_string_def Let_def upto_check_literal_utf8 split: prod.splits intro: r)
qed

lemma upto_read_raw_string:
  assumes "upto (Suc 0) lx" "current_character lx \<noteq> NUL"
  shows "upto (Suc 0) (fst (read_raw_string lx))"
proof -
  have a: "upto (Suc 0) (read_while (\<lambda>c. c \<noteq> CHR 0x60) (read_character lx))"
    using assms by (intro upto_read_while upto_read_live)
  have r: "upto (Suc 0) (read_character (check_literal_utf8 lx i))"
    if "upto (Suc 0) lx" "current_character (check_literal_utf8 lx i) = CHR 0x60" for lx i
    using that by (intro upto_read_live [of "Suc 0"]) (auto simp: upto_check_literal_utf8)
  show ?thesis using a
    by (auto simp: read_raw_string_def Let_def upto_check_literal_utf8 intro: r)
qed

subsection \<open>Character literals\<close>

lemma upto_char_escape:
  assumes "upto 0 lx"
  shows "upto (Suc 0) (read_char_escape lx)"
proof -
  note 1 = upto_0 [OF assms, of "Suc 0"]
  have x: "upto (Suc 0) (read_char_x_escape lx)" if "current_character lx = CHR ''x''"
    using 1 that isxdigit_live by (auto simp: read_char_x_escape_def Let_def intro!: upto_read_live)
  have u: "upto (Suc 0) (read_char_u_escape lx)" if c: "current_character lx = CHR ''u''"
  proof -
    have a: "upto (Suc 0) (read_character lx)" using 1 c by (intro upto_read_live) auto
    have "upto (Suc 0) (fst (hex_digit_loop (read_character (read_character lx)) 0 0))"
      if "current_character (read_character lx) = CHR ''{''"
      using that by (intro upto_hex_digit_loop upto_read_live [OF a]) auto
    then show ?thesis using a
      by (auto simp: read_char_u_escape_def Let_def split: prod.splits intro: upto_read_live)
  qed
  have e: "upto (Suc 0) (read_character (set_error c m lx))" for c m
    using upto_read_last [of "set_error c m lx"] assms by simp
  show ?thesis using x u e upto_read_last [OF assms] by (auto simp: read_char_escape_def)
qed

lemma decode_here_bounds:
  assumes "upto 0 lx" "decode_here lx = (c, n)"
  shows "1 \<le> n" "position lx < length (input lx) \<longrightarrow> position lx + n \<le> length (input lx)"
    "length (input lx) \<le> position lx \<longrightarrow> n = 1"
proof -
  have s: "1 \<le> n \<and> n \<le> 4 \<and> (1 \<le> length (input lx) - position lx \<longrightarrow> n \<le> length (input lx) - position lx)"
    using decode_shape [OF assms(2) [unfolded decode_here_def]] by blast
  then show "1 \<le> n" "position lx < length (input lx) \<longrightarrow> position lx + n \<le> length (input lx)" by auto
  have "n = 1" if "length (input lx) \<le> position lx"
    using assms that decode_1 [of "\<lambda>i. of_char (source_byte lx (position lx + i))"]
    by (simp add: decode_here_def source_byte_def)
  then show "length (input lx) \<le> position lx \<longrightarrow> n = 1" by blast
qed

lemma upto_char_codepoint:
  assumes "upto 0 lx"
  shows "upto (Suc 0) (read_char_codepoint lx)"
proof -
  obtain c n where d: "decode_here lx = (c, n)" by fastforce
  note b = decode_here_bounds [OF assms d]
  have "upto (Suc 0) ((read_character ^^ n) lx)"
  proof (cases "position lx < length (input lx)")
    case True
    then show ?thesis using b assms by (intro upto_0 [OF upto_read_pow]) auto
  next
    case False
    then show ?thesis using b upto_read_last [OF assms] by simp
  qed
  moreover have "upto (Suc 0) (read_character (set_error e m lx))" for e m
    using upto_read_last [of "set_error e m lx"] assms by simp
  ultimately show ?thesis by (simp add: read_char_codepoint_def d)
qed

lemma upto_read_char_literal:
  assumes "upto (Suc 0) lx" "current_character lx \<noteq> NUL"
  shows "upto (Suc 0) (fst (read_char_literal lx))"
proof -
  let ?a = "read_character lx"
  define b where "b = (if current_character ?a = CHR 0x27 then set_error ''E1018'' Char_not_one_codepoint ?a
    else if current_character ?a = CHR 0x5C then read_char_escape (read_character ?a) else read_char_codepoint ?a)"
  have a: "upto 0 ?a" using assms by (rule upto_read)
  then have "upto (Suc 0) b"
    by (auto simp: b_def intro: upto_0 upto_char_codepoint intro!: upto_char_escape upto_read)
  moreover define c where "c = (if in_char_literal (current_character b) \<and> error_code b = None
    then let lx = read_while in_char_literal b
         in if current_character lx = CHR 0x27 then set_error ''E1018'' Char_not_one_codepoint lx else lx else b)"
  ultimately have "upto (Suc 0) c" by (auto simp: c_def Let_def intro: upto_read_while)
  then show ?thesis
    unfolding read_char_literal_def Let_def b_def [symmetric]
    using c_def by (auto simp: Let_def intro: upto_read_live)
qed

subsection \<open>Tokens\<close>

lemma upto_hash_token:
  assumes "upto 0 lx" "current_character lx \<noteq> NUL"
  shows "upto 0 (fst (hash_token lx))"
proof -
  have p: "upto 0 ((read_character ^^ (length spelling - 1)) lx)"
    if "check_upcoming_characters lx spelling" for spelling
    using that assms by (intro upto_read_pow) (auto simp: check_upcoming_characters_def)
  show ?thesis
    using p assms upto_read [OF assms]
    by (auto simp: hash_token_def illegal_def split: option.splits prod.splits dest!: find_Some_iff [THEN iffD1])
qed

text \<open>
  What a branch of the switch leaves: a branch that ends in \<open>break\<close> stays inside the source and
  before its last character, so the read after it stays inside; the others stay within one byte.
\<close>

lemma upto_operator_tokens:
  assumes "upto 0 lx" "current_character lx \<noteq> NUL"
  shows "upto 0 (fst (plus_token lx))" "upto 0 (fst (minus_token lx))" "upto 0 (fst (bang_token lx))"
    "upto 0 (fst (pipe_token lx))"
    "second \<noteq> NUL \<Longrightarrow> upto 0 (fst (make_paired_token lx second t s t' s'))"
proof -
  have r: "upto 0 (read_character lx)" using assms by (rule upto_read)
  then have "upto 0 (read_character (read_character lx))" if "peek_character lx = CHR ''i''"
    using that by (intro upto_read) auto
  with r assms show "upto 0 (fst (plus_token lx))" "upto 0 (fst (minus_token lx))" "upto 0 (fst (bang_token lx))"
    "upto 0 (fst (pipe_token lx))" "upto 0 (fst (make_paired_token lx second t s t' s'))"
    by (auto simp: plus_token_def minus_token_def bang_token_def pipe_token_def illegal_def Let_def make_paired_token_def)
qed

lemma upto_unexpected_token:
  assumes "upto 0 lx" "current_character lx \<noteq> NUL"
  shows "upto 0 (fst (unexpected_token lx))"
proof -
  obtain c n where d: "decode_here lx = (c, n)" by fastforce
  have "position lx + n \<le> length (input lx)"
    using decode_here_bounds(2) [OF assms(1) d] upto_live [OF assms] by simp
  then have "upto 0 ((read_character ^^ (n - 1)) lx)" using assms(1) by (intro upto_read_pow) auto
  then show ?thesis using assms(1) by (auto simp: unexpected_token_def d illegal_def)
qed

lemma upto_with_error: "upto k (fst scan) \<Longrightarrow> upto k (fst (with_error scan type))"
  by (auto simp: with_error_def split: prod.splits)

lemma upto_word_tokens:
  assumes "upto (Suc 0) lx" "current_character lx \<noteq> NUL"
  shows "upto (Suc 0) (fst (string_token lx))" "upto (Suc 0) (fst (word_token lx))" "upto (Suc 0) (fst (number_token lx))"
    "upto (Suc 0) (fst (with_error (read_raw_string lx) type))"
    "upto (Suc 0) (fst (with_error (read_char_literal (lx\<lparr>error_code := None\<rparr>)) type))"
proof -
  show "upto (Suc 0) (fst (string_token lx))"
    using upto_read_string [of "lx\<lparr>has_unterminated_string := False\<rparr>"] assms
    by (auto simp: string_token_def illegal_def intro: upto_with_error split: prod.splits)
  show "upto (Suc 0) (fst (word_token lx))"
    using upto_scan_identifier [OF assms(1)]
    by (auto simp: word_token_def Let_def split: prod.splits option.splits)
  show "upto (Suc 0) (fst (number_token lx))"
    using upto_read_number [OF assms]
    by (auto simp: number_token_def intro: upto_with_error split: prod.splits)
  show "upto (Suc 0) (fst (with_error (read_raw_string lx) type))"
    using assms by (intro upto_with_error upto_read_raw_string)
  show "upto (Suc 0) (fst (with_error (read_char_literal (lx\<lparr>error_code := None\<rparr>)) type))"
    using assms by (intro upto_with_error upto_read_char_literal) simp_all
qed

lemma paired_operators_second: "map_of paired_operators c = Some (second, rest) \<Longrightarrow> second \<noteq> NUL"
  by (auto simp: paired_operators_def split: if_splits)

text \<open>The cases of the switch at a character of the source.\<close>

lemma token_switch_cases:
  assumes "current_character lx \<noteq> NUL"
    and "\<And>second t s t' s'. second \<noteq> NUL \<Longrightarrow> Q (make_paired_token lx second t s t' s') True"
    and "\<And>t s. Q (lx, Operator t, s) True"
    and "Q (plus_token lx) True" "Q (minus_token lx) True" "Q (bang_token lx) True" "Q (pipe_token lx) True"
    and "Q (hash_token lx) True" "\<And>c m. Q (illegal c m lx) True" "Q (unexpected_token lx) True"
    and "Q (string_token lx) False" "is_identifier_char (current_character lx) \<Longrightarrow> Q (word_token lx) False"
    and "isdigit (current_character lx) \<Longrightarrow> Q (number_token lx) False"
    and "Q (with_error (read_raw_string lx) TOKEN_RAW_STRING) False"
    and "Q (with_error (read_char_literal (lx\<lparr>error_code := None\<rparr>)) TOKEN_CHAR) False"
  shows "case token_switch lx of (scan, reads_more) \<Rightarrow> Q scan reads_more"
proof (cases "map_of paired_operators (current_character lx)")
  case (Some entry)
  obtain second t s t' s' where e: "entry = (second, t, s, t', s')" by (metis prod.exhaust)
  have "second \<noteq> NUL" using paired_operators_second Some e by blast
  then show ?thesis using assms(1,2) Some e by (simp add: token_switch_def Let_def)
next
  case None
  then show ?thesis
    using assms by (cases "map_of single_operators (current_character lx)")
      (simp_all add: token_switch_def Let_def is_identifier_char_def)
qed

lemma upto_token_switch:
  assumes "upto (Suc 0) lx" "token_switch lx = ((lx', type, content), reads_more)"
  shows "upto (if reads_more then 0 else Suc 0) lx'"
proof (cases "current_character lx = NUL")
  case True
  then show ?thesis using assms by (auto simp: token_switch_def illegal_def upto_def split: if_splits)
next
  case False
  have z: "upto 0 lx" using assms(1) upto_live [OF assms(1) False] by (simp add: upto_def)
  have "case token_switch lx of (scan, reads_more) \<Rightarrow> upto (if reads_more then 0 else Suc 0) (fst scan)"
    using z upto_operator_tokens [OF z False] upto_hash_token [OF z False] upto_unexpected_token [OF z False]
      upto_word_tokens [OF assms(1) False]
    by (intro token_switch_cases [OF False]) (simp_all add: illegal_def)
  then show ?thesis by (simp add: assms(2))
qed

lemma upto_next_token:
  assumes "upto (Suc 0) lx"
  shows "upto (Suc 0) (fst (lexer_next_token lx))"
proof -
  let ?s = "skip_whitespace_and_comments (lx\<lparr>error_code := None\<rparr>)"
  have s: "upto (Suc 0) ?s" using assms by (intro upto_skip_all) simp
  obtain lx' type content m where t: "token_switch ?s = ((lx', type, content), m)" by (metis prod.exhaust)
  have "upto (Suc 0) (if m then read_character lx' else lx')"
    using upto_token_switch [OF s t] by (auto intro: upto_read_last)
  then show ?thesis using s by (simp add: lexer_next_token_def Let_def t)
qed

lemma upto_create: "upto 0 (lexer_create_sized content file_name)"
  by (simp add: lexer_create_sized_def Let_def upto_def peek_character_def source_byte_def)

end
