(* ===== verification/Lexer_Progress.thy ===== *)
theory Lexer_Progress
  imports Lexer_Bounds
begin

text \<open>
  Every operation of the lexer only reads characters, one after the other; a call of
  \<open>lexer_next_token\<close> reads at least one unless it returns the end of the file. So the state after any
  number of calls is the state after reading a prefix of the source, and the tokens of a source
  come to an end.
\<close>

lemma reads_to_flags:
  "reads_to (lx\<lparr>error_code := ec\<rparr>) b = reads_to lx b" "reads_on (lx\<lparr>error_code := ec\<rparr>) b = reads_on lx b"
  "reads_to (lx\<lparr>has_unterminated_string := u\<rparr>) b = reads_to lx b"
  "reads_on (lx\<lparr>has_unterminated_string := u\<rparr>) b = reads_on lx b"
  using cursor_pow [of "lx\<lparr>error_code := ec\<rparr>" lx] cursor_pow [of "lx\<lparr>has_unterminated_string := u\<rparr>" lx]
  by (simp_all add: reads_to_def reads_on_def reads_def cursor_def [of "_\<lparr>error_code := _\<rparr>"]
      cursor_def [of "_\<lparr>has_unterminated_string := _\<rparr>"] cursor_def [of lx] del: funpow.simps)

lemma reads_to_marks: "reads_to a b \<Longrightarrow> marks b c \<Longrightarrow> reads_to a c"
  by (auto simp: marks_def)

lemma reads_on_marks: "reads_on a b \<Longrightarrow> marks b c \<Longrightarrow> reads_on a c"
  by (rule reads_on_trans(1)) (auto intro: reads_to_marks)

lemma reads_to_while: "reads_to a b \<Longrightarrow> reads_to a (read_while P b)"
  by (rule reads_to_trans) auto

lemma reads_to_pow: "reads_to a ((read_character ^^ n) a)"
  by (auto simp: reads_to_def reads_def)

lemma reads_on_read: "reads_to a b \<Longrightarrow> reads_on a (read_character b)"
  by (rule reads_on_trans(2)) auto

lemma reads_to_terminated: "reads_to a b \<Longrightarrow> reads_to a (b\<lparr>has_unterminated_string := u\<rparr>)"
  by (rule reads_to_trans, assumption) (rule reads_to_cursor, simp add: cursor_def)

text \<open>A loop whose predicate holds at the current character reads it.\<close>

lemma reads_on_while:
  assumes "current_character lx \<noteq> NUL" "P (current_character lx)"
  shows "reads_on lx (read_while P lx)"
proof -
  have "read_while P lx = read_while P (read_character lx)"
    using assms by (subst read_while.simps) simp
  then show ?thesis by (auto intro: reads_on_first)
qed

subsection \<open>Literals\<close>

lemma reads_on_identifier:
  assumes "current_character lx \<noteq> NUL" "is_identifier_char (current_character lx)"
  shows "reads_on lx (fst (scan_identifier_span lx))"
  using reads_on_while [OF assms(1), of is_identifier_char] assms(2)
  by (auto simp: scan_identifier_span_def Let_def intro: reads_on_marks)

lemma reads_on_prefixed: "reads_on lx (fst (read_prefixed_digits lx start base))"
  by (rule reads_on_first) (auto simp: read_prefixed_digits_def Let_def intro: reads_to_while)

lemma reads_to_fraction: "reads_to lx (fst (read_fraction lx))"
  by (auto simp: read_fraction_def intro: reads_to_while)

lemma reads_to_exponent: "reads_to lx (fst (read_exponent lx))"
  by (auto simp: read_exponent_def Let_def intro: reads_to_while)

lemma reads_on_number:
  assumes "current_character lx \<noteq> NUL" "isdigit (current_character lx)"
  shows "reads_on lx (fst (read_number lx))"
proof -
  let ?a = "read_while is_decimal_digit lx"
  have "reads_on lx ?a" using assms by (intro reads_on_while) (simp_all add: is_decimal_digit_def)
  then have "reads_on lx (fst (read_exponent (fst (read_fraction ?a))))"
    using reads_to_fraction reads_to_exponent by (blast intro: reads_on_trans(1))
  then show ?thesis
    by (auto simp: read_number_def Let_def case_prod_unfold intro: reads_on_marks [OF _ marks_validate_number] reads_on_prefixed)
qed

lemma reads_on_string: "reads_on lx (fst (read_string lx))"
proof (rule reads_on_first)
  obtain b es where b: "string_loop (read_character lx) 0 [] = (b, es)" by fastforce
  have "reads_to (read_character lx) (check_literal_utf8 b (position (read_character lx)))"
    using reads_to_marks [OF reads_to_string_loop [OF b] marks_check_literal_utf8] .
  then show "reads_to (read_character lx) (fst (read_string lx))"
    by (auto simp: read_string_def Let_def b intro: reads_to_terminated)
qed

lemma reads_on_raw_string: "reads_on lx (fst (read_raw_string lx))"
  by (rule reads_on_first)
    (auto simp: read_raw_string_def Let_def intro!: reads_to_read reads_to_marks [OF _ marks_check_literal_utf8] reads_to_error)

lemma reads_to_char_escape: "reads_to lx (read_char_escape lx)"
proof -
  obtain b n c where h: "hex_digit_loop (read_character (read_character lx)) 0 0 = (b, n, c)" by (metis prod.exhaust)
  have b: "reads_to lx b" by (rule reads_to_first [OF reads_to_first [OF reads_to_hex_digit_loop [OF h]]])
  note r = reads_to_read [OF reads_to_refl] reads_to_read [OF reads_to_read [OF reads_to_refl]]
    reads_to_read [OF reads_to_read [OF reads_to_read [OF reads_to_refl]]]
  have "reads_to lx (read_char_x_escape lx)" using r by (simp add: read_char_x_escape_def Let_def reads_to_error)
  moreover have "reads_to lx (read_char_u_escape lx)"
    using r b by (simp add: read_char_u_escape_def Let_def h reads_to_error reads_to_read)
  moreover have "reads_to lx (read_character (set_error e m lx))" for e m by (intro reads_to_read reads_to_set_error)
  ultimately show ?thesis using r by (simp add: read_char_escape_def)
qed

lemma reads_to_char_codepoint: "reads_to lx (read_char_codepoint lx)"
  by (auto simp: read_char_codepoint_def reads_to_pow split: prod.splits)

lemma reads_on_char_literal: "reads_on lx (fst (read_char_literal lx))"
proof (rule reads_on_first)
  let ?a = "read_character lx"
  define b where "b = (if current_character ?a = CHR 0x27 then set_error ''E1018'' Char_not_one_codepoint ?a
    else if current_character ?a = CHR 0x5C then read_char_escape (read_character ?a) else read_char_codepoint ?a)"
  define c where "c = (if in_char_literal (current_character b) \<and> error_code b = None
    then let lx = read_while in_char_literal b
         in if current_character lx = CHR 0x27 then set_error ''E1018'' Char_not_one_codepoint lx else lx else b)"
  have "reads_to ?a b"
    by (auto simp: b_def intro: reads_to_first reads_to_char_escape reads_to_char_codepoint)
  then have "reads_to ?a c" by (auto simp: c_def Let_def intro: reads_to_while)
  then show "reads_to ?a (fst (read_char_literal lx))"
    unfolding read_char_literal_def Let_def b_def [symmetric] using c_def by (auto simp: Let_def)
qed

subsection \<open>Tokens\<close>

lemma fst_with_error: "fst (with_error scan type) = fst scan"
  by (simp add: with_error_def split: prod.splits)

lemma reads_on_error: "reads_on a b \<Longrightarrow> reads_on a (set_error c m b)"
  by (rule reads_on_marks) auto

lemma reads_on_string_token: "reads_on lx (fst (string_token lx))"
  using reads_on_string [of "lx\<lparr>has_unterminated_string := False\<rparr>"]
  by (auto simp: string_token_def illegal_def reads_to_flags fst_with_error reads_on_error split: prod.splits)

lemma reads_on_word_token:
  assumes "current_character lx \<noteq> NUL" "is_identifier_char (current_character lx)"
  shows "reads_on lx (fst (word_token lx))"
  using reads_on_identifier [OF assms] by (auto simp: word_token_def Let_def split: prod.splits option.splits)

lemma reads_on_number_token:
  assumes "current_character lx \<noteq> NUL" "isdigit (current_character lx)"
  shows "reads_on lx (fst (number_token lx))"
  using reads_on_number [OF assms] by (simp add: number_token_def case_prod_unfold Let_def fst_with_error)

lemma reads_to_operator_tokens:
  "reads_to lx (fst (plus_token lx))" "reads_to lx (fst (minus_token lx))" "reads_to lx (fst (bang_token lx))"
  "reads_to lx (fst (pipe_token lx))" "reads_to lx (fst (make_paired_token lx second t s t' s'))"
  "reads_to lx (fst (illegal c m lx))"
  using reads_to_read [OF reads_to_refl] reads_to_read [OF reads_to_read [OF reads_to_refl]]
  by (simp_all add: plus_token_def minus_token_def bang_token_def pipe_token_def make_paired_token_def illegal_def Let_def
      reads_to_error)

lemma reads_to_hash_unexpected:
  "reads_to lx (fst (hash_token lx))" "reads_to lx (fst (unexpected_token lx))"
  by (auto simp: hash_token_def unexpected_token_def illegal_def reads_to_pow reads_to_error
      split: option.splits prod.splits)

lemma reads_on_token_switch:
  assumes "current_character lx \<noteq> NUL"
  shows "case token_switch lx of (scan, reads_more) \<Rightarrow>
    reads_on lx (if reads_more then read_character (fst scan) else fst scan)"
  using reads_on_char_literal [of "lx\<lparr>error_code := None\<rparr>"]
  by (intro token_switch_cases [OF assms, where Q = "\<lambda>scan m. reads_on lx (if m then read_character (fst scan) else fst scan)"])
    (simp_all add: reads_on_read reads_to_operator_tokens reads_to_hash_unexpected fst_with_error reads_to_flags
      reads_on_string_token reads_on_word_token [OF assms] reads_on_raw_string
      reads_on_number_token [OF assms])

text \<open>A comment that is not closed has been read past its opening.\<close>

lemma read_while_error: "error_code (read_while P lx) = error_code lx"
proof (induction P lx rule: read_while.induct)
  case (1 P lx)
  show ?case
  proof (cases "current_character lx \<noteq> NUL \<and> P (current_character lx)")
    case True
    then have "read_while P lx = read_while P (read_character lx)" by (subst read_while.simps) (rule if_P)
    then show ?thesis using 1 [OF True] by simp
  next
    case False
    then show ?thesis by (simp only: read_while.simps [of P lx] if_False)
  qed
qed

lemma skip_error_reads_on:
  "error_code lx = None \<Longrightarrow> error_code (skip_whitespace_and_comments lx) \<noteq> None \<Longrightarrow>
     reads_on lx (skip_whitespace_and_comments lx)"
proof (induction lx rule: skip_whitespace_and_comments.induct)
  case (1 lx)
  let ?x = "skip_whitespace lx"
  have x: "error_code ?x = None" using 1(3) by (simp add: skip_whitespace_def read_while_error)
  have "reads_on lx (skip_line_comment (read_character (read_character ?x)))" 
    by (rule reads_on_trans(2) [OF reads_to_skips(1)], rule reads_on_first, rule reads_to_first) auto
  moreover have "reads_on lx (skip_block_comment (read_character ?x))"
    by (rule reads_on_trans(2) [OF reads_to_skips(1)], rule reads_on_first, rule reads_on_to) (rule reads_on_skip_block_comment)
  moreover have "reads_on lx (skip_whitespace_and_comments y)" if "reads_on lx y" for y
    using that reads_to_skip_all by (rule reads_on_trans(1))
  moreover have "skip_whitespace_and_comments lx = ?x \<or>
      skip_whitespace_and_comments lx = skip_whitespace_and_comments (skip_line_comment (read_character (read_character ?x))) \<or>
      skip_whitespace_and_comments lx = skip_whitespace_and_comments (skip_block_comment (read_character ?x))"
    unfolding skip_whitespace_and_comments.simps [of lx] Let_def by simp
  ultimately show ?case using 1(4) x by auto
qed

text \<open>Every call moves forward, and strictly unless it returns the end of the file.\<close>

lemma next_token_reads:
  assumes "lexer_next_token lx = (lx', t)"
  shows "reads_to lx lx'" "token_type t \<noteq> TOKEN_END_OF_FILE \<Longrightarrow> reads_on lx lx'"
proof -
  let ?s = "skip_whitespace_and_comments (lx\<lparr>error_code := None\<rparr>)"
  have s: "reads_to lx ?s" using reads_to_skip_all [of "lx\<lparr>error_code := None\<rparr>"] by (simp add: reads_to_flags)
  obtain y type content m where t: "token_switch ?s = ((y, type, content), m)" by (metis prod.exhaust)
  have "reads_to lx lx' \<and> (token_type t \<noteq> TOKEN_END_OF_FILE \<longrightarrow> reads_on lx lx')"
  proof (cases "error_code ?s = None")
    case False
    then have "reads_on lx ?s" using skip_error_reads_on [of "lx\<lparr>error_code := None\<rparr>"] by (simp add: reads_to_flags)
    then show ?thesis using assms False by (auto simp: lexer_next_token_def Let_def)
  next
    case True
    then have l: "lx' = (if m then read_character y else y)" "token_type t = type"
      using assms by (auto simp: lexer_next_token_def Let_def t)
    show ?thesis
    proof (cases "current_character ?s = NUL")
      case True
      then show ?thesis using s t l by (auto simp: token_switch_def illegal_def reads_on_read [OF reads_to_error] split: if_splits)
    next
      case False
      have "reads_on ?s lx'" using reads_on_token_switch [OF False] by (cases m) (simp_all add: t l)
      with s have "reads_on lx lx'" by (rule reads_on_trans(2))
      then show ?thesis by blast
    qed
  qed
  then show "reads_to lx lx'" "token_type t \<noteq> TOKEN_END_OF_FILE \<Longrightarrow> reads_on lx lx'" by blast+
qed

lemma reads_position:
  assumes "upto k lx" "upto j lx'"
  shows "reads_to lx lx' \<Longrightarrow> position lx \<le> position lx'" "reads_on lx lx' \<Longrightarrow> position lx < position lx'"
    "reads_to lx lx' \<Longrightarrow> input lx' = input lx"
proof -
  have e: "input lx' = input lx \<and> position lx' = position lx + n" if "reads n lx lx'" for n
  proof -
    note c = cursor_eqD [OF that [unfolded reads_def]]
    show ?thesis using c(1,3) assms by (simp add: upto_def)
  qed
  show "reads_to lx lx' \<Longrightarrow> position lx \<le> position lx'" "reads_on lx lx' \<Longrightarrow> position lx < position lx'"
    "reads_to lx lx' \<Longrightarrow> input lx' = input lx"
    using e by (force simp: reads_to_def reads_on_def)+
qed

lemma lex_tokens_total:
  "upto (Suc 0) lx \<Longrightarrow> Suc (length (input lx)) - position lx < fuel \<Longrightarrow> lex_tokens fuel lx \<noteq> None"
proof (induction fuel arbitrary: lx)
  case (Suc fuel)
  obtain lx' t where t: "lexer_next_token lx = (lx', t)" by fastforce
  have u: "upto (Suc 0) lx'" using upto_next_token [OF Suc.prems(1)] by (simp add: t)
  note p = reads_position [OF Suc.prems(1) u] next_token_reads [OF t]
  show ?case
  proof (cases "token_type t = TOKEN_END_OF_FILE")
    case False
    then have "position lx < position lx'" "input lx' = input lx" using p by auto
    moreover have "position lx' \<le> Suc (length (input lx'))" using u by (simp add: upto_def)
    ultimately have "lex_tokens fuel lx' \<noteq> None" using Suc.prems(2) u by (intro Suc.IH) auto
    then show ?thesis by (simp add: t)
  qed (simp add: t)
qed simp

subsection \<open>Locations\<close>

text \<open>The line and column of a position, from the bytes up to and including it.\<close>

definition line_at :: "string \<Rightarrow> nat \<Rightarrow> nat" where
  "line_at source p = min INT_MAX (1 + length (filter (\<lambda>c. c = CHR 0x0A) (take (Suc p) source)))"

definition column_at :: "string \<Rightarrow> nat \<Rightarrow> nat" where
  "column_at source p =
     min INT_MAX (length (takeWhile (\<lambda>c. c \<noteq> CHR 0x0A) (rev (take (Suc p) source)))
                  + (Suc p - length source))"

definition fresh_lexer :: "string \<Rightarrow> string \<Rightarrow> lexer" where
  "fresh_lexer source file_name =
     \<lparr>input = source, position = 0, read_position = 0, current_character = NUL, line = 1, column = 0,
      source_file = file_name, has_unterminated_string = False, error_code = None, error_message = None\<rparr>"

lemma source_byte_fresh: "source_byte ((read_character ^^ n) (fresh_lexer source f)) i = (if i < length source then source ! i else NUL)"
  by (induction n) (simp_all add: source_byte_def fresh_lexer_def)

lemma fresh_read_position: "read_position ((read_character ^^ n) (fresh_lexer source f)) = n"
  by (simp add: fresh_lexer_def)

lemma read_character_location:
  "line (read_character lx) = (if peek_character lx = CHR 0x0A then min INT_MAX (Suc (line lx)) else line lx)"
  if "line lx \<le> INT_MAX"
  using that by (simp add: read_character_def Let_def peek_character_def)

lemma read_character_column:
  "column (read_character lx) = (if peek_character lx = CHR 0x0A then 0 else min INT_MAX (Suc (column lx)))"
  if "column lx \<le> INT_MAX"
  using that by (simp add: read_character_def Let_def peek_character_def)

lemma take_Suc_source: "take (Suc n) source = take n source @ (if n < length source then [source ! n] else [])"
  by (simp add: take_Suc_conv_app_nth)

lemma min_Suc_min: "min a (Suc (min a k)) = min a (Suc k)"
  by (simp add: min_def)

lemma fresh_location:
  "line ((read_character ^^ Suc n) (fresh_lexer source f)) = line_at source n \<and>
   column ((read_character ^^ Suc n) (fresh_lexer source f)) = column_at source n"
proof (induction n)
  case 0
  show ?case
    by (cases source) (simp_all add: fresh_lexer_def read_character_def Let_def source_byte_def line_at_def column_at_def INT_MAX_def)
next
  case (Suc n)
  let ?lx = "(read_character ^^ Suc n) (fresh_lexer source f)"
  have p: "peek_character ?lx = (if Suc n < length source then source ! Suc n else NUL)"
    unfolding peek_character_def fresh_read_position source_byte_fresh ..
  have b: "line ?lx \<le> INT_MAX" "column ?lx \<le> INT_MAX" using Suc by (simp_all add: line_at_def column_at_def)
  have l: "line (read_character ?lx) = line_at source (Suc n)"
    unfolding read_character_location [OF b(1)] p using Suc
    by (auto simp: line_at_def take_Suc_source [of "Suc n"] min_Suc_min)
  have c: "column (read_character ?lx) = column_at source (Suc n)"
    unfolding read_character_column [OF b(2)] p using Suc
    by (auto simp: column_at_def take_Suc_source [of "Suc n"] Suc_diff_le)
  show ?case using l c by (simp only: funpow.simps o_apply)
qed

lemma create_fresh:
  "\<exists>source. lexer_create_sized content f = read_character (fresh_lexer source f)"
  by (auto simp: lexer_create_sized_def fresh_lexer_def Let_def)

lemma location_of_position:
  assumes "reads_to (lexer_create_sized content f) lx" "upto (Suc 0) lx"
  shows "line lx = line_at (input lx) (position lx)" "column lx = column_at (input lx) (position lx)" "source_file lx = f"
proof -
  obtain source where s: "lexer_create_sized content f = read_character (fresh_lexer source f)" using create_fresh by blast
  obtain n where "cursor lx = cursor ((read_character ^^ n) (read_character (fresh_lexer source f)))"
    using assms(1) by (auto simp: reads_to_def reads_def s)
  then have n: "cursor lx = cursor ((read_character ^^ Suc n) (fresh_lexer source f))" by (simp only: funpow_swap1 funpow.simps o_apply)
  note c = cursor_eqD [OF n]
  have "source_file ((read_character ^^ m) (fresh_lexer source f)) = f" for m by (induction m) (simp_all add: fresh_lexer_def)
  moreover have "position lx = n" using c(3) assms(2) unfolding fresh_read_position by (simp add: upto_def)
  moreover have "input lx = source" using c(1) unfolding input_pow by (simp add: fresh_lexer_def)
  ultimately show "line lx = line_at (input lx) (position lx)" "column lx = column_at (input lx) (position lx)"
    "source_file lx = f"
    using c(5-7) fresh_location [of n source f] by auto
qed

end
