(* ===== verification/Lexer_Values.thy ===== *)
theory Lexer_Values
  imports Lexer_Progress
begin

text \<open>
  What the readers return: the text a scanning loop consumes, words and keywords, the UTF-8 check
  of literals, raw strings, and which numbers are accepted. \<open>rest_of\<close> is the source from the
  current position on.
\<close>

definition rest_of :: "lexer \<Rightarrow> string" where
  "rest_of lx = drop (position lx) (input lx)"

subsection \<open>Scanning loops\<close>

lemma rest_of_live:
  assumes "upto k lx" "current_character lx \<noteq> NUL"
  shows "rest_of lx = current_character lx # rest_of (read_character lx)"
  using assms upto_live [OF assms]
  by (simp add: rest_of_def upto_def source_byte_def Cons_nth_drop_Suc)

lemma rest_of_dead: "upto k lx \<Longrightarrow> current_character lx = NUL \<Longrightarrow> rest_of lx = [] \<or> hd (rest_of lx) = NUL"
  by (auto simp: rest_of_def upto_def source_byte_def hd_drop_conv_nth split: if_splits)

lemma read_while_text:
  "upto k lx \<Longrightarrow> position (read_while P lx) = position lx + length (takeWhile (\<lambda>c. c \<noteq> NUL \<and> P c) (rest_of lx))"
proof (induction P lx rule: read_while.induct)
  case (1 P lx)
  show ?case
  proof (cases "current_character lx \<noteq> NUL \<and> P (current_character lx)")
    case True
    then have "read_while P lx = read_while P (read_character lx)" by (subst read_while.simps) (rule if_P)
    then show ?thesis using 1(1) [OF True] upto_read_live [OF 1(2)] rest_of_live [OF 1(2)] True 1(2)
      by (simp add: upto_def)
  next
    case False
    then have "read_while P lx = lx" by (simp only: read_while.simps [of P lx] if_False)
    moreover have "takeWhile (\<lambda>c. c \<noteq> NUL \<and> P c) (rest_of lx) = []"
      using False rest_of_live [OF 1(2)] rest_of_dead [OF 1(2)] by (cases "rest_of lx") auto
    ultimately show ?thesis by simp
  qed
qed

lemma input_read_while [simp]: "input (read_while P lx) = input lx"
proof -
  obtain n where "cursor (read_while P lx) = cursor ((read_character ^^ n) lx)"
    using reads_to_read_while [of lx P] by (auto simp: reads_to_def reads_def)
  from cursor_eqD(1) [OF this] show ?thesis by (simp only: input_pow)
qed

lemma source_slice_input: "b \<le> length (input lx) \<Longrightarrow> source_slice lx a b = take (b - a) (drop a (input lx))"
  by (auto simp: source_slice_def source_byte_def list_eq_iff_nth_eq)

lemma read_while_slice:
  assumes "upto k lx"
  shows "source_slice (read_while P lx) (position lx) (position (read_while P lx))
    = takeWhile (\<lambda>c. c \<noteq> NUL \<and> P c) (rest_of lx)"
proof -
  let ?t = "takeWhile (\<lambda>c. c \<noteq> NUL \<and> P c) (rest_of lx)"
  have "take (length ?t) (rest_of lx) = ?t" by (simp flip: takeWhile_eq_take)
  moreover have "source_slice (read_while P lx) (position lx) (position lx + length ?t) = take (length ?t) (rest_of lx)"
  proof (cases "?t = []")
    case False
    have "length ?t \<le> length (rest_of lx)" by (rule length_takeWhile_le)
    moreover have "rest_of lx \<noteq> []" using False by auto
    ultimately have "position lx + length ?t \<le> length (input lx)" by (simp add: rest_of_def)
    then show ?thesis by (simp add: source_slice_input rest_of_def)
  qed (simp add: source_slice_def)
  ultimately show ?thesis by (simp only: read_while_text [OF assms])
qed

subsection \<open>Words\<close>

lemma identifier_char_live: "(\<lambda>c. c \<noteq> NUL \<and> is_identifier_char c) = is_identifier_char"
  by (auto simp: fun_eq_iff is_identifier_char_def isalpha_def isdigit_def)

lemma word_token_value:
  fixes lx
  defines "w \<equiv> takeWhile is_identifier_char (rest_of lx)"
  assumes "upto k lx" "error_code lx = None"
  shows "snd (word_token lx) =
     (if MAX_IDENTIFIER_LENGTH < length w then (TOKEN_ILLEGAL, Message Identifier_too_long)
      else case map_of keyword_table w of
        Some t \<Rightarrow> (Keyword t, Text w) | None \<Rightarrow> (TOKEN_IDENTIFIER, Text w))"
    "position (fst (word_token lx)) = position lx + length w"
    "error_code (fst (word_token lx)) = (if MAX_IDENTIFIER_LENGTH < length w then Some ''E1024'' else None)"
proof -
  let ?r = "read_while is_identifier_char lx"
  have p: "position ?r = position lx + length w" and s: "source_slice ?r (position lx) (position lx + length w) = w"
    using read_while_text [OF assms(2), of is_identifier_char] read_while_slice [OF assms(2), of is_identifier_char]
    by (simp_all add: w_def identifier_char_live)
  show "snd (word_token lx) =
     (if MAX_IDENTIFIER_LENGTH < length w then (TOKEN_ILLEGAL, Message Identifier_too_long)
      else case map_of keyword_table w of
        Some t \<Rightarrow> (Keyword t, Text w) | None \<Rightarrow> (TOKEN_IDENTIFIER, Text w))"
    "position (fst (word_token lx)) = position lx + length w"
    "error_code (fst (word_token lx)) = (if MAX_IDENTIFIER_LENGTH < length w then Some ''E1024'' else None)"
    using p s assms(3)
    by (auto simp: word_token_def scan_identifier_span_def Let_def read_while_error token_lookup_is_map_of
        error_literal_def split: option.splits)
qed

subsection \<open>UTF-8\<close>

text \<open>The bytes of a text are the encodings of some Unicode scalar values.\<close>

definition valid_utf8 :: "u8 list \<Rightarrow> bool" where
  "valid_utf8 bs \<longleftrightarrow> (\<exists>cs. (\<forall>c \<in> set cs. is_scalar c) \<and> bs = concat (map utf8_encode cs))"

definition bytes_of :: "string \<Rightarrow> u8 list" where
  "bytes_of s = map of_char s"

lemma utf8_encode_bounds: "1 \<le> length (utf8_encode c)"
  by (simp add: utf8_encode_def)

lemma valid_utf8_Nil: "valid_utf8 []"
  by (auto simp: valid_utf8_def intro: exI [of _ "[]"])

lemma valid_utf8_append: "is_scalar c \<Longrightarrow> valid_utf8 bs \<Longrightarrow> valid_utf8 (utf8_encode c @ bs)"
proof -
  assume c: "is_scalar c" and "valid_utf8 bs"
  then obtain cs where "\<forall>c \<in> set cs. is_scalar c" "bs = concat (map utf8_encode cs)" by (auto simp: valid_utf8_def)
  then show ?thesis using c unfolding valid_utf8_def by (intro exI [of _ "c # cs"]) simp
qed

lemma valid_utf8_cases:
  assumes "valid_utf8 bs" "bs \<noteq> []"
  obtains c rest where "is_scalar c" "bs = utf8_encode c @ rest" "valid_utf8 rest"
proof -
  obtain cs where "\<forall>c \<in> set cs. is_scalar c" "bs = concat (map utf8_encode cs)" using assms(1) by (auto simp: valid_utf8_def)
  then show ?thesis using assms(2) that by (cases cs) (auto simp: valid_utf8_def)
qed

lemma valid_utf8_decode:
  assumes "valid_utf8 (map b [0..<n])" "0 < n"
  obtains c rest where "is_scalar c" "map b [0..<n] = utf8_encode c @ rest" "valid_utf8 rest"
    "gray_utf8_decode b n = (c, length (utf8_encode c))"
proof -
  have "map b [0..<n] \<noteq> []" using assms(2) by simp
  with assms(1) obtain c rest where v: "is_scalar c" "map b [0..<n] = utf8_encode c @ rest" "valid_utf8 rest"
    by (rule valid_utf8_cases)
  have len: "length (utf8_encode c) \<le> n" using arg_cong [OF v(2), of length] by simp
  have "b j = utf8_encode c ! j" if "j < length (utf8_encode c)" for j
    using arg_cong [OF v(2), of "\<lambda>xs. xs ! j"] that len by (simp add: nth_append)
  then have "gray_utf8_decode b n = (c, length (utf8_encode c))" using len by (intro decode_encode v(1))
  with v show ?thesis by (rule that)
qed

lemma utf8_check_loop_value:
  "utf8_check_loop lx i =
     (if valid_utf8 (bytes_of (source_slice lx i (position lx))) then lx
      else set_error ''E1018'' Malformed_utf8_in_string lx)"
proof (induction lx i rule: utf8_check_loop.induct)
  case (1 lx i)
  let ?b = "\<lambda>j. of_char (source_byte lx (i + j)) :: u8" and ?n = "position lx - i"
  show ?case
  proof (cases "i < position lx")
    case False
    then show ?thesis by (subst utf8_check_loop.simps) (simp add: source_slice_def bytes_of_def valid_utf8_Nil)
  next
    case True
    obtain c k where d: "gray_utf8_decode ?b ?n = (c, k)" by fastforce
    have k: "1 \<le> k" "k \<le> ?n" using decode_shape [OF d] True by auto
    have bs: "bytes_of (source_slice lx i (position lx)) = map ?b [0..<?n]"
      by (auto simp: bytes_of_def source_slice_def list_eq_iff_nth_eq)
    have tail: "map ?b [0..<?n] = map ?b [0..<k] @ bytes_of (source_slice lx (i + k) (position lx))"
      using k by (auto simp: bytes_of_def source_slice_def list_eq_iff_nth_eq nth_append add.assoc)
    show ?thesis
    proof (cases "c = 0xFFFD \<and> k = 1")
      case bad: True
      have "\<not> valid_utf8 (map ?b [0..<?n])"
      proof
        assume "valid_utf8 (map ?b [0..<?n])"
        moreover have "0 < ?n" using True by simp
        ultimately obtain c' where "gray_utf8_decode ?b ?n = (c', length (utf8_encode c'))" by (rule valid_utf8_decode)
        then have "c' = 0xFFFD" "length (utf8_encode c') = 1" using d bad by auto
        then show False by (simp add: utf8_encode_def)
      qed
      then show ?thesis using True d bad by (subst utf8_check_loop.simps) (simp add: bs)
    next
      case good: False
      have "uint (?b 0) < 128 \<or> 1 < k" using decode_invalid [OF d] good by blast
      from decode_sound [OF d this] have v: "is_scalar c" "map ?b [0..<k] = utf8_encode c" using True by auto
      have "valid_utf8 (map ?b [0..<?n]) \<longleftrightarrow> valid_utf8 (bytes_of (source_slice lx (i + k) (position lx)))"
      proof
        assume "valid_utf8 (map ?b [0..<?n])"
        moreover have "0 < ?n" using True by simp
        ultimately obtain c' rest where c': "map ?b [0..<?n] = utf8_encode c' @ rest" "valid_utf8 rest"
          "gray_utf8_decode ?b ?n = (c', length (utf8_encode c'))" by (rule valid_utf8_decode)
        then have "c' = c" using d by simp
        then show "valid_utf8 (bytes_of (source_slice lx (i + k) (position lx)))" using c' tail v(2) by simp
      qed (simp add: tail v valid_utf8_append)
      then show ?thesis using 1 [OF True d [symmetric] refl] True d good by (subst utf8_check_loop.simps) (auto simp: bs)
    qed
  qed
qed

lemma check_literal_utf8_value:
  "error_code lx = None \<Longrightarrow> check_literal_utf8 lx i =
     (if valid_utf8 (bytes_of (source_slice lx i (position lx))) then lx
      else set_error ''E1018'' Malformed_utf8_in_string lx)"
  by (simp add: check_literal_utf8_def utf8_check_loop_value)

subsection \<open>Raw strings\<close>

lemma raw_string_value:
  fixes lx
  defines "content \<equiv> takeWhile (\<lambda>c. c \<noteq> NUL \<and> c \<noteq> CHR 0x60) (rest_of (read_character lx))"
  defines "after_content \<equiv> drop (length content) (rest_of (read_character lx))"
  assumes "upto k lx" "current_character lx \<noteq> NUL" "error_code lx = None"
  shows "snd (with_error (read_raw_string lx) TOKEN_RAW_STRING) =
    (if after_content = [] \<or> hd after_content \<noteq> CHR 0x60 then (TOKEN_ILLEGAL, Message Unclosed_raw_string)
     else if valid_utf8 (bytes_of content) then (TOKEN_RAW_STRING, Text content)
     else (TOKEN_ILLEGAL, Message Malformed_utf8_in_string))"
proof -
  let ?a = "read_character lx"
  let ?r = "read_while (\<lambda>c. c \<noteq> CHR 0x60) ?a"
  have a: "upto 0 ?a" using assms(3,4) by (rule upto_read)
  have r: "upto 0 ?r" "error_code ?r = None" using a assms(5) by (simp_all add: upto_read_while read_while_error)
  have p: "position ?r = position ?a + length content" and c: "source_slice ?r (position ?a) (position ?r) = content"
    unfolding content_def by (rule read_while_text [OF a], rule read_while_slice [OF a])
  have rest: "rest_of ?r = after_content" by (simp add: rest_of_def after_content_def p add.commute)
  have closed: "current_character ?r = CHR 0x60 \<longleftrightarrow> after_content \<noteq> [] \<and> hd after_content = CHR 0x60"
    using rest_of_live [OF r(1)] rest_of_dead [OF r(1)] unfolding rest by (cases "current_character ?r = NUL") auto
  have u: "check_literal_utf8 ?r (position ?a) =
      (if valid_utf8 (bytes_of content) then ?r else set_error ''E1018'' Malformed_utf8_in_string ?r)"
    using check_literal_utf8_value [OF r(2), of "position ?a"] by (simp only: c)
  have s: "source_slice (set_error e m ?r) x y = source_slice ?r x y" for e m x y by (simp add: source_slice_def)
  have "read_raw_string lx =
     (let b = check_literal_utf8 ?r (position ?a)
      in (if current_character ?r = CHR 0x60 then read_character b else set_error ''E1017'' Unclosed_raw_string b, content))"
    unfolding read_raw_string_def Let_def u using c s by (cases "valid_utf8 (bytes_of content)") simp_all
  then show ?thesis unfolding Let_def u
    by (auto simp: with_error_def closed error_literal_def r(2))
qed

subsection \<open>Numbers\<close>

text \<open>A digit text the checks accept: no underscore at the end, next to another one or next to the
  point, and a digit after the point.\<close>

definition well_formed_number :: "string \<Rightarrow> bool" where
  "well_formed_number t \<longleftrightarrow> t = [] \<or>
     last t \<noteq> CHR ''_'' \<and> \<not> (\<exists>a b. t = a @ ''__'' @ b) \<and>
     (\<forall>a b. t = a @ CHR ''.'' # b \<and> CHR ''.'' \<notin> set a \<longrightarrow>
        (a = [] \<or> last a \<noteq> CHR ''_'') \<and> b \<noteq> [] \<and> isdigit (hd b))"

lemma has_consecutive_underscores_iff: "has_consecutive_underscores t \<longleftrightarrow> (\<exists>a b. t = a @ ''__'' @ b)"
proof (induction t rule: has_consecutive_underscores.induct)
  case (1 x y t)
  show ?case
  proof
    assume "has_consecutive_underscores (x # y # t)"
    then consider "x = CHR ''_''" "y = CHR ''_''" | a b where "y # t = a @ ''__'' @ b" using 1 by auto
    then show "\<exists>a b. x # y # t = a @ ''__'' @ b"
    proof cases
      case 1
      then have "x # y # t = [] @ ''__'' @ t" by simp
      then show ?thesis by blast
    next
      case (2 a b)
      then have "x # y # t = (x # a) @ ''__'' @ b" by simp
      then show ?thesis by blast
    qed
  next
    assume "\<exists>a b. x # y # t = a @ ''__'' @ b"
    then obtain a b where e: "x # y # t = a @ ''__'' @ b" by blast
    show "has_consecutive_underscores (x # y # t)"
    proof (cases a)
      case (Cons z a')
      then have "\<exists>a b. y # t = a @ ''__'' @ b" using e by auto
      then show ?thesis using 1 by simp
    qed (use e in simp)
  qed
qed (auto simp: append_eq_Cons_conv Cons_eq_append_conv)

lemma check_point_error:
  assumes "digits = a @ rest" "CHR ''.'' \<notin> set a"
  shows "error_code (check_point digits (length a) rest lx) = None \<longleftrightarrow> error_code lx = None \<and>
    (\<forall>b c. rest = b @ CHR ''.'' # c \<and> CHR ''.'' \<notin> set b \<longrightarrow>
       (a @ b = [] \<or> last (a @ b) \<noteq> CHR ''_'') \<and> c \<noteq> [] \<and> isdigit (hd c))"
  using assms
proof (induction rest arbitrary: a)
  case (Cons x rest)
  show ?case
  proof (cases "x = CHR ''.''")
    case True
    have 1: "x # rest = b @ CHR ''.'' # c \<and> CHR ''.'' \<notin> set b \<longleftrightarrow> b = [] \<and> c = rest" for b c
      using True by (cases b) auto
    have before: "0 < length a \<and> char_at digits (length a - 1) = CHR ''_'' \<longleftrightarrow> \<not> (a = [] \<or> last a \<noteq> CHR ''_'')"
      using Cons.prems(1) by (auto simp: char_at_def nth_append last_conv_nth)
    have after: "char_at digits (length a + 1) = (if rest = [] then NUL else hd rest)"
      using Cons.prems(1) by (auto simp: char_at_def nth_append hd_conv_nth)
    show ?thesis unfolding 1 using True before after
      by (auto simp: Let_def isdigit_def)
  next
    case False
    have 1: "(\<forall>b c. x # rest = b @ CHR ''.'' # c \<and> CHR ''.'' \<notin> set b \<longrightarrow> R b c) \<longleftrightarrow>
        (\<forall>b c. rest = b @ CHR ''.'' # c \<and> CHR ''.'' \<notin> set b \<longrightarrow> R (x # b) c)" for R
      using False by (auto simp: Cons_eq_append_conv)
    show ?thesis using Cons.IH [of "a @ [x]"] Cons.prems False unfolding 1 by simp
  qed
qed simp

lemma validate_number_error:
  assumes "error_code lx = None" "\<not> has_radix_prefix t"
  shows "error_code (validate_number t lx) = None \<longleftrightarrow> well_formed_number t"
  using assms check_point_error [of t "[]" t]
  by (auto simp: validate_number_def Let_def well_formed_number_def has_consecutive_underscores_iff)

text \<open>What the number readers leave of the lexer.\<close>

lemma number_readers_keep:
  "error_code (fst (read_fraction lx)) = error_code lx" "input (fst (read_fraction lx)) = input lx"
  "error_code (fst (read_exponent lx)) = error_code lx" "input (fst (read_exponent lx)) = input lx"
  by (simp_all add: read_fraction_def read_exponent_def Let_def read_while_error)

definition has_prefix :: "lexer \<Rightarrow> bool" where
  "has_prefix lx \<longleftrightarrow> current_character lx = CHR ''0'' \<and> peek_character lx \<in> set ''xXoObB''"

lemma read_number_accepts:
  assumes "upto k lx" "error_code lx = None" "\<not> has_prefix lx"
  shows "error_code (fst (read_number lx)) = None \<longleftrightarrow> well_formed_number (fst (snd (read_number lx)))"
proof -
  let ?e = "fst (read_exponent (fst (read_fraction (read_while is_decimal_digit lx))))"
  let ?t = "source_slice ?e (position lx) (position ?e)"
  have e: "error_code ?e = None" "input ?e = input lx"
    using assms(2) by (simp_all add: number_readers_keep read_while_error)
  then have b: "source_byte ?e = source_byte lx" by (simp add: source_byte_def fun_eq_iff)
  have "char_at ?t 0 \<in> {source_byte lx (position lx), NUL}" "char_at ?t 1 \<in> {source_byte lx (position lx + 1), NUL}"
    by (auto simp: char_at_def source_slice_def b)
  then have "\<not> has_radix_prefix ?t"
    using assms(1,3) by (auto simp: has_radix_prefix_def has_prefix_def upto_def peek_next [OF assms(1)])
  from validate_number_error [OF e(1) this] assms(3) show ?thesis
    by (auto simp: read_number_def Let_def case_prod_unfold has_prefix_def)
qed

lemma read_number_prefixed:
  assumes "upto k lx" "error_code lx = None" "current_character lx = CHR ''0''"
    "peek_character lx = CHR ''x'' \<or> peek_character lx = CHR ''X''"
  shows "error_code (fst (read_number lx)) =
    (if takeWhile (is_prefixed_digit 16) (drop 2 (rest_of lx)) = [] then Some ''E1010'' else None)"
proof -
  let ?a = "read_character (read_character lx)"
  have a: "upto k ?a" using assms by (intro upto_read_live [OF upto_read_live]) auto
  have live: "(\<lambda>c. c \<noteq> NUL \<and> is_prefixed_digit 16 c) = is_prefixed_digit 16"
    by (auto simp: fun_eq_iff is_prefixed_digit_def isxdigit_def isdigit_def)
  have "rest_of ?a = drop 2 (rest_of lx)" using assms(1) by (simp add: rest_of_def upto_def add.commute)
  then have "position (read_while (is_prefixed_digit 16) ?a) = position ?a + length (takeWhile (is_prefixed_digit 16) (drop 2 (rest_of lx)))"
    using read_while_text [OF a, of "is_prefixed_digit 16"] live by simp
  then show ?thesis using assms(2-4)
    by (auto simp: read_number_def read_prefixed_digits_def Let_def read_while_error)
qed

end
