(* ===== verification/Token_Stream.thy ===== *)
theory Token_Stream
  imports Lexer_Progress
begin

text \<open>
  The stream of tokens a caller of the lexer sees: the state after any number of calls from
  \<open>lexer_create\<close>, the invariant of those states, and that a token is placed where skipping stops.
\<close>

definition lexer_after :: "nat \<Rightarrow> string \<Rightarrow> string \<Rightarrow> lexer" where
  "lexer_after k content file_name = ((\<lambda>lx. fst (lexer_next_token lx)) ^^ k) (lexer_create_sized content file_name)"

lemma lexer_after_0: "lexer_after 0 content f = lexer_create_sized content f"
  by (simp add: lexer_after_def)

lemma lexer_after_Suc: "lexer_after (Suc k) content f = fst (lexer_next_token (lexer_after k content f))"
  by (simp add: lexer_after_def)

lemma upto_weaken: "upto 0 lx \<Longrightarrow> upto (Suc 0) lx"
  by (simp add: upto_def)

lemma after_upto: "upto (Suc 0) (lexer_after k content f)"
  by (induction k) (simp_all add: lexer_after_0 lexer_after_Suc upto_next_token upto_weaken upto_create)

lemma after_reads: "reads_to (lexer_create_sized content f) (lexer_after k content f)"
proof (induction k)
  case (Suc k)
  then show ?case unfolding lexer_after_Suc
    by (rule reads_to_trans) (rule next_token_reads(1) [OF prod.collapse [symmetric]])
qed (simp add: lexer_after_0)

text \<open>A token's place is the position the skipping of white space and comments stops at.\<close>

lemma next_token_place:
  assumes "lexer_next_token lx = (lx', t)"
  defines "s \<equiv> skip_whitespace_and_comments (lx\<lparr>error_code := None\<rparr>)"
  shows "reads_to lx s \<and> reads_to s lx' \<and> token_line t = line s \<and> token_column t = column s \<and> token_file t = source_file s"
proof -
  have s: "reads_to lx s" using reads_to_skip_all [of "lx\<lparr>error_code := None\<rparr>"] by (simp add: reads_to_flags s_def)
  obtain y type content m where t: "token_switch s = ((y, type, content), m)" by (metis prod.exhaust)
  have "reads_to s (if m then read_character y else y)"
  proof (cases "current_character s = NUL")
    case True
    then show ?thesis using t
      by (auto simp: token_switch_def illegal_def reads_on_read [OF reads_to_error] reads_on_to split: if_splits)
  next
    case False
    then show ?thesis using reads_on_token_switch [OF False] by (cases m) (simp_all add: t reads_on_to)
  qed
  then show ?thesis using assms(1) s t unfolding s_def
    by (auto simp: lexer_next_token_def Let_def split: if_splits)
qed

lemma upto_start:
  "upto (Suc 0) (skip_whitespace_and_comments (lexer_after k content f\<lparr>error_code := None\<rparr>))"
  using after_upto [of k content f] by (intro upto_skip_all) simp

subsection \<open>The whole stream\<close>

lemma lex_tokens_shape:
  "lex_tokens fuel lx = Some ts \<Longrightarrow>
     \<exists>us t. ts = us @ [t] \<and> token_type t = TOKEN_END_OF_FILE \<and> (\<forall>u \<in> set us. token_type u \<noteq> TOKEN_END_OF_FILE)"
proof (induction fuel arbitrary: lx ts)
  case (Suc fuel)
  obtain lx' t where t: "lexer_next_token lx = (lx', t)" by fastforce
  show ?case
  proof (cases "token_type t = TOKEN_END_OF_FILE")
    case True
    then show ?thesis using Suc.prems by (intro exI [of _ "[]"]) (auto simp: t)
  next
    case False
    then obtain vs where "lex_tokens fuel lx' = Some vs" "ts = t # vs" using Suc.prems by (auto simp: t)
    with Suc.IH [of lx' vs] False show ?thesis by (metis append_Cons set_ConsD)
  qed
qed simp

lemma length_create: "length (input (lexer_create_sized content f)) \<le> length content"
  by (auto simp: lexer_create_sized_def Let_def)

lemma lex_source:
  "\<exists>us t. lex_tokens (length content + 2) (lexer_create_sized content f) = Some (us @ [t])
     \<and> token_type t = TOKEN_END_OF_FILE \<and> (\<forall>u \<in> set us. token_type u \<noteq> TOKEN_END_OF_FILE)"
proof -
  let ?lx = "lexer_create_sized content f"
  have "lex_tokens (length content + 2) ?lx \<noteq> None"
    using length_create [of content f] by (intro lex_tokens_total upto_weaken upto_create) simp
  then show ?thesis using lex_tokens_shape [of "length content + 2" ?lx] by fastforce
qed

subsection \<open>The state a source starts in\<close>

lemma created:
  "length content < 2147483648 \<Longrightarrow> take 3 content \<noteq> byte_order_mark \<Longrightarrow>
     input (lexer_create_sized content f) = content"
  "position (lexer_create_sized content f) = 0" "read_position (lexer_create_sized content f) = 1" "error_code (lexer_create_sized content f) = None"
  "length content < 2147483648 \<Longrightarrow> take 3 content \<noteq> byte_order_mark \<Longrightarrow>
     current_character (lexer_create_sized content f) = (case content of [] \<Rightarrow> NUL | c # _ \<Rightarrow> c)"
  "length content < 2147483648 \<Longrightarrow> take 3 content \<noteq> byte_order_mark \<Longrightarrow>
     peek_character (lexer_create_sized content f) = (case content of c # d # _ \<Rightarrow> d | _ \<Rightarrow> NUL)"
  by (simp_all add: lexer_create_sized_def Let_def INT32_MAX_def peek_character_def source_byte_def split: list.splits)

end
