(* ===== verification/Token_Places.thy ===== *)
theory Token_Places
  imports Lexer_Values Token_Stream
begin

text \<open>
  Where a token starts. The white space and the comments in front of a token are described on the text
  that is left of the source, without the lexer: \<open>after_gap\<close> is the text that begins with the token. The
  states of the lexer agree with it, so a token's line and column are those of its first byte.
\<close>

subsection \<open>Gaps in a text\<close>

text \<open>What follows a block comment after its opening; a NUL byte ends the source for it.\<close>

fun after_comment :: "string \<Rightarrow> string" where
  "after_comment [] = []"
| "after_comment (c # cs) =
     (if c = NUL then c # cs
      else if take 2 (c # cs) = ''*/'' then tl cs
      else after_comment cs)"

lemma after_comment_length: "length (after_comment cs) \<le> length cs"
  by (induction cs rule: after_comment.induct) (auto simp: le_SucI)

function after_gap :: "string \<Rightarrow> string" where
  "after_gap [] = []"
| "after_gap (c # cs) =
     (if c \<in> {CHR '' '', CHR 0x09, CHR 0x0A, CHR 0x0D} then after_gap cs
      else if take 2 (c # cs) = ''//'' then after_gap (dropWhile (\<lambda>c. c \<noteq> NUL \<and> c \<noteq> CHR 0x0A) (tl cs))
      else if take 2 (c # cs) = ''/*'' then after_gap (after_comment (tl cs))
      else c # cs)"
  by pat_completeness auto
termination
proof (relation "measure length")
  fix c :: char and cs
  show "(dropWhile (\<lambda>c. c \<noteq> NUL \<and> c \<noteq> CHR 0x0A) (tl cs), c # cs) \<in> measure length"
    using length_dropWhile_le [of "\<lambda>c. c \<noteq> NUL \<and> c \<noteq> CHR 0x0A" "tl cs"] by simp
  show "(after_comment (tl cs), c # cs) \<in> measure length"
    using after_comment_length [of "tl cs"] by simp
qed auto

declare after_gap.simps(2) [simp del]

lemma after_gap_blanks: "after_gap (dropWhile (\<lambda>c. c \<noteq> NUL \<and> is_space c) s) = after_gap s"
  by (induction s) (auto simp: after_gap.simps(2) is_space_def)

subsection \<open>The lexer skips the gap\<close>

lemma rest_of_read_while:
  "upto k lx \<Longrightarrow> rest_of (read_while P lx) = dropWhile (\<lambda>c. c \<noteq> NUL \<and> P c) (rest_of lx)"
  using read_while_text [of k lx P] by (simp add: rest_of_def dropWhile_eq_drop add.commute)

text \<open>The current character is the first of the text that is left.\<close>

lemma first_of_rest:
  assumes "upto k lx" "d \<noteq> NUL"
  shows "current_character lx = d \<longleftrightarrow> take 1 (rest_of lx) = [d]"
  using rest_of_live [OF assms(1)] rest_of_dead [OF assms(1)] assms(2)
  by (cases "current_character lx = NUL"; cases "rest_of lx") auto

lemma two_of_rest:
  assumes "upto k lx" "c \<noteq> NUL" "d \<noteq> NUL"
  shows "current_character lx = c \<and> peek_character lx = d \<longleftrightarrow> take 2 (rest_of lx) = [c, d]"
proof (cases "current_character lx = NUL")
  case True
  then show ?thesis using rest_of_dead [OF assms(1)] assms(2) by (cases "rest_of lx") auto
next
  case False
  then have "upto k (read_character lx)" "rest_of lx = current_character lx # rest_of (read_character lx)"
    using upto_read_live [OF assms(1)] rest_of_live [OF assms(1)] by auto
  then show ?thesis using first_of_rest [of k "read_character lx" d] assms(3) by auto
qed

lemma rest_of_block_comment:
  "upto k lx \<Longrightarrow> rest_of (block_comment_loop lx) = after_comment (rest_of lx)"
proof (induction lx rule: block_comment_loop.induct)
  case (1 lx)
  note two = two_of_rest [OF 1(2), of "CHR ''*''" "CHR ''/''", simplified]
  show ?case
  proof (cases "current_character lx = NUL")
    case True
    then show ?thesis using rest_of_dead [OF 1(2)]
      by (subst block_comment_loop.simps) (cases "rest_of lx"; auto simp: set_error_def rest_of_def)
  next
    case False
    note live = rest_of_live [OF 1(2) False] upto_read_live [OF 1(2) False]
    show ?thesis
    proof (cases "current_character lx = CHR ''*'' \<and> peek_character lx = CHR ''/''")
      case True
      then have "rest_of (read_character lx) = CHR ''/'' # rest_of (read_character (read_character lx))"
        using rest_of_live [OF live(2)] by simp
      then show ?thesis using True live(1) by (subst block_comment_loop.simps) simp
    next
      case no: False
      then have "after_comment (rest_of lx) = after_comment (rest_of (read_character lx))"
        using two no False by (subst live(1), subst (asm) (2) live(1)) auto
      moreover have "rest_of (block_comment_loop (read_character lx)) = after_comment (rest_of (read_character lx))"
        using 1(1) [OF False no live(2)] .
      moreover have "block_comment_loop lx = block_comment_loop (read_character lx)"
        using False no by (subst block_comment_loop.simps) auto
      ultimately show ?thesis by simp
    qed
  qed
qed

lemma rest_of_skip_all:
  "upto k lx \<Longrightarrow> rest_of (skip_whitespace_and_comments lx) = after_gap (rest_of lx)"
proof (induction lx rule: skip_whitespace_and_comments.induct)
  case (1 lx)
  let ?x = "skip_whitespace lx"
  have x: "upto k ?x" "after_gap (rest_of ?x) = after_gap (rest_of lx)"
    using 1(3) by (simp_all add: skip_whitespace_def upto_read_while rest_of_read_while after_gap_blanks)
  consider (line) "current_character ?x = CHR ''/'' \<and> peek_character ?x = CHR ''/''"
    | (block) "current_character ?x = CHR ''/'' \<and> peek_character ?x = CHR ''*''"
    | (token) "\<not> (current_character ?x = CHR ''/'' \<and> peek_character ?x \<in> {CHR ''/'', CHR ''*''})" by blast
  then show ?case
  proof cases
    case line
    let ?y = "read_character (read_character ?x)"
    have live: "current_character ?x \<noteq> NUL" "current_character (read_character ?x) \<noteq> NUL" using line by auto
    have y: "upto k ?y" "rest_of ?x = CHR ''/'' # CHR ''/'' # rest_of ?y"
      using line upto_read_live [OF upto_read_live [OF x(1) live(1)] live(2)] rest_of_live [OF x(1) live(1)]
        rest_of_live [OF upto_read_live [OF x(1) live(1)] live(2)] by auto
    then have "upto k (skip_line_comment ?y)"
      "rest_of (skip_line_comment ?y) = dropWhile (\<lambda>c. c \<noteq> NUL \<and> c \<noteq> CHR 0x0A) (rest_of ?y)"
      by (simp_all add: skip_line_comment_def upto_read_while rest_of_read_while)
    moreover have "skip_whitespace_and_comments lx = skip_whitespace_and_comments (skip_line_comment ?y)"
      using line by (subst skip_whitespace_and_comments.simps) (simp add: Let_def)
    moreover have "after_gap (rest_of ?x) = after_gap (dropWhile (\<lambda>c. c \<noteq> NUL \<and> c \<noteq> CHR 0x0A) (rest_of ?y))"
      by (simp add: y(2) after_gap.simps(2))
    ultimately show ?thesis using 1(1) [OF refl line] x(2) by simp
  next
    case block
    let ?y = "read_character (read_character ?x)"
    have live: "current_character ?x \<noteq> NUL" "current_character (read_character ?x) \<noteq> NUL" using block by auto
    have y: "upto k ?y" "rest_of ?x = CHR ''/'' # CHR ''*'' # rest_of ?y"
      using block upto_read_live [OF upto_read_live [OF x(1) live(1)] live(2)] rest_of_live [OF x(1) live(1)]
        rest_of_live [OF upto_read_live [OF x(1) live(1)] live(2)] by auto
    then have "upto k (skip_block_comment (read_character ?x))"
      "rest_of (skip_block_comment (read_character ?x)) = after_comment (rest_of ?y)"
      by (simp_all add: skip_block_comment_def upto_block_comment_loop rest_of_block_comment)
    moreover have "skip_whitespace_and_comments lx = skip_whitespace_and_comments (skip_block_comment (read_character ?x))"
      using block by (subst skip_whitespace_and_comments.simps) (simp add: Let_def)
    moreover have "after_gap (rest_of ?x) = after_gap (after_comment (rest_of ?y))"
      by (simp add: y(2) after_gap.simps(2))
    ultimately show ?thesis using 1(2) [OF refl _ block] block x(2) by simp
  next
    case token
    then have "skip_whitespace_and_comments lx = ?x" by (subst skip_whitespace_and_comments.simps) (auto simp: Let_def)
    moreover have "after_gap (rest_of ?x) = rest_of ?x"
    proof (cases "rest_of ?x")
      case (Cons c cs)
      have "\<not> is_space c"
        using read_while_stops [of is_space lx] rest_of_live [OF x(1)] rest_of_dead [OF x(1)] Cons
        by (cases "current_character ?x = NUL") (auto simp: skip_whitespace_def is_space_def)
      then show ?thesis using token two_of_rest [OF x(1), of "CHR ''/''" "CHR ''/''"] two_of_rest [OF x(1), of "CHR ''/''" "CHR ''*''"]
        by (auto simp: Cons after_gap.simps(2) is_space_def)
    qed simp
    ultimately show ?thesis using x(2) by simp
  qed
qed

subsection \<open>The place of a token\<close>

text \<open>The position of the first byte after the gap at a position.\<close>

definition token_start :: "string \<Rightarrow> nat \<Rightarrow> nat" where
  "token_start source p = p + (length (drop p source) - length (after_gap (drop p source)))"

lemma skip_all_position:
  assumes "upto (Suc 0) lx"
  shows "position (skip_whitespace_and_comments lx) = token_start (input lx) (position lx)"
proof -
  let ?s = "skip_whitespace_and_comments lx"
  have moved: "position lx \<le> position ?s" "input ?s = input lx"
    using reads_position(1,3) [OF assms upto_skip_all [OF assms] reads_to_skip_all] by simp_all
  have rest: "rest_of ?s = after_gap (rest_of lx)" using assms by (rule rest_of_skip_all)
  show ?thesis
  proof (cases "position lx \<le> length (input lx)")
    case True
    then have "upto 0 ?s" using assms by (intro upto_skip_all) (simp add: upto_def)
    then have "position ?s \<le> length (input lx)" by (simp add: upto_def moved(2))
    moreover have "length (after_gap (drop (position lx) (input lx))) = length (input lx) - position ?s"
      using arg_cong [OF rest, of length] by (simp add: rest_of_def moved(2))
    ultimately show ?thesis using True moved(1) by (simp add: token_start_def)
  next
    case False
    then have "position ?s = position lx" using moved upto_skip_all [OF assms] by (simp add: upto_def)
    then show ?thesis using False by (simp add: token_start_def)
  qed
qed

lemma next_token_gap:
  assumes "lexer_next_token lx = (lx', t)"
  shows "is_preceded_by_whitespace t \<longleftrightarrow> position (skip_whitespace_and_comments (lx\<lparr>error_code := None\<rparr>)) \<noteq> position lx"
proof -
  have "t = snd (lexer_next_token lx)" by (simp add: assms)
  then show ?thesis by (simp add: lexer_next_token_def Let_def case_prod_unfold)
qed

lemma token_place:
  assumes "lexer_next_token (lexer_after k content f) = (lx', t)"
  defines "p \<equiv> token_start (input lx') (position (lexer_after k content f))"
  shows "token_line t = line_at (input lx') p" "token_column t = column_at (input lx') p" "token_file t = f" "p \<le> position lx'"
    "is_preceded_by_whitespace t \<longleftrightarrow> p \<noteq> position (lexer_after k content f)"
proof -
  let ?lx = "lexer_after k content f"
  let ?s = "skip_whitespace_and_comments (?lx\<lparr>error_code := None\<rparr>)"
  note place = next_token_place [OF assms(1)]
  have u: "upto (Suc 0) lx'" using after_upto [of "Suc k" content f] by (simp add: lexer_after_Suc assms(1))
  have "reads_to (lexer_create_sized content f) ?s" using after_reads place by (blast intro: reads_to_trans)
  note at = location_of_position [OF this upto_start]
  have moved: "position ?s \<le> position lx'" "input lx' = input ?s" "input ?s = input ?lx"
    using reads_position(1,3) [OF upto_start u] reads_position(3) [OF after_upto upto_start] place by simp_all
  have "position ?s = p" using skip_all_position [of "?lx\<lparr>error_code := None\<rparr>"] after_upto [of k content f]
    by (simp add: p_def moved upto_def source_byte_def)
  then show "token_line t = line_at (input lx') p" "token_column t = column_at (input lx') p" "token_file t = f" "p \<le> position lx'"
    "is_preceded_by_whitespace t \<longleftrightarrow> p \<noteq> position ?lx"
    using at place moved next_token_gap [OF assms(1)] by simp_all
qed

end
