(* ===== verification/Checked_Int.thy ===== *)
theory Checked_Int
  imports Wide_Ops
begin

text \<open>
  Overflow-checked 64-bit and narrow integer arithmetic, and the checked casts
  (\<open>grayc/src/runtime/runtime.h\<close>, from \<open>gray_add_overflows_i64\<close> on). An \<open>i64\<close> is a word read
  through \<open>sint\<close>; signed overflow of a C \<open>int64_t\<close> wraps, as the two's complement does. Each
  \<open>overflows\<close> test comes in two versions: the compiler builtin, which reports whether the exact
  result fits, and the portable code used under TinyCC.
\<close>

subsection \<open>Overflow tests\<close>

definition fits_i64 :: "int \<Rightarrow> bool" where
  "fits_i64 k \<longleftrightarrow> - (2 ^ 63) \<le> k \<and> k < 2 ^ 63"

definition fits_u64 :: "int \<Rightarrow> bool" where
  "fits_u64 k \<longleftrightarrow> 0 \<le> k \<and> k < 2 ^ 64"

text \<open>The builtins, by their documented meaning.\<close>

definition builtin_add_overflow_i64 :: "i64 \<Rightarrow> i64 \<Rightarrow> i64 \<times> bool" where
  "builtin_add_overflow_i64 left right = (left + right, \<not> fits_i64 (sint left + sint right))"

definition builtin_sub_overflow_i64 :: "i64 \<Rightarrow> i64 \<Rightarrow> i64 \<times> bool" where
  "builtin_sub_overflow_i64 left right = (left - right, \<not> fits_i64 (sint left - sint right))"

definition builtin_mul_overflow_i64 :: "i64 \<Rightarrow> i64 \<Rightarrow> i64 \<times> bool" where
  "builtin_mul_overflow_i64 left right = (left * right, \<not> fits_i64 (sint left * sint right))"

definition builtin_add_overflow_u64 :: "u64 \<Rightarrow> u64 \<Rightarrow> u64 \<times> bool" where
  "builtin_add_overflow_u64 left right = (left + right, \<not> fits_u64 (uint left + uint right))"

definition builtin_mul_overflow_u64 :: "u64 \<Rightarrow> u64 \<Rightarrow> u64 \<times> bool" where
  "builtin_mul_overflow_u64 left right = (left * right, \<not> fits_u64 (uint left * uint right))"

text \<open>The portable versions.\<close>

definition gray_add_overflows_i64 :: "i64 \<Rightarrow> i64 \<Rightarrow> i64 \<times> bool" where
  "gray_add_overflows_i64 left right =
     (let result = left + right in (result, sint ((left XOR result) AND (right XOR result)) < 0))"

definition gray_sub_overflows_i64 :: "i64 \<Rightarrow> i64 \<Rightarrow> i64 \<times> bool" where
  "gray_sub_overflows_i64 left right =
     (let result = left - right in (result, sint ((left XOR right) AND (left XOR result)) < 0))"

definition I64_MIN :: int where "I64_MIN = - (2 ^ 63)"
definition I64_MAX :: int where "I64_MAX = 2 ^ 63 - 1"

definition gray_mul_overflows_i64 :: "i64 \<Rightarrow> i64 \<Rightarrow> i64 \<times> bool" where
  "gray_mul_overflows_i64 left right =
     (let result = left * right; l = sint left; r = sint right
      in (result,
          if l = 0 \<or> r = 0 then False
          else if l = - 1 then r = I64_MIN
          else if r = - 1 then l = I64_MIN
          else if 0 < l then (if 0 < r then I64_MAX sdiv r < l else r < I64_MIN sdiv l)
          else if 0 < r then l < I64_MIN sdiv r else l < I64_MAX sdiv r))"

definition gray_add_overflows_u64 :: "u64 \<Rightarrow> u64 \<Rightarrow> u64 \<times> bool" where
  "gray_add_overflows_u64 left right = (let result = left + right in (result, result < left))"

definition gray_mul_overflows_u64 :: "u64 \<Rightarrow> u64 \<Rightarrow> u64 \<times> bool" where
  "gray_mul_overflows_u64 left right =
     (let result = left * right in (result, left \<noteq> 0 \<and> result div left \<noteq> right))"

subsection \<open>Checked 64-bit arithmetic\<close>

definition unless_overflow :: "string \<Rightarrow> 'a \<times> bool \<Rightarrow> 'a panicking" where
  "unless_overflow code r = (let (result, overflows) = r in if overflows then Inl code else Inr result)"

definition gray_add_check :: "i64 \<Rightarrow> i64 \<Rightarrow> i64 panicking" where
  "gray_add_check left right = unless_overflow ''P0004'' (builtin_add_overflow_i64 left right)"

definition gray_range_advance :: "i64 \<Rightarrow> i64 \<Rightarrow> i64 \<Rightarrow> i64" where
  "gray_range_advance value step stop =
     (let (result, overflows) = builtin_add_overflow_i64 value step in if overflows then stop else result)"

definition gray_sub_check :: "i64 \<Rightarrow> i64 \<Rightarrow> i64 panicking" where
  "gray_sub_check left right = unless_overflow ''P0005'' (builtin_sub_overflow_i64 left right)"

definition gray_mul_check :: "i64 \<Rightarrow> i64 \<Rightarrow> i64 panicking" where
  "gray_mul_check left right = unless_overflow ''P0006'' (builtin_mul_overflow_i64 left right)"

definition gray_neg_check :: "i64 \<Rightarrow> i64 panicking" where
  "gray_neg_check value = unless_overflow ''P0007'' (builtin_sub_overflow_i64 0 value)"

definition gray_uadd_check :: "u64 \<Rightarrow> u64 \<Rightarrow> u64 panicking" where
  "gray_uadd_check left right = unless_overflow ''P0008'' (builtin_add_overflow_u64 left right)"

definition gray_usub_check :: "u64 \<Rightarrow> u64 \<Rightarrow> u64 panicking" where
  "gray_usub_check left right = (if left < right then Inl ''P0009'' else Inr (left - right))"

definition gray_umul_check :: "u64 \<Rightarrow> u64 \<Rightarrow> u64 panicking" where
  "gray_umul_check left right = unless_overflow ''P0010'' (builtin_mul_overflow_u64 left right)"

subsection \<open>Checked narrow arithmetic\<close>

text \<open>Operands and bounds are \<open>int64_t\<close> (bounds of the unsigned types \<open>uint64_t\<close>).\<close>

definition sized_check :: "string \<Rightarrow> i64 \<Rightarrow> i64 \<Rightarrow> i64 \<Rightarrow> i64 panicking" where
  "sized_check code result minimum_value maximum_value =
     (if sint result < sint minimum_value \<or> sint maximum_value < sint result then Inl code else Inr result)"

definition gray_sized_add_check :: "i64 \<Rightarrow> i64 \<Rightarrow> i64 \<Rightarrow> i64 \<Rightarrow> i64 panicking" where
  "gray_sized_add_check left right minimum_value maximum_value = sized_check ''P0011'' (left + right) minimum_value maximum_value"

definition gray_sized_sub_check :: "i64 \<Rightarrow> i64 \<Rightarrow> i64 \<Rightarrow> i64 \<Rightarrow> i64 panicking" where
  "gray_sized_sub_check left right minimum_value maximum_value = sized_check ''P0012'' (left - right) minimum_value maximum_value"

definition gray_sized_mul_check :: "i64 \<Rightarrow> i64 \<Rightarrow> i64 \<Rightarrow> i64 \<Rightarrow> i64 panicking" where
  "gray_sized_mul_check left right minimum_value maximum_value = sized_check ''P0013'' (left * right) minimum_value maximum_value"

definition gray_sized_neg_check :: "i64 \<Rightarrow> i64 \<Rightarrow> i64 \<Rightarrow> i64 panicking" where
  "gray_sized_neg_check value minimum_value maximum_value = sized_check ''P0014'' (- value) minimum_value maximum_value"

definition usized_check :: "string \<Rightarrow> i64 \<Rightarrow> u64 \<Rightarrow> u64 panicking" where
  "usized_check code result maximum_value =
     (if sint result < 0 then Inl ''P0016'' else if maximum_value < result then Inl code else Inr result)"

definition gray_usized_add_check :: "i64 \<Rightarrow> i64 \<Rightarrow> u64 \<Rightarrow> u64 panicking" where
  "gray_usized_add_check left right maximum_value = usized_check ''P0015'' (left + right) maximum_value"

definition gray_usized_sub_check :: "i64 \<Rightarrow> i64 \<Rightarrow> u64 \<Rightarrow> u64 panicking" where
  "gray_usized_sub_check left right maximum_value = usized_check ''P0015'' (left - right) maximum_value"

definition gray_usized_mul_check :: "i64 \<Rightarrow> i64 \<Rightarrow> u64 \<Rightarrow> u64 panicking" where
  "gray_usized_mul_check left right maximum_value = usized_check ''P0017'' (left * right) maximum_value"

subsection \<open>Checked casts\<close>

definition gray_cast_check :: "i64 \<Rightarrow> i64 \<Rightarrow> i64 \<Rightarrow> i64 panicking" where
  "gray_cast_check value minimum_value maximum_value = sized_check ''P0018'' value minimum_value maximum_value"

definition gray_char_surrogate_check :: "u64 \<Rightarrow> u64 \<Rightarrow> unit panicking" where
  "gray_char_surrogate_check value maximum_value =
     (if maximum_value = 0x10FFFF \<and> 0xD800 \<le> value \<and> value \<le> 0xDFFF then Inl ''P0019'' else Inr ())"

definition gray_ucast_check :: "i64 \<Rightarrow> u64 \<Rightarrow> u64 panicking" where
  "gray_ucast_check value maximum_value =
     (if sint value < 0 \<or> maximum_value < value then Inl ''P0019''
      else bind_panic (gray_char_surrogate_check value maximum_value) (\<lambda>_. Inr value))"

definition gray_enum_cast_check :: "i64 \<Rightarrow> i64 list \<Rightarrow> bool \<Rightarrow> i64 panicking" where
  "gray_enum_cast_check value variants is_flags =
     (if is_flags
      then let mask_value = foldl (OR) 0 variants
           in if 0 \<le> sint value \<and> value AND NOT mask_value = 0 then Inr value else Inl ''P0107''
      else if list_ex (\<lambda>variant. variant = value) variants then Inr value else Inl ''P0107'')"

definition gray_enum_cast_check_string :: "string \<Rightarrow> string list \<Rightarrow> string panicking" where
  "gray_enum_cast_check_string value variants =
     (if list_ex (\<lambda>variant. variant = value) variants then Inr value else Inl ''P0147'')"

definition gray_u64_to_i64_check :: "u64 \<Rightarrow> i64 panicking" where
  "gray_u64_to_i64_check value = (if 9223372036854775807 < value then Inl ''P0018'' else Inr value)"

definition gray_cast_check_u64 :: "u64 \<Rightarrow> i64 \<Rightarrow> i64 \<Rightarrow> i64 panicking" where
  "gray_cast_check_u64 value minimum_value maximum_value = (if maximum_value < value then Inl ''P0018'' else Inr value)"

definition gray_ucast_check_u64 :: "u64 \<Rightarrow> u64 \<Rightarrow> u64 panicking" where
  "gray_ucast_check_u64 value maximum_value =
     (if maximum_value < value then Inl ''P0019''
      else bind_panic (gray_char_surrogate_check value maximum_value) (\<lambda>_. Inr value))"

subsection \<open>The portable tests agree with the builtins\<close>

lemma sint_wrap:
  "sint (x + y :: i64) = signed_take_bit 63 (sint x + sint y)" "sint (x - y :: i64) = signed_take_bit 63 (sint x - sint y)"
  "sint (x * y :: i64) = signed_take_bit 63 (sint x * sint y)" "sint (- x :: i64) = signed_take_bit 63 (- sint x)"
  by (simp_all add: sint_word_ariths)

lemma wrap64_cases:
  assumes "- (2 ^ 64) \<le> k" "k < (2 ^ 64 :: int)"
  shows "signed_take_bit 63 k = (if k < - (2 ^ 63) then k + 2 ^ 64 else if k < 2 ^ 63 then k else k - 2 ^ 64)"
proof -
  have "k + 2 ^ 64 = signed_take_bit 63 k" if "k < - (2 ^ 63)"
    using that assms by (intro signed_take_bit_unique [where z = 1]) simp_all
  moreover have "k - 2 ^ 64 = signed_take_bit 63 k" if "2 ^ 63 \<le> k"
    using that assms by (intro signed_take_bit_unique [where z = "- 1"]) simp_all
  ultimately show ?thesis by (auto simp: signed_take_bit_int_eq_self)
qed

lemma sint_bitwise_neg:
  "sint (x AND y :: i64) < 0 \<longleftrightarrow> sint x < 0 \<and> sint y < 0" "sint (x XOR y :: i64) < 0 \<longleftrightarrow> ((sint x < 0) \<noteq> (sint y < 0))"
  using bit_last_iff [of "x AND y", simplified] bit_last_iff [of "x XOR y", simplified]
    bit_last_iff [of x, simplified] bit_last_iff [of y, simplified]
  by (simp_all add: bit_and_iff bit_xor_iff)

lemma add_overflows_i64: "gray_add_overflows_i64 left right = builtin_add_overflow_i64 left right"
  using wrap64_cases [of "sint left + sint right"] sint64_bounds [of left] sint64_bounds [of right]
  by (auto simp: gray_add_overflows_i64_def builtin_add_overflow_i64_def Let_def fits_i64_def sint_bitwise_neg sint_wrap)

lemma sub_overflows_i64: "gray_sub_overflows_i64 left right = builtin_sub_overflow_i64 left right"
  using wrap64_cases [of "sint left - sint right"] sint64_bounds [of left] sint64_bounds [of right]
  by (auto simp: gray_sub_overflows_i64_def builtin_sub_overflow_i64_def Let_def fits_i64_def sint_bitwise_neg sint_wrap)

lemma add_overflows_u64: "gray_add_overflows_u64 left right = builtin_add_overflow_u64 left right"
  using uint64_bounds [of left] uint64_bounds [of right]
  by (auto simp: gray_add_overflows_u64_def builtin_add_overflow_u64_def fits_u64_def word_less_def uint_word_ariths mod_add_if_z)

lemma mul_overflows_u64: "gray_mul_overflows_u64 left right = builtin_mul_overflow_u64 left right"
proof (cases "left = 0")
  case False
  obtain L where L: "uint left = L" "0 \<le> L" "L < 2 ^ 64" by (rule limb_cases)
  obtain R where R: "uint right = R" "0 \<le> R" "R < 2 ^ 64" by (rule limb_cases)
  have pos: "0 < L" using False L by (simp add: less_le word_uint_eq_iff)
  have m: "uint (left * right) = (L * R) mod 2 ^ 64" using L R by (simp add: uint_word_ariths)
  have "left * right div left = right \<longleftrightarrow> (L * R) mod 2 ^ 64 div L = R"
    using L R m by (simp add: word_uint_eq_iff uint_div)
  also have "\<dots> \<longleftrightarrow> L * R < 2 ^ 64"
  proof
    assume a: "(L * R) mod 2 ^ 64 div L = R"
    have "L * ((L * R) mod 2 ^ 64 div L) \<le> (L * R) mod 2 ^ 64"
      using pos by (metis mult.commute div_mult_mod_eq le_add_same_cancel1 pos_mod_sign)
    also have "\<dots> < 2 ^ 64" by simp
    finally show "L * R < 2 ^ 64" unfolding a .
  next
    assume "L * R < 2 ^ 64"
    then have "(L * R) mod 2 ^ 64 = L * R" using L R by (simp add: mod_pos_pos_trivial)
    then show "(L * R) mod 2 ^ 64 div L = R" using pos by simp
  qed
  finally show ?thesis using False L R
    by (simp add: gray_mul_overflows_u64_def builtin_mul_overflow_u64_def Let_def fits_u64_def)
qed (simp add: gray_mul_overflows_u64_def builtin_mul_overflow_u64_def Let_def fits_u64_def)

text \<open>The sign cases of the portable multiplication test, by truncating division.\<close>

lemma sdiv_signs:
  "0 < (r :: int) \<Longrightarrow> 0 \<le> m \<Longrightarrow> m sdiv r = m div r" "0 < r \<Longrightarrow> m < 0 \<Longrightarrow> m sdiv r = - ((- m) div r)"
  "r < 0 \<Longrightarrow> 0 \<le> m \<Longrightarrow> m sdiv r = - (m div (- r))" "r < 0 \<Longrightarrow> m < 0 \<Longrightarrow> m sdiv r = (- m) div (- r)"
  by (auto simp: signed_divide_int_def sgn_if)

lemma less_div_iff:
  assumes "0 < (r :: int)"
  shows "m div r < l \<longleftrightarrow> m < l * r"
proof
  assume l: "m div r < l"
  note r = assms l
  have "m < (m div r + 1) * r"
    using div_mult_mod_eq [of m r] pos_mod_bound [OF r(1), of m] unfolding distrib_right mult_1 by linarith
  also have "\<dots> \<le> l * r" using r by (intro mult_right_mono) simp_all
  finally show "m < l * r" .
qed (rule div_less_of_less_mult [OF _ assms])

lemma mul_overflows_i64: "gray_mul_overflows_i64 left right = builtin_mul_overflow_i64 left right"
proof -
  obtain l where l: "sint left = l" "- (2 ^ 63) \<le> l" "l < 2 ^ 63" using sint64_bounds [of left] by blast
  obtain r where r: "sint right = r" "- (2 ^ 63) \<le> r" "r < 2 ^ 63" using sint64_bounds [of right] by blast
  have "(if l = 0 \<or> r = 0 then False else if l = - 1 then r = I64_MIN else if r = - 1 then l = I64_MIN
          else if 0 < l then (if 0 < r then I64_MAX sdiv r < l else r < I64_MIN sdiv l)
          else if 0 < r then l < I64_MIN sdiv r else l < I64_MAX sdiv r) = (\<not> fits_i64 (l * r))"
  proof -
    consider "l = 0 \<or> r = 0" | "l = - 1" | "r = - 1" | "0 < l" "0 < r" | "0 < l" "r < 0" | "l < 0" "0 < r"
      | "l < 0" "r < 0" "l \<noteq> - 1" "r \<noteq> - 1" by linarith
    then show ?thesis
    proof cases
      case 4
      then have "- 9223372036854775808 \<le> l * r" using mult_pos_pos [of l r] by linarith
      then show ?thesis using 4 less_div_iff [of r I64_MAX l]
        by (auto simp del: zero_less_mult_iff mult_less_0_iff simp: sdiv_signs I64_MAX_def I64_MIN_def fits_i64_def)
    next
      case 5
      then have "l * r < 9223372036854775808" using mult_pos_neg [of l r] by linarith
      moreover have "r < - (2 ^ 63 div l) \<longleftrightarrow> 2 ^ 63 < - (l * r)"
        using less_div_iff [of l "2 ^ 63" "- r"] 5 unfolding mult.commute [of l r] mult_minus_left by linarith
      ultimately show ?thesis using 5 l(3) by (auto simp del: zero_less_mult_iff mult_less_0_iff simp: sdiv_signs I64_MIN_def fits_i64_def)
    next
      case 6
      then have "l * r < 9223372036854775808" using mult_neg_pos [of l r] by linarith
      moreover have "l < - (2 ^ 63 div r) \<longleftrightarrow> 2 ^ 63 < - l * r"
        using less_div_iff [of r "2 ^ 63" "- l"] 6 by linarith
      ultimately show ?thesis using 6 r(3) by (auto simp del: zero_less_mult_iff mult_less_0_iff simp: sdiv_signs I64_MIN_def fits_i64_def)
    next
      case 7
      then have "- 9223372036854775808 \<le> l * r" using mult_neg_neg [of l r] by linarith
      moreover have "l < - ((2 ^ 63 - 1) div (- r)) \<longleftrightarrow> 2 ^ 63 - 1 < - l * - r"
        using less_div_iff [of "- r" "2 ^ 63 - 1" "- l"] 7 by linarith
      ultimately show ?thesis using 7 by (auto simp del: zero_less_mult_iff mult_less_0_iff simp: sdiv_signs I64_MAX_def fits_i64_def)
    qed (use l r in \<open>auto simp: I64_MIN_def fits_i64_def\<close>)
  qed
  then show ?thesis using l r
    by (simp add: gray_mul_overflows_i64_def builtin_mul_overflow_i64_def Let_def)
qed

subsection \<open>What the checks compute\<close>

lemma wrap_fits: "fits_i64 k \<Longrightarrow> signed_take_bit 63 k = k"
  by (simp add: fits_i64_def signed_take_bit_int_eq_self)

lemma exact_i64:
  assumes "sint w = signed_take_bit 63 k"
  shows "exact_or_panic sint (- (2 ^ 63)) (2 ^ 63) code k (unless_overflow code (w, \<not> fits_i64 k))"
  using assms wrap_fits [of k] by (auto simp: exact_or_panic_def unless_overflow_def fits_i64_def)

lemma exact_u64:
  assumes "uint w = k mod 2 ^ 64"
  shows "exact_or_panic uint 0 (2 ^ 64) code k (unless_overflow code (w, \<not> fits_u64 k))"
  using assms by (auto simp: exact_or_panic_def unless_overflow_def fits_u64_def mod_pos_pos_trivial)

lemma checked_i64_values:
  "exact_or_panic sint (- (2 ^ 63)) (2 ^ 63) ''P0004'' (sint l + sint r) (gray_add_check l r)"
  "exact_or_panic sint (- (2 ^ 63)) (2 ^ 63) ''P0005'' (sint l - sint r) (gray_sub_check l r)"
  "exact_or_panic sint (- (2 ^ 63)) (2 ^ 63) ''P0006'' (sint l * sint r) (gray_mul_check l r)"
  "exact_or_panic sint (- (2 ^ 63)) (2 ^ 63) ''P0007'' (- sint l) (gray_neg_check l)"
  using exact_i64 [OF sint_wrap(1) [of l r], of "''P0004''"] exact_i64 [OF sint_wrap(2) [of l r], of "''P0005''"]
    exact_i64 [OF sint_wrap(3) [of l r], of "''P0006''"] exact_i64 [OF sint_wrap(4) [of l], of "''P0007''"]
  by (simp_all add: gray_add_check_def gray_sub_check_def gray_mul_check_def gray_neg_check_def
      builtin_add_overflow_i64_def builtin_sub_overflow_i64_def builtin_mul_overflow_i64_def)

lemma checked_u64_values:
  "exact_or_panic uint 0 (2 ^ 64) ''P0008'' (uint a + uint b) (gray_uadd_check a b)"
  "exact_or_panic uint 0 (2 ^ 64) ''P0009'' (uint a - uint b) (gray_usub_check a b)"
  "exact_or_panic uint 0 (2 ^ 64) ''P0010'' (uint a * uint b) (gray_umul_check a b)"
proof -
  show "exact_or_panic uint 0 (2 ^ 64) ''P0008'' (uint a + uint b) (gray_uadd_check a b)"
    "exact_or_panic uint 0 (2 ^ 64) ''P0010'' (uint a * uint b) (gray_umul_check a b)"
    unfolding gray_uadd_check_def gray_umul_check_def builtin_add_overflow_u64_def builtin_mul_overflow_u64_def
    by (rule exact_u64, simp add: uint_word_ariths)+
  show "exact_or_panic uint 0 (2 ^ 64) ''P0009'' (uint a - uint b) (gray_usub_check a b)"
  proof -
    obtain A where A: "uint a = A" "0 \<le> A" "A < 2 ^ 64" by (rule limb_cases)
    obtain B where B: "uint b = B" "0 \<le> B" "B < 2 ^ 64" by (rule limb_cases)
    show ?thesis using A B by (auto simp: exact_or_panic_def gray_usub_check_def word_less_def uint64_sub)
  qed
qed

lemma range_advance_value:
  "sint (gray_range_advance v step stop) =
     (if fits_i64 (sint v + sint step) then sint v + sint step else sint stop)"
  by (simp add: gray_range_advance_def builtin_add_overflow_i64_def sint_wrap wrap_fits)

lemma sized_check_value:
  assumes "fits_i64 k" "sint w = signed_take_bit 63 k"
  shows "exact_or_panic sint (sint lo) (sint hi + 1) code k (sized_check code w lo hi)"
  using assms by (auto simp: wrap_fits exact_or_panic_def sized_check_def)

lemma usized_check_value:
  assumes "fits_i64 k" "sint w = signed_take_bit 63 k"
  shows "if k < 0 then usized_check code w hi = Inl ''P0016''
    else exact_or_panic uint 0 (uint hi + 1) code k (usized_check code w hi)"
proof -
  have "sint w = k" using assms by (simp add: wrap_fits)
  then show ?thesis using sint64_cases [of w]
    by (auto simp: exact_or_panic_def usized_check_def word_less_def)
qed

text \<open>A product of two 32-bit unsigned values can leave \<open>int64_t\<close>: the wrapped result is negative.\<close>

lemma usized_mul_largest: "gray_usized_mul_check 0xFFFFFFFF 0xFFFFFFFF 0xFFFFFFFF = Inl ''P0016''"
  by (simp add: gray_usized_mul_check_def usized_check_def)

lemma ucast_check_value:
  "gray_ucast_check v hi = (if 0 \<le> sint v \<and> uint v \<le> uint hi \<and> \<not> (hi = 0x10FFFF \<and> 0xD800 \<le> uint v \<and> uint v < 0xE000)
     then Inr v else Inl ''P0019'')"
  by (auto simp: gray_ucast_check_def gray_char_surrogate_check_def word_less_def word_le_def)

lemma ucast_check_u64_value:
  "gray_ucast_check_u64 v hi = (if uint v \<le> uint hi \<and> \<not> (hi = 0x10FFFF \<and> 0xD800 \<le> uint v \<and> uint v < 0xE000)
     then Inr v else Inl ''P0019'')"
  by (auto simp: gray_ucast_check_u64_def gray_char_surrogate_check_def word_less_def word_le_def)

lemma u64_to_i64_check_value:
  "exact_or_panic sint (- (2 ^ 63)) (2 ^ 63) ''P0018'' (uint v) (gray_u64_to_i64_check v)"
proof -
  obtain V where V: "uint v = V" "0 \<le> V" "V < 2 ^ 64" by (rule limb_cases)
  show ?thesis using sint64_cases [of v] sint64_nonneg_iff [of v] V
    by (auto simp: exact_or_panic_def gray_u64_to_i64_check_def word_less_def)
qed

text \<open>A flags enum admits exactly the non-negative values whose bits are bits of some variant.\<close>

lemma bit_foldl_or: "bit (foldl (OR) w vs :: u64) n \<longleftrightarrow> bit w n \<or> (\<exists>v \<in> set vs. bit v n)"
  by (induction vs arbitrary: w) (auto simp: bit_or_iff)

lemma enum_cast_flags:
  "gray_enum_cast_check v variants True = Inr v \<longleftrightarrow>
     0 \<le> sint v \<and> (\<forall>n. bit v n \<longrightarrow> (\<exists>w \<in> set variants. bit w n))"
proof -
  have "v AND NOT m = 0 \<longleftrightarrow> (\<forall>n. bit v n \<longrightarrow> bit m n)" for m :: u64
    using bit_imp_le_length [of v] by (simp add: bit_eq_iff bit_and_iff bit_not_iff) blast
  then show ?thesis by (auto simp: gray_enum_cast_check_def Let_def bit_foldl_or)
qed

lemma enum_cast_plain: "gray_enum_cast_check v variants False = (if v \<in> set variants then Inr v else Inl ''P0107'')"
  by (auto simp: gray_enum_cast_check_def list_ex_iff)

end
