(* ===== verification/Float_Bits.thy ===== *)
theory Float_Bits
  imports Prelude
begin

text \<open>
  Floating-point numbers as their IEEE 754 bits: the value they denote, and the exact conversion of
  a float to a double that C's implicit widening makes (\<open>runtime/map.c\<close>, \<open>runtime/array.c\<close>).

  A format has \<open>p\<close> mantissa and \<open>w\<close> exponent bits under the sign bit. Its value is an integer, in
  units of the least positive number of the format; an infinity stands above every finite value.
\<close>

definition float_magnitude :: "nat \<Rightarrow> int \<Rightarrow> int" where
  "float_magnitude p n =
     (let e = n div 2 ^ p; m = n mod 2 ^ p in if e = 0 then m else (2 ^ p + m) * 2 ^ nat (e - 1))"

definition float_value :: "nat \<Rightarrow> nat \<Rightarrow> int \<Rightarrow> int" where
  "float_value p w bits =
     (let v = float_magnitude p (bits mod 2 ^ (p + w)) in if bits < 2 ^ (p + w) then v else - v)"

definition f64_value :: "u64 \<Rightarrow> int" where
  "f64_value bits = float_value 52 11 (uint bits)"

definition f64_is_nan :: "u64 \<Rightarrow> bool" where
  "f64_is_nan bits \<longleftrightarrow> 0x7FF0000000000000 < uint bits mod 2 ^ 63"

definition f64_equal :: "u64 \<Rightarrow> u64 \<Rightarrow> bool" where
  "f64_equal left right \<longleftrightarrow> \<not> f64_is_nan left \<and> \<not> f64_is_nan right \<and> f64_value left = f64_value right"

fun top_bit :: "nat \<Rightarrow> nat" where
  "top_bit n = (if n < 2 then 0 else Suc (top_bit (n div 2)))"

declare top_bit.simps [simp del]

text \<open>A subnormal float is a normal double: its leading bit becomes the hidden one.\<close>

definition widened_magnitude :: "int \<Rightarrow> int" where
  "widened_magnitude n =
     (let e = n div 2 ^ 23; m = n mod 2 ^ 23; k = top_bit (nat m)
      in if e = 255 then 2047 * 2 ^ 52 + m * 2 ^ 29
         else if e \<noteq> 0 then (e + 896) * 2 ^ 52 + m * 2 ^ 29
         else if m = 0 then 0
         else (int k + 874) * 2 ^ 52 + (m - 2 ^ k) * 2 ^ (52 - k))"

definition f32_to_f64 :: "u32 \<Rightarrow> u64" where
  "f32_to_f64 bits =
     (let magnitude = widened_magnitude (uint bits mod 2 ^ 31)
      in word_of_int (if uint bits < 2 ^ 31 then magnitude else 2 ^ 63 + magnitude))"

subsection \<open>The value determines the bits\<close>

lemma float_magnitude_step:
  assumes "0 \<le> n"
  shows "float_magnitude p n < float_magnitude p (n + 1)"
proof -
  define e m where em: "e = n div 2 ^ p" "m = n mod 2 ^ p"
  have n: "n = e * 2 ^ p + m" "0 \<le> e" "0 \<le> m" "m < 2 ^ p" using assms div_mult_mod_eq [of n "2 ^ p"] by (simp_all add: em pos_imp_zdiv_nonneg_iff)
  show ?thesis
  proof (cases "m + 1 = 2 ^ p")
    case False
    then have "m + 1 < 2 ^ p" using n by simp
    then have "(n + 1) div 2 ^ p = e" "(n + 1) mod 2 ^ p = m + 1"
      using n by (simp_all add: add.assoc)
    then show ?thesis unfolding float_magnitude_def Let_def em [symmetric] by (simp add: em)
  next
    case True
    then have m: "n + 1 = (e + 1) * 2 ^ p" using n by (simp add: algebra_simps)
    then have "(n + 1) div 2 ^ p = e + 1" "(n + 1) mod 2 ^ p = 0" by simp_all
    moreover have "(2 ^ p + m) * 2 ^ nat (e - 1) < 2 ^ p * 2 ^ nat e" if "0 < e"
    proof -
      have "(2 :: int) ^ nat e = 2 * 2 ^ nat (e - 1)" using that
        by (metis Suc_nat_eq_nat_zadd1 add.commute diff_add_cancel diff_ge_0_iff_ge int_one_le_iff_zero_less power_Suc)
      then show ?thesis using True by simp
    qed
    ultimately show ?thesis using n unfolding float_magnitude_def Let_def em [symmetric] by simp
  qed
qed

lemma float_magnitude_less: "i < j \<Longrightarrow> 0 \<le> i \<Longrightarrow> float_magnitude p i < float_magnitude p j"
proof (induction j rule: int_gr_induct)
  case (step j)
  then show ?case using float_magnitude_step [of j p] by simp
qed (simp add: float_magnitude_step)

lemma float_magnitude_0 [simp]: "float_magnitude p 0 = 0"
  by (simp add: float_magnitude_def)

lemma float_magnitude_eq: "0 \<le> i \<Longrightarrow> 0 \<le> j \<Longrightarrow> float_magnitude p i = float_magnitude p j \<longleftrightarrow> i = j"
  using float_magnitude_less [of i j p] float_magnitude_less [of j i p] by (cases i j rule: linorder_cases) auto

lemma float_magnitude_pos: "0 \<le> i \<Longrightarrow> 0 \<le> float_magnitude p i \<and> (float_magnitude p i = 0 \<longleftrightarrow> i = 0)"
  using float_magnitude_eq [of i 0 p] float_magnitude_less [of 0 i p] by (cases "i = 0") auto

lemma float_value_0: "0 \<le> a \<Longrightarrow> float_value p w a = 0 \<longleftrightarrow> a mod 2 ^ (p + w) = 0"
  using float_magnitude_pos [of "a mod 2 ^ (p + w)" p] by (simp add: float_value_def Let_def del: mod_pos_pos_trivial)

lemma float_value_eq:
  assumes "0 \<le> a" "a < 2 ^ Suc (p + w)" "0 \<le> b" "b < 2 ^ Suc (p + w)" "float_value p w a \<noteq> 0"
  shows "float_value p w a = float_value p w b \<longleftrightarrow> a = b"
proof
  let ?M = "2 ^ (p + w) :: int"
  assume eq: "float_value p w a = float_value p w b"
  have n: "0 < float_magnitude p (a mod ?M)" "0 < float_magnitude p (b mod ?M)"
    using assms(5) eq float_magnitude_pos [of "a mod ?M" p] float_magnitude_pos [of "b mod ?M" p]
    by (auto simp: float_value_def Let_def split: if_splits)
  have "(a < ?M) = (b < ?M)" "float_magnitude p (a mod ?M) = float_magnitude p (b mod ?M)"
    using eq n by (auto simp: float_value_def Let_def split: if_splits)
  then have s: "(a < ?M) = (b < ?M)" "a mod ?M = b mod ?M" by (simp_all add: float_magnitude_eq)
  have d: "x div ?M = (if x < ?M then 0 else 1)" if "0 \<le> x" "x < 2 ^ Suc (p + w)" for x
  proof (cases "x < ?M")
    case False
    then have "x div ?M = (x - ?M) div ?M + 1" by (simp add: div_add_self1 [of ?M "x - ?M", simplified])
    then show ?thesis using False that by simp
  qed (use that in simp)
  show "a = b" using s d [OF assms(1,2)] d [OF assms(3,4)] by (metis div_mult_mod_eq)
qed simp

lemma f64_value_eq: "f64_value a \<noteq> 0 \<Longrightarrow> f64_value a = f64_value b \<longleftrightarrow> a = b"
  using float_value_eq [of "uint a" 52 11 "uint b"] uint64_bounds [of a] uint64_bounds [of b]
  by (simp add: f64_value_def word_uint_eq_iff)

subsection \<open>Widening is exact\<close>

lemma top_bit_bounds: "0 < n \<Longrightarrow> 2 ^ top_bit n \<le> n \<and> n < 2 ^ Suc (top_bit n)"
proof (induction n rule: top_bit.induct)
  case (1 n)
  show ?case
  proof (cases "n < 2")
    case True
    then show ?thesis using 1(2) by (simp add: top_bit.simps [of n])
  next
    case False
    then have "2 ^ top_bit (n div 2) \<le> n div 2" "n div 2 < 2 ^ Suc (top_bit (n div 2))" using 1(1) by auto
    moreover have "top_bit n = Suc (top_bit (n div 2))" using False by (simp add: top_bit.simps [of n])
    moreover have "n = 2 * (n div 2) + n mod 2" "n mod 2 < 2" by simp_all
    moreover have "(2 :: nat) ^ top_bit n = 2 * 2 ^ top_bit (n div 2)" using calculation by simp
    ultimately show ?thesis unfolding power_Suc by linarith
  qed
qed

lemma top_bit_int:
  assumes "0 < (m :: int)" "m < 2 ^ 23"
  shows "2 ^ top_bit (nat m) \<le> m" "m < 2 * 2 ^ top_bit (nat m)" "top_bit (nat m) \<le> 22"
proof -
  let ?k = "top_bit (nat m)"
  have k: "2 ^ ?k \<le> nat m" "nat m < 2 ^ Suc ?k" using top_bit_bounds [of "nat m"] assms by auto
  have "int (2 ^ ?k) \<le> m" "m < int (2 ^ Suc ?k)" using k assms by linarith+
  then show "2 ^ ?k \<le> m" "m < 2 * 2 ^ ?k" by simp_all
  have "nat m < 2 ^ 23" using assms by (simp add: nat_less_iff)
  with k(1) have "(2 :: nat) ^ ?k < 2 ^ 23" by (rule le_less_trans)
  then show "?k \<le> 22" using power_less_imp_less_exp [of "2 :: nat" ?k 23] by simp
qed

text \<open>The fields of the widened number: an exponent and a mantissa below \<open>2 ^ 52\<close>.\<close>

lemma scale_mantissa: "b * a = (B :: int) \<Longrightarrow> a * c = C \<Longrightarrow> (B + m * a) * (x * c) = (b + m) * x * C"
  by (auto simp: algebra_simps)

lemma widen_normal:
  assumes "0 < e"
  shows "((2 :: int) ^ 52 + m * 2 ^ 29) * 2 ^ nat (e + 895) = (2 ^ 23 + m) * 2 ^ nat (e - 1) * 2 ^ 925"
proof -
  have "nat (e + 895) = nat (e - 1) + 896" using assms by simp
  then have "(2 :: int) ^ nat (e + 895) = 2 ^ nat (e - 1) * 2 ^ 896" by (simp only: power_add)
  moreover have "(2 :: int) ^ 23 * 2 ^ 29 = 2 ^ 52" "(2 :: int) ^ 29 * 2 ^ 896 = 2 ^ 925"
    by (simp_all flip: power_add)
  ultimately show ?thesis by (simp only: scale_mantissa)
qed

lemma widen_subnormal:
  assumes "k \<le> 52"
  shows "((2 :: int) ^ 52 + (m - 2 ^ k) * 2 ^ (52 - k)) * 2 ^ (k + 873) = m * 2 ^ 925"
proof -
  have "(2 :: int) ^ 52 = 2 ^ k * 2 ^ (52 - k)" using assms by (simp flip: power_add)
  then have "(2 :: int) ^ 52 + (m - 2 ^ k) * 2 ^ (52 - k) = m * 2 ^ (52 - k)" by (simp only: left_diff_distrib)
  moreover have "(2 :: int) ^ (52 - k) * 2 ^ (k + 873) = 2 ^ 925" using assms by (simp flip: power_add)
  ultimately show ?thesis by (simp only: mult.assoc)
qed

lemma float_magnitude_fields:
  assumes "0 \<le> M" "M < 2 ^ p"
  shows "float_magnitude p (E * 2 ^ p + M) = (if E = 0 then M else (2 ^ p + M) * 2 ^ nat (E - 1))"
  using assms by (simp add: float_magnitude_def Let_def)

lemma widened_fields:
  assumes "0 \<le> n" "n < 2 ^ 31"
  obtains E M where "widened_magnitude n = E * 2 ^ 52 + M" "0 \<le> M" "M < 2 ^ 52"
    "E = 2047 \<and> n div 2 ^ 23 = 255 \<and> M = n mod 2 ^ 23 * 2 ^ 29
     \<or> 0 \<le> E \<and> E < 2047 \<and> n div 2 ^ 23 \<noteq> 255 \<and> float_magnitude 52 (E * 2 ^ 52 + M) = float_magnitude 23 n * 2 ^ 925"
proof -
  define e m where em: "e = n div 2 ^ 23" "m = n mod 2 ^ 23"
  have b: "0 \<le> e" "e < 256" "0 \<le> m" "m < 2 ^ 23" using assms by (simp_all add: em)
  have n: "float_magnitude 23 n = (if e = 0 then m else (2 ^ 23 + m) * 2 ^ nat (e - 1))"
    by (simp only: float_magnitude_def Let_def em)
  consider "e = 255" | "e \<noteq> 255" "e \<noteq> 0" | "e = 0" "m = 0" | "e = 0" "0 < m" using b by linarith
  then show thesis
  proof cases
    case 1
    then show thesis using that [of "2047" "m * 2 ^ 29"] b by (simp add: widened_magnitude_def Let_def em)
  next
    case 2
    have M: "0 \<le> m * 2 ^ 29" "m * 2 ^ 29 < 2 ^ 52" using b by simp_all
    have "float_magnitude 52 ((e + 896) * 2 ^ 52 + m * 2 ^ 29) = float_magnitude 23 n * 2 ^ 925"
      using b 2 widen_normal [of e m] unfolding float_magnitude_fields [OF M] n by (simp add: add.commute)
    moreover have "widened_magnitude n = (e + 896) * 2 ^ 52 + m * 2 ^ 29"
      using 2 by (simp only: widened_magnitude_def Let_def if_False if_True simp_thms flip: em)
    ultimately show thesis using that [of "e + 896" "m * 2 ^ 29"] M b 2 by (simp only: em) simp
  next
    case 3
    have "n = 0" using 3 div_mult_mod_eq [of n "2 ^ 23"] by (simp only: em)
    then show thesis using that [of 0 0] by (simp add: widened_magnitude_def)
  next
    case 4
    let ?k = "top_bit (nat m)" and ?M = "(m - 2 ^ top_bit (nat m)) * 2 ^ (52 - top_bit (nat m))"
    note k = top_bit_int [OF 4(2) b(4)]
    have p: "(2 :: int) ^ 52 = 2 ^ ?k * 2 ^ (52 - ?k)" using k(3) by (simp flip: power_add)
    have "?M < 2 ^ ?k * 2 ^ (52 - ?k)" using k by (intro mult_strict_right_mono) simp_all
    then have M: "0 \<le> ?M" "?M < 2 ^ 52" using k by (simp_all only: p) simp
    have "nat (int ?k + 874 - 1) = ?k + 873" by simp
    then have fm: "float_magnitude 52 ((int ?k + 874) * 2 ^ 52 + ?M) = float_magnitude 23 n * 2 ^ 925"
      using 4 widen_subnormal [of ?k m] k(3) unfolding float_magnitude_fields [OF M] n by simp
    have w: "widened_magnitude n = (int ?k + 874) * 2 ^ 52 + ?M"
      using 4 by (simp only: widened_magnitude_def Let_def em [symmetric]) simp
    have E: "0 \<le> int ?k + 874" "int ?k + 874 < 2047" using k(3) by simp_all
    have ne: "n div 2 ^ 23 \<noteq> 255" using 4 by (simp only: em)
    show thesis by (rule that [OF w M]) (rule disjI2, intro conjI E ne fm)
  qed
qed

definition f32_value :: "u32 \<Rightarrow> int" where
  "f32_value bits = float_value 23 8 (uint bits)"

definition f32_is_nan :: "u32 \<Rightarrow> bool" where
  "f32_is_nan bits \<longleftrightarrow> 0x7F800000 < uint bits mod 2 ^ 31"

definition f32_is_finite :: "u32 \<Rightarrow> bool" where
  "f32_is_finite bits \<longleftrightarrow> uint bits mod 2 ^ 31 div 2 ^ 23 \<noteq> 255"

lemma widened_bounds:
  assumes "0 \<le> n" "n < 2 ^ 31"
  shows "0 \<le> widened_magnitude n" "widened_magnitude n < 2 ^ 63"
    "n div 2 ^ 23 = 255 \<longleftrightarrow> widened_magnitude n div 2 ^ 52 = 2047"
    "0x7FF0000000000000 < widened_magnitude n \<longleftrightarrow> 0x7F800000 < n"
proof -
  obtain E M where w: "widened_magnitude n = E * 2 ^ 52 + M" "0 \<le> M" "M < 2 ^ 52"
      "E = 2047 \<and> n div 2 ^ 23 = 255 \<and> M = n mod 2 ^ 23 * 2 ^ 29 \<or> 0 \<le> E \<and> E < 2047 \<and> n div 2 ^ 23 \<noteq> 255"
    using widened_fields [OF assms] by metis
  have n: "n = n div 2 ^ 23 * 2 ^ 23 + n mod 2 ^ 23" "0 \<le> n mod 2 ^ 23" "n mod 2 ^ 23 < 2 ^ 23" "n div 2 ^ 23 < 256"
    using assms by simp_all
  show "0 \<le> widened_magnitude n" "widened_magnitude n < 2 ^ 63" using w by auto
  have "(E * 2 ^ 52 + M) div 2 ^ 52 = E" using w(2,3) by simp
  then show "n div 2 ^ 23 = 255 \<longleftrightarrow> widened_magnitude n div 2 ^ 52 = 2047" using w by auto
  show "0x7FF0000000000000 < widened_magnitude n \<longleftrightarrow> 0x7F800000 < n"
  proof (cases "n div 2 ^ 23 = 255")
    case True
    then have "E = 2047" "M = n mod 2 ^ 23 * 2 ^ 29" "n = 255 * 2 ^ 23 + n mod 2 ^ 23" using w(4) n(1) by auto
    then show ?thesis using w(1) by simp linarith
  next
    case False
    then have "widened_magnitude n < 2047 * 2 ^ 52" "n div 2 ^ 23 < 255" using w n(4) by auto
    then show ?thesis using n(1,3) by simp
  qed
qed

lemma uint_f32_to_f64:
  "uint (f32_to_f64 b) = (if uint b < 2 ^ 31 then widened_magnitude (uint b mod 2 ^ 31)
     else 2 ^ 63 + widened_magnitude (uint b mod 2 ^ 31))"
proof -
  have "uint (word_of_int k :: u64) = k" if "0 \<le> k" "k < 2 ^ 64" for k
    using that by (simp add: uint_word_of_int)
  moreover obtain W where "widened_magnitude (uint b mod 2 ^ 31) = W" "0 \<le> W" "W < 2 ^ 63"
    using widened_bounds(1,2) [of "uint b mod 2 ^ 31"] by simp
  ultimately show ?thesis by (simp only: f32_to_f64_def Let_def) simp
qed

lemma f32_to_f64_nan: "f64_is_nan (f32_to_f64 b) \<longleftrightarrow> f32_is_nan b"
proof -
  obtain N where N: "uint b mod 2 ^ 31 = N" "0 \<le> N" "N < 2 ^ 31" by simp
  show ?thesis using widened_bounds [OF N(2,3)] unfolding f64_is_nan_def f32_is_nan_def uint_f32_to_f64 N(1) by simp
qed

lemma f32_to_f64_value: "f32_is_finite b \<Longrightarrow> f64_value (f32_to_f64 b) = f32_value b * 2 ^ 925"
proof -
  assume fin: "f32_is_finite b"
  let ?n = "uint b mod 2 ^ 31"
  have "float_magnitude 52 (widened_magnitude ?n) = float_magnitude 23 ?n * 2 ^ 925"
    using widened_fields [of ?n] fin unfolding f32_is_finite_def by (metis pos_mod_bound pos_mod_sign zero_less_numeral zero_less_power)
  moreover obtain N where N: "?n = N" "0 \<le> N" "N < 2 ^ 31" by simp
  ultimately have mag: "float_magnitude 52 (widened_magnitude N) = float_magnitude 23 N * 2 ^ 925" by simp
  have "uint b mod 2 ^ (23 + 8) = N" using N(1) by simp
  moreover have "uint (f32_to_f64 b) mod 2 ^ (52 + 11) = widened_magnitude N"
    "uint (f32_to_f64 b) < 2 ^ (52 + 11) \<longleftrightarrow> uint b < 2 ^ (23 + 8)"
    using widened_bounds(1,2) [OF N(2,3)] unfolding uint_f32_to_f64 N(1) by simp_all
  ultimately show ?thesis using mag unfolding f64_value_def f32_value_def float_value_def Let_def by simp
qed

text \<open>Two floats that are equal as doubles and are not zero are the same bits.\<close>

lemma f32_equal_bits:
  assumes "f64_value (f32_to_f64 a) = f64_value (f32_to_f64 b)" "f64_value (f32_to_f64 a) \<noteq> 0"
    "\<not> f32_is_nan a" "\<not> f32_is_nan b"
  shows "a = b"
proof -
  have eq: "f32_to_f64 a = f32_to_f64 b" using assms f64_value_eq by blast
  have sign: "(uint a < 2 ^ 31) = (uint b < 2 ^ 31)" and
    mag: "widened_magnitude (uint a mod 2 ^ 31) = widened_magnitude (uint b mod 2 ^ 31)"
    using arg_cong [OF eq, of uint] widened_bounds(1,2) [of "uint a mod 2 ^ 31"] widened_bounds(1,2) [of "uint b mod 2 ^ 31"]
    by (auto simp: uint_f32_to_f64 split: if_splits)
  show ?thesis
  proof (cases "f32_is_finite a")
    case True
    moreover from this have "f32_is_finite b"
      using mag widened_bounds(3) [of "uint a mod 2 ^ 31"] widened_bounds(3) [of "uint b mod 2 ^ 31"] by (simp add: f32_is_finite_def)
    ultimately have "f32_value a = f32_value b" "f32_value a \<noteq> 0" using assms(1,2) by (simp_all add: f32_to_f64_value)
    then show ?thesis using float_value_eq [of "uint a" 23 8 "uint b"] unsigned_less [of a] unsigned_less [of b]
      by (simp add: f32_value_def word_uint_eq_iff)
  next
    case False
    then have nf: "\<not> f32_is_finite b"
      using mag widened_bounds(3) [of "uint a mod 2 ^ 31"] widened_bounds(3) [of "uint b mod 2 ^ 31"] by (simp add: f32_is_finite_def)
    have infinite: "y = 0x7F800000" if "y div 2 ^ 23 = 255" "\<not> 0x7F800000 < y" for y :: int
      using that div_mult_mod_eq [of y "2 ^ 23"] pos_mod_sign [of "2 ^ 23" y] by simp
    have "uint a mod 2 ^ 31 = 0x7F800000" by (rule infinite) (use False assms(3) in \<open>simp_all only: f32_is_finite_def f32_is_nan_def simp_thms\<close>)
    moreover have "uint b mod 2 ^ 31 = 0x7F800000" by (rule infinite) (use nf assms(4) in \<open>simp_all only: f32_is_finite_def f32_is_nan_def simp_thms\<close>)
    ultimately have m: "uint a mod 2 ^ 31 = uint b mod 2 ^ 31" by simp
    have top: "x = x mod 2 ^ 31 + (if x < 2 ^ 31 then 0 else 2 ^ 31)" if "0 \<le> x" "x < 2 ^ 32" for x :: int
      using that mod_pos_geq [of "2 ^ 31" x] mod_pos_pos_trivial [of "x - 2 ^ 31" "2 ^ 31"] mod_pos_pos_trivial [of x "2 ^ 31"]
      by (cases "x < 2 ^ 31") simp_all
    have "uint a < 2 ^ 32" "uint b < 2 ^ 32" using unsigned_less [of a] unsigned_less [of b] by simp_all
    note top [OF unsigned_greater_eq this(1)] top [OF unsigned_greater_eq this(2)]
    then have "uint a = uint b" by (simp only: sign m)
    then show ?thesis by (simp add: word_uint_eq_iff)
  qed
qed

end
