(* ===== verification/Elements.thy ===== *)
theory Elements
  imports Wide128_Values Wide256_Values Wide_Checked Checked_Int Float_Bits "HOL-Library.List_Lexorder"
begin

text \<open>
  The element helpers of \<open>runtime/array.c\<close>: reading, comparing, hashing and adding the elements of
  arrays and the keys of maps by their kind.

  An element is the bytes it occupies; a string element is the bytes of its text, so that the
  \<open>GrayString\<close> header, a pointer and a length, stays below the model. Numbers are stored
  little-endian, as on every target of the compiler. A double is its 64 bits, read by IEEE 754.
\<close>

type_synonym element = "u8 list"

datatype GrayElemKind =
    GRAY_ELEM_OTHER
  | GRAY_ELEM_I8 | GRAY_ELEM_I16 | GRAY_ELEM_I32 | GRAY_ELEM_I64 | GRAY_ELEM_I128 | GRAY_ELEM_I256
  | GRAY_ELEM_U8 | GRAY_ELEM_U16 | GRAY_ELEM_U32 | GRAY_ELEM_U64 | GRAY_ELEM_U128 | GRAY_ELEM_U256
  | GRAY_ELEM_F32 | GRAY_ELEM_F64
  | GRAY_ELEM_BOOL | GRAY_ELEM_CHAR
  | GRAY_ELEM_STRING | GRAY_ELEM_ARRAY | GRAY_ELEM_MAP

subsection \<open>Memory\<close>

text \<open>The first \<open>n\<close> bytes at an address, and the integers they denote.\<close>

definition bytes_at :: "nat \<Rightarrow> element \<Rightarrow> u8 list" where
  "bytes_at n e = take n (e @ replicate n 0)"

definition load_u :: "nat \<Rightarrow> element \<Rightarrow> int" where
  "load_u n e = horner_sum uint 256 (bytes_at n e)"

definition load_s :: "nat \<Rightarrow> element \<Rightarrow> int" where
  "load_s n e = signed_take_bit (8 * n - 1) (load_u n e)"

definition load_limb :: "nat \<Rightarrow> element \<Rightarrow> u64" where
  "load_limb i e = word_of_int (load_u 8 (drop (8 * i) e))"

definition load_i128 :: "element \<Rightarrow> gray_i128" where
  "load_i128 e = \<lparr>i128_low = load_limb 0 e, i128_high = load_limb 1 e\<rparr>"

definition load_u128 :: "element \<Rightarrow> gray_u128" where
  "load_u128 e = \<lparr>u128_low = load_limb 0 e, u128_high = load_limb 1 e\<rparr>"

definition load_i256 :: "element \<Rightarrow> gray_i256" where
  "load_i256 e = \<lparr>i256_w0 = load_limb 0 e, i256_w1 = load_limb 1 e, i256_w2 = load_limb 2 e, i256_w3 = load_limb 3 e\<rparr>"

definition load_u256 :: "element \<Rightarrow> gray_u256" where
  "load_u256 e = \<lparr>u256_w0 = load_limb 0 e, u256_w1 = load_limb 1 e, u256_w2 = load_limb 2 e, u256_w3 = load_limb 3 e\<rparr>"

text \<open>The \<open>n\<close> low bytes of an integer, and of a sequence of limbs.\<close>

definition store :: "nat \<Rightarrow> int \<Rightarrow> element" where
  "store n k = map (\<lambda>i. word_of_int (k div 256 ^ i)) [0..<n]"

definition store_limbs :: "u64 list \<Rightarrow> element" where
  "store_limbs ws = concat (map (\<lambda>w. store 8 (uint w)) ws)"

fun byte_order :: "u8 list \<Rightarrow> u8 list \<Rightarrow> int" where
  "byte_order (a # as) (b # bs) = (if a = b then byte_order as bs else uint a - uint b)"
| "byte_order _ _ = 0"

definition memcmp :: "nat \<Rightarrow> element \<Rightarrow> element \<Rightarrow> int" where
  "memcmp n left right = byte_order (bytes_at n left) (bytes_at n right)"

subsection \<open>Doubles\<close>

definition load_f64 :: "element \<Rightarrow> u64" where
  "load_f64 e = word_of_int (load_u 8 e)"

definition load_f32 :: "element \<Rightarrow> u64" where
  "load_f32 e = f32_to_f64 (word_of_int (load_u 4 e))"

subsection \<open>Comparison\<close>

definition GRAY_ORDER :: "'a :: linorder \<Rightarrow> 'a \<Rightarrow> int" where
  "GRAY_ORDER a b = of_bool (a > b) - of_bool (a < b)"

definition float_order :: "u64 \<Rightarrow> u64 \<Rightarrow> int" where
  "float_order left right =
     (if f64_is_nan left then if f64_is_nan right then 0 else 1
      else if f64_is_nan right then - 1
      else GRAY_ORDER (f64_value left) (f64_value right))"

definition string_order :: "element \<Rightarrow> element \<Rightarrow> int" where
  "string_order left right =
     (let shorter = (if length left < length right then length left else length right);
          bytes = (if 0 < shorter then memcmp shorter left right else 0)
      in if bytes \<noteq> 0 then if bytes < 0 then - 1 else 1
         else GRAY_ORDER (length left) (length right))"

definition wide_order :: "('a \<Rightarrow> 'a \<Rightarrow> bool) \<Rightarrow> 'a \<Rightarrow> 'a \<Rightarrow> int" where
  "wide_order lt left right = (if lt left right then - 1 else if lt right left then 1 else 0)"

definition gray_elem_compare :: "GrayElemKind \<Rightarrow> nat \<Rightarrow> element \<Rightarrow> element \<Rightarrow> int" where
  "gray_elem_compare kind width left right = (case kind of
     GRAY_ELEM_I8 \<Rightarrow> GRAY_ORDER (load_s 1 left) (load_s 1 right)
   | GRAY_ELEM_I16 \<Rightarrow> GRAY_ORDER (load_s 2 left) (load_s 2 right)
   | GRAY_ELEM_I32 \<Rightarrow> GRAY_ORDER (load_s 4 left) (load_s 4 right)
   | GRAY_ELEM_CHAR \<Rightarrow> GRAY_ORDER (load_s 4 left) (load_s 4 right)
   | GRAY_ELEM_I64 \<Rightarrow> GRAY_ORDER (load_s 8 left) (load_s 8 right)
   | GRAY_ELEM_U8 \<Rightarrow> GRAY_ORDER (load_u 1 left) (load_u 1 right)
   | GRAY_ELEM_BOOL \<Rightarrow> GRAY_ORDER (load_u 1 left) (load_u 1 right)
   | GRAY_ELEM_U16 \<Rightarrow> GRAY_ORDER (load_u 2 left) (load_u 2 right)
   | GRAY_ELEM_U32 \<Rightarrow> GRAY_ORDER (load_u 4 left) (load_u 4 right)
   | GRAY_ELEM_U64 \<Rightarrow> GRAY_ORDER (load_u 8 left) (load_u 8 right)
   | GRAY_ELEM_F32 \<Rightarrow> float_order (load_f32 left) (load_f32 right)
   | GRAY_ELEM_F64 \<Rightarrow> float_order (load_f64 left) (load_f64 right)
   | GRAY_ELEM_I128 \<Rightarrow> wide_order gray_i128_lt (load_i128 left) (load_i128 right)
   | GRAY_ELEM_U128 \<Rightarrow> wide_order gray_u128_lt (load_u128 left) (load_u128 right)
   | GRAY_ELEM_I256 \<Rightarrow> wide_order gray_i256_lt (load_i256 left) (load_i256 right)
   | GRAY_ELEM_U256 \<Rightarrow> wide_order gray_u256_lt (load_u256 left) (load_u256 right)
   | GRAY_ELEM_STRING \<Rightarrow> string_order left right
   | _ \<Rightarrow> GRAY_ORDER (memcmp width left right) 0)"

text \<open>A float is compared for equality as the double it converts to.\<close>

definition gray_elem_equal :: "GrayElemKind \<Rightarrow> nat \<Rightarrow> element \<Rightarrow> element \<Rightarrow> bool" where
  "gray_elem_equal kind width left right = (case kind of
     GRAY_ELEM_F32 \<Rightarrow> f64_equal (load_f32 left) (load_f32 right)
   | GRAY_ELEM_F64 \<Rightarrow> f64_equal (load_f64 left) (load_f64 right)
   | GRAY_ELEM_STRING \<Rightarrow> length left = length right \<and>
       (length left = 0 \<or> memcmp (length left) left right = 0)
   | _ \<Rightarrow> memcmp width left right = 0)"

subsection \<open>Hashing\<close>

fun fnv1a :: "u8 list \<Rightarrow> u32 \<Rightarrow> u32" where
  "fnv1a [] hash = hash"
| "fnv1a (b # bs) hash = fnv1a bs ((hash XOR ucast b) * 16777619)"

text \<open>Assigning \<open>0.0\<close> to a value that equals it drops the sign of a negative zero.\<close>

definition gray_elem_hash :: "GrayElemKind \<Rightarrow> nat \<Rightarrow> element \<Rightarrow> u32" where
  "gray_elem_hash kind width e =
     (let seed = 2166136261
      in case kind of
           GRAY_ELEM_F32 \<Rightarrow> fnv1a (if f64_equal (load_f32 e) 0 then store 4 0 else bytes_at 4 e) seed
         | GRAY_ELEM_F64 \<Rightarrow> fnv1a (if f64_equal (load_f64 e) 0 then store 8 0 else bytes_at 8 e) seed
         | GRAY_ELEM_STRING \<Rightarrow> fnv1a e seed
         | _ \<Rightarrow> fnv1a (bytes_at width e) seed)"

subsection \<open>Arithmetic\<close>

text \<open>
  \<open>gray_elem_add\<close> reads both operands as the kind's type, adds them with that type's check and
  stores the sum back. The sum of two floats is not modelled: the result is then \<open>None\<close>. A kind
  with no addition leaves the accumulator as it is.
\<close>

definition signed_sum :: "nat \<Rightarrow> element \<Rightarrow> element \<Rightarrow> element panicking" where
  "signed_sum n acc e = map_sum id (\<lambda>w. store n (uint w))
     (gray_sized_add_check (word_of_int (load_s n acc)) (word_of_int (load_s n e))
        (- (2 ^ (8 * n - 1))) (2 ^ (8 * n - 1) - 1))"

definition unsigned_sum :: "nat \<Rightarrow> element \<Rightarrow> element \<Rightarrow> element panicking" where
  "unsigned_sum n acc e = map_sum id (\<lambda>w. store n (uint w))
     (gray_usized_add_check (word_of_int (load_u n acc)) (word_of_int (load_u n e)) (2 ^ (8 * n) - 1))"

definition gray_elem_add :: "GrayElemKind \<Rightarrow> element \<Rightarrow> element \<Rightarrow> element panicking option" where
  "gray_elem_add kind acc e = (case kind of
     GRAY_ELEM_I8 \<Rightarrow> Some (signed_sum 1 acc e)
   | GRAY_ELEM_I16 \<Rightarrow> Some (signed_sum 2 acc e)
   | GRAY_ELEM_I32 \<Rightarrow> Some (signed_sum 4 acc e)
   | GRAY_ELEM_I64 \<Rightarrow> Some (map_sum id (\<lambda>w. store 8 (uint w)) (gray_add_check (load_limb 0 acc) (load_limb 0 e)))
   | GRAY_ELEM_U8 \<Rightarrow> Some (unsigned_sum 1 acc e)
   | GRAY_ELEM_U16 \<Rightarrow> Some (unsigned_sum 2 acc e)
   | GRAY_ELEM_U32 \<Rightarrow> Some (unsigned_sum 4 acc e)
   | GRAY_ELEM_U64 \<Rightarrow> Some (map_sum id (\<lambda>w. store 8 (uint w)) (gray_uadd_check (load_limb 0 acc) (load_limb 0 e)))
   | GRAY_ELEM_I128 \<Rightarrow> Some (map_sum id (\<lambda>v. store_limbs [i128_low v, i128_high v])
       (gray_i128_add_checked (load_i128 acc) (load_i128 e)))
   | GRAY_ELEM_U128 \<Rightarrow> Some (map_sum id (\<lambda>v. store_limbs [u128_low v, u128_high v])
       (gray_u128_add_checked (load_u128 acc) (load_u128 e)))
   | GRAY_ELEM_I256 \<Rightarrow> Some (map_sum id (\<lambda>v. store_limbs [i256_w0 v, i256_w1 v, i256_w2 v, i256_w3 v])
       (gray_i256_add_checked (load_i256 acc) (load_i256 e)))
   | GRAY_ELEM_U256 \<Rightarrow> Some (map_sum id (\<lambda>v. store_limbs [u256_w0 v, u256_w1 v, u256_w2 v, u256_w3 v])
       (gray_u256_add_checked (load_u256 acc) (load_u256 e)))
   | GRAY_ELEM_F32 \<Rightarrow> None
   | GRAY_ELEM_F64 \<Rightarrow> None
   | _ \<Rightarrow> Some (Inr acc))"

text \<open>The conversion of a double to \<open>int64_t\<close> drops the fraction; out of range it is undefined.\<close>

definition f64_to_i64 :: "u64 \<Rightarrow> int option" where
  "f64_to_i64 bits =
     (let k = f64_value bits sdiv 2 ^ 1074
      in if f64_is_nan bits \<or> k < - (2 ^ 63) \<or> 2 ^ 63 \<le> k then None else Some k)"

definition gray_elem_to_i64 :: "GrayElemKind \<Rightarrow> element \<Rightarrow> int option" where
  "gray_elem_to_i64 kind e = (case kind of
     GRAY_ELEM_I8 \<Rightarrow> Some (load_s 1 e)
   | GRAY_ELEM_I16 \<Rightarrow> Some (load_s 2 e)
   | GRAY_ELEM_I32 \<Rightarrow> Some (load_s 4 e)
   | GRAY_ELEM_CHAR \<Rightarrow> Some (load_s 4 e)
   | GRAY_ELEM_I64 \<Rightarrow> Some (load_s 8 e)
   | GRAY_ELEM_U8 \<Rightarrow> Some (load_u 1 e)
   | GRAY_ELEM_BOOL \<Rightarrow> Some (load_u 1 e)
   | GRAY_ELEM_U16 \<Rightarrow> Some (load_u 2 e)
   | GRAY_ELEM_U32 \<Rightarrow> Some (load_u 4 e)
   | GRAY_ELEM_U64 \<Rightarrow> Some (signed_take_bit 63 (load_u 8 e))
   | GRAY_ELEM_F32 \<Rightarrow> f64_to_i64 (load_f32 e)
   | GRAY_ELEM_F64 \<Rightarrow> f64_to_i64 (load_f64 e)
   | _ \<Rightarrow> Some 0)"

definition gray_elem_to_u64 :: "GrayElemKind \<Rightarrow> element \<Rightarrow> int option" where
  "gray_elem_to_u64 kind e =
     (if kind = GRAY_ELEM_U64 then Some (load_u 8 e)
      else map_option (\<lambda>k. k mod 2 ^ 64) (gray_elem_to_i64 kind e))"

end
