(* ===== verification/Probing.thy ===== *)
theory Probing
  imports Prelude
begin

text \<open>
  Open addressing with linear probing, which the source writes out for each of its tables: capacities
  that are powers of two, the slots a key is looked for in, and the tables of the compiler, whose entries
  are added and never removed. A loop that would not end, because the table is full, is \<open>None\<close>.
\<close>

subsection \<open>Capacities\<close>

definition capacity_ok :: "nat \<Rightarrow> bool" where
  "capacity_ok n \<longleftrightarrow> (\<exists>k \<ge> 3. n = 2 ^ k)"

lemma capacity_okD: "capacity_ok n \<Longrightarrow> 8 \<le> n" "capacity_ok n \<Longrightarrow> 8 dvd n"
proof -
  assume "capacity_ok n"
  then obtain k where "3 \<le> k" "n = 2 ^ k" by (auto simp: capacity_ok_def)
  then obtain j where "n = 2 ^ 3 * 2 ^ j" by (metis le_add_diff_inverse power_add)
  then show "8 \<le> n" "8 dvd n" by simp_all
qed

lemma power_of_two_unique: "capacity_ok p \<Longrightarrow> capacity_ok q \<Longrightarrow> p \<le> q \<Longrightarrow> q < 2 * p \<Longrightarrow> q = p"
proof -
  assume pq: "capacity_ok p" "capacity_ok q" "p \<le> q" "q < 2 * p"
  then obtain i j where "p = 2 ^ i" "q = 2 ^ j" by (auto simp: capacity_ok_def)
  then have "i \<le> j" "j < Suc i" using pq(3,4) power_increasing_iff [of "2 :: nat" i j] power_strict_increasing_iff [of "2 :: nat" j "Suc i"]
    by simp_all
  then have "i = j" by simp
  then show ?thesis using \<open>p = 2 ^ i\<close> \<open>q = 2 ^ j\<close> by simp
qed

lemma capacity_ok_double: "capacity_ok n \<Longrightarrow> capacity_ok (n * 2)"
  unfolding capacity_ok_def by (metis le_SucI mult.commute power_Suc)

lemma and_capacity: "capacity_ok n \<Longrightarrow> i AND (n - 1) = i mod n"
  using take_bit_eq_mask [of _ i] by (auto simp: capacity_ok_def mask_eq_exp_minus_1 take_bit_eq_mod)

subsection \<open>Slots\<close>

text \<open>The slots of a key, from its home slot on.\<close>

definition probe_slots :: "nat \<Rightarrow> u32 \<Rightarrow> nat list" where
  "probe_slots capacity hash = (let mask = capacity - 1 in map (\<lambda>i. (unat hash + i) AND mask) [0..<capacity])"

text \<open>Probing from any home slot reaches every slot.\<close>

lemma all_slots:
  assumes "0 < n"
  shows "(\<lambda>i. (h + i) mod n) ` {..<n} = {..<n :: nat}"
proof
  show "{..<n} \<subseteq> (\<lambda>i. (h + i) mod n) ` {..<n}"
  proof
    fix s
    assume s: "s \<in> {..<n}"
    show "s \<in> (\<lambda>i. (h + i) mod n) ` {..<n}"
    proof (rule image_eqI [where x = "(s + (n - h mod n)) mod n"])
      have "h mod n \<le> n" using assms by simp
      have "(h + (s + (n - h mod n)) mod n) mod n = (h mod n + (s + (n - h mod n))) mod n"
        by (metis mod_add_left_eq mod_add_right_eq)
      also have "h mod n + (s + (n - h mod n)) = s + n" using \<open>h mod n \<le> n\<close> by simp
      finally show "s = (h + (s + (n - h mod n)) mod n) mod n" using s by simp
    qed (use assms in simp)
  qed
qed (use assms in auto)

lemma set_probe_slots:
  assumes "capacity_ok capacity"
  shows "set (probe_slots capacity hash) = {..<capacity}"
proof -
  have n: "0 < capacity" using capacity_okD(1) [OF assms] by simp
  have "probe_slots capacity hash = map (\<lambda>i. (unat hash + i) mod capacity) [0..<capacity]"
    by (simp only: probe_slots_def Let_def and_capacity [OF assms])
  then have "set (probe_slots capacity hash) = (\<lambda>i. (unat hash + i) mod capacity) ` {..<capacity}" by (auto simp: lessThan_atLeast0)
  also have "\<dots> = {..<capacity}" using n by (rule all_slots)
  finally show ?thesis .
qed

lemma takeWhile_mono:
  assumes "\<And>x. x \<in> set xs \<Longrightarrow> P x \<Longrightarrow> Q x"
  shows "set (takeWhile P xs) \<subseteq> set (takeWhile Q xs)"
  using assms by (induction xs) auto

lemma takeWhile_next: "dropWhile P xs = x # rest \<Longrightarrow> (\<And>y. P y \<Longrightarrow> Q y) \<Longrightarrow> Q x \<Longrightarrow> x \<in> set (takeWhile Q xs)"
proof (induction xs)
  case (Cons y ys)
  then show ?case by (cases "P y") auto
qed simp

lemma length_filter_update:
  "s < length xs \<Longrightarrow> \<not> P (xs ! s) \<Longrightarrow> P x \<Longrightarrow> length (filter P (xs[s := x])) = Suc (length (filter P xs))"
proof (induction xs arbitrary: s)
  case (Cons y ys)
  then show ?case by (cases s) simp_all
qed simp

subsection \<open>Tables that only grow\<close>

type_synonym ('k, 'v) probe_table = "('k \<times> 'v) option list"

fun probe_find :: "('k, 'v) probe_table \<Rightarrow> 'k \<Rightarrow> nat list \<Rightarrow> 'v option option" where
  "probe_find table key [] = None"
| "probe_find table key (slot # slots) =
     (case table ! slot of
        None \<Rightarrow> Some None
      | Some (k, v) \<Rightarrow> if k = key then Some (Some v) else probe_find table key slots)"

fun probe_place :: "('k, 'v) probe_table \<Rightarrow> 'k \<Rightarrow> 'v \<Rightarrow> nat list \<Rightarrow> ('k, 'v) probe_table option" where
  "probe_place table key v [] = None"
| "probe_place table key v (slot # slots) =
     (if table ! slot = None then Some (table[slot := Some (key, v)]) else probe_place table key v slots)"

fun place_all :: "('k \<Rightarrow> u32) \<Rightarrow> ('k, 'v) probe_table \<Rightarrow> ('k \<times> 'v) list \<Rightarrow> ('k, 'v) probe_table option" where
  "place_all hash table [] = Some table"
| "place_all hash table ((k, v) # es) =
     (case probe_place table k v (probe_slots (length table) (hash k)) of
        None \<Rightarrow> None
      | Some table \<Rightarrow> place_all hash table es)"

text \<open>The entries of a table in the order of their slots.\<close>

definition live_entries :: "('k, 'v) probe_table \<Rightarrow> ('k \<times> 'v) list" where
  "live_entries table = map the (filter (\<lambda>e. e \<noteq> None) table)"

text \<open>A table lists some entries: each is on the path of its key before any free slot.\<close>

abbreviation used :: "('k, 'v) probe_table \<Rightarrow> nat \<Rightarrow> bool" where
  "used table slot \<equiv> table ! slot \<noteq> None"

definition table_lists :: "('k \<Rightarrow> u32) \<Rightarrow> ('k, 'v) probe_table \<Rightarrow> ('k \<times> 'v) list \<Rightarrow> bool" where
  "table_lists hash table es \<longleftrightarrow> capacity_ok (length table) \<and> distinct (map fst es)
     \<and> length (filter (\<lambda>e. e \<noteq> None) table) = length es
     \<and> (\<forall>s < length table. \<forall>e. table ! s = Some e \<longrightarrow> e \<in> set es)
     \<and> (\<forall>e \<in> set es. \<exists>s \<in> set (takeWhile (used table) (probe_slots (length table) (hash (fst e)))). table ! s = Some e)"

lemma table_listsD: "table_lists hash table es \<Longrightarrow> s < length table \<Longrightarrow> table ! s = Some e \<Longrightarrow> e \<in> set es"
  unfolding table_lists_def by blast

lemma probe_find_cases:
  "probe_find table k ps =
     (case find (\<lambda>s. map_option fst (table ! s) = Some k) (takeWhile (used table) ps) of
        Some s \<Rightarrow> Some (map_option snd (table ! s))
      | None \<Rightarrow> if dropWhile (used table) ps = [] then None else Some None)"
  by (induction ps) (auto split: option.splits)

lemma probe_place_cases:
  "probe_place table k v ps =
     (case dropWhile (used table) ps of [] \<Rightarrow> None | s # _ \<Rightarrow> Some (table[s := Some (k, v)]))"
  by (induction ps) auto

lemma free_slot:
  assumes "table_lists hash table es" "length es < length table"
  obtains s rest where "dropWhile (used table) (probe_slots (length table) h) = s # rest" "s < length table" "table ! s = None"
proof (cases "dropWhile (used table) (probe_slots (length table) h)")
  case Nil
  have slots: "set (probe_slots (length table) h) = {..<length table}" using assms(1) by (intro set_probe_slots) (simp add: table_lists_def)
  then have "\<forall>s < length table. used table s" using Nil by (auto simp: dropWhile_eq_Nil_conv)
  then have "filter (\<lambda>e. e \<noteq> None) table = table" by (intro filter_True ballI) (metis in_set_conv_nth)
  then show ?thesis using assms by (simp add: table_lists_def)
next
  case (Cons s rest)
  have slots: "set (probe_slots (length table) h) = {..<length table}" using assms(1) by (intro set_probe_slots) (simp add: table_lists_def)
  have "s \<in> set (probe_slots (length table) h)" using Cons by (metis list.set_intros(1) set_dropWhileD)
  moreover have "\<not> used table s" using Cons unfolding dropWhile_eq_Cons_conv by blast
  then have "table ! s = None" by (cases "table ! s") simp_all
  ultimately show ?thesis using that [OF Cons] slots by simp
qed

lemma probe_find_value:
  assumes t: "table_lists hash table es" "length es < length table"
  shows "probe_find table k (probe_slots (length table) (hash k)) = Some (map_of es k)"
proof (cases "map_of es k")
  case None
  have slots: "set (probe_slots (length table) (hash k)) = {..<length table}" using t(1) by (intro set_probe_slots) (simp add: table_lists_def)
  have "map_option fst (table ! s) \<noteq> Some k" if "s \<in> set (takeWhile (used table) (probe_slots (length table) (hash k)))" for s
  proof -
    have s: "s < length table" using that slots by (auto dest: set_takeWhileD)
    have "e \<in> set es" if "table ! s = Some e" for e by (rule table_listsD [OF t(1) s that])
    moreover have "k \<notin> fst ` set es" using None by (simp add: map_of_eq_None_iff)
    ultimately show ?thesis by (cases "table ! s") (auto simp: image_iff)
  qed
  then have "find (\<lambda>s. map_option fst (table ! s) = Some k) (takeWhile (used table) (probe_slots (length table) (hash k))) = None"
    unfolding find_None_iff by blast
  moreover obtain s rest where "dropWhile (used table) (probe_slots (length table) (hash k)) = s # rest" using free_slot [OF t] by blast
  ultimately show ?thesis using None by (simp add: probe_find_cases)
next
  case (Some v)
  then have "(k, v) \<in> set es" by (rule map_of_SomeD)
  then obtain s where s: "s \<in> set (takeWhile (used table) (probe_slots (length table) (hash k)))" "table ! s = Some (k, v)"
    using t(1) unfolding table_lists_def by (metis fst_conv)
  have slots: "set (probe_slots (length table) (hash k)) = {..<length table}" using t(1) by (intro set_probe_slots) (simp add: table_lists_def)
  let ?found = "find (\<lambda>s. map_option fst (table ! s) = Some k) (takeWhile (used table) (probe_slots (length table) (hash k)))"
  have "?found \<noteq> None" using s by (auto simp: find_None_iff)
  then obtain r where r: "?found = Some r" by blast
  then have r': "r \<in> set (takeWhile (used table) (probe_slots (length table) (hash k)))" "map_option fst (table ! r) = Some k"
    by (auto simp: find_Some_iff)
  then have "r < length table" using slots by (auto dest: set_takeWhileD)
  then obtain w where w: "table ! r = Some (k, w)" "(k, w) \<in> set es" using r'(2) t(1) by (auto simp: table_lists_def)
  then have "map_of es k = Some w" using t(1) by (simp add: table_lists_def)
  then show ?thesis using Some r w(1) by (simp add: probe_find_cases)
qed

lemma table_lists_place:
  assumes t: "table_lists hash table es" and new: "fst e \<notin> fst ` set es"
    and s: "dropWhile (used table) (probe_slots (length table) (hash (fst e))) = s # rest" "s < length table" "table ! s = None"
  shows "table_lists hash (table[s := Some e]) (es @ [e])"
  unfolding table_lists_def
proof (intro conjI allI impI ballI)
  let ?t = "table[s := Some e]"
  have more: "used table x \<Longrightarrow> used ?t x" for x using s(2) by (cases "x = s") simp_all
  have path: "set (takeWhile (used table) ps) \<subseteq> set (takeWhile (used ?t) ps)" for ps
    by (rule takeWhile_mono) (rule more)
  show "capacity_ok (length ?t)" "distinct (map fst (es @ [e]))" using t new by (auto simp: table_lists_def)
  show "length (filter (\<lambda>e. e \<noteq> None) ?t) = length (es @ [e])"
    using t length_filter_update [OF s(2), of "\<lambda>e. e \<noteq> None" "Some e"] s(3) by (simp add: table_lists_def)
  show "d \<in> set (es @ [e])" if "x < length ?t" "?t ! x = Some d" for x d
    using that table_listsD [OF t, of x d] s(2) by (cases "x = s") simp_all
  show "\<exists>x \<in> set (takeWhile (used ?t) (probe_slots (length ?t) (hash (fst d)))). ?t ! x = Some d" if d: "d \<in> set (es @ [e])" for d
  proof (cases "d = e")
    case True
    have "s \<in> set (takeWhile (used ?t) (probe_slots (length table) (hash (fst e))))"
      using s(1) by (rule takeWhile_next) (use more s(2) in simp_all)
    then show ?thesis unfolding length_list_update True by (rule bexI [rotated]) (simp add: s(2))
  next
    case False
    then obtain x where x: "x \<in> set (takeWhile (used table) (probe_slots (length table) (hash (fst d))))" "table ! x = Some d"
      using d t unfolding table_lists_def by auto
    have "x \<noteq> s" using x(2) s(3) by auto
    then have "?t ! x = Some d" using x(2) by simp
    then show ?thesis unfolding length_list_update by (rule bexI) (rule subsetD [OF path x(1)])
  qed
qed

lemma probe_place_value:
  assumes t: "table_lists hash table es" "length es < length table" and new: "k \<notin> fst ` set es"
  shows "\<exists>table'. probe_place table k v (probe_slots (length table) (hash k)) = Some table'
    \<and> length table' = length table \<and> table_lists hash table' (es @ [(k, v)])"
proof -
  obtain s rest where s: "dropWhile (used table) (probe_slots (length table) (hash k)) = s # rest" "s < length table" "table ! s = None"
    using free_slot [OF t] by metis
  then show ?thesis using table_lists_place [OF t(1), of "(k, v)" s rest] new by (simp add: probe_place_cases)
qed

lemma table_lists_empty: "capacity_ok n \<Longrightarrow> table_lists hash (replicate n None) []"
  by (simp add: table_lists_def)

lemma place_all_value:
  assumes "table_lists hash table es" "distinct (map fst (es @ fs))" "length es + length fs \<le> length table"
  shows "\<exists>table'. place_all hash table fs = Some table' \<and> length table' = length table \<and> table_lists hash table' (es @ fs)"
  using assms
proof (induction fs arbitrary: table es)
  case (Cons f fs)
  obtain k v where f: "f = (k, v)" by (cases f)
  have "k \<notin> fst ` set es" "length es < length table" using Cons.prems(2,3) by (auto simp: f)
  from probe_place_value [OF Cons.prems(1) this(2,1), of v] obtain t where t: "probe_place table k v (probe_slots (length table) (hash k)) = Some t"
    "length t = length table" "table_lists hash t (es @ [(k, v)])" by blast
  then show ?case using Cons.IH [OF t(3)] Cons.prems(2,3) by (auto simp: f)
qed simp

text \<open>A table may be filled from another one, in the order of its slots.\<close>

lemma distinct_map_set:
  assumes "distinct (map fst es)" "set fs = set es" "length fs = length es"
  shows "distinct (map fst fs)"
proof -
  have "card (set fs) = length fs" using assms distinct_card [of es] by (simp add: distinct_map)
  then have "distinct fs" by (rule card_distinct)
  moreover have "inj_on fst (set fs)" using assms(1,2) by (simp add: distinct_map)
  ultimately show ?thesis by (simp add: distinct_map)
qed

lemma table_lists_distinct: "table_lists hash table es \<Longrightarrow> distinct (map fst es)"
  unfolding table_lists_def by blast

lemma table_lists_slot:
  assumes "table_lists hash table es" "e \<in> set es"
  obtains s where "s < length table" "table ! s = Some e"
proof -
  have "capacity_ok (length table)" using assms(1) unfolding table_lists_def by blast
  from set_probe_slots [OF this] have slots: "set (probe_slots (length table) h) = {..<length table}" for h .
  obtain s where s: "s \<in> set (takeWhile (used table) (probe_slots (length table) (hash (fst e))))" "table ! s = Some e"
    using assms unfolding table_lists_def by blast
  then have "s < length table" using slots by (blast dest: set_takeWhileD)
  then show ?thesis using that s(2) by blast
qed

lemma in_live_entries: "e \<in> set (live_entries table) \<longleftrightarrow> Some e \<in> set table"
  unfolding live_entries_def by force

lemma live_entries_value:
  assumes "table_lists hash table es"
  shows "set (live_entries table) = set es" "distinct (map fst (live_entries table))" "length (live_entries table) = length es"
proof -
  show len: "length (live_entries table) = length es" using assms unfolding live_entries_def length_map table_lists_def by blast
  show set: "set (live_entries table) = set es"
  proof (intro set_eqI iffI)
    fix e
    show "e \<in> set es" if "e \<in> set (live_entries table)"
      using that table_listsD [OF assms] by (metis in_live_entries in_set_conv_nth)
    show "e \<in> set (live_entries table)" if e: "e \<in> set es"
    proof -
      obtain s where "s < length table" "table ! s = Some e" using table_lists_slot [OF assms e] .
      then show ?thesis by (metis in_live_entries nth_mem)
    qed
  qed
  show "distinct (map fst (live_entries table))" using table_lists_distinct [OF assms] set len by (rule distinct_map_set)
qed

lemma map_of_live: "table_lists hash table es \<Longrightarrow> map_of (live_entries table) = map_of es"
  using map_of_inject_set [OF live_entries_value(2) table_lists_distinct] live_entries_value(1) by blast

lemma map_of_snoc: "k \<notin> fst ` set xs \<Longrightarrow> map_of (xs @ [(k, v)]) = (map_of xs)(k \<mapsto> v)"
  by (induction xs) auto

lemma table_lists_live:
  assumes "table_lists hash table es"
  shows "table_lists hash table (live_entries table)"
  using assms live_entries_value [OF assms] unfolding table_lists_def by simp

lemma table_lists_grow:
  assumes "table_lists hash table es" "capacity_ok n" "length es \<le> n"
  shows "\<exists>table'. place_all hash (replicate n None) (live_entries table) = Some table' \<and> length table' = n
    \<and> table_lists hash table' (live_entries table)"
  using place_all_value [OF table_lists_empty [OF assms(2), of hash], of "live_entries table"] live_entries_value [OF assms(1)] assms(3)
  by auto

end
