(* ===== verification/Gray_Map.thy ===== *)
theory Gray_Map
  imports Elements Probing
begin

text \<open>
  The hash map of the runtime (\<open>runtime/map.c\<close>): an open-addressing table with linear probing, FNV-1a
  hashing, tombstones, and an array of slots in insertion order, whose removed entries are holes.

  The four parallel arrays of a map and its order array are lists. Memory the arena hands out
  uninitialised starts as empty elements and zeros. Arenas are below the model, and so a map is a
  value: a copy shares nothing. The sizes are natural numbers; the source's \<open>int32_t\<close> arithmetic
  agrees with them as long as three times the capacity fits, which the bounds of the theorems ensure.
\<close>

datatype slot_state = Empty | Occupied | Tombstone

record gray_map =
  map_keys :: "element list"
  map_values :: "element list"
  map_states :: "slot_state list"
  map_order :: "int list"
  map_order_position :: "nat list"
  map_count :: nat
  map_capacity :: nat
  map_key_size :: nat
  map_value_size :: nat
  map_order_len :: nat
  map_iterating :: nat
  map_key_kind :: GrayElemKind
  map_value_kind :: GrayElemKind

definition GRAY_MAP_MIN_CAPACITY :: nat where "GRAY_MAP_MIN_CAPACITY = 8"
definition GRAY_MAP_LOAD_NUMERATOR :: nat where "GRAY_MAP_LOAD_NUMERATOR = 3"
definition GRAY_MAP_LOAD_DENOMINATOR :: nat where "GRAY_MAP_LOAD_DENOMINATOR = 4"

subsection \<open>Hashing and comparing keys\<close>

text \<open>The seed is drawn once per process.\<close>

fun hash_loop :: "u8 list \<Rightarrow> u64 \<Rightarrow> u64" where
  "hash_loop [] hash = hash"
| "hash_loop (b # bs) hash = hash_loop bs ((hash XOR ucast b) * 1099511628211)"

definition hash_bytes :: "u64 \<Rightarrow> u8 list \<Rightarrow> u64" where
  "hash_bytes seed bs = hash_loop bs (14695981039346656037 XOR seed)"

definition normal_bits :: "u64 \<Rightarrow> u64" where
  "normal_bits bits = (if f64_equal bits 0 then 0 else if f64_is_nan bits then 0x7FF8000000000000 else bits)"

definition hash_f64 :: "u64 \<Rightarrow> u64 \<Rightarrow> u64" where
  "hash_f64 seed bits = hash_bytes seed (store 8 (uint (normal_bits bits)))"

definition floats_equal_f64 :: "u64 \<Rightarrow> u64 \<Rightarrow> bool" where
  "floats_equal_f64 left right \<longleftrightarrow>
     (if f64_equal left 0 \<and> f64_equal right 0 then True
      else if f64_is_nan left \<and> f64_is_nan right then True
      else f64_equal left right)"

definition hash_key :: "u64 \<Rightarrow> nat \<Rightarrow> GrayElemKind \<Rightarrow> element \<Rightarrow> u64" where
  "hash_key seed width kind key = (case kind of
     GRAY_ELEM_STRING \<Rightarrow> hash_bytes seed key
   | GRAY_ELEM_F64 \<Rightarrow> hash_f64 seed (load_f64 key)
   | GRAY_ELEM_F32 \<Rightarrow> hash_f64 seed (load_f32 key)
   | _ \<Rightarrow> hash_bytes seed (bytes_at width key))"

definition keys_equal :: "nat \<Rightarrow> GrayElemKind \<Rightarrow> element \<Rightarrow> element \<Rightarrow> bool" where
  "keys_equal width kind left right = (case kind of
     GRAY_ELEM_STRING \<Rightarrow> length left = length right \<and> memcmp (length left) left right = 0
   | GRAY_ELEM_F64 \<Rightarrow> floats_equal_f64 (load_f64 left) (load_f64 right)
   | GRAY_ELEM_F32 \<Rightarrow> floats_equal_f64 (load_f32 left) (load_f32 right)
   | _ \<Rightarrow> memcmp width left right = 0)"

subsection \<open>Storing\<close>

text \<open>A string is copied whole, into the map's arena; any other element is copied by its size.\<close>

definition stored :: "GrayElemKind \<Rightarrow> nat \<Rightarrow> element \<Rightarrow> element" where
  "stored kind width e = (if kind = GRAY_ELEM_STRING then e else bytes_at width e)"

definition store_key :: "gray_map \<Rightarrow> nat \<Rightarrow> element \<Rightarrow> gray_map" where
  "store_key m slot key = m\<lparr>map_keys := (map_keys m)[slot := stored (map_key_kind m) (map_key_size m) key]\<rparr>"

definition store_value :: "gray_map \<Rightarrow> nat \<Rightarrow> element \<Rightarrow> gray_map" where
  "store_value m slot v = m\<lparr>map_values := (map_values m)[slot := stored (map_value_kind m) (map_value_size m) v]\<rparr>"

subsection \<open>Creation\<close>

function round_loop :: "nat \<Rightarrow> nat \<Rightarrow> nat" where
  "round_loop power_of_two capacity =
     (if 0 < power_of_two \<and> power_of_two < capacity then round_loop (power_of_two * 2) capacity else power_of_two)"
  by pat_completeness auto
termination
  by (relation "measure (\<lambda>(p, c). c - p)") auto

declare round_loop.simps [simp del]

definition gray_map_round_capacity :: "nat \<Rightarrow> nat" where
  "gray_map_round_capacity capacity =
     (if capacity < GRAY_MAP_MIN_CAPACITY then GRAY_MAP_MIN_CAPACITY
      else if 2 ^ 30 < capacity then 2 ^ 30
      else round_loop GRAY_MAP_MIN_CAPACITY capacity)"

definition gray_map_new_kind :: "nat \<Rightarrow> nat \<Rightarrow> nat \<Rightarrow> GrayElemKind \<Rightarrow> GrayElemKind \<Rightarrow> gray_map" where
  "gray_map_new_kind key_size value_size initial_capacity key_kind value_kind =
     (let initial_capacity = gray_map_round_capacity initial_capacity
      in \<lparr>map_keys = replicate initial_capacity [], map_values = replicate initial_capacity [],
          map_states = replicate initial_capacity Empty, map_order = replicate initial_capacity 0,
          map_order_position = replicate initial_capacity 0, map_count = 0, map_capacity = initial_capacity,
          map_key_size = key_size, map_value_size = value_size, map_order_len = 0, map_iterating = 0,
          map_key_kind = key_kind, map_value_kind = value_kind\<rparr>)"

subsection \<open>Lookup\<close>

text \<open>The slots a key is looked for in, from its home slot on: \<open>(index + i) & mask\<close> for each \<open>i\<close>.\<close>

definition probe_sequence :: "u64 \<Rightarrow> gray_map \<Rightarrow> element \<Rightarrow> nat list" where
  "probe_sequence seed m key =
     (let hash = hash_key seed (map_key_size m) (map_key_kind m) key;
          mask = map_capacity m - 1;
          index = unat (hash AND of_nat mask)
      in map (\<lambda>i. (index + i) AND mask) [0..<map_capacity m])"

definition key_at_slot :: "gray_map \<Rightarrow> element \<Rightarrow> nat \<Rightarrow> bool" where
  "key_at_slot m key slot \<longleftrightarrow> keys_equal (map_key_size m) (map_key_kind m) (map_keys m ! slot) key"

fun find_probe :: "gray_map \<Rightarrow> element \<Rightarrow> nat list \<Rightarrow> nat option" where
  "find_probe m key [] = None"
| "find_probe m key (probe # probes) =
     (if map_states m ! probe = Empty then None
      else if map_states m ! probe = Occupied \<and> key_at_slot m key probe then Some probe
      else find_probe m key probes)"

definition find_slot :: "u64 \<Rightarrow> gray_map \<Rightarrow> element \<Rightarrow> nat option" where
  "find_slot seed m key = find_probe m key (probe_sequence seed m key)"

definition gray_map_get :: "u64 \<Rightarrow> gray_map \<Rightarrow> element \<Rightarrow> element option" where
  "gray_map_get seed m key = map_option (\<lambda>slot. map_values m ! slot) (find_slot seed m key)"

definition gray_map_has :: "u64 \<Rightarrow> gray_map \<Rightarrow> element \<Rightarrow> bool" where
  "gray_map_has seed m key \<longleftrightarrow> find_slot seed m key \<noteq> None"

definition gray_map_get_str :: "u64 \<Rightarrow> gray_map \<Rightarrow> element \<Rightarrow> element option" where
  "gray_map_get_str seed m key = gray_map_get seed m key"

definition gray_map_key_at :: "gray_map \<Rightarrow> nat \<Rightarrow> element" where
  "gray_map_key_at m internal_index = map_keys m ! internal_index"

definition gray_map_value_at :: "gray_map \<Rightarrow> nat \<Rightarrow> element" where
  "gray_map_value_at m internal_index = map_values m ! internal_index"

subsection \<open>Insertion\<close>

definition map_insert_at :: "gray_map \<Rightarrow> nat \<Rightarrow> element \<Rightarrow> element \<Rightarrow> gray_map" where
  "map_insert_at m slot key v =
     (let m = store_value (store_key m slot key) slot v
      in m\<lparr>map_states := (map_states m)[slot := Occupied],
           map_order_position := (map_order_position m)[slot := map_order_len m],
           map_order := (map_order m)[map_order_len m := int slot],
           map_order_len := map_order_len m + 1,
           map_count := map_count m + 1\<rparr>)"

text \<open>The probe loop of \<open>gray_map_set\<close>, with the first tombstone seen so far.\<close>

fun set_probe :: "gray_map \<Rightarrow> element \<Rightarrow> element \<Rightarrow> nat option \<Rightarrow> nat list \<Rightarrow> gray_map" where
  "set_probe m key v first_tombstone [] =
     (case first_tombstone of Some slot \<Rightarrow> map_insert_at m slot key v | None \<Rightarrow> m)"
| "set_probe m key v first_tombstone (probe # probes) =
     (case map_states m ! probe of
        Tombstone \<Rightarrow> set_probe m key v (if first_tombstone = None then Some probe else first_tombstone) probes
      | Empty \<Rightarrow> map_insert_at m (case first_tombstone of Some slot \<Rightarrow> slot | None \<Rightarrow> probe) key v
      | Occupied \<Rightarrow>
          if key_at_slot m key probe then store_value m probe v
          else set_probe m key v first_tombstone probes)"

text \<open>The runs of \<open>gray_map_set\<close>: out of fuel, a panic, or the map after the call.\<close>

type_synonym map_run = "(string + gray_map) option"

definition bind_run :: "map_run \<Rightarrow> (gray_map \<Rightarrow> map_run) \<Rightarrow> map_run" where
  "bind_run r f = (case r of None \<Rightarrow> None | Some (Inl code) \<Rightarrow> Some (Inl code) | Some (Inr m) \<Rightarrow> f m)"

text \<open>\<open>set_entry\<close> is the call of \<open>gray_map_set\<close> a rebuild makes for every entry, in insertion order.\<close>

fun reinsert :: "(gray_map \<Rightarrow> element \<Rightarrow> element \<Rightarrow> map_run) \<Rightarrow> gray_map \<Rightarrow> int list \<Rightarrow> gray_map \<Rightarrow> map_run" where
  "reinsert set_entry old [] m = Some (Inr m)"
| "reinsert set_entry old (slot # slots) m =
     (if 0 \<le> slot \<and> map_states old ! nat slot = Occupied
      then bind_run (set_entry m (map_keys old ! nat slot) (map_values old ! nat slot)) (reinsert set_entry old slots)
      else reinsert set_entry old slots m)"

definition map_rebuild :: "(gray_map \<Rightarrow> element \<Rightarrow> element \<Rightarrow> map_run) \<Rightarrow> gray_map \<Rightarrow> nat \<Rightarrow> map_run" where
  "map_rebuild set_entry m new_capacity =
     (let new_capacity = gray_map_round_capacity new_capacity
      in reinsert set_entry m (take (map_order_len m) (map_order m))
           (m\<lparr>map_capacity := new_capacity, map_keys := replicate new_capacity [],
              map_values := replicate new_capacity [], map_states := replicate new_capacity Empty,
              map_order := replicate new_capacity 0, map_order_position := replicate new_capacity 0,
              map_count := 0, map_order_len := 0\<rparr>))"

primrec gray_map_set :: "nat \<Rightarrow> u64 \<Rightarrow> gray_map \<Rightarrow> element \<Rightarrow> element \<Rightarrow> map_run" where
  "gray_map_set 0 seed m key v = None"
| "gray_map_set (Suc fuel) seed m key v =
     (if 0 < map_iterating m
      then (case find_slot seed m key of
              None \<Rightarrow> Some (Inl ''P0035'')
            | Some existing \<Rightarrow> Some (Inr (store_value m existing v)))
      else bind_run
        (if map_capacity m * GRAY_MAP_LOAD_NUMERATOR \<le> map_count m * GRAY_MAP_LOAD_DENOMINATOR
         then map_rebuild (gray_map_set fuel seed) m (map_capacity m * 2) else Some (Inr m))
        (\<lambda>m. bind_run
          (if map_capacity m \<le> map_order_len m
           then map_rebuild (gray_map_set fuel seed) m (map_capacity m) else Some (Inr m))
          (\<lambda>m. Some (Inr (set_probe m key v None (probe_sequence seed m key))))))"

declare gray_map_set.simps [simp del]

subsection \<open>Removal, clearing and copying\<close>

definition gray_map_remove :: "u64 \<Rightarrow> gray_map \<Rightarrow> element \<Rightarrow> (gray_map \<times> bool) panicking" where
  "gray_map_remove seed m key =
     (if 0 < map_iterating m then Inl ''P0035''
      else case find_slot seed m key of
        None \<Rightarrow> Inr (m, False)
      | Some index \<Rightarrow>
          (let m = m\<lparr>map_states := (map_states m)[index := Tombstone], map_count := map_count m - 1\<rparr>;
               order_index = map_order_position m ! index
           in Inr (if order_index < map_order_len m \<and> map_order m ! order_index = int index
                   then m\<lparr>map_order := (map_order m)[order_index := - 1]\<rparr> else m, True)))"

definition gray_map_clear :: "gray_map \<Rightarrow> gray_map panicking" where
  "gray_map_clear m =
     (if 0 < map_iterating m then Inl ''P0035''
      else Inr (m\<lparr>map_states := replicate (map_capacity m) Empty, map_count := 0, map_order_len := 0\<rparr>))"

text \<open>A copy duplicates every array and the text of its string keys, and starts without an iteration.\<close>

definition gray_map_copy :: "gray_map \<Rightarrow> gray_map" where
  "gray_map_copy source = source\<lparr>map_iterating := 0\<rparr>"

end
