(* ===== verification/Element_Values.thy ===== *)
theory Element_Values
  imports Elements
begin

text \<open>
  What the element helpers compute: the comparison orders elements by a rank, the equality is
  equality of ranks but for NaN, and the hash respects it.
\<close>

subsection \<open>Memory\<close>

lemma length_bytes_at [simp]: "length (bytes_at n e) = n"
  by (simp add: bytes_at_def)

lemma bytes_at_length: "length e = n \<Longrightarrow> bytes_at n e = e"
  by (simp add: bytes_at_def)

lemma bytes_at_self [simp]: "bytes_at (length e) e = e"
  by (simp add: bytes_at_def)

lemma bytes_at_prefix: "n \<le> length e \<Longrightarrow> bytes_at n e = take n e"
  by (simp add: bytes_at_def)

lemma byte_less: "uint (b :: u8) < 256"
  using unsigned_less [of b, where 'a = int] by simp

lemma horner_bytes: "0 \<le> horner_sum uint 256 (bs :: u8 list) \<and> horner_sum uint 256 bs < 256 ^ length bs"
proof (induction bs)
  case (Cons b bs)
  then show ?case using byte_less [of b] by simp
qed simp

lemma horner_bytes_eq: "length as = length bs \<Longrightarrow>
    horner_sum uint 256 (as :: u8 list) = horner_sum uint 256 bs \<longleftrightarrow> as = bs"
proof (induction as bs rule: list_induct2)
  case (Cons a as b bs)
  have digits: "uint a = (uint a + horner_sum uint 256 as * 256) mod 256"
    "horner_sum uint 256 as = (uint a + horner_sum uint 256 as * 256) div 256" for a :: u8 and as :: "u8 list"
    using byte_less [of a] by simp_all
  show ?case using Cons digits [where a = a and as = as] digits [where a = b and as = bs] by (auto simp: mult.commute word_uint_eq_iff)
qed simp

lemma load_u_bounds: "0 \<le> load_u n e" "load_u n e < 256 ^ n"
  using horner_bytes [of "bytes_at n e"] by (simp_all add: load_u_def)

lemma load_u_eq: "load_u n a = load_u n b \<longleftrightarrow> bytes_at n a = bytes_at n b"
  by (simp add: load_u_def horner_bytes_eq)

lemma load_s_eq:
  assumes "0 < n"
  shows "load_s n a = load_s n b \<longleftrightarrow> bytes_at n a = bytes_at n b"
proof -
  have n: "Suc (8 * n - 1) = 8 * n" using assms by simp
  have "take_bit (8 * n) (load_u n e) = load_u n e" for e
    using load_u_bounds [of n e] by (simp add: take_bit_int_eq_self power_mult [of 2 8])
  then have "signed_take_bit (8 * n - 1) (load_u n a) = signed_take_bit (8 * n - 1) (load_u n b) \<longleftrightarrow> load_u n a = load_u n b"
    unfolding signed_take_bit_eq_iff_take_bit_eq n by simp
  then show ?thesis by (simp add: load_s_def load_u_eq)
qed

lemma load_limb_eq: "load_limb i a = load_limb i b \<longleftrightarrow> bytes_at 8 (drop (8 * i) a) = bytes_at 8 (drop (8 * i) b)"
proof -
  have "uint (load_limb i e) = load_u 8 (drop (8 * i) e)" for e
    using load_u_bounds [of 8 "drop (8 * i) e"] by (simp add: load_limb_def uint_word_of_int)
  then show ?thesis by (simp add: word_uint_eq_iff load_u_eq)
qed

subsection \<open>Three-way comparisons\<close>

text \<open>What a sort or a search needs of a comparison function with a negative, zero or positive result.\<close>

locale three_way =
  fixes cmp :: "'a \<Rightarrow> 'a \<Rightarrow> int"
  assumes flip: "cmp y x = - cmp x y"
    and le_trans: "cmp x y \<le> 0 \<Longrightarrow> cmp y z \<le> 0 \<Longrightarrow> cmp x z \<le> 0"
begin

lemma same: "cmp x x = 0"
  using flip [of x x] by simp

lemma total: "cmp x y \<le> 0 \<or> cmp y x \<le> 0"
  using flip [of x y] by linarith

lemma less_trans: "cmp x y < 0 \<Longrightarrow> cmp y z \<le> 0 \<Longrightarrow> cmp x z < 0"
  using le_trans [of x y z] le_trans [of y z x] flip [of x y] flip [of x z] by fastforce

lemma equal_trans: "cmp x y = 0 \<Longrightarrow> cmp y z = 0 \<Longrightarrow> cmp x z = 0"
  using le_trans [of x y z] le_trans [of z y x] flip [of x y] flip [of y z] flip [of x z] by simp

end

lemma GRAY_ORDER_cases: "GRAY_ORDER a b = (if a < b then - 1 else if a = b then 0 else 1)"
  by (auto simp: GRAY_ORDER_def)

lemma GRAY_ORDER_eq [simp]: "GRAY_ORDER a b = 0 \<longleftrightarrow> a = b"
  by (auto simp: GRAY_ORDER_cases)

lemma GRAY_ORDER_same [simp]: "GRAY_ORDER a a = 0"
  by simp

interpretation order: three_way "GRAY_ORDER :: 'a :: linorder \<Rightarrow> 'a \<Rightarrow> int"
  by unfold_locales (auto simp: GRAY_ORDER_cases split: if_splits)

subsection \<open>The rank of an element\<close>

text \<open>
  Numbers rank by their value, a NaN after every other float, strings by their bytes and then their
  length, and everything else by its bytes.
\<close>

definition elem_rank :: "GrayElemKind \<Rightarrow> nat \<Rightarrow> element \<Rightarrow> int list" where
  "elem_rank kind width e = (case kind of
     GRAY_ELEM_I8 \<Rightarrow> [load_s 1 e] | GRAY_ELEM_I16 \<Rightarrow> [load_s 2 e]
   | GRAY_ELEM_I32 \<Rightarrow> [load_s 4 e] | GRAY_ELEM_CHAR \<Rightarrow> [load_s 4 e] | GRAY_ELEM_I64 \<Rightarrow> [load_s 8 e]
   | GRAY_ELEM_U8 \<Rightarrow> [load_u 1 e] | GRAY_ELEM_BOOL \<Rightarrow> [load_u 1 e] | GRAY_ELEM_U16 \<Rightarrow> [load_u 2 e]
   | GRAY_ELEM_U32 \<Rightarrow> [load_u 4 e] | GRAY_ELEM_U64 \<Rightarrow> [load_u 8 e]
   | GRAY_ELEM_F32 \<Rightarrow> (if f64_is_nan (load_f32 e) then [1] else [0, f64_value (load_f32 e)])
   | GRAY_ELEM_F64 \<Rightarrow> (if f64_is_nan (load_f64 e) then [1] else [0, f64_value (load_f64 e)])
   | GRAY_ELEM_I128 \<Rightarrow> [i128_int (load_i128 e)] | GRAY_ELEM_U128 \<Rightarrow> [u128_int (load_u128 e)]
   | GRAY_ELEM_I256 \<Rightarrow> [i256_int (load_i256 e)] | GRAY_ELEM_U256 \<Rightarrow> [u256_int (load_u256 e)]
   | GRAY_ELEM_STRING \<Rightarrow> map uint e
   | _ \<Rightarrow> map uint (bytes_at width e))"

lemma GRAY_ORDER_Cons: "GRAY_ORDER (a # as) (b # bs) = (if a = b then GRAY_ORDER as bs else GRAY_ORDER a b)"
  by (auto simp: GRAY_ORDER_cases)

lemma GRAY_ORDER_single: "GRAY_ORDER [a] [b] = GRAY_ORDER a b"
  by (simp add: GRAY_ORDER_Cons)

lemma byte_order_rank:
  "length as = length bs \<Longrightarrow> GRAY_ORDER (byte_order as bs) 0 = GRAY_ORDER (map uint as) (map uint bs)"
proof (induction as bs rule: byte_order.induct)
  case (1 a as b bs)
  then show ?case by (cases "a = b") (auto simp: GRAY_ORDER_Cons GRAY_ORDER_cases word_uint_eq_iff)
qed auto

lemma memcmp_rank: "GRAY_ORDER (memcmp n a b) 0 = GRAY_ORDER (map uint (bytes_at n a)) (map uint (bytes_at n b))"
  by (simp add: memcmp_def byte_order_rank)

lemma memcmp_0: "memcmp n a b = 0 \<longleftrightarrow> bytes_at n a = bytes_at n b"
proof -
  have "memcmp n a b = 0 \<longleftrightarrow> GRAY_ORDER (memcmp n a b) 0 = 0" by simp
  also have "\<dots> \<longleftrightarrow> bytes_at n a = bytes_at n b"
    unfolding memcmp_rank by (simp add: inj_map_eq_map inj_def word_uint_eq_iff)
  finally show ?thesis .
qed

lemma float_order_rank:
  "float_order a b = GRAY_ORDER (if f64_is_nan a then [1 :: int] else [0, f64_value a])
     (if f64_is_nan b then [1] else [0, f64_value b])"
  by (simp add: float_order_def GRAY_ORDER_Cons) (simp add: GRAY_ORDER_cases)

lemma bytes_at_Suc: "bytes_at (Suc n) (a # as) = a # bytes_at n as" if "n \<le> length as"
  using that by (simp add: bytes_at_prefix)

lemma string_order_Cons:
  "string_order (a # as) (b # bs) = (if a = b then string_order as bs else GRAY_ORDER (uint a) (uint b))"
proof -
  let ?n = "if length as < length bs then length as else length bs"
  have "memcmp (Suc ?n) (a # as) (b # bs) = (if a = b then memcmp ?n as bs else uint a - uint b)"
    by (simp add: memcmp_def bytes_at_Suc)
  moreover have "memcmp 0 as bs = 0" by (simp add: memcmp_def bytes_at_def)
  moreover have "(if length (a # as) < length (b # bs) then length (a # as) else length (b # bs)) = Suc ?n" by simp
  ultimately show ?thesis unfolding string_order_def Let_def
    by (simp only:) (auto simp: GRAY_ORDER_cases word_uint_eq_iff)
qed

lemma Nil_less: "[] < (xs :: int list) \<longleftrightarrow> xs \<noteq> []"
  by (cases xs) simp_all

lemma string_order_rank: "string_order a b = GRAY_ORDER (map uint a) (map uint b)"
proof (induction a b rule: byte_order.induct)
  case (1 a as b bs)
  then show ?case by (simp add: string_order_Cons GRAY_ORDER_Cons word_uint_eq_iff)
qed (simp_all add: string_order_def GRAY_ORDER_cases Nil_less)

lemma wide_order_value: "(\<And>x y. lt x y \<longleftrightarrow> ival x < ival y) \<Longrightarrow> wide_order lt a b = GRAY_ORDER (ival a) (ival b :: int)"
  by (simp add: wide_order_def GRAY_ORDER_cases)

lemma elem_compare_rank:
  "gray_elem_compare kind width a b = GRAY_ORDER (elem_rank kind width a) (elem_rank kind width b)"
  by (cases kind)
    (simp_all add: gray_elem_compare_def elem_rank_def GRAY_ORDER_single memcmp_rank float_order_rank string_order_rank
      wide_order_value [of _ i128_int, OF i128_lt_value] wide_order_value [of _ u128_int, OF u128_lt_value]
      wide_order_value [of _ i256_int, OF i256_lt_value] wide_order_value [of _ u256_int, OF u256_lt_value])

interpretation elem: three_way "gray_elem_compare kind width" for kind width
  by unfold_locales (simp_all only: elem_compare_rank, rule order.flip, rule order.le_trans)

subsection \<open>Equality\<close>

fun kind_width :: "GrayElemKind \<Rightarrow> nat option" where
  "kind_width GRAY_ELEM_I8 = Some 1" | "kind_width GRAY_ELEM_U8 = Some 1" | "kind_width GRAY_ELEM_BOOL = Some 1"
| "kind_width GRAY_ELEM_I16 = Some 2" | "kind_width GRAY_ELEM_U16 = Some 2"
| "kind_width GRAY_ELEM_I32 = Some 4" | "kind_width GRAY_ELEM_U32 = Some 4"
| "kind_width GRAY_ELEM_CHAR = Some 4" | "kind_width GRAY_ELEM_F32 = Some 4"
| "kind_width GRAY_ELEM_I64 = Some 8" | "kind_width GRAY_ELEM_U64 = Some 8" | "kind_width GRAY_ELEM_F64 = Some 8"
| "kind_width GRAY_ELEM_I128 = Some 16" | "kind_width GRAY_ELEM_U128 = Some 16"
| "kind_width GRAY_ELEM_I256 = Some 32" | "kind_width GRAY_ELEM_U256 = Some 32"
| "kind_width _ = None"

definition width_ok :: "GrayElemKind \<Rightarrow> nat \<Rightarrow> bool" where
  "width_ok kind width \<longleftrightarrow> (case kind_width kind of Some n \<Rightarrow> width = n | None \<Rightarrow> True)"

definition is_nan :: "GrayElemKind \<Rightarrow> element \<Rightarrow> bool" where
  "is_nan kind e \<longleftrightarrow> kind = GRAY_ELEM_F32 \<and> f64_is_nan (load_f32 e) \<or> kind = GRAY_ELEM_F64 \<and> f64_is_nan (load_f64 e)"

lemma bytes_at_map: "bytes_at n e = map (\<lambda>i. if i < length e then e ! i else 0) [0..<n]"
  by (rule nth_equalityI) (auto simp: bytes_at_def nth_append)

lemma bytes_at_add: "bytes_at (m + n) e = bytes_at m e @ bytes_at n (drop m e)"
  unfolding bytes_at_map upt_add_eq_append [OF le0] map_append
  by (auto intro!: nth_equalityI simp: nth_append)

lemma bytes_limbs:
  "bytes_at 16 a = bytes_at 16 b \<longleftrightarrow> load_limb 0 a = load_limb 0 b \<and> load_limb 1 a = load_limb 1 b"
  "bytes_at 32 a = bytes_at 32 b \<longleftrightarrow> load_limb 0 a = load_limb 0 b \<and> load_limb 1 a = load_limb 1 b
     \<and> load_limb 2 a = load_limb 2 b \<and> load_limb 3 a = load_limb 3 b"
  using bytes_at_add [of 8 8 a] bytes_at_add [of 8 8 b] bytes_at_add [of 8 24 a] bytes_at_add [of 8 24 b]
    bytes_at_add [of 8 16 "drop 8 a"] bytes_at_add [of 8 16 "drop 8 b"]
    bytes_at_add [of 8 8 "drop 16 a"] bytes_at_add [of 8 8 "drop 16 b"]
  by (simp_all add: load_limb_eq)

lemma wide_ranks:
  "load_i128 a = load_i128 b \<longleftrightarrow> bytes_at 16 a = bytes_at 16 b"
  "load_u128 a = load_u128 b \<longleftrightarrow> bytes_at 16 a = bytes_at 16 b"
  "load_i256 a = load_i256 b \<longleftrightarrow> bytes_at 32 a = bytes_at 32 b"
  "load_u256 a = load_u256 b \<longleftrightarrow> bytes_at 32 a = bytes_at 32 b"
  by (simp_all add: load_i128_def load_u128_def load_i256_def load_u256_def bytes_limbs)

lemma map_uint_eq: "map uint as = map uint (bs :: u8 list) \<longleftrightarrow> as = bs"
  by (rule inj_map_eq_map) (simp add: inj_def word_uint_eq_iff)

lemma string_equal: "length a = length b \<and> (length a = 0 \<or> memcmp (length a) a b = 0) \<longleftrightarrow> a = b"
  using bytes_at_length [of b "length a"] by (auto simp: memcmp_0)

lemma elem_equal_rank:
  assumes "width_ok kind width"
  shows "gray_elem_equal kind width a b \<longleftrightarrow> elem_rank kind width a = elem_rank kind width b \<and> \<not> is_nan kind a"
  using assms
  by (cases kind) (auto simp: gray_elem_equal_def elem_rank_def is_nan_def width_ok_def memcmp_0 f64_equal_def
      load_u_eq load_s_eq wide_ranks map_uint_eq string_equal)

subsection \<open>Hashing\<close>

lemma f64_value_0: "f64_value 0 = 0" "\<not> f64_is_nan 0"
  by (simp_all add: f64_value_def float_value_def f64_is_nan_def)

lemma load_word_eq: "word_of_int (load_u 8 a) = (word_of_int (load_u 8 b) :: u64) \<longleftrightarrow> bytes_at 8 a = bytes_at 8 b"
  using load_limb_eq [of 0 a b] by (simp add: load_limb_def)

lemma load_f32_eq:
  assumes "f64_equal (load_f32 a) (load_f32 b)" "f64_value (load_f32 a) \<noteq> 0"
  shows "bytes_at 4 a = bytes_at 4 b"
proof -
  have "word_of_int (load_u 4 a) = (word_of_int (load_u 4 b) :: u32)"
    using assms by (intro f32_equal_bits) (simp_all add: f64_equal_def load_f32_def f32_to_f64_nan)
  moreover have "uint (word_of_int (load_u 4 e) :: u32) = load_u 4 e" for e
    using load_u_bounds [of 4 e] by (simp add: uint_word_of_int)
  ultimately show ?thesis by (metis load_u_eq)
qed

lemma load_f64_eq: "f64_equal (load_f64 a) (load_f64 b) \<Longrightarrow> f64_value (load_f64 a) \<noteq> 0 \<Longrightarrow> bytes_at 8 a = bytes_at 8 b"
  using f64_value_eq [of "load_f64 a" "load_f64 b"] by (simp add: f64_equal_def load_f64_def load_word_eq)

lemma f64_equal_0: "f64_equal x y \<Longrightarrow> f64_equal x 0 = f64_equal y 0"
  by (auto simp: f64_equal_def)

lemma elem_equal_hash:
  assumes "gray_elem_equal kind width a b"
  shows "gray_elem_hash kind width a = gray_elem_hash kind width b"
proof (cases "kind = GRAY_ELEM_F32 \<or> kind = GRAY_ELEM_F64")
  case True
  then show ?thesis using assms load_f32_eq [of a b] load_f64_eq [of a b] f64_equal_0 [of "load_f32 a" "load_f32 b"]
      f64_equal_0 [of "load_f64 a" "load_f64 b"] f64_value_0
    by (auto simp: gray_elem_equal_def gray_elem_hash_def f64_equal_def Let_def)
next
  case False
  moreover have "kind = GRAY_ELEM_STRING \<Longrightarrow> a = b"
    using assms string_equal [of a b] by (simp only: gray_elem_equal_def GrayElemKind.case)
  ultimately show ?thesis using assms
    by (cases kind) (simp_all add: gray_elem_equal_def gray_elem_hash_def memcmp_0 Let_def)
qed

subsection \<open>Sums\<close>

lemma length_store [simp]: "length (store n k) = n"
  by (simp add: store_def)

lemma load_store: "load_u n (store n k) = k mod 256 ^ n"
proof -
  have "horner_sum uint 256 (map (\<lambda>i. word_of_int (k div 256 ^ i) :: u8) [0..<n]) = k mod 256 ^ n"
  proof (induction n arbitrary: k)
    case (Suc n)
    have "map (\<lambda>i. word_of_int (k div 256 ^ i) :: u8) [0..<Suc n] =
        word_of_int k # map (\<lambda>i. word_of_int (k div 256 div 256 ^ i)) [0..<n]"
      unfolding upt_conv_Cons [OF zero_less_Suc] by (simp add: map_Suc_upt [symmetric] zdiv_zmult2_eq del: upt_Suc)
    moreover have "k mod 256 ^ Suc n = k mod 256 + 256 * (k div 256 mod 256 ^ n)"
      by (simp add: zmod_zmult2_eq)
    ultimately show ?case using Suc [of "k div 256"] by (simp add: uint_word_of_int del: upt_Suc)
  qed simp
  then show ?thesis by (simp add: load_u_def bytes_at_length) (simp add: store_def)
qed

lemma exact_or_panic_map:
  assumes "exact_or_panic val lo hi code k r" "\<And>c. lo \<le> val c \<Longrightarrow> val c < hi \<Longrightarrow> val' (f c) = val c"
  shows "exact_or_panic val' lo hi code k (map_sum id f r)"
  using assms by (auto simp: exact_or_panic_def split: sum.splits if_splits)

lemma load_s_store:
  assumes "0 < n" "n \<le> 8" "- (2 ^ (8 * n - 1)) \<le> sint (w :: i64)" "sint w < 2 ^ (8 * n - 1)"
  shows "load_s n (store n (uint w)) = sint w"
proof -
  have "uint w mod 256 ^ n = take_bit (8 * n) (uint w)" by (simp add: take_bit_eq_mod power_mult)
  also have "\<dots> = take_bit (8 * n) (sint w)"
    using assms(2) by (simp add: uint_sint min_def)
  moreover have "\<not> 8 * n \<le> 8 * n - 1" using assms(1) by linarith
  ultimately have "load_s n (store n (uint w)) = signed_take_bit (8 * n - 1) (sint w)"
    by (simp add: load_s_def load_store signed_take_bit_take_bit)
  then show ?thesis using assms by (simp add: signed_take_bit_int_eq_self)
qed

lemma load_u_store:
  assumes "n \<le> 8" "uint (w :: u64) < 256 ^ n"
  shows "load_u n (store n (uint w)) = uint w"
  using assms by (simp add: load_store)

lemma load_s_bounds:
  "0 < n \<Longrightarrow> - (2 ^ (8 * n - 1)) \<le> load_s n e" "0 < n \<Longrightarrow> load_s n e < 2 ^ (8 * n - 1)"
  by (simp_all add: load_s_def signed_take_bit_int_greater_eq_minus_exp signed_take_bit_int_less_exp)

lemma sint_small: "fits_i64 k \<Longrightarrow> sint (word_of_int k :: i64) = k"
  by (simp add: fits_i64_def sint_sbintrunc' signed_take_bit_int_eq_self)

lemma signed_sum_value:
  assumes "n \<in> {1, 2, 4}"
  shows "exact_or_panic (load_s n) (- (2 ^ (8 * n - 1))) (2 ^ (8 * n - 1)) ''P0011'' (load_s n acc + load_s n e) (signed_sum n acc e)"
proof -
  have n: "0 < n" "n \<le> 8" using assms by auto
  let ?a = "word_of_int (load_s n acc) :: i64" and ?b = "word_of_int (load_s n e) :: i64"
  note b = load_s_bounds [OF n(1), of acc] load_s_bounds [OF n(1), of e]
  have ab: "fits_i64 (load_s n acc)" "fits_i64 (load_s n e)" "fits_i64 (load_s n acc + load_s n e)"
    using assms b by (auto simp: fits_i64_def)
  have "sint (- (2 ^ (8 * n - 1)) :: i64) = - (2 ^ (8 * n - 1))" "sint (2 ^ (8 * n - 1) - 1 :: i64) + 1 = 2 ^ (8 * n - 1)"
    using assms by auto
  moreover have "sint (?a + ?b) = signed_take_bit 63 (load_s n acc + load_s n e)"
    using ab by (simp add: sint_wrap sint_small)
  ultimately have "exact_or_panic sint (- (2 ^ (8 * n - 1))) (2 ^ (8 * n - 1)) ''P0011'' (load_s n acc + load_s n e)
      (gray_sized_add_check ?a ?b (- (2 ^ (8 * n - 1))) (2 ^ (8 * n - 1) - 1))"
    using sized_check_value [OF ab(3), of "?a + ?b" "- (2 ^ (8 * n - 1))" "2 ^ (8 * n - 1) - 1" "''P0011''"]
    by (simp only: gray_sized_add_check_def)
  then show ?thesis unfolding signed_sum_def
    by (rule exact_or_panic_map) (rule load_s_store [OF n])
qed

lemma unsigned_sum_value:
  assumes "n \<in> {1, 2, 4}"
  shows "exact_or_panic (load_u n) 0 (2 ^ (8 * n)) ''P0015'' (load_u n acc + load_u n e) (unsigned_sum n acc e)"
proof -
  have n: "n \<le> 8" "256 ^ n = (2 :: int) ^ (8 * n)" using assms by (auto simp: power_mult)
  let ?a = "word_of_int (load_u n acc) :: i64" and ?b = "word_of_int (load_u n e) :: i64"
  note b = load_u_bounds [of n acc] load_u_bounds [of n e]
  have ab: "fits_i64 (load_u n acc)" "fits_i64 (load_u n e)" "fits_i64 (load_u n acc + load_u n e)"
    using assms b by (auto simp: fits_i64_def)
  have "uint (2 ^ (8 * n) - 1 :: u64) + 1 = 2 ^ (8 * n)" using assms by auto
  moreover have "sint (?a + ?b) = signed_take_bit 63 (load_u n acc + load_u n e)"
    using ab by (simp add: sint_wrap sint_small)
  ultimately have "exact_or_panic uint 0 (2 ^ (8 * n)) ''P0015'' (load_u n acc + load_u n e)
      (gray_usized_add_check ?a ?b (2 ^ (8 * n) - 1))"
    using usized_check_value [OF ab(3), of "?a + ?b" "''P0015''" "2 ^ (8 * n) - 1"] b
    by (simp add: gray_usized_add_check_def)
  then show ?thesis unfolding unsigned_sum_def
    by (rule exact_or_panic_map) (rule load_u_store [OF n(1)], simp add: n(2))
qed

text \<open>Loading limbs that were stored.\<close>

lemma load_u_store_append: "load_u n (store n k @ e) = k mod 256 ^ n"
  using load_store [of n k] by (simp add: load_u_def bytes_at_def)

lemma load_limbs_stored:
  "load_limb 0 (store_limbs (w # ws)) = w"
  "load_limb (Suc i) (store_limbs (w # ws)) = load_limb i (store_limbs ws)"
proof -
  have "word_of_int (uint w mod 256 ^ 8) = w" by (simp add: word_uint_eq_iff uint_word_of_int)
  then show "load_limb 0 (store_limbs (w # ws)) = w" by (simp add: load_limb_def store_limbs_def load_u_store_append)
  show "load_limb (Suc i) (store_limbs (w # ws)) = load_limb i (store_limbs ws)"
    by (simp add: load_limb_def store_limbs_def)
qed

lemma load_wide_stored:
  "load_i128 (store_limbs [i128_low v, i128_high v]) = v"
  "load_u128 (store_limbs [u128_low u, u128_high u]) = u"
  "load_i256 (store_limbs [i256_w0 x, i256_w1 x, i256_w2 x, i256_w3 x]) = x"
  "load_u256 (store_limbs [u256_w0 y, u256_w1 y, u256_w2 y, u256_w3 y]) = y"
  by (simp_all add: load_i128_def load_u128_def load_i256_def load_u256_def eval_nat_numeral load_limbs_stored)

lemma load_limb_0:
  "sint (load_limb 0 e) = load_s 8 e" "uint (load_limb 0 e) = load_u 8 e"
  using load_u_bounds [of 8 e]
  by (simp_all add: load_limb_def load_s_def sint_sbintrunc' uint_word_of_int)

subsection \<open>The sum of two elements\<close>

text \<open>For each integer kind its value, its range and the panic of its addition.\<close>

fun int_kind :: "GrayElemKind \<Rightarrow> ((element \<Rightarrow> int) \<times> int \<times> int \<times> string) option" where
  "int_kind GRAY_ELEM_I8 = Some (load_s 1, - (2 ^ 7), 2 ^ 7, ''P0011'')"
| "int_kind GRAY_ELEM_I16 = Some (load_s 2, - (2 ^ 15), 2 ^ 15, ''P0011'')"
| "int_kind GRAY_ELEM_I32 = Some (load_s 4, - (2 ^ 31), 2 ^ 31, ''P0011'')"
| "int_kind GRAY_ELEM_I64 = Some (load_s 8, - (2 ^ 63), 2 ^ 63, ''P0004'')"
| "int_kind GRAY_ELEM_U8 = Some (load_u 1, 0, 2 ^ 8, ''P0015'')"
| "int_kind GRAY_ELEM_U16 = Some (load_u 2, 0, 2 ^ 16, ''P0015'')"
| "int_kind GRAY_ELEM_U32 = Some (load_u 4, 0, 2 ^ 32, ''P0015'')"
| "int_kind GRAY_ELEM_U64 = Some (load_u 8, 0, 2 ^ 64, ''P0008'')"
| "int_kind GRAY_ELEM_I128 = Some (i128_int \<circ> load_i128, - (2 ^ 127), 2 ^ 127, ''P0021'')"
| "int_kind GRAY_ELEM_U128 = Some (u128_int \<circ> load_u128, 0, 2 ^ 128, ''P0024'')"
| "int_kind GRAY_ELEM_I256 = Some (i256_int \<circ> load_i256, - (2 ^ 255), 2 ^ 255, ''P0027'')"
| "int_kind GRAY_ELEM_U256 = Some (u256_int \<circ> load_u256, 0, 2 ^ 256, ''P0030'')"
| "int_kind _ = None"

lemma word_sums:
  "exact_or_panic (load_s 8) (- (2 ^ 63)) (2 ^ 63) ''P0004'' (load_s 8 acc + load_s 8 e)
     (map_sum id (\<lambda>w. store 8 (uint w)) (gray_add_check (load_limb 0 acc) (load_limb 0 e)))"
  "exact_or_panic (load_u 8) 0 (2 ^ 64) ''P0008'' (load_u 8 acc + load_u 8 e)
     (map_sum id (\<lambda>w. store 8 (uint w)) (gray_uadd_check (load_limb 0 acc) (load_limb 0 e)))"
proof -
  show "exact_or_panic (load_s 8) (- (2 ^ 63)) (2 ^ 63) ''P0004'' (load_s 8 acc + load_s 8 e)
      (map_sum id (\<lambda>w. store 8 (uint w)) (gray_add_check (load_limb 0 acc) (load_limb 0 e)))"
    using checked_i64_values(1) [of "load_limb 0 acc" "load_limb 0 e", unfolded load_limb_0]
    by (rule exact_or_panic_map) (rule load_s_store, simp_all)
  show "exact_or_panic (load_u 8) 0 (2 ^ 64) ''P0008'' (load_u 8 acc + load_u 8 e)
      (map_sum id (\<lambda>w. store 8 (uint w)) (gray_uadd_check (load_limb 0 acc) (load_limb 0 e)))"
    using checked_u64_values(1) [of "load_limb 0 acc" "load_limb 0 e", unfolded load_limb_0]
    by (rule exact_or_panic_map) (rule load_u_store, simp_all)
qed

lemma wide_sums:
  "exact_or_panic (i128_int \<circ> load_i128) (- (2 ^ 127)) (2 ^ 127) ''P0021'' (i128_int (load_i128 acc) + i128_int (load_i128 e))
     (map_sum id (\<lambda>v. store_limbs [i128_low v, i128_high v]) (gray_i128_add_checked (load_i128 acc) (load_i128 e)))"
  "exact_or_panic (u128_int \<circ> load_u128) 0 (2 ^ 128) ''P0024'' (u128_int (load_u128 acc) + u128_int (load_u128 e))
     (map_sum id (\<lambda>v. store_limbs [u128_low v, u128_high v]) (gray_u128_add_checked (load_u128 acc) (load_u128 e)))"
  "exact_or_panic (i256_int \<circ> load_i256) (- (2 ^ 255)) (2 ^ 255) ''P0027'' (i256_int (load_i256 acc) + i256_int (load_i256 e))
     (map_sum id (\<lambda>v. store_limbs [i256_w0 v, i256_w1 v, i256_w2 v, i256_w3 v]) (gray_i256_add_checked (load_i256 acc) (load_i256 e)))"
  "exact_or_panic (u256_int \<circ> load_u256) 0 (2 ^ 256) ''P0030'' (u256_int (load_u256 acc) + u256_int (load_u256 e))
     (map_sum id (\<lambda>v. store_limbs [u256_w0 v, u256_w1 v, u256_w2 v, u256_w3 v]) (gray_u256_add_checked (load_u256 acc) (load_u256 e)))"
  unfolding gray_i128_add_checked_def gray_u128_add_checked_def gray_i256_add_checked_def gray_u256_add_checked_def
  by (rule exact_or_panic_map, rule i128.sadd_checked u128.add_checked i256.sadd_checked u256.add_checked, simp add: load_wide_stored)+

lemma elem_add_value:
  assumes "int_kind kind = Some (ival, lo, hi, code)"
  shows "\<exists>r. gray_elem_add kind acc e = Some r \<and> exact_or_panic ival lo hi code (ival acc + ival e) r"
  using assms signed_sum_value [of 1 acc e] signed_sum_value [of 2 acc e] signed_sum_value [of 4 acc e]
    unsigned_sum_value [of 1 acc e] unsigned_sum_value [of 2 acc e] unsigned_sum_value [of 4 acc e]
    word_sums [of acc e] wide_sums [of acc e]
  by (cases kind) (auto simp: gray_elem_add_def)

end
