(* ===== verification/Map_Probing.thy ===== *)
theory Map_Probing
  imports Gray_Map Element_Values
begin

text \<open>
  Keys and probing: two keys are equal exactly when their canonical bytes are, the hash depends on
  those bytes alone, and a probe sequence visits every slot of the table.
\<close>

subsection \<open>Canonical keys\<close>

definition canon_key :: "nat \<Rightarrow> GrayElemKind \<Rightarrow> element \<Rightarrow> u8 list" where
  "canon_key width kind key = (case kind of
     GRAY_ELEM_STRING \<Rightarrow> key
   | GRAY_ELEM_F64 \<Rightarrow> store 8 (uint (normal_bits (load_f64 key)))
   | GRAY_ELEM_F32 \<Rightarrow> store 8 (uint (normal_bits (load_f32 key)))
   | _ \<Rightarrow> bytes_at width key)"

lemma hash_key_canon: "hash_key seed width kind key = hash_bytes seed (canon_key width kind key)"
  by (simp add: hash_key_def canon_key_def hash_f64_def split: GrayElemKind.splits)

lemma store_word_eq: "store 8 (uint a) = store 8 (uint (b :: u64)) \<longleftrightarrow> a = b"
proof
  assume "store 8 (uint a) = store 8 (uint b)"
  then have "uint a mod 256 ^ 8 = uint b mod 256 ^ 8" by (metis load_store)
  then show "a = b" by (simp add: word_uint_eq_iff)
qed simp

lemma floats_equal_normal: "floats_equal_f64 a b \<longleftrightarrow> normal_bits a = normal_bits b"
proof -
  have zero: "f64_equal x 0 \<longleftrightarrow> \<not> f64_is_nan x \<and> f64_value x = 0" for x by (simp add: f64_equal_def f64_value_0)
  have nan: "f64_is_nan 0x7FF8000000000000" by (simp add: f64_is_nan_def)
  have n: "normal_bits x = (if f64_is_nan x then 0x7FF8000000000000 else if f64_value x = 0 then 0 else x)" for x
    by (simp add: normal_bits_def zero)
  show ?thesis using f64_value_eq [of a b] nan f64_value_0
    by (auto simp: floats_equal_f64_def n zero f64_equal_def)
qed

lemma keys_equal_canon: "keys_equal width kind a b \<longleftrightarrow> canon_key width kind a = canon_key width kind b"
proof (cases "kind = GRAY_ELEM_STRING")
  case True
  then show ?thesis using bytes_at_length [of b "length a"] by (auto simp: keys_equal_def canon_key_def memcmp_0)
next
  case False
  then show ?thesis
    by (cases kind) (simp_all add: keys_equal_def canon_key_def floats_equal_normal store_word_eq memcmp_0)
qed

lemma bytes_at_twice: "bytes_at n (bytes_at n e) = bytes_at n e"
  by (rule bytes_at_length) simp

lemma canon_key_stored: "width_ok kind width \<Longrightarrow> canon_key width kind (stored kind width key) = canon_key width kind key"
  by (cases kind) (simp_all add: canon_key_def stored_def width_ok_def load_f64_def load_f32_def load_u_def bytes_at_twice)

lemma stored_twice: "stored kind width (stored kind width e) = stored kind width e"
  by (simp add: stored_def bytes_at_twice)

subsection \<open>Capacities\<close>

lemma round_loop_ok:
  "capacity_ok p \<Longrightarrow> p \<le> n \<Longrightarrow> capacity_ok (round_loop p n) \<and> n \<le> round_loop p n \<and> round_loop p n < 2 * n"
proof (induction p n rule: round_loop.induct)
  case (1 p n)
  have p: "0 < p" using capacity_okD(1) [OF 1(2)] by simp
  show ?case
  proof (cases "p < n")
    case True
    show ?thesis
    proof (cases "p * 2 \<le> n")
      case less: True
      have "capacity_ok (p * 2)" using 1(2) unfolding capacity_ok_def by (metis le_SucI mult.commute power_Suc)
      with 1(1) p True less have "capacity_ok (round_loop (p * 2) n) \<and> n \<le> round_loop (p * 2) n \<and> round_loop (p * 2) n < 2 * n" by blast
      then show ?thesis using p True by (simp add: round_loop.simps [of p])
    next
      case False
      have "capacity_ok (p * 2)" using 1(2) unfolding capacity_ok_def by (metis le_SucI mult.commute power_Suc)
      moreover have "round_loop p n = p * 2" using p True False by (simp add: round_loop.simps [of p] round_loop.simps [of "p * 2"])
      ultimately show ?thesis using True False by simp
    qed
  next
    case False
    then have "p = n" using 1(3) by simp
    moreover have "round_loop p n = p" using False by (subst round_loop.simps) simp
    ultimately show ?thesis using 1(2) p by simp
  qed
qed

lemma round_capacity_ok: "capacity_ok (gray_map_round_capacity n)"
proof -
  have "capacity_ok 8" "capacity_ok (2 ^ 30)" unfolding capacity_ok_def by (rule exI [of _ 3], simp) (rule exI [of _ 30], simp)
  then show ?thesis using round_loop_ok [of 8 n]
    by (simp add: gray_map_round_capacity_def GRAY_MAP_MIN_CAPACITY_def)
qed

lemma round_capacity_fixed: "capacity_ok n \<Longrightarrow> n \<le> 2 ^ 30 \<Longrightarrow> gray_map_round_capacity n = n"
proof -
  assume n: "capacity_ok n" "n \<le> 2 ^ 30"
  have "capacity_ok 8" unfolding capacity_ok_def by (rule exI [of _ 3]) simp
  then have "capacity_ok (round_loop 8 n)" "n \<le> round_loop 8 n" "round_loop 8 n < 2 * n"
    using round_loop_ok [of 8 n] capacity_okD(1) [OF n(1)] by auto
  then have "round_loop 8 n = n" using power_of_two_unique [OF n(1)] by blast
  then show ?thesis using n capacity_okD(1) [OF n(1)] by (simp add: gray_map_round_capacity_def GRAY_MAP_MIN_CAPACITY_def)
qed

lemma round_capacity_less: "8 < n \<Longrightarrow> n \<le> 2 ^ 30 \<Longrightarrow> gray_map_round_capacity n < 2 * n"
proof -
  assume n: "8 < n" "n \<le> 2 ^ 30"
  have "capacity_ok 8" unfolding capacity_ok_def by (rule exI [of _ 3]) simp
  then show ?thesis using n round_loop_ok [of 8 n] by (simp add: gray_map_round_capacity_def GRAY_MAP_MIN_CAPACITY_def)
qed

subsection \<open>The probe sequence\<close>

lemma length_probe_sequence [simp]: "length (probe_sequence seed m key) = map_capacity m"
  by (simp add: probe_sequence_def Let_def)

lemma set_probe_sequence:
  assumes "capacity_ok (map_capacity m)"
  shows "set (probe_sequence seed m key) = {..<map_capacity m}"
proof -
  define h where "h = unat (hash_key seed (map_key_size m) (map_key_kind m) key AND of_nat (map_capacity m - 1))"
  have "probe_sequence seed m key = map (\<lambda>i. (h + i) mod map_capacity m) [0..<map_capacity m]"
    by (simp only: probe_sequence_def Let_def h_def and_capacity [OF assms])
  then have "set (probe_sequence seed m key) = (\<lambda>i. (h + i) mod map_capacity m) ` {..<map_capacity m}"
    by (simp add: lessThan_atLeast0)
  also have "\<dots> = {..<map_capacity m}" using capacity_okD(1) [OF assms] by (intro all_slots) simp
  finally show ?thesis .
qed

lemma probe_sequence_cong:
  "map_capacity m' = map_capacity m \<Longrightarrow> map_key_size m' = map_key_size m \<Longrightarrow> map_key_kind m' = map_key_kind m \<Longrightarrow>
     probe_sequence seed m' key = probe_sequence seed m key"
  by (simp add: probe_sequence_def)

subsection \<open>The probe loops\<close>

abbreviation filled :: "gray_map \<Rightarrow> nat \<Rightarrow> bool" where
  "filled m slot \<equiv> map_states m ! slot \<noteq> Empty"

definition holds :: "gray_map \<Rightarrow> element \<Rightarrow> nat \<Rightarrow> bool" where
  "holds m key slot \<longleftrightarrow> map_states m ! slot = Occupied \<and> key_at_slot m key slot"

text \<open>Both loops look at the slots up to the first empty one.\<close>

lemma find_probe_find: "find_probe m key ps = find (holds m key) (takeWhile (filled m) ps)"
  by (induction ps) (simp_all add: holds_def)

definition insertion_slot :: "gray_map \<Rightarrow> nat list \<Rightarrow> nat option" where
  "insertion_slot m ps =
     (case find (\<lambda>p. map_states m ! p = Tombstone) (takeWhile (filled m) ps) of
        Some t \<Rightarrow> Some t
      | None \<Rightarrow> (case dropWhile (filled m) ps of [] \<Rightarrow> None | e # _ \<Rightarrow> Some e))"

lemma set_probe_cases:
  "set_probe m key v t ps =
     (case find (holds m key) (takeWhile (filled m) ps) of
        Some slot \<Rightarrow> store_value m slot v
      | None \<Rightarrow> (case (if t = None then insertion_slot m ps else t) of
                  Some slot \<Rightarrow> map_insert_at m slot key v | None \<Rightarrow> m))"
proof (induction ps arbitrary: t)
  case (Cons p ps)
  have "insertion_slot m (p # ps) = (case map_states m ! p of Empty \<Rightarrow> Some p | Tombstone \<Rightarrow> Some p | Occupied \<Rightarrow> insertion_slot m ps)"
    by (cases "map_states m ! p") (auto simp: insertion_slot_def split: option.splits)
  then show ?case using Cons by (cases "map_states m ! p") (auto simp: holds_def split: option.splits)
qed (simp add: insertion_slot_def split: option.splits)

lemma insertion_slot_free:
  assumes "insertion_slot m ps = Some slot"
  shows "slot \<in> set ps \<and> map_states m ! slot \<noteq> Occupied
     \<and> (slot \<in> set (takeWhile (filled m) ps) \<or> (\<exists>rest. dropWhile (filled m) ps = slot # rest))"
proof (cases "find (\<lambda>p. map_states m ! p = Tombstone) (takeWhile (filled m) ps)")
  case None
  then obtain rest where r: "dropWhile (filled m) ps = slot # rest"
    using assms by (auto simp: insertion_slot_def split: list.splits)
  then have "\<not> filled m slot" "slot \<in> set ps" using hd_dropWhile [of "filled m" ps] set_dropWhileD [of slot "filled m" ps] by auto
  then show ?thesis using r by simp
next
  case (Some t)
  then have "t = slot" using assms by (simp add: insertion_slot_def)
  then show ?thesis using Some by (auto simp: find_Some_iff dest: set_takeWhileD nth_mem)
qed

lemma insertion_slot_None: "insertion_slot m ps = None \<Longrightarrow> p \<in> set ps \<Longrightarrow> map_states m ! p = Occupied"
  by (cases "map_states m ! p")
    (auto simp: insertion_slot_def find_None_iff dropWhile_eq_Nil_conv takeWhile_eq_all_conv [THEN iffD2] split: option.splits list.splits)

end
