(* ===== verification/Map_Invariant.thy ===== *)
theory Map_Invariant
  imports Map_Probing
begin

text \<open>
  The invariant of the hash map and its abstraction: the list of its entries in insertion order. Every
  operation preserves the one and acts on the other as on an association list.
\<close>

definition live_slots :: "gray_map \<Rightarrow> nat list" where
  "live_slots m = map nat (filter (\<lambda>s. 0 \<le> s) (take (map_order_len m) (map_order m)))"

definition slot_entry :: "gray_map \<Rightarrow> nat \<Rightarrow> element \<times> element" where
  "slot_entry m s = (map_keys m ! s, map_values m ! s)"

definition map_entries :: "gray_map \<Rightarrow> (element \<times> element) list" where
  "map_entries m = map (slot_entry m) (live_slots m)"

definition key_of :: "gray_map \<Rightarrow> element \<Rightarrow> u8 list" where
  "key_of m key = canon_key (map_key_size m) (map_key_kind m) key"

text \<open>The arrays have the table's size, and the load factor leaves a quarter of it free.\<close>

definition table_ok :: "gray_map \<Rightarrow> bool" where
  "table_ok m \<longleftrightarrow> (map_capacity m = 0 \<or> capacity_ok (map_capacity m)) \<and> width_ok (map_key_kind m) (map_key_size m)
     \<and> length (map_keys m) = map_capacity m \<and> length (map_values m) = map_capacity m
     \<and> length (map_states m) = map_capacity m \<and> length (map_order m) = map_capacity m
     \<and> length (map_order_position m) = map_capacity m \<and> map_order_len m \<le> map_capacity m
     \<and> map_count m = length (live_slots m) \<and> map_count m * 4 \<le> map_capacity m * 3"

text \<open>The order array lists every occupied slot once, and each slot knows its place there.\<close>

definition order_ok :: "gray_map \<Rightarrow> bool" where
  "order_ok m \<longleftrightarrow> distinct (live_slots m)
     \<and> set (live_slots m) = {s. s < map_capacity m \<and> map_states m ! s = Occupied}
     \<and> (\<forall>p < map_order_len m. 0 \<le> map_order m ! p \<longrightarrow> map_order_position m ! nat (map_order m ! p) = p)"

text \<open>A key is found on its probe path before any empty slot, and no key is stored twice.\<close>

definition keys_ok :: "u64 \<Rightarrow> gray_map \<Rightarrow> bool" where
  "keys_ok seed m \<longleftrightarrow> inj_on (\<lambda>s. key_of m (map_keys m ! s)) (set (live_slots m))
     \<and> (\<forall>s \<in> set (live_slots m).
          s \<in> set (takeWhile (filled m) (probe_sequence seed m (map_keys m ! s)))
          \<and> stored (map_key_kind m) (map_key_size m) (map_keys m ! s) = map_keys m ! s
          \<and> stored (map_value_kind m) (map_value_size m) (map_values m ! s) = map_values m ! s)"

definition map_ok :: "u64 \<Rightarrow> gray_map \<Rightarrow> bool" where
  "map_ok seed m \<longleftrightarrow> table_ok m \<and> order_ok m \<and> keys_ok seed m"

lemma map_okD:
  assumes "map_ok seed m"
  shows "table_ok m" "order_ok m" "keys_ok seed m"
  using assms by (simp_all add: map_ok_def)

lemma live_less: "order_ok m \<Longrightarrow> s \<in> set (live_slots m) \<Longrightarrow> s < map_capacity m \<and> map_states m ! s = Occupied"
  by (auto simp: order_ok_def)

lemma capacity_live: "table_ok m \<Longrightarrow> order_ok m \<Longrightarrow> s \<in> set (live_slots m) \<Longrightarrow> capacity_ok (map_capacity m)"
  using live_less [of m s] by (auto simp: table_ok_def)

subsection \<open>Lookup\<close>

lemma key_at_slot_canon: "key_at_slot m key s \<longleftrightarrow> key_of m (map_keys m ! s) = key_of m key"
  by (simp add: key_at_slot_def keys_equal_canon key_of_def)

lemma probe_sequence_key: "key_of m a = key_of m b \<Longrightarrow> probe_sequence seed m a = probe_sequence seed m b"
  by (simp add: probe_sequence_def hash_key_canon key_of_def)

lemma find_slot_find: "find_slot seed m key = find (holds m key) (takeWhile (filled m) (probe_sequence seed m key))"
  by (simp add: find_slot_def find_probe_find)

lemma find_slot_iff:
  assumes "map_ok seed m"
  shows "find_slot seed m key = Some s \<longleftrightarrow> s \<in> set (live_slots m) \<and> key_of m (map_keys m ! s) = key_of m key"
proof -
  note ok = map_okD [OF assms]
  have found: "t \<in> set (live_slots m) \<and> key_of m (map_keys m ! t) = key_of m key" if "find_slot seed m key = Some t" for t
  proof -
    have t: "t \<in> set (probe_sequence seed m key)" "holds m key t"
      using that unfolding find_slot_find by (auto simp: find_Some_iff dest: nth_mem set_takeWhileD)
    then have "map_capacity m \<noteq> 0" by (metis length_0_conv length_probe_sequence list.set(1) empty_iff)
    then have "t < map_capacity m" using t(1) set_probe_sequence [of m seed key] ok(1) by (simp add: table_ok_def)
    then show ?thesis using t(2) ok(2) by (simp add: holds_def key_at_slot_canon order_ok_def)
  qed
  show ?thesis
  proof
    assume s: "s \<in> set (live_slots m) \<and> key_of m (map_keys m ! s) = key_of m key"
    then have "s \<in> set (takeWhile (filled m) (probe_sequence seed m key))" "holds m key s"
      using ok probe_sequence_key [of m "map_keys m ! s" key seed] live_less [OF ok(2)]
      by (auto simp: keys_ok_def holds_def key_at_slot_canon)
    then have "find_slot seed m key \<noteq> None" unfolding find_slot_find find_None_iff by blast
    then obtain t where t: "find_slot seed m key = Some t" by blast
    with s found [OF t] ok(3) have "t = s" by (auto simp: keys_ok_def inj_on_def)
    with t show "find_slot seed m key = Some s" by simp
  qed (rule found)
qed

lemma find_slot_None:
  assumes "map_ok seed m"
  shows "find_slot seed m key = None \<longleftrightarrow> key_of m key \<notin> key_of m ` fst ` set (map_entries m)"
proof -
  have "find_slot seed m key = None \<longleftrightarrow> (\<forall>s. find_slot seed m key \<noteq> Some s)" by simp
  then show ?thesis unfolding find_slot_iff [OF assms]
    by (simp add: map_entries_def slot_entry_def image_image image_iff) metis
qed

subsection \<open>Updating a value\<close>

lemma live_slots_cong: "map_order_len m' = map_order_len m \<Longrightarrow> map_order m' = map_order m \<Longrightarrow> live_slots m' = live_slots m"
  by (simp add: live_slots_def)

lemma store_value_fields [simp]:
  "map_keys (store_value m s v) = map_keys m" "map_states (store_value m s v) = map_states m"
  "map_order (store_value m s v) = map_order m" "map_order_position (store_value m s v) = map_order_position m"
  "map_count (store_value m s v) = map_count m" "map_capacity (store_value m s v) = map_capacity m"
  "map_order_len (store_value m s v) = map_order_len m" "map_iterating (store_value m s v) = map_iterating m"
  "map_key_size (store_value m s v) = map_key_size m" "map_key_kind (store_value m s v) = map_key_kind m"
  "map_value_size (store_value m s v) = map_value_size m" "map_value_kind (store_value m s v) = map_value_kind m"
  "live_slots (store_value m s v) = live_slots m" "key_of (store_value m s v) = key_of m"
  "probe_sequence seed (store_value m s v) = probe_sequence seed m"
  by (simp_all add: store_value_def live_slots_def key_of_def fun_eq_iff probe_sequence_def)

definition update_entry :: "gray_map \<Rightarrow> element \<Rightarrow> element \<Rightarrow> (element \<times> element) list \<Rightarrow> (element \<times> element) list" where
  "update_entry m key v es =
     (let v = stored (map_value_kind m) (map_value_size m) v
      in if key_of m key \<in> key_of m ` fst ` set es
         then map (\<lambda>(k, w). (k, if key_of m k = key_of m key then v else w)) es
         else es @ [(stored (map_key_kind m) (map_key_size m) key, v)])"

lemma store_value_ok: "map_ok seed m \<Longrightarrow> map_ok seed (store_value m s v)"
proof -
  assume ok: "map_ok seed m"
  have "map_values (store_value m s v) ! t \<in> {map_values m ! t, stored (map_value_kind m) (map_value_size m) v}" for t
    by (cases "s = t"; cases "s < length (map_values m)") (simp_all add: store_value_def list_update_beyond)
  then have "stored (map_value_kind m) (map_value_size m) (map_values (store_value m s v) ! t) = map_values (store_value m s v) ! t"
    if "t \<in> set (live_slots m)" for t
    using that stored_twice map_okD(3) [OF ok] unfolding keys_ok_def by (metis insert_iff singletonD)
  moreover have "length (map_values (store_value m s v)) = length (map_values m)" by (simp add: store_value_def)
  ultimately have "table_ok (store_value m s v)" "keys_ok seed (store_value m s v)"
    using map_okD(1,3) [OF ok] by (simp_all add: table_ok_def keys_ok_def)
  moreover have "order_ok (store_value m s v)" using map_okD(2) [OF ok] by (simp add: order_ok_def)
  ultimately show ?thesis by (simp add: map_ok_def)
qed

lemma store_value_entries:
  assumes "map_ok seed m" "find_slot seed m key = Some s"
  shows "map_entries (store_value m s v) = update_entry m key v (map_entries m)"
proof -
  have s: "s \<in> set (live_slots m)" "key_of m (map_keys m ! s) = key_of m key"
    using find_slot_iff [OF assms(1), of key s] assms(2) by simp_all
  have len: "s < length (map_values m)"
    using live_less [OF map_okD(2) [OF assms(1)] s(1)] map_okD(1) [OF assms(1)] by (simp add: table_ok_def)
  have same: "key_of m (map_keys m ! t) = key_of m key \<longleftrightarrow> t = s" if "t \<in> set (live_slots m)" for t
  proof
    assume "key_of m (map_keys m ! t) = key_of m key"
    then have "key_of m (map_keys m ! t) = key_of m (map_keys m ! s)" using s(2) by simp
    moreover have "inj_on (\<lambda>s. key_of m (map_keys m ! s)) (set (live_slots m))"
      using map_okD(3) [OF assms(1)] by (simp add: keys_ok_def)
    ultimately show "t = s" using that s(1) by (simp add: inj_on_def)
  qed (use s(2) in simp)
  have "slot_entry (store_value m s v) t =
      (\<lambda>(k, w). (k, if key_of m k = key_of m key then stored (map_value_kind m) (map_value_size m) v else w)) (slot_entry m t)"
    if "t \<in> set (live_slots m)" for t
    using same [OF that] len by (simp add: slot_entry_def store_value_def)
  moreover have "find_slot seed m key \<noteq> None" using assms(2) by simp
  then have "key_of m key \<in> key_of m ` fst ` set (map_entries m)" using find_slot_None [OF assms(1), of key] by simp
  ultimately show ?thesis by (simp add: update_entry_def map_entries_def Let_def)
qed

subsection \<open>Inserting an entry\<close>

lemma insert_fields [simp]:
  "map_count (map_insert_at m s key v) = map_count m + 1" "map_capacity (map_insert_at m s key v) = map_capacity m"
  "map_order_len (map_insert_at m s key v) = map_order_len m + 1" "map_iterating (map_insert_at m s key v) = map_iterating m"
  "map_key_size (map_insert_at m s key v) = map_key_size m" "map_key_kind (map_insert_at m s key v) = map_key_kind m"
  "map_value_size (map_insert_at m s key v) = map_value_size m" "map_value_kind (map_insert_at m s key v) = map_value_kind m"
  "map_states (map_insert_at m s key v) = (map_states m)[s := Occupied]"
  "map_order (map_insert_at m s key v) = (map_order m)[map_order_len m := int s]"
  "map_order_position (map_insert_at m s key v) = (map_order_position m)[s := map_order_len m]"
  "map_keys (map_insert_at m s key v) = (map_keys m)[s := stored (map_key_kind m) (map_key_size m) key]"
  "map_values (map_insert_at m s key v) = (map_values m)[s := stored (map_value_kind m) (map_value_size m) v]"
  "key_of (map_insert_at m s key v) = key_of m" "probe_sequence seed (map_insert_at m s key v) = probe_sequence seed m"
  by (simp_all add: map_insert_at_def store_key_def store_value_def Let_def key_of_def fun_eq_iff probe_sequence_def)

lemma insert_live_slots:
  assumes "map_order_len m < length (map_order m)"
  shows "live_slots (map_insert_at m s key v) = live_slots m @ [s]"
  using assms by (simp add: live_slots_def take_Suc_conv_app_nth)

lemma key_of_stored: "table_ok m \<Longrightarrow> key_of m (stored (map_key_kind m) (map_key_size m) key) = key_of m key"
  by (simp add: key_of_def table_ok_def canon_key_stored)

definition placeable :: "u64 \<Rightarrow> gray_map \<Rightarrow> element \<Rightarrow> nat \<Rightarrow> bool" where
  "placeable seed m key s \<longleftrightarrow> map_ok seed m \<and> find_slot seed m key = None
     \<and> insertion_slot m (probe_sequence seed m key) = Some s
     \<and> map_order_len m < map_capacity m \<and> map_count m * 4 < map_capacity m * 3"

lemma placeableD:
  assumes "placeable seed m key s"
  shows "map_ok seed m" "find_slot seed m key = None" "map_order_len m < map_capacity m" "capacity_ok (map_capacity m)"
    "s < map_capacity m" "map_states m ! s \<noteq> Occupied" "s \<notin> set (live_slots m)" "map_order_len m < length (map_order m)"
    "live_slots (map_insert_at m s key v) = live_slots m @ [s]"
proof -
  show ok: "map_ok seed m" "find_slot seed m key = None" "map_order_len m < map_capacity m"
    using assms by (simp_all add: placeable_def)
  then show c: "capacity_ok (map_capacity m)" using map_okD(1) [OF ok(1)] by (auto simp: table_ok_def)
  have "s \<in> set (probe_sequence seed m key) \<and> map_states m ! s \<noteq> Occupied"
    using assms insertion_slot_free unfolding placeable_def by blast
  then show "s < map_capacity m" "map_states m ! s \<noteq> Occupied" using set_probe_sequence [OF c] by auto
  then show "s \<notin> set (live_slots m)" using live_less [OF map_okD(2) [OF ok(1)]] by blast
  show "map_order_len m < length (map_order m)" using ok map_okD(1) [OF ok(1)] by (simp add: table_ok_def)
  then show "live_slots (map_insert_at m s key v) = live_slots m @ [s]" by (rule insert_live_slots)
qed

lemma insert_table_ok: "placeable seed m key s \<Longrightarrow> table_ok (map_insert_at m s key v)"
proof -
  assume p: "placeable seed m key s"
  note D = placeableD [OF p]
  have "map_count m * 4 + 4 \<le> map_capacity m * 3"
    using capacity_okD(2) [OF D(4)] p by (auto simp: placeable_def elim!: dvdE)
  then show ?thesis using D(3,9) map_okD(1) [OF D(1)] by (simp add: table_ok_def)
qed

lemma insert_order_ok: "placeable seed m key s \<Longrightarrow> order_ok (map_insert_at m s key v)"
proof -
  assume p: "placeable seed m key s"
  note D = placeableD [OF p]
  note t = map_okD(1) [OF D(1), unfolded table_ok_def] and o = map_okD(2) [OF D(1), unfolded order_ok_def]
  let ?m = "map_insert_at m s key v"
  have "set (live_slots ?m) = {x. x < map_capacity ?m \<and> map_states ?m ! x = Occupied}"
    using D t o by (auto simp: nth_list_update)
  moreover have "map_order_position ?m ! nat (map_order ?m ! q) = q" if q: "q < map_order_len ?m" "0 \<le> map_order ?m ! q" for q
  proof (cases "q = map_order_len m")
    case True
    then show ?thesis using D t by simp
  next
    case False
    then have q: "q < map_order_len m" "0 \<le> map_order m ! q" using q D by simp_all
    then have "map_order m ! q \<in> set (filter (\<lambda>x. 0 \<le> x) (take (map_order_len m) (map_order m)))"
      using D(8) by (auto simp: in_set_conv_nth)
    then have "nat (map_order m ! q) \<in> set (live_slots m)" by (simp add: live_slots_def)
    then have "nat (map_order m ! q) \<noteq> s" using D(7) by blast
    then show ?thesis using False q o by simp
  qed
  ultimately show ?thesis using D o by (simp add: order_ok_def)
qed

lemma insert_filled:
  assumes "s < length (map_states m)"
  shows "filled (map_insert_at m s key v) s" "filled m x \<Longrightarrow> filled (map_insert_at m s key v) x"
  using assms by (cases "x = s"; simp)+

lemma insert_keys_ok: "placeable seed m key s \<Longrightarrow> keys_ok seed (map_insert_at m s key v)"
proof -
  assume p: "placeable seed m key s"
  note D = placeableD [OF p]
  note t = map_okD(1) [OF D(1), unfolded table_ok_def] and k = map_okD(3) [OF D(1), unfolded keys_ok_def]
  let ?m = "map_insert_at m s key v"
  let ?ks = "stored (map_key_kind m) (map_key_size m) key"
  have len: "s < length (map_keys m)" "s < length (map_values m)" "s < length (map_states m)" using D(5) t by simp_all
  have canon: "key_of m ?ks = key_of m key" using map_okD(1) [OF D(1)] by (rule key_of_stored)
  have old: "map_keys ?m ! x = map_keys m ! x" "map_values ?m ! x = map_values m ! x" if "x \<in> set (live_slots m)" for x
    using that D(7) by (cases "x = s"; simp)+
  have new: "map_keys ?m ! s = ?ks" "map_values ?m ! s = stored (map_value_kind m) (map_value_size m) v" using len by simp_all
  have path: "set (takeWhile (filled m) (probe_sequence seed m a)) \<subseteq> set (takeWhile (filled ?m) (probe_sequence seed m a))" for a
    by (rule takeWhile_mono) (rule insert_filled(2) [OF len(3)])
  have "s \<in> set (takeWhile (filled m) (probe_sequence seed m key))
      \<or> (\<exists>rest. dropWhile (filled m) (probe_sequence seed m key) = s # rest)"
    using p insertion_slot_free unfolding placeable_def by blast
  then have "s \<in> set (takeWhile (filled ?m) (probe_sequence seed m key))"
  proof
    assume "\<exists>rest. dropWhile (filled m) (probe_sequence seed m key) = s # rest"
    then obtain rest where "dropWhile (filled m) (probe_sequence seed m key) = s # rest" by blast
    then show ?thesis by (rule takeWhile_next) (rule insert_filled [OF len(3)], assumption, rule insert_filled [OF len(3)])
  qed (use path in blast)
  moreover have "probe_sequence seed m ?ks = probe_sequence seed m key" using canon by (rule probe_sequence_key)
  ultimately have paths: "x \<in> set (takeWhile (filled ?m) (probe_sequence seed m (map_keys ?m ! x)))" if "x \<in> set (live_slots ?m)" for x
  proof (cases "x = s")
    case False
    then have x: "x \<in> set (live_slots m)" using that D(9) by simp
    then have "x \<in> set (takeWhile (filled m) (probe_sequence seed m (map_keys m ! x)))" using k by blast
    then show ?thesis using path old(1) [OF x] by auto
  qed (simp only: new)
  have "key_of m key \<notin> (\<lambda>x. key_of m (map_keys m ! x)) ` set (live_slots m)"
    using find_slot_None [OF D(1), of key] D(2) by (simp add: map_entries_def slot_entry_def image_image)
  moreover have "(\<lambda>x. key_of m (map_keys ?m ! x)) ` set (live_slots m) = (\<lambda>x. key_of m (map_keys m ! x)) ` set (live_slots m)"
    by (rule image_cong [OF refl]) (simp only: old)
  moreover have "inj_on (\<lambda>x. key_of m (map_keys ?m ! x)) (set (live_slots m))"
    using k inj_on_cong [of "set (live_slots m)" "\<lambda>x. key_of m (map_keys ?m ! x)" "\<lambda>x. key_of m (map_keys m ! x)"] old(1) by metis
  moreover have "set (live_slots m) - {s} = set (live_slots m)" using D(7) by blast
  ultimately have "inj_on (\<lambda>x. key_of m (map_keys ?m ! x)) (insert s (set (live_slots m)))"
    using new(1) canon by (simp only: inj_on_insert simp_thms)
  then have "inj_on (\<lambda>x. key_of m (map_keys ?m ! x)) (set (live_slots ?m))" using D(9) by simp
  moreover have "stored (map_key_kind m) (map_key_size m) (map_keys ?m ! x) = map_keys ?m ! x
      \<and> stored (map_value_kind m) (map_value_size m) (map_values ?m ! x) = map_values ?m ! x" if "x \<in> set (live_slots ?m)" for x
  proof (cases "x = s")
    case False
    then have "x \<in> set (live_slots m)" using that D(9) by simp
    then show ?thesis using k old by simp
  qed (simp only: new stored_twice simp_thms)
  ultimately show ?thesis using paths unfolding keys_ok_def by simp
qed

lemma insert_ok: "placeable seed m key s \<Longrightarrow> map_ok seed (map_insert_at m s key v)"
  by (simp add: map_ok_def insert_table_ok insert_order_ok insert_keys_ok)

lemma insert_entries:
  assumes "placeable seed m key s"
  shows "map_entries (map_insert_at m s key v) = update_entry m key v (map_entries m)"
proof -
  note D = placeableD [OF assms]
  have len: "s < length (map_keys m)" "s < length (map_values m)" using D(5) map_okD(1) [OF D(1)] by (auto simp: table_ok_def)
  have "key_of m key \<notin> key_of m ` fst ` set (map_entries m)" using find_slot_None [OF D(1), of key] D(2) by simp
  moreover have "slot_entry (map_insert_at m s key v) x = slot_entry m x" if "x \<in> set (live_slots m)" for x
    using that D(7) by (cases "x = s") (simp_all add: slot_entry_def)
  ultimately show ?thesis using D(9) len by (simp add: map_entries_def update_entry_def Let_def slot_entry_def)
qed

subsection \<open>Setting an entry when there is room\<close>

text \<open>What no operation changes: the sizes and the kinds of keys and values.\<close>

definition same_type :: "gray_map \<Rightarrow> gray_map \<Rightarrow> bool" where
  "same_type m m' \<longleftrightarrow> map_key_size m' = map_key_size m \<and> map_value_size m' = map_value_size m
     \<and> map_key_kind m' = map_key_kind m \<and> map_value_kind m' = map_value_kind m"

lemma same_type_refl [simp]: "same_type m m"
  by (simp add: same_type_def)

lemma same_type_trans: "same_type a b \<Longrightarrow> same_type b c \<Longrightarrow> same_type a c"
  by (simp add: same_type_def)

lemma same_type_key: "same_type m m' \<Longrightarrow> key_of m' = key_of m"
  by (simp add: same_type_def key_of_def fun_eq_iff)

lemma same_type_update: "same_type m m' \<Longrightarrow> update_entry m' = update_entry m"
  using same_type_key [of m m'] by (simp add: update_entry_def fun_eq_iff same_type_def Let_def)

lemma set_probe_ok:
  assumes "map_ok seed m" "map_order_len m < map_capacity m" "map_count m * 4 < map_capacity m * 3"
    and m': "m' = set_probe m key v None (probe_sequence seed m key)"
  shows "map_ok seed m' \<and> map_entries m' = update_entry m key v (map_entries m)
     \<and> map_order_len m' \<le> Suc (map_order_len m) \<and> map_count m' \<le> Suc (map_count m)
     \<and> same_type m m' \<and> map_capacity m' = map_capacity m \<and> map_iterating m' = map_iterating m"
proof (cases "find_slot seed m key")
  case (Some s)
  then have "m' = store_value m s v" unfolding m' set_probe_cases find_slot_find by simp
  then show ?thesis using store_value_ok [OF assms(1)] store_value_entries [OF assms(1) Some]
    by (simp add: same_type_def)
next
  case None
  let ?ps = "probe_sequence seed m key"
  have c: "capacity_ok (map_capacity m)" using map_okD(1) [OF assms(1)] assms(2) by (auto simp: table_ok_def)
  have "insertion_slot m ?ps \<noteq> None"
  proof
    assume "insertion_slot m ?ps = None"
    then have "\<forall>s < map_capacity m. map_states m ! s = Occupied" using insertion_slot_None set_probe_sequence [OF c] by blast
    then have "set (live_slots m) = {..<map_capacity m}" using map_okD(2) [OF assms(1)] by (auto simp: order_ok_def)
    moreover have "distinct (live_slots m)" using map_okD(2) [OF assms(1)] by (simp add: order_ok_def)
    ultimately have "length (live_slots m) = map_capacity m" by (metis card_lessThan distinct_card)
    then show False using assms(3) map_okD(1) [OF assms(1)] by (simp add: table_ok_def)
  qed
  then obtain s where s: "insertion_slot m ?ps = Some s" by blast
  then have p: "placeable seed m key s" using assms(1-3) None by (simp add: placeable_def)
  have "m' = map_insert_at m s key v" using None s unfolding m' set_probe_cases find_slot_find by simp
  then show ?thesis using insert_ok [OF p] insert_entries [OF p]
    by (simp add: same_type_def)
qed

end
