(* ===== verification/Interfaces.thy ===== *)
theory Interfaces
  imports Prelude "HOL-Library.AList"
begin

text \<open>
  What the standard library relies on in the containers of the runtime: a vector that grows at its
  end, and a map that keeps its entries in insertion order. The lemmas here are proved from those
  laws alone; the theories of the arrays and of the hash map provide the laws.
\<close>

subsection \<open>Vectors\<close>

primrec run_pushes :: "('a \<Rightarrow> 'e \<Rightarrow> 'a panicking) \<Rightarrow> 'e list \<Rightarrow> 'a \<Rightarrow> 'a panicking" where
  "run_pushes push [] a = Inr a"
| "run_pushes push (v # vs) a = bind_panic (push a v) (run_pushes push vs)"

locale vector =
  fixes ok :: "'a \<Rightarrow> bool"
    and items :: "'a \<Rightarrow> 'e list"
    and norm :: "'a \<Rightarrow> 'e \<Rightarrow> 'e"
    and push :: "'a \<Rightarrow> 'e \<Rightarrow> 'a panicking"
    and limit :: nat
  assumes push: "ok a \<Longrightarrow> length (items a) < limit \<Longrightarrow>
    \<exists>b. push a v = Inr b \<and> ok b \<and> items b = items a @ [norm a v] \<and> norm b = norm a"
begin

lemma pushes:
  "ok a \<Longrightarrow> length (items a) + length vs \<le> limit \<Longrightarrow>
     \<exists>b. run_pushes push vs a = Inr b \<and> ok b \<and> items b = items a @ map (norm a) vs \<and> norm b = norm a"
proof (induction vs arbitrary: a)
  case (Cons v vs)
  obtain b where b: "push a v = Inr b" "ok b" "items b = items a @ [norm a v]" "norm b = norm a"
    using push [of a v] Cons.prems by auto
  moreover have "length (items b) + length vs \<le> limit" using Cons.prems b(3) by simp
  ultimately show ?case using Cons.IH [of b] by auto
qed simp

end

subsection \<open>Maps in insertion order\<close>

primrec run_inserts :: "('m \<Rightarrow> 'k \<Rightarrow> 'v \<Rightarrow> 'm option) \<Rightarrow> ('k \<times> 'v) list \<Rightarrow> 'm \<Rightarrow> 'm option" where
  "run_inserts put [] m = Some m"
| "run_inserts put (e # es) m =
     (case put m (fst e) (snd e) of None \<Rightarrow> None | Some m' \<Rightarrow> run_inserts put es m')"

text \<open>
  The table of a map lists its keys, by their identity, with their values; a map has room for as many
  more entries as \<open>room\<close> says.
\<close>

locale lookup_map =
  fixes ok :: "'m \<Rightarrow> bool"
    and ident :: "'m \<Rightarrow> 'k \<Rightarrow> 'c"
    and table :: "'m \<Rightarrow> ('c \<times> 'v) list"
    and get :: "'m \<Rightarrow> 'k \<Rightarrow> 'v option"
  assumes distinct_table: "ok m \<Longrightarrow> distinct (map fst (table m))"
    and get: "ok m \<Longrightarrow> get m k = map_of (table m) (ident m k)"
begin

lemma get_None: "ok m \<Longrightarrow> get m k = None \<longleftrightarrow> ident m k \<notin> fst ` set (table m)"
  by (simp add: get map_of_eq_None_iff)

lemma get_Some: "ok m \<Longrightarrow> get m k = Some v \<longleftrightarrow> (ident m k, v) \<in> set (table m)"
  by (simp add: get distinct_table)

end

lemma update_absent: "k \<notin> fst ` set al \<Longrightarrow> AList.update k v al = al @ [(k, v)]"
  by (induction al) auto

text \<open>Adding an entry keeps the order of the others.\<close>

locale growing_map = lookup_map ok ident table get
  for ok :: "'m \<Rightarrow> bool" and ident :: "'m \<Rightarrow> 'k \<Rightarrow> 'c" and table :: "'m \<Rightarrow> ('c \<times> 'v) list"
    and get :: "'m \<Rightarrow> 'k \<Rightarrow> 'v option" +
  fixes norm :: "'m \<Rightarrow> 'v \<Rightarrow> 'v"
    and room :: "'m \<Rightarrow> nat \<Rightarrow> bool"
    and put :: "'m \<Rightarrow> 'k \<Rightarrow> 'v \<Rightarrow> 'm option"
  assumes put: "ok m \<Longrightarrow> room m (Suc n) \<Longrightarrow>
      \<exists>m'. put m k v = Some m' \<and> ok m' \<and> room m' n \<and> ident m' = ident m \<and> norm m' = norm m
        \<and> table m' = AList.update (ident m k) (norm m v) (table m)"
begin

lemma get_insert:
  assumes "ok m" "room m (Suc n)" "put m k v = Some m'"
  shows "get m' j = (if ident m j = ident m k then Some (norm m v) else get m j)"
  using put [OF assms(1,2), of k v] assms(1,3) by (auto simp: get update_conv')

text \<open>A key keeps its place when its value changes, a new one goes to the end.\<close>

lemma insert_order:
  assumes "ok m" "room m (Suc n)" "put m k v = Some m'"
  shows "map fst (table m') =
    (if get m k = None then map fst (table m) @ [ident m k] else map fst (table m))"
  using put [OF assms(1,2), of k v] assms(1,3) by (auto simp: get_None update_keys)

lemma inserts:
  "ok m \<Longrightarrow> room m (length es + n) \<Longrightarrow>
     \<exists>m'. run_inserts put es m = Some m' \<and> ok m' \<and> room m' n \<and> ident m' = ident m \<and> norm m' = norm m
       \<and> table m' = fold (\<lambda>e. AList.update (ident m (fst e)) (norm m (snd e))) es (table m)"
proof (induction es arbitrary: m)
  case (Cons e es)
  obtain a where a: "put m (fst e) (snd e) = Some a" "ok a" "room a (length es + n)" "ident a = ident m" "norm a = norm m"
      "table a = AList.update (ident m (fst e)) (norm m (snd e)) (table m)"
    using put [of m "length es + n" "fst e" "snd e"] Cons.prems by auto
  then show ?case using Cons.IH [of a] by auto
qed simp

text \<open>Inserting what another table holds: its values win, keys new to the map follow in its order.\<close>

lemma get_inserts:
  assumes "ok m" "room m (length es)" "run_inserts put es m = Some m'" "distinct (map (ident m \<circ> fst) es)"
  shows "get m' j = (case map_of (map (\<lambda>e. (ident m (fst e), norm m (snd e))) es) (ident m j) of
    Some v \<Rightarrow> Some v | None \<Rightarrow> get m j)"
proof -
  have fold: "map_of (fold (\<lambda>e. AList.update (ident m (fst e)) (norm m (snd e))) es t) x =
      (case map_of (map (\<lambda>e. (ident m (fst e), norm m (snd e))) es) x of Some v \<Rightarrow> Some v | None \<Rightarrow> map_of t x)" for t x
    using assms(4)
  proof (induction es arbitrary: t)
    case (Cons e es)
    have "map_of (map (\<lambda>e. (ident m (fst e), norm m (snd e))) es) (ident m (fst e)) = None"
      using Cons.prems by (force simp: map_of_eq_None_iff)
    then show ?case using Cons by (auto simp: update_conv' split: option.splits)
  qed simp
  show ?thesis using inserts [of m es 0] assms(1-3) by (auto simp: get fold split: option.splits)
qed

end

locale ordered_map = growing_map ok ident table get norm room put
  for ok :: "'m \<Rightarrow> bool" and ident :: "'m \<Rightarrow> 'k \<Rightarrow> 'c" and table :: "'m \<Rightarrow> ('c \<times> 'v) list"
    and get :: "'m \<Rightarrow> 'k \<Rightarrow> 'v option" and norm :: "'m \<Rightarrow> 'v \<Rightarrow> 'v" and room :: "'m \<Rightarrow> nat \<Rightarrow> bool"
    and put :: "'m \<Rightarrow> 'k \<Rightarrow> 'v \<Rightarrow> 'm option" +
  fixes cut :: "'m \<Rightarrow> 'k \<Rightarrow> 'm option"
  assumes cut: "ok m \<Longrightarrow> room m n \<Longrightarrow>
      \<exists>m'. cut m k = Some m' \<and> ok m' \<and> room m' n \<and> ident m' = ident m \<and> norm m' = norm m
        \<and> table m' = AList.delete (ident m k) (table m)"
begin

lemma get_delete:
  assumes "ok m" "room m n" "cut m k = Some m'"
  shows "get m' j = (if ident m j = ident m k then None else get m j)"
  using cut [OF assms(1,2), of k] assms(1,3) by (auto simp: get delete_conv')

end

subsection \<open>Bounded queues\<close>

text \<open>
  A queue that holds at most \<open>capacity\<close> elements. What was ever put into it is what was taken from it,
  in order, followed by what it holds.
\<close>

locale bounded_queue =
  fixes ok :: "'q \<Rightarrow> bool"
    and items :: "'q \<Rightarrow> 'e list"
    and capacity :: "'q \<Rightarrow> nat"
    and put :: "'q \<Rightarrow> 'e \<Rightarrow> 'q"
    and take :: "'q \<Rightarrow> 'q \<times> 'e"
  assumes bound: "ok q \<Longrightarrow> length (items q) \<le> capacity q"
    and put: "ok q \<Longrightarrow> length (items q) < capacity q \<Longrightarrow>
      ok (put q v) \<and> items (put q v) = items q @ [v] \<and> capacity (put q v) = capacity q"
    and take: "ok q \<Longrightarrow> items q \<noteq> [] \<Longrightarrow>
      ok (fst (take q)) \<and> items q = snd (take q) # items (fst (take q)) \<and> capacity (fst (take q)) = capacity q"
begin

lemma delivered_put:
  assumes "ok q" "sent = received @ items q" "length (items q) \<noteq> capacity q"
  shows "ok (put q v) \<and> sent @ [v] = received @ items (put q v)"
  using put [OF assms(1), of v] bound [OF assms(1)] assms(2,3) by simp

lemma delivered_take:
  assumes "ok q" "sent = received @ items q" "items q \<noteq> []" "take q = (q', v)"
  shows "ok q' \<and> sent = (received @ [v]) @ items q'"
  using take [OF assms(1,3)] assms(2,4) by simp

end

end
