(* ===== verification/Map_Operations.thy ===== *)
theory Map_Operations
  imports Map_Invariant Interfaces
begin

text \<open>
  The operations of the hash map on its invariant and its entries: creation, setting with its two
  kinds of rebuild, removal, clearing and copying, and what an active iteration forbids.
\<close>

subsection \<open>Fresh tables\<close>

lemma fresh_table:
  assumes "map_order_len m = 0" "map_count m = 0" "capacity_ok (map_capacity m)" "width_ok (map_key_kind m) (map_key_size m)"
    "map_states m = replicate (map_capacity m) Empty"
    "length (map_keys m) = map_capacity m" "length (map_values m) = map_capacity m"
    "length (map_order m) = map_capacity m" "length (map_order_position m) = map_capacity m"
  shows "map_ok seed m" "map_entries m = []"
  using assms by (auto simp: map_ok_def table_ok_def order_ok_def keys_ok_def map_entries_def live_slots_def)

lemma new_kind_ok:
  assumes "width_ok key_kind key_size"
  shows "map_ok seed (gray_map_new_kind key_size value_size n key_kind value_kind)"
    "map_entries (gray_map_new_kind key_size value_size n key_kind value_kind) = []"
  using assms round_capacity_ok by (intro fresh_table; simp add: gray_map_new_kind_def Let_def)+

lemma clear_ok:
  assumes "map_ok seed m" "map_iterating m = 0"
  obtains m' where "gray_map_clear m = Inr m'" "map_ok seed m'" "map_entries m' = []" "same_type m m'"
proof -
  let ?m = "m\<lparr>map_states := replicate (map_capacity m) Empty, map_count := 0, map_order_len := 0\<rparr>"
  have "map_ok seed ?m \<and> map_entries ?m = []"
    using map_okD(1) [OF assms(1)] unfolding table_ok_def
    by (auto simp: map_ok_def table_ok_def order_ok_def keys_ok_def map_entries_def live_slots_def)
  then show thesis using that [of ?m] assms(2) by (simp add: gray_map_clear_def same_type_def)
qed

lemma copy_ok:
  "map_ok seed m \<Longrightarrow> map_ok seed (gray_map_copy m)" "map_entries (gray_map_copy m) = map_entries m"
  "same_type m (gray_map_copy m)"
proof -
  have e: "live_slots (gray_map_copy m) = live_slots m" "slot_entry (gray_map_copy m) = slot_entry m"
    "key_of (gray_map_copy m) = key_of m" "probe_sequence seed (gray_map_copy m) = probe_sequence seed m"
    by (simp_all add: gray_map_copy_def live_slots_def slot_entry_def key_of_def fun_eq_iff probe_sequence_def)
  have "table_ok (gray_map_copy m) = table_ok m" unfolding table_ok_def e by (simp add: gray_map_copy_def)
  moreover have "order_ok (gray_map_copy m) = order_ok m" unfolding order_ok_def e by (simp add: gray_map_copy_def)
  moreover have "keys_ok seed (gray_map_copy m) = keys_ok seed m" unfolding keys_ok_def e by (simp add: gray_map_copy_def)
  ultimately show "map_ok seed m \<Longrightarrow> map_ok seed (gray_map_copy m)" by (simp add: map_ok_def)
  show "map_entries (gray_map_copy m) = map_entries m" by (simp add: map_entries_def e)
  show "same_type m (gray_map_copy m)" by (simp add: gray_map_copy_def same_type_def)
qed

subsection \<open>Removal\<close>

lemma live_slots_hole:
  assumes "distinct (live_slots m)" "p < map_order_len m" "p < length (map_order m)" "map_order m ! p = int s"
  shows "live_slots (m\<lparr>map_order := (map_order m)[p := - 1]\<rparr>) = filter (\<lambda>t. t \<noteq> s) (live_slots m)"
proof -
  let ?xs = "take (map_order_len m) (map_order m)"
  define as bs where "as = take p ?xs" "bs = drop (Suc p) ?xs"
  have p: "p < length ?xs" "?xs ! p = int s" using assms by simp_all
  have xs: "?xs = as @ int s # bs" unfolding as_bs_def by (metis id_take_nth_drop p)
  have "take (map_order_len m) ((map_order m)[p := - 1]) = ?xs[p := - 1]" by (simp add: take_update_swap)
  also have "\<dots> = as @ (- 1) # bs" unfolding as_bs_def using p(1) by (rule upd_conv_take_nth_drop)
  finally have "live_slots (m\<lparr>map_order := (map_order m)[p := - 1]\<rparr>) = map nat (filter (\<lambda>s. 0 \<le> s) as) @ map nat (filter (\<lambda>s. 0 \<le> s) bs)"
    by (simp add: live_slots_def)
  moreover have live: "live_slots m = map nat (filter (\<lambda>s. 0 \<le> s) as) @ s # map nat (filter (\<lambda>s. 0 \<le> s) bs)"
    by (simp add: live_slots_def xs)
  moreover have "s \<notin> set (map nat (filter (\<lambda>s. 0 \<le> s) as))" "s \<notin> set (map nat (filter (\<lambda>s. 0 \<le> s) bs))"
    using assms(1) unfolding live by simp_all
  then have "filter (\<lambda>t. t \<noteq> s) (map nat (filter (\<lambda>s. 0 \<le> s) xs)) = map nat (filter (\<lambda>s. 0 \<le> s) xs)" if "xs \<in> {as, bs}" for xs
    using that by (intro filter_True) blast
  ultimately show ?thesis by simp
qed

lemma live_slot_order:
  assumes "order_ok m" "s \<in> set (live_slots m)"
  shows "map_order_position m ! s < map_order_len m" "map_order m ! (map_order_position m ! s) = int s"
proof -
  obtain p where p: "p < map_order_len m" "p < length (map_order m)" "0 \<le> map_order m ! p" "s = nat (map_order m ! p)"
    using assms(2) by (auto simp: live_slots_def in_set_conv_nth)
  then have "map_order_position m ! s = p" using assms(1) by (simp add: order_ok_def)
  then show "map_order_position m ! s < map_order_len m" "map_order m ! (map_order_position m ! s) = int s" using p by simp_all
qed

lemma remove_found:
  assumes ok: "map_ok seed m" and "map_iterating m = 0" and found: "find_slot seed m key = Some s"
  obtains m' where "gray_map_remove seed m key = Inr (m', True)" "map_ok seed m'" "same_type m m'"
    "map_entries m' = filter (\<lambda>e. key_of m (fst e) \<noteq> key_of m key) (map_entries m)" "map_iterating m' = 0"
proof -
  note t = map_okD(1) [OF ok, unfolded table_ok_def] and k = map_okD(3) [OF ok, unfolded keys_ok_def]
  note o = map_okD(2) [OF ok, unfolded order_ok_def]
  have s: "s \<in> set (live_slots m)" "key_of m (map_keys m ! s) = key_of m key" using find_slot_iff [OF ok, of key s] found by simp_all
  let ?p = "map_order_position m ! s"
  note p = live_slot_order [OF map_okD(2) [OF ok] s(1)]
  define m' where "m' = m\<lparr>map_states := (map_states m)[s := Tombstone], map_count := map_count m - 1, map_order := (map_order m)[?p := - 1]\<rparr>"
  have "live_slots m' = live_slots (m\<lparr>map_order := (map_order m)[?p := - 1]\<rparr>)" by (simp add: m'_def live_slots_def)
  also have "\<dots> = filter (\<lambda>t. t \<noteq> s) (live_slots m)" using o p t by (intro live_slots_hole) simp_all
  finally have live: "live_slots m' = filter (\<lambda>t. t \<noteq> s) (live_slots m)" .
  have shape: "same_type m m'" "key_of m' = key_of m" "probe_sequence seed m' = probe_sequence seed m" "map_keys m' = map_keys m"
    "map_values m' = map_values m"
    by (simp_all add: m'_def same_type_def key_of_def fun_eq_iff probe_sequence_def)
  have len: "s < length (map_states m)" using live_less [OF map_okD(2) [OF ok] s(1)] t by simp
  have occ: "map_states m ! s = Occupied" using live_less [OF map_okD(2) [OF ok] s(1)] by simp
  have filled: "filled m' = filled m" using len occ by (auto simp: m'_def fun_eq_iff nth_list_update)
  have "filter (\<lambda>t. t \<noteq> s) (live_slots m) = remove1 s (live_slots m)" using o by (simp add: distinct_remove1_removeAll removeAll_filter_not_eq) (metis)
  then have "length (live_slots m') = length (live_slots m) - 1" using s(1) unfolding live by (simp add: length_remove1)
  moreover have "(length (live_slots m) - 1) * 4 \<le> length (live_slots m) * 4" by simp
  ultimately have "table_ok m'" using t unfolding table_ok_def by (simp add: m'_def) linarith
  moreover have "order_ok m'"
  proof -
    have "set (live_slots m') = {x. x < map_capacity m' \<and> map_states m' ! x = Occupied}"
      unfolding live using o len by (auto simp: m'_def nth_list_update)
    moreover have "map_order_position m' ! nat (map_order m' ! q) = q" if q: "q < map_order_len m'" "0 \<le> map_order m' ! q" for q
      using q o t p by (cases "q = ?p") (simp_all add: m'_def)
    ultimately show ?thesis using o live by (simp add: order_ok_def)
  qed
  moreover have "keys_ok seed m'"
    using k unfolding keys_ok_def live shape filled
    by (simp add: shape(1) [unfolded same_type_def] inj_on_def)
  ultimately have "map_ok seed m'" by (simp add: map_ok_def)
  moreover have "gray_map_remove seed m key = Inr (m', True)"
    using assms(2) found p by (simp add: gray_map_remove_def Let_def m'_def)
  moreover have "map_entries m' = filter (\<lambda>e. key_of m (fst e) \<noteq> key_of m key) (map_entries m)"
  proof -
    have "t \<noteq> s \<longleftrightarrow> key_of m (map_keys m ! t) \<noteq> key_of m key" if "t \<in> set (live_slots m)" for t
      using that s k by (auto simp: inj_on_def)
    then have "filter (\<lambda>t. t \<noteq> s) (live_slots m) = filter (\<lambda>t. key_of m (map_keys m ! t) \<noteq> key_of m key) (live_slots m)"
      by (rule filter_cong [OF refl])
    moreover have "slot_entry m' = slot_entry m" by (simp add: fun_eq_iff slot_entry_def shape)
    ultimately show ?thesis by (simp add: map_entries_def live filter_map o_def) (simp add: slot_entry_def)
  qed
  moreover have "map_iterating m' = 0" using assms(2) by (simp add: m'_def)
  ultimately show thesis using that shape(1) by blast
qed

lemma filter_absent: "x \<notin> f ` set xs \<Longrightarrow> filter (\<lambda>y. f y \<noteq> x) xs = xs"
  by (rule filter_True) auto

lemma remove_ok:
  assumes "map_ok seed m" "map_iterating m = 0"
  obtains m' where
    "gray_map_remove seed m key = Inr (m', key_of m key \<in> key_of m ` fst ` set (map_entries m))"
    "map_ok seed m'" "same_type m m'" "map_iterating m' = 0"
    "map_entries m' = filter (\<lambda>e. key_of m (fst e) \<noteq> key_of m key) (map_entries m)"
proof (cases "find_slot seed m key")
  case None
  then have "key_of m key \<notin> key_of m ` fst ` set (map_entries m)" using find_slot_None [OF assms(1), of key] by simp
  moreover from this have "filter (\<lambda>e. key_of m (fst e) \<noteq> key_of m key) (map_entries m) = map_entries m"
    by (intro filter_absent [of _ "\<lambda>e. key_of m (fst e)"]) (simp only: image_image not_False_eq_True)
  moreover have "gray_map_remove seed m key = Inr (m, False)" using None assms(2) by (simp add: gray_map_remove_def)
  ultimately show thesis using that [of m] assms by simp
next
  case (Some s)
  then have found: "(key_of m key \<in> key_of m ` fst ` set (map_entries m)) = True"
    using find_slot_None [OF assms(1), of key] by simp
  show thesis by (rule remove_found [OF assms Some]) (rule that, simp_all only: found)
qed

subsection \<open>Rebuilding\<close>

lemma count_order: "table_ok m \<Longrightarrow> map_count m \<le> map_order_len m"
  unfolding table_ok_def live_slots_def by (metis length_filter_le length_map length_take min.bounded_iff order_trans)

text \<open>A call of \<open>gray_map_set\<close> that needs no rebuild.\<close>

lemma set_direct:
  assumes "map_ok seed m" "map_iterating m = 0" "map_order_len m < map_capacity m" "map_count m * 4 < map_capacity m * 3"
  shows "gray_map_set (Suc fuel) seed m key v = Some (Inr (set_probe m key v None (probe_sequence seed m key)))"
  using assms by (simp add: gray_map_set.simps GRAY_MAP_LOAD_NUMERATOR_def GRAY_MAP_LOAD_DENOMINATOR_def bind_run_def)

lemma update_entry_new:
  assumes "key_of m key \<notin> key_of m ` fst ` set es"
    "stored (map_key_kind m) (map_key_size m) key = key" "stored (map_value_kind m) (map_value_size m) v = v"
  shows "update_entry m key v es = es @ [(key, v)]"
  using assms by (simp add: update_entry_def)

text \<open>The entries at some of the slots of an order array.\<close>

definition entries_at :: "gray_map \<Rightarrow> int list \<Rightarrow> (element \<times> element) list" where
  "entries_at m slots = map (slot_entry m) (map nat (filter (\<lambda>s. 0 \<le> s) slots))"

lemma entries_at_simps [simp]:
  "entries_at m [] = []"
  "entries_at m (s # slots) = (if 0 \<le> s then slot_entry m (nat s) # entries_at m slots else entries_at m slots)"
  by (simp_all add: entries_at_def)

definition fits :: "gray_map \<Rightarrow> nat \<Rightarrow> bool" where
  "fits m n \<longleftrightarrow> map_order_len m + n \<le> map_capacity m \<and> (map_order_len m + n) * 4 \<le> map_capacity m * 3"

lemma reinsert_ok:
  assumes "map_ok seed m" "same_type old m" "map_iterating m = 0" "fits m (length (entries_at old slots))"
    and "\<And>s. s \<in> set slots \<Longrightarrow> 0 \<le> s \<Longrightarrow> map_states old ! nat s = Occupied"
    and "distinct (map (key_of old \<circ> fst) (map_entries m @ entries_at old slots))"
    and "\<And>k v. (k, v) \<in> set (entries_at old slots) \<Longrightarrow>
      stored (map_key_kind old) (map_key_size old) k = k \<and> stored (map_value_kind old) (map_value_size old) v = v"
  shows "\<exists>m'. reinsert (gray_map_set (Suc fuel) seed) old slots m = Some (Inr m') \<and> map_ok seed m' \<and> same_type old m'
    \<and> map_iterating m' = 0 \<and> map_capacity m' = map_capacity m \<and> map_entries m' = map_entries m @ entries_at old slots
    \<and> map_order_len m' \<le> map_order_len m + length (entries_at old slots)"
  using assms
proof (induction slots arbitrary: m)
  case (Cons s slots)
  show ?case
  proof (cases "0 \<le> s")
    case False
    then show ?thesis using Cons by simp
  next
    case True
    define k v where kv: "k = map_keys old ! nat s" "v = map_values old ! nat s"
    let ?m = "set_probe m k v None (probe_sequence seed m k)"
    have e: "entries_at old (s # slots) = (k, v) # entries_at old slots" using True by (simp add: slot_entry_def kv)
    have room: "map_order_len m < map_capacity m" "map_count m * 4 < map_capacity m * 3"
      using Cons.prems(4) count_order [OF map_okD(1) [OF Cons.prems(1)]] unfolding e fits_def by simp_all
    have set: "gray_map_set (Suc fuel) seed m k v = Some (Inr ?m)" using Cons.prems(1,3) room by (rule set_direct)
    note step = set_probe_ok [OF Cons.prems(1) room refl, of k v]
    have "key_of m k \<notin> key_of m ` fst ` set (map_entries m)"
      using Cons.prems(6) same_type_key [OF Cons.prems(2)] unfolding e by (auto simp: image_image)
    moreover have "stored (map_key_kind m) (map_key_size m) k = k \<and> stored (map_value_kind m) (map_value_size m) v = v"
      using Cons.prems(2) Cons.prems(7) [of k v] unfolding e same_type_def by simp
    ultimately have entries: "map_entries ?m = map_entries m @ [(k, v)]" using step update_entry_new by simp
    have "\<exists>m'. reinsert (gray_map_set (Suc fuel) seed) old slots ?m = Some (Inr m') \<and> map_ok seed m' \<and> same_type old m'
        \<and> map_iterating m' = 0 \<and> map_capacity m' = map_capacity ?m \<and> map_entries m' = map_entries ?m @ entries_at old slots
        \<and> map_order_len m' \<le> map_order_len ?m + length (entries_at old slots)"
    proof (rule Cons.IH)
      show "map_ok seed ?m" "same_type old ?m" "map_iterating ?m = 0"
        using step Cons.prems(2,3) same_type_trans by auto
      show "fits ?m (length (entries_at old slots))" using step Cons.prems(4) unfolding e fits_def by simp
      show "distinct (map (key_of old \<circ> fst) (map_entries ?m @ entries_at old slots))"
        using Cons.prems(6) unfolding e entries by (simp add: comp_def)
      show "map_states old ! nat t = Occupied" if "t \<in> set slots" "0 \<le> t" for t
        by (rule Cons.prems(5)) (use that in simp_all)
      show "stored (map_key_kind old) (map_key_size old) a = a \<and> stored (map_value_kind old) (map_value_size old) b = b"
        if "(a, b) \<in> set (entries_at old slots)" for a b
        by (rule Cons.prems(7)) (simp only: e list.set insert_iff that simp_thms)
    qed
    moreover have "map_states old ! nat s = Occupied" using Cons.prems(5) True by simp
    ultimately show ?thesis using True set step unfolding e entries by (auto simp: bind_run_def kv)
  qed
qed simp

lemma rebuild_ok:
  assumes "map_ok seed m" "map_iterating m = 0" "map_count m * 4 \<le> gray_map_round_capacity n * 3"
  shows "\<exists>m'. map_rebuild (gray_map_set (Suc fuel) seed) m n = Some (Inr m') \<and> map_ok seed m' \<and> same_type m m'
    \<and> map_iterating m' = 0 \<and> map_capacity m' = gray_map_round_capacity n \<and> map_entries m' = map_entries m
    \<and> map_order_len m' \<le> map_count m"
proof -
  note t = map_okD(1) [OF assms(1), unfolded table_ok_def] and k = map_okD(3) [OF assms(1), unfolded keys_ok_def]
  note o = map_okD(2) [OF assms(1), unfolded order_ok_def]
  let ?n = "gray_map_round_capacity n" and ?slots = "take (map_order_len m) (map_order m)"
  define fresh where "fresh = m\<lparr>map_capacity := ?n, map_keys := replicate ?n [],
      map_values := replicate ?n [], map_states := replicate ?n Empty, map_order := replicate ?n 0,
      map_order_position := replicate ?n 0, map_count := 0, map_order_len := 0\<rparr>"
  have fresh: "map_ok seed fresh" "map_entries fresh = []"
    using t round_capacity_ok [of n] by (intro fresh_table; simp add: fresh_def)+
  have entries: "entries_at m ?slots = map_entries m" by (simp add: entries_at_def map_entries_def live_slots_def)
  have len: "length (map_entries m) = map_count m" using t by (simp add: map_entries_def)
  have "\<exists>m'. reinsert (gray_map_set (Suc fuel) seed) m ?slots fresh = Some (Inr m') \<and> map_ok seed m' \<and> same_type m m'
    \<and> map_iterating m' = 0 \<and> map_capacity m' = map_capacity fresh \<and> map_entries m' = map_entries fresh @ entries_at m ?slots
    \<and> map_order_len m' \<le> map_order_len fresh + length (entries_at m ?slots)"
  proof (rule reinsert_ok [OF fresh(1)])
    show "same_type m fresh" "map_iterating fresh = 0" using assms(2) by (simp_all add: fresh_def same_type_def)
    show "fits fresh (length (entries_at m ?slots))" using assms(3) by (simp add: fits_def fresh_def entries len)
    show "map_states m ! nat s = Occupied" if "s \<in> set ?slots" "0 \<le> s" for s
    proof -
      have "nat s \<in> set (live_slots m)" using that by (auto simp: live_slots_def)
      then show ?thesis using live_less [OF map_okD(2) [OF assms(1)]] by blast
    qed
    show "distinct (map (key_of m \<circ> fst) (map_entries fresh @ entries_at m ?slots))"
      using o k unfolding fresh(2) entries append_Nil by (simp add: map_entries_def distinct_map slot_entry_def comp_def)
    show "stored (map_key_kind m) (map_key_size m) a = a \<and> stored (map_value_kind m) (map_value_size m) b = b"
      if e: "(a, b) \<in> set (entries_at m ?slots)" for a b
    proof -
      obtain s where "s \<in> set (live_slots m)" "a = map_keys m ! s" "b = map_values m ! s"
        using e by (auto simp: entries map_entries_def slot_entry_def)
      then show ?thesis using k by blast
    qed
  qed
  then show ?thesis by (simp add: map_rebuild_def Let_def fresh_def [symmetric] fresh(2) entries len) (simp add: fresh_def)
qed

subsection \<open>Setting an entry\<close>

lemma count_entries: "map_ok seed m \<Longrightarrow> map_count m = length (map_entries m)"
  using map_okD(1) by (auto simp: table_ok_def map_entries_def)

text \<open>
  Two rebuilds can precede the insertion: one when the table is loaded to three quarters, one when the
  order array is full of holes. Each leaves room for every entry and for one more, so that the calls it
  makes rebuild nothing: fuel for two levels of calls is enough.
\<close>

lemma double_capacity:
  assumes "n = 0 \<or> capacity_ok n" "n \<le> 2 ^ 29"
  shows "gray_map_round_capacity (n * 2) = max 8 (n * 2)"
proof (cases "n = 0")
  case False
  then have "capacity_ok (n * 2)" using assms(1) unfolding capacity_ok_def by (metis le_SucI mult.commute power_Suc)
  then show ?thesis using round_capacity_fixed [of "n * 2"] assms(2) capacity_okD(1) by (simp add: max_def)
qed (simp add: gray_map_round_capacity_def GRAY_MAP_MIN_CAPACITY_def)

lemma load_rebuild:
  assumes "map_ok seed m" "map_iterating m = 0" "map_capacity m \<le> 2 ^ 29"
  shows "\<exists>m'. (if map_capacity m * 3 \<le> map_count m * 4 then map_rebuild (gray_map_set (Suc fuel) seed) m (map_capacity m * 2)
      else Some (Inr m)) = Some (Inr m') \<and> map_ok seed m' \<and> same_type m m' \<and> map_iterating m' = 0
    \<and> map_entries m' = map_entries m \<and> map_count m' * 4 < map_capacity m' * 3
    \<and> map_capacity m' \<le> 2 ^ 30 \<and> map_capacity m' \<le> max (map_capacity m) (max 8 (map_count m * 3))"
proof (cases "map_capacity m * 3 \<le> map_count m * 4")
  case True
  note t = map_okD(1) [OF assms(1), unfolded table_ok_def]
  let ?n = "gray_map_round_capacity (map_capacity m * 2)"
  have n: "?n = max 8 (map_capacity m * 2)" using t assms(3) by (intro double_capacity) simp_all
  have more: "map_count m * 4 < ?n * 3" using t unfolding n by (auto simp: max_def)
  obtain m' where m': "map_rebuild (gray_map_set (Suc fuel) seed) m (map_capacity m * 2) = Some (Inr m')" "map_ok seed m'"
      "same_type m m'" "map_iterating m' = 0" "map_capacity m' = ?n" "map_entries m' = map_entries m"
    using rebuild_ok [OF assms(1,2) less_imp_le [OF more]] by blast
  have "map_count m' = map_count m" using count_entries m'(2,6) assms(1) by metis
  moreover have "?n \<le> max 8 (map_count m * 3)" "?n \<le> 2 ^ 30" using True assms(3) unfolding n by (auto simp: max_def)
  ultimately show ?thesis using m' more True by auto
qed (use assms in auto)

lemma order_rebuild:
  assumes "map_ok seed m" "map_iterating m = 0" "map_capacity m \<le> 2 ^ 30" "map_count m * 4 < map_capacity m * 3"
  shows "\<exists>m'. (if map_capacity m \<le> map_order_len m then map_rebuild (gray_map_set (Suc fuel) seed) m (map_capacity m)
      else Some (Inr m)) = Some (Inr m') \<and> map_ok seed m' \<and> same_type m m' \<and> map_iterating m' = 0
    \<and> map_entries m' = map_entries m \<and> map_count m' = map_count m \<and> map_capacity m' = map_capacity m
    \<and> map_order_len m' < map_capacity m'"
proof (cases "map_capacity m \<le> map_order_len m")
  case True
  have c: "capacity_ok (map_capacity m)" using map_okD(1) [OF assms(1)] assms(4) by (auto simp: table_ok_def)
  then have n: "gray_map_round_capacity (map_capacity m) = map_capacity m" using assms(3) by (rule round_capacity_fixed)
  obtain m' where m': "map_rebuild (gray_map_set (Suc fuel) seed) m (map_capacity m) = Some (Inr m')" "map_ok seed m'"
      "same_type m m'" "map_iterating m' = 0" "map_capacity m' = map_capacity m" "map_entries m' = map_entries m"
      "map_order_len m' \<le> map_count m"
    using rebuild_ok [OF assms(1,2), of "map_capacity m" fuel] assms(4) unfolding n by auto
  have "map_count m' = map_count m" using count_entries m'(2,6) assms(1) by metis
  with m' True assms(4) show ?thesis by auto
qed (use assms in auto)

lemma set_ok:
  assumes "map_ok seed m" "map_iterating m = 0" "map_capacity m \<le> 2 ^ 29"
  shows "\<exists>m'. gray_map_set (Suc (Suc fuel)) seed m key v = Some (Inr m') \<and> map_ok seed m' \<and> same_type m m'
    \<and> map_iterating m' = 0 \<and> map_entries m' = update_entry m key v (map_entries m)
    \<and> map_capacity m' \<le> max (map_capacity m) (max 8 (map_count m * 3))"
proof -
  obtain a where a: "(if map_capacity m * 3 \<le> map_count m * 4 then map_rebuild (gray_map_set (Suc fuel) seed) m (map_capacity m * 2)
      else Some (Inr m)) = Some (Inr a)" "map_ok seed a" "same_type m a" "map_iterating a = 0" "map_entries a = map_entries m"
      "map_count a * 4 < map_capacity a * 3" "map_capacity a \<le> 2 ^ 30"
      "map_capacity a \<le> max (map_capacity m) (max 8 (map_count m * 3))"
    using load_rebuild [OF assms] by blast
  obtain b where b: "(if map_capacity a \<le> map_order_len a then map_rebuild (gray_map_set (Suc fuel) seed) a (map_capacity a)
      else Some (Inr a)) = Some (Inr b)" "map_ok seed b" "same_type a b" "map_iterating b = 0" "map_entries b = map_entries a"
      "map_count b = map_count a" "map_capacity b = map_capacity a" "map_order_len b < map_capacity b"
    using order_rebuild [OF a(2,4,7,6)] by blast
  have "map_count b * 4 < map_capacity b * 3" using a(6) b(6,7) by simp
  note placed = set_probe_ok [OF b(2,8) this refl, of key v]
  have "gray_map_set (Suc (Suc fuel)) seed m key v = Some (Inr (set_probe b key v None (probe_sequence seed b key)))"
    using assms(2) a(1) b(1)
    by (simp add: gray_map_set.simps(2) [of "Suc fuel"] GRAY_MAP_LOAD_NUMERATOR_def GRAY_MAP_LOAD_DENOMINATOR_def bind_run_def)
  moreover have mb: "same_type m b" using a(3) b(3) by (rule same_type_trans)
  then have "same_type m (set_probe b key v None (probe_sequence seed b key))" using placed same_type_trans by blast
  ultimately show ?thesis using placed a(5,8) b(4,5,7) same_type_update [OF mb] by metis
qed

subsection \<open>During an iteration\<close>

lemma set_iterating:
  assumes "map_ok seed m" "0 < map_iterating m"
  shows "if key_of m key \<in> key_of m ` fst ` set (map_entries m)
    then \<exists>m'. gray_map_set (Suc fuel) seed m key v = Some (Inr m') \<and> map_ok seed m' \<and> live_slots m' = live_slots m
      \<and> map_entries m' = update_entry m key v (map_entries m)
    else gray_map_set (Suc fuel) seed m key v = Some (Inl ''P0035'')"
proof (cases "find_slot seed m key")
  case None
  then show ?thesis using assms find_slot_None [OF assms(1), of key] by (simp add: gray_map_set.simps)
next
  case (Some s)
  then show ?thesis using assms find_slot_None [OF assms(1), of key] store_value_ok [OF assms(1), of s v] store_value_entries [OF assms(1) Some, of v]
    by (simp add: gray_map_set.simps)
qed

subsection \<open>The map as an insertion-ordered map\<close>

text \<open>Its table has the entries under their canonical keys.\<close>

definition map_table :: "gray_map \<Rightarrow> (u8 list \<times> element) list" where
  "map_table m = map (\<lambda>e. (key_of m (fst e), snd e)) (map_entries m)"

definition value_stored :: "gray_map \<Rightarrow> element \<Rightarrow> element" where
  "value_stored m v = stored (map_value_kind m) (map_value_size m) v"

text \<open>The bounds under which \<open>n\<close> more entries leave every size in 32 bits, and calls with at least the fuel for both rebuilds.\<close>

definition map_room :: "gray_map \<Rightarrow> nat \<Rightarrow> bool" where
  "map_room m n \<longleftrightarrow> map_iterating m = 0 \<and> map_capacity m \<le> 2 ^ 29 \<and> (map_count m + n) * 3 \<le> 2 ^ 29"

definition set_call :: "nat \<Rightarrow> u64 \<Rightarrow> gray_map \<Rightarrow> element \<Rightarrow> element \<Rightarrow> gray_map option" where
  "set_call fuel seed m key v = (case gray_map_set (fuel + 2) seed m key v of Some (Inr m') \<Rightarrow> Some m' | _ \<Rightarrow> None)"

definition remove_call :: "u64 \<Rightarrow> gray_map \<Rightarrow> element \<Rightarrow> gray_map option" where
  "remove_call seed m key = (case gray_map_remove seed m key of Inr (m', _) \<Rightarrow> Some m' | _ \<Rightarrow> None)"

lemma distinct_map_table: "map_ok seed m \<Longrightarrow> distinct (map fst (map_table m))"
  using map_okD(2,3) [of seed m]
  by (simp add: map_table_def map_entries_def order_ok_def keys_ok_def distinct_map slot_entry_def comp_def)

lemma map_table_keys: "fst ` set (map_table m) = key_of m ` fst ` set (map_entries m)"
  by (simp add: map_table_def image_image)

lemma get_table: "map_ok seed m \<Longrightarrow> gray_map_get seed m key = map_of (map_table m) (key_of m key)"
proof -
  assume ok: "map_ok seed m"
  show ?thesis
  proof (cases "find_slot seed m key")
    case None
    then have "key_of m key \<notin> fst ` set (map_table m)" using find_slot_None [OF ok, of key] unfolding map_table_keys by simp
    then have "map_of (map_table m) (key_of m key) = None" by (simp only: map_of_eq_None_iff not_False_eq_True)
    then show ?thesis using None by (simp add: gray_map_get_def)
  next
    case (Some s)
    then have "s \<in> set (live_slots m)" "key_of m (map_keys m ! s) = key_of m key" using find_slot_iff [OF ok, of key s] by simp_all
    then have "(key_of m key, map_values m ! s) \<in> set (map_table m)"
      by (force simp: map_table_def map_entries_def slot_entry_def)
    then show ?thesis using Some distinct_map_table [OF ok] by (simp add: gray_map_get_def)
  qed
qed

lemma update_present:
  "distinct (map fst al) \<Longrightarrow> k \<in> fst ` set al \<Longrightarrow> AList.update k v al = map (\<lambda>e. (fst e, if fst e = k then v else snd e)) al"
proof (induction al)
  case (Cons e al)
  show ?case
  proof (cases "fst e = k")
    case True
    then have "k \<notin> fst ` set al" using Cons.prems(1) by auto
    then have "map (\<lambda>e. (fst e, if fst e = k then v else snd e)) al = al" by (intro map_idI) (metis image_eqI prod.collapse)
    then show ?thesis using True by (cases e) simp
  next
    case False
    then show ?thesis using Cons by (cases e) auto
  qed
qed simp

lemma update_entry_table:
  assumes "map_ok seed m" "same_type m m'" "map_entries m' = update_entry m key v (map_entries m)"
  shows "map_table m' = AList.update (key_of m key) (value_stored m v) (map_table m)"
proof (cases "key_of m key \<in> fst ` set (map_table m)")
  case True
  moreover have "update_entry m key v es = map (\<lambda>e. (fst e, if key_of m (fst e) = key_of m key then value_stored m v else snd e)) es"
    if "key_of m key \<in> key_of m ` fst ` set es" for es
    using that by (simp add: update_entry_def value_stored_def Let_def split_beta)
  ultimately show ?thesis
    using assms(3) unfolding update_present [OF distinct_map_table [OF assms(1)] True] map_table_keys
    by (simp add: map_table_def same_type_key [OF assms(2)])
next
  case False
  then show ?thesis
    using assms(3) key_of_stored [OF map_okD(1) [OF assms(1)], of key] unfolding update_absent [OF False] map_table_keys
    by (simp add: map_table_def update_entry_def value_stored_def Let_def same_type_key [OF assms(2)])
qed

lemma delete_map: "AList.delete k (map g es) = map g (filter (\<lambda>e. fst (g e) \<noteq> k) es)"
  by (induction es) auto

lemma remove_table:
  "map_entries m' = filter (\<lambda>e. key_of m (fst e) \<noteq> key_of m key) (map_entries m) \<Longrightarrow> same_type m m' \<Longrightarrow>
     map_table m' = AList.delete (key_of m key) (map_table m)"
  using same_type_key [of m m'] by (simp add: map_table_def delete_map)

lemma table_count: "map_ok seed m \<Longrightarrow> length (map_table m) = map_count m"
  by (simp add: map_table_def count_entries)

lemma length_update_le: "length (AList.update k v al) \<le> Suc (length al)"
  by (induction al) auto

lemma set_call_ok:
  assumes "map_ok seed m" "map_room m (Suc n)"
  shows "\<exists>m'. set_call fuel seed m key v = Some m' \<and> map_ok seed m' \<and> map_room m' n \<and> key_of m' = key_of m
    \<and> value_stored m' = value_stored m \<and> map_table m' = AList.update (key_of m key) (value_stored m v) (map_table m)"
proof -
  have room: "map_iterating m = 0" "map_capacity m \<le> 2 ^ 29" "(map_count m + Suc n) * 3 \<le> 2 ^ 29"
    using assms(2) by (simp_all add: map_room_def)
  obtain m' where m': "gray_map_set (Suc (Suc fuel)) seed m key v = Some (Inr m')" "map_ok seed m'" "same_type m m'"
      "map_iterating m' = 0" "map_entries m' = update_entry m key v (map_entries m)"
      "map_capacity m' \<le> max (map_capacity m) (max 8 (map_count m * 3))"
    using set_ok [OF assms(1) room(1,2), of fuel key v] by blast
  have t: "map_table m' = AList.update (key_of m key) (value_stored m v) (map_table m)"
    using assms(1) m'(3,5) by (rule update_entry_table)
  have "map_count m' \<le> Suc (map_count m)"
    using length_update_le [of "key_of m key" "value_stored m v" "map_table m"] table_count [OF assms(1)] table_count [OF m'(2)] by (simp add: t)
  then have "map_room m' n" using m'(4,6) room(2,3) unfolding map_room_def by simp
  moreover have "value_stored m' = value_stored m" using m'(3) by (simp add: value_stored_def same_type_def fun_eq_iff)
  moreover have "set_call fuel seed m key v = Some m'" using m'(1) by (simp add: set_call_def)
  ultimately show ?thesis using m'(2) t same_type_key [OF m'(3)] by blast
qed

lemma remove_call_ok:
  assumes "map_ok seed m" "map_iterating m = 0"
  shows "\<exists>m'. gray_map_remove seed m key = Inr (m', key_of m key \<in> fst ` set (map_table m)) \<and> map_ok seed m' \<and> same_type m m'
    \<and> map_iterating m' = 0 \<and> map_table m' = AList.delete (key_of m key) (map_table m)"
proof -
  obtain m' where m': "gray_map_remove seed m key = Inr (m', key_of m key \<in> key_of m ` fst ` set (map_entries m))"
      "map_ok seed m'" "same_type m m'" "map_iterating m' = 0"
      "map_entries m' = filter (\<lambda>e. key_of m (fst e) \<noteq> key_of m key) (map_entries m)"
    using assms by (rule remove_ok)
  then show ?thesis using remove_table [OF m'(5,3)] unfolding map_table_keys by blast
qed

interpretation lookup: lookup_map "map_ok seed" key_of map_table "gray_map_get seed"
  for seed
  by unfold_locales (simp_all add: distinct_map_table get_table)

interpretation hash_map: ordered_map "map_ok seed" key_of map_table "gray_map_get seed" value_stored map_room "set_call fuel seed" "remove_call seed"
  for seed fuel
proof
  fix m n k
  assume ok: "map_ok seed m" and room: "map_room m n"
  then have "map_iterating m = 0" by (simp add: map_room_def)
  with ok obtain m' where m': "gray_map_remove seed m k = Inr (m', key_of m k \<in> fst ` set (map_table m))" "map_ok seed m'" "same_type m m'"
      "map_iterating m' = 0" "map_table m' = AList.delete (key_of m k) (map_table m)" using remove_call_ok by blast
  have "map_count m' \<le> map_count m" using length_delete_le [of "key_of m k" "map_table m"] table_count [OF ok] table_count [OF m'(2)] by (simp add: m'(5))
  moreover have "map_capacity m' = map_capacity m"
    using m'(1) by (auto simp: gray_map_remove_def Let_def split: if_splits option.splits)
  ultimately have "map_room m' n" using room m'(4) by (simp add: map_room_def)
  moreover have "value_stored m' = value_stored m" using m'(3) by (simp add: value_stored_def same_type_def fun_eq_iff)
  ultimately show "\<exists>m'. remove_call seed m k = Some m' \<and> map_ok seed m' \<and> map_room m' n \<and> key_of m' = key_of m
      \<and> value_stored m' = value_stored m \<and> map_table m' = AList.delete (key_of m k) (map_table m)"
    using m' same_type_key by (simp add: remove_call_def)
qed (simp_all add: distinct_map_table get_table set_call_ok)

lemma remove_entry_table:
  assumes "map_ok seed m" "map_iterating m = 0"
  shows "\<exists>m'. gray_map_remove seed m k = Inr (m', gray_map_has seed m k) \<and> map_ok seed m'
    \<and> map_table m' = AList.delete (key_of m k) (map_table m)"
proof -
  have "gray_map_has seed m k \<longleftrightarrow> key_of m k \<in> fst ` set (map_table m)"
    using find_slot_None [OF assms(1), of k] by (simp add: gray_map_has_def map_table_keys)
  then show ?thesis using remove_call_ok [OF assms, of k] by (auto simp del: fst_conv)
qed

end
