(* ===== verification/Gray_Array.thy ===== *)
theory Gray_Array
  imports Map_Probing Interfaces
begin

text \<open>
  The dynamic array of the runtime (\<open>runtime/array.c\<close> and the access macros of \<open>runtime/array.h\<close>).

  The backing store is the list of its \<open>capacity\<close> slots; a slot the arena has not initialised is an
  empty element, and only the first \<open>len\<close> slots hold elements. Arenas are below the model, and so an
  array is a value. An element is written by its size, as \<open>stored\<close> does for the maps.
\<close>

record gray_array =
  array_data :: "element list"
  array_len :: nat
  array_capacity :: nat
  array_elem_size :: nat
  array_iterating :: nat
  array_elem_kind :: GrayElemKind

definition GRAY_ARRAY_MIN_CAPACITY :: nat where "GRAY_ARRAY_MIN_CAPACITY = 4"

definition array_stored :: "gray_array \<Rightarrow> element \<Rightarrow> element" where
  "array_stored a v = stored (array_elem_kind a) (array_elem_size a) v"

subsection \<open>Creation\<close>

definition gray_array_new :: "nat \<Rightarrow> int \<Rightarrow> GrayElemKind \<Rightarrow> gray_array" where
  "gray_array_new element_size initial_capacity element_kind =
     (let capacity = (if 0 < initial_capacity then nat initial_capacity else GRAY_ARRAY_MIN_CAPACITY)
      in \<lparr>array_data = replicate capacity [], array_len = 0, array_capacity = capacity,
          array_elem_size = element_size, array_iterating = 0, array_elem_kind = element_kind\<rparr>)"

text \<open>\<open>data\<close> is the sequence of elements at the source address, or \<open>None\<close> for the null pointer.\<close>

definition gray_array_from :: "element list option \<Rightarrow> nat \<Rightarrow> nat \<Rightarrow> GrayElemKind \<Rightarrow> gray_array" where
  "gray_array_from data element_size count element_kind =
     (let capacity = (if 0 < count then count else GRAY_ARRAY_MIN_CAPACITY)
      in \<lparr>array_data = (case data of
            Some elements \<Rightarrow> map (stored element_kind element_size) (take count elements) @ replicate (capacity - count) []
          | None \<Rightarrow> replicate capacity []),
          array_len = count, array_capacity = capacity,
          array_elem_size = element_size, array_iterating = 0, array_elem_kind = element_kind\<rparr>)"

definition gray_array_copy :: "gray_array \<Rightarrow> gray_array" where
  "gray_array_copy source =
     gray_array_from (Some (array_data source)) (array_elem_size source) (array_len source) (array_elem_kind source)"

subsection \<open>Access\<close>

text \<open>A pointer to an element is its slot. An index is an \<open>int64_t\<close>.\<close>

definition gray_array_get_ptr :: "gray_array \<Rightarrow> int \<Rightarrow> nat panicking" where
  "gray_array_get_ptr a index =
     (if index < 0 \<or> int (array_len a) \<le> index then Inl ''P0033'' else Inr (nat index))"

definition write_slot :: "gray_array \<Rightarrow> nat \<Rightarrow> element \<Rightarrow> gray_array" where
  "write_slot a slot v = a\<lparr>array_data := (array_data a)[slot := array_stored a v]\<rparr>"

definition gray_array_set :: "gray_array \<Rightarrow> int \<Rightarrow> element \<Rightarrow> gray_array panicking" where
  "gray_array_set a index v =
     (if 0 < array_iterating a then Inl ''P0034''
      else if index < 0 \<or> int (array_len a) \<le> index then Inl ''P0033''
      else Inr (write_slot a (nat index) v))"

text \<open>The macros of generated code, with their checks inline.\<close>

definition GRAY_ARRAY_GET_AT :: "gray_array \<Rightarrow> int \<Rightarrow> element panicking" where
  "GRAY_ARRAY_GET_AT a index =
     (if index < 0 \<or> int (array_len a) \<le> index then Inl ''P0033'' else Inr (array_data a ! nat index))"

definition GRAY_ARRAY_STORE_AT_IMPL :: "gray_array \<Rightarrow> int \<Rightarrow> element \<Rightarrow> bool \<Rightarrow> gray_array panicking" where
  "GRAY_ARRAY_STORE_AT_IMPL a index v check_iterating =
     (if check_iterating \<and> 0 < array_iterating a then Inl ''P0034''
      else if index < 0 \<or> int (array_len a) \<le> index then Inl ''P0033''
      else Inr (write_slot a (nat index) v))"

definition GRAY_ARRAY_SET_AT :: "gray_array \<Rightarrow> int \<Rightarrow> element \<Rightarrow> gray_array panicking" where
  "GRAY_ARRAY_SET_AT a index v = GRAY_ARRAY_STORE_AT_IMPL a index v True"

definition GRAY_ARRAY_STORE_BACK_AT :: "gray_array \<Rightarrow> int \<Rightarrow> element \<Rightarrow> gray_array panicking" where
  "GRAY_ARRAY_STORE_BACK_AT a index v = GRAY_ARRAY_STORE_AT_IMPL a index v False"

definition GRAY_ARRAY_PTR_FOR_WRITE :: "gray_array \<Rightarrow> int \<Rightarrow> nat panicking" where
  "GRAY_ARRAY_PTR_FOR_WRITE a index =
     (if 0 < array_iterating a then Inl ''P0034''
      else if index < 0 \<or> int (array_len a) \<le> index then Inl ''P0033''
      else Inr (nat index))"

subsection \<open>Growth\<close>

definition gray_array_grow :: "gray_array \<Rightarrow> gray_array panicking" where
  "gray_array_grow a =
     (if array_len a < array_capacity a then Inr a
      else if array_capacity a < GRAY_ARRAY_MIN_CAPACITY \<or> array_capacity a \<le> 2147483647 div 2
      then let new_capacity = (if array_capacity a < GRAY_ARRAY_MIN_CAPACITY then GRAY_ARRAY_MIN_CAPACITY
                               else array_capacity a * 2)
           in Inr (a\<lparr>array_data := take (array_len a) (array_data a) @ replicate (new_capacity - array_len a) [],
                     array_capacity := new_capacity\<rparr>)
      else Inl ''P0130'')"

definition gray_array_push :: "gray_array \<Rightarrow> element \<Rightarrow> gray_array panicking" where
  "gray_array_push a v =
     bind_panic (gray_array_grow a) (\<lambda>a. Inr (write_slot a (array_len a) v\<lparr>array_len := array_len a + 1\<rparr>))"

subsection \<open>The invariant and the list of an array\<close>

definition array_list :: "gray_array \<Rightarrow> element list" where
  "array_list a = take (array_len a) (array_data a)"

definition array_ok :: "gray_array \<Rightarrow> bool" where
  "array_ok a \<longleftrightarrow> length (array_data a) = array_capacity a \<and> array_len a \<le> array_capacity a
     \<and> array_capacity a \<le> 2147483647 \<and> (\<forall>e \<in> set (array_list a). array_stored a e = e)"

definition same_elements :: "gray_array \<Rightarrow> gray_array \<Rightarrow> bool" where
  "same_elements a b \<longleftrightarrow> array_elem_size b = array_elem_size a \<and> array_elem_kind b = array_elem_kind a"

lemma same_elements_stored: "same_elements a b \<Longrightarrow> array_stored b = array_stored a"
  by (simp add: same_elements_def array_stored_def fun_eq_iff)

lemma array_stored_twice [simp]: "array_stored a (array_stored a v) = array_stored a v"
  by (simp add: array_stored_def stored_twice)

lemma length_array_list: "array_ok a \<Longrightarrow> length (array_list a) = array_len a"
  by (simp add: array_ok_def array_list_def)

lemma array_nth: "i < array_len a \<Longrightarrow> array_list a ! i = array_data a ! i"
  by (simp add: array_list_def)

lemma new_array_ok:
  assumes "initial_capacity \<le> 2147483647"
  shows "array_ok (gray_array_new element_size initial_capacity kind)" "array_list (gray_array_new element_size initial_capacity kind) = []"
  using assms by (auto simp: gray_array_new_def Let_def array_ok_def array_list_def GRAY_ARRAY_MIN_CAPACITY_def)

lemma from_array:
  assumes "count \<le> length elements" "count \<le> 2147483647"
  shows "array_ok (gray_array_from (Some elements) element_size count kind)"
    "array_list (gray_array_from (Some elements) element_size count kind) = map (stored kind element_size) (take count elements)"
  using assms
  by (auto simp: gray_array_from_def Let_def array_ok_def array_list_def array_stored_def stored_twice GRAY_ARRAY_MIN_CAPACITY_def)

lemma copy_array:
  assumes "array_ok a"
  shows "array_ok (gray_array_copy a)" "array_list (gray_array_copy a) = array_list a" "same_elements a (gray_array_copy a)"
proof -
  have "map (stored (array_elem_kind a) (array_elem_size a)) (array_list a) = array_list a"
    using assms by (intro map_idI) (simp add: array_ok_def array_stored_def)
  moreover have "array_len a \<le> length (array_data a)" "array_len a \<le> 2147483647" using assms by (simp_all add: array_ok_def)
  note from_array [OF this]
  ultimately show "array_ok (gray_array_copy a)" "array_list (gray_array_copy a) = array_list a"
    by (simp_all add: gray_array_copy_def array_list_def)
  show "same_elements a (gray_array_copy a)" by (simp add: gray_array_copy_def gray_array_from_def same_elements_def Let_def)
qed

lemma write_slot_ok:
  assumes "array_ok a" "i < array_len a"
  shows "array_ok (write_slot a i v)" "array_list (write_slot a i v) = (array_list a)[i := array_stored a v]"
    "same_elements a (write_slot a i v)"
proof -
  have l: "array_list (write_slot a i v) = (array_list a)[i := array_stored a v]" by (simp add: write_slot_def array_list_def take_update_swap)
  then show "array_list (write_slot a i v) = (array_list a)[i := array_stored a v]" .
  have "array_stored (write_slot a i v) = array_stored a" by (simp add: write_slot_def array_stored_def fun_eq_iff)
  moreover have "set ((array_list a)[i := array_stored a v]) \<subseteq> insert (array_stored a v) (set (array_list a))" by (rule set_update_subset_insert)
  ultimately show "array_ok (write_slot a i v)" using assms l unfolding array_ok_def by (auto simp: write_slot_def)
  show "same_elements a (write_slot a i v)" by (simp add: write_slot_def same_elements_def)
qed

lemma grow_ok:
  assumes "array_ok a" "array_len a \<le> 2147483647 div 2"
  obtains b where "gray_array_grow a = Inr b" "array_ok b" "array_list b = array_list a" "array_len b = array_len a"
    "array_len b < array_capacity b" "same_elements a b" "array_iterating b = array_iterating a"
proof (cases "array_len a < array_capacity a")
  case True
  then show thesis using that [of a] assms by (simp add: gray_array_grow_def same_elements_def)
next
  case False
  let ?n = "if array_capacity a < GRAY_ARRAY_MIN_CAPACITY then GRAY_ARRAY_MIN_CAPACITY else array_capacity a * 2"
  define b where "b = a\<lparr>array_data := take (array_len a) (array_data a) @ replicate (?n - array_len a) [], array_capacity := ?n\<rparr>"
  have full: "array_len a = array_capacity a" using False assms(1) by (simp add: array_ok_def)
  then have "gray_array_grow a = Inr b" using assms(2) by (simp add: gray_array_grow_def b_def Let_def)
  moreover have l: "array_list b = array_list a" using assms(1) by (simp add: b_def array_list_def array_ok_def)
  moreover have "array_stored b = array_stored a" by (simp add: b_def array_stored_def fun_eq_iff)
  then have "array_ok b" using assms full l unfolding array_ok_def by (auto simp: b_def GRAY_ARRAY_MIN_CAPACITY_def)
  ultimately show thesis using that [of b] full by (simp add: b_def same_elements_def GRAY_ARRAY_MIN_CAPACITY_def)
qed

lemma push_ok:
  assumes "array_ok a" "array_len a \<le> 2147483647 div 2"
  obtains b where "gray_array_push a v = Inr b" "array_ok b" "array_list b = array_list a @ [array_stored a v]"
    "same_elements a b" "array_iterating b = array_iterating a"
proof -
  obtain c where c: "gray_array_grow a = Inr c" "array_ok c" "array_list c = array_list a" "array_len c = array_len a"
      "array_len c < array_capacity c" "same_elements a c" "array_iterating c = array_iterating a"
    using assms by (rule grow_ok)
  define b where "b = write_slot c (array_len c) v\<lparr>array_len := array_len c + 1\<rparr>"
  have s: "array_stored c = array_stored a" "array_stored b = array_stored a"
    using c(6) by (simp_all add: same_elements_stored) (simp add: b_def write_slot_def same_elements_def array_stored_def fun_eq_iff)
  have l: "array_list b = array_list c @ [array_stored a v]"
    using c(2,5) s(1) by (simp add: b_def write_slot_def array_list_def array_ok_def take_Suc_conv_app_nth)
  then have "array_ok b" using c(2,5) s unfolding array_ok_def by (auto simp: b_def write_slot_def)
  moreover have "gray_array_push a v = Inr b" by (simp add: gray_array_push_def c b_def)
  ultimately show thesis using that [of b] l c by (simp add: b_def write_slot_def same_elements_def)
qed

text \<open>The arrays are a vector for as long as they can double.\<close>

interpretation arrays: vector "array_ok" array_list array_stored gray_array_push "1073741824"
proof
  fix a v
  assume "array_ok a" "length (array_list a) < 1073741824"
  moreover from this have "array_len a \<le> 2147483647 div 2" by (simp add: length_array_list)
  ultimately show "\<exists>b. gray_array_push a v = Inr b \<and> array_ok b \<and> array_list b = array_list a @ [array_stored a v] \<and> array_stored b = array_stored a"
    by (metis push_ok same_elements_stored)
qed

text \<open>The inline accesses of generated code agree with the functions of the runtime; the store that puts an
  element back differs only in skipping the iteration check.\<close>

lemma array_macros:
  "GRAY_ARRAY_SET_AT a i v = gray_array_set a i v
   \<and> GRAY_ARRAY_STORE_BACK_AT a i v = (if array_iterating a = 0 then gray_array_set a i v
      else bind_panic (gray_array_get_ptr a i) (\<lambda>slot. Inr (write_slot a slot v)))
   \<and> GRAY_ARRAY_GET_AT a i = bind_panic (gray_array_get_ptr a i) (\<lambda>slot. Inr (array_data a ! slot))
   \<and> bind_panic (GRAY_ARRAY_PTR_FOR_WRITE a i) (\<lambda>slot. Inr (write_slot a slot v)) = gray_array_set a i v"
  by (simp add: GRAY_ARRAY_SET_AT_def GRAY_ARRAY_STORE_BACK_AT_def GRAY_ARRAY_STORE_AT_IMPL_def GRAY_ARRAY_GET_AT_def
      GRAY_ARRAY_PTR_FOR_WRITE_def gray_array_set_def gray_array_get_ptr_def)



end
