(* ===== verification/Arrays.thy ===== *)
theory Arrays
  imports Gray_Array
begin

text \<open>
  The module \<open>arrays\<close> of the standard library (\<open>stdlib/arrays.c\<close>), apart from sorting and searching
  (\<open>Array_Sort\<close>) and hashing (\<open>Array_Hashing\<close>). Loops over the elements of an array are recursions over
  its list; a pointer to an element is its slot, and an element written to \<open>output\<close> is a result.
\<close>

subsection \<open>Modification\<close>

definition ARRAY_CHECK_ITER :: "gray_array \<Rightarrow> gray_array panicking" where
  "ARRAY_CHECK_ITER a = (if 0 < array_iterating a then Inl ''P0034'' else Inr a)"

definition gray_arrays_append :: "gray_array \<Rightarrow> element \<Rightarrow> gray_array panicking" where
  "gray_arrays_append a v = gray_array_push a v"

text \<open>\<open>memmove\<close> of \<open>n\<close> slots.\<close>

definition move_slots :: "element list \<Rightarrow> nat \<Rightarrow> nat \<Rightarrow> nat \<Rightarrow> element list" where
  "move_slots data to from n = take to data @ take n (drop from data) @ drop (to + n) data"

definition gray_arrays_insert_at :: "gray_array \<Rightarrow> int \<Rightarrow> element \<Rightarrow> gray_array panicking" where
  "gray_arrays_insert_at a index v =
     bind_panic (ARRAY_CHECK_ITER a) (\<lambda>a.
       if index < 0 \<or> int (array_len a) < index then Inl ''P0043''
       else bind_panic (gray_array_grow a) (\<lambda>a.
         let a = (if index < int (array_len a)
                  then a\<lparr>array_data := move_slots (array_data a) (nat index + 1) (nat index) (array_len a - nat index)\<rparr>
                  else a);
             a = write_slot a (nat index) v
         in Inr (a\<lparr>array_len := array_len a + 1\<rparr>)))"

definition gray_arrays_prepend :: "gray_array \<Rightarrow> element \<Rightarrow> gray_array panicking" where
  "gray_arrays_prepend a v = gray_arrays_insert_at a 0 v"

definition gray_arrays_remove_at :: "gray_array \<Rightarrow> int \<Rightarrow> gray_array panicking" where
  "gray_arrays_remove_at a index =
     bind_panic (ARRAY_CHECK_ITER a) (\<lambda>a.
       if index < 0 \<or> int (array_len a) \<le> index then Inl ''P0044''
       else Inr (a\<lparr>array_data := move_slots (array_data a) (nat index) (nat index + 1) (array_len a - 1 - nat index),
                   array_len := array_len a - 1\<rparr>))"

fun index_loop :: "(element \<Rightarrow> bool) \<Rightarrow> nat \<Rightarrow> element list \<Rightarrow> int" where
  "index_loop matches i [] = - 1"
| "index_loop matches i (e # es) = (if matches e then int i else index_loop matches (i + 1) es)"

definition gray_arrays_index_of :: "gray_array \<Rightarrow> element \<Rightarrow> int" where
  "gray_arrays_index_of a v = index_loop (\<lambda>e. gray_elem_equal (array_elem_kind a) (array_elem_size a) e v) 0 (array_list a)"

definition gray_arrays_remove :: "gray_array \<Rightarrow> element \<Rightarrow> gray_array panicking" where
  "gray_arrays_remove a v =
     (let index = gray_arrays_index_of a v
      in if 0 \<le> index then gray_arrays_remove_at a index else Inr a)"

definition gray_arrays_clear :: "gray_array \<Rightarrow> gray_array panicking" where
  "gray_arrays_clear a = bind_panic (ARRAY_CHECK_ITER a) (\<lambda>a. Inr (a\<lparr>array_len := 0\<rparr>))"

definition gray_arrays_fill :: "gray_array \<Rightarrow> element \<Rightarrow> int \<Rightarrow> gray_array panicking" where
  "gray_arrays_fill a v fill_count =
     bind_panic (gray_arrays_clear a) (\<lambda>a.
       if 2147483647 < fill_count then Inl ''P0130''
       else run_pushes gray_array_push (replicate (nat fill_count) v) a)"

subsection \<open>Access\<close>

definition gray_arrays_first_ptr :: "gray_array \<Rightarrow> nat panicking" where
  "gray_arrays_first_ptr a = (if array_len a = 0 then Inl ''P0045'' else Inr 0)"

definition gray_arrays_last_ptr :: "gray_array \<Rightarrow> nat panicking" where
  "gray_arrays_last_ptr a = (if array_len a = 0 then Inl ''P0046'' else Inr (array_len a - 1))"

definition gray_arrays_remove_first_raw :: "gray_array \<Rightarrow> (gray_array \<times> element) panicking" where
  "gray_arrays_remove_first_raw a =
     bind_panic (ARRAY_CHECK_ITER a) (\<lambda>a.
       if array_len a = 0 then Inl ''P0047''
       else bind_panic (gray_arrays_remove_at a 0) (\<lambda>b. Inr (b, array_data a ! 0)))"

definition gray_arrays_remove_last_raw :: "gray_array \<Rightarrow> (gray_array \<times> element) panicking" where
  "gray_arrays_remove_last_raw a =
     bind_panic (ARRAY_CHECK_ITER a) (\<lambda>a.
       if array_len a = 0 then Inl ''P0048''
       else Inr (a\<lparr>array_len := array_len a - 1\<rparr>, array_data a ! (array_len a - 1)))"

subsection \<open>Query\<close>

definition gray_arrays_is_empty :: "gray_array \<Rightarrow> bool" where
  "gray_arrays_is_empty a \<longleftrightarrow> array_len a = 0"

definition gray_arrays_contains :: "gray_array \<Rightarrow> element \<Rightarrow> bool" where
  "gray_arrays_contains a v \<longleftrightarrow> 0 \<le> gray_arrays_index_of a v"

definition gray_arrays_count :: "gray_array \<Rightarrow> element \<Rightarrow> int" where
  "gray_arrays_count a v =
     fold (\<lambda>e n. if gray_elem_equal (array_elem_kind a) (array_elem_size a) e v then n + 1 else n) (array_list a) 0"

definition gray_arrays_is_equal :: "gray_array \<Rightarrow> gray_array \<Rightarrow> bool" where
  "gray_arrays_is_equal left right \<longleftrightarrow>
     array_len left = array_len right
     \<and> list_all2 (gray_elem_equal (array_elem_kind left) (array_elem_size left)) (array_list left) (array_list right)"

subsection \<open>Transformation\<close>

text \<open>A result allocated at its exact size and filled from the first slot on.\<close>

definition exact_array :: "nat \<Rightarrow> GrayElemKind \<Rightarrow> element list \<Rightarrow> gray_array" where
  "exact_array element_size kind elements =
     (let result = gray_array_new element_size (int (length elements)) kind
      in result\<lparr>array_data := elements @ drop (length elements) (array_data result), array_len := length elements\<rparr>)"

definition gray_arrays_reverse :: "gray_array \<Rightarrow> gray_array" where
  "gray_arrays_reverse a =
     exact_array (array_elem_size a) (array_elem_kind a)
       (map (\<lambda>i. array_data a ! (array_len a - 1 - i)) [0..<array_len a])"

definition gray_arrays_slice :: "gray_array \<Rightarrow> int \<Rightarrow> int \<Rightarrow> gray_array" where
  "gray_arrays_slice a start end_index =
     (let start = (if start < 0 then 0 else start);
          end_index = (if int (array_len a) < end_index then int (array_len a) else end_index)
      in if end_index \<le> start then gray_array_new (array_elem_size a) 1 (array_elem_kind a)
         else gray_array_from (Some (drop (nat start) (array_data a))) (array_elem_size a) (nat (end_index - start)) (array_elem_kind a))"

definition gray_arrays_concat :: "gray_array \<Rightarrow> gray_array \<Rightarrow> gray_array" where
  "gray_arrays_concat left right =
     exact_array (array_elem_size left) (array_elem_kind left)
       (take (array_len left) (array_data left) @ take (array_len right) (array_data right))"

text \<open>Arrays of arrays are lists of arrays: the arrays an array's elements stand for.\<close>

definition first_inner :: "gray_array list \<Rightarrow> nat \<times> GrayElemKind" where
  "first_inner inners =
     fold (\<lambda>inner (out_es, out_kind). if out_es = 0 then (array_elem_size inner, array_elem_kind inner) else (out_es, out_kind))
       inners (0, GRAY_ELEM_I64)"

definition gray_arrays_flatten :: "gray_array list \<Rightarrow> gray_array" where
  "gray_arrays_flatten inners =
     (let (out_es, out_kind) = first_inner inners;
          out_es = (if out_es = 0 then 8 else out_es)
      in exact_array out_es out_kind (concat (map (\<lambda>inner. take (array_len inner) (array_data inner)) inners)))"

function split_loop :: "gray_array \<Rightarrow> nat \<Rightarrow> nat \<Rightarrow> gray_array list" where
  "split_loop a chunk i =
     (if i < array_len a \<and> 0 < chunk
      then gray_array_from (Some (drop i (array_data a))) (array_elem_size a)
             (if chunk \<le> array_len a - i then chunk else array_len a - i) (array_elem_kind a)
           # split_loop a chunk (i + chunk)
      else [])"
  by pat_completeness auto
termination
  by (relation "measure (\<lambda>(a, chunk, i). array_len a - i)") auto

declare split_loop.simps [simp del]

definition gray_arrays_split_every :: "gray_array \<Rightarrow> int \<Rightarrow> gray_array list" where
  "gray_arrays_split_every a chunk = split_loop a (if chunk \<le> 0 then 1 else nat chunk) 0"

definition pair_array :: "gray_array \<Rightarrow> element \<Rightarrow> element \<Rightarrow> gray_array panicking" where
  "pair_array left e f = run_pushes gray_array_push [e, f] (gray_array_new (array_elem_size left) 2 (array_elem_kind left))"

fun pair_loop :: "gray_array \<Rightarrow> (element \<times> element) list \<Rightarrow> gray_array list panicking" where
  "pair_loop left [] = Inr []"
| "pair_loop left ((e, f) # es) =
     bind_panic (pair_array left e f) (\<lambda>p. bind_panic (pair_loop left es) (\<lambda>ps. Inr (p # ps)))"

definition gray_arrays_pair :: "gray_array \<Rightarrow> gray_array \<Rightarrow> gray_array list panicking" where
  "gray_arrays_pair left right =
     (let shorter = (if array_len left < array_len right then array_len left else array_len right)
      in pair_loop left (zip (take shorter (array_data left)) (take shorter (array_data right))))"

text \<open>The remainders are those of C, whose sign is the dividend's.\<close>

definition gray_arrays_rotate :: "gray_array \<Rightarrow> int \<Rightarrow> gray_array" where
  "gray_arrays_rotate a shift_count =
     (let n = array_len a
      in if n = 0 then gray_array_new (array_elem_size a) 1 (array_elem_kind a)
         else let shift = nat (((shift_count smod int n) + int n) smod int n)
              in exact_array (array_elem_size a) (array_elem_kind a)
                   (map (\<lambda>i. array_data a ! ((i + shift) mod n)) [0..<n]))"

subsection \<open>Computation\<close>

text \<open>An element of zero bytes; a string of zero bytes is the empty one.\<close>

definition zero_element :: "gray_array \<Rightarrow> element" where
  "zero_element a = (if array_elem_kind a = GRAY_ELEM_STRING then [] else replicate (array_elem_size a) 0)"

text \<open>The sum of floats is not modelled: \<open>gray_elem_add\<close> is then \<open>None\<close>.\<close>

fun sum_loop :: "GrayElemKind \<Rightarrow> element \<Rightarrow> element list \<Rightarrow> element panicking option" where
  "sum_loop kind output [] = Some (Inr output)"
| "sum_loop kind output (e # es) =
     (case gray_elem_add kind output e of
        None \<Rightarrow> None
      | Some (Inl code) \<Rightarrow> Some (Inl code)
      | Some (Inr output) \<Rightarrow> sum_loop kind output es)"

definition gray_arrays_get_sum :: "gray_array \<Rightarrow> element panicking option" where
  "gray_arrays_get_sum a = sum_loop (array_elem_kind a) (zero_element a) (array_list a)"

fun extreme_loop :: "gray_array \<Rightarrow> bool \<Rightarrow> nat \<Rightarrow> nat list \<Rightarrow> nat" where
  "extreme_loop a wants_maximum best [] = best"
| "extreme_loop a wants_maximum best (i # is) =
     (let order = gray_elem_compare (array_elem_kind a) (array_elem_size a) (array_data a ! i) (array_data a ! best)
      in extreme_loop a wants_maximum (if (if wants_maximum then 0 < order else order < 0) then i else best) is)"

definition extreme_index :: "gray_array \<Rightarrow> bool \<Rightarrow> int" where
  "extreme_index a wants_maximum =
     (if array_len a = 0 then - 1 else int (extreme_loop a wants_maximum 0 [1..<array_len a]))"

definition gray_arrays_min_index :: "gray_array \<Rightarrow> int" where
  "gray_arrays_min_index a = extreme_index a False"

definition gray_arrays_max_index :: "gray_array \<Rightarrow> int" where
  "gray_arrays_max_index a = extreme_index a True"

definition gray_arrays_get_min :: "gray_array \<Rightarrow> element" where
  "gray_arrays_get_min a =
     (let index = extreme_index a False
      in if index < 0 then zero_element a else array_data a ! nat index)"

definition gray_arrays_get_max :: "gray_array \<Rightarrow> element" where
  "gray_arrays_get_max a =
     (let index = extreme_index a True
      in if index < 0 then zero_element a else array_data a ! nat index)"

end
