(* ===== verification/Introsort.thy ===== *)
theory Introsort
  imports Prelude "HOL-Library.Multiset"
begin

text \<open>
  The sort of \<open>stdlib/arrays.c\<close>: \<open>GRAY_DEFINE_INTROSORT\<close>, a quicksort with a median-of-three pivot,
  insertion sort for short ranges, and heapsort once the recursion is too deep. As in the macro, the
  element type and the test \<open>LESS\<close> are parameters. Indices are natural numbers. The two scans of the
  partition stop at elements of the range, not at its bounds: a scan that leaves the array is \<open>None\<close>.
\<close>

definition GRAY_SORT_INSERTION_CUTOFF :: nat where "GRAY_SORT_INSERTION_CUTOFF = 24"

definition swap_at :: "'a list \<Rightarrow> nat \<Rightarrow> nat \<Rightarrow> 'a list" where
  "swap_at values i j = values[i := values ! j, j := values ! i]"

subsection \<open>Insertion sort\<close>

text \<open>The inner loop, with \<open>k\<close> for the source's \<open>j + 1\<close>, and the store that follows it.\<close>

fun insertion_shift :: "('a \<Rightarrow> 'a \<Rightarrow> bool) \<Rightarrow> nat \<Rightarrow> 'a \<Rightarrow> 'a list \<Rightarrow> nat \<Rightarrow> 'a list" where
  "insertion_shift lt low current values 0 = values[0 := current]"
| "insertion_shift lt low current values (Suc k) =
     (if low \<le> k \<and> lt current (values ! k)
      then insertion_shift lt low current (values[Suc k := values ! k]) k
      else values[Suc k := current])"

definition gray_sort_insertion :: "('a \<Rightarrow> 'a \<Rightarrow> bool) \<Rightarrow> 'a list \<Rightarrow> nat \<Rightarrow> nat \<Rightarrow> 'a list" where
  "gray_sort_insertion lt values low high =
     fold (\<lambda>i values. insertion_shift lt low (values ! i) values i) [Suc low..<Suc high] values"

subsection \<open>Heapsort\<close>

definition larger_child :: "('a \<Rightarrow> 'a \<Rightarrow> bool) \<Rightarrow> 'a list \<Rightarrow> nat \<Rightarrow> nat \<Rightarrow> nat \<Rightarrow> nat" where
  "larger_child lt values low heap_count i =
     (let child = 2 * i + 1
      in if child + 1 < heap_count \<and> lt (values ! (low + child)) (values ! (low + child + 1)) then child + 1 else child)"

lemma larger_child_bounds [simp]: "i < larger_child lt values low heap_count i"
  by (simp add: larger_child_def Let_def)

function gray_sort_sift :: "('a \<Rightarrow> 'a \<Rightarrow> bool) \<Rightarrow> 'a list \<Rightarrow> nat \<Rightarrow> nat \<Rightarrow> nat \<Rightarrow> 'a list" where
  "gray_sort_sift lt values low heap_count i =
     (if heap_count \<le> 2 * i + 1 then values
      else let child = larger_child lt values low heap_count i
           in if \<not> lt (values ! (low + i)) (values ! (low + child)) then values
              else gray_sort_sift lt (swap_at values (low + i) (low + child)) low heap_count child)"
  by pat_completeness auto
termination
  by (relation "measure (\<lambda>(lt, values, low, heap_count, i). heap_count - i)") (auto intro!: diff_less_mono2)

declare gray_sort_sift.simps [simp del]

definition gray_sort_heap :: "('a \<Rightarrow> 'a \<Rightarrow> bool) \<Rightarrow> 'a list \<Rightarrow> nat \<Rightarrow> nat \<Rightarrow> 'a list" where
  "gray_sort_heap lt values low high =
     (let heap_count = high - low + 1;
          values = fold (\<lambda>i values. gray_sort_sift lt values low heap_count i) (rev [0..<heap_count div 2]) values
      in fold (\<lambda>heap_end values. gray_sort_sift lt (swap_at values low (low + heap_end)) low heap_end 0)
           (rev [1..<heap_count]) values)"

subsection \<open>Partition\<close>

text \<open>The pivot moves to the middle, between a smaller element at the low and a larger one at the high end.\<close>

definition median_of_3 :: "('a \<Rightarrow> 'a \<Rightarrow> bool) \<Rightarrow> 'a list \<Rightarrow> nat \<Rightarrow> nat \<Rightarrow> nat \<Rightarrow> 'a list" where
  "median_of_3 lt values low middle high =
     (let values = (if lt (values ! middle) (values ! low) then swap_at values middle low else values);
          values = (if lt (values ! high) (values ! low) then swap_at values high low else values)
      in if lt (values ! high) (values ! middle) then swap_at values high middle else values)"

function scan_up :: "('a \<Rightarrow> 'a \<Rightarrow> bool) \<Rightarrow> 'a \<Rightarrow> 'a list \<Rightarrow> nat \<Rightarrow> nat option" where
  "scan_up lt pivot values i =
     (if length values \<le> i then None
      else if lt (values ! i) pivot then scan_up lt pivot values (i + 1) else Some i)"
  by pat_completeness auto
termination
  by (relation "measure (\<lambda>(lt, pivot, values, i). length values - i)") auto

declare scan_up.simps [simp del]

fun scan_down :: "('a \<Rightarrow> 'a \<Rightarrow> bool) \<Rightarrow> 'a \<Rightarrow> 'a list \<Rightarrow> nat \<Rightarrow> nat option" where
  "scan_down lt pivot values 0 = (if lt pivot (values ! 0) then None else Some 0)"
| "scan_down lt pivot values (Suc j) =
     (if lt pivot (values ! Suc j) then scan_down lt pivot values j else Some (Suc j))"

lemma scan_up_Some: "scan_up lt pivot vs i = Some i' \<Longrightarrow>
  i \<le> i' \<and> i' < length vs \<and> \<not> lt (vs ! i') pivot \<and> (\<forall>k. i \<le> k \<and> k < i' \<longrightarrow> lt (vs ! k) pivot)"
proof (induction lt pivot vs i rule: scan_up.induct)
  case (1 lt pivot vs i)
  note step = scan_up.simps [of lt pivot vs i]
  show ?case
  proof (cases "i < length vs \<and> lt (vs ! i) pivot")
    case True
    then have "scan_up lt pivot vs (i + 1) = Some i'" using 1(2) step by simp
    with 1(1) True have IH: "i + 1 \<le> i' \<and> i' < length vs \<and> \<not> lt (vs ! i') pivot \<and> (\<forall>k. i + 1 \<le> k \<and> k < i' \<longrightarrow> lt (vs ! k) pivot)"
      by simp
    have "i = k \<or> i + 1 \<le> k" if "i \<le> k" for k using that by linarith
    then show ?thesis using IH True by auto
  qed (use 1(2) step in \<open>auto split: if_splits\<close>)
qed

lemma scan_down_Some: "scan_down lt pivot vs j = Some j' \<Longrightarrow>
  j' \<le> j \<and> \<not> lt pivot (vs ! j') \<and> (\<forall>k. j' < k \<and> k \<le> j \<longrightarrow> lt pivot (vs ! k))"
  by (induction j) (auto simp: le_Suc_eq split: if_splits)

text \<open>The loop that exchanges elements on the wrong sides; its result is the end of the left part.\<close>

function partition_loop :: "('a \<Rightarrow> 'a \<Rightarrow> bool) \<Rightarrow> 'a \<Rightarrow> 'a list \<Rightarrow> nat \<Rightarrow> nat \<Rightarrow> ('a list \<times> nat) option" where
  "partition_loop lt pivot values i j =
     (case scan_up lt pivot values i of
        None \<Rightarrow> None
      | Some i \<Rightarrow>
         (case scan_down lt pivot values j of
            None \<Rightarrow> None
          | Some j \<Rightarrow>
              if j \<le> i then Some (values, j)
              else partition_loop lt pivot (swap_at values i j) (i + 1) (j - 1)))"
  by pat_completeness auto
termination
  by (relation "measure (\<lambda>(lt, pivot, values, i, j). j)") (auto dest!: scan_down_Some)

declare partition_loop.simps [simp del]

subsection \<open>The sort\<close>

text \<open>Each turn of the loop and each call below it lowers the depth by one, down to heapsort.\<close>

primrec gray_sort_introsort :: "('a \<Rightarrow> 'a \<Rightarrow> bool) \<Rightarrow> nat \<Rightarrow> 'a list \<Rightarrow> nat \<Rightarrow> nat \<Rightarrow> 'a list option" where
  "gray_sort_introsort lt 0 values low high =
     (if GRAY_SORT_INSERTION_CUTOFF < high - low then Some (gray_sort_heap lt values low high)
      else Some (gray_sort_insertion lt values low high))"
| "gray_sort_introsort lt (Suc depth) values low high =
     (if GRAY_SORT_INSERTION_CUTOFF < high - low
      then let middle = low + (high - low) div 2;
               values = median_of_3 lt values low middle high
           in (case partition_loop lt (values ! middle) values low high of
                 None \<Rightarrow> None
               | Some (values, j) \<Rightarrow>
                   if j - low < high - (j + 1)
                   then Option.bind (gray_sort_introsort lt depth values low j)
                          (\<lambda>values. gray_sort_introsort lt depth values (j + 1) high)
                   else Option.bind (gray_sort_introsort lt depth values (j + 1) high)
                          (\<lambda>values. gray_sort_introsort lt depth values low j))
      else Some (gray_sort_insertion lt values low high))"

fun sort_depth :: "nat \<Rightarrow> nat" where
  "sort_depth remaining = (if 1 < remaining then 2 + sort_depth (remaining div 2) else 0)"

declare sort_depth.simps [simp del]

definition gray_sort :: "('a \<Rightarrow> 'a \<Rightarrow> bool) \<Rightarrow> 'a list \<Rightarrow> nat \<Rightarrow> 'a list option" where
  "gray_sort lt data heap_count = gray_sort_introsort lt (sort_depth heap_count) data 0 (heap_count - 1)"

subsection \<open>Rearranging a range\<close>

text \<open>A step moves the elements between two indices and leaves the others in place.\<close>

definition rearranged :: "nat \<Rightarrow> nat \<Rightarrow> 'a list \<Rightarrow> 'a list \<Rightarrow> bool" where
  "rearranged low high vs ws \<longleftrightarrow> mset ws = mset vs \<and> (\<forall>k. k < low \<or> high < k \<longrightarrow> ws ! k = vs ! k)"

lemma rearranged_refl [simp]: "rearranged low high vs vs"
  by (simp add: rearranged_def)

lemma rearranged_trans [trans]: "rearranged low high us vs \<Longrightarrow> rearranged low high vs ws \<Longrightarrow> rearranged low high us ws"
  by (simp add: rearranged_def)

lemma rearranged_wider: "rearranged low high vs ws \<Longrightarrow> low' \<le> low \<Longrightarrow> high \<le> high' \<Longrightarrow> rearranged low' high' vs ws"
  by (simp add: rearranged_def)

lemma rearranged_length: "rearranged low high vs ws \<Longrightarrow> length ws = length vs"
  unfolding rearranged_def by (metis mset_eq_length)

lemma rearranged_outside: "rearranged low high vs ws \<Longrightarrow> k < low \<or> high < k \<Longrightarrow> ws ! k = vs ! k"
  unfolding rearranged_def by blast

lemma rearranged_slice:
  assumes "rearranged low high vs ws" "high < length vs" "low \<le> high"
  shows "mset (take (Suc high - low) (drop low ws)) = mset (take (Suc high - low) (drop low vs))"
proof -
  have len: "length ws = length vs" using assms(1) by (rule rearranged_length)
  have "take low ws = take low vs" "drop (Suc high) ws = drop (Suc high) vs"
    using assms len by (auto intro!: nth_equalityI simp: rearranged_def)
  moreover have "mset xs = mset (take low xs) + mset (take (Suc high - low) (drop low xs)) + mset (drop (Suc high) xs)" for xs :: "'a list"
  proof -
    have "drop (Suc high) xs = drop (Suc high - low) (drop low xs)" using assms(3) by simp
    then have "xs = take low xs @ take (Suc high - low) (drop low xs) @ drop (Suc high) xs" by (simp only: append_take_drop_id)
    then show ?thesis by (metis mset_append union_assoc)
  qed
  note this [of ws] this [of vs]
  ultimately show ?thesis using assms(1) unfolding rearranged_def by simp
qed

lemma rearranged_inside:
  assumes "rearranged low high vs ws" "high < length vs" "low \<le> k" "k \<le> high"
  shows "\<exists>k'. low \<le> k' \<and> k' \<le> high \<and> ws ! k = vs ! k'"
proof -
  have len: "length ws = length vs" using assms(1) by (rule rearranged_length)
  have "take (Suc high - low) (drop low ws) ! (k - low) \<in> set (take (Suc high - low) (drop low ws))"
    using assms len by (intro nth_mem) simp
  then have "ws ! k \<in> set (take (Suc high - low) (drop low ws))" using assms len by simp
  also have "set (take (Suc high - low) (drop low ws)) = set (take (Suc high - low) (drop low vs))"
    using rearranged_slice [OF assms(1,2)] assms(3,4) by (metis dual_order.trans set_mset_mset)
  finally obtain n where "n < Suc high - low" "ws ! k = vs ! (low + n)" using assms(2) by (auto simp: in_set_conv_nth)
  then show ?thesis by (intro exI [of _ "low + n"]) auto
qed

lemma swap_at_nth:
  "i < length vs \<Longrightarrow> j < length vs \<Longrightarrow> swap_at vs i j ! k = (if k = j then vs ! i else if k = i then vs ! j else vs ! k)"
  by (simp add: swap_at_def nth_list_update)

lemma length_swap_at [simp]: "length (swap_at vs i j) = length vs"
  by (simp add: swap_at_def)

lemma swap_at_rearranged:
  "i < length vs \<Longrightarrow> j < length vs \<Longrightarrow> low \<le> i \<Longrightarrow> i \<le> high \<Longrightarrow> low \<le> j \<Longrightarrow> j \<le> high \<Longrightarrow> rearranged low high vs (swap_at vs i j)"
  unfolding rearranged_def by (auto simp: swap_at_nth) (simp add: swap_at_def mset_swap)

end
