(* ===== verification/Introsort_Values.thy ===== *)
theory Introsort_Values
  imports Introsort
begin

text \<open>
  The introsort rearranges its range, never leaves it, and sorts it by any strict weak order: insertion
  sort, heapsort and the partition first, then their composition by induction on the depth.
\<close>

subsection \<open>Every step rearranges\<close>

lemma length_insertion_shift [simp]: "length (insertion_shift lt low x vs k) = length vs"
  by (induction k arbitrary: vs) auto

lemma insertion_shift_mset: "k < length vs \<Longrightarrow> mset (insertion_shift lt low x vs k) = mset (vs[k := x])"
proof (induction k arbitrary: vs)
  case (Suc k)
  let ?w = "vs[Suc k := x]"
  have "mset (vs[Suc k := vs ! k, k := x]) = mset (?w[Suc k := ?w ! k, k := ?w ! Suc k])" using Suc.prems by simp
  also have "\<dots> = mset ?w" using Suc.prems by (intro mset_swap) simp_all
  finally have "mset (vs[Suc k := vs ! k, k := x]) = mset ?w" .
  then show ?case using Suc.IH [of "vs[Suc k := vs ! k]"] Suc.prems by simp
qed simp

lemma insertion_shift_outside: "low \<le> k \<Longrightarrow> q < low \<or> k < q \<Longrightarrow> insertion_shift lt low x vs k ! q = vs ! q"
  by (induction k arbitrary: vs) auto

lemma insertion_shift_rearranged: "low \<le> k \<Longrightarrow> k < length vs \<Longrightarrow> rearranged low k vs (insertion_shift lt low (vs ! k) vs k)"
  by (simp add: rearranged_def insertion_shift_mset insertion_shift_outside)

lemma sift_rearranged: "low + n \<le> length vs \<Longrightarrow> rearranged low (low + n - 1) vs (gray_sort_sift lt vs low n i)"
proof (induction lt vs low n i rule: gray_sort_sift.induct)
  case (1 lt vs low n i)
  note step = gray_sort_sift.simps [of lt vs low n i]
  let ?c = "larger_child lt vs low n i"
  show ?case
  proof (cases "\<not> n \<le> 2 * i + 1 \<and> lt (vs ! (low + i)) (vs ! (low + ?c))")
    case True
    then have c: "?c < n" "i < n" by (auto simp: larger_child_def Let_def)
    have "rearranged low (low + n - 1) vs (swap_at vs (low + i) (low + ?c))"
      using c 1(2) by (intro swap_at_rearranged) simp_all
    moreover have "rearranged low (low + n - 1) (swap_at vs (low + i) (low + ?c)) (gray_sort_sift lt (swap_at vs (low + i) (low + ?c)) low n ?c)"
      using 1(1) [OF _ refl] True 1(2) by simp
    ultimately show ?thesis using True step rearranged_trans by (simp add: Let_def) blast
  qed (use step in \<open>auto simp: Let_def\<close>)
qed

subsection \<open>Order\<close>

definition in_order :: "('a \<Rightarrow> 'a \<Rightarrow> bool) \<Rightarrow> nat \<Rightarrow> nat \<Rightarrow> 'a list \<Rightarrow> bool" where
  "in_order lt low stop vs \<longleftrightarrow> (\<forall>i j. low \<le> i \<and> i < j \<and> j < stop \<longrightarrow> \<not> lt (vs ! j) (vs ! i))"

definition heap_at :: "('a \<Rightarrow> 'a \<Rightarrow> bool) \<Rightarrow> nat \<Rightarrow> nat \<Rightarrow> 'a list \<Rightarrow> nat \<Rightarrow> bool" where
  "heap_at lt low n vs p \<longleftrightarrow> (\<forall>c < n. c = 2 * p + 1 \<or> c = 2 * p + 2 \<longrightarrow> \<not> lt (vs ! (low + p)) (vs ! (low + c)))"

lemma heap_atD: "heap_at lt low n vs p \<Longrightarrow> c = 2 * p + 1 \<or> c = 2 * p + 2 \<Longrightarrow> c < n \<Longrightarrow> \<not> lt (vs ! (low + p)) (vs ! (low + c))"
  unfolding heap_at_def by blast

text \<open>No element right of \<open>j\<close> is below one at or left of it.\<close>

definition split_at :: "('a \<Rightarrow> 'a \<Rightarrow> bool) \<Rightarrow> nat \<Rightarrow> nat \<Rightarrow> nat \<Rightarrow> 'a list \<Rightarrow> bool" where
  "split_at lt low j high vs \<longleftrightarrow> (\<forall>a b. low \<le> a \<and> a \<le> j \<and> j < b \<and> b \<le> high \<longrightarrow> \<not> lt (vs ! b) (vs ! a))"

lemma in_order_rearranged:
  "in_order lt low stop vs \<Longrightarrow> rearranged l h vs ws \<Longrightarrow> h < low \<or> stop \<le> l \<Longrightarrow> in_order lt low stop ws"
  by (auto simp: in_order_def rearranged_def)

lemma split_at_rearranged_left:
  assumes "split_at lt low j high vs" "rearranged low j vs ws" "j < length vs"
  shows "split_at lt low j high ws"
  unfolding split_at_def
proof (intro allI impI)
  fix a b
  assume ab: "low \<le> a \<and> a \<le> j \<and> j < b \<and> b \<le> high"
  then obtain a' where "low \<le> a'" "a' \<le> j" "ws ! a = vs ! a'" using rearranged_inside [OF assms(2,3)] by blast
  then show "\<not> lt (ws ! b) (ws ! a)" using assms(1) ab rearranged_outside [OF assms(2), of b] by (auto simp: split_at_def)
qed

lemma split_at_rearranged_right:
  assumes "split_at lt low j high vs" "rearranged (Suc j) high vs ws" "high < length vs"
  shows "split_at lt low j high ws"
  unfolding split_at_def
proof (intro allI impI)
  fix a b
  assume ab: "low \<le> a \<and> a \<le> j \<and> j < b \<and> b \<le> high"
  then obtain b' where "Suc j \<le> b'" "b' \<le> high" "ws ! b = vs ! b'" using rearranged_inside [OF assms(2,3), of b] by auto
  then show "\<not> lt (ws ! b) (ws ! a)" using assms(1) ab rearranged_outside [OF assms(2), of a] by (auto simp: split_at_def)
qed

lemma in_order_split:
  assumes "in_order lt low (Suc j) vs" "in_order lt (Suc j) (Suc high) vs" "split_at lt low j high vs"
  shows "in_order lt low (Suc high) vs"
  unfolding in_order_def
proof (intro allI impI)
  fix a b
  assume "low \<le> a \<and> a < b \<and> b < Suc high"
  then show "\<not> lt (vs ! b) (vs ! a)" using assms unfolding in_order_def split_at_def
    by (cases "b \<le> j"; cases "a \<le> j") auto
qed

text \<open>What the sort needs of its test: a strict weak order.\<close>

locale sort_order =
  fixes lt :: "'a \<Rightarrow> 'a \<Rightarrow> bool"
  assumes asym: "lt x y \<Longrightarrow> \<not> lt y x"
    and le_trans: "\<not> lt y x \<Longrightarrow> \<not> lt z y \<Longrightarrow> \<not> lt z x"
begin

lemma irrefl: "\<not> lt x x"
  using asym by blast

lemma store_order:
  assumes "k \<le> upper" "upper < length vs"
    and others: "\<And>i j. low \<le> i \<Longrightarrow> i < j \<Longrightarrow> j \<le> upper \<Longrightarrow> i \<noteq> k \<Longrightarrow> j \<noteq> k \<Longrightarrow> \<not> lt (vs ! j) (vs ! i)"
    and "\<And>q. k < q \<Longrightarrow> q \<le> upper \<Longrightarrow> lt x (vs ! q)"
    and below: "\<And>i. low \<le> i \<Longrightarrow> i < k \<Longrightarrow> \<not> lt x (vs ! i)"
  shows "in_order lt low (Suc upper) (vs[k := x])"
  unfolding in_order_def
proof (intro allI impI)
  fix i j
  assume ij: "low \<le> i \<and> i < j \<and> j < Suc upper"
  have x: "vs[k := x] ! k = x" using assms(1,2) by simp
  show "\<not> lt (vs[k := x] ! j) (vs[k := x] ! i)"
  proof (cases "i = k \<or> j = k")
    case True
    then show ?thesis
    proof
      assume "i = k"
      then have "lt x (vs ! j)" using assms(4) ij by simp
      then show ?thesis using \<open>i = k\<close> x ij asym by simp
    next
      assume "j = k"
      then show ?thesis using below [of i] x ij by simp
    qed
  next
    case False
    then show ?thesis using others [of i j] ij by simp
  qed
qed

lemma insertion_shift_order:
  assumes "low \<le> k" "k \<le> upper" "upper < length vs"
    and "\<And>i j. low \<le> i \<Longrightarrow> i < j \<Longrightarrow> j \<le> upper \<Longrightarrow> i \<noteq> k \<Longrightarrow> j \<noteq> k \<Longrightarrow> \<not> lt (vs ! j) (vs ! i)"
    and "\<And>q. k < q \<Longrightarrow> q \<le> upper \<Longrightarrow> lt x (vs ! q)"
  shows "in_order lt low (Suc upper) (insertion_shift lt low x vs k)"
  using assms
proof (induction k arbitrary: vs)
  case 0
  have "in_order lt low (Suc upper) (vs[0 := x])" using 0(2-5) by (rule store_order) simp_all
  then show ?case by simp
next
  case (Suc k)
  show ?case
  proof (cases "low \<le> k \<and> lt x (vs ! k)")
    case True
    have "in_order lt low (Suc upper) (insertion_shift lt low x (vs[Suc k := vs ! k]) k)"
    proof (rule Suc.IH)
      show "\<not> lt (vs[Suc k := vs ! k] ! j) (vs[Suc k := vs ! k] ! i)" if "low \<le> i" "i < j" "j \<le> upper" "i \<noteq> k" "j \<noteq> k" for i j
        using that Suc.prems(2,3) Suc.prems(4) [of i j] Suc.prems(4) [of i k] Suc.prems(4) [of k j] True
        by (cases "i = Suc k"; cases "j = Suc k") auto
      show "lt x (vs[Suc k := vs ! k] ! q)" if "k < q" "q \<le> upper" for q
        using that Suc.prems(2,3,5) True by (cases "q = Suc k") auto
    qed (use Suc.prems(1-3) True in simp_all)
    then show ?thesis using True by simp
  next
    case False
    have "\<not> lt x (vs ! i)" if "low \<le> i" "i < Suc k" for i
    proof (cases "i = k")
      case False
      then have "\<not> lt (vs ! k) (vs ! i)" using Suc.prems(2,4) that by simp
      moreover have "\<not> lt x (vs ! k)" using \<open>\<not> (low \<le> k \<and> lt x (vs ! k))\<close> that by simp
      ultimately show ?thesis by (rule le_trans)
    qed (use False that in simp)
    with Suc.prems(2-5) have "in_order lt low (Suc upper) (vs[Suc k := x])" by (rule store_order)
    then show ?thesis using False by (simp only: insertion_shift.simps if_False)
  qed
qed

lemma insertion_sorts:
  assumes "low \<le> high" "high < length vs"
  shows "rearranged low high vs (gray_sort_insertion lt vs low high) \<and> in_order lt low (Suc high) (gray_sort_insertion lt vs low high)"
proof -
  have "rearranged low (low + n) vs (fold (\<lambda>i vs. insertion_shift lt low (vs ! i) vs i) [Suc low..<Suc (low + n)] vs)
      \<and> in_order lt low (Suc (low + n)) (fold (\<lambda>i vs. insertion_shift lt low (vs ! i) vs i) [Suc low..<Suc (low + n)] vs)"
    if "low + n < length vs" for n
    using that
  proof (induction n)
    case (Suc n)
    define ws where "ws = fold (\<lambda>i vs. insertion_shift lt low (vs ! i) vs i) [Suc low..<Suc (low + n)] vs"
    have ws: "rearranged low (low + n) vs ws" "in_order lt low (Suc (low + n)) ws" using Suc by (simp_all add: ws_def)
    have len: "length ws = length vs" using ws(1) by (rule rearranged_length)
    let ?us = "insertion_shift lt low (ws ! Suc (low + n)) ws (Suc (low + n))"
    have "in_order lt low (Suc (Suc (low + n))) ?us"
      using ws(2) Suc.prems len by (intro insertion_shift_order) (auto simp: in_order_def)
    moreover have "rearranged low (Suc (low + n)) ws ?us" using Suc.prems len by (intro insertion_shift_rearranged) auto
    moreover have "rearranged low (Suc (low + n)) vs ws" using ws(1) by (rule rearranged_wider) simp_all
    ultimately have "rearranged low (Suc (low + n)) vs ?us" "in_order lt low (Suc (Suc (low + n))) ?us"
      using rearranged_trans by blast+
    moreover have "fold (\<lambda>i vs. insertion_shift lt low (vs ! i) vs i) [Suc low..<Suc (low + Suc n)] vs = ?us"
      by (simp del: insertion_shift.simps add: ws_def)
    ultimately show ?case by (simp del: insertion_shift.simps)
  qed (auto simp: in_order_def)
  from this [of "high - low"] assms show ?thesis by (simp add: gray_sort_insertion_def)
qed

subsection \<open>Heapsort\<close>

text \<open>Sifting from \<open>i\<close> repairs a heap that is broken at \<open>i\<close> only.\<close>

lemma sift_heap:
  assumes "low + n \<le> length vs" "s \<le> i"
    and "\<And>p. s \<le> p \<Longrightarrow> p \<noteq> i \<Longrightarrow> heap_at lt low n vs p"
    and "\<And>p c. s \<le> p \<Longrightarrow> i = 2 * p + 1 \<or> i = 2 * p + 2 \<Longrightarrow> c = 2 * i + 1 \<or> c = 2 * i + 2 \<Longrightarrow> c < n \<Longrightarrow> \<not> lt (vs ! (low + p)) (vs ! (low + c))"
    and "s \<le> p"
  shows "heap_at lt low n (gray_sort_sift lt vs low n i) p"
  using assms
proof (induction i arbitrary: vs rule: measure_induct_rule [where f = "\<lambda>i. n - i"])
  case (less i)
  note step = gray_sort_sift.simps [of lt vs low n i]
  let ?c = "larger_child lt vs low n i"
  let ?ws = "swap_at vs (low + i) (low + ?c)"
  show ?case
  proof (cases "n \<le> 2 * i + 1")
    case True
    then have "heap_at lt low n vs i" by (auto simp: heap_at_def)
    then show ?thesis using less.prems(3,5) True step by (cases "p = i") simp_all
  next
    case False
    then have c: "?c = 2 * i + 1 \<or> ?c = 2 * i + 2" "?c < n" "i < ?c" by (auto simp: larger_child_def Let_def)
    have big: "\<not> lt (vs ! (low + ?c)) (vs ! (low + c))" if "c = 2 * i + 1 \<or> c = 2 * i + 2" "c < n" for c
      using that asym irrefl by (auto simp: larger_child_def Let_def)
    show ?thesis
    proof (cases "lt (vs ! (low + i)) (vs ! (low + ?c))")
      case True
      have ws: "?ws ! (low + k) = (if k = ?c then vs ! (low + i) else if k = i then vs ! (low + ?c) else vs ! (low + k))" for k
        using swap_at_nth [of "low + i" vs "low + ?c" "low + k"] c(2,3) less.prems(1) by simp
      have "heap_at lt low n (gray_sort_sift lt ?ws low n ?c) p"
      proof (rule less.IH)
        show "heap_at lt low n ?ws q" if q: "s \<le> q" "q \<noteq> ?c" for q
          unfolding heap_at_def
        proof (intro allI impI)
          fix d
          assume d: "d < n" "d = 2 * q + 1 \<or> d = 2 * q + 2"
          show "\<not> lt (?ws ! (low + q)) (?ws ! (low + d))"
          proof (cases "q = i")
            case True
            then show ?thesis using big [of d] asym [OF \<open>lt (vs ! (low + i)) (vs ! (low + ?c))\<close>] d ws [of q] ws [of d] c(3) by auto
          next
            case False
            have "\<not> lt (vs ! (low + q)) (vs ! (low + d))" by (rule heap_atD [OF less.prems(3) [OF q(1) False] d(2,1)])
            moreover have "d \<noteq> ?c" using d(2) c(1) False by presburger
            moreover have "\<not> lt (vs ! (low + q)) (vs ! (low + ?c))" if "d = i"
              using less.prems(4) [OF q(1), of ?c] d(2) c that by simp
            ultimately show ?thesis using False q(2) by (simp add: ws)
          qed
        qed
        show "\<not> lt (?ws ! (low + q)) (?ws ! (low + d))"
          if q: "s \<le> q" "?c = 2 * q + 1 \<or> ?c = 2 * q + 2" "d = 2 * ?c + 1 \<or> d = 2 * ?c + 2" "d < n" for q d
        proof -
          have "q = i" using q(2) c(1) by presburger
          moreover have "\<not> lt (vs ! (low + ?c)) (vs ! (low + d))"
            using heap_atD [OF less.prems(3) [of ?c] q(3,4)] less.prems(2) c(3) by simp
          moreover have "d \<noteq> ?c" "d \<noteq> i" using q(3) c(3) by linarith+
          ultimately show ?thesis using order.strict_implies_not_eq [OF c(3)] by (simp add: ws)
        qed
      qed (use less.prems c in auto)
      then show ?thesis using step True False by (simp add: Let_def)
    next
      case noswap: False
      have "heap_at lt low n vs i" using big le_trans noswap unfolding heap_at_def by blast
      then show ?thesis using less.prems(3,5) noswap False step by (cases "p = i") (simp_all add: Let_def)
    qed
  qed
qed

lemma heap_root:
  assumes "\<And>p. heap_at lt low n vs p"
  shows "c < n \<Longrightarrow> \<not> lt (vs ! low) (vs ! (low + c))"
proof (induction c rule: less_induct)
  case (less c)
  show ?case
  proof (cases "c = 0")
    case False
    let ?p = "(c - 1) div 2"
    have "c = 2 * ?p + 1 \<or> c = 2 * ?p + 2" "?p < c" using False by presburger+
    then have "\<not> lt (vs ! (low + ?p)) (vs ! (low + c))" "\<not> lt (vs ! low) (vs ! (low + ?p))"
      using heap_atD [OF assms [of ?p] _ less.prems] less.IH [of ?p] less.prems by simp_all
    then show ?thesis using le_trans by blast
  qed (simp add: irrefl)
qed

lemma build_heap:
  assumes "low + n \<le> length vs" "\<And>p. k \<le> p \<Longrightarrow> heap_at lt low n vs p"
  shows "rearranged low (low + n - 1) vs (fold (\<lambda>i vs. gray_sort_sift lt vs low n i) (rev [0..<k]) vs)
    \<and> (\<forall>p. heap_at lt low n (fold (\<lambda>i vs. gray_sort_sift lt vs low n i) (rev [0..<k]) vs) p)"
  using assms
proof (induction k arbitrary: vs)
  case (Suc k)
  let ?ws = "gray_sort_sift lt vs low n k"
  have ws: "rearranged low (low + n - 1) vs ?ws" using Suc.prems(1) by (rule sift_rearranged)
  have "heap_at lt low n ?ws p" if "k \<le> p" for p
    using Suc.prems that by (intro sift_heap [where s = k]) simp_all
  then have "rearranged low (low + n - 1) ?ws (fold (\<lambda>i vs. gray_sort_sift lt vs low n i) (rev [0..<k]) ?ws)
    \<and> (\<forall>p. heap_at lt low n (fold (\<lambda>i vs. gray_sort_sift lt vs low n i) (rev [0..<k]) ?ws) p)"
    using Suc.prems(1) rearranged_length [OF ws] by (intro Suc.IH) simp_all
  then show ?case using rearranged_trans [OF ws] by simp
qed auto

lemma extract_heap:
  assumes "low + n \<le> length vs" "m < n" "\<And>p. heap_at lt low (Suc m) vs p"
    and "in_order lt (low + Suc m) (low + n) vs" "split_at lt low (low + m) (low + n - 1) vs"
  shows "rearranged low (low + m) vs (fold (\<lambda>m vs. gray_sort_sift lt (swap_at vs low (low + m)) low m 0) (rev [1..<Suc m]) vs)
    \<and> in_order lt low (low + n) (fold (\<lambda>m vs. gray_sort_sift lt (swap_at vs low (low + m)) low m 0) (rev [1..<Suc m]) vs)"
  using assms
proof (induction m arbitrary: vs)
  case 0
  have "in_order lt low (Suc low) vs" by (auto simp: in_order_def)
  moreover have "Suc (low + n - 1) = low + n" using 0(2) by simp
  ultimately have "in_order lt low (low + n) vs" using in_order_split [of lt low low vs "low + n - 1"] 0(4,5) by simp
  then show ?case by simp
next
  case (Suc m)
  let ?f = "\<lambda>m vs. gray_sort_sift lt (swap_at vs low (low + m)) low m 0"
  let ?us = "swap_at vs low (low + Suc m)" and ?ws = "?f (Suc m) vs"
  have us: "rearranged low (low + Suc m) vs ?us" using Suc.prems(1,2) by (intro swap_at_rearranged) simp_all
  have uws: "rearranged low (low + m) ?us ?ws" using sift_rearranged [of low "Suc m" ?us lt 0] Suc.prems(1,2) by simp
  have len: "length ?us = length vs" "length ?ws = length vs" using rearranged_length [OF uws] by simp_all
  have nth: "?us ! k = (if k = low + Suc m then vs ! low else if k = low then vs ! (low + Suc m) else vs ! k)" for k
    using Suc.prems(1,2) by (simp add: swap_at_nth)
  have zs: "rearranged low (low + m) ?ws (fold ?f (rev [1..<Suc m]) ?ws) \<and> in_order lt low (low + n) (fold ?f (rev [1..<Suc m]) ?ws)"
  proof (rule Suc.IH)
    show "heap_at lt low (Suc m) ?ws p" for p
    proof (rule sift_heap [where s = 0])
      show "heap_at lt low (Suc m) ?us q" if "q \<noteq> 0" for q
        unfolding heap_at_def
      proof (intro allI impI)
        fix c
        assume c: "c < Suc m" "c = 2 * q + 1 \<or> c = 2 * q + 2"
        then have "low + q \<noteq> low + Suc m" "low + q \<noteq> low" "low + c \<noteq> low + Suc m" "low + c \<noteq> low" using that by auto
        then have "?us ! (low + q) = vs ! (low + q)" "?us ! (low + c) = vs ! (low + c)" by (simp_all only: nth if_False)
        then show "\<not> lt (?us ! (low + q)) (?us ! (low + c))" using heap_atD [OF Suc.prems(3) c(2)] c(1) by simp
      qed
    qed (use Suc.prems(1,2) in simp_all)
    have "in_order lt (low + Suc m) (low + n) ?us"
      unfolding in_order_def
    proof (intro allI impI)
      fix a b
      assume ab: "low + Suc m \<le> a \<and> a < b \<and> b < low + n"
      show "\<not> lt (?us ! b) (?us ! a)"
      proof (cases "a = low + Suc m")
        case True
        then have "?us ! b = vs ! b" "?us ! a = vs ! low" unfolding nth using ab by auto
        moreover have "\<not> lt (vs ! b) (vs ! low)" using ab True by (intro Suc.prems(5) [unfolded split_at_def, rule_format]) auto
        ultimately show ?thesis by simp
      next
        case False
        then have "?us ! b = vs ! b" "?us ! a = vs ! a" unfolding nth using ab by auto
        then show ?thesis using Suc.prems(4) ab False by (simp add: in_order_def)
      qed
    qed
    then show "in_order lt (low + Suc m) (low + n) ?ws" using uws by (rule in_order_rearranged) simp
    have "split_at lt low (low + m) (low + n - 1) ?us"
      unfolding split_at_def
    proof (intro allI impI)
      fix a b
      assume ab: "low \<le> a \<and> a \<le> low + m \<and> low + m < b \<and> b \<le> low + n - 1"
      obtain a' where a': "a' \<le> Suc m" "?us ! a = vs ! (low + a')"
      proof (cases "a = low")
        case True
        then have "?us ! a = vs ! (low + Suc m)" unfolding nth by simp
        then show thesis using that [of "Suc m"] by simp
      next
        case False
        then have "?us ! a = vs ! (low + (a - low))" unfolding nth using ab by auto
        moreover have "a - low \<le> Suc m" using ab by linarith
        ultimately show thesis by (intro that)
      qed
      show "\<not> lt (?us ! b) (?us ! a)"
      proof (cases "b = low + Suc m")
        case True
        then have "?us ! b = vs ! low" unfolding nth by simp
        then show ?thesis using heap_root [OF Suc.prems(3), of a'] a' by simp
      next
        case False
        then have "?us ! b = vs ! b" unfolding nth using ab by auto
        then show ?thesis using Suc.prems(5) a' ab False by (simp add: split_at_def)
      qed
    qed
    then show "split_at lt low (low + m) (low + n - 1) ?ws" using uws
      by (rule split_at_rearranged_left) (use Suc.prems(1,2) len in simp)
  qed (use Suc.prems(1,2) len in simp_all)
  have "rearranged low (low + Suc m) ?us ?ws" using uws by (rule rearranged_wider) simp_all
  with us have "rearranged low (low + Suc m) vs ?ws" by (rule rearranged_trans)
  moreover have "rearranged low (low + Suc m) ?ws (fold ?f (rev [1..<Suc m]) ?ws)" using conjunct1 [OF zs] by (rule rearranged_wider) simp_all
  ultimately have "rearranged low (low + Suc m) vs (fold ?f (rev [1..<Suc m]) ?ws)" by (rule rearranged_trans)
  moreover have "fold ?f (rev [1..<Suc (Suc m)]) vs = fold ?f (rev [1..<Suc m]) ?ws" by simp
  ultimately show ?case using zs by (simp only: simp_thms)
qed

lemma heap_sorts:
  assumes "low \<le> high" "high < length vs"
  shows "rearranged low high vs (gray_sort_heap lt vs low high) \<and> in_order lt low (Suc high) (gray_sort_heap lt vs low high)"
proof -
  let ?n = "Suc (high - low)"
  define ws where "ws = fold (\<lambda>i vs. gray_sort_sift lt vs low ?n i) (rev [0..<?n div 2]) vs"
  have "heap_at lt low ?n vs p" if "?n div 2 \<le> p" for p using that by (auto simp: heap_at_def)
  then have ws: "rearranged low high vs ws" "\<And>p. heap_at lt low ?n ws p"
    using build_heap [of low ?n vs "?n div 2"] assms by (simp_all add: ws_def)
  have "rearranged low (low + (high - low)) ws (fold (\<lambda>m vs. gray_sort_sift lt (swap_at vs low (low + m)) low m 0) (rev [1..<?n]) ws)
    \<and> in_order lt low (low + ?n) (fold (\<lambda>m vs. gray_sort_sift lt (swap_at vs low (low + m)) low m 0) (rev [1..<?n]) ws)"
    using ws(2) assms rearranged_length [OF ws(1)] by (intro extract_heap) (auto simp: in_order_def split_at_def)
  then show ?thesis using assms rearranged_trans [OF ws(1)] by (simp add: gray_sort_heap_def Let_def ws_def [symmetric])
qed

subsection \<open>Partition\<close>

lemma median_sentinels:
  assumes "low < middle" "middle < high" "high < length vs"
  shows "rearranged low high vs (median_of_3 lt vs low middle high)
    \<and> \<not> lt (median_of_3 lt vs low middle high ! middle) (median_of_3 lt vs low middle high ! low)
    \<and> \<not> lt (median_of_3 lt vs low middle high ! high) (median_of_3 lt vs low middle high ! middle)"
proof -
  define us where "us = (if lt (vs ! middle) (vs ! low) then swap_at vs middle low else vs)"
  define ws where "ws = (if lt (us ! high) (us ! low) then swap_at us high low else us)"
  define zs where "zs = (if lt (ws ! high) (ws ! middle) then swap_at ws high middle else ws)"
  have swap: "rearranged low high xs (if b then swap_at xs i j else xs)"
    if "i \<in> {low, middle, high}" "j \<in> {low, middle, high}" "length xs = length vs" for b i j xs
    using that assms by (auto intro: swap_at_rearranged)
  have us: "rearranged low high vs us" unfolding us_def by (rule swap) simp_all
  have ws: "rearranged low high us ws" unfolding ws_def using rearranged_length [OF us] by (intro swap) simp_all
  have lens: "length us = length vs" "length ws = length vs" using rearranged_length [OF us] rearranged_length [OF ws] by simp_all
  then have "rearranged low high ws zs" unfolding zs_def by (intro swap) simp_all
  then have zs: "rearranged low high vs zs" using us ws rearranged_trans by blast
  have idx: "low < length vs" "middle < length vs" "low \<noteq> middle" "low \<noteq> high" "middle \<noteq> high" using assms by simp_all
  have "\<not> lt (us ! middle) (us ! low)"
    using asym idx by (cases "lt (vs ! middle) (vs ! low)") (simp_all add: us_def swap_at_nth)
  then have "\<not> lt (ws ! middle) (ws ! low) \<and> \<not> lt (ws ! high) (ws ! low)"
    using asym [of "us ! high" "us ! low"] le_trans [of "us ! low" "us ! high" "us ! middle"] idx assms(3) lens(1)
    by (cases "lt (us ! high) (us ! low)") (simp_all add: ws_def swap_at_nth)
  then have "\<not> lt (zs ! middle) (zs ! low)" "\<not> lt (zs ! high) (zs ! middle)"
    using asym [of "ws ! high" "ws ! middle"] idx assms(3) lens(2)
    by (cases "lt (ws ! high) (ws ! middle)"; simp add: zs_def swap_at_nth)+
  moreover have "median_of_3 lt vs low middle high = zs" by (simp add: median_of_3_def Let_def us_def ws_def zs_def)
  ultimately show ?thesis using zs by simp
qed

lemma scan_up_found: "i \<le> k \<Longrightarrow> k < length vs \<Longrightarrow> \<not> lt (vs ! k) pivot \<Longrightarrow> \<exists>i' \<le> k. scan_up lt pivot vs i = Some i'"
proof (induction "k - i" arbitrary: i)
  case 0
  then show ?case by (simp add: scan_up.simps [of lt pivot vs i])
next
  case (Suc n)
  then have "\<exists>i' \<le> k. scan_up lt pivot vs (i + 1) = Some i'" by simp
  then show ?case using Suc.prems Suc.hyps(2) by (auto simp: scan_up.simps [of lt pivot vs i])
qed

lemma scan_down_found: "k \<le> j \<Longrightarrow> \<not> lt pivot (vs ! k) \<Longrightarrow> \<exists>j' \<ge> k. scan_down lt pivot vs j = Some j'"
  by (induction j) (auto simp: le_Suc_eq)

text \<open>
  What holds at the head of the loop: the elements passed are on their side of the pivot, and each
  scan has an element ahead that stops it.
\<close>

definition scanning :: "'a \<Rightarrow> nat \<Rightarrow> nat \<Rightarrow> 'a list \<Rightarrow> nat \<Rightarrow> nat \<Rightarrow> bool" where
  "scanning pivot low high vs i j \<longleftrightarrow> low \<le> i \<and> j \<le> high \<and> high < length vs
     \<and> (\<forall>k. low \<le> k \<and> k < i \<longrightarrow> \<not> lt pivot (vs ! k)) \<and> (\<forall>k. j < k \<and> k \<le> high \<longrightarrow> \<not> lt (vs ! k) pivot)
     \<and> (\<exists>k. i \<le> k \<and> k \<le> high \<and> \<not> lt (vs ! k) pivot \<and> (j < high \<or> k < high))
     \<and> (\<exists>k. low \<le> k \<and> k \<le> j \<and> \<not> lt pivot (vs ! k))"

lemma scans:
  assumes "scanning pivot low high vs i j"
  obtains i' j' where "scan_up lt pivot vs i = Some i'" "scan_down lt pivot vs j = Some j'" "i \<le> i'" "i' \<le> high" "j' \<le> j" "low \<le> j'"
    "j' < high \<or> i' < high" "\<not> lt (vs ! i') pivot" "\<not> lt pivot (vs ! j')"
    "\<And>k. i \<le> k \<Longrightarrow> k < i' \<Longrightarrow> lt (vs ! k) pivot" "\<And>k. j' < k \<Longrightarrow> k \<le> j \<Longrightarrow> lt pivot (vs ! k)"
proof -
  obtain a where a: "i \<le> a" "a \<le> high" "\<not> lt (vs ! a) pivot" "j < high \<or> a < high"
    using assms unfolding scanning_def by blast
  obtain b where b: "low \<le> b" "b \<le> j" "\<not> lt pivot (vs ! b)" using assms unfolding scanning_def by blast
  have "high < length vs" using assms by (simp add: scanning_def)
  then obtain i' where i': "scan_up lt pivot vs i = Some i'" "i' \<le> a"
    using scan_up_found [of i a vs pivot] a by auto
  obtain j' where j': "scan_down lt pivot vs j = Some j'" "b \<le> j'" using scan_down_found [of b j pivot vs] b by auto
  have "j' \<le> j" using scan_down_Some [OF j'(1)] by simp
  then show thesis using that [OF i'(1) j'(1)] scan_up_Some [OF i'(1)] scan_down_Some [OF j'(1)] i'(2) j'(2) a b by fastforce
qed

lemma scanning_swap:
  assumes "scanning pivot low high vs i j" "i \<le> i'" "i' < j'" "j' \<le> j" "\<not> lt (vs ! i') pivot" "\<not> lt pivot (vs ! j')"
    and "\<And>k. i \<le> k \<Longrightarrow> k < i' \<Longrightarrow> lt (vs ! k) pivot" "\<And>k. j' < k \<Longrightarrow> k \<le> j \<Longrightarrow> lt pivot (vs ! k)"
  shows "scanning pivot low high (swap_at vs i' j') (i' + 1) (j' - 1)"
proof -
  have bounds: "low \<le> i" "j \<le> high" "high < length vs" using assms(1) by (simp_all add: scanning_def)
  then have nth: "swap_at vs i' j' ! k = (if k = j' then vs ! i' else if k = i' then vs ! j' else vs ! k)" for k
    using assms(3,4) by (simp add: swap_at_nth)
  have left: "\<not> lt pivot (swap_at vs i' j' ! k)" if k: "low \<le> k" "k < i' + 1" for k
  proof -
    have "\<not> lt pivot (vs ! k)" if "k < i'"
      using that k(1) assms(1) asym [OF assms(7) [of k]] unfolding scanning_def by (cases "k < i") auto
    then show ?thesis using k assms(3,6) unfolding nth by auto
  qed
  have right: "\<not> lt (swap_at vs i' j' ! k) pivot" if k: "j' - 1 < k" "k \<le> high" for k
  proof -
    have "\<not> lt (vs ! k) pivot" if "j' < k"
      using that k(2) assms(1) asym [OF assms(8) [of k]] unfolding scanning_def by (cases "j < k") auto
    then show ?thesis using k assms(3,5) unfolding nth by auto
  qed
  have "\<not> lt (swap_at vs i' j' ! j') pivot" "\<not> lt pivot (swap_at vs i' j' ! i')" using assms(3,5,6) unfolding nth by auto
  moreover have "i' + 1 \<le> j' \<and> j' \<le> high \<and> j' - 1 < high" "low \<le> i' \<and> i' \<le> j' - 1" using bounds assms(2-4) by auto
  ultimately have "\<exists>k. i' + 1 \<le> k \<and> k \<le> high \<and> \<not> lt (swap_at vs i' j' ! k) pivot \<and> (j' - 1 < high \<or> k < high)"
    "\<exists>k. low \<le> k \<and> k \<le> j' - 1 \<and> \<not> lt pivot (swap_at vs i' j' ! k)" by blast+
  then show ?thesis using left right bounds assms(2-4) unfolding scanning_def by simp
qed

lemma partition_splits:
  assumes "scanning pivot low high vs i j"
  shows "\<exists>ws m. partition_loop lt pivot vs i j = Some (ws, m) \<and> rearranged low high vs ws
    \<and> low \<le> m \<and> m < high \<and> split_at lt low m high ws"
  using assms
proof (induction j arbitrary: vs i rule: less_induct)
  case (less j)
  obtain i' j' where s: "scan_up lt pivot vs i = Some i'" "scan_down lt pivot vs j = Some j'" "i \<le> i'" "i' \<le> high" "j' \<le> j" "low \<le> j'"
    "j' < high \<or> i' < high" "\<not> lt (vs ! i') pivot" "\<not> lt pivot (vs ! j')"
    "\<And>k. i \<le> k \<Longrightarrow> k < i' \<Longrightarrow> lt (vs ! k) pivot" "\<And>k. j' < k \<Longrightarrow> k \<le> j \<Longrightarrow> lt pivot (vs ! k)"
    using scans [OF less.prems] by blast
  have bounds: "low \<le> i" "j \<le> high" "high < length vs"
    and passed: "\<And>k. low \<le> k \<Longrightarrow> k < i \<Longrightarrow> \<not> lt pivot (vs ! k)" "\<And>k. j < k \<Longrightarrow> k \<le> high \<Longrightarrow> \<not> lt (vs ! k) pivot"
    using less.prems by (simp_all add: scanning_def)
  have step: "partition_loop lt pivot vs i j = (if j' \<le> i' then Some (vs, j') else partition_loop lt pivot (swap_at vs i' j') (i' + 1) (j' - 1))"
    by (subst partition_loop.simps) (simp add: s(1,2))
  show ?case
  proof (cases "j' \<le> i'")
    case True
    have "\<not> lt pivot (vs ! a)" if "low \<le> a" "a \<le> j'" for a
    proof (cases "a < i")
      case False
      then show ?thesis using that True s(9) asym [OF s(10) [of a]] by (cases "a = i'") auto
    qed (use passed(1) that in simp)
    moreover have "\<not> lt (vs ! b) pivot" if "j' < b" "b \<le> high" for b
    proof (cases "j < b")
      case False
      then show ?thesis using that asym [OF s(11) [of b]] by simp
    qed (use passed(2) that in simp)
    ultimately have "split_at lt low j' high vs" unfolding split_at_def using le_trans by blast
    moreover have "j' < high" using s(7) True by linarith
    ultimately show ?thesis using step True s(6) by simp
  next
    case False
    have "scanning pivot low high (swap_at vs i' j') (i' + 1) (j' - 1)"
      using less.prems s(3) _ s(5,8,9,10,11) by (rule scanning_swap) (use False in simp)
    moreover have "j' - 1 < j" using False s(5) by simp
    ultimately obtain ws m where ws: "partition_loop lt pivot (swap_at vs i' j') (i' + 1) (j' - 1) = Some (ws, m)"
        "rearranged low high (swap_at vs i' j') ws" "low \<le> m" "m < high" "split_at lt low m high ws"
      using less.IH by blast
    moreover have "rearranged low high vs (swap_at vs i' j')" using False s(3,5) bounds by (intro swap_at_rearranged) simp_all
    ultimately show ?thesis using step False rearranged_trans by auto
  qed
qed

subsection \<open>The sort\<close>

text \<open>The partition of a range that is longer than the cutoff succeeds and leaves two shorter ranges.\<close>

lemma introsort_partition:
  assumes "low + 1 < high" "high < length vs" "middle = low + (high - low) div 2" "us = median_of_3 lt vs low middle high"
  shows "\<exists>ws m. partition_loop lt (us ! middle) us low high = Some (ws, m) \<and> rearranged low high vs ws
    \<and> low \<le> m \<and> m < high \<and> split_at lt low m high ws"
proof -
  have m: "low < middle" "middle < high" using assms(1) unfolding assms(3) by auto
  note us = median_sentinels [OF m assms(2), folded assms(4)]
  have "length us = length vs" using us rearranged_length by blast
  then have "scanning (us ! middle) low high us low high"
    using us assms(2) m irrefl unfolding scanning_def by (auto intro!: exI [of _ middle])
  then show ?thesis using partition_splits us rearranged_trans by blast
qed

lemma introsort_sorts:
  assumes "low \<le> high" "high < length vs"
  shows "\<exists>ws. gray_sort_introsort lt depth vs low high = Some ws \<and> rearranged low high vs ws \<and> in_order lt low (Suc high) ws"
  using assms
proof (induction depth arbitrary: vs low high)
  case 0
  then show ?case using heap_sorts insertion_sorts by auto
next
  case (Suc depth)
  show ?case
  proof (cases "GRAY_SORT_INSERTION_CUTOFF < high - low")
    case True
    let ?middle = "low + (high - low) div 2"
    let ?us = "median_of_3 lt vs low ?middle high"
    have "low + 1 < high" using True by (simp add: GRAY_SORT_INSERTION_CUTOFF_def)
    then obtain ws m where ws: "partition_loop lt (?us ! ?middle) ?us low high = Some (ws, m)" "rearranged low high vs ws"
        "low \<le> m" "m < high" "split_at lt low m high ws"
      using introsort_partition [OF _ Suc.prems(2) refl refl] by blast
    have len: "length ws = length vs" using ws(2) by (rule rearranged_length)
    show ?thesis
    proof (cases "m - low < high - (m + 1)")
      case small: True
      obtain l where l: "gray_sort_introsort lt depth ws low m = Some l" "rearranged low m ws l" "in_order lt low (Suc m) l"
        using Suc.IH [of low m ws] ws(3,4) len Suc.prems(2) by auto
      obtain r where r: "gray_sort_introsort lt depth l (m + 1) high = Some r" "rearranged (Suc m) high l r" "in_order lt (Suc m) (Suc high) r"
        using Suc.IH [of "m + 1" high l] rearranged_length [OF l(2)] ws(4) len Suc.prems(2) by auto
      have "split_at lt low m high r"
        using split_at_rearranged_right [OF split_at_rearranged_left [OF ws(5) l(2)] r(2)] rearranged_length [OF l(2)] ws(4) len Suc.prems(2) by simp
      then have "in_order lt low (Suc high) r" using in_order_split in_order_rearranged [OF l(3) r(2)] r(3) by blast
      moreover have "rearranged low high vs r"
        using ws rearranged_trans [OF ws(2) rearranged_trans [OF rearranged_wider [OF l(2)] rearranged_wider [OF r(2)]]] by simp
      moreover have "gray_sort_introsort lt (Suc depth) vs low high = Some r" using True small ws(1) l(1) r(1) by (simp add: Let_def)
      ultimately show ?thesis by blast
    next
      case large: False
      obtain r where r: "gray_sort_introsort lt depth ws (m + 1) high = Some r" "rearranged (Suc m) high ws r" "in_order lt (Suc m) (Suc high) r"
        using Suc.IH [of "m + 1" high ws] ws(4) len Suc.prems(2) by auto
      obtain l where l: "gray_sort_introsort lt depth r low m = Some l" "rearranged low m r l" "in_order lt low (Suc m) l"
        using Suc.IH [of low m r] rearranged_length [OF r(2)] ws(3,4) len Suc.prems(2) by auto
      have "split_at lt low m high l"
        using split_at_rearranged_left [OF split_at_rearranged_right [OF ws(5) r(2)] l(2)] rearranged_length [OF r(2)] ws(4) len Suc.prems(2) by simp
      then have "in_order lt low (Suc high) l" using in_order_split in_order_rearranged [OF r(3) l(2)] l(3) by blast
      moreover have "rearranged low high vs l"
        using ws rearranged_trans [OF ws(2) rearranged_trans [OF rearranged_wider [OF r(2)] rearranged_wider [OF l(2)]]] by simp
      moreover have "gray_sort_introsort lt (Suc depth) vs low high = Some l" using True large ws(1) l(1) r(1) by (simp add: Let_def)
      ultimately show ?thesis by blast
    qed
  next
    case False
    then show ?thesis using insertion_sorts [OF Suc.prems] by simp
  qed
qed

lemma gray_sort_sorts:
  assumes "1 < length vs"
  shows "\<exists>ws. gray_sort lt vs (length vs) = Some ws \<and> mset ws = mset vs \<and> sorted_wrt (\<lambda>x y. \<not> lt y x) ws"
proof -
  have "length vs - 1 < length vs" using assms by simp
  then obtain ws where ws: "gray_sort lt vs (length vs) = Some ws" "rearranged 0 (length vs - 1) vs ws" "in_order lt 0 (Suc (length vs - 1)) ws"
    using introsort_sorts [OF le0] unfolding gray_sort_def by blast
  then have "length ws = Suc (length vs - 1)" using rearranged_length [OF ws(2)] assms by simp
  then show ?thesis using ws by (auto simp: rearranged_def in_order_def sorted_wrt_iff_nth_less)
qed

end

end
