(* ===== verification/Array_Values.thy ===== *)
theory Array_Values
  imports Arrays Introsort_Values
begin

text \<open>
  What the functions of the module \<open>arrays\<close> do to the list of an array, and that their results are
  well-formed arrays.
\<close>

subsection \<open>Modification\<close>

lemma write_slot_simps [simp]:
  "array_len (write_slot a i v) = array_len a" "array_capacity (write_slot a i v) = array_capacity a"
  "array_elem_size (write_slot a i v) = array_elem_size a" "array_elem_kind (write_slot a i v) = array_elem_kind a"
  "array_iterating (write_slot a i v) = array_iterating a" "array_data (write_slot a i v) = (array_data a)[i := array_stored a v]"
  by (simp_all add: write_slot_def)

lemma array_stored_update [simp]:
  "array_stored (a\<lparr>array_len := n\<rparr>) = array_stored a" "array_stored (a\<lparr>array_data := d\<rparr>) = array_stored a"
  "array_stored (a\<lparr>array_data := d, array_len := n\<rparr>) = array_stored a"
  by (simp_all add: array_stored_def fun_eq_iff)

lemma array_okI:
  assumes "length (array_data a) = array_capacity a" "array_len a \<le> array_capacity a" "array_capacity a \<le> 2147483647"
    and "set (array_list a) \<subseteq> range (array_stored a)"
  shows "array_ok a"
  using assms unfolding array_ok_def by (metis array_stored_twice imageE subsetD)

lemma array_list_stored: "array_ok a \<Longrightarrow> set (array_list a) \<subseteq> range (array_stored a)"
  unfolding array_ok_def by (metis rangeI subsetI)

lemma insert_at_ok:
  assumes "array_ok a" "array_iterating a = 0" "array_len a \<le> 2147483647 div 2" "0 \<le> index" "index \<le> int (array_len a)"
  shows "\<exists>b. gray_arrays_insert_at a index v = Inr b \<and> array_ok b \<and> same_elements a b
    \<and> array_list b = take (nat index) (array_list a) @ [array_stored a v] @ drop (nat index) (array_list a)"
proof -
  obtain c where c: "gray_array_grow a = Inr c" "array_ok c" "array_list c = array_list a" "array_len c = array_len a"
      "array_len c < array_capacity c" "same_elements a c" "array_iterating c = array_iterating a"
    using assms(1,3) by (rule grow_ok)
  define i where "i = nat index"
  have i: "index = int i" "i \<le> array_len c" using assms(4,5) c(4) by (simp_all add: i_def)
  have cap: "length (array_data c) = array_capacity c" "array_len c < length (array_data c)" using c(2,5) by (simp_all add: array_ok_def)
  define moved where "moved = (if i < array_len c then move_slots (array_data c) (i + 1) i (array_len c - i) else array_data c)"
  have len: "length moved = length (array_data c)" using i(2) cap by (simp add: moved_def move_slots_def)
  have moved: "take (Suc (array_len c)) (moved[i := x]) = take i (array_list c) @ [x] @ drop i (array_list c)" for x
  proof (rule nth_equalityI)
    show "length (take (Suc (array_len c)) (moved[i := x])) = length (take i (array_list c) @ [x] @ drop i (array_list c))"
      using i(2) cap len by (simp add: array_list_def)
    fix k
    assume "k < length (take (Suc (array_len c)) (moved[i := x]))"
    then have "k \<le> array_len c" by simp
    then show "take (Suc (array_len c)) (moved[i := x]) ! k = (take i (array_list c) @ [x] @ drop i (array_list c)) ! k"
      using i(2) cap len
      by (cases k i rule: linorder_cases) (auto simp: moved_def move_slots_def array_list_def nth_append nth_Cons' min_def)
  qed
  have st: "array_stored c = array_stored a" using c(6) by (rule same_elements_stored)
  define b where "b = c\<lparr>array_data := moved[i := array_stored a v], array_len := array_len c + 1\<rparr>"
  have "array_list b = take (Suc (array_len c)) (moved[i := array_stored a v])" by (simp add: b_def array_list_def)
  then have l: "array_list b = take i (array_list a) @ [array_stored a v] @ drop i (array_list a)"
    by (simp only: moved c(3))
  have "gray_arrays_insert_at a index v = Inr b"
    using assms(2,4,5) c(1,4) i st
    by (auto simp: gray_arrays_insert_at_def ARRAY_CHECK_ITER_def b_def moved_def Let_def write_slot_def)
  moreover have "array_stored b = array_stored a" by (simp add: b_def st)
  then have "set (array_list b) \<subseteq> range (array_stored b)"
    using array_list_stored [OF assms(1)] unfolding l by (auto dest!: in_set_takeD in_set_dropD)
  then have "array_ok b" using c(2,5) len by (intro array_okI) (simp_all add: array_ok_def b_def)
  ultimately show ?thesis using c(6) l by (auto simp: same_elements_def b_def i_def)
qed

lemma remove_at_ok:
  assumes "array_ok a" "array_iterating a = 0" "0 \<le> index" "index < int (array_len a)"
  shows "\<exists>b. gray_arrays_remove_at a index = Inr b \<and> array_ok b \<and> same_elements a b \<and> array_iterating b = 0
    \<and> array_list b = take (nat index) (array_list a) @ drop (Suc (nat index)) (array_list a)"
proof -
  define i where "i = nat index"
  have i: "index = int i" "i < array_len a" using assms(3,4) by (simp_all add: i_def)
  have cap: "length (array_data a) = array_capacity a" "array_len a \<le> length (array_data a)" using assms(1) by (simp_all add: array_ok_def)
  define moved where "moved = move_slots (array_data a) i (i + 1) (array_len a - 1 - i)"
  have len: "length moved = length (array_data a)" using i(2) cap by (simp add: moved_def move_slots_def)
  have moved: "take (array_len a - 1) moved = take i (array_list a) @ drop (Suc i) (array_list a)"
    using i(2) cap by (auto simp: moved_def move_slots_def array_list_def nth_append intro!: nth_equalityI)
  define b where "b = a\<lparr>array_data := moved, array_len := array_len a - 1\<rparr>"
  have l: "array_list b = take i (array_list a) @ drop (Suc i) (array_list a)" using moved by (simp add: b_def array_list_def)
  have "array_stored b = array_stored a" by (simp add: b_def)
  then have "set (array_list b) \<subseteq> range (array_stored b)"
    using array_list_stored [OF assms(1)] unfolding l by (auto dest!: in_set_takeD in_set_dropD)
  then have "array_ok b" using cap len assms(1) by (intro array_okI) (simp_all add: array_ok_def b_def)
  moreover have "gray_arrays_remove_at a index = Inr b"
    using assms(2-4) i by (simp add: gray_arrays_remove_at_def ARRAY_CHECK_ITER_def b_def moved_def)
  ultimately show ?thesis using assms(2) l by (auto simp: same_elements_def b_def i_def)
qed

subsection \<open>Searching\<close>

lemma index_loop_value:
  "index_loop P n xs = (if list_ex P xs then int (n + length (takeWhile (\<lambda>e. \<not> P e) xs)) else - 1)"
  by (induction xs arbitrary: n) auto

lemma index_of_value:
  "gray_arrays_index_of a v =
     (let P = (\<lambda>e. gray_elem_equal (array_elem_kind a) (array_elem_size a) e v)
      in if list_ex P (array_list a) then int (length (takeWhile (\<lambda>e. \<not> P e) (array_list a))) else - 1)"
  by (simp add: gray_arrays_index_of_def index_loop_value Let_def)

lemma contains_value_iff: "gray_arrays_contains a v \<longleftrightarrow>
  list_ex (\<lambda>e. gray_elem_equal (array_elem_kind a) (array_elem_size a) e v) (array_list a)"
  by (simp add: gray_arrays_contains_def index_of_value Let_def)

lemma count_loop: "fold (\<lambda>e n. if P e then n + 1 else n) xs (k :: int) = k + int (length (filter P xs))"
  by (induction xs arbitrary: k) auto

lemma count_value: "gray_arrays_count a v =
  int (length (filter (\<lambda>e. gray_elem_equal (array_elem_kind a) (array_elem_size a) e v) (array_list a)))"
  by (simp add: gray_arrays_count_def count_loop)

lemma take_while_index: "list_ex P xs \<Longrightarrow> length (takeWhile (\<lambda>e. \<not> P e) xs) < length xs"
  by (induction xs) auto

lemma drop_Suc_tl: "drop (Suc n) xs = tl (drop n xs)"
  by (simp add: drop_Suc tl_drop)

text \<open>Removing a value removes its first occurrence.\<close>

lemma remove_value_ok:
  assumes "array_ok a" "array_iterating a = 0" "P = (\<lambda>e. gray_elem_equal (array_elem_kind a) (array_elem_size a) e v)"
  shows "\<exists>b. gray_arrays_remove a v = Inr b \<and> array_ok b
    \<and> array_list b = takeWhile (\<lambda>e. \<not> P e) (array_list a) @ tl (dropWhile (\<lambda>e. \<not> P e) (array_list a))"
proof (cases "list_ex P (array_list a)")
  case True
  let ?n = "length (takeWhile (\<lambda>e. \<not> P e) (array_list a))"
  have n: "gray_arrays_index_of a v = int ?n" using True by (simp add: index_of_value assms(3) Let_def)
  have "?n < array_len a" using take_while_index [OF True] length_array_list [OF assms(1)] by simp
  then obtain b where "gray_arrays_remove_at a (int ?n) = Inr b" "array_ok b"
      "array_list b = take ?n (array_list a) @ drop (Suc ?n) (array_list a)"
    using remove_at_ok [OF assms(1,2), of "int ?n"] by auto
  then show ?thesis using n by (simp add: gray_arrays_remove_def drop_Suc_tl takeWhile_eq_take [symmetric] dropWhile_eq_drop [symmetric])
next
  case False
  then have "gray_arrays_index_of a v = - 1" by (simp add: index_of_value assms(3) Let_def)
  moreover have t: "takeWhile (\<lambda>e. \<not> P e) (array_list a) = array_list a" "dropWhile (\<lambda>e. \<not> P e) (array_list a) = []"
    using False by (auto simp: takeWhile_eq_all_conv dropWhile_eq_Nil_conv list_ex_iff)
  have "takeWhile (\<lambda>e. \<not> P e) (array_list a) @ tl (dropWhile (\<lambda>e. \<not> P e) (array_list a)) = array_list a"
    by (simp only: t list.sel append_Nil2)
  ultimately show ?thesis using assms(1) by (simp add: gray_arrays_remove_def)
qed

subsection \<open>Ends\<close>

lemma shorter_ok:
  assumes "array_ok a" "n \<le> array_len a"
  shows "array_ok (a\<lparr>array_len := n\<rparr>)" "array_list (a\<lparr>array_len := n\<rparr>) = take n (array_list a)"
proof -
  show l: "array_list (a\<lparr>array_len := n\<rparr>) = take n (array_list a)" using assms(2) by (simp add: array_list_def min_absorb1)
  have "set (array_list (a\<lparr>array_len := n\<rparr>)) \<subseteq> range (array_stored (a\<lparr>array_len := n\<rparr>))"
    using array_list_stored [OF assms(1)] unfolding l by (auto dest!: in_set_takeD)
  then show "array_ok (a\<lparr>array_len := n\<rparr>)" using assms by (intro array_okI) (simp_all add: array_ok_def)
qed

lemma clear_array_ok: "array_ok a \<Longrightarrow> array_iterating a = 0 \<Longrightarrow>
  \<exists>b. gray_arrays_clear a = Inr b \<and> array_ok b \<and> array_list b = [] \<and> array_stored b = array_stored a"
  using shorter_ok [of a 0] by (simp add: gray_arrays_clear_def ARRAY_CHECK_ITER_def)

lemma fill_ok:
  assumes "array_ok a" "array_iterating a = 0" "fill_count \<le> 1073741824"
  shows "\<exists>b. gray_arrays_fill a v fill_count = Inr b \<and> array_ok b \<and> array_list b = replicate (nat fill_count) (array_stored a v)"
proof -
  obtain c where c: "gray_arrays_clear a = Inr c" "array_ok c" "array_list c = []" "array_stored c = array_stored a"
    using clear_array_ok [OF assms(1,2)] by blast
  have "length (array_list c) + length (replicate (nat fill_count) v) \<le> 1073741824" using assms(3) c(3) by simp
  from arrays.pushes [OF c(2) this] show ?thesis using c assms(3) by (auto simp: gray_arrays_fill_def)
qed

lemma remove_first_ok:
  assumes "array_ok a" "array_iterating a = 0" "array_list a = e # es"
  shows "\<exists>b. gray_arrays_remove_first_raw a = Inr (b, e) \<and> array_ok b \<and> array_list b = es"
proof -
  have n: "array_len a = Suc (length es)" using length_array_list [OF assms(1)] assms(3) by simp
  then obtain b where "gray_arrays_remove_at a 0 = Inr b" "array_ok b" "array_list b = es"
    using remove_at_ok [OF assms(1,2), of 0] assms(3) by auto
  moreover have "array_data a ! 0 = e" using array_nth [of 0 a] n assms(3) by simp
  ultimately show ?thesis using assms(2) n by (simp add: gray_arrays_remove_first_raw_def ARRAY_CHECK_ITER_def)
qed

lemma remove_last_ok:
  assumes "array_ok a" "array_iterating a = 0" "array_list a = es @ [e]"
  shows "\<exists>b. gray_arrays_remove_last_raw a = Inr (b, e) \<and> array_ok b \<and> array_list b = es"
proof -
  have n: "array_len a = Suc (length es)" using length_array_list [OF assms(1)] assms(3) by simp
  have "array_data a ! length es = e" using array_nth [of "length es" a] n assms(3) by simp
  then show ?thesis using assms(2,3) n shorter_ok [OF assms(1), of "length es"]
    by (simp add: gray_arrays_remove_last_raw_def ARRAY_CHECK_ITER_def)
qed

subsection \<open>Transformation\<close>

lemma exact_array_ok:
  assumes "length es \<le> 2147483647" "\<And>e. e \<in> set es \<Longrightarrow> stored kind width e = e"
  shows "array_ok (exact_array width kind es)" "array_list (exact_array width kind es) = es"
    "array_elem_kind (exact_array width kind es) = kind" "array_elem_size (exact_array width kind es) = width"
  using assms
  by (auto simp: exact_array_def gray_array_new_def Let_def array_ok_def array_list_def array_stored_def GRAY_ARRAY_MIN_CAPACITY_def)

lemma array_list_stored_same: "array_ok a \<Longrightarrow> e \<in> set (array_list a) \<Longrightarrow> stored (array_elem_kind a) (array_elem_size a) e = e"
  by (simp add: array_ok_def array_stored_def)

lemma permuted_ok:
  assumes "array_ok a" "\<And>i. i < array_len a \<Longrightarrow> f i < array_len a"
  shows "array_ok (exact_array (array_elem_size a) (array_elem_kind a) (map (\<lambda>i. array_data a ! f i) [0..<array_len a]))"
    "array_list (exact_array (array_elem_size a) (array_elem_kind a) (map (\<lambda>i. array_data a ! f i) [0..<array_len a]))
      = map (\<lambda>i. array_list a ! f i) [0..<array_len a]"
proof -
  have "stored (array_elem_kind a) (array_elem_size a) e = e" if "e \<in> set (map (\<lambda>i. array_list a ! f i) [0..<array_len a])" for e
    using that assms(2) length_array_list [OF assms(1)] by (intro array_list_stored_same [OF assms(1)]) auto
  moreover have "length (map (\<lambda>i. array_list a ! f i) [0..<array_len a]) \<le> 2147483647" using assms(1) by (simp add: array_ok_def)
  ultimately have ex: "array_ok (exact_array (array_elem_size a) (array_elem_kind a) (map (\<lambda>i. array_list a ! f i) [0..<array_len a]))"
    "array_list (exact_array (array_elem_size a) (array_elem_kind a) (map (\<lambda>i. array_list a ! f i) [0..<array_len a]))
      = map (\<lambda>i. array_list a ! f i) [0..<array_len a]"
    using exact_array_ok by blast+
  have eq: "map (\<lambda>i. array_data a ! f i) [0..<array_len a] = map (\<lambda>i. array_list a ! f i) [0..<array_len a]"
    using assms(2) by (simp add: array_nth)
  show "array_ok (exact_array (array_elem_size a) (array_elem_kind a) (map (\<lambda>i. array_data a ! f i) [0..<array_len a]))"
    "array_list (exact_array (array_elem_size a) (array_elem_kind a) (map (\<lambda>i. array_data a ! f i) [0..<array_len a]))
      = map (\<lambda>i. array_list a ! f i) [0..<array_len a]"
    using ex by (simp_all only: eq)
qed

lemma reverse_ok:
  assumes "array_ok a"
  shows "array_ok (gray_arrays_reverse a)" "array_list (gray_arrays_reverse a) = rev (array_list a)"
proof -
  have "map (\<lambda>i. array_list a ! (array_len a - 1 - i)) [0..<array_len a] = rev (array_list a)"
    using length_array_list [OF assms] by (intro nth_equalityI) (simp_all add: rev_nth)
  then show "array_ok (gray_arrays_reverse a)" "array_list (gray_arrays_reverse a) = rev (array_list a)"
    using permuted_ok [OF assms, of "\<lambda>i. array_len a - 1 - i"] by (simp_all add: gray_arrays_reverse_def)
qed

lemma shift_remainder:
  assumes "0 < (n :: int)"
  shows "((k smod n) + n) smod n = k mod n"
proof -
  have "\<bar>k\<bar> mod n < n" "0 \<le> \<bar>k\<bar> mod n" using assms by simp_all
  then have "0 \<le> (k smod n) + n" using assms by (auto simp: signed_modulo_int_def signed_divide_int_def sgn_if abs_if minus_div_mult_eq_mod [symmetric] algebra_simps)
  then have "((k smod n) + n) smod n = ((k smod n) + n) mod n" using assms by (simp add: smod_mod_positive)
  also have "\<dots> = (sgn k * (\<bar>k\<bar> mod n)) mod n" using assms by (simp add: smod_int_alt_def)
  also have "\<dots> = k mod n"
    using mod_minus_eq [of "- k" n] by (cases k "0 :: int" rule: linorder_cases) simp_all
  finally show ?thesis .
qed

lemma rotate_ok:
  assumes "array_ok a"
  shows "array_ok (gray_arrays_rotate a shift_count)
    \<and> array_list (gray_arrays_rotate a shift_count) = rotate (nat (shift_count mod int (array_len a))) (array_list a)"
proof (cases "array_len a = 0")
  case True
  then have "array_list a = []" using length_array_list [OF assms] by simp
  then show ?thesis using True new_array_ok [of 1] by (simp add: gray_arrays_rotate_def)
next
  case False
  define shift where "shift = nat (shift_count mod int (array_len a))"
  have shift: "nat (((shift_count smod int (array_len a)) + int (array_len a)) smod int (array_len a)) = shift"
    using False by (simp add: shift_remainder shift_def)
  have "map (\<lambda>i. array_list a ! ((i + shift) mod array_len a)) [0..<array_len a] = rotate shift (array_list a)"
    using length_array_list [OF assms] by (intro nth_equalityI) (simp_all add: nth_rotate add.commute)
  then show ?thesis using permuted_ok [OF assms, of "\<lambda>i. (i + shift) mod array_len a"] False
    by (simp add: gray_arrays_rotate_def Let_def shift shift_def [symmetric])
qed

lemma slice_ok:
  assumes "array_ok a"
  shows "array_ok (gray_arrays_slice a start end_index)
    \<and> array_list (gray_arrays_slice a start end_index) = take (nat end_index - nat start) (drop (nat start) (array_list a))"
proof -
  define s e where se: "s = nat start" "e = min (nat end_index) (array_len a)"
  have cond: "(if int (array_len a) < end_index then int (array_len a) else end_index) \<le> (if start < 0 then 0 else start) \<longleftrightarrow> e \<le> s"
    and size: "nat ((if int (array_len a) < end_index then int (array_len a) else end_index) - (if start < 0 then 0 else start)) = e - s"
    and start: "nat (if start < 0 then 0 else start) = s"
    by (auto simp: se)
  have len: "length (array_list a) = array_len a" "array_len a \<le> length (array_data a)" "array_len a \<le> 2147483647"
    using length_array_list [OF assms] assms by (simp_all add: array_ok_def)
  have list: "take (nat end_index - nat start) (drop (nat start) (array_list a)) = take (e - s) (drop s (array_list a))"
    using len(1) by (auto simp: se min_def intro!: nth_equalityI)
  show ?thesis
  proof (cases "e \<le> s")
    case True
    then show ?thesis using new_array_ok [of 1] unfolding list by (simp add: gray_arrays_slice_def Let_def cond)
  next
    case False
    have "e \<le> array_len a" by (simp add: se)
    then have take: "take (e - s) (drop s (array_data a)) = take (e - s) (drop s (array_list a))"
      using False len by (auto simp: array_list_def intro!: nth_equalityI)
    have "map (stored (array_elem_kind a) (array_elem_size a)) (take (e - s) (drop s (array_list a))) = take (e - s) (drop s (array_list a))"
      by (intro map_idI array_list_stored_same [OF assms]) (auto dest!: in_set_takeD in_set_dropD)
    moreover have "e - s \<le> length (drop s (array_data a))" "e - s \<le> 2147483647" using \<open>e \<le> array_len a\<close> len by simp_all
    note from_array [OF this, of "array_elem_size a" "array_elem_kind a"]
    ultimately show ?thesis using False unfolding list by (simp add: gray_arrays_slice_def Let_def cond size start take)
  qed
qed

lemma concat_ok:
  assumes "array_ok left" "array_ok right" "same_elements left right" "array_len left + array_len right \<le> 2147483647"
  shows "array_ok (gray_arrays_concat left right)" "array_list (gray_arrays_concat left right) = array_list left @ array_list right"
proof -
  have "stored (array_elem_kind left) (array_elem_size left) e = e" if "e \<in> set (array_list left @ array_list right)" for e
    using that array_list_stored_same [OF assms(1), of e] array_list_stored_same [OF assms(2), of e] assms(3)
    by (auto simp: same_elements_def)
  moreover have "length (array_list left @ array_list right) \<le> 2147483647" using assms length_array_list by simp
  ultimately show "array_ok (gray_arrays_concat left right)" "array_list (gray_arrays_concat left right) = array_list left @ array_list right"
    using exact_array_ok [of "array_list left @ array_list right" "array_elem_kind left" "array_elem_size left"]
    by (simp_all add: gray_arrays_concat_def array_list_def)
qed

subsection \<open>Arrays of arrays\<close>

lemma split_loop_ok:
  assumes "array_ok a" "0 < chunk"
  shows "list_all (\<lambda>c. array_ok c \<and> same_elements a c \<and> 0 < array_len c \<and> array_len c \<le> chunk) (split_loop a chunk i)
    \<and> concat (map array_list (split_loop a chunk i)) = drop i (array_list a)"
proof (induction i rule: measure_induct_rule [where f = "\<lambda>i. array_len a - i"])
  case (less i)
  have len: "length (array_list a) = array_len a" "array_len a \<le> length (array_data a)" "array_len a \<le> 2147483647"
    using length_array_list [OF assms(1)] assms(1) by (simp_all add: array_ok_def)
  show ?case
  proof (cases "i < array_len a")
    case False
    then show ?thesis using len by (simp add: split_loop.simps)
  next
    case True
    define n where "n = (if chunk \<le> array_len a - i then chunk else array_len a - i)"
    define c where "c = gray_array_from (Some (drop i (array_data a))) (array_elem_size a) n (array_elem_kind a)"
    have n: "0 < n" "n \<le> chunk" "i + n \<le> array_len a" using True assms(2) by (auto simp: n_def)
    have "map (stored (array_elem_kind a) (array_elem_size a)) (take n (drop i (array_list a))) = take n (drop i (array_list a))"
      by (intro map_idI array_list_stored_same [OF assms(1)]) (auto dest!: in_set_takeD in_set_dropD)
    moreover have "take n (drop i (array_data a)) = take n (drop i (array_list a))"
      using n len by (auto simp: array_list_def intro!: nth_equalityI)
    moreover have "n \<le> length (drop i (array_data a))" "n \<le> 2147483647" using n len by simp_all
    note from_array [OF this, of "array_elem_size a" "array_elem_kind a", folded c_def]
    ultimately have c: "array_ok c" "array_list c = take n (drop i (array_list a))" by simp_all
    have same: "same_elements a c" "array_len c = n" by (simp_all add: c_def gray_array_from_def Let_def same_elements_def)
    have step: "split_loop a chunk i = c # split_loop a chunk (i + chunk)"
      using True assms(2) by (subst split_loop.simps) (simp add: c_def n_def)
    have IH: "list_all (\<lambda>c. array_ok c \<and> same_elements a c \<and> 0 < array_len c \<and> array_len c \<le> chunk) (split_loop a chunk (i + chunk))
      \<and> concat (map array_list (split_loop a chunk (i + chunk))) = drop (i + chunk) (array_list a)"
      using True assms(2) by (intro less.IH) simp
    have "take n (drop i (array_list a)) = take chunk (drop i (array_list a))" using len by (simp add: n_def)
    moreover have "take chunk (drop i (array_list a)) @ drop (i + chunk) (array_list a) = drop i (array_list a)"
      by (metis append_take_drop_id drop_drop add.commute)
    ultimately show ?thesis using IH c same n unfolding step by simp
  qed
qed

lemma first_inner_same:
  "inners \<noteq> [] \<Longrightarrow> 0 < width \<Longrightarrow> list_all (\<lambda>c. array_elem_size c = width \<and> array_elem_kind c = kind) inners \<Longrightarrow>
     first_inner inners = (width, kind)"
proof -
  assume a: "inners \<noteq> []" "0 < width" "list_all (\<lambda>c. array_elem_size c = width \<and> array_elem_kind c = kind) inners"
  let ?f = "\<lambda>inner (out_es, out_kind). if out_es = 0 then (array_elem_size inner, array_elem_kind inner) else (out_es, out_kind)"
  have kept: "fold ?f cs (width, kind) = (width, kind)" for cs using a(2) by (induction cs) simp_all
  show ?thesis using a kept by (cases inners) (simp_all add: first_inner_def)
qed

lemma flatten_ok:
  assumes "list_all (\<lambda>c. array_ok c \<and> array_elem_size c = width \<and> array_elem_kind c = kind) inners" "0 < width"
    and "sum_list (map array_len inners) \<le> 2147483647"
  shows "array_ok (gray_arrays_flatten inners) \<and> array_list (gray_arrays_flatten inners) = concat (map array_list inners)"
proof (cases "inners = []")
  case True
  then show ?thesis using exact_array_ok [of "[]"] by (simp add: gray_arrays_flatten_def first_inner_def)
next
  case False
  have "length (concat (map array_list inners)) = sum_list (map array_len inners)"
    using assms(1) by (simp add: length_concat comp_def list_all_iff length_array_list cong: map_cong)
  moreover have "stored kind width e = e" if e: "e \<in> set (concat (map array_list inners))" for e
  proof -
    obtain c where "c \<in> set inners" "e \<in> set (array_list c)" using e by auto
    then show ?thesis using assms(1) array_list_stored_same [of c e] by (auto simp: list_all_iff)
  qed
  ultimately have "array_ok (exact_array width kind (concat (map array_list inners)))"
    "array_list (exact_array width kind (concat (map array_list inners))) = concat (map array_list inners)"
    using exact_array_ok [of "concat (map array_list inners)" kind width] assms(3) by simp_all
  moreover have "first_inner inners = (width, kind)" using False assms(1,2) by (intro first_inner_same) (simp_all add: list_all_iff)
  ultimately show ?thesis using assms(2)
    by (simp only: gray_arrays_flatten_def array_list_def [symmetric, abs_def]) simp
qed

text \<open>Splitting an array and flattening the pieces gives its elements back.\<close>

lemma flatten_split:
  assumes "array_ok a" "0 < array_elem_size a"
  shows "array_list (gray_arrays_flatten (gray_arrays_split_every a chunk)) = array_list a"
proof -
  let ?chunk = "if chunk \<le> 0 then 1 else nat chunk"
  let ?cs = "split_loop a ?chunk 0"
  have cs: "list_all (\<lambda>c. array_ok c \<and> same_elements a c \<and> 0 < array_len c \<and> array_len c \<le> ?chunk) ?cs"
    "concat (map array_list ?cs) = array_list a"
    using split_loop_ok [OF assms(1), of ?chunk 0] by auto
  then have all: "list_all (\<lambda>c. array_ok c \<and> array_elem_size c = array_elem_size a \<and> array_elem_kind c = array_elem_kind a) ?cs"
    by (simp add: list_all_iff same_elements_def)
  have "map (length \<circ> array_list) ?cs = map array_len ?cs" using cs(1) by (intro map_cong refl) (simp add: list_all_iff length_array_list)
  then have "sum_list (map array_len ?cs) = length (array_list a)" unfolding cs(2) [symmetric] length_concat map_map by (simp only:)
  then have "sum_list (map array_len ?cs) \<le> 2147483647" using length_array_list [OF assms(1)] assms(1) by (simp add: array_ok_def)
  with flatten_ok [OF all assms(2)] cs(2) show ?thesis by (simp add: gray_arrays_split_every_def)
qed

lemma split_every_ok:
  assumes "array_ok a"
  shows "list_all (\<lambda>c. array_ok c \<and> 0 < array_len c \<and> int (array_len c) \<le> max 1 chunk) (gray_arrays_split_every a chunk)"
  using split_loop_ok [OF assms, of "if chunk \<le> 0 then 1 else nat chunk" 0]
  by (cases "chunk \<le> 0") (fastforce simp: gray_arrays_split_every_def list_all_iff)+

subsection \<open>Computation\<close>

lemma load_zero: "load_u n (replicate m 0) = 0" "load_s n (replicate m 0) = 0"
proof -
  have "bytes_at n (replicate m 0) = replicate n 0" by (auto simp: bytes_at_map intro!: nth_equalityI)
  moreover have "horner_sum uint 256 (replicate n (0 :: u8)) = (0 :: int)" for n by (induction n) simp_all
  ultimately show "load_u n (replicate m 0) = 0" by (simp add: load_u_def)
  then show "load_s n (replicate m 0) = 0" by (simp add: load_s_def)
qed

lemma int_kind_zero: "int_kind kind = Some (ival, lo, hi, code) \<Longrightarrow> ival (replicate m 0) = 0 \<and> lo \<le> 0 \<and> 0 < hi \<and> kind \<noteq> GRAY_ELEM_STRING"
proof -
  have limb: "load_limb i (replicate m 0) = 0" for i by (simp add: load_limb_def load_zero)
  assume "int_kind kind = Some (ival, lo, hi, code)"
  then show ?thesis
    by (cases kind) (auto simp: load_zero limb load_i128_def load_u128_def load_i256_def load_u256_def
        i128_int_def u128_int_def i256_int_def u256_int_def i256_words_def u256_words_def)
qed

lemma sum_loop_value:
  assumes "int_kind kind = Some (ival, lo, hi, code)"
  shows "if \<forall>n. 0 < n \<and> n \<le> length es \<longrightarrow> lo \<le> ival acc + sum_list (map ival (take n es)) \<and> ival acc + sum_list (map ival (take n es)) < hi
    then \<exists>r. sum_loop kind acc es = Some (Inr r) \<and> ival r = ival acc + sum_list (map ival es)
    else sum_loop kind acc es = Some (Inl code)"
proof (induction es arbitrary: acc)
  case (Cons e es)
  let ?s = "\<lambda>n. ival acc + sum_list (map ival (take n (e # es)))"
  obtain r where r: "gray_elem_add kind acc e = Some r" "exact_or_panic ival lo hi code (ival acc + ival e) r"
    using elem_add_value [OF assms] by blast
  have all: "(\<forall>n. 0 < n \<and> n \<le> length (e # es) \<longrightarrow> lo \<le> ?s n \<and> ?s n < hi) \<longleftrightarrow>
      (lo \<le> ival acc + ival e \<and> ival acc + ival e < hi) \<and> (\<forall>n. 0 < n \<and> n \<le> length es \<longrightarrow> lo \<le> ?s (Suc n) \<and> ?s (Suc n) < hi)"
    (is "?l \<longleftrightarrow> ?a \<and> ?r")
  proof
    assume ?l
    then show "?a \<and> ?r" by (auto dest: spec [of _ 1])
  next
    assume *: "?a \<and> ?r"
    show ?l
    proof (intro allI impI)
      fix n
      assume "0 < n \<and> n \<le> length (e # es)"
      then show "lo \<le> ?s n \<and> ?s n < hi" using * by (cases n; cases "n = 1") auto
    qed
  qed
  show ?case
  proof (cases ?a)
    case True
    then obtain x where x: "r = Inr x" "ival x = ival acc + ival e" using r(2) by (cases r) (auto simp: exact_or_panic_def)
    then have "?s (Suc n) = ival x + sum_list (map ival (take n es))" for n by simp
    then show ?thesis using Cons.IH [of x] True x r(1) unfolding all by (simp add: add.assoc split: if_splits)
  next
    case False
    then have "r = Inl code" using r(2) by (auto simp: exact_or_panic_def)
    then show ?thesis using r(1) False unfolding all by auto
  qed
qed simp

text \<open>The order the search for an extreme element uses, in either direction.\<close>

definition before :: "bool \<Rightarrow> GrayElemKind \<Rightarrow> nat \<Rightarrow> element \<Rightarrow> element \<Rightarrow> bool" where
  "before descending kind width x y \<longleftrightarrow>
     (if descending then 0 < gray_elem_compare kind width x y else gray_elem_compare kind width x y < 0)"

lemma before_rank: "before descending kind width x y \<longleftrightarrow>
  (if descending then elem_rank kind width y < elem_rank kind width x else elem_rank kind width x < elem_rank kind width y)"
  by (auto simp: before_def elem_compare_rank GRAY_ORDER_cases)

interpretation extremes: sort_order "before descending kind width" for descending kind width
  by unfold_locales (auto simp: before_rank split: if_splits)

lemma extreme_loop_value:
  assumes "best < i" "i \<le> n" "\<And>j. j < i \<Longrightarrow> \<not> before d kind width (xs ! j) (xs ! best)"
    "\<And>j. j < best \<Longrightarrow> before d kind width (xs ! best) (xs ! j)"
    and a: "kind = array_elem_kind a" "width = array_elem_size a" "xs = array_data a" and r: "r = extreme_loop a d best [i..<n]"
  shows "r < n \<and> (\<forall>j < n. \<not> before d kind width (xs ! j) (xs ! r)) \<and> (\<forall>j < r. before d kind width (xs ! r) (xs ! j))"
  using assms(1-4) r
proof (induction "n - i" arbitrary: i best)
  case 0
  then show ?case by auto
next
  case (Suc k)
  then have i: "[i..<n] = i # [Suc i..<n]" "i < n" by (simp_all add: upt_conv_Cons)
  have step: "r = extreme_loop a d (if before d kind width (xs ! i) (xs ! best) then i else best) [Suc i..<n]"
    using Suc.prems(5) unfolding i(1) by (auto simp: before_def a Let_def)
  show ?case
  proof (cases "before d kind width (xs ! i) (xs ! best)")
    case True
    have less: "before d kind width (xs ! i) (xs ! j)" if "j < i" for j
      using Suc.prems(3) [OF that] True extremes.le_trans [of d kind width] extremes.asym by blast
    have "\<not> before d kind width (xs ! j) (xs ! i)" if "j < Suc i" for j
      using that less [of j] extremes.asym [of d kind width "xs ! i" "xs ! j"] extremes.irrefl [of d kind width "xs ! i"]
      by (cases "j = i") auto
    with less show ?thesis using step True i Suc.hyps(2) by (intro Suc.hyps(1) [of "Suc i" i]) simp_all
  next
    case False
    have "\<not> before d kind width (xs ! j) (xs ! best)" if "j < Suc i" for j
      using that Suc.prems(3) [of j] False by (cases "j = i") auto
    then show ?thesis using step False i Suc.hyps(2) Suc.prems(1,4) by (intro Suc.hyps(1) [of "Suc i" best]) simp_all
  qed
qed

text \<open>The first of the extreme elements is found.\<close>

lemma extreme_index_value:
  assumes "array_ok a" "0 < array_len a"
  shows "\<exists>r < array_len a. extreme_index a d = int r
    \<and> (\<forall>e \<in> set (array_list a). \<not> before d (array_elem_kind a) (array_elem_size a) e (array_list a ! r))
    \<and> (\<forall>j < r. before d (array_elem_kind a) (array_elem_size a) (array_list a ! r) (array_list a ! j))"
proof -
  define r where "r = extreme_loop a d 0 [1..<array_len a]"
  have "r < array_len a \<and> (\<forall>j < array_len a. \<not> before d (array_elem_kind a) (array_elem_size a) (array_data a ! j) (array_data a ! r))
      \<and> (\<forall>j < r. before d (array_elem_kind a) (array_elem_size a) (array_data a ! r) (array_data a ! j))"
    using assms(2) extremes.irrefl by (intro extreme_loop_value [OF _ _ _ _ refl refl refl r_def]) auto
  moreover have "extreme_index a d = int r" using assms(2) by (simp add: extreme_index_def r_def)
  ultimately show ?thesis using length_array_list [OF assms(1)]
    by (intro exI [of _ r]) (auto simp: array_nth in_set_conv_nth)
qed

lemma get_min_value:
  assumes "array_ok a" "0 < array_len a"
  shows "\<exists>i < array_len a. gray_arrays_get_min a = array_list a ! i
    \<and> (\<forall>e \<in> set (array_list a). gray_elem_compare (array_elem_kind a) (array_elem_size a) (array_list a ! i) e \<le> 0)
    \<and> (\<forall>j < i. gray_elem_compare (array_elem_kind a) (array_elem_size a) (array_list a ! i) (array_list a ! j) < 0)"
proof -
  obtain r where r: "r < array_len a" "extreme_index a False = int r"
      "\<forall>e \<in> set (array_list a). \<not> before False (array_elem_kind a) (array_elem_size a) e (array_list a ! r)"
      "\<forall>j < r. before False (array_elem_kind a) (array_elem_size a) (array_list a ! r) (array_list a ! j)"
    using extreme_index_value [OF assms, of False] by blast
  have "gray_elem_compare (array_elem_kind a) (array_elem_size a) (array_list a ! r) e \<le> 0" if "e \<in> set (array_list a)" for e
    using r(3) that elem.flip [of "array_elem_kind a" "array_elem_size a" e "array_list a ! r"] by (auto simp: before_def)
  then show ?thesis using r array_nth [of r a] by (intro exI [of _ r]) (auto simp: gray_arrays_get_min_def before_def)
qed

lemma get_max_value:
  assumes "array_ok a" "0 < array_len a"
  shows "\<exists>i < array_len a. gray_arrays_get_max a = array_list a ! i
    \<and> (\<forall>e \<in> set (array_list a). 0 \<le> gray_elem_compare (array_elem_kind a) (array_elem_size a) (array_list a ! i) e)
    \<and> (\<forall>j < i. 0 < gray_elem_compare (array_elem_kind a) (array_elem_size a) (array_list a ! i) (array_list a ! j))"
proof -
  obtain r where r: "r < array_len a" "extreme_index a True = int r"
      "\<forall>e \<in> set (array_list a). \<not> before True (array_elem_kind a) (array_elem_size a) e (array_list a ! r)"
      "\<forall>j < r. before True (array_elem_kind a) (array_elem_size a) (array_list a ! r) (array_list a ! j)"
    using extreme_index_value [OF assms, of True] by blast
  have "0 \<le> gray_elem_compare (array_elem_kind a) (array_elem_size a) (array_list a ! r) e" if "e \<in> set (array_list a)" for e
    using r(3) that elem.flip [of "array_elem_kind a" "array_elem_size a" e "array_list a ! r"] by (auto simp: before_def)
  then show ?thesis using r array_nth [of r a] by (intro exI [of _ r]) (auto simp: gray_arrays_get_max_def before_def)
qed

lemma sum_value:
  assumes "array_ok a" "int_kind (array_elem_kind a) = Some (ival, lo, hi, code)"
  shows "if \<forall>n \<le> array_len a. lo \<le> sum_list (map ival (take n (array_list a))) \<and> sum_list (map ival (take n (array_list a))) < hi
    then \<exists>r. gray_arrays_get_sum a = Some (Inr r) \<and> ival r = sum_list (map ival (array_list a))
    else gray_arrays_get_sum a = Some (Inl code)"
proof -
  have zero: "ival (zero_element a) = 0" "lo \<le> 0" "0 < hi"
    using int_kind_zero [OF assms(2), of "array_elem_size a"] by (simp_all add: zero_element_def)
  have "(\<forall>n \<le> array_len a. lo \<le> sum_list (map ival (take n (array_list a))) \<and> sum_list (map ival (take n (array_list a))) < hi) \<longleftrightarrow>
      (\<forall>n. 0 < n \<and> n \<le> length (array_list a) \<longrightarrow> lo \<le> sum_list (map ival (take n (array_list a))) \<and> sum_list (map ival (take n (array_list a))) < hi)"
    using zero(2,3) unfolding length_array_list [OF assms(1)] by (metis list.simps(8) neq0_conv sum_list.Nil take0)
  then show ?thesis using sum_loop_value [OF assms(2), of "array_list a" "zero_element a"]
    unfolding zero(1) add_0 gray_arrays_get_sum_def by (simp only:)
qed

subsection \<open>An array of three bytes\<close>

definition three_bytes :: gray_array where
  "three_bytes = exact_array 1 GRAY_ELEM_U8 [[3], [1], [2]]"

lemma three_bytes [simp]:
  "array_ok three_bytes" "array_iterating three_bytes = 0" "array_list three_bytes = [[3], [1], [2]]" "array_len three_bytes = 3"
  "array_elem_kind three_bytes = GRAY_ELEM_U8" "array_elem_size three_bytes = 1"
proof -
  let ?es = "[[3], [1], [2]] :: element list"
  have "length ?es \<le> 2147483647" "\<And>e. e \<in> set ?es \<Longrightarrow> stored GRAY_ELEM_U8 1 e = e" by (auto simp: stored_def bytes_at_def)
  from exact_array_ok [OF this] show "array_ok three_bytes" "array_list three_bytes = ?es"
    "array_elem_kind three_bytes = GRAY_ELEM_U8" "array_elem_size three_bytes = 1" unfolding three_bytes_def by blast+
  show "array_iterating three_bytes = 0" "array_len three_bytes = 3"
    by (simp_all add: three_bytes_def exact_array_def gray_array_new_def Let_def)
qed

end
