(* ===== verification/Array_Sort.thy ===== *)
theory Array_Sort
  imports Array_Values
begin

text \<open>
  Sorting and searching in \<open>stdlib/arrays.c\<close>: the tests the introsorts are instantiated with, the sort
  in both directions, the sortedness test, binary search and swap.
\<close>

subsection \<open>The tests\<close>

definition f64_less :: "u64 \<Rightarrow> u64 \<Rightarrow> bool" where
  "f64_less left right \<longleftrightarrow> \<not> f64_is_nan left \<and> \<not> f64_is_nan right \<and> f64_value left < f64_value right"

definition GRAY_SORT_FLOAT_LESS_THAN :: "u64 \<Rightarrow> u64 \<Rightarrow> bool" where
  "GRAY_SORT_FLOAT_LESS_THAN left right \<longleftrightarrow>
     f64_less left right \<or> (f64_equal left left \<and> \<not> f64_equal right right)"

definition gray_sort_string_less_than :: "element \<Rightarrow> element \<Rightarrow> bool" where
  "gray_sort_string_less_than left right =
     (let minimum_length = (if length left < length right then length left else length right);
          comparison = memcmp minimum_length left right
      in if comparison \<noteq> 0 then comparison < 0 else length left < length right)"

text \<open>The test of each introsort. A float is compared as the double it converts to.\<close>

fun introsort_test :: "GrayElemKind \<Rightarrow> (element \<Rightarrow> element \<Rightarrow> bool) option" where
  "introsort_test GRAY_ELEM_I8 = Some (\<lambda>x y. load_s 1 x < load_s 1 y)"
| "introsort_test GRAY_ELEM_I16 = Some (\<lambda>x y. load_s 2 x < load_s 2 y)"
| "introsort_test GRAY_ELEM_I32 = Some (\<lambda>x y. load_s 4 x < load_s 4 y)"
| "introsort_test GRAY_ELEM_CHAR = Some (\<lambda>x y. load_s 4 x < load_s 4 y)"
| "introsort_test GRAY_ELEM_I64 = Some (\<lambda>x y. load_s 8 x < load_s 8 y)"
| "introsort_test GRAY_ELEM_U8 = Some (\<lambda>x y. load_u 1 x < load_u 1 y)"
| "introsort_test GRAY_ELEM_BOOL = Some (\<lambda>x y. load_u 1 x < load_u 1 y)"
| "introsort_test GRAY_ELEM_U16 = Some (\<lambda>x y. load_u 2 x < load_u 2 y)"
| "introsort_test GRAY_ELEM_U32 = Some (\<lambda>x y. load_u 4 x < load_u 4 y)"
| "introsort_test GRAY_ELEM_U64 = Some (\<lambda>x y. load_u 8 x < load_u 8 y)"
| "introsort_test GRAY_ELEM_F32 = Some (\<lambda>x y. GRAY_SORT_FLOAT_LESS_THAN (load_f32 x) (load_f32 y))"
| "introsort_test GRAY_ELEM_F64 = Some (\<lambda>x y. GRAY_SORT_FLOAT_LESS_THAN (load_f64 x) (load_f64 y))"
| "introsort_test GRAY_ELEM_STRING = Some gray_sort_string_less_than"
| "introsort_test _ = None"

text \<open>
  The C library's \<open>qsort\<close>, which the wide integers go through, puts the elements in an order by the
  comparison. Here it is an insertion sort: wide integers that compare as equal are the same bytes,
  and so no other order of the result exists (\<open>wide_sort_unique\<close>).
\<close>

fun qsort_insert :: "('a \<Rightarrow> 'a \<Rightarrow> int) \<Rightarrow> 'a \<Rightarrow> 'a list \<Rightarrow> 'a list" where
  "qsort_insert compar x [] = [x]"
| "qsort_insert compar x (y # ys) = (if compar x y \<le> 0 then x # y # ys else y # qsort_insert compar x ys)"

definition qsort :: "('a \<Rightarrow> 'a \<Rightarrow> int) \<Rightarrow> 'a list \<Rightarrow> 'a list" where
  "qsort compar xs = foldr (qsort_insert compar) xs []"

definition compare_wide :: "GrayElemKind \<Rightarrow> element \<Rightarrow> element \<Rightarrow> int" where
  "compare_wide kind left right =
     gray_elem_compare kind (if kind = GRAY_ELEM_I128 \<or> kind = GRAY_ELEM_U128 then 16 else 32) left right"

subsection \<open>Sorting\<close>

text \<open>The elements in ascending order; \<open>None\<close> for a scan that leaves the array, \<open>Inl\<close> for kinds with no order.\<close>

definition sorted_elements :: "GrayElemKind \<Rightarrow> element list \<Rightarrow> (unit + element list) option" where
  "sorted_elements kind es =
     (case introsort_test kind of
        Some lt \<Rightarrow> map_option Inr (gray_sort lt es (length es))
      | None \<Rightarrow>
          if kind \<in> {GRAY_ELEM_I128, GRAY_ELEM_U128, GRAY_ELEM_I256, GRAY_ELEM_U256}
          then Some (Inr (qsort (compare_wide kind) es))
          else Some (Inl ()))"

text \<open>The loop that reverses in place, with the back index one past the source's.\<close>

function reverse_loop :: "element list \<Rightarrow> nat \<Rightarrow> nat \<Rightarrow> element list" where
  "reverse_loop data front_index back =
     (if front_index + 1 < back
      then reverse_loop (swap_at data front_index (back - 1)) (front_index + 1) (back - 1)
      else data)"
  by pat_completeness auto
termination
  by (relation "measure (\<lambda>(data, front_index, back). back - front_index)") auto

declare reverse_loop.simps [simp del]

definition gray_arrays_sort :: "gray_array \<Rightarrow> bool \<Rightarrow> gray_array panicking option" where
  "gray_arrays_sort a descending =
     (if 0 < array_iterating a then Some (Inl ''P0034'')
      else if array_len a \<le> 1 then Some (Inr a)
      else case sorted_elements (array_elem_kind a) (array_list a) of
        None \<Rightarrow> None
      | Some (Inl _) \<Rightarrow> Some (Inr a)
      | Some (Inr es) \<Rightarrow>
          let data = es @ drop (array_len a) (array_data a)
          in Some (Inr (a\<lparr>array_data := (if descending then reverse_loop data 0 (array_len a) else data)\<rparr>)))"

definition gray_arrays_is_sorted :: "gray_array \<Rightarrow> bool" where
  "gray_arrays_is_sorted a \<longleftrightarrow>
     list_all (\<lambda>i. gray_elem_compare (array_elem_kind a) (array_elem_size a) (array_data a ! (i - 1)) (array_data a ! i) \<le> 0)
       [1..<array_len a]"

subsection \<open>Binary search and swap\<close>

function search_loop :: "(nat \<Rightarrow> int) \<Rightarrow> int \<Rightarrow> int \<Rightarrow> int" where
  "search_loop order low hi =
     (if 0 \<le> low \<and> low \<le> hi
      then let middle = low + (hi - low) div 2
           in if order (nat middle) < 0 then search_loop order (middle + 1) hi
              else if 0 < order (nat middle) then search_loop order low (middle - 1)
              else middle
      else - 1)"
  by pat_completeness auto
termination
  by (relation "measure (\<lambda>(order, low, hi). nat (hi + 1 - low))") auto

declare search_loop.simps [simp del]

definition gray_arrays_binary_search :: "gray_array \<Rightarrow> element \<Rightarrow> int" where
  "gray_arrays_binary_search a v =
     search_loop (\<lambda>middle. gray_elem_compare (array_elem_kind a) (array_elem_size a) (array_data a ! middle) v)
       0 (int (array_len a) - 1)"

definition gray_arrays_swap :: "gray_array \<Rightarrow> int \<Rightarrow> int \<Rightarrow> gray_array panicking" where
  "gray_arrays_swap a i j =
     bind_panic (ARRAY_CHECK_ITER a) (\<lambda>a.
       if i < 0 \<or> int (array_len a) \<le> i \<or> j < 0 \<or> int (array_len a) \<le> j then Inl ''P0120''
       else if i = j then Inr a
       else Inr (a\<lparr>array_data := swap_at (array_data a) (nat i) (nat j)\<rparr>))"

subsection \<open>The tests agree with the comparison of elements\<close>

lemma float_less_order: "GRAY_SORT_FLOAT_LESS_THAN x y \<longleftrightarrow> float_order x y < 0"
  by (auto simp: GRAY_SORT_FLOAT_LESS_THAN_def f64_less_def float_order_def f64_equal_def GRAY_ORDER_cases)

lemma string_less_order: "gray_sort_string_less_than x y \<longleftrightarrow> string_order x y < 0"
proof -
  have "memcmp 0 x y = 0" by (simp add: memcmp_def bytes_at_def)
  then show ?thesis by (auto simp: gray_sort_string_less_than_def string_order_def Let_def GRAY_ORDER_cases)
qed

lemma introsort_test_compare:
  "introsort_test kind = Some lt \<Longrightarrow> lt x y \<longleftrightarrow> gray_elem_compare kind width x y < 0"
  by (cases kind) (auto simp: gray_elem_compare_def float_less_order string_less_order GRAY_ORDER_cases)

lemma introsort_order: "introsort_test kind = Some lt \<Longrightarrow> lt = before False kind width"
  by (simp add: fun_eq_iff before_def introsort_test_compare)

abbreviation ascending :: "GrayElemKind \<Rightarrow> nat \<Rightarrow> element list \<Rightarrow> bool" where
  "ascending kind width \<equiv> sorted_wrt (\<lambda>x y. gray_elem_compare kind width x y \<le> 0)"

lemma introsort_elements:
  assumes "introsort_test kind = Some lt" "1 < length es"
  shows "\<exists>ws. gray_sort lt es (length es) = Some ws \<and> mset ws = mset es \<and> ascending kind width ws"
proof -
  have lt: "lt = before False kind width" using assms(1) by (rule introsort_order)
  have "\<not> lt y x \<longleftrightarrow> gray_elem_compare kind width x y \<le> 0" for x y
    using elem.flip [of kind width y x] by (auto simp: lt before_def)
  then show ?thesis using extremes.gray_sort_sorts [OF assms(2), of False kind width] unfolding lt by simp
qed

lemma set_qsort_insert: "mset (qsort_insert compar x ys) = add_mset x (mset ys)"
  by (induction ys) auto

context three_way
begin

lemma qsort_insert_sorted:
  "sorted_wrt (\<lambda>x y. cmp x y \<le> 0) ys \<Longrightarrow> sorted_wrt (\<lambda>x y. cmp x y \<le> 0) (qsort_insert cmp x ys)"
proof (induction ys)
  case (Cons y ys)
  have m: "set (qsort_insert cmp x ys) = insert x (set ys)"
    using arg_cong [OF set_qsort_insert [of cmp x ys], of set_mset] by simp
  show ?case
  proof (cases "cmp x y \<le> 0")
    case False
    then show ?thesis using Cons total [of x y] by (auto simp: m)
  qed (use Cons.prems le_trans in auto)
qed simp

lemma qsort_sorted: "mset (qsort cmp xs) = mset xs \<and> sorted_wrt (\<lambda>x y. cmp x y \<le> 0) (qsort cmp xs)"
  by (induction xs) (auto simp: qsort_def set_qsort_insert qsort_insert_sorted)

end

text \<open>There is one order of elements that are equal when they compare as equal.\<close>

lemma sort_unique:
  assumes "three_way cmp" "\<And>x y. x \<in> set xs \<Longrightarrow> y \<in> set xs \<Longrightarrow> cmp x y = 0 \<Longrightarrow> x = y"
    and "mset xs = mset ys" "sorted_wrt (\<lambda>x y. cmp x y \<le> 0) xs" "sorted_wrt (\<lambda>x y. cmp x y \<le> 0) ys"
  shows "xs = ys"
  using assms(2-5)
proof (induction xs arbitrary: ys)
  case (Cons x xs)
  obtain y zs where ys: "ys = y # zs" using Cons.prems(2) by (cases ys) auto
  have s: "set (x # xs) = set ys" using Cons.prems(2) by (rule mset_eq_setD)
  have "y \<in> set ys" "x \<in> set (x # xs)" by (simp_all add: ys)
  then have "y \<in> set (x # xs)" "x \<in> set ys" by (simp_all only: s)
  then have "y = x \<or> cmp x y \<le> 0 \<and> cmp y x \<le> 0" using Cons.prems(3,4) by (auto simp: ys)
  then have "x = y" using Cons.prems(1) [of x y] \<open>y \<in> set (x # xs)\<close> three_way.flip [OF assms(1), of y x] by auto
  then show ?case using Cons by (simp add: ys)
qed simp

lemma wide_sort_unique:
  assumes "kind \<in> {GRAY_ELEM_I128, GRAY_ELEM_U128, GRAY_ELEM_I256, GRAY_ELEM_U256}"
    and "\<And>x. x \<in> set xs \<Longrightarrow> length x = the (kind_width kind)"
    and "mset xs = mset ys" "sorted_wrt (\<lambda>x y. compare_wide kind x y \<le> 0) xs" "sorted_wrt (\<lambda>x y. compare_wide kind x y \<le> 0) ys"
  shows "xs = ys"
proof -
  have "three_way (compare_wide kind)"
    unfolding compare_wide_def by (rule elem.three_way_axioms)
  moreover have "x = y" if xy: "x \<in> set xs" "y \<in> set xs" "compare_wide kind x y = 0" for x y
  proof -
    let ?w = "the (kind_width kind)"
    have w: "width_ok kind ?w" "(if kind = GRAY_ELEM_I128 \<or> kind = GRAY_ELEM_U128 then 16 else 32) = ?w" "\<not> is_nan kind x"
      using assms(1) by (auto simp: width_ok_def is_nan_def)
    then have "gray_elem_equal kind ?w x y"
      using xy(3) elem_equal_rank [OF w(1), of x y] by (simp add: compare_wide_def elem_compare_rank)
    then have "bytes_at ?w x = bytes_at ?w y" using assms(1) by (auto simp: gray_elem_equal_def memcmp_0)
    then show ?thesis using assms(2) xy(1,2) by (simp add: bytes_at_length)
  qed
  ultimately show ?thesis using sort_unique assms(3-5) by blast
qed

subsection \<open>The sort\<close>

definition sortable :: "GrayElemKind \<Rightarrow> bool" where
  "sortable kind \<longleftrightarrow> kind \<notin> {GRAY_ELEM_OTHER, GRAY_ELEM_ARRAY, GRAY_ELEM_MAP}"

lemma sorted_elements_value:
  assumes "sortable kind" "1 < length es"
  shows "\<exists>ws. sorted_elements kind es = Some (Inr ws) \<and> mset ws = mset es \<and> ascending kind width ws"
proof (cases "introsort_test kind")
  case (Some lt)
  then show ?thesis using introsort_elements [OF Some assms(2), of width] by (auto simp: sorted_elements_def)
next
  case None
  then have k: "kind \<in> {GRAY_ELEM_I128, GRAY_ELEM_U128, GRAY_ELEM_I256, GRAY_ELEM_U256}" using assms(1) by (cases kind) (simp_all add: sortable_def)
  then have "compare_wide kind = gray_elem_compare kind width" by (auto simp: fun_eq_iff compare_wide_def gray_elem_compare_def)
  then show ?thesis using None k elem.qsort_sorted [of kind width es] by (simp add: sorted_elements_def)
qed

lemma length_reverse_loop [simp]: "length (reverse_loop data f b) = length data"
proof (induction data f b rule: reverse_loop.induct)
  case (1 data f b)
  then show ?case by (subst reverse_loop.simps) simp
qed

lemma reverse_loop_nth:
  "b \<le> length data \<Longrightarrow> k < length data \<Longrightarrow> reverse_loop data f b ! k = (if f \<le> k \<and> k < b then data ! (f + b - 1 - k) else data ! k)"
proof (induction data f b rule: reverse_loop.induct)
  case (1 data f b)
  note step = reverse_loop.simps [of data f b]
  show ?case
  proof (cases "f + 1 < b")
    case True
    let ?d = "swap_at data f (b - 1)"
    have IH: "reverse_loop data f b ! k = (if f + 1 \<le> k \<and> k < b - 1 then ?d ! (f + b - 1 - k) else ?d ! k)"
      using 1(1) [OF True] 1(2,3) step True by simp
    have nth: "?d ! i = (if i = b - 1 then data ! f else if i = f then data ! (b - 1) else data ! i)" for i
      using 1(2) True by (intro swap_at_nth) simp_all
    consider "k = f" | "k = b - 1" | "f + 1 \<le> k" "k < b - 1" | "k < f \<or> b \<le> k" by linarith
    then show ?thesis
    proof cases
      case 3
      then have "f + b - 1 - k \<noteq> b - 1" "f + b - 1 - k \<noteq> f" "f + 1 \<le> k \<and> k < b - 1" "f \<le> k \<and> k < b" by linarith+
      then show ?thesis by (simp only: IH nth if_True if_False simp_thms)
    next
      case 4
      then have "\<not> (f + 1 \<le> k \<and> k < b - 1)" "k \<noteq> f" "k \<noteq> b - 1" "\<not> (f \<le> k \<and> k < b)" using True by linarith+
      then show ?thesis by (simp only: IH nth if_False)
    next
      case 1
      then have "\<not> (f + 1 \<le> k \<and> k < b - 1)" "k \<noteq> b - 1" "f \<le> k \<and> k < b" "f + b - 1 - k = b - 1" using True by linarith+
      with 1 show ?thesis unfolding IH nth by (simp only: if_True if_False simp_thms)
    next
      case 2
      then have "\<not> (f + 1 \<le> k \<and> k < b - 1)" "f \<le> k \<and> k < b" "f + b - 1 - k = f" using True by linarith+
      with 2 show ?thesis unfolding IH nth by (simp only: if_True if_False simp_thms)
    qed
  next
    case False
    then show ?thesis using step by (auto intro: arg_cong [where f = "\<lambda>i. data ! i"])
  qed
qed

lemma reverse_loop_rev: "reverse_loop (es @ rest) 0 (length es) = rev es @ rest"
  by (rule nth_equalityI) (auto simp: reverse_loop_nth nth_append rev_nth)

lemma sort_ok:
  assumes ok: "array_ok a" and "array_iterating a = 0" "sortable (array_elem_kind a)"
  shows "\<exists>b. gray_arrays_sort a descending = Some (Inr b) \<and> array_ok b \<and> same_elements a b
    \<and> mset (array_list b) = mset (array_list a)
    \<and> ascending (array_elem_kind a) (array_elem_size a) (if descending then rev (array_list b) else array_list b)"
proof (cases "array_len a \<le> 1")
  case True
  then have "length (array_list a) \<le> 1" using length_array_list [OF ok] by simp
  then have "ascending (array_elem_kind a) (array_elem_size a) (if descending then rev (array_list a) else array_list a)"
    by (cases "array_list a") (auto simp: Suc_le_eq)
  then show ?thesis using True assms(1,2) by (simp add: gray_arrays_sort_def same_elements_def)
next
  case False
  have len: "length (array_list a) = array_len a" using ok by (rule length_array_list)
  obtain ws where ws: "sorted_elements (array_elem_kind a) (array_list a) = Some (Inr ws)" "mset ws = mset (array_list a)"
      "ascending (array_elem_kind a) (array_elem_size a) ws"
    using sorted_elements_value [OF assms(3), of "array_list a"] False len by auto
  then have n: "length ws = array_len a" using len mset_eq_length by metis
  define es where "es = (if descending then rev ws else ws)"
  define b where "b = a\<lparr>array_data := es @ drop (array_len a) (array_data a)\<rparr>"
  have "gray_arrays_sort a descending = Some (Inr b)"
    using False assms(2) ws(1) reverse_loop_rev [of ws] n by (simp add: gray_arrays_sort_def b_def es_def Let_def)
  moreover have l: "array_list b = es" using n by (simp add: b_def es_def array_list_def)
  moreover have m: "mset es = mset (array_list a)" using ws(2) by (simp add: es_def)
  then have "set es = set (array_list a)" by (rule mset_eq_setD)
  then have "array_ok b" using ok array_list_stored [OF ok] l n
    by (intro array_okI) (auto simp: b_def es_def array_ok_def)
  moreover have "ascending (array_elem_kind a) (array_elem_size a) (if descending then rev es else es)" using ws(3) by (simp add: es_def)
  ultimately show ?thesis using m by (auto simp: same_elements_def b_def)
qed

lemma is_sorted_value:
  assumes "array_ok a"
  shows "gray_arrays_is_sorted a \<longleftrightarrow> ascending (array_elem_kind a) (array_elem_size a) (array_list a)"
proof -
  have "transp (\<lambda>x y. gray_elem_compare (array_elem_kind a) (array_elem_size a) x y \<le> 0)"
    by (intro transpI) (rule elem.le_trans)
  then have "ascending (array_elem_kind a) (array_elem_size a) (array_list a) \<longleftrightarrow>
      (\<forall>i. Suc i < array_len a \<longrightarrow> gray_elem_compare (array_elem_kind a) (array_elem_size a) (array_list a ! i) (array_list a ! Suc i) \<le> 0)"
    using length_array_list [OF assms] by (simp add: sorted_wrt_iff_nth_Suc_transp)
  also have "\<dots> \<longleftrightarrow> gray_arrays_is_sorted a"
  proof
    assume *: "gray_arrays_is_sorted a"
    show "\<forall>i. Suc i < array_len a \<longrightarrow> gray_elem_compare (array_elem_kind a) (array_elem_size a) (array_list a ! i) (array_list a ! Suc i) \<le> 0"
    proof (intro allI impI)
      fix i
      assume i: "Suc i < array_len a"
      then have "Suc i \<in> set [1..<array_len a]" by simp
      with * have "gray_elem_compare (array_elem_kind a) (array_elem_size a) (array_data a ! (Suc i - 1)) (array_data a ! Suc i) \<le> 0"
        unfolding gray_arrays_is_sorted_def list_all_iff by blast
      then show "gray_elem_compare (array_elem_kind a) (array_elem_size a) (array_list a ! i) (array_list a ! Suc i) \<le> 0"
        using i by (simp add: array_nth)
    qed
  qed (auto simp: gray_arrays_is_sorted_def list_all_iff array_nth Suc_le_eq gr0_conv_Suc)
  finally show ?thesis ..
qed

subsection \<open>Binary search\<close>

lemma search_loop_value:
  assumes "\<And>i j. i \<le> j \<Longrightarrow> j < n \<Longrightarrow> order i \<ge> 0 \<Longrightarrow> order j \<ge> (0 :: int)" "\<And>i j. i \<le> j \<Longrightarrow> j < n \<Longrightarrow> order i > 0 \<Longrightarrow> order j > 0"
    and "0 \<le> low" "low \<le> hi + 1" "hi < int n"
    and "\<And>i. int i < low \<Longrightarrow> order i < 0" "\<And>i. hi < int i \<Longrightarrow> i < n \<Longrightarrow> 0 < order i"
  shows "if \<exists>i < n. order i = 0 then \<exists>i < n. order i = 0 \<and> search_loop order low hi = int i else search_loop order low hi = - 1"
  using assms(3-)
proof (induction "nat (hi + 1 - low)" arbitrary: low hi rule: less_induct)
  case less
  note step = search_loop.simps [of order low hi]
  show ?case
  proof (cases "low \<le> hi")
    case False
    then have "order i \<noteq> 0" if "i < n" for i
      using that less.prems(2,4,5) by (cases "int i < low") (fastforce, smt (verit, best))
    then show ?thesis using step False by auto
  next
    case True
    define middle where "middle = low + (hi - low) div 2"
    have m: "low \<le> middle" "middle \<le> hi" using True by (simp_all add: middle_def)
    have step: "search_loop order low hi = (if order (nat middle) < 0 then search_loop order (middle + 1) hi
        else if 0 < order (nat middle) then search_loop order low (middle - 1) else middle)"
      using True less.prems(1) by (simp add: step middle_def Let_def)
    show ?thesis
    proof (cases "order (nat middle)" "0 :: int" rule: linorder_cases)
      case sign: less
      have "order i < 0" if "int i < middle + 1" for i
      proof (rule ccontr)
        assume "\<not> order i < 0"
        then have "order (nat middle) \<ge> 0" using that assms(1) [of i "nat middle"] m less.prems(1,3) by simp
        then show False using sign by simp
      qed
      then have "if \<exists>i < n. order i = 0 then \<exists>i < n. order i = 0 \<and> search_loop order (middle + 1) hi = int i else search_loop order (middle + 1) hi = - 1"
        using m less.prems by (intro less.hyps) auto
      then show ?thesis using step sign by simp
    next
      case equal
      then have "\<exists>i < n. order i = 0 \<and> middle = int i" using m less.prems(1,3) by (intro exI [of _ "nat middle"]) simp
      then show ?thesis using step equal by auto
    next
      case greater
      have "0 < order i" if "middle - 1 < int i" "i < n" for i
        using assms(2) [of "nat middle" i] that greater m less.prems(1) by simp
      then have "if \<exists>i < n. order i = 0 then \<exists>i < n. order i = 0 \<and> search_loop order low (middle - 1) = int i else search_loop order low (middle - 1) = - 1"
        using m less.prems by (intro less.hyps) auto
      then show ?thesis using step greater by simp
    qed
  qed
qed

lemma binary_search_value:
  assumes ok: "array_ok a" and sorted: "ascending (array_elem_kind a) (array_elem_size a) (array_list a)"
    and P: "P = (\<lambda>e. gray_elem_compare (array_elem_kind a) (array_elem_size a) e v = 0)"
  shows "if list_ex P (array_list a)
    then \<exists>i < array_len a. P (array_list a ! i) \<and> gray_arrays_binary_search a v = int i
    else gray_arrays_binary_search a v = - 1"
proof -
  let ?cmp = "gray_elem_compare (array_elem_kind a) (array_elem_size a)"
  let ?order = "\<lambda>i. ?cmp (array_data a ! i) v"
  have len: "length (array_list a) = array_len a" using ok by (rule length_array_list)
  have le: "?cmp (array_data a ! i) (array_data a ! j) \<le> 0" if "i \<le> j" "j < array_len a" for i j
    using that sorted_wrt_nth_less [OF sorted, of i j] elem.same len by (cases "i = j") (auto simp: array_nth)
  have "0 \<le> ?order j" if "i \<le> j" "j < array_len a" "0 \<le> ?order i" for i j
    using elem.flip [of _ _ v] elem.le_trans [of _ _ v "array_data a ! i" "array_data a ! j"] le [OF that(1,2)] that(3)
    by (metis neg_0_le_iff_le neg_le_0_iff_le)
  moreover have "0 < ?order j" if "i \<le> j" "j < array_len a" "0 < ?order i" for i j
    using elem.flip [of _ _ v] elem.less_trans [of _ _ v "array_data a ! i" "array_data a ! j"] le [OF that(1,2)] that(3)
    by (metis neg_0_less_iff_less neg_less_0_iff_less)
  ultimately have "if \<exists>i < array_len a. ?order i = 0 then \<exists>i < array_len a. ?order i = 0 \<and> search_loop ?order 0 (int (array_len a) - 1) = int i
      else search_loop ?order 0 (int (array_len a) - 1) = - 1"
    by (intro search_loop_value) auto
  moreover have "list_ex P (array_list a) \<longleftrightarrow> (\<exists>i < array_len a. ?order i = 0)"
    by (auto simp: P list_ex_length len array_nth)
  ultimately show ?thesis by (simp add: P gray_arrays_binary_search_def array_nth cong: conj_cong)
qed

lemma swap_ok:
  assumes "array_ok a" "array_iterating a = 0" "i < array_len a" "j < array_len a"
  shows "\<exists>b. gray_arrays_swap a (int i) (int j) = Inr b \<and> array_ok b \<and> array_list b = swap_at (array_list a) i j"
proof -
  define b where "b = a\<lparr>array_data := swap_at (array_data a) i j\<rparr>"
  have l: "array_list b = swap_at (array_list a) i j"
    using assms(3,4) by (simp add: b_def array_list_def swap_at_def take_update_swap)
  have "set (array_list b) = set (array_list a)"
    using assms length_array_list [OF assms(1)] unfolding l swap_at_def by (intro mset_eq_setD mset_swap) simp_all
  then have "array_ok b" using assms(1) array_list_stored [OF assms(1)] by (intro array_okI) (simp_all add: b_def array_ok_def)
  moreover have "b = a" if "i = j" using that by (simp add: b_def swap_at_def)
  then have "gray_arrays_swap a (int i) (int j) = Inr b"
    using assms(2-4) by (auto simp: gray_arrays_swap_def ARRAY_CHECK_ITER_def b_def)
  ultimately show ?thesis using l by blast
qed

end
