(* ===== verification/Maps.thy ===== *)
theory Maps
  imports Map_Operations Array_Sort
begin

text \<open>
  The module \<open>maps\<close> of the standard library (\<open>stdlib/maps.c\<close>), a client of the hash map and the arrays.
  Every loop runs over the order array and skips its holes.
\<close>

definition is_live :: "gray_map \<Rightarrow> int \<Rightarrow> bool" where
  "is_live m slot \<longleftrightarrow> 0 \<le> slot \<and> map_states m ! nat slot = Occupied"

definition order_slots :: "gray_map \<Rightarrow> int list" where
  "order_slots m = take (map_order_len m) (map_order m)"

text \<open>The result of \<open>get_keys\<close> and \<open>get_values\<close> is written straight into an array of \<open>count\<close> slots.\<close>

fun write_entries :: "(nat \<Rightarrow> element) \<Rightarrow> gray_map \<Rightarrow> int list \<Rightarrow> nat \<Rightarrow> gray_array \<Rightarrow> gray_array" where
  "write_entries field m [] entry_count a = a\<lparr>array_len := entry_count\<rparr>"
| "write_entries field m (slot # slots) entry_count a =
     (if is_live m slot
      then write_entries field m slots (entry_count + 1) (write_slot a entry_count (field (nat slot)))
      else write_entries field m slots entry_count a)"

definition gray_maps_get_keys :: "gray_map \<Rightarrow> gray_array" where
  "gray_maps_get_keys m =
     write_entries (\<lambda>slot. map_keys m ! slot) m (order_slots m) 0
       (gray_array_new (map_key_size m) (if 0 < map_count m then int (map_count m) else 4) (map_key_kind m))"

definition gray_maps_get_values :: "gray_map \<Rightarrow> gray_array" where
  "gray_maps_get_values m =
     write_entries (\<lambda>slot. map_values m ! slot) m (order_slots m) 0
       (gray_array_new (map_value_size m) (if 0 < map_count m then int (map_count m) else 4) (map_value_kind m))"

definition gray_maps_sorted_keys :: "gray_map \<Rightarrow> gray_array panicking option" where
  "gray_maps_sorted_keys m = gray_arrays_sort (gray_maps_get_keys m) False"

definition gray_maps_contains_key :: "u64 \<Rightarrow> gray_map \<Rightarrow> element \<Rightarrow> bool" where
  "gray_maps_contains_key seed m key = gray_map_has seed m key"

definition gray_maps_is_empty :: "gray_map \<Rightarrow> bool" where
  "gray_maps_is_empty m \<longleftrightarrow> map_count m = 0"

text \<open>The entries of both maps are set in a new one; the loops are those of a rebuild.\<close>

definition gray_maps_merge :: "nat \<Rightarrow> u64 \<Rightarrow> gray_map \<Rightarrow> gray_map \<Rightarrow> map_run" where
  "gray_maps_merge fuel seed left right =
     (let result = gray_map_new_kind (map_key_size left) (map_value_size left)
            (if 8 < map_count left + map_count right then (map_count left + map_count right) * 2 else 8)
            (map_key_kind left) (map_value_kind left)
      in bind_run (reinsert (gray_map_set fuel seed) left (order_slots left) result)
           (reinsert (gray_map_set fuel seed) right (order_slots right)))"

fun find_key_loop :: "gray_map \<Rightarrow> element \<Rightarrow> int list \<Rightarrow> element option" where
  "find_key_loop m v [] = None"
| "find_key_loop m v (slot # slots) =
     (if \<not> is_live m slot then find_key_loop m v slots
      else if gray_elem_equal (map_value_kind m) (map_value_size m) (map_values m ! nat slot) v
      then Some (stored (map_key_kind m) (map_key_size m) (map_keys m ! nat slot))
      else find_key_loop m v slots)"

text \<open>The key found, which the source copies to \<open>key_out\<close>, or \<open>None\<close> when it returns false.\<close>

definition gray_maps_find_key :: "gray_map \<Rightarrow> element \<Rightarrow> element option" where
  "gray_maps_find_key m v = find_key_loop m v (order_slots m)"

definition gray_maps_contains_value :: "gray_map \<Rightarrow> element \<Rightarrow> bool" where
  "gray_maps_contains_value m v \<longleftrightarrow>
     list_ex (\<lambda>slot. is_live m slot
       \<and> gray_elem_equal (map_value_kind m) (map_value_size m) (map_values m ! nat slot) v) (order_slots m)"

text \<open>Values are compared as strings when \<open>has_string_values\<close> says so, and as bytes otherwise.\<close>

definition gray_maps_is_equal :: "u64 \<Rightarrow> gray_map \<Rightarrow> gray_map \<Rightarrow> bool \<Rightarrow> bool \<Rightarrow> bool" where
  "gray_maps_is_equal seed left right has_string_keys has_string_values \<longleftrightarrow>
     map_count left = map_count right \<and> map_key_size left = map_key_size right \<and> map_value_size left = map_value_size right
     \<and> list_all (\<lambda>slot. \<not> is_live left slot \<or>
         (case (if has_string_keys then gray_map_get_str seed right (map_keys left ! nat slot)
                else gray_map_get seed right (map_keys left ! nat slot)) of
            None \<Rightarrow> False
          | Some right_value \<Rightarrow>
              let left_value = map_values left ! nat slot
              in if has_string_values
                 then length left_value = length right_value
                   \<and> (length left_value = 0 \<or> memcmp (length left_value) left_value right_value = 0)
                 else memcmp (map_value_size left) left_value right_value = 0)) (order_slots left)"

subsection \<open>What the loops see\<close>

lemma order_slot_live:
  assumes "map_ok seed m" "slot \<in> set (order_slots m)"
  shows "is_live m slot \<longleftrightarrow> 0 \<le> slot"
proof
  assume "0 \<le> slot"
  then have "nat slot \<in> set (live_slots m)" using assms(2) by (auto simp: live_slots_def order_slots_def)
  then show "is_live m slot" using \<open>0 \<le> slot\<close> live_less [OF map_okD(2) [OF assms(1)]] by (simp add: is_live_def)
qed (simp add: is_live_def)

lemma live_order_slots: "map_ok seed m \<Longrightarrow> map nat (filter (is_live m) (order_slots m)) = live_slots m"
  using order_slot_live [of seed m] by (simp add: live_slots_def order_slots_def [symmetric] cong: filter_cong)

lemma entries_order_slots: "entries_at m (order_slots m) = map_entries m"
  by (simp add: entries_at_def map_entries_def live_slots_def order_slots_def)

lemma map_entry_stored:
  assumes "map_ok seed m" "(k, w) \<in> set (map_entries m)"
  shows "stored (map_key_kind m) (map_key_size m) k = k" "stored (map_value_kind m) (map_value_size m) w = w"
  using assms(2) map_okD(3) [OF assms(1)] by (auto simp: keys_ok_def map_entries_def slot_entry_def)

lemma write_entries_array:
  assumes "entry_count + length (filter (is_live m) slots) \<le> length (array_data a)"
  shows "array_data (write_entries field m slots entry_count a) =
      take entry_count (array_data a) @ map (\<lambda>s. array_stored a (field (nat s))) (filter (is_live m) slots)
        @ drop (entry_count + length (filter (is_live m) slots)) (array_data a)
    \<and> array_len (write_entries field m slots entry_count a) = entry_count + length (filter (is_live m) slots)
    \<and> array_capacity (write_entries field m slots entry_count a) = array_capacity a
    \<and> same_elements a (write_entries field m slots entry_count a)"
  using assms
proof (induction field m slots entry_count a rule: write_entries.induct)
  case (2 field m slot slots entry_count a)
  show ?case
  proof (cases "is_live m slot")
    case True
    let ?a = "write_slot a entry_count (field (nat slot))"
    have "array_data ?a = (array_data a)[entry_count := array_stored a (field (nat slot))]" "array_stored ?a = array_stored a"
      by (simp_all add: write_slot_def array_stored_def fun_eq_iff)
    moreover have "take (Suc entry_count) ((array_data a)[entry_count := x]) = take entry_count (array_data a) @ [x]" for x
      using "2.prems" True by (simp add: take_Suc_conv_app_nth)
    ultimately show ?thesis using "2.IH"(1) [OF True] "2.prems" True
      by (simp add: same_elements_def)
  qed (use 2 in simp)
qed (simp add: same_elements_def)

text \<open>The lists of keys and of values, in insertion order.\<close>

lemma get_entries:
  assumes ok: "map_ok seed m" and count: "map_count m \<le> 2147483647"
    and field: "\<And>s. s \<in> set (live_slots m) \<Longrightarrow> stored kind width (field s) = field s"
    and a: "a = write_entries field m (order_slots m) 0
      (gray_array_new width (if 0 < map_count m then int (map_count m) else 4) kind)"
  shows "array_ok a \<and> array_list a = map field (live_slots m)"
proof -
  let ?new = "gray_array_new width (if 0 < map_count m then int (map_count m) else 4) kind"
  have live: "map nat (filter (is_live m) (order_slots m)) = live_slots m" by (rule live_order_slots [OF ok])
  then have n: "length (filter (is_live m) (order_slots m)) = map_count m"
    using map_okD(1) [OF ok] by (metis length_map table_ok_def)
  have data: "array_data ?new = replicate (if 0 < map_count m then map_count m else 4) []" "array_elem_kind ?new = kind"
    "array_elem_size ?new = width" "array_capacity ?new = (if 0 < map_count m then map_count m else 4)"
    by (simp_all add: gray_array_new_def Let_def)
  have st: "array_stored ?new = stored kind width" by (simp add: array_stored_def fun_eq_iff data)
  have fields: "map (\<lambda>s. stored kind width (field (nat s))) (filter (is_live m) (order_slots m)) = map field (live_slots m)"
    using field unfolding live [symmetric] by (simp add: comp_def)
  have len: "length (live_slots m) = map_count m" using n live by (metis length_map)
  have "0 + length (filter (is_live m) (order_slots m)) \<le> length (array_data ?new)" using n data(1) by simp
  from write_entries_array [OF this, of field]
  have w: "array_data a = map field (live_slots m) @ drop (map_count m) (array_data ?new)"
    "array_len a = map_count m" "array_capacity a = array_capacity ?new" "same_elements ?new a"
    unfolding a n st fields by simp_all
  have l: "array_list a = map field (live_slots m)" using w len by (simp add: array_list_def)
  moreover have "array_stored a = stored kind width" using same_elements_stored [OF w(4)] st by simp
  then have "array_ok a" using w l len count data field unfolding array_ok_def by auto
  ultimately show ?thesis by blast
qed

lemma get_keys_values:
  assumes "map_ok seed m" "map_count m \<le> 2147483647"
  shows "array_ok (gray_maps_get_keys m) \<and> array_list (gray_maps_get_keys m) = map fst (map_entries m)"
    "array_ok (gray_maps_get_values m) \<and> array_list (gray_maps_get_values m) = map snd (map_entries m)"
proof -
  have k: "stored (map_key_kind m) (map_key_size m) (map_keys m ! s) = map_keys m ! s
      \<and> stored (map_value_kind m) (map_value_size m) (map_values m ! s) = map_values m ! s" if "s \<in> set (live_slots m)" for s
    using map_okD(3) [OF assms(1)] that by (simp add: keys_ok_def)
  have "map fst (map_entries m) = map (\<lambda>s. map_keys m ! s) (live_slots m)"
    "map snd (map_entries m) = map (\<lambda>s. map_values m ! s) (live_slots m)"
    by (simp_all add: map_entries_def slot_entry_def)
  then show "array_ok (gray_maps_get_keys m) \<and> array_list (gray_maps_get_keys m) = map fst (map_entries m)"
    "array_ok (gray_maps_get_values m) \<and> array_list (gray_maps_get_values m) = map snd (map_entries m)"
    using get_entries [OF assms conjunct1 [OF k] gray_maps_get_keys_def] get_entries [OF assms conjunct2 [OF k] gray_maps_get_values_def]
    by simp_all
qed

lemma write_entries_fields [simp]:
  "array_iterating (write_entries field m slots n a) = array_iterating a"
  "array_elem_kind (write_entries field m slots n a) = array_elem_kind a"
  "array_elem_size (write_entries field m slots n a) = array_elem_size a"
  by (induction field m slots n a rule: write_entries.induct) simp_all

lemma sorted_keys_ok:
  assumes "map_ok seed m" "map_count m \<le> 2147483647" "sortable (map_key_kind m)"
  shows "\<exists>b. gray_maps_sorted_keys m = Some (Inr b) \<and> array_ok b \<and> mset (array_list b) = mset (map fst (map_entries m))
    \<and> ascending (map_key_kind m) (map_key_size m) (array_list b)"
proof -
  let ?keys = "gray_maps_get_keys m"
  have keys: "array_ok ?keys" "array_list ?keys = map fst (map_entries m)"
    using get_keys_values(1) [OF assms(1,2)] by simp_all
  have "array_iterating ?keys = 0" "array_elem_kind ?keys = map_key_kind m" "array_elem_size ?keys = map_key_size m"
    by (simp_all add: gray_maps_get_keys_def gray_array_new_def Let_def)
  then show ?thesis using sort_ok [OF keys(1), of False] keys(2) assms(3) by (auto simp: gray_maps_sorted_keys_def)
qed

subsection \<open>Searching for a value\<close>

lemma find_key_entries:
  assumes "map_ok seed m"
  shows "gray_maps_find_key m v =
    map_option fst (find (\<lambda>e. gray_elem_equal (map_value_kind m) (map_value_size m) (snd e) v) (map_entries m))"
proof -
  have "find_key_loop m v slots =
      map_option fst (find (\<lambda>e. gray_elem_equal (map_value_kind m) (map_value_size m) (snd e) v) (entries_at m slots))"
    if "set slots \<subseteq> set (order_slots m)" for slots
    using that
  proof (induction slots)
    case (Cons slot slots)
    then have live: "is_live m slot \<longleftrightarrow> 0 \<le> slot" using order_slot_live [OF assms] by simp
    show ?case
    proof (cases "0 \<le> slot")
      case True
      then have "nat slot \<in> set (live_slots m)" using Cons.prems by (auto simp: live_slots_def order_slots_def)
      then have "stored (map_key_kind m) (map_key_size m) (map_keys m ! nat slot) = map_keys m ! nat slot"
        using map_okD(3) [OF assms] by (simp add: keys_ok_def)
      then show ?thesis using Cons live True by (simp add: slot_entry_def)
    qed (use Cons live in simp)
  qed simp
  then show ?thesis by (simp add: gray_maps_find_key_def entries_order_slots)
qed

lemma list_ex_live:
  assumes "map_ok seed m"
  shows "list_ex (\<lambda>slot. is_live m slot \<and> P (nat slot)) (order_slots m) \<longleftrightarrow> (\<exists>s \<in> set (live_slots m). P s)"
  unfolding live_order_slots [OF assms, symmetric] by (auto simp: list_ex_iff)

lemma contains_value_find:
  assumes "map_ok seed m"
  shows "gray_maps_contains_value m v \<longleftrightarrow> gray_maps_find_key m v \<noteq> None"
  using list_ex_live [OF assms, of "\<lambda>s. gray_elem_equal (map_value_kind m) (map_value_size m) (map_values m ! s) v"]
  by (simp add: gray_maps_contains_value_def find_key_entries [OF assms] find_None_iff map_entries_def slot_entry_def)

subsection \<open>Merging\<close>

text \<open>The loops of a merge are calls of \<open>gray_map_set\<close> in the order of the entries.\<close>

lemma reinsert_inserts:
  assumes "map_ok seed old" "set slots \<subseteq> set (order_slots old)"
    and "run_inserts (set_call fuel seed) (entries_at old slots) m = Some m'"
  shows "reinsert (gray_map_set (fuel + 2) seed) old slots m = Some (Inr m')"
  using assms(2,3)
proof (induction slots arbitrary: m)
  case (Cons slot slots)
  have live: "0 \<le> slot \<and> map_states old ! nat slot = Occupied \<longleftrightarrow> 0 \<le> slot"
    using order_slot_live [OF assms(1), of slot] Cons.prems(1) by (simp add: is_live_def)
  show ?case
  proof (cases "0 \<le> slot")
    case True
    then obtain b where b: "set_call fuel seed m (map_keys old ! nat slot) (map_values old ! nat slot) = Some b"
        "run_inserts (set_call fuel seed) (entries_at old slots) b = Some m'"
      using Cons.prems(2) by (auto simp: slot_entry_def split: option.splits)
    then have "gray_map_set (fuel + 2) seed m (map_keys old ! nat slot) (map_values old ! nat slot) = Some (Inr b)"
      by (auto simp: set_call_def split: option.splits sum.splits)
    moreover have "reinsert (gray_map_set (fuel + 2) seed) old slots b = Some (Inr m')"
      using Cons.IH Cons.prems(1) b(2) by simp
    ultimately show ?thesis unfolding reinsert.simps live using True by (simp add: bind_run_def)
  qed (use Cons in simp)
qed simp

lemma run_inserts_append:
  "run_inserts put (xs @ ys) m = (case run_inserts put xs m of None \<Rightarrow> None | Some m' \<Rightarrow> run_inserts put ys m')"
  by (induction xs arbitrary: m) (auto split: option.splits)

lemma fold_update_keys:
  "distinct (map fst es) \<Longrightarrow>
     map fst (fold (\<lambda>e. AList.update (fst e) (snd e)) es t) = map fst t @ filter (\<lambda>k. k \<notin> set (map fst t)) (map fst es)"
proof (induction es arbitrary: t)
  case (Cons e es)
  have "k \<noteq> fst e" if "k \<in> set (map fst es)" for k using that Cons.prems by (auto simp: image_iff)
  then have "filter (\<lambda>k. k \<notin> {fst e} \<union> S) (map fst es) = filter (\<lambda>k. k \<notin> S) (map fst es)" for S
    by (intro filter_cong [OF refl]) blast
  then have "filter (\<lambda>k. k \<notin> fst ` set (AList.update (fst e) (snd e) t)) (map fst es) = filter (\<lambda>k. k \<notin> fst ` set t) (map fst es)"
    unfolding dom_update .
  then show ?case using Cons by (simp add: update_keys)
qed simp

lemma fold_update_get:
  "distinct (map fst es) \<Longrightarrow> map_of (fold (\<lambda>e. AList.update (fst e) (snd e)) es t) = map_of t ++ map_of es"
proof (induction es arbitrary: t)
  case (Cons e es)
  then have "map_of es (fst e) = None" by (simp add: map_of_eq_None_iff)
  then have "(map_of t)(fst e \<mapsto> snd e) ++ map_of es = map_of t ++ map_of (e # es)"
    by (auto simp: fun_eq_iff map_add_def split: option.splits)
  moreover have "map_of (fold (\<lambda>e. AList.update (fst e) (snd e)) (e # es) t) = (map_of t)(fst e \<mapsto> snd e) ++ map_of es"
    using Cons by (simp add: update_conv' fun_upd_def)
  ultimately show ?case by (simp only:)
qed simp

lemma fold_update_new:
  "distinct (map fst (t @ es)) \<Longrightarrow> fold (\<lambda>e. AList.update (fst e) (snd e)) es t = t @ es"
proof (induction es arbitrary: t)
  case (Cons e es)
  then have "fst e \<notin> fst ` set t" by auto
  then have "AList.update (fst e) (snd e) t = t @ [e]" by (simp add: update_absent)
  then show ?case using Cons by simp
qed simp

lemma fold_entries:
  assumes "map_ok seed m" "key_of n = key_of m" "value_stored n = value_stored m"
  shows "fold (\<lambda>e. AList.update (key_of n (fst e)) (value_stored n (snd e))) (map_entries m) t
    = fold (\<lambda>e. AList.update (fst e) (snd e)) (map_table m) t"
proof -
  have "value_stored m (snd e) = snd e" if "e \<in> set (map_entries m)" for e
    using map_entry_stored(2) [OF assms(1), of "fst e" "snd e"] that by (simp add: value_stored_def)
  then show ?thesis by (simp add: map_table_def fold_map comp_def assms cong: fold_cong)
qed

lemma merge_ok:
  assumes l: "map_ok seed left" and r: "map_ok seed right" and same: "same_type left right"
    and room: "(map_count left + map_count right) * 4 < 2 ^ 29"
  shows "\<exists>m. gray_maps_merge (fuel + 2) seed left right = Some (Inr m) \<and> map_ok seed m \<and> key_of m = key_of left
    \<and> map_table m = fold (\<lambda>e. AList.update (fst e) (snd e)) (map_table right) (map_table left)"
proof -
  let ?n = "map_count left + map_count right"
  let ?new = "gray_map_new_kind (map_key_size left) (map_value_size left) (if 8 < ?n then ?n * 2 else 8) (map_key_kind left) (map_value_kind left)"
  have new: "map_ok seed ?new" "map_entries ?new = []"
    using map_okD(1) [OF l] by (simp_all add: new_kind_ok table_ok_def)
  have cap: "map_capacity ?new = gray_map_round_capacity (if 8 < ?n then ?n * 2 else 8)" "map_iterating ?new = 0" "map_count ?new = 0"
    and st: "same_type left ?new"
    by (simp_all add: gray_map_new_kind_def Let_def same_type_def)
  have "gray_map_round_capacity 8 = 8" by (simp add: gray_map_round_capacity_def GRAY_MAP_MIN_CAPACITY_def round_loop.simps)
  then have "map_capacity ?new \<le> 2 ^ 29"
    using room round_capacity_less [of "?n * 2"] unfolding cap by (cases "8 < ?n") simp_all
  moreover have n: "length (map_entries left @ map_entries right) = ?n" using count_entries l r by simp
  ultimately have "map_room ?new (length (map_entries left @ map_entries right) + 0)" using room cap by (simp add: map_room_def)
  from hash_map.inserts [OF new(1) this, of fuel]
  obtain m where m: "run_inserts (set_call fuel seed) (map_entries left @ map_entries right) ?new = Some m" "map_ok seed m"
      "key_of m = key_of ?new" "value_stored m = value_stored ?new"
      "map_table m = fold (\<lambda>e. AList.update (key_of ?new (fst e)) (value_stored ?new (snd e))) (map_entries left @ map_entries right) (map_table ?new)"
    by blast
  have types: "key_of ?new = key_of left" "value_stored ?new = value_stored left" "key_of right = key_of left" "value_stored right = value_stored left"
    using same_type_key [OF same] same_type_key [OF st] same st by (simp_all add: value_stored_def same_type_def fun_eq_iff)
  have "map_table ?new = []" using new(2) by (simp add: map_table_def)
  then have "map_table m = fold (\<lambda>e. AList.update (fst e) (snd e)) (map_table right) (map_table left)"
    using distinct_map_table [OF l] fold_update_new [of "[]" "map_table left"]
    unfolding m(5) fold_append comp_def fold_entries [OF l types(1,2)] fold_entries [OF r trans [OF types(1) types(3) [symmetric]] trans [OF types(2) types(4) [symmetric]]]
    by simp
  moreover obtain a where a: "run_inserts (set_call fuel seed) (map_entries left) ?new = Some a"
      "run_inserts (set_call fuel seed) (map_entries right) a = Some m"
    using m(1) by (auto simp: run_inserts_append split: option.splits)
  have "reinsert (gray_map_set (fuel + 2) seed) left (order_slots left) ?new = Some (Inr a)"
    "reinsert (gray_map_set (fuel + 2) seed) right (order_slots right) a = Some (Inr m)"
    using a reinsert_inserts [OF l order_refl] reinsert_inserts [OF r order_refl] by (simp_all only: entries_order_slots)
  then have "gray_maps_merge (fuel + 2) seed left right = Some (Inr m)"
    unfolding gray_maps_merge_def Let_def by (simp only: bind_run_def option.case sum.case)
  ultimately show ?thesis using m(2,3) types(1) by metis
qed

text \<open>In a merge the values of the right map win, and its new keys follow those of the left one.\<close>

lemma merge_table:
  assumes "map_ok seed left" "map_ok seed right" "same_type left right" "(map_count left + map_count right) * 4 < 2 ^ 29"
  shows "\<exists>m. gray_maps_merge (fuel + 2) seed left right = Some (Inr m) \<and> map_ok seed m
    \<and> (\<forall>k. gray_map_get seed m k = (case gray_map_get seed right k of Some v \<Rightarrow> Some v | None \<Rightarrow> gray_map_get seed left k))
    \<and> map fst (map_table m) = map fst (map_table left) @ filter (\<lambda>k. k \<notin> set (map fst (map_table left))) (map fst (map_table right))"
proof -
  obtain m where m: "gray_maps_merge (fuel + 2) seed left right = Some (Inr m)" "map_ok seed m" "key_of m = key_of left"
      "map_table m = fold (\<lambda>e. AList.update (fst e) (snd e)) (map_table right) (map_table left)"
    using merge_ok [OF assms] by blast
  have "key_of right = key_of left" using assms(3) by (rule same_type_key)
  then have "gray_map_get seed m k = (case gray_map_get seed right k of Some v \<Rightarrow> Some v | None \<Rightarrow> gray_map_get seed left k)" for k
    using fold_update_get [OF distinct_map_table [OF assms(2)], of "map_table left"]
    using get_table [OF assms(1)] get_table [OF assms(2)] get_table [OF m(2)]
    by (simp add: m(3,4) map_add_def split: option.splits)
  then show ?thesis using m(1,2) fold_update_keys [OF distinct_map_table [OF assms(2)], of "map_table left"] unfolding m(4) [symmetric] by blast
qed

subsection \<open>Equality\<close>

lemma value_test:
  assumes "(k, v) \<in> set (map_entries left)" "(k', w) \<in> set (map_entries right)" "map_ok seed left" "map_ok seed right" "same_type left right"
  shows "(if map_value_kind left = GRAY_ELEM_STRING then length v = length w \<and> (length v = 0 \<or> memcmp (length v) v w = 0)
      else memcmp (map_value_size left) v w = 0) \<longleftrightarrow> v = w"
  using map_entry_stored(2) [OF assms(3,1)] map_entry_stored(2) [OF assms(4,2)] assms(5)
  by (auto simp: string_equal memcmp_0 stored_def same_type_def split: if_splits)

lemma same_tables:
  assumes "distinct (map fst xs)" "distinct (map fst ys)"
  shows "length xs = length ys \<and> (\<forall>(k, v) \<in> set xs. map_of ys k = Some v) \<longleftrightarrow> map_of xs = map_of ys"
proof -
  have d: "distinct xs" "distinct ys" using assms by (simp_all add: distinct_map)
  have "(\<forall>(k, v) \<in> set xs. map_of ys k = Some v) \<longleftrightarrow> set xs \<subseteq> set ys"
    using map_of_eq_Some_iff [OF assms(2)] by (simp add: subset_eq split_beta)
  moreover have "length xs = length ys \<and> set xs \<subseteq> set ys \<longleftrightarrow> set xs = set ys"
    using card_subset_eq [of "set ys" "set xs"] distinct_card [OF d(1)] distinct_card [OF d(2)] by auto
  ultimately show ?thesis using map_of_inject_set [OF assms] by simp
qed

lemma is_equal_lookup:
  assumes l: "map_ok seed left" and r: "map_ok seed right" and same: "same_type left right"
  shows "gray_maps_is_equal seed left right ks (map_value_kind left = GRAY_ELEM_STRING) \<longleftrightarrow>
    (\<forall>k. gray_map_get seed left k = gray_map_get seed right k)"
proof -
  define test where "test s \<longleftrightarrow> (case gray_map_get seed right (map_keys left ! s) of None \<Rightarrow> False | Some w \<Rightarrow>
      if map_value_kind left = GRAY_ELEM_STRING
      then length (map_values left ! s) = length w \<and> (length (map_values left ! s) = 0 \<or> memcmp (length (map_values left ! s)) (map_values left ! s) w = 0)
      else memcmp (map_value_size left) (map_values left ! s) w = 0)" for s
  have key: "key_of right = key_of left" using same by (rule same_type_key)
  have test: "test s \<longleftrightarrow> map_of (map_table right) (key_of left (map_keys left ! s)) = Some (map_values left ! s)" if s: "s \<in> set (live_slots left)" for s
  proof (cases "gray_map_get seed right (map_keys left ! s)")
    case (Some w)
    then have "(key_of right (map_keys left ! s), w) \<in> set (map_table right)" by (simp add: lookup.get_Some [OF r])
    then obtain k' where "(k', w) \<in> set (map_entries right)" by (auto simp: map_table_def)
    moreover have "(map_keys left ! s, map_values left ! s) \<in> set (map_entries left)" using s by (simp add: map_entries_def slot_entry_def)
    ultimately show ?thesis using value_test [OF _ _ l r same] Some get_table [OF r, of "map_keys left ! s"]
      unfolding test_def Some option.case key by auto
  qed (use get_table [OF r, of "map_keys left ! s"] key in \<open>simp add: test_def\<close>)
  have "gray_maps_is_equal seed left right ks (map_value_kind left = GRAY_ELEM_STRING) \<longleftrightarrow>
      map_count left = map_count right \<and> list_all (\<lambda>slot. \<not> is_live left slot \<or> test (nat slot)) (order_slots left)"
    using same by (simp add: gray_maps_is_equal_def same_type_def test_def gray_map_get_str_def Let_def cong: option.case_cong)
  also have "list_all (\<lambda>slot. \<not> is_live left slot \<or> test (nat slot)) (order_slots left) \<longleftrightarrow> (\<forall>s \<in> set (live_slots left). test s)"
    unfolding live_order_slots [OF l, symmetric] by (auto simp: list_all_iff)
  also have "\<dots> \<longleftrightarrow> (\<forall>(k, v) \<in> set (map_table left). map_of (map_table right) k = Some v)"
    using test by (auto simp: map_table_def map_entries_def slot_entry_def)
  also have "map_count left = map_count right \<and> \<dots> \<longleftrightarrow> map_of (map_table left) = map_of (map_table right)"
    using same_tables [OF distinct_map_table [OF l] distinct_map_table [OF r]] table_count [OF l] table_count [OF r] by simp
  also have "\<dots> \<longleftrightarrow> (\<forall>k. gray_map_get seed left k = gray_map_get seed right k)"
  proof
    assume *: "\<forall>k. gray_map_get seed left k = gray_map_get seed right k"
    show "map_of (map_table left) = map_of (map_table right)"
    proof (rule ext)
      fix c
      show "map_of (map_table left) c = map_of (map_table right) c"
      proof (cases "c \<in> range (key_of left)")
        case True
        then show ?thesis using * get_table [OF l] get_table [OF r] key by auto
      next
        case False
        then have "c \<notin> fst ` set (map_table left)" "c \<notin> fst ` set (map_table right)" using key by (auto simp: map_table_def)
        then show ?thesis by (metis map_of_eq_None_iff)
      qed
    qed
  qed (simp add: get_table l r key)
  finally show ?thesis .
qed

subsection \<open>A map of bytes\<close>

definition byte_map :: gray_map where
  "byte_map = gray_map_new_kind 1 1 8 GRAY_ELEM_U8 GRAY_ELEM_U8"

lemma byte_map [simp]:
  "map_ok seed byte_map" "map_entries byte_map = []" "map_iterating byte_map = 0" "map_capacity byte_map = 8" "map_count byte_map = 0"
  "value_stored byte_map v = bytes_at 1 v" "key_of byte_map k = bytes_at 1 k"
proof -
  have "width_ok GRAY_ELEM_U8 1" by (simp add: width_ok_def)
  from new_kind_ok [OF this] show "map_ok seed byte_map" "map_entries byte_map = []" by (simp_all add: byte_map_def)
  show "map_iterating byte_map = 0" "map_capacity byte_map = 8" "map_count byte_map = 0"
    "value_stored byte_map v = bytes_at 1 v" "key_of byte_map k = bytes_at 1 k"
    by (simp_all add: byte_map_def gray_map_new_kind_def Let_def gray_map_round_capacity_def round_loop.simps
        GRAY_MAP_MIN_CAPACITY_def value_stored_def stored_def key_of_def canon_key_def)
qed

end
