(* ===== verification/Array_Hashing.thy ===== *)
theory Array_Hashing
  imports Array_Values Map_Operations
begin

text \<open>
  The functions of the module \<open>arrays\<close> that hash: \<open>deduplicate\<close>, which keeps a table of the indices it
  has kept, and \<open>counts\<close>, a client of the hash map. Both are compared with what they compute: the
  elements that no earlier element equals, and the number of elements under each key.
\<close>

subsection \<open>Deduplication\<close>

text \<open>The search for an equal element or a free slot.\<close>

fun dedup_probe :: "int list \<Rightarrow> (nat \<Rightarrow> bool) \<Rightarrow> nat list \<Rightarrow> (bool \<times> nat) option" where
  "dedup_probe table matches [] = None"
| "dedup_probe table matches (slot # slots) =
     (if table ! slot < 0 then Some (False, slot)
      else if matches (nat (table ! slot)) then Some (True, slot)
      else dedup_probe table matches slots)"

fun dedup_loop :: "gray_array \<Rightarrow> nat \<Rightarrow> nat list \<Rightarrow> int list \<Rightarrow> gray_array \<Rightarrow> gray_array panicking option" where
  "dedup_loop a capacity [] table result = Some (Inr result)"
| "dedup_loop a capacity (i # is) table result =
     (let element = array_data a ! i;
          hash = gray_elem_hash (array_elem_kind a) (array_elem_size a) element
      in case dedup_probe table (\<lambda>k. gray_elem_equal (array_elem_kind a) (array_elem_size a) (array_data a ! k) element)
                (probe_slots capacity hash) of
           None \<Rightarrow> None
         | Some (True, slot) \<Rightarrow> dedup_loop a capacity is table result
         | Some (False, slot) \<Rightarrow>
             (case gray_array_push result element of
                Inl code \<Rightarrow> Some (Inl code)
              | Inr result \<Rightarrow> dedup_loop a capacity is (table[slot := int i]) result))"

text \<open>The capacity is found by the loop \<open>gray_map_round_capacity\<close> has, from 16. \<open>None\<close> would be a full table.\<close>

definition gray_arrays_deduplicate :: "gray_array \<Rightarrow> gray_array panicking option" where
  "gray_arrays_deduplicate a =
     (if array_len a \<le> 1 then Some (Inr (gray_array_copy a))
      else let capacity = round_loop 16 (array_len a * 2)
           in dedup_loop a capacity [0..<array_len a] (replicate capacity (- 1))
                (gray_array_new (array_elem_size a) (int (array_len a)) (array_elem_kind a)))"

subsection \<open>Counting\<close>

text \<open>\<open>key\<close> is how an element is read as a key of the map.\<close>

fun counts_loop :: "nat \<Rightarrow> u64 \<Rightarrow> (element \<Rightarrow> element) \<Rightarrow> element list \<Rightarrow> gray_map \<Rightarrow> map_run" where
  "counts_loop fuel seed key [] m = Some (Inr m)"
| "counts_loop fuel seed key (e # es) m =
     (case find_slot seed m (key e) of
        Some slot \<Rightarrow> counts_loop fuel seed key es (store_value m slot (store 8 (load_s 8 (map_values m ! slot) + 1)))
      | None \<Rightarrow> bind_run (gray_map_set fuel seed m (key e) (store 8 1)) (counts_loop fuel seed key es))"

definition gray_arrays_counts :: "nat \<Rightarrow> u64 \<Rightarrow> gray_array \<Rightarrow> map_run" where
  "gray_arrays_counts fuel seed a =
     counts_loop fuel seed (\<lambda>e. e) (array_list a)
       (gray_map_new_kind (array_elem_size a) 8 (array_len a) (array_elem_kind a) GRAY_ELEM_I64)"

definition gray_arrays_counts_enum :: "nat \<Rightarrow> u64 \<Rightarrow> gray_array \<Rightarrow> map_run" where
  "gray_arrays_counts_enum fuel seed a =
     counts_loop fuel seed (\<lambda>e. if array_elem_size a = 4 then store 8 (load_s 4 e) else store 8 (load_s 8 e)) (array_list a)
       (gray_map_new_kind 8 8 (array_len a) GRAY_ELEM_I64 GRAY_ELEM_I64)"

subsection \<open>What deduplication keeps\<close>

definition first_index :: "('a \<Rightarrow> 'a \<Rightarrow> bool) \<Rightarrow> 'a list \<Rightarrow> nat \<Rightarrow> bool" where
  "first_index eq xs i \<longleftrightarrow> (\<forall>j < i. \<not> eq (xs ! j) (xs ! i))"

definition first_elements :: "('a \<Rightarrow> 'a \<Rightarrow> bool) \<Rightarrow> 'a list \<Rightarrow> 'a list" where
  "first_elements eq xs = map (\<lambda>i. xs ! i) (filter (first_index eq xs) [0..<length xs])"

lemma earlier_first:
  assumes "\<And>x y z. eq x y \<Longrightarrow> eq y z \<Longrightarrow> eq x z"
  shows "(\<exists>j < i. eq (xs ! j) (xs ! i)) \<longleftrightarrow> (\<exists>j < i. first_index eq xs j \<and> eq (xs ! j) (xs ! i))"
proof
  assume "\<exists>j < i. eq (xs ! j) (xs ! i)"
  then obtain j where j: "j < i" "eq (xs ! j) (xs ! i)" and least: "\<And>k. k < j \<Longrightarrow> \<not> (k < i \<and> eq (xs ! k) (xs ! i))"
    using exists_least_iff [of "\<lambda>j. j < i \<and> eq (xs ! j) (xs ! i)"] by blast
  have "first_index eq xs j" unfolding first_index_def using least j assms by (meson order.strict_trans)
  then show "\<exists>j < i. first_index eq xs j \<and> eq (xs ! j) (xs ! i)" using j by blast
qed blast

lemma elem_equal_trans:
  "width_ok kind width \<Longrightarrow> gray_elem_equal kind width x y \<Longrightarrow> gray_elem_equal kind width y z \<Longrightarrow> gray_elem_equal kind width x z"
  by (simp add: elem_equal_rank)

lemma dedup_probe_value:
  "dedup_probe table matches ps =
     (case find (\<lambda>s. matches (nat (table ! s))) (takeWhile (\<lambda>s. 0 \<le> table ! s) ps) of
        Some s \<Rightarrow> Some (True, s)
      | None \<Rightarrow> (case dropWhile (\<lambda>s. 0 \<le> table ! s) ps of [] \<Rightarrow> None | s # _ \<Rightarrow> Some (False, s)))"
proof (induction ps)
  case (Cons s ps)
  then show ?case by (cases "0 \<le> table ! s") (simp_all cong: option.case_cong)
qed simp

text \<open>
  The table after some elements: it lists the indices kept, each on the path of its element before any
  free slot.
\<close>

definition dedup_path :: "gray_array \<Rightarrow> nat \<Rightarrow> nat \<Rightarrow> nat list" where
  "dedup_path a capacity i = probe_slots capacity (gray_elem_hash (array_elem_kind a) (array_elem_size a) (array_data a ! i))"

definition dedup_table :: "gray_array \<Rightarrow> nat \<Rightarrow> nat list \<Rightarrow> int list \<Rightarrow> bool" where
  "dedup_table a capacity kept table \<longleftrightarrow> length table = capacity
     \<and> length (filter (\<lambda>t. 0 \<le> t) table) = length kept
     \<and> (\<forall>s < capacity. 0 \<le> table ! s \<longrightarrow> nat (table ! s) \<in> set kept)
     \<and> (\<forall>k \<in> set kept. \<exists>s \<in> set (takeWhile (\<lambda>s. 0 \<le> table ! s) (dedup_path a capacity k)). table ! s = int k)"

lemma dedup_free_slot:
  assumes "capacity_ok capacity" "dedup_table a capacity kept table" "length kept < capacity"
  obtains s rest where "dropWhile (\<lambda>s. 0 \<le> table ! s) (dedup_path a capacity i) = s # rest" "s < capacity" "table ! s < 0"
proof (cases "dropWhile (\<lambda>s. 0 \<le> table ! s) (dedup_path a capacity i)")
  case Nil
  then have "\<forall>s < capacity. 0 \<le> table ! s"
    using set_probe_slots [OF assms(1)] by (auto simp: dropWhile_eq_Nil_conv dedup_path_def)
  moreover have "length table = capacity" using assms(2) by (simp add: dedup_table_def)
  ultimately have "filter (\<lambda>t. 0 \<le> t) table = table" by (intro filter_True ballI) (metis in_set_conv_nth)
  then show ?thesis using assms(2,3) by (simp add: dedup_table_def)
next
  case (Cons s rest)
  then have "s \<in> set (dedup_path a capacity i)" by (metis list.set_intros(1) set_dropWhileD)
  moreover have "\<not> 0 \<le> table ! s" using Cons by (simp add: dropWhile_eq_Cons_conv)
  ultimately show ?thesis using that [OF Cons] set_probe_slots [OF assms(1)] by (simp add: dedup_path_def)
qed

lemma dedup_insert:
  assumes "capacity_ok capacity" "dedup_table a capacity kept table"
    and free: "dropWhile (\<lambda>s. 0 \<le> table ! s) (dedup_path a capacity i) = s # rest" "s < capacity" "table ! s < 0"
  shows "dedup_table a capacity (kept @ [i]) (table[s := int i])"
proof -
  let ?new = "table[s := int i]"
  have len: "length table = capacity" using assms(2) by (simp add: dedup_table_def)
  have more: "0 \<le> table ! x \<Longrightarrow> 0 \<le> ?new ! x" for x using len free(2) by (cases "x = s") simp_all
  have path: "set (takeWhile (\<lambda>s. 0 \<le> table ! s) ps) \<subseteq> set (takeWhile (\<lambda>s. 0 \<le> ?new ! s) ps)" for ps
  proof (rule takeWhile_mono)
    show "0 \<le> ?new ! x" if "0 \<le> table ! x" for x using that by (rule more)
  qed
  have new_s: "?new ! s = int i" using len free(2) by simp
  have "s \<in> set (takeWhile (\<lambda>s. 0 \<le> ?new ! s) (dedup_path a capacity i))"
  proof (rule takeWhile_next [OF free(1)])
    show "0 \<le> ?new ! y" if "0 \<le> table ! y" for y using that by (rule more)
    show "0 \<le> ?new ! s" unfolding new_s by simp
  qed
  note here = this new_s
  have old: "\<exists>x \<in> set (takeWhile (\<lambda>s. 0 \<le> ?new ! s) (dedup_path a capacity k)). ?new ! x = int k" if k: "k \<in> set kept" for k
  proof -
    obtain x where x: "x \<in> set (takeWhile (\<lambda>s. 0 \<le> table ! s) (dedup_path a capacity k))" "table ! x = int k"
      using k assms(2) unfolding dedup_table_def by blast
    have "x \<noteq> s" using x(2) free(3) by auto
    then have "?new ! x = int k" using x(2) by simp
    then show ?thesis by (rule bexI) (rule subsetD [OF path x(1)])
  qed
  have "length (filter (\<lambda>t. 0 \<le> t) ?new) = Suc (length (filter (\<lambda>t. 0 \<le> t) table))"
    using free(2,3) len by (intro length_filter_update) simp_all
  then have n: "length (filter (\<lambda>t. 0 \<le> t) ?new) = length (kept @ [i])" using assms(2) by (simp add: dedup_table_def)
  have used: "nat (?new ! x) \<in> set (kept @ [i])" if "x < capacity" "0 \<le> ?new ! x" for x
  proof (cases "x = s")
    case False
    then show ?thesis using that assms(2) by (simp add: dedup_table_def)
  qed (use here in simp)
  show ?thesis unfolding dedup_table_def
  proof (intro conjI ballI allI impI)
    show "\<exists>x \<in> set (takeWhile (\<lambda>s. 0 \<le> ?new ! s) (dedup_path a capacity k)). ?new ! x = int k" if "k \<in> set (kept @ [i])" for k
      using that old [of k] here by auto
  qed (use len n used in simp_all)
qed

lemma dedup_search:
  assumes w: "width_ok (array_elem_kind a) (array_elem_size a)" and c: "capacity_ok capacity"
    and t: "dedup_table a capacity kept table" "length kept < capacity"
    and eq: "eq = gray_elem_equal (array_elem_kind a) (array_elem_size a)"
  shows "if \<exists>k \<in> set kept. eq (array_data a ! k) (array_data a ! i)
    then \<exists>s. dedup_probe table (\<lambda>k. eq (array_data a ! k) (array_data a ! i)) (dedup_path a capacity i) = Some (True, s)
    else \<exists>s. dedup_probe table (\<lambda>k. eq (array_data a ! k) (array_data a ! i)) (dedup_path a capacity i) = Some (False, s)
      \<and> dedup_table a capacity (kept @ [i]) (table[s := int i])"
proof -
  let ?found = "find (\<lambda>s. eq (array_data a ! nat (table ! s)) (array_data a ! i)) (takeWhile (\<lambda>s. 0 \<le> table ! s) (dedup_path a capacity i))"
  have slots: "set (dedup_path a capacity k) = {..<capacity}" for k using set_probe_slots [OF c] by (simp add: dedup_path_def)
  show ?thesis
  proof (cases "\<exists>k \<in> set kept. eq (array_data a ! k) (array_data a ! i)")
    case True
    then obtain k where k: "k \<in> set kept" "eq (array_data a ! k) (array_data a ! i)" by blast
    then have "dedup_path a capacity k = dedup_path a capacity i" unfolding eq dedup_path_def by (metis elem_equal_hash)
    then obtain s where "s \<in> set (takeWhile (\<lambda>s. 0 \<le> table ! s) (dedup_path a capacity i))" "table ! s = int k"
      using k(1) t(1) unfolding dedup_table_def by metis
    then have "?found \<noteq> None" using k(2) by (auto simp: find_None_iff)
    then show ?thesis using True by (auto simp: dedup_probe_value)
  next
    case False
    have "?found = None"
    proof (rule ccontr)
      assume "?found \<noteq> None"
      then obtain s where s: "s \<in> set (takeWhile (\<lambda>s. 0 \<le> table ! s) (dedup_path a capacity i))" "eq (array_data a ! nat (table ! s)) (array_data a ! i)"
        by (auto simp: find_None_iff)
      then have "s < capacity" "0 \<le> table ! s" using slots by (auto dest: set_takeWhileD)
      then have "nat (table ! s) \<in> set kept" using t(1) by (simp add: dedup_table_def)
      then show False using False s(2) by blast
    qed
    moreover obtain s rest where s: "dropWhile (\<lambda>s. 0 \<le> table ! s) (dedup_path a capacity i) = s # rest" "s < capacity" "table ! s < 0"
      using dedup_free_slot [OF c t] by metis
    ultimately show ?thesis using False dedup_insert [OF c t(1) s] by (auto simp: dedup_probe_value)
  qed
qed

lemma dedup_loop_value:
  assumes ok: "array_ok a" and w: "width_ok (array_elem_kind a) (array_elem_size a)" and c: "capacity_ok capacity"
    and size: "array_len a < capacity" "array_len a \<le> 1073741824"
    and first: "first = first_index (gray_elem_equal (array_elem_kind a) (array_elem_size a)) (array_list a)"
    and "i \<le> array_len a" "dedup_table a capacity (filter first [0..<i]) table"
    and "array_ok result" "array_list result = map (\<lambda>k. array_list a ! k) (filter first [0..<i])" "array_stored result = array_stored a"
  shows "\<exists>b. dedup_loop a capacity [i..<array_len a] table result = Some (Inr b) \<and> array_ok b
    \<and> array_list b = map (\<lambda>k. array_list a ! k) (filter first [0..<array_len a])"
  using assms(7-)
proof (induction "array_len a - i" arbitrary: i table result)
  case 0
  then show ?case by simp
next
  case (Suc n)
  let ?eq = "gray_elem_equal (array_elem_kind a) (array_elem_size a)"
  let ?kept = "filter first [0..<i]"
  have i: "i < array_len a" "[i..<array_len a] = i # [Suc i..<array_len a]" "n = array_len a - Suc i" using Suc.hyps(2) by (simp_all add: upt_conv_Cons)
  have less: "length ?kept \<le> i" using length_filter_le [of first "[0..<i]"] by simp
  have nth: "array_data a ! k = array_list a ! k" if "k \<le> i" for k using that i(1) by (simp add: array_nth)
  have "(\<exists>k \<in> set ?kept. ?eq (array_data a ! k) (array_data a ! i)) \<longleftrightarrow> (\<exists>k < i. first k \<and> ?eq (array_list a ! k) (array_list a ! i))"
    using nth by auto
  also have "\<dots> \<longleftrightarrow> \<not> first i"
    using earlier_first [of ?eq i "array_list a"] elem_equal_trans [OF w] unfolding first first_index_def by blast
  finally have kept: "(\<exists>k \<in> set ?kept. ?eq (array_data a ! k) (array_data a ! i)) \<longleftrightarrow> \<not> first i" .
  note search = dedup_search [OF w c Suc.prems(2) le_less_trans [OF less less_trans [OF i(1) size(1)]] refl, of i, unfolded kept dedup_path_def]
  show ?case
  proof (cases "first i")
    case False
    then obtain s where "dedup_probe table (\<lambda>k. ?eq (array_data a ! k) (array_data a ! i))
        (probe_slots capacity (gray_elem_hash (array_elem_kind a) (array_elem_size a) (array_data a ! i))) = Some (True, s)" using search by auto
    then have step: "dedup_loop a capacity [i..<array_len a] table result = dedup_loop a capacity [Suc i..<array_len a] table result"
      unfolding i(2) by (simp add: Let_def)
    have "filter first [0..<Suc i] = ?kept" using False by simp
    then show ?thesis unfolding step using Suc.hyps(1) [OF i(3)] Suc.prems i(1) by (simp add: Suc_le_eq)
  next
    case True
    then obtain s where s: "dedup_probe table (\<lambda>k. ?eq (array_data a ! k) (array_data a ! i))
        (probe_slots capacity (gray_elem_hash (array_elem_kind a) (array_elem_size a) (array_data a ! i))) = Some (False, s)"
      "dedup_table a capacity (?kept @ [i]) (table[s := int i])" using search by auto
    have "length (array_list result) < 1073741824" using Suc.prems(4) less i(1) size(2) by simp
    from arrays.push [OF Suc.prems(3) this, of "array_data a ! i"] obtain r where r: "gray_array_push result (array_data a ! i) = Inr r" "array_ok r"
        "array_list r = array_list result @ [array_stored result (array_data a ! i)]" "array_stored r = array_stored result" by blast
    have "array_list a ! i \<in> set (array_list a)" using i(1) length_array_list [OF ok] by simp
    then have "array_stored a (array_data a ! i) = array_list a ! i" using ok nth [of i] by (simp add: array_ok_def)
    then have l: "array_list r = map (\<lambda>k. array_list a ! k) (filter first [0..<Suc i])" using r(3) Suc.prems(4,5) True by simp
    have step: "dedup_loop a capacity [i..<array_len a] table result = dedup_loop a capacity [Suc i..<array_len a] (table[s := int i]) r"
      unfolding i(2) using s(1) r(1) by (simp add: Let_def)
    have "filter first [0..<Suc i] = ?kept @ [i]" using True by simp
    then show ?thesis unfolding step using Suc.hyps(1) [OF i(3)] s(2) r(2,4) l Suc.prems(5) i(1) by (simp add: Suc_le_eq)
  qed
qed

lemma deduplicate_value:
  assumes ok: "array_ok a" and w: "width_ok (array_elem_kind a) (array_elem_size a)" and n: "array_len a \<le> 1073741824"
  shows "\<exists>b. gray_arrays_deduplicate a = Some (Inr b) \<and> array_ok b
    \<and> array_list b = first_elements (gray_elem_equal (array_elem_kind a) (array_elem_size a)) (array_list a)"
proof (cases "array_len a \<le> 1")
  case True
  then have "length (array_list a) = 0 \<or> length (array_list a) = 1" using length_array_list [OF ok] by linarith
  then have "first_elements eq (array_list a) = array_list a" for eq
    by (auto simp: first_elements_def first_index_def length_Suc_conv)
  then show ?thesis using True copy_array [OF ok] by (simp add: gray_arrays_deduplicate_def)
next
  case False
  define capacity where "capacity = round_loop 16 (array_len a * 2)"
  let ?first = "first_index (gray_elem_equal (array_elem_kind a) (array_elem_size a)) (array_list a)"
  have "capacity_ok 16" unfolding capacity_ok_def by (rule exI [of _ 4]) simp
  then have c: "capacity_ok capacity" "array_len a < capacity"
  proof -
    assume ok16: "capacity_ok 16"
    have "round_loop 16 (array_len a * 2) = 16" if "array_len a * 2 < 16" using that by (simp add: round_loop.simps)
    then show "capacity_ok capacity" "array_len a < capacity"
      using ok16 round_loop_ok [OF ok16, of "array_len a * 2"] False by (cases "array_len a * 2 < 16"; simp add: capacity_def; linarith)+
  qed
  let ?new = "gray_array_new (array_elem_size a) (int (array_len a)) (array_elem_kind a)"
  have "int (array_len a) \<le> 2147483647" using n by simp
  from new_array_ok [OF this] have new: "array_ok ?new" "array_list ?new = []" by simp_all
  have "array_stored ?new = array_stored a" by (simp add: gray_array_new_def array_stored_def fun_eq_iff Let_def)
  moreover have "dedup_table a capacity (filter ?first [0..<0]) (replicate capacity (- 1))" by (simp add: dedup_table_def)
  ultimately have "\<exists>b. dedup_loop a capacity [0..<array_len a] (replicate capacity (- 1)) ?new = Some (Inr b) \<and> array_ok b
    \<and> array_list b = map (\<lambda>k. array_list a ! k) (filter ?first [0..<array_len a])"
    using ok w c n new by (intro dedup_loop_value) simp_all
  then show ?thesis using False length_array_list [OF ok]
    by (simp add: gray_arrays_deduplicate_def capacity_def Let_def first_elements_def)
qed

subsection \<open>What counting counts\<close>

lemma load_s_store_nat: "n < 2 ^ 63 \<Longrightarrow> load_s 8 (store 8 (int n)) = int n"
proof -
  assume n: "n < 2 ^ 63"
  then have "int n < 2 ^ 63" by (metis of_nat_less_iff of_nat_numeral of_nat_power)
  moreover have "(256 :: int) ^ 8 = 2 ^ 64" by simp
  ultimately have "load_u 8 (store 8 (int n)) = int n" by (simp only: load_store) simp
  then show ?thesis using \<open>int n < 2 ^ 63\<close> by (simp add: load_s_def signed_take_bit_int_eq_self)
qed

text \<open>A map of counts answers every key with the number \<open>c\<close> gives its identity.\<close>

definition counting :: "u64 \<Rightarrow> gray_map \<Rightarrow> (u8 list \<Rightarrow> nat) \<Rightarrow> bool" where
  "counting seed m c \<longleftrightarrow> map_ok seed m \<and> map_value_kind m = GRAY_ELEM_I64 \<and> map_value_size m = 8
     \<and> (\<forall>k. gray_map_get seed m k = (if c (key_of m k) = 0 then None else Some (store 8 (int (c (key_of m k))))))"

lemma counting_update:
  assumes "counting seed m c" "map_ok seed m'" "key_of m' = key_of m" "value_stored m' = value_stored m"
    "map_value_kind m' = GRAY_ELEM_I64" "map_value_size m' = 8"
    "map_table m' = AList.update (key_of m k) (value_stored m (store 8 (int n))) (map_table m)" "0 < n"
  shows "counting seed m' (c(key_of m k := n))"
proof -
  have "map_value_kind m = GRAY_ELEM_I64" "map_value_size m = 8" "map_ok seed m" using assms(1) by (simp_all add: counting_def)
  moreover from this have "value_stored m (store 8 (int n)) = store 8 (int n)" by (simp add: value_stored_def stored_def bytes_at_length)
  ultimately show ?thesis using assms get_table [of seed m] get_table [of seed m']
    by (simp add: counting_def update_conv')
qed

lemma map_room_less: "map_room m (Suc n) \<Longrightarrow> map_room m n"
  by (simp add: map_room_def)

lemma count_step:
  assumes "counting seed m c" "map_room m (Suc n)" "c (key_of m k) + 1 < 2 ^ 63"
  shows "\<exists>m'. (case find_slot seed m k of
        Some slot \<Rightarrow> Some (Inr (store_value m slot (store 8 (load_s 8 (map_values m ! slot) + 1))))
      | None \<Rightarrow> gray_map_set (fuel + 2) seed m k (store 8 1)) = Some (Inr m')
    \<and> counting seed m' (c(key_of m k := c (key_of m k) + 1)) \<and> map_room m' n \<and> key_of m' = key_of m"
proof (cases "find_slot seed m k")
  case None
  have ok: "map_ok seed m" "map_value_kind m = GRAY_ELEM_I64" "map_value_size m = 8" using assms(1) by (simp_all add: counting_def)
  have "gray_map_get seed m k = None" using None by (simp add: gray_map_get_def)
  moreover have "gray_map_get seed m k = (if c (key_of m k) = 0 then None else Some (store 8 (int (c (key_of m k)))))"
    using assms(1) by (simp add: counting_def)
  ultimately have zero: "c (key_of m k) = 0" by (simp split: if_splits)
  have room: "map_iterating m = 0" "map_capacity m \<le> 2 ^ 29" using assms(2) by (simp_all add: map_room_def)
  obtain m' where m': "set_call fuel seed m k (store 8 1) = Some m'" "map_ok seed m'" "map_room m' n" "key_of m' = key_of m"
      "value_stored m' = value_stored m" "map_table m' = AList.update (key_of m k) (value_stored m (store 8 1)) (map_table m)"
    using set_call_ok [OF ok(1) assms(2), of fuel k "store 8 1"] by blast
  have set: "gray_map_set (fuel + 2) seed m k (store 8 1) = Some (Inr m')"
    using m'(1) unfolding set_call_def by (simp split: option.splits sum.splits)
  have "same_type m m'" using set set_ok [OF ok(1) room, of fuel k "store 8 1"] by auto
  then have "counting seed m' (c(key_of m k := 1))"
    using ok by (intro counting_update [OF assms(1) m'(2,4,5)]) (simp_all add: m'(6) same_type_def)
  then show ?thesis using None set m'(3,4) by (simp add: zero)
next
  case (Some slot)
  let ?v = "store 8 (int (c (key_of m k) + 1))"
  let ?m = "store_value m slot ?v"
  have ok: "map_ok seed m" "map_value_kind m = GRAY_ELEM_I64" "map_value_size m = 8" using assms(1) by (simp_all add: counting_def)
  have "gray_map_get seed m k = Some (map_values m ! slot)" using Some by (simp add: gray_map_get_def)
  then have "map_values m ! slot = store 8 (int (c (key_of m k)))" using assms(1) by (simp add: counting_def split: if_splits)
  then have v: "store 8 (load_s 8 (map_values m ! slot) + 1) = ?v" using assms(3) by (simp add: load_s_store_nat add.commute)
  have same: "same_type m ?m" by (simp add: same_type_def)
  have "map_table ?m = AList.update (key_of m k) (value_stored m ?v) (map_table m)"
    using ok(1) same store_value_entries [OF ok(1) Some] by (rule update_entry_table)
  then have "counting seed ?m (c(key_of m k := c (key_of m k) + 1))"
    using ok store_value_ok [OF ok(1)] by (intro counting_update [OF assms(1)]) (simp_all add: value_stored_def fun_eq_iff)
  moreover have "map_room ?m n" using map_room_less [OF assms(2)] by (simp add: map_room_def)
  ultimately show ?thesis unfolding Some option.case v by auto
qed

lemma counts_loop_value:
  assumes "counting seed m c" "map_room m (length es)" "\<And>x. c x + length es < 2 ^ 63"
  shows "\<exists>m'. counts_loop (fuel + 2) seed key es m = Some (Inr m') \<and> key_of m' = key_of m
    \<and> counting seed m' (\<lambda>x. c x + length (filter (\<lambda>e. key_of m (key e) = x) es))"
  using assms
proof (induction es arbitrary: m c)
  case (Cons e es)
  let ?c = "c(key_of m (key e) := c (key_of m (key e)) + 1)"
  have small: "c x + Suc (length es) < 2 ^ 63" for x using Cons.prems(3) by simp
  then have "c (key_of m (key e)) + 1 < 2 ^ 63" using small [of "key_of m (key e)"] by linarith
  with Cons.prems(1,2) obtain a where a: "(case find_slot seed m (key e) of
        Some slot \<Rightarrow> Some (Inr (store_value m slot (store 8 (load_s 8 (map_values m ! slot) + 1))))
      | None \<Rightarrow> gray_map_set (fuel + 2) seed m (key e) (store 8 1)) = Some (Inr a)"
      "counting seed a ?c" "map_room a (length es)" "key_of a = key_of m"
    using count_step [of seed m c "length es" "key e" fuel] by auto
  have "?c x + length es < 2 ^ 63" for x using small [of x] small [of "key_of m (key e)"] by simp
  then obtain b where b: "counts_loop (fuel + 2) seed key es a = Some (Inr b)" "key_of b = key_of a"
      "counting seed b (\<lambda>x. ?c x + length (filter (\<lambda>e. key_of a (key e) = x) es))"
    using Cons.IH [OF a(2,3)] by blast
  have "counts_loop (fuel + 2) seed key (e # es) m = Some (Inr b)"
    using a(1) b(1) by (auto simp: bind_run_def split: option.splits)
  moreover have "(\<lambda>x. ?c x + length (filter (\<lambda>e. key_of a (key e) = x) es)) = (\<lambda>x. c x + length (filter (\<lambda>e. key_of m (key e) = x) (e # es)))"
    using a(4) by (auto simp: fun_eq_iff)
  ultimately show ?case using b a(4) by auto
qed simp

lemma counts_value:
  assumes "width_ok kind width" "value_kind = GRAY_ELEM_I64" "length es * 3 \<le> 2 ^ 29"
    and n: "n = gray_map_new_kind width 8 (length es) kind value_kind"
  shows "\<exists>m. counts_loop (fuel + 2) seed key es n = Some (Inr m) \<and> key_of m = key_of n
    \<and> counting seed m (\<lambda>x. length (filter (\<lambda>e. key_of n (key e) = x) es))"
proof -
  have new: "map_ok seed n" "map_entries n = []" using new_kind_ok [OF assms(1)] by (simp_all add: n)
  have "gray_map_get seed n k = None" for k using get_table [OF new(1), of k] new(2) by (simp add: map_table_def)
  then have "counting seed n (\<lambda>_. 0)" using new(1) assms(2) by (simp add: counting_def n gray_map_new_kind_def Let_def)
  moreover have "gray_map_round_capacity (length es) \<le> 2 ^ 29"
  proof (cases "8 < length es")
    case True
    then show ?thesis using round_capacity_less [of "length es"] assms(3) by simp
  next
    case False
    then show ?thesis by (simp add: gray_map_round_capacity_def GRAY_MAP_MIN_CAPACITY_def round_loop.simps)
  qed
  then have "map_room n (length es)" using assms(3) by (simp add: map_room_def n gray_map_new_kind_def Let_def)
  moreover have "0 + length es < 2 ^ 63" using assms(3) by simp
  ultimately show ?thesis using counts_loop_value [of seed n "\<lambda>_. 0" es fuel key] by simp
qed

lemma counts_array:
  assumes "array_ok a" "width_ok (array_elem_kind a) (array_elem_size a)" "array_len a * 3 \<le> 2 ^ 29"
  shows "\<exists>m. gray_arrays_counts (fuel + 2) seed a = Some (Inr m) \<and> map_ok seed m
    \<and> (\<forall>k. gray_map_get seed m k =
        (let n = length (filter (\<lambda>e. canon_key (array_elem_size a) (array_elem_kind a) e = canon_key (array_elem_size a) (array_elem_kind a) k)
                   (array_list a))
         in if n = 0 then None else Some (store 8 (int n))))"
proof -
  define new where "new = gray_map_new_kind (array_elem_size a) 8 (length (array_list a)) (array_elem_kind a) GRAY_ELEM_I64"
  have len: "length (array_list a) = array_len a" using assms(1) by (rule length_array_list)
  have key: "key_of new = canon_key (array_elem_size a) (array_elem_kind a)"
    by (simp add: fun_eq_iff new_def key_of_def gray_map_new_kind_def Let_def)
  obtain m where m: "counts_loop (fuel + 2) seed (\<lambda>e. e) (array_list a) new = Some (Inr m)" "key_of m = key_of new"
      "counting seed m (\<lambda>x. length (filter (\<lambda>e. key_of new e = x) (array_list a)))"
    using counts_value [OF assms(2) refl _ new_def, of fuel seed "\<lambda>e. e"] assms(3) len by auto
  have "gray_arrays_counts (fuel + 2) seed a = Some (Inr m)" using m(1) by (simp add: gray_arrays_counts_def new_def len)
  then show ?thesis using m(2,3) by (auto simp: counting_def key Let_def)
qed

end
