(* ===== verification/Channels.thy ===== *)
theory Channels
  imports Interfaces
begin

text \<open>
  The module \<open>channels\<close> of the standard library (\<open>stdlib/channels.c\<close>): bounded channels between threads,
  a ring buffer under a mutex with a condition variable for each end. A handle that was never opened is
  \<open>None\<close>. What a call does between taking the mutex and giving it up, by unlocking or by waiting on a
  condition, is one definition; \<open>channel_step\<close> interleaves such turns of any number of threads.
\<close>

subsection \<open>The buffer\<close>

record channel =
  channel_buffer :: "i64 list"
  channel_capacity :: nat
  channel_count :: nat
  channel_head :: nat
  channel_tail :: nat
  channel_closed :: bool

definition live_channel :: "channel option \<Rightarrow> channel panicking" where
  "live_channel handle = (case handle of None \<Rightarrow> Inl ''P0169'' | Some ch \<Rightarrow> Inr ch)"

text \<open>\<open>maximum_bytes\<close> is the limit of the default arena, and \<open>allocated\<close> what \<open>malloc\<close> answers.\<close>

definition gray_channels_open :: "nat \<Rightarrow> bool \<Rightarrow> i64 \<Rightarrow> channel panicking" where
  "gray_channels_open maximum_bytes allocated capacity =
     (if sint capacity < 1 then Inl ''P0173''
      else if (2 ^ 64 - 1) div 8 < uint capacity then Inl ''P0159''
      else if 0 < maximum_bytes \<and> int maximum_bytes < uint capacity * 8 then Inl ''P0104''
      else if \<not> allocated then Inl ''P0160''
      else Inr \<lparr>channel_buffer = replicate (unat capacity) 0, channel_capacity = unat capacity, channel_count = 0,
                 channel_head = 0, channel_tail = 0, channel_closed = False\<rparr>)"

definition put_value :: "channel \<Rightarrow> i64 \<Rightarrow> channel" where
  "put_value ch v =
     ch\<lparr>channel_buffer := (channel_buffer ch)[channel_tail ch := v],
        channel_tail := (channel_tail ch + 1) mod channel_capacity ch,
        channel_count := channel_count ch + 1\<rparr>"

definition take_value :: "channel \<Rightarrow> channel \<times> i64" where
  "take_value ch =
     (ch\<lparr>channel_head := (channel_head ch + 1) mod channel_capacity ch, channel_count := channel_count ch - 1\<rparr>,
      channel_buffer ch ! channel_head ch)"

definition gray_channels_try_send :: "channel option \<Rightarrow> i64 \<Rightarrow> (channel \<times> bool) panicking" where
  "gray_channels_try_send handle v =
     bind_panic (live_channel handle) (\<lambda>ch.
       if channel_count ch = channel_capacity ch \<or> channel_closed ch then Inr (ch, False)
       else Inr (put_value ch v, True))"

definition gray_channels_try_receive :: "channel option \<Rightarrow> (channel \<times> i64 \<times> bool) panicking" where
  "gray_channels_try_receive handle =
     bind_panic (live_channel handle) (\<lambda>ch.
       if channel_count ch = 0 then Inr (ch, 0, False)
       else let (ch, v) = take_value ch in Inr (ch, v, True))"

definition gray_channels_close :: "channel option \<Rightarrow> channel panicking" where
  "gray_channels_close handle = bind_panic (live_channel handle) (\<lambda>ch. Inr (ch\<lparr>channel_closed := True\<rparr>))"

definition gray_channels_len :: "channel option \<Rightarrow> nat panicking" where
  "gray_channels_len handle = bind_panic (live_channel handle) (\<lambda>ch. Inr (channel_count ch))"

subsection \<open>Blocking calls\<close>

text \<open>A turn of a blocking call, from the test of its loop on: the thread waits, or the call ends.\<close>

datatype 'a turn = Waits | Ends 'a

definition gray_channels_send :: "channel \<Rightarrow> i64 \<Rightarrow> channel panicking turn" where
  "gray_channels_send ch v =
     (if channel_count ch = channel_capacity ch \<and> \<not> channel_closed ch then Waits
      else Ends (if channel_closed ch then Inl ''P0172'' else Inr (put_value ch v)))"

text \<open>The result says whether the value came from the buffer; a closed and empty channel gives 0.\<close>

definition gray_channels_receive :: "channel \<Rightarrow> (channel \<times> i64 \<times> bool) turn" where
  "gray_channels_receive ch =
     (if channel_count ch = 0 \<and> \<not> channel_closed ch then Waits
      else Ends (if channel_count ch = 0 \<and> channel_closed ch then (ch, 0, False)
                 else let (ch, v) = take_value ch in (ch, v, True)))"

subsection \<open>Threads\<close>

text \<open>
  A thread is outside the module, at the test of a blocking call with the mutex to take, asleep in
  \<open>pthread_cond_wait\<close>, or stopped by a panic.
\<close>

datatype thread =
    Idle | Sending i64 | Wait_not_full i64 | Receiving | Wait_not_empty | Stopped

datatype condition = Not_full | Not_empty

fun waits_on :: "condition \<Rightarrow> thread \<Rightarrow> bool" where
  "waits_on Not_full (Wait_not_full v) = True"
| "waits_on Not_empty Wait_not_empty = True"
| "waits_on _ _ = False"

fun wake :: "thread \<Rightarrow> thread" where
  "wake (Wait_not_full v) = Sending v"
| "wake Wait_not_empty = Receiving"
| "wake t = t"

text \<open>
  \<open>pthread_cond_signal\<close> wakes at least one thread that waits on the condition, if there is one, and may
  wake more; \<open>pthread_cond_broadcast\<close> wakes all.
\<close>

definition signals :: "condition \<Rightarrow> thread list \<Rightarrow> thread list \<Rightarrow> bool" where
  "signals c ts ts' \<longleftrightarrow>
     list_all2 (\<lambda>t t'. t' = t \<or> waits_on c t \<and> t' = wake t) ts ts'
     \<and> (list_ex (waits_on c) ts \<longrightarrow> ts' \<noteq> ts)"

text \<open>The channel, the threads, and the values sent into and received from it, in order.\<close>

record system =
  shared :: channel
  threads :: "thread list"
  sent :: "i64 list"
  received :: "i64 list"

inductive channel_step :: "system \<Rightarrow> system \<Rightarrow> bool" where
  call_send: "i < length (threads s) \<Longrightarrow> threads s ! i = Idle \<Longrightarrow>
    channel_step s (s\<lparr>threads := (threads s)[i := Sending v]\<rparr>)"
| call_receive: "i < length (threads s) \<Longrightarrow> threads s ! i = Idle \<Longrightarrow>
    channel_step s (s\<lparr>threads := (threads s)[i := Receiving]\<rparr>)"
| send_waits: "i < length (threads s) \<Longrightarrow> threads s ! i = Sending v \<Longrightarrow>
    gray_channels_send (shared s) v = Waits \<Longrightarrow>
    channel_step s (s\<lparr>threads := (threads s)[i := Wait_not_full v]\<rparr>)"
| send_panics: "i < length (threads s) \<Longrightarrow> threads s ! i = Sending v \<Longrightarrow>
    gray_channels_send (shared s) v = Ends (Inl code) \<Longrightarrow>
    channel_step s (s\<lparr>threads := (threads s)[i := Stopped]\<rparr>)"
| send_ends: "i < length (threads s) \<Longrightarrow> threads s ! i = Sending v \<Longrightarrow>
    gray_channels_send (shared s) v = Ends (Inr ch) \<Longrightarrow> signals Not_empty ((threads s)[i := Idle]) ts \<Longrightarrow>
    channel_step s (s\<lparr>shared := ch, threads := ts, sent := sent s @ [v]\<rparr>)"
| receive_waits: "i < length (threads s) \<Longrightarrow> threads s ! i = Receiving \<Longrightarrow>
    gray_channels_receive (shared s) = Waits \<Longrightarrow>
    channel_step s (s\<lparr>threads := (threads s)[i := Wait_not_empty]\<rparr>)"
| receive_closed: "i < length (threads s) \<Longrightarrow> threads s ! i = Receiving \<Longrightarrow>
    gray_channels_receive (shared s) = Ends (ch, v, False) \<Longrightarrow>
    channel_step s (s\<lparr>threads := (threads s)[i := Idle]\<rparr>)"
| receive_ends: "i < length (threads s) \<Longrightarrow> threads s ! i = Receiving \<Longrightarrow>
    gray_channels_receive (shared s) = Ends (ch, v, True) \<Longrightarrow> signals Not_full ((threads s)[i := Idle]) ts \<Longrightarrow>
    channel_step s (s\<lparr>shared := ch, threads := ts, received := received s @ [v]\<rparr>)"
| try_send: "i < length (threads s) \<Longrightarrow> threads s ! i = Idle \<Longrightarrow>
    gray_channels_try_send (Some (shared s)) v = Inr (ch, True) \<Longrightarrow> signals Not_empty (threads s) ts \<Longrightarrow>
    channel_step s (s\<lparr>shared := ch, threads := ts, sent := sent s @ [v]\<rparr>)"
| try_receive: "i < length (threads s) \<Longrightarrow> threads s ! i = Idle \<Longrightarrow>
    gray_channels_try_receive (Some (shared s)) = Inr (ch, v, True) \<Longrightarrow> signals Not_full (threads s) ts \<Longrightarrow>
    channel_step s (s\<lparr>shared := ch, threads := ts, received := received s @ [v]\<rparr>)"
| close: "i < length (threads s) \<Longrightarrow> threads s ! i = Idle \<Longrightarrow>
    gray_channels_close (Some (shared s)) = Inr ch \<Longrightarrow>
    channel_step s (s\<lparr>shared := ch, threads := map wake (threads s)\<rparr>)"
| spurious_wakeup: "i < length (threads s) \<Longrightarrow>
    channel_step s (s\<lparr>threads := (threads s)[i := wake (threads s ! i)]\<rparr>)"

text \<open>The states that threads can bring a channel to that was opened with a capacity.\<close>

inductive channel_run :: "i64 \<Rightarrow> nat \<Rightarrow> system \<Rightarrow> bool" for capacity thread_count where
  opened: "gray_channels_open maximum_bytes True capacity = Inr ch \<Longrightarrow>
    channel_run capacity thread_count \<lparr>shared = ch, threads = replicate thread_count Idle, sent = [], received = []\<rparr>"
| step: "channel_run capacity thread_count s \<Longrightarrow> channel_step s s' \<Longrightarrow> channel_run capacity thread_count s'"

subsection \<open>The ring buffer is a queue\<close>

definition channel_ok :: "channel \<Rightarrow> bool" where
  "channel_ok ch \<longleftrightarrow> length (channel_buffer ch) = channel_capacity ch \<and> 0 < channel_capacity ch
     \<and> channel_count ch \<le> channel_capacity ch \<and> channel_head ch < channel_capacity ch
     \<and> channel_tail ch = (channel_head ch + channel_count ch) mod channel_capacity ch"

definition channel_items :: "channel \<Rightarrow> i64 list" where
  "channel_items ch =
     map (\<lambda>i. channel_buffer ch ! ((channel_head ch + i) mod channel_capacity ch)) [0..<channel_count ch]"

lemma length_channel_items [simp]: "length (channel_items ch) = channel_count ch"
  by (simp add: channel_items_def)

lemma ring_distinct:
  assumes "i < j" "j < (n :: nat)"
  shows "(h + i) mod n \<noteq> (h + j) mod n"
proof
  assume "(h + i) mod n = (h + j) mod n"
  then have "n dvd (h + j) - (h + i)" using mod_eq_dvd_iff_nat [of "h + i" "h + j" n] assms(1) by simp
  then show False using assms dvd_imp_le [of n "j - i"] by simp
qed

lemma put_value_ok:
  assumes "channel_ok ch" "channel_count ch < channel_capacity ch"
  shows "channel_ok (put_value ch v)" "channel_items (put_value ch v) = channel_items ch @ [v]"
proof -
  let ?n = "channel_capacity ch"
  have ok: "length (channel_buffer ch) = ?n" "0 < ?n" "channel_tail ch = (channel_head ch + channel_count ch) mod ?n"
    using assms(1) by (simp_all add: channel_ok_def)
  show "channel_ok (put_value ch v)" using assms ok by (simp add: channel_ok_def put_value_def mod_Suc_eq)
  have "channel_tail ch \<noteq> (channel_head ch + i) mod ?n" if "i < channel_count ch" for i
    using ring_distinct [OF that assms(2)] unfolding ok(3) by (rule not_sym)
  moreover have "channel_tail ch < ?n" using ok by simp
  ultimately show "channel_items (put_value ch v) = channel_items ch @ [v]"
    using ok(1) by (auto simp: channel_items_def put_value_def ok(3) [symmetric])
qed

lemma take_value_ok:
  assumes "channel_ok ch" "channel_count ch \<noteq> 0"
  shows "channel_ok (fst (take_value ch))" "channel_items ch = snd (take_value ch) # channel_items (fst (take_value ch))"
proof -
  let ?n = "channel_capacity ch"
  obtain k where k: "channel_count ch = Suc k" using assms(2) by (cases "channel_count ch") auto
  have "((channel_head ch + 1) mod ?n + k) mod ?n = (channel_head ch + Suc k) mod ?n" by (simp add: mod_add_left_eq)
  then show "channel_ok (fst (take_value ch))" using assms(1) k by (simp add: channel_ok_def take_value_def)
  have "map f [0..<Suc k] = f 0 # map (\<lambda>i. f (Suc i)) [0..<k]" for f :: "nat \<Rightarrow> i64"
    by (simp add: upt_conv_Cons map_Suc_upt [symmetric] comp_def del: upt_Suc)
  then show "channel_items ch = snd (take_value ch) # channel_items (fst (take_value ch))"
    using assms(1) by (simp add: channel_items_def take_value_def k channel_ok_def mod_add_left_eq mod_Suc_eq del: upt_Suc)
qed

interpretation ring: bounded_queue channel_ok channel_items channel_capacity put_value take_value
proof
  fix ch v
  assume ok: "channel_ok ch"
  show "length (channel_items ch) \<le> channel_capacity ch" using ok by (simp add: channel_ok_def)
  show "channel_ok (put_value ch v) \<and> channel_items (put_value ch v) = channel_items ch @ [v]
      \<and> channel_capacity (put_value ch v) = channel_capacity ch"
    if "length (channel_items ch) < channel_capacity ch"
    using put_value_ok [OF ok] that by (simp add: put_value_def)
  show "channel_ok (fst (take_value ch)) \<and> channel_items ch = snd (take_value ch) # channel_items (fst (take_value ch))
      \<and> channel_capacity (fst (take_value ch)) = channel_capacity ch"
    if "channel_items ch \<noteq> []"
  proof -
    have "channel_count ch \<noteq> 0" using that by (simp add: channel_items_def)
    then show ?thesis using take_value_ok [OF ok] by (simp add: take_value_def)
  qed
qed

lemma channel_items_empty: "channel_items ch = [] \<longleftrightarrow> channel_count ch = 0"
  by (simp add: channel_items_def)

subsection \<open>Threads that wait\<close>

fun awake :: "condition \<Rightarrow> thread \<Rightarrow> bool" where
  "awake Not_full (Sending v) = True"
| "awake Not_empty Receiving = True"
| "awake _ _ = False"

definition awake_count :: "condition \<Rightarrow> thread list \<Rightarrow> nat" where
  "awake_count c ts = length (filter (awake c) ts)"

abbreviation someone_waits :: "condition \<Rightarrow> thread list \<Rightarrow> bool" where
  "someone_waits c \<equiv> list_ex (waits_on c)"

lemma awake_wake [simp]: "awake c (wake t) \<longleftrightarrow> awake c t \<or> waits_on c t"
  by (cases t; cases c) simp_all

lemma waits_wake [simp]: "\<not> waits_on c (wake t)"
  by (cases t; cases c) simp_all

lemma awake_not_waits: "waits_on c t \<Longrightarrow> \<not> awake d t"
  by (cases t; cases c; cases d) simp_all

lemma one_condition: "waits_on c t \<Longrightarrow> c \<noteq> d \<Longrightarrow> \<not> waits_on d t"
  by (cases t; cases c; cases d) simp_all

lemma awake_count_update:
  "i < length ts \<Longrightarrow> awake_count c (ts[i := t]) + (if awake c (ts ! i) then 1 else 0) = awake_count c ts + (if awake c t then 1 else 0)"
proof (induction ts arbitrary: i)
  case (Cons u ts)
  then show ?case by (cases i) (auto simp: awake_count_def)
qed simp

lemma someone_waits_update:
  "i < length ts \<Longrightarrow> someone_waits c (ts[i := t]) \<Longrightarrow> \<not> waits_on c t \<Longrightarrow> someone_waits c ts"
  by (auto simp: list_ex_iff in_set_conv_nth nth_list_update split: if_splits) (use nth_mem in blast)

lemma signals_waits: "signals c ts ts' \<Longrightarrow> someone_waits d ts' \<Longrightarrow> someone_waits d ts"
  unfolding signals_def
proof (elim conjE, rotate_tac, induction rule: list_all2_induct)
  case (Cons t ts t' ts')
  then show ?case by auto
qed simp

lemma signals_awake_le: "list_all2 (\<lambda>t t'. t' = t \<or> waits_on c t \<and> t' = wake t) ts ts' \<Longrightarrow> awake_count d ts \<le> awake_count d ts'"
  by (induction rule: list_all2_induct) (auto simp: awake_count_def)

lemma signals_awake_less: "list_all2 (\<lambda>t t'. t' = t \<or> waits_on c t \<and> t' = wake t) ts ts' \<Longrightarrow> ts' \<noteq> ts \<Longrightarrow>
  awake_count c ts < awake_count c ts'"
proof (induction rule: list_all2_induct)
  case (Cons t ts t' ts')
  have "awake_count c ts \<le> awake_count c ts'" using signals_awake_le [OF Cons(2)] .
  then show ?case using Cons awake_not_waits [of c t c] by (auto simp: awake_count_def)
qed simp

lemma signals_awake:
  assumes "signals c ts ts'"
  shows "awake_count d ts \<le> awake_count d ts'" "someone_waits c ts \<Longrightarrow> awake_count c ts < awake_count c ts'"
  using assms signals_awake_le signals_awake_less unfolding signals_def by blast+

text \<open>How many more calls of each kind the channel could serve.\<close>

fun served :: "condition \<Rightarrow> channel \<Rightarrow> nat" where
  "served Not_full ch = channel_capacity ch - channel_count ch"
| "served Not_empty ch = channel_count ch"

text \<open>
  The invariant of a system: the channel delivers in order; after it is closed nobody waits, and before,
  when somebody waits, the calls the channel could serve are all accounted for by threads that are awake.
\<close>

definition system_ok :: "system \<Rightarrow> bool" where
  "system_ok s \<longleftrightarrow> channel_ok (shared s) \<and> sent s = received s @ channel_items (shared s)
     \<and> (\<forall>c. someone_waits c (threads s) \<longrightarrow>
           \<not> channel_closed (shared s) \<and> served c (shared s) \<le> awake_count c (threads s))"

lemma system_ok_waits:
  assumes "system_ok s" "someone_waits c (threads s)"
  shows "\<not> channel_closed (shared s)" "served c (shared s) \<le> awake_count c (threads s)"
  using assms unfolding system_ok_def by blast+

text \<open>A thread changes and the channel does not.\<close>

lemma system_ok_thread:
  assumes "system_ok s" "i < length (threads s)"
    and "\<And>c. waits_on c t \<Longrightarrow> \<not> channel_closed (shared s) \<and> served c (shared s) = 0"
    and "\<And>c. awake c (threads s ! i) \<Longrightarrow> awake c t \<or> waits_on c t \<or> channel_closed (shared s)"
  shows "system_ok (s\<lparr>threads := (threads s)[i := t]\<rparr>)"
  unfolding system_ok_def
proof (intro conjI allI impI)
  fix c
  assume w: "someone_waits c (threads (s\<lparr>threads := (threads s)[i := t]\<rparr>))"
  have "\<not> channel_closed (shared s) \<and> served c (shared s) \<le> awake_count c ((threads s)[i := t])"
  proof (cases "waits_on c t")
    case False
    then have "someone_waits c (threads s)" using someone_waits_update [OF assms(2)] w by auto
    then have "\<not> channel_closed (shared s)" "served c (shared s) \<le> awake_count c (threads s)" using assms(1) system_ok_waits by blast+
    then show ?thesis using awake_count_update [OF assms(2), of c t] assms(4) [of c] False by (auto split: if_splits)
  qed (use assms(3) in simp)
  then show "\<not> channel_closed (shared (s\<lparr>threads := (threads s)[i := t]\<rparr>))"
    "served c (shared (s\<lparr>threads := (threads s)[i := t]\<rparr>)) \<le> awake_count c (threads (s\<lparr>threads := (threads s)[i := t]\<rparr>))"
    by simp_all
qed (use assms(1) in \<open>simp_all add: system_ok_def\<close>)

text \<open>A value goes through the channel: one call of a kind is served, and a call of the other kind can be.\<close>

lemma system_ok_served:
  assumes "system_ok s" "channel_ok ch" "sn = rc @ channel_items ch" "channel_closed ch = channel_closed (shared s)"
    and "served c ch = Suc (served c (shared s))" "Suc (served d ch) = served d (shared s)" "c \<noteq> d"
    and waits: "\<And>e. someone_waits e ts \<Longrightarrow> someone_waits e (threads s)"
    and awake: "awake_count c (threads s) \<le> awake_count c ts" "awake_count d (threads s) \<le> Suc (awake_count d ts)"
    and "signals c ts ts'"
  shows "system_ok (s\<lparr>shared := ch, threads := ts', sent := sn, received := rc\<rparr>)"
  unfolding system_ok_def
proof (intro conjI allI impI)
  fix e
  assume "someone_waits e (threads (s\<lparr>shared := ch, threads := ts', sent := sn, received := rc\<rparr>))"
  then have w: "someone_waits e ts" "someone_waits e (threads s)" using signals_waits [OF assms(11)] waits by auto
  note old = system_ok_waits(2) [OF assms(1) w(2)] and woken = signals_awake [OF assms(11)]
  consider "e = c" | "e = d" using assms(7) by (cases c; cases d; cases e) simp_all
  then have "served e ch \<le> awake_count e ts'"
  proof cases
    case 1
    then show ?thesis using assms(5) awake(1) woken(2) old w(1) by simp
  next
    case 2
    then show ?thesis using assms(6) awake(2) woken(1) [of d] old by simp
  qed
  then show "\<not> channel_closed (shared (s\<lparr>shared := ch, threads := ts', sent := sn, received := rc\<rparr>))"
    "served e (shared (s\<lparr>shared := ch, threads := ts', sent := sn, received := rc\<rparr>))
      \<le> awake_count e (threads (s\<lparr>shared := ch, threads := ts', sent := sn, received := rc\<rparr>))"
    using system_ok_waits(1) [OF assms(1) w(2)] assms(4) by simp_all
qed (use assms(2,3) in simp_all)

lemma system_ok_put:
  assumes "system_ok s" "channel_count (shared s) \<noteq> channel_capacity (shared s)"
    and "\<And>e. someone_waits e ts \<Longrightarrow> someone_waits e (threads s)"
    and "awake_count Not_empty (threads s) \<le> awake_count Not_empty ts" "awake_count Not_full (threads s) \<le> Suc (awake_count Not_full ts)"
    and "signals Not_empty ts ts'"
  shows "system_ok (s\<lparr>shared := put_value (shared s) v, threads := ts', sent := sent s @ [v]\<rparr>)"
proof -
  have s: "channel_ok (shared s)" "sent s = received s @ channel_items (shared s)" using assms(1) by (simp_all add: system_ok_def)
  have put: "channel_ok (put_value (shared s) v)" "sent s @ [v] = received s @ channel_items (put_value (shared s) v)"
    using ring.delivered_put [OF s, of v] assms(2) by simp_all
  have "system_ok (s\<lparr>shared := put_value (shared s) v, threads := ts', sent := sent s @ [v], received := received s\<rparr>)"
    using assms(1) put _ _ _ _ assms(3-6)
    by (rule system_ok_served) (use s(1) assms(2) in \<open>auto simp: put_value_def channel_ok_def\<close>)
  then show ?thesis by simp
qed

lemma system_ok_take:
  assumes "system_ok s" "channel_count (shared s) \<noteq> 0" "take_value (shared s) = (ch, v)"
    and "\<And>e. someone_waits e ts \<Longrightarrow> someone_waits e (threads s)"
    and "awake_count Not_full (threads s) \<le> awake_count Not_full ts" "awake_count Not_empty (threads s) \<le> Suc (awake_count Not_empty ts)"
    and "signals Not_full ts ts'"
  shows "system_ok (s\<lparr>shared := ch, threads := ts', received := received s @ [v]\<rparr>)"
proof -
  have s: "channel_ok (shared s)" "sent s = received s @ channel_items (shared s)" using assms(1) by (simp_all add: system_ok_def)
  have take: "channel_ok ch" "sent s = (received s @ [v]) @ channel_items ch"
    using ring.delivered_take [OF s _ assms(3)] assms(2) by (simp_all add: channel_items_empty)
  have "ch = fst (take_value (shared s))" using assms(3) by simp
  then have "system_ok (s\<lparr>shared := ch, threads := ts', sent := sent s, received := received s @ [v]\<rparr>)"
    using assms(1) take _ _ _ _ assms(4-7)
    by (intro system_ok_served) (use s(1) assms(2) in \<open>auto simp: take_value_def channel_ok_def\<close>)
  then show ?thesis by simp
qed

lemma idle_update:
  assumes "i < length ts"
  shows "someone_waits e (ts[i := Idle]) \<Longrightarrow> someone_waits e ts"
    "\<not> awake e (ts ! i) \<Longrightarrow> awake_count e ts \<le> awake_count e (ts[i := Idle])"
    "awake_count e ts \<le> Suc (awake_count e (ts[i := Idle]))"
  using someone_waits_update [OF assms, of e Idle] awake_count_update [OF assms, of e Idle] by (auto split: if_splits)

lemma step_ok:
  assumes "channel_step s s'" "system_ok s"
  shows "system_ok s'"
  using assms
proof (induction rule: channel_step.induct)
  case (call_send i s v)
  show ?case using call_send(3,1) by (rule system_ok_thread) (simp_all add: call_send(2))
next
  case (call_receive i s)
  show ?case using call_receive(3,1) by (rule system_ok_thread) (simp_all add: call_receive(2))
next
  case (send_waits i s v)
  then have "channel_count (shared s) = channel_capacity (shared s)" "\<not> channel_closed (shared s)"
    by (simp_all add: gray_channels_send_def split: if_splits)
  then show ?case using send_waits(4,1,2) by (intro system_ok_thread) (auto elim!: waits_on.elims(2) awake.elims(2))
next
  case (send_panics i s v code)
  then have "channel_closed (shared s)" by (auto simp: gray_channels_send_def split: if_splits)
  then show ?case using send_panics by (intro system_ok_thread) simp_all
next
  case (receive_waits i s)
  then have "channel_count (shared s) = 0" "\<not> channel_closed (shared s)"
    by (simp_all add: gray_channels_receive_def split: if_splits)
  then show ?case using receive_waits(4,1,2) by (intro system_ok_thread) (auto elim!: waits_on.elims(2) awake.elims(2))
next
  case (receive_closed i s ch v)
  then have "channel_closed (shared s)" by (auto simp: gray_channels_receive_def Let_def split: if_splits prod.splits)
  then show ?case using receive_closed by (intro system_ok_thread) simp_all
next
  case (spurious_wakeup i s)
  then show ?case by (intro system_ok_thread) simp_all
next
  case (close i s ch)
  then have "ch = (shared s)\<lparr>channel_closed := True\<rparr>" by (simp add: gray_channels_close_def live_channel_def)
  then show ?case using close(4) by (simp add: system_ok_def channel_ok_def channel_items_def list_ex_iff)
next
  case (send_ends i s v ch ts)
  then have ch: "channel_count (shared s) \<noteq> channel_capacity (shared s)" "ch = put_value (shared s) v"
    by (auto simp: gray_channels_send_def split: if_splits)
  show ?case using system_ok_put [OF send_ends(5) ch(1) idle_update(1,2,3) send_ends(4)] send_ends(1,2) by (simp add: ch(2))
next
  case (receive_ends i s ch v ts)
  then have ch: "channel_count (shared s) \<noteq> 0" "take_value (shared s) = (ch, v)"
    by (auto simp: gray_channels_receive_def Let_def split: if_splits prod.splits)
  show ?case using system_ok_take [OF receive_ends(5) ch idle_update(1,2,3) receive_ends(4)] receive_ends(1,2) by simp
next
  case (try_send i s v ch ts)
  then have ch: "channel_count (shared s) \<noteq> channel_capacity (shared s)" "ch = put_value (shared s) v"
    by (auto simp: gray_channels_try_send_def live_channel_def split: if_splits)
  show ?case using system_ok_put [OF try_send(5) ch(1) _ _ _ try_send(4)] by (simp add: ch(2))
next
  case (try_receive i s ch v ts)
  then have ch: "channel_count (shared s) \<noteq> 0" "take_value (shared s) = (ch, v)"
    by (auto simp: gray_channels_try_receive_def live_channel_def Let_def split: if_splits prod.splits)
  show ?case using system_ok_take [OF try_receive(5) ch _ _ _ try_receive(4)] by simp
qed

lemma open_ok:
  assumes "gray_channels_open maximum_bytes allocated capacity = Inr ch"
  shows "channel_ok ch" "channel_items ch = []" "channel_capacity ch = unat capacity" "\<not> channel_closed ch"
proof -
  have "0 < sint capacity" using assms by (simp add: gray_channels_open_def split: if_splits)
  then have "capacity \<noteq> 0" by auto
  then show "channel_ok ch" "channel_items ch = []" "channel_capacity ch = unat capacity" "\<not> channel_closed ch"
    using assms by (auto simp: gray_channels_open_def channel_ok_def channel_items_def unat_gt_0 split: if_splits)
qed

lemma run_ok:
  assumes "channel_run capacity n s"
  shows "system_ok s"
  using assms
proof (induction rule: channel_run.induct)
  case (opened maximum_bytes ch)
  have "\<not> someone_waits c (replicate n Idle)" for c by (auto simp: list_ex_iff)
  then show ?case using open_ok [OF opened] by (simp add: system_ok_def)
qed (rule step_ok)

text \<open>The capacity and the number of threads stay what they were.\<close>

lemma step_capacity:
  "channel_step s s' \<Longrightarrow> channel_capacity (shared s') = channel_capacity (shared s) \<and> length (threads s') = length (threads s)"
  by (induction rule: channel_step.induct)
    (auto simp: gray_channels_send_def gray_channels_receive_def gray_channels_try_send_def gray_channels_try_receive_def
      gray_channels_close_def live_channel_def put_value_def take_value_def Let_def signals_def
      dest!: list_all2_lengthD split: if_splits)

lemma run_capacity:
  "channel_run capacity n s \<Longrightarrow> channel_capacity (shared s) = unat capacity \<and> length (threads s) = n"
  by (induction rule: channel_run.induct) (auto simp: open_ok dest: step_capacity)

text \<open>A state in which no thread is at the test of a blocking call.\<close>

definition quiet :: "system \<Rightarrow> bool" where
  "quiet s \<longleftrightarrow> list_all (\<lambda>t. \<not> awake Not_full t \<and> \<not> awake Not_empty t) (threads s)"

lemma quiet_waits:
  assumes "system_ok s" "quiet s" "someone_waits c (threads s)"
  shows "served c (shared s) = 0 \<and> \<not> channel_closed (shared s)"
proof -
  have "\<not> awake c t" if "t \<in> set (threads s)" for t
    using assms(2) that by (cases c) (auto simp: quiet_def list_all_iff)
  then have "awake_count c (threads s) = 0" by (simp add: awake_count_def filter_empty_conv)
  then show ?thesis using system_ok_waits [OF assms(1,3)] by simp
qed

text \<open>A thread that waits does so because its call cannot be served, or another one is awake that can.\<close>

lemma awake_thread:
  assumes "awake_count c ts \<noteq> 0"
  obtains j where "j < length ts" "awake c (ts ! j)"
proof -
  obtain t where "t \<in> set ts" "awake c t" using assms by (auto simp: awake_count_def filter_empty_conv)
  then show ?thesis using that by (metis in_set_conv_nth)
qed

lemma channel_waits_served:
  assumes "channel_run capacity n s" "i < n" "waits_on c (threads s ! i)"
  shows "\<not> channel_closed (shared s)
    \<and> (case c of
         Not_empty \<Rightarrow> channel_items (shared s) = []
           \<or> (\<exists>j < n. threads s ! j = Receiving \<and> gray_channels_receive (shared s) \<noteq> Waits)
       | Not_full \<Rightarrow> length (channel_items (shared s)) = unat capacity
           \<or> (\<exists>j < n. \<exists>v. threads s ! j = Sending v \<and> gray_channels_send (shared s) v \<noteq> Waits))"
proof -
  note ok = run_ok [OF assms(1)] and size = run_capacity [OF assms(1)]
  have "someone_waits c (threads s)" using assms(2,3) size by (auto simp: list_ex_iff)
  note waits = system_ok_waits [OF ok this]
  have bound: "channel_count (shared s) \<le> channel_capacity (shared s)" using ok by (simp add: system_ok_def channel_ok_def)
  show ?thesis
  proof (cases "served c (shared s) = 0")
    case True
    then show ?thesis using waits(1) bound size by (cases c) (simp_all add: channel_items_empty)
  next
    case False
    then have "awake_count c (threads s) \<noteq> 0" using waits(2) by simp
    then obtain j where j: "j < n" "awake c (threads s ! j)" using size by (elim awake_thread) simp
    show ?thesis
    proof (cases c)
      case Not_full
      then obtain v where "threads s ! j = Sending v" using j(2) by (auto elim: awake.elims(2))
      moreover have "gray_channels_send (shared s) v \<noteq> Waits" using False Not_full by (simp add: gray_channels_send_def)
      ultimately show ?thesis using Not_full j(1) waits(1) by auto
    next
      case Not_empty
      then have "threads s ! j = Receiving" using j(2) by (auto elim: awake.elims(2))
      moreover have "gray_channels_receive (shared s) \<noteq> Waits" using False Not_empty by (simp add: gray_channels_receive_def)
      ultimately show ?thesis using Not_empty j(1) waits(1) by auto
    qed
  qed
qed

end
