(* ===== verification/Encoding.thy ===== *)
theory Encoding
  imports Utf8 Gray_Array
begin

text \<open>
  The module \<open>encoding\<close> of the standard library (\<open>stdlib/encoding.c\<close>): base64, hexadecimal, URL, HTML and
  shell encodings of strings. A string is its bytes; the loops over its indices are recursions over the
  bytes left. A failed decoding is the message of its error, whose code is always \<open>EncodingFailure\<close>.
\<close>

type_synonym bytes = "u8 list"

text \<open>The byte of a character of the source, and the bytes of a literal.\<close>

definition chr :: "char \<Rightarrow> u8" where
  "chr c = of_char c"

definition ascii :: "string \<Rightarrow> bytes" where
  "ascii text = map chr text"

definition between :: "char \<Rightarrow> u8 \<Rightarrow> char \<Rightarrow> bool" where
  "between lo c hi \<longleftrightarrow> chr lo \<le> c \<and> c \<le> chr hi"

definition is_alnum :: "u8 \<Rightarrow> bool" where
  "is_alnum c \<longleftrightarrow> between CHR ''A'' c CHR ''Z'' \<or> between CHR ''a'' c CHR ''z'' \<or> between CHR ''0'' c CHR ''9''"

subsection \<open>Base64\<close>

definition b64_table :: bytes where
  "b64_table = ascii ''ABCDEFGHIJKLMNOPQRSTUVWXYZabcdefghijklmnopqrstuvwxyz0123456789+/''"

definition b64_digit :: "u32 \<Rightarrow> u8" where
  "b64_digit v = b64_table ! unat (v AND 0x3F)"

definition base64_triple :: "u8 \<Rightarrow> u8 \<Rightarrow> u8 \<Rightarrow> u32" where
  "base64_triple first_byte second_byte third_byte =
     push_bit 16 (ucast first_byte) OR push_bit 8 (ucast second_byte) OR ucast third_byte"

fun gray_encoding_base64_encode :: "bytes \<Rightarrow> bytes" where
  "gray_encoding_base64_encode [] = []"
| "gray_encoding_base64_encode (first_byte # following) =
     (let second_byte = (case following of [] \<Rightarrow> 0 | b # _ \<Rightarrow> b);
          third_byte = (case following of _ # b # _ \<Rightarrow> b | _ \<Rightarrow> 0);
          triple = base64_triple first_byte second_byte third_byte
      in b64_digit (drop_bit 18 triple) # b64_digit (drop_bit 12 triple)
         # (if following \<noteq> [] then b64_digit (drop_bit 6 triple) else chr CHR ''='')
         # (if 2 \<le> length following then b64_digit triple else chr CHR ''='')
         # gray_encoding_base64_encode (drop 2 following))"

definition base64_value :: "u8 \<Rightarrow> int" where
  "base64_value c =
     (if between CHR ''A'' c CHR ''Z'' then uint c - uint (chr CHR ''A'')
      else if between CHR ''a'' c CHR ''z'' then uint c - uint (chr CHR ''a'') + 26
      else if between CHR ''0'' c CHR ''9'' then uint c - uint (chr CHR ''0'') + 52
      else if c = chr CHR ''+'' then 62
      else if c = chr CHR ''/'' then 63
      else - 1)"

text \<open>One quad of the loop; \<open>last_quad\<close> says that it is the last.\<close>

definition base64_quad :: "u8 \<Rightarrow> u8 \<Rightarrow> u8 \<Rightarrow> u8 \<Rightarrow> bool \<Rightarrow> string + bytes" where
  "base64_quad first_character second_character third_character fourth_character last_quad =
     (let is_third_padding = (third_character = chr CHR ''='');
          is_fourth_padding = (fourth_character = chr CHR ''='')
      in if (is_third_padding \<or> is_fourth_padding) \<and> \<not> last_quad then Inl ''base64 padding before the end of input''
         else if is_third_padding \<and> \<not> is_fourth_padding then Inl ''invalid base64 padding''
         else
           let first_value = base64_value first_character;
               second_value = base64_value second_character;
               third_value = (if is_third_padding then 0 else base64_value third_character);
               fourth_value = (if is_fourth_padding then 0 else base64_value fourth_character)
           in if first_value < 0 \<or> second_value < 0 \<or> third_value < 0 \<or> fourth_value < 0
              then Inl ''invalid base64 character''
              else
                let triple = (push_bit 18 (word_of_int first_value) OR push_bit 12 (word_of_int second_value)
                              OR push_bit 6 (word_of_int third_value) OR word_of_int fourth_value :: u32)
                in Inr (ucast (drop_bit 16 triple AND 0xFF)
                        # (if \<not> is_third_padding then [ucast (drop_bit 8 triple AND 0xFF)] else [])
                        @ (if \<not> is_fourth_padding then [ucast (triple AND 0xFF)] else [])))"

fun base64_decode_loop :: "bytes \<Rightarrow> string + bytes" where
  "base64_decode_loop (a # b # c # d # following) =
     (case base64_quad a b c d (following = []) of
        Inl e \<Rightarrow> Inl e
      | Inr decoded \<Rightarrow>
          (case base64_decode_loop following of Inl e \<Rightarrow> Inl e | Inr others \<Rightarrow> Inr (decoded @ others)))"
| "base64_decode_loop _ = Inr []"

definition gray_encoding_base64_decode :: "bytes \<Rightarrow> string + bytes" where
  "gray_encoding_base64_decode s =
     (if s = [] then Inr []
      else if length s mod 4 \<noteq> 0 then Inl ''base64 input length is not a multiple of 4''
      else base64_decode_loop s)"

definition gray_encoding_base64_url_encode :: "bytes \<Rightarrow> bytes" where
  "gray_encoding_base64_url_encode s =
     map (\<lambda>c. if c = chr CHR ''+'' then chr CHR ''-'' else if c = chr CHR ''/'' then chr CHR ''_'' else c)
       (takeWhile (\<lambda>c. c \<noteq> chr CHR ''='') (gray_encoding_base64_encode s))"

definition gray_encoding_base64_url_decode :: "bytes \<Rightarrow> string + bytes" where
  "gray_encoding_base64_url_decode s =
     (let padding = (4 - length s mod 4) mod 4
      in gray_encoding_base64_decode
           (map (\<lambda>c. if c = chr CHR ''-'' then chr CHR ''+'' else if c = chr CHR ''_'' then chr CHR ''/'' else c) s
            @ replicate padding (chr CHR ''='')))"

subsection \<open>Hexadecimal\<close>

definition gray_hex_digit_value :: "u8 \<Rightarrow> int" where
  "gray_hex_digit_value c =
     (if between CHR ''0'' c CHR ''9'' then uint c - uint (chr CHR ''0'')
      else if between CHR ''a'' c CHR ''f'' then uint c - uint (chr CHR ''a'') + 10
      else if between CHR ''A'' c CHR ''F'' then uint c - uint (chr CHR ''A'') + 10
      else - 1)"

text \<open>What \<open>snprintf\<close> writes for \<open>"%02x"\<close> and \<open>"%02X"\<close>.\<close>

definition hex_pair :: "string \<Rightarrow> u8 \<Rightarrow> bytes" where
  "hex_pair digits b = [ascii digits ! unat (drop_bit 4 b), ascii digits ! unat (b AND 15)]"

definition gray_encoding_hex_encode :: "bytes \<Rightarrow> bytes" where
  "gray_encoding_hex_encode s = concat (map (hex_pair ''0123456789abcdef'') s)"

definition hex_byte :: "u8 \<Rightarrow> u8 \<Rightarrow> u8 option" where
  "hex_byte high_nibble low_nibble =
     (let high_value = gray_hex_digit_value high_nibble; low_value = gray_hex_digit_value low_nibble
      in if high_value < 0 \<or> low_value < 0 then None
         else Some (word_of_int (push_bit 4 high_value OR low_value)))"

fun hex_decode_loop :: "bytes \<Rightarrow> string + bytes" where
  "hex_decode_loop (h # l # following) =
     (case hex_byte h l of
        None \<Rightarrow> Inl ''invalid hex character''
      | Some b \<Rightarrow> (case hex_decode_loop following of Inl e \<Rightarrow> Inl e | Inr others \<Rightarrow> Inr (b # others)))"
| "hex_decode_loop _ = Inr []"

definition gray_encoding_hex_decode :: "bytes \<Rightarrow> string + bytes" where
  "gray_encoding_hex_decode s =
     (if length s mod 2 \<noteq> 0 then Inl ''hex input length is not even'' else hex_decode_loop s)"

subsection \<open>URLs\<close>

definition url_byte :: "u8 \<Rightarrow> bytes" where
  "url_byte c =
     (if is_alnum c \<or> c = chr CHR ''-'' \<or> c = chr CHR ''_'' \<or> c = chr CHR ''.'' \<or> c = chr CHR ''~'' then [c]
      else chr CHR ''%'' # hex_pair ''0123456789ABCDEF'' c)"

definition gray_encoding_url_encode :: "bytes \<Rightarrow> bytes" where
  "gray_encoding_url_encode s = concat (map url_byte s)"

fun gray_encoding_url_decode :: "bytes \<Rightarrow> string + bytes" where
  "gray_encoding_url_decode [] = Inr []"
| "gray_encoding_url_decode (c # following) =
     (if c = chr CHR ''%'' \<and> 2 \<le> length following
      then (case hex_byte (following ! 0) (following ! 1) of
              None \<Rightarrow> Inl ''invalid percent-escape''
            | Some b \<Rightarrow> (case gray_encoding_url_decode (drop 2 following) of Inl e \<Rightarrow> Inl e | Inr others \<Rightarrow> Inr (b # others)))
      else (case gray_encoding_url_decode following of
              Inl e \<Rightarrow> Inl e
            | Inr others \<Rightarrow> Inr ((if c = chr CHR ''+'' then chr CHR '' '' else c) # others)))"

subsection \<open>HTML\<close>

definition html_byte :: "u8 \<Rightarrow> bytes" where
  "html_byte c =
     (if c = chr CHR ''&'' then ascii ''&amp;''
      else if c = chr CHR ''<'' then ascii ''&lt;''
      else if c = chr CHR ''>'' then ascii ''&gt;''
      else if c = chr CHR 0x22 then ascii ''&quot;''
      else if c = chr CHR 0x27 then ascii ''&#39;''
      else [c])"

definition gray_encoding_html_escape :: "bytes \<Rightarrow> bytes" where
  "gray_encoding_html_escape s = concat (map html_byte s)"

text \<open>The digits of a numeric entity; the codepoint stays within 0x10FFFF, or the entity is not one.\<close>

fun html_hex_loop :: "bytes \<Rightarrow> u32 \<Rightarrow> u32 option" where
  "html_hex_loop [] codepoint = Some codepoint"
| "html_hex_loop (c # cs) codepoint =
     (let codepoint = codepoint * 16
      in if gray_hex_digit_value c < 0 then None
         else let codepoint = codepoint + word_of_int (gray_hex_digit_value c)
              in if 0x10FFFF < codepoint then None else html_hex_loop cs codepoint)"

fun html_decimal_loop :: "bytes \<Rightarrow> u32 \<Rightarrow> u32 option" where
  "html_decimal_loop [] codepoint = Some codepoint"
| "html_decimal_loop (c # cs) codepoint =
     (if \<not> between CHR ''0'' c CHR ''9'' then None
      else let codepoint = codepoint * 10 + word_of_int (uint c - uint (chr CHR ''0''))
           in if 0x10FFFF < codepoint then None else html_decimal_loop cs codepoint)"

definition html_codepoint :: "bytes \<Rightarrow> u32 option" where
  "html_codepoint body =
     (if body ! 1 = chr CHR ''x'' \<or> body ! 1 = chr CHR ''X''
      then (if length body < 3 then None else html_hex_loop (drop 2 body) 0)
      else html_decimal_loop (drop 1 body) 0)"

definition encoding_utf8_encode :: "u32 \<Rightarrow> bytes" where
  "encoding_utf8_encode codepoint = (if codepoint \<le> 0x10FFFF then utf8_encode codepoint else [])"

definition html_entity :: "bytes \<Rightarrow> bytes option" where
  "html_entity body =
     (if body = ascii ''amp'' then Some [chr CHR ''&'']
      else if body = ascii ''lt'' then Some [chr CHR ''<'']
      else if body = ascii ''gt'' then Some [chr CHR ''>'']
      else if body = ascii ''quot'' then Some [chr CHR 0x22]
      else if body = ascii ''apos'' then Some [chr CHR 0x27]
      else if 2 \<le> length body \<and> body ! 0 = chr CHR ''#''
      then (case html_codepoint body of
              None \<Rightarrow> None
            | Some codepoint \<Rightarrow> if encoding_utf8_encode codepoint \<noteq> [] then Some (encoding_utf8_encode codepoint) else None)
      else None)"

text \<open>An entity ends at a semicolon among the ten bytes after the ampersand.\<close>

function gray_encoding_html_unescape :: "bytes \<Rightarrow> bytes" where
  "gray_encoding_html_unescape [] = []"
| "gray_encoding_html_unescape (c # following) =
     (if c \<noteq> chr CHR ''&'' \<or> chr CHR '';'' \<notin> set (take 10 following) then c # gray_encoding_html_unescape following
      else let body = takeWhile (\<lambda>b. b \<noteq> chr CHR '';'') following
           in case html_entity body of
                Some decoded \<Rightarrow> decoded @ gray_encoding_html_unescape (drop (length body + 1) following)
              | None \<Rightarrow> c # gray_encoding_html_unescape following)"
  by pat_completeness auto
termination by (relation "measure length") auto

subsection \<open>Shells\<close>

definition is_shell_safe :: "u8 \<Rightarrow> bool" where
  "is_shell_safe c \<longleftrightarrow> is_alnum c \<or> c \<in> set (ascii ''_-./,:@+=%'')"

text \<open>The POSIX version.\<close>

definition gray_encoding_shell_escape :: "bytes \<Rightarrow> bytes" where
  "gray_encoding_shell_escape s =
     (if s = [] then ascii [CHR 0x27, CHR 0x27]
      else if list_all is_shell_safe s then s
      else chr CHR 0x27
           # concat (map (\<lambda>c. if c = chr CHR 0x27 then ascii [CHR 0x27, CHR 0x5C, CHR 0x27, CHR 0x27] else [c]) s)
           @ [chr CHR 0x27])"

subsection \<open>Arrays of bytes\<close>

definition gray_encoding_from_string :: "bytes \<Rightarrow> gray_array panicking" where
  "gray_encoding_from_string s =
     run_pushes gray_array_push (map (\<lambda>b. [b]) s) (gray_array_new 1 (int (length s)) GRAY_ELEM_U8)"

definition gray_encoding_to_string :: "gray_array \<Rightarrow> bytes" where
  "gray_encoding_to_string a = concat (array_list a)"

text \<open>Decoding into an array is an error of the decoder, or a panic or an array.\<close>

definition gray_encoding_from_hex :: "bytes \<Rightarrow> string + gray_array panicking" where
  "gray_encoding_from_hex s =
     (case gray_encoding_hex_decode s of Inl e \<Rightarrow> Inl e | Inr decoded \<Rightarrow> Inr (gray_encoding_from_string decoded))"

definition gray_encoding_to_hex :: "gray_array \<Rightarrow> bytes" where
  "gray_encoding_to_hex a = concat (map (hex_pair ''0123456789abcdef'') (concat (array_list a)))"

definition gray_encoding_from_base64 :: "bytes \<Rightarrow> string + gray_array panicking" where
  "gray_encoding_from_base64 s =
     (case gray_encoding_base64_decode s of Inl e \<Rightarrow> Inl e | Inr decoded \<Rightarrow> Inr (gray_encoding_from_string decoded))"

definition gray_encoding_to_base64 :: "gray_array \<Rightarrow> bytes" where
  "gray_encoding_to_base64 a = gray_encoding_base64_encode (gray_encoding_to_string a)"

end
