(* ===== verification/Encoding_Values.thy ===== *)
theory Encoding_Values
  imports Encoding
begin

text \<open>
  The encodings of \<open>Encoding\<close> are undone by their decoders, for every string of bytes, and the text they
  produce uses only the characters the encoding allows.
\<close>

lemma unat_of_char: "unat (of_char c :: u8) = of_char c"
proof -
  have "(of_char c :: u8) = of_nat (of_char c)" by (simp only: of_nat_of_char)
  then have "unat (of_char c :: u8) = of_char c mod 2 ^ LENGTH(8)" by (simp only: unat_of_nat)
  also have "\<dots> = of_char c mod 256" by simp
  finally show ?thesis by (simp only: of_char_mod_256)
qed

lemma chr_eq [simp]: "chr c = chr d \<longleftrightarrow> c = d"
  unfolding chr_def using unat_of_char [of c] unat_of_char [of d] of_char_eqI [of c d, where 'a = nat] by metis

subsection \<open>Base64\<close>

lemma byte_bit: "bit (b :: u8) n \<Longrightarrow> n < 8"
  by (simp add: bit_imp_le_length [of b n, simplified])

lemma triple_bit: "bit (base64_triple a b c) n \<longleftrightarrow> (16 \<le> n \<and> bit a (n - 16)) \<or> (8 \<le> n \<and> bit b (n - 8)) \<or> bit c n"
  using byte_bit [of a "n - 16"] byte_bit [of b "n - 8"] byte_bit [of c n] by (auto simp: base64_triple_def bit_simps)

lemma low_six: "(0x3F :: u32) = mask 6"
  by (simp add: mask_eq_exp_minus_1)

lemma low_eight: "(0xFF :: u32) = mask 8"
  by (simp add: mask_eq_exp_minus_1)

lemma triple_bytes:
  "ucast (drop_bit 16 (base64_triple a b c) AND 0xFF) = a"
  "ucast (drop_bit 8 (base64_triple a b c) AND 0xFF) = b"
  "ucast (base64_triple a b c AND 0xFF) = c"
  by (rule bit_word_eqI, auto simp: low_eight bit_simps triple_bit dest: byte_bit)+

text \<open>The four sextets of a triple, put together again.\<close>

definition sextet :: "u32 \<Rightarrow> u32" where
  "sextet v = v AND 0x3F"

lemma sextets:
  "push_bit 18 (sextet (drop_bit 18 (base64_triple a b c))) OR push_bit 12 (sextet (drop_bit 12 (base64_triple a b c)))
   OR push_bit 6 (sextet (drop_bit 6 (base64_triple a b c))) OR sextet (base64_triple a b c) = base64_triple a b c"
  (is "?l = ?t")
proof (rule bit_word_eqI)
  fix n
  assume "n < LENGTH(32)"
  moreover have "bit ?t n \<Longrightarrow> n < 24"
    unfolding triple_bit using byte_bit [of a "n - 16"] byte_bit [of b "n - 8"] byte_bit [of c n] by auto
  moreover have "n < 6 \<or> 6 \<le> n \<and> n < 12 \<or> 12 \<le> n \<and> n < 18 \<or> 18 \<le> n \<and> n < 24 \<or> 24 \<le> n" by linarith
  ultimately show "bit ?l n = bit ?t n"
    by (elim disjE conjE; cases "bit ?t n") (simp_all add: sextet_def low_six bit_simps; arith)+
qed

text \<open>A missing byte leaves the sextets that are written as padding empty.\<close>

lemma empty_sextets [simp]:
  "sextet (base64_triple a b 0) = 0" "sextet (drop_bit 6 (base64_triple a 0 0)) = 0"
  unfolding sextet_def by (rule bit_word_eqI, auto simp: low_six bit_simps triple_bit)+

lemma b64_value_table: "list_all (\<lambda>v. base64_value (b64_table ! v) = int v) [0..<64]"
  by code_simp

lemma b64_digit_value: "base64_value (b64_digit v) = uint (sextet v)"
proof -
  have "sextet v = take_bit 6 v" by (simp add: sextet_def low_six take_bit_eq_mask)
  then have "unat (sextet v) = take_bit 6 (unat v)" by (simp add: unsigned_take_bit_eq)
  then have "unat (sextet v) < 64" using take_bit_nat_less_exp [of 6 "unat v"] by simp
  then show ?thesis using b64_value_table unfolding b64_digit_def sextet_def list_all_iff by simp
qed

lemma padding_value: "base64_value (chr CHR ''='') = - 1"
  by code_simp

lemma b64_digit_padding [simp]: "b64_digit v \<noteq> chr CHR ''=''"
proof
  assume "b64_digit v = chr CHR ''=''"
  then have "base64_value (chr CHR ''='') = uint (sextet v)" using b64_digit_value [of v] by simp
  moreover have "(0 :: int) \<le> uint (sextet v)" by (rule unsigned_greater_eq)
  ultimately show False unfolding padding_value by linarith
qed

lemma b64_digit_values [simp]:
  "\<not> base64_value (b64_digit v) < 0" "word_of_int (base64_value (b64_digit v)) = sextet v"
  by (simp_all add: b64_digit_value not_less)

lemma quads:
  "base64_quad (b64_digit (drop_bit 18 (base64_triple a b c))) (b64_digit (drop_bit 12 (base64_triple a b c)))
     (b64_digit (drop_bit 6 (base64_triple a b c))) (b64_digit (base64_triple a b c)) last_quad = Inr [a, b, c]"
  "base64_quad (b64_digit (drop_bit 18 (base64_triple a b 0))) (b64_digit (drop_bit 12 (base64_triple a b 0)))
     (b64_digit (drop_bit 6 (base64_triple a b 0))) (chr CHR ''='') True = Inr [a, b]"
  "base64_quad (b64_digit (drop_bit 18 (base64_triple a 0 0))) (b64_digit (drop_bit 12 (base64_triple a 0 0)))
     (chr CHR ''='') (chr CHR ''='') True = Inr [a]"
  using sextets [of a b c] sextets [of a b 0] sextets [of a 0 0] by (simp_all add: base64_quad_def Let_def triple_bytes)

lemma encode_steps:
  "gray_encoding_base64_encode [a] =
     [b64_digit (drop_bit 18 (base64_triple a 0 0)), b64_digit (drop_bit 12 (base64_triple a 0 0)), chr CHR ''='', chr CHR ''='']"
  "gray_encoding_base64_encode [a, b] =
     [b64_digit (drop_bit 18 (base64_triple a b 0)), b64_digit (drop_bit 12 (base64_triple a b 0)),
      b64_digit (drop_bit 6 (base64_triple a b 0)), chr CHR ''='']"
  "gray_encoding_base64_encode (a # b # c # s) =
     b64_digit (drop_bit 18 (base64_triple a b c)) # b64_digit (drop_bit 12 (base64_triple a b c))
     # b64_digit (drop_bit 6 (base64_triple a b c)) # b64_digit (base64_triple a b c) # gray_encoding_base64_encode s"
  by (simp_all add: Let_def)

lemma triples_induct [case_names Nil One Two Three]:
  assumes "P []" "\<And>a. P [a]" "\<And>a b. P [a, b]" "\<And>a b c s. P s \<Longrightarrow> P (a # b # c # s)"
  shows "P s"
proof (induction s rule: length_induct)
  case (1 s)
  consider "s = []" | a where "s = [a]" | a b where "s = [a, b]" | a b c u where "s = a # b # c # u"
    by (metis neq_Nil_conv)
  then show ?case using 1 assms by cases auto
qed

lemma length_encode: "length (gray_encoding_base64_encode s) = (length s + 2) div 3 * 4"
proof (induction s rule: triples_induct)
  case (Three a b c s)
  have "(length (a # b # c # s) + 2) div 3 = Suc ((length s + 2) div 3)" by (simp add: div_add_self2 [of 3 "length s + 2", symmetric] algebra_simps)
  then show ?case using Three by (simp add: encode_steps del: gray_encoding_base64_encode.simps(2))
qed (simp_all add: encode_steps del: gray_encoding_base64_encode.simps(2))

lemma decode_loop_encode: "base64_decode_loop (gray_encoding_base64_encode s) = Inr s"
  by (induction s rule: triples_induct) (simp_all add: encode_steps quads del: gray_encoding_base64_encode.simps(2))

lemma base64_round_trip: "gray_encoding_base64_decode (gray_encoding_base64_encode s) = Inr s"
proof (cases "s = []")
  case False
  moreover have "gray_encoding_base64_encode s \<noteq> []" using False by (cases s) (simp_all add: Let_def)
  ultimately show ?thesis using decode_loop_encode by (simp add: gray_encoding_base64_decode_def length_encode)
qed (simp add: gray_encoding_base64_decode_def)

text \<open>The URL variant drops the padding and exchanges two characters of the alphabet.\<close>

lemma b64_alphabet: "list_all (\<lambda>c. c \<noteq> chr CHR ''-'' \<and> c \<noteq> chr CHR ''_'' \<and> c \<noteq> chr CHR ''='') b64_table"
  by code_simp

lemma b64_digit_alphabet: "b64_digit v \<noteq> chr CHR ''-''" "b64_digit v \<noteq> chr CHR ''_''"
proof -
  have "v AND 0x3F = take_bit 6 v" by (simp add: low_six take_bit_eq_mask)
  then have "unat (v AND 0x3F) = take_bit 6 (unat v)" by (simp add: unsigned_take_bit_eq)
  then have "unat (v AND 0x3F) < length b64_table" using take_bit_nat_less_exp [of 6 "unat v"] by (simp add: b64_table_def ascii_def)
  then have "b64_digit v \<in> set b64_table" by (simp add: b64_digit_def)
  then show "b64_digit v \<noteq> chr CHR ''-''" "b64_digit v \<noteq> chr CHR ''_''" using b64_alphabet by (auto simp: list_all_iff)
qed

lemma encode_alphabet: "c \<in> set (gray_encoding_base64_encode s) \<Longrightarrow> c = chr CHR ''='' \<or> (\<exists>v. c = b64_digit v)"
  by (induction s rule: triples_induct) (auto simp: encode_steps simp del: gray_encoding_base64_encode.simps(2))

lemma encode_padding:
  "let digits = takeWhile (\<lambda>c. c \<noteq> chr CHR ''='') (gray_encoding_base64_encode s)
   in digits @ replicate ((4 - length digits mod 4) mod 4) (chr CHR ''='') = gray_encoding_base64_encode s"
  by (induction s rule: triples_induct)
    (simp_all add: encode_steps Let_def numeral_2_eq_2 del: gray_encoding_base64_encode.simps(2))

lemma base64_url_round_trip: "gray_encoding_base64_url_decode (gray_encoding_base64_url_encode s) = Inr s"
proof -
  define digits where "digits = takeWhile (\<lambda>c. c \<noteq> chr CHR ''='') (gray_encoding_base64_encode s)"
  let ?there = "\<lambda>c. if c = chr CHR ''+'' then chr CHR ''-'' else if c = chr CHR ''/'' then chr CHR ''_'' else c"
  let ?undo = "\<lambda>c. if c = chr CHR ''-'' then chr CHR ''+'' else if c = chr CHR ''_'' then chr CHR ''/'' else c"
  have "\<exists>v. c = b64_digit v" if "c \<in> set digits" for c
    using that encode_alphabet [of c s] unfolding digits_def by (auto dest: set_takeWhileD)
  then have "c \<noteq> chr CHR ''-'' \<and> c \<noteq> chr CHR ''_''" if "c \<in> set digits" for c using that b64_digit_alphabet by metis
  then have "map ?undo (map ?there digits) = digits" by (simp add: comp_def map_idI)
  moreover have "digits @ replicate ((4 - length digits mod 4) mod 4) (chr CHR ''='') = gray_encoding_base64_encode s"
    using encode_padding [of s] by (simp add: digits_def Let_def)
  ultimately show ?thesis using base64_round_trip [of s]
    by (simp add: gray_encoding_base64_url_decode_def gray_encoding_base64_url_encode_def digits_def [symmetric] del: map_map)
qed

subsection \<open>Hexadecimal\<close>

lemma hex_value_table:
  "list_all (\<lambda>v. gray_hex_digit_value (ascii ''0123456789abcdef'' ! v) = int v
     \<and> gray_hex_digit_value (ascii ''0123456789ABCDEF'' ! v) = int v) [0..<16]"
  by code_simp

lemma nibbles: "word_of_int (push_bit 4 (uint (drop_bit 4 b)) OR uint (b AND 15)) = (b :: u8)"
proof (rule bit_word_eqI)
  fix n
  assume "n < LENGTH(8)"
  have low: "(15 :: u8) = mask 4" by (simp add: mask_eq_exp_minus_1)
  show "bit (word_of_int (push_bit 4 (uint (drop_bit 4 b)) OR uint (b AND 15)) :: u8) n = bit b n"
    unfolding low using \<open>n < LENGTH(8)\<close> by (cases "n < 4") (auto simp: bit_simps dest: byte_bit)
qed

lemma hex_byte_pair:
  assumes "digits = ''0123456789abcdef'' \<or> digits = ''0123456789ABCDEF''"
  shows "hex_byte (ascii digits ! unat (drop_bit 4 b)) (ascii digits ! unat (b AND 15)) = Some b"
proof -
  have "drop_bit 4 b = take_bit 4 (drop_bit 4 b)" by (rule bit_word_eqI) (auto simp: bit_simps dest: byte_bit)
  then have "unat (drop_bit 4 b) = take_bit 4 (unat (drop_bit 4 b))" by (metis unsigned_take_bit_eq)
  moreover have "b AND 15 = take_bit 4 b" by (simp add: take_bit_eq_mask mask_eq_exp_minus_1)
  then have "unat (b AND 15) = take_bit 4 (unat b)" by (simp add: unsigned_take_bit_eq)
  ultimately have "unat (drop_bit 4 b) < 16" "unat (b AND 15) < 16"
    using take_bit_nat_less_exp [of 4 "unat b"] take_bit_nat_less_exp [of 4 "unat (drop_bit 4 b)"] by simp_all
  then have "gray_hex_digit_value (ascii digits ! unat (drop_bit 4 b)) = uint (drop_bit 4 b)"
    "gray_hex_digit_value (ascii digits ! unat (b AND 15)) = uint (b AND 15)"
    using assms hex_value_table unfolding list_all_iff by auto
  then show ?thesis by (simp add: hex_byte_def not_less nibbles)
qed

lemma hex_loop_encode: "hex_decode_loop (concat (map (hex_pair ''0123456789abcdef'') s)) = Inr s"
  by (induction s) (simp_all add: hex_pair_def hex_byte_pair)

lemma length_hex: "length (concat (map (hex_pair digits) s)) = 2 * length s"
  by (induction s) (simp_all add: hex_pair_def)

lemma hex_round_trip: "gray_encoding_hex_decode (gray_encoding_hex_encode s) = Inr s"
  by (simp add: gray_encoding_hex_decode_def gray_encoding_hex_encode_def hex_loop_encode length_hex)

subsection \<open>URLs\<close>

lemma url_unreserved:
  assumes "is_alnum c \<or> c = chr CHR ''-'' \<or> c = chr CHR ''_'' \<or> c = chr CHR ''.'' \<or> c = chr CHR ''~''"
  shows "c \<noteq> chr CHR ''%''" "c \<noteq> chr CHR ''+''"
proof -
  have "\<not> is_alnum (chr CHR ''%'')" "\<not> is_alnum (chr CHR ''+'')" by code_simp+
  then show "c \<noteq> chr CHR ''%''" "c \<noteq> chr CHR ''+''" using assms by auto
qed

lemma url_round_trip: "gray_encoding_url_decode (gray_encoding_url_encode s) = Inr s"
proof (induction s)
  case (Cons c s)
  show ?case
  proof (cases "url_byte c = [c]")
    case True
    then have "c \<noteq> chr CHR ''%''" "c \<noteq> chr CHR ''+''" using url_unreserved [of c] by (auto simp: url_byte_def hex_pair_def split: if_splits)
    then show ?thesis using Cons True by (simp add: gray_encoding_url_encode_def)
  next
    case False
    then have "url_byte c = chr CHR ''%'' # hex_pair ''0123456789ABCDEF'' c" by (auto simp: url_byte_def split: if_splits)
    then show ?thesis using Cons by (simp add: gray_encoding_url_encode_def hex_pair_def hex_byte_pair)
  qed
qed (simp add: gray_encoding_url_encode_def)

subsection \<open>HTML\<close>

lemma html_entities:
  "gray_encoding_html_unescape (ascii ''&amp;'' @ s) = chr CHR ''&'' # gray_encoding_html_unescape s"
  "gray_encoding_html_unescape (ascii ''&lt;'' @ s) = chr CHR ''<'' # gray_encoding_html_unescape s"
  "gray_encoding_html_unescape (ascii ''&gt;'' @ s) = chr CHR ''>'' # gray_encoding_html_unescape s"
  "gray_encoding_html_unescape (ascii ''&quot;'' @ s) = chr CHR 0x22 # gray_encoding_html_unescape s"
  by (simp_all add: ascii_def html_entity_def)

lemma html_apostrophe: "html_entity (ascii ''#39'') = Some [chr CHR 0x27]"
  by code_simp

lemma html_entity_39: "gray_encoding_html_unescape (ascii ''&#39;'' @ s) = chr CHR 0x27 # gray_encoding_html_unescape s"
  using html_apostrophe by (simp add: ascii_def)

lemma html_round_trip: "gray_encoding_html_unescape (gray_encoding_html_escape s) = s"
proof (induction s)
  case (Cons c s)
  consider "html_byte c = [c]" "c \<noteq> chr CHR ''&''" | "c = chr CHR ''&''" | "c = chr CHR ''<''" | "c = chr CHR ''>''"
    | "c = chr CHR 0x22" | "c = chr CHR 0x27" unfolding html_byte_def by argo
  then show ?case using Cons html_entities html_entity_39
    by cases (simp_all add: gray_encoding_html_escape_def, simp_all add: html_byte_def)
qed (simp add: gray_encoding_html_escape_def)

subsection \<open>Shells\<close>

text \<open>
  How a POSIX shell splits the arguments of a command into words (Shell Command Language, 2.2 Quoting and
  2.3 Token Recognition). Blanks outside of quotes end a word; text between single quotes is literal and
  makes a word even when it is empty; a backslash makes the next byte literal and disappears in front of a
  newline. Every other byte with a meaning of its own, always or at some place in a word, is refused: the
  operators, expansions and double quotes, patterns, comments, home directories, braces and history. The
  equals and the percent sign are no such bytes in an argument. The word read so far is \<open>current\<close>.
\<close>

definition shell_special :: bytes where
  "shell_special = chr CHR 0x0A # chr CHR 0x00 # chr CHR 0x22 # chr CHR 0x27 # chr CHR 0x5C # ascii ''|&;<>()$`*?[]#~!{}''"

definition shell_blank :: "u8 \<Rightarrow> bool" where
  "shell_blank c \<longleftrightarrow> c = chr CHR '' '' \<or> c = chr CHR 0x09"

definition begun :: "bytes option \<Rightarrow> bytes" where
  "begun current = (case current of None \<Rightarrow> [] | Some w \<Rightarrow> w)"

fun shell_words :: "bool \<Rightarrow> bytes option \<Rightarrow> bytes \<Rightarrow> bytes list option" where
  "shell_words quoted current [] = (if quoted then None else Some (case current of None \<Rightarrow> [] | Some w \<Rightarrow> [w]))"
| "shell_words True current (c # cs) =
     (if c = chr CHR 0x27 then shell_words False current cs else shell_words True (Some (begun current @ [c])) cs)"
| "shell_words False current (c # cs) =
     (if c = chr CHR 0x27 then shell_words True (Some (begun current)) cs
      else if c = chr CHR 0x5C
      then (case cs of [] \<Rightarrow> None
        | d # ds \<Rightarrow> shell_words False (if d = chr CHR 0x0A then current else Some (begun current @ [d])) ds)
      else if shell_blank c
      then (case current of None \<Rightarrow> shell_words False None cs | Some w \<Rightarrow> map_option ((#) w) (shell_words False None cs))
      else if c \<in> set shell_special then None
      else shell_words False (Some (begun current @ [c])) cs)"

lemma shell_special_unsafe: "list_all (\<lambda>c. \<not> is_shell_safe c) (chr CHR '' '' # chr CHR 0x09 # shell_special)"
  by code_simp

lemma shell_safe_byte:
  assumes "is_shell_safe c"
  shows "c \<notin> set shell_special" "\<not> shell_blank c" "c \<noteq> chr CHR 0x27" "c \<noteq> chr CHR 0x5C"
  using assms shell_special_unsafe by (auto simp: list_all_iff shell_blank_def shell_special_def)

lemma shell_safe:
  "list_all is_shell_safe s \<Longrightarrow> s \<noteq> [] \<or> current \<noteq> None \<Longrightarrow>
     shell_words False current (s @ rest) = shell_words False (Some (begun current @ s)) rest"
proof (induction s arbitrary: current)
  case (Cons c s)
  then show ?case using shell_safe_byte [of c] by (simp add: begun_def)
qed (auto simp: begun_def)

lemma shell_quoted:
  "0 \<notin> set s \<Longrightarrow> shell_words True (Some w) (concat (map (\<lambda>c. if c = chr CHR 0x27 then ascii [CHR 0x27, CHR 0x5C, CHR 0x27, CHR 0x27] else [c]) s) @ rest)
     = shell_words True (Some (w @ s)) rest"
  by (induction s arbitrary: w) (simp_all add: ascii_def begun_def)

lemma shell_escape_word:
  "0 \<notin> set s \<Longrightarrow> shell_words False None (gray_encoding_shell_escape s @ rest) = shell_words False (Some s) rest"
  using shell_safe [of s None rest] shell_quoted [of s "[]" "chr CHR 0x27 # rest"]
  by (auto simp: gray_encoding_shell_escape_def ascii_def begun_def)

lemma shell_line_words:
  "\<forall>s \<in> set args. 0 \<notin> set s \<Longrightarrow> shell_words False None (concat (map (\<lambda>s. gray_encoding_shell_escape s @ [chr CHR '' '']) args)) = Some args"
  by (induction args) (simp_all add: shell_escape_word shell_blank_def)

subsection \<open>Arrays of bytes\<close>

lemma from_string_ok:
  assumes "length s \<le> 1073741824"
  shows "\<exists>a. gray_encoding_from_string s = Inr a \<and> array_ok a \<and> array_list a = map (\<lambda>b. [b]) s"
proof -
  let ?new = "gray_array_new 1 (int (length s)) GRAY_ELEM_U8"
  have "int (length s) \<le> 2147483647" using assms by simp
  from new_array_ok [OF this] have new: "array_ok ?new" "array_list ?new = []" by simp_all
  have stored: "array_stored ?new [b] = [b]" for b
    by (simp add: array_stored_def gray_array_new_def stored_def bytes_at_def Let_def)
  have "length (array_list ?new) + length (map (\<lambda>b. [b]) s) \<le> 1073741824" using assms new(2) by simp
  from arrays.pushes [OF new(1) this] show ?thesis using new(2) stored by (auto simp: gray_encoding_from_string_def comp_def)
qed

lemma concat_single [simp]: "concat (map (\<lambda>b. [b]) s) = s"
  by (induction s) simp_all

end
