(* ===== verification/Types.thy ===== *)
theory Types
  imports Token
begin

text \<open>
  The types of the typechecker (\<open>typechecker/types.h\<close>, \<open>types.c\<close>): their kinds, the rules for converting
  between sized numbers and for the result of a binary operator, and the table of built-in names. A name
  is its text; every type the source makes has one. Equality of C strings is equality of texts.
\<close>

subsection \<open>Data\<close>

datatype TypeKind =
    TYPE_KIND_VOID | TYPE_KIND_SIGNED_INTEGER | TYPE_KIND_UNSIGNED_INTEGER | TYPE_KIND_FLOATING_POINT
  | TYPE_KIND_BOOL | TYPE_KIND_CHAR | TYPE_KIND_STRING | TYPE_KIND_ARRAY | TYPE_KIND_MAP | TYPE_KIND_STRUCT
  | TYPE_KIND_ENUM | TYPE_KIND_POINTER | TYPE_KIND_ERROR | TYPE_KIND_FUNCTION | TYPE_KIND_RANGE | TYPE_KIND_NIL
  | TYPE_KIND_C_FUNCTION | TYPE_KIND_LITERAL | TYPE_KIND_UNKNOWN

record function_signature =
  parameter_types :: "string list"
  is_parameter_mutable :: "bool list"
  return_types :: "string list"

record gray_type =
  type_kind :: TypeKind
  type_text :: string
  element_type :: "string option"
  key_type :: "string option"
  value_type :: "string option"
  type_signature :: "function_signature option"
  is_decimal :: bool
  distinct_name :: "string option"

definition plain_type :: "TypeKind \<Rightarrow> string \<Rightarrow> gray_type" where
  "plain_type kind name =
     \<lparr>type_kind = kind, type_text = name, element_type = None, key_type = None, value_type = None,
      type_signature = None, is_decimal = False, distinct_name = None\<rparr>"

definition TYPE_VOID :: gray_type where "TYPE_VOID = plain_type TYPE_KIND_VOID ''void''"
definition TYPE_I64 :: gray_type where "TYPE_I64 = plain_type TYPE_KIND_SIGNED_INTEGER ''i64''"
definition TYPE_U64 :: gray_type where "TYPE_U64 = plain_type TYPE_KIND_UNSIGNED_INTEGER ''u64''"
definition TYPE_F64 :: gray_type where "TYPE_F64 = plain_type TYPE_KIND_FLOATING_POINT ''f64''"
definition TYPE_BOOL :: gray_type where "TYPE_BOOL = plain_type TYPE_KIND_BOOL ''bool''"
definition TYPE_CHAR :: gray_type where "TYPE_CHAR = plain_type TYPE_KIND_CHAR ''char''"
definition TYPE_U8 :: gray_type where "TYPE_U8 = plain_type TYPE_KIND_UNSIGNED_INTEGER ''u8''"
definition TYPE_STRING :: gray_type where "TYPE_STRING = plain_type TYPE_KIND_STRING ''string''"
definition TYPE_NIL :: gray_type where "TYPE_NIL = plain_type TYPE_KIND_NIL ''nil''"
definition TYPE_UNKNOWN :: gray_type where "TYPE_UNKNOWN = plain_type TYPE_KIND_UNKNOWN ''unknown''"
definition TYPE_LITERAL_INTEGER :: gray_type where
  "TYPE_LITERAL_INTEGER = plain_type TYPE_KIND_LITERAL ''integer literal''"
definition TYPE_LITERAL_DECIMAL :: gray_type where
  "TYPE_LITERAL_DECIMAL = (plain_type TYPE_KIND_LITERAL ''decimal literal'')\<lparr>is_decimal := True\<rparr>"

subsection \<open>Conversions\<close>

datatype Conversion =
    CONVERSION_SAME | CONVERSION_WIDEN | CONVERSION_NARROW | CONVERSION_SIGN_CROSS | CONVERSION_MISMATCH

definition number_width :: "string \<Rightarrow> nat" where
  "number_width name =
     (if name = [] \<or> hd name \<notin> set ''iuf'' then 0
      else let digits = tl name
           in if digits = ''8'' then 8
              else if digits = ''16'' then 16
              else if digits = ''32'' then 32
              else if digits = ''64'' then 64
              else if digits = ''128'' then 128
              else if digits = ''256'' then 256
              else 0)"

definition type_kind_is_number :: "TypeKind \<Rightarrow> bool" where
  "type_kind_is_number kind \<longleftrightarrow>
     kind = TYPE_KIND_SIGNED_INTEGER \<or> kind = TYPE_KIND_UNSIGNED_INTEGER \<or> kind = TYPE_KIND_FLOATING_POINT"

definition type_same_distinct :: "gray_type \<Rightarrow> gray_type \<Rightarrow> bool" where
  "type_same_distinct left right \<longleftrightarrow>
     (case (distinct_name left, distinct_name right) of
        (Some l, Some r) \<Rightarrow> l = r
      | (None, None) \<Rightarrow> True
      | _ \<Rightarrow> False)"

text \<open>Two names that must both be there and be equal.\<close>

definition same_part :: "string option \<Rightarrow> string option \<Rightarrow> bool" where
  "same_part left right \<longleftrightarrow> left \<noteq> None \<and> left = right"

definition type_conversion :: "gray_type \<Rightarrow> gray_type \<Rightarrow> Conversion" where
  "type_conversion source target =
     (if \<not> type_same_distinct source target then CONVERSION_MISMATCH
      else if type_kind_is_number (type_kind source) \<and> type_kind_is_number (type_kind target)
      then if type_text source = type_text target then CONVERSION_SAME
        else let from_width = number_width (type_text source); to_width = number_width (type_text target)
             in if type_kind source = TYPE_KIND_FLOATING_POINT
                then if type_kind target \<noteq> TYPE_KIND_FLOATING_POINT then CONVERSION_MISMATCH
                     else if from_width < to_width then CONVERSION_WIDEN else CONVERSION_NARROW
                else if type_kind target = TYPE_KIND_FLOATING_POINT then CONVERSION_WIDEN
                else if to_width < from_width then CONVERSION_NARROW
                else if type_kind source = type_kind target then CONVERSION_WIDEN
                else if type_kind source = TYPE_KIND_UNSIGNED_INTEGER \<and> from_width < to_width then CONVERSION_WIDEN
                else CONVERSION_SIGN_CROSS
      else if type_kind source \<noteq> type_kind target then CONVERSION_MISMATCH
      else if type_kind source = TYPE_KIND_ARRAY
      then if same_part (element_type source) (element_type target) then CONVERSION_SAME else CONVERSION_MISMATCH
      else if type_kind source = TYPE_KIND_MAP
      then if same_part (key_type source) (key_type target) \<and> same_part (value_type source) (value_type target)
           then CONVERSION_SAME else CONVERSION_MISMATCH
      else if type_text source = type_text target then CONVERSION_SAME
      else CONVERSION_MISMATCH)"

subsection \<open>Binary operators\<close>

definition is_comparison :: "TokenType \<Rightarrow> bool" where
  "is_comparison operator \<longleftrightarrow> operator \<in> {Operator TOKEN_EQUAL, Operator TOKEN_NOT_EQUAL, Operator TOKEN_LESS_THAN,
     Operator TOKEN_GREATER_THAN, Operator TOKEN_LESS_THAN_OR_EQUAL, Operator TOKEN_GREATER_THAN_OR_EQUAL}"

definition is_shift :: "TokenType \<Rightarrow> bool" where
  "is_shift operator \<longleftrightarrow> operator = Keyword TOKEN_BIT_SHIFT_LEFT \<or> operator = Keyword TOKEN_BIT_SHIFT_RIGHT"

definition is_integers_only :: "TokenType \<Rightarrow> bool" where
  "is_integers_only operator \<longleftrightarrow>
     is_shift operator \<or> operator \<in> {Keyword TOKEN_BIT_AND, Keyword TOKEN_BIT_OR, Keyword TOKEN_BIT_XOR, Operator TOKEN_PERCENT}"

definition is_floating_operand :: "gray_type \<Rightarrow> bool" where
  "is_floating_operand t \<longleftrightarrow> type_kind t = TYPE_KIND_FLOATING_POINT \<or> (type_kind t = TYPE_KIND_LITERAL \<and> is_decimal t)"

definition type_binary_result :: "TokenType \<Rightarrow> gray_type \<Rightarrow> gray_type \<Rightarrow> gray_type option" where
  "type_binary_result operator left right =
     (let is_left_literal = (type_kind left = TYPE_KIND_LITERAL);
          is_right_literal = (type_kind right = TYPE_KIND_LITERAL)
      in if is_integers_only operator \<and> (is_floating_operand left \<or> is_floating_operand right) then None
         else if is_shift operator then Some (if is_left_literal then TYPE_LITERAL_INTEGER else left)
         else if is_left_literal \<and> is_right_literal
         then if is_comparison operator then Some TYPE_BOOL
              else Some (if is_floating_operand left \<or> is_floating_operand right then TYPE_LITERAL_DECIMAL else TYPE_LITERAL_INTEGER)
         else if is_left_literal \<or> is_right_literal
         then let typed = (if is_left_literal then right else left); literal = (if is_left_literal then left else right)
              in if is_decimal literal \<and> type_kind typed \<noteq> TYPE_KIND_FLOATING_POINT then None
                 else Some (if is_comparison operator then TYPE_BOOL else typed)
         else if \<not> type_same_distinct left right then None
         else let common = (if type_text left = type_text right then Some left
                            else if type_kind left = type_kind right
                            then Some (if number_width (type_text right) \<le> number_width (type_text left) then left else right)
                            else None)
              in case common of None \<Rightarrow> None | Some t \<Rightarrow> Some (if is_comparison operator then TYPE_BOOL else t))"

definition type_is_numeric :: "gray_type \<Rightarrow> bool" where
  "type_is_numeric t \<longleftrightarrow> type_kind t \<in> {TYPE_KIND_SIGNED_INTEGER, TYPE_KIND_UNSIGNED_INTEGER, TYPE_KIND_FLOATING_POINT, TYPE_KIND_CHAR}"

definition type_is_integer :: "gray_type \<Rightarrow> bool" where
  "type_is_integer t \<longleftrightarrow> type_kind t \<in> {TYPE_KIND_SIGNED_INTEGER, TYPE_KIND_UNSIGNED_INTEGER, TYPE_KIND_CHAR}"

subsection \<open>Names\<close>

text \<open>A rendered name fits a buffer of \<open>TYPE_NAME_MAX\<close> bytes.\<close>

definition TYPE_NAME_MAX :: nat where "TYPE_NAME_MAX = 128"

definition type_name_format :: "string \<Rightarrow> string" where
  "type_name_format rendered = take (TYPE_NAME_MAX - 1) rendered"

definition type_name :: "gray_type option \<Rightarrow> string" where
  "type_name type =
     (case type of
        None \<Rightarrow> ''unknown''
      | Some t \<Rightarrow>
          (case distinct_name t of
             Some name \<Rightarrow> name
           | None \<Rightarrow>
               if type_kind t = TYPE_KIND_POINTER then type_name_format (''^'' @ type_text t)
               else case (type_kind t, element_type t, key_type t, value_type t) of
                 (TYPE_KIND_ARRAY, Some element, _, _) \<Rightarrow> type_name_format (''['' @ element @ '']'')
               | (TYPE_KIND_MAP, _, Some key, Some elem_value) \<Rightarrow> type_name_format (''map['' @ key @ '':'' @ elem_value @ '']'')
               | _ \<Rightarrow> type_text t))"

definition is_unsigned_integer_type_name :: "string \<Rightarrow> bool" where
  "is_unsigned_integer_type_name name \<longleftrightarrow> name \<in> {''u8'', ''u16'', ''u32'', ''u64'', ''u128'', ''u256''}"

definition is_signed_integer_type_name :: "string \<Rightarrow> bool" where
  "is_signed_integer_type_name name \<longleftrightarrow> name \<in> {''i8'', ''i16'', ''i32'', ''i64'', ''i128'', ''i256''}"

definition is_integer_type_name :: "string \<Rightarrow> bool" where
  "is_integer_type_name name \<longleftrightarrow> is_signed_integer_type_name name \<or> is_unsigned_integer_type_name name"

definition is_wide_integer_type_name :: "string \<Rightarrow> bool" where
  "is_wide_integer_type_name name \<longleftrightarrow> name \<in> {''i128'', ''u128'', ''i256'', ''u256''}"

text \<open>A built-in name stands for a shared type, or for a pooled type of a kind and possibly another name.\<close>

datatype builtin_entry = Shared gray_type | Pooled_as TypeKind "string option"

definition builtin_types :: "(string \<times> builtin_entry) list" where
  "builtin_types =
     [(''Error'', Pooled_as TYPE_KIND_ERROR (Some ''Error'')), (''ErrorCode'', Pooled_as TYPE_KIND_ENUM (Some ''ErrorCode'')),
      (''bool'', Shared TYPE_BOOL), (''char'', Shared TYPE_CHAR),
      (''f32'', Pooled_as TYPE_KIND_FLOATING_POINT None), (''f64'', Shared TYPE_F64),
      (''func'', Pooled_as TYPE_KIND_FUNCTION (Some ''func'')),
      (''i128'', Pooled_as TYPE_KIND_SIGNED_INTEGER None), (''i16'', Pooled_as TYPE_KIND_SIGNED_INTEGER None),
      (''i256'', Pooled_as TYPE_KIND_SIGNED_INTEGER None), (''i32'', Pooled_as TYPE_KIND_SIGNED_INTEGER None),
      (''i64'', Shared TYPE_I64), (''i8'', Pooled_as TYPE_KIND_SIGNED_INTEGER None),
      (''nil'', Shared TYPE_NIL), (''string'', Shared TYPE_STRING),
      (''u128'', Pooled_as TYPE_KIND_UNSIGNED_INTEGER None), (''u16'', Pooled_as TYPE_KIND_UNSIGNED_INTEGER None),
      (''u256'', Pooled_as TYPE_KIND_UNSIGNED_INTEGER None), (''u32'', Pooled_as TYPE_KIND_UNSIGNED_INTEGER None),
      (''u64'', Shared TYPE_U64), (''u8'', Shared TYPE_U8), (''void'', Shared TYPE_VOID)]"

text \<open>What \<open>bsearch\<close> finds in the table, which is sorted by name (\<open>builtin_types_sorted\<close>).\<close>

definition find_builtin :: "string \<Rightarrow> builtin_entry option" where
  "find_builtin name = map_of builtin_types name"

lemma builtin_types_sorted: "sorted_wrt (<) (map fst builtin_types)"
  by code_simp

definition is_builtin_type_name :: "string option \<Rightarrow> bool" where
  "is_builtin_type_name name = (case name of None \<Rightarrow> False | Some n \<Rightarrow> find_builtin n \<noteq> None)"

subsection \<open>Lengths\<close>

record length_rule =
  rule_kind :: TypeKind
  rule_struct_name :: "string option"
  rule_label :: string
  rule_member :: "string option"
  rule_function :: "string option"

definition length_rules :: "length_rule list" where
  "length_rules =
     [\<lparr>rule_kind = TYPE_KIND_STRING, rule_struct_name = None, rule_label = ''string'', rule_member = Some ''len'', rule_function = None\<rparr>,
      \<lparr>rule_kind = TYPE_KIND_ARRAY, rule_struct_name = None, rule_label = ''array'', rule_member = Some ''len'', rule_function = None\<rparr>,
      \<lparr>rule_kind = TYPE_KIND_MAP, rule_struct_name = None, rule_label = ''map'', rule_member = Some ''count'', rule_function = None\<rparr>,
      \<lparr>rule_kind = TYPE_KIND_STRUCT, rule_struct_name = Some ''Channel'', rule_label = ''Channel'', rule_member = None,
       rule_function = Some ''gray_channels_len''\<rparr>,
      \<lparr>rule_kind = TYPE_KIND_STRUCT, rule_struct_name = Some ''Builder'', rule_label = ''Builder'', rule_member = None,
       rule_function = Some ''gray_strings_builder_len''\<rparr>,
      \<lparr>rule_kind = TYPE_KIND_RANGE, rule_struct_name = None, rule_label = ''range'', rule_member = None, rule_function = None\<rparr>]"

definition type_length_rule :: "gray_type \<Rightarrow> length_rule option" where
  "type_length_rule type =
     find (\<lambda>rule. rule_kind rule = type_kind type
       \<and> (rule_struct_name rule = None \<or> rule_struct_name rule = Some (type_text type))) length_rules"

end
