(* ===== verification/Type_Rules.thy ===== *)
theory Type_Rules
  imports Types
begin

text \<open>
  What the rules of \<open>Types\<close> mean for the values of the sized types: an implicit conversion keeps every
  value, and an operator takes its operands to a type that type_holds both.
\<close>

subsection \<open>Sized types\<close>

definition type_holds :: "gray_type \<Rightarrow> int \<Rightarrow> bool" where
  "type_holds t v \<longleftrightarrow>
     (if type_kind t = TYPE_KIND_SIGNED_INTEGER
      then - (2 ^ (number_width (type_text t) - 1)) \<le> v \<and> v < 2 ^ (number_width (type_text t) - 1)
      else 0 \<le> v \<and> v < 2 ^ number_width (type_text t))"

definition sized_integer :: "gray_type \<Rightarrow> bool" where
  "sized_integer t \<longleftrightarrow>
     type_kind t = TYPE_KIND_SIGNED_INTEGER \<and> is_signed_integer_type_name (type_text t)
     \<or> type_kind t = TYPE_KIND_UNSIGNED_INTEGER \<and> is_unsigned_integer_type_name (type_text t)"

definition sized_number :: "gray_type \<Rightarrow> bool" where
  "sized_number t \<longleftrightarrow> sized_integer t \<or> type_kind t = TYPE_KIND_FLOATING_POINT \<and> type_text t \<in> {''f32'', ''f64''}"

lemma number_width_names:
  "number_width ''i8'' = 8" "number_width ''i16'' = 16" "number_width ''i32'' = 32" "number_width ''i64'' = 64"
  "number_width ''i128'' = 128" "number_width ''i256'' = 256"
  "number_width ''u8'' = 8" "number_width ''u16'' = 16" "number_width ''u32'' = 32" "number_width ''u64'' = 64"
  "number_width ''u128'' = 128" "number_width ''u256'' = 256" "number_width ''f32'' = 32" "number_width ''f64'' = 64"
  by (simp_all add: number_width_def)

lemma sized_width:
  assumes "sized_number t"
  shows "number_width (type_text t) \<in> {8, 16, 32, 64, 128, 256}"
  using assms by (auto simp: sized_number_def sized_integer_def is_signed_integer_type_name_def is_unsigned_integer_type_name_def number_width_names)

text \<open>A kind has one name of each width.\<close>

lemma sized_same_name:
  assumes "sized_number s" "sized_number t" "type_kind s = type_kind t"
  shows "type_text s = type_text t \<longleftrightarrow> number_width (type_text s) = number_width (type_text t)"
  using assms
  by (auto simp: sized_number_def sized_integer_def is_signed_integer_type_name_def is_unsigned_integer_type_name_def number_width_names)

lemma sized_other_name:
  assumes "sized_number s" "sized_number t" "type_kind s \<noteq> type_kind t"
  shows "type_text s \<noteq> type_text t"
  using assms
  by (auto simp: sized_number_def sized_integer_def is_signed_integer_type_name_def is_unsigned_integer_type_name_def)

text \<open>One range is in another exactly when its ends are.\<close>

lemma signed_in_signed: "0 < (m :: nat) \<Longrightarrow> 0 < n \<Longrightarrow> (\<forall>v :: int. - (2 ^ (m - 1)) \<le> v \<and> v < 2 ^ (m - 1) \<longrightarrow> - (2 ^ (n - 1)) \<le> v \<and> v < 2 ^ (n - 1)) \<longleftrightarrow> m \<le> n"
proof
  assume *: "\<forall>v :: int. - (2 ^ (m - 1)) \<le> v \<and> v < 2 ^ (m - 1) \<longrightarrow> - (2 ^ (n - 1)) \<le> v \<and> v < 2 ^ (n - 1)" and mn: "0 < m" "0 < n"
  have "(0 :: int) < 2 ^ (m - 1)" by simp
  then have "- (2 ^ (n - 1)) \<le> - (2 ^ (m - 1) :: int)" using spec [OF *, of "- (2 ^ (m - 1))"] by linarith
  then show "m \<le> n" using mn by (simp add: power_increasing_iff)
next
  assume "m \<le> n"
  then have "(2 :: int) ^ (m - 1) \<le> 2 ^ (n - 1)" by (intro power_increasing) simp_all
  then show "\<forall>v :: int. - (2 ^ (m - 1)) \<le> v \<and> v < 2 ^ (m - 1) \<longrightarrow> - (2 ^ (n - 1)) \<le> v \<and> v < 2 ^ (n - 1)" by (smt (verit))
qed

lemma unsigned_in_unsigned: "(\<forall>v :: int. 0 \<le> v \<and> v < 2 ^ m \<longrightarrow> 0 \<le> v \<and> v < 2 ^ n) \<longleftrightarrow> m \<le> (n :: nat)"
proof
  assume *: "\<forall>v :: int. 0 \<le> v \<and> v < 2 ^ m \<longrightarrow> 0 \<le> v \<and> v < 2 ^ n"
  have "(0 :: int) < 2 ^ m" by simp
  then have "(2 :: int) ^ m \<le> 2 ^ n" using spec [OF *, of "2 ^ m - 1"] by linarith
  then show "m \<le> n" by simp
next
  assume "m \<le> n"
  then have "(2 :: int) ^ m \<le> 2 ^ n" by (intro power_increasing) simp_all
  then show "\<forall>v :: int. 0 \<le> v \<and> v < 2 ^ m \<longrightarrow> 0 \<le> v \<and> v < 2 ^ n" by (smt (verit))
qed

lemma unsigned_in_signed: "0 < (n :: nat) \<Longrightarrow> (\<forall>v :: int. 0 \<le> v \<and> v < 2 ^ m \<longrightarrow> - (2 ^ (n - 1)) \<le> v \<and> v < 2 ^ (n - 1)) \<longleftrightarrow> m < n"
proof
  assume *: "\<forall>v :: int. 0 \<le> v \<and> v < 2 ^ m \<longrightarrow> - (2 ^ (n - 1)) \<le> v \<and> v < 2 ^ (n - 1)" and n: "0 < n"
  have "(0 :: int) < 2 ^ m" by simp
  then have "(2 :: int) ^ m \<le> 2 ^ (n - 1)" using spec [OF *, of "2 ^ m - 1"] by linarith
  then have "m \<le> n - 1" by simp
  then show "m < n" using n by simp
next
  assume "m < n"
  then have "m \<le> n - 1" by simp
  then have "(2 :: int) ^ m \<le> 2 ^ (n - 1)" by (intro power_increasing) simp_all
  then show "\<forall>v :: int. 0 \<le> v \<and> v < 2 ^ m \<longrightarrow> - (2 ^ (n - 1)) \<le> v \<and> v < 2 ^ (n - 1)" by (smt (verit) zero_le_power)
qed

lemma signed_not_in_unsigned: "\<not> (\<forall>v :: int. - (2 ^ k) \<le> v \<and> v < 2 ^ k \<longrightarrow> 0 \<le> v \<and> v < 2 ^ n)"
proof -
  have "- (2 ^ k) \<le> (- 1 :: int) \<and> (- 1 :: int) < 2 ^ k" using zero_less_power [of "2 :: int" k] by linarith
  then show ?thesis by (metis neg_0_le_iff_le not_one_le_zero)
qed

lemma holds_subset:
  assumes "sized_integer s" "sized_integer t"
  shows "(\<forall>v. type_holds s v \<longrightarrow> type_holds t v) \<longleftrightarrow>
    (if type_kind s = type_kind t then number_width (type_text s) \<le> number_width (type_text t)
     else type_kind s = TYPE_KIND_UNSIGNED_INTEGER \<and> number_width (type_text s) < number_width (type_text t))"
proof -
  have pos: "0 < number_width (type_text s)" "0 < number_width (type_text t)"
    using sized_width [of s] sized_width [of t] assms by (auto simp: sized_number_def)
  have "type_kind s = TYPE_KIND_SIGNED_INTEGER \<or> type_kind s = TYPE_KIND_UNSIGNED_INTEGER"
    "type_kind t = TYPE_KIND_SIGNED_INTEGER \<or> type_kind t = TYPE_KIND_UNSIGNED_INTEGER"
    using assms by (auto simp: sized_integer_def)
  then show ?thesis
    by (elim disjE) (simp_all only: type_holds_def signed_in_signed [OF pos] unsigned_in_unsigned unsigned_in_signed [OF pos(2)]
        signed_not_in_unsigned TypeKind.distinct if_True if_False simp_thms)
qed

subsection \<open>Conversions and operators\<close>

lemma type_conversion_integers:
  assumes "sized_integer s" "sized_integer t" "type_same_distinct s t"
  shows "type_conversion s t =
    (if type_text s = type_text t then CONVERSION_SAME
     else if number_width (type_text t) < number_width (type_text s) then CONVERSION_NARROW
     else if type_kind s = type_kind t then CONVERSION_WIDEN
     else if type_kind s = TYPE_KIND_UNSIGNED_INTEGER \<and> number_width (type_text s) < number_width (type_text t) then CONVERSION_WIDEN
     else CONVERSION_SIGN_CROSS)"
proof -
  have "type_kind_is_number (type_kind s)" "type_kind_is_number (type_kind t)"
    "type_kind s \<noteq> TYPE_KIND_FLOATING_POINT" "type_kind t \<noteq> TYPE_KIND_FLOATING_POINT"
    using assms(1,2) by (auto simp: sized_integer_def type_kind_is_number_def)
  then show ?thesis unfolding type_conversion_def Let_def using assms(3) by simp
qed

text \<open>An implicit conversion between integer types is one that keeps every value.\<close>

lemma conversion_keeps_values:
  assumes "sized_integer s" "sized_integer t" "type_same_distinct s t"
  shows "type_conversion s t \<in> {CONVERSION_SAME, CONVERSION_WIDEN} \<longleftrightarrow> (\<forall>v. type_holds s v \<longrightarrow> type_holds t v)"
proof -
  have sized: "sized_number s" "sized_number t" using assms(1,2) by (simp_all add: sized_number_def)
  show ?thesis unfolding holds_subset [OF assms(1,2)] type_conversion_integers [OF assms]
    using sized_same_name [OF sized] sized_other_name [OF sized] by (cases "type_kind s = type_kind t") auto
qed

text \<open>The other conversions: a narrower type, or a change of sign.\<close>

lemma conversion_refused:
  assumes "sized_integer s" "sized_integer t" "type_same_distinct s t" "\<not> (\<forall>v. type_holds s v \<longrightarrow> type_holds t v)"
  shows "type_conversion s t = (if number_width (type_text t) < number_width (type_text s) then CONVERSION_NARROW else CONVERSION_SIGN_CROSS)"
proof -
  have sized: "sized_number s" "sized_number t" using assms(1,2) by (simp_all add: sized_number_def)
  show ?thesis using assms(4) unfolding holds_subset [OF assms(1,2)] type_conversion_integers [OF assms(1-3)]
    using sized_same_name [OF sized] sized_other_name [OF sized] by (cases "type_kind s = type_kind t") auto
qed

lemma type_conversion_value:
  assumes "sized_integer s" "sized_integer t" "type_same_distinct s t"
  shows "type_conversion s t =
    (if {v. type_holds s v} \<subseteq> {v. type_holds t v}
     then if type_text s = type_text t then CONVERSION_SAME else CONVERSION_WIDEN
     else if number_width (type_text t) < number_width (type_text s) then CONVERSION_NARROW else CONVERSION_SIGN_CROSS)"
proof (cases "\<forall>v. type_holds s v \<longrightarrow> type_holds t v")
  case True
  then have "{v. type_holds s v} \<subseteq> {v. type_holds t v}" by blast
  moreover have "type_conversion s t = (if type_text s = type_text t then CONVERSION_SAME else CONVERSION_WIDEN)"
    using True conversion_keeps_values [OF assms] unfolding type_conversion_integers [OF assms] by (auto split: if_splits)
  ultimately show ?thesis by simp
next
  case False
  then have "\<not> {v. type_holds s v} \<subseteq> {v. type_holds t v}" by blast
  then show ?thesis using conversion_refused [OF assms False] by simp
qed

lemma sized_not_literal: "sized_number t \<Longrightarrow> type_kind t \<noteq> TYPE_KIND_LITERAL \<and> type_kind_is_number (type_kind t)"
  by (auto simp: sized_number_def sized_integer_def type_kind_is_number_def)

lemma type_conversion_same_kind:
  assumes "sized_number s" "sized_number t" "type_same_distinct s t" "type_kind s = type_kind t"
  shows "type_conversion s t \<in> {CONVERSION_SAME, CONVERSION_WIDEN} \<longleftrightarrow> number_width (type_text s) \<le> number_width (type_text t)"
proof -
  have num: "type_kind_is_number (type_kind s)" "type_kind_is_number (type_kind t)"
    using sized_not_literal [OF assms(1)] sized_not_literal [OF assms(2)] by auto
  show ?thesis
  proof (cases "type_text s = type_text t")
    case True
    then have "type_conversion s t = CONVERSION_SAME" unfolding type_conversion_def using num assms(3) by simp
    then show ?thesis using True by simp
  next
    case False
    then have "number_width (type_text s) \<noteq> number_width (type_text t)" using sized_same_name [OF assms(1,2,4)] by simp
    moreover have "type_conversion s t = (if number_width (type_text s) < number_width (type_text t) then CONVERSION_WIDEN else CONVERSION_NARROW)"
      if "number_width (type_text s) \<noteq> number_width (type_text t)"
      unfolding type_conversion_def Let_def using num assms(3) False that assms(4) [symmetric] by simp
    ultimately show ?thesis by simp
  qed
qed

lemma type_binary_result_sized:
  assumes "sized_number l" "sized_number r" "\<not> is_shift operator"
  shows "type_binary_result operator l r =
    (if is_integers_only operator \<and> (type_kind l = TYPE_KIND_FLOATING_POINT \<or> type_kind r = TYPE_KIND_FLOATING_POINT)
        \<or> \<not> type_same_distinct l r \<or> type_kind l \<noteq> type_kind r then None
     else Some (if is_comparison operator then TYPE_BOOL
                else if number_width (type_text r) \<le> number_width (type_text l) then l else r))"
proof -
  have lit: "type_kind l \<noteq> TYPE_KIND_LITERAL" "type_kind r \<noteq> TYPE_KIND_LITERAL"
    using sized_not_literal [OF assms(1)] sized_not_literal [OF assms(2)] by auto
  show ?thesis
  proof (cases "type_kind l = type_kind r")
    case True
    then show ?thesis using sized_same_name [OF assms(1,2) True]
      by (simp add: type_binary_result_def Let_def lit assms(3) is_floating_operand_def)
  next
    case False
    then show ?thesis using sized_other_name [OF assms(1,2) False]
      by (simp add: type_binary_result_def Let_def lit assms(3) is_floating_operand_def)
  qed
qed

text \<open>An operator on two sized numbers takes both to its result without losing a value of either.\<close>

lemma binary_result_converts:
  assumes "sized_number l" "sized_number r" "\<not> is_shift operator"
    and "type_binary_result operator l r = Some t"
  shows "is_comparison operator \<and> t = TYPE_BOOL
    \<or> \<not> is_comparison operator \<and> (t = l \<or> t = r)
      \<and> type_conversion l t \<in> {CONVERSION_SAME, CONVERSION_WIDEN} \<and> type_conversion r t \<in> {CONVERSION_SAME, CONVERSION_WIDEN}"
proof -
  have rule: "type_same_distinct l r" "type_kind l = type_kind r"
    "t = (if is_comparison operator then TYPE_BOOL
      else if number_width (type_text r) \<le> number_width (type_text l) then l else r)"
    using assms(4) unfolding type_binary_result_sized [OF assms(1-3)] by (simp_all split: if_splits)
  have dist: "type_same_distinct r l" "type_same_distinct l l" "type_same_distinct r r"
    using rule(1) by (auto simp: type_same_distinct_def split: option.splits)
  note keeps = type_conversion_same_kind [OF assms(1,2) rule(1,2)] type_conversion_same_kind [OF assms(2,1) dist(1) rule(2) [symmetric]]
    type_conversion_same_kind [OF assms(1,1) dist(2) refl] type_conversion_same_kind [OF assms(2,2) dist(3) refl]
  show ?thesis
  proof (cases "is_comparison operator")
    case False
    have "t = l \<and> number_width (type_text r) \<le> number_width (type_text l) \<or> t = r \<and> number_width (type_text l) \<le> number_width (type_text r)"
      using rule(3) False by auto
    then show ?thesis using False keeps by blast
  qed (simp add: rule(3))
qed

text \<open>
  When an operator has a result. The operators are written out, so that the sets of the code are compared
  with these.
\<close>

definition is_bitwise :: "TokenType \<Rightarrow> bool" where
  "is_bitwise operator \<longleftrightarrow> operator \<in> {Keyword TOKEN_BIT_AND, Keyword TOKEN_BIT_OR, Keyword TOKEN_BIT_XOR, Operator TOKEN_PERCENT}"

lemma operator_kinds:
  "is_shift operator \<longleftrightarrow> operator \<in> {Keyword TOKEN_BIT_SHIFT_LEFT, Keyword TOKEN_BIT_SHIFT_RIGHT}"
  "is_bitwise operator \<longleftrightarrow> operator \<in> {Keyword TOKEN_BIT_AND, Keyword TOKEN_BIT_OR, Keyword TOKEN_BIT_XOR, Operator TOKEN_PERCENT}"
  "is_comparison operator \<longleftrightarrow> operator \<in> {Operator TOKEN_EQUAL, Operator TOKEN_NOT_EQUAL, Operator TOKEN_LESS_THAN,
     Operator TOKEN_GREATER_THAN, Operator TOKEN_LESS_THAN_OR_EQUAL, Operator TOKEN_GREATER_THAN_OR_EQUAL}"
  unfolding is_shift_def is_bitwise_def is_comparison_def by blast+

lemma shift_result:
  assumes "sized_number l" "sized_number r" "is_shift operator"
  shows "type_binary_result operator l r =
    (if type_kind l = TYPE_KIND_FLOATING_POINT \<or> type_kind r = TYPE_KIND_FLOATING_POINT then None else Some l)"
  using sized_not_literal [OF assms(1)] sized_not_literal [OF assms(2)] assms(3)
  by (simp add: type_binary_result_def is_floating_operand_def is_integers_only_def)

lemma binary_result_exists:
  assumes "sized_number l" "sized_number r"
  shows "type_binary_result operator l r = None \<longleftrightarrow>
    (if is_shift operator then type_kind l = TYPE_KIND_FLOATING_POINT \<or> type_kind r = TYPE_KIND_FLOATING_POINT
     else \<not> type_same_distinct l r \<or> type_kind l \<noteq> type_kind r \<or> is_integers_only operator \<and> type_kind l = TYPE_KIND_FLOATING_POINT)"
  using shift_result [OF assms] type_binary_result_sized [OF assms] by (cases "is_shift operator") auto

lemma binary_result_rule:
  assumes "sized_number l" "sized_number r"
  shows "(type_binary_result operator l r = None \<longleftrightarrow>
      (if is_shift operator then type_kind l = TYPE_KIND_FLOATING_POINT \<or> type_kind r = TYPE_KIND_FLOATING_POINT
       else distinct_name l \<noteq> distinct_name r \<or> type_kind l \<noteq> type_kind r \<or> is_bitwise operator \<and> type_kind l = TYPE_KIND_FLOATING_POINT))
    \<and> (\<forall>t. type_binary_result operator l r = Some t \<longrightarrow>
        (if is_shift operator then t = l else if is_comparison operator then t = TYPE_BOOL
         else (t = l \<or> t = r) \<and> type_conversion l t \<in> {CONVERSION_SAME, CONVERSION_WIDEN}
           \<and> type_conversion r t \<in> {CONVERSION_SAME, CONVERSION_WIDEN}))"
proof -
  have distinct: "type_same_distinct l r \<longleftrightarrow> distinct_name l = distinct_name r"
    by (auto simp: type_same_distinct_def split: option.splits)
  have only: "is_integers_only operator \<longleftrightarrow> is_shift operator \<or> is_bitwise operator"
    by (simp add: is_integers_only_def is_bitwise_def)
  show ?thesis
  proof (cases "is_shift operator")
    case True
    then show ?thesis using shift_result [OF assms True] by simp
  next
    case False
    then show ?thesis using binary_result_exists [OF assms, of operator] binary_result_converts [OF assms False]
      unfolding distinct only by auto
  qed
qed

text \<open>Exchanging the operands gives a type of the same name.\<close>

lemma binary_result_commutes:
  assumes "\<not> is_shift operator" "sized_number l \<or> type_kind l = TYPE_KIND_LITERAL" "sized_number r \<or> type_kind r = TYPE_KIND_LITERAL"
  shows "map_option type_text (type_binary_result operator l r) = map_option type_text (type_binary_result operator r l)"
proof -
  have d: "type_same_distinct l r \<longleftrightarrow> type_same_distinct r l" by (auto simp: type_same_distinct_def split: option.splits)
  show ?thesis
  proof (cases "type_kind l = TYPE_KIND_LITERAL \<or> type_kind r = TYPE_KIND_LITERAL")
    case True
    then show ?thesis using assms(1) by (auto simp: type_binary_result_def Let_def is_floating_operand_def)
  next
    case False
    then have s: "sized_number l" "sized_number r" using assms(2,3) by auto
    show ?thesis
    proof (cases "type_kind l = type_kind r")
      case True
      then show ?thesis unfolding type_binary_result_sized [OF s assms(1)] type_binary_result_sized [OF s(2,1) assms(1)] d
        using sized_same_name [OF s True] by auto
    next
      case False
      then show ?thesis unfolding type_binary_result_sized [OF s assms(1)] type_binary_result_sized [OF s(2,1) assms(1)] by auto
    qed
  qed
qed

end
