(* ===== verification/Name_Index.thy ===== *)
theory Name_Index
  imports Probing Interfaces
begin

text \<open>
  The index of names the typechecker keeps beside a dense array, in \<open>typechecker/scope.c\<close> and three times
  in \<open>typechecker/module_table.c\<close>: an open-addressing table from a name to its place in the array. No
  table is \<open>None\<close>; a free slot of a table is one whose name is null.
\<close>

subsection \<open>Hashing\<close>

definition scope_string_hash :: "string \<Rightarrow> u32" where
  "scope_string_hash text =
     (let hash = fold (\<lambda>cursor hash. (hash * 33) XOR of_char cursor) text 5381;
          hash = hash XOR drop_bit 16 hash;
          hash = hash * 0x7feb352d;
          hash = hash XOR drop_bit 15 hash;
          hash = hash * 0x846ca68b
      in hash XOR drop_bit 16 hash)"

subsection \<open>The table\<close>

type_synonym name_index = "(string, nat) probe_table option"

definition index_capacity :: "name_index \<Rightarrow> nat" where
  "index_capacity hash = (case hash of None \<Rightarrow> 0 | Some table \<Rightarrow> length table)"

text \<open>\<open>while (new_count * 2 > capacity) capacity *= 2\<close>\<close>

partial_function (option) capacity_loop :: "nat \<Rightarrow> nat \<Rightarrow> nat option" where
  "capacity_loop new_count capacity =
     (if capacity < new_count * 2 then capacity_loop new_count (capacity * 2) else Some capacity)"

definition MODULE_HASH_INITIAL_CAPACITY :: nat where "MODULE_HASH_INITIAL_CAPACITY = 16"

definition hash_target_capacity :: "nat \<Rightarrow> nat \<Rightarrow> nat option" where
  "hash_target_capacity current_capacity new_count =
     capacity_loop new_count (if current_capacity \<noteq> 0 then current_capacity else MODULE_HASH_INITIAL_CAPACITY)"

definition hash_place :: "(string, nat) probe_table \<Rightarrow> string \<Rightarrow> nat \<Rightarrow> (string, nat) probe_table option" where
  "hash_place table name index = probe_place table name index (probe_slots (length table) (scope_string_hash name))"

text \<open>The index of a name or \<open>None\<close> for the \<open>-1\<close> of the source, when the search ends.\<close>

definition hash_find :: "name_index \<Rightarrow> string \<Rightarrow> nat option option" where
  "hash_find hash name =
     (case hash of
        None \<Rightarrow> Some None
      | Some table \<Rightarrow> probe_find table name (probe_slots (length table) (scope_string_hash name)))"

text \<open>A new table of some capacity with the names of the array, in their order.\<close>

definition hash_rebuild :: "nat \<Rightarrow> string list \<Rightarrow> (string, nat) probe_table option" where
  "hash_rebuild capacity names = place_all scope_string_hash (replicate capacity None) (zip names [0..<length names])"

text \<open>Adding one more name, after growing to a capacity when the table would be more than half full.\<close>

definition index_grow :: "(nat \<Rightarrow> nat \<Rightarrow> nat option) \<Rightarrow> name_index \<Rightarrow> string list \<Rightarrow> (string, nat) probe_table option" where
  "index_grow target_capacity hash names =
     (let new_count = length names + 1;
          grown = (\<lambda>current. Option.bind (target_capacity current new_count) (\<lambda>capacity. hash_rebuild capacity names))
      in case hash of
           None \<Rightarrow> grown 0
         | Some table \<Rightarrow> if length table < new_count * 2 then grown (length table) else Some table)"

definition index_add :: "(nat \<Rightarrow> nat \<Rightarrow> nat option) \<Rightarrow> name_index \<Rightarrow> string list \<Rightarrow> string \<Rightarrow> name_index option" where
  "index_add target_capacity hash names name =
     (case index_grow target_capacity hash names of
        None \<Rightarrow> None
      | Some table \<Rightarrow> map_option Some (hash_place table name (length names)))"

subsection \<open>The invariant\<close>

definition index_ok :: "name_index \<Rightarrow> string list \<Rightarrow> bool" where
  "index_ok hash names \<longleftrightarrow>
     (case hash of
        None \<Rightarrow> names = []
      | Some table \<Rightarrow> length names * 2 \<le> length table
          \<and> table_lists scope_string_hash table (zip names [0..<length names]))"

text \<open>The capacity a table grows to is a power of two with room for twice the names.\<close>

definition target_ok :: "(nat \<Rightarrow> nat \<Rightarrow> nat option) \<Rightarrow> bool" where
  "target_ok target_capacity \<longleftrightarrow>
     (\<forall>current needed. (current = 0 \<or> capacity_ok current) \<and> needed * 2 \<le> current + 2 \<longrightarrow>
        (\<exists>capacity. target_capacity current needed = Some capacity \<and> capacity_ok capacity \<and> needed * 2 \<le> capacity))"

lemma capacity_loop_room [simp]: "needed * 2 \<le> capacity \<Longrightarrow> capacity_loop needed capacity = Some capacity"
  by (subst capacity_loop.simps) simp

lemma capacity_loop_double: "needed * 2 \<le> capacity * 2 \<Longrightarrow> \<not> needed * 2 \<le> capacity \<Longrightarrow> capacity_loop needed capacity = Some (capacity * 2)"
  by (subst capacity_loop.simps) simp

lemma capacity_ok_16: "capacity_ok 16"
  unfolding capacity_ok_def by (intro exI [of _ 4]) simp

lemma hash_target: "target_ok hash_target_capacity"
  unfolding target_ok_def
proof (intro allI impI)
  fix current needed :: nat
  assume *: "(current = 0 \<or> capacity_ok current) \<and> needed * 2 \<le> current + 2"
  show "\<exists>capacity. hash_target_capacity current needed = Some capacity \<and> capacity_ok capacity \<and> needed * 2 \<le> capacity"
  proof (cases "current = 0")
    case True
    then show ?thesis using * capacity_ok_16 by (simp add: hash_target_capacity_def MODULE_HASH_INITIAL_CAPACITY_def)
  next
    case False
    then have c: "capacity_ok current" using * by simp
    then have "8 \<le> current" by (rule capacity_okD)
    then show ?thesis using * c False capacity_ok_double [OF c]
      by (cases "needed * 2 \<le> current") (simp_all add: hash_target_capacity_def capacity_loop_double)
  qed
qed

lemma index_ok_empty: "index_ok None []"
  by (simp add: index_ok_def)

lemma index_distinct: "index_ok hash names \<Longrightarrow> distinct names"
  by (auto simp: index_ok_def table_lists_def split: option.splits)

lemma hash_find_value:
  assumes "index_ok hash names"
  shows "hash_find hash name = Some (map_of (zip names [0..<length names]) name)"
proof (cases hash)
  case None
  then show ?thesis using assms by (simp add: index_ok_def hash_find_def)
next
  case (Some table)
  then have t: "length names * 2 \<le> length table" "table_lists scope_string_hash table (zip names [0..<length names])"
    using assms by (simp_all add: index_ok_def)
  have "0 < length table" using t(2) by (auto simp: table_lists_def dest: capacity_okD)
  then have "length (zip names [0..<length names]) < length table" using t(1) by (cases names) simp_all
  then show ?thesis unfolding hash_find_def Some option.case by (rule probe_find_value [OF t(2)])
qed

lemma hash_rebuild_value:
  assumes "distinct names" "capacity_ok capacity" "length names \<le> capacity"
  obtains table where "hash_rebuild capacity names = Some table" "length table = capacity"
    "table_lists scope_string_hash table (zip names [0..<length names])"
proof -
  have "\<exists>table'. place_all scope_string_hash (replicate capacity None) (zip names [0..<length names]) = Some table'
      \<and> length table' = length (replicate capacity (None :: (string \<times> nat) option))
      \<and> table_lists scope_string_hash table' ([] @ zip names [0..<length names])"
    by (rule place_all_value [OF table_lists_empty [OF assms(2)]]) (use assms in simp_all)
  then show ?thesis using that unfolding hash_rebuild_def by auto
qed

text \<open>A new name is found at the end of the array, the others where they were.\<close>

lemma rebuild_target:
  assumes "distinct names" "target_ok target_capacity" "current = 0 \<or> capacity_ok current" "length names * 2 \<le> current"
  shows "\<exists>table. Option.bind (target_capacity current (length names + 1)) (\<lambda>capacity. hash_rebuild capacity names) = Some table
    \<and> (length names + 1) * 2 \<le> length table \<and> table_lists scope_string_hash table (zip names [0..<length names])"
proof -
  have "(length names + 1) * 2 \<le> current + 2" using assms(4) by simp
  then obtain capacity where c: "target_capacity current (length names + 1) = Some capacity" "capacity_ok capacity" "(length names + 1) * 2 \<le> capacity"
    using assms(2,3) unfolding target_ok_def by blast
  have "length names \<le> capacity" using c(3) by simp
  from hash_rebuild_value [OF assms(1) c(2) this] obtain table where
    "hash_rebuild capacity names = Some table" "length table = capacity" "table_lists scope_string_hash table (zip names [0..<length names])" .
  then show ?thesis using c by simp
qed

lemma hash_place_value:
  assumes "table_lists scope_string_hash table (zip names [0..<length names])" "(length names + 1) * 2 \<le> length table" "name \<notin> set names"
  shows "\<exists>table'. hash_place table name (length names) = Some table' \<and> index_ok (Some table') (names @ [name])"
proof -
  have "length (zip names [0..<length names]) < length table" "name \<notin> fst ` set (zip names [0..<length names])"
    using assms(2,3) by (auto dest: set_zip_leftD)
  from probe_place_value [OF assms(1) this, of "length names"]
  obtain table' where table': "hash_place table name (length names) = Some table'"
    "length table' = length table" "table_lists scope_string_hash table' (zip names [0..<length names] @ [(name, length names)])"
    unfolding hash_place_def by blast
  have "zip (names @ [name]) [0..<length (names @ [name])] = zip names [0..<length names] @ [(name, length names)]" by simp
  then show ?thesis using table' assms(2) by (simp add: index_ok_def)
qed

lemma index_add_value:
  assumes ok: "index_ok hash names" and t: "target_ok target_capacity" and new: "name \<notin> set names"
  shows "\<exists>hash'. index_add target_capacity hash names name = Some hash' \<and> index_ok hash' (names @ [name])"
proof -
  note dist = index_distinct [OF ok]
  have "\<exists>table. index_grow target_capacity hash names = Some table
    \<and> (length names + 1) * 2 \<le> length table \<and> table_lists scope_string_hash table (zip names [0..<length names])"
  proof (cases hash)
    case None
    then have "length names * 2 \<le> 0" using ok by (simp add: index_ok_def)
    from rebuild_target [OF dist t _ this] show ?thesis unfolding index_grow_def None Let_def by simp
  next
    case (Some table)
    then have tab: "length names * 2 \<le> length table" "table_lists scope_string_hash table (zip names [0..<length names])"
      using ok by (simp_all add: index_ok_def)
    have "capacity_ok (length table)" "length names * 2 \<le> length table" using tab by (simp_all add: table_lists_def)
    from rebuild_target [OF dist t disjI2 [OF this(1)] this(2)] tab(2) show ?thesis
      unfolding index_grow_def Some Let_def by (cases "length table < (length names + 1) * 2") simp_all
  qed
  then show ?thesis using hash_place_value [OF _ _ new] unfolding index_add_def by force
qed

text \<open>Reading an array through its index finds the element of the name.\<close>

lemma map_of_zip_upt:
  "map_of (zip names [k..<k + length names]) name =
     (if name \<in> set names then Some (k + length (takeWhile (\<lambda>n. n \<noteq> name) names)) else None)"
proof (induction names arbitrary: k)
  case (Cons n names)
  have "[k..<k + length (n # names)] = k # [Suc k..<Suc k + length names]" using upt_rec [of k "k + length (n # names)"] by simp
  then show ?case using Cons.IH [of "Suc k"] by auto
qed simp

lemma find_takeWhile:
  "find P xs = (if list_ex P xs then Some (xs ! length (takeWhile (\<lambda>x. \<not> P x) xs)) else None)"
  by (induction xs) auto

definition index_of :: "string list \<Rightarrow> string \<Rightarrow> nat option" where
  "index_of names name = (if name \<in> set names then Some (length (takeWhile (\<lambda>n. n \<noteq> name) names)) else None)"

lemma index_find: "index_ok hash names \<Longrightarrow> hash_find hash name = Some (index_of names name)"
  using map_of_zip_upt [of names 0 name] by (simp add: hash_find_value index_of_def)

lemma index_of_nth: "map_option (nth xs) (index_of (map f xs) name) = find (\<lambda>x. f x = name) xs"
  by (auto simp: index_of_def find_takeWhile takeWhile_map o_def list_ex_iff)

lemma takeWhile_found: "name \<in> set names \<Longrightarrow>
    length (takeWhile (\<lambda>n. n \<noteq> name) names) < length names \<and> names ! length (takeWhile (\<lambda>n. n \<noteq> name) names) = name"
  by (induction names) auto

lemma index_of_bound: "index_of names name = Some i \<Longrightarrow> i < length names \<and> names ! i = name"
  using takeWhile_found [of name names] by (auto simp: index_of_def split: if_splits)

lemma index_of_None: "index_of names name = None \<longleftrightarrow> name \<notin> set names"
  by (simp add: index_of_def)

lemma index_of_append: "name \<notin> set names \<Longrightarrow> index_of (names @ [name]) x = (if x = name then Some (length names) else index_of names x)"
proof -
  assume "name \<notin> set names"
  then have "takeWhile (\<lambda>n. n \<noteq> name) (names @ [name]) = names" by (subst takeWhile_append2) auto
  then show ?thesis by (auto simp: index_of_def)
qed

end
