(* ===== verification/Scopes.thy ===== *)
theory Scopes
  imports Name_Index Types
begin

text \<open>
  Lexical scopes and their symbols (\<open>typechecker/scope.h\<close>, \<open>scope.c\<close>). A scope is a value; a chain of
  scopes is the list from the innermost one to the root. A pointer to a syntax node is of a type
  \<open>'node\<close> that the scopes never look into.
\<close>

subsection \<open>Data\<close>

record 'node symbol =
  symbol_name :: string
  symbol_type :: gray_type
  declared_type :: "string option"
  is_mutable :: bool
  is_reference :: bool
  is_const_source :: bool
  is_heap :: bool
  c_call :: "'node option"
  origin_depth :: int
  origin_name :: "string option"
  field_origin_depth :: int
  field_origin_name :: "string option"
  mem_arena :: "string option"
  mem_epoch :: int
  field_mem_arena :: "string option"
  field_mem_epoch :: int
  arena_identifier :: "string option"
  was_used :: bool
  definition_line :: int
  definition_column :: int
  parameter_line :: int
  binding_line :: int
  symbol_return_types :: "gray_type list"
  are_return_types_owned :: bool
  function_reference_name :: "string option"

record 'node scope =
  scope_depth :: nat
  scope_symbols :: "'node symbol list"
  scope_capacity :: nat
  scope_hash :: name_index

definition SCOPE_INITIAL_CAPACITY :: nat where "SCOPE_INITIAL_CAPACITY = 8"

text \<open>A zeroed symbol with a name, a type and its mutability.\<close>

definition fresh_symbol :: "string \<Rightarrow> gray_type \<Rightarrow> bool \<Rightarrow> 'node symbol" where
  "fresh_symbol name type mutable =
     \<lparr>symbol_name = name, symbol_type = type, declared_type = None, is_mutable = mutable, is_reference = False,
      is_const_source = False, is_heap = False, c_call = None, origin_depth = 0, origin_name = None,
      field_origin_depth = 0, field_origin_name = None, mem_arena = None, mem_epoch = 0, field_mem_arena = None,
      field_mem_epoch = 0, arena_identifier = None, was_used = False, definition_line = 0, definition_column = 0,
      parameter_line = 0, binding_line = 0, symbol_return_types = [], are_return_types_owned = False,
      function_reference_name = None\<rparr>"

subsection \<open>Operations\<close>

definition scope_create :: "'node scope option \<Rightarrow> 'node scope" where
  "scope_create parent =
     \<lparr>scope_depth = (case parent of None \<Rightarrow> 0 | Some p \<Rightarrow> scope_depth p + 1), scope_symbols = [], scope_capacity = 0,
      scope_hash = None\<rparr>"

definition scope_target_capacity :: "nat \<Rightarrow> nat \<Rightarrow> nat option" where
  "scope_target_capacity hash_capacity new_count =
     capacity_loop new_count (if hash_capacity \<noteq> 0 then hash_capacity * 2 else 16)"

definition scope_lookup_local :: "'node scope \<Rightarrow> string \<Rightarrow> nat option option" where
  "scope_lookup_local s name = hash_find (scope_hash s) name"

definition scope_define :: "'node scope \<Rightarrow> string \<Rightarrow> gray_type \<Rightarrow> bool \<Rightarrow> 'node scope option" where
  "scope_define s name type mutable =
     (case scope_lookup_local s name of
        None \<Rightarrow> None
      | Some (Some i) \<Rightarrow>
          Some (s\<lparr>scope_symbols := (scope_symbols s)[i := (scope_symbols s ! i)\<lparr>symbol_type := type, is_mutable := mutable\<rparr>]\<rparr>)
      | Some None \<Rightarrow>
          let capacity = (if scope_capacity s \<le> length (scope_symbols s)
                then if scope_capacity s \<noteq> 0 then scope_capacity s * 2 else SCOPE_INITIAL_CAPACITY
                else scope_capacity s)
          in map_option (\<lambda>hash. s\<lparr>scope_symbols := scope_symbols s @ [fresh_symbol name type mutable],
                 scope_capacity := capacity, scope_hash := hash\<rparr>)
               (index_add scope_target_capacity (scope_hash s) (map symbol_name (scope_symbols s)) name))"

text \<open>The symbol of a name in the innermost scope of the chain that has it.\<close>

fun scope_lookup :: "'node scope list \<Rightarrow> string \<Rightarrow> 'node symbol option option" where
  "scope_lookup [] name = Some None"
| "scope_lookup (current # parents) name =
     (case scope_lookup_local current name of
        None \<Rightarrow> None
      | Some (Some i) \<Rightarrow> Some (Some (scope_symbols current ! i))
      | Some None \<Rightarrow> scope_lookup parents name)"

subsection \<open>The invariant\<close>

definition scope_ok :: "'node scope \<Rightarrow> bool" where
  "scope_ok s \<longleftrightarrow> index_ok (scope_hash s) (map symbol_name (scope_symbols s)) \<and> length (scope_symbols s) \<le> scope_capacity s"

text \<open>What a scope declares: its names, in the order of their first declaration, with their last types.\<close>

definition scope_table :: "'node scope \<Rightarrow> (string \<times> gray_type \<times> bool) list" where
  "scope_table s = map (\<lambda>y. (symbol_name y, symbol_type y, is_mutable y)) (scope_symbols s)"

definition scope_get :: "'node scope \<Rightarrow> string \<Rightarrow> (gray_type \<times> bool) option" where
  "scope_get s name =
     (case scope_lookup [s] name of Some (Some y) \<Rightarrow> Some (symbol_type y, is_mutable y) | _ \<Rightarrow> None)"

definition declare_name :: "'node scope \<Rightarrow> string \<Rightarrow> gray_type \<times> bool \<Rightarrow> 'node scope option" where
  "declare_name s name decl = scope_define s name (fst decl) (snd decl)"

lemma scope_create_ok [simp]: "scope_ok (scope_create parent)" "scope_table (scope_create parent) = []"
  by (simp_all add: scope_ok_def scope_create_def index_ok_def scope_table_def)

text \<open>One doubling is always enough, so that the loop never runs.\<close>

lemma scope_target: "target_ok scope_target_capacity"
  unfolding target_ok_def
proof (intro allI impI)
  fix current needed :: nat
  assume *: "(current = 0 \<or> capacity_ok current) \<and> needed * 2 \<le> current + 2"
  show "\<exists>capacity. scope_target_capacity current needed = Some capacity \<and> capacity_ok capacity \<and> needed * 2 \<le> capacity"
  proof (cases "current = 0")
    case True
    then show ?thesis using * capacity_ok_16 by (simp add: scope_target_capacity_def)
  next
    case False
    then have "capacity_ok current" using * by simp
    then have "capacity_ok (current * 2)" "8 \<le> current" by (rule capacity_ok_double, rule capacity_okD)
    then show ?thesis using * False by (simp add: scope_target_capacity_def)
  qed
qed

subsection \<open>Declaring and looking up\<close>

lemma lookup_local_value:
  "scope_ok s \<Longrightarrow> scope_lookup_local s name = Some (index_of (map symbol_name (scope_symbols s)) name)"
  by (simp add: scope_ok_def scope_lookup_local_def index_find)

text \<open>Looking a name up along a chain always ends, at the innermost declaration.\<close>

lemma scope_lookup_find:
  "\<forall>s \<in> set chain. scope_ok s \<Longrightarrow>
     scope_lookup chain name = Some (find (\<lambda>y. symbol_name y = name) (concat (map scope_symbols chain)))"
proof (induction chain)
  case (Cons s chain)
  have found: "map_option (nth (scope_symbols s)) (index_of (map symbol_name (scope_symbols s)) name)
      = find (\<lambda>y. symbol_name y = name) (scope_symbols s)" by (rule index_of_nth)
  have append: "find P (xs @ ys) = (case find P xs of None \<Rightarrow> find P ys | Some x \<Rightarrow> Some x)" for P :: "'a symbol \<Rightarrow> bool" and xs ys
    by (induction xs) auto
  show ?case using Cons found [symmetric] by (auto simp: lookup_local_value append split: option.splits)
qed simp

lemma map_of_find: "map_of (map (\<lambda>y. (f y, g y)) ys) x = map_option g (find (\<lambda>y. f y = x) ys)"
  by (induction ys) auto

lemma scope_get_value: "scope_ok s \<Longrightarrow> scope_get s name = map_of (scope_table s) name"
  using scope_lookup_find [of "[s]" name] by (simp add: scope_get_def scope_table_def map_of_find split: option.splits)

lemma distinct_scope_table: "scope_ok s \<Longrightarrow> distinct (map fst (scope_table s))"
  unfolding scope_ok_def scope_table_def by (auto simp: o_def dest: index_distinct)

lemma update_at_index:
  "index_of (map f ys) x = Some i \<Longrightarrow> f y = x \<Longrightarrow> distinct (map f ys) \<Longrightarrow>
     map (\<lambda>y. (f y, g y)) (ys[i := y]) = AList.update x (g y) (map (\<lambda>y. (f y, g y)) ys)"
proof (induction ys arbitrary: i)
  case (Cons z ys)
  show ?case
  proof (cases "f z = x")
    case True
    then show ?thesis using Cons.prems by (simp add: index_of_def)
  next
    case False
    then obtain j where "i = Suc j" "index_of (map f ys) x = Some j" using Cons.prems(1) by (auto simp: index_of_def split: if_splits)
    then show ?thesis using False Cons.IH [of j] Cons.prems(2,3) by simp
  qed
qed (simp add: index_of_def)

text \<open>A declaration returns; it updates the scope's table and nothing else of the other symbols.\<close>

lemma scope_define_value:
  assumes "scope_ok s"
  shows "\<exists>s'. scope_define s name type mutable = Some s' \<and> scope_ok s' \<and> scope_depth s' = scope_depth s
    \<and> scope_table s' = AList.update name (type, mutable) (scope_table s)"
proof (cases "index_of (map symbol_name (scope_symbols s)) name")
  case None
  then have new: "name \<notin> symbol_name ` set (scope_symbols s)" by (simp add: index_of_None)
  then obtain hash where hash: "index_add scope_target_capacity (scope_hash s) (map symbol_name (scope_symbols s)) name = Some hash"
      "index_ok hash (map symbol_name (scope_symbols s) @ [name])"
    using index_add_value [OF _ scope_target, of "scope_hash s" "map symbol_name (scope_symbols s)" name] assms by (auto simp: scope_ok_def)
  have "AList.update name (type, mutable) (scope_table s) = scope_table s @ [(name, type, mutable)]"
    using new by (intro update_absent) (auto simp: scope_table_def image_iff)
  then show ?thesis using assms None hash
    by (auto simp: scope_define_def lookup_local_value Let_def scope_ok_def scope_table_def fresh_symbol_def SCOPE_INITIAL_CAPACITY_def)
next
  case (Some i)
  then have i: "i < length (scope_symbols s)" "symbol_name (scope_symbols s ! i) = name" using index_of_bound [OF Some] by auto
  let ?y = "(scope_symbols s ! i)\<lparr>symbol_type := type, is_mutable := mutable\<rparr>"
  have names: "map symbol_name ((scope_symbols s)[i := ?y]) = map symbol_name (scope_symbols s)"
    using i by (simp add: map_update) (metis list_update_id nth_map)
  have "distinct (map symbol_name (scope_symbols s))" using assms unfolding scope_ok_def by (blast dest: index_distinct)
  then have "scope_table (s\<lparr>scope_symbols := (scope_symbols s)[i := ?y]\<rparr>) = AList.update name (type, mutable) (scope_table s)"
    using update_at_index [OF Some, of ?y "\<lambda>y. (symbol_type y, is_mutable y)"] i(2) by (simp add: scope_table_def)
  then show ?thesis using assms Some names by (simp add: scope_define_def lookup_local_value scope_ok_def)
qed

interpretation scope_names: growing_map scope_ok "\<lambda>s name. name" scope_table scope_get "\<lambda>s decl. decl" "\<lambda>s n. True" declare_name
proof
  show "\<exists>s'. declare_name s name decl = Some s' \<and> scope_ok s' \<and> True \<and> (\<lambda>name. name) = (\<lambda>name. name) \<and> (\<lambda>decl. decl) = (\<lambda>decl. decl)
    \<and> scope_table s' = AList.update name decl (scope_table s)" if "scope_ok s" for s :: "'node scope" and name decl
    using scope_define_value [OF that, of name "fst decl" "snd decl"] by (auto simp: declare_name_def)
qed (simp_all add: distinct_scope_table scope_get_value)

text \<open>What the chain answers after a declaration in its innermost scope.\<close>

lemma find_update_other:
  "i < length ys \<Longrightarrow> \<not> P (ys ! i) \<Longrightarrow> \<not> P y \<Longrightarrow> find P (ys[i := y]) = find P ys"
proof (induction ys arbitrary: i)
  case (Cons z ys)
  then show ?case by (cases i) simp_all
qed simp

lemma find_append: "find P (xs @ ys) = (case find P xs of None \<Rightarrow> find P ys | Some x \<Rightarrow> Some x)"
  by (induction xs) auto

lemma scope_define_symbols:
  assumes "scope_ok s" "scope_define s name type mutable = Some s'"
  shows "find (\<lambda>y. symbol_name y = other) (scope_symbols s') =
    (if other = name
     then Some (case find (\<lambda>y. symbol_name y = name) (scope_symbols s) of
        None \<Rightarrow> fresh_symbol name type mutable
      | Some y \<Rightarrow> y\<lparr>symbol_type := type, is_mutable := mutable\<rparr>)
     else find (\<lambda>y. symbol_name y = other) (scope_symbols s))"
proof (cases "index_of (map symbol_name (scope_symbols s)) name")
  case None
  then have "scope_symbols s' = scope_symbols s @ [fresh_symbol name type mutable]"
    using assms by (auto simp: scope_define_def lookup_local_value Let_def)
  moreover have "find (\<lambda>y. symbol_name y = name) (scope_symbols s) = None"
    using None index_of_nth [of "scope_symbols s" symbol_name name] by simp
  ultimately show ?thesis by (auto simp: find_append fresh_symbol_def split: option.splits)
next
  case (Some i)
  then have i: "i < length (scope_symbols s)" "symbol_name (scope_symbols s ! i) = name" using index_of_bound [OF Some] by auto
  let ?y = "(scope_symbols s ! i)\<lparr>symbol_type := type, is_mutable := mutable\<rparr>"
  have s': "scope_symbols s' = (scope_symbols s)[i := ?y]" using assms Some by (auto simp: scope_define_def lookup_local_value)
  have names: "map symbol_name ((scope_symbols s)[i := ?y]) = map symbol_name (scope_symbols s)"
    using i by (simp add: map_update) (metis list_update_id nth_map)
  have old: "find (\<lambda>y. symbol_name y = name) (scope_symbols s) = Some (scope_symbols s ! i)"
    using Some index_of_nth [of "scope_symbols s" symbol_name name] by simp
  have new: "find (\<lambda>y. symbol_name y = name) ((scope_symbols s)[i := ?y]) = Some ?y"
    using Some i(1) index_of_nth [of "(scope_symbols s)[i := ?y]" symbol_name name] by (simp add: names)
  show ?thesis
  proof (cases "other = name")
    case False
    then show ?thesis using i find_update_other [of i "scope_symbols s" "\<lambda>y. symbol_name y = other" ?y] by (simp add: s')
  qed (simp add: s' old new)
qed

lemma scope_define_lookup:
  assumes "scope_ok s" "\<forall>p \<in> set parents. scope_ok p"
  shows "\<exists>s' y. scope_define s name type mutable = Some s' \<and> scope_ok s'
    \<and> scope_lookup (s' # parents) name = Some (Some y) \<and> symbol_name y = name \<and> symbol_type y = type \<and> is_mutable y = mutable
    \<and> (\<forall>other. other \<noteq> name \<longrightarrow> scope_lookup (s' # parents) other = scope_lookup (s # parents) other)"
proof -
  obtain s' where s': "scope_define s name type mutable = Some s'" "scope_ok s'" using scope_define_value [OF assms(1)] by blast
  note found = scope_define_symbols [OF assms(1) s'(1)]
  have "scope_lookup (t # parents) x = Some (case find (\<lambda>y. symbol_name y = x) (scope_symbols t) of
      None \<Rightarrow> find (\<lambda>y. symbol_name y = x) (concat (map scope_symbols parents)) | Some y \<Rightarrow> Some y)" if "scope_ok t" for t x
    using scope_lookup_find [of "t # parents" x] assms(2) that by (simp add: find_append)
  note lookup = this [OF s'(2)] this [OF assms(1)]
  define y where "y = (case find (\<lambda>y. symbol_name y = name) (scope_symbols s) of
      None \<Rightarrow> fresh_symbol name type mutable | Some y \<Rightarrow> y\<lparr>symbol_type := type, is_mutable := mutable\<rparr>)"
  have y: "find (\<lambda>y. symbol_name y = name) (scope_symbols s') = Some y" unfolding y_def found by simp
  then have "symbol_name y = name" by (simp add: find_Some_iff) blast
  moreover have "symbol_type y = type" "is_mutable y = mutable" by (simp_all add: y_def fresh_symbol_def split: option.split)
  moreover have "scope_lookup (s' # parents) name = Some (Some y)" unfolding lookup(1) y by simp
  moreover have "scope_lookup (s' # parents) other = scope_lookup (s # parents) other" if "other \<noteq> name" for other
    unfolding lookup found using that by simp
  ultimately show ?thesis using s' by blast
qed

end
