(* ===== verification/Modules.thy ===== *)
theory Modules
  imports Name_Index "HOL-Library.Monad_Syntax"
begin

text \<open>
  The module table (\<open>typechecker/module_table.h\<close>, \<open>module_table.c\<close>): the declarations of each module, the
  indices by syntax node and by mangled name, import aliases, and the resolution of names. A pointer to a
  declaration is its place in \<open>declarations\<close>, a pointer to a module scope its place in \<open>modules\<close>; a syntax
  node is its address. The capacities of the arrays, which the arena grows, are left out.
\<close>

subsection \<open>Data\<close>

datatype DeclarationKind =
    DECLARATION_STRUCT | DECLARATION_ENUM | DECLARATION_FUNCTION | DECLARATION_ALIAS | DECLARATION_CONST

datatype Visibility = VISIBILITY_PUBLIC | VISIBILITY_PRIVATE

datatype ResolveStatus = RESOLVE_OK | RESOLVE_NO_MODULE | RESOLVE_NO_DECLARATION | RESOLVE_PRIVATE

type_synonym node = u64

record declaration_entry =
  entry_kind :: DeclarationKind
  entry_name :: string
  entry_module_name :: "string option"
  is_module_entry :: bool
  ast_node :: "node option"
  origin_file :: "string option"
  origin_line :: int
  visibility :: Visibility
  is_external :: bool
  registry_index :: int
  cached_mangled_name :: "string option"

record module_scope =
  scope_module_name :: string
  scope_is_entry :: bool
  scope_entries :: "nat list"
  entries_hash :: name_index

record module_table =
  entry_module :: "string option"
  modules :: "module_scope list"
  modules_hash :: name_index
  aliases :: "(string \<times> string \<times> string option) list"
  node_index :: "(node, nat) probe_table option"
  node_count :: nat
  mangled_index :: name_index
  mangled_entries :: "nat list"
  file_modules :: "(string \<times> string) list"
  file_hash :: name_index
  file_includes :: "(string \<times> string) list"
  declarations :: "declaration_entry list"

record resolve_scope =
  from_module :: "string option"
  from_file :: "string option"
  using_modules :: "string list"

definition MODULE_ENTRY_NAME :: string where "MODULE_ENTRY_NAME = ''''"

subsection \<open>Modules\<close>

definition module_table_create :: module_table where
  "module_table_create =
     \<lparr>entry_module = None, modules = [], modules_hash = None, aliases = [], node_index = None, node_count = 0,
      mangled_index = None, mangled_entries = [], file_modules = [], file_hash = None, file_includes = [], declarations = []\<rparr>"

definition module_table_find :: "module_table \<Rightarrow> string option \<Rightarrow> nat option option" where
  "module_table_find t module_name =
     (case module_name of None \<Rightarrow> Some None | Some name \<Rightarrow> hash_find (modules_hash t) name)"

definition module_table_scope :: "module_table \<Rightarrow> string \<Rightarrow> bool \<Rightarrow> (module_table \<times> nat) option" where
  "module_table_scope t name is_entry = do {
     existing \<leftarrow> module_table_find t (Some name);
     case existing of
       Some i \<Rightarrow> Some (t, i)
     | None \<Rightarrow> do {
         hash \<leftarrow> index_add hash_target_capacity (modules_hash t) (map scope_module_name (modules t)) name;
         Some (t\<lparr>modules := modules t @ [\<lparr>scope_module_name = name, scope_is_entry = is_entry, scope_entries = [], entries_hash = None\<rparr>],
                 modules_hash := hash\<rparr>, length (modules t))
       }
   }"

subsection \<open>Files\<close>

definition map_file_path :: "module_table \<Rightarrow> string \<Rightarrow> string \<Rightarrow> module_table option" where
  "map_file_path t path name = do {
     mapped \<leftarrow> hash_find (file_hash t) path;
     if mapped \<noteq> None then Some t
     else do {
       hash \<leftarrow> index_add hash_target_capacity (file_hash t) (map fst (file_modules t)) path;
       owner \<leftarrow> module_table_find t (Some name);
       i \<leftarrow> owner;
       Some (t\<lparr>file_modules := file_modules t @ [(path, scope_module_name (modules t ! i))], file_hash := hash\<rparr>)
     }
   }"

definition module_table_map_file :: "module_table \<Rightarrow> string option \<Rightarrow> string option \<Rightarrow> bool \<Rightarrow> module_table option" where
  "module_table_map_file t file module_name is_entry =
     (case (if is_entry then Some MODULE_ENTRY_NAME else module_name) of
        None \<Rightarrow> Some t
      | Some name \<Rightarrow> do {
          (t, _) \<leftarrow> module_table_scope t name is_entry;
          found \<leftarrow> module_table_find t (Some name);
          let t = (if is_entry then t\<lparr>entry_module := map_option (\<lambda>i. scope_module_name (modules t ! i)) found\<rparr> else t);
          case file of None \<Rightarrow> Some t | Some path \<Rightarrow> map_file_path t path name
        })"

definition module_table_include_file :: "module_table \<Rightarrow> string \<Rightarrow> string \<Rightarrow> module_table option" where
  "module_table_include_file t file module_name = do {
     (t, _) \<leftarrow> module_table_scope t module_name False;
     Some (t\<lparr>file_includes := file_includes t @ [(file, module_name)]\<rparr>)
   }"

definition module_table_module_for_file :: "module_table \<Rightarrow> string option \<Rightarrow> string option option" where
  "module_table_module_for_file t file = do {
     index \<leftarrow> (case file of None \<Rightarrow> Some None | Some path \<Rightarrow> hash_find (file_hash t) path);
     Some (case index of Some i \<Rightarrow> Some (snd (file_modules t ! i)) | None \<Rightarrow> entry_module t)
   }"

subsection \<open>The index by node\<close>

definition node_hash :: "node \<Rightarrow> u32" where
  "node_hash n = ucast (drop_bit 4 n * 2654435761)"

definition node_index_place :: "(node, nat) probe_table \<Rightarrow> node \<Rightarrow> nat \<Rightarrow> (node, nat) probe_table option" where
  "node_index_place index n e = probe_place index n e (probe_slots (length index) (node_hash n))"

text \<open>Growing places the entries of the old table again, in the order of its slots.\<close>

definition node_index_grow :: "module_table \<Rightarrow> (node, nat) probe_table option" where
  "node_index_grow t =
     (let new_count = node_count t + 1;
          old = (case node_index t of None \<Rightarrow> [] | Some index \<Rightarrow> index)
      in if node_index t = None \<or> length old < new_count * 2
         then do {
           capacity \<leftarrow> hash_target_capacity (length old) new_count;
           place_all node_hash (replicate capacity None) (live_entries old)
         }
         else Some old)"

definition node_index_add :: "module_table \<Rightarrow> node option \<Rightarrow> nat \<Rightarrow> module_table option" where
  "node_index_add t n e =
     (case n of
        None \<Rightarrow> Some t
      | Some n \<Rightarrow> do {
          index \<leftarrow> node_index_grow t;
          index \<leftarrow> node_index_place index n e;
          Some (t\<lparr>node_index := Some index, node_count := node_count t + 1\<rparr>)
        })"

definition module_table_entry_for_node :: "module_table \<Rightarrow> node option \<Rightarrow> nat option option" where
  "module_table_entry_for_node t n =
     (case (n, node_index t) of
        (Some n, Some index) \<Rightarrow> probe_find index n (probe_slots (length index) (node_hash n))
      | _ \<Rightarrow> Some None)"

subsection \<open>Mangling\<close>

definition module_mangle_into :: "declaration_entry \<Rightarrow> nat \<Rightarrow> string" where
  "module_mangle_into entry buffer_length =
     (if is_external entry then entry_name entry
      else if is_module_entry entry then entry_name entry
      else case entry_module_name entry of
          None \<Rightarrow> entry_name entry
        | Some module \<Rightarrow> take (buffer_length - 1) (module @ ''_'' @ entry_name entry))"

definition module_mangle :: "module_table \<Rightarrow> nat \<Rightarrow> module_table \<times> string" where
  "module_mangle t e =
     (case cached_mangled_name (declarations t ! e) of
        Some name \<Rightarrow> (t, name)
      | None \<Rightarrow>
          let name = module_mangle_into (declarations t ! e) MESSAGE_BUFFER_SIZE
          in (t\<lparr>declarations := (declarations t)[e := (declarations t ! e)\<lparr>cached_mangled_name := Some name\<rparr>]\<rparr>, name))"

definition mangled_names :: "module_table \<Rightarrow> string list" where
  "mangled_names t = map (\<lambda>e. module_mangle_into (declarations t ! e) MESSAGE_BUFFER_SIZE) (mangled_entries t)"

definition mangled_index_add :: "module_table \<Rightarrow> nat \<Rightarrow> module_table option" where
  "mangled_index_add t e =
     (let mangled = module_mangle_into (declarations t ! e) MESSAGE_BUFFER_SIZE
      in do {
        found \<leftarrow> hash_find (mangled_index t) mangled;
        if found \<noteq> None then Some t
        else do {
          hash \<leftarrow> index_add hash_target_capacity (mangled_index t) (mangled_names t) mangled;
          Some (t\<lparr>mangled_index := hash, mangled_entries := mangled_entries t @ [e]\<rparr>)
        }
      })"

definition module_table_find_mangled :: "module_table \<Rightarrow> string \<Rightarrow> nat option option" where
  "module_table_find_mangled t mangled =
     map_option (map_option (nth (mangled_entries t))) (hash_find (mangled_index t) mangled)"

definition module_split_qualified :: "string \<Rightarrow> (string \<times> string) option" where
  "module_split_qualified spelling =
     (case dropWhile (\<lambda>c. c \<noteq> CHR ''.'') spelling of
        [] \<Rightarrow> None
      | _ # name \<Rightarrow> Some (takeWhile (\<lambda>c. c \<noteq> CHR ''.'') spelling, name))"

subsection \<open>Declarations\<close>

definition entry_names :: "module_table \<Rightarrow> nat list \<Rightarrow> string list" where
  "entry_names t es = map (\<lambda>e. entry_name (declarations t ! e)) es"

definition module_scope_lookup :: "module_table \<Rightarrow> nat option \<Rightarrow> string \<Rightarrow> nat option option" where
  "module_scope_lookup t scope name =
     (case scope of
        None \<Rightarrow> Some None
      | Some i \<Rightarrow> map_option (map_option (nth (scope_entries (modules t ! i)))) (hash_find (entries_hash (modules t ! i)) name))"

definition scope_add_entry :: "module_table \<Rightarrow> nat \<Rightarrow> nat \<Rightarrow> module_table option" where
  "scope_add_entry t i e =
     (let scope = modules t ! i
      in do {
        hash \<leftarrow> index_add hash_target_capacity (entries_hash scope) (entry_names t (scope_entries scope)) (entry_name (declarations t ! e));
        Some (t\<lparr>modules := (modules t)[i := scope\<lparr>scope_entries := scope_entries scope @ [e], entries_hash := hash\<rparr>]\<rparr>)
      })"

definition module_scope_define ::
  "module_table \<Rightarrow> nat \<Rightarrow> DeclarationKind \<Rightarrow> string \<Rightarrow> node option \<Rightarrow> string option \<Rightarrow> int \<Rightarrow> Visibility \<Rightarrow> (module_table \<times> nat) option" where
  "module_scope_define t i kind name n file line visible = do {
     existing \<leftarrow> module_scope_lookup t (Some i) name;
     case existing of
       Some e \<Rightarrow> Some (t, e)
     | None \<Rightarrow>
         let e = length (declarations t);
             entry = \<lparr>entry_kind = kind, entry_name = name, entry_module_name = Some (scope_module_name (modules t ! i)),
               is_module_entry = scope_is_entry (modules t ! i), ast_node = n, origin_file = file, origin_line = line,
               visibility = visible, is_external = False, registry_index = - 1, cached_mangled_name = None\<rparr>
         in do {
           t \<leftarrow> scope_add_entry (t\<lparr>declarations := declarations t @ [entry]\<rparr>) i e;
           t \<leftarrow> node_index_add t n e;
           t \<leftarrow> mangled_index_add t e;
           Some (t, e)
         }
   }"

definition module_table_declare_synthetic ::
  "module_table \<Rightarrow> string option \<Rightarrow> DeclarationKind \<Rightarrow> string \<Rightarrow> string option \<Rightarrow> (module_table \<times> nat) option" where
  "module_table_declare_synthetic t module_name kind name file = do {
     (t, i) \<leftarrow> module_table_scope t (case module_name of None \<Rightarrow> MODULE_ENTRY_NAME | Some m \<Rightarrow> m)
                 (module_name = None \<or> module_name = Some []);
     module_scope_define t i kind name None file 0 VISIBILITY_PUBLIC
   }"

fun share_loop :: "(string \<times> string) list \<Rightarrow> string \<Rightarrow> nat \<Rightarrow> module_table \<Rightarrow> module_table option" where
  "share_loop [] file e t = Some t"
| "share_loop ((included, module_name) # rest) file e t =
     (if included \<noteq> file then share_loop rest file e t
      else do {
        scope \<leftarrow> module_table_find t (Some module_name);
        found \<leftarrow> module_scope_lookup t scope (entry_name (declarations t ! e));
        t \<leftarrow> (case (scope, found) of (Some i, None) \<Rightarrow> scope_add_entry t i e | _ \<Rightarrow> Some t);
        share_loop rest file e t
      })"

definition module_table_share_with_includes :: "module_table \<Rightarrow> string \<Rightarrow> nat \<Rightarrow> module_table option" where
  "module_table_share_with_includes t file e = share_loop (file_includes t) file e t"

subsection \<open>Aliases\<close>

definition alias_bound_in :: "string option \<Rightarrow> string option \<Rightarrow> bool" where
  "alias_bound_in bound_file file \<longleftrightarrow> bound_file = file"

definition module_table_add_alias :: "module_table \<Rightarrow> string option \<Rightarrow> string \<Rightarrow> string \<Rightarrow> module_table" where
  "module_table_add_alias t file alias module_name =
     (if alias = module_name then t
      else if list_ex (\<lambda>(name, _, bound). name = alias \<and> alias_bound_in bound file) (aliases t) then t
      else t\<lparr>aliases := aliases t @ [(alias, module_name, file)]\<rparr>)"

definition module_table_resolve_alias :: "module_table \<Rightarrow> string option \<Rightarrow> string \<Rightarrow> string" where
  "module_table_resolve_alias t file alias =
     (case find (\<lambda>(name, _, bound). bound \<noteq> None \<and> file \<noteq> None \<and> alias_bound_in bound file \<and> name = alias) (aliases t) of
        Some (_, module_name, _) \<Rightarrow> module_name
      | None \<Rightarrow>
          (case find (\<lambda>(name, _, bound). bound = None \<and> name = alias) (aliases t) of
             Some (_, module_name, _) \<Rightarrow> module_name
           | None \<Rightarrow> alias))"

subsection \<open>Resolution\<close>

definition is_module_declaration_visible :: "resolve_scope option \<Rightarrow> declaration_entry \<Rightarrow> bool" where
  "is_module_declaration_visible scope entry \<longleftrightarrow>
     visibility entry \<noteq> VISIBILITY_PRIVATE
     \<or> (case (Option.bind scope from_file, origin_file entry) of (Some from, Some origin) \<Rightarrow> from = origin | _ \<Rightarrow> False)"

definition module_resolve_qualified ::
  "module_table \<Rightarrow> resolve_scope option \<Rightarrow> string \<Rightarrow> string \<Rightarrow> (nat option \<times> ResolveStatus) option" where
  "module_resolve_qualified t scope qualifier name =
     (if qualifier = [] then Some (None, RESOLVE_NO_MODULE)
      else do {
        module_scope \<leftarrow> module_table_find t (Some (module_table_resolve_alias t (Option.bind scope from_file) qualifier));
        entry \<leftarrow> module_scope_lookup t module_scope name;
        Some (case (module_scope, entry) of
            (None, _) \<Rightarrow> (None, RESOLVE_NO_MODULE)
          | (Some _, None) \<Rightarrow> (None, RESOLVE_NO_DECLARATION)
          | (Some _, Some e) \<Rightarrow>
              (Some e, if is_module_declaration_visible scope (declarations t ! e) then RESOLVE_OK else RESOLVE_PRIVATE))
      })"

text \<open>
  The loop over the modules in \<open>using\<close>. The result is the declaration and the module it is ambiguous with;
  \<open>report\<close> says whether the caller asks for an ambiguity.
\<close>

fun using_loop :: "module_table \<Rightarrow> resolve_scope \<Rightarrow> string \<Rightarrow> bool \<Rightarrow> string list \<Rightarrow> nat option \<Rightarrow> (nat option \<times> string option) option" where
  "using_loop t scope name report [] found = Some (found, None)"
| "using_loop t scope name report (u # us) found = do {
     module_scope \<leftarrow> module_table_find t (Some (module_table_resolve_alias t (from_file scope) u));
     entry \<leftarrow> module_scope_lookup t module_scope name;
     case entry of
       None \<Rightarrow> using_loop t scope name report us found
     | Some e \<Rightarrow>
         if \<not> is_module_declaration_visible (Some scope) (declarations t ! e) then using_loop t scope name report us found
         else (case found of
             None \<Rightarrow> if report then using_loop t scope name report us (Some e) else Some (Some e, None)
           | Some f \<Rightarrow>
               if e \<noteq> f then Some (None, entry_module_name (declarations t ! e))
               else using_loop t scope name report us found)
   }"

declare using_loop.simps(2) [simp del]

definition module_resolve_unqualified ::
  "module_table \<Rightarrow> resolve_scope \<Rightarrow> string \<Rightarrow> bool \<Rightarrow> (nat option \<times> string option) option" where
  "module_resolve_unqualified t scope name report = do {
     own_module \<leftarrow> module_table_find t (from_module scope);
     own \<leftarrow> module_scope_lookup t own_module name;
     case own of
       Some e \<Rightarrow> Some (Some e, None)
     | None \<Rightarrow> using_loop t scope name report (using_modules scope) None
   }"

definition module_resolve_written :: "module_table \<Rightarrow> resolve_scope option \<Rightarrow> string \<Rightarrow> nat option option" where
  "module_resolve_written t scope written =
     (case scope of
        None \<Rightarrow> Some None
      | Some s \<Rightarrow>
          if list_ex (\<lambda>c. c \<in> set ''[]^:?,'') written then Some None
          else (case module_split_qualified written of
              Some (qualifier, name) \<Rightarrow>
                if MESSAGE_BUFFER_SIZE \<le> length qualifier then Some None
                else map_option fst (module_resolve_qualified t scope qualifier name)
            | None \<Rightarrow> map_option fst (module_resolve_unqualified t s written False)))"

end
