(* ===== verification/Type_Pool.thy ===== *)
theory Type_Pool
  imports Types Probing "HOL-Library.Monad_Syntax"
begin

text \<open>
  The pool of types (\<open>typechecker/types.c\<close>): the types made so far, the hash index that finds one by its kind
  and name, the distinct types, and the resolution of a type's name, which takes signatures of function
  types apart. A pointer to a pooled type is its place in \<open>pool_types\<close>, where types never move; the
  other pointers are to the shared built-in types. No index is \<open>None\<close>.
\<close>

subsection \<open>Data\<close>

record type_pool =
  pool_types :: "gray_type list"
  pool_index :: "(TypeKind \<times> string, nat) probe_table option"
  distinct_types :: "nat list"

datatype type_ref = Builtin gray_type | Pooled nat

definition deref :: "type_pool \<Rightarrow> type_ref \<Rightarrow> gray_type" where
  "deref p r = (case r of Builtin t \<Rightarrow> t | Pooled i \<Rightarrow> pool_types p ! i)"

definition type_pool_reset :: type_pool where
  "type_pool_reset = \<lparr>pool_types = [], pool_index = None, distinct_types = []\<rparr>"

definition TYPE_HASH_INITIAL_CAPACITY :: nat where "TYPE_HASH_INITIAL_CAPACITY = 8192"

subsection \<open>The index\<close>

fun kind_number :: "TypeKind \<Rightarrow> u32" where
  "kind_number TYPE_KIND_VOID = 0"
| "kind_number TYPE_KIND_SIGNED_INTEGER = 1"
| "kind_number TYPE_KIND_UNSIGNED_INTEGER = 2"
| "kind_number TYPE_KIND_FLOATING_POINT = 3"
| "kind_number TYPE_KIND_BOOL = 4"
| "kind_number TYPE_KIND_CHAR = 5"
| "kind_number TYPE_KIND_STRING = 6"
| "kind_number TYPE_KIND_ARRAY = 7"
| "kind_number TYPE_KIND_MAP = 8"
| "kind_number TYPE_KIND_STRUCT = 9"
| "kind_number TYPE_KIND_ENUM = 10"
| "kind_number TYPE_KIND_POINTER = 11"
| "kind_number TYPE_KIND_ERROR = 12"
| "kind_number TYPE_KIND_FUNCTION = 13"
| "kind_number TYPE_KIND_RANGE = 14"
| "kind_number TYPE_KIND_NIL = 15"
| "kind_number TYPE_KIND_C_FUNCTION = 16"
| "kind_number TYPE_KIND_LITERAL = 17"
| "kind_number TYPE_KIND_UNKNOWN = 18"

fun type_hash :: "TypeKind \<times> string \<Rightarrow> u32" where
  "type_hash (kind, name) =
     (let hash = fold (\<lambda>cursor hash. (hash * 33) XOR of_char cursor) name (5381 XOR kind_number kind * 2654435761);
          hash = hash XOR drop_bit 16 hash;
          hash = hash * 0x7feb352d;
          hash = hash XOR drop_bit 15 hash;
          hash = hash * 0x846ca68b
      in hash XOR drop_bit 16 hash)"

declare type_hash.simps [simp del]

definition pool_find :: "type_pool \<Rightarrow> TypeKind \<Rightarrow> string \<Rightarrow> nat option option" where
  "pool_find p kind name =
     (case pool_index p of
        None \<Rightarrow> Some None
      | Some table \<Rightarrow> probe_find table (kind, name) (probe_slots (length table) (type_hash (kind, name))))"

definition type_hash_place ::
  "(TypeKind \<times> string, nat) probe_table \<Rightarrow> TypeKind \<Rightarrow> string \<Rightarrow> nat \<Rightarrow> (TypeKind \<times> string, nat) probe_table option" where
  "type_hash_place table kind name i = probe_place table (kind, name) i (probe_slots (length table) (type_hash (kind, name)))"

definition type_hash_grow ::
  "(TypeKind \<times> string, nat) probe_table option \<Rightarrow> (TypeKind \<times> string, nat) probe_table option" where
  "type_hash_grow old =
     (case old of
        None \<Rightarrow> Some (replicate TYPE_HASH_INITIAL_CAPACITY None)
      | Some table \<Rightarrow> place_all type_hash (replicate (length table * 2) None) (live_entries table))"

text \<open>\<open>count\<close> is the number of types in the pool, the new one included.\<close>

definition pool_insert ::
  "(TypeKind \<times> string, nat) probe_table option \<Rightarrow> nat \<Rightarrow> TypeKind \<Rightarrow> string \<Rightarrow> nat \<Rightarrow> (TypeKind \<times> string, nat) probe_table option" where
  "pool_insert index count kind name i = do {
     table \<leftarrow> (case index of
        Some table \<Rightarrow> if length table \<le> count * 2 then type_hash_grow index else Some table
      | None \<Rightarrow> type_hash_grow None);
     type_hash_place table kind name i
   }"

text \<open>The body every constructor repeats: the pooled type of a kind and name, made when there is none.\<close>

definition pool_intern :: "type_pool \<Rightarrow> gray_type \<Rightarrow> (type_pool \<times> type_ref) option" where
  "pool_intern p t = do {
     existing \<leftarrow> pool_find p (type_kind t) (type_text t);
     case existing of
       Some i \<Rightarrow> Some (p, Pooled i)
     | None \<Rightarrow> do {
         let i = length (pool_types p);
         index \<leftarrow> pool_insert (pool_index p) (i + 1) (type_kind t) (type_text t) i;
         Some (p\<lparr>pool_types := pool_types p @ [t], pool_index := Some index\<rparr>, Pooled i)
       }
   }"

definition type_array :: "type_pool \<Rightarrow> string \<Rightarrow> (type_pool \<times> type_ref) option" where
  "type_array p element = pool_intern p ((plain_type TYPE_KIND_ARRAY element)\<lparr>element_type := Some element\<rparr>)"

definition type_struct :: "type_pool \<Rightarrow> string \<Rightarrow> (type_pool \<times> type_ref) option" where
  "type_struct p name = pool_intern p (plain_type TYPE_KIND_STRUCT name)"

definition type_enum :: "type_pool \<Rightarrow> string \<Rightarrow> (type_pool \<times> type_ref) option" where
  "type_enum p name = pool_intern p (plain_type TYPE_KIND_ENUM name)"

definition type_pointer :: "type_pool \<Rightarrow> string \<Rightarrow> (type_pool \<times> type_ref) option" where
  "type_pointer p pointee = pool_intern p ((plain_type TYPE_KIND_POINTER pointee)\<lparr>element_type := Some pointee\<rparr>)"

subsection \<open>Signatures\<close>

definition starts_with :: "string \<Rightarrow> string \<Rightarrow> bool" where
  "starts_with prefix text \<longleftrightarrow> take (length prefix) text = prefix"

text \<open>The place of the parenthesis that closes the one in front, from a place on and at a depth.\<close>

fun close_loop :: "string \<Rightarrow> nat \<Rightarrow> int \<Rightarrow> nat option" where
  "close_loop [] i depth = None"
| "close_loop (c # cs) i depth =
     (if c = CHR ''('' then close_loop cs (i + 1) (depth + 1)
      else if c = CHR '')'' then if depth - 1 = 0 then Some i else close_loop cs (i + 1) (depth - 1)
      else close_loop cs (i + 1) depth)"

definition find_function_signature_close_parenthesis :: "string \<Rightarrow> nat option" where
  "find_function_signature_close_parenthesis text = close_loop (drop 4 text) 4 0"

definition depth_after :: "char \<Rightarrow> int \<Rightarrow> int" where
  "depth_after c depth =
     (if c = CHR ''('' \<or> c = CHR ''['' then depth + 1 else if c = CHR '')'' \<or> c = CHR '']'' then depth - 1 else depth)"

text \<open>The segments between the commas at depth 0; \<open>segment\<close> is what was read of the current one, reversed.\<close>

fun segment_loop :: "string \<Rightarrow> int \<Rightarrow> string \<Rightarrow> string list" where
  "segment_loop [] depth segment = (if depth = 0 then [rev segment] else [])"
| "segment_loop (c # cs) depth segment =
     (if depth_after c depth = 0 \<and> c = CHR '','' then rev segment # segment_loop cs (depth_after c depth) []
      else segment_loop cs (depth_after c depth) (c # segment))"

definition split_top_commas :: "string \<Rightarrow> string list" where
  "split_top_commas text = (if text = [] then [] else segment_loop text 0 [])"

definition parse_parameter :: "string \<Rightarrow> bool \<times> string" where
  "parse_parameter raw = (case raw of c # rest \<Rightarrow> if c = CHR ''&'' then (True, rest) else (False, raw) | [] \<Rightarrow> (False, []))"

definition parse_returns :: "string \<Rightarrow> string list" where
  "parse_returns after =
     (if \<not> starts_with ''->'' after then []
      else let text = drop 2 after
           in if starts_with ''('' text
              then if last text \<noteq> CHR '')'' then [] else split_top_commas (butlast (tl text))
              else if text \<noteq> ''void'' then [text] else [])"

definition parse_function_signature :: "string \<Rightarrow> function_signature option" where
  "parse_function_signature name =
     (if \<not> starts_with ''func('' name then None
      else case find_function_signature_close_parenthesis name of
          None \<Rightarrow> None
        | Some close \<Rightarrow>
            let parameters = map parse_parameter (split_top_commas (take (close - 5) (drop 5 name)))
            in Some \<lparr>parameter_types = map snd parameters, is_parameter_mutable = map fst parameters,
                 return_types = parse_returns (drop (close + 1) name)\<rparr>)"

subsection \<open>Names\<close>

fun comma_loop :: "string \<Rightarrow> nat \<Rightarrow> int \<Rightarrow> nat option" where
  "comma_loop [] i depth = None"
| "comma_loop (c # cs) i depth =
     (if c = CHR '','' \<and> depth = 0 then Some i
      else if depth_after c depth < 0 then None
      else comma_loop cs (i + 1) (depth_after c depth))"

definition type_top_level_comma :: "string \<Rightarrow> nat option" where
  "type_top_level_comma text = comma_loop text 0 0"

definition distinct_type_named :: "type_pool \<Rightarrow> string \<Rightarrow> nat option" where
  "distinct_type_named p name = find (\<lambda>i. distinct_name (pool_types p ! i) = Some name) (distinct_types p)"

definition is_capital :: "char \<Rightarrow> bool" where
  "is_capital c \<longleftrightarrow> CHR ''A'' \<le> c \<and> c \<le> CHR ''Z''"

text \<open>The key and value types of \<open>map[K:V]\<close>, when there is a colon.\<close>

definition map_parts :: "string \<Rightarrow> (string \<times> string) option" where
  "map_parts name =
     (let start = drop 4 name
      in case dropWhile (\<lambda>c. c \<noteq> CHR '':'') start of
           [] \<Rightarrow> None
         | _ # value_start \<Rightarrow>
             Some (takeWhile (\<lambda>c. c \<noteq> CHR '':'') start,
               if value_start \<noteq> [] \<and> last value_start = CHR '']'' then butlast value_start else value_start))"

definition map_type :: "string \<Rightarrow> gray_type" where
  "map_type name =
     (plain_type TYPE_KIND_MAP name)\<lparr>key_type := map_option fst (map_parts name), value_type := map_option snd (map_parts name)\<rparr>"

text \<open>A user type: the enum of that name when there is one, and a struct otherwise.\<close>

definition named_type :: "type_pool \<Rightarrow> string \<Rightarrow> (type_pool \<times> type_ref) option" where
  "named_type p name = do {
     existing \<leftarrow> pool_find p TYPE_KIND_ENUM name;
     case existing of Some i \<Rightarrow> Some (p, Pooled i) | None \<Rightarrow> type_struct p name
   }"

definition is_capital_after :: "string \<Rightarrow> bool" where
  "is_capital_after rest \<longleftrightarrow> (case rest of _ # c # _ \<Rightarrow> is_capital c | _ \<Rightarrow> False)"

text \<open>A name that no distinct type has.\<close>

definition resolve_name :: "string \<Rightarrow> type_pool \<Rightarrow> (type_pool \<times> type_ref) option" where
  "resolve_name name p =
     (if starts_with ''func('' name
      then pool_intern p ((plain_type TYPE_KIND_FUNCTION name)\<lparr>type_signature := parse_function_signature name\<rparr>)
      else case find_builtin name of
          Some (Shared t) \<Rightarrow> Some (p, Builtin t)
        | Some (Pooled_as kind allocation_name) \<Rightarrow>
            pool_intern p (plain_type kind (case allocation_name of Some n \<Rightarrow> n | None \<Rightarrow> name))
        | None \<Rightarrow>
            if starts_with ''Range<'' name then pool_intern p (plain_type TYPE_KIND_RANGE name)
            else if starts_with ''^'' name then type_pointer p (tl name)
            else if starts_with ''?'' name \<and> 1 < length name then pool_intern p (plain_type TYPE_KIND_UNKNOWN name)
            else if starts_with ''['' name \<and> 2 < length name \<and> last name = CHR '']''
            then let element = butlast (tl name)
                 in type_array p (case type_top_level_comma element of Some i \<Rightarrow> take i element | None \<Rightarrow> element)
            else if starts_with ''map['' name then pool_intern p (map_type name)
            else if is_capital_after (dropWhile (\<lambda>c. c \<noteq> CHR ''.'') name)
            then named_type p (tl (dropWhile (\<lambda>c. c \<noteq> CHR ''.'') name))
            else if name \<noteq> [] \<and> is_capital (hd name) then named_type p name
            else if CHR ''_'' \<in> set name \<and> is_capital_after (CHR ''_'' # rev (takeWhile (\<lambda>c. c \<noteq> CHR ''_'') (rev name)))
            then named_type p name
            else Some (p, Builtin TYPE_UNKNOWN))"

definition type_from_name :: "type_pool \<Rightarrow> string option \<Rightarrow> (type_pool \<times> type_ref) option" where
  "type_from_name p written =
     (case written of
        None \<Rightarrow> Some (p, Builtin TYPE_UNKNOWN)
      | Some name \<Rightarrow> (case distinct_type_named p name of Some i \<Rightarrow> Some (p, Pooled i) | None \<Rightarrow> resolve_name name p))"

definition type_register_distinct :: "type_pool \<Rightarrow> string \<Rightarrow> string \<Rightarrow> type_pool option" where
  "type_register_distinct p name underlying_name = do {
     (p, r) \<leftarrow> type_from_name p (Some underlying_name);
     Some (p\<lparr>pool_types := pool_types p @ [(deref p r)\<lparr>distinct_name := Some name\<rparr>],
             distinct_types := distinct_types p @ [length (pool_types p)]\<rparr>)
   }"

end
