(* ===== verification/Type_Names.thy ===== *)
theory Type_Names
  imports Modules Type_Pool
begin

text \<open>
  The resolution of a written type name (\<open>typechecker/module_table.c\<close>, \<open>module_resolve_type_name\<close>): every
  name in the spelling that resolves to a type is replaced by its mangled name. Mangling keeps the name in
  the declaration, and a function type is looked up in the pool of types, so both are threaded through. The
  flag of a result says that the text is not the one that was given, which the code reads off the pointer.
\<close>

type_synonym 'a naming = "module_table \<times> type_pool \<Rightarrow> ((module_table \<times> type_pool) \<times> 'a) option"

fun depth_zero_loop :: "string \<Rightarrow> char \<Rightarrow> nat \<Rightarrow> int \<Rightarrow> nat option" where
  "depth_zero_loop [] character i depth = None"
| "depth_zero_loop (c # cs) character i depth =
     (if c = CHR ''['' then depth_zero_loop cs character (i + 1) (depth + 1)
      else if c = CHR '']'' then depth_zero_loop cs character (i + 1) (depth - 1)
      else if c = character \<and> depth = 0 then Some i
      else depth_zero_loop cs character (i + 1) depth)"

definition find_at_depth_zero :: "string \<Rightarrow> char \<Rightarrow> nat option" where
  "find_at_depth_zero text character = depth_zero_loop text character 0 0"

text \<open>A text that is written into a buffer.\<close>

definition buffered :: "string \<Rightarrow> string" where
  "buffered text = take (MESSAGE_BUFFER_SIZE - 1) text"

definition names_type :: "DeclarationKind \<Rightarrow> bool" where
  "names_type kind \<longleftrightarrow> kind = DECLARATION_STRUCT \<or> kind = DECLARATION_ENUM \<or> kind = DECLARATION_ALIAS"

definition resolve_leaf :: "resolve_scope option \<Rightarrow> string \<Rightarrow> (bool \<times> string) naming" where
  "resolve_leaf scope written = (\<lambda>(t, pool). do {
     entry \<leftarrow> (if hd written = CHR ''.''
       then do {
         i \<leftarrow> module_table_find t (Some []);
         module_scope_lookup t i (tl written)
       }
       else module_resolve_written t scope written);
     Some (case entry of
         None \<Rightarrow> ((t, pool), False, written)
       | Some e \<Rightarrow>
           if names_type (entry_kind (declarations t ! e))
           then let (t, name) = module_mangle t e in ((t, pool), True, name)
           else ((t, pool), False, written))
   })"

text \<open>The loop over the parameters or the return types of a signature; \<open>types\<close> resolves one of them.\<close>

fun signature_loop :: "(string \<Rightarrow> (bool \<times> string) naming) \<Rightarrow> (bool \<times> string) list \<Rightarrow> string \<Rightarrow> bool \<Rightarrow> bool \<Rightarrow> (bool \<times> string) naming" where
  "signature_loop types [] so_far is_first was_changed s = Some (s, was_changed, so_far)"
| "signature_loop types ((mutable, part) # parts) so_far is_first was_changed s = do {
     (s, changed, resolved) \<leftarrow> types part s;
     signature_loop types parts
       (buffered (so_far @ (if is_first then [] else '','') @ (if mutable then ''&'' else []) @ resolved)) False (was_changed \<or> changed) s
   }"

definition resolve_returns :: "(string \<Rightarrow> (bool \<times> string) naming) \<Rightarrow> string list \<Rightarrow> (bool \<times> string) naming" where
  "resolve_returns types returned s = do {
     (s, changed, parts) \<leftarrow> signature_loop types (map (Pair False) returned) [] True False s;
     Some (s, changed, case returned of [] \<Rightarrow> [] | [_] \<Rightarrow> parts | _ \<Rightarrow> buffered (''('' @ parts @ '')''))
   }"

definition resolve_signature_name :: "(string \<Rightarrow> (bool \<times> string) naming) \<Rightarrow> string \<Rightarrow> (bool \<times> string) naming" where
  "resolve_signature_name types written = (\<lambda>(t, pool). do {
     (pool, r) \<leftarrow> type_from_name pool (Some written);
     let function_type = deref pool r;
     case type_signature function_type of
       None \<Rightarrow> Some ((t, pool), False, written)
     | Some signature \<Rightarrow>
         if type_kind function_type \<noteq> TYPE_KIND_FUNCTION then Some ((t, pool), False, written)
         else do {
           (s, parameters_changed, parameter_list) \<leftarrow>
             signature_loop types (zip (is_parameter_mutable signature) (parameter_types signature)) [] True False (t, pool);
           (s, returns_changed, return_list) \<leftarrow> resolve_returns types (return_types signature) s;
           Some (s, if \<not> parameters_changed \<and> \<not> returns_changed then (False, written)
             else (True, buffered (''func('' @ parameter_list @ '')'' @ (if return_types signature \<noteq> [] then ''->'' @ return_list else []))))
         }
   })"

definition resolve_array_name :: "(string \<Rightarrow> (bool \<times> string) naming) \<Rightarrow> string \<Rightarrow> (bool \<times> string) naming" where
  "resolve_array_name types written s =
     (let inner = butlast (tl written);
          comma = find_at_depth_zero inner (CHR '','')
      in do {
        (s, changed, element) \<leftarrow> types (case comma of Some i \<Rightarrow> take i inner | None \<Rightarrow> inner) s;
        Some (s, case comma of
            Some i \<Rightarrow> (True, buffered (''['' @ element @ '','' @ drop (i + 1) inner @ '']''))
          | None \<Rightarrow> if changed then (True, buffered (''['' @ element @ '']'')) else (False, written))
      })"

definition resolve_pointer_name :: "(string \<Rightarrow> (bool \<times> string) naming) \<Rightarrow> string \<Rightarrow> (bool \<times> string) naming" where
  "resolve_pointer_name types written s = do {
     (s, changed, pointee) \<leftarrow> types (tl written) s;
     Some (s, if changed then (True, buffered (''^'' @ pointee)) else (False, written))
   }"

definition resolve_map_name :: "(string \<Rightarrow> (bool \<times> string) naming) \<Rightarrow> string \<Rightarrow> (bool \<times> string) naming" where
  "resolve_map_name types written s =
     (let inner = butlast (drop 4 written)
      in case find_at_depth_zero inner (CHR '':'') of
           None \<Rightarrow> Some (s, False, written)
         | Some i \<Rightarrow> do {
             (s, key_changed, key) \<leftarrow> types (take i inner) s;
             (s, value_changed, value_text) \<leftarrow> types (drop (i + 1) inner) s;
             Some (s, if key_changed \<or> value_changed then (True, buffered (''map['' @ key @ '':'' @ value_text @ '']'')) else (False, written))
           })"

fun module_resolve_type_name :: "nat \<Rightarrow> resolve_scope option \<Rightarrow> string \<Rightarrow> (bool \<times> string) naming" where
  "module_resolve_type_name 0 scope written s = None"
| "module_resolve_type_name (Suc k) scope written s =
     (if written = [] then Some (s, False, written)
      else if hd written = CHR ''['' \<and> last written = CHR '']'' then resolve_array_name (module_resolve_type_name k scope) written s
      else if hd written = CHR ''^'' then resolve_pointer_name (module_resolve_type_name k scope) written s
      else if 5 < length written \<and> starts_with ''map['' written \<and> last written = CHR '']''
      then resolve_map_name (module_resolve_type_name k scope) written s
      else if 5 < length written \<and> starts_with ''func('' written then resolve_signature_name (module_resolve_type_name k scope) written s
      else resolve_leaf scope written s)"

end
