(* ===== verification/Module_Values.thy ===== *)
theory Module_Values
  imports Modules
begin

text \<open>
  What the module table answers: the invariant its operations keep, the tables of declarations they stand
  for, and the rules of resolution.
\<close>

subsection \<open>The invariant\<close>

definition scope_index_ok :: "module_table \<Rightarrow> module_scope \<Rightarrow> bool" where
  "scope_index_ok t s \<longleftrightarrow> index_ok (entries_hash s) (entry_names t (scope_entries s))
     \<and> (\<forall>e \<in> set (scope_entries s). e < length (declarations t))"

definition node_index_ok :: "(node, nat) probe_table option \<Rightarrow> nat \<Rightarrow> bool" where
  "node_index_ok index n \<longleftrightarrow>
     (case index of
        None \<Rightarrow> n = 0
      | Some index \<Rightarrow> table_lists node_hash index (live_entries index) \<and> length (live_entries index) = n \<and> n * 2 \<le> length index)"

definition mangled_ok :: "module_table \<Rightarrow> bool" where
  "mangled_ok t \<longleftrightarrow> index_ok (mangled_index t) (mangled_names t) \<and> (\<forall>e \<in> set (mangled_entries t). e < length (declarations t))"

definition modules_ok :: "module_table \<Rightarrow> bool" where
  "modules_ok t \<longleftrightarrow> index_ok (modules_hash t) (map scope_module_name (modules t)) \<and> list_all (scope_index_ok t) (modules t)
     \<and> index_ok (file_hash t) (map fst (file_modules t)) \<and> node_index_ok (node_index t) (node_count t) \<and> mangled_ok t"

text \<open>What a module declares under a name.\<close>

definition declared :: "module_table \<Rightarrow> nat \<Rightarrow> string \<Rightarrow> nat option" where
  "declared t i name = find (\<lambda>e. entry_name (declarations t ! e) = name) (scope_entries (modules t ! i))"

definition find_module :: "module_table \<Rightarrow> string \<Rightarrow> nat option" where
  "find_module t name = index_of (map scope_module_name (modules t)) name"

lemma create_ok: "modules_ok module_table_create"
  by (simp add: modules_ok_def module_table_create_def index_ok_def node_index_ok_def mangled_ok_def mangled_names_def)

lemma module_table_find_value: "modules_ok t \<Longrightarrow> module_table_find t (Some name) = Some (find_module t name)"
  by (simp add: modules_ok_def module_table_find_def find_module_def index_find)

lemma find_module_bound: "find_module t name = Some i \<Longrightarrow> i < length (modules t) \<and> scope_module_name (modules t ! i) = name"
  unfolding find_module_def by (drule index_of_bound) auto

lemma find_module_nth: "modules_ok t \<Longrightarrow> i < length (modules t) \<Longrightarrow> find_module t (scope_module_name (modules t ! i)) = Some i"
proof -
  assume t: "modules_ok t" "i < length (modules t)"
  have "scope_module_name (modules t ! i) \<in> set (map scope_module_name (modules t))" using t(2) by simp
  then obtain j where j: "find_module t (scope_module_name (modules t ! i)) = Some j"
    unfolding find_module_def index_of_def by simp
  have "distinct (map scope_module_name (modules t))" using t(1) unfolding modules_ok_def by (blast dest: index_distinct)
  then have "j = i" using find_module_bound [OF j] t(2) by (simp add: distinct_conv_nth) metis
  then show ?thesis using j by simp
qed

lemma module_scope_ok: "modules_ok t \<Longrightarrow> i < length (modules t) \<Longrightarrow> scope_index_ok t (modules t ! i)"
  by (simp add: modules_ok_def list_all_length)

lemma module_scope_lookup_value:
  assumes "modules_ok t" "i < length (modules t)"
  shows "module_scope_lookup t (Some i) name = Some (declared t i name)"
proof -
  have "index_ok (entries_hash (modules t ! i)) (entry_names t (scope_entries (modules t ! i)))"
    using module_scope_ok [OF assms] by (simp add: scope_index_ok_def)
  from index_find [OF this, of name] show ?thesis
    using index_of_nth [of "scope_entries (modules t ! i)" "\<lambda>e. entry_name (declarations t ! e)" name]
    by (simp add: module_scope_lookup_def declared_def entry_names_def)
qed

lemma declared_bound: "modules_ok t \<Longrightarrow> i < length (modules t) \<Longrightarrow> declared t i name = Some e \<Longrightarrow>
    e < length (declarations t) \<and> e \<in> set (scope_entries (modules t ! i)) \<and> entry_name (declarations t ! e) = name"
  using module_scope_ok [of t i] by (auto simp: declared_def find_Some_iff scope_index_ok_def)

text \<open>A step that only adds: modules, declarations and the entries of the modules stay where they were.\<close>

lemma entry_names_append: "\<forall>e \<in> set es. e < length (declarations t) \<Longrightarrow> declarations t' = declarations t @ ds \<Longrightarrow>
    entry_names t' es = entry_names t es"
  by (simp add: entry_names_def nth_append)

lemma scope_index_ok_append: "scope_index_ok t s \<Longrightarrow> declarations t' = declarations t @ ds \<Longrightarrow> scope_index_ok t' s"
  using entry_names_append [of "scope_entries s" t t' ds] by (auto simp: scope_index_ok_def)

subsection \<open>Creating modules\<close>

lemma module_table_scope_ok:
  assumes "modules_ok t"
  shows "\<exists>t' i. module_table_scope t name is_entry = Some (t', i) \<and> modules_ok t' \<and> find_module t' name = Some i
    \<and> (\<exists>hash. t' = t\<lparr>modules := modules t', modules_hash := hash\<rparr>)
    \<and> (modules t' = modules t \<or> find_module t name = None
       \<and> modules t' = modules t @ [\<lparr>scope_module_name = name, scope_is_entry = is_entry, scope_entries = [], entries_hash = None\<rparr>])"
proof (cases "find_module t name")
  case None
  let ?s = "\<lparr>scope_module_name = name, scope_is_entry = is_entry, scope_entries = [], entries_hash = None\<rparr>"
  have new: "name \<notin> set (map scope_module_name (modules t))" using None by (simp add: find_module_def index_of_None)
  obtain hash where hash: "index_add hash_target_capacity (modules_hash t) (map scope_module_name (modules t)) name = Some hash"
      "index_ok hash (map scope_module_name (modules t) @ [name])"
    using index_add_value [OF _ hash_target new] assms unfolding modules_ok_def by blast
  let ?t = "t\<lparr>modules := modules t @ [?s], modules_hash := hash\<rparr>"
  have "scope_index_ok ?t s \<longleftrightarrow> scope_index_ok t s" for s by (simp add: scope_index_ok_def entry_names_def)
  moreover have "scope_index_ok t ?s" by (simp add: scope_index_ok_def index_ok_def entry_names_def)
  ultimately have "modules_ok ?t"
    using assms hash(2) by (simp add: modules_ok_def mangled_ok_def mangled_names_def list_all_iff)
  moreover have "module_table_scope t name is_entry = Some (?t, length (modules t))"
    using assms None hash(1) by (simp add: module_table_scope_def module_table_find_value)
  moreover have "find_module ?t name = Some (length (modules t))" using index_of_append [OF new, of name] by (simp add: find_module_def)
  ultimately show ?thesis using None by (intro exI [of _ ?t] exI [of _ "length (modules t)"]) auto
next
  case (Some i)
  then have "module_table_scope t name is_entry = Some (t, i)" using assms by (simp add: module_table_scope_def module_table_find_value)
  moreover have "\<exists>hash. t = t\<lparr>modules := modules t, modules_hash := hash\<rparr>" by (intro exI [of _ "modules_hash t"]) simp
  ultimately show ?thesis using Some assms by blast
qed

subsection \<open>Adding declarations\<close>

lemma scope_add_entry_ok:
  assumes t: "modules_ok t" "i < length (modules t)" "e < length (declarations t)"
    and new: "declared t i (entry_name (declarations t ! e)) = None"
  shows "\<exists>hash. scope_add_entry t i e = Some (t\<lparr>modules := (modules t)[i := (modules t ! i)\<lparr>scope_entries := scope_entries (modules t ! i) @ [e],
        entries_hash := hash\<rparr>]\<rparr>)
    \<and> modules_ok (t\<lparr>modules := (modules t)[i := (modules t ! i)\<lparr>scope_entries := scope_entries (modules t ! i) @ [e], entries_hash := hash\<rparr>]\<rparr>)"
proof -
  let ?s = "modules t ! i" and ?name = "entry_name (declarations t ! e)"
  have ok: "index_ok (entries_hash ?s) (entry_names t (scope_entries ?s))" "\<forall>x \<in> set (scope_entries ?s). x < length (declarations t)"
    using module_scope_ok [OF t(1,2)] by (simp_all add: scope_index_ok_def)
  have "?name \<notin> set (entry_names t (scope_entries ?s))" using new by (auto simp: declared_def find_None_iff entry_names_def)
  then obtain hash where hash: "index_add hash_target_capacity (entries_hash ?s) (entry_names t (scope_entries ?s)) ?name = Some hash"
      "index_ok hash (entry_names t (scope_entries ?s) @ [?name])"
    using index_add_value [OF ok(1) hash_target] by blast
  let ?s' = "?s\<lparr>scope_entries := scope_entries ?s @ [e], entries_hash := hash\<rparr>"
  let ?t = "t\<lparr>modules := (modules t)[i := ?s']\<rparr>"
  have same: "scope_index_ok ?t s \<longleftrightarrow> scope_index_ok t s" for s by (simp add: scope_index_ok_def entry_names_def)
  have "scope_index_ok t ?s'" using hash(2) ok(2) t(3) by (auto simp: scope_index_ok_def entry_names_def)
  then have "list_all (scope_index_ok ?t) (modules ?t)"
    using t(1) by (auto simp: same modules_ok_def list_all_iff dest!: set_update_subset_insert [THEN subsetD])
  moreover have "map scope_module_name ((modules t)[i := ?s']) = map scope_module_name (modules t)"
    using t(2) by (simp add: map_update) (metis list_update_id nth_map)
  ultimately have "modules_ok ?t" using t(1) by (simp add: modules_ok_def mangled_ok_def mangled_names_def)
  then show ?thesis using hash(1) by (intro exI [of _ hash]) (simp add: scope_add_entry_def Let_def)
qed

lemma declared_add:
  assumes "i < length (modules t)" "declared t i (entry_name (declarations t ! e)) = None"
  shows "declared (t\<lparr>modules := (modules t)[i := (modules t ! i)\<lparr>scope_entries := scope_entries (modules t ! i) @ [e], entries_hash := hash\<rparr>]\<rparr>) j name =
    (if j = i \<and> name = entry_name (declarations t ! e) then Some e else declared t j name)"
proof -
  have append: "find P (xs @ [x]) = (case find P xs of None \<Rightarrow> if P x then Some x else None | Some y \<Rightarrow> Some y)" for P and xs :: "nat list" and x
    by (induction xs) auto
  show ?thesis
  proof (cases "j = i")
    case True
    then show ?thesis using assms by (auto simp: declared_def append split: option.splits)
  qed (simp add: declared_def)
qed

subsection \<open>The index by node\<close>

definition node_entry :: "module_table \<Rightarrow> node \<Rightarrow> nat option" where
  "node_entry t n = (case node_index t of None \<Rightarrow> None | Some index \<Rightarrow> map_of (live_entries index) n)"

lemma entry_for_node_value:
  assumes "node_index_ok (node_index t) (node_count t)"
  shows "module_table_entry_for_node t (Some n) = Some (node_entry t n)"
proof (cases "node_index t")
  case (Some index)
  then have t: "table_lists node_hash index (live_entries index)" "length (live_entries index) * 2 \<le> length index"
    using assms by (auto simp: node_index_ok_def)
  have "capacity_ok (length index)" using t(1) unfolding table_lists_def by blast
  then have "8 \<le> length index" by (rule capacity_okD)
  then have "length (live_entries index) < length index" using t(2) by linarith
  from probe_find_value [OF t(1) this] show ?thesis using Some by (simp add: module_table_entry_for_node_def node_entry_def)
qed (simp add: module_table_entry_for_node_def node_entry_def)

lemma node_index_grow_ok:
  assumes "node_index_ok (node_index t) (node_count t)"
  shows "\<exists>index. node_index_grow t = Some index \<and> table_lists node_hash index (live_entries index)
    \<and> length (live_entries index) = node_count t \<and> (node_count t + 1) * 2 \<le> length index
    \<and> map_of (live_entries index) = node_entry t"
proof (cases "node_index t")
  case None
  then have n: "node_count t = 0" using assms by (simp add: node_index_ok_def)
  obtain capacity where c: "hash_target_capacity 0 1 = Some capacity" "capacity_ok capacity" "2 \<le> capacity"
    using hash_target [unfolded target_ok_def, rule_format, of 0 1] by auto
  note e = table_lists_empty [OF c(2), of node_hash]
  have live: "live_entries (replicate capacity None) = []" by (simp add: live_entries_def)
  have "node_index_grow t = Some (replicate capacity None)"
    using c(1) by (simp add: node_index_grow_def None n live_entries_def)
  then show ?thesis using c(3) e n None by (simp add: live node_entry_def fun_eq_iff)
next
  case (Some old)
  then have old: "table_lists node_hash old (live_entries old)" "length (live_entries old) = node_count t" "node_count t * 2 \<le> length old"
    using assms by (simp_all add: node_index_ok_def)
  show ?thesis
  proof (cases "length old < (node_count t + 1) * 2")
    case True
    have "capacity_ok (length old)" using old(1) unfolding table_lists_def by blast
    then obtain capacity where c: "hash_target_capacity (length old) (node_count t + 1) = Some capacity" "capacity_ok capacity"
        "(node_count t + 1) * 2 \<le> capacity"
      using hash_target [unfolded target_ok_def, rule_format, of "length old" "node_count t + 1"] old(3) by auto
    have "length (live_entries old) \<le> capacity" using c(3) old(2) by simp
    from table_lists_grow [OF old(1) c(2) this] obtain index where i: "place_all node_hash (replicate capacity None) (live_entries old) = Some index"
      "length index = capacity" "table_lists node_hash index (live_entries old)" by blast
    have "node_index_grow t = Some index" using Some True c(1) i(1) by (simp add: node_index_grow_def)
    moreover have "map_of (live_entries index) = node_entry t" using map_of_live [OF i(3)] Some by (simp add: node_entry_def fun_eq_iff)
    ultimately show ?thesis using i(2) c(3) old(2) table_lists_live [OF i(3)] live_entries_value(3) [OF i(3)] by simp
  next
    case False
    then have "node_index_grow t = Some old" using Some by (simp add: node_index_grow_def)
    then show ?thesis using False old Some by (simp add: node_entry_def fun_eq_iff)
  qed
qed

lemma node_index_add_ok:
  assumes ok: "node_index_ok (node_index t) (node_count t)" and new: "node_entry t n = None"
  shows "\<exists>index. node_index_add t (Some n) e = Some (t\<lparr>node_index := Some index, node_count := node_count t + 1\<rparr>)
    \<and> node_index_ok (Some index) (node_count t + 1) \<and> map_of (live_entries index) = (node_entry t)(n \<mapsto> e)"
proof -
  obtain grown where g: "node_index_grow t = Some grown" "table_lists node_hash grown (live_entries grown)"
    "length (live_entries grown) = node_count t" "(node_count t + 1) * 2 \<le> length grown" "map_of (live_entries grown) = node_entry t"
    using node_index_grow_ok [OF ok] by blast
  have "n \<notin> fst ` set (live_entries grown)" using new by (simp add: g(5) [symmetric] map_of_eq_None_iff)
  moreover have "length (live_entries grown) < length grown" using g(3,4) by simp
  ultimately obtain index where i: "node_index_place grown n e = Some index" "length index = length grown"
    "table_lists node_hash index (live_entries grown @ [(n, e)])"
    using probe_place_value [OF g(2), of n e] unfolding node_index_place_def by blast
  have "map_of (live_entries index) = map_of (live_entries grown @ [(n, e)])" using map_of_live [OF i(3)] .
  also have "\<dots> = (node_entry t)(n \<mapsto> e)" using map_of_snoc [of n "live_entries grown" e] new by (simp add: g(5) [symmetric] map_of_eq_None_iff)
  finally have "map_of (live_entries index) = (node_entry t)(n \<mapsto> e)" .
  moreover have "node_index_ok (Some index) (node_count t + 1)"
    using table_lists_live [OF i(3)] live_entries_value(3) [OF i(3)] g(3,4) i(2) by (simp add: node_index_ok_def)
  moreover have "node_index_add t (Some n) e = Some (t\<lparr>node_index := Some index, node_count := node_count t + 1\<rparr>)"
    using g(1) i(1) by (simp add: node_index_add_def)
  ultimately show ?thesis by blast
qed

subsection \<open>The index by mangled name\<close>

lemma mangled_index_add_ok:
  assumes "mangled_ok t" "e < length (declarations t)"
  shows "\<exists>hash es. mangled_index_add t e = Some (t\<lparr>mangled_index := hash, mangled_entries := es\<rparr>)
    \<and> mangled_ok (t\<lparr>mangled_index := hash, mangled_entries := es\<rparr>)
    \<and> (es = mangled_entries t \<and> module_mangle_into (declarations t ! e) MESSAGE_BUFFER_SIZE \<in> set (mangled_names t)
       \<or> es = mangled_entries t @ [e] \<and> module_mangle_into (declarations t ! e) MESSAGE_BUFFER_SIZE \<notin> set (mangled_names t))"
proof -
  let ?mangled = "module_mangle_into (declarations t ! e) MESSAGE_BUFFER_SIZE"
  have ok: "index_ok (mangled_index t) (mangled_names t)" using assms by (simp add: mangled_ok_def)
  note found = index_find [OF ok, of ?mangled]
  show ?thesis
  proof (cases "?mangled \<in> set (mangled_names t)")
    case True
    have "mangled_index_add t e = Some t" using True found by (simp add: mangled_index_add_def Let_def index_of_def)
    then show ?thesis using True assms by (intro exI [of _ "mangled_index t"] exI [of _ "mangled_entries t"]) simp
  next
    case False
    then obtain hash where hash: "index_add hash_target_capacity (mangled_index t) (mangled_names t) ?mangled = Some hash"
        "index_ok hash (mangled_names t @ [?mangled])"
      using index_add_value [OF ok hash_target] by blast
    have "mangled_index_add t e = Some (t\<lparr>mangled_index := hash, mangled_entries := mangled_entries t @ [e]\<rparr>)"
      using False found hash(1) by (simp add: mangled_index_add_def Let_def index_of_def)
    moreover have "mangled_ok (t\<lparr>mangled_index := hash, mangled_entries := mangled_entries t @ [e]\<rparr>)"
      using hash(2) assms by (auto simp: mangled_ok_def mangled_names_def)
    ultimately show ?thesis using False by blast
  qed
qed

subsection \<open>Declaring\<close>

text \<open>Appending a declaration that nothing refers to keeps the invariant and all answers.\<close>

lemma append_declaration:
  assumes "modules_ok t" and t'_def: "t' = t\<lparr>declarations := declarations t @ [d]\<rparr>"
  shows "modules_ok t'" "i < length (modules t) \<Longrightarrow> declared t' i name = declared t i name"
    "mangled_names t' = mangled_names t"
proof -
  have d: "declarations t' = declarations t @ [d]" by (simp add: t'_def)
  show names: "mangled_names t' = mangled_names t"
    using assms(1) by (auto simp: modules_ok_def mangled_ok_def mangled_names_def t'_def nth_append)
  have "scope_index_ok t' s" if "scope_index_ok t s" for s using scope_index_ok_append [OF that d] .
  then have "list_all (scope_index_ok t') (modules t')" using assms(1) by (auto simp: modules_ok_def list_all_iff t'_def)
  moreover have "mangled_ok t'" using assms(1) names by (auto simp: modules_ok_def mangled_ok_def t'_def)
  ultimately show "modules_ok t'" using assms(1) by (simp add: modules_ok_def t'_def)
  show "declared t' i name = declared t i name" if "i < length (modules t)"
  proof -
    have "\<forall>e \<in> set (scope_entries (modules t ! i)). e < length (declarations t)"
      using module_scope_ok [OF assms(1) that] by (simp add: scope_index_ok_def)
    then show ?thesis unfolding declared_def t'_def by (intro find_cong) (auto simp: nth_append)
  qed
qed

lemma scope_index_ok_same: "declarations t' = declarations t \<Longrightarrow> scope_index_ok t' = scope_index_ok t"
  by (simp add: fun_eq_iff scope_index_ok_def entry_names_def)

lemma modules_ok_node:
  "modules_ok t \<Longrightarrow> node_index_ok index n \<Longrightarrow> modules_ok (t\<lparr>node_index := index, node_count := n\<rparr>)"
  using scope_index_ok_same [of "t\<lparr>node_index := index, node_count := n\<rparr>" t] by (simp add: modules_ok_def mangled_ok_def mangled_names_def)

lemma modules_ok_mangled:
  "modules_ok t \<Longrightarrow> mangled_ok (t\<lparr>mangled_index := hash, mangled_entries := es\<rparr>) \<Longrightarrow> modules_ok (t\<lparr>mangled_index := hash, mangled_entries := es\<rparr>)"
  using scope_index_ok_same [of "t\<lparr>mangled_index := hash, mangled_entries := es\<rparr>" t] by (simp add: modules_ok_def)

definition fresh_node :: "module_table \<Rightarrow> node option \<Rightarrow> bool" where
  "fresh_node t n \<longleftrightarrow> (case n of None \<Rightarrow> True | Some a \<Rightarrow> node_entry t a = None)"

text \<open>
  Declaring a name of a module returns, and the module answers it with the declaration; nothing else that
  was declared changes. A name that is taken keeps its declaration.
\<close>

lemma module_scope_define_taken:
  assumes "modules_ok t" "i < length (modules t)" "declared t i name = Some e"
  shows "module_scope_define t i kind name n file line visible = Some (t, e)"
  using assms by (simp add: module_scope_define_def module_scope_lookup_value)

lemma module_scope_define_new:
  assumes t: "modules_ok t" "i < length (modules t)" "declared t i name = None" "fresh_node t n"
  shows "\<exists>t'. module_scope_define t i kind name n file line visible = Some (t', length (declarations t)) \<and> modules_ok t'
    \<and> length (modules t') = length (modules t)
    \<and> map scope_module_name (modules t') = map scope_module_name (modules t)
    \<and> (\<forall>j < length (modules t). \<forall>x. declared t' j x = (if j = i \<and> x = name then Some (length (declarations t)) else declared t j x))
    \<and> declarations t' = declarations t @ [\<lparr>entry_kind = kind, entry_name = name, entry_module_name = Some (scope_module_name (modules t ! i)),
         is_module_entry = scope_is_entry (modules t ! i), ast_node = n, origin_file = file, origin_line = line,
         visibility = visible, is_external = False, registry_index = - 1, cached_mangled_name = None\<rparr>]
    \<and> node_entry t' = (case n of None \<Rightarrow> node_entry t | Some a \<Rightarrow> (node_entry t)(a \<mapsto> length (declarations t)))
    \<and> aliases t' = aliases t"
proof -
  let ?e = "length (declarations t)"
  let ?d = "\<lparr>entry_kind = kind, entry_name = name, entry_module_name = Some (scope_module_name (modules t ! i)),
      is_module_entry = scope_is_entry (modules t ! i), ast_node = n, origin_file = file, origin_line = line,
      visibility = visible, is_external = False, registry_index = - 1, cached_mangled_name = None\<rparr>"
  define t1 where "t1 = t\<lparr>declarations := declarations t @ [?d]\<rparr>"
  have t1: "modules_ok t1" "i < length (modules t1)" "?e < length (declarations t1)" "entry_name (declarations t1 ! ?e) = name"
    and declared1: "declared t1 j x = declared t j x" if "j < length (modules t)" for j x
    using append_declaration [OF t(1) t1_def] t(2) that by (simp_all add: t1_def)
  then have new: "declared t1 i (entry_name (declarations t1 ! ?e)) = None" using t(2,3) by simp
  obtain hash where add: "scope_add_entry t1 i ?e = Some (t1\<lparr>modules := (modules t1)[i := (modules t1 ! i)\<lparr>scope_entries := scope_entries (modules t1 ! i) @ [?e], entries_hash := hash\<rparr>]\<rparr>)"
      "modules_ok (t1\<lparr>modules := (modules t1)[i := (modules t1 ! i)\<lparr>scope_entries := scope_entries (modules t1 ! i) @ [?e], entries_hash := hash\<rparr>]\<rparr>)"
    using scope_add_entry_ok [OF t1(1-3)] new t(2) by blast
  define t2 where "t2 = t1\<lparr>modules := (modules t1)[i := (modules t1 ! i)\<lparr>scope_entries := scope_entries (modules t1 ! i) @ [?e], entries_hash := hash\<rparr>]\<rparr>"
  have t2: "modules_ok t2" "node_entry t2 = node_entry t" "aliases t2 = aliases t" "declarations t2 = declarations t @ [?d]"
      "length (modules t2) = length (modules t)"
    using add(2) by (simp_all add: t2_def t1_def node_entry_def fun_eq_iff)
  have names2: "map scope_module_name (modules t2) = map scope_module_name (modules t)"
    using t(2) by (simp add: t2_def t1_def map_update) (metis list_update_id nth_map)
  have declared2: "declared t2 j x = (if j = i \<and> x = name then Some ?e else declared t j x)" if "j < length (modules t)" for j x
    unfolding t2_def declared_add [OF t1(2) [OF t(2)] new] using declared1 [OF that] t1(4) [OF t(2)] by simp
  have "\<exists>index count. node_index_add t2 n ?e = Some (t2\<lparr>node_index := index, node_count := count\<rparr>) \<and> node_index_ok index count
      \<and> node_entry (t2\<lparr>node_index := index, node_count := count\<rparr>) = (case n of None \<Rightarrow> node_entry t | Some a \<Rightarrow> (node_entry t)(a \<mapsto> ?e))"
  proof (cases n)
    case None
    then show ?thesis using t2 by (intro exI [of _ "node_index t2"] exI [of _ "node_count t2"]) (simp add: node_index_add_def modules_ok_def)
  next
    case (Some a)
    have "node_index_ok (node_index t2) (node_count t2)" "node_entry t2 a = None" using t2(1,2) t(4) Some by (simp_all add: modules_ok_def fresh_node_def)
    from node_index_add_ok [OF this, of ?e] obtain index where
      "node_index_add t2 (Some a) ?e = Some (t2\<lparr>node_index := Some index, node_count := node_count t2 + 1\<rparr>)"
      "node_index_ok (Some index) (node_count t2 + 1)" "map_of (live_entries index) = (node_entry t2)(a \<mapsto> ?e)" by blast
    then show ?thesis using Some t2(2) by (intro exI [of _ "Some index"] exI [of _ "node_count t2 + 1"]) (simp add: node_entry_def fun_eq_iff)
  qed
  then obtain index count where node: "node_index_add t2 n ?e = Some (t2\<lparr>node_index := index, node_count := count\<rparr>)" "node_index_ok index count"
      "node_entry (t2\<lparr>node_index := index, node_count := count\<rparr>) = (case n of None \<Rightarrow> node_entry t | Some a \<Rightarrow> (node_entry t)(a \<mapsto> ?e))" by blast
  define t3 where "t3 = t2\<lparr>node_index := index, node_count := count\<rparr>"
  have t3: "modules_ok t3" unfolding t3_def by (rule modules_ok_node [OF t2(1) node(2)])
  then have "mangled_ok t3" "?e < length (declarations t3)" using t2(4) by (simp_all add: modules_ok_def t3_def)
  from mangled_index_add_ok [OF this] obtain hash es where m: "mangled_index_add t3 ?e = Some (t3\<lparr>mangled_index := hash, mangled_entries := es\<rparr>)"
    "mangled_ok (t3\<lparr>mangled_index := hash, mangled_entries := es\<rparr>)" by blast
  define t4 where "t4 = t3\<lparr>mangled_index := hash, mangled_entries := es\<rparr>"
  have "module_scope_define t i kind name n file line visible = Some (t4, ?e)"
    using t add(1) node(1) m(1) unfolding module_scope_define_def
    by (simp add: module_scope_lookup_value Let_def t1_def [symmetric] t2_def [symmetric] t3_def [symmetric] t4_def [symmetric])
  moreover have "modules_ok t4" unfolding t4_def by (rule modules_ok_mangled [OF t3 m(2)])
  moreover have "declared t4 j x = declared t2 j x" for j x by (simp add: declared_def t4_def t3_def)
  moreover have "node_entry t4 = (case n of None \<Rightarrow> node_entry t | Some a \<Rightarrow> (node_entry t)(a \<mapsto> ?e))"
    using node(3) by (simp add: t4_def t3_def node_entry_def fun_eq_iff)
  moreover have "modules t4 = modules t2" "declarations t4 = declarations t2" "aliases t4 = aliases t2" by (simp_all add: t4_def t3_def)
  ultimately show ?thesis using declared2 t2 names2 by auto
qed

end
