(* ===== verification/Module_Resolution.thy ===== *)
theory Module_Resolution
  imports Module_Values
begin

text \<open>
  Files, includes, aliases and the resolution of names in a module table that is in its invariant.
\<close>

subsection \<open>Files\<close>

lemma index_of_map_of: "map_option (\<lambda>i. snd (xs ! i)) (index_of (map fst xs) p) = map_of xs p"
proof -
  have "map_of xs p = map_option snd (find (\<lambda>x. fst x = p) xs)" by (induction xs) auto
  then show ?thesis using index_of_nth [of xs fst p, symmetric] by (simp add: option.map_comp comp_def)
qed

lemma module_for_file_value:
  assumes "modules_ok t"
  shows "module_table_module_for_file t (Some path) =
    Some (case map_of (file_modules t) path of Some m \<Rightarrow> Some m | None \<Rightarrow> entry_module t)"
proof -
  have "index_ok (file_hash t) (map fst (file_modules t))" using assms by (simp add: modules_ok_def)
  from index_find [OF this, of path] show ?thesis
    using index_of_map_of [of "file_modules t" path] by (auto simp: module_table_module_for_file_def split: option.splits)
qed

lemma modules_ok_files:
  "modules_ok t \<Longrightarrow> index_ok hash (map fst fs) \<Longrightarrow> modules_ok (t\<lparr>file_modules := fs, file_hash := hash\<rparr>)"
  using scope_index_ok_same [of "t\<lparr>file_modules := fs, file_hash := hash\<rparr>" t]
  by (simp add: modules_ok_def mangled_ok_def mangled_names_def)

lemma modules_ok_entry: "modules_ok (t\<lparr>entry_module := m\<rparr>) \<longleftrightarrow> modules_ok t"
  using scope_index_ok_same [of "t\<lparr>entry_module := m\<rparr>" t] by (simp add: modules_ok_def mangled_ok_def mangled_names_def)

lemma map_file_path_ok:
  assumes "modules_ok t" "find_module t name = Some i"
  shows "\<exists>hash. map_file_path t path name = Some (t\<lparr>file_modules :=
        (if map_of (file_modules t) path = None then file_modules t @ [(path, name)] else file_modules t), file_hash := hash\<rparr>)
    \<and> modules_ok (t\<lparr>file_modules :=
        (if map_of (file_modules t) path = None then file_modules t @ [(path, name)] else file_modules t), file_hash := hash\<rparr>)"
proof -
  have index: "index_ok (file_hash t) (map fst (file_modules t))" using assms(1) by (simp add: modules_ok_def)
  note mapped = index_find [OF index, of path]
  have same: "index_of (map fst (file_modules t)) path = None \<longleftrightarrow> map_of (file_modules t) path = None"
    by (simp add: index_of_None map_of_eq_None_iff)
  show ?thesis
  proof (cases "map_of (file_modules t) path")
    case None
    then have new: "path \<notin> set (map fst (file_modules t))" using same by (simp add: index_of_None)
    obtain hash where hash: "index_add hash_target_capacity (file_hash t) (map fst (file_modules t)) path = Some hash"
        "index_ok hash (map fst (file_modules t) @ [path])"
      using index_add_value [OF index hash_target new] by blast
    have "modules_ok (t\<lparr>file_modules := file_modules t @ [(path, name)], file_hash := hash\<rparr>)"
      using modules_ok_files [OF assms(1), of hash "file_modules t @ [(path, name)]"] hash(2) by simp
    moreover have "map_file_path t path name = Some (t\<lparr>file_modules := file_modules t @ [(path, name)], file_hash := hash\<rparr>)"
      using None same hash(1) mapped assms find_module_bound [OF assms(2)] by (simp add: map_file_path_def module_table_find_value)
    ultimately show ?thesis using None by auto
  next
    case (Some m)
    then have "map_file_path t path name = Some t" using same mapped by (auto simp: map_file_path_def)
    then show ?thesis using Some assms(1) by (intro exI [of _ "file_hash t"]) simp
  qed
qed

text \<open>Mapping a file returns; the file then belongs to the module it was first mapped to.\<close>

lemma map_file_ok:
  assumes "modules_ok t" and name: "name = (if is_entry then MODULE_ENTRY_NAME else module_name)"
  shows "\<exists>t'. module_table_map_file t (Some path) (Some module_name) is_entry = Some t' \<and> modules_ok t'
    \<and> (\<exists>i. find_module t' name = Some i)
    \<and> file_modules t' = (if map_of (file_modules t) path = None then file_modules t @ [(path, name)] else file_modules t)
    \<and> entry_module t' = (if is_entry then Some name else entry_module t)"
proof -
  from module_table_scope_ok [OF assms(1), of name is_entry] obtain t1 i hash where t1: "module_table_scope t name is_entry = Some (t1, i)" "modules_ok t1"
      "find_module t1 name = Some i" "t1 = t\<lparr>modules := modules t1, modules_hash := hash\<rparr>" by blast
  have i: "scope_module_name (modules t1 ! i) = name" using find_module_bound [OF t1(3)] by simp
  define t2 where "t2 = (if is_entry then t1\<lparr>entry_module := Some name\<rparr> else t1)"
  have same: "file_modules t1 = file_modules t" "entry_module t1 = entry_module t" by (subst t1(4), simp)+
  have t2: "modules_ok t2" "find_module t2 name = Some i" "file_modules t2 = file_modules t"
      "entry_module t2 = (if is_entry then Some name else entry_module t)"
    using t1(2,3) same by (simp_all add: t2_def modules_ok_entry find_module_def)
  have rest: "module_table_map_file t (Some path) (Some module_name) is_entry = do {
      (t, _) \<leftarrow> module_table_scope t name is_entry;
      found \<leftarrow> module_table_find t (Some name);
      let t = (if is_entry then t\<lparr>entry_module := map_option (\<lambda>i. scope_module_name (modules t ! i)) found\<rparr> else t);
      map_file_path t path name}"
    unfolding module_table_map_file_def name by (cases is_entry) simp_all
  have "module_table_map_file t (Some path) (Some module_name) is_entry = map_file_path t2 path name"
    unfolding rest t1(1) using t1(3) i module_table_find_value [OF t1(2), of name] by (simp add: t2_def Let_def)
  moreover obtain hash where "map_file_path t2 path name = Some (t2\<lparr>file_modules :=
        (if map_of (file_modules t2) path = None then file_modules t2 @ [(path, name)] else file_modules t2), file_hash := hash\<rparr>)"
      "modules_ok (t2\<lparr>file_modules :=
        (if map_of (file_modules t2) path = None then file_modules t2 @ [(path, name)] else file_modules t2), file_hash := hash\<rparr>)"
    using map_file_path_ok [OF t2(1,2)] by blast
  ultimately show ?thesis using t2 by (simp add: find_module_def)
qed

subsection \<open>Includes\<close>

lemma include_file_ok:
  assumes "modules_ok t"
  shows "\<exists>t'. module_table_include_file t file name = Some t' \<and> modules_ok t' \<and> file_includes t' = file_includes t @ [(file, name)]
    \<and> (\<exists>i. find_module t' name = Some i)"
proof -
  from module_table_scope_ok [OF assms, of name False] obtain t1 i hash where t1: "module_table_scope t name False = Some (t1, i)" "modules_ok t1"
      "find_module t1 name = Some i" "t1 = t\<lparr>modules := modules t1, modules_hash := hash\<rparr>" by blast
  have "file_includes t1 = file_includes t" by (subst t1(4)) simp
  moreover have "modules_ok (t1\<lparr>file_includes := fs\<rparr>)" for fs
    using t1(2) scope_index_ok_same [of "t1\<lparr>file_includes := fs\<rparr>" t1] by (simp add: modules_ok_def mangled_ok_def mangled_names_def)
  ultimately show ?thesis using t1(1,3) by (auto simp: module_table_include_file_def find_module_def)
qed

text \<open>A declaration is shared with the modules that include its file and do not declare its name.\<close>

lemma share_loop_ok:
  assumes "modules_ok t" "e < length (declarations t)"
  shows "\<exists>t'. share_loop incs file e t = Some t' \<and> modules_ok t' \<and> declarations t' = declarations t
    \<and> map scope_module_name (modules t') = map scope_module_name (modules t)
    \<and> (\<forall>j < length (modules t). \<forall>x. declared t' j x =
        (if x = entry_name (declarations t ! e) \<and> declared t j x = None \<and> (\<exists>m. (file, m) \<in> set incs \<and> find_module t m = Some j)
         then Some e else declared t j x))"
  using assms
proof (induction incs arbitrary: t)
  case (Cons inc incs)
  obtain included m where inc: "inc = (included, m)" by (cases inc)
  let ?name = "entry_name (declarations t ! e)"
  show ?case
  proof (cases "included = file \<and> (\<exists>i. find_module t m = Some i \<and> declared t i ?name = None)")
    case False
    have "share_loop (inc # incs) file e t = share_loop incs file e t"
    proof (cases "find_module t m")
      case None
      then show ?thesis using Cons.prems(1) by (simp add: inc module_table_find_value module_scope_lookup_def)
    next
      case (Some i)
      then show ?thesis using False Cons.prems(1) find_module_bound [OF Some]
        by (auto simp: inc module_table_find_value module_scope_lookup_value)
    qed
    moreover have same: "declared t j x = None \<and> (\<exists>m. (file, m) \<in> set (inc # incs) \<and> find_module t m = Some j) \<longleftrightarrow>
        declared t j x = None \<and> (\<exists>m. (file, m) \<in> set incs \<and> find_module t m = Some j)"
      if "x = ?name" for j x using False that by (auto simp: inc)
    ultimately show ?thesis using Cons.IH [OF Cons.prems] by (simp only: same cong: conj_cong)
  next
    case True
    then obtain i where i: "find_module t m = Some i" "declared t i ?name = None" "included = file" by blast
    have bound: "i < length (modules t)" using find_module_bound [OF i(1)] by simp
    obtain hash where add: "scope_add_entry t i e = Some (t\<lparr>modules := (modules t)[i := (modules t ! i)\<lparr>scope_entries := scope_entries (modules t ! i) @ [e], entries_hash := hash\<rparr>]\<rparr>)"
        "modules_ok (t\<lparr>modules := (modules t)[i := (modules t ! i)\<lparr>scope_entries := scope_entries (modules t ! i) @ [e], entries_hash := hash\<rparr>]\<rparr>)"
      using scope_add_entry_ok [OF Cons.prems(1) bound Cons.prems(2) i(2)] by blast
    define u where "u = t\<lparr>modules := (modules t)[i := (modules t ! i)\<lparr>scope_entries := scope_entries (modules t ! i) @ [e], entries_hash := hash\<rparr>]\<rparr>"
    have u: "modules_ok u" "declarations u = declarations t" "length (modules u) = length (modules t)"
      using add(2) by (simp_all add: u_def)
    have names: "map scope_module_name (modules u) = map scope_module_name (modules t)"
      using bound by (simp add: u_def map_update) (metis list_update_id nth_map)
    then have find: "find_module u = find_module t" by (simp add: find_module_def fun_eq_iff)
    have declared: "declared u j x = (if j = i \<and> x = ?name then Some e else declared t j x)" for j x
      unfolding u_def by (rule declared_add [OF bound i(2)])
    have "share_loop (inc # incs) file e t = share_loop incs file e u"
      using Cons.prems(1) i bound add(1) by (simp add: inc module_table_find_value module_scope_lookup_value u_def [symmetric])
    moreover obtain t' where t': "share_loop incs file e u = Some t'" "modules_ok t'" "declarations t' = declarations t"
      "map scope_module_name (modules t') = map scope_module_name (modules t)"
      and d': "\<And>j x. j < length (modules t) \<Longrightarrow> declared t' j x =
        (if x = ?name \<and> declared u j x = None \<and> (\<exists>m. (file, m) \<in> set incs \<and> find_module t m = Some j) then Some e else declared u j x)"
      using Cons.IH [OF u(1)] Cons.prems(2) u names find by auto
    moreover have "declared t' j x = (if x = ?name \<and> declared t j x = None \<and> (\<exists>m. (file, m) \<in> set (inc # incs) \<and> find_module t m = Some j)
         then Some e else declared t j x)" if "j < length (modules t)" for j x
      unfolding d' [OF that] declared using i by (auto simp: inc)
    ultimately show ?thesis by auto
  qed
qed simp

subsection \<open>Aliases\<close>

text \<open>What an alias is bound to in a file, or in every file when the file is \<open>None\<close>.\<close>

definition alias_in :: "module_table \<Rightarrow> string option \<Rightarrow> string \<Rightarrow> string option" where
  "alias_in t file alias = map_of (map (\<lambda>(name, m, bound). ((name, bound), m)) (aliases t)) (alias, file)"

lemma alias_in_find:
  "alias_in t file alias = map_option (\<lambda>(_, m, _). m) (find (\<lambda>(name, _, bound). name = alias \<and> bound = file) (aliases t))"
proof -
  have "map_of (map (\<lambda>(name, m, bound). ((name, bound), m)) xs) (alias, file)
      = map_option (\<lambda>(_, m, _). m) (find (\<lambda>(name, _, bound). name = alias \<and> bound = file) xs)"
    for xs :: "(string \<times> string \<times> string option) list"
    by (induction xs) (auto split: prod.splits)
  then show ?thesis by (simp add: alias_in_def)
qed

text \<open>A binding in the file wins over one every file sees; a name that is not bound is itself.\<close>

lemma resolve_alias_value:
  "module_table_resolve_alias t file alias =
     (case (if file = None then None else alias_in t file alias) of
        Some m \<Rightarrow> m
      | None \<Rightarrow> (case alias_in t None alias of Some m \<Rightarrow> m | None \<Rightarrow> alias))"
proof -
  have bound: "(\<lambda>(name, _ :: string, bound). bound \<noteq> None \<and> file \<noteq> None \<and> alias_bound_in bound file \<and> name = alias)
      = (if file = None then (\<lambda>_. False) else (\<lambda>(name, _, bound). name = alias \<and> bound = file))"
    by (auto simp: alias_bound_in_def fun_eq_iff)
  have all: "(\<lambda>(name, _ :: string, bound :: string option). bound = None \<and> name = alias) = (\<lambda>(name, _, bound). name = alias \<and> bound = None)"
    by (auto simp: fun_eq_iff)
  have none: "find (\<lambda>_. False) xs = None" for xs :: "'a list" by (induction xs) simp_all
  show ?thesis unfolding module_table_resolve_alias_def bound all alias_in_find by (auto simp: none split: option.splits)
qed

text \<open>An alias is added once for a file, and no other binding changes.\<close>

lemma add_alias_value:
  "alias_in (module_table_add_alias t file alias m) f a =
     (if f = file \<and> a = alias \<and> alias \<noteq> m \<and> alias_in t file alias = None then Some m else alias_in t f a)"
proof -
  have taken: "list_ex (\<lambda>(name, _, bound). name = alias \<and> alias_bound_in bound file) (aliases t) \<longleftrightarrow> alias_in t file alias \<noteq> None"
    by (auto simp: alias_in_def map_of_eq_None_iff list_ex_iff alias_bound_in_def image_iff split: prod.splits)
  show ?thesis unfolding module_table_add_alias_def taken by (auto simp: alias_in_def map_add_def split: option.splits)
qed

subsection \<open>Resolution\<close>

text \<open>What a scope sees of a name through one of the modules it uses.\<close>

definition seen_through :: "module_table \<Rightarrow> resolve_scope \<Rightarrow> string \<Rightarrow> string \<Rightarrow> nat option" where
  "seen_through t scope name u =
     (case find_module t (module_table_resolve_alias t (from_file scope) u) of
        None \<Rightarrow> None
      | Some i \<Rightarrow> (case declared t i name of
            None \<Rightarrow> None
          | Some e \<Rightarrow> if is_module_declaration_visible (Some scope) (declarations t ! e) then Some e else None))"

definition seen_by_using :: "module_table \<Rightarrow> resolve_scope \<Rightarrow> string \<Rightarrow> nat set" where
  "seen_by_using t scope name = {e. \<exists>u \<in> set (using_modules scope). seen_through t scope name u = Some e}"

definition own_declaration :: "module_table \<Rightarrow> resolve_scope \<Rightarrow> string \<Rightarrow> nat option" where
  "own_declaration t scope name =
     Option.bind (Option.bind (from_module scope) (find_module t)) (\<lambda>i. declared t i name)"

lemma lookup_module_value:
  assumes "modules_ok t"
  shows "Option.bind (module_table_find t m) (\<lambda>i. module_scope_lookup t i name) =
    Some (Option.bind (Option.bind m (find_module t)) (\<lambda>i. declared t i name))"
proof (cases "Option.bind m (find_module t)")
  case None
  then show ?thesis using assms module_table_find_value [OF assms]
    by (cases m) (simp_all add: module_table_find_def module_scope_lookup_def)
next
  case (Some i)
  then obtain n where n: "m = Some n" "find_module t n = Some i" by (cases m) auto
  then show ?thesis using module_table_find_value [OF assms] module_scope_lookup_value [OF assms] find_module_bound [OF n(2)] by simp
qed

lemma lookup_then:
  assumes "modules_ok t"
  shows "Option.bind (module_table_find t m) (\<lambda>i. Option.bind (module_scope_lookup t i name) k) =
    k (Option.bind (Option.bind m (find_module t)) (\<lambda>i. declared t i name))"
proof -
  have "Option.bind (module_table_find t m) (\<lambda>i. Option.bind (module_scope_lookup t i name) k) =
      Option.bind (Option.bind (module_table_find t m) (\<lambda>i. module_scope_lookup t i name)) k"
    by (cases "module_table_find t m") simp_all
  then show ?thesis unfolding lookup_module_value [OF assms] by simp
qed

lemma using_loop_step:
  assumes "modules_ok t"
  shows "using_loop t scope name report (u # us) found =
    (case seen_through t scope name u of
       None \<Rightarrow> using_loop t scope name report us found
     | Some e \<Rightarrow> (case found of
           None \<Rightarrow> if report then using_loop t scope name report us (Some e) else Some (Some e, None)
         | Some f \<Rightarrow> if e \<noteq> f then Some (None, entry_module_name (declarations t ! e)) else using_loop t scope name report us found))"
proof -
  let ?u = "module_table_resolve_alias t (from_file scope) u"
  have "Option.bind (module_table_find t (Some ?u)) (\<lambda>i. Option.bind (module_scope_lookup t i name) k) =
      k (Option.bind (find_module t ?u) (\<lambda>i. declared t i name))" for k :: "nat option \<Rightarrow> (nat option \<times> string option) option"
    unfolding lookup_then [OF assms] by simp
  then show ?thesis by (simp add: using_loop.simps(2) seen_through_def split: option.splits)
qed

lemma using_loop_report:
  assumes "modules_ok t"
  shows "\<exists>r ambiguous. using_loop t scope name True us found = Some (r, ambiguous)
    \<and> (let seen = {e. \<exists>u \<in> set us. seen_through t scope name u = Some e} \<union> set_option found
       in (r = None \<longleftrightarrow> (\<nexists>e. seen = {e})) \<and> (\<forall>e. r = Some e \<longrightarrow> seen = {e})
         \<and> (seen = {} \<longrightarrow> ambiguous = None)
         \<and> ((\<exists>e. seen = {e}) \<longrightarrow> ambiguous = None)
         \<and> (r = None \<and> seen \<noteq> {} \<longrightarrow> (\<exists>e \<in> seen. ambiguous = entry_module_name (declarations t ! e))))"
proof (induction us arbitrary: found)
  case Nil
  then show ?case by (cases found) (auto simp: Let_def)
next
  case (Cons u us)
  show ?case
  proof (cases "seen_through t scope name u")
    case None
    then have "{e. \<exists>v \<in> set (u # us). seen_through t scope name v = Some e} = {e. \<exists>v \<in> set us. seen_through t scope name v = Some e}" by auto
    then show ?thesis using Cons [of found] None by (simp only: using_loop_step [OF assms] option.case)
  next
    case (Some e)
    then have seen: "{e. \<exists>v \<in> set (u # us). seen_through t scope name v = Some e} \<union> X
        = {e. \<exists>v \<in> set us. seen_through t scope name v = Some e} \<union> ({e} \<union> X)" for X by auto
    consider "found = None" | "found = Some e" | f where "found = Some f" "f \<noteq> e" by (cases found) auto
    then show ?thesis
    proof cases
      case 1
      then show ?thesis using Cons [of "Some e"] Some unfolding seen by (simp add: using_loop_step [OF assms])
    next
      case 2
      then show ?thesis using Cons [of "Some e"] Some unfolding seen by (simp add: using_loop_step [OF assms])
    next
      case 3
      have "using_loop t scope name True (u # us) found = Some (None, entry_module_name (declarations t ! e))"
        using 3 Some by (simp add: using_loop_step [OF assms])
      moreover have "\<nexists>x. {e. \<exists>v \<in> set us. seen_through t scope name v = Some e} \<union> ({e} \<union> set_option found) = {x}" using 3 by auto
      ultimately show ?thesis unfolding seen by (auto simp: Let_def)
    qed
  qed
qed

text \<open>
  The module's own declaration wins. Otherwise the result is the one declaration the used modules show, and
  there is none when they show several; the order of the modules does not matter.
\<close>

lemma resolve_unqualified_value:
  assumes "modules_ok t"
  shows "\<exists>r ambiguous. module_resolve_unqualified t scope name True = Some (r, ambiguous)
    \<and> (case own_declaration t scope name of
         Some e \<Rightarrow> r = Some e \<and> ambiguous = None
       | None \<Rightarrow>
           (\<forall>e. r = Some e \<longleftrightarrow> seen_by_using t scope name = {e})
           \<and> (r \<noteq> None \<or> seen_by_using t scope name = {} \<longrightarrow> ambiguous = None)
           \<and> (r = None \<and> seen_by_using t scope name \<noteq> {} \<longrightarrow>
               (\<exists>e \<in> seen_by_using t scope name. ambiguous = entry_module_name (declarations t ! e))))"
proof -
  have start: "module_resolve_unqualified t scope name True =
      (case own_declaration t scope name of Some e \<Rightarrow> Some (Some e, None) | None \<Rightarrow> using_loop t scope name True (using_modules scope) None)"
  proof -
    have "Option.bind (module_table_find t (from_module scope)) (\<lambda>i. Option.bind (module_scope_lookup t i name) k) =
        k (own_declaration t scope name)" for k :: "nat option \<Rightarrow> (nat option \<times> string option) option"
      unfolding lookup_then [OF assms] own_declaration_def ..
    then show ?thesis by (simp add: module_resolve_unqualified_def)
  qed
  show ?thesis
  proof (cases "own_declaration t scope name")
    case None
    let ?seen = "seen_by_using t scope name"
    have seen: "{e. \<exists>u \<in> set (using_modules scope). seen_through t scope name u = Some e} \<union> set_option None = ?seen"
      by (simp add: seen_by_using_def)
    obtain r ambiguous where r: "using_loop t scope name True (using_modules scope) None = Some (r, ambiguous)"
      "(r = None) = (\<nexists>e. ?seen = {e})" "\<forall>e. r = Some e \<longrightarrow> ?seen = {e}"
      "?seen = {} \<longrightarrow> ambiguous = None" "(\<exists>e. ?seen = {e}) \<longrightarrow> ambiguous = None"
      "r = None \<and> ?seen \<noteq> {} \<longrightarrow> (\<exists>e \<in> ?seen. ambiguous = entry_module_name (declarations t ! e))"
      using using_loop_report [OF assms, of scope name "using_modules scope" None, unfolded seen Let_def]
      by (elim exE conjE) (rule that)
    have "r = Some e \<longleftrightarrow> ?seen = {e}" for e
    proof
      assume one: "?seen = {e}"
      then obtain f where f: "r = Some f" using r(2) by (cases r) blast+
      then have "?seen = {f}" using r(3) by blast
      then show "r = Some e" using one f by simp
    qed (use r(3) in blast)
    moreover have "ambiguous = None" if "r \<noteq> None \<or> ?seen = {}"
      using that
    proof
      assume "r \<noteq> None"
      then obtain e where "r = Some e" by blast
      then show ?thesis using r(3,5) by blast
    qed (use r(4) in blast)
    moreover have "module_resolve_unqualified t scope name True = Some (r, ambiguous)" using start None r(1) by simp
    ultimately show ?thesis using r(6) unfolding None option.case by (intro exI conjI) blast+
  qed (simp add: start)
qed

text \<open>A qualified name is found when its module declares it; the status says whether it may be used.\<close>

lemma resolve_qualified_value:
  assumes "modules_ok t" "qualifier \<noteq> []"
  shows "module_resolve_qualified t scope qualifier name =
    Some (case find_module t (module_table_resolve_alias t (Option.bind scope from_file) qualifier) of
        None \<Rightarrow> (None, RESOLVE_NO_MODULE)
      | Some i \<Rightarrow> (case declared t i name of
          None \<Rightarrow> (None, RESOLVE_NO_DECLARATION)
        | Some e \<Rightarrow> (Some e, if is_module_declaration_visible scope (declarations t ! e) then RESOLVE_OK else RESOLVE_PRIVATE)))"
proof (cases "find_module t (module_table_resolve_alias t (Option.bind scope from_file) qualifier)")
  case None
  then show ?thesis using assms by (simp add: module_resolve_qualified_def module_table_find_value module_scope_lookup_def)
next
  case (Some i)
  then show ?thesis using assms find_module_bound [OF Some]
    by (simp add: module_resolve_qualified_def module_table_find_value module_scope_lookup_value split: option.splits)
qed

lemma modules_ok_aliases: "modules_ok t \<Longrightarrow> modules_ok (t\<lparr>aliases := as\<rparr>)"
  using scope_index_ok_same [of "t\<lparr>aliases := as\<rparr>" t] by (simp add: modules_ok_def mangled_ok_def mangled_names_def)

text \<open>A table with one declaration.\<close>

lemma point_declared:
  "\<exists>t e. modules_ok t \<and> find_module t ''geometry'' = Some 0 \<and> declared t 0 ''Point'' = Some e
     \<and> visibility (declarations t ! e) = VISIBILITY_PUBLIC \<and> aliases t = []
     \<and> (\<forall>name. name \<noteq> ''Point'' \<longrightarrow> declared t 0 name = None) \<and> entry_kind (declarations t ! e) = DECLARATION_STRUCT
     \<and> snd (module_mangle t e) = ''geometry_Point''"
proof -
  obtain t where t: "modules_ok t" "find_module t ''geometry'' = Some 0" "length (modules t) = 1"
      "\<forall>name. declared t 0 name = None" "node_index t = None" "aliases t = []"
      "scope_module_name (modules t ! 0) = ''geometry''" "\<not> scope_is_entry (modules t ! 0)"
    using module_table_scope_ok [OF create_ok, of "''geometry''" False]
    by (auto simp: module_table_create_def find_module_def index_of_def declared_def dest: find_module_bound)
  from module_scope_define_new [OF t(1), of 0 "''Point''" None DECLARATION_STRUCT None 1 VISIBILITY_PUBLIC] t obtain u where
    u: "modules_ok u" "map scope_module_name (modules u) = map scope_module_name (modules t)" "aliases u = []"
      "\<forall>x. declared u 0 x = (if x = ''Point'' then Some (length (declarations t)) else None)"
      "declarations u = declarations t @ [\<lparr>entry_kind = DECLARATION_STRUCT, entry_name = ''Point'', entry_module_name = Some ''geometry'',
         is_module_entry = False, ast_node = None, origin_file = None, origin_line = 1, visibility = VISIBILITY_PUBLIC,
         is_external = False, registry_index = - 1, cached_mangled_name = None\<rparr>]"
    by (auto simp: fresh_node_def)
  let ?e = "length (declarations t)"
  have "find_module u ''geometry'' = Some 0" using t(2) u(2) by (simp add: find_module_def)
  moreover have "snd (module_mangle u ?e) = ''geometry_Point''"
    by (simp add: module_mangle_def module_mangle_into_def MESSAGE_BUFFER_SIZE_def u(5) Let_def)
  ultimately show ?thesis using u by (intro exI [of _ u] exI [of _ ?e]) simp
qed

end
