(* ===== verification/Type_Pool_Values.thy ===== *)
theory Type_Pool_Values
  imports Type_Pool
begin

text \<open>
  What the pool of types answers: one type for each kind and name, that never moves and is what its name
  says; and the signatures of function types, which parse back to what was printed.
\<close>

subsection \<open>The invariant\<close>

text \<open>The pooled type of a kind and a name.\<close>

definition canonical_type :: "TypeKind \<Rightarrow> string \<Rightarrow> gray_type" where
  "canonical_type kind name =
     (if kind = TYPE_KIND_ARRAY \<or> kind = TYPE_KIND_POINTER then (plain_type kind name)\<lparr>element_type := Some name\<rparr>
      else if kind = TYPE_KIND_MAP then map_type name
      else if kind = TYPE_KIND_FUNCTION then (plain_type kind name)\<lparr>type_signature := parse_function_signature name\<rparr>
      else plain_type kind name)"

definition entry_ok :: "type_pool \<Rightarrow> (TypeKind \<times> string) \<times> nat \<Rightarrow> bool" where
  "entry_ok p e \<longleftrightarrow> snd e < length (pool_types p) \<and> pool_types p ! snd e = canonical_type (fst (fst e)) (snd (fst e))"

definition pool_ok :: "type_pool \<Rightarrow> bool" where
  "pool_ok p \<longleftrightarrow>
     (case pool_index p of
        None \<Rightarrow> True
      | Some table \<Rightarrow> table_lists type_hash table (live_entries table)
          \<and> length (live_entries table) * 2 \<le> length table \<and> length (live_entries table) \<le> length (pool_types p)
          \<and> list_all (entry_ok p) (live_entries table))
     \<and> list_all (\<lambda>i. i < length (pool_types p) \<and> distinct_name (pool_types p ! i) \<noteq> None) (distinct_types p)"

definition pooled :: "type_pool \<Rightarrow> TypeKind \<times> string \<Rightarrow> nat option" where
  "pooled p key = (case pool_index p of None \<Rightarrow> None | Some table \<Rightarrow> map_of (live_entries table) key)"

lemma canonical_type_key [simp]: "type_kind (canonical_type kind name) = kind" "type_text (canonical_type kind name) = name"
  "distinct_name (canonical_type kind name) = None"
  by (simp_all add: canonical_type_def plain_type_def map_type_def)

lemma pool_reset_ok: "pool_ok type_pool_reset"
  by (simp add: pool_ok_def type_pool_reset_def)

lemma pool_find_value: "pool_ok p \<Longrightarrow> pool_find p kind name = Some (pooled p (kind, name))"
proof (cases "pool_index p")
  case (Some table)
  assume "pool_ok p"
  then have t: "table_lists type_hash table (live_entries table)" "length (live_entries table) * 2 \<le> length table"
    using Some by (simp_all add: pool_ok_def)
  have "capacity_ok (length table)" using t(1) unfolding table_lists_def by blast
  then have "8 \<le> length table" by (rule capacity_okD)
  then have "length (live_entries table) < length table" using t(2) by simp
  from probe_find_value [OF t(1) this] show ?thesis using Some by (simp add: pool_find_def pooled_def)
qed (simp add: pool_find_def pooled_def)

lemma pooled_entry:
  assumes "pool_ok p" "pooled p (kind, name) = Some i"
  shows "i < length (pool_types p)" "pool_types p ! i = canonical_type kind name"
proof -
  obtain table where "pool_index p = Some table" "((kind, name), i) \<in> set (live_entries table)"
    using assms(2) by (auto simp: pooled_def split: option.splits dest: map_of_SomeD)
  then have "entry_ok p ((kind, name), i)" using assms(1) by (simp add: pool_ok_def list_all_iff)
  then show "i < length (pool_types p)" "pool_types p ! i = canonical_type kind name" by (simp_all add: entry_ok_def)
qed

text \<open>Growing and placing: doubling once leaves room, whatever number of types is not in the index.\<close>

lemma capacity_8192: "capacity_ok TYPE_HASH_INITIAL_CAPACITY"
  unfolding capacity_ok_def TYPE_HASH_INITIAL_CAPACITY_def by (intro exI [of _ 13]) simp

lemma pool_insert_ok:
  assumes ok: "pool_ok p" and new: "pooled p (kind, name) = None" and count: "count = length (pool_types p) + 1"
  shows "\<exists>table. pool_insert (pool_index p) count kind name i = Some table
    \<and> table_lists type_hash table (live_entries table) \<and> length (live_entries table) * 2 \<le> length table
    \<and> set (live_entries table) = insert ((kind, name), i) (case pool_index p of None \<Rightarrow> {} | Some old \<Rightarrow> set (live_entries old))
    \<and> length (live_entries table) \<le> count \<and> map_of (live_entries table) = (pooled p)((kind, name) \<mapsto> i)"
proof -
  let ?old = "case pool_index p of None \<Rightarrow> [] | Some old \<Rightarrow> live_entries old"
  have fresh: "(kind, name) \<notin> fst ` set ?old" using new by (auto simp: pooled_def map_of_eq_None_iff split: option.splits)
  have short: "length ?old \<le> length (pool_types p)" using ok by (auto simp: pool_ok_def split: option.splits)
  have lookup: "map_of ?old = pooled p" by (auto simp: fun_eq_iff pooled_def split: option.splits)
  have "\<exists>grown. (case pool_index p of Some table \<Rightarrow> if length table \<le> count * 2 then type_hash_grow (pool_index p) else Some table
        | None \<Rightarrow> type_hash_grow None) = Some grown
    \<and> table_lists type_hash grown ?old \<and> (length ?old + 1) * 2 \<le> length grown"
  proof (cases "pool_index p")
    case None
    have "table_lists type_hash (replicate TYPE_HASH_INITIAL_CAPACITY None) []" by (rule table_lists_empty [OF capacity_8192])
    then show ?thesis using None by (simp add: type_hash_grow_def TYPE_HASH_INITIAL_CAPACITY_def)
  next
    case (Some table)
    then have t: "table_lists type_hash table (live_entries table)" "length (live_entries table) * 2 \<le> length table"
      using ok by (simp_all add: pool_ok_def)
    show ?thesis
    proof (cases "length table \<le> count * 2")
      case True
      have cap: "capacity_ok (length table)" using t(1) unfolding table_lists_def by blast
      have "length (live_entries table) \<le> length table * 2" using t(2) by simp
      from table_lists_grow [OF t(1) capacity_ok_double [OF cap] this] obtain grown where
        g: "place_all type_hash (replicate (length table * 2) None) (live_entries table) = Some grown" "length grown = length table * 2"
          "table_lists type_hash grown (live_entries table)" by blast
      have "8 \<le> length table" using cap by (rule capacity_okD)
      then show ?thesis using Some True t(2) g by (simp add: type_hash_grow_def)
    next
      case False
      then show ?thesis using Some t short count by simp
    qed
  qed
  then obtain grown where g: "(case pool_index p of Some table \<Rightarrow> if length table \<le> count * 2 then type_hash_grow (pool_index p) else Some table
        | None \<Rightarrow> type_hash_grow None) = Some grown" "table_lists type_hash grown ?old" "(length ?old + 1) * 2 \<le> length grown" by blast
  have "length ?old < length grown" using g(3) by simp
  from probe_place_value [OF g(2) this fresh, of i] obtain table where
    t: "type_hash_place grown kind name i = Some table" "length table = length grown" "table_lists type_hash table (?old @ [((kind, name), i)])"
    unfolding type_hash_place_def by blast
  have "map_of (live_entries table) = map_of (?old @ [((kind, name), i)])" by (rule map_of_live [OF t(3)])
  also have "\<dots> = (map_of ?old)((kind, name) \<mapsto> i)" by (rule map_of_snoc [OF fresh])
  finally have "map_of (live_entries table) = (pooled p)((kind, name) \<mapsto> i)" unfolding lookup .
  moreover have "pool_insert (pool_index p) count kind name i = Some table" unfolding pool_insert_def g(1) by (simp add: t(1))
  moreover have "set (live_entries table) = insert ((kind, name), i) (case pool_index p of None \<Rightarrow> {} | Some old \<Rightarrow> set (live_entries old))"
    using live_entries_value(1) [OF t(3)] by (auto split: option.splits)
  moreover have "length (live_entries table) = length ?old + 1" using live_entries_value(3) [OF t(3)] by simp
  ultimately show ?thesis using table_lists_live [OF t(3)] g(3) t(2) short count by (intro exI [of _ table]) simp
qed

subsection \<open>Constructors\<close>

text \<open>A later pool: types are where they were, and what was found is found.\<close>

definition extends :: "type_pool \<Rightarrow> type_pool \<Rightarrow> bool" where
  "extends p p' \<longleftrightarrow> (\<exists>ts. pool_types p' = pool_types p @ ts) \<and> distinct_types p' = distinct_types p
     \<and> (\<forall>key i. pooled p key = Some i \<longrightarrow> pooled p' key = Some i)"

lemma extends_refl: "extends p p"
  by (simp add: extends_def)

lemma pool_intern_existing:
  assumes "pool_ok p" "pooled p (type_kind t, type_text t) = Some i"
  shows "pool_intern p t = Some (p, Pooled i)"
  using assms by (simp add: pool_intern_def pool_find_value)

lemma pool_intern_ok:
  assumes "pool_ok p" "t = canonical_type (type_kind t) (type_text t)"
  shows "\<exists>p' i. pool_intern p t = Some (p', Pooled i) \<and> pool_ok p' \<and> extends p p'
    \<and> pooled p' = (pooled p)((type_kind t, type_text t) \<mapsto> i)"
proof (cases "pooled p (type_kind t, type_text t)")
  case (Some i)
  then show ?thesis using assms(1) pool_intern_existing [OF assms(1) Some] extends_refl by (metis fun_upd_triv)
next
  case None
  let ?i = "length (pool_types p)"
  obtain table where t: "pool_insert (pool_index p) (?i + 1) (type_kind t) (type_text t) ?i = Some table"
    "table_lists type_hash table (live_entries table)" "length (live_entries table) * 2 \<le> length table"
    "set (live_entries table) = insert ((type_kind t, type_text t), ?i) (case pool_index p of None \<Rightarrow> {} | Some old \<Rightarrow> set (live_entries old))"
    "length (live_entries table) \<le> ?i + 1" "map_of (live_entries table) = (pooled p)((type_kind t, type_text t) \<mapsto> ?i)"
    using pool_insert_ok [OF assms(1) None refl, of ?i] by blast
  let ?p = "p\<lparr>pool_types := pool_types p @ [t], pool_index := Some table\<rparr>"
  have "pool_intern p t = Some (?p, Pooled ?i)" using assms(1) None t(1) by (simp add: pool_intern_def pool_find_value Let_def)
  moreover have "pooled ?p = (pooled p)((type_kind t, type_text t) \<mapsto> ?i)" using t(6) by (simp add: pooled_def fun_eq_iff)
  moreover have "entry_ok ?p e" if "entry_ok p e" for e using that by (simp add: entry_ok_def nth_append)
  moreover have "entry_ok ?p ((type_kind t, type_text t), ?i)" using assms(2) by (simp add: entry_ok_def)
  ultimately have "pool_intern p t = Some (?p, Pooled ?i) \<and> pool_ok ?p \<and> extends p ?p
      \<and> pooled ?p = (pooled p)((type_kind t, type_text t) \<mapsto> ?i)"
    using assms(1) t None by (auto simp: pool_ok_def extends_def list_all_iff nth_append split: option.splits)
  then show ?thesis by blast
qed

text \<open>An operation on the pool settles when doing it again finds what it returned and adds nothing.\<close>

definition settles :: "(type_pool \<Rightarrow> (type_pool \<times> type_ref) option) \<Rightarrow> bool" where
  "settles f \<longleftrightarrow> (\<forall>p. pool_ok p \<longrightarrow> (\<exists>p' r. f p = Some (p', r) \<and> pool_ok p' \<and> extends p p' \<and> f p' = Some (p', r)))"

lemma settles_here: "settles (\<lambda>p. Some (p, r))"
  by (simp add: settles_def extends_refl)

lemma settles_if: "settles f \<Longrightarrow> settles g \<Longrightarrow> settles (\<lambda>p. if b then f p else g p)"
  by (cases b) simp_all

lemma settles_intern:
  assumes "t = canonical_type (type_kind t) (type_text t)"
  shows "settles (\<lambda>p. pool_intern p t)"
  unfolding settles_def
proof (intro allI impI)
  fix p
  assume "pool_ok p"
  from pool_intern_ok [OF this assms] obtain p' i where p': "pool_intern p t = Some (p', Pooled i)" "pool_ok p'" "extends p p'"
    "pooled p' = (pooled p)((type_kind t, type_text t) \<mapsto> i)" by blast
  then have "pool_intern p' t = Some (p', Pooled i)" by (intro pool_intern_existing) simp_all
  then show "\<exists>p' r. pool_intern p t = Some (p', r) \<and> pool_ok p' \<and> extends p p' \<and> pool_intern p' t = Some (p', r)" using p' by blast
qed

lemma settles_named: "settles (\<lambda>p. named_type p name)"
  unfolding settles_def
proof (intro allI impI)
  fix p
  assume ok: "pool_ok p"
  show "\<exists>p' r. named_type p name = Some (p', r) \<and> pool_ok p' \<and> extends p p' \<and> named_type p' name = Some (p', r)"
  proof (cases "pooled p (TYPE_KIND_ENUM, name)")
    case None
    let ?t = "plain_type TYPE_KIND_STRUCT name"
    have t: "?t = canonical_type (type_kind ?t) (type_text ?t)" "type_kind ?t = TYPE_KIND_STRUCT" "type_text ?t = name"
      by (simp_all add: canonical_type_def plain_type_def)
    from pool_intern_ok [OF ok t(1)] obtain p' i where p': "pool_intern p ?t = Some (p', Pooled i)" "pool_ok p'" "extends p p'"
      "pooled p' = (pooled p)((TYPE_KIND_STRUCT, name) \<mapsto> i)" unfolding t(2,3) by blast
    then have "pool_intern p' ?t = Some (p', Pooled i)" by (intro pool_intern_existing) (simp_all add: t(2,3))
    then show ?thesis using ok None p' by (simp add: named_type_def pool_find_value type_struct_def)
  next
    case (Some i)
    then show ?thesis using ok by (simp add: named_type_def pool_find_value extends_refl)
  qed
qed

subsection \<open>Resolving names\<close>

lemma starts_with_append: "starts_with prefix (prefix @ rest)"
  by (simp add: starts_with_def)

lemma settles_resolve: "settles (resolve_name name)"
proof -
  have func: "settles (\<lambda>p. pool_intern p ((plain_type TYPE_KIND_FUNCTION name)\<lparr>type_signature := parse_function_signature name\<rparr>))"
    by (rule settles_intern) (simp add: canonical_type_def plain_type_def)
  have plain: "settles (\<lambda>p. pool_intern p (plain_type kind n))"
    if "kind \<notin> {TYPE_KIND_ARRAY, TYPE_KIND_POINTER, TYPE_KIND_MAP, TYPE_KIND_FUNCTION} \<or> kind = TYPE_KIND_FUNCTION \<and> parse_function_signature n = None" for kind n
    by (rule settles_intern) (use that in \<open>auto simp: canonical_type_def plain_type_def\<close>)
  have pointed: "settles (\<lambda>p. type_pointer p n)" "settles (\<lambda>p. type_array p n)" for n
    unfolding type_pointer_def type_array_def by (rule settles_intern; simp add: canonical_type_def plain_type_def)+
  have map: "settles (\<lambda>p. pool_intern p (map_type name))"
    by (rule settles_intern) (simp add: canonical_type_def map_type_def plain_type_def)
  have builtin: "settles (\<lambda>p. pool_intern p (plain_type kind (case allocation_name of Some n \<Rightarrow> n | None \<Rightarrow> name)))"
    if "find_builtin name = Some (Pooled_as kind allocation_name)" for kind allocation_name
  proof (rule plain)
    have "(name, Pooled_as kind allocation_name) \<in> set builtin_types" using that unfolding find_builtin_def by (rule map_of_SomeD)
    then show "kind \<notin> {TYPE_KIND_ARRAY, TYPE_KIND_POINTER, TYPE_KIND_MAP, TYPE_KIND_FUNCTION}
        \<or> kind = TYPE_KIND_FUNCTION \<and> parse_function_signature (case allocation_name of Some n \<Rightarrow> n | None \<Rightarrow> name) = None"
      unfolding builtin_types_def by (auto simp: parse_function_signature_def starts_with_def)
  qed
  show ?thesis
  proof (cases "find_builtin name")
    case None
    show ?thesis unfolding resolve_name_def [abs_def] None option.case Let_def
      by (intro settles_if settles_here settles_named func pointed map) (intro plain; simp)+
  next
    case (Some entry)
    show ?thesis
    proof (cases entry)
      case (Shared t)
      show ?thesis unfolding resolve_name_def [abs_def] Some Shared option.case builtin_entry.case by (intro settles_if settles_here func)
    next
      case (Pooled_as kind allocation_name)
      show ?thesis unfolding resolve_name_def [abs_def] Some Pooled_as option.case builtin_entry.case
        by (intro settles_if func builtin) (simp add: Some Pooled_as)
    qed
  qed
qed

lemma distinct_type_extends:
  assumes "pool_ok p" "extends p p'"
  shows "distinct_type_named p' name = distinct_type_named p name"
  unfolding distinct_type_named_def using assms by (auto simp: extends_def pool_ok_def list_all_iff nth_append intro!: find_cong)

text \<open>Resolving a name ends; the types made before stay; and the name keeps its type.\<close>

lemma type_from_name_ok:
  assumes "pool_ok p"
  shows "\<exists>p' r. type_from_name p written = Some (p', r) \<and> pool_ok p' \<and> extends p p' \<and> type_from_name p' written = Some (p', r)"
proof (cases written)
  case (Some name)
  show ?thesis
  proof (cases "distinct_type_named p name")
    case None
    obtain p' r where p': "resolve_name name p = Some (p', r)" "pool_ok p'" "extends p p'" "resolve_name name p' = Some (p', r)"
      using settles_resolve [of name] assms unfolding settles_def by blast
    then show ?thesis using None Some distinct_type_extends [OF assms p'(3), of name] by (simp add: type_from_name_def)
  qed (use assms Some in \<open>simp add: type_from_name_def extends_refl\<close>)
qed (use assms in \<open>simp add: type_from_name_def extends_refl\<close>)

lemma extends_deref: "extends p p' \<Longrightarrow> (case r of Pooled i \<Rightarrow> i < length (pool_types p) | Builtin t \<Rightarrow> True) \<Longrightarrow> deref p' r = deref p r"
  by (auto simp: extends_def deref_def nth_append split: type_ref.splits)

text \<open>What a name is resolved to, by its form.\<close>

lemma find_builtin_letter:
  assumes "hd name \<notin> set ''Ebcfinsuv''"
  shows "find_builtin name = None"
proof -
  have "list_all (\<lambda>n. hd n \<in> set ''Ebcfinsuv'') (map fst builtin_types)" by code_simp
  then have "name \<notin> set (map fst builtin_types)" using assms unfolding list_all_iff by blast
  then show ?thesis by (simp add: find_builtin_def map_of_eq_None_iff)
qed

lemma pool_intern_deref:
  assumes "pool_ok p" "t = canonical_type (type_kind t) (type_text t)" "pool_intern p t = Some (p', r)"
  shows "deref p' r = t"
proof -
  from pool_intern_ok [OF assms(1,2)] obtain i where i: "r = Pooled i" "pool_ok p'" "pooled p' (type_kind t, type_text t) = Some i"
    using assms(3) by auto
  then show ?thesis using pooled_entry [OF i(2,3)] assms(2) by (simp add: deref_def)
qed

lemma resolve_pointer:
  assumes "pool_ok p" "distinct_type_named p (CHR ''^'' # pointee) = None" "type_from_name p (Some (CHR ''^'' # pointee)) = Some (p', r)"
  shows "deref p' r = (plain_type TYPE_KIND_POINTER pointee)\<lparr>element_type := Some pointee\<rparr>"
proof -
  have "find_builtin (CHR ''^'' # pointee) = None" by (rule find_builtin_letter) simp
  then have "pool_intern p ((plain_type TYPE_KIND_POINTER pointee)\<lparr>element_type := Some pointee\<rparr>) = Some (p', r)"
    using assms(2,3) by (simp add: type_from_name_def resolve_name_def starts_with_def type_pointer_def)
  then show ?thesis by (rule pool_intern_deref [OF assms(1), rotated]) (simp add: canonical_type_def plain_type_def)
qed

lemma resolve_array:
  assumes "pool_ok p" "e \<noteq> []" "type_top_level_comma e = None"
    "distinct_type_named p (''['' @ e @ '']'') = None" "type_from_name p (Some (''['' @ e @ '']'')) = Some (p', r)"
  shows "deref p' r = (plain_type TYPE_KIND_ARRAY e)\<lparr>element_type := Some e\<rparr>"
proof -
  have "find_builtin (''['' @ e @ '']'') = None" by (rule find_builtin_letter) simp
  then have "pool_intern p ((plain_type TYPE_KIND_ARRAY e)\<lparr>element_type := Some e\<rparr>) = Some (p', r)"
    using assms(2-) by (simp add: type_from_name_def resolve_name_def starts_with_def type_array_def Let_def)
  then show ?thesis by (rule pool_intern_deref [OF assms(1), rotated]) (simp add: canonical_type_def plain_type_def)
qed

lemma resolve_sized_array:
  assumes "pool_ok p" "type_top_level_comma (e @ '','' @ n) = Some (length e)" "e \<noteq> []"
    "distinct_type_named p (''['' @ e @ '','' @ n @ '']'') = None" "type_from_name p (Some (''['' @ e @ '','' @ n @ '']'')) = Some (p', r)"
  shows "deref p' r = (plain_type TYPE_KIND_ARRAY e)\<lparr>element_type := Some e\<rparr>"
proof -
  have "find_builtin (''['' @ e @ '','' @ n @ '']'') = None" by (rule find_builtin_letter) simp
  moreover have "butlast (e @ '','' @ n @ '']'') = e @ '','' @ n" using butlast_snoc [of "e @ '','' @ n" "CHR '']''"] by simp
  ultimately have "pool_intern p ((plain_type TYPE_KIND_ARRAY e)\<lparr>element_type := Some e\<rparr>) = Some (p', r)"
    using assms(2-) by (simp add: type_from_name_def resolve_name_def starts_with_def type_array_def Let_def)
  then show ?thesis by (rule pool_intern_deref [OF assms(1), rotated]) (simp add: canonical_type_def plain_type_def)
qed

lemma resolve_map:
  assumes "pool_ok p" "CHR '':'' \<notin> set k"
    "distinct_type_named p (''map['' @ k @ '':'' @ v @ '']'') = None" "type_from_name p (Some (''map['' @ k @ '':'' @ v @ '']'')) = Some (p', r)"
  shows "deref p' r = (plain_type TYPE_KIND_MAP (''map['' @ k @ '':'' @ v @ '']''))\<lparr>key_type := Some k, value_type := Some v\<rparr>"
proof -
  let ?name = "''map['' @ k @ '':'' @ v @ '']''"
  have "find_builtin ?name = None" by (rule find_builtin_letter) simp
  then have "pool_intern p (map_type ?name) = Some (p', r)"
    using assms(3,4) by (simp add: type_from_name_def resolve_name_def starts_with_def)
  then have "deref p' r = map_type ?name" by (rule pool_intern_deref [OF assms(1), rotated]) (simp add: canonical_type_def map_type_def plain_type_def)
  moreover have "dropWhile (\<lambda>c. c \<noteq> CHR '':'') (k @ CHR '':'' # v @ '']'') = CHR '':'' # v @ '']''"
    "takeWhile (\<lambda>c. c \<noteq> CHR '':'') (k @ CHR '':'' # v @ '']'') = k" using assms(2) by (auto simp: dropWhile_append3 takeWhile_tail takeWhile_eq_all_conv)
  ultimately show ?thesis by (simp add: map_type_def map_parts_def)
qed

text \<open>Composite types, by their spelling.\<close>

datatype spelled = Pointer_to string | Array_of string | Sized_array string string | Map_from string string

fun spelling :: "spelled \<Rightarrow> string" where
  "spelling (Pointer_to q) = ''^'' @ q"
| "spelling (Array_of e) = ''['' @ e @ '']''"
| "spelling (Sized_array e n) = ''['' @ e @ '','' @ n @ '']''"
| "spelling (Map_from k v) = ''map['' @ k @ '':'' @ v @ '']''"

fun spelled_ok :: "spelled \<Rightarrow> bool" where
  "spelled_ok (Pointer_to q) = True"
| "spelled_ok (Array_of e) = (e \<noteq> [] \<and> type_top_level_comma e = None)"
| "spelled_ok (Sized_array e n) = (e \<noteq> [] \<and> type_top_level_comma (e @ '','' @ n) = Some (length e))"
| "spelled_ok (Map_from k v) = (CHR '':'' \<notin> set k)"

fun spelled_type :: "spelled \<Rightarrow> gray_type" where
  "spelled_type (Pointer_to q) = (plain_type TYPE_KIND_POINTER q)\<lparr>element_type := Some q\<rparr>"
| "spelled_type (Array_of e) = (plain_type TYPE_KIND_ARRAY e)\<lparr>element_type := Some e\<rparr>"
| "spelled_type (Sized_array e n) = (plain_type TYPE_KIND_ARRAY e)\<lparr>element_type := Some e\<rparr>"
| "spelled_type (Map_from k v) = (plain_type TYPE_KIND_MAP (''map['' @ k @ '':'' @ v @ '']''))\<lparr>key_type := Some k, value_type := Some v\<rparr>"

text \<open>The size of an array is not part of its type.\<close>

fun unsized :: "spelled \<Rightarrow> spelled" where
  "unsized (Sized_array e n) = Array_of e"
| "unsized s = s"

lemma resolve_spelled:
  assumes "pool_ok p" "spelled_ok s" "distinct_type_named p (spelling s) = None" "type_from_name p (Some (spelling s)) = Some (p', r)"
  shows "deref p' r = spelled_type s"
proof (cases s)
  case (Pointer_to q)
  then show ?thesis using resolve_pointer [OF assms(1), of q] assms by simp
next
  case (Array_of e)
  then show ?thesis using resolve_array [OF assms(1), of e] assms by simp
next
  case (Sized_array e n)
  then show ?thesis using resolve_sized_array [OF assms(1), of e n] assms by simp
next
  case (Map_from k v)
  then show ?thesis using resolve_map [OF assms(1), of k v] assms by simp
qed

lemma type_name_spelled:
  assumes "length (spelling (unsized s)) < TYPE_NAME_MAX"
  shows "type_name (Some (spelled_type s)) = spelling (unsized s)"
  using assms by (cases s) (simp_all add: type_name_def plain_type_def type_name_format_def TYPE_NAME_MAX_def)

text \<open>Declaring a distinct type: its name is then the new type, a copy of the underlying one.\<close>

lemma register_distinct_ok:
  assumes "pool_ok p" "distinct_type_named p name = None"
  shows "\<exists>p' i. type_register_distinct p name underlying = Some p' \<and> pool_ok p'
    \<and> type_from_name p' (Some name) = Some (p', Pooled i) \<and> distinct_name (deref p' (Pooled i)) = Some name
    \<and> (\<forall>q r. type_from_name p (Some underlying) = Some (q, r) \<longrightarrow>
        deref p' (Pooled i) = (deref q r)\<lparr>distinct_name := Some name\<rparr>)"
proof -
  obtain q r where q: "type_from_name p (Some underlying) = Some (q, r)" "pool_ok q" "extends p q" using type_from_name_ok [OF assms(1)] by blast
  let ?t = "(deref q r)\<lparr>distinct_name := Some name\<rparr>"
  let ?p = "q\<lparr>pool_types := pool_types q @ [?t], distinct_types := distinct_types q @ [length (pool_types q)]\<rparr>"
  have "type_register_distinct p name underlying = Some ?p" by (simp add: type_register_distinct_def q(1))
  moreover have "entry_ok ?p e" if "entry_ok q e" for e using that by (simp add: entry_ok_def nth_append)
  then have "pool_ok ?p" using q(2) by (auto simp: pool_ok_def list_all_iff nth_append split: option.splits)
  moreover have "distinct_type_named ?p name = Some (length (pool_types q))"
  proof -
    have append: "find P (xs @ [x]) = (case find P xs of None \<Rightarrow> if P x then Some x else None | Some y \<Rightarrow> Some y)" for P and xs :: "nat list" and x
      by (induction xs) auto
    have "find (\<lambda>i. distinct_name ((pool_types q @ [?t]) ! i) = Some name) (distinct_types q) = distinct_type_named q name"
      unfolding distinct_type_named_def using q(2) by (auto simp: pool_ok_def list_all_iff nth_append intro!: find_cong)
    then show ?thesis using distinct_type_extends [OF assms(1) q(3), of name] assms(2) by (simp add: distinct_type_named_def append)
  qed
  ultimately show ?thesis using q(1) by (auto simp: type_from_name_def deref_def)
qed

subsection \<open>Signatures\<close>

text \<open>A signature as it is written, with a list of results in parentheses.\<close>

fun commas :: "string list \<Rightarrow> string" where
  "commas [] = []"
| "commas [t] = t"
| "commas (t # u # ts) = t @ '','' @ commas (u # ts)"

definition signature_text :: "function_signature \<Rightarrow> string" where
  "signature_text sig =
     ''func('' @ commas (map2 (\<lambda>mutable t. (if mutable then ''&'' else []) @ t) (is_parameter_mutable sig) (parameter_types sig)) @ '')''
       @ (case return_types sig of
            [] \<Rightarrow> []
          | [t] \<Rightarrow> ''->'' @ t
          | ts \<Rightarrow> ''->('' @ commas ts @ '')'')"

text \<open>
  The spelling of a type as a part of a signature: parentheses, and brackets of all sorts, are balanced, and a comma is
  inside of some. The counts are of the parentheses and of all brackets open.
\<close>

definition parens_after :: "char \<Rightarrow> int \<Rightarrow> int" where
  "parens_after c n = (if c = CHR ''('' then n + 1 else if c = CHR '')'' then n - 1 else n)"

fun part_loop :: "string \<Rightarrow> int \<Rightarrow> int \<Rightarrow> bool" where
  "part_loop [] parens depth = (parens = 0 \<and> depth = 0)"
| "part_loop (c # cs) parens depth =
     (0 \<le> parens_after c parens \<and> \<not> (c = CHR '','' \<and> depth = 0) \<and> part_loop cs (parens_after c parens) (depth_after c depth))"

definition signature_part :: "string \<Rightarrow> bool" where
  "signature_part t \<longleftrightarrow> t \<noteq> [] \<and> hd t \<noteq> CHR ''&'' \<and> part_loop t 0 0"

definition signature_ok :: "function_signature \<Rightarrow> bool" where
  "signature_ok sig \<longleftrightarrow> length (is_parameter_mutable sig) = length (parameter_types sig)
     \<and> list_all signature_part (parameter_types sig)
     \<and> (case return_types sig of
          [] \<Rightarrow> True
        | [t] \<Rightarrow> t \<noteq> [] \<and> hd t \<noteq> CHR ''('' \<and> t \<noteq> ''void''
        | ts \<Rightarrow> list_all signature_part ts)"

lemma close_part: "part_loop t parens depth \<Longrightarrow> 0 \<le> parens \<Longrightarrow> close_loop (t @ rest) i (1 + parens) = close_loop rest (i + length t) 1"
proof (induction t arbitrary: i parens depth)
  case (Cons c t)
  from Cons.prems(1) have p: "part_loop t (parens_after c parens) (depth_after c depth)" "0 \<le> parens_after c parens" by auto
  from Cons.IH [OF p, of "i + 1"] p(2) show ?case by (auto simp: parens_after_def algebra_simps)
qed simp

lemma split_part: "part_loop t parens depth \<Longrightarrow> segment_loop (t @ rest) depth segment = segment_loop rest 0 (rev t @ segment)"
proof (induction t arbitrary: parens depth segment)
  case (Cons c t)
  then have p: "part_loop t (parens_after c parens) (depth_after c depth)" "\<not> (depth_after c depth = 0 \<and> c = CHR '','')"
    by (auto simp: depth_after_def)
  then show ?case using Cons.IH [OF p(1)] by (cases "c = CHR '',''") auto
qed simp

lemma split_commas: "ts \<noteq> [] \<Longrightarrow> \<forall>t \<in> set ts. part_loop t 0 0 \<Longrightarrow> segment_loop (commas ts) 0 [] = ts"
proof (induction ts rule: commas.induct)
  case (2 t)
  then show ?case using split_part [of t 0 0 "[]" "[]"] by simp
next
  case (3 t u ts)
  have "segment_loop (commas (t # u # ts)) 0 [] = segment_loop ('','' @ commas (u # ts)) 0 (rev t)" using split_part [of t 0 0] 3 by simp
  then show ?case using 3 by (simp add: depth_after_def)
qed simp

lemma commas_empty: "commas ts = [] \<longleftrightarrow> ts = [] \<or> ts = [[]]"
  by (induction ts rule: commas.induct) auto

lemma split_top_value: "\<forall>t \<in> set ts. t \<noteq> [] \<and> part_loop t 0 0 \<Longrightarrow> split_top_commas (commas ts) = ts"
  using split_commas [of ts] commas_empty [of ts] by (cases "ts = []") (auto simp: split_top_commas_def)

lemma close_commas: "\<forall>t \<in> set ts. part_loop t 0 0 \<Longrightarrow> close_loop (commas ts @ CHR '')'' # rest) i 1 = Some (i + length (commas ts))"
proof (induction ts arbitrary: i rule: commas.induct)
  case (2 t)
  then show ?case using close_part [of t 0 0 "CHR '')'' # rest" i] by simp
next
  case (3 t u ts)
  then show ?case using close_part [of t 0 0 "'','' @ commas (u # ts) @ CHR '')'' # rest" i] by simp
qed simp

lemma parse_parameters:
  "length ms = length ts \<Longrightarrow> \<forall>t \<in> set ts. t \<noteq> [] \<and> hd t \<noteq> CHR ''&'' \<Longrightarrow>
     map parse_parameter (map2 (\<lambda>mutable t. (if mutable then ''&'' else []) @ t) ms ts) = zip ms ts"
proof (induction ms ts rule: list_induct2)
  case (Cons m ms t ts)
  then show ?case by (cases t) (auto simp: parse_parameter_def)
qed simp

definition returns_text :: "string list \<Rightarrow> string" where
  "returns_text returns = (case returns of [] \<Rightarrow> [] | [t] \<Rightarrow> ''->'' @ t | ts \<Rightarrow> ''->('' @ commas ts @ '')'')"

lemma parse_returns_text:
  assumes "case returns of [] \<Rightarrow> True | [t] \<Rightarrow> t \<noteq> [] \<and> hd t \<noteq> CHR ''('' \<and> t \<noteq> ''void'' | ts \<Rightarrow> list_all signature_part ts"
  shows "parse_returns (returns_text returns) = returns"
proof -
  consider "returns = []" | t where "returns = [t]" | t u ts where "returns = t # u # ts" by (cases returns rule: commas.cases)
  then show ?thesis
  proof cases
    case 2
    then show ?thesis using assms by (cases t) (simp_all add: returns_text_def parse_returns_def starts_with_def)
  next
    case 3
    then have "split_top_commas (commas returns) = returns"
      using assms by (intro split_top_value) (auto simp: signature_part_def list_all_iff)
    moreover have "returns_text returns = CHR ''-'' # CHR ''>'' # CHR ''('' # commas returns @ '')''" by (simp add: returns_text_def 3)
    ultimately show ?thesis by (simp add: parse_returns_def starts_with_def butlast_append)
  qed (simp add: returns_text_def parse_returns_def starts_with_def)
qed

text \<open>Parsing what was printed gives the signature back.\<close>

lemma parse_signature_text:
  assumes "signature_ok sig"
  shows "parse_function_signature (signature_text sig) = Some sig"
proof -
  let ?raw = "map2 (\<lambda>mutable t. (if mutable then ''&'' else []) @ t) (is_parameter_mutable sig) (parameter_types sig)"
  have len: "length (is_parameter_mutable sig) = length (parameter_types sig)" and parts: "\<forall>t \<in> set (parameter_types sig). signature_part t"
    and returns: "parse_returns (returns_text (return_types sig)) = return_types sig"
    using assms by (simp_all add: signature_ok_def list_all_iff parse_returns_text)
  have raw: "\<forall>t \<in> set ?raw. t \<noteq> [] \<and> part_loop t 0 0"
    using parts by (auto simp: signature_part_def parens_after_def depth_after_def dest: set_zip_rightD)
  have printed: "signature_text sig = ''func('' @ commas ?raw @ CHR '')'' # returns_text (return_types sig)"
    by (simp add: signature_text_def returns_text_def)
  have close: "find_function_signature_close_parenthesis (signature_text sig) = Some (5 + length (commas ?raw))"
    unfolding printed find_function_signature_close_parenthesis_def using close_commas [of ?raw "returns_text (return_types sig)" 5] raw by simp
  have inside: "take (5 + length (commas ?raw) - 5) (drop 5 (signature_text sig)) = commas ?raw" unfolding printed by simp
  have after: "drop (5 + length (commas ?raw) + 1) (signature_text sig) = returns_text (return_types sig)"
    unfolding printed by (simp add: drop_Cons')
  have segments: "split_top_commas (commas ?raw) = ?raw" using raw by (rule split_top_value)
  have parameters: "map parse_parameter ?raw = zip (is_parameter_mutable sig) (parameter_types sig)"
    using parts by (intro parse_parameters [OF len]) (simp add: signature_part_def)
  have "starts_with ''func('' (signature_text sig)" unfolding printed by (rule starts_with_append)
  then show ?thesis using len
    unfolding parse_function_signature_def close option.case inside after segments parameters returns Let_def by simp
qed

end
