(* ===== verification/Type_Name_Values.thy ===== *)
theory Type_Name_Values
  imports Type_Names Module_Resolution Type_Pool_Values
begin

text \<open>
  What \<open>module_resolve_type_name\<close> answers: the spelling with the mangled name for each name of a type. A
  spelling is described by its parts (\<open>written_type\<close>); the caches of mangled names and the pool of types that
  the code updates on the way do not change what the names that follow resolve to.
\<close>

subsection \<open>Caches\<close>

text \<open>Tables that differ only in the names their declarations keep, and mangle alike.\<close>

definition agrees :: "module_table \<Rightarrow> module_table \<Rightarrow> bool" where
  "agrees t t' \<longleftrightarrow> t'\<lparr>declarations := []\<rparr> = t\<lparr>declarations := []\<rparr> \<and> length (declarations t') = length (declarations t)
     \<and> (\<forall>e. (declarations t' ! e)\<lparr>cached_mangled_name := None\<rparr> = (declarations t ! e)\<lparr>cached_mangled_name := None\<rparr>)
     \<and> (\<forall>e. snd (module_mangle t' e) = snd (module_mangle t e))"

lemma agrees_refl [simp]: "agrees t t"
  by (simp add: agrees_def)

lemma agrees_trans: "agrees t t' \<Longrightarrow> agrees t' t'' \<Longrightarrow> agrees t t''"
  by (simp add: agrees_def)

lemma agrees_fields:
  assumes "agrees t t'"
  shows "modules t' = modules t" "modules_hash t' = modules_hash t" "aliases t' = aliases t"
    "entry_kind (declarations t' ! e) = entry_kind (declarations t ! e)" "visibility (declarations t' ! e) = visibility (declarations t ! e)"
    "origin_file (declarations t' ! e) = origin_file (declarations t ! e)"
    "entry_module_name (declarations t' ! e) = entry_module_name (declarations t ! e)"
    "snd (module_mangle t' e) = snd (module_mangle t e)"
proof -
  have t: "t'\<lparr>declarations := []\<rparr> = t\<lparr>declarations := []\<rparr>"
    and d: "(declarations t' ! e)\<lparr>cached_mangled_name := None\<rparr> = (declarations t ! e)\<lparr>cached_mangled_name := None\<rparr>"
    using assms by (simp_all add: agrees_def)
  show "modules t' = modules t" "modules_hash t' = modules_hash t" "aliases t' = aliases t"
    using arg_cong [OF t, of modules] arg_cong [OF t, of modules_hash] arg_cong [OF t, of aliases] by simp_all
  show "entry_kind (declarations t' ! e) = entry_kind (declarations t ! e)" "visibility (declarations t' ! e) = visibility (declarations t ! e)"
    "origin_file (declarations t' ! e) = origin_file (declarations t ! e)"
    "entry_module_name (declarations t' ! e) = entry_module_name (declarations t ! e)"
    using arg_cong [OF d, of entry_kind] arg_cong [OF d, of visibility] arg_cong [OF d, of origin_file] arg_cong [OF d, of entry_module_name]
    by simp_all
  show "snd (module_mangle t' e) = snd (module_mangle t e)" using assms by (simp add: agrees_def)
qed

lemma mangle_uncached: "module_mangle_into (d\<lparr>cached_mangled_name := c\<rparr>) n = module_mangle_into d n"
  by (simp add: module_mangle_into_def split: option.split)

lemma agrees_ok:
  assumes "agrees t t'" "modules_ok t"
  shows "modules_ok t'"
proof -
  have t: "t'\<lparr>declarations := []\<rparr> = t\<lparr>declarations := []\<rparr>" "length (declarations t') = length (declarations t)"
    and d: "(declarations t' ! e)\<lparr>cached_mangled_name := None\<rparr> = (declarations t ! e)\<lparr>cached_mangled_name := None\<rparr>" for e
    using assms(1) by (simp_all add: agrees_def)
  have "entry_name (declarations t' ! e) = entry_name (declarations t ! e)" for e using arg_cong [OF d [of e], of entry_name] by simp
  then have names: "entry_names t' = entry_names t" by (simp add: fun_eq_iff entry_names_def)
  have "module_mangle_into (declarations t' ! e) n = module_mangle_into (declarations t ! e) n" for e n
    using arg_cong [OF d [of e], of "\<lambda>d. module_mangle_into d n"] by (simp add: mangle_uncached)
  moreover have same: "modules t' = modules t" "modules_hash t' = modules_hash t" "file_modules t' = file_modules t" "file_hash t' = file_hash t"
    "node_index t' = node_index t" "node_count t' = node_count t" "mangled_index t' = mangled_index t" "mangled_entries t' = mangled_entries t"
    using arg_cong [OF t(1), of modules] arg_cong [OF t(1), of modules_hash] arg_cong [OF t(1), of file_modules] arg_cong [OF t(1), of file_hash]
      arg_cong [OF t(1), of node_index] arg_cong [OF t(1), of node_count] arg_cong [OF t(1), of mangled_index]
      arg_cong [OF t(1), of mangled_entries] by simp_all
  ultimately have "mangled_names t' = mangled_names t" by (simp add: mangled_names_def)
  moreover have "scope_index_ok t' = scope_index_ok t" by (simp add: fun_eq_iff scope_index_ok_def names t(2))
  ultimately show ?thesis using assms(2) by (simp add: modules_ok_def mangled_ok_def same t(2))
qed

lemma agrees_update:
  assumes "cached_mangled_name (declarations t ! e) = None"
  defines "name \<equiv> module_mangle_into (declarations t ! e) MESSAGE_BUFFER_SIZE"
  shows "agrees t (t\<lparr>declarations := (declarations t)[e := (declarations t ! e)\<lparr>cached_mangled_name := Some name\<rparr>]\<rparr>)"
proof -
  let ?ds = "(declarations t)[e := (declarations t ! e)\<lparr>cached_mangled_name := Some name\<rparr>]"
  have at: "?ds ! i = (if i = e \<and> e < length (declarations t) then (declarations t ! e)\<lparr>cached_mangled_name := Some name\<rparr> else declarations t ! i)" for i
    by (cases "e < length (declarations t)") (auto simp: nth_list_update list_update_beyond)
  have "snd (module_mangle (t\<lparr>declarations := ?ds\<rparr>) i) = snd (module_mangle t i)" for i
    using assms(1) by (cases "i = e \<and> e < length (declarations t)")
      (auto simp add: module_mangle_def at Let_def name_def [symmetric] split: option.split)
  then show ?thesis by (simp add: agrees_def at)
qed

lemma mangle_agrees:
  assumes "module_mangle t e = (t', name)"
  shows "agrees t t'" "name = snd (module_mangle t e)"
  using assms agrees_update [of t e] by (auto simp: module_mangle_def Let_def split: option.splits)

lemma agrees_lookup:
  assumes "agrees t t'"
  shows "module_table_find t' = module_table_find t" "module_scope_lookup t' = module_scope_lookup t"
    "module_table_resolve_alias t' = module_table_resolve_alias t"
    "is_module_declaration_visible scope (declarations t' ! e) = is_module_declaration_visible scope (declarations t ! e)"
  using agrees_fields [OF assms]
  by (simp_all add: fun_eq_iff module_table_find_def module_scope_lookup_def module_table_resolve_alias_def is_module_declaration_visible_def
      split: option.splits)

lemma agrees_using: "agrees t t' \<Longrightarrow> using_loop t' scope name report us found = using_loop t scope name report us found"
proof (induction us arbitrary: found report)
  case (Cons u us)
  note same = agrees_lookup [OF Cons.prems] agrees_fields [OF Cons.prems] Cons.IH [OF Cons.prems]
  show ?case unfolding using_loop.simps(2) same ..
qed simp

lemma agrees_resolve:
  assumes "agrees t t'"
  shows "module_resolve_written t' scope written = module_resolve_written t scope written"
proof -
  note same = agrees_lookup [OF assms] agrees_using [OF assms]
  have calls: "module_resolve_unqualified t' = module_resolve_unqualified t" "module_resolve_qualified t' = module_resolve_qualified t"
    unfolding fun_eq_iff module_resolve_unqualified_def module_resolve_qualified_def same by simp_all
  show ?thesis unfolding module_resolve_written_def calls ..
qed

subsection \<open>Names\<close>

text \<open>The declaration a name stands for, and the name that replaces it.\<close>

definition leaf_entry :: "module_table \<Rightarrow> resolve_scope option \<Rightarrow> string \<Rightarrow> nat option option" where
  "leaf_entry t scope written =
     (if hd written = CHR ''.'' then Option.bind (module_table_find t (Some [])) (\<lambda>i. module_scope_lookup t i (tl written))
      else module_resolve_written t scope written)"

definition leaf_name :: "module_table \<Rightarrow> resolve_scope option \<Rightarrow> string \<Rightarrow> string" where
  "leaf_name t scope written =
     (case leaf_entry t scope written of
        Some (Some e) \<Rightarrow>
          if entry_kind (declarations t ! e) \<in> {DECLARATION_STRUCT, DECLARATION_ENUM, DECLARATION_ALIAS} then snd (module_mangle t e) else written
      | _ \<Rightarrow> written)"

lemma agrees_leaf:
  assumes "agrees t t'"
  shows "leaf_entry t' scope written = leaf_entry t scope written" "leaf_name t' scope written = leaf_name t scope written"
proof -
  show entry: "leaf_entry t' scope written = leaf_entry t scope written"
    by (simp add: leaf_entry_def agrees_lookup [OF assms] agrees_resolve [OF assms])
  show "leaf_name t' scope written = leaf_name t scope written"
    unfolding leaf_name_def entry by (simp add: agrees_fields [OF assms] split: option.splits)
qed

lemma using_loop_total: "modules_ok t \<Longrightarrow> using_loop t scope name False us found \<noteq> None"
  by (induction us arbitrary: found) (auto simp: using_loop_step split: option.splits)

lemma leaf_entry_total:
  assumes "modules_ok t"
  shows "leaf_entry t scope written \<noteq> None"
proof -
  have "module_resolve_unqualified t s written False \<noteq> None" for s
    using using_loop_total [OF assms] by (simp add: module_resolve_unqualified_def lookup_then [OF assms] split: option.splits)
  moreover have "module_resolve_qualified t scope q name \<noteq> None" for q name
    using resolve_qualified_value [OF assms, of q scope name] by (cases "q = []") (auto simp: module_resolve_qualified_def)
  ultimately show ?thesis
    by (auto simp: leaf_entry_def module_resolve_written_def lookup_module_value [OF assms] split: option.splits)
qed

subsection \<open>Spellings of types\<close>

datatype written_type =
    Leaf string
  | To_Pointer written_type
  | To_Array written_type
  | To_Sized_Array written_type string
  | To_Map written_type written_type
  | To_Function "bool list" "written_type list" "written_type list"

fun written_text :: "written_type \<Rightarrow> string" where
  "written_text (Leaf name) = name"
| "written_text (To_Pointer w) = ''^'' @ written_text w"
| "written_text (To_Array w) = ''['' @ written_text w @ '']''"
| "written_text (To_Sized_Array w size_text) = ''['' @ written_text w @ '','' @ size_text @ '']''"
| "written_text (To_Map k v) = ''map['' @ written_text k @ '':'' @ written_text v @ '']''"
| "written_text (To_Function flags ps rs) =
     signature_text \<lparr>parameter_types = map written_text ps, is_parameter_mutable = flags, return_types = map written_text rs\<rparr>"

text \<open>A name replaced everywhere.\<close>

fun renamed :: "(string \<Rightarrow> string) \<Rightarrow> written_type \<Rightarrow> written_type" where
  "renamed f (Leaf name) = Leaf (f name)"
| "renamed f (To_Pointer w) = To_Pointer (renamed f w)"
| "renamed f (To_Array w) = To_Array (renamed f w)"
| "renamed f (To_Sized_Array w size_text) = To_Sized_Array (renamed f w) size_text"
| "renamed f (To_Map k v) = To_Map (renamed f k) (renamed f v)"
| "renamed f (To_Function flags ps rs) = To_Function flags (map (renamed f) ps) (map (renamed f) rs)"

text \<open>
  Names have none of the punctuation of types. The element of an array is no function type, nor a pointer
  to one, since the search for the comma in front of the size does not look at parentheses; a function
  does not return \<open>void\<close> by name, which stands for no result.
\<close>

fun to_function :: "written_type \<Rightarrow> bool" where
  "to_function (To_Function flags ps rs) = True"
| "to_function (To_Pointer w) = to_function w"
| "to_function w = False"

definition plain_text :: "string \<Rightarrow> bool" where
  "plain_text name \<longleftrightarrow> name \<noteq> [] \<and> list_all (\<lambda>c. c \<notin> set ''()[]^:,&'') name"

fun written_ok :: "written_type \<Rightarrow> bool" where
  "written_ok (Leaf name) = plain_text name"
| "written_ok (To_Pointer w) = written_ok w"
| "written_ok (To_Array w) = (written_ok w \<and> \<not> to_function w)"
| "written_ok (To_Sized_Array w size_text) = (written_ok w \<and> \<not> to_function w \<and> plain_text size_text)"
| "written_ok (To_Map k v) = (written_ok k \<and> written_ok v)"
| "written_ok (To_Function flags ps rs) =
     (length flags = length ps \<and> list_all written_ok ps \<and> list_all written_ok rs \<and> rs \<noteq> [Leaf ''void''])"

lemma written_text_first: "written_ok w \<Longrightarrow> written_text w \<noteq> [] \<and> hd (written_text w) \<noteq> CHR ''&'' \<and> hd (written_text w) \<noteq> CHR ''(''"
  by (cases w) (auto simp: plain_text_def signature_text_def list_all_iff)

text \<open>The loops over brackets read a spelling, or several with commas, and are where they were.\<close>

definition raw_parts :: "bool list \<Rightarrow> string list \<Rightarrow> string list" where
  "raw_parts flags ts = map2 (\<lambda>mutable t. (if mutable then ''&'' else []) @ t) flags ts"

lemma signature_text_parts:
  "signature_text \<lparr>parameter_types = ps, is_parameter_mutable = flags, return_types = rs\<rparr> =
     ''func('' @ commas (raw_parts flags ps) @ '')'' @ (case rs of [] \<Rightarrow> [] | [t] \<Rightarrow> ''->'' @ t | ts \<Rightarrow> ''->('' @ commas ts @ '')'')"
  by (simp add: signature_text_def raw_parts_def)

lemma raw_parts_set: "t \<in> set (raw_parts flags ts) \<Longrightarrow> \<exists>u \<in> set ts. t = u \<or> t = CHR ''&'' # u"
proof -
  assume "t \<in> set (raw_parts flags ts)"
  then obtain m u where "(m, u) \<in> set (zip flags ts)" "t = (if m then ''&'' else []) @ u" by (auto simp: raw_parts_def)
  then show ?thesis using set_zip_rightD by (intro bexI [of _ u]) auto
qed

definition part_skips :: "string \<Rightarrow> bool" where
  "part_skips t \<longleftrightarrow> (\<forall>rest parens depth. 0 \<le> parens \<longrightarrow> 0 \<le> depth \<longrightarrow> part_loop (t @ rest) parens depth = part_loop rest parens depth)"

lemma part_skips_plain: "list_all (\<lambda>c. c \<notin> set ''()[]^:,&'') name \<Longrightarrow> part_skips name"
  unfolding part_skips_def by (induction name) (auto simp: parens_after_def depth_after_def)

lemma part_skips_commas:
  "\<forall>t \<in> set ts. part_skips t \<Longrightarrow> 0 \<le> parens \<Longrightarrow> 0 < depth \<Longrightarrow> part_loop (commas ts @ rest) parens depth = part_loop rest parens depth"
  by (induction ts rule: commas.induct) (auto simp: part_skips_def parens_after_def depth_after_def)

lemma part_skips_raw: "\<forall>t \<in> set ts. part_skips t \<Longrightarrow> \<forall>t \<in> set (raw_parts flags ts). part_skips t"
  by (auto dest!: raw_parts_set simp: part_skips_def parens_after_def depth_after_def)

lemma part_skips_written: "written_ok w \<Longrightarrow> part_skips (written_text w)"
proof (induction w)
  case (Leaf name)
  then show ?case by (simp add: plain_text_def part_skips_plain)
next
  case (To_Sized_Array w size_text)
  then have "part_skips (written_text w)" "part_skips size_text" by (simp_all add: plain_text_def part_skips_plain)
  then show ?case by (simp add: part_skips_def parens_after_def depth_after_def)
next
  case (To_Function flags ps rs)
  then have ps: "\<forall>t \<in> set (map written_text ps). part_skips t" and rs: "\<forall>t \<in> set (map written_text rs). part_skips t"
    by (auto simp: list_all_iff)
  note lists = part_skips_commas [OF part_skips_raw [OF ps]] part_skips_commas [OF rs]
  consider "rs = []" | r where "rs = [r]" | r r' rs' where "rs = r # r' # rs'" by (cases rs; cases "tl rs") auto
  then show ?case
    using lists rs by cases (auto simp: signature_text_parts part_skips_def parens_after_def depth_after_def)
qed (simp_all add: part_skips_def parens_after_def depth_after_def)

lemma signature_written:
  assumes "written_ok (To_Function flags ps rs)"
  shows "signature_ok \<lparr>parameter_types = map written_text ps, is_parameter_mutable = flags, return_types = map written_text rs\<rparr>"
proof -
  have part: "signature_part (written_text w)" if "written_ok w" for w
    using part_skips_written [OF that] written_text_first [OF that] unfolding signature_part_def part_skips_def
    by (metis append_Nil2 order_refl part_loop.simps(1))
  have "w = Leaf ''void''" if "written_ok w" "written_text w = ''void''" for w
    using that by (cases w) (auto simp: signature_text_def)
  then show ?thesis using assms part written_text_first
    by (auto simp: signature_ok_def list_all_iff split: list.splits)
qed

definition depth_zero_skips :: "char \<Rightarrow> string \<Rightarrow> bool \<Rightarrow> bool" where
  "depth_zero_skips c t inside \<longleftrightarrow>
     (\<forall>rest i depth. (if inside then 0 < depth else 0 \<le> depth) \<longrightarrow> depth_zero_loop (t @ rest) c i depth = depth_zero_loop rest c (i + length t) depth)"

lemma depth_zero_skips_text:
  "list_all (\<lambda>c. c \<notin> set ''[]:,'') name \<Longrightarrow> c \<in> set '':,'' \<Longrightarrow> depth_zero_skips c name inside"
proof -
  assume *: "list_all (\<lambda>c. c \<notin> set ''[]:,'') name" "c \<in> set '':,''"
  then have "depth_zero_loop (name @ rest) c i depth = depth_zero_loop rest c (i + length name) depth" for rest i depth
    by (induction name arbitrary: i) auto
  then show ?thesis by (simp add: depth_zero_skips_def)
qed

lemma depth_zero_skips_plain: "plain_text name \<Longrightarrow> c \<in> set '':,'' \<Longrightarrow> depth_zero_skips c name inside"
  by (rule depth_zero_skips_text) (auto simp: plain_text_def list_all_iff)

lemma depth_zero_skips_append: "depth_zero_skips c t inside \<Longrightarrow> depth_zero_skips c u inside \<Longrightarrow> depth_zero_skips c (t @ u) inside"
  by (simp add: depth_zero_skips_def add.assoc)

lemma depth_zero_skips_commas:
  "\<forall>t \<in> set ts. depth_zero_skips c t inside \<Longrightarrow> c = CHR '':'' \<or> inside \<Longrightarrow> c \<in> set '':,'' \<Longrightarrow> depth_zero_skips c (commas ts) inside"
  by (induction ts rule: commas.induct) (auto simp: depth_zero_skips_def add.assoc)

lemma depth_zero_skips_raw:
  "\<forall>t \<in> set ts. depth_zero_skips c t inside \<Longrightarrow> c \<in> set '':,'' \<Longrightarrow> \<forall>t \<in> set (raw_parts flags ts). depth_zero_skips c t inside"
  by (auto dest!: raw_parts_set simp: depth_zero_skips_def)

lemma depth_zero_skips_written:
  "written_ok w \<Longrightarrow> c \<in> set '':,'' \<Longrightarrow> c = CHR '':'' \<or> \<not> to_function w \<or> inside \<Longrightarrow> depth_zero_skips c (written_text w) inside"
proof (induction w arbitrary: inside)
  case (Leaf name)
  then show ?case by (simp add: depth_zero_skips_plain)
next
  case (To_Pointer w)
  then show ?case by (auto simp: depth_zero_skips_def)
next
  case (To_Array w)
  then have "depth_zero_skips c (written_text w) True" by simp
  then show ?case using To_Array.prems(2) by (auto simp: depth_zero_skips_def)
next
  case (To_Sized_Array w size_text)
  then have "depth_zero_skips c (written_text w) True" "depth_zero_skips c size_text True"
    by (simp_all add: depth_zero_skips_plain)
  then show ?case using To_Sized_Array.prems(2) by (auto simp: depth_zero_skips_def add.assoc)
next
  case (To_Map k v)
  then have "depth_zero_skips c (written_text k) True" "depth_zero_skips c (written_text v) True" by simp_all
  then show ?case using To_Map.prems(2) by (auto simp: depth_zero_skips_def add.assoc)
next
  case (To_Function flags ps rs)
  then have inside: "c = CHR '':'' \<or> inside" by simp
  then have ps: "\<forall>t \<in> set (map written_text ps). depth_zero_skips c t inside" and rs: "\<forall>t \<in> set (map written_text rs). depth_zero_skips c t inside"
    using To_Function by (auto simp: list_all_iff)
  note lists = depth_zero_skips_commas [OF depth_zero_skips_raw [OF ps To_Function.prems(2)] inside To_Function.prems(2)]
    depth_zero_skips_commas [OF rs inside To_Function.prems(2)]
  have signs: "depth_zero_skips c ''->'' inside" "depth_zero_skips c ''->('' inside" "depth_zero_skips c '')'' inside" "depth_zero_skips c [] inside"
    using To_Function.prems(2) by (simp_all add: depth_zero_skips_text)
  consider "rs = []" | r where "rs = [r]" | r r' rs' where "rs = r # r' # rs'" by (cases rs; cases "tl rs") auto
  then have "depth_zero_skips c (case map written_text rs of [] \<Rightarrow> [] | [t] \<Rightarrow> ''->'' @ t | ts \<Rightarrow> ''->('' @ commas ts @ '')'') inside"
  proof cases
    case 2
    then show ?thesis using depth_zero_skips_append [OF signs(1)] rs by simp
  next
    case 3
    then show ?thesis using depth_zero_skips_append [OF signs(2) depth_zero_skips_append [OF lists(2) signs(3)]] by simp
  qed (simp add: signs)
  then show ?case
    unfolding written_text.simps signature_text_parts using lists(1) To_Function.prems(2)
    by (intro depth_zero_skips_append) (simp_all add: depth_zero_skips_text)
qed

subsection \<open>Resolution\<close>

lemma buffered_short: "length text < 256 \<Longrightarrow> buffered text = text"
  by (simp add: buffered_def MESSAGE_BUFFER_SIZE_def)

text \<open>The states a resolution runs through, and what it answers in all of them.\<close>

definition naming_ok :: "module_table \<Rightarrow> module_table \<times> type_pool \<Rightarrow> bool" where
  "naming_ok t s \<longleftrightarrow> agrees t (fst s) \<and> pool_ok (snd s) \<and> (\<forall>name. starts_with ''func('' name \<longrightarrow> distinct_type_named (snd s) name = None)"

definition resolves :: "module_table \<Rightarrow> (string \<Rightarrow> (bool \<times> string) naming) \<Rightarrow> string \<Rightarrow> string \<Rightarrow> bool" where
  "resolves t types written text \<longleftrightarrow>
     (\<forall>s. naming_ok t s \<longrightarrow> (\<exists>s' changed. types written s = Some (s', changed, text) \<and> naming_ok t s' \<and> (\<not> changed \<longrightarrow> text = written)))"

lemma resolvesE:
  assumes "resolves t types written text" "naming_ok t s"
  obtains s' changed where "types written s = Some (s', changed, text)" "naming_ok t s'" "\<not> changed \<longrightarrow> text = written"
  using assms unfolding resolves_def by blast

lemma resolves_leaf:
  assumes "modules_ok t"
  shows "resolves t (resolve_leaf scope) written (leaf_name t scope written)"
  unfolding resolves_def
proof (intro allI impI)
  fix s assume s: "naming_ok t s"
  obtain u pool where u: "s = (u, pool)" by (cases s)
  then have agrees: "agrees t u" using s by (simp add: naming_ok_def)
  obtain entry where entry: "leaf_entry t scope written = Some entry" using leaf_entry_total [OF assms] by blast
  then have "resolve_leaf scope written (u, pool) = Some (case entry of
      None \<Rightarrow> ((u, pool), False, written)
    | Some e \<Rightarrow> if names_type (entry_kind (declarations u ! e)) then let (t, name) = module_mangle u e in ((t, pool), True, name)
        else ((u, pool), False, written))"
    using agrees_leaf(1) [OF agrees, of scope written] by (simp add: resolve_leaf_def leaf_entry_def)
  moreover have "agrees t (fst (module_mangle u e))" for e
    using agrees_trans [OF agrees] mangle_agrees(1) by (metis prod.collapse)
  ultimately show "\<exists>s' changed. resolve_leaf scope written s = Some (s', changed, leaf_name t scope written) \<and> naming_ok t s'
      \<and> (\<not> changed \<longrightarrow> leaf_name t scope written = written)"
    using s entry agrees_fields(4,8) [OF agrees]
    by (cases entry) (auto simp: u naming_ok_def leaf_name_def names_type_def case_prod_unfold Let_def)
qed

lemma resolves_pointer_name:
  assumes "resolves t types w text" "length text < 255"
  shows "resolves t (resolve_pointer_name types) (''^'' @ w) (''^'' @ text)"
  unfolding resolves_def
proof (intro allI impI)
  fix s assume "naming_ok t s"
  with assms(1) obtain s' changed where "types w s = Some (s', changed, text)" "naming_ok t s'" "\<not> changed \<longrightarrow> text = w"
    by (rule resolvesE)
  then show "\<exists>s' changed. resolve_pointer_name types (''^'' @ w) s = Some (s', changed, ''^'' @ text) \<and> naming_ok t s'
      \<and> (\<not> changed \<longrightarrow> ''^'' @ text = ''^'' @ w)"
    using assms(2) by (cases changed) (auto simp: resolve_pointer_name_def buffered_short)
qed

lemma resolves_array_name:
  assumes "resolves t types w text" "length text < 254" "depth_zero_skips (CHR '','') w False"
  shows "resolves t (resolve_array_name types) (''['' @ w @ '']'') (''['' @ text @ '']'')"
  unfolding resolves_def
proof (intro allI impI)
  fix s assume "naming_ok t s"
  with assms(1) obtain s' changed where types: "types w s = Some (s', changed, text)" "naming_ok t s'" "\<not> changed \<longrightarrow> text = w"
    by (rule resolvesE)
  have "find_at_depth_zero w (CHR '','') = None"
    using assms(3) unfolding find_at_depth_zero_def depth_zero_skips_def by (metis append_Nil2 depth_zero_loop.simps(1) order_refl)
  then show "\<exists>s' changed. resolve_array_name types (''['' @ w @ '']'') s = Some (s', changed, ''['' @ text @ '']'') \<and> naming_ok t s'
      \<and> (\<not> changed \<longrightarrow> ''['' @ text @ '']'' = ''['' @ w @ '']'')"
    using types assms(2) by (cases changed) (auto simp: resolve_array_name_def buffered_short)
qed

lemma resolves_sized_name:
  assumes "resolves t types w text" "length text + length size_text < 253" "depth_zero_skips (CHR '','') w False"
  shows "resolves t (resolve_array_name types) (''['' @ w @ '','' @ size_text @ '']'') (''['' @ text @ '','' @ size_text @ '']'')"
  unfolding resolves_def
proof (intro allI impI)
  fix s assume "naming_ok t s"
  with assms(1) obtain s' changed where types: "types w s = Some (s', changed, text)" "naming_ok t s'" by (rule resolvesE)
  have "butlast (tl (''['' @ w @ '','' @ size_text @ '']'')) = w @ '','' @ size_text"
    using butlast_snoc [of "w @ '','' @ size_text" "CHR '']''"] by simp
  moreover have "find_at_depth_zero (w @ '','' @ size_text) (CHR '','') = Some (length w)"
    using assms(3) by (simp add: find_at_depth_zero_def depth_zero_skips_def)
  ultimately show "\<exists>s' changed. resolve_array_name types (''['' @ w @ '','' @ size_text @ '']'') s
        = Some (s', changed, ''['' @ text @ '','' @ size_text @ '']'') \<and> naming_ok t s'
      \<and> (\<not> changed \<longrightarrow> ''['' @ text @ '','' @ size_text @ '']'' = ''['' @ w @ '','' @ size_text @ '']'')"
    using types assms(2) unfolding resolve_array_name_def Let_def by (auto simp: buffered_short)
qed

lemma resolves_map_name:
  assumes "resolves t types k key" "resolves t types v val" "length key + length val < 250" "depth_zero_skips (CHR '':'') k False"
  shows "resolves t (resolve_map_name types) (''map['' @ k @ '':'' @ v @ '']'') (''map['' @ key @ '':'' @ val @ '']'')"
  unfolding resolves_def
proof (intro allI impI)
  fix s assume "naming_ok t s"
  with assms(1) obtain u c where u: "types k s = Some (u, c, key)" "naming_ok t u" "\<not> c \<longrightarrow> key = k" by (rule resolvesE)
  from assms(2) u(2) obtain r d where r: "types v u = Some (r, d, val)" "naming_ok t r" "\<not> d \<longrightarrow> val = v" by (rule resolvesE)
  have "butlast (drop 4 (''map['' @ k @ '':'' @ v @ '']'')) = k @ '':'' @ v"
    using butlast_snoc [of "k @ '':'' @ v" "CHR '']''"] by simp
  moreover have "find_at_depth_zero (k @ '':'' @ v) (CHR '':'') = Some (length k)"
    using assms(4) by (simp add: find_at_depth_zero_def depth_zero_skips_def)
  ultimately show "\<exists>s' changed. resolve_map_name types (''map['' @ k @ '':'' @ v @ '']'') s
        = Some (s', changed, ''map['' @ key @ '':'' @ val @ '']'') \<and> naming_ok t s'
      \<and> (\<not> changed \<longrightarrow> ''map['' @ key @ '':'' @ val @ '']'' = ''map['' @ k @ '':'' @ v @ '']'')"
    using u r assms(3) unfolding resolve_map_name_def Let_def by (auto simp: buffered_short)
qed

subsection \<open>Resolution of signatures\<close>

definition joined :: "bool \<Rightarrow> string list \<Rightarrow> string" where
  "joined is_first ts = (if ts = [] then [] else (if is_first then [] else '','') @ commas ts)"

lemma joined_Cons: "joined is_first (t # ts) = (if is_first then [] else '','') @ t @ joined False ts"
  by (cases ts) (simp_all add: joined_def)

lemma signature_loop_value:
  "list_all2 (resolves t types) ws texts \<Longrightarrow> length flags = length ws \<Longrightarrow> naming_ok t s
    \<Longrightarrow> length (so_far @ joined is_first (raw_parts flags texts)) < 256 \<Longrightarrow>
   \<exists>s' changed. signature_loop types (zip flags ws) so_far is_first was_changed s = Some (s', changed, so_far @ joined is_first (raw_parts flags texts))
     \<and> naming_ok t s' \<and> (\<not> changed \<longrightarrow> \<not> was_changed \<and> texts = ws)"
proof (induction ws texts arbitrary: flags so_far is_first was_changed s rule: list_all2_induct)
  case Nil
  then show ?case by (simp add: joined_def raw_parts_def)
next
  case (Cons w ws x xs)
  then obtain m ms where flags: "flags = m # ms" "length ms = length ws" by (cases flags) auto
  from Cons.hyps(1) Cons.prems(2) obtain u c where u: "types w s = Some (u, c, x)" "naming_ok t u" "\<not> c \<longrightarrow> x = w"
    by (rule resolvesE)
  let ?so_far = "so_far @ (if is_first then [] else '','') @ (if m then ''&'' else []) @ x"
  have all: "so_far @ joined is_first (raw_parts flags (x # xs)) = ?so_far @ joined False (raw_parts ms xs)"
    by (simp add: flags raw_parts_def joined_Cons)
  then have short: "length (?so_far @ joined False (raw_parts ms xs)) < 256" using Cons.prems(3) by simp
  then have "buffered ?so_far = ?so_far" by (intro buffered_short) simp
  moreover from Cons.IH [OF flags(2) u(2) short, of "was_changed \<or> c"] obtain s' changed where
    "signature_loop types (zip ms ws) ?so_far False (was_changed \<or> c) u = Some (s', changed, ?so_far @ joined False (raw_parts ms xs))"
    "naming_ok t s'" "\<not> changed \<longrightarrow> \<not> (was_changed \<or> c) \<and> xs = ws" by blast
  ultimately show ?case using u unfolding all by (auto simp: flags)
qed

definition returns_part :: "string list \<Rightarrow> string" where
  "returns_part ts = (case ts of [] \<Rightarrow> [] | [t] \<Rightarrow> t | _ \<Rightarrow> ''('' @ commas ts @ '')'')"

lemma raw_parts_plain: "raw_parts (map (\<lambda>_. False) ts) ts = ts"
  by (induction ts) (simp_all add: raw_parts_def)

lemma resolve_returns_value:
  assumes "list_all2 (resolves t types) ws texts" "naming_ok t s" "length (returns_part texts) < 256"
  shows "\<exists>s' changed. resolve_returns types ws s = Some (s', changed, returns_part texts) \<and> naming_ok t s' \<and> (\<not> changed \<longrightarrow> texts = ws)"
proof -
  have len: "length ws = length texts" using assms(1) by (rule list_all2_lengthD)
  have zip: "map (Pair False) ws = zip (map (\<lambda>_. False) texts) ws" using len by (induction ws texts rule: list_induct2) simp_all
  have joined: "joined True texts = commas texts" by (cases texts) (simp_all add: joined_def)
  have short: "length (commas texts) < 256" using assms(3) by (cases texts rule: commas.cases) (simp_all add: returns_part_def)
  then obtain s' changed where s': "signature_loop types (map (Pair False) ws) [] True False s = Some (s', changed, commas texts)"
      "naming_ok t s'" "\<not> changed \<longrightarrow> texts = ws"
    using signature_loop_value [OF assms(1) _ assms(2), of "map (\<lambda>_. False) texts" "[]" True False] len
    unfolding zip raw_parts_plain joined by auto
  consider "ws = []" "texts = []" | w x where "ws = [w]" "texts = [x]" | w w' ws' x x' xs' where "ws = w # w' # ws'" "texts = x # x' # xs'"
    using len by (cases ws; cases "tl ws"; cases texts; cases "tl texts") auto
  then show ?thesis
  proof cases
    case 3
    then show ?thesis using s' assms(3) by (simp add: resolve_returns_def returns_part_def buffered_short)
  qed (use s' in \<open>auto simp: resolve_returns_def returns_part_def\<close>)
qed

lemma function_type_value:
  assumes "pool_ok pool" "starts_with ''func('' written" "distinct_type_named pool written = None"
  shows "\<exists>pool' r. type_from_name pool (Some written) = Some (pool', r) \<and> pool_ok pool'
    \<and> (\<forall>name. distinct_type_named pool' name = distinct_type_named pool name)
    \<and> deref pool' r = (plain_type TYPE_KIND_FUNCTION written)\<lparr>type_signature := parse_function_signature written\<rparr>"
proof -
  from type_from_name_ok [OF assms(1), of "Some written"] obtain pool' r where
    r: "type_from_name pool (Some written) = Some (pool', r)" "pool_ok pool'" "extends pool pool'" by blast
  then have "pool_intern pool ((plain_type TYPE_KIND_FUNCTION written)\<lparr>type_signature := parse_function_signature written\<rparr>) = Some (pool', r)"
    using assms(2,3) by (simp add: type_from_name_def resolve_name_def)
  then have "deref pool' r = (plain_type TYPE_KIND_FUNCTION written)\<lparr>type_signature := parse_function_signature written\<rparr>"
    by (rule pool_intern_deref [OF assms(1), rotated]) (simp add: canonical_type_def plain_type_def)
  then show ?thesis using r distinct_type_extends [OF assms(1) r(3)] by blast
qed

lemma signature_text_returns:
  "signature_text \<lparr>parameter_types = ps, is_parameter_mutable = flags, return_types = rs\<rparr> =
     ''func('' @ joined True (raw_parts flags ps) @ '')'' @ (if rs \<noteq> [] then ''->'' @ returns_part rs else [])"
  unfolding signature_text_parts by (cases "raw_parts flags ps = []"; cases rs rule: commas.cases) (simp_all add: joined_def returns_part_def)

lemma resolves_signature_name:
  assumes ok: "signature_ok \<lparr>parameter_types = ws, is_parameter_mutable = flags, return_types = rs\<rparr>"
    and parts: "list_all2 (resolves t types) ws texts" "list_all2 (resolves t types) rs returned"
    and short: "length (signature_text \<lparr>parameter_types = texts, is_parameter_mutable = flags, return_types = returned\<rparr>) < 256"
  shows "resolves t (resolve_signature_name types) (signature_text \<lparr>parameter_types = ws, is_parameter_mutable = flags, return_types = rs\<rparr>)
    (signature_text \<lparr>parameter_types = texts, is_parameter_mutable = flags, return_types = returned\<rparr>)"
    (is "resolves t _ ?written ?text")
  unfolding resolves_def
proof (intro allI impI)
  fix s assume s: "naming_ok t s"
  obtain u pool where u: "s = (u, pool)" by (cases s)
  have func: "starts_with ''func('' ?written" by (simp add: signature_text_def starts_with_def)
  then obtain pool' r where r: "type_from_name pool (Some ?written) = Some (pool', r)" "pool_ok pool'"
      "\<forall>name. distinct_type_named pool' name = distinct_type_named pool name"
      "deref pool' r = (plain_type TYPE_KIND_FUNCTION ?written)\<lparr>type_signature := parse_function_signature ?written\<rparr>"
    using function_type_value [of pool ?written] s by (auto simp: u naming_ok_def)
  have named: "naming_ok t (u, pool')" using s r(2,3) by (simp add: u naming_ok_def)
  have lengths: "length flags = length ws" using ok by (simp add: signature_ok_def)
  have none: "rs = [] \<longleftrightarrow> returned = []" using list_all2_lengthD [OF parts(2)] by (metis length_0_conv)
  have fits: "length (joined True (raw_parts flags texts)) < 256" "length (returns_part returned) < 256"
    using short unfolding signature_text_returns by (cases "returned = []"; simp add: returns_part_def)+
  from signature_loop_value [OF parts(1) lengths named, of "[]" True False] fits(1) obtain v c where
    v: "signature_loop types (zip flags ws) [] True False (u, pool') = Some (v, c, joined True (raw_parts flags texts))"
      "naming_ok t v" "\<not> c \<longrightarrow> texts = ws" by auto
  from resolve_returns_value [OF parts(2) v(2) fits(2)] obtain s' d where
    d: "resolve_returns types rs v = Some (s', d, returns_part returned)" "naming_ok t s'" "\<not> d \<longrightarrow> returned = rs" by blast
  have "buffered ?text = ?text" using short by (rule buffered_short)
  then have "resolve_signature_name types ?written s = Some (s', if \<not> c \<and> \<not> d then (False, ?written) else (True, ?text))"
    using parse_signature_text [OF ok] r(1,4) v(1) d(1) none
    by (simp add: resolve_signature_name_def u plain_type_def Let_def signature_text_returns [of texts flags returned])
  then show "\<exists>s' changed. resolve_signature_name types ?written s = Some (s', changed, ?text) \<and> naming_ok t s' \<and> (\<not> changed \<longrightarrow> ?text = ?written)"
    using v d by (cases "\<not> c \<and> \<not> d") auto
qed

subsection \<open>Any spelling\<close>

lemma length_commas: "t \<in> set ts \<Longrightarrow> length t \<le> length (commas ts)"
  by (induction ts rule: commas.induct) auto

lemma length_part:
  assumes "length flags = length ps"
  shows "t \<in> set ps \<Longrightarrow> length t + 6 \<le> length (signature_text \<lparr>parameter_types = ps, is_parameter_mutable = flags, return_types = rs\<rparr>)"
    "t \<in> set rs \<Longrightarrow> length t + 6 \<le> length (signature_text \<lparr>parameter_types = ps, is_parameter_mutable = flags, return_types = rs\<rparr>)"
proof -
  assume "t \<in> set ps"
  then obtain i where i: "i < length ps" "t = ps ! i" by (auto simp: in_set_conv_nth)
  then have "i < length (raw_parts flags ps)" "length t \<le> length (raw_parts flags ps ! i)"
    using assms by (simp_all add: raw_parts_def)
  then have "raw_parts flags ps ! i \<in> set (raw_parts flags ps)" "length t \<le> length (raw_parts flags ps ! i)" by simp_all
  then have "length t \<le> length (commas (raw_parts flags ps))" using length_commas le_trans by blast
  then show "length t + 6 \<le> length (signature_text \<lparr>parameter_types = ps, is_parameter_mutable = flags, return_types = rs\<rparr>)"
    by (simp add: signature_text_parts)
next
  assume "t \<in> set rs"
  then have "length t \<le> length (commas rs)" by (rule length_commas)
  then show "length t + 6 \<le> length (signature_text \<lparr>parameter_types = ps, is_parameter_mutable = flags, return_types = rs\<rparr>)"
    by (cases rs rule: commas.cases) (simp_all add: signature_text_parts)
qed

lemma starts_with_set: "starts_with prefix name \<Longrightarrow> set prefix \<subseteq> set name"
  unfolding starts_with_def by (metis set_take_subset)

lemma plain_text_start:
  assumes "plain_text name"
  shows "name \<noteq> []" "hd name \<notin> set ''[^''" "\<not> starts_with ''map['' name" "\<not> starts_with ''func('' name"
  using assms starts_with_set [of "''map[''" name] starts_with_set [of "''func(''" name]
  by (auto simp: plain_text_def list_all_iff intro: hd_in_set)

lemma written_start:
  assumes "written_ok w"
  shows "written_text w \<noteq> []"
    "hd (written_text w) = CHR ''['' \<and> last (written_text w) = CHR '']'' \<longleftrightarrow> (\<exists>v. w = To_Array v) \<or> (\<exists>v z. w = To_Sized_Array v z)"
    "hd (written_text w) = CHR ''^'' \<longleftrightarrow> (\<exists>v. w = To_Pointer v)"
    "5 < length (written_text w) \<and> starts_with ''map['' (written_text w) \<and> last (written_text w) = CHR '']'' \<longleftrightarrow> (\<exists>k v. w = To_Map k v)"
    "5 < length (written_text w) \<and> starts_with ''func('' (written_text w) \<longleftrightarrow> (\<exists>flags ps rs. w = To_Function flags ps rs)"
  using assms plain_text_start
  by (cases w; auto simp: starts_with_def signature_text_def dest: written_text_first)+

text \<open>The case of the code that a spelling is taken to.\<close>

lemma resolve_case:
  assumes "written_ok w"
  shows "module_resolve_type_name (Suc k) scope (written_text w) =
    (case w of
       Leaf name \<Rightarrow> resolve_leaf scope name
     | To_Pointer v \<Rightarrow> resolve_pointer_name (module_resolve_type_name k scope) (written_text w)
     | To_Array v \<Rightarrow> resolve_array_name (module_resolve_type_name k scope) (written_text w)
     | To_Sized_Array v size_text \<Rightarrow> resolve_array_name (module_resolve_type_name k scope) (written_text w)
     | To_Map key v \<Rightarrow> resolve_map_name (module_resolve_type_name k scope) (written_text w)
     | To_Function flags ps rs \<Rightarrow> resolve_signature_name (module_resolve_type_name k scope) (written_text w))"
  using written_start [OF assms] by (cases w; auto simp: fun_eq_iff simp del: written_text.simps(2-6))

declare module_resolve_type_name.simps(2) [simp del]

lemma size_part: "w \<in> set ws \<Longrightarrow> size w < Suc (size_list size ws)"
  by (induction ws) auto

lemma type_name_resolves:
  assumes "modules_ok t"
  shows "written_ok w \<Longrightarrow> length (written_text (renamed (leaf_name t scope) w)) < 256 \<Longrightarrow> size w < k
    \<Longrightarrow> resolves t (module_resolve_type_name k scope) (written_text w) (written_text (renamed (leaf_name t scope) w))"
proof (induction w arbitrary: k)
  case (Leaf name)
  then obtain j where "k = Suc j" by (cases k) simp_all
  then show ?case using resolves_leaf [OF assms, of scope name] Leaf.prems(1) resolve_case [of "Leaf name" j scope]
    by (simp add: resolves_def)
next
  case (To_Pointer w)
  then obtain j where j: "k = Suc j" "size w < j" by (cases k) simp_all
  then have "resolves t (module_resolve_type_name j scope) (written_text w) (written_text (renamed (leaf_name t scope) w))"
    using To_Pointer by simp
  from resolves_pointer_name [OF this] show ?case
    using To_Pointer.prems resolve_case [OF To_Pointer.prems(1)] by (simp add: j resolves_def)
next
  case (To_Array w)
  then obtain j where j: "k = Suc j" "size w < j" by (cases k) simp_all
  then have "resolves t (module_resolve_type_name j scope) (written_text w) (written_text (renamed (leaf_name t scope) w))"
    using To_Array by simp
  from resolves_array_name [OF this _ depth_zero_skips_written] show ?case
    using To_Array.prems resolve_case [OF To_Array.prems(1)] by (simp add: j resolves_def)
next
  case (To_Sized_Array w size_text)
  then obtain j where j: "k = Suc j" "size w < j" by (cases k) simp_all
  then have "resolves t (module_resolve_type_name j scope) (written_text w) (written_text (renamed (leaf_name t scope) w))"
    using To_Sized_Array by simp
  from resolves_sized_name [OF this _ depth_zero_skips_written, of size_text] show ?case
    using To_Sized_Array.prems resolve_case [OF To_Sized_Array.prems(1)] by (simp add: j resolves_def)
next
  case (To_Map key v)
  then obtain j where j: "k = Suc j" "size key < j" "size v < j" by (cases k) simp_all
  then have "resolves t (module_resolve_type_name j scope) (written_text key) (written_text (renamed (leaf_name t scope) key))"
    "resolves t (module_resolve_type_name j scope) (written_text v) (written_text (renamed (leaf_name t scope) v))"
    using To_Map by simp_all
  from resolves_map_name [OF this _ depth_zero_skips_written] show ?case
    using To_Map.prems resolve_case [OF To_Map.prems(1)] by (simp add: j resolves_def)
next
  case (To_Function flags ps rs)
  let ?f = "\<lambda>w. written_text (renamed (leaf_name t scope) w)"
  obtain j where j: "k = Suc j" using To_Function.prems(3) by (cases k) simp_all
  have small: "size w < j" if "w \<in> set ps \<or> w \<in> set rs" for w
    using that size_part [of w ps] size_part [of w rs] To_Function.prems(3) j by auto
  have len: "length flags = length (map ?f ps)" using To_Function.prems(1) by simp
  have "length (?f w) < 256" if "w \<in> set ps \<or> w \<in> set rs" for w
    using that length_part(1) [OF len, of "?f w" "map ?f rs"] length_part(2) [OF len, of "?f w" "map ?f rs"] To_Function.prems(2)
    by (auto simp: comp_def)
  then have "resolves t (module_resolve_type_name j scope) (written_text w) (?f w)" if "w \<in> set ps \<or> w \<in> set rs" for w
    using that small To_Function by (auto simp: list_all_iff)
  then have "list_all2 (resolves t (module_resolve_type_name j scope)) (map written_text ps) (map ?f ps)"
    "list_all2 (resolves t (module_resolve_type_name j scope)) (map written_text rs) (map ?f rs)"
    by (simp_all add: list_all2_conv_all_nth)
  from resolves_signature_name [OF signature_written [OF To_Function.prems(1)] this] show ?case
    using To_Function.prems(2) resolve_case [OF To_Function.prems(1)] by (simp add: j resolves_def comp_def)
qed

lemma type_name_resolved:
  assumes "modules_ok t" "pool_ok pool" "\<forall>name. starts_with ''func('' name \<longrightarrow> distinct_type_named pool name = None"
    and "written_ok w" "length (written_text (renamed (leaf_name t scope) w)) < 256" "size w < k"
  obtains t' pool' changed where
    "module_resolve_type_name k scope (written_text w) (t, pool) = Some ((t', pool'), changed, written_text (renamed (leaf_name t scope) w))"
    "agrees t t'" "pool_ok pool'"
proof -
  have "naming_ok t (t, pool)" using assms(2,3) by (simp add: naming_ok_def)
  with type_name_resolves [OF assms(1,4-6)] obtain s' changed where
    "module_resolve_type_name k scope (written_text w) (t, pool) = Some (s', changed, written_text (renamed (leaf_name t scope) w))"
    "naming_ok t s'" by (rule resolvesE)
  then show thesis using that by (cases s') (auto simp: naming_ok_def)
qed

text \<open>The signature that is read from the spelling of a function type.\<close>

lemma written_signature:
  assumes "written_ok (To_Function flags ps rs)"
  shows "parse_function_signature (written_text (To_Function flags ps rs)) =
    Some \<lparr>parameter_types = map written_text ps, is_parameter_mutable = flags, return_types = map written_text rs\<rparr>"
  using parse_signature_text [OF signature_written [OF assms]] by simp

end
