(* ===== verification/Parser.thy ===== *)
theory Parser
  imports Lexer_Tokens "HOL-Library.Monad_Syntax"
begin

text \<open>
  The parser (\<open>grayc/src/parser/parser.h\<close>, \<open>parser.c\<close>): its state, the reading of tokens from the lexer, the
  diagnostics, the precedences, and the annotations of types. A diagnostic keeps what the parser passes
  to \<open>util/error.c\<close>: the code, the message when it is not the registered one, the line and the column. The
  file is always the parser's. The fields that only statements use (\<open>current_function\<close>,
  \<open>seen_attribute_mask\<close>) are left out.

  A parsing function returns \<open>None\<close> when its fuel is used up. The functions that call the parser of types
  or of expressions on what is nested in them take that parser as an argument.
\<close>

subsection \<open>Data\<close>

abbreviation single_quote :: string where "single_quote \<equiv> [CHR 0x27]"
abbreviation double_quote :: string where "double_quote \<equiv> [CHR 0x22]"
abbreviation backslash :: string where "backslash \<equiv> [CHR 0x5C]"

record diagnostic =
  diagnostic_code :: string
  diagnostic_message :: "string option"
  diagnostic_line :: nat
  diagnostic_column :: nat

record parser =
  parser_lexer :: lexer
  current_token :: token
  peek_token :: token
  parser_file :: string
  diagnostics :: "diagnostic list"
  parse_depth :: nat
  type_nesting :: nat
  should_suppress_struct_literal :: bool
  is_in_interpolation :: bool

definition MAX_PARSE_DEPTH :: nat where "MAX_PARSE_DEPTH = 256"

datatype Precedence =
    PRECEDENCE_LOWEST | PRECEDENCE_OR | PRECEDENCE_AND | PRECEDENCE_EQUALS | PRECEDENCE_BITWISE
  | PRECEDENCE_LESS_GREATER | PRECEDENCE_MEMBERSHIP | PRECEDENCE_SHIFT | PRECEDENCE_SUM | PRECEDENCE_PRODUCT
  | PRECEDENCE_PREFIX | PRECEDENCE_CALL | PRECEDENCE_INDEX | PRECEDENCE_POSTFIX

text \<open>The levels are compared as the numbers of the enumeration.\<close>

fun precedence_number :: "Precedence \<Rightarrow> nat" where
  "precedence_number PRECEDENCE_LOWEST = 0"
| "precedence_number PRECEDENCE_OR = 1"
| "precedence_number PRECEDENCE_AND = 2"
| "precedence_number PRECEDENCE_EQUALS = 3"
| "precedence_number PRECEDENCE_BITWISE = 4"
| "precedence_number PRECEDENCE_LESS_GREATER = 5"
| "precedence_number PRECEDENCE_MEMBERSHIP = 6"
| "precedence_number PRECEDENCE_SHIFT = 7"
| "precedence_number PRECEDENCE_SUM = 8"
| "precedence_number PRECEDENCE_PRODUCT = 9"
| "precedence_number PRECEDENCE_PREFIX = 10"
| "precedence_number PRECEDENCE_CALL = 11"
| "precedence_number PRECEDENCE_INDEX = 12"
| "precedence_number PRECEDENCE_POSTFIX = 13"

lemma precedence_number_inject: "precedence_number a = precedence_number b \<Longrightarrow> a = b"
  by (cases a; cases b) simp_all

instantiation Precedence :: linorder
begin

definition less_eq_Precedence :: "Precedence \<Rightarrow> Precedence \<Rightarrow> bool" where
  "less_eq_Precedence a b \<longleftrightarrow> precedence_number a \<le> precedence_number b"

definition less_Precedence :: "Precedence \<Rightarrow> Precedence \<Rightarrow> bool" where
  "less_Precedence a b \<longleftrightarrow> precedence_number a < precedence_number b"

instance
  by standard (auto simp: less_eq_Precedence_def less_Precedence_def intro: precedence_number_inject)

end

subsection \<open>Texts\<close>

text \<open>The messages of the lexer, which are the literals of the tokens it refuses.\<close>

fun lexer_message_text :: "lexer_message \<Rightarrow> string" where
  "lexer_message_text Unclosed_comment = ''unclosed multi-line comment''"
| "lexer_message_text Identifier_too_long = ''identifier exceeds the maximum length of 255 characters''"
| "lexer_message_text Trailing_underscore = ''number cannot end with underscore''"
| "lexer_message_text Consecutive_underscores = ''number cannot have consecutive underscores''"
| "lexer_message_text Underscore_before_point = ''underscore cannot appear before decimal point''"
| "lexer_message_text Underscore_after_point = ''underscore cannot appear after decimal point''"
| "lexer_message_text Trailing_point = ''number cannot end with decimal point''"
| "lexer_message_text Malformed_utf8_in_string = ''malformed UTF-8 in string literal''"
| "lexer_message_text Malformed_u_escape = ''malformed '' @ single_quote @ backslash @ ''u'' @ single_quote
     @ '' escape in string; expected '' @ single_quote @ backslash @ ''u{...}'' @ single_quote"
| "lexer_message_text Malformed_u_braces = ''malformed '' @ single_quote @ backslash @ ''u{}'' @ single_quote
     @ '' escape in string; expected 1 to 6 hex digits''"
| "lexer_message_text Codepoint_out_of_range = single_quote @ backslash @ ''u{}'' @ single_quote
     @ '' codepoint is outside the valid range U+0000 to U+10FFFF''"
| "lexer_message_text Surrogate_codepoint = single_quote @ backslash @ ''u{}'' @ single_quote
     @ '' codepoint is a UTF-16 surrogate, which has no UTF-8 encoding''"
| "lexer_message_text Malformed_hex_escape = ''invalid hex escape sequence; '' @ backslash
     @ ''x must be followed by exactly two hex digits''"
| "lexer_message_text Invalid_string_escape = ''invalid escape sequence in string''"
| "lexer_message_text String_spans_lines = ''string literals cannot span multiple lines; use a raw string with backticks for multi-line text''"
| "lexer_message_text Unclosed_raw_string = ''unclosed raw string literal''"
| "lexer_message_text Char_not_one_codepoint = ''char literal must contain exactly one codepoint; use a string for multiple characters''"
| "lexer_message_text Char_malformed_hex = ''malformed '' @ single_quote @ backslash @ ''x'' @ single_quote
     @ '' escape in character literal; expected exactly two hex digits''"
| "lexer_message_text Char_malformed_u = ''malformed '' @ single_quote @ backslash @ ''u'' @ single_quote
     @ '' escape in character literal; expected '' @ single_quote @ backslash @ ''u{...}'' @ single_quote"
| "lexer_message_text Char_malformed_u_braces = ''malformed '' @ single_quote @ backslash @ ''u{}'' @ single_quote
     @ '' escape in character literal; expected 1 to 6 hex digits''"
| "lexer_message_text Invalid_char_escape = ''invalid escape sequence in character literal''"
| "lexer_message_text Malformed_utf8_in_char = ''malformed UTF-8 in character literal''"
| "lexer_message_text Unclosed_char = ''unclosed character literal''"
| "lexer_message_text NUL_in_source = ''NUL byte in source file''"
| "lexer_message_text Question_mark = ''this symbol is not part of the language; declare a type parameter with ''
     @ single_quote @ ''generic'' @ single_quote @ '' (e.g. '' @ single_quote
     @ ''do identity(kind generic, x kind) -> kind'' @ single_quote @ '')''"
| "lexer_message_text Single_pipe = ''unexpected character '' @ single_quote @ ''|'' @ single_quote @ ''; use ''
     @ single_quote @ ''||'' @ single_quote @ '' for logical OR''"
| "lexer_message_text Stray_hash = ''unexpected character '' @ single_quote @ ''#'' @ single_quote @ ''; use ''
     @ single_quote @ ''//'' @ single_quote @ '' for comments, '' @ single_quote @ ''#strict'' @ single_quote @ '', ''
     @ single_quote @ ''#flags'' @ single_quote @ '', '' @ single_quote @ ''#json'' @ single_quote @ '', ''
     @ single_quote @ ''#doc'' @ single_quote @ '', '' @ single_quote @ ''#discard'' @ single_quote @ '', ''
     @ single_quote @ ''#deprecated'' @ single_quote @ '', '' @ single_quote @ ''#test'' @ single_quote @ '', ''
     @ single_quote @ ''#error_code'' @ single_quote @ '' for attributes, or '' @ single_quote @ ''#[...]''
     @ single_quote @ '' for a single-line attribute list''"
| "lexer_message_text Unclosed_string = ''string literal was never closed; add a closing double quote''"
| "lexer_message_text (Missing_prefixed_digits base) = (if base = 16 then ''invalid number format: '' @ single_quote
     @ ''0x'' @ single_quote
     @ '' must be followed by hex digits (0-9, a-f)'' else if base = 8 then ''invalid number format: '' @ single_quote
     @ ''0o'' @ single_quote @ '' must be followed by octal digits (0-7)'' else ''invalid number format: ''
     @ single_quote @ ''0b'' @ single_quote @ '' must be followed by binary digits (0-1)'')"
| "lexer_message_text (Unexpected_byte b) = ''unexpected character '' @ single_quote @ backslash
     @ [CHR ''x'', radix_digit False (of_char b div 16), radix_digit False (of_char b mod 16)] @ single_quote"
| "lexer_message_text (Unexpected_character c) = ''unexpected character '' @ single_quote @ c @ single_quote"

subsection \<open>Tokens\<close>

definition token_string :: "token \<Rightarrow> string" where
  "token_string t = (case literal t of Text s \<Rightarrow> s | Message m \<Rightarrow> lexer_message_text m)"

definition report :: "string \<Rightarrow> string option \<Rightarrow> token \<Rightarrow> parser \<Rightarrow> parser" where
  "report code message at p =
     p\<lparr>diagnostics := diagnostics p @
       [\<lparr>diagnostic_code = code, diagnostic_message = message, diagnostic_line = token_line at, diagnostic_column = token_column at\<rparr>]\<rparr>"

definition next_token :: "parser \<Rightarrow> parser" where
  "next_token p =
     (let (lx, t) = lexer_next_token (parser_lexer p);
          p = p\<lparr>parser_lexer := lx, current_token := peek_token p, peek_token := t\<rparr>
      in if token_type t = TOKEN_ILLEGAL
         then (case error_code lx of
             Some code \<Rightarrow>
               (report code (map_option lexer_message_text (error_message lx)) t p)\<lparr>parser_lexer := lx\<lparr>error_code := None\<rparr>\<rparr>
           | None \<Rightarrow> p)
         else p)"

definition current_token_is :: "parser \<Rightarrow> TokenType \<Rightarrow> bool" where
  "current_token_is p type \<longleftrightarrow> token_type (current_token p) = type"

definition peek_token_is :: "parser \<Rightarrow> TokenType \<Rightarrow> bool" where
  "peek_token_is p type \<longleftrightarrow> token_type (peek_token p) = type"

text \<open>A message is written into a buffer of \<open>MESSAGE_BUFFER_SIZE\<close> bytes.\<close>

definition display_name :: "token \<Rightarrow> string" where
  "display_name t = token_display_name (token_type t) (Some (token_string t))"

definition expect_peek_token :: "parser \<Rightarrow> TokenType \<Rightarrow> parser \<times> bool" where
  "expect_peek_token p type =
     (if peek_token_is p type then (next_token p, True)
      else (report ''E2001'' (Some (take (MESSAGE_BUFFER_SIZE - 1)
              (''expected '' @ single_quote @ token_type_name type @ single_quote @ '', got '' @ single_quote @ display_name (peek_token p) @ single_quote)))
            (current_token p) p, False))"

definition expecting :: "TokenType \<Rightarrow> 'a \<Rightarrow> parser \<Rightarrow> parser \<times> 'a option" where
  "expecting type result p = (let (p, found) = expect_peek_token p type in (p, if found then Some result else None))"

text \<open>The tokens that \<open>parser_create\<close> finds are not initialized; reading two tokens overwrites them.\<close>

definition parser_create :: "lexer \<Rightarrow> string \<Rightarrow> diagnostic list \<Rightarrow> parser" where
  "parser_create lx file_name ds =
     (let blank = \<lparr>token_type = TOKEN_END_OF_FILE, literal = Text [], token_line = 0, token_column = 0,
            token_file = file_name, is_preceded_by_whitespace = False\<rparr>
      in next_token (next_token \<lparr>parser_lexer = lx, current_token = blank, peek_token = blank, parser_file = file_name,
           diagnostics = ds, parse_depth = 0, type_nesting = 0, should_suppress_struct_literal = False, is_in_interpolation = False\<rparr>))"

text \<open>A snapshot keeps what reading moves, and not the flags of the lexer.\<close>

record parser_snapshot =
  snapshot_position :: nat
  snapshot_read_position :: nat
  snapshot_character :: char
  snapshot_line :: nat
  snapshot_column :: nat
  snapshot_current :: token
  snapshot_peek :: token

definition parser_snapshot_save :: "parser \<Rightarrow> parser_snapshot" where
  "parser_snapshot_save p =
     (let lx = parser_lexer p
      in \<lparr>snapshot_position = position lx, snapshot_read_position = read_position lx, snapshot_character = current_character lx,
          snapshot_line = line lx, snapshot_column = column lx, snapshot_current = current_token p, snapshot_peek = peek_token p\<rparr>)"

definition parser_snapshot_restore :: "parser \<Rightarrow> parser_snapshot \<Rightarrow> parser" where
  "parser_snapshot_restore p s =
     p\<lparr>parser_lexer := (parser_lexer p)\<lparr>position := snapshot_position s, read_position := snapshot_read_position s,
         current_character := snapshot_character s, line := snapshot_line s, column := snapshot_column s\<rparr>,
       current_token := snapshot_current s, peek_token := snapshot_peek s\<rparr>"

fun get_token_precedence :: "TokenType \<Rightarrow> Precedence" where
  "get_token_precedence (Operator TOKEN_OR) = PRECEDENCE_OR"
| "get_token_precedence (Operator TOKEN_AND) = PRECEDENCE_AND"
| "get_token_precedence (Operator TOKEN_EQUAL) = PRECEDENCE_EQUALS"
| "get_token_precedence (Operator TOKEN_NOT_EQUAL) = PRECEDENCE_EQUALS"
| "get_token_precedence (Keyword TOKEN_BIT_AND) = PRECEDENCE_BITWISE"
| "get_token_precedence (Keyword TOKEN_BIT_OR) = PRECEDENCE_BITWISE"
| "get_token_precedence (Keyword TOKEN_BIT_XOR) = PRECEDENCE_BITWISE"
| "get_token_precedence (Operator TOKEN_LESS_THAN) = PRECEDENCE_LESS_GREATER"
| "get_token_precedence (Operator TOKEN_GREATER_THAN) = PRECEDENCE_LESS_GREATER"
| "get_token_precedence (Operator TOKEN_LESS_THAN_OR_EQUAL) = PRECEDENCE_LESS_GREATER"
| "get_token_precedence (Operator TOKEN_GREATER_THAN_OR_EQUAL) = PRECEDENCE_LESS_GREATER"
| "get_token_precedence (Keyword TOKEN_IN) = PRECEDENCE_MEMBERSHIP"
| "get_token_precedence (Keyword TOKEN_NOT_IN) = PRECEDENCE_MEMBERSHIP"
| "get_token_precedence (Keyword TOKEN_BIT_SHIFT_LEFT) = PRECEDENCE_SHIFT"
| "get_token_precedence (Keyword TOKEN_BIT_SHIFT_RIGHT) = PRECEDENCE_SHIFT"
| "get_token_precedence (Operator TOKEN_PLUS) = PRECEDENCE_SUM"
| "get_token_precedence (Operator TOKEN_MINUS) = PRECEDENCE_SUM"
| "get_token_precedence (Operator TOKEN_ASTERISK) = PRECEDENCE_PRODUCT"
| "get_token_precedence (Operator TOKEN_SLASH) = PRECEDENCE_PRODUCT"
| "get_token_precedence (Operator TOKEN_PERCENT) = PRECEDENCE_PRODUCT"
| "get_token_precedence (Operator TOKEN_LEFT_PARENTHESIS) = PRECEDENCE_CALL"
| "get_token_precedence (Operator TOKEN_LEFT_BRACKET) = PRECEDENCE_INDEX"
| "get_token_precedence (Operator TOKEN_DOT) = PRECEDENCE_INDEX"
| "get_token_precedence (Operator TOKEN_INCREMENT) = PRECEDENCE_POSTFIX"
| "get_token_precedence (Operator TOKEN_DECREMENT) = PRECEDENCE_POSTFIX"
| "get_token_precedence (Operator TOKEN_CARET) = PRECEDENCE_POSTFIX"
| "get_token_precedence type = PRECEDENCE_LOWEST"

subsection \<open>Annotations of types\<close>

type_synonym 'a parsing = "parser \<Rightarrow> (parser \<times> 'a) option"

definition reject_generic_type :: "parser \<Rightarrow> parser \<times> string" where
  "reject_generic_type p = (report ''E2096'' None (current_token p) p, ''generic'')"

definition read_type_name :: "parser \<Rightarrow> parser \<times> string" where
  "read_type_name p =
     (if current_token_is p (Keyword TOKEN_GENERIC) then reject_generic_type p
      else let name = token_string (current_token p)
           in if peek_token_is p (Operator TOKEN_DOT)
              then let p = next_token (next_token p) in (p, name @ ''.'' @ token_string (current_token p))
              else (p, name))"

definition current_starts_map :: "parser \<Rightarrow> bool" where
  "current_starts_map p \<longleftrightarrow> current_token_is p TOKEN_IDENTIFIER \<and> token_string (current_token p) = ''map''
     \<and> peek_token_is p (Operator TOKEN_LEFT_BRACKET)"

definition current_is_func :: "parser \<Rightarrow> bool" where
  "current_is_func p \<longleftrightarrow> current_token_is p TOKEN_IDENTIFIER \<and> token_string (current_token p) = ''func''"

definition current_starts_complex_type :: "parser \<Rightarrow> bool" where
  "current_starts_complex_type p \<longleftrightarrow>
     current_token_is p (Operator TOKEN_CARET) \<or> current_token_is p (Operator TOKEN_LEFT_BRACKET) \<or> current_starts_map p"

definition reject_typed_func_element :: "parser \<Rightarrow> parser \<times> bool" where
  "reject_typed_func_element p =
     (if current_is_func p \<and> peek_token_is p (Operator TOKEN_LEFT_PARENTHESIS)
      then (report ''E2082'' None (current_token p) p, True) else (p, False))"

definition parse_bracketed_type :: "string option parsing \<Rightarrow> string option parsing" where
  "parse_bracketed_type types p =
     (let (p, rejected) = reject_typed_func_element p
      in if rejected then Some (p, None)
         else do {
           (p, element) \<leftarrow> types p;
           case element of
             None \<Rightarrow> Some (p, None)
           | Some element \<Rightarrow>
               if peek_token_is p (Operator TOKEN_COLON)
               then let (p, rejected) = reject_typed_func_element (next_token (next_token p))
                    in if rejected then Some (p, None)
                       else do {
                         (p, value_text) \<leftarrow> types p;
                         case value_text of
                           None \<Rightarrow> Some (p, None)
                         | Some value_text \<Rightarrow>
                             Some (expecting (Operator TOKEN_RIGHT_BRACKET) (''map['' @ element @ '':'' @ value_text @ '']'') p)
                       }
               else if peek_token_is p (Operator TOKEN_COMMA)
               then let p = next_token (next_token p);
                        p = (if current_token_is p TOKEN_INTEGER_LITERAL \<or> current_token_is p TOKEN_IDENTIFIER then p
                             else report ''E2025'' None (current_token p) p)
                    in Some (expecting (Operator TOKEN_RIGHT_BRACKET)
                         (''['' @ element @ '','' @ token_string (current_token p) @ '']'') p)
               else Some (expecting (Operator TOKEN_RIGHT_BRACKET) (''['' @ element @ '']'') p)
         })"

definition parse_map_type :: "string option parsing \<Rightarrow> string option parsing" where
  "parse_map_type types p =
     (let (p, key) = read_type_name (next_token (next_token p));
          (p, found) = expect_peek_token p (Operator TOKEN_COLON)
      in if \<not> found then Some (p, None)
         else let (p, rejected) = reject_typed_func_element (next_token p)
              in if rejected then Some (p, None)
                 else do {
                   (p, value_text) \<leftarrow> types p;
                   case value_text of
                     None \<Rightarrow> Some (p, None)
                   | Some value_text \<Rightarrow>
                       Some (expecting (Operator TOKEN_RIGHT_BRACKET) (''map['' @ key @ '':'' @ value_text @ '']'') p)
                 })"

text \<open>The parameters of a \<open>func\<close> type, from the first token of one; \<open>parameter_list\<close> is the text so far.\<close>

fun parameters_loop :: "nat \<Rightarrow> string option parsing \<Rightarrow> string \<Rightarrow> string option parsing" where
  "parameters_loop 0 types parameter_list p = None"
| "parameters_loop (Suc k) types parameter_list p =
     (let is_mutable_parameter = current_token_is p (Operator TOKEN_AMPERSAND);
          p = (if is_mutable_parameter then next_token p else p)
      in do {
        (p, parameter_type) \<leftarrow> types p;
        case parameter_type of
          None \<Rightarrow> Some (p, None)
        | Some parameter_type \<Rightarrow>
            let written = (if parameter_list \<noteq> [] then '','' else []) @ (if is_mutable_parameter then ''&'' else []) @ parameter_type
            in if MESSAGE_BUFFER_LARGE_SIZE - length parameter_list \<le> length written then Some (p, None)
               else if peek_token_is p (Operator TOKEN_COMMA)
               then parameters_loop k types (parameter_list @ written) (next_token (next_token p))
               else Some (p, Some (parameter_list @ written))
      })"

definition reject_void :: "parser \<Rightarrow> parser" where
  "reject_void p = report ''E3068'' None (current_token p) p"

fun returns_loop :: "nat \<Rightarrow> string option parsing \<Rightarrow> string \<Rightarrow> string option parsing" where
  "returns_loop 0 types return_list p = None"
| "returns_loop (Suc k) types return_list p = do {
     (p, return_type) \<leftarrow> types p;
     case return_type of
       None \<Rightarrow> Some (p, None)
     | Some return_type \<Rightarrow>
         if return_type = ''void'' then Some (reject_void p, None)
         else let written = (if 1 < length return_list then '','' else []) @ return_type
              in if MESSAGE_BUFFER_SIZE - length return_list \<le> length written then Some (p, None)
                 else if peek_token_is p (Operator TOKEN_COMMA)
                 then returns_loop k types (return_list @ written) (next_token (next_token p))
                 else Some (p, Some (return_list @ written))
   }"

text \<open>What is after the arrow: a list in parentheses, or one type, cut to the size of its buffer.\<close>

definition parse_return_list :: "nat \<Rightarrow> string option parsing \<Rightarrow> string option parsing" where
  "parse_return_list k types p =
     (if current_token_is p (Operator TOKEN_LEFT_PARENTHESIS)
      then do {
        (p, return_list) \<leftarrow> returns_loop k types ''('' (next_token p);
        case return_list of
          None \<Rightarrow> Some (p, None)
        | Some return_list \<Rightarrow>
            let (p, found) = expect_peek_token p (Operator TOKEN_RIGHT_PARENTHESIS)
            in Some (p, if found \<and> length return_list + 2 < MESSAGE_BUFFER_SIZE then Some (return_list @ '')'') else None)
      }
      else do {
        (p, return_type) \<leftarrow> types p;
        Some (case return_type of
            None \<Rightarrow> (p, None)
          | Some return_type \<Rightarrow>
              if return_type = ''void'' then (reject_void p, None)
              else (p, Some (take (MESSAGE_BUFFER_SIZE - 1) return_type)))
      })"

definition parse_function_type :: "nat \<Rightarrow> string option parsing \<Rightarrow> string option parsing" where
  "parse_function_type k types p =
     (if \<not> peek_token_is p (Operator TOKEN_LEFT_PARENTHESIS) then Some (p, Some ''func'')
      else do {
        (p, parameter_list) \<leftarrow>
          (if peek_token_is (next_token p) (Operator TOKEN_RIGHT_PARENTHESIS) then Some (next_token p, Some [])
           else parameters_loop k types [] (next_token (next_token p)));
        case parameter_list of
          None \<Rightarrow> Some (p, None)
        | Some parameter_list \<Rightarrow>
            let (p, found) = expect_peek_token p (Operator TOKEN_RIGHT_PARENTHESIS)
            in if \<not> found then Some (p, None)
               else if \<not> peek_token_is p (Operator TOKEN_ARROW) then Some (p, Some (''func('' @ parameter_list @ '')''))
               else do {
                 (p, return_list) \<leftarrow> parse_return_list k types (next_token (next_token p));
                 Some (p, map_option (\<lambda>r. ''func('' @ parameter_list @ '')->'' @ r) return_list)
               }
      })"

definition within_nesting :: "string option parsing \<Rightarrow> string option parsing" where
  "within_nesting body p =
     (if 64 < type_nesting p + 1
      then Some (report ''E2001'' (Some ''type nesting is too deep; maximum depth is 64'') (current_token p) p, None)
      else do {
        (p, parsed) \<leftarrow> body (p\<lparr>type_nesting := type_nesting p + 1\<rparr>);
        Some (p\<lparr>type_nesting := type_nesting p - 1\<rparr>, parsed)
      })"

definition parse_pointer_type :: "string option parsing \<Rightarrow> string option parsing" where
  "parse_pointer_type types p = do {
     (p, pointee) \<leftarrow> types p;
     Some (p, map_option (\<lambda>t. ''^'' @ t) pointee)
   }"

definition parse_complex_type_unbounded :: "nat \<Rightarrow> string option parsing \<Rightarrow> string option parsing" where
  "parse_complex_type_unbounded k types p =
     (if current_token_is p (Keyword TOKEN_GENERIC) then let (p, name) = reject_generic_type p in Some (p, Some name)
      else if current_token_is p (Operator TOKEN_LEFT_BRACKET)
      then within_nesting (\<lambda>p. parse_bracketed_type types (next_token p)) p
      else if current_token_is p (Operator TOKEN_CARET)
      then within_nesting (\<lambda>p. parse_pointer_type types (next_token p)) p
      else if current_starts_map p then parse_map_type types p
      else if current_is_func p then parse_function_type k types p
      else let (p, name) = read_type_name p in Some (p, Some name))"

fun parse_complex_type :: "nat \<Rightarrow> string option parsing" where
  "parse_complex_type 0 p = None"
| "parse_complex_type (Suc k) p =
     (if current_starts_map p \<or> current_is_func p
      then within_nesting (parse_complex_type_unbounded k (parse_complex_type k)) p
      else parse_complex_type_unbounded k (parse_complex_type k) p)"

text \<open>The element type of an array's spelling, less its size.\<close>

fun element_prefix :: "string \<Rightarrow> int \<Rightarrow> string" where
  "element_prefix [] depth = []"
| "element_prefix (c # cs) depth =
     (if c = CHR ''['' then c # element_prefix cs (depth + 1)
      else if c = CHR '']'' then c # element_prefix cs (depth - 1)
      else if c = CHR '','' \<and> depth = 0 then []
      else c # element_prefix cs depth)"

definition array_element_type :: "string \<Rightarrow> string option" where
  "array_element_type name =
     (if name = [] \<or> hd name \<noteq> CHR ''['' \<or> length name < 3 \<or> last name \<noteq> CHR '']'' then None
      else Some (element_prefix (butlast (tl name)) 0))"

end
