(* ===== verification/Parser_Literals.thy ===== *)
theory Parser_Literals
  imports Parser
begin

text \<open>
  The expressions of \<open>parser/ast.h\<close> and the literals of \<open>parser.c\<close>. A node has its token first; a child
  that may be \<open>NULL\<close> is an option. The fields that the typechecker fills in are left out. A double is
  the decimal text that \<open>atof\<close> reads, and \<open>None\<close> is the 0.0 that replaces a value out of range.
\<close>

subsection \<open>Nodes\<close>

datatype ast =
    Label token "string option"
  | Integer_Literal token u64 string bool bool
  | Floating_Point_Literal token "string option"
  | String_Value token string bool
  | Interpolated_String token "ast list"
  | Char_Value token u32
  | Bool_Value token bool
  | Nil_Value token
  | Array_Value token "ast option list"
  | Map_Value token "(ast option \<times> ast option) list"
  | Struct_Value token string "(string \<times> ast option) list"
  | Prefix_Expression token TokenType "ast option"
  | Infix_Expression token ast TokenType "ast option"
  | Postfix_Expression token ast TokenType
  | Call_Expression token ast "ast option list" "string option list option"
  | Index_Expression token ast "ast option"
  | Member_Expression token ast string
  | New_Expression token "string option"
  | Range_Expression token "ast option" "ast option" "ast option"
  | Cast_Expression token "ast option" string "string option"
  | Function_Reference token ast
  | Implicit_Enum token string

definition parse_identifier :: "parser \<Rightarrow> ast" where
  "parse_identifier p = Label (current_token p) (Some (token_string (current_token p)))"

definition parse_bool_literal :: "parser \<Rightarrow> ast" where
  "parse_bool_literal p = Bool_Value (current_token p) (token_type (current_token p) = Keyword TOKEN_TRUE)"

definition parse_nil_literal :: "parser \<Rightarrow> ast" where
  "parse_nil_literal p = Nil_Value (current_token p)"

subsection \<open>Integers\<close>

text \<open>The digit of a character of a number with base 16, and with a smaller base.\<close>

definition hex_value :: "char \<Rightarrow> nat" where
  "hex_value c =
     (if CHR ''0'' \<le> c \<and> c \<le> CHR ''9'' then of_char c - of_char CHR ''0''
      else if CHR ''a'' \<le> c \<and> c \<le> CHR ''f'' then of_char c - of_char CHR ''a'' + 10
      else if CHR ''A'' \<le> c \<and> c \<le> CHR ''F'' then of_char c - of_char CHR ''A'' + 10
      else 0)"

definition plain_value :: "char \<Rightarrow> u32" where
  "plain_value c = of_char c - of_char CHR ''0''"

text \<open>One step of a loop over the digits: the value so far, modulo \<open>2 ^ 64\<close>, and whether it has been above.\<close>

definition shift_digit :: "nat \<Rightarrow> u64 \<Rightarrow> u64 \<times> bool \<Rightarrow> u64 \<times> bool" where
  "shift_digit shift digit so_far =
     (let (unsigned_value, is_above) = so_far
      in (unsigned_value * 2 ^ shift + digit, is_above \<or> drop_bit shift (- 1) < unsigned_value))"

definition decimal_digit_step :: "u64 \<Rightarrow> u64 \<times> bool \<Rightarrow> u64 \<times> bool" where
  "decimal_digit_step digit so_far =
     (let (unsigned_value, is_above) = so_far
      in (unsigned_value * 10 + digit, is_above \<or> (- 1 - digit) div 10 < unsigned_value))"

definition accumulate :: "(char \<Rightarrow> u64 \<times> bool \<Rightarrow> u64 \<times> bool) \<Rightarrow> string \<Rightarrow> u64 \<times> bool" where
  "accumulate step digits = fold (\<lambda>c so_far. if c = CHR ''_'' then so_far else step c so_far) digits (0, False)"

text \<open>The base of a prefixed number.\<close>

definition literal_base :: "string \<Rightarrow> nat option" where
  "literal_base digits =
     (case digits of
        c # x # _ \<Rightarrow>
          if c \<noteq> CHR ''0'' then None
          else if x = CHR ''x'' \<or> x = CHR ''X'' then Some 16
          else if x = CHR ''o'' \<or> x = CHR ''O'' then Some 8
          else if x = CHR ''b'' \<or> x = CHR ''B'' then Some 2
          else None
      | _ \<Rightarrow> None)"

definition literal_value :: "string \<Rightarrow> u64 \<times> bool" where
  "literal_value digits =
     (case literal_base digits of
        None \<Rightarrow> accumulate (\<lambda>c. decimal_digit_step (ucast (plain_value c))) digits
      | Some base \<Rightarrow>
          if base = 16 then accumulate (\<lambda>c. shift_digit 4 (of_nat (hex_value c))) (drop 2 digits)
          else if base = 8 then accumulate (\<lambda>c. shift_digit 3 (ucast (plain_value c))) (drop 2 digits)
          else accumulate (\<lambda>c. shift_digit 1 (ucast (plain_value c))) (drop 2 digits))"

text \<open>Decimal digits, the lowest first, times the base and plus the carry.\<close>

fun carry_digits :: "nat \<Rightarrow> nat list" where
  "carry_digits carry = (if carry = 0 then [] else carry mod 10 # carry_digits (carry div 10))"

declare carry_digits.simps [simp del]

fun multiply_digits :: "nat \<Rightarrow> nat list \<Rightarrow> nat \<Rightarrow> nat list" where
  "multiply_digits base [] carry = carry_digits carry"
| "multiply_digits base (d # ds) carry = (d * base + carry) mod 10 # multiply_digits base ds ((d * base + carry) div 10)"

definition radix_digits_to_decimal :: "string \<Rightarrow> nat \<Rightarrow> string" where
  "radix_digits_to_decimal digits base =
     map (\<lambda>d. char_of (of_char CHR ''0'' + d :: nat))
       (rev (fold (\<lambda>c ds. if c = CHR ''_'' then ds else multiply_digits base ds (hex_value c)) digits [0]))"

definition parse_integer_literal :: "parser \<Rightarrow> ast" where
  "parse_integer_literal p =
     (let digits = token_string (current_token p);
          (unsigned_value, is_above_u64_maximum) = literal_value digits;
          literal_text = (case literal_base digits of None \<Rightarrow> digits | Some base \<Rightarrow> radix_digits_to_decimal (drop 2 digits) base)
      in Integer_Literal (current_token p) unsigned_value literal_text
           (is_above_u64_maximum \<or> 0x7FFFFFFFFFFFFFFF < unsigned_value) is_above_u64_maximum)"

subsection \<open>Floats\<close>

text \<open>
  \<open>atof\<close> reads the longest prefix that is a decimal number. The result is infinite when the nearest double
  would be \<open>2 ^ 1024\<close>, which a number at or above the middle between it and the largest double is rounded
  to.
\<close>

definition digits_value :: "string \<Rightarrow> nat" where
  "digits_value digits = fold (\<lambda>c n. n * 10 + (of_char c - of_char CHR ''0'')) digits 0"

definition atof_exponent :: "string \<Rightarrow> int" where
  "atof_exponent rest =
     (case rest of
        e # rest \<Rightarrow>
          if e = CHR ''e'' \<or> e = CHR ''E''
          then let is_negative = (rest \<noteq> [] \<and> hd rest = CHR ''-'');
                   digits = (if rest \<noteq> [] \<and> (hd rest = CHR ''-'' \<or> hd rest = CHR ''+'') then tl rest else rest);
                   magnitude = int (digits_value (takeWhile isdigit digits))
               in (if is_negative then - magnitude else magnitude)
          else 0
      | [] \<Rightarrow> 0)"

definition atof_is_infinite :: "string \<Rightarrow> bool" where
  "atof_is_infinite text =
     (let whole = takeWhile isdigit text;
          rest = dropWhile isdigit text;
          has_point = (rest \<noteq> [] \<and> hd rest = CHR ''.'');
          fraction = (if has_point then takeWhile isdigit (tl rest) else []);
          rest = (if has_point then dropWhile isdigit (tl rest) else rest);
          exponent = atof_exponent rest - int (length fraction);
          mantissa = digits_value (whole @ fraction);
          bound = 2 ^ 1024 - 2 ^ 970
      in if 0 \<le> exponent then bound \<le> mantissa * 10 ^ nat exponent else bound * 10 ^ nat (- exponent) \<le> mantissa)"

definition FLOATING_POINT_LITERAL_BUFFER_SIZE :: nat where "FLOATING_POINT_LITERAL_BUFFER_SIZE = 128"

definition parse_floating_point_literal :: "parser \<Rightarrow> parser \<times> ast" where
  "parse_floating_point_literal p =
     (let literal_text = token_string (current_token p);
          digits = (if CHR ''_'' \<in> set literal_text
                    then take (FLOATING_POINT_LITERAL_BUFFER_SIZE - 1) (filter (\<lambda>c. c \<noteq> CHR ''_'') literal_text)
                    else literal_text)
      in if atof_is_infinite digits
         then (report ''E3138'' None (current_token p) p, Floating_Point_Literal (current_token p) None)
         else (p, Floating_Point_Literal (current_token p) (Some digits)))"

subsection \<open>Characters\<close>

definition text_at :: "string \<Rightarrow> nat \<Rightarrow> char" where
  "text_at text i = (if i < length text then text ! i else NUL)"

text \<open>
  \<open>strtol\<close> with base 16. The lexer has checked that a hexadecimal digit is in front, so that the space, the
  sign and the prefix that \<open>strtol\<close> also reads are not there.
\<close>

definition strtol_hex :: "string \<Rightarrow> nat" where
  "strtol_hex text = min (2 ^ 63 - 1) (fold (\<lambda>c n. n * 16 + hex_value c) (takeWhile isxdigit text) 0)"

definition out_of_range_message :: string where
  "out_of_range_message = single_quote @ backslash @ ''u{}'' @ single_quote @ '' codepoint is outside the valid range U+0000 to U+10FFFF''"

definition surrogate_message :: string where
  "surrogate_message = single_quote @ backslash @ ''u{}'' @ single_quote
     @ '' codepoint U+D800 to U+DFFF is a UTF-16 surrogate, not a character''"

definition decode_escape :: "parser \<Rightarrow> string \<Rightarrow> parser \<times> u32" where
  "decode_escape p text =
     (let c = text_at text 1
      in if c = CHR ''n'' then (p, 10) else if c = CHR ''t'' then (p, 9) else if c = CHR ''r'' then (p, 13)
         else if c = CHR 0x5C \<or> c = CHR 0x27 \<or> c = CHR 0x22 then (p, of_char c)
         else if c = CHR ''0'' then (p, 0)
         else if c = CHR ''x'' then (p, of_nat (strtol_hex (drop 2 text)))
         else if c = CHR ''u''
         then let codepoint = strtol_hex (drop 3 text)
              in if 0x10FFFF < codepoint then (report ''E1006'' (Some out_of_range_message) (current_token p) p, 0)
                 else if 0xD800 \<le> codepoint \<and> codepoint \<le> 0xDFFF
                 then (report ''E1006'' (Some surrogate_message) (current_token p) p, 0)
                 else (p, of_nat codepoint)
         else (p, of_char c))"

definition decode_char_literal :: "parser \<Rightarrow> string \<Rightarrow> parser \<times> u32" where
  "decode_char_literal p text =
     (if text_at text 0 = CHR 0x5C then decode_escape p text
      else let lead_byte = of_char (text_at text 0) :: u32;
               next = (\<lambda>i. (of_char (text_at text i) :: u32) AND 0x3F)
           in (p, if lead_byte < 0x80 then lead_byte
                  else if lead_byte AND 0xE0 = 0xC0 then push_bit 6 (lead_byte AND 0x1F) OR next 1
                  else if lead_byte AND 0xF0 = 0xE0
                  then push_bit 12 (lead_byte AND 0x0F) OR push_bit 6 (next 1) OR next 2
                  else push_bit 18 (lead_byte AND 0x07) OR push_bit 12 (next 1) OR push_bit 6 (next 2) OR next 3))"

definition parse_char_literal :: "parser \<Rightarrow> parser \<times> ast" where
  "parse_char_literal p =
     (let (q, codepoint) = decode_char_literal p (token_string (current_token p)) in (q, Char_Value (current_token p) codepoint))"

subsection \<open>Strings\<close>

text \<open>A backslash in a literal is followed by a character, which the lexer has checked.\<close>

fun string_has_interpolation :: "string \<Rightarrow> bool" where
  "string_has_interpolation [] = False"
| "string_has_interpolation [c] = False"
| "string_has_interpolation (c # d # cs) =
     (if c = CHR ''$'' \<and> d = CHR ''{'' then True
      else if c = CHR 0x5C then string_has_interpolation cs
      else string_has_interpolation (d # cs))"

fun has_bare_dollar :: "string \<Rightarrow> bool" where
  "has_bare_dollar [] = False"
| "has_bare_dollar [c] = False"
| "has_bare_dollar (c # d # cs) =
     (if c = CHR 0x5C then has_bare_dollar cs
      else if c = CHR ''$'' \<and> (isalpha d \<or> d = CHR ''_'') then True
      else has_bare_dollar (d # cs))"

text \<open>The rest of a text from the quote that closes a nested literal, and what follows the quote.\<close>

fun literal_end :: "char \<Rightarrow> string \<Rightarrow> string" where
  "literal_end quote [] = []"
| "literal_end quote [c] = (if c = quote then [c] else [])"
| "literal_end quote (c # d # cs) =
     (if c = quote then c # d # cs else if c = CHR 0x5C then literal_end quote cs else literal_end quote (d # cs))"

definition after_literal :: "char \<Rightarrow> string \<Rightarrow> string" where
  "after_literal quote cs = tl (literal_end quote cs)"

lemma length_literal_end: "length (literal_end quote cs) \<le> length cs"
  by (induction quote cs rule: literal_end.induct) (auto simp del: length_greater_0_conv intro: le_SucI)

text \<open>The rest of a text from the brace that closes an interpolation.\<close>

function expression_end :: "string \<Rightarrow> nat \<Rightarrow> string" where
  "expression_end [] brace_depth = []"
| "expression_end (c # cs) brace_depth =
     (if c = CHR 0x22 \<or> c = CHR 0x27 then expression_end (after_literal c cs) brace_depth
      else if c = CHR ''{'' then expression_end cs (brace_depth + 1)
      else if c = CHR ''}'' then if brace_depth = 1 then c # cs else expression_end cs (brace_depth - 1)
      else expression_end cs brace_depth)"
  by pat_completeness auto
termination
proof (relation "measure (\<lambda>(cs, _). length cs)")
  fix c cs and d :: nat
  show "((after_literal c cs, d), (c # cs, d)) \<in> measure (\<lambda>(cs, _). length cs)"
    using length_literal_end [of c cs] by (simp add: after_literal_def)
qed simp_all

declare expression_end.simps(2) [simp del]

lemma length_expression_end: "length (expression_end cs d) \<le> length cs"
proof (induction cs d rule: expression_end.induct)
  case (2 c cs d)
  have "length (after_literal c cs) \<le> length cs" using length_literal_end [of c cs] by (simp add: after_literal_def)
  then show ?case using 2 by (auto simp: expression_end.simps(2))
qed simp

text \<open>
  Where a text starts: the lines before it, and the column after the last of them; a position in the
  literal is the number of bytes in front.
\<close>

fun offset_loop :: "string \<Rightarrow> nat \<Rightarrow> nat \<Rightarrow> nat \<times> nat" where
  "offset_loop [] line_offset column_from_newline = (line_offset, column_from_newline)"
| "offset_loop (c # cs) line_offset column_from_newline =
     (if c = CHR 0x0A then offset_loop cs (line_offset + 1) 0 else offset_loop cs line_offset (column_from_newline + 1))"

definition interpolation_lexer :: "parser \<Rightarrow> string \<Rightarrow> string \<Rightarrow> lexer" where
  "interpolation_lexer p front text =
     (let (line_offset, column_from_newline) = offset_loop front 0 0
      in (lexer_create text (parser_file p))\<lparr>line := token_line (current_token p) + line_offset,
           column := (if 0 < line_offset then column_from_newline + 1
                      else token_column (current_token p) + 1 + length front)\<rparr>)"

definition is_blank :: "string \<Rightarrow> bool" where
  "is_blank text \<longleftrightarrow> list_all (\<lambda>c. c = CHR '' '' \<or> c = CHR 0x09 \<or> c = CHR 0x0A \<or> c = CHR 0x0D) text"

end
