(* ===== verification/Literal_Values.thy ===== *)
theory Literal_Values
  imports Parser_Literals
begin

text \<open>
  What the literals of the parser denote: the value and the flags of an integer literal, the decimal text
  of a prefixed one, and the code point of a character literal.
\<close>

text \<open>The number that digits of a base denote, with the separators left out.\<close>

definition numeral_value :: "nat \<Rightarrow> string \<Rightarrow> nat" where
  "numeral_value base digits = fold (\<lambda>c n. if c = CHR ''_'' then n else n * base + hex_value c) digits 0"

definition is_numeral :: "nat \<Rightarrow> string \<Rightarrow> bool" where
  "is_numeral base digits \<longleftrightarrow> list_all (\<lambda>c. c = CHR ''_'' \<or> isxdigit c \<and> hex_value c < base) digits"

subsection \<open>Values\<close>

lemma numeral_value_snoc:
  "numeral_value base (digits @ [c]) =
     (if c = CHR ''_'' then numeral_value base digits else numeral_value base digits * base + hex_value c)"
  by (simp add: numeral_value_def)

lemma is_numeral_snoc:
  "is_numeral base (digits @ [c]) \<longleftrightarrow> is_numeral base digits \<and> (c = CHR ''_'' \<or> isxdigit c \<and> hex_value c < base)"
  by (simp add: is_numeral_def)

lemma hex_value_plain:
  assumes "isxdigit c" "hex_value c < 10"
  shows "(ucast (plain_value c) :: u64) = of_nat (hex_value c)" "isdigit c"
proof -
  show digit: "isdigit c"
    using assms by (auto simp: isxdigit_def hex_value_def isdigit_def split: if_splits)
  then have c: "48 \<le> (of_char c :: nat)" "(of_char c :: nat) \<le> 57" "hex_value c = of_char c - 48"
    by (simp_all add: isdigit_def hex_value_def less_eq_char_def)
  have "(of_char c :: u32) = of_nat (of_char c)" by (metis of_nat_of_char)
  then have "plain_value c = of_nat (of_char c) - 48" by (simp add: plain_value_def)
  also have "\<dots> = of_nat (hex_value c)" using c by (simp add: of_nat_diff)
  finally have "unat (plain_value c) = hex_value c" using assms(2) by (simp add: unat_of_nat take_bit_eq_mod)
  then show "(ucast (plain_value c) :: u64) = of_nat (hex_value c)"
    by (metis of_nat_unat)
qed

lemma unat_max: "unat (- 1 :: u64) = 2 ^ 64 - 1"
  by (simp add: unsigned_minus_1_eq_mask mask_eq_exp_minus_1)

text \<open>Each step keeps the value modulo \<open>2 ^ 64\<close> and the flag that says whether the number is larger.\<close>

definition keeps :: "nat \<Rightarrow> u64 \<times> bool \<Rightarrow> bool" where
  "keeps n so_far \<longleftrightarrow> so_far = (of_nat n, 2 ^ 64 \<le> n)"

lemma unat_of_small: "n < 2 ^ 64 \<Longrightarrow> unat (of_nat n :: u64) = n"
  by (simp add: unat_of_nat take_bit_eq_mod)

lemma grows_above: "2 ^ 64 \<le> n \<Longrightarrow> 0 < base \<Longrightarrow> (2 ^ 64 :: nat) \<le> n * base + d"
  by (metis trans_le_add1 le_trans mult_le_mono2 mult.right_neutral Suc_leI One_nat_def)

lemma shift_digit_keeps:
  assumes "keeps n so_far" "d < 2 ^ shift" "shift < 64"
  shows "keeps (n * 2 ^ shift + d) (shift_digit shift (of_nat d) so_far)"
proof -
  have "drop_bit shift (- 1) < (of_nat n :: u64) \<longleftrightarrow> 2 ^ 64 \<le> n * 2 ^ shift + d" if n: "n < 2 ^ 64"
  proof -
    have "unat (drop_bit shift (- 1 :: u64)) = (2 ^ 64 - 1) div 2 ^ shift"
      unfolding unat_drop_bit_eq unat_max by (simp add: drop_bit_eq_div)
    then have "drop_bit shift (- 1) < (of_nat n :: u64) \<longleftrightarrow> (2 ^ 64 - 1) div 2 ^ shift < n"
      using unat_of_small [OF n] by (simp add: word_less_nat_alt)
    also have "\<dots> \<longleftrightarrow> 2 ^ 64 - 1 < n * 2 ^ shift" by (simp add: div_less_iff_less_mult)
    also have "\<dots> \<longleftrightarrow> 2 ^ 64 \<le> n * 2 ^ shift + d"
    proof -
      obtain m where m: "(2::nat) ^ 64 = m * 2 ^ shift" using assms(3) by (metis le_add_diff_inverse2 less_imp_le power_add)
      have "m \<le> n" if "m * 2 ^ shift \<le> n * 2 ^ shift + d"
      proof (rule ccontr)
        assume "\<not> m \<le> n"
        then have "(n + 1) * 2 ^ shift \<le> m * 2 ^ shift" by (intro mult_le_mono1) simp
        then show False using that assms(2) by simp
      qed
      then have "2 ^ 64 \<le> n * 2 ^ shift" if "2 ^ 64 \<le> n * 2 ^ shift + d"
        using that mult_le_mono1 [of m n "2 ^ shift"] unfolding m by blast
      moreover have "2 ^ 64 \<le> n * 2 ^ shift + d" if "2 ^ 64 \<le> n * 2 ^ shift" using that by (rule trans_le_add1)
      moreover have "2 ^ 64 - 1 < x \<longleftrightarrow> 2 ^ 64 \<le> x" for x :: nat by auto
      ultimately show ?thesis by blast
    qed
    finally show ?thesis .
  qed
  moreover have "2 ^ 64 \<le> n \<Longrightarrow> 2 ^ 64 \<le> n * 2 ^ shift + d" by (rule grows_above) simp_all
  ultimately have "2 ^ 64 \<le> n \<or> drop_bit shift (- 1) < (of_nat n :: u64) \<longleftrightarrow> 2 ^ 64 \<le> n * 2 ^ shift + d"
    by (meson not_le)
  then show ?thesis using assms(1) unfolding keeps_def shift_digit_def by simp
qed

lemma decimal_digit_keeps:
  assumes "keeps n so_far" "d < 10"
  shows "keeps (n * 10 + d) (decimal_digit_step (of_nat d) so_far)"
proof -
  have "(- 1 - of_nat d) div 10 < (of_nat n :: u64) \<longleftrightarrow> 2 ^ 64 \<le> n * 10 + d" if n: "n < 2 ^ 64"
  proof -
    have d: "unat (of_nat d :: u64) = d" using assms(2) by (intro unat_of_small) simp
    have "of_nat d \<le> (- 1 :: u64)" by simp
    then have "unat (- 1 - of_nat d :: u64) = 2 ^ 64 - 1 - d" using d by (subst unat_sub) (simp_all add: unat_max)
    then have "(- 1 - of_nat d) div 10 < (of_nat n :: u64) \<longleftrightarrow> (2 ^ 64 - 1 - d) div 10 < n"
      using unat_of_small [OF n] by (simp add: word_less_nat_alt unat_div)
    also have "\<dots> \<longleftrightarrow> 2 ^ 64 \<le> n * 10 + d" using assms(2) by (simp add: div_less_iff_less_mult)  linarith
    finally show ?thesis .
  qed
  then have "2 ^ 64 \<le> n \<or> (- 1 - of_nat d) div 10 < (of_nat n :: u64) \<longleftrightarrow> 2 ^ 64 \<le> n * 10 + d"
    by (cases "n < 2 ^ 64") simp_all
  then show ?thesis using assms(1) by (simp add: keeps_def decimal_digit_step_def)
qed

lemma accumulate_keeps:
  assumes "is_numeral base digits"
    and "\<And>c n so_far. isxdigit c \<Longrightarrow> hex_value c < base \<Longrightarrow> keeps n so_far \<Longrightarrow> keeps (n * base + hex_value c) (step c so_far)"
  shows "keeps (numeral_value base digits) (accumulate step digits)"
  using assms(1)
proof (induction digits rule: rev_induct)
  case (snoc c digits)
  then show ?case using assms(2) [of c "numeral_value base digits" "accumulate step digits"]
    by (auto simp: is_numeral_snoc numeral_value_snoc accumulate_def)
qed (simp add: numeral_value_def accumulate_def keeps_def)

subsection \<open>Conversion to decimal\<close>

lemma multiply_carry: "0 < base \<Longrightarrow> multiply_digits base (carry_digits n) c = carry_digits (n * base + c)"
proof (induction n arbitrary: c rule: less_induct)
  case (less n)
  show ?case
  proof (cases "n = 0")
    case False
    have split: "n * base + c = (n mod 10 * base + c) + 10 * (n div 10 * base)"
      by (metis add.assoc add.commute add_mult_distrib mult.assoc mod_mult_div_eq)
    have "(n * base + c) mod 10 = (n mod 10 * base + c) mod 10" unfolding split by (rule mod_mult_self2)
    moreover have "(n * base + c) div 10 = n div 10 * base + (n mod 10 * base + c) div 10" unfolding split by simp
    ultimately show ?thesis using False less by (simp add: carry_digits.simps [of n] carry_digits.simps [of "n * base + c"])
  qed (simp add: carry_digits.simps [of 0])
qed

lemma multiply_zero: "multiply_digits base [0] c = (if c = 0 then [0] else carry_digits c)"
  by (simp add: carry_digits.simps [of 0] carry_digits.simps [of c])

lemma decimal_text_of_carry: "0 < n \<Longrightarrow> map (\<lambda>d. char_of (of_char CHR ''0'' + d :: nat)) (rev (carry_digits n)) = radix_text decimal_digit 10 n"
proof (induction n rule: less_induct)
  case (less n)
  show ?case
  proof (cases "n < 10")
    case True
    then show ?thesis using less.prems
      by (simp add: carry_digits.simps [of n] carry_digits.simps [of 0] radix_text_single decimal_digit_def)
  next
    case False
    then have "n div 10 < n" "0 < n div 10" by simp_all
    from less.IH [OF this] show ?thesis using False less.prems
      by (simp add: carry_digits.simps [of n] radix_text_step decimal_digit_def)
  qed
qed

lemma radix_digits_value:
  assumes "0 < base"
  shows "radix_digits_to_decimal digits base = radix_text decimal_digit 10 (numeral_value base digits)"
proof -
  have "fold (\<lambda>c ds. if c = CHR ''_'' then ds else multiply_digits base ds (hex_value c)) digits [0]
      = (if numeral_value base digits = 0 then [0] else carry_digits (numeral_value base digits))"
  proof (induction digits rule: rev_induct)
    case (snoc c digits)
    then show ?case using assms
      by (simp add: numeral_value_snoc multiply_carry multiply_zero del: multiply_digits.simps)
  qed (simp add: numeral_value_def)
  then show ?thesis using decimal_text_of_carry [of "numeral_value base digits"]
    by (simp add: radix_digits_to_decimal_def radix_text_single decimal_digit_def [of 0])
qed

subsection \<open>Integer literals\<close>

text \<open>The prefixes of the standard (2.7), and the base of a literal and its digits after the prefix.\<close>

definition number_prefixes :: "(string \<times> nat) list" where
  "number_prefixes = [(''0x'', 16), (''0X'', 16), (''0o'', 8), (''0O'', 8), (''0b'', 2), (''0B'', 2)]"

definition number_is_prefixed :: "string \<Rightarrow> bool" where
  "number_is_prefixed digits \<longleftrightarrow> take 2 digits \<in> fst ` set number_prefixes"

definition base_of :: "string \<Rightarrow> nat" where
  "base_of digits = (case map_of number_prefixes (take 2 digits) of Some base \<Rightarrow> base | None \<Rightarrow> 10)"

definition digits_after_prefix :: "string \<Rightarrow> string" where
  "digits_after_prefix digits = (if number_is_prefixed digits then drop 2 digits else digits)"

lemma literal_base_prefix: "literal_base digits = map_of number_prefixes (take 2 digits)"
  by (cases digits; cases "tl digits") (auto simp: literal_base_def number_prefixes_def)

lemma number_is_prefixed_base: "number_is_prefixed digits \<longleftrightarrow> literal_base digits \<noteq> None"
  by (auto simp: number_is_prefixed_def literal_base_prefix map_of_eq_None_iff)

lemmas literal_parts = base_of_def [folded literal_base_prefix] digits_after_prefix_def [unfolded number_is_prefixed_base]

lemma literal_base_cases: "literal_base digits \<in> {None, Some 16, Some 8, Some 2}"
  by (simp add: literal_base_def split: list.splits)

lemma literal_value_keeps:
  assumes "is_numeral (base_of digits) (digits_after_prefix digits)"
  shows "keeps (numeral_value (base_of digits) (digits_after_prefix digits)) (literal_value digits)"
proof -
  have hex: "isxdigit c \<Longrightarrow> hex_value c < 16 \<Longrightarrow> keeps n s \<Longrightarrow> keeps (n * 16 + hex_value c) (shift_digit 4 (of_nat (hex_value c)) s)" for c n s
    using shift_digit_keeps [of n s "hex_value c" 4] by simp
  have octal: "isxdigit c \<Longrightarrow> hex_value c < 8 \<Longrightarrow> keeps n s \<Longrightarrow> keeps (n * 8 + hex_value c) (shift_digit 3 (ucast (plain_value c)) s)" for c n s
    using shift_digit_keeps [of n s "hex_value c" 3] by (simp add: hex_value_plain)
  have binary: "isxdigit c \<Longrightarrow> hex_value c < 2 \<Longrightarrow> keeps n s \<Longrightarrow> keeps (n * 2 + hex_value c) (shift_digit 1 (ucast (plain_value c)) s)" for c n s
    using shift_digit_keeps [of n s "hex_value c" 1] by (simp add: hex_value_plain)
  have decimal: "isxdigit c \<Longrightarrow> hex_value c < 10 \<Longrightarrow> keeps n s \<Longrightarrow> keeps (n * 10 + hex_value c) (decimal_digit_step (ucast (plain_value c)) s)" for c n s
    using decimal_digit_keeps [of n s "hex_value c"] by (simp add: hex_value_plain)
  show ?thesis using literal_base_cases [of digits] assms
    accumulate_keeps [OF _ hex] accumulate_keeps [OF _ octal] accumulate_keeps [OF _ binary] accumulate_keeps [OF _ decimal]
    by (auto simp: literal_value_def literal_parts)
qed

lemma parse_integer_value:
  assumes "is_numeral (base_of digits) (digits_after_prefix digits)" "token_string (current_token p) = digits"
    and n: "n = numeral_value (base_of digits) (digits_after_prefix digits)"
  shows "parse_integer_literal p = Integer_Literal (current_token p) (of_nat n)
    (if number_is_prefixed digits then radix_text decimal_digit 10 n else digits) (2 ^ 63 \<le> n) (2 ^ 64 \<le> n)"
proof -
  have v: "literal_value digits = (of_nat n, 2 ^ 64 \<le> n)" using literal_value_keeps [OF assms(1)] by (simp add: keeps_def n)
  have "0x7FFFFFFFFFFFFFFF < (of_nat n :: u64) \<longleftrightarrow> 2 ^ 63 \<le> n" if "n < 2 ^ 64"
    using unat_of_small [OF that] by (simp add: word_less_nat_alt) linarith
  then have "2 ^ 64 \<le> n \<or> 0x7FFFFFFFFFFFFFFF < (of_nat n :: u64) \<longleftrightarrow> 2 ^ 63 \<le> n" by (cases "n < 2 ^ 64") auto
  moreover have "literal_base digits = Some base \<Longrightarrow> radix_digits_to_decimal (drop 2 digits) base = radix_text decimal_digit 10 n" for base
    using literal_base_cases [of digits] radix_digits_value [of base "drop 2 digits"] by (auto simp: n literal_parts)
  ultimately show ?thesis using v by (auto simp: parse_integer_literal_def assms(2) number_is_prefixed_base split: option.splits)
qed

end
