(* ===== verification/Parser_Expressions.thy ===== *)
theory Parser_Expressions
  imports Parser_Literals
begin

text \<open>
  The expressions of \<open>parser.c\<close>. \<open>expressions\<close> is \<open>parse_expression\<close> on what is nested in an expression, \<open>types\<close>
  the parser of types; \<open>k\<close> bounds the iterations of the loops. Each case of the switch of \<open>parse_prefix\<close>
  that is more than a call has its own definition.
\<close>

type_synonym ast_parsing = "ast option parsing"
type_synonym expression_parser = "Precedence \<Rightarrow> ast_parsing"

subsection \<open>Interpolated strings\<close>

text \<open>The node of one \<open>${...}\<close>, which \<open>front\<close> is in front of in the literal.\<close>

definition parse_interpolation :: "expression_parser \<Rightarrow> parser \<Rightarrow> string \<Rightarrow> string \<Rightarrow> (parser \<times> ast list) option" where
  "parse_interpolation expressions p front text =
     (if is_blank text then Some (report ''E2071'' None (current_token p) p, [])
      else do {
        (q, expression) \<leftarrow> expressions PRECEDENCE_LOWEST
          ((parser_create (interpolation_lexer p front text) (parser_file p) (diagnostics p))\<lparr>is_in_interpolation := True\<rparr>);
        let q = (if expression \<noteq> None \<and> \<not> peek_token_is q TOKEN_END_OF_FILE \<and> \<not> peek_token_is q TOKEN_ILLEGAL
                 then report ''E2002'' (Some (take (MESSAGE_BUFFER_SIZE - 1) (''unexpected token '' @ single_quote
                        @ display_name (peek_token q) @ single_quote @ '' in interpolation expression''))) (peek_token q) q
                 else q);
        Some (p\<lparr>diagnostics := diagnostics q\<rparr>, case expression of None \<Rightarrow> [] | Some e \<Rightarrow> [e])
      })"

text \<open>
  The loop over the literal \<open>raw\<close>: \<open>rest\<close> is what follows the cursor, \<open>segment\<close> what follows the start of
  the segment of text that the cursor is in.
\<close>

definition text_part :: "parser \<Rightarrow> string \<Rightarrow> string \<Rightarrow> ast list" where
  "text_part p segment rest =
     (if length rest < length segment
      then [String_Value (current_token p) (take (length segment - length rest) segment) False] else [])"

function interpolation_loop ::
  "expression_parser \<Rightarrow> string \<Rightarrow> string \<Rightarrow> string \<Rightarrow> ast list \<Rightarrow> parser \<Rightarrow> (parser \<times> ast list option) option" where
  "interpolation_loop expressions raw [] segment parts p = Some (p, Some (parts @ text_part p segment []))"
| "interpolation_loop expressions raw (c # cs) segment parts p =
     (if c = CHR 0x5C \<and> cs \<noteq> [] then interpolation_loop expressions raw (tl cs) segment parts p
      else if c = CHR ''$'' \<and> cs \<noteq> [] \<and> hd cs = CHR ''{''
      then let start = tl cs;
               stop = expression_end start 1;
               expression_text = take (length start - length stop) start
           in if 65536 < length expression_text
              then Some (report ''E2001'' (Some ''string interpolation expression is too large (max 64KB)'') (current_token p) p, None)
              else do {
                (p', expression) \<leftarrow> parse_interpolation expressions p (take (length raw - length start) raw) expression_text;
                interpolation_loop expressions raw (tl stop) (tl stop) (parts @ text_part p segment (c # cs) @ expression) p'
              }
      else interpolation_loop expressions raw cs segment parts p)"
  by pat_completeness auto
termination
proof (relation "measure (\<lambda>(_, _, rest, _). length rest)", simp_all)
  fix cs :: string
  show "length (expression_end (tl cs) (Suc 0)) - Suc 0 < Suc (length cs)"
    using length_expression_end [of "tl cs" "Suc 0"] by simp
qed

declare interpolation_loop.simps(2) [simp del]

definition parse_interpolated_string :: "expression_parser \<Rightarrow> string \<Rightarrow> ast_parsing" where
  "parse_interpolated_string expressions raw p = do {
     (q, parts) \<leftarrow> interpolation_loop expressions raw raw raw [] p;
     Some (q, map_option (Interpolated_String (current_token p)) parts)
   }"

definition parse_string_literal :: "expression_parser \<Rightarrow> ast_parsing" where
  "parse_string_literal expressions p =
     (let raw = token_string (current_token p);
          is_raw = current_token_is p TOKEN_RAW_STRING
      in if \<not> is_raw \<and> string_has_interpolation raw then parse_interpolated_string expressions raw p
         else let q = (if \<not> is_raw \<and> has_bare_dollar raw then report ''E2057'' None (current_token p) p else p)
              in Some (q, Some (String_Value (current_token p) raw is_raw)))"

subsection \<open>Lists\<close>

text \<open>\<open>mod.Name{...}\<close> and \<open>Name{...}\<close>. A field is what is in its place, whatever its token.\<close>

fun struct_loop :: "nat \<Rightarrow> expression_parser \<Rightarrow> (string \<times> ast option) list \<Rightarrow> (string \<times> ast option) list option parsing" where
  "struct_loop 0 expressions field_values p = None"
| "struct_loop (Suc k) expressions field_values p =
     (if current_token_is p (Operator TOKEN_RIGHT_BRACE) \<or> current_token_is p TOKEN_END_OF_FILE then Some (p, Some field_values)
      else let field_name = token_string (current_token p);
               (p, found) = expect_peek_token p (Operator TOKEN_COLON)
           in if \<not> found then Some (p, None)
              else do {
                (p, field) \<leftarrow> expressions PRECEDENCE_LOWEST (next_token p);
                let p = (if peek_token_is p (Operator TOKEN_COMMA) then next_token p else p);
                struct_loop k expressions (field_values @ [(field_name, field)]) (next_token p)
              })"

definition parse_struct_literal :: "nat \<Rightarrow> expression_parser \<Rightarrow> string \<Rightarrow> ast_parsing" where
  "parse_struct_literal k expressions name p = do {
     (q, field_values) \<leftarrow> struct_loop k expressions [] (next_token p);
     Some (q, map_option (Struct_Value (current_token p) name) field_values)
   }"

text \<open>The entries after the first of a map literal, and the elements after the first of an array literal.\<close>

fun map_loop :: "nat \<Rightarrow> expression_parser \<Rightarrow> (ast option \<times> ast option) list \<Rightarrow> (ast option \<times> ast option) list option parsing" where
  "map_loop 0 expressions entries p = None"
| "map_loop (Suc k) expressions entries p =
     (if \<not> peek_token_is p (Operator TOKEN_COMMA) then Some (p, Some entries)
      else let p = next_token (next_token p)
           in if current_token_is p (Operator TOKEN_RIGHT_BRACE) then Some (p, Some entries)
              else do {
                (p, key) \<leftarrow> expressions PRECEDENCE_LOWEST p;
                let (p, found) = expect_peek_token p (Operator TOKEN_COLON);
                if \<not> found then Some (p, None)
                else do {
                  (p, entry) \<leftarrow> expressions PRECEDENCE_LOWEST (next_token p);
                  map_loop k expressions (entries @ [(key, entry)]) p
                }
              })"

fun array_loop :: "nat \<Rightarrow> expression_parser \<Rightarrow> ast option list \<Rightarrow> ast option list parsing" where
  "array_loop 0 expressions elements p = None"
| "array_loop (Suc k) expressions elements p =
     (if \<not> peek_token_is p (Operator TOKEN_COMMA) then Some (p, elements)
      else let p = next_token (next_token p)
           in if current_token_is p (Operator TOKEN_RIGHT_BRACE)
              then Some (report ''E2017'' None (current_token p) p, elements)
              else do {
                (p, element) \<leftarrow> expressions PRECEDENCE_LOWEST p;
                array_loop k expressions (elements @ [element]) p
              })"

definition skip_right_brace :: "parser \<Rightarrow> parser" where
  "skip_right_brace p = (if peek_token_is p (Operator TOKEN_RIGHT_BRACE) then next_token p else p)"

definition parse_brace_literal :: "nat \<Rightarrow> expression_parser \<Rightarrow> ast_parsing" where
  "parse_brace_literal k expressions p =
     (let brace_token = current_token p;
          p = next_token p
      in if current_token_is p (Operator TOKEN_RIGHT_BRACE) then Some (p, Some (Array_Value brace_token []))
         else if current_token_is p (Operator TOKEN_COLON) \<and> peek_token_is p (Operator TOKEN_RIGHT_BRACE)
         then Some (next_token p, Some (Map_Value brace_token []))
         else do {
           (p, first) \<leftarrow> expressions PRECEDENCE_LOWEST
             (if current_token_is p (Operator TOKEN_COMMA) then next_token (report ''E2017'' None (current_token p) p) else p);
           if peek_token_is p (Operator TOKEN_COLON)
           then do {
             (p, entry) \<leftarrow> expressions PRECEDENCE_LOWEST (next_token (next_token p));
             (p, entries) \<leftarrow> map_loop k expressions [(first, entry)] p;
             Some (case entries of None \<Rightarrow> (p, None) | Some entries \<Rightarrow> (skip_right_brace p, Some (Map_Value brace_token entries)))
           }
           else do {
             (p, elements) \<leftarrow> array_loop k expressions [first] p;
             Some (skip_right_brace p, Some (Array_Value brace_token elements))
           }
         })"

subsection \<open>Parentheses\<close>

fun dotted_loop :: "nat \<Rightarrow> ast \<Rightarrow> ast parsing" where
  "dotted_loop 0 object p = None"
| "dotted_loop (Suc k) object p =
     (if peek_token_is p (Operator TOKEN_DOT)
      then let p = next_token (next_token p)
           in dotted_loop k (Member_Expression (current_token p) object (token_string (current_token p))) p
      else Some (p, object))"

definition parse_grouped_expression :: "nat \<Rightarrow> expression_parser \<Rightarrow> ast_parsing" where
  "parse_grouped_expression k expressions p =
     (if peek_token_is p (Operator TOKEN_RIGHT_PARENTHESIS)
      then let reference_token = current_token p;
               p = next_token (next_token p)
           in if \<not> current_token_is p TOKEN_IDENTIFIER then Some (p, None)
              else do {
                (p, function_expression) \<leftarrow> dotted_loop k (Label (current_token p) (Some (token_string (current_token p)))) p;
                Some (p, Some (Function_Reference reference_token function_expression))
              }
      else do {
        (p, expression) \<leftarrow> expressions PRECEDENCE_LOWEST (next_token p);
        let (p, found) = expect_peek_token p (Operator TOKEN_RIGHT_PARENTHESIS);
        Some (p, if found then expression else None)
      })"

subsection \<open>Keywords\<close>

definition parse_cast_expression :: "string option parsing \<Rightarrow> expression_parser \<Rightarrow> ast_parsing" where
  "parse_cast_expression types expressions p =
     (let cast_token = current_token p;
          (p, found) = expect_peek_token p (Operator TOKEN_LEFT_PARENTHESIS)
      in if \<not> found then Some (p, None)
         else do {
           (p, operand) \<leftarrow> expressions PRECEDENCE_LOWEST (next_token p);
           let (p, found) = expect_peek_token p (Operator TOKEN_COMMA);
           if \<not> found then Some (p, None)
           else do {
             (p, target) \<leftarrow> types (next_token p);
             Some (case target of
                 None \<Rightarrow> (p, None)
               | Some target \<Rightarrow>
                   expecting (Operator TOKEN_RIGHT_PARENTHESIS) (Cast_Expression cast_token operand target (array_element_type target)) p)
           }
         })"

definition parse_new_expression :: "string option parsing \<Rightarrow> ast_parsing" where
  "parse_new_expression types p =
     (let new_token = current_token p;
          (p, found) = expect_peek_token p (Operator TOKEN_LEFT_PARENTHESIS)
      in if \<not> found then Some (p, None)
         else do {
           (p, type_text) \<leftarrow> types (next_token p);
           Some (expecting (Operator TOKEN_RIGHT_PARENTHESIS) (New_Expression new_token type_text) p)
         })"

definition parse_range_expression :: "expression_parser \<Rightarrow> ast_parsing" where
  "parse_range_expression expressions p =
     (let range_token = current_token p;
          (p, found) = expect_peek_token p (Operator TOKEN_LEFT_PARENTHESIS)
      in if \<not> found then Some (p, None)
         else do {
           (p, first) \<leftarrow> expressions PRECEDENCE_LOWEST (next_token p);
           if \<not> peek_token_is p (Operator TOKEN_COMMA)
           then Some (expecting (Operator TOKEN_RIGHT_PARENTHESIS) (Range_Expression range_token None first None) p)
           else do {
             (p, stop) \<leftarrow> expressions PRECEDENCE_LOWEST (next_token (next_token p));
             if \<not> peek_token_is p (Operator TOKEN_COMMA)
             then Some (expecting (Operator TOKEN_RIGHT_PARENTHESIS) (Range_Expression range_token first stop None) p)
             else do {
               (p, step) \<leftarrow> expressions PRECEDENCE_LOWEST (next_token (next_token p));
               Some (expecting (Operator TOKEN_RIGHT_PARENTHESIS) (Range_Expression range_token first stop step) p)
             }
           }
         })"

definition parse_implicit_enum :: "parser \<Rightarrow> parser \<times> ast" where
  "parse_implicit_enum p =
     (let dot_token = current_token p;
          p = next_token p
      in if \<not> current_token_is p TOKEN_IDENTIFIER
         then (report ''E2001'' (Some (''expected enum variant name after '' @ single_quote @ ''.'' @ single_quote)) dot_token p, Nil_Value dot_token)
         else (p, Implicit_Enum dot_token (token_string (current_token p))))"

definition membership_message :: "string \<Rightarrow> string" where
  "membership_message operator_text = take (MESSAGE_BUFFER_SIZE - 1)
     (single_quote @ operator_text @ single_quote @ '' requires a value on the left side; '' @ single_quote @ operator_text @ single_quote
       @ '' checks whether a value belongs to a collection or range'')"

definition parse_stray_membership :: "expression_parser \<Rightarrow> ast_parsing" where
  "parse_stray_membership expressions p =
     (let bad_token = current_token p;
          p = report ''E2086'' (Some (membership_message (token_string bad_token))) bad_token p
      in do {
        (p, _) \<leftarrow> expressions PRECEDENCE_LOWEST ((next_token p)\<lparr>should_suppress_struct_literal := True\<rparr>);
        Some (p\<lparr>should_suppress_struct_literal := False\<rparr>, Some (Bool_Value bad_token True))
      })"

subsection \<open>Prefix expressions\<close>

definition parse_prefix_expression :: "expression_parser \<Rightarrow> ast_parsing" where
  "parse_prefix_expression expressions p = do {
     (q, right) \<leftarrow> expressions PRECEDENCE_PREFIX (next_token p);
     Some (q, Some (Prefix_Expression (current_token p) (token_type (current_token p)) right))
   }"

text \<open>A name, or the literal of a struct that it names. The look-ahead behind the dot of \<open>mod.Name{\<close> is undone.\<close>

definition starts_lower_case :: "string \<Rightarrow> bool" where
  "starts_lower_case name \<longleftrightarrow> CHR ''a'' \<le> text_at name 0 \<and> text_at name 0 \<le> CHR ''z''"

definition parse_name :: "nat \<Rightarrow> expression_parser \<Rightarrow> ast_parsing" where
  "parse_name k expressions p =
     (let name = token_string (current_token p)
      in if peek_token_is p (Operator TOKEN_LEFT_BRACE) \<and> \<not> should_suppress_struct_literal p
         then parse_struct_literal k expressions name (next_token p)
         else Some (p, Some (parse_identifier p)))"

definition parse_qualified_name :: "nat \<Rightarrow> expression_parser \<Rightarrow> ast_parsing" where
  "parse_qualified_name k expressions p =
     (let module_name = token_string (current_token p);
          q = next_token (next_token p)
      in if current_token_is q TOKEN_IDENTIFIER \<and> peek_token_is q (Operator TOKEN_LEFT_BRACE) \<and> \<not> should_suppress_struct_literal q
         then parse_struct_literal k expressions
                (take (MESSAGE_BUFFER_SIZE - 1) (module_name @ ''.'' @ token_string (current_token q))) (next_token q)
         else parse_name k expressions (parser_snapshot_restore q (parser_snapshot_save p)))"

definition parse_name_or_literal :: "nat \<Rightarrow> expression_parser \<Rightarrow> ast_parsing" where
  "parse_name_or_literal k expressions p =
     (if peek_token_is p (Operator TOKEN_DOT) \<and> starts_lower_case (token_string (current_token p))
      then parse_qualified_name k expressions p else parse_name k expressions p)"

text \<open>A token that starts no expression. The lexer has reported an illegal one.\<close>

definition report_unexpected :: "parser \<Rightarrow> parser" where
  "report_unexpected p =
     (if current_token_is p TOKEN_ILLEGAL then p
      else report ''E2002'' (Some (take (MESSAGE_BUFFER_SIZE - 1)
             (if current_token_is p TOKEN_END_OF_FILE \<and> is_in_interpolation p then ''unexpected end of interpolation expression''
              else ''unexpected token '' @ single_quote @ display_name (current_token p) @ single_quote))) (current_token p) p)"

definition some_node :: "parser \<times> ast \<Rightarrow> (parser \<times> ast option) option" where
  "some_node result = (case result of (p, node) \<Rightarrow> Some (p, Some node))"

fun parse_prefix_of :: "TokenType \<Rightarrow> nat \<Rightarrow> string option parsing \<Rightarrow> expression_parser \<Rightarrow> ast_parsing" where
  "parse_prefix_of (Keyword TOKEN_EXTERN) k types expressions p = parse_name_or_literal k expressions p"
| "parse_prefix_of TOKEN_IDENTIFIER k types expressions p = parse_name_or_literal k expressions p"
| "parse_prefix_of (Keyword TOKEN_GENERIC) k types expressions p =
     Some (fst (reject_generic_type p), Some (parse_identifier p))"
| "parse_prefix_of TOKEN_INTEGER_LITERAL k types expressions p = Some (p, Some (parse_integer_literal p))"
| "parse_prefix_of TOKEN_FLOATING_POINT_LITERAL k types expressions p = some_node (parse_floating_point_literal p)"
| "parse_prefix_of TOKEN_STRING k types expressions p = parse_string_literal expressions p"
| "parse_prefix_of TOKEN_RAW_STRING k types expressions p = parse_string_literal expressions p"
| "parse_prefix_of (Keyword TOKEN_TRUE) k types expressions p = Some (p, Some (parse_bool_literal p))"
| "parse_prefix_of (Keyword TOKEN_FALSE) k types expressions p = Some (p, Some (parse_bool_literal p))"
| "parse_prefix_of (Keyword TOKEN_NIL) k types expressions p = Some (p, Some (parse_nil_literal p))"
| "parse_prefix_of TOKEN_CHAR k types expressions p = some_node (parse_char_literal p)"
| "parse_prefix_of (Operator TOKEN_MINUS) k types expressions p = parse_prefix_expression expressions p"
| "parse_prefix_of (Operator TOKEN_BANG) k types expressions p = parse_prefix_expression expressions p"
| "parse_prefix_of (Keyword TOKEN_BIT_NOT) k types expressions p = parse_prefix_expression expressions p"
| "parse_prefix_of (Operator TOKEN_AMPERSAND) k types expressions p =
     parse_prefix_expression expressions (report ''E2072'' None (current_token p) p)"
| "parse_prefix_of (Operator TOKEN_DOT) k types expressions p = some_node (parse_implicit_enum p)"
| "parse_prefix_of (Operator TOKEN_LEFT_PARENTHESIS) k types expressions p = parse_grouped_expression k expressions p"
| "parse_prefix_of (Operator TOKEN_LEFT_BRACE) k types expressions p = parse_brace_literal k expressions p"
| "parse_prefix_of (Keyword TOKEN_CAST) k types expressions p = parse_cast_expression types expressions p"
| "parse_prefix_of (Keyword TOKEN_NEW) k types expressions p = parse_new_expression types p"
| "parse_prefix_of (Keyword TOKEN_RANGE) k types expressions p = parse_range_expression expressions p"
| "parse_prefix_of (Keyword TOKEN_IN) k types expressions p = parse_stray_membership expressions p"
| "parse_prefix_of (Keyword TOKEN_NOT_IN) k types expressions p = parse_stray_membership expressions p"
| "parse_prefix_of type k types expressions p = Some (report_unexpected p, None)"

definition parse_prefix :: "nat \<Rightarrow> string option parsing \<Rightarrow> expression_parser \<Rightarrow> ast_parsing" where
  "parse_prefix k types expressions p = parse_prefix_of (token_type (current_token p)) k types expressions p"

subsection \<open>Infix and postfix expressions\<close>

definition suppresses_struct_literal :: "TokenType \<Rightarrow> bool" where
  "suppresses_struct_literal type \<longleftrightarrow>
     type \<in> {Keyword TOKEN_IN, Keyword TOKEN_NOT_IN, Operator TOKEN_LESS_THAN, Operator TOKEN_GREATER_THAN,
       Operator TOKEN_LESS_THAN_OR_EQUAL, Operator TOKEN_GREATER_THAN_OR_EQUAL, Operator TOKEN_EQUAL, Operator TOKEN_NOT_EQUAL}"

definition parse_infix_expression :: "expression_parser \<Rightarrow> ast \<Rightarrow> ast_parsing" where
  "parse_infix_expression expressions left p =
     (let operator_token = current_token p;
          type = token_type operator_token;
          p = next_token p;
          saved = should_suppress_struct_literal p;
          p = (if suppresses_struct_literal type then p\<lparr>should_suppress_struct_literal := True\<rparr> else p)
      in do {
        (p, right) \<leftarrow> expressions (get_token_precedence type) p;
        Some (p\<lparr>should_suppress_struct_literal := saved\<rparr>, Some (Infix_Expression operator_token left type right))
      })"

definition report_gap :: "string \<Rightarrow> parser \<Rightarrow> parser" where
  "report_gap code p = (if is_preceded_by_whitespace (current_token p) then report code None (current_token p) p else p)"

definition argument_name :: "parser \<Rightarrow> parser \<times> string option" where
  "argument_name p =
     (if current_token_is p TOKEN_IDENTIFIER \<and> peek_token_is p (Operator TOKEN_COLON)
      then (next_token (next_token p), Some (token_string (current_token p))) else (p, None))"

definition parse_argument :: "string option parsing \<Rightarrow> expression_parser \<Rightarrow> ast \<Rightarrow> ast_parsing" where
  "parse_argument types expressions callee p =
     (if (case callee of Label _ name \<Rightarrow> name = Some ''size_of'' | _ \<Rightarrow> False) \<and> current_starts_complex_type p
      then do {
        (p, type_text) \<leftarrow> types p;
        Some (p, Some (Label (current_token p) type_text))
      }
      else expressions PRECEDENCE_LOWEST p)"

fun arguments_loop ::
  "nat \<Rightarrow> string option parsing \<Rightarrow> expression_parser \<Rightarrow> ast \<Rightarrow> (ast option \<times> string option) list \<Rightarrow> (ast option \<times> string option) list parsing" where
  "arguments_loop 0 types expressions callee arguments p = None"
| "arguments_loop (Suc k) types expressions callee arguments p =
     (let (p, name) = argument_name (next_token p)
      in do {
        (p, argument) \<leftarrow> parse_argument types expressions callee p;
        if peek_token_is p (Operator TOKEN_COMMA)
        then arguments_loop k types expressions callee (arguments @ [(argument, name)]) (next_token p)
        else Some (p, arguments @ [(argument, name)])
      })"

definition call_node :: "token \<Rightarrow> ast \<Rightarrow> (ast option \<times> string option) list \<Rightarrow> ast" where
  "call_node call_token callee arguments =
     Call_Expression call_token callee (map fst arguments)
       (if list_ex (\<lambda>a. snd a \<noteq> None) arguments then Some (map snd arguments) else None)"

definition parse_call_expression :: "nat \<Rightarrow> string option parsing \<Rightarrow> expression_parser \<Rightarrow> ast \<Rightarrow> ast_parsing" where
  "parse_call_expression k types expressions callee p =
     (let p = report_gap ''E2073'' p;
          call_token = current_token p
      in if peek_token_is p (Operator TOKEN_RIGHT_PARENTHESIS) then Some (next_token p, Some (call_node call_token callee []))
         else do {
           (p, arguments) \<leftarrow> arguments_loop k types expressions callee [] p;
           Some (expecting (Operator TOKEN_RIGHT_PARENTHESIS) (call_node call_token callee arguments) p)
         })"

definition parse_member_expression :: "ast \<Rightarrow> parser \<Rightarrow> parser \<times> ast" where
  "parse_member_expression object p =
     (let p = next_token (report_gap ''E2074'' p)
      in (p, Member_Expression (current_token p) object (token_string (current_token p))))"

definition parse_index_expression :: "expression_parser \<Rightarrow> ast \<Rightarrow> ast_parsing" where
  "parse_index_expression expressions left p =
     (let p = report_gap ''E2075'' p;
          index_token = current_token p
      in if peek_token_is p (Operator TOKEN_RIGHT_BRACKET) then Some (next_token (report ''E2077'' None index_token p), None)
         else do {
           (p, index) \<leftarrow> expressions PRECEDENCE_LOWEST (next_token p);
           Some (expecting (Operator TOKEN_RIGHT_BRACKET) (Index_Expression index_token left index) p)
         })"

definition parse_postfix_expression :: "ast \<Rightarrow> parser \<Rightarrow> parser \<times> ast" where
  "parse_postfix_expression left p =
     (report_gap ''E2076'' p, Postfix_Expression (current_token p) left (token_type (current_token p)))"

definition is_infix_operator :: "TokenType \<Rightarrow> bool" where
  "is_infix_operator type \<longleftrightarrow>
     type \<in> {Operator TOKEN_PLUS, Operator TOKEN_MINUS, Operator TOKEN_ASTERISK, Operator TOKEN_SLASH, Operator TOKEN_PERCENT,
       Operator TOKEN_EQUAL, Operator TOKEN_NOT_EQUAL, Operator TOKEN_LESS_THAN, Operator TOKEN_GREATER_THAN,
       Operator TOKEN_LESS_THAN_OR_EQUAL, Operator TOKEN_GREATER_THAN_OR_EQUAL, Operator TOKEN_AND, Operator TOKEN_OR,
       Keyword TOKEN_IN, Keyword TOKEN_NOT_IN, Keyword TOKEN_BIT_AND, Keyword TOKEN_BIT_OR, Keyword TOKEN_BIT_XOR,
       Keyword TOKEN_BIT_SHIFT_LEFT, Keyword TOKEN_BIT_SHIFT_RIGHT}"

definition is_postfix_operator :: "TokenType \<Rightarrow> bool" where
  "is_postfix_operator type \<longleftrightarrow> type \<in> {Operator TOKEN_INCREMENT, Operator TOKEN_DECREMENT, Operator TOKEN_CARET}"

definition parse_infix :: "nat \<Rightarrow> string option parsing \<Rightarrow> expression_parser \<Rightarrow> ast \<Rightarrow> ast_parsing" where
  "parse_infix k types expressions left p =
     (let type = token_type (current_token p)
      in if is_infix_operator type then parse_infix_expression expressions left p
         else if type = Operator TOKEN_LEFT_PARENTHESIS then parse_call_expression k types expressions left p
         else if type = Operator TOKEN_DOT then some_node (parse_member_expression left p)
         else if type = Operator TOKEN_LEFT_BRACKET then parse_index_expression expressions left p
         else if is_postfix_operator type then some_node (parse_postfix_expression left p)
         else Some (p, Some left))"

subsection \<open>Expressions\<close>

definition report_too_deep :: "token \<Rightarrow> parser \<Rightarrow> parser" where
  "report_too_deep at p = report ''E2001'' (Some ''expression is nested too deeply; maximum depth is 256'') at p"

text \<open>The loop over the operators that bind more tightly than \<open>precedence\<close>; \<open>chain_length\<close> counts them.\<close>

fun operators_loop :: "nat \<Rightarrow> string option parsing \<Rightarrow> expression_parser \<Rightarrow> Precedence \<Rightarrow> nat \<Rightarrow> ast \<Rightarrow> ast_parsing" where
  "operators_loop 0 types expressions precedence chain_length left p = None"
| "operators_loop (Suc k) types expressions precedence chain_length left p =
     (if peek_token_is p TOKEN_END_OF_FILE \<or> \<not> precedence < get_token_precedence (token_type (peek_token p))
      then Some (p, Some left)
      else if MAX_PARSE_DEPTH < chain_length + 1 then Some (report_too_deep (peek_token p) p, None)
      else do {
        (p, node) \<leftarrow> parse_infix k types expressions left (next_token p);
        case node of
          None \<Rightarrow> Some (p, None)
        | Some left \<Rightarrow> operators_loop k types expressions precedence (chain_length + 1) left p
      })"

fun parse_expression :: "nat \<Rightarrow> expression_parser" where
  "parse_expression 0 precedence p = None"
| "parse_expression (Suc k) precedence p =
     (if MAX_PARSE_DEPTH < parse_depth p + 1 then Some (report_too_deep (current_token p) p, None)
      else do {
        (p, node) \<leftarrow> parse_prefix k (parse_complex_type k) (parse_expression k) (p\<lparr>parse_depth := parse_depth p + 1\<rparr>);
        (p, node) \<leftarrow> (case node of
            None \<Rightarrow> Some (p, None)
          | Some left \<Rightarrow> operators_loop k (parse_complex_type k) (parse_expression k) precedence 0 left p);
        Some (p\<lparr>parse_depth := parse_depth p - 1\<rparr>, node)
      })"

declare parse_expression.simps [simp del]

end
