(* ===== verification/String_Tokens.thy ===== *)
theory String_Tokens
  imports Parser_Literals Lexer_Progress
begin

text \<open>
  The literal of a string token has no more dollar signs than the source it is read from: the escapes that
  the lexer expands have none. An interpolation takes one away, so that the parsers of nested
  interpolations come to an end.
\<close>

definition dollars :: "string \<Rightarrow> nat" where
  "dollars text = length (filter (\<lambda>c. c = CHR ''$'') text)"

lemma dollars_append [simp]: "dollars (a @ b) = dollars a + dollars b"
  by (simp add: dollars_def)

lemma dollars_simps [simp]: "dollars [] = 0" "dollars (c # cs) = (if c = CHR ''$'' then 1 else 0) + dollars cs"
  by (simp_all add: dollars_def)

lemma dollars_take: "dollars (take n text) \<le> dollars text"
  by (metis append_take_drop_id dollars_append le_add1)

lemma dollars_drop: "dollars (drop n text) \<le> dollars text"
  by (metis append_take_drop_id dollars_append le_add2)

lemma dollars_suffix: "suffix = drop n text \<Longrightarrow> dollars suffix \<le> dollars text"
  by (simp add: dollars_drop)

subsection \<open>Slices of the source\<close>

lemma reads_to_position:
  assumes "read_position lx = Suc (position lx)" "reads_to lx lx'"
  shows "read_position lx' = Suc (position lx')" "position lx \<le> position lx'" "input lx' = input lx"
proof -
  obtain n where n: "cursor lx' = cursor ((read_character ^^ n) lx)" using assms(2) by (auto simp: reads_to_def reads_def)
  have "position ((read_character ^^ n) lx) = position lx + n \<and> read_position ((read_character ^^ n) lx) = Suc (position lx + n)
      \<and> input ((read_character ^^ n) lx) = input lx"
    using assms(1) by (induction n) simp_all
  then show "read_position lx' = Suc (position lx')" "position lx \<le> position lx'" "input lx' = input lx"
    using cursor_eqD [OF n] by simp_all
qed

lemma slice_split: "a \<le> b \<Longrightarrow> b \<le> c \<Longrightarrow> source_slice lx a c = source_slice lx a b @ source_slice lx b c"
  using upt_add_eq_append [of a b "c - b"] by (simp add: source_slice_def)

lemma upt_append_le: "dollars (source_slice lx 0 n) \<le> dollars (input lx)"
proof (induction n)
  case (Suc n)
  show ?case
  proof (cases "n < length (input lx)")
    case True
    have "source_slice lx 0 (Suc n) = take (Suc n) (input lx)"
    proof (rule nth_equalityI)
      fix i assume "i < length (source_slice lx 0 (Suc n))"
      then show "source_slice lx 0 (Suc n) ! i = take (Suc n) (input lx) ! i"
        using True by (simp add: source_slice_def source_byte_def del: upt_Suc)
    qed (use True in \<open>simp add: source_slice_def\<close>)
    then show ?thesis by (simp add: dollars_take)
  next
    case False
    then show ?thesis using Suc by (simp add: source_slice_def source_byte_def)
  qed
qed (simp add: source_slice_def)

lemma dollars_slice: "dollars (source_slice lx a b) \<le> dollars (input lx)"
proof (cases "a \<le> b")
  case True
  then have "dollars (source_slice lx a b) \<le> dollars (source_slice lx 0 b)" by (simp add: slice_split [of 0 a b])
  then show ?thesis using upt_append_le [of lx b] by simp
qed (simp add: source_slice_def)

subsection \<open>Escapes are in order\<close>

fun escapes_ok :: "nat \<Rightarrow> unicode_escape list \<Rightarrow> nat \<Rightarrow> bool" where
  "escapes_ok a [] b = (a \<le> b)"
| "escapes_ok a (e # es) b = (a \<le> escape_begin e \<and> escape_begin e \<le> escape_end e \<and> escapes_ok (escape_end e) es b)"

lemma escapes_ok_snoc:
  "escapes_ok a es b \<Longrightarrow> b \<le> escape_begin e \<Longrightarrow> escape_begin e \<le> escape_end e \<Longrightarrow> escape_end e \<le> c \<Longrightarrow> escapes_ok a (es @ [e]) c"
  by (induction es arbitrary: a) auto

lemma escapes_ok_mono: "escapes_ok a es b \<Longrightarrow> b \<le> c \<Longrightarrow> escapes_ok a es c"
  by (induction es arbitrary: a) auto

lemma u_escape_adds:
  assumes "read_u_escape lx begin_position es = (lx', es')"
  shows "es' = es \<or> (\<exists>e. es' = es @ [e] \<and> escape_begin e = begin_position \<and> escape_end e = position lx')"
  using assms by (auto simp: read_u_escape_def Let_def split: if_splits prod.splits)

lemma string_step_adds:
  assumes "string_step lx d es = (b, lx', d', es')"
  shows "es' = es \<or> (\<exists>e. es' = es @ [e] \<and> escape_begin e = position lx \<and> escape_end e = position lx')"
  using assms by (auto simp: string_step_def read_escape_def Let_def split: if_splits prod.splits dest!: u_escape_adds)

lemma string_loop_escapes:
  "string_loop lx d es = (lx', es') \<Longrightarrow> read_position lx = Suc (position lx) \<Longrightarrow> escapes_ok a es (position lx)
    \<Longrightarrow> escapes_ok a es' (position lx')"
proof (induction lx d es rule: string_loop.induct)
  case (1 lx d es)
  show ?case
  proof (cases "current_character lx = NUL")
    case True
    then show ?thesis using 1(2,4) by (subst (asm) string_loop.simps) simp
  next
    case False
    obtain b lx1 d1 es1 where s: "string_step lx d es = (b, lx1, d1, es1)" by (metis prod.exhaust)
    note p = reads_to_position [OF 1(3) reads_to_string_step [OF s]]
    have es1: "escapes_ok a es1 (position lx1)"
      using string_step_adds [OF s] 1(4) p(2) by (auto intro: escapes_ok_mono escapes_ok_snoc)
    show ?thesis
    proof (cases b)
      case True
      then have "string_loop lx1 d1 es1 = (lx', es')" using 1(2) False s by (subst (asm) string_loop.simps) simp
      then show ?thesis using 1(1) [OF False s [symmetric] refl refl refl True] p(1) es1 by blast
    next
      case b: False
      then show ?thesis using 1(2) False s es1 by (subst (asm) string_loop.simps) simp
    qed
  qed
qed

subsection \<open>String tokens\<close>

lemma escaped_byte_dollars: "dollars (escaped_byte b) = 0"
proof -
  have "radix_digit False d \<noteq> CHR ''$''" if "d < 16" for d
  proof -
    have "d < length ''0123456789abcdef''" using that by simp
    then have "radix_digit False d \<in> set ''0123456789abcdef''" unfolding radix_digit_def by (simp only: nth_mem if_False)
    then show ?thesis by auto
  qed
  moreover have "unat b div 16 < 16" using unsigned_less [of b, where 'a = nat] by simp
  ultimately show ?thesis by (simp add: escaped_byte_def)
qed

lemma expand_dollars:
  "escapes_ok a es (position lx) \<Longrightarrow> dollars (expand_loop lx a es) \<le> dollars (source_slice lx a (position lx))"
proof (induction es arbitrary: a)
  case (Cons e es)
  have order: "a \<le> escape_begin e" "escape_begin e \<le> escape_end e" "escape_end e \<le> position lx"
  proof -
    show "a \<le> escape_begin e" "escape_begin e \<le> escape_end e" using Cons.prems by simp_all
    have "escapes_ok b es c \<Longrightarrow> b \<le> c" for b c by (induction es arbitrary: b) force+
    then show "escape_end e \<le> position lx" using Cons.prems by simp
  qed
  have "dollars (concat (map escaped_byte bs)) = 0" for bs by (induction bs) (simp_all add: escaped_byte_dollars)
  moreover have "dollars (expand_loop lx (escape_end e) es) \<le> dollars (source_slice lx (escape_end e) (position lx))"
    using Cons by simp
  ultimately show ?case
    using slice_split [of a "escape_begin e" "position lx" lx] slice_split [of "escape_begin e" "escape_end e" "position lx" lx] order
    by simp
qed simp

lemma read_string_dollars:
  assumes "read_position lx = Suc (position lx)"
  shows "dollars (snd (read_string lx)) \<le> dollars (input lx)"
proof -
  let ?a = "read_character lx"
  obtain b es where loop: "string_loop ?a 0 [] = (b, es)" by fastforce
  have a: "read_position ?a = Suc (position ?a)" using assms by simp
  note p = reads_to_position [OF a reads_to_string_loop [OF loop]]
  let ?c = "check_literal_utf8 b (position ?a)"
  have c: "reads_to b ?c \<and> position ?c = position b"
    using marks_check_literal_utf8 [of b "position ?a"] by (auto simp: marks_def intro: reads_to_marks [OF reads_to_refl])
  then have input: "input ?c = input lx" using reads_to_position(3) [OF p(1)] p(3) by auto
  have "escapes_ok (position ?a) es (position b)" using string_loop_escapes [OF loop a] by simp
  then have "dollars (expand_unicode_escapes ?c (position ?a) es) \<le> dollars (input ?c)"
    using expand_dollars [of "position ?a" es ?c] dollars_slice [of ?c] c by (fastforce simp: expand_unicode_escapes_def intro: le_trans)
  then show ?thesis using dollars_slice [of ?c] input by (simp add: read_string_def Let_def loop)
qed

lemma string_token_dollars:
  assumes "read_position lx = Suc (position lx)" "string_token lx = (lx', TOKEN_STRING, text)"
  shows "\<exists>s. text = Text s \<and> dollars s \<le> dollars (input lx)"
  using assms read_string_dollars [of "lx\<lparr>has_unterminated_string := False\<rparr>"]
  by (auto simp: string_token_def illegal_def with_error_def split: if_splits prod.splits)

lemma not_string_tokens:
  "fst (snd (make_paired_token lx c t s t' s')) \<noteq> TOKEN_STRING" "fst (snd (plus_token lx)) \<noteq> TOKEN_STRING"
  "fst (snd (minus_token lx)) \<noteq> TOKEN_STRING" "fst (snd (bang_token lx)) \<noteq> TOKEN_STRING" "fst (snd (pipe_token lx)) \<noteq> TOKEN_STRING"
  "fst (snd (hash_token lx)) \<noteq> TOKEN_STRING" "fst (snd (illegal e m lx)) \<noteq> TOKEN_STRING" "fst (snd (unexpected_token lx)) \<noteq> TOKEN_STRING"
  "fst (snd (word_token lx)) \<noteq> TOKEN_STRING" "type \<noteq> TOKEN_STRING \<Longrightarrow> fst (snd (with_error scan type)) \<noteq> TOKEN_STRING"
  by (auto simp: make_paired_token_def plus_token_def minus_token_def bang_token_def pipe_token_def hash_token_def illegal_def
      unexpected_token_def word_token_def with_error_def Let_def split: option.splits prod.splits)

lemma number_not_string: "fst (snd (number_token lx)) \<noteq> TOKEN_STRING"
proof -
  have "snd (snd (read_number lx)) \<noteq> TOKEN_STRING"
    by (auto simp: read_number_def Let_def split: prod.splits)
  then show ?thesis using not_string_tokens(10) by (auto simp: number_token_def split: prod.splits)
qed

lemma token_switch_string:
  assumes "token_switch lx = ((lx', TOKEN_STRING, text), m)"
  shows "string_token lx = (lx', TOKEN_STRING, text)"
proof (cases "current_character lx = NUL")
  case True
  then show ?thesis using assms by (auto simp: token_switch_def illegal_def split: if_splits)
next
  case False
  have "case token_switch lx of (scan, reads_more) \<Rightarrow> fst (snd scan) = TOKEN_STRING \<longrightarrow> scan = string_token lx"
    by (rule token_switch_cases [OF False, where Q = "\<lambda>scan m. fst (snd scan) = TOKEN_STRING \<longrightarrow> scan = string_token lx"])
      (simp_all add: not_string_tokens number_not_string)
  then show ?thesis by (simp add: assms)
qed

lemma string_literal_dollars:
  assumes "upto (Suc 0) lx" "lexer_next_token lx = (lx', t)" "token_type t = TOKEN_STRING"
  shows "dollars (token_string t) \<le> dollars (input lx)"
proof -
  let ?s = "skip_whitespace_and_comments (lx\<lparr>error_code := None\<rparr>)"
  have s: "upto (Suc 0) ?s" using assms(1) by (intro upto_skip_all) simp
  have r: "reads_to lx ?s" using reads_to_skip_all [of "lx\<lparr>error_code := None\<rparr>"] by (simp add: reads_to_flags)
  then have input: "input ?s = input lx" using reads_to_position(3) assms(1) by (auto simp: upto_def)
  obtain y type content m where t: "token_switch ?s = ((y, type, content), m)" by (metis prod.exhaust)
  have "error_code ?s = None" "type = TOKEN_STRING" "literal t = content"
    using assms(2,3) by (auto simp: lexer_next_token_def Let_def t split: if_splits)
  then obtain str where "literal t = Text str" "dollars str \<le> dollars (input ?s)"
    using token_switch_string string_token_dollars [of ?s] t s by (auto simp: upto_def)
  then show ?thesis by (simp add: token_string_def input)
qed

end
