(* ===== verification/Parser_Steps.thy ===== *)
theory Parser_Steps
  imports String_Tokens
begin

text \<open>
  What the parsing functions have in common: they read on in the same source, never past its end, and
  give back the depth and the nesting they found. \<open>converges f r\<close> says that \<open>f\<close> has the result \<open>r\<close> for
  all fuels from some on; \<open>returns p f\<close> that it does with a parser that is reached from \<open>p\<close>.
\<close>

subsection \<open>Steps of the parser\<close>

definition token_ok :: "lexer \<Rightarrow> token \<Rightarrow> bool" where
  "token_ok lx t \<longleftrightarrow> (token_type t = TOKEN_STRING \<longrightarrow> dollars (token_string t) \<le> dollars (input lx))"

definition parser_ok :: "parser \<Rightarrow> bool" where
  "parser_ok p \<longleftrightarrow> upto (Suc 0) (parser_lexer p) \<and> token_ok (parser_lexer p) (current_token p)
     \<and> token_ok (parser_lexer p) (peek_token p)"

text \<open>The bytes and the tokens that are left decrease with every token that is read, but the end of the file.\<close>

definition tokens_left :: "parser \<Rightarrow> nat" where
  "tokens_left p = (Suc (length (input (parser_lexer p))) - position (parser_lexer p))
     + (if token_type (current_token p) = TOKEN_END_OF_FILE then 0 else 1)
     + (if token_type (peek_token p) = TOKEN_END_OF_FILE then 0 else 1)"

definition reaches :: "parser \<Rightarrow> parser \<Rightarrow> bool" where
  "reaches p q \<longleftrightarrow> parser_ok q \<and> input (parser_lexer q) = input (parser_lexer p) \<and> tokens_left q \<le> tokens_left p
     \<and> parse_depth q = parse_depth p \<and> type_nesting q = type_nesting p"

named_theorems reach "steps of the parser, for a parser that is reached"

lemma reaches_ok: "reaches p q \<Longrightarrow> parser_ok q"
  by (simp add: reaches_def)

lemma reaches_same: "reaches p q \<Longrightarrow> input (parser_lexer q) = input (parser_lexer p)"
  "reaches p q \<Longrightarrow> parse_depth q = parse_depth p" "reaches p q \<Longrightarrow> type_nesting q = type_nesting p"
  "reaches p q \<Longrightarrow> tokens_left q \<le> tokens_left p"
  by (simp_all add: reaches_def)

lemma reaches_refl [reach]: "parser_ok p \<Longrightarrow> reaches p p"
  by (simp add: reaches_def)

lemma reaches_trans: "reaches p q \<Longrightarrow> reaches q r \<Longrightarrow> reaches p r"
  by (auto simp: reaches_def)

lemma report_simps [simp]:
  "parser_lexer (report c m t p) = parser_lexer p" "current_token (report c m t p) = current_token p"
  "peek_token (report c m t p) = peek_token p" "parse_depth (report c m t p) = parse_depth p"
  "type_nesting (report c m t p) = type_nesting p" "tokens_left (report c m t p) = tokens_left p"
  "parser_file (report c m t p) = parser_file p"
  "should_suppress_struct_literal (report c m t p) = should_suppress_struct_literal p"
  "is_in_interpolation (report c m t p) = is_in_interpolation p"
  by (simp_all add: report_def tokens_left_def)

lemma reaches_report [reach]: "reaches p q \<Longrightarrow> reaches p (report c m t q)"
  by (simp add: reaches_def parser_ok_def)

lemma parser_flags [simp]:
  "tokens_left (p\<lparr>should_suppress_struct_literal := b\<rparr>) = tokens_left p" "tokens_left (p\<lparr>diagnostics := ds\<rparr>) = tokens_left p"
  "parser_ok (p\<lparr>should_suppress_struct_literal := b\<rparr>) = parser_ok p" "parser_ok (p\<lparr>diagnostics := ds\<rparr>) = parser_ok p"
  "tokens_left (p\<lparr>type_nesting := n\<rparr>) = tokens_left p" "tokens_left (p\<lparr>parse_depth := n\<rparr>) = tokens_left p"
  "parser_ok (p\<lparr>type_nesting := n\<rparr>) = parser_ok p" "parser_ok (p\<lparr>parse_depth := n\<rparr>) = parser_ok p"
  by (simp_all add: tokens_left_def parser_ok_def)

lemma reaches_flags [reach]:
  "reaches p q \<Longrightarrow> reaches p (q\<lparr>should_suppress_struct_literal := b\<rparr>)"
  "reaches p q \<Longrightarrow> reaches p (q\<lparr>diagnostics := ds\<rparr>)"
  by (simp_all add: reaches_def)

lemma next_token_simps:
  "current_token (next_token p) = peek_token p" "parse_depth (next_token p) = parse_depth p"
  "type_nesting (next_token p) = type_nesting p" "parser_file (next_token p) = parser_file p"
  "should_suppress_struct_literal (next_token p) = should_suppress_struct_literal p"
  "is_in_interpolation (next_token p) = is_in_interpolation p"
  "peek_token (next_token p) = snd (lexer_next_token (parser_lexer p))"
  by (simp_all add: next_token_def Let_def split: prod.splits option.splits)

declare next_token_simps [simp]

lemma next_token_lexer:
  "parser_lexer (next_token p) = fst (lexer_next_token (parser_lexer p))
   \<or> parser_lexer (next_token p) = (fst (lexer_next_token (parser_lexer p)))\<lparr>error_code := None\<rparr>"
  by (simp add: next_token_def Let_def split: prod.splits option.splits)

lemma next_token_ok:
  assumes "parser_ok p"
  shows "reaches p (next_token p)" "token_type (current_token p) \<noteq> TOKEN_END_OF_FILE \<Longrightarrow> tokens_left (next_token p) < tokens_left p"
proof -
  obtain lx t where n: "lexer_next_token (parser_lexer p) = (lx, t)" by fastforce
  have u: "upto (Suc 0) (parser_lexer p)" using assms by (simp add: parser_ok_def)
  have lx: "upto (Suc 0) lx" using upto_next_token [OF u] by (simp add: n)
  note r = next_token_reads [OF n] and m = reads_position [OF u lx]
  have same: "input lx = input (parser_lexer p)" "position (parser_lexer p) \<le> position lx"
    "token_type t \<noteq> TOKEN_END_OF_FILE \<Longrightarrow> position (parser_lexer p) < position lx"
    using r m by blast+
  have bound: "position lx \<le> Suc (length (input lx))" using lx by (simp add: upto_def)
  have lexer: "parser_lexer (next_token p) = lx \<or> parser_lexer (next_token p) = lx\<lparr>error_code := None\<rparr>"
    using next_token_lexer [of p] n by simp
  have ok: "parser_ok (next_token p)"
    using lexer lx same(1) assms string_literal_dollars [OF u n] by (auto simp: parser_ok_def token_ok_def n)
  have left: "tokens_left (next_token p) = (Suc (length (input lx)) - position lx)
      + (if token_type (peek_token p) = TOKEN_END_OF_FILE then 0 else 1) + (if token_type t = TOKEN_END_OF_FILE then 0 else 1)"
    using lexer by (auto simp: tokens_left_def n)
  show "reaches p (next_token p)"
    using ok lexer same bound left by (auto simp: reaches_def tokens_left_def)
  show "token_type (current_token p) \<noteq> TOKEN_END_OF_FILE \<Longrightarrow> tokens_left (next_token p) < tokens_left p"
    using same bound left by (auto simp: tokens_left_def)
qed

lemma reaches_next [reach]: "reaches p q \<Longrightarrow> reaches p (next_token q)"
  using next_token_ok(1) reaches_ok reaches_trans by blast

lemma peek_progress:
  assumes "parser_ok p" "peek_token_is p type" "type \<noteq> TOKEN_END_OF_FILE"
  shows "tokens_left (next_token (next_token p)) < tokens_left p"
proof -
  have "tokens_left (next_token (next_token p)) < tokens_left (next_token p)"
    using assms next_token_ok(1) [OF assms(1)] by (intro next_token_ok(2)) (simp_all add: reaches_ok peek_token_is_def)
  then show ?thesis using next_token_ok(1) [OF assms(1)] by (simp add: reaches_def)
qed

lemma peek_step:
  assumes "reaches p q" "peek_token_is q type" "type \<noteq> TOKEN_END_OF_FILE"
  shows "reaches p (next_token (next_token q))" "parser_ok (next_token (next_token q))"
    "tokens_left (next_token (next_token q)) < tokens_left p" "type_nesting (next_token (next_token q)) = type_nesting p"
    "parse_depth (next_token (next_token q)) = parse_depth p"
    "input (parser_lexer (next_token (next_token q))) = input (parser_lexer p)"
proof -
  show r: "reaches p (next_token (next_token q))" using assms(1) by (intro reaches_next)
  show "parser_ok (next_token (next_token q))" "input (parser_lexer (next_token (next_token q))) = input (parser_lexer p)"
    using r by (simp_all add: reaches_def)
  show "tokens_left (next_token (next_token q)) < tokens_left p"
    using peek_progress [OF reaches_ok [OF assms(1)] assms(2,3)] reaches_same(4) [OF assms(1)] by simp
  show "type_nesting (next_token (next_token q)) = type_nesting p" "parse_depth (next_token (next_token q)) = parse_depth p"
    using assms(1) by (simp_all add: reaches_def)
qed

lemma reaches_expect [reach]: "reaches p q \<Longrightarrow> reaches p (fst (expect_peek_token q type))"
  by (simp add: expect_peek_token_def reach)

lemma reaches_expecting [reach]: "reaches p q \<Longrightarrow> reaches p (fst (expecting type result q))"
  by (simp add: expecting_def reach split: prod.splits) (metis fst_conv reaches_expect)

lemma reaches_if [reach]: "(b \<Longrightarrow> reaches p q) \<Longrightarrow> (\<not> b \<Longrightarrow> reaches p r) \<Longrightarrow> reaches p (if b then q else r)"
  by simp

subsection \<open>Fuel\<close>

text \<open>The first argument counts the iterations of loops, the second the calls of the nested parsers.\<close>

definition converges :: "(nat \<Rightarrow> nat \<Rightarrow> 'a option) \<Rightarrow> 'a \<Rightarrow> bool" where
  "converges f r \<longleftrightarrow> (\<exists>m. \<forall>k \<ge> m. \<forall>n \<ge> m. f k n = Some r)"

lemma converges_Some: "converges (\<lambda>k n. Some r) r"
  by (simp add: converges_def)

lemma converges_bind:
  assumes "converges f r" "converges (\<lambda>k n. g k n r) s"
  shows "converges (\<lambda>k n. Option.bind (f k n) (g k n)) s"
proof -
  obtain m where m: "\<forall>k \<ge> m. \<forall>n \<ge> m. f k n = Some r" using assms(1) by (auto simp: converges_def)
  obtain j where j: "\<forall>k \<ge> j. \<forall>n \<ge> j. g k n r = Some s" using assms(2) by (auto simp: converges_def)
  have "\<forall>k \<ge> max m j. \<forall>n \<ge> max m j. Option.bind (f k n) (g k n) = Some s" using m j by simp
  then show ?thesis unfolding converges_def by blast
qed

lemma converges_Suc: "converges (\<lambda>k n. f (Suc k) n) r \<Longrightarrow> converges f r"
proof -
  assume "converges (\<lambda>k n. f (Suc k) n) r"
  then obtain m where m: "\<forall>k \<ge> m. \<forall>n \<ge> m. f (Suc k) n = Some r" by (auto simp: converges_def)
  have "f k n = Some r" if "Suc m \<le> k" "Suc m \<le> n" for k n using that m by (cases k) auto
  then show ?thesis unfolding converges_def by blast
qed

lemma converges_call:
  assumes "converges f r" "\<And>n. g (Suc n) = f n n"
  shows "converges (\<lambda>k. g) r"
proof -
  obtain m where m: "\<forall>k \<ge> m. \<forall>n \<ge> m. f k n = Some r" using assms(1) by (auto simp: converges_def)
  have "g n = Some r" if "Suc m \<le> n" for n using that m assms(2) by (cases n) auto
  then show ?thesis unfolding converges_def by blast
qed

definition returns :: "parser \<Rightarrow> (nat \<Rightarrow> nat \<Rightarrow> (parser \<times> 'a) option) \<Rightarrow> bool" where
  "returns p f \<longleftrightarrow> (\<exists>q a. converges f (q, a) \<and> reaches p q)"

lemma returns_Some: "reaches p (fst r) \<Longrightarrow> returns p (\<lambda>k n. Some r)"
  by (cases r) (auto simp: returns_def intro: converges_Some)

lemma returns_from: "returns q f \<Longrightarrow> reaches p q \<Longrightarrow> returns p f"
  by (auto simp: returns_def intro: reaches_trans)

lemma returns_bind:
  assumes "returns p f" "\<And>q a. reaches p q \<Longrightarrow> returns p (\<lambda>k n. g k n q a)"
  shows "returns p (\<lambda>k n. Option.bind (f k n) (\<lambda>(q, a). g k n q a))"
proof -
  obtain q a where q: "converges f (q, a)" "reaches p q" using assms(1) by (auto simp: returns_def)
  obtain r b where r: "converges (\<lambda>k n. g k n q a) (r, b)" "reaches p r" using assms(2) [OF q(2), of a] unfolding returns_def by blast
  have "converges (\<lambda>k n. Option.bind (f k n) (\<lambda>(q, a). g k n q a)) (r, b)" using q r by (auto intro: converges_bind)
  then show ?thesis using r(2) by (auto simp: returns_def)
qed

lemma returns_Suc: "returns p (\<lambda>k n. f (Suc k) n) \<Longrightarrow> returns p f"
  by (auto simp: returns_def intro: converges_Suc)

lemma returns_call: "returns p f \<Longrightarrow> (\<And>n. g (Suc n) = f n n) \<Longrightarrow> returns p (\<lambda>k. g)"
  by (auto simp: returns_def intro: converges_call)

lemma returns_if:
  "(b \<Longrightarrow> returns p f) \<Longrightarrow> (\<not> b \<Longrightarrow> returns p g) \<Longrightarrow> returns p (\<lambda>k n. if b then f k n else g k n)"
  by (cases b) simp_all

lemma returns_option:
  "(x = None \<Longrightarrow> returns p f) \<Longrightarrow> (\<And>y. x = Some y \<Longrightarrow> returns p (\<lambda>k n. g k n y))
    \<Longrightarrow> returns p (\<lambda>k n. case x of None \<Rightarrow> f k n | Some y \<Rightarrow> g k n y)"
  by (cases x) simp_all

lemma returns_pair:
  "reaches p (fst x) \<Longrightarrow> (\<And>q a. reaches p q \<Longrightarrow> x = (q, a) \<Longrightarrow> returns p (\<lambda>k n. f k n q a))
    \<Longrightarrow> returns p (\<lambda>k n. case x of (q, a) \<Rightarrow> f k n q a)"
  by (cases x) simp

lemmas returns_intros = returns_bind returns_if returns_option returns_Some

subsection \<open>Annotations of types\<close>

lemma reaches_type_names [reach]:
  "reaches p q \<Longrightarrow> reaches p (fst (read_type_name q))" "reaches p q \<Longrightarrow> reaches p (fst (reject_typed_func_element q))"
  "reaches p q \<Longrightarrow> reaches p (fst (reject_generic_type q))" "reaches p q \<Longrightarrow> reaches p (reject_void q)"
  by (auto simp: read_type_name_def reject_generic_type_def reject_typed_func_element_def reject_void_def Let_def intro!: reach)

text \<open>A parser of nested types, at a level of nesting, and what the functions that call it do.\<close>

locale type_parser =
  fixes types :: "nat \<Rightarrow> string option parsing" and level :: nat
  assumes types_return: "parser_ok p \<Longrightarrow> type_nesting p = level \<Longrightarrow> returns p (\<lambda>k n. types n p)"
begin

lemma types_call: "reaches p q \<Longrightarrow> type_nesting p = level \<Longrightarrow> returns p (\<lambda>k n. types n q)"
  using types_return [of q] by (auto simp: reaches_def intro: returns_from)

lemma bracketed_returns:
  "parser_ok p \<Longrightarrow> type_nesting p = level \<Longrightarrow> returns p (\<lambda>k n. parse_bracketed_type (types n) p)"
  unfolding parse_bracketed_type_def Let_def by (intro returns_pair returns_intros types_call reach | simp add: reach)+

lemma map_returns:
  "parser_ok p \<Longrightarrow> type_nesting p = level \<Longrightarrow> returns p (\<lambda>k n. parse_map_type (types n) p)"
  unfolding parse_map_type_def Let_def by (intro returns_pair returns_intros types_call reach | simp add: reach)+

lemma pointer_returns:
  "parser_ok p \<Longrightarrow> type_nesting p = level \<Longrightarrow> returns p (\<lambda>k n. parse_pointer_type (types n) p)"
  unfolding parse_pointer_type_def Let_def by (intro returns_pair returns_intros types_call reach | simp add: reach)+

lemma parameters_returns:
  "parser_ok p \<Longrightarrow> type_nesting p = level \<Longrightarrow> returns p (\<lambda>k n. parameters_loop k (types n) parameter_list p)"
proof (induction "tokens_left p" arbitrary: p parameter_list rule: less_induct)
  case less
  have again: "returns p (\<lambda>k n. parameters_loop k (types n) l (next_token (next_token q)))"
    if "reaches p q" "peek_token_is q (Operator TOKEN_COMMA)" for q l
    using less.prems peek_step [OF that] by (intro returns_from [OF less.hyps]) simp_all
  show ?case
    by (rule returns_Suc, unfold parameters_loop.simps Let_def)
      (use less.prems in \<open>intro returns_bind returns_if returns_option again returns_Some types_call reach | simp add: reach\<close>)+
qed

lemma return_types_returns:
  "parser_ok p \<Longrightarrow> type_nesting p = level \<Longrightarrow> returns p (\<lambda>k n. returns_loop k (types n) return_list p)"
proof (induction "tokens_left p" arbitrary: p return_list rule: less_induct)
  case less
  have again: "returns p (\<lambda>k n. returns_loop k (types n) l (next_token (next_token q)))"
    if "reaches p q" "peek_token_is q (Operator TOKEN_COMMA)" for q l
    using less.prems peek_step [OF that] by (intro returns_from [OF less.hyps]) simp_all
  show ?case
    by (rule returns_Suc, unfold returns_loop.simps Let_def)
      (use less.prems in \<open>intro returns_bind returns_if returns_option again returns_Some types_call reach | simp add: reach\<close>)+
qed

lemma loops_call:
  assumes "reaches p q" "type_nesting p = level"
  shows "returns p (\<lambda>k n. parameters_loop k (types n) parameter_list q)" "returns p (\<lambda>k n. returns_loop k (types n) return_list q)"
  using assms reaches_same(3) [OF assms(1)]
  by (auto intro!: returns_from [OF parameters_returns] returns_from [OF return_types_returns] reaches_ok)

lemma function_returns:
  "parser_ok p \<Longrightarrow> type_nesting p = level \<Longrightarrow> returns p (\<lambda>k n. parse_function_type k (types n) p)"
  unfolding parse_function_type_def parse_return_list_def Let_def
  by (intro returns_pair returns_intros types_call loops_call reach | simp add: reach split: option.splits)+

end


subsection \<open>All annotations\<close>

lemma within_nesting_returns:
  assumes "parser_ok p"
    "type_nesting p < 64 \<Longrightarrow> returns (p\<lparr>type_nesting := Suc (type_nesting p)\<rparr>) (\<lambda>k n. body k n (p\<lparr>type_nesting := Suc (type_nesting p)\<rparr>))"
  shows "returns p (\<lambda>k n. within_nesting (body k n) p)"
proof (cases "type_nesting p < 64")
  case True
  let ?q = "p\<lparr>type_nesting := Suc (type_nesting p)\<rparr>"
  obtain r a where r: "converges (\<lambda>k n. body k n ?q) (r, a)" "reaches ?q r"
    using assms(2) [OF True] by (auto simp: returns_def)
  have "reaches p (r\<lparr>type_nesting := type_nesting r - 1\<rparr>)"
    using r(2) by (simp add: reaches_def)
  moreover have "converges (\<lambda>k n. within_nesting (body k n) p) (r\<lparr>type_nesting := type_nesting r - 1\<rparr>, a)"
    using True converges_bind [OF r(1), of "\<lambda>k n (q, a). Some (q\<lparr>type_nesting := type_nesting q - 1\<rparr>, a)"]
    by (simp add: within_nesting_def converges_Some)
  ultimately show ?thesis by (auto simp: returns_def)
next
  case False
  then have "\<And>k n. within_nesting (body k n) p
      = Some (report ''E2001'' (Some ''type nesting is too deep; maximum depth is 64'') (current_token p) p, None)"
    by (simp add: within_nesting_def)
  then show ?thesis using assms(1) by (simp add: returns_Some reach)
qed

text \<open>One call, when the nested calls return: those are one level deeper.\<close>

lemma unbounded_returns:
  assumes "parser_ok p"
    "current_starts_map p \<or> current_is_func p \<Longrightarrow> type_parser types (type_nesting p)"
    "\<not> (current_starts_map p \<or> current_is_func p) \<Longrightarrow> type_nesting p < 64 \<Longrightarrow> type_parser types (Suc (type_nesting p))"
  shows "returns p (\<lambda>k n. parse_complex_type_unbounded k (types n) p)"
proof -
  let ?q = "p\<lparr>type_nesting := Suc (type_nesting p)\<rparr>"
  have q: "parser_ok ?q" "reaches ?q (next_token ?q)" using assms(1) by (simp_all add: reach)
  note ok = reaches_ok [OF q(2)]
  have bracketed: "returns p (\<lambda>k n. within_nesting (\<lambda>q. parse_bracketed_type (types n) (next_token q)) p)"
    if n: "\<not> (current_starts_map p \<or> current_is_func p)"
  proof (rule within_nesting_returns [OF assms(1)])
    assume "type_nesting p < 64"
    note t = type_parser.bracketed_returns [OF assms(3) [OF n this] ok]
    show "returns ?q (\<lambda>k n. parse_bracketed_type (types n) (next_token ?q))" by (rule returns_from [OF t q(2)]) simp
  qed
  have pointer: "returns p (\<lambda>k n. within_nesting (\<lambda>q. parse_pointer_type (types n) (next_token q)) p)"
    if n: "\<not> (current_starts_map p \<or> current_is_func p)"
  proof (rule within_nesting_returns [OF assms(1)])
    assume "type_nesting p < 64"
    note t = type_parser.pointer_returns [OF assms(3) [OF n this] ok]
    show "returns ?q (\<lambda>k n. parse_pointer_type (types n) (next_token ?q))" by (rule returns_from [OF t q(2)]) simp
  qed
  have map: "returns p (\<lambda>k n. parse_map_type (types n) p)" if "current_starts_map p"
    using type_parser.map_returns [OF assms(2)] assms(1) that by simp
  have func: "returns p (\<lambda>k n. parse_function_type k (types n) p)" if "current_is_func p"
    using type_parser.function_returns [OF assms(2)] assms(1) that by simp
  have kinds: "current_token_is p (Operator TOKEN_LEFT_BRACKET) \<or> current_token_is p (Operator TOKEN_CARET)
      \<Longrightarrow> \<not> (current_starts_map p \<or> current_is_func p)"
    by (auto simp: current_starts_map_def current_is_func_def current_token_is_def)
  have names: "returns p (\<lambda>k n. let (q, name) = f p in Some (q, Some name))" if "reaches p (fst (f p))" for f :: "parser \<Rightarrow> parser \<times> string"
    using that by (cases "f p") (simp add: returns_Some)
  show ?thesis unfolding parse_complex_type_unbounded_def
    by (intro returns_if bracketed pointer map func names reach assms(1)) (use kinds in blast)+
qed

lemma parse_complex_type_step:
  assumes "parser_ok p" "type_nesting p < 64 \<Longrightarrow> type_parser parse_complex_type (Suc (type_nesting p))"
  shows "returns p (\<lambda>k n. parse_complex_type n p)"
proof -
  let ?q = "p\<lparr>type_nesting := Suc (type_nesting p)\<rparr>"
  have same: "current_starts_map ?q = current_starts_map p" "current_is_func ?q = current_is_func p"
    by (simp_all add: current_starts_map_def current_is_func_def current_token_is_def peek_token_is_def)
  have "returns p (\<lambda>k n. if current_starts_map p \<or> current_is_func p
      then within_nesting (parse_complex_type_unbounded k (parse_complex_type n)) p
      else parse_complex_type_unbounded k (parse_complex_type n) p)"
  proof (rule returns_if)
    assume "current_starts_map p \<or> current_is_func p"
    then show "returns p (\<lambda>k n. within_nesting (parse_complex_type_unbounded k (parse_complex_type n)) p)"
      using assms by (intro within_nesting_returns unbounded_returns) (simp_all add: same)
  next
    assume "\<not> (current_starts_map p \<or> current_is_func p)"
    then show "returns p (\<lambda>k n. parse_complex_type_unbounded k (parse_complex_type n) p)"
      using assms by (intro unbounded_returns) simp_all
  qed
  then show ?thesis by (rule returns_call) simp
qed

lemma parse_complex_type_returns: "parser_ok p \<Longrightarrow> returns p (\<lambda>k n. parse_complex_type n p)"
proof (induction "64 - type_nesting p" arbitrary: p rule: less_induct)
  case less
  have "type_parser parse_complex_type (Suc (type_nesting p))" if "type_nesting p < 64"
    using that less.hyps by unfold_locales simp
  then show ?case using less.prems by (intro parse_complex_type_step)
qed

interpretation types: type_parser parse_complex_type level
  by unfold_locales (rule parse_complex_type_returns)

end
