(* ===== verification/Parser_Termination.thy ===== *)
theory Parser_Termination
  imports Parser_Expressions Parser_Steps
begin

text \<open>
  Every expression is parsed in a bounded number of calls. What is nested in an expression is parsed one
  level deeper, at most \<open>MAX_PARSE_DEPTH\<close> levels; the parser of an interpolation starts again at depth
  zero, on a text that has fewer dollar signs; loops read tokens.
\<close>

subsection \<open>Interpolations are smaller\<close>

lemma dollars_literal_end: "dollars (literal_end quote cs) \<le> dollars cs"
  by (induction quote cs rule: literal_end.induct) auto

lemma dollars_tl: "dollars (tl cs) \<le> dollars cs"
  by (cases cs) simp_all

lemma dollars_expression_end: "dollars (expression_end cs d) \<le> dollars cs"
proof (induction cs d rule: expression_end.induct)
  case (2 c cs d)
  have "dollars (after_literal c cs) \<le> dollars cs"
    using dollars_tl [of "literal_end c cs"] dollars_literal_end [of c cs] by (simp add: after_literal_def)
  then show ?case using 2 by (auto simp: expression_end.simps(2))
qed simp

lemma parser_create_ok:
  assumes "upto (Suc 0) lx"
  shows "parser_ok (parser_create lx f ds)" "input (parser_lexer (parser_create lx f ds)) = input lx"
    "parse_depth (parser_create lx f ds) = 0"
proof -
  let ?blank = "\<lparr>token_type = TOKEN_END_OF_FILE, literal = Text [], token_line = 0, token_column = 0,
      token_file = f, is_preceded_by_whitespace = False\<rparr>"
  let ?p = "\<lparr>parser_lexer = lx, current_token = ?blank, peek_token = ?blank, parser_file = f,
      diagnostics = ds, parse_depth = 0, type_nesting = 0, should_suppress_struct_literal = False, is_in_interpolation = False\<rparr>"
  have "parser_ok ?p" using assms by (simp add: parser_ok_def token_ok_def)
  then have "reaches ?p (parser_create lx f ds)" by (simp add: parser_create_def Let_def reach)
  then show "parser_ok (parser_create lx f ds)" "input (parser_lexer (parser_create lx f ds)) = input lx"
    "parse_depth (parser_create lx f ds) = 0"
    by (simp_all add: reaches_def)
qed

lemma interpolation_lexer_ok:
  "upto (Suc 0) (interpolation_lexer p front text)" "dollars (input (interpolation_lexer p front text)) \<le> dollars text"
proof -
  have "dollars (takeWhile P cs) \<le> dollars cs" for P cs by (induction cs) auto
  moreover have "dollars (input (lexer_create_sized cs f)) \<le> dollars cs" for cs f
    using dollars_take [of INT32_MAX "drop 3 cs"] dollars_take [of INT32_MAX cs] dollars_drop [of 3 cs]
    by (auto simp: lexer_create_sized_def Let_def intro: order_trans)
  ultimately have "dollars (input (lexer_create text (parser_file p))) \<le> dollars text"
    unfolding lexer_create_def by (rule order_trans [rotated])
  then show "dollars (input (interpolation_lexer p front text)) \<le> dollars text"
    by (auto simp: interpolation_lexer_def split: prod.splits)
  show "upto (Suc 0) (interpolation_lexer p front text)"
    using upto_0 [OF upto_create, of "Suc 0" "takeWhile (\<lambda>c. c \<noteq> NUL) text" "parser_file p"]
    by (auto simp: interpolation_lexer_def lexer_create_def upto_def source_byte_def split: prod.splits)
qed

lemma parser_ok_after: "parser_ok ((next_token ^^ k) (parser_create (lexer_create_sized content f) f ds))"
proof (induction k)
  case 0
  then show ?case using parser_create_ok(1) [OF upto_0 [OF upto_create]] by simp
next
  case (Suc k)
  then show ?case using reaches_ok [OF next_token_ok(1)] by simp
qed

lemma returns_fuel:
  assumes "returns p (\<lambda>k n. g n)"
  shows "\<exists>fuel q a. (\<forall>n. g (fuel + n) = Some (q, a)) \<and> reaches p q"
proof -
  obtain q a m where m: "\<forall>k \<ge> m. \<forall>n \<ge> m. g n = Some (q, a)" "reaches p q"
    using assms unfolding returns_def converges_def by blast
  then have "\<forall>n. g (m + n) = Some (q, a)" by auto
  then show ?thesis using m(2) by blast
qed

subsection \<open>Steps of the expressions\<close>

lemma reaches_restore [reach]:
  assumes "parser_ok p"
  shows "reaches p (parser_snapshot_restore (next_token (next_token p)) (parser_snapshot_save p))"
proof -
  have "reaches p (next_token (next_token p))" using assms by (intro reach)
  then show ?thesis using assms
    by (auto simp: reaches_def parser_ok_def token_ok_def tokens_left_def parser_snapshot_restore_def parser_snapshot_save_def
        upto_def source_byte_def Let_def)
qed

lemma reaches_literals [reach]:
  assumes "reaches p q"
  shows "reaches p (fst (parse_char_literal q))" "reaches p (fst (parse_floating_point_literal q))"
    "reaches p (fst (parse_implicit_enum q))" "reaches p (report_gap code q)" "reaches p (fst (argument_name q))"
    "reaches p (report_unexpected q)" "reaches p (report_too_deep t q)" "reaches p (skip_right_brace q)"
    "reaches p (fst (parse_member_expression left q))" "reaches p (fst (parse_postfix_expression left q))"
  using assms
  by (auto simp: parse_char_literal_def decode_char_literal_def decode_escape_def parse_floating_point_literal_def
      parse_implicit_enum_def report_gap_def argument_name_def report_unexpected_def report_too_deep_def skip_right_brace_def
      parse_member_expression_def parse_postfix_expression_def Let_def split: prod.splits if_splits intro!: reach)

definition source_dollars :: "parser \<Rightarrow> nat" where
  "source_dollars p = dollars (input (parser_lexer p))"

definition ready :: "nat \<Rightarrow> nat \<Rightarrow> parser \<Rightarrow> bool" where
  "ready bound depth p \<longleftrightarrow> parser_ok p \<and> source_dollars p = bound \<and> parse_depth p = depth"

lemma ready_reaches: "ready bound depth p \<Longrightarrow> reaches p q \<Longrightarrow> ready bound depth q"
  by (simp add: ready_def reaches_def source_dollars_def)

lemma ready_reach [reach]: "ready bound depth p \<Longrightarrow> reaches p p"
  by (simp add: ready_def reach)

lemma ready_ok: "ready bound depth p \<Longrightarrow> parser_ok p"
  by (simp add: ready_def)

subsection \<open>The parser of expressions\<close>

text \<open>
  A parser of expressions at one depth, and of the interpolations in them. \<open>types\<close> and \<open>expressions\<close> are
  \<open>parse_complex_type\<close> and \<open>parse_expression\<close> on what is nested.
\<close>

locale expression_parser =
  fixes types :: "nat \<Rightarrow> string option parsing" and expressions :: "nat \<Rightarrow> expression_parser" and bound depth :: nat
  assumes types_return: "parser_ok p \<Longrightarrow> returns p (\<lambda>k n. types n p)"
    and expressions_return: "ready bound depth p \<Longrightarrow> returns p (\<lambda>k n. expressions n precedence p)"
    and interpolations_return:
      "parser_ok p \<Longrightarrow> source_dollars p < bound \<Longrightarrow> parse_depth p = 0 \<Longrightarrow> returns p (\<lambda>k n. expressions n precedence p)"
begin

lemma expressions_call: "ready bound depth p \<Longrightarrow> reaches p q \<Longrightarrow> returns p (\<lambda>k n. expressions n precedence q)"
  using expressions_return [OF ready_reaches] by (rule returns_from)

lemma types_call: "reaches p q \<Longrightarrow> returns p (\<lambda>k n. types n q)"
  using types_return [OF reaches_ok] by (rule returns_from)

lemmas expression_intros = returns_pair returns_intros expressions_call types_call reach

subsubsection \<open>Loops\<close>

lemma struct_returns: "ready bound depth p \<Longrightarrow> returns p (\<lambda>k n. struct_loop k (expressions n) field_values p)"
proof (induction "tokens_left p" arbitrary: p field_values rule: less_induct)
  case less
  let ?r = "next_token (next_token p)"
  have "returns p (\<lambda>k n. Option.bind (expressions n PRECEDENCE_LOWEST ?r) (\<lambda>(q, field). struct_loop k (expressions n)
      (field_values @ [(name, field)]) (next_token (if peek_token_is q (Operator TOKEN_COMMA) then next_token q else q))))"
    if "peek_token_is p (Operator TOKEN_COLON)" for name
  proof -
    note r = peek_step [OF ready_reach [OF less.prems] that] 
    have ready: "ready bound depth ?r" using ready_reaches [OF less.prems r(1)] by simp
    have "returns ?r (\<lambda>k n. struct_loop k (expressions n) fs q)" if "reaches ?r q" for q fs
      using less.hyps [of q fs] r(3) reaches_same(4) [OF that] ready_reaches [OF ready that] returns_from [OF _ that] by simp
    then have "returns ?r (\<lambda>k n. Option.bind (expressions n PRECEDENCE_LOWEST ?r) (\<lambda>(q, field). struct_loop k (expressions n)
      (field_values @ [(name, field)]) (next_token (if peek_token_is q (Operator TOKEN_COMMA) then next_token q else q))))"
      using ready by (intro returns_bind expressions_return) (simp_all add: reach)
    then show ?thesis using r(1) by (auto intro: returns_from)
  qed
  note again = this
  show ?case
  proof (cases "peek_token_is p (Operator TOKEN_COLON)")
    case True
    show ?thesis
      by (rule returns_Suc, unfold struct_loop.simps Let_def)
        (use less.prems True again [OF True] in \<open>auto simp: expect_peek_token_def reach intro!: returns_if returns_Some\<close>)
  next
    case False
    show ?thesis
      by (rule returns_Suc, unfold struct_loop.simps Let_def)
        (use less.prems False in \<open>auto simp: expect_peek_token_def reach intro!: returns_if returns_Some\<close>)
  qed
qed

lemma map_returns: "ready bound depth p \<Longrightarrow> returns p (\<lambda>k n. map_loop k (expressions n) entries p)"
proof (induction "tokens_left p" arbitrary: p entries rule: less_induct)
  case less
  let ?r = "next_token (next_token p)"
  show ?case
  proof (cases "peek_token_is p (Operator TOKEN_COMMA)")
    case True
    note r = peek_step [OF ready_reach [OF less.prems] True, simplified]
    have ready: "ready bound depth ?r" using ready_reaches [OF less.prems r(1)] by simp
    have again: "returns ?r (\<lambda>k n. map_loop k (expressions n) es q)" if "reaches ?r q" for q es
      using less.hyps [of q es] r(3) reaches_same(4) [OF that] ready_reaches [OF ready that] returns_from [OF _ that] by simp
    have "returns ?r (\<lambda>k n. map_loop (Suc k) (expressions n) entries p)"
      unfolding map_loop.simps Let_def
      by (simp only: True not_True_eq_False if_False) (use ready ready_ok [OF ready] in \<open>intro again expression_intros | simp add: reach\<close>)+
    then show ?thesis by (intro returns_Suc [OF returns_from [OF _ r(1)]])
  next
    case False
    show ?thesis by (rule returns_Suc) (use less.prems False in \<open>simp add: returns_Some reach\<close>)
  qed
qed

lemma array_returns: "ready bound depth p \<Longrightarrow> returns p (\<lambda>k n. array_loop k (expressions n) elements p)"
proof (induction "tokens_left p" arbitrary: p elements rule: less_induct)
  case less
  let ?r = "next_token (next_token p)"
  show ?case
  proof (cases "peek_token_is p (Operator TOKEN_COMMA)")
    case True
    note r = peek_step [OF ready_reach [OF less.prems] True, simplified]
    have ready: "ready bound depth ?r" using ready_reaches [OF less.prems r(1)] by simp
    have again: "returns ?r (\<lambda>k n. array_loop k (expressions n) es q)" if "reaches ?r q" for q es
      using less.hyps [of q es] r(3) reaches_same(4) [OF that] ready_reaches [OF ready that] returns_from [OF _ that] by simp
    have "returns ?r (\<lambda>k n. array_loop (Suc k) (expressions n) elements p)"
      unfolding array_loop.simps Let_def
      by (simp only: True not_True_eq_False if_False) (use ready ready_ok [OF ready] in \<open>intro again expression_intros | simp add: reach\<close>)+
    then show ?thesis by (intro returns_Suc [OF returns_from [OF _ r(1)]])
  next
    case False
    show ?thesis by (rule returns_Suc) (use less.prems False in \<open>simp add: returns_Some reach\<close>)
  qed
qed

lemma dotted_returns: "ready bound depth p \<Longrightarrow> returns p (\<lambda>k n. dotted_loop k object p)"
proof (induction "tokens_left p" arbitrary: p object rule: less_induct)
  case less
  show ?case
  proof (cases "peek_token_is p (Operator TOKEN_DOT)")
    case True
    note r = peek_step [OF ready_reach [OF less.prems] True, simplified]
    have "returns p (\<lambda>k n. dotted_loop k object' (next_token (next_token p)))" for object'
      using less.hyps [OF r(3) ready_reaches [OF less.prems r(1)]] r(1) by (rule returns_from)
    then show ?thesis by (rule_tac returns_Suc) (simp add: True Let_def)
  next
    case False
    show ?thesis by (rule returns_Suc) (use less.prems False in \<open>simp add: returns_Some reach\<close>)
  qed
qed

lemma argument_returns:
  "ready bound depth p \<Longrightarrow> reaches p q \<Longrightarrow> returns p (\<lambda>k n. parse_argument (types n) (expressions n) callee q)"
  unfolding parse_argument_def by (intro expression_intros | simp add: reach)+

lemma arguments_returns:
  "ready bound depth p \<Longrightarrow> token_type (current_token p) \<noteq> TOKEN_END_OF_FILE
    \<Longrightarrow> returns p (\<lambda>k n. arguments_loop k (types n) (expressions n) callee arguments p)"
proof (induction "tokens_left p" arbitrary: p arguments rule: less_induct)
  case less
  let ?r = "next_token p"
  have r: "reaches p ?r" "tokens_left ?r < tokens_left p" using next_token_ok less.prems by (auto simp: ready_def)
  have ready: "ready bound depth ?r" using ready_reaches [OF less.prems(1) r(1)] .
  have again: "returns ?r (\<lambda>k n. arguments_loop k (types n) (expressions n) callee as (next_token q))"
    if "reaches ?r q" "peek_token_is q (Operator TOKEN_COMMA)" for q as
  proof -
    have q: "reaches ?r (next_token q)" using that(1) by (rule reaches_next)
    have "token_type (current_token (next_token q)) \<noteq> TOKEN_END_OF_FILE" using that(2) by (simp add: peek_token_is_def)
    then show ?thesis
      using less.hyps [of "next_token q" as] r(2) reaches_same(4) [OF q] ready_reaches [OF ready q] returns_from [OF _ q] by simp
  qed
  have "returns ?r (\<lambda>k n. arguments_loop (Suc k) (types n) (expressions n) callee arguments p)"
    unfolding arguments_loop.simps Let_def
    by (use ready ready_ok [OF ready] in \<open>intro again argument_returns returns_pair returns_bind returns_if returns_Some reach | simp add: reach\<close>)+
  then show ?case by (intro returns_Suc [OF returns_from [OF _ r(1)]])
qed

lemma loops_call:
  assumes "ready bound depth p" "reaches p q"
  shows "returns p (\<lambda>k n. struct_loop k (expressions n) field_values q)" "returns p (\<lambda>k n. map_loop k (expressions n) entries q)"
    "returns p (\<lambda>k n. array_loop k (expressions n) elements q)" "returns p (\<lambda>k n. dotted_loop k object q)"
    "token_type (current_token q) \<noteq> TOKEN_END_OF_FILE
      \<Longrightarrow> returns p (\<lambda>k n. arguments_loop k (types n) (expressions n) callee arguments q)"
  using ready_reaches [OF assms] assms(2)
  by (simp_all add: returns_from [OF struct_returns] returns_from [OF map_returns] returns_from [OF array_returns]
      returns_from [OF dotted_returns] returns_from [OF arguments_returns])

subsubsection \<open>Operators\<close>

lemma infix_returns: "ready bound depth p \<Longrightarrow> returns p (\<lambda>k n. parse_infix_expression (expressions n) left p)"
  unfolding parse_infix_expression_def Let_def by (intro expression_intros | simp add: reach ready_ok)+

lemma index_returns: "ready bound depth p \<Longrightarrow> returns p (\<lambda>k n. parse_index_expression (expressions n) left p)"
  unfolding parse_index_expression_def Let_def by (intro expression_intros | simp add: reach ready_ok)+

lemma call_returns:
  assumes "ready bound depth p" "token_type (current_token p) \<noteq> TOKEN_END_OF_FILE"
  shows "returns p (\<lambda>k n. parse_call_expression k (types n) (expressions n) callee p)"
proof -
  have "current_token (report_gap code p) = current_token p" for code by (simp add: report_gap_def)
  then show ?thesis unfolding parse_call_expression_def Let_def
    using assms by (intro returns_if returns_bind returns_Some loops_call(5) reach | simp add: reach ready_ok)+
qed

lemma parse_infix_returns: "ready bound depth p \<Longrightarrow> returns p (\<lambda>k n. parse_infix k (types n) (expressions n) left p)"
  unfolding parse_infix_def Let_def some_node_def
  by (intro returns_if infix_returns call_returns index_returns returns_pair returns_Some reach | simp add: reach ready_ok)+

lemma operators_returns:
  "ready bound depth p \<Longrightarrow> returns p (\<lambda>k n. operators_loop k (types n) (expressions n) precedence chain_length left p)"
proof (induction "257 - chain_length" arbitrary: p chain_length left rule: less_induct)
  case less
  have operand: "returns p (\<lambda>k n. parse_infix k (types n) (expressions n) left (next_token p))"
    using less.prems ready_reaches [OF less.prems] returns_from [OF parse_infix_returns] by (simp add: reach ready_ok)
  have again: "returns p (\<lambda>k n. operators_loop k (types n) (expressions n) precedence (chain_length + 1) l q)"
    if "reaches p q" "\<not> MAX_PARSE_DEPTH < chain_length + 1" for q l
    using less.hyps [of "chain_length + 1" q l] ready_reaches [OF less.prems that(1)] that returns_from
    by (fastforce simp: MAX_PARSE_DEPTH_def)
  show ?case
    by (rule returns_Suc, unfold operators_loop.simps Let_def)
      (use less.prems ready_ok [OF less.prems] in \<open>intro operand again returns_bind returns_if returns_option returns_Some reach | simp add: reach\<close>)+
qed

subsubsection \<open>Prefix expressions\<close>

lemma names_return:
  assumes "ready bound depth p" "reaches p q"
  shows "returns p (\<lambda>k n. parse_struct_literal k (expressions n) name q)" "returns p (\<lambda>k n. parse_name k (expressions n) q)"
proof -
  have struct: "returns p (\<lambda>k n. parse_struct_literal k (expressions n) name q)"
    if "reaches p q" for name q
    unfolding parse_struct_literal_def using assms(1) that by (intro loops_call returns_bind returns_Some reach | simp add: reach ready_ok)+
  show "returns p (\<lambda>k n. parse_struct_literal k (expressions n) name q)" using assms(2) by (rule struct)
  show "returns p (\<lambda>k n. parse_name k (expressions n) q)"
    unfolding parse_name_def Let_def using assms by (intro struct returns_if returns_Some reach | simp add: reach ready_ok)+
qed

lemma names_or_literals_return: "ready bound depth p \<Longrightarrow> returns p (\<lambda>k n. parse_name_or_literal k (expressions n) p)"
  unfolding parse_name_or_literal_def parse_qualified_name_def Let_def
  by (intro names_return returns_if reach | simp add: reach ready_ok)+

lemma keywords_return:
  assumes "ready bound depth p"
  shows "returns p (\<lambda>k n. parse_cast_expression (types n) (expressions n) p)" "returns p (\<lambda>k n. parse_new_expression (types n) p)"
    "returns p (\<lambda>k n. parse_range_expression (expressions n) p)" "returns p (\<lambda>k n. parse_stray_membership (expressions n) p)"
    "reaches p q \<Longrightarrow> returns p (\<lambda>k n. parse_prefix_expression (expressions n) q)"
  unfolding parse_cast_expression_def parse_new_expression_def parse_range_expression_def parse_stray_membership_def
    parse_prefix_expression_def Let_def
  using assms ready_ok [OF assms] by (intro expression_intros | simp add: reach split: option.splits)+

lemma braces_return:
  assumes "ready bound depth p"
  shows "returns p (\<lambda>k n. parse_brace_literal k (expressions n) p)" "returns p (\<lambda>k n. parse_grouped_expression k (expressions n) p)"
  unfolding parse_brace_literal_def parse_grouped_expression_def Let_def
  using assms ready_ok [OF assms] by (intro loops_call expression_intros | simp add: reach split: option.splits)+

subsubsection \<open>Interpolations\<close>

lemma interpolation_returns:
  assumes "ready bound depth p" "dollars text < bound"
  shows "returns p (\<lambda>k n. parse_interpolation (expressions n) p front text)"
proof (cases "is_blank text")
  case True
  then show ?thesis using assms(1) by (simp add: parse_interpolation_def returns_Some reach ready_ok)
next
  case False
  let ?lx = "interpolation_lexer p front text"
  let ?q = "(parser_create ?lx (parser_file p) (diagnostics p))\<lparr>is_in_interpolation := True\<rparr>"
  note create = parser_create_ok [OF interpolation_lexer_ok(1) [of p front "text"], of "parser_file p" "diagnostics p"]
  have "parser_ok ?q" "source_dollars ?q < bound" "parse_depth ?q = 0"
    using create interpolation_lexer_ok(2) [of p front "text"] assms(2) by (simp_all add: parser_ok_def source_dollars_def)
  from interpolations_return [OF this, of PRECEDENCE_LOWEST] obtain q e
    where q: "converges (\<lambda>k n. expressions n PRECEDENCE_LOWEST ?q) (q, e)" by (auto simp: returns_def)
  let ?g = "\<lambda>(q, expression).
      let q = (if expression \<noteq> None \<and> \<not> peek_token_is q TOKEN_END_OF_FILE \<and> \<not> peek_token_is q TOKEN_ILLEGAL
               then report ''E2002'' (Some (take (MESSAGE_BUFFER_SIZE - 1) (''unexpected token '' @ single_quote
                      @ display_name (peek_token q) @ single_quote @ '' in interpolation expression''))) (peek_token q) q
               else q)
      in Some (p\<lparr>diagnostics := diagnostics q\<rparr>, case expression of None \<Rightarrow> [] | Some e \<Rightarrow> [e])"
  obtain r a where r: "?g (q, e) = Some (r, a)" "\<exists>ds. r = p\<lparr>diagnostics := ds\<rparr>" by (auto simp: Let_def)
  have "converges (\<lambda>k n. parse_interpolation (expressions n) p front text) (r, a)"
    using converges_bind [OF q, of "\<lambda>k n. ?g" "(r, a)"] False r(1) unfolding parse_interpolation_def by (simp add: converges_Some)
  moreover have "reaches p r" using r(2) assms(1) by (auto simp: reach ready_ok)
  ultimately show ?thesis by (auto simp: returns_def)
qed

lemma interpolations_loop_returns:
  "ready bound depth p \<Longrightarrow> dollars rest \<le> bound
    \<Longrightarrow> returns p (\<lambda>k n. interpolation_loop (expressions n) raw rest segment parts p)"
proof (induction "length rest" arbitrary: rest segment parts p rule: less_induct)
  case less
  show ?case
  proof (cases rest)
    case Nil
    then show ?thesis using less.prems by (simp add: returns_Some reach ready_ok)
  next
    case (Cons c cs)
    have on: "returns p (\<lambda>k n. interpolation_loop (expressions n) raw rest' segment' parts' q)"
      if "reaches p q" "length rest' \<le> length cs" "dollars rest' \<le> dollars cs" for rest' segment' parts' q
      using less.hyps [of rest' q segment' parts'] that Cons less.prems ready_reaches [OF less.prems(1) that(1)] returns_from [OF _ that(1)]
      by simp
    let ?start = "tl cs"
    let ?stop = "expression_end ?start 1"
    let ?text = "take (length ?start - length ?stop) ?start"
    have stop: "length (tl ?stop) \<le> length cs" "dollars (tl ?stop) \<le> dollars cs"
      using length_expression_end [of ?start 1] dollars_expression_end [of ?start 1] dollars_tl [of ?stop] dollars_tl [of cs] by simp_all
    have inner: "dollars ?text < bound" if "c = CHR ''$''"
      using dollars_take [of _ ?start] dollars_tl [of cs] less.prems(2) that Cons by (fastforce intro: le_less_trans)
    show ?thesis unfolding Cons interpolation_loop.simps(2) Let_def
      using less.prems(1) stop
      by (intro returns_if on returns_bind interpolation_returns inner returns_Some reach | simp add: reach ready_ok dollars_tl)+
  qed
qed

lemma string_returns:
  assumes "ready bound depth p" "token_type (current_token p) = TOKEN_STRING \<or> token_type (current_token p) = TOKEN_RAW_STRING"
  shows "returns p (\<lambda>k n. parse_string_literal (expressions n) p)"
proof -
  have "dollars (token_string (current_token p)) \<le> bound" if "\<not> current_token_is p TOKEN_RAW_STRING"
    using assms that by (auto simp: ready_def parser_ok_def token_ok_def source_dollars_def current_token_is_def)
  then show ?thesis unfolding parse_string_literal_def parse_interpolated_string_def Let_def
    using assms(1) by (intro returns_if returns_bind interpolations_loop_returns returns_Some reach | simp add: reach ready_ok)+
qed

subsubsection \<open>All expressions\<close>

lemma parse_prefix_returns:
  assumes "ready bound depth p"
  shows "returns p (\<lambda>k n. parse_prefix k (types n) (expressions n) p)"
proof -
  have nodes: "returns p (\<lambda>k n. some_node (q, a))" if "reaches p q" for q a
    using that by (simp add: some_node_def returns_Some)
  have made: "returns p (\<lambda>k n. some_node (parse_floating_point_literal p))" "returns p (\<lambda>k n. some_node (parse_char_literal p))"
    "returns p (\<lambda>k n. some_node (parse_implicit_enum p))"
    using nodes reaches_literals(1-3) [OF ready_reach [OF assms]] by (metis prod.collapse)+
  note rules = names_or_literals_return [OF assms] string_returns [OF assms] keywords_return [OF assms] braces_return [OF assms] made
    returns_Some
  show ?thesis unfolding parse_prefix_def
  proof (cases "token_type (current_token p)")
    case (Operator x1)
    then show "returns p (\<lambda>k n. parse_prefix_of (token_type (current_token p)) k (types n) (expressions n) p)"
      using assms by (cases x1) (simp_all add: rules reach ready_ok)
  next
    case (Keyword x2)
    then show "returns p (\<lambda>k n. parse_prefix_of (token_type (current_token p)) k (types n) (expressions n) p)"
      using assms by (cases x2) (simp_all add: rules reach ready_ok)
  qed (use assms in \<open>simp_all add: rules reach ready_ok\<close>)
qed

end

lemma parse_expression_step:
  assumes "parser_ok p"
    "parse_depth p < MAX_PARSE_DEPTH \<Longrightarrow> expression_parser parse_complex_type parse_expression (source_dollars p) (Suc (parse_depth p))"
  shows "returns p (\<lambda>k n. parse_expression n precedence p)"
proof (cases "parse_depth p < MAX_PARSE_DEPTH")
  case True
  note e = assms(2) [OF True]
  let ?p = "p\<lparr>parse_depth := Suc (parse_depth p)\<rparr>"
  have ready: "ready (source_dollars p) (Suc (parse_depth p)) ?p" using assms(1) by (simp add: ready_def source_dollars_def)
  let ?body = "\<lambda>k n. Option.bind (parse_prefix k (parse_complex_type n) (parse_expression n) ?p) (\<lambda>(p, node).
      case node of None \<Rightarrow> Some (p, None)
      | Some left \<Rightarrow> operators_loop k (parse_complex_type n) (parse_expression n) precedence 0 left p)"
  have "returns ?p ?body"
    using ready expression_parser.parse_prefix_returns [OF e] returns_from [OF expression_parser.operators_returns [OF e] ] 
      ready_reaches [OF ready]
    by (intro returns_bind returns_option returns_Some | simp)+
  then obtain r a where r: "converges ?body (r, a)" "reaches ?p r" by (auto simp: returns_def)
  have "converges (\<lambda>k n. Option.bind (?body k n) (\<lambda>(q, node). Some (q\<lparr>parse_depth := parse_depth q - 1\<rparr>, node)))
      (r\<lparr>parse_depth := parse_depth r - 1\<rparr>, a)"
    using converges_bind [OF r(1), of "\<lambda>k n (q, node). Some (q\<lparr>parse_depth := parse_depth q - 1\<rparr>, node)"] by (simp add: converges_Some)
  then have "converges (\<lambda>k n. parse_expression n precedence p) (r\<lparr>parse_depth := parse_depth r - 1\<rparr>, a)"
    by (rule converges_call) (use True in \<open>simp add: parse_expression.simps bind_assoc case_prod_unfold\<close>)
  moreover have "reaches p (r\<lparr>parse_depth := parse_depth r - 1\<rparr>)" using r(2) by (simp add: reaches_def)
  ultimately show ?thesis by (auto simp: returns_def)
next
  case False
  have "returns p (\<lambda>k n. Some (report_too_deep (current_token p) p, None :: ast option))"
    using assms(1) by (simp add: returns_Some reach)
  then show ?thesis by (rule returns_call) (use False in \<open>simp add: parse_expression.simps\<close>)
qed

lemma parse_expression_returns: "parser_ok p \<Longrightarrow> returns p (\<lambda>k n. parse_expression n precedence p)"
proof (induction "(source_dollars p, MAX_PARSE_DEPTH - parse_depth p)" arbitrary: p precedence rule: wf_induct_rule [OF wf_lex_prod [OF wf_less_than wf_less_than]])
  case less: 1
  have "expression_parser parse_complex_type parse_expression (source_dollars p) (Suc (parse_depth p))" if "parse_depth p < MAX_PARSE_DEPTH"
  proof unfold_locales
    show "returns q (\<lambda>k n. parse_complex_type n q)" if "parser_ok q" for q using that by (rule parse_complex_type_returns)
    show "returns q (\<lambda>k n. parse_expression n precedence' q)" if "ready (source_dollars p) (Suc (parse_depth p)) q" for q precedence'
      using that \<open>parse_depth p < MAX_PARSE_DEPTH\<close> by (intro less.hyps) (auto simp: ready_def)
    show "returns q (\<lambda>k n. parse_expression n precedence' q)" if "parser_ok q" "source_dollars q < source_dollars p" for q precedence'
      using that by (intro less.hyps) simp_all
  qed
  then show ?case using less.prems by (intro parse_expression_step)
qed

interpretation expressions: expression_parser parse_complex_type parse_expression bound depth
  by unfold_locales (auto intro: parse_complex_type_returns parse_expression_returns simp: ready_def)

end
