(* ===== verification/Parser_Words.thy ===== *)
theory Parser_Words
  imports Parser_Termination
begin

text \<open>
  The words a parser is about to read, and the parser after them. \<open>spells ts p\<close> says that the tokens of \<open>p\<close>,
  from its current one on, are those of \<open>ts\<close>; only identifiers and numbers are compared by their text.
\<close>

type_synonym word_list = "(TokenType \<times> string) list"

fun spells :: "word_list \<Rightarrow> parser \<Rightarrow> bool" where
  "spells [] p = True"
| "spells ((type, name) # ts) p =
     (token_type (current_token p) = type
      \<and> (type = TOKEN_IDENTIFIER \<or> type = TOKEN_INTEGER_LITERAL \<longrightarrow> token_string (current_token p) = name)
      \<and> spells ts (next_token p))"

definition after :: "nat \<Rightarrow> parser \<Rightarrow> parser" where
  "after n p = (next_token ^^ n) p"

lemma after_simps [simp]: "after 0 p = p" "after (Suc n) p = after n (next_token p)" "after m (after n p) = after (n + m) p"
  by (simp_all add: after_def funpow_Suc_right del: funpow.simps)
    (metis add.commute funpow_add o_apply)

lemma after_pred:
  "0 < n \<Longrightarrow> after (n - Suc 0) (next_token p) = after n p" "0 < n \<Longrightarrow> after (m + (n - Suc 0)) (next_token p) = after (m + n) p"
  by (cases n; simp)+

lemma after_next: "next_token (after n p) = after (Suc n) p"
  by (simp only: after_def funpow.simps o_apply)

lemma after_code [code]: "after n p = (if n = 0 then p else after (n - 1) (next_token p))"
  by (cases n) simp_all

lemma next_after: "next_token (after n p) = after n (next_token p)"
  by (simp only: after_next after_simps(2))

lemma spells_append [simp]: "spells (ts @ us) p \<longleftrightarrow> spells ts p \<and> spells us (after (length ts) p)"
  by (induction ts p rule: spells.induct) auto

text \<open>The flags of a parser do not change what it reads.\<close>

lemma next_token_flags [simp]:
  "next_token (p\<lparr>parse_depth := d\<rparr>) = (next_token p)\<lparr>parse_depth := d\<rparr>"
  "next_token (p\<lparr>type_nesting := d\<rparr>) = (next_token p)\<lparr>type_nesting := d\<rparr>"
  "next_token (p\<lparr>should_suppress_struct_literal := b\<rparr>) = (next_token p)\<lparr>should_suppress_struct_literal := b\<rparr>"
  by (simp_all add: next_token_def report_def Let_def split: prod.splits option.splits)

lemma after_flags [simp]:
  "after n (p\<lparr>parse_depth := d\<rparr>) = (after n p)\<lparr>parse_depth := d\<rparr>"
  "after n (p\<lparr>type_nesting := d\<rparr>) = (after n p)\<lparr>type_nesting := d\<rparr>"
  "after n (p\<lparr>should_suppress_struct_literal := b\<rparr>) = (after n p)\<lparr>should_suppress_struct_literal := b\<rparr>"
  by (induction n arbitrary: p) simp_all

lemma spells_flags [simp]:
  "spells ts (p\<lparr>parse_depth := d\<rparr>) = spells ts p" "spells ts (p\<lparr>type_nesting := d\<rparr>) = spells ts p"
  "spells ts (p\<lparr>should_suppress_struct_literal := b\<rparr>) = spells ts p"
  by (induction ts p rule: spells.induct) simp_all

lemma after_keeps [simp]:
  "parse_depth (after n p) = parse_depth p" "type_nesting (after n p) = type_nesting p"
  "should_suppress_struct_literal (after n p) = should_suppress_struct_literal p"
  by (induction n arbitrary: p) simp_all

text \<open>The type of the token behind \<open>n\<close> tokens.\<close>

definition type_at :: "nat \<Rightarrow> parser \<Rightarrow> TokenType" where
  "type_at n p = token_type (current_token (after n p))"

lemma type_at_current:
  "token_type (current_token p) = type_at 0 p" "token_type (peek_token p) = type_at 1 p"
  "current_token_is p type \<longleftrightarrow> type_at 0 p = type" "peek_token_is p type \<longleftrightarrow> type_at 1 p = type"
  by (simp_all add: type_at_def current_token_is_def peek_token_is_def)

lemma type_at_flags [simp]:
  "type_at n (p\<lparr>parse_depth := d\<rparr>) = type_at n p" "type_at n (p\<lparr>type_nesting := d\<rparr>) = type_at n p"
  "type_at n (p\<lparr>should_suppress_struct_literal := b\<rparr>) = type_at n p"
  by (simp_all add: type_at_def)

lemma type_at_after [simp]: "type_at n (after m p) = type_at (m + n) p"
  by (simp add: type_at_def)

lemma type_at_next [simp]: "type_at n (next_token p) = type_at (Suc n) p"
  by (simp add: type_at_def)

lemma flags_same:
  "should_suppress_struct_literal p = b \<Longrightarrow> p\<lparr>should_suppress_struct_literal := b\<rparr> = p" "parse_depth p = d \<Longrightarrow> p\<lparr>parse_depth := d\<rparr> = p"
  "type_nesting p = d \<Longrightarrow> p\<lparr>type_nesting := d\<rparr> = p"
  by (cases p; simp)+

lemma converges_then:
  assumes "converges f r" "\<And>k n. g k n r = Some s"
  shows "converges (\<lambda>k n. Option.bind (f k n) (g k n)) s"
  using converges_bind [OF assms(1), of g s] by (simp add: assms(2) converges_Some)

end
