(* ===== verification/Expression_Values.thy ===== *)
theory Expression_Values
  imports Parser_Words
begin

text \<open>
  The expressions made of names, prefix operators and infix operators: written with as few parentheses as
  the precedences allow, they are parsed back.
\<close>

datatype written_expression =
    Name_Of string
  | Prefixed TokenType written_expression
  | Operation written_expression TokenType written_expression

fun operators_ok :: "written_expression \<Rightarrow> bool" where
  "operators_ok (Name_Of name) = True"
| "operators_ok (Prefixed type e) = (type \<in> {Operator TOKEN_MINUS, Operator TOKEN_BANG, Keyword TOKEN_BIT_NOT} \<and> operators_ok e)"
| "operators_ok (Operation l type r) = (is_infix_operator type \<and> operators_ok l \<and> operators_ok r)"

definition level :: "TokenType \<Rightarrow> nat" where
  "level type = precedence_number (get_token_precedence type)"

text \<open>
  The tokens of an expression behind an operator of level \<open>outer\<close>, which it has to bind more tightly than:
  the left operand of an operator may have the level of the operator, the right one must not.
\<close>

fun expression_words :: "nat \<Rightarrow> written_expression \<Rightarrow> word_list" where
  "expression_words outer (Name_Of name) = [(TOKEN_IDENTIFIER, name)]"
| "expression_words outer (Prefixed type e) = (type, []) # expression_words 10 e"
| "expression_words outer (Operation l type r) =
     (let ts = expression_words (level type - 1) l @ (type, []) # expression_words (level type) r
      in if outer < level type then ts
         else (Operator TOKEN_LEFT_PARENTHESIS, []) # ts @ [(Operator TOKEN_RIGHT_PARENTHESIS, [])])"

text \<open>The expression that a node stands for.\<close>

fun meaning :: "ast \<Rightarrow> written_expression option" where
  "meaning (Label t (Some name)) = Some (Name_Of name)"
| "meaning (Prefix_Expression t type (Some e)) = map_option (Prefixed type) (meaning e)"
| "meaning (Infix_Expression t l type (Some r)) =
     (case (meaning l, meaning r) of (Some l, Some r) \<Rightarrow> Some (Operation l type r) | _ \<Rightarrow> None)"
| "meaning node = None"

lemma written_not_empty [simp]: "expression_words outer e \<noteq> []"
  by (cases e) (simp_all add: Let_def)

lemma length_written_pos: "0 < length (expression_words outer e)"
  by simp

subsection \<open>The loop over operators\<close>

definition continue ::
  "nat \<Rightarrow> nat \<Rightarrow> Precedence \<Rightarrow> ast_parsing" where
  "continue k n precedence p = Option.bind (parse_prefix k (parse_complex_type n) (parse_expression n) p)
     (\<lambda>(q, node). case node of None \<Rightarrow> Some (q, None)
       | Some left \<Rightarrow> operators_loop k (parse_complex_type n) (parse_expression n) precedence 0 left q)"

text \<open>
  Parsing \<open>e\<close> from \<open>p\<close> comes to the loop over operators with the node of \<open>e\<close>, whatever follows.
\<close>

definition leads_to :: "nat \<Rightarrow> written_expression \<Rightarrow> parser \<Rightarrow> bool" where
  "leads_to outer e p \<longleftrightarrow>
     (\<exists>node j. meaning node = Some e \<and> j \<le> length (expression_words outer e) \<and>
       (\<forall>precedence result. precedence_number precedence \<le> outer \<longrightarrow>
          converges (\<lambda>k n. operators_loop k (parse_complex_type n) (parse_expression n) precedence j node
            (after (length (expression_words outer e) - 1) p)) result
          \<longrightarrow> converges (\<lambda>k n. continue k n precedence p) result))"

text \<open>What may follow an expression: no operator that would bind to its last operand, and no brace.\<close>

definition ends_at :: "nat \<Rightarrow> TokenType \<Rightarrow> bool" where
  "ends_at outer type \<longleftrightarrow> level type \<le> Suc outer \<and> level type \<le> 9 \<and> type \<noteq> Operator TOKEN_LEFT_BRACE"

definition readable :: "nat \<Rightarrow> written_expression \<Rightarrow> parser \<Rightarrow> bool" where
  "readable outer e p \<longleftrightarrow> operators_ok e \<and> outer \<le> 10 \<and> spells (expression_words outer e) p
     \<and> ends_at outer (type_at (length (expression_words outer e)) p) \<and> parse_depth p + length (expression_words outer e) \<le> 256"

lemma continue_from:
  assumes "converges (\<lambda>k n. parse_prefix k (parse_complex_type n) (parse_expression n) p) (q, Some node)"
    "converges (\<lambda>k n. operators_loop k (parse_complex_type n) (parse_expression n) precedence 0 node q) result"
  shows "converges (\<lambda>k n. continue k n precedence p) result"
  using converges_bind [OF assms(1), of _ result] assms(2) by (simp add: continue_def)

lemma leads_to_prefix:
  assumes "converges (\<lambda>k n. parse_prefix k (parse_complex_type n) (parse_expression n) p)
      (after (length (expression_words outer e) - 1) p, Some node)" "meaning node = Some e"
  shows "leads_to outer e p"
  unfolding leads_to_def using assms(2) continue_from [OF assms(1)] by blast

lemma loop_stops:
  assumes "level (type_at 1 p) \<le> precedence_number precedence"
  shows "converges (\<lambda>k n. operators_loop k (parse_complex_type n) (parse_expression n) precedence j node p) (p, Some node)"
  by (rule converges_Suc)
    (use assms in \<open>simp add: type_at_current less_Precedence_def level_def converges_Some\<close>)

text \<open>A whole expression, one level deeper.\<close>

lemma nested_expression:
  assumes "leads_to outer e (p\<lparr>parse_depth := Suc (parse_depth p)\<rparr>)" "parse_depth p < 256" "precedence_number precedence \<le> outer"
    "level (type_at (length (expression_words outer e)) p) \<le> precedence_number precedence"
  obtains node where "meaning node = Some e"
    "converges (\<lambda>k n. parse_expression n precedence p) (after (length (expression_words outer e) - 1) p, Some node)"
proof -
  let ?p = "p\<lparr>parse_depth := Suc (parse_depth p)\<rparr>"
  let ?q = "after (length (expression_words outer e) - 1) ?p"
  obtain node j where node: "meaning node = Some e"
    and loop: "\<And>result. converges (\<lambda>k n. operators_loop k (parse_complex_type n) (parse_expression n) precedence j node ?q) result
        \<Longrightarrow> converges (\<lambda>k n. continue k n precedence ?p) result"
    using assms(1,3) unfolding leads_to_def by blast
  have "level (type_at 1 ?q) \<le> precedence_number precedence" using assms(4) by simp
  from loop [OF loop_stops [OF this]] have body: "converges (\<lambda>k n. continue k n precedence ?p) (?q, Some node)" .
  have "converges (\<lambda>k n. Option.bind (continue k n precedence ?p) (\<lambda>(q, node). Some (q\<lparr>parse_depth := parse_depth q - 1\<rparr>, node)))
      (?q\<lparr>parse_depth := parse_depth ?q - 1\<rparr>, Some node)"
    using converges_bind [OF body, of "\<lambda>k n (q, node). Some (q\<lparr>parse_depth := parse_depth q - 1\<rparr>, node)"] by (simp add: converges_Some)
  moreover have same: "(after m p)\<lparr>parse_depth := parse_depth p\<rparr> = after m p" for m
    by (rule flags_same(2)) simp
  ultimately have "converges (\<lambda>k n. parse_expression n precedence p) (after (length (expression_words outer e) - 1) p, Some node)"
    using assms(2) by (intro converges_call [where f = "\<lambda>k n. Option.bind (continue k n precedence ?p) (\<lambda>(q, node). Some (q\<lparr>parse_depth := parse_depth q - 1\<rparr>, node))"])
      (simp_all add: parse_expression.simps continue_def MAX_PARSE_DEPTH_def bind_assoc case_prod_unfold same)
  then show thesis using that node by blast
qed

subsection \<open>Each kind of expression\<close>

lemma name_leads_to:
  assumes "readable outer (Name_Of name) p"
  shows "leads_to outer (Name_Of name) p"
proof (rule leads_to_prefix)
  have p: "type_at 0 p = TOKEN_IDENTIFIER" "token_string (current_token p) = name"
    "type_at 1 p \<noteq> Operator TOKEN_DOT" "type_at 1 p \<noteq> Operator TOKEN_LEFT_BRACE"
    using assms by (auto simp: readable_def ends_at_def level_def type_at_current)
  then show "converges (\<lambda>k n. parse_prefix k (parse_complex_type n) (parse_expression n) p)
      (after (length (expression_words outer (Name_Of name)) - 1) p, Some (Label (current_token p) (Some name)))"
    by (simp add: parse_prefix_def type_at_current parse_name_or_literal_def parse_name_def parse_identifier_def converges_Some)
qed simp

lemma prefixed_leads_to:
  assumes "readable outer (Prefixed type e) p" "\<And>p. readable 10 e p \<Longrightarrow> leads_to 10 e p"
  shows "leads_to outer (Prefixed type e) p"
proof -
  let ?q = "(next_token p)\<lparr>parse_depth := Suc (parse_depth p)\<rparr>"
  have type: "type \<in> {Operator TOKEN_MINUS, Operator TOKEN_BANG, Keyword TOKEN_BIT_NOT}" "type_at 0 p = type"
    using assms(1) by (auto simp: readable_def type_at_current)
  have ends: "level (type_at (Suc (length (expression_words 10 e))) p) \<le> 9" using assms(1) by (simp add: readable_def ends_at_def)
  have "readable 10 e ?q" using assms(1) by (simp add: readable_def ends_at_def)
  then have "leads_to 10 e ?q" by (rule assms(2))
  moreover have "parse_depth (next_token p) < 256" using assms(1) by (simp add: readable_def)
  ultimately obtain node where node: "meaning node = Some e"
    "converges (\<lambda>k n. parse_expression n PRECEDENCE_PREFIX (next_token p)) (after (length (expression_words 10 e) - 1) (next_token p), Some node)"
    using nested_expression [of 10 e "next_token p" PRECEDENCE_PREFIX] ends by auto
  let ?node = "Prefix_Expression (current_token p) type (Some node)"
  have "converges (\<lambda>k n. parse_prefix_expression (parse_expression n) p) (after (length (expression_words 10 e)) p, Some ?node)"
    unfolding parse_prefix_expression_def
    using converges_bind [OF node(2), of "\<lambda>k n (q, right). Some (q, Some (Prefix_Expression (current_token p) (token_type (current_token p)) right))"]
    type(2) by (simp add: converges_Some type_at_current after_pred)
  then show ?thesis
    using type by (intro leads_to_prefix [of p outer "Prefixed type e" ?node]) (auto simp: parse_prefix_def type_at_current node(1))
qed

lemma first_token: "spells (expression_words outer e) p \<Longrightarrow> operators_ok e \<Longrightarrow> type_at 0 p \<noteq> Operator TOKEN_RIGHT_PARENTHESIS"
  by (induction e arbitrary: outer) (auto simp: type_at_current Let_def split: if_splits)

lemma infix_type: "is_infix_operator type \<Longrightarrow> 0 < level type \<and> level type \<le> 9 \<and> type \<noteq> Operator TOKEN_LEFT_BRACE \<and> type \<noteq> TOKEN_END_OF_FILE"
  by (auto simp: is_infix_operator_def level_def)

lemma operation_leads_to:
  assumes "readable outer (Operation l type r) p" "outer < level type"
    "\<And>outer p. readable outer l p \<Longrightarrow> leads_to outer l p" "\<And>outer p. readable outer r p \<Longrightarrow> leads_to outer r p"
  shows "leads_to outer (Operation l type r) p"
proof -
  let ?l = "length (expression_words (level type - 1) l)" and ?r = "length (expression_words (level type) r)"
  let ?op = "after ?l p"
  have ok: "operators_ok l" "operators_ok r" "is_infix_operator type" using assms(1) by (auto simp: readable_def)
  note type = infix_type [OF ok(3)]
  have spelled: "spells (expression_words (level type - 1) l) p" "type_at ?l p = type" "spells (expression_words (level type) r) (after (Suc ?l) p)"
    using assms(1,2) by (simp_all add: readable_def Let_def type_at_current after_next)
  have size: "parse_depth p + (?l + Suc ?r) \<le> 256" "level (type_at (?l + Suc ?r) p) \<le> level type"
    "ends_at (level type) (type_at (?l + Suc ?r) p)"
    using assms(1,2) by (auto simp: readable_def Let_def ends_at_def)
  have "readable (level type - 1) l p"
    using ok spelled(1,2) type size(1) by (auto simp: readable_def ends_at_def)
  from assms(3) [OF this] obtain left j where left: "meaning left = Some l" "j \<le> ?l"
    and from_left: "\<And>precedence result. precedence_number precedence \<le> level type - 1 \<Longrightarrow>
        converges (\<lambda>k n. operators_loop k (parse_complex_type n) (parse_expression n) precedence j left (after (?l - 1) p)) result
        \<Longrightarrow> converges (\<lambda>k n. continue k n precedence p) result"
    unfolding leads_to_def by blast
  let ?b = "suppresses_struct_literal type \<or> should_suppress_struct_literal p"
  let ?q = "(after (Suc ?l) p)\<lparr>should_suppress_struct_literal := ?b\<rparr>"
  have "readable (level type) r (?q\<lparr>parse_depth := Suc (parse_depth p)\<rparr>)"
    using ok spelled(3) type size by (simp add: readable_def)
  from assms(4) [OF this] have "leads_to (level type) r (?q\<lparr>parse_depth := Suc (parse_depth ?q)\<rparr>)" by simp
  moreover have "parse_depth ?q < 256" "level (type_at ?r ?q) \<le> level type" using size by simp_all
  ultimately obtain right where right: "meaning right = Some r"
    "converges (\<lambda>k n. parse_expression n (get_token_precedence type) ?q) (after (?r - 1) ?q, Some right)"
    using nested_expression [of "level type" r ?q "get_token_precedence type"] unfolding level_def by auto
  let ?node = "Infix_Expression (current_token ?op) left type (Some right)"
  let ?stop = "after (?l + ?r) p"
  have restored: "(after (?r - 1) ?q)\<lparr>should_suppress_struct_literal := should_suppress_struct_literal p\<rparr> = ?stop"
    by (simp add: flags_same after_pred)
  have "converges (\<lambda>k n. parse_infix_expression (parse_expression n) left ?op) (?stop, Some ?node)"
    unfolding parse_infix_expression_def
    using converges_bind [OF right(2), of "\<lambda>k n (q, right). Some (q\<lparr>should_suppress_struct_literal := should_suppress_struct_literal p\<rparr>,
        Some (Infix_Expression (current_token ?op) left type right))" "(?stop, Some ?node)"] spelled(2) restored
    by (cases "suppresses_struct_literal type") (simp_all add: converges_Some type_at_current after_next flags_same Let_def)
  then have infixed: "converges (\<lambda>k n. parse_infix k (parse_complex_type n) (parse_expression n) left ?op) (?stop, Some ?node)"
    using ok(3) spelled(2) by (simp add: parse_infix_def type_at_current)
  have l: "0 < ?l" "0 < ?r" by simp_all
  have step: "next_token (after (?l - 1) p) = ?op" "type_at 1 (after (?l - 1) p) = type"
    using l(1) spelled(2) by (simp_all add: after_next)
  have on: "converges (\<lambda>k n. operators_loop k (parse_complex_type n) (parse_expression n) precedence j left (after (?l - 1) p)) result"
    if "precedence_number precedence \<le> outer"
      "converges (\<lambda>k n. operators_loop k (parse_complex_type n) (parse_expression n) precedence (j + 1) ?node ?stop) result"
    for precedence result
  proof (rule converges_Suc)
    let ?rest = "\<lambda>k n (p, node). case node of None \<Rightarrow> Some (p, None)
        | Some left \<Rightarrow> operators_loop k (parse_complex_type n) (parse_expression n) precedence (j + 1) left p"
    have "converges (\<lambda>k n. Option.bind (parse_infix k (parse_complex_type n) (parse_expression n) left ?op) (?rest k n)) result"
      by (rule converges_bind [OF infixed]) (use that(2) in simp)
    moreover have "\<not> peek_token_is (after (?l - 1) p) TOKEN_END_OF_FILE"
      "precedence < get_token_precedence (token_type (peek_token (after (?l - 1) p)))"
      unfolding type_at_current step(2) using type that(1) assms(2) by (simp_all add: less_Precedence_def level_def)
    moreover have "\<not> MAX_PARSE_DEPTH < j + 1" using left(2) size(1) by (simp add: MAX_PARSE_DEPTH_def)
    ultimately show "converges (\<lambda>k n. operators_loop (Suc k) (parse_complex_type n) (parse_expression n) precedence j left (after (?l - 1) p)) result"
      unfolding operators_loop.simps step(1) by (simp only: simp_thms if_False)
  qed
  have w: "length (expression_words outer (Operation l type r)) = Suc (?l + ?r)" using assms(2) by (simp add: Let_def)
  show ?thesis unfolding leads_to_def w
  proof (intro exI [of _ ?node] exI [of _ "j + 1"] conjI allI impI)
    show "meaning ?node = Some (Operation l type r)" using left(1) right(1) by simp
    show "j + 1 \<le> Suc (?l + ?r)" using left(2) by simp
    fix precedence result
    assume "precedence_number precedence \<le> outer"
      "converges (\<lambda>k n. operators_loop k (parse_complex_type n) (parse_expression n) precedence (j + 1) ?node
         (after (Suc (?l + ?r) - 1) p)) result"
    then show "converges (\<lambda>k n. continue k n precedence p) result"
      using assms(2) by (intro from_left on) simp_all
  qed
qed

lemma group_leads_to:
  assumes "readable outer (Operation l type r) p" "\<not> outer < level type"
    "\<And>p. readable 0 (Operation l type r) p \<Longrightarrow> leads_to 0 (Operation l type r) p"
  shows "leads_to outer (Operation l type r) p"
proof -
  let ?e = "Operation l type r"
  let ?n = "length (expression_words 0 ?e)"
  have "0 < level type" using assms(1) infix_type by (auto simp: readable_def)
  then have w: "expression_words outer ?e = (Operator TOKEN_LEFT_PARENTHESIS, []) # expression_words 0 ?e @ [(Operator TOKEN_RIGHT_PARENTHESIS, [])]"
    using assms(2) by (simp add: Let_def)
  have ok: "operators_ok ?e" "outer \<le> 10" "type_at 0 p = Operator TOKEN_LEFT_PARENTHESIS" "spells (expression_words 0 ?e) (next_token p)"
    "type_at (Suc ?n) p = Operator TOKEN_RIGHT_PARENTHESIS" "parse_depth p + Suc (Suc ?n) \<le> 256"
    using assms(1) unfolding readable_def w by (simp_all add: type_at_current)
  let ?q = "(next_token p)\<lparr>parse_depth := Suc (parse_depth p)\<rparr>"
  have "readable 0 ?e ?q" using ok(1,4-6) by (simp add: readable_def ends_at_def level_def del: expression_words.simps operators_ok.simps)
  from assms(3) [OF this] have "leads_to 0 ?e ((next_token p)\<lparr>parse_depth := Suc (parse_depth (next_token p))\<rparr>)" by simp
  then obtain node where node: "meaning node = Some ?e"
    "converges (\<lambda>k n. parse_expression n PRECEDENCE_LOWEST (next_token p)) (after (?n - 1) (next_token p), Some node)"
    using nested_expression [of 0 ?e "next_token p" PRECEDENCE_LOWEST] ok(5,6) by (auto simp: level_def simp del: expression_words.simps)
  have n: "0 < ?n" by (rule length_written_pos)
  have last: "next_token (after (?n - 1) (next_token p)) = after (Suc ?n) p" "type_at 1 (after (?n - 1) (next_token p)) = Operator TOKEN_RIGHT_PARENTHESIS"
    using n ok(5) by (simp_all add: after_pred after_next del: expression_words.simps)
  have "type_at 1 p \<noteq> Operator TOKEN_RIGHT_PARENTHESIS" using first_token [OF ok(4,1)] by simp
  then have "converges (\<lambda>k n. parse_grouped_expression k (parse_expression n) p) (after (Suc ?n) p, Some node)"
    using converges_bind [OF node(2), of "\<lambda>k n (p, expression). let (p, found) = expect_peek_token p (Operator TOKEN_RIGHT_PARENTHESIS)
        in Some (p, if found then expression else None)" "(after (Suc ?n) p, Some node)"] last
    by (simp add: parse_grouped_expression_def type_at_current expect_peek_token_def converges_Some del: expression_words.simps)
  then show ?thesis
    using ok(3) by (intro leads_to_prefix [of p outer ?e node]) (simp_all add: w node(1) parse_prefix_def type_at_current del: expression_words.simps)
qed

subsection \<open>All of them\<close>

lemma readable_leads_to: "readable outer e p \<Longrightarrow> leads_to outer e p"
proof (induction e arbitrary: outer p)
  case (Name_Of name)
  then show ?case by (rule name_leads_to)
next
  case (Prefixed type e)
  then show ?case by (blast intro: prefixed_leads_to)
next
  case (Operation l type r)
  have tight: "leads_to outer (Operation l type r) p" if "readable outer (Operation l type r) p" "outer < level type" for outer p
    using operation_leads_to [OF that] Operation.IH by blast
  show ?case
  proof (cases "outer < level type")
    case True
    then show ?thesis using tight Operation.prems by blast
  next
    case False
    have "0 < level type" using Operation.prems infix_type by (auto simp: readable_def)
    then show ?thesis using group_leads_to [OF Operation.prems False] tight by blast
  qed
qed

lemma parse_written:
  assumes "operators_ok e" "spells (expression_words 0 e) p" "parse_depth p + length (expression_words 0 e) < 256"
    "level (type_at (length (expression_words 0 e)) p) = 0" "type_at (length (expression_words 0 e)) p \<noteq> Operator TOKEN_LEFT_BRACE"
  shows "\<exists>fuel node. meaning node = Some e
    \<and> (\<forall>n. parse_expression (fuel + n) PRECEDENCE_LOWEST p = Some (after (length (expression_words 0 e) - 1) p, Some node))"
proof -
  have "readable 0 e (p\<lparr>parse_depth := Suc (parse_depth p)\<rparr>)" using assms by (simp add: readable_def ends_at_def)
  then obtain node where node: "meaning node = Some e"
    "converges (\<lambda>k n. parse_expression n PRECEDENCE_LOWEST p) (after (length (expression_words 0 e) - 1) p, Some node)"
    using nested_expression [OF readable_leads_to, of 0 e p PRECEDENCE_LOWEST] assms(3,4) by auto
  then show ?thesis unfolding converges_def by (metis le_add1)
qed

end
