(* ===== verification/Annotation_Values.thy ===== *)
theory Annotation_Values
  imports Parser_Words Type_Pool_Values
begin

text \<open>
  Annotations of types, as they are written, and what the parser makes of them: the spelling that the
  typechecker resolves to a type. A name may be qualified by a module, the size of an array is a number or
  the name of a constant, and a map is written \<open>[K:V]\<close> with any type as key, or \<open>map[K:V]\<close> with a name.
\<close>

datatype annotation =
    Named string
  | Qualified string string
  | Pointer_Type annotation
  | Array_Type annotation
  | Sized_Type annotation TokenType string
  | Map_Type annotation annotation
  | Long_Map_Type annotation annotation

fun annotation_words :: "annotation \<Rightarrow> word_list" where
  "annotation_words (Named name) = [(TOKEN_IDENTIFIER, name)]"
| "annotation_words (Qualified m name) = [(TOKEN_IDENTIFIER, m), (Operator TOKEN_DOT, []), (TOKEN_IDENTIFIER, name)]"
| "annotation_words (Pointer_Type a) = (Operator TOKEN_CARET, []) # annotation_words a"
| "annotation_words (Array_Type a) =
     (Operator TOKEN_LEFT_BRACKET, []) # annotation_words a @ [(Operator TOKEN_RIGHT_BRACKET, [])]"
| "annotation_words (Sized_Type a size_type size_text) =
     (Operator TOKEN_LEFT_BRACKET, []) # annotation_words a
       @ [(Operator TOKEN_COMMA, []), (size_type, size_text), (Operator TOKEN_RIGHT_BRACKET, [])]"
| "annotation_words (Map_Type k v) =
     (Operator TOKEN_LEFT_BRACKET, []) # annotation_words k
       @ (Operator TOKEN_COLON, []) # annotation_words v @ [(Operator TOKEN_RIGHT_BRACKET, [])]"
| "annotation_words (Long_Map_Type k v) =
     (TOKEN_IDENTIFIER, ''map'') # (Operator TOKEN_LEFT_BRACKET, []) # annotation_words k
       @ (Operator TOKEN_COLON, []) # annotation_words v @ [(Operator TOKEN_RIGHT_BRACKET, [])]"

fun annotation_text :: "annotation \<Rightarrow> string" where
  "annotation_text (Named name) = name"
| "annotation_text (Qualified m name) = m @ ''.'' @ name"
| "annotation_text (Pointer_Type a) = spelling (Pointer_to (annotation_text a))"
| "annotation_text (Array_Type a) = spelling (Array_of (annotation_text a))"
| "annotation_text (Sized_Type a size_type size_text) = spelling (Sized_array (annotation_text a) size_text)"
| "annotation_text (Map_Type k v) = spelling (Map_from (annotation_text k) (annotation_text v))"
| "annotation_text (Long_Map_Type k v) = spelling (Map_from (annotation_text k) (annotation_text v))"

text \<open>\<open>map\<close> and \<open>func\<close> start types of their own.\<close>

fun is_name :: "annotation \<Rightarrow> bool" where
  "is_name (Named name) = (name \<noteq> ''map'' \<and> name \<noteq> ''func'')"
| "is_name (Qualified m name) = (m \<noteq> ''map'' \<and> m \<noteq> ''func'')"
| "is_name a = False"

fun names_ok :: "annotation \<Rightarrow> bool" where
  "names_ok (Pointer_Type a) = names_ok a"
| "names_ok (Array_Type a) = names_ok a"
| "names_ok (Sized_Type a size_type size_text) = (names_ok a \<and> (size_type = TOKEN_INTEGER_LITERAL \<or> size_type = TOKEN_IDENTIFIER))"
| "names_ok (Map_Type k v) = (names_ok k \<and> names_ok v)"
| "names_ok (Long_Map_Type k v) = (is_name k \<and> names_ok v)"
| "names_ok a = is_name a"

fun nesting :: "annotation \<Rightarrow> nat" where
  "nesting (Pointer_Type a) = Suc (nesting a)"
| "nesting (Array_Type a) = Suc (nesting a)"
| "nesting (Sized_Type a size_type size_text) = Suc (nesting a)"
| "nesting (Map_Type k v) = Suc (max (nesting k) (nesting v))"
| "nesting (Long_Map_Type k v) = Suc (nesting v)"
| "nesting a = 0"

lemma annotation_words_pos [simp]: "annotation_words a \<noteq> []"
  by (cases a) simp_all

subsection \<open>Steps\<close>

lemma not_func:
  assumes "spells (annotation_words a) p" "names_ok a"
  shows "\<not> current_is_func p"
  using assms by (cases a; auto simp: current_is_func_def current_token_is_def)

lemma plain_start:
  assumes "spells (annotation_words a) p" "names_ok a" "\<forall>k v. a \<noteq> Long_Map_Type k v"
  shows "\<not> current_starts_map p" "\<not> current_is_func p"
  using assms not_func by (cases a; auto simp: current_starts_map_def current_token_is_def)+

lemma converges_types:
  assumes "converges (\<lambda>k n. parse_complex_type_unbounded k (parse_complex_type n) p) r" "\<not> current_starts_map p" "\<not> current_is_func p"
  shows "converges (\<lambda>k n. parse_complex_type n p) r"
  using assms(1) by (rule converges_call) (simp add: assms(2,3))

lemma within_converges:
  assumes "converges (\<lambda>k n. body k n (p\<lparr>type_nesting := Suc (type_nesting p)\<rparr>)) (after m (p\<lparr>type_nesting := Suc (type_nesting p)\<rparr>), a)"
    "type_nesting p < 64"
  shows "converges (\<lambda>k n. within_nesting (body k n) p) (after m p, a)"
proof -
  have same: "(after m p)\<lparr>type_nesting := type_nesting p\<rparr> = after m p" by (rule flags_same(3)) simp
  show ?thesis
    using converges_bind [OF assms(1), of "\<lambda>k n (q, a). Some (q\<lparr>type_nesting := type_nesting q - 1\<rparr>, a)" "(after m p, a)"] assms(2)
    by (simp add: within_nesting_def converges_Some same)
qed

lemma expecting_found: "type_at 1 p = type \<Longrightarrow> expecting type r p = (next_token p, Some r)"
  by (simp add: expecting_def expect_peek_token_def type_at_current)

lemma read_name:
  assumes "spells (annotation_words a) p" "is_name a" "type_at (length (annotation_words a)) p \<noteq> Operator TOKEN_DOT"
  shows "read_type_name p = (after (length (annotation_words a) - 1) p, annotation_text a)"
  using assms by (cases a) (simp_all add: read_type_name_def type_at_current)

definition reads_annotation :: "annotation \<Rightarrow> parser \<Rightarrow> bool" where
  "reads_annotation a p \<longleftrightarrow>
     converges (\<lambda>k n. parse_complex_type n p) (after (length (annotation_words a) - 1) p, Some (annotation_text a))"

lemma reads_name:
  assumes "spells (annotation_words a) p" "is_name a" "type_at (length (annotation_words a)) p \<noteq> Operator TOKEN_DOT"
  shows "reads_annotation a p"
proof -
  have "names_ok a" "\<forall>k v. a \<noteq> Long_Map_Type k v" "type_at 0 p = TOKEN_IDENTIFIER"
    using assms(1,2) by (cases a; simp add: type_at_current)+
  then show ?thesis
    unfolding reads_annotation_def using plain_start [OF assms(1)] read_name [OF assms]
    by (intro converges_types) (simp_all add: parse_complex_type_unbounded_def type_at_current converges_Some)
qed

lemma reads_pointer:
  assumes "spells (annotation_words (Pointer_Type a)) p" "names_ok a" "type_nesting p < 64"
    "reads_annotation a ((next_token p)\<lparr>type_nesting := Suc (type_nesting p)\<rparr>)"
  shows "reads_annotation (Pointer_Type a) p"
proof -
  let ?n = "length (annotation_words a)"
  let ?q = "(next_token p)\<lparr>type_nesting := Suc (type_nesting p)\<rparr>"
  have start: "\<not> current_starts_map p" "\<not> current_is_func p" using plain_start [OF assms(1)] assms(2) by simp_all
  have "converges (\<lambda>k n. parse_pointer_type (parse_complex_type n) ?q) (after (?n - 1) ?q, Some (annotation_text (Pointer_Type a)))"
    unfolding parse_pointer_type_def
    by (rule converges_then [OF assms(4) [unfolded reads_annotation_def]]) simp
  then have "converges (\<lambda>k n. within_nesting (\<lambda>p. parse_pointer_type (parse_complex_type n) (next_token p)) p)
      (after ?n p, Some (annotation_text (Pointer_Type a)))"
    using assms(3) by (intro within_converges) (simp_all add: after_pred)
  then show ?thesis unfolding reads_annotation_def
    using start assms(1) by (intro converges_types) (simp_all add: parse_complex_type_unbounded_def type_at_current)
qed

lemma bracketed_reads:
  assumes "type_at 0 p = Operator TOKEN_LEFT_BRACKET" "type_nesting p < 64"
    "converges (\<lambda>k n. parse_bracketed_type (parse_complex_type n) ((next_token p)\<lparr>type_nesting := Suc (type_nesting p)\<rparr>))
       (after m (p\<lparr>type_nesting := Suc (type_nesting p)\<rparr>), Some text)"
  shows "converges (\<lambda>k n. parse_complex_type n p) (after m p, Some text)"
proof -
  have "converges (\<lambda>k n. within_nesting (\<lambda>p. parse_bracketed_type (parse_complex_type n) (next_token p)) p) (after m p, Some text)"
    using assms(2,3) by (intro within_converges) simp_all
  then show ?thesis using assms(1)
    by (intro converges_types)
      (simp_all add: parse_complex_type_unbounded_def type_at_current current_starts_map_def current_is_func_def)
qed

lemma not_rejected:
  "spells (annotation_words a) p \<Longrightarrow> names_ok a \<Longrightarrow> reject_typed_func_element p = (p, False)"
  using not_func by (simp add: reject_typed_func_element_def)

lemma words_length: obtains m where "length (annotation_words a) = Suc m"
  by (cases "length (annotation_words a)") simp_all

lemma array_brackets:
  assumes "spells (annotation_words a @ [(Operator TOKEN_RIGHT_BRACKET, [])]) p" "names_ok a" "reads_annotation a p"
  shows "converges (\<lambda>k n. parse_bracketed_type (parse_complex_type n) p)
    (after (length (annotation_words a)) p, Some (annotation_text (Array_Type a)))"
proof -
  obtain m where m: "length (annotation_words a) = Suc m" by (rule words_length)
  have r: "type_at (Suc m) p = Operator TOKEN_RIGHT_BRACKET"
    using assms(1) by (simp add: type_at_current m)
  have rejects: "reject_typed_func_element p = (p, False)" using not_rejected [of a p] assms(1,2) by simp
  show ?thesis unfolding parse_bracketed_type_def rejects Let_def prod.case if_False
    by (rule converges_then [OF assms(3) [unfolded reads_annotation_def]])
      (simp add: r m type_at_current expecting_found next_after)
qed

lemma sized_brackets:
  assumes "spells (annotation_words a @ [(Operator TOKEN_COMMA, []), (size_type, size_text), (Operator TOKEN_RIGHT_BRACKET, [])]) p"
    "names_ok (Sized_Type a size_type size_text)" "reads_annotation a p"
  shows "converges (\<lambda>k n. parse_bracketed_type (parse_complex_type n) p)
    (after (length (annotation_words a) + 2) p, Some (annotation_text (Sized_Type a size_type size_text)))"
proof -
  obtain m where m: "length (annotation_words a) = Suc m" by (rule words_length)
  have r: "type_at (Suc m) p = Operator TOKEN_COMMA" "type_at (Suc (Suc m)) p = TOKEN_INTEGER_LITERAL \<or> type_at (Suc (Suc m)) p = TOKEN_IDENTIFIER"
    "token_string (current_token (after m (next_token (next_token p)))) = size_text"
    "type_at (Suc (Suc (Suc m))) p = Operator TOKEN_RIGHT_BRACKET"
    using assms(1,2) by (auto simp: type_at_current m next_after)
  have rejects: "reject_typed_func_element p = (p, False)" using not_rejected [of a p] assms(1,2) by simp
  show ?thesis unfolding parse_bracketed_type_def rejects Let_def prod.case if_False
    by (rule converges_then [OF assms(3) [unfolded reads_annotation_def]])
      (simp add: r m type_at_current expecting_found next_after)
qed

lemma map_brackets:
  assumes "spells (annotation_words key @ (Operator TOKEN_COLON, []) # annotation_words v @ [(Operator TOKEN_RIGHT_BRACKET, [])]) p"
    "names_ok key" "names_ok v" "reads_annotation key p" "reads_annotation v (after (Suc (length (annotation_words key))) p)"
  shows "converges (\<lambda>k n. parse_bracketed_type (parse_complex_type n) p)
    (after (Suc (length (annotation_words key) + length (annotation_words v))) p, Some (annotation_text (Map_Type key v)))"
proof -
  let ?v = "after (Suc (length (annotation_words key))) p"
  obtain i where i: "length (annotation_words key) = Suc i" by (rule words_length)
  obtain j where j: "length (annotation_words v) = Suc j" by (rule words_length)
  have r: "type_at (Suc i) p = Operator TOKEN_COLON" "type_at (Suc (Suc (Suc (i + j)))) p = Operator TOKEN_RIGHT_BRACKET"
    "spells (annotation_words v) ?v"
    using assms(1) by (simp_all add: type_at_current i j next_after)
  have rejects: "reject_typed_func_element p = (p, False)" "reject_typed_func_element ?v = (?v, False)"
    using not_rejected [of key p] not_rejected [of v ?v] assms(1-3) r(3) by simp_all
  have value_part: "converges (\<lambda>k n. Option.bind (parse_complex_type n ?v) (\<lambda>(p, value_text).
      case value_text of None \<Rightarrow> Some (p, None)
      | Some value_text \<Rightarrow> Some (expecting (Operator TOKEN_RIGHT_BRACKET) (''map['' @ annotation_text key @ '':'' @ value_text @ '']'') p)))
    (after (Suc (length (annotation_words key) + length (annotation_words v))) p, Some (annotation_text (Map_Type key v)))"
    by (rule converges_then [OF assms(5) [unfolded reads_annotation_def]])
      (simp add: r(2) i j expecting_found next_after)
  show ?thesis unfolding parse_bracketed_type_def rejects(1) Let_def prod.case if_False
    by (rule converges_bind [OF assms(4) [unfolded reads_annotation_def]])
      (use value_part rejects(2) in \<open>simp add: r(1) i type_at_current next_after cong: option.case_cong\<close>)
qed

text \<open>\<open>map[K:V]\<close>, behind the two tokens that open it.\<close>

lemma map_rest:
  assumes "spells (annotation_words (Long_Map_Type key v)) p" "is_name key" "names_ok v"
    "reads_annotation v (after (length (annotation_words key) + 3) p)"
  shows "converges (\<lambda>k n. parse_map_type (parse_complex_type n) p)
    (after (length (annotation_words (Long_Map_Type key v)) - 1) p, Some (annotation_text (Long_Map_Type key v)))"
proof -
  let ?v = "after (length (annotation_words key) + 3) p"
  obtain i where i: "length (annotation_words key) = Suc i" by (rule words_length)
  obtain j where j: "length (annotation_words v) = Suc j" by (rule words_length)
  have r: "type_at (i + 3) p = Operator TOKEN_COLON" "type_at (i + (j + 5)) p = Operator TOKEN_RIGHT_BRACKET"
    "spells (annotation_words v) ?v" "spells (annotation_words key) (next_token (next_token p))"
    using assms(1) by (simp_all add: type_at_current i j next_after numeral_eq_Suc)
  have key: "read_type_name (next_token (next_token p)) = (after (i + 2) p, annotation_text key)"
    using read_name [OF r(4) assms(2)] r(1) by (simp add: i numeral_eq_Suc)
  have rejects: "reject_typed_func_element ?v = (?v, False)" using not_rejected [of v ?v] assms(3) r(3) by simp
  have found: "expect_peek_token (after (i + 2) p) (Operator TOKEN_COLON) = (after (i + 3) p, True)"
    using r(1) by (simp add: expect_peek_token_def type_at_current next_after numeral_eq_Suc)
  have value_part: "converges (\<lambda>k n. Option.bind (parse_complex_type n ?v) (\<lambda>(p, value_text).
      case value_text of None \<Rightarrow> Some (p, None)
      | Some value_text \<Rightarrow> Some (expecting (Operator TOKEN_RIGHT_BRACKET) (''map['' @ annotation_text key @ '':'' @ value_text @ '']'') p)))
    (after (length (annotation_words (Long_Map_Type key v)) - 1) p, Some (annotation_text (Long_Map_Type key v)))"
    by (rule converges_then [OF assms(4) [unfolded reads_annotation_def]])
      (use r(2) in \<open>simp add: i j expecting_found next_after numeral_eq_Suc\<close>)
  have "next_token (after (i + 3) p) = ?v" by (simp add: i next_after numeral_eq_Suc)
  then show ?thesis using value_part
    unfolding parse_map_type_def Let_def key prod.case found by (simp add: rejects cong: option.case_cong)
qed

lemma reads_long_map:
  assumes "spells (annotation_words (Long_Map_Type key v)) p" "is_name key" "names_ok v" "type_nesting p < 64"
    "reads_annotation v ((after (length (annotation_words key) + 3) p)\<lparr>type_nesting := Suc (type_nesting p)\<rparr>)"
  shows "reads_annotation (Long_Map_Type key v) p"
proof -
  let ?p = "p\<lparr>type_nesting := Suc (type_nesting p)\<rparr>"
  let ?r = "(after (length (annotation_words (Long_Map_Type key v)) - 1) p, Some (annotation_text (Long_Map_Type key v)))"
  have start: "current_starts_map p" "current_starts_map ?p" "type_at 0 p = TOKEN_IDENTIFIER"
    using assms(1) by (simp_all add: current_starts_map_def type_at_current)
  have "converges (\<lambda>k n. parse_map_type (parse_complex_type n) ?p)
      (after (length (annotation_words (Long_Map_Type key v)) - 1) ?p, Some (annotation_text (Long_Map_Type key v)))"
    using assms by (intro map_rest) (simp_all del: annotation_words.simps)
  then have "converges (\<lambda>k n. within_nesting (parse_complex_type_unbounded k (parse_complex_type n)) p) ?r"
    using assms(4) start by (intro within_converges) (simp_all add: parse_complex_type_unbounded_def type_at_current)
  then show ?thesis unfolding reads_annotation_def
    by (rule converges_call) (simp add: start(1))
qed

subsection \<open>All annotations\<close>

lemma spelled_annotation:
  "spells (annotation_words a) p \<Longrightarrow> names_ok a \<Longrightarrow> type_nesting p + nesting a \<le> 64
    \<Longrightarrow> type_at (length (annotation_words a)) p \<noteq> Operator TOKEN_DOT \<Longrightarrow> reads_annotation a p"
proof (induction a arbitrary: p)
  case (Named name)
  then show ?case by (intro reads_name) simp_all
next
  case (Qualified m name)
  then show ?case by (intro reads_name) simp_all
next
  case (Pointer_Type a)
  let ?q = "(next_token p)\<lparr>type_nesting := Suc (type_nesting p)\<rparr>"
  have "reads_annotation a ?q" using Pointer_Type.prems by (intro Pointer_Type.IH) simp_all
  then show ?case using Pointer_Type.prems by (intro reads_pointer) simp_all
next
  case (Array_Type a)
  let ?q = "(next_token p)\<lparr>type_nesting := Suc (type_nesting p)\<rparr>"
  have "reads_annotation a ?q" using Array_Type.prems by (intro Array_Type.IH) (simp_all add: type_at_def)
  note inner = array_brackets [OF _ _ this]
  show ?case unfolding reads_annotation_def
    using Array_Type.prems by (intro bracketed_reads) (simp_all add: type_at_current inner [simplified])
next
  case (Sized_Type a size_type size_text)
  let ?q = "(next_token p)\<lparr>type_nesting := Suc (type_nesting p)\<rparr>"
  have "reads_annotation a ?q" using Sized_Type.prems by (intro Sized_Type.IH) (simp_all add: type_at_def)
  then have "converges (\<lambda>k n. parse_bracketed_type (parse_complex_type n) ?q)
      (after (length (annotation_words a) + 2) ?q, Some (annotation_text (Sized_Type a size_type size_text)))"
    using Sized_Type.prems(1,2) by (intro sized_brackets) simp_all
  then show ?case unfolding reads_annotation_def
    using Sized_Type.prems by (intro bracketed_reads) (simp_all add: type_at_current)
next
  case (Map_Type key v)
  let ?q = "(next_token p)\<lparr>type_nesting := Suc (type_nesting p)\<rparr>"
  have "reads_annotation key ?q" using Map_Type.prems by (intro Map_Type.IH) (simp_all add: type_at_def next_after)
  moreover have "reads_annotation v (after (Suc (length (annotation_words key))) ?q)"
    using Map_Type.prems by (intro Map_Type.IH) (simp_all add: type_at_def next_after)
  ultimately have "spells (annotation_words key @ (Operator TOKEN_COLON, []) # annotation_words v @ [(Operator TOKEN_RIGHT_BRACKET, [])]) ?q \<Longrightarrow>
      converges (\<lambda>k n. parse_bracketed_type (parse_complex_type n) ?q)
        (after (Suc (length (annotation_words key) + length (annotation_words v))) ?q, Some (annotation_text (Map_Type key v)))"
    using Map_Type.prems(2) by (intro map_brackets) (simp_all add: next_after)
  then show ?case unfolding reads_annotation_def
    using Map_Type.prems by (intro bracketed_reads) (simp_all add: type_at_current next_after)
next
  case (Long_Map_Type key v)
  let ?q = "(after (length (annotation_words key) + 3) p)\<lparr>type_nesting := Suc (type_nesting p)\<rparr>"
  have "reads_annotation v ?q"
    using Long_Map_Type.prems by (intro Long_Map_Type.IH) (simp_all add: type_at_def next_after numeral_eq_Suc)
  then show ?case using Long_Map_Type.prems by (intro reads_long_map) simp_all
qed

lemma parse_annotation:
  assumes "spells (annotation_words a) p" "names_ok a" "type_nesting p + nesting a \<le> 64"
    "type_at (length (annotation_words a)) p \<noteq> Operator TOKEN_DOT"
  shows "\<exists>fuel. \<forall>n. parse_complex_type (fuel + n) p = Some (after (length (annotation_words a) - 1) p, Some (annotation_text a))"
  using spelled_annotation [OF assms] unfolding reads_annotation_def converges_def by (metis le_add1)

subsection \<open>The type an annotation names\<close>

fun spelled_of :: "annotation \<Rightarrow> spelled option" where
  "spelled_of (Named name) = None"
| "spelled_of (Qualified m name) = None"
| "spelled_of (Pointer_Type a) = Some (Pointer_to (annotation_text a))"
| "spelled_of (Array_Type a) = Some (Array_of (annotation_text a))"
| "spelled_of (Sized_Type a size_type size_text) = Some (Sized_array (annotation_text a) size_text)"
| "spelled_of (Map_Type k v) = Some (Map_from (annotation_text k) (annotation_text v))"
| "spelled_of (Long_Map_Type k v) = Some (Map_from (annotation_text k) (annotation_text v))"

lemma spelled_of_text: "spelled_of a = Some s \<Longrightarrow> spelling s = annotation_text a"
  by (cases a) auto

text \<open>Names without the punctuation of types; a key has no colon, so that it is no map.\<close>

fun plain_names :: "annotation \<Rightarrow> bool" where
  "plain_names (Named name) = (name \<noteq> [] \<and> list_all (\<lambda>c. c \<notin> set ''(),:[]'') name)"
| "plain_names (Qualified m name) = (list_all (\<lambda>c. c \<notin> set ''(),:[]'') m \<and> list_all (\<lambda>c. c \<notin> set ''(),:[]'') name)"
| "plain_names (Pointer_Type a) = plain_names a"
| "plain_names (Array_Type a) = plain_names a"
| "plain_names (Sized_Type a size_type size_text) = (plain_names a \<and> list_all (\<lambda>c. c \<notin> set ''(),:[]'') size_text)"
| "plain_names (Map_Type k v) = (plain_names k \<and> plain_names v \<and> CHR '':'' \<notin> set (annotation_text k))"
| "plain_names (Long_Map_Type k v) = (plain_names k \<and> plain_names v \<and> CHR '':'' \<notin> set (annotation_text k))"

lemma plain_comma:
  "list_all (\<lambda>c. c \<notin> set ''(),:[]'') name \<Longrightarrow> 0 \<le> d
    \<Longrightarrow> comma_loop (name @ rest) i d = comma_loop rest (i + length name) d"
  by (induction name arbitrary: i) (simp_all add: depth_after_def)

lemma annotation_comma:
  "plain_names a \<Longrightarrow> 0 \<le> d \<Longrightarrow> comma_loop (annotation_text a @ rest) i d = comma_loop rest (i + length (annotation_text a)) d"
  by (induction a arbitrary: d rest i) (simp_all add: depth_after_def plain_comma add.assoc)

lemma annotation_text_pos: "plain_names a \<Longrightarrow> annotation_text a \<noteq> []"
  by (cases a) simp_all

lemma annotation_spelled_ok:
  assumes "plain_names a" "spelled_of a = Some s"
  shows "spelled_ok s"
proof -
  have "comma_loop (annotation_text e) 0 0 = None" if "plain_names e" for e
    using annotation_comma [OF that, of 0 "[]" 0] by simp
  moreover have "comma_loop (annotation_text e @ CHR '','' # r) 0 0 = Some (length (annotation_text e))" if "plain_names e" for e r
    using annotation_comma [OF that, of 0 "CHR '','' # r" 0] by simp
  ultimately show ?thesis using assms by (cases a) (auto simp: type_top_level_comma_def annotation_text_pos)
qed

lemma annotation_type:
  assumes "plain_names a" "spelled_of a = Some s" "pool_ok pool" "distinct_type_named pool (annotation_text a) = None"
  shows "\<exists>pool' r. type_from_name pool (Some (annotation_text a)) = Some (pool', r) \<and> deref pool' r = spelled_type s"
proof -
  obtain pool' r where r: "type_from_name pool (Some (spelling s)) = Some (pool', r)" using type_from_name_ok [OF assms(3)] by blast
  show ?thesis using resolve_spelled [OF assms(3) annotation_spelled_ok [OF assms(1,2)] _ r] assms(4) r spelled_of_text [OF assms(2)] by auto
qed

end
