(* ===== verification/Spec2Isabelle.thy ===== *)
theory Spec2Isabelle
  imports Wide_Text Wide_Checked Token_Places Checked_Int Maps Array_Hashing Channels Encoding_Values
    Type_Rules Scopes Type_Name_Values Literal_Values Expression_Values Annotation_Values
    "HOL-Library.Code_Target_Nat"
begin

text \<open>
  Verification of the Grayscale compiler's front end, of its types and name tables, and of the data its
  compiled programs compute with: wide integers, checked machine arithmetic, UTF-8, arrays, hash maps, and
  the standard library modules over them. The repository is \<open>src/grayc/src\<close>.

  \<^bold>\<open>Wide integers\<close> (\<open>runtime/bigint.h\<close>). The source repeats each body once per type, and the model has it
  once, over limbs or over a record of the type's functions: \<open>Limbs\<close> (limb loops), \<open>Long_Division\<close> (the
  shift and subtract loop), \<open>Wide_Ops\<close> (the bodies of the checked operations and of signed division).
  \<open>Wide128\<close> and \<open>Wide256\<close> hold the types as records and their operations; \<open>Wide128_Values\<close>,
  \<open>Wide256_Values\<close> and \<open>Wide_Checked\<close> show that they compute on the integers the limbs denote, exactly,
  modulo the width, or to a panic. \<open>Decimal_Text\<close> and \<open>Wide_Text\<close> parse and print; \<open>Word_Bits\<close>,
  \<open>Wide_Bitwise\<close>, \<open>Wide_Bitwise_Values\<close> and \<open>Size_Casts\<close> are the shifts, masks and casts; \<open>Wide_Ranges\<close>
  and \<open>Range_Values\<close> the stored ranges.

  \<^bold>\<open>Machine arithmetic\<close> (\<open>runtime/runtime.h\<close>): \<open>Checked_Int\<close>, the overflow tests of both compilers and
  the checks built on them.

  \<^bold>\<open>Front end.\<close> \<open>Utf8\<close> (\<open>stdlib/utf8.h\<close>), \<open>Token\<close> (\<open>lexer/token.c\<close>), \<open>Lexer\<close>, \<open>Lexer_Literals\<close>,
  \<open>Lexer_Strings\<close> and \<open>Lexer_Tokens\<close> (\<open>lexer/lexer.c\<close>), a state passing model of the \<open>Lexer\<close> struct.
  \<open>Lexer_Bounds\<close> shows that it stays within its source, \<open>Lexer_Progress\<close> and \<open>Token_Stream\<close> that it ends,
  \<open>Token_Places\<close> that a token is placed where its text begins, behind the white space and the comments in
  front of it, and \<open>Lexer_Values\<close> what the literals are.

  \<open>Parser\<close>, \<open>Parser_Literals\<close> and \<open>Parser_Expressions\<close> (\<open>parser/parser.c\<close>, \<open>parser/ast.h\<close>) are the parser
  up to expressions: its tokens, snapshots and precedences, the annotations of types, literals, interpolated
  strings and every form of expression, with the diagnostics in the order they are reported.
  \<open>Literal_Values\<close> shows what integer literals denote. \<open>String_Tokens\<close>, \<open>Parser_Steps\<close> and
  \<open>Parser_Termination\<close> show that parsing ends on any source; the locales \<open>type_parser\<close> and
  \<open>expression_parser\<close> state what the parsing functions rely on of the nested calls, and the parsers of types
  and of expressions interpret them. Over \<open>Parser_Words\<close>, the tokens ahead of a parser, \<open>Expression_Values\<close>
  shows that operators group as their precedences say, and \<open>Annotation_Values\<close> that an annotation is read as
  the spelling that \<open>Type_Pool\<close> resolves to the type that was written.

  \<^bold>\<open>Runtime containers.\<close> \<open>Float_Bits\<close> reads the bits of floats by IEEE 754; \<open>Elements\<close> is the part of
  \<open>runtime/array.c\<close> that compares, hashes and adds elements by their kind, and \<open>Element_Values\<close> its
  meaning. \<open>Gray_Map\<close> is \<open>runtime/map.c\<close>; \<open>Map_Probing\<close>, \<open>Map_Invariant\<close> and \<open>Map_Operations\<close> show that
  the hash table is an insertion-ordered association list. \<open>Gray_Array\<close> is the dynamic array. \<open>Interfaces\<close>
  states what clients rely on as the locales \<open>vector\<close>, \<open>lookup_map\<close>, \<open>growing_map\<close>, \<open>ordered_map\<close> and
  \<open>bounded_queue\<close>, which the arrays, the maps, the scopes and the channels interpret.

  \<^bold>\<open>Standard library.\<close> \<open>Introsort\<close> is the sort that \<open>stdlib/arrays.c\<close> instantiates by macro for each
  element type; \<open>Introsort_Values\<close> proves, inside a locale over the test, that no scan leaves the array and
  that the range ends up in order. \<open>Arrays\<close>, \<open>Array_Sort\<close> and \<open>Array_Hashing\<close> are the module's functions,
  \<open>Array_Values\<close> what those of the first do to the list. \<open>Maps\<close> is \<open>stdlib/maps.c\<close>, a client of both.

  \<open>Channels\<close> is \<open>stdlib/channels.c\<close>: what each function does while it holds the mutex, and an inductive
  step relation that interleaves such turns of any number of threads, with signals that wake one or more
  waiting threads and spurious wake-ups. \<open>Encoding\<close> is \<open>stdlib/encoding.c\<close> and \<open>Encoding_Values\<close> its round
  trips; \<open>shell_words\<close> there is how a POSIX shell splits a line into words.

  \<^bold>\<open>Typechecker tables.\<close> \<open>Probing\<close> is open addressing as the source writes it for each of its tables, with
  the tables that only grow; \<open>Name_Index\<close> the index of names beside an array, used by \<open>Scopes\<close>
  (\<open>typechecker/scope.c\<close>) and \<open>Modules\<close> (\<open>typechecker/module_table.c\<close>: modules, declarations, aliases, the
  resolution of names). \<open>Module_Values\<close> shows that the four kinds of index of the module table answer what
  was declared, \<open>Module_Resolution\<close> what the resolvers return. \<open>Type_Names\<close> resolves the names within the
  spelling of a type, with the buffers of 256 bytes that cut it, and \<open>Type_Name_Values\<close> shows what a
  spelling that fits becomes, over the description of spellings by their parts. \<open>Types\<close> (\<open>typechecker/types.c\<close>, \<open>types.h\<close>)
  holds the kinds, the conversions and the results of operators, and \<open>Type_Rules\<close> what they mean for the
  values of the types; \<open>Type_Pool\<close> the pool that makes types unique and the reading of their names, and
  \<open>Type_Pool_Values\<close> that it does.

  \<^bold>\<open>Conventions.\<close> A C function that can panic returns \<open>string + 'a\<close>, the code of the panic or the result;
  \<open>exact_or_panic val lo hi code k r\<close> says that \<open>r\<close> is \<open>k\<close> when it lies in \<open>[lo, hi)\<close> and the panic otherwise.
  Machine integers are words, except sizes and indices that the bounds of a theorem keep in range. The
  arenas are below the model: memory is never exhausted and containers are values, so that the aliasing
  of two containers with one store is not expressed.

  \<^bold>\<open>Fuel.\<close> The lexer's loops are structural in the bytes left; reading a whole source takes two more calls
  than it has bytes. \<open>gray_map_set\<close> and \<open>map_rebuild\<close> call each other: a rebuild leaves room for all
  entries, so that the calls below it rebuild nothing and two levels are enough. A probe that finds no
  free slot is \<open>None\<close>, and so is a loop that doubles a capacity for ever: both are shown not to happen.
  Each function of the parser has one fuel, which bounds its own loop and the nesting of the calls below.
  Some fuel is enough for each source: loops read tokens, calls nest 256 levels deep, types 64, and the
  parser of an interpolation works on a text with fewer dollar signs. \<open>module_resolve_type_name\<close> calls itself
  on the parts of a spelling; more fuel than the spelling has parts is enough.

  \<^bold>\<open>Bounds.\<close> The lengths and counts that C keeps in \<open>int32_t\<close> or \<open>int\<close> are natural numbers in the models of the
  encodings and of the name tables; they agree below \<open>2 ^ 30\<close> bytes or names.

  \<^bold>\<open>Not modelled.\<close> The statements and declarations of the parser, the checks of the typechecker and the code
  generator, whose meaning is a statement about the whole language; conversions that round to a double; panic output, files, processes and
  sockets; the third-party libraries the source calls.
\<close>

section \<open>Wide integers\<close>

text \<open>C1: checked addition and subtraction of the four wide integer types return the exact result
  when it lies in the type's range and raise the type's overflow panic exactly when it does not.\<close>

theorem wide_add_sub_checked:
  "exact_or_panic i128_int (- (2 ^ 127)) (2 ^ 127) ''P0021'' (i128_int a + i128_int b) (gray_i128_add_checked a b)
   \<and> exact_or_panic i128_int (- (2 ^ 127)) (2 ^ 127) ''P0022'' (i128_int a - i128_int b) (gray_i128_sub_checked a b)
   \<and> exact_or_panic u128_int 0 (2 ^ 128) ''P0024'' (u128_int c + u128_int d) (gray_u128_add_checked c d)
   \<and> exact_or_panic u128_int 0 (2 ^ 128) ''P0025'' (u128_int c - u128_int d) (gray_u128_sub_checked c d)
   \<and> exact_or_panic i256_int (- (2 ^ 255)) (2 ^ 255) ''P0027'' (i256_int e + i256_int f) (gray_i256_add_checked e f)
   \<and> exact_or_panic i256_int (- (2 ^ 255)) (2 ^ 255) ''P0028'' (i256_int e - i256_int f) (gray_i256_sub_checked e f)
   \<and> exact_or_panic u256_int 0 (2 ^ 256) ''P0030'' (u256_int g + u256_int h) (gray_u256_add_checked g h)
   \<and> exact_or_panic u256_int 0 (2 ^ 256) ''P0031'' (u256_int g - u256_int h) (gray_u256_sub_checked g h)"
  unfolding gray_i128_add_checked_def gray_i128_sub_checked_def gray_u128_add_checked_def
    gray_u128_sub_checked_def gray_i256_add_checked_def gray_i256_sub_checked_def
    gray_u256_add_checked_def gray_u256_sub_checked_def
  by (intro conjI i128.sadd_checked i128.ssub_checked u128.add_checked u128.sub_checked
      i256.sadd_checked i256.ssub_checked u256.add_checked u256.sub_checked)

text \<open>C2: checked multiplication is exact or raises the type's panic, for the unsigned types on
  all operands and for the signed ones on all but the product of the minimum and \<open>-1\<close>.\<close>

theorem wide_mul_checked:
  assumes "\<not> (i128_int a = - (2 ^ 127) \<and> i128_int b = - 1)"
    and "\<not> (i256_int e = - (2 ^ 255) \<and> i256_int f = - 1)"
  shows "exact_or_panic i128_int (- (2 ^ 127)) (2 ^ 127) ''P0023'' (i128_int a * i128_int b) (gray_i128_mul_checked a b)
    \<and> exact_or_panic u128_int 0 (2 ^ 128) ''P0026'' (u128_int c * u128_int d) (gray_u128_mul_checked c d)
    \<and> exact_or_panic i256_int (- (2 ^ 255)) (2 ^ 255) ''P0029'' (i256_int e * i256_int f) (gray_i256_mul_checked e f)
    \<and> exact_or_panic u256_int 0 (2 ^ 256) ''P0032'' (u256_int g * u256_int h) (gray_u256_mul_checked g h)"
  using assms by (intro conjI i128_mul_checked_value u128_mul_checked_value i256_mul_checked_value u256_mul_checked_value)

theorem wide_mul_checked_witness:
  "exact_or_panic i128_int (- (2 ^ 127)) (2 ^ 127) ''P0023'' (- 6) (gray_i128_mul_checked \<lparr>i128_low = 2, i128_high = 0\<rparr> \<lparr>i128_low = - 3, i128_high = - 1\<rparr>)"
  using wide_mul_checked [of "\<lparr>i128_low = 2, i128_high = 0\<rparr>" "\<lparr>i128_low = - 3, i128_high = - 1\<rparr>" GRAY_I256_ZERO GRAY_I256_ZERO]
  by (simp add: i128_int_def i256_int_def i256_words_def GRAY_I256_ZERO_def)

text \<open>C3: the one product the signed checked multiplication gets wrong. The minimum times \<open>-1\<close>
  overflows, and the function returns the minimum instead of raising the panic, because the
  division that verifies the product wraps the same way.\<close>

theorem wide_mul_checked_minimum:
  "(let m = \<lparr>i128_low = 0, i128_high = - (2 ^ 63)\<rparr>; n = \<lparr>i128_low = - 1, i128_high = - 1\<rparr>
    in i128_int m = - (2 ^ 127) \<and> i128_int n = - 1 \<and> gray_i128_mul_checked m n = Inr m)
   \<and> (let m = i256_of_words [0, 0, 0, - (2 ^ 63)]; n = i256_of_words [- 1, - 1, - 1, - 1]
    in i256_int m = - (2 ^ 255) \<and> i256_int n = - 1 \<and> gray_i256_mul_checked m n = Inr m)"
proof -
  define m n where mn: "m = \<lparr>i128_low = 0, i128_high = - (2 ^ 63)\<rparr>" "n = \<lparr>i128_low = - 1, i128_high = - 1\<rparr>"
  define x y where xy: "x = i256_of_words [0, 0, 0, - (2 ^ 63)]" "y = i256_of_words [- 1, - 1, - 1, - 1]"
  have "i128_int m = - (2 ^ 127)" "i128_int n = - 1" by (simp_all add: mn i128_int_def uint_minus_one_64)
  moreover from this have "gray_i128_mul_checked m n = Inr m" using i128_mul_minimum [of m n] by simp
  moreover have "i256_int x = - (2 ^ 255)" "i256_int y = - 1" by (simp_all add: xy i256_int_def i256_words_def i256_of_words_def uint_minus_one_64)
  moreover from this have "gray_i256_mul_checked x y = Inr x" using i256_mul_minimum [of x y] by simp
  ultimately show ?thesis by (simp add: mn xy)
qed

text \<open>C4: division and remainder of all four types. A zero divisor is the panic P0078; otherwise
  division truncates toward zero, the remainder has the sign of the dividend, and only the
  quotient of the signed minimum and \<open>-1\<close> wraps. That is what the standard asks of \<open>wrap_div\<close>; the
  operators \<open>/\<close> and \<open>%\<close>, for which it asks for the panic P0079, are compiled to the same functions.\<close>

theorem wide_division:
  "quotient_or_panic u128_int (u128_int d) (u128_int c div u128_int d) (gray_u128_div c d)
   \<and> quotient_or_panic u128_int (u128_int d) (u128_int c mod u128_int d) (gray_u128_mod c d)
   \<and> quotient_or_panic i128_int (i128_int b) (signed_take_bit 127 (i128_int a sdiv i128_int b)) (gray_i128_div a b)
   \<and> quotient_or_panic i128_int (i128_int b) (i128_int a smod i128_int b) (gray_i128_mod a b)
   \<and> quotient_or_panic u256_int (u256_int h) (u256_int g div u256_int h) (gray_u256_div g h)
   \<and> quotient_or_panic u256_int (u256_int h) (u256_int g mod u256_int h) (gray_u256_mod g h)
   \<and> quotient_or_panic i256_int (i256_int f) (signed_take_bit 255 (i256_int e sdiv i256_int f)) (gray_i256_div e f)
   \<and> quotient_or_panic i256_int (i256_int f) (i256_int e smod i256_int f) (gray_i256_mod e f)"
  by (intro conjI u128_division i128_division u256_division i256_division)

text \<open>The unchecked operations are the operations of the integers modulo the width.\<close>

theorem wide_wrapping_arithmetic:
  "u128_int (gray_u128_add c d) = take_bit 128 (u128_int c + u128_int d)
   \<and> u128_int (gray_u128_sub c d) = take_bit 128 (u128_int c - u128_int d)
   \<and> u128_int (gray_u128_mul c d) = take_bit 128 (u128_int c * u128_int d)
   \<and> i128_int (gray_i128_add a b) = signed_take_bit 127 (i128_int a + i128_int b)
   \<and> i128_int (gray_i128_sub a b) = signed_take_bit 127 (i128_int a - i128_int b)
   \<and> i128_int (gray_i128_mul a b) = signed_take_bit 127 (i128_int a * i128_int b)
   \<and> i128_int (gray_i128_neg a) = signed_take_bit 127 (- i128_int a)
   \<and> u256_int (gray_u256_add g h) = take_bit 256 (u256_int g + u256_int h)
   \<and> u256_int (gray_u256_sub g h) = take_bit 256 (u256_int g - u256_int h)
   \<and> u256_int (gray_u256_mul g h) = take_bit 256 (u256_int g * u256_int h)
   \<and> i256_int (gray_i256_add e f) = signed_take_bit 255 (i256_int e + i256_int f)
   \<and> i256_int (gray_i256_sub e f) = signed_take_bit 255 (i256_int e - i256_int f)
   \<and> i256_int (gray_i256_mul e f) = signed_take_bit 255 (i256_int e * i256_int f)
   \<and> i256_int (gray_i256_neg e) = signed_take_bit 255 (- i256_int e)"
  by (intro conjI u128.add_val u128.sub_val u128.mul_val i128.sadd_val i128.ssub_val i128.smul_val i128.sneg_val
      u256.add_val u256.sub_val u256.mul_val i256.sadd_val i256.ssub_val i256.smul_val i256.sneg_val)

text \<open>Checked negation and absolute value, exact but for the minimum, which is the panic P0014.\<close>

theorem wide_neg_abs_checked:
  "exact_or_panic i128_int (- (2 ^ 127)) (2 ^ 127) ''P0014'' (- i128_int a) (gray_i128_neg_checked a)
   \<and> exact_or_panic i128_int (- (2 ^ 127)) (2 ^ 127) ''P0014'' \<bar>i128_int a\<bar> (gray_i128_abs_checked a)
   \<and> exact_or_panic i256_int (- (2 ^ 255)) (2 ^ 255) ''P0014'' (- i256_int e) (gray_i256_neg_checked e)
   \<and> exact_or_panic i256_int (- (2 ^ 255)) (2 ^ 255) ''P0014'' \<bar>i256_int e\<bar> (gray_i256_abs_checked e)"
  by (intro conjI i128_neg_abs i256_neg_abs)

text \<open>C5: the bitwise operations act on the two's complement of the values, and shifts by an amount in
  \<open>[0, width)\<close> are the shifts of the value, the left one modulo the width and the right one arithmetic
  for the signed types; any other amount is the panic P0092.\<close>

theorem wide_bitwise:
  "i128_int (gray_i128_and a b) = i128_int a AND i128_int b \<and> i128_int (gray_i128_or a b) = i128_int a OR i128_int b
   \<and> i128_int (gray_i128_xor a b) = i128_int a XOR i128_int b \<and> i128_int (gray_i128_not a) = signed_take_bit 127 (NOT (i128_int a))
   \<and> u128_int (gray_u128_and c d) = u128_int c AND u128_int d \<and> u128_int (gray_u128_or c d) = u128_int c OR u128_int d
   \<and> u128_int (gray_u128_xor c d) = u128_int c XOR u128_int d \<and> u128_int (gray_u128_not c) = take_bit 128 (NOT (u128_int c))
   \<and> i256_int (gray_i256_and e f) = i256_int e AND i256_int f \<and> i256_int (gray_i256_or e f) = i256_int e OR i256_int f
   \<and> i256_int (gray_i256_xor e f) = i256_int e XOR i256_int f \<and> i256_int (gray_i256_not e) = signed_take_bit 255 (NOT (i256_int e))
   \<and> u256_int (gray_u256_and g h) = u256_int g AND u256_int h \<and> u256_int (gray_u256_or g h) = u256_int g OR u256_int h
   \<and> u256_int (gray_u256_xor g h) = u256_int g XOR u256_int h \<and> u256_int (gray_u256_not g) = take_bit 256 (NOT (u256_int g))
   \<and> shift_or_panic i128_int 128 n (signed_take_bit 127 (push_bit (nat (sint n)) (i128_int a))) (gray_i128_shl a n)
   \<and> shift_or_panic i128_int 128 n (drop_bit (nat (sint n)) (i128_int a)) (gray_i128_shr a n)
   \<and> shift_or_panic u128_int 128 n (take_bit 128 (push_bit (nat (sint n)) (u128_int c))) (gray_u128_shl c n)
   \<and> shift_or_panic u128_int 128 n (drop_bit (nat (sint n)) (u128_int c)) (gray_u128_shr c n)
   \<and> shift_or_panic i256_int 256 n (signed_take_bit 255 (push_bit (nat (sint n)) (i256_int e))) (gray_i256_shl e n)
   \<and> shift_or_panic i256_int 256 n (drop_bit (nat (sint n)) (i256_int e)) (gray_i256_shr e n)
   \<and> shift_or_panic u256_int 256 n (take_bit 256 (push_bit (nat (sint n)) (u256_int g))) (gray_u256_shl g n)
   \<and> shift_or_panic u256_int 256 n (drop_bit (nat (sint n)) (u256_int g)) (gray_u256_shr g n)"
  by (intro conjI wide_bitwise_values wide_shift_values)

text \<open>C6: a cast between two wide types, or from one to 64 bits, returns the same number when the target
  type holds it and raises the panic of the cast otherwise, for all twelve pairs and eight narrowings.\<close>

theorem wide_casts:
  "exact_or_panic u128_int 0 (2 ^ 128) ''P0138'' (i128_int a) (gray_cast_i128_to_u128 a)
   \<and> exact_or_panic i256_int (- (2 ^ 255)) (2 ^ 255) ''P0138'' (i128_int a) (gray_cast_i128_to_i256 a)
   \<and> exact_or_panic u256_int 0 (2 ^ 256) ''P0138'' (i128_int a) (gray_cast_i128_to_u256 a)
   \<and> exact_or_panic i128_int (- (2 ^ 127)) (2 ^ 127) ''P0138'' (u128_int c) (gray_cast_u128_to_i128 c)
   \<and> exact_or_panic i256_int (- (2 ^ 255)) (2 ^ 255) ''P0138'' (u128_int c) (gray_cast_u128_to_i256 c)
   \<and> exact_or_panic u256_int 0 (2 ^ 256) ''P0138'' (u128_int c) (gray_cast_u128_to_u256 c)
   \<and> exact_or_panic i128_int (- (2 ^ 127)) (2 ^ 127) ''P0138'' (i256_int e) (gray_cast_i256_to_i128 e)
   \<and> exact_or_panic u128_int 0 (2 ^ 128) ''P0138'' (i256_int e) (gray_cast_i256_to_u128 e)
   \<and> exact_or_panic u256_int 0 (2 ^ 256) ''P0138'' (i256_int e) (gray_cast_i256_to_u256 e)
   \<and> exact_or_panic i128_int (- (2 ^ 127)) (2 ^ 127) ''P0138'' (u256_int g) (gray_cast_u256_to_i128 g)
   \<and> exact_or_panic u128_int 0 (2 ^ 128) ''P0138'' (u256_int g) (gray_cast_u256_to_u128 g)
   \<and> exact_or_panic i256_int (- (2 ^ 255)) (2 ^ 255) ''P0138'' (u256_int g) (gray_cast_u256_to_i256 g)
   \<and> exact_or_panic sint (- (2 ^ 63)) (2 ^ 63) ''P0093'' (i128_int a) (gray_i128_to_i64 a)
   \<and> exact_or_panic uint 0 (2 ^ 64) ''P0094'' (i128_int a) (gray_i128_to_u64 a)
   \<and> exact_or_panic sint (- (2 ^ 63)) (2 ^ 63) ''P0095'' (u128_int c) (gray_u128_to_i64 c)
   \<and> exact_or_panic uint 0 (2 ^ 64) ''P0096'' (u128_int c) (gray_u128_to_u64 c)
   \<and> exact_or_panic sint (- (2 ^ 63)) (2 ^ 63) ''P0097'' (i256_int e) (gray_i256_to_i64 e)
   \<and> exact_or_panic uint 0 (2 ^ 64) ''P0098'' (i256_int e) (gray_i256_to_u64 e)
   \<and> exact_or_panic sint (- (2 ^ 63)) (2 ^ 63) ''P0099'' (u256_int g) (gray_u256_to_i64 g)
   \<and> exact_or_panic uint 0 (2 ^ 64) ''P0100'' (u256_int g) (gray_u256_to_u64 g)"
  by (intro conjI casts_from_i128 casts_from_u128 casts_from_i256 casts_from_u256 narrowing_i64 narrowing_u64)

text \<open>C7: printing a wide integer in decimal and parsing the text back gives the integer, for all
  four types and every value.\<close>

theorem wide_decimal_round_trip:
  "bind_panic (gray_u128_to_string c) gray_u128_from_decimal = Inr c
   \<and> bind_panic (gray_i128_to_string a) gray_i128_from_decimal = Inr a
   \<and> bind_panic (gray_u256_to_string g) gray_u256_from_decimal = Inr g
   \<and> bind_panic (gray_i256_to_string e) gray_i256_from_decimal = Inr e"
proof (intro conjI)
  show "bind_panic (gray_u128_to_string c) gray_u128_from_decimal = Inr c"
    using u128_from_decimal_numeral [of "nat (u128_int c)"] u128_int_bounds [of c] by (auto simp: u128_to_string_text)
  show "bind_panic (gray_u256_to_string g) gray_u256_from_decimal = Inr g"
    using u256_from_decimal_numeral [of "nat (u256_int g)"] u256_int_bounds [of g] by (auto simp: u256_to_string_text)
qed (simp_all only: bind_panic_simps i128_to_string_text i128_from_decimal_text i256_to_string_text i256_from_decimal_text)

text \<open>The printed text is the decimal numeral of the value, with a minus sign in front of a negative
  one, and \<open>to_radix_string\<close> prints the numeral in the given base whenever it has at most 96 digits,
  which is what its buffer holds; no write leaves the digit buffers.\<close>

theorem wide_radix_text:
  assumes "2 \<le> uint base" "u128_int c < uint base ^ 96" "u256_int g < uint base ^ 96"
  shows "gray_u128_to_radix_string c base upper = Inr (radix_text (radix_digit upper) (unat base) (nat (u128_int c)))
    \<and> gray_u256_to_radix_string g base upper = Inr (radix_text (radix_digit upper) (unat base) (nat (u256_int g)))
    \<and> gray_u128_to_string c = Inr (radix_text decimal_digit 10 (nat (u128_int c)))
   \<and> gray_i128_to_string a = Inr (decimal_text (i128_int a))
   \<and> gray_u256_to_string g = Inr (radix_text decimal_digit 10 (nat (u256_int g)))
   \<and> gray_i256_to_string e = Inr (decimal_text (i256_int e))"
  using assms by (intro conjI u128_radix_text u256_radix_text u128_to_string_text i128_to_string_text u256_to_string_text i256_to_string_text)

theorem wide_radix_text_witness:
  "gray_u128_to_radix_string \<lparr>u128_low = 255, u128_high = 0\<rparr> 16 True = Inr ''FF''"
  using wide_radix_text [of 16 "\<lparr>u128_low = 255, u128_high = 0\<rparr>" GRAY_U256_ZERO True]
  by (simp add: u128_int_def u256_zero_value radix_text.simps radix_digit_def)

text \<open>Membership in a stored range of an unsigned type is membership in the arithmetic
  progression the range denotes.\<close>

theorem wide_range_membership:
  assumes "u128_int (range_step r) \<noteq> 0" "u256_int (range_step s) \<noteq> 0" "uint (range_step t) \<noteq> 0"
  shows "wide_range_contains range_ops_u128 r x
     = Inr (u128_int x \<in> range_members (u128_int (range_start r)) (u128_int (range_stop r)) (u128_int (range_step r)))
   \<and> wide_range_contains range_ops_u256 s y
     = Inr (u256_int y \<in> range_members (u256_int (range_start s)) (u256_int (range_stop s)) (u256_int (range_step s)))
   \<and> wide_range_contains range_ops_u64 t z
     = Inr (uint z \<in> range_members (uint (range_start t)) (uint (range_stop t)) (uint (range_step t)))"
  using assms by (intro conjI unsigned_range_membership)

theorem wide_range_membership_witness:
  "wide_range_contains range_ops_u64 \<lparr>range_start = 2, range_stop = 9, range_step = 3\<rparr> 5 = Inr (5 \<in> range_members 2 9 3)"
  using wide_range_membership [of "\<lparr>range_start = GRAY_U128_ZERO, range_stop = GRAY_U128_ZERO, range_step = gray_u128_from_u64 1\<rparr>"
      "\<lparr>range_start = GRAY_U256_ZERO, range_stop = GRAY_U256_ZERO, range_step = gray_u256_from_u64 1\<rparr>"
      "\<lparr>range_start = 2, range_stop = 9, range_step = 3\<rparr>" GRAY_U128_ZERO GRAY_U256_ZERO 5]
  by (simp add: widening_values)

text \<open>Membership and length of a 64-bit signed range: \<open>contains\<close> decides membership in the
  progression, and \<open>len\<close> is the number of its members or the panic P0155 when that number
  does not fit.\<close>

theorem i64_range:
  assumes "sint (range_step t) \<noteq> 0"
  shows "GrayRange_i64_contains t v
      = Inr (sint v \<in> range_members (sint (range_start t)) (sint (range_stop t)) (sint (range_step t)))
    \<and> exact_or_panic sint 0 (2 ^ 63) ''P0155''
      (int (card (range_members (sint (range_start t)) (sint (range_stop t)) (sint (range_step t))))) (GrayRange_i64_len t)"
  using i64_contains_value [OF assms] i64_len_value [OF assms]
    card_range_members [OF assms] range_count_nonneg [OF assms] by simp

theorem i64_range_witness:
  "GrayRange_i64_contains \<lparr>range_start = - 5, range_stop = 6, range_step = 5\<rparr> 0 = Inr (0 \<in> range_members (- 5) 6 5)"
  using i64_range [of "\<lparr>range_start = - 5, range_stop = 6, range_step = 5\<rparr>" 0] by simp

section \<open>Tokens and text\<close>

text \<open>The binary search over the keyword table finds exactly the table's entries, and returns
  the spelling it was asked for.\<close>

theorem keyword_lookup:
  "token_lookup_keyword_with_length ident = map_option (\<lambda>t. (t, ident)) (map_of keyword_table ident)"
  by (rule token_lookup_is_map_of)

text \<open>C8: decoding the UTF-8 encoding of a Unicode scalar value gives it back and consumes exactly
  the encoding, whatever follows.\<close>

theorem utf8_round_trip:
  assumes "is_scalar c"
  shows "gray_utf8_decode (\<lambda>i. (utf8_encode c @ following) ! i) (length (utf8_encode c @ following))
    = (c, length (utf8_encode c))"
  using assms by (intro decode_encode) (simp_all add: nth_append)

theorem utf8_round_trip_witness:
  "gray_utf8_decode (\<lambda>i. ([0xE2, 0x82, 0xAC] @ [0x41]) ! i) 4 = (0x20AC, 3)"
  using utf8_round_trip [of "0x20AC" "[0x41]"] by (simp add: is_scalar_def utf8_encode_def, simp add: eval_nat_numeral)

text \<open>C9: the decoder accepts nothing but encodings. Either it consumes the encoding of a scalar
  value that lies within the bytes it was given, or it reports the replacement character and
  consumes one byte.\<close>

theorem utf8_decoding:
  assumes "0 < n" "gray_utf8_decode byte_at n = (c, k)"
  shows "if uint (byte_at 0) < 128 \<or> 1 < k
    then is_scalar c \<and> k \<le> n \<and> map byte_at [0..<k] = utf8_encode c
    else c = 0xFFFD \<and> k = 1"
  using assms decode_sound [of byte_at n c k] decode_invalid [of byte_at n c k] by simp

theorem utf8_decoding_witness:
  "is_scalar 0xE9 \<and> map (\<lambda>i. [0xC3, 0xA9] ! i) [0..<2] = utf8_encode 0xE9"
  using utf8_decoding [of 2 "\<lambda>i. [0xC3, 0xA9] ! i" "0xE9" 2]
    decode_encode [of "0xE9" "\<lambda>i. [0xC3, 0xA9] ! i" 2] by (simp add: is_scalar_def utf8_encode_def)

section \<open>Lexer\<close>

text \<open>C10: after any number of tokens the lexer is within the source: its current character is the
  one at its position, its read position is the next one, and the position is at most one past
  the terminator.\<close>

theorem lexer_stays_in_source:
  "let lx = lexer_after k content file_name
   in position lx \<le> Suc (length (input lx)) \<and> read_position lx = Suc (position lx)
      \<and> current_character lx = source_byte lx (position lx)"
  using after_upto [of k content file_name] by (simp add: upto_def Let_def)

text \<open>C11: reading tokens ends on every source: as many calls as the source has bytes, and two more,
  reach the end-of-file token, which is the last and the only one of its type.\<close>

theorem lexer_terminates:
  "\<exists>us t. lex_tokens (length content + 2) (lexer_create_sized content file_name) = Some (us @ [t])
     \<and> token_type t = TOKEN_END_OF_FILE \<and> list_all (\<lambda>u. token_type u \<noteq> TOKEN_END_OF_FILE) us"
  using lex_source [of content file_name] unfolding list_all_iff by blast

text \<open>C12: a token names the source file, and the line and the column of its first byte: the one that
  follows the white space and the comments after the token before it, or the place where a comment that is
  not closed ends. It is marked as preceded by white space exactly when there are any.\<close>

theorem token_locations:
  "let before = lexer_after k content file_name; (lx, t) = lexer_next_token before; p = token_start (input lx) (position before)
   in token_file t = file_name \<and> token_line t = line_at (input lx) p \<and> token_column t = column_at (input lx) p
      \<and> position before \<le> p \<and> p \<le> position lx \<and> (is_preceded_by_whitespace t \<longleftrightarrow> p \<noteq> position before)"
proof -
  obtain lx t where t: "lexer_next_token (lexer_after k content file_name) = (lx, t)" by fastforce
  show ?thesis using token_place [OF t] by (simp add: t Let_def token_start_def)
qed

text \<open>A word is the longest run of identifier characters. It is refused when it is longer than
  255 characters, and is a keyword or an identifier by the keyword table.\<close>

theorem words:
  assumes "upto k lx" "error_code lx = None"
  shows "let w = takeWhile is_identifier_char (rest_of lx)
    in position (fst (word_token lx)) = position lx + length w
       \<and> snd (word_token lx) =
           (if 255 < length w then (TOKEN_ILLEGAL, Message Identifier_too_long)
            else case map_of keyword_table w of
              Some t \<Rightarrow> (Keyword t, Text w) | None \<Rightarrow> (TOKEN_IDENTIFIER, Text w))"
  using word_token_value [OF assms] by (simp add: Let_def MAX_IDENTIFIER_LENGTH_def)

theorem words_witness:
  "snd (word_token (lexer_create_sized ''while_1 x'' ''m'')) = (TOKEN_IDENTIFIER, Text ''while_1'')
   \<and> snd (word_token (lexer_create_sized ''while(x)'' ''m'')) = (Keyword TOKEN_AS_LONG_AS, Text ''while'')"
  using words [of 0 "lexer_create_sized ''while_1 x'' ''m''"] words [of 0 "lexer_create_sized ''while(x)'' ''m''"]
  by (simp_all add: upto_create created byte_order_mark_def rest_of_def Let_def is_identifier_char_def isalpha_def
      isdigit_def less_eq_char_def keyword_table_def)

text \<open>A raw string is the text up to the next backquote, taken as it is; it is refused when no
  backquote follows or its bytes are not UTF-8.\<close>

theorem raw_strings:
  assumes "upto k lx" "current_character lx \<noteq> NUL" "error_code lx = None"
  shows "let following = rest_of (read_character lx);
             content = takeWhile (\<lambda>c. c \<noteq> NUL \<and> c \<noteq> CHR 0x60) following;
             after_content = drop (length content) following
    in snd (with_error (read_raw_string lx) TOKEN_RAW_STRING) =
       (if after_content = [] \<or> hd after_content \<noteq> CHR 0x60 then (TOKEN_ILLEGAL, Message Unclosed_raw_string)
        else if valid_utf8 (bytes_of content) then (TOKEN_RAW_STRING, Text content)
        else (TOKEN_ILLEGAL, Message Malformed_utf8_in_string))"
  using raw_string_value [OF assms] by (simp add: Let_def)

theorem raw_strings_witness:
  "snd (with_error (read_raw_string (lexer_create_sized ''`ab'' ''m'')) TOKEN_RAW_STRING) = (TOKEN_ILLEGAL, Message Unclosed_raw_string)"
  using raw_strings [of 0 "lexer_create_sized ''`ab'' ''m''"]
  by (simp add: upto_create created byte_order_mark_def Let_def rest_of_def)

text \<open>A number without a radix prefix is accepted exactly when its text has no trailing and no
  consecutive underscores, none around the decimal point, and a digit after the point.\<close>

theorem number_format:
  assumes "upto k lx" "error_code lx = None" "\<not> has_prefix lx"
  shows "error_code (fst (read_number lx)) = None \<longleftrightarrow> well_formed_number (fst (snd (read_number lx)))"
  using assms by (rule read_number_accepts)

theorem number_format_witness:
  "(error_code (fst (read_number (lexer_create_sized ''1_0_'' ''m''))) = None)
     = well_formed_number (fst (snd (read_number (lexer_create_sized ''1_0_'' ''m''))))"
  using number_format [of 0 "lexer_create_sized ''1_0_'' ''m''"]
  by (simp add: upto_create created byte_order_mark_def has_prefix_def)

text \<open>A hexadecimal number is refused only when neither a digit nor an underscore follows the
  prefix: no other placement of underscores is checked.\<close>

theorem prefixed_numbers:
  assumes "upto k lx" "error_code lx = None" "current_character lx = CHR ''0''" "peek_character lx \<in> set ''xX''"
  shows "error_code (fst (read_number lx)) =
    (if takeWhile (\<lambda>c. c = CHR ''_'' \<or> isxdigit c) (drop 2 (rest_of lx)) = [] then Some ''E1010'' else None)"
proof -
  have "is_prefixed_digit 16 = (\<lambda>c. c = CHR ''_'' \<or> isxdigit c)" by (simp add: fun_eq_iff is_prefixed_digit_def)
  then show ?thesis using read_number_prefixed [OF assms(1-3)] assms(4) by auto
qed

theorem prefixed_numbers_witness:
  "error_code (fst (read_number (lexer_create_sized ''0x_'' ''m''))) = None"
  using prefixed_numbers [of 0 "lexer_create_sized ''0x_'' ''m''"]
  by (simp add: upto_create created byte_order_mark_def rest_of_def)

section \<open>Expressions\<close>

text \<open>C13: an integer literal of any base has, of its number, the lowest 64 bits, two flags that tell
  whether it is above the signed and the unsigned 64-bit range, and, when it has a prefix, its decimal
  text, at any size.\<close>

theorem integer_literals:
  assumes "token_string (current_token p) = digits" "is_numeral (base_of digits) (digits_after_prefix digits)"
  shows "parse_integer_literal p =
    (let n = numeral_value (base_of digits) (digits_after_prefix digits)
     in Integer_Literal (current_token p) (of_nat n)
          (if number_is_prefixed digits then radix_text decimal_digit 10 n else digits) (2 ^ 63 \<le> n) (2 ^ 64 \<le> n))"
  using parse_integer_value [OF assms(2,1) refl] by (simp only: Let_def)

theorem integer_literals_witness:
  "\<exists>p. parse_integer_literal p = Integer_Literal (current_token p) 0 ''1180591620717411303424'' True True"
proof
  let ?t = "\<lparr>token_type = TOKEN_INTEGER_LITERAL, literal = Text ''0x40_0000_0000_0000_0000'', token_line = 1, token_column = 1,
      token_file = ''m'', is_preceded_by_whitespace = False\<rparr>"
  let ?p = "\<lparr>parser_lexer = lexer_create [] ''m'', current_token = ?t, peek_token = ?t, parser_file = ''m'', diagnostics = [],
      parse_depth = 0, type_nesting = 0, should_suppress_struct_literal = False, is_in_interpolation = False\<rparr>"
  have n: "numeral_value 16 ''40_0000_0000_0000_0000'' = 1180591620717411303424"
    by (simp add: numeral_value_def hex_value_def)
  have decimal: "radix_text decimal_digit 10 1180591620717411303424 = ''1180591620717411303424''"
    by (simp add: radix_text.simps decimal_digit_def) code_simp
  have "is_numeral 16 ''40_0000_0000_0000_0000''" by (simp add: is_numeral_def hex_value_def isxdigit_def isdigit_def)
  then show "parse_integer_literal ?p = Integer_Literal (current_token ?p) 0 ''1180591620717411303424'' True True"
    using integer_literals [of ?p "''0x40_0000_0000_0000_0000''"] n decimal
    by (simp add: token_string_def base_of_def number_is_prefixed_def number_prefixes_def digits_after_prefix_def Let_def)
qed

text \<open>Reading the annotation of a type ends for every parser that is reached from a source, with a type
  or a diagnosed error: the nesting is left as it was found, and the parser has read on in the same
  source.\<close>

theorem type_annotations_return:
  "\<exists>fuel q spelled. (\<forall>n. parse_complex_type (fuel + n) ((next_token ^^ k) (parser_create (lexer_create_sized content f) f ds)) = Some (q, spelled))
     \<and> reaches ((next_token ^^ k) (parser_create (lexer_create_sized content f) f ds)) q"
  by (rule returns_fuel, rule parse_complex_type_returns, rule parser_ok_after)

text \<open>C14: parsing an expression, with any precedence, ends for every parser that is reached from a source,
  with a node or without one. The depth and the nesting are left as they were found, and the parser is one
  of the same source, with at most as many tokens ahead of it as before.\<close>

theorem expressions_terminate:
  "\<exists>fuel q node. (\<forall>n. parse_expression (fuel + n) precedence
       ((next_token ^^ k) (parser_create (lexer_create_sized content f) f ds)) = Some (q, node))
     \<and> reaches ((next_token ^^ k) (parser_create (lexer_create_sized content f) f ds)) q"
  by (rule returns_fuel, rule parse_expression_returns, rule parser_ok_after)

text \<open>The error that is not diagnosed: behind \<open>()\<close>, what is no name gives no node and no diagnostic.\<close>

theorem reference_without_name:
  assumes "type_at 0 p = Operator TOKEN_LEFT_PARENTHESIS" "type_at 1 p = Operator TOKEN_RIGHT_PARENTHESIS" "type_at 2 p \<noteq> TOKEN_IDENTIFIER"
  shows "parse_grouped_expression k expressions p = Some (after 2 p, None)"
  using assms by (simp add: parse_grouped_expression_def type_at_current numeral_eq_Suc)

theorem reference_without_name_witness:
  "\<exists>p. map (\<lambda>i. token_string (current_token (after i p))) [0..<3] = [''('', '')'', ''5'']
     \<and> parse_grouped_expression 1 (\<lambda>_ _. None) p = Some (after 2 p, None) \<and> diagnostics (after 2 p) = []"
proof -
  let ?lx = "\<lparr>input = ''()5'', position = 0, read_position = 1, current_character = CHR ''('', line = 1, column = 1,
      source_file = ''m'', has_unterminated_string = False, error_code = None, error_message = None\<rparr>"
  let ?p = "parser_create ?lx ''m'' []"
  have "type_at 0 ?p = Operator TOKEN_LEFT_PARENTHESIS" "type_at 1 ?p = Operator TOKEN_RIGHT_PARENTHESIS" "type_at 2 ?p \<noteq> TOKEN_IDENTIFIER"
    by code_simp+
  from reference_without_name [OF this]
  have "parse_grouped_expression 1 (\<lambda>_ _. None) ?p = Some (after 2 ?p, None)" .
  moreover have "map (\<lambda>i. token_string (current_token (after i ?p))) [0..<3] = [''('', '')'', ''5'']" "diagnostics (after 2 ?p) = []"
    by code_simp+
  ultimately show ?thesis by (intro exI [of _ ?p] conjI)
qed

text \<open>C15: an expression of names, prefix and infix operators that is written with only the parentheses that
  the precedences require is parsed to the same expression, operators of one level grouping to the left,
  up to its last token; what follows must not continue it, and it must fit the limit of depth.\<close>

theorem expressions_parse_back:
  assumes "operators_ok e" "spells (expression_words 0 e) p" "parse_depth p + length (expression_words 0 e) < MAX_PARSE_DEPTH"
    "get_token_precedence (type_at (length (expression_words 0 e)) p) = PRECEDENCE_LOWEST"
    "type_at (length (expression_words 0 e)) p \<noteq> Operator TOKEN_LEFT_BRACE"
  shows "\<exists>fuel node. meaning node = Some e
    \<and> (\<forall>n. parse_expression (fuel + n) PRECEDENCE_LOWEST p = Some (after (length (expression_words 0 e) - 1) p, Some node))"
  using parse_written [OF assms(1,2) _ _ assms(5)] assms(3,4) by (simp add: MAX_PARSE_DEPTH_def level_def)

theorem expressions_parse_back_witness:
  "\<exists>p fuel node. map (\<lambda>i. token_string (current_token (after i p))) [0..<10] = [''a'', ''-'', ''('', ''b'', ''-'', ''c'', '')'', ''*'', ''-'', ''d'']
    \<and> meaning node = Some (Operation (Name_Of ''a'') (Operator TOKEN_MINUS)
        (Operation (Operation (Name_Of ''b'') (Operator TOKEN_MINUS) (Name_Of ''c'')) (Operator TOKEN_ASTERISK)
          (Prefixed (Operator TOKEN_MINUS) (Name_Of ''d''))))
    \<and> parse_expression fuel PRECEDENCE_LOWEST p = Some (after 9 p, Some node)"
proof -
  let ?lx = "\<lparr>input = ''a - (b - c) * -d'', position = 0, read_position = 1, current_character = CHR ''a'', line = 1, column = 1,
      source_file = ''m'', has_unterminated_string = False, error_code = None, error_message = None\<rparr>"
  let ?p = "parser_create ?lx ''m'' []"
  let ?e = "Operation (Name_Of ''a'') (Operator TOKEN_MINUS)
      (Operation (Operation (Name_Of ''b'') (Operator TOKEN_MINUS) (Name_Of ''c'')) (Operator TOKEN_ASTERISK)
        (Prefixed (Operator TOKEN_MINUS) (Name_Of ''d'')))"
  have ok: "operators_ok ?e" by code_simp
  have n: "length (expression_words 0 ?e) = 10" by code_simp
  have s: "spells (expression_words 0 ?e) ?p" by code_simp
  have d: "parse_depth ?p = 0" by code_simp
  have t: "type_at 10 ?p = TOKEN_END_OF_FILE" by code_simp
  have texts: "map (\<lambda>i. token_string (current_token (after i ?p))) [0..<10] = [''a'', ''-'', ''('', ''b'', ''-'', ''c'', '')'', ''*'', ''-'', ''d'']"
    by code_simp
  obtain fuel node where "meaning node = Some ?e" "\<forall>n. parse_expression (fuel + n) PRECEDENCE_LOWEST ?p = Some (after 9 ?p, Some node)"
    using expressions_parse_back [OF ok s, unfolded n d t] by (auto simp: MAX_PARSE_DEPTH_def)
  then show ?thesis using texts by (metis add_0_right)
qed

text \<open>C16: the annotation of a pointer, an array or a map is read to its last token, and its spelling is what
  the typechecker resolves, to the type of the parts that were written: through pointers, arrays, arrays
  with a number or a constant as size, and maps, written \<open>[K:V]\<close> with any type as key or \<open>map[K:V]\<close> with a
  name, over names that a module may qualify. The nesting must fit the limit of 64, names are not \<open>map\<close> or
  \<open>func\<close> and have no punctuation of types, no key has a colon as a map would, no dot follows, and no
  distinct type has the spelling as its name.\<close>

theorem annotations_name_types:
  assumes "spells (annotation_words a) p" "names_ok a" "plain_names a" "type_nesting p + nesting a \<le> 64"
    "type_at (length (annotation_words a)) p \<noteq> Operator TOKEN_DOT"
    "spelled_of a = Some s" "pool_ok pool" "distinct_type_named pool (annotation_text a) = None"
  shows "\<exists>fuel pool' r. (\<forall>n. parse_complex_type (fuel + n) p = Some (after (length (annotation_words a) - 1) p, Some (annotation_text a)))
    \<and> type_from_name pool (Some (annotation_text a)) = Some (pool', r) \<and> deref pool' r = spelled_type s"
  using parse_annotation [OF assms(1,2,4,5)] annotation_type [OF assms(3,6-8)] by blast

theorem annotations_name_types_witness:
  "\<exists>p q fuel pool r. map (\<lambda>i. token_string (current_token (after i p))) [0..<11]
       = [''map'', ''['', ''string'', '':'', ''['', ''geo'', ''.'', ''Point'', '','', ''SIZE'', '']'']
    \<and> parse_complex_type fuel p = Some (q, Some ''map[string:[geo.Point,SIZE]]'')
    \<and> type_from_name type_pool_reset (Some ''map[string:[geo.Point,SIZE]]'') = Some (pool, r)
    \<and> deref pool r = spelled_type (Map_from ''string'' ''[geo.Point,SIZE]'')"
proof -
  let ?lx = "\<lparr>input = ''map[string:[geo.Point, SIZE]] = x'', position = 0, read_position = 1, current_character = CHR ''m'', line = 1, column = 1,
      source_file = ''m'', has_unterminated_string = False, error_code = None, error_message = None\<rparr>"
  let ?p = "parser_create ?lx ''m'' []"
  let ?a = "Long_Map_Type (Named ''string'') (Sized_Type (Qualified ''geo'' ''Point'') TOKEN_IDENTIFIER ''SIZE'')"
  have s: "spells (annotation_words ?a) ?p" by code_simp
  have ok: "names_ok ?a" "plain_names ?a" by code_simp+
  have n: "length (annotation_words ?a) = 12" by code_simp
  have t: "type_nesting ?p + nesting ?a \<le> 64" "type_at (length (annotation_words ?a)) ?p \<noteq> Operator TOKEN_DOT" by code_simp+
  have words: "map (\<lambda>i. token_string (current_token (after i ?p))) [0..<11]
      = [''map'', ''['', ''string'', '':'', ''['', ''geo'', ''.'', ''Point'', '','', ''SIZE'', '']'']" by code_simp
  have d: "distinct_type_named type_pool_reset (annotation_text ?a) = None"
    by (simp add: distinct_type_named_def type_pool_reset_def)
  have s_of: "spelled_of ?a = Some (Map_from ''string'' ''[geo.Point,SIZE]'')" "annotation_text ?a = ''map[string:[geo.Point,SIZE]]''" by simp_all
  obtain fuel pool r where "\<forall>m. parse_complex_type (fuel + m) ?p = Some (after 11 ?p, Some ''map[string:[geo.Point,SIZE]]'')"
    "type_from_name type_pool_reset (Some ''map[string:[geo.Point,SIZE]]'') = Some (pool, r)"
    "deref pool r = spelled_type (Map_from ''string'' ''[geo.Point,SIZE]'')"
    using annotations_name_types [OF s ok t s_of(1) pool_reset_ok d] unfolding n s_of(2) by auto
  then show ?thesis using words by (metis add_0_right)
qed

section \<open>Machine arithmetic\<close>

text \<open>C17: the portable overflow tests, which TinyCC builds use, agree with the builtins on every pair of
  operands, in the wrapped result and in the verdict.\<close>

theorem portable_overflow_checks:
  "gray_add_overflows_i64 l r = builtin_add_overflow_i64 l r
   \<and> gray_sub_overflows_i64 l r = builtin_sub_overflow_i64 l r
   \<and> gray_mul_overflows_i64 l r = builtin_mul_overflow_i64 l r
   \<and> gray_add_overflows_u64 a b = builtin_add_overflow_u64 a b
   \<and> gray_mul_overflows_u64 a b = builtin_mul_overflow_u64 a b"
  by (simp add: add_overflows_i64 sub_overflows_i64 mul_overflows_i64 add_overflows_u64 mul_overflows_u64)

text \<open>C18: 64-bit arithmetic is exact or raises the operation's panic, and a stepped range loop whose
  next value overflows ends at its stop.\<close>

theorem checked_i64_u64:
  "exact_or_panic sint (- (2 ^ 63)) (2 ^ 63) ''P0004'' (sint l + sint r) (gray_add_check l r)
   \<and> exact_or_panic sint (- (2 ^ 63)) (2 ^ 63) ''P0005'' (sint l - sint r) (gray_sub_check l r)
   \<and> exact_or_panic sint (- (2 ^ 63)) (2 ^ 63) ''P0006'' (sint l * sint r) (gray_mul_check l r)
   \<and> exact_or_panic sint (- (2 ^ 63)) (2 ^ 63) ''P0007'' (- sint l) (gray_neg_check l)
   \<and> exact_or_panic uint 0 (2 ^ 64) ''P0008'' (uint a + uint b) (gray_uadd_check a b)
   \<and> exact_or_panic uint 0 (2 ^ 64) ''P0009'' (uint a - uint b) (gray_usub_check a b)
   \<and> exact_or_panic uint 0 (2 ^ 64) ''P0010'' (uint a * uint b) (gray_umul_check a b)
   \<and> sint (gray_range_advance v step stop) =
       (if - (2 ^ 63) \<le> sint v + sint step \<and> sint v + sint step < 2 ^ 63 then sint v + sint step else sint stop)"
  using range_advance_value [of v step stop] unfolding fits_i64_def by (intro conjI checked_i64_values checked_u64_values)

text \<open>The casts to unsigned types and characters accept exactly the values of the type, and an
  enum cast the declared variants or, for a set of flags, the unions of their bits.\<close>

theorem casts_checked:
  "gray_ucast_check v hi = (if 0 \<le> sint v \<and> uint v \<le> uint hi \<and> \<not> (hi = 0x10FFFF \<and> 0xD800 \<le> uint v \<and> uint v < 0xE000)
     then Inr v else Inl ''P0019'')
   \<and> exact_or_panic sint (- (2 ^ 63)) (2 ^ 63) ''P0018'' (uint u) (gray_u64_to_i64_check u)
   \<and> gray_enum_cast_check v variants False = (if v \<in> set variants then Inr v else Inl ''P0107'')
   \<and> gray_enum_cast_check v variants True =
       (if 0 \<le> sint v \<and> list_all (\<lambda>n. list_ex (\<lambda>w. bit w n) variants) (filter (bit v) [0..<64]) then Inr v else Inl ''P0107'')"
proof -
  have "gray_enum_cast_check v variants True \<in> {Inr v, Inl ''P0107''}" by (simp add: gray_enum_cast_check_def Let_def)
  moreover have "(\<forall>n. bit v n \<longrightarrow> (\<exists>w \<in> set variants. bit w n)) \<longleftrightarrow>
      list_all (\<lambda>n. list_ex (\<lambda>w. bit w n) variants) (filter (bit v) [0..<64])"
    using bit_imp_le_length [of v] by (auto simp: list_all_iff list_ex_iff)
  ultimately show ?thesis
    using enum_cast_flags [of v variants] ucast_check_value [of v hi] enum_cast_plain [of v variants] u64_to_i64_check_value [of u]
    by auto
qed

section \<open>Elements of arrays and maps\<close>

text \<open>C19: the comparison of two elements is a total preorder for every kind, NaN included; equality is
  comparing as equal and not being NaN, and equal elements have the same hash.\<close>

theorem element_order:
  assumes "width_ok kind width"
  shows "gray_elem_compare kind width b a = - gray_elem_compare kind width a b
    \<and> (gray_elem_compare kind width a b \<le> 0 \<and> gray_elem_compare kind width b c \<le> 0 \<longrightarrow> gray_elem_compare kind width a c \<le> 0)
    \<and> (gray_elem_equal kind width a b \<longleftrightarrow> gray_elem_compare kind width a b = 0 \<and> \<not> is_nan kind a)
    \<and> (gray_elem_equal kind width a b \<longrightarrow> gray_elem_hash kind width a = gray_elem_hash kind width b)"
  using elem.flip [of kind width b a] elem.le_trans [of kind width a b c] elem_equal_rank [OF assms, of a b]
    elem_equal_hash [of kind width a b] by (simp add: elem_compare_rank)

theorem element_order_witness:
  "gray_elem_compare GRAY_ELEM_STRING 16 [2] [1, 5] = - gray_elem_compare GRAY_ELEM_STRING 16 [1, 5] [2]
   \<and> gray_elem_compare GRAY_ELEM_STRING 16 [1, 5] [2] = - 1"
  using element_order [of GRAY_ELEM_STRING 16 "[2]" "[1, 5]"]
  by (simp add: width_ok_def gray_elem_compare_def string_order_def memcmp_def bytes_at_def)

section \<open>Arrays\<close>

text \<open>C20: an array in its invariant is a list: pushing appends to it, through a growth of the store when
  it is full, or panics with P0130 when the store cannot double; reading and writing by index act on the
  list or panic with P0033, and a copy has the same list.\<close>

theorem array_operations:
  assumes "array_ok a"
  shows "(if array_len a \<le> 1073741823
      then \<exists>b. gray_array_push a v = Inr b \<and> array_ok b \<and> array_list b = array_list a @ [array_stored a v]
      else array_capacity a \<le> array_len a \<longrightarrow> gray_array_push a v = Inl ''P0130'')
    \<and> GRAY_ARRAY_GET_AT a i = (if 0 \<le> i \<and> i < int (array_len a) then Inr (array_list a ! nat i) else Inl ''P0033'')
    \<and> (array_iterating a = 0 \<longrightarrow>
       (if 0 \<le> i \<and> i < int (array_len a)
        then \<exists>b. gray_array_set a i v = Inr b \<and> array_ok b \<and> array_list b = (array_list a)[nat i := array_stored a v]
        else gray_array_set a i v = Inl ''P0033''))
    \<and> array_ok (gray_array_copy a) \<and> array_list (gray_array_copy a) = array_list a"
proof (intro conjI)
  show "if array_len a \<le> 1073741823
      then \<exists>b. gray_array_push a v = Inr b \<and> array_ok b \<and> array_list b = array_list a @ [array_stored a v]
      else array_capacity a \<le> array_len a \<longrightarrow> gray_array_push a v = Inl ''P0130''"
  proof (cases "array_len a \<le> 1073741823")
    case True
    then have "array_len a \<le> 2147483647 div 2" by simp
    from push_ok [OF assms this, of v] True show ?thesis by auto
  next
    case False
    then have "gray_array_push a v = Inl ''P0130''" if "array_capacity a \<le> array_len a"
      using that assms by (simp add: gray_array_push_def gray_array_grow_def array_ok_def GRAY_ARRAY_MIN_CAPACITY_def)
    with False show ?thesis by auto
  qed
  show "GRAY_ARRAY_GET_AT a i = (if 0 \<le> i \<and> i < int (array_len a) then Inr (array_list a ! nat i) else Inl ''P0033'')"
    using array_nth [of "nat i" a] by (auto simp: GRAY_ARRAY_GET_AT_def)
  show "array_iterating a = 0 \<longrightarrow>
       (if 0 \<le> i \<and> i < int (array_len a)
        then \<exists>b. gray_array_set a i v = Inr b \<and> array_ok b \<and> array_list b = (array_list a)[nat i := array_stored a v]
        else gray_array_set a i v = Inl ''P0033'')"
    using write_slot_ok [OF assms, of "nat i" v] by (auto simp: gray_array_set_def)
  show "array_ok (gray_array_copy a)" "array_list (gray_array_copy a) = array_list a" using copy_array [OF assms] by simp_all
qed

theorem array_operations_witness:
  "\<exists>b. gray_array_push (gray_array_new 1 1 GRAY_ELEM_U8) [7] = Inr b \<and> array_list b = [[7]]"
  using array_operations [OF new_array_ok(1), of 1 1 GRAY_ELEM_U8 "[7]"] new_array_ok(2) [of 1 1 GRAY_ELEM_U8]
  by (auto simp: array_stored_def stored_def gray_array_new_def bytes_at_def)

text \<open>The functions that edit an array edit its list: \<open>insert_at\<close> and \<open>remove_at\<close> take an index or
  panic with P0043 and P0044, \<open>remove\<close> deletes the first element equal to the value if there is one,
  and \<open>fill\<close> replaces the elements by copies of a value.\<close>

theorem arrays_edits:
  assumes "array_ok a" "array_iterating a = 0" "array_len a \<le> 1073741823" "n \<le> 1073741824"
  shows "(if 0 \<le> i \<and> i \<le> int (array_len a)
      then \<exists>b. gray_arrays_insert_at a i v = Inr b \<and> array_ok b
        \<and> array_list b = take (nat i) (array_list a) @ [array_stored a v] @ drop (nat i) (array_list a)
      else gray_arrays_insert_at a i v = Inl ''P0043'')
    \<and> (if 0 \<le> i \<and> i < int (array_len a)
      then \<exists>b. gray_arrays_remove_at a i = Inr b \<and> array_ok b
        \<and> array_list b = take (nat i) (array_list a) @ drop (Suc (nat i)) (array_list a)
      else gray_arrays_remove_at a i = Inl ''P0044'')
    \<and> (let differs = (\<lambda>e. \<not> gray_elem_equal (array_elem_kind a) (array_elem_size a) e v)
       in \<exists>b. gray_arrays_remove a v = Inr b \<and> array_ok b
        \<and> array_list b = takeWhile differs (array_list a) @ tl (dropWhile differs (array_list a)))
    \<and> (\<exists>b. gray_arrays_fill a v n = Inr b \<and> array_ok b \<and> array_list b = replicate (nat n) (array_stored a v))"
  using insert_at_ok [of a i v] remove_at_ok [of a i] remove_value_ok [OF assms(1,2) refl, of v] fill_ok [of a n v] assms
  by (auto simp: gray_arrays_insert_at_def gray_arrays_remove_at_def ARRAY_CHECK_ITER_def Let_def)

theorem arrays_edits_witness:
  "\<exists>b. gray_arrays_remove_at three_bytes 1 = Inr b \<and> array_list b = [[3], [2]]"
  using arrays_edits [OF three_bytes(1) three_bytes(2), of 0 1 "[]"] by auto

text \<open>The functions that build a new array from others: reversing, rotating by any shift, taking the
  slice between two indices that are clipped to the array, and concatenating.\<close>

theorem arrays_rearranged:
  assumes "array_ok a"
  shows "array_list (gray_arrays_reverse a) = rev (array_list a)
    \<and> array_list (gray_arrays_rotate a n) = rotate (nat (n mod int (array_len a))) (array_list a)
    \<and> array_list (gray_arrays_slice a i j) = take (nat j - nat i) (drop (nat i) (array_list a))
    \<and> (array_ok b \<and> same_elements a b \<and> array_len a + array_len b \<le> 2147483647 \<longrightarrow>
        array_list (gray_arrays_concat a b) = array_list a @ array_list b)"
  using reverse_ok [OF assms] rotate_ok [OF assms] slice_ok [OF assms] concat_ok [OF assms] by blast

theorem arrays_rearranged_witness:
  "array_list (gray_arrays_rotate three_bytes (- 1)) = [[2], [3], [1]]"
  using arrays_rearranged [OF three_bytes(1), of "- 1"] by (simp add: numeral_2_eq_2 rotate_def)

text \<open>Splitting an array into chunks and flattening the chunks gives the array's elements back, for
  every chunk size; each chunk is well formed, not empty, and no longer than asked for.\<close>

theorem arrays_chunks:
  assumes "array_ok a" "0 < array_elem_size a"
  shows "array_list (gray_arrays_flatten (gray_arrays_split_every a chunk)) = array_list a
    \<and> list_all (\<lambda>c. array_ok c \<and> 0 < array_len c \<and> int (array_len c) \<le> max 1 chunk) (gray_arrays_split_every a chunk)"
  using flatten_split [OF assms] split_every_ok [OF assms(1)] by blast

theorem arrays_chunks_witness:
  "array_list (gray_arrays_flatten (gray_arrays_split_every three_bytes 2)) = [[3], [1], [2]]"
  using arrays_chunks [OF three_bytes(1), of 2] by simp

text \<open>C21: sorting ends without a scan leaving the array, rearranges its elements, and puts them in
  ascending or descending order, for every kind that has an order; \<open>is_sorted\<close> decides that order.\<close>

theorem arrays_sort:
  assumes "array_ok a" "array_iterating a = 0" "sortable (array_elem_kind a)"
  shows "(\<exists>b. gray_arrays_sort a descending = Some (Inr b) \<and> array_ok b \<and> same_elements a b
      \<and> mset (array_list b) = mset (array_list a)
      \<and> ascending (array_elem_kind a) (array_elem_size a) (if descending then rev (array_list b) else array_list b))
    \<and> (gray_arrays_is_sorted a \<longleftrightarrow> ascending (array_elem_kind a) (array_elem_size a) (array_list a))"
  using sort_ok [OF assms] is_sorted_value [OF assms(1)] by blast

theorem arrays_sort_witness:
  "\<exists>b. gray_arrays_sort three_bytes True = Some (Inr b) \<and> mset (array_list b) = {#[1], [2], [3]#}"
  using arrays_sort [OF three_bytes(1) three_bytes(2), of True] by (auto simp: sortable_def)

text \<open>C22: in a sorted array the binary search finds an element that compares as equal to the value when
  there is one, and returns \<open>-1\<close> otherwise; \<open>get_min\<close> and \<open>get_max\<close> return the first of the extreme
  elements of any array that is not empty.\<close>

theorem arrays_search:
  assumes "array_ok a" "0 < array_len a"
  shows "(gray_arrays_is_sorted a \<longrightarrow>
      (let found = (\<lambda>e. gray_elem_compare (array_elem_kind a) (array_elem_size a) e v = 0)
       in if list_ex found (array_list a)
          then \<exists>i < array_len a. found (array_list a ! i) \<and> gray_arrays_binary_search a v = int i
          else gray_arrays_binary_search a v = - 1))
    \<and> (\<exists>i < array_len a. gray_arrays_get_min a = array_list a ! i
      \<and> (\<forall>e \<in> set (array_list a). gray_elem_compare (array_elem_kind a) (array_elem_size a) (array_list a ! i) e \<le> 0)
      \<and> (\<forall>j < i. gray_elem_compare (array_elem_kind a) (array_elem_size a) (array_list a ! i) (array_list a ! j) < 0))
    \<and> (\<exists>i < array_len a. gray_arrays_get_max a = array_list a ! i
      \<and> (\<forall>e \<in> set (array_list a). 0 \<le> gray_elem_compare (array_elem_kind a) (array_elem_size a) (array_list a ! i) e)
      \<and> (\<forall>j < i. 0 < gray_elem_compare (array_elem_kind a) (array_elem_size a) (array_list a ! i) (array_list a ! j)))"
  using binary_search_value [OF assms(1) _ refl, of v] is_sorted_value [OF assms(1)] get_min_value [OF assms] get_max_value [OF assms]
  by (simp add: Let_def)

theorem arrays_search_witness:
  "gray_arrays_get_max three_bytes \<in> {[3], [1], [2]}"
proof -
  have "0 < array_len three_bytes" by simp
  from arrays_search [OF three_bytes(1) this, of "[]"]
  obtain i where "i < array_len three_bytes" "gray_arrays_get_max three_bytes = array_list three_bytes ! i" by blast
  moreover from this have "array_list three_bytes ! i \<in> set (array_list three_bytes)" by (intro nth_mem) simp
  ultimately show ?thesis by simp
qed

text \<open>The sum of an array of integers is the exact sum when every partial sum lies in the range of
  the elements' type, and the panic of addition in that type otherwise.\<close>

theorem arrays_sum:
  assumes "array_ok a" "int_kind (array_elem_kind a) = Some (ival, lo, hi, code)"
  shows "if \<forall>n \<le> array_len a. lo \<le> sum_list (map ival (take n (array_list a))) \<and> sum_list (map ival (take n (array_list a))) < hi
    then \<exists>r. gray_arrays_get_sum a = Some (Inr r) \<and> ival r = sum_list (map ival (array_list a))
    else gray_arrays_get_sum a = Some (Inl code)"
  using assms by (rule sum_value)

theorem arrays_sum_witness:
  "\<exists>r. gray_arrays_get_sum three_bytes = Some (Inr r) \<and> load_u 1 r = 6"
proof -
  have loads: "load_u 1 [1] = 1" "load_u 1 [2] = 2" "load_u 1 [3] = 3" by (simp_all add: load_u_def bytes_at_def)
  have "0 \<le> sum_list (map (load_u 1) (take n [[3], [1], [2]])) \<and> sum_list (map (load_u 1) (take n [[3], [1], [2]])) < 256" if "n \<le> 3" for n
    using that loads by (auto simp: take_Cons split: nat.splits)
  then show ?thesis using arrays_sum [OF three_bytes(1), of "load_u 1" 0 "2 ^ 8" "''P0015''"] loads by simp
qed

text \<open>C23: deduplicating returns, and keeps the elements that no earlier element equals, in their order,
  whatever their hashes.\<close>

theorem arrays_deduplicate:
  assumes "array_ok a" "width_ok (array_elem_kind a) (array_elem_size a)" "array_len a \<le> 1073741824"
  shows "\<exists>b. gray_arrays_deduplicate a = Some (Inr b) \<and> array_ok b
    \<and> array_list b = first_elements (gray_elem_equal (array_elem_kind a) (array_elem_size a)) (array_list a)"
  using assms by (rule deduplicate_value)

theorem arrays_deduplicate_witness:
  "\<exists>b. gray_arrays_deduplicate three_bytes = Some (Inr b) \<and> array_ok b"
  using arrays_deduplicate [OF three_bytes(1)] by (auto simp: width_ok_def)

text \<open>Counting returns a map in its invariant that answers every key with the number of elements that
  have it, as a 64-bit integer, and has no entry for the others.\<close>

theorem arrays_counts:
  assumes "array_ok a" "width_ok (array_elem_kind a) (array_elem_size a)" "array_len a * 3 \<le> 2 ^ 29"
  shows "\<exists>m. gray_arrays_counts (fuel + 2) seed a = Some (Inr m) \<and> map_ok seed m
    \<and> (\<forall>k. gray_map_get seed m k =
        (let n = length (filter (\<lambda>e. canon_key (array_elem_size a) (array_elem_kind a) e = canon_key (array_elem_size a) (array_elem_kind a) k)
                   (array_list a))
         in if n = 0 then None else Some (store 8 (int n))))"
  using counts_array [OF assms] by (simp add: Let_def)

theorem arrays_counts_witness:
  "\<exists>m. gray_arrays_counts 5 7 three_bytes = Some (Inr m) \<and> gray_map_get 7 m [4] = None"
  using arrays_counts [OF three_bytes(1), of 3 7] by (auto simp: width_ok_def canon_key_def bytes_at_def)

section \<open>Hash maps\<close>

text \<open>C24: a map in its invariant is an insertion-ordered association list, whatever the seed, the
  collisions and the tombstones: creating, clearing and copying it keep the invariant and give the
  empty list or the same one, and lookups read the list.\<close>

theorem hash_map_table:
  "(width_ok key_kind key_size \<longrightarrow>
      map_ok seed (gray_map_new_kind key_size value_size n key_kind value_kind)
      \<and> map_table (gray_map_new_kind key_size value_size n key_kind value_kind) = [])
   \<and> (map_ok seed m \<longrightarrow>
      gray_map_get seed m k = map_of (map_table m) (key_of m k)
      \<and> (gray_map_has seed m k \<longleftrightarrow> key_of m k \<in> set (map fst (map_table m)))
      \<and> distinct (map fst (map_table m)) \<and> length (map_table m) = map_count m
      \<and> map_ok seed (gray_map_copy m) \<and> map_table (gray_map_copy m) = map_table m
      \<and> (map_iterating m = 0 \<longrightarrow> (\<exists>e. gray_map_clear m = Inr e \<and> map_ok seed e \<and> map_table e = [])))"
proof (intro conjI impI)
  assume ok: "map_ok seed m"
  show "gray_map_get seed m k = map_of (map_table m) (key_of m k)" by (rule get_table [OF ok])
  show "gray_map_has seed m k \<longleftrightarrow> key_of m k \<in> set (map fst (map_table m))"
    using find_slot_None [OF ok, of k] by (simp add: gray_map_has_def map_table_keys)
  show "distinct (map fst (map_table m))" by (rule distinct_map_table [OF ok])
  show "length (map_table m) = map_count m" by (rule table_count [OF ok])
  show "map_ok seed (gray_map_copy m)" "map_table (gray_map_copy m) = map_table m"
    using copy_ok(1) [OF ok] copy_ok(2) [of m] same_type_key [OF copy_ok(3) [of m]] by (simp_all add: map_table_def)
  show "\<exists>e. gray_map_clear m = Inr e \<and> map_ok seed e \<and> map_table e = []" if "map_iterating m = 0"
    using clear_ok [OF ok that] by (auto simp: map_table_def)
qed (simp_all add: new_kind_ok map_table_def)

theorem hash_map_table_witness:
  "map_ok 7 (gray_map_new_kind 8 8 3 GRAY_ELEM_F64 GRAY_ELEM_I64)"
  using hash_map_table [of GRAY_ELEM_F64 8 7 8 3 GRAY_ELEM_I64] by (simp add: width_ok_def)

text \<open>C25: setting an entry returns, with fuel for two levels of calls, and does what updating the
  association list does: the key keeps its place or goes to the end, its value is the new one, no other
  key is touched, and the invariant holds, through both kinds of rebuild. Removing says whether the key
  was there and deletes it from the list.\<close>

theorem hash_map_set:
  assumes "map_ok seed m" "map_iterating m = 0" "map_capacity m \<le> 2 ^ 29"
  shows "(\<exists>m'. gray_map_set (fuel + 2) seed m k v = Some (Inr m') \<and> map_ok seed m'
      \<and> map_table m' = AList.update (key_of m k) (value_stored m v) (map_table m)
      \<and> (\<forall>j. gray_map_get seed m' j = (if key_of m j = key_of m k then Some (value_stored m v) else gray_map_get seed m j)))
    \<and> (\<exists>m'. gray_map_remove seed m k = Inr (m', gray_map_has seed m k) \<and> map_ok seed m'
      \<and> map_table m' = AList.delete (key_of m k) (map_table m))"
proof -
  obtain m' where m': "gray_map_set (Suc (Suc fuel)) seed m k v = Some (Inr m')" "map_ok seed m'" "same_type m m'"
      "map_entries m' = update_entry m k v (map_entries m)"
    using set_ok [OF assms, of fuel k v] by blast
  have t: "map_table m' = AList.update (key_of m k) (value_stored m v) (map_table m)"
    using assms(1) m'(3,4) by (rule update_entry_table)
  then have "gray_map_get seed m' j = (if key_of m j = key_of m k then Some (value_stored m v) else gray_map_get seed m j)" for j
    using get_table [OF assms(1)] get_table [OF m'(2)] same_type_key [OF m'(3)] by (simp add: update_conv')
  then show ?thesis using m' t remove_entry_table [OF assms(1,2), of k] by auto
qed

theorem hash_map_set_witness:
  "\<exists>m'. gray_map_set 5 7 byte_map [5] [9] = Some (Inr m') \<and> gray_map_get 7 m' [5] = Some [9]"
  using hash_map_set [of 7 byte_map 3 "[5]" "[9]"] by (auto simp: bytes_at_def)

text \<open>C26: while an iteration is active, removing, clearing and adding a key panic with P0035, and
  changing the value of a key that is there succeeds and leaves the slots the iteration visits alone.\<close>

theorem hash_map_iteration:
  assumes "map_ok seed m" "0 < map_iterating m"
  shows "gray_map_remove seed m k = Inl ''P0035'' \<and> gray_map_clear m = Inl ''P0035''
    \<and> (if gray_map_has seed m k
       then \<exists>m'. gray_map_set (Suc fuel) seed m k v = Some (Inr m') \<and> map_ok seed m' \<and> order_slots m' = order_slots m
         \<and> map_table m' = AList.update (key_of m k) (value_stored m v) (map_table m)
       else gray_map_set (Suc fuel) seed m k v = Some (Inl ''P0035''))"
proof -
  have "same_type m (store_value m s v)" "order_slots (store_value m s v) = order_slots m" for s
    by (simp_all add: same_type_def order_slots_def)
  moreover have "map_table (store_value m s v) = AList.update (key_of m k) (value_stored m v) (map_table m)" if "find_slot seed m k = Some s" for s
    using assms(1) store_value_entries [OF assms(1) that, of v] by (intro update_entry_table) (simp_all add: same_type_def)
  ultimately show ?thesis using assms store_value_ok [OF assms(1), of _ v]
    by (auto simp: gray_map_remove_def gray_map_clear_def gray_map_has_def gray_map_set.simps)
qed

theorem hash_map_iteration_witness:
  "gray_map_clear (byte_map\<lparr>map_iterating := 1\<rparr>) = Inl ''P0035''"
proof -
  have "map_ok 7 (byte_map\<lparr>map_iterating := 1\<rparr>)"
    using round_capacity_ok [of 8] by (intro fresh_table) (simp_all add: byte_map_def gray_map_new_kind_def Let_def width_ok_def)
  then show ?thesis using hash_map_iteration [of 7 "byte_map\<lparr>map_iterating := 1\<rparr>"] by simp
qed

text \<open>C27: merging two maps of a type returns, keeps the invariant, answers every key from the right map
  first and the left one next, and lists the left map's keys before the right one's new keys; two maps
  are equal when they answer every key alike.\<close>

theorem maps_merge:
  assumes "map_ok seed left" "map_ok seed right" "same_type left right" "(map_count left + map_count right) * 4 < 2 ^ 29"
  shows "(\<exists>m. gray_maps_merge (fuel + 2) seed left right = Some (Inr m) \<and> map_ok seed m
      \<and> (\<forall>k. gray_map_get seed m k = (case gray_map_get seed right k of Some v \<Rightarrow> Some v | None \<Rightarrow> gray_map_get seed left k))
      \<and> map fst (map_table m) = map fst (map_table left) @ filter (\<lambda>k. k \<notin> set (map fst (map_table left))) (map fst (map_table right)))
    \<and> (gray_maps_is_equal seed left right has_string_keys (map_value_kind left = GRAY_ELEM_STRING) \<longleftrightarrow>
        (\<forall>k. gray_map_get seed left k = gray_map_get seed right k))"
  using merge_table [OF assms] is_equal_lookup [OF assms(1-3)] by blast

theorem maps_merge_witness:
  "\<exists>m. gray_maps_merge 5 7 byte_map byte_map = Some (Inr m) \<and> map_ok 7 m"
  using maps_merge [of 7 byte_map byte_map 3] by auto

text \<open>The keys and the values of a map come out as well-formed arrays, in insertion order and
  side by side; the search for a value finds the key of its first entry, and fails when no entry has it.\<close>

theorem maps_entries:
  assumes "map_ok seed m" "map_count m \<le> 2147483647"
  shows "array_ok (gray_maps_get_keys m) \<and> array_ok (gray_maps_get_values m)
    \<and> zip (array_list (gray_maps_get_keys m)) (array_list (gray_maps_get_values m)) = map_entries m
    \<and> gray_maps_find_key m v = map_option fst (find (\<lambda>e. gray_elem_equal (map_value_kind m) (map_value_size m) (snd e) v) (map_entries m))
    \<and> (gray_maps_contains_value m v \<longleftrightarrow> gray_maps_find_key m v \<noteq> None)"
  using get_keys_values [OF assms] find_key_entries [OF assms(1)] contains_value_find [OF assms(1)] by (simp add: zip_map_fst_snd)

theorem maps_entries_witness:
  "zip (array_list (gray_maps_get_keys byte_map)) (array_list (gray_maps_get_values byte_map)) = []
   \<and> gray_maps_find_key byte_map [1] = None"
  using maps_entries [of 7 byte_map "[1]"] by simp

section \<open>Channels\<close>

text \<open>C28: a channel is a bounded queue, whatever its threads do. In every state they can reach, the values
  sent are those received, in the same order, followed by those in the buffer, which never holds more
  than the capacity it was opened with.\<close>

theorem channels_deliver_in_order:
  assumes "channel_run capacity n s"
  shows "sent s = received s @ channel_items (shared s) \<and> length (channel_items (shared s)) \<le> unat capacity
    \<and> channel_count (shared s) = length (channel_items (shared s)) \<and> channel_capacity (shared s) = unat capacity
    \<and> length (threads s) = n"
proof -
  have "channel_ok (shared s)" "sent s = received s @ channel_items (shared s)"
    using run_ok [OF assms] by (simp_all add: system_ok_def)
  then show ?thesis using run_capacity [OF assms] ring.bound [of "shared s"] by simp
qed

theorem channels_deliver_in_order_witness:
  "\<exists>s. channel_run 2 1 s \<and> sent s = [7] \<and> received s @ channel_items (shared s) = [7]"
proof -
  define opened where "opened = \<lparr>channel_buffer = replicate 2 0, channel_capacity = 2, channel_count = 0,
    channel_head = 0, channel_tail = 0, channel_closed = False\<rparr>"
  define before where "before = \<lparr>shared = opened, threads = replicate 1 Idle, sent = [], received = []\<rparr>"
  have "gray_channels_open 0 True 2 = Inr opened" by (simp add: gray_channels_open_def opened_def)
  then have "channel_run 2 1 before" unfolding before_def by (rule channel_run.opened)
  moreover have "channel_step before (before\<lparr>shared := put_value opened 7, threads := threads before, sent := sent before @ [7]\<rparr>)"
    by (rule channel_step.try_send [of 0]) (simp_all add: before_def opened_def gray_channels_try_send_def live_channel_def signals_def)
  ultimately have run: "channel_run 2 1 (before\<lparr>shared := put_value opened 7, threads := threads before, sent := sent before @ [7]\<rparr>)"
    by (rule channel_run.step)
  then show ?thesis using channels_deliver_in_order [OF run] by (intro exI [of _ "before\<lparr>shared := put_value opened 7, sent := [7]\<rparr>"]) (simp add: before_def)
qed

text \<open>C29: no wake-up is lost. While a thread sleeps in a blocking call, the channel is open, and either the
  call could not be served or a thread of the same kind is awake, whose turn does not wait: the channel
  never holds values, or room, that only sleeping threads want.\<close>

theorem channels_no_lost_wakeup:
  assumes "channel_run capacity n s" "i < n" "waits_on c (threads s ! i)"
  shows "\<not> channel_closed (shared s)
    \<and> (case c of
         Not_empty \<Rightarrow> channel_items (shared s) = []
           \<or> (\<exists>j < n. threads s ! j = Receiving \<and> gray_channels_receive (shared s) \<noteq> Waits)
       | Not_full \<Rightarrow> length (channel_items (shared s)) = unat capacity
           \<or> (\<exists>j < n. \<exists>v. threads s ! j = Sending v \<and> gray_channels_send (shared s) v \<noteq> Waits))"
  using channel_waits_served [OF assms] .

theorem channels_no_lost_wakeup_witness:
  "\<exists>s. channel_run 1 1 s \<and> threads s = [Wait_not_empty] \<and> channel_items (shared s) = []"
proof -
  define opened where "opened = \<lparr>channel_buffer = replicate 1 0, channel_capacity = 1, channel_count = 0,
    channel_head = 0, channel_tail = 0, channel_closed = False\<rparr>"
  define before where "before = \<lparr>shared = opened, threads = replicate 1 Idle, sent = [], received = []\<rparr>"
  have "gray_channels_open 0 True 1 = Inr opened" by (simp add: gray_channels_open_def opened_def)
  then have "channel_run 1 1 before" unfolding before_def by (rule channel_run.opened)
  moreover have "channel_step before (before\<lparr>threads := (threads before)[0 := Receiving]\<rparr>)"
    by (rule channel_step.call_receive) (simp_all add: before_def)
  ultimately have "channel_run 1 1 (before\<lparr>threads := (threads before)[0 := Receiving]\<rparr>)" by (rule channel_run.step)
  then have run: "channel_run 1 1 (before\<lparr>threads := [Wait_not_empty]\<rparr>)"
    using channel_step.receive_waits [of 0 "before\<lparr>threads := (threads before)[0 := Receiving]\<rparr>"] channel_run.step
    by (fastforce simp: before_def opened_def gray_channels_receive_def)
  have "channel_items opened = []" using channels_no_lost_wakeup [OF run, of 0 Not_empty] by (simp add: before_def)
  then show ?thesis using run by (intro exI [of _ "before\<lparr>threads := [Wait_not_empty]\<rparr>"]) (simp add: before_def)
qed

section \<open>Encodings\<close>

text \<open>C30: decoding what was encoded gives the bytes back, for the five encodings and all byte strings:
  base64 with both alphabets, hexadecimal, URLs and HTML.\<close>

theorem encoding_round_trips:
  "gray_encoding_base64_decode (gray_encoding_base64_encode s) = Inr s
   \<and> gray_encoding_base64_url_decode (gray_encoding_base64_url_encode s) = Inr s
   \<and> gray_encoding_hex_decode (gray_encoding_hex_encode s) = Inr s
   \<and> gray_encoding_url_decode (gray_encoding_url_encode s) = Inr s
   \<and> gray_encoding_html_unescape (gray_encoding_html_escape s) = s"
  by (intro conjI base64_round_trip base64_url_round_trip hex_round_trip url_round_trip html_round_trip)

text \<open>C31: a POSIX shell splits the escaped arguments of a command into exactly these arguments, each as one word
  with all its bytes, the empty one too: nothing in them is a blank, a quote, an operator, a pattern, a
  comment or an expansion to the shell. No argument of a program has a NUL byte.\<close>

theorem shell_escape_is_one_word:
  assumes "\<forall>s \<in> set args. 0 \<notin> set s"
  shows "shell_words False None (concat (map (\<lambda>s. gray_encoding_shell_escape s @ [chr CHR '' '']) args)) = Some args"
  using assms by (rule shell_line_words)

theorem shell_escape_is_one_word_witness:
  "shell_words False None (ascii [CHR 0x27, CHR ''i'', CHR ''t'', CHR 0x27, CHR 0x5C, CHR 0x27, CHR 0x27, CHR ''s'', CHR 0x27,
      CHR '' '', CHR 0x27, CHR 0x27, CHR '' '', CHR ''-'', CHR ''a'', CHR ''='', CHR ''b'', CHR '' '']) = Some [ascii [CHR ''i'', CHR ''t'', CHR 0x27, CHR ''s''], [], ascii ''-a=b'']"
proof -
  let ?args = "[ascii [CHR ''i'', CHR ''t'', CHR 0x27, CHR ''s''], [], ascii ''-a=b'']"
  have "\<forall>s \<in> set ?args. 0 \<notin> set s" by code_simp
  note line = shell_escape_is_one_word [OF this]
  have "concat (map (\<lambda>s. gray_encoding_shell_escape s @ [chr CHR '' '']) ?args) = ascii [CHR 0x27, CHR ''i'', CHR ''t'', CHR 0x27, CHR 0x5C, CHR 0x27, CHR 0x27, CHR ''s'', CHR 0x27,
      CHR '' '', CHR 0x27, CHR 0x27, CHR '' '', CHR ''-'', CHR ''a'', CHR ''='', CHR ''b'', CHR '' '']" by code_simp
  with line show ?thesis by (simp only:)
qed

section \<open>Types\<close>

text \<open>C32: the typechecker converts one sized integer type to another without a cast exactly when every
  value of the first is a value of the second; otherwise it says whether the target is narrower or the
  sign is lost.\<close>

theorem type_conversions:
  assumes "sized_integer s" "sized_integer t" "type_same_distinct s t"
  shows "type_conversion s t =
    (if {v. type_holds s v} \<subseteq> {v. type_holds t v}
     then if type_text s = type_text t then CONVERSION_SAME else CONVERSION_WIDEN
     else if number_width (type_text t) < number_width (type_text s) then CONVERSION_NARROW else CONVERSION_SIGN_CROSS)"
  using assms by (rule type_conversion_value)

theorem type_conversions_witness:
  "type_conversion TYPE_U8 TYPE_I64 = (if {v. type_holds TYPE_U8 v} \<subseteq> {v. type_holds TYPE_I64 v} then CONVERSION_WIDEN else CONVERSION_SIGN_CROSS)"
  using type_conversions [of TYPE_U8 TYPE_I64]
  by (simp add: sized_integer_def TYPE_U8_def TYPE_I64_def plain_type_def type_same_distinct_def number_width_names
      is_signed_integer_type_name_def is_unsigned_integer_type_name_def)

text \<open>C33: the result of an operator on two sized numbers. A shift has one exactly when neither operand is a
  float, and it is the left operand's type. Any other operator has one exactly when the operands are of one
  kind and of one distinct type, and are integers when it is \<open>bit_and\<close>, \<open>bit_or\<close>, \<open>bit_xor\<close> or \<open>%\<close>. The
  result of a comparison is a bool, and of any other operator one of the operands' types, to which both
  operands convert without losing a value.\<close>

theorem operator_results:
  assumes "sized_number l" "sized_number r"
  shows "(type_binary_result operator l r = None \<longleftrightarrow>
      (if operator \<in> {Keyword TOKEN_BIT_SHIFT_LEFT, Keyword TOKEN_BIT_SHIFT_RIGHT}
       then type_kind l = TYPE_KIND_FLOATING_POINT \<or> type_kind r = TYPE_KIND_FLOATING_POINT
       else distinct_name l \<noteq> distinct_name r \<or> type_kind l \<noteq> type_kind r
         \<or> operator \<in> {Keyword TOKEN_BIT_AND, Keyword TOKEN_BIT_OR, Keyword TOKEN_BIT_XOR, Operator TOKEN_PERCENT} \<and> type_kind l = TYPE_KIND_FLOATING_POINT))
    \<and> (\<forall>t. type_binary_result operator l r = Some t \<longrightarrow>
        (if operator \<in> {Keyword TOKEN_BIT_SHIFT_LEFT, Keyword TOKEN_BIT_SHIFT_RIGHT} then t = l
         else if operator \<in> {Operator TOKEN_EQUAL, Operator TOKEN_NOT_EQUAL, Operator TOKEN_LESS_THAN, Operator TOKEN_GREATER_THAN,
             Operator TOKEN_LESS_THAN_OR_EQUAL, Operator TOKEN_GREATER_THAN_OR_EQUAL} then t = TYPE_BOOL
         else (t = l \<or> t = r) \<and> type_conversion l t \<in> {CONVERSION_SAME, CONVERSION_WIDEN}
           \<and> type_conversion r t \<in> {CONVERSION_SAME, CONVERSION_WIDEN}))"
  using binary_result_rule [OF assms, of operator] unfolding operator_kinds .

theorem operator_results_witness:
  "type_binary_result (Operator TOKEN_PLUS) TYPE_U8 TYPE_U64 = Some TYPE_U64
   \<and> type_conversion TYPE_U8 TYPE_U64 \<in> {CONVERSION_SAME, CONVERSION_WIDEN}
   \<and> type_binary_result (Operator TOKEN_PLUS) TYPE_U8 TYPE_I64 = None"
proof -
  have sized: "sized_number TYPE_U8" "sized_number TYPE_U64" "sized_number TYPE_I64" by code_simp+
  have result: "type_binary_result (Operator TOKEN_PLUS) TYPE_U8 TYPE_U64 = Some TYPE_U64" by code_simp
  moreover from operator_results [OF sized(1,2), of "Operator TOKEN_PLUS"] result
  have "type_conversion TYPE_U8 TYPE_U64 \<in> {CONVERSION_SAME, CONVERSION_WIDEN}" by simp
  moreover have "type_kind TYPE_U8 \<noteq> type_kind TYPE_I64" by code_simp
  with operator_results [OF sized(1,3), of "Operator TOKEN_PLUS"]
  have "type_binary_result (Operator TOKEN_PLUS) TYPE_U8 TYPE_I64 = None" by simp
  ultimately show ?thesis by blast
qed

section \<open>The pool of types\<close>

text \<open>C34: resolving the name of a type returns, whatever hash collisions there are. It keeps the pool's
  invariant and every type made before in its place, and resolving the name again gives the same type and
  makes none, so that types can be compared by their pointers.\<close>

theorem type_names:
  assumes "pool_ok p"
  shows "\<exists>p' r. type_from_name p written = Some (p', r) \<and> pool_ok p' \<and> type_from_name p' written = Some (p', r)
    \<and> (\<forall>i < length (pool_types p). deref p' (Pooled i) = deref p (Pooled i))
    \<and> (\<forall>name. distinct_type_named p' name = distinct_type_named p name)"
proof -
  obtain p' r where p': "type_from_name p written = Some (p', r)" "pool_ok p'" "extends p p'" "type_from_name p' written = Some (p', r)"
    using type_from_name_ok [OF assms] by blast
  then have "\<forall>i < length (pool_types p). deref p' (Pooled i) = deref p (Pooled i)" by (simp add: extends_deref)
  then show ?thesis using p' distinct_type_extends [OF assms p'(3)] by blast
qed

theorem type_names_witness:
  "\<exists>p r. type_from_name type_pool_reset (Some ''map[string:[i64]]'') = Some (p, r)
     \<and> type_from_name p (Some ''map[string:[i64]]'') = Some (p, r)"
  using type_names [OF pool_reset_ok, of "Some ''map[string:[i64]]''"] by blast

text \<open>C35: a pointer, array or map type that is resolved from its spelling has the parts it was spelled with,
  and is printed as it was spelled, less the size of a sized array, when that fits the buffer.\<close>

theorem type_spellings:
  assumes "pool_ok p" "spelled_ok s" "distinct_type_named p (spelling s) = None" "length (spelling (unsized s)) < TYPE_NAME_MAX"
  shows "\<exists>p' r. type_from_name p (Some (spelling s)) = Some (p', r) \<and> deref p' r = spelled_type s
    \<and> type_name (Some (deref p' r)) = spelling (unsized s)"
proof -
  obtain p' r where r: "type_from_name p (Some (spelling s)) = Some (p', r)" using type_from_name_ok [OF assms(1)] by blast
  from resolve_spelled [OF assms(1-3) r] show ?thesis using r type_name_spelled [OF assms(4)] by auto
qed

theorem type_spellings_witness:
  "\<exists>p r. type_from_name type_pool_reset (Some ''[Pair,4]'') = Some (p, r) \<and> type_name (Some (deref p r)) = ''[Pair]''"
proof -
  have "spelled_ok (Sized_array ''Pair'' ''4'')" by code_simp
  then show ?thesis using type_spellings [OF pool_reset_ok, of "Sized_array ''Pair'' ''4''"]
    by (auto simp: distinct_type_named_def type_pool_reset_def TYPE_NAME_MAX_def)
qed

text \<open>C36: resolving the spelling of a type in a module's scope returns the same spelling with each name
  that stands for a struct, an enum or an alias replaced by its mangled name, through pointers, arrays,
  maps and the parameters and results of functions; and the signature that is read from a function type so
  written has the resolved parameters and results. What is cached and pooled on the way changes no
  resolution that follows. The names, and those that replace them, have no punctuation of types, no array
  has functions or pointers to functions as its elements, no function returns \<open>void\<close> by name, no distinct
  type's name looks like a function type, and the result must fit 255 bytes, the buffers of the code.\<close>

theorem type_names_resolve:
  assumes "modules_ok t" "pool_ok pool" "\<forall>name. starts_with ''func('' name \<longrightarrow> distinct_type_named pool name = None"
    "written_ok w" "length (written_text (renamed (leaf_name t within) w)) < 256" "size w < k"
  shows "(\<exists>t' pool' changed. module_resolve_type_name k within (written_text w) (t, pool)
        = Some ((t', pool'), changed, written_text (renamed (leaf_name t within) w))
      \<and> modules_ok t' \<and> pool_ok pool' \<and> (\<forall>other name. leaf_name t' other name = leaf_name t other name))
    \<and> (\<forall>flags ps rs. renamed (leaf_name t within) w = To_Function flags ps rs \<and> written_ok (To_Function flags ps rs) \<longrightarrow>
        parse_function_signature (written_text (renamed (leaf_name t within) w))
        = Some \<lparr>parameter_types = map written_text ps, is_parameter_mutable = flags, return_types = map written_text rs\<rparr>)"
proof -
  obtain t' pool' changed where r: "module_resolve_type_name k within (written_text w) (t, pool)
      = Some ((t', pool'), changed, written_text (renamed (leaf_name t within) w))" "agrees t t'" "pool_ok pool'"
    by (rule type_name_resolved [OF assms])
  then show ?thesis using agrees_ok [OF r(2) assms(1)] agrees_leaf(2) [OF r(2)] written_signature by metis
qed

theorem type_names_resolve_witness:
  "\<exists>t scope s changed. modules_ok t
     \<and> module_resolve_type_name 20 scope ''func(&Point,map[string:[Point,4]])->^Point'' (t, type_pool_reset)
       = Some (s, changed, ''func(&geometry_Point,map[string:[geometry_Point,4]])->^geometry_Point'')
     \<and> parse_function_signature ''func(&geometry_Point,map[string:[geometry_Point,4]])->^geometry_Point''
       = Some \<lparr>parameter_types = [''geometry_Point'', ''map[string:[geometry_Point,4]]''],
           is_parameter_mutable = [True, False], return_types = [''^geometry_Point'']\<rparr>"
proof -
  obtain t e where t: "modules_ok t" "find_module t ''geometry'' = Some 0" "declared t 0 ''Point'' = Some e"
      "\<forall>name. name \<noteq> ''Point'' \<longrightarrow> declared t 0 name = None" "entry_kind (declarations t ! e) = DECLARATION_STRUCT"
      "snd (module_mangle t e) = ''geometry_Point''"
    using point_declared by blast
  let ?scope = "Some \<lparr>from_module = Some ''geometry'', from_file = None, using_modules = []\<rparr>"
  let ?w = "To_Function [True, False] [Leaf ''Point'', To_Map (Leaf ''string'') (To_Sized_Array (Leaf ''Point'') ''4'')] [To_Pointer (Leaf ''Point'')]"
  let ?r = "To_Function [True, False] [Leaf ''geometry_Point'', To_Map (Leaf ''string'') (To_Sized_Array (Leaf ''geometry_Point'') ''4'')]
      [To_Pointer (Leaf ''geometry_Point'')]"
  have own: "module_resolve_unqualified t \<lparr>from_module = Some ''geometry'', from_file = None, using_modules = []\<rparr> name False
      = Some (declared t 0 name, None)" for name
    by (cases "declared t 0 name") (simp_all add: module_resolve_unqualified_def lookup_then [OF t(1)] t(2))
  have leaf: "leaf_name t ?scope ''Point'' = ''geometry_Point''" "leaf_name t ?scope ''string'' = ''string''"
    using t(3-6) by (simp_all add: leaf_name_def leaf_entry_def module_resolve_written_def module_split_qualified_def own)
  then have renamed: "renamed (leaf_name t ?scope) ?w = ?r" by simp
  have texts: "written_text ?w = ''func(&Point,map[string:[Point,4]])->^Point''"
    "written_text ?r = ''func(&geometry_Point,map[string:[geometry_Point,4]])->^geometry_Point''" by code_simp+
  have ok: "written_ok ?w" "written_ok ?r" "size ?w < 20" "length (written_text ?r) < 256" by code_simp+
  have none: "\<forall>name. starts_with ''func('' name \<longrightarrow> distinct_type_named type_pool_reset name = None"
    by (simp add: distinct_type_named_def type_pool_reset_def)
  have "length (written_text (renamed (leaf_name t ?scope) ?w)) < 256" unfolding renamed by (rule ok(4))
  note r = type_names_resolve [OF t(1) pool_reset_ok none ok(1) this ok(3), unfolded renamed texts]
  have "parse_function_signature ''func(&geometry_Point,map[string:[geometry_Point,4]])->^geometry_Point''
       = Some \<lparr>parameter_types = [''geometry_Point'', ''map[string:[geometry_Point,4]]''],
           is_parameter_mutable = [True, False], return_types = [''^geometry_Point'']\<rparr>"
    using conjunct2 [OF r] ok(2) by simp
  then show ?thesis using conjunct1 [OF r] t(1) by blast
qed

section \<open>Modules\<close>

text \<open>C37: declaring a name in a module returns, whatever hash collisions there are, and keeps the invariant of
  the module table with its indices. A name that is taken keeps its first declaration and nothing changes;
  otherwise the module answers the name with the new declaration, the syntax node leads to it, and all
  other names of all modules are answered as before.\<close>

theorem module_declarations:
  assumes "modules_ok t" "i < length (modules t)" "fresh_node t n"
  shows "\<exists>t' e. module_scope_define t i kind name n file at_line visible = Some (t', e) \<and> modules_ok t'
    \<and> module_scope_lookup t' (Some i) name = Some (Some e)
    \<and> (case declared t i name of
         Some e' \<Rightarrow> t' = t \<and> e = e'
       | None \<Rightarrow> entry_name (declarations t' ! e) = name \<and> entry_kind (declarations t' ! e) = kind
           \<and> visibility (declarations t' ! e) = visible \<and> origin_file (declarations t' ! e) = file
           \<and> entry_module_name (declarations t' ! e) = Some (scope_module_name (modules t ! i))
           \<and> e \<notin> {..< length (declarations t)} \<and> take (length (declarations t)) (declarations t') = declarations t
           \<and> (\<forall>a. n = Some a \<longrightarrow> module_table_entry_for_node t' n = Some (Some e))
           \<and> (\<forall>j < length (modules t). \<forall>x. (j, x) \<noteq> (i, name) \<longrightarrow>
                module_scope_lookup t' (Some j) x = module_scope_lookup t (Some j) x))"
proof (cases "declared t i name")
  case (Some e)
  then show ?thesis using module_scope_define_taken [OF assms(1,2) Some] assms by (simp add: module_scope_lookup_value)
next
  case None
  from module_scope_define_new [OF assms(1,2) None assms(3), of kind "file" at_line visible] obtain t' where
    t': "module_scope_define t i kind name n file at_line visible = Some (t', length (declarations t))" "modules_ok t'"
      "length (modules t') = length (modules t)"
    and seen: "\<forall>j < length (modules t). \<forall>x. declared t' j x = (if j = i \<and> x = name then Some (length (declarations t)) else declared t j x)"
    and d: "declarations t' = declarations t @ [\<lparr>entry_kind = kind, entry_name = name, entry_module_name = Some (scope_module_name (modules t ! i)),
         is_module_entry = scope_is_entry (modules t ! i), ast_node = n, origin_file = file, origin_line = at_line,
         visibility = visible, is_external = False, registry_index = - 1, cached_mangled_name = None\<rparr>]"
    and node: "node_entry t' = (case n of None \<Rightarrow> node_entry t | Some a \<Rightarrow> (node_entry t)(a \<mapsto> length (declarations t)))"
    by blast
  have look: "module_scope_lookup t' (Some j) x = Some (declared t' j x)" "module_scope_lookup t (Some j) x = Some (declared t j x)"
    if "j < length (modules t)" for j x using that t'(2,3) assms(1) by (simp_all add: module_scope_lookup_value)
  have "module_table_entry_for_node t' n = Some (Some (length (declarations t)))" if "n = Some a" for a
    using that node t'(2) by (simp add: entry_for_node_value modules_ok_def)
  then show ?thesis using None t' look seen assms(2) d by auto
qed

theorem module_declarations_witness:
  "\<exists>t t' e. module_table_scope module_table_create ''geometry'' False = Some (t, 0)
     \<and> module_scope_define t 0 DECLARATION_STRUCT ''Point'' (Some 4096) None 1 VISIBILITY_PUBLIC = Some (t', e)
     \<and> module_scope_lookup t' (Some 0) ''Point'' = Some (Some e) \<and> module_table_entry_for_node t' (Some 4096) = Some (Some e)"
proof -
  obtain t where t: "module_table_scope module_table_create ''geometry'' False = Some (t, 0)" "modules_ok t" "length (modules t) = 1"
      "declared t 0 ''Point'' = None" "node_index t = None"
    using module_table_scope_ok [OF create_ok, of "''geometry''" False]
    by (auto simp: module_table_create_def find_module_def index_of_def declared_def dest: find_module_bound)
  then show ?thesis using module_declarations [OF t(2), of 0 "Some 4096" DECLARATION_STRUCT "''Point''" None 1 VISIBILITY_PUBLIC]
    by (auto simp: fresh_node_def node_entry_def)
qed

text \<open>C38: a name without a qualifier is what the scope's own module declares, whatever it uses. Otherwise it is
  resolved exactly when the modules in \<open>using\<close> give one declaration that is visible from the file, in
  whatever order they are used and through whatever aliases; when they give several, the name is
  unresolved and one of them is reported as ambiguous.\<close>

theorem name_resolution:
  assumes "modules_ok t"
  shows "\<exists>r ambiguous. module_resolve_unqualified t scope name True = Some (r, ambiguous)
    \<and> (case own_declaration t scope name of
         Some e \<Rightarrow> r = Some e \<and> ambiguous = None
       | None \<Rightarrow>
           (\<forall>e. r = Some e \<longleftrightarrow> seen_by_using t scope name = {e})
           \<and> (r \<noteq> None \<or> seen_by_using t scope name = {} \<longrightarrow> ambiguous = None)
           \<and> (r = None \<and> seen_by_using t scope name \<noteq> {} \<longrightarrow>
               (\<exists>e \<in> seen_by_using t scope name. ambiguous = entry_module_name (declarations t ! e))))"
  using assms by (rule resolve_unqualified_value)

theorem name_resolution_witness:
  "\<exists>t e. modules_ok t \<and> module_resolve_unqualified t \<lparr>from_module = None, from_file = None, using_modules = [''geometry'', ''geometry'']\<rparr>
      ''Point'' True = Some (Some e, None)"
proof -
  let ?s = "\<lparr>from_module = None, from_file = None, using_modules = [''geometry'', ''geometry'']\<rparr>"
  obtain t e where t: "modules_ok t" "find_module t ''geometry'' = Some 0" "declared t 0 ''Point'' = Some e"
      "visibility (declarations t ! e) = VISIBILITY_PUBLIC" "aliases t = []"
    using point_declared by blast
  have "own_declaration t ?s ''Point'' = None" by (simp add: own_declaration_def)
  moreover have "seen_by_using t ?s ''Point'' = {e}"
    using t by (auto simp: seen_by_using_def seen_through_def module_table_resolve_alias_def is_module_declaration_visible_def)
  ultimately have "module_resolve_unqualified t ?s ''Point'' True = Some (Some e, None)"
    using name_resolution [OF t(1), of ?s "''Point''"] by auto
  then show ?thesis using t(1) by blast
qed

text \<open>C39: a qualified name is resolved in the module its qualifier is an alias of in the file, or an alias of
  everywhere, or the name of. A missing module, a missing declaration and a private declaration of another
  file are told apart, and the private declaration is still returned.\<close>

theorem qualified_names:
  assumes "modules_ok t" "qualifier \<noteq> []"
  shows "module_resolve_qualified t scope qualifier name =
    (let file = Option.bind scope from_file;
         module = (case (if file = None then None else alias_in t file qualifier) of
             Some m \<Rightarrow> m | None \<Rightarrow> (case alias_in t None qualifier of Some m \<Rightarrow> m | None \<Rightarrow> qualifier))
     in Some (case find_module t module of
        None \<Rightarrow> (None, RESOLVE_NO_MODULE)
      | Some i \<Rightarrow> (case declared t i name of
          None \<Rightarrow> (None, RESOLVE_NO_DECLARATION)
        | Some e \<Rightarrow>
            (Some e, if visibility (declarations t ! e) = VISIBILITY_PRIVATE \<and> (file = None \<or> file \<noteq> origin_file (declarations t ! e))
               then RESOLVE_PRIVATE else RESOLVE_OK))))"
  using resolve_qualified_value [OF assms, of scope name]
  by (auto simp: Let_def resolve_alias_value [symmetric] is_module_declaration_visible_def split: option.splits)

theorem qualified_names_witness:
  "\<exists>t e. modules_ok t
     \<and> module_resolve_qualified (module_table_add_alias t (Some ''main.gray'') ''g'' ''geometry'')
         (Some \<lparr>from_module = None, from_file = Some ''main.gray'', using_modules = []\<rparr>) ''g'' ''Point'' = Some (Some e, RESOLVE_OK)"
proof -
  obtain t e where t: "modules_ok t" "find_module t ''geometry'' = Some 0" "declared t 0 ''Point'' = Some e"
      "visibility (declarations t ! e) = VISIBILITY_PUBLIC" "aliases t = []"
    using point_declared by blast
  let ?t = "module_table_add_alias t (Some ''main.gray'') ''g'' ''geometry''"
  have same: "?t = t\<lparr>aliases := [(''g'', ''geometry'', Some ''main.gray'')]\<rparr>" using t(5) by (simp add: module_table_add_alias_def)
  then have "modules_ok ?t" "find_module ?t ''geometry'' = Some 0" "declared ?t 0 ''Point'' = Some e" "declarations ?t = declarations t"
    using t modules_ok_aliases [OF t(1)] by (simp_all add: find_module_def declared_def)
  then show ?thesis using t(1,4) same qualified_names [of ?t "''g''" "Some \<lparr>from_module = None, from_file = Some ''main.gray'', using_modules = []\<rparr>" "''Point''"]
    by (auto simp: alias_in_def Let_def)
qed

section \<open>Scopes\<close>

text \<open>C40: declaring a name in the innermost scope of a chain returns, whatever hash collisions there are;
  the chain then answers the name with the declaration, which shadows those of the outer scopes, and
  every other name as before.\<close>

theorem scope_declarations:
  assumes "scope_ok s" "\<forall>p \<in> set parents. scope_ok p"
  shows "\<exists>s' y. scope_define s name type mutable = Some s' \<and> scope_ok s'
    \<and> scope_lookup (s' # parents) name = Some (Some y) \<and> symbol_name y = name \<and> symbol_type y = type \<and> is_mutable y = mutable
    \<and> (\<forall>other. other \<noteq> name \<longrightarrow> scope_lookup (s' # parents) other = scope_lookup (s # parents) other)"
  using assms by (rule scope_define_lookup)

theorem scope_declarations_witness:
  "\<exists>s' y. scope_define (scope_create None) ''x'' TYPE_I64 True = Some s' \<and> scope_lookup [s'] ''x'' = Some (Some y)
     \<and> symbol_type y = TYPE_I64"
  using scope_declarations [of "scope_create None" "[]" "''x''" TYPE_I64 True] by auto

end
